(* ===== verification/Pj_Prelude.thy ===== *)
theory Pj_Prelude
  imports Main "HOL-Library.Word" "HOL-Library.Multiset"
begin

text \<open>
  Shared vocabulary of the development: the fixed-width integer types of
  \<^verbatim>\<open>pjlib/include/pj/types.h\<close>, the status codes of \<^verbatim>\<open>pjlib/include/pj/errno.h\<close>
  that the modelled code returns, C's truncating division, wrap-around arithmetic on
  C's \<^verbatim>\<open>unsigned\<close>, and the generic lemmas on lists and circular indices that
  several components use.

  C's \<^verbatim>\<open>unsigned\<close> is a \<open>nat\<close> below \<open>2 ^ 32\<close> with the wrap-around written out
  (\<open>u32\<close>, \<open>u32_sub\<close>) where the code does counter arithmetic, and a
  machine word where it works on wire formats.  Logging and assertions that do not change
  the control flow are left out.
\<close>

unbundle bit_operations_syntax

type_synonym u8 = "8 word"
type_synonym u16 = "16 word"
type_synonym u32 = "32 word"

named_theorems pj_defs \<open>unfolding rules for the operations of a component\<close>
named_theorems pj_arith \<open>wrap-around and circular-index facts\<close>

section \<open>Status codes\<close>

datatype pj_status =
    PJ_SUCCESS
  | PJ_EINVAL
  | PJ_EBUSY
  | PJ_EPENDING
  | PJ_ENOMEM
  | PJ_EINVALIDOP
  | PJ_EEXISTS
  | PJ_ETOOSMALL
  | PJ_ETOOBIG
  | PJ_ETOOMANY
  | PJ_ENOTFOUND
  | PJ_EUNKNOWN
  | PJ_EOTHER int

definition PJ_EBUG :: pj_status where "PJ_EBUG = PJ_EOTHER 70008"

section \<open>C integer arithmetic\<close>

text \<open>C's \<^verbatim>\<open>/\<close> and \<^verbatim>\<open>%\<close> on \<^verbatim>\<open>int\<close> truncate towards zero.\<close>

definition c_div :: "int \<Rightarrow> int \<Rightarrow> int" where
  "c_div a b = sgn a * sgn b * (\<bar>a\<bar> div \<bar>b\<bar>)"

definition c_mod :: "int \<Rightarrow> int \<Rightarrow> int" where
  "c_mod a b = a - c_div a b * b"

lemma c_div_nonneg: "0 \<le> a \<Longrightarrow> 0 < b \<Longrightarrow> c_div a b = a div b"
  by (cases "a = 0") (simp_all add: c_div_def)

lemma c_div_mod_eq: "c_div a b * b + c_mod a b = a"
  by (simp add: c_mod_def)

text \<open>The value of an unsigned 32-bit expression, given its mathematical value.\<close>

definition u32 :: "int \<Rightarrow> nat" where
  "u32 i = nat (i mod 2 ^ 32)"

definition u32_sub :: "nat \<Rightarrow> nat \<Rightarrow> nat" where
  "u32_sub a b = u32 (int a - int b)"

lemma u32_less [simp]: "u32 i < 4294967296"
  by (simp add: u32_def nat_less_iff)

lemma u32_of_nat [simp]: "n < 4294967296 \<Longrightarrow> u32 (int n) = n"
  by (simp add: u32_def)

lemma u32_nonneg: "0 \<le> i \<Longrightarrow> i < 4294967296 \<Longrightarrow> u32 i = nat i"
  by (simp add: u32_def)

lemma u32_sub_le [simp]: "b \<le> a \<Longrightarrow> a < 4294967296 \<Longrightarrow> u32_sub a b = a - b"
  by (simp add: u32_sub_def u32_nonneg nat_diff_distrib)

section \<open>Circular indices\<close>

text \<open>
  Positions of a circular buffer of \<open>n\<close> slots, counted from a head: two offsets below
  \<open>n\<close> name the same slot exactly when they are equal.
\<close>

lemma mod_add_cancel_less:
  fixes h i j n :: nat
  assumes "i < n" "j < n" "(h + i) mod n = (h + j) mod n"
  shows "i = j"
proof -
  have False if "a < b" "b < n" "(h + a) mod n = (h + b) mod n" for a b :: nat
  proof -
    have "n dvd (h + b) - (h + a)"
      using that(3) mod_eq_dvd_iff_nat [of "h + a" "h + b" n] that(1) by simp
    then show False using that(1,2) by (auto dest: dvd_imp_le)
  qed
  then show ?thesis using assms by (metis linorder_neqE_nat)
qed

lemma slot_reach:
  fixes h p n :: nat
  assumes "h < n" "p < n"
  shows "\<exists>d<n. (h + d) mod n = p"
proof (cases "h \<le> p")
  case True
  then have "(h + (p - h)) mod n = p" using assms by simp
  moreover have "p - h < n" using assms by simp
  ultimately show ?thesis by blast
next
  case False
  then have "h + (n - h + p) = n + p" using assms by simp
  then have "(h + (n - h + p)) mod n = p" using assms by simp
  moreover have "n - h + p < n" using False assms by simp
  ultimately show ?thesis by blast
qed

end
