(* ===== verification/Rtp.thy ===== *)
theory Rtp
  imports Pj_Prelude
begin

text \<open>
  The RTP session of \<^verbatim>\<open>pjmedia/src/pjmedia/rtp.c\<close>: packet header layout, the
  encoder's running header, the bounds-checked decoder and the RFC 3550 sequence-number
  tracker.  Multi-byte header fields are kept in network byte order, as the C struct keeps
  them, and converted by \<^verbatim>\<open>pj_htons\<close>/\<^verbatim>\<open>pj_ntohl\<close>; the model is of a little-endian
  host.  The values that \<^verbatim>\<open>pj_rand\<close> returns are arguments.
\<close>

section \<open>Byte order\<close>

definition pj_htons :: "u16 \<Rightarrow> u16" where
  "pj_htons w = push_bit 8 w OR drop_bit 8 w"

definition pj_htonl :: "u32 \<Rightarrow> u32" where
  "pj_htonl w = push_bit 24 w OR push_bit 16 (take_bit 8 (drop_bit 8 w))
     OR push_bit 8 (take_bit 8 (drop_bit 16 w)) OR drop_bit 24 w"

abbreviation pj_ntohs :: "u16 \<Rightarrow> u16" where "pj_ntohs \<equiv> pj_htons"
abbreviation pj_ntohl :: "u32 \<Rightarrow> u32" where "pj_ntohl \<equiv> pj_htonl"

lemma pj_htons_htons [simp]: "pj_htons (pj_htons w) = w"
  by (rule bit_word_eqI) (auto simp: pj_htons_def bit_simps)

lemma bit_pj_htonl:
  "bit (pj_htonl w) n =
     (if n < 8 then bit w (n + 24) else if n < 16 then bit w (n + 8)
      else if n < 24 then bit w (n - 8) else n < 32 \<and> bit w (n - 24))"
proof -
  have h: "bit w k \<Longrightarrow> k < 32" for k
    using bit_imp_le_length [of w k] by simp
  consider "n < 8" | "8 \<le> n" "n < 16" | "16 \<le> n" "n < 24" | "24 \<le> n" by linarith
  then show ?thesis
    by cases (auto simp: pj_htonl_def bit_simps add.commute dest: h)
qed

lemma pj_htonl_htonl [simp]: "pj_htonl (pj_htonl w) = w"
proof (rule bit_word_eqI)
  fix n :: nat
  assume "n < LENGTH(32)"
  then consider "n < 8" | "8 \<le> n" "n < 16" | "16 \<le> n" "n < 24" | "24 \<le> n" "n < 32"
    by fastforce
  then show "bit (pj_htonl (pj_htonl w)) n = bit w n"
    by cases (auto simp: bit_pj_htonl)
qed

section \<open>Data\<close>

record pjmedia_rtp_hdr =
  hdr_v :: "2 word"
  hdr_p :: "1 word"
  hdr_x :: "1 word"
  hdr_cc :: "4 word"
  hdr_m :: "1 word"
  hdr_pt :: "7 word"
  hdr_seq :: u16
  hdr_ts :: u32
  hdr_ssrc :: u32

record pjmedia_rtp_seq_session =
  max_seq :: u16
  cycles :: u32
  base_seq :: u32
  bad_seq :: u32
  probation :: u32

record pjmedia_rtp_session =
  out_hdr :: pjmedia_rtp_hdr
  seq_ctrl :: pjmedia_rtp_seq_session
  out_pt :: u16
  out_extseq :: u32
  has_peer_ssrc :: bool
  peer_ssrc :: u32
  received :: u32

record pjmedia_rtp_status =
  st_bad :: bool
  st_badpt :: bool
  st_badssrc :: bool
  st_dup :: bool
  st_outorder :: bool
  st_probation :: bool
  st_restart :: bool
  st_diff :: u16

record pjmedia_rtp_session_setting =
  set_flags :: u8
  set_default_pt :: int
  set_sender_ssrc :: u32
  set_peer_ssrc :: u32
  set_seq :: u16
  set_ts :: u32

definition st_zero :: pjmedia_rtp_status where
  "st_zero = \<lparr>st_bad = False, st_badpt = False, st_badssrc = False, st_dup = False,
     st_outorder = False, st_probation = False, st_restart = False, st_diff = 0\<rparr>"

definition RTP_VERSION :: "2 word" where "RTP_VERSION = 2"
definition RTP_SEQ_MOD :: nat where "RTP_SEQ_MOD = 65536"
definition MAX_DROPOUT :: nat where "MAX_DROPOUT = 3000"
definition MAX_MISORDER :: nat where "MAX_MISORDER = 100"
definition MIN_SEQUENTIAL :: u32 where "MIN_SEQUENTIAL = 2"

lemmas rtp_consts = RTP_VERSION_def RTP_SEQ_MOD_def MAX_DROPOUT_def MAX_MISORDER_def
  MIN_SEQUENTIAL_def

section \<open>Sequence number tracking\<close>

definition pjmedia_rtp_seq_restart ::
    "pjmedia_rtp_seq_session \<Rightarrow> u16 \<Rightarrow> pjmedia_rtp_seq_session" where
  "pjmedia_rtp_seq_restart sess seq =
     sess\<lparr>base_seq := ucast seq, max_seq := seq, bad_seq := of_nat (RTP_SEQ_MOD + 1), cycles := 0\<rparr>"

definition pjmedia_rtp_seq_init ::
    "pjmedia_rtp_seq_session \<Rightarrow> u16 \<Rightarrow> pjmedia_rtp_seq_session" where
  "pjmedia_rtp_seq_init sess seq =
     (pjmedia_rtp_seq_restart sess seq)\<lparr>max_seq := seq - 1, probation := MIN_SEQUENTIAL\<rparr>"

definition pjmedia_rtp_seq_update ::
    "pjmedia_rtp_seq_session \<Rightarrow> u16 \<Rightarrow> pjmedia_rtp_seq_session \<times> pjmedia_rtp_status" where
  "pjmedia_rtp_seq_update sess seq =
     (let udelta = seq - max_seq sess; st = st_zero in
      if probation sess \<noteq> 0 then
        (let st = st\<lparr>st_probation := True\<rparr> in
         if seq = max_seq sess + 1 then
           (let sess1 = sess\<lparr>probation := probation sess - 1, max_seq := seq\<rparr> in
            (if probation sess1 = 0 then sess1\<lparr>base_seq := ucast seq\<rparr> else sess1,
             st\<lparr>st_diff := 1\<rparr>))
         else
           (sess\<lparr>probation := MIN_SEQUENTIAL - 1, max_seq := seq\<rparr>,
            (if seq = max_seq sess then st\<lparr>st_bad := True, st_dup := True\<rparr>
             else st\<lparr>st_bad := True, st_outorder := True\<rparr>)))
      else if udelta = 0 then (sess, st\<lparr>st_dup := True\<rparr>)
      else if unat udelta < MAX_DROPOUT then
        (let sess1 = (if seq < max_seq sess
                      then sess\<lparr>cycles := cycles sess + of_nat RTP_SEQ_MOD\<rparr> else sess) in
         (sess1\<lparr>max_seq := seq\<rparr>, st\<lparr>st_diff := udelta\<rparr>))
      else if unat udelta \<le> RTP_SEQ_MOD - MAX_MISORDER then
        (if ucast seq = bad_seq sess then
           (pjmedia_rtp_seq_restart sess seq,
            st\<lparr>st_restart := True, st_probation := True, st_diff := 1\<rparr>)
         else
           (sess\<lparr>bad_seq := (ucast seq + 1) AND of_nat (RTP_SEQ_MOD - 1)\<rparr>,
            st\<lparr>st_bad := True, st_outorder := True\<rparr>))
      else (sess, st\<lparr>st_outorder := True\<rparr>))"

section \<open>Session set-up and encoding\<close>

definition rtp_hdr_zero :: pjmedia_rtp_hdr where
  "rtp_hdr_zero = \<lparr>hdr_v = 0, hdr_p = 0, hdr_x = 0, hdr_cc = 0, hdr_m = 0, hdr_pt = 0,
     hdr_seq = 0, hdr_ts = 0, hdr_ssrc = 0\<rparr>"

definition seq_session_zero :: pjmedia_rtp_seq_session where
  "seq_session_zero = \<lparr>max_seq = 0, cycles = 0, base_seq = 0, bad_seq = 0, probation = 0\<rparr>"

definition pjmedia_rtp_session_init ::
    "int \<Rightarrow> u32 \<Rightarrow> int \<Rightarrow> int \<Rightarrow> int \<Rightarrow> pjmedia_rtp_session" where
  "pjmedia_rtp_session_init default_pt sender_ssrc rand_ssrc rand_seq rand_ts =
     (let ssrc = (if sender_ssrc = 0 \<or> sender_ssrc = -1
                  then pj_htonl (of_int rand_ssrc) else pj_htonl sender_ssrc);
          extseq = of_int rand_seq AND 0x7FFF in
      \<lparr>out_hdr = rtp_hdr_zero\<lparr>hdr_v := RTP_VERSION, hdr_pt := ucast (of_int default_pt :: u8),
                  hdr_seq := pj_htons (ucast extseq), hdr_ts := of_int rand_ts,
                  hdr_ssrc := ssrc\<rparr>,
       seq_ctrl = seq_session_zero, out_pt = of_int default_pt, out_extseq = extseq,
       has_peer_ssrc = False, peer_ssrc = 0, received = 0\<rparr>)"

definition pjmedia_rtp_session_init2 ::
    "pjmedia_rtp_session_setting \<Rightarrow> int \<Rightarrow> int \<Rightarrow> int \<Rightarrow> pjmedia_rtp_session" where
  "pjmedia_rtp_session_init2 s rand_ssrc rand_seq rand_ts =
     (let pt = (if bit (set_flags s) 0 then set_default_pt s else 0);
          ssrc = (if bit (set_flags s) 1 then set_sender_ssrc s else 0);
          ses = pjmedia_rtp_session_init pt ssrc rand_ssrc rand_seq rand_ts;
          ses = (if bit (set_flags s) 2
                 then ses\<lparr>out_extseq := ucast (set_seq s),
                          out_hdr := (out_hdr ses)\<lparr>hdr_seq := pj_htons (set_seq s)\<rparr>\<rparr>
                 else ses);
          ses = (if bit (set_flags s) 3
                 then ses\<lparr>out_hdr := (out_hdr ses)\<lparr>hdr_ts := pj_htonl (set_ts s)\<rparr>\<rparr> else ses)
      in if bit (set_flags s) 4 then ses\<lparr>has_peer_ssrc := True, peer_ssrc := set_peer_ssrc s\<rparr>
         else ses)"

text \<open>The second component is the header handed to the caller, if one is.\<close>

definition pjmedia_rtp_encode_rtp ::
    "pjmedia_rtp_session \<Rightarrow> int \<Rightarrow> int \<Rightarrow> int \<Rightarrow> int \<Rightarrow>
       pjmedia_rtp_session \<times> pjmedia_rtp_hdr option" where
  "pjmedia_rtp_encode_rtp ses pt m payload_len ts_len =
     (let h = out_hdr ses;
          h = h\<lparr>hdr_ts := pj_htonl (pj_ntohl (hdr_ts h) + of_int ts_len)\<rparr>;
          ses = ses\<lparr>out_hdr := h\<rparr> in
      if payload_len = 0 then (ses, None)
      else
        (let ext = out_extseq ses + 1;
             h = h\<lparr>hdr_pt := (if pt = -1 then ucast (ucast (out_pt ses) :: u8)
                              else ucast (of_int pt :: u8)),
                   hdr_m := ucast (of_int m :: u16),
                   hdr_seq := pj_htons (ucast ext)\<rparr> in
         (ses\<lparr>out_extseq := ext, out_hdr := h\<rparr>, Some h)))"

section \<open>Header layout and decoding\<close>

text \<open>
  The packed C struct as bytes in memory on a little-endian host: the bit-fields
  \<^verbatim>\<open>cc:4 x:1 p:1 v:2\<close> fill the first byte from its low end and \<^verbatim>\<open>pt:7 m:1\<close> the
  second; the 16- and 32-bit members follow, low byte first.
\<close>

definition rtp_hdr_bytes :: "pjmedia_rtp_hdr \<Rightarrow> u8 list" where
  "rtp_hdr_bytes h =
     [ucast (hdr_cc h) OR push_bit 4 (ucast (hdr_x h)) OR push_bit 5 (ucast (hdr_p h))
        OR push_bit 6 (ucast (hdr_v h)),
      ucast (hdr_pt h) OR push_bit 7 (ucast (hdr_m h)),
      ucast (hdr_seq h), ucast (drop_bit 8 (hdr_seq h)),
      ucast (hdr_ts h), ucast (drop_bit 8 (hdr_ts h)),
      ucast (drop_bit 16 (hdr_ts h)), ucast (drop_bit 24 (hdr_ts h)),
      ucast (hdr_ssrc h), ucast (drop_bit 8 (hdr_ssrc h)),
      ucast (drop_bit 16 (hdr_ssrc h)), ucast (drop_bit 24 (hdr_ssrc h))]"

definition le16 :: "u8 \<Rightarrow> u8 \<Rightarrow> u16" where
  "le16 a b = ucast a OR push_bit 8 (ucast b)"

definition le32 :: "u8 \<Rightarrow> u8 \<Rightarrow> u8 \<Rightarrow> u8 \<Rightarrow> u32" where
  "le32 a b c d = ucast a OR push_bit 8 (ucast b) OR push_bit 16 (ucast c) OR push_bit 24 (ucast d)"

definition rtp_hdr_of_bytes :: "u8 list \<Rightarrow> pjmedia_rtp_hdr" where
  "rtp_hdr_of_bytes p =
     \<lparr>hdr_v = ucast (drop_bit 6 (p ! 0)), hdr_p = ucast (drop_bit 5 (p ! 0)),
      hdr_x = ucast (drop_bit 4 (p ! 0)), hdr_cc = ucast (p ! 0),
      hdr_m = ucast (drop_bit 7 (p ! 1)), hdr_pt = ucast (p ! 1),
      hdr_seq = le16 (p ! 2) (p ! 3), hdr_ts = le32 (p ! 4) (p ! 5) (p ! 6) (p ! 7),
      hdr_ssrc = le32 (p ! 8) (p ! 9) (p ! 10) (p ! 11)\<rparr>"

text \<open>
  The decoder reads the caller's buffer through \<open>rd\<close>, which is \<open>None\<close> outside
  the buffer; such a read makes the whole call \<open>Rtp_fault\<close>, so that memory safety is a
  statement about the model.  On success the decoder gives the extension (offset of its
  header and length in 32-bit words), the payload offset (\<open>None\<close> for the null pointer)
  and the payload length.
\<close>

datatype rtp_decoded =
    Rtp_fault
  | Rtp_EINVER
  | Rtp_EINLEN
  | Rtp_ok "(nat \<times> nat) option" "nat option" nat

definition rd :: "u8 list \<Rightarrow> nat \<Rightarrow> u8 option" where
  "rd pkt i = (if i < length pkt then Some (pkt ! i) else None)"

definition rtp_payload :: "u8 list \<Rightarrow> int \<Rightarrow> (nat \<times> nat) option \<Rightarrow> nat \<Rightarrow> bool \<Rightarrow> rtp_decoded" where
  "rtp_payload pkt pkt_len ext offset padded =
     (if int offset > pkt_len then Rtp_EINLEN
      else
        (let payload = (if int offset = pkt_len then None else Some offset);
             payloadlen = nat (pkt_len - int offset) in
         if padded \<and> payloadlen > 0 then
           (case rd pkt (offset + payloadlen - 1) of
              None \<Rightarrow> Rtp_fault
            | Some pad_len \<Rightarrow>
                Rtp_ok ext payload
                  (if unat pad_len \<le> payloadlen then payloadlen - unat pad_len else payloadlen))
         else Rtp_ok ext payload payloadlen))"

definition pjmedia_rtp_decode_rtp2 :: "u8 list \<Rightarrow> int \<Rightarrow> rtp_decoded" where
  "pjmedia_rtp_decode_rtp2 pkt pkt_len =
     (case rd pkt 0 of
        None \<Rightarrow> Rtp_fault
      | Some b0 \<Rightarrow>
          if (ucast (drop_bit 6 b0) :: 2 word) \<noteq> RTP_VERSION then Rtp_EINVER
          else
            (let offset = 12 + unat (ucast b0 :: 4 word) * 4;
                 padded = bit b0 5 in
             if bit b0 4 then
               (if offset + 4 > u32 pkt_len then Rtp_EINLEN
                else
                  (case (rd pkt (offset + 2), rd pkt (offset + 3)) of
                     (Some l0, Some l1) \<Rightarrow>
                       (let ext_len = unat (pj_ntohs (le16 l0 l1)) in
                        rtp_payload pkt pkt_len (Some (offset, ext_len))
                          (offset + (ext_len + 1) * 4) padded)
                   | _ \<Rightarrow> Rtp_fault))
             else rtp_payload pkt pkt_len None offset padded))"

definition pjmedia_rtp_decode_rtp :: "u8 list \<Rightarrow> int \<Rightarrow> rtp_decoded" where
  "pjmedia_rtp_decode_rtp pkt pkt_len = pjmedia_rtp_decode_rtp2 pkt pkt_len"

section \<open>Receiving\<close>

text \<open>
  \<^verbatim>\<open>pjmedia_rtp_session_update2\<close>.  The caller's status structure, where it passes one, is
  returned updated; on a payload-type mismatch the code leaves its \<^verbatim>\<open>diff\<close> as it was.
  The status flags other than \<^verbatim>\<open>badssrc\<close> come from the sequence tracker, which
  overwrites the whole flag word.
\<close>

definition pjmedia_rtp_session_update2 ::
    "pjmedia_rtp_session \<Rightarrow> pjmedia_rtp_hdr \<Rightarrow> pjmedia_rtp_status \<Rightarrow> bool \<Rightarrow>
       pjmedia_rtp_session \<times> pjmedia_rtp_status" where
  "pjmedia_rtp_session_update2 ses hdr p_seq_st check_pt =
     (let ssrc = pj_ntohl (hdr_ssrc hdr); seq = pj_ntohs (hdr_seq hdr);
          ses1 = (if \<not> has_peer_ssrc ses \<and> peer_ssrc ses = 0 then ses\<lparr>peer_ssrc := ssrc\<rparr> else ses);
          badssrc = (ssrc \<noteq> peer_ssrc ses1);
          ses2 = (if badssrc \<and> \<not> has_peer_ssrc ses1 then ses1\<lparr>peer_ssrc := ssrc\<rparr> else ses1) in
      if check_pt \<and> unat (hdr_pt hdr) \<noteq> unat (out_pt ses2) then
        (ses2, st_zero\<lparr>st_badssrc := badssrc, st_bad := True, st_badpt := True,
                       st_diff := st_diff p_seq_st\<rparr>)
      else
        (let ctl = (if received ses2 = 0 then pjmedia_rtp_seq_init (seq_ctrl ses2) seq
                    else seq_ctrl ses2);
             (ctl', st) = pjmedia_rtp_seq_update ctl seq;
             ses3 = ses2\<lparr>seq_ctrl := ctl'\<rparr> in
         (if st_restart st \<or> \<not> st_bad st then ses3\<lparr>received := received ses3 + 1\<rparr> else ses3, st)))"

definition pjmedia_rtp_session_update ::
    "pjmedia_rtp_session \<Rightarrow> pjmedia_rtp_hdr \<Rightarrow> pjmedia_rtp_status \<Rightarrow>
       pjmedia_rtp_session \<times> pjmedia_rtp_status" where
  "pjmedia_rtp_session_update ses hdr p_seq_st = pjmedia_rtp_session_update2 ses hdr p_seq_st True"

section \<open>Sequence tracking is faithful to the sender's counter\<close>

text \<open>
  The extended highest sequence number of RFC 3550: the cycle count above the 16-bit
  sequence number.
\<close>

definition ext_seq :: "pjmedia_rtp_seq_session \<Rightarrow> u32" where
  "ext_seq s = cycles s + ucast (max_seq s)"

fun seq_updates :: "pjmedia_rtp_seq_session \<Rightarrow> u16 list \<Rightarrow> pjmedia_rtp_seq_session" where
  "seq_updates s [] = s"
| "seq_updates s (q # qs) = seq_updates (fst (pjmedia_rtp_seq_update s q)) qs"

lemma ucast_sub_wrap:
  fixes a b :: u16
  shows "(if b < a then 65536 else 0) + ucast b = (ucast a :: u32) + ucast (b - a)"
proof -
  have ab: "uint a < 65536" "uint b < 65536" "0 \<le> uint a" "0 \<le> uint b"
    using uint_lt2p [of a] uint_lt2p [of b] by simp_all
  have d: "uint (b - a) = (uint b - uint a) mod 65536"
    by (simp add: uint_word_ariths)
  have "uint a + (uint b - uint a) mod 65536 = (if b < a then 65536 else 0) + uint b"
  proof (cases "b < a")
    case True
    then have lt: "uint b < uint a" by (simp add: word_less_def)
    have "(uint b - uint a) mod 65536 = (uint b - uint a + 65536) mod 65536" by simp
    also have "\<dots> = uint b - uint a + 65536"
      using ab lt by (intro mod_pos_pos_trivial; linarith)
    finally show ?thesis using True by simp
  next
    case False
    then have "uint a \<le> uint b" by (simp add: word_less_def)
    then have "(uint b - uint a) mod 65536 = uint b - uint a"
      using ab by (intro mod_pos_pos_trivial; linarith)
    then show ?thesis using False by simp
  qed
  then have "(of_int (uint a + uint (b - a)) :: u32) =
      of_int ((if b < a then 65536 else 0) + uint b)"
    unfolding d by (rule arg_cong)
  then show ?thesis by (simp split: if_splits)
qed

lemma seq_update_in_order:
  assumes "probation s = 0" "0 < unat (q - max_seq s)" "unat (q - max_seq s) < MAX_DROPOUT"
  shows "ext_seq (fst (pjmedia_rtp_seq_update s q)) = ext_seq s + ucast (q - max_seq s)"
    and "max_seq (fst (pjmedia_rtp_seq_update s q)) = q"
    and "probation (fst (pjmedia_rtp_seq_update s q)) = 0"
    and "base_seq (fst (pjmedia_rtp_seq_update s q)) = base_seq s"
    and "st_diff (snd (pjmedia_rtp_seq_update s q)) = q - max_seq s"
proof -
  have ne: "q - max_seq s \<noteq> 0" using assms(2) by (metis unat_0 less_irrefl)
  have w: "(ucast q :: u32) + (if q < max_seq s then 65536 else 0) =
      ucast (max_seq s) + ucast (q - max_seq s)"
    using ucast_sub_wrap [of q "max_seq s"] by (simp add: add.commute)
  show "ext_seq (fst (pjmedia_rtp_seq_update s q)) = ext_seq s + ucast (q - max_seq s)"
    using assms ne w
    by (auto simp: pjmedia_rtp_seq_update_def ext_seq_def RTP_SEQ_MOD_def add_ac Let_def
        split: if_splits)
  show "max_seq (fst (pjmedia_rtp_seq_update s q)) = q"
    "probation (fst (pjmedia_rtp_seq_update s q)) = 0"
    "base_seq (fst (pjmedia_rtp_seq_update s q)) = base_seq s"
    "st_diff (snd (pjmedia_rtp_seq_update s q)) = q - max_seq s"
    using assms ne by (simp_all add: pjmedia_rtp_seq_update_def Let_def)
qed

text \<open>The 16-bit numbers a sender puts on the wire, given the gaps of its own counter.\<close>

fun wire_seqs :: "nat \<Rightarrow> nat list \<Rightarrow> u16 list" where
  "wire_seqs n [] = []"
| "wire_seqs n (d # ds) = of_nat (n + d) # wire_seqs (n + d) ds"

lemma seq_updates_tracks:
  assumes "probation s = 0" "max_seq s = of_nat n" "\<forall>d \<in> set ds. 0 < d \<and> d < MAX_DROPOUT"
  shows "ext_seq (seq_updates s (wire_seqs n ds)) = ext_seq s + of_nat (sum_list ds)"
  using assms
proof (induction ds arbitrary: s n)
  case Nil
  then show ?case by simp
next
  case (Cons d ds)
  let ?s' = "fst (pjmedia_rtp_seq_update s (of_nat (n + d)))"
  have del: "(of_nat (n + d) :: u16) - max_seq s = of_nat d" using Cons.prems(2) by simp
  have d: "0 < d" "d < 3000" using Cons.prems(3) by (auto simp: MAX_DROPOUT_def)
  have und: "unat (of_nat d :: u16) = d" using d by (simp add: unat_of_nat)
  have pre: "0 < unat ((of_nat (n + d) :: u16) - max_seq s)"
    "unat ((of_nat (n + d) :: u16) - max_seq s) < MAX_DROPOUT"
    unfolding del using d und by (simp_all add: MAX_DROPOUT_def)
  note step = seq_update_in_order [OF Cons.prems(1) pre]
  have "ucast (of_nat d :: u16) = (of_nat d :: u32)"
    using und by (metis of_nat_unat)
  then have "ext_seq ?s' = ext_seq s + of_nat d" using step(1) del by simp
  moreover have "ext_seq (seq_updates ?s' (wire_seqs (n + d) ds)) = ext_seq ?s' + of_nat (sum_list ds)"
    using Cons.IH [of ?s' "n + d"] step(2,3) Cons.prems(3) by simp
  ultimately show ?case by (simp add: add.assoc)
qed

lemma seq_update_frame:
  "probation s = 0 \<Longrightarrow> probation (fst (pjmedia_rtp_seq_update s q)) = 0"
  by (auto simp: pjmedia_rtp_seq_update_def pjmedia_rtp_seq_restart_def Let_def)

section \<open>Memory safety of the decoder\<close>

lemma rd_inside: "i < length pkt \<Longrightarrow> rd pkt i = Some (pkt ! i)"
  by (simp add: rd_def)

lemma rtp_payload_ok:
  assumes "0 \<le> pkt_len" "pkt_len \<le> int (length pkt)"
  shows "rtp_payload pkt pkt_len ext offset padded \<noteq> Rtp_fault"
    and "rtp_payload pkt pkt_len ext offset padded = Rtp_ok e p n \<Longrightarrow>
           e = ext \<and> int (offset + n) \<le> pkt_len \<and>
           (case p of None \<Rightarrow> int offset = pkt_len \<and> n = 0 | Some q \<Rightarrow> q = offset \<and> int q < pkt_len)"
proof -
  have in_buf: "offset + nat (pkt_len - int offset) - 1 < length pkt"
    if "int offset \<le> pkt_len" "nat (pkt_len - int offset) > 0"
    using that assms by linarith
  show "rtp_payload pkt pkt_len ext offset padded \<noteq> Rtp_fault"
    using in_buf by (auto simp: rtp_payload_def Let_def rd_def split: option.splits)
  show "rtp_payload pkt pkt_len ext offset padded = Rtp_ok e p n \<Longrightarrow>
           e = ext \<and> int (offset + n) \<le> pkt_len \<and>
           (case p of None \<Rightarrow> int offset = pkt_len \<and> n = 0 | Some q \<Rightarrow> q = offset \<and> int q < pkt_len)"
    by (auto simp: rtp_payload_def Let_def split: option.splits if_splits)
qed

lemma rtp_decode_no_fault:
  assumes "1 \<le> pkt_len" "pkt_len \<le> int (length pkt)" "pkt_len < 2 ^ 31"
  shows "pjmedia_rtp_decode_rtp2 pkt pkt_len \<noteq> Rtp_fault"
proof -
  have u: "u32 pkt_len = nat pkt_len" using assms by (intro u32_nonneg) auto
  have "0 < length pkt" using assms by linarith
  then have r0: "rd pkt 0 = Some (pkt ! 0)" by (rule rd_inside)
  have rin: "rd pkt j = Some (pkt ! j)" if "j < nat pkt_len" for j
    using that assms by (simp add: rd_def)
  show ?thesis
    using assms by (auto simp: pjmedia_rtp_decode_rtp2_def r0 u Let_def rtp_payload_ok(1) rin)
qed

lemma rtp_decode_in_bounds:
  assumes "1 \<le> pkt_len" "pkt_len \<le> int (length pkt)"
    and "pjmedia_rtp_decode_rtp2 pkt pkt_len = Rtp_ok ext p n"
  shows "\<exists>off. 12 \<le> off \<and> int (off + n) \<le> pkt_len \<and>
           (case p of None \<Rightarrow> int off = pkt_len \<and> n = 0 | Some q \<Rightarrow> q = off \<and> int q < pkt_len) \<and>
           (case ext of None \<Rightarrow> True | Some (eo, el) \<Rightarrow> 12 \<le> eo \<and> off = eo + (el + 1) * 4)"
proof -
  define off0 where "off0 = 12 + unat (ucast (pkt ! 0) :: 4 word) * 4"
  have "0 < length pkt" using assms by linarith
  then have r0: "rd pkt 0 = Some (pkt ! 0)" by (rule rd_inside)
  have len: "0 \<le> pkt_len" using assms by simp
  from assms(3) consider
      "rtp_payload pkt pkt_len None off0 (bit (pkt ! 0) 5) = Rtp_ok ext p n"
    | el where "rtp_payload pkt pkt_len (Some (off0, el)) (off0 + (el + 1) * 4) (bit (pkt ! 0) 5)
        = Rtp_ok ext p n"
    by (auto simp: pjmedia_rtp_decode_rtp2_def r0 Let_def off0_def split: if_splits option.splits)
  then show ?thesis
  proof cases
    case 1
    then show ?thesis using rtp_payload_ok(2) [OF len assms(2) 1]
      by (intro exI [of _ off0]) (auto simp: off0_def)
  next
    case 2
    then show ?thesis using rtp_payload_ok(2) [OF len assms(2) 2]
      by (intro exI [of _ "off0 + (el + 1) * 4"]) (auto simp: off0_def)
  qed
qed

section \<open>Header layout round trip\<close>

lemma le16_split [simp]: "le16 (ucast w) (ucast (drop_bit 8 w)) = w"
  by (rule bit_word_eqI) (auto simp: le16_def bit_simps)

lemma le32_split [simp]:
  "le32 (ucast w) (ucast (drop_bit 8 w)) (ucast (drop_bit 16 w)) (ucast (drop_bit 24 w)) = w"
proof (rule bit_word_eqI)
  fix n :: nat
  assume n: "n < LENGTH(32)"
  consider "n < 8" | "8 \<le> n" "n < 16" | "16 \<le> n" "n < 24" | "24 \<le> n" by linarith
  then show "bit (le32 (ucast w) (ucast (drop_bit 8 w)) (ucast (drop_bit 16 w))
      (ucast (drop_bit 24 w))) n = bit w n"
    using n by cases (auto simp: le32_def bit_simps)
qed

lemma byte0_fields:
  fixes cc :: "4 word" and x p :: "1 word" and v :: "2 word"
  defines "b \<equiv> (ucast cc :: u8) OR push_bit 4 (ucast x) OR push_bit 5 (ucast p) OR push_bit 6 (ucast v)"
  shows "ucast b = cc" "ucast (drop_bit 4 b) = x" "ucast (drop_bit 5 b) = p" "ucast (drop_bit 6 b) = v"
proof -
  have c: "bit cc k \<Longrightarrow> k < 4" for k using bit_imp_le_length [of cc k] by simp
  have xp: "bit x k \<Longrightarrow> k < 1" "bit p k \<Longrightarrow> k < 1" for k
    using bit_imp_le_length [of x k] bit_imp_le_length [of p k] by simp_all
  show "ucast b = cc" by (rule bit_word_eqI) (auto simp: b_def bit_simps)
  show "ucast (drop_bit 4 b) = x" by (rule bit_word_eqI) (auto simp: b_def bit_simps dest: c)
  show "ucast (drop_bit 5 b) = p" by (rule bit_word_eqI) (auto simp: b_def bit_simps dest: c xp)
  show "ucast (drop_bit 6 b) = v" by (rule bit_word_eqI) (auto simp: b_def bit_simps dest: c xp)
qed

lemma byte1_fields:
  fixes pt :: "7 word" and m :: "1 word"
  defines "b \<equiv> (ucast pt :: u8) OR push_bit 7 (ucast m)"
  shows "ucast b = pt" "ucast (drop_bit 7 b) = m"
proof -
  have c: "bit pt k \<Longrightarrow> k < 7" for k using bit_imp_le_length [of pt k] by simp
  show "ucast b = pt" by (rule bit_word_eqI) (auto simp: b_def bit_simps)
  show "ucast (drop_bit 7 b) = m" by (rule bit_word_eqI) (auto simp: b_def bit_simps dest: c)
qed

lemma rtp_hdr_round_trip_aux: "rtp_hdr_of_bytes (rtp_hdr_bytes h @ rest) = h"
  by (cases h) (simp add: rtp_hdr_of_bytes_def rtp_hdr_bytes_def byte0_fields byte1_fields
      del: drop_bit_or)

section \<open>Runs of the encoder\<close>

text \<open>A run of frames \<open>(pt, m, payload_len, ts_len)\<close>, collecting the headers sent.\<close>

fun encode_run ::
    "pjmedia_rtp_session \<Rightarrow> (int \<times> int \<times> int \<times> int) list \<Rightarrow>
       pjmedia_rtp_session \<times> pjmedia_rtp_hdr list" where
  "encode_run ses [] = (ses, [])"
| "encode_run ses ((pt, m, pl, ts) # fs) =
     (let (ses1, h) = pjmedia_rtp_encode_rtp ses pt m pl ts;
          (ses2, hs) = encode_run ses1 fs in
      (ses2, (case h of None \<Rightarrow> hs | Some x \<Rightarrow> x # hs)))"

lemma encode_run_seqs:
  "map (\<lambda>h. pj_ntohs (hdr_seq h)) (snd (encode_run ses fs)) =
     map (\<lambda>i. ucast (out_extseq ses + of_nat i)) [1..<Suc (length (snd (encode_run ses fs)))]"
proof (induction ses fs rule: encode_run.induct)
  case (1 ses)
  then show ?case by simp
next
  case (2 ses pt m pl ts fs)
  obtain ses1 h where e: "pjmedia_rtp_encode_rtp ses pt m pl ts = (ses1, h)" by fastforce
  obtain ses2 hs where r: "encode_run ses1 fs = (ses2, hs)" by fastforce
  have IH: "map (\<lambda>h. pj_ntohs (hdr_seq h)) hs =
      map (\<lambda>i. ucast (out_extseq ses1 + of_nat i)) [1..<Suc (length hs)]"
    using 2 [OF e [symmetric] refl] r by simp
  show ?case
  proof (cases "pl = 0")
    case True
    then have "h = None" "out_extseq ses1 = out_extseq ses"
      using e by (auto simp: pjmedia_rtp_encode_rtp_def Let_def)
    then show ?thesis using IH e r by simp
  next
    case False
    then obtain x where h: "h = Some x" and x: "pj_ntohs (hdr_seq x) = ucast (out_extseq ses + 1)"
      and o: "out_extseq ses1 = out_extseq ses + 1"
      using e by (auto simp: pjmedia_rtp_encode_rtp_def Let_def)
    have "[1..<Suc (Suc (length hs))] = 1 # map Suc [1..<Suc (length hs)]"
      by (metis One_nat_def map_Suc_upt upt_conv_Cons zero_less_Suc Suc_less_eq)
    then show ?thesis using IH e r h x o by (simp add: o_def add.assoc)
  qed
qed

lemma encode_frame:
  "hdr_ssrc (out_hdr (fst (pjmedia_rtp_encode_rtp ses pt m pl ts))) = hdr_ssrc (out_hdr ses)"
  "hdr_v (out_hdr (fst (pjmedia_rtp_encode_rtp ses pt m pl ts))) = hdr_v (out_hdr ses)"
  "pj_ntohl (hdr_ts (out_hdr (fst (pjmedia_rtp_encode_rtp ses pt m pl ts)))) =
     pj_ntohl (hdr_ts (out_hdr ses)) + of_int ts"
  by (simp_all add: pjmedia_rtp_encode_rtp_def Let_def)

lemma encode_run_clock:
  "pj_ntohl (hdr_ts (out_hdr (fst (encode_run ses fs)))) =
     pj_ntohl (hdr_ts (out_hdr ses)) + of_int (\<Sum>(pt, m, pl, ts) \<leftarrow> fs. ts)"
proof (induction ses fs rule: encode_run.induct)
  case (2 ses pt m pl ts fs)
  obtain ses1 h where e: "pjmedia_rtp_encode_rtp ses pt m pl ts = (ses1, h)" by fastforce
  show ?case
    using 2 [OF e [symmetric] refl] encode_frame(3) [of ses pt m pl ts] e
    by (simp add: split_beta add.assoc)
qed simp

lemma wire_seqs_unit:
  "wire_seqs n (replicate k 1) = map (\<lambda>i. of_nat (n + i)) [1..<Suc k]"
proof (induction k arbitrary: n)
  case (Suc k)
  have "[1..<Suc (Suc k)] = 1 # map Suc [1..<Suc k]"
    by (metis One_nat_def map_Suc_upt upt_conv_Cons zero_less_Suc Suc_less_eq)
  then show ?case using Suc by (simp add: o_def)
qed simp

lemma ucast_add_nat: "(ucast (w + of_nat i :: u32) :: u16) = of_nat (unat w + i)"
proof -
  have "unat (w + of_nat i) = (unat w + i) mod 4294967296"
    by (simp add: unat_word_ariths unat_of_nat mod_simps)
  moreover have "(of_nat (n mod 4294967296) :: u16) = of_nat n" for n
    by (simp add: word_of_nat_eq_iff take_bit_eq_mod mod_mod_cancel)
  ultimately show ?thesis by (metis of_nat_unat)
qed

lemma seq_update_badssrc: "\<not> st_badssrc (snd (pjmedia_rtp_seq_update s q))"
  by (simp add: pjmedia_rtp_seq_update_def st_zero_def Let_def)

section \<open>Properties\<close>

text \<open>C28: once the source is validated, the extended sequence number follows the sender's
  unbounded counter: whatever gaps below \<open>MAX_DROPOUT\<close> the sender's packets
  arrive with, the tracked 32-bit value advances by exactly the sum of the gaps, although
  only 16 bits of the counter are on the wire and they wrap around.\<close>

theorem rtp_ext_seq_follows_sender:
  assumes "probation s = 0" and "max_seq s = of_nat n"
    and "\<forall>d \<in> set ds. 0 < d \<and> d < MAX_DROPOUT"
  shows "ext_seq (seq_updates s (wire_seqs n ds)) = ext_seq s + of_nat (sum_list ds)"
  using assms by (rule seq_updates_tracks)

theorem rtp_ext_seq_follows_sender_witness:
  "ext_seq (seq_updates \<lparr>max_seq = 65534, cycles = 0, base_seq = 0, bad_seq = 0, probation = 0\<rparr>
      (wire_seqs 65534 [1, 2500, 3])) = 65534 + 2504"
  using rtp_ext_seq_follows_sender
    [of "\<lparr>max_seq = 65534, cycles = 0, base_seq = 0, bad_seq = 0, probation = 0\<rparr>" 65534 "[1, 2500, 3]"]
  by (simp add: ext_seq_def MAX_DROPOUT_def)

text \<open>C29: the decoder never reads outside the packet it was given, and what it returns lies
  inside it: for a packet of at least one byte the result is not a memory fault, and a
  successful result has its payload (and the extension before it) within the packet, after
  the fixed 12-byte header.\<close>

theorem rtp_decode_memory_safe:
  assumes "1 \<le> pkt_len" and "pkt_len \<le> int (length pkt)" and "pkt_len < 2 ^ 31"
  shows "pjmedia_rtp_decode_rtp2 pkt pkt_len \<noteq> Rtp_fault \<and>
    (\<forall>ext p n. pjmedia_rtp_decode_rtp2 pkt pkt_len = Rtp_ok ext p n \<longrightarrow>
      (\<exists>off. 12 \<le> off \<and> int (off + n) \<le> pkt_len \<and>
        (case p of None \<Rightarrow> int off = pkt_len \<and> n = 0 | Some q \<Rightarrow> q = off \<and> int q < pkt_len) \<and>
        (case ext of None \<Rightarrow> True | Some (eo, el) \<Rightarrow> 12 \<le> eo \<and> off = eo + (el + 1) * 4)))"
  using rtp_decode_no_fault [OF assms] rtp_decode_in_bounds [OF assms(1,2)] by blast

theorem rtp_decode_memory_safe_witness:
  "pjmedia_rtp_decode_rtp2 [0x90, 0, 0, 1, 0, 0, 0, 0, 0, 0, 0, 9, 0, 0, 0, 1, 7] 17 \<noteq> Rtp_fault"
  using rtp_decode_memory_safe [of 17 "[0x90, 0, 0, 1, 0, 0, 0, 0, 0, 0, 0, 9, 0, 0, 0, 1, 7]"]
  by simp

text \<open>the in-memory header layout loses nothing: reading back the 12 bytes written for a
  header, whatever follows them, gives the header.\<close>

theorem rtp_hdr_round_trip: "rtp_hdr_of_bytes (rtp_hdr_bytes h @ rest) = h"
  by (rule rtp_hdr_round_trip_aux)

text \<open>over any run of the encoder, clock frames included, the headers handed out carry
  consecutive sequence numbers starting after the session's counter, and the session's
  timestamp advances by the sum of all frame durations.\<close>

theorem rtp_encode_run_numbering:
  "map (\<lambda>h. pj_ntohs (hdr_seq h)) (snd (encode_run ses fs)) =
     map (\<lambda>i. ucast (out_extseq ses + of_nat i)) [1..<Suc (length (snd (encode_run ses fs)))] \<and>
   pj_ntohl (hdr_ts (out_hdr (fst (encode_run ses fs)))) =
     pj_ntohl (hdr_ts (out_hdr ses)) + of_int (\<Sum>(pt, m, pl, ts) \<leftarrow> fs. ts)"
  using encode_run_seqs encode_run_clock by blast

text \<open>encoder against tracker: a validated receiver whose highest sequence number is the
  sender's counter, fed the headers of any encoder run in order, ends with its extended
  sequence number advanced by the number of packets sent.\<close>

theorem rtp_receiver_tracks_encoder:
  assumes "probation s = 0" and "max_seq s = ucast (out_extseq ses)"
  shows "ext_seq (seq_updates s (map (\<lambda>h. pj_ntohs (hdr_seq h)) (snd (encode_run ses fs)))) =
    ext_seq s + of_nat (length (snd (encode_run ses fs)))"
proof -
  let ?n = "unat (out_extseq ses)" and ?k = "length (snd (encode_run ses fs))"
  have u: "ucast (out_extseq ses + of_nat i) = (of_nat (?n + i) :: u16)" for i
    by (rule ucast_add_nat)
  have "map (\<lambda>h. pj_ntohs (hdr_seq h)) (snd (encode_run ses fs)) = wire_seqs ?n (replicate ?k 1)"
    unfolding encode_run_seqs wire_seqs_unit u ..
  moreover have "max_seq s = of_nat ?n" using assms(2) by simp
  ultimately show ?thesis
    using seq_updates_tracks [of s ?n "replicate ?k 1"] assms(1)
    by (simp add: MAX_DROPOUT_def sum_list_replicate)
qed

theorem rtp_receiver_tracks_encoder_witness:
  "ext_seq (seq_updates \<lparr>max_seq = 65535, cycles = 0, base_seq = 0, bad_seq = 0, probation = 0\<rparr>
     (map (\<lambda>h. pj_ntohs (hdr_seq h))
       (snd (encode_run ((pjmedia_rtp_session_init 0 1 0 0 0)\<lparr>out_extseq := 65535\<rparr>)
          [(0, 0, 160, 160), (0, 0, 0, 160), (0, 0, 160, 160)])))) = 65537"
  using rtp_receiver_tracks_encoder
    [of "\<lparr>max_seq = 65535, cycles = 0, base_seq = 0, bad_seq = 0, probation = 0\<rparr>"
      "(pjmedia_rtp_session_init 0 1 0 0 0)\<lparr>out_extseq := 65535\<rparr>"
      "[(0, 0, 160, 160), (0, 0, 0, 160), (0, 0, 160, 160)]"]
  by (simp add: ext_seq_def pjmedia_rtp_encode_rtp_def Let_def)

text \<open>a packet from an unexpected SSRC is reported as such only together with a bad
  payload type: when the payload type is accepted the sequence tracker overwrites the whole
  flag word, and the \<^verbatim>\<open>badssrc\<close> flag set just before is lost.\<close>

theorem rtp_update_loses_badssrc:
  "\<not> (st_badssrc (snd (pjmedia_rtp_session_update2 ses hdr st check_pt)) \<and>
       \<not> st_badpt (snd (pjmedia_rtp_session_update2 ses hdr st check_pt)))"
  by (simp add: pjmedia_rtp_session_update2_def Let_def seq_update_badssrc split_beta)

end
