(* ===== verification/Ring.thy ===== *)
theory Ring
  imports Pj_Prelude
begin

text \<open>
  Circular buffers as rotated lists.  A buffer array \<open>xs\<close> with its head at index
  \<open>h\<close> is read in logical order as \<open>rotate h xs\<close>; the lemmas say what the array
  writes of a ring buffer (clearing a range that may wrap around, one slot write) do to
  that view.
\<close>

definition fill :: "nat \<Rightarrow> nat \<Rightarrow> 'a \<Rightarrow> 'a list \<Rightarrow> 'a list" where
  "fill lo n v xs = take lo xs @ replicate n v @ drop (lo + n) xs"

lemma length_fill [simp]: "lo + n \<le> length xs \<Longrightarrow> length (fill lo n v xs) = length xs"
  by (simp add: fill_def)

lemma fill_all: "n = length xs \<Longrightarrow> fill 0 n v xs = replicate n v"
  by (simp add: fill_def)

text \<open>The two-step clear of \<open>c\<close> slots from \<open>h\<close>.\<close>

definition clear_ring :: "nat \<Rightarrow> nat \<Rightarrow> 'a \<Rightarrow> 'a list \<Rightarrow> 'a list" where
  "clear_ring h c v xs =
     (if h + c > length xs
      then fill 0 (h + c - length xs) v (fill h (length xs - h) v xs)
      else fill h c v xs)"

lemma length_clear_ring [simp]:
  "h < length xs \<Longrightarrow> c \<le> length xs \<Longrightarrow> length (clear_ring h c v xs) = length xs"
  by (auto simp: clear_ring_def)

lemma set_fill: "set (fill lo n v xs) \<subseteq> insert v (set xs)"
  by (auto simp: fill_def dest: in_set_takeD in_set_dropD)

lemma set_clear_ring: "set (clear_ring h c v xs) \<subseteq> insert v (set xs)"
  using set_fill [of 0 _ v "fill h (length xs - h) v xs"] set_fill [of h _ v xs]
  by (auto simp: clear_ring_def)

lemma clear_ring_0 [simp]: "h < length xs \<Longrightarrow> clear_ring h 0 v xs = xs"
  by (simp add: clear_ring_def fill_def)

lemma rotate_split: "h < length xs \<Longrightarrow> rotate h xs = drop h xs @ take h xs"
  by (simp add: rotate_drop_take)

lemma clear_ring_view:
  assumes h: "h < length xs" and c: "c \<le> length xs"
  shows "rotate ((h + c) mod length xs) (clear_ring h c v xs) =
           drop c (rotate h xs) @ replicate c v"
proof (cases "h + c > length xs")
  case True
  define s where "s = h + c - length xs"
  have s: "s \<le> h" "s < length xs" "c = length xs - h + s" using True h c by (auto simp: s_def)
  have "h + c = s + length xs" using True by (simp add: s_def)
  then have m: "(h + c) mod length xs = s" using s(2) by simp
  have "fill h (length xs - h) v xs = take h xs @ replicate (length xs - h) v"
    using h by (simp add: fill_def)
  moreover have "drop s (take h xs @ replicate (length xs - h) v) =
      drop s (take h xs) @ replicate (length xs - h) v"
    using s h by simp
  ultimately have "clear_ring h c v xs =
      replicate s v @ drop s (take h xs) @ replicate (length xs - h) v"
    using True by (simp only: clear_ring_def fill_def [of 0] s_def) simp
  then have "rotate s (clear_ring h c v xs) =
      (drop s (take h xs) @ replicate (length xs - h) v) @ replicate s v"
    using rotate_append [of "replicate s v" "drop s (take h xs) @ replicate (length xs - h) v"]
    by (simp only: length_replicate)
  moreover have "replicate (length xs - h) v @ replicate s v = replicate c v"
    using s(3) by (simp add: replicate_add)
  moreover have "drop c (rotate h xs) = drop s (take h xs)"
    using h s by (simp add: rotate_split)
  ultimately show ?thesis unfolding m by simp
next
  case False
  have cl: "clear_ring h c v xs = (take h xs @ replicate c v) @ drop (h + c) xs"
    using False by (simp add: clear_ring_def fill_def)
  show ?thesis
  proof (cases "h + c = length xs")
    case True
    then show ?thesis using h cl by (simp add: rotate_split)
  next
    case ne: False
    then have m: "(h + c) mod length xs = h + c" using False by simp
    have "length (take h xs @ replicate c v) = h + c" using h by simp
    then have "rotate (h + c) (clear_ring h c v xs) = drop (h + c) xs @ take h xs @ replicate c v"
      unfolding cl by (metis rotate_append append_assoc)
    moreover have "drop c (rotate h xs) = drop (h + c) xs @ take h xs"
      using h False by (simp add: rotate_split add.commute)
    ultimately show ?thesis unfolding m by simp
  qed
qed

lemma clear_ring_1: "h < length xs \<Longrightarrow> clear_ring h 1 v xs = xs[h := v]"
  by (simp add: clear_ring_def fill_def upd_conv_take_nth_drop)

lemma pop_ring_view:
  assumes "h < length xs"
  shows "rotate ((h + 1) mod length xs) (xs[h := v]) = tl (rotate h xs) @ [v]"
  using clear_ring_view [OF assms, of 1 v] assms clear_ring_1 [OF assms, of v]
  by (simp add: drop_Suc)

lemma update_ring_view:
  assumes h: "h < length xs" and d: "d < length xs"
  shows "rotate h (xs[(h + d) mod length xs := v]) = (rotate h xs)[d := v]"
proof (rule nth_equalityI)
  show "length (rotate h (xs[(h + d) mod length xs := v])) = length ((rotate h xs)[d := v])"
    by simp
next
  fix k
  assume "k < length (rotate h (xs[(h + d) mod length xs := v]))"
  then have k: "k < length xs" by simp
  have "((h + d) mod length xs = (h + k) mod length xs) = (d = k)"
    using mod_add_cancel_less [OF d k, of h] by auto
  moreover have "(h + k) mod length xs < length xs" using k by (intro mod_less_divisor) auto
  ultimately show "rotate h (xs[(h + d) mod length xs := v]) ! k = (rotate h xs)[d := v] ! k"
    using k by (cases "d = k") (simp_all add: nth_rotate)
qed

lemma window_slots:
  assumes h: "h < length xs" and c: "c \<le> length xs"
  shows "take c (rotate h xs) =
    (if h + c > length xs
     then map ((!) xs) [h..<length xs] @ map ((!) xs) [0..<h + c - length xs]
     else map ((!) xs) [h..<h + c])"
proof -
  have a: "map ((!) xs) [i..<i + n] = take n (drop i xs)" if "i + n \<le> length xs" for i n
    using that by (intro nth_equalityI) auto
  have b: "map ((!) xs) [h..<length xs] = drop h xs"
    using a [of h "length xs - h"] h by simp
  have e: "map ((!) xs) [0..<n] = take n xs" if "n \<le> length xs" for n
    using a [of 0 n] that by simp
  show ?thesis
    using h c a [of h c] b e [of "h + c - length xs"]
    by (auto simp: rotate_split min_def add.commute)
qed

lemma rotate_inj_eq: "rotate n xs = rotate n ys \<longleftrightarrow> xs = ys"
  using inj_fn [OF inj_rotate1, of n] by (auto simp: rotate_def dest: injD)

lemma count_list_rotate [simp]: "count_list (rotate n xs) v = count_list xs v"
  by (metis add.commute append_take_drop_id count_list_append rotate_drop_take)

end
