(* ===== verification/Jbuf.thy ===== *)
theory Jbuf
  imports Ring
begin

text \<open>
  The adaptive jitter buffer of \<^verbatim>\<open>pjmedia/src/pjmedia/jbuf.c\<close>, every operation of the
  file: the circular frame list (\<^verbatim>\<open>jb_framelist_*\<close>), the burst-level estimator
  (\<^verbatim>\<open>jbuf_calculate_jitter\<close>), the two discard algorithms and the public put, get,
  peek, remove and configuration calls, with the running statistics of
  \<^verbatim>\<open>pjlib/include/pj/math.h\<close> in their integer build
  (\<^verbatim>\<open>PJ_HAS_FLOATING_POINT = 0\<close>).

  The parallel C arrays are lists indexed by slot.  C's \<^verbatim>\<open>int\<close> is \<open>int\<close>, C's
  \<^verbatim>\<open>unsigned\<close> is \<open>nat\<close> with the wrap-around written out where an operand can leave
  the range.  A loop that would not end is the value \<open>None\<close>; theory
  \<^verbatim>\<open>Jbuf_Inv\<close> shows that none of them does in a well-formed buffer.  Nullable output
  pointers are results that the caller may ignore; memory the pool hands out uninitialised
  is an argument of \<^verbatim>\<open>jb_framelist_init\<close>.
\<close>

section \<open>Signed conversion\<close>

text \<open>The \<^verbatim>\<open>int\<close> that a 32-bit pattern of the given value is read as.\<close>

definition s32 :: "int \<Rightarrow> int" where
  "s32 i = (i + 2 ^ 31) mod 2 ^ 32 - 2 ^ 31"

lemma s32_id: "- (2 ^ 31) \<le> i \<Longrightarrow> i < 2 ^ 31 \<Longrightarrow> s32 i = i"
  by (simp add: s32_def)

section \<open>Statistics (pj/math.h)\<close>

record pj_math_stat =
  ms_n :: int
  ms_max :: int
  ms_min :: int
  ms_last :: int
  ms_mean :: int
  ms_mean_res :: int
  ms_m2 :: int

definition pj_math_stat_init :: pj_math_stat where
  "pj_math_stat_init = \<lparr>ms_n = 0, ms_max = 0, ms_min = 0, ms_last = 0, ms_mean = 0,
     ms_mean_res = 0, ms_m2 = 0\<rparr>"

definition pj_math_stat_update :: "pj_math_stat \<Rightarrow> int \<Rightarrow> pj_math_stat" where
  "pj_math_stat_update stat v =
     (let s = (if ms_n stat \<noteq> 0
               then stat\<lparr>ms_min := min (ms_min stat) v, ms_max := max (ms_max stat) v\<rparr>
               else stat\<lparr>ms_min := v, ms_max := v\<rparr>);
          s = s\<lparr>ms_last := v, ms_n := ms_n stat + 1\<rparr>;
          n = ms_n s;
          delta = v - ms_mean s;
          s = s\<lparr>ms_mean := ms_mean s + c_div delta n,
                 ms_mean_res := ms_mean_res s + c_mod delta n\<rparr>;
          s = (if ms_mean_res s \<ge> n
               then s\<lparr>ms_mean := ms_mean s + 1, ms_mean_res := ms_mean_res s - n\<rparr>
               else if ms_mean_res s \<le> - n
               then s\<lparr>ms_mean := ms_mean s - 1, ms_mean_res := ms_mean_res s + n\<rparr>
               else s)
      in s\<lparr>ms_m2 := ms_m2 s + delta * (v - ms_mean s)\<rparr>)"

section \<open>The frame list\<close>

text \<open>
  Frame types: the four of \<^verbatim>\<open>pjmedia_jb_frame_type\<close> and the internal flag
  \<^verbatim>\<open>PJMEDIA_JB_DISCARDED_FRAME\<close>.
\<close>

datatype jb_frame_type =
    JB_MISSING_FRAME
  | JB_NORMAL_FRAME
  | JB_ZERO_PREFETCH_FRAME
  | JB_ZERO_EMPTY_FRAME
  | JB_DISCARDED_FRAME

record jb_framelist =
  fl_frame_size :: nat
  fl_max_count :: nat
  fl_content :: "u8 list list"
  fl_frame_type :: "jb_frame_type list"
  fl_content_len :: "nat list"
  fl_bit_info :: "nat list"
  fl_ts :: "nat list"
  fl_head :: nat
  fl_size :: nat
  fl_discarded_num :: nat
  fl_origin :: int

definition INVALID_OFFSET :: int where "INVALID_OFFSET = -9999"
definition MAX_FRAME_INDEX :: nat where "MAX_FRAME_INDEX = 0xFFFFFFFF div 9000"
definition JB_MAX_MISORDER :: int where "JB_MAX_MISORDER = 100"
definition JB_MAX_DROPOUT :: int where "JB_MAX_DROPOUT = 3000"

text \<open>\<^verbatim>\<open>pj_memset\<close> is \<open>fill\<close>; \<^verbatim>\<open>pj_memcpy\<close> to the start of a slot is \<open>overlay\<close>.\<close>

definition overlay :: "'a list \<Rightarrow> 'a list \<Rightarrow> 'a list" where
  "overlay new old = new @ drop (length new) old"

definition jb_framelist_reset :: "jb_framelist \<Rightarrow> jb_framelist" where
  "jb_framelist_reset fl =
     fl\<lparr>fl_head := 0, fl_origin := INVALID_OFFSET, fl_size := 0, fl_discarded_num := 0,
        fl_frame_type := fill 0 (fl_max_count fl) JB_MISSING_FRAME (fl_frame_type fl),
        fl_content_len := fill 0 (fl_max_count fl) 0 (fl_content_len fl)\<rparr>"

definition jb_framelist_init ::
    "nat \<Rightarrow> nat \<Rightarrow> u8 list list \<Rightarrow> jb_frame_type list \<Rightarrow> nat list \<Rightarrow> nat list \<Rightarrow> nat list \<Rightarrow> jb_framelist"
  where
  "jb_framelist_init frame_size max_count content0 type0 len0 bits0 ts0 =
     jb_framelist_reset
       \<lparr>fl_frame_size = frame_size, fl_max_count = max_count, fl_content = content0,
        fl_frame_type = type0, fl_content_len = len0, fl_bit_info = bits0, fl_ts = ts0,
        fl_head = 0, fl_size = 0, fl_discarded_num = 0, fl_origin = 0\<rparr>"

definition jb_framelist_size :: "jb_framelist \<Rightarrow> nat" where
  "jb_framelist_size fl = fl_size fl"

definition jb_framelist_eff_size :: "jb_framelist \<Rightarrow> nat" where
  "jb_framelist_eff_size fl = u32_sub (fl_size fl) (fl_discarded_num fl)"

definition jb_framelist_origin :: "jb_framelist \<Rightarrow> int" where
  "jb_framelist_origin fl = fl_origin fl"

text \<open>The counting loops of \<^verbatim>\<open>jb_framelist_remove_head\<close> over the slots \<open>is\<close>.\<close>

definition uncount_discarded :: "jb_frame_type list \<Rightarrow> nat list \<Rightarrow> nat \<Rightarrow> nat" where
  "uncount_discarded ft is d =
     fold (\<lambda>i d. if ft ! i = JB_DISCARDED_FRAME then u32_sub d 1 else d) is d"

definition jb_framelist_remove_head :: "jb_framelist \<Rightarrow> nat \<Rightarrow> jb_framelist \<times> nat" where
  "jb_framelist_remove_head fl count0 =
     (let count = (if count0 > fl_size fl then fl_size fl else count0) in
      if count = 0 then (fl, count)
      else
        (let tmp = fl_head fl + count;
             (step1, step2) = (if tmp > fl_max_count fl
               then (fl_max_count fl - fl_head fl, count - (fl_max_count fl - fl_head fl))
               else (count, 0));
             d1 = uncount_discarded (fl_frame_type fl) [fl_head fl..<fl_head fl + step1]
                    (fl_discarded_num fl);
             ft1 = fill (fl_head fl) step1 JB_MISSING_FRAME (fl_frame_type fl);
             cl1 = fill (fl_head fl) step1 0 (fl_content_len fl);
             (d2, ft2, cl2) = (if step2 \<noteq> 0
               then (uncount_discarded ft1 [0..<step2] d1, fill 0 step2 JB_MISSING_FRAME ft1,
                     fill 0 step2 0 cl1)
               else (d1, ft1, cl1)) in
         (fl\<lparr>fl_discarded_num := d2, fl_frame_type := ft2, fl_content_len := cl2,
             fl_origin := fl_origin fl + int count,
             fl_head := (fl_head fl + count) mod fl_max_count fl,
             fl_size := fl_size fl - count\<rparr>, count)))"

text \<open>
  The loop of \<^verbatim>\<open>jb_framelist_get\<close> that drops discarded frames from the head.  On an empty
  list \<^verbatim>\<open>jb_framelist_remove_head\<close> does nothing, so a discarded head frame would be
  looked at forever: \<open>None\<close>.
\<close>

lemma remove_head_smaller:
  "fl_size fl \<noteq> 0 \<Longrightarrow> fl_size (fst (jb_framelist_remove_head fl 1)) < fl_size fl"
  by (simp add: jb_framelist_remove_head_def Let_def split_beta)

function skip_discarded :: "jb_framelist \<Rightarrow> bool \<Rightarrow> (jb_framelist \<times> bool) option" where
  "skip_discarded fl prev_discarded =
     (if fl_frame_type fl ! fl_head fl = JB_DISCARDED_FRAME then
        (if fl_size fl = 0 then None
         else skip_discarded (fst (jb_framelist_remove_head fl 1)) True)
      else Some (fl, prev_discarded))"
  by pat_completeness auto
termination
  by (relation "measure (\<lambda>(fl, p). fl_size fl)")
    (use remove_head_smaller in auto)

declare skip_discarded.simps [simp del]

text \<open>What \<^verbatim>\<open>jb_framelist_get\<close> writes through its output pointers.\<close>

record jb_frame =
  fr_data :: "u8 list"
  fr_size :: nat
  fr_type :: jb_frame_type
  fr_bit_info :: nat
  fr_ts :: nat
  fr_seq :: int

text \<open>
  \<open>max_size\<close> is the caller's buffer size, \<open>None\<close> when its \<^verbatim>\<open>size\<close> pointer is
  null.  The inner result is \<open>None\<close> where the code returns \<^verbatim>\<open>PJ_FALSE\<close>.
\<close>

definition jb_framelist_get ::
    "jb_framelist \<Rightarrow> nat option \<Rightarrow> (jb_framelist \<times> jb_frame option) option" where
  "jb_framelist_get fl max_size =
     (if fl_size fl \<noteq> 0 then
        (case skip_discarded fl False of
           None \<Rightarrow> None
         | Some (fl, prev_discarded) \<Rightarrow>
             if fl_size fl \<noteq> 0 then
               (let h = fl_head fl;
                    frm_size = fl_content_len fl ! h;
                    copy_size = (case max_size of None \<Rightarrow> frm_size | Some s \<Rightarrow> min s frm_size);
                    frame = (if prev_discarded
                      then \<lparr>fr_data = [], fr_size = 0, fr_type = JB_MISSING_FRAME, fr_bit_info = 0,
                            fr_ts = fl_ts fl ! h, fr_seq = fl_origin fl\<rparr>
                      else \<lparr>fr_data = take copy_size (fl_content fl ! h), fr_size = copy_size,
                            fr_type = fl_frame_type fl ! h, fr_bit_info = fl_bit_info fl ! h,
                            fr_ts = fl_ts fl ! h, fr_seq = fl_origin fl\<rparr>) in
                Some (fl\<lparr>fl_frame_type := (fl_frame_type fl)[h := JB_MISSING_FRAME],
                        fl_content_len := (fl_content_len fl)[h := 0],
                        fl_bit_info := (fl_bit_info fl)[h := 0],
                        fl_ts := (fl_ts fl)[h := 0],
                        fl_origin := fl_origin fl + 1,
                        fl_head := (h + 1) mod fl_max_count fl,
                        fl_size := fl_size fl - 1\<rparr>, Some frame))
             else Some (fl, None))
      else Some (fl, None))"

text \<open>The search loop of \<^verbatim>\<open>jb_framelist_peek\<close>.\<close>

partial_function (option) peek_pos :: "jb_frame_type list \<Rightarrow> nat \<Rightarrow> nat \<Rightarrow> nat \<Rightarrow> nat option" where
  "peek_pos ft n pos idx =
     (if ft ! pos \<noteq> JB_DISCARDED_FRAME then
        (if idx = 0 then Some pos else peek_pos ft n ((pos + 1) mod n) (idx - 1))
      else peek_pos ft n ((pos + 1) mod n) idx)"

definition jb_framelist_peek :: "jb_framelist \<Rightarrow> nat \<Rightarrow> jb_frame option option" where
  "jb_framelist_peek fl offset =
     (if offset \<ge> jb_framelist_eff_size fl then Some None
      else
        (case peek_pos (fl_frame_type fl) (fl_max_count fl) (fl_head fl) offset of
           None \<Rightarrow> None
         | Some pos \<Rightarrow>
             Some (Some \<lparr>fr_data = fl_content fl ! pos, fr_size = fl_content_len fl ! pos,
                         fr_type = fl_frame_type fl ! pos, fr_bit_info = fl_bit_info fl ! pos,
                         fr_ts = fl_ts fl ! pos, fr_seq = fl_origin fl + int offset\<rparr>)))"

text \<open>
  \<^verbatim>\<open>jb_framelist_put_at\<close>, in the order of its blocks: the late/restart/far-jump test, the
  empty-buffer test, the capacity test and the store.
\<close>

definition put_at_negative ::
    "jb_framelist \<Rightarrow> int \<Rightarrow> pj_status + (jb_framelist \<times> int)" where
  "put_at_negative fl index =
     (let distance = index - fl_origin fl in
      if distance < 0 then
        (if fl_origin fl - index < JB_MAX_MISORDER then Inl PJ_ETOOSMALL
         else if u32 (fl_origin fl + int (fl_size fl)) \<ge> MAX_FRAME_INDEX then
           Inr (fl\<lparr>fl_origin := index - int (fl_size fl)\<rparr>, int (fl_size fl))
         else Inr ((jb_framelist_reset fl)\<lparr>fl_origin := index\<rparr>, 0))
      else Inr (fl, distance))"

definition put_at_empty :: "jb_framelist \<Rightarrow> int \<Rightarrow> int \<Rightarrow> jb_framelist \<times> int" where
  "put_at_empty fl index distance =
     (if fl_size fl = 0 then (fl\<lparr>fl_origin := index\<rparr>, 0) else (fl, distance))"

definition put_at_far :: "jb_framelist \<Rightarrow> int \<Rightarrow> int \<Rightarrow> pj_status + (jb_framelist \<times> int)" where
  "put_at_far fl index distance =
     (if distance \<ge> int (fl_max_count fl) then
        (if distance > JB_MAX_DROPOUT then Inr ((jb_framelist_reset fl)\<lparr>fl_origin := index\<rparr>, 0)
         else Inl PJ_ETOOMANY)
      else Inr (fl, distance))"

definition put_at_store ::
    "jb_framelist \<Rightarrow> int \<Rightarrow> int \<Rightarrow> u8 list \<Rightarrow> nat \<Rightarrow> nat \<Rightarrow> jb_frame_type \<Rightarrow> jb_framelist \<times> pj_status"
  where
  "put_at_store fl index distance frame bit_info ts frame_type =
     (let pos = nat (int (fl_head fl) + distance) mod fl_max_count fl in
      if fl_frame_type fl ! pos \<noteq> JB_MISSING_FRAME then (fl, PJ_EEXISTS)
      else
        (fl\<lparr>fl_frame_type := (fl_frame_type fl)[pos := frame_type],
            fl_content_len := (fl_content_len fl)[pos := length frame],
            fl_bit_info := (fl_bit_info fl)[pos := bit_info],
            fl_ts := (fl_ts fl)[pos := ts],
            fl_size := (if fl_origin fl + int (fl_size fl) \<le> index then nat (distance + 1)
                        else fl_size fl),
            fl_content := (if frame_type = JB_NORMAL_FRAME
                           then (fl_content fl)[pos := overlay frame (fl_content fl ! pos)]
                           else fl_content fl)\<rparr>, PJ_SUCCESS))"

definition jb_framelist_put_at ::
    "jb_framelist \<Rightarrow> int \<Rightarrow> u8 list \<Rightarrow> nat \<Rightarrow> nat \<Rightarrow> jb_frame_type \<Rightarrow> jb_framelist \<times> pj_status" where
  "jb_framelist_put_at fl index frame bit_info ts frame_type =
     (if length frame > fl_frame_size fl then (fl, PJ_EINVAL)
      else
        (case put_at_negative fl index of
           Inl e \<Rightarrow> (fl, e)
         | Inr (fl1, d1) \<Rightarrow>
             (let (fl2, d2) = put_at_empty fl1 index d1 in
              case put_at_far fl2 index d2 of
                Inl e \<Rightarrow> (fl2, e)
              | Inr (fl3, d3) \<Rightarrow> put_at_store fl3 index d3 frame bit_info ts frame_type)))"

definition jb_framelist_discard :: "jb_framelist \<Rightarrow> int \<Rightarrow> jb_framelist \<times> pj_status" where
  "jb_framelist_discard fl index =
     (if \<not> (fl_origin fl \<le> index \<and> index < fl_origin fl + int (fl_size fl)) then (fl, PJ_EINVAL)
      else
        (let pos = nat (int (fl_head fl) + (index - fl_origin fl)) mod fl_max_count fl in
         (fl\<lparr>fl_frame_type := (fl_frame_type fl)[pos := JB_DISCARDED_FRAME],
             fl_discarded_num := u32 (int (fl_discarded_num fl) + 1)\<rparr>, PJ_SUCCESS)))"

section \<open>The jitter buffer\<close>

datatype jb_op = JB_OP_INIT | JB_OP_PUT | JB_OP_GET
datatype jb_status = JB_STATUS_INITIALIZING | JB_STATUS_PROCESSING
datatype jb_discard_algo = JB_DISCARD_NONE | JB_DISCARD_STATIC | JB_DISCARD_PROGRESSIVE

record pjmedia_jbuf =
  jb_frame_size :: nat
  jb_frame_ptime :: nat
  jb_frame_ptime_denum :: nat
  jb_max_count :: nat
  jb_init_prefetch :: int
  jb_min_prefetch :: int
  jb_max_prefetch :: int
  jb_max_burst :: int
  jb_min_shrink_gap :: int
  jb_discard_algo :: jb_discard_algo
  jb_min_delay :: nat
  jb_framelist :: jb_framelist
  jb_level :: int
  jb_max_hist_level :: int
  jb_stable_hist :: int
  jb_last_op :: jb_op
  jb_eff_level :: int
  jb_prefetch :: int
  jb_prefetching :: bool
  jb_status :: jb_status
  jb_init_cycle_cnt :: int
  jb_discard_ref :: int
  jb_discard_dist :: nat
  jb_delay :: pj_math_stat
  jb_burst :: pj_math_stat
  jb_lost :: nat
  jb_discard :: nat
  jb_empty :: nat

definition PJMEDIA_JB_DEFAULT_INIT_DELAY :: nat where "PJMEDIA_JB_DEFAULT_INIT_DELAY = 15"
definition PJMEDIA_JBUF_DISC_MIN_GAP :: nat where "PJMEDIA_JBUF_DISC_MIN_GAP = 200"
definition PJMEDIA_JBUF_PRO_DISC_MIN_BURST :: nat where "PJMEDIA_JBUF_PRO_DISC_MIN_BURST = 1"
definition PJMEDIA_JBUF_PRO_DISC_MAX_BURST :: nat where "PJMEDIA_JBUF_PRO_DISC_MAX_BURST = 100"
definition PJMEDIA_JBUF_PRO_DISC_T1 :: nat where "PJMEDIA_JBUF_PRO_DISC_T1 = 2000"
definition PJMEDIA_JBUF_PRO_DISC_T2 :: nat where "PJMEDIA_JBUF_PRO_DISC_T2 = 10000"
definition MAX_BURST_MSEC :: nat where "MAX_BURST_MSEC = 1000"
definition INIT_CYCLE :: int where "INIT_CYCLE = 10"
definition STABLE_HISTORY_LIMIT :: int where "STABLE_HISTORY_LIMIT = 20"
definition STA_DISC_SAFE_SHRINKING_DIFF :: int where "STA_DISC_SAFE_SHRINKING_DIFF = 1"

lemmas jbuf_consts = PJMEDIA_JB_DEFAULT_INIT_DELAY_def PJMEDIA_JBUF_DISC_MIN_GAP_def
  PJMEDIA_JBUF_PRO_DISC_MIN_BURST_def PJMEDIA_JBUF_PRO_DISC_MAX_BURST_def
  PJMEDIA_JBUF_PRO_DISC_T1_def PJMEDIA_JBUF_PRO_DISC_T2_def MAX_BURST_MSEC_def
  INIT_CYCLE_def STABLE_HISTORY_LIMIT_def STA_DISC_SAFE_SHRINKING_DIFF_def
  INVALID_OFFSET_def MAX_FRAME_INDEX_def JB_MAX_MISORDER_def JB_MAX_DROPOUT_def

subsection \<open>Configuration\<close>

definition pjmedia_jbuf_set_discard :: "pjmedia_jbuf \<Rightarrow> jb_discard_algo \<Rightarrow> pjmedia_jbuf" where
  "pjmedia_jbuf_set_discard jb algo = jb\<lparr>jb_discard_algo := algo\<rparr>"

definition pjmedia_jbuf_reset :: "pjmedia_jbuf \<Rightarrow> pjmedia_jbuf" where
  "pjmedia_jbuf_reset jb =
     jb\<lparr>jb_level := 0, jb_last_op := JB_OP_INIT, jb_stable_hist := 0,
        jb_status := JB_STATUS_INITIALIZING, jb_init_cycle_cnt := 0, jb_max_hist_level := 0,
        jb_prefetching := (jb_prefetch jb \<noteq> 0), jb_discard_dist := 0,
        jb_framelist := jb_framelist_reset (jb_framelist jb)\<rparr>"

text \<open>\<open>None\<close> is the division by a zero \<^verbatim>\<open>ptime\<close>.\<close>

definition pjmedia_jbuf_create ::
    "nat \<Rightarrow> nat \<Rightarrow> nat \<Rightarrow> u8 list list \<Rightarrow> jb_frame_type list \<Rightarrow> nat list \<Rightarrow> nat list \<Rightarrow> nat list \<Rightarrow>
       pjmedia_jbuf option" where
  "pjmedia_jbuf_create frame_size ptime max_count content0 type0 len0 bits0 ts0 =
     (if ptime = 0 then None
      else
        (let max_prefetch = u32 (int max_count * 4) div 5;
             jb = \<lparr>jb_frame_size = frame_size, jb_frame_ptime = ptime, jb_frame_ptime_denum = 1,
               jb_max_count = max_count, jb_init_prefetch = 0, jb_min_prefetch = 0,
               jb_max_prefetch = int max_prefetch,
               jb_max_burst = int (max (MAX_BURST_MSEC div ptime) (u32 (int max_count * 3) div 4)),
               jb_min_shrink_gap = int (PJMEDIA_JBUF_DISC_MIN_GAP div ptime),
               jb_discard_algo = JB_DISCARD_NONE, jb_min_delay = 0,
               jb_framelist = jb_framelist_init frame_size max_count content0 type0 len0 bits0 ts0,
               jb_level = 0, jb_max_hist_level = 0, jb_stable_hist = 0, jb_last_op = JB_OP_INIT,
               jb_eff_level = 0,
               jb_prefetch = int (min PJMEDIA_JB_DEFAULT_INIT_DELAY max_prefetch),
               jb_prefetching = False, jb_status = JB_STATUS_INITIALIZING, jb_init_cycle_cnt = 0,
               jb_discard_ref = 0, jb_discard_dist = 0, jb_delay = pj_math_stat_init,
               jb_burst = pj_math_stat_init, jb_lost = 0, jb_discard = 0, jb_empty = 0\<rparr> in
         Some (pjmedia_jbuf_reset (pjmedia_jbuf_set_discard jb JB_DISCARD_PROGRESSIVE))))"

definition pjmedia_jbuf_set_ptime2 :: "pjmedia_jbuf \<Rightarrow> nat \<Rightarrow> nat \<Rightarrow> pjmedia_jbuf option" where
  "pjmedia_jbuf_set_ptime2 jb ptime ptime_denum =
     (if ptime = 0 then None
      else Some (jb\<lparr>jb_frame_ptime := ptime, jb_frame_ptime_denum := ptime_denum,
        jb_min_shrink_gap :=
          s32 (int (u32 (int PJMEDIA_JBUF_DISC_MIN_GAP * int ptime_denum) div ptime)),
        jb_max_burst := s32 (int (max (u32 (int MAX_BURST_MSEC * int ptime_denum) div ptime)
                                   (jb_max_count jb * 3 div 4)))\<rparr>))"

definition pjmedia_jbuf_set_ptime :: "pjmedia_jbuf \<Rightarrow> nat \<Rightarrow> pjmedia_jbuf option" where
  "pjmedia_jbuf_set_ptime jb ptime = pjmedia_jbuf_set_ptime2 jb ptime 1"

definition pjmedia_jbuf_set_fixed :: "pjmedia_jbuf \<Rightarrow> nat \<Rightarrow> pjmedia_jbuf \<times> pj_status" where
  "pjmedia_jbuf_set_fixed jb prefetch =
     (if \<not> prefetch \<le> jb_max_count jb then (jb, PJ_EINVAL)
      else
        (pjmedia_jbuf_set_discard
           (jb\<lparr>jb_min_prefetch := int prefetch, jb_max_prefetch := int prefetch,
               jb_prefetch := int prefetch, jb_init_prefetch := int prefetch\<rparr>) JB_DISCARD_NONE,
         PJ_SUCCESS))"

definition pjmedia_jbuf_set_adaptive ::
    "pjmedia_jbuf \<Rightarrow> nat \<Rightarrow> nat \<Rightarrow> nat \<Rightarrow> pjmedia_jbuf \<times> pj_status" where
  "pjmedia_jbuf_set_adaptive jb prefetch min_prefetch max_prefetch =
     (if \<not> (min_prefetch \<le> max_prefetch \<and> prefetch \<le> max_prefetch \<and> max_prefetch \<le> jb_max_count jb)
      then (jb, PJ_EINVAL)
      else (jb\<lparr>jb_prefetch := int prefetch, jb_init_prefetch := int prefetch,
               jb_min_prefetch := int min_prefetch, jb_max_prefetch := int max_prefetch\<rparr>,
            PJ_SUCCESS))"

definition pjmedia_jbuf_set_min_delay :: "pjmedia_jbuf \<Rightarrow> nat \<Rightarrow> pjmedia_jbuf" where
  "pjmedia_jbuf_set_min_delay jb min_delay0 =
     (let min_delay = u32 (int min_delay0 * int (jb_frame_ptime_denum jb));
          d = min_delay div jb_frame_ptime jb;
          d = (if min_delay mod jb_frame_ptime jb \<noteq> 0 then u32 (int d + 1) else d) in
      jb\<lparr>jb_min_delay := (if d > jb_max_count jb div 2 then jb_max_count jb div 2 else d)\<rparr>)"

definition pjmedia_jbuf_is_full :: "pjmedia_jbuf \<Rightarrow> bool" where
  "pjmedia_jbuf_is_full jb =
     (fl_size (jb_framelist jb) = fl_max_count (jb_framelist jb))"

subsection \<open>Burst level and discard algorithms\<close>

definition clamp_prefetch_dec :: "pjmedia_jbuf \<Rightarrow> int \<Rightarrow> int" where
  "clamp_prefetch_dec jb v =
     (let v = (if v < jb_min_prefetch jb then jb_min_prefetch jb else v) in
      if v > jb_max_prefetch jb then jb_max_prefetch jb else v)"

definition clamp_prefetch_inc :: "pjmedia_jbuf \<Rightarrow> int \<Rightarrow> int" where
  "clamp_prefetch_inc jb v =
     (let v = (if v > jb_max_prefetch jb then jb_max_prefetch jb else v) in
      if v < jb_min_prefetch jb then jb_min_prefetch jb else v)"

definition jbuf_calculate_jitter :: "pjmedia_jbuf \<Rightarrow> pjmedia_jbuf" where
  "jbuf_calculate_jitter jb0 =
     (let jb = jb0\<lparr>jb_burst := pj_math_stat_update (jb_burst jb0) (jb_level jb0),
                   jb_max_hist_level := max (jb_max_hist_level jb0) (jb_level jb0)\<rparr> in
      if jb_level jb < jb_eff_level jb then
        (let jb = jb\<lparr>jb_stable_hist := jb_stable_hist jb + 1\<rparr> in
         if jb_stable_hist jb > STABLE_HISTORY_LIMIT then
           (let diff = c_div (jb_eff_level jb - jb_max_hist_level jb) 3;
                diff = (if diff < 1 then 1 else diff);
                jb = jb\<lparr>jb_eff_level := jb_eff_level jb - diff\<rparr>;
                jb = (if jb_init_prefetch jb \<noteq> 0
                      then jb\<lparr>jb_prefetch := clamp_prefetch_dec jb (jb_eff_level jb)\<rparr> else jb)
            in jb\<lparr>jb_max_hist_level := 0, jb_stable_hist := 0\<rparr>)
         else jb)
      else if jb_level jb > jb_eff_level jb then
        (let jb = jb\<lparr>jb_eff_level := min (jb_max_hist_level jb) (int (jb_max_count jb * 4 div 5))\<rparr>;
             jb = (if jb_init_prefetch jb \<noteq> 0
                   then jb\<lparr>jb_prefetch := clamp_prefetch_inc jb (jb_eff_level jb)\<rparr> else jb)
         in jb\<lparr>jb_stable_hist := 0\<rparr>)
      else jb\<lparr>jb_stable_hist := 0\<rparr>)"

definition jbuf_discard_static :: "pjmedia_jbuf \<Rightarrow> pjmedia_jbuf" where
  "jbuf_discard_static jb =
     (let burst_level = max (jb_eff_level jb) (jb_level jb);
          cur_size = jb_framelist_eff_size (jb_framelist jb) in
      if cur_size \<le> jb_min_delay jb then jb
      else
        (let diff = s32 (int cur_size - burst_level * 2) in
         if diff \<ge> STA_DISC_SAFE_SHRINKING_DIFF then
           (let seq_origin = jb_framelist_origin (jb_framelist jb);
                jb = (if seq_origin < jb_discard_ref jb then jb\<lparr>jb_discard_ref := seq_origin\<rparr> else jb)
            in
            if seq_origin - jb_discard_ref jb \<ge> jb_min_shrink_gap jb then
              (let (fl, removed) = jb_framelist_remove_head (jb_framelist jb) 1 in
               jb\<lparr>jb_framelist := fl, jb_discard_ref := jb_framelist_origin fl,
                  jb_discard := u32 (int (jb_discard jb) + int removed)\<rparr>)
            else jb)
         else jb))"

definition progressive_T :: "nat \<Rightarrow> nat" where
  "progressive_T burst_level =
     (if burst_level \<le> PJMEDIA_JBUF_PRO_DISC_MIN_BURST then PJMEDIA_JBUF_PRO_DISC_T1
      else if burst_level \<ge> PJMEDIA_JBUF_PRO_DISC_MAX_BURST then PJMEDIA_JBUF_PRO_DISC_T2
      else PJMEDIA_JBUF_PRO_DISC_T1 +
           (PJMEDIA_JBUF_PRO_DISC_T2 - PJMEDIA_JBUF_PRO_DISC_T1) *
           (burst_level - PJMEDIA_JBUF_PRO_DISC_MIN_BURST) div
           (PJMEDIA_JBUF_PRO_DISC_MAX_BURST - PJMEDIA_JBUF_PRO_DISC_MIN_BURST))"

definition jbuf_discard_progressive :: "pjmedia_jbuf \<Rightarrow> pjmedia_jbuf" where
  "jbuf_discard_progressive jb =
     (if jb_last_op jb \<noteq> JB_OP_PUT then jb
      else
        (let cur_size = jb_framelist_eff_size (jb_framelist jb);
             burst_level = u32 (max (jb_eff_level jb) (jb_level jb)) in
         if cur_size \<le> burst_level \<or> cur_size \<le> jb_min_delay jb then jb\<lparr>jb_discard_dist := 0\<rparr>
         else
           (let T = progressive_T burst_level;
                overflow = cur_size - max burst_level (jb_min_delay jb);
                discard_dist = u32 (int T * int (jb_frame_ptime_denum jb)) div overflow
                               div jb_frame_ptime jb;
                last_seq = jb_framelist_origin (jb_framelist jb) +
                           int (jb_framelist_size (jb_framelist jb)) - 1;
                jb = (if jb_discard_dist jb = 0 then jb\<lparr>jb_discard_ref := last_seq\<rparr>
                      else if last_seq < jb_discard_ref jb then jb\<lparr>jb_discard_ref := last_seq\<rparr>
                      else jb);
                jb = jb\<lparr>jb_discard_dist := u32 (max (jb_min_shrink_gap jb) (s32 (int discard_dist)))\<rparr>
            in
            if last_seq \<ge> jb_discard_ref jb + s32 (int (jb_discard_dist jb)) then
              (let discard_seq = jb_discard_ref jb + int (jb_discard_dist jb);
                   discard_seq = (if discard_seq < jb_framelist_origin (jb_framelist jb)
                                  then jb_framelist_origin (jb_framelist jb) else discard_seq)
               in jb\<lparr>jb_framelist := fst (jb_framelist_discard (jb_framelist jb) discard_seq),
                      jb_discard_ref := discard_seq\<rparr>)
            else jb)))"

definition run_discard_algo :: "pjmedia_jbuf \<Rightarrow> pjmedia_jbuf" where
  "run_discard_algo jb =
     (if jb_status jb = JB_STATUS_PROCESSING then
        (case jb_discard_algo jb of
           JB_DISCARD_NONE \<Rightarrow> jb
         | JB_DISCARD_STATIC \<Rightarrow> jbuf_discard_static jb
         | JB_DISCARD_PROGRESSIVE \<Rightarrow> jbuf_discard_progressive jb)
      else jb)"

definition jbuf_update :: "pjmedia_jbuf \<Rightarrow> jb_op \<Rightarrow> pjmedia_jbuf" where
  "jbuf_update jb oper =
     (if jb_last_op jb \<noteq> oper then
        (let jb = jb\<lparr>jb_last_op := oper\<rparr>;
             init = (jb_status jb = JB_STATUS_INITIALIZING);
             jb = (if init then jb\<lparr>jb_init_cycle_cnt := jb_init_cycle_cnt jb + 1\<rparr> else jb) in
         if init \<and> \<not> (jb_init_cycle_cnt jb \<ge> INIT_CYCLE \<and> oper = JB_OP_GET) then jb\<lparr>jb_level := 0\<rparr>
         else
           (let jb = (if init then jb\<lparr>jb_status := JB_STATUS_PROCESSING,
                                      jb_level := min (jb_level jb) (jb_max_burst jb)\<rparr> else jb);
                jb = (if oper = JB_OP_GET \<and> jb_level jb \<le> jb_max_burst jb
                      then jbuf_calculate_jitter jb else jb)
            in run_discard_algo (jb\<lparr>jb_level := 0\<rparr>)))
      else run_discard_algo jb)"

subsection \<open>Put, get, peek, remove\<close>

text \<open>The loop of \<^verbatim>\<open>pjmedia_jbuf_put_frame3\<close> that makes room for the frame.\<close>

partial_function (option) put_retry ::
    "pjmedia_jbuf \<Rightarrow> int \<Rightarrow> u8 list \<Rightarrow> nat \<Rightarrow> nat \<Rightarrow> pj_status \<Rightarrow> (pjmedia_jbuf \<times> pj_status) option"
  where
  "put_retry jb seq frame bit_info ts status =
     (if status = PJ_ETOOMANY then
        (let distance = (seq - jb_framelist_origin (jb_framelist jb)) - int (jb_max_count jb) + 1;
             (fl1, removed) = jb_framelist_remove_head (jb_framelist jb) (u32 distance);
             (fl2, status') = jb_framelist_put_at fl1 seq frame bit_info ts JB_NORMAL_FRAME in
         put_retry (jb\<lparr>jb_framelist := fl2, jb_discard := u32 (int (jb_discard jb) + int removed)\<rparr>)
           seq frame bit_info ts status')
      else Some (jb, status))"

text \<open>The second result is what the code stores in \<^verbatim>\<open>*discarded\<close>.\<close>

definition pjmedia_jbuf_put_frame3 ::
    "pjmedia_jbuf \<Rightarrow> u8 list \<Rightarrow> nat \<Rightarrow> int \<Rightarrow> nat \<Rightarrow> (pjmedia_jbuf \<times> bool) option" where
  "pjmedia_jbuf_put_frame3 jb frame0 bit_info frame_seq ts =
     (let cur_size = s32 (int (jb_framelist_eff_size (jb_framelist jb)));
          frame = take (min (length frame0) (jb_frame_size jb)) frame0;
          (fl, status0) = jb_framelist_put_at (jb_framelist jb) frame_seq frame bit_info ts
                            JB_NORMAL_FRAME in
      case put_retry (jb\<lparr>jb_framelist := fl\<rparr>) frame_seq frame bit_info ts status0 of
        None \<Rightarrow> None
      | Some (jb, status) \<Rightarrow>
          (let new_size = s32 (int (jb_framelist_eff_size (jb_framelist jb))) in
           if status = PJ_SUCCESS then
             (let jb = (if jb_prefetching jb \<and> new_size \<ge> jb_prefetch jb
                        then jb\<lparr>jb_prefetching := False\<rparr> else jb);
                  jb = jb\<lparr>jb_level := jb_level jb +
                           (if new_size > cur_size then new_size - cur_size else 1)\<rparr>
              in Some (jbuf_update jb JB_OP_PUT, False))
           else Some (jb\<lparr>jb_discard := u32 (int (jb_discard jb) + 1)\<rparr>, True)))"

definition pjmedia_jbuf_put_frame2 ::
    "pjmedia_jbuf \<Rightarrow> u8 list \<Rightarrow> nat \<Rightarrow> int \<Rightarrow> (pjmedia_jbuf \<times> bool) option" where
  "pjmedia_jbuf_put_frame2 jb frame bit_info frame_seq =
     pjmedia_jbuf_put_frame3 jb frame bit_info frame_seq 0"

definition pjmedia_jbuf_put_frame :: "pjmedia_jbuf \<Rightarrow> u8 list \<Rightarrow> int \<Rightarrow> pjmedia_jbuf option" where
  "pjmedia_jbuf_put_frame jb frame frame_seq =
     map_option fst (pjmedia_jbuf_put_frame3 jb frame 0 frame_seq 0)"

text \<open>
  Result of a get: the frame type reported to the caller and, where a frame was taken from
  the list, what was written through the other output pointers.
\<close>

definition pjmedia_jbuf_get_frame3 ::
    "pjmedia_jbuf \<Rightarrow> nat option \<Rightarrow> (pjmedia_jbuf \<times> jb_frame_type \<times> jb_frame option) option" where
  "pjmedia_jbuf_get_frame3 jb max_size =
     (let finish = (\<lambda>jb r. Some (jbuf_update (jb\<lparr>jb_level := jb_level jb + 1\<rparr>) JB_OP_GET, r)) in
      if jb_prefetching jb then
        finish (jb\<lparr>jb_empty := u32 (int (jb_empty jb) + 1)\<rparr>) (JB_ZERO_PREFETCH_FRAME, None)
      else if jb_framelist_eff_size (jb_framelist jb) < jb_min_delay jb then
        finish jb (JB_MISSING_FRAME, None)
      else
        (case jb_framelist_get (jb_framelist jb) max_size of
           None \<Rightarrow> None
         | Some (fl, Some frame) \<Rightarrow>
             (let jb = jb\<lparr>jb_framelist := fl\<rparr>;
                  ftype = (if fr_type frame = JB_NORMAL_FRAME then JB_NORMAL_FRAME
                           else JB_MISSING_FRAME);
                  jb = (if ftype = JB_NORMAL_FRAME then jb
                        else jb\<lparr>jb_lost := u32 (int (jb_lost jb) + 1)\<rparr>);
                  jb = (if jb_last_op jb = JB_OP_PUT
                        then (let cur_size = u32 (int (jb_framelist_eff_size fl) + 1) in
                              jb\<lparr>jb_delay := pj_math_stat_update (jb_delay jb)
                                   (s32 (int (u32 (int cur_size * int (jb_frame_ptime jb))
                                              div jb_frame_ptime_denum jb)))\<rparr>)
                        else jb)
              in finish jb (ftype, Some frame))
         | Some (fl, None) \<Rightarrow>
             (let jb = jb\<lparr>jb_framelist := fl\<rparr>;
                  jb = (if jb_prefetch jb \<noteq> 0 then jb\<lparr>jb_prefetching := True\<rparr> else jb)
              in finish (jb\<lparr>jb_empty := u32 (int (jb_empty jb) + 1)\<rparr>) (JB_ZERO_EMPTY_FRAME, None))))"

definition pjmedia_jbuf_get_frame2 ::
    "pjmedia_jbuf \<Rightarrow> nat option \<Rightarrow> (pjmedia_jbuf \<times> jb_frame_type \<times> jb_frame option) option" where
  "pjmedia_jbuf_get_frame2 jb max_size = pjmedia_jbuf_get_frame3 jb max_size"

definition pjmedia_jbuf_get_frame ::
    "pjmedia_jbuf \<Rightarrow> (pjmedia_jbuf \<times> jb_frame_type \<times> jb_frame option) option" where
  "pjmedia_jbuf_get_frame jb = pjmedia_jbuf_get_frame3 jb None"

definition pjmedia_jbuf_peek_frame ::
    "pjmedia_jbuf \<Rightarrow> nat \<Rightarrow> (jb_frame_type \<times> jb_frame option) option" where
  "pjmedia_jbuf_peek_frame jb offset =
     (case jb_framelist_peek (jb_framelist jb) offset of
        None \<Rightarrow> None
      | Some None \<Rightarrow> Some (JB_ZERO_EMPTY_FRAME, None)
      | Some (Some frame) \<Rightarrow>
          Some (if fr_type frame = JB_NORMAL_FRAME then JB_NORMAL_FRAME else JB_MISSING_FRAME,
                Some frame))"

function remove_more :: "jb_framelist \<Rightarrow> nat \<Rightarrow> nat \<Rightarrow> jb_framelist \<times> nat" where
  "remove_more fl last_discard_num cnt =
     (if fl_discarded_num fl < last_discard_num then
        (let frame_cnt = last_discard_num - fl_discarded_num fl;
             (fl', removed) = jb_framelist_remove_head fl frame_cnt in
         remove_more fl' (fl_discarded_num fl)
           (u32 (int (u32_sub cnt frame_cnt) + int removed)))
      else (fl, cnt))"
  by pat_completeness auto
termination
  by (relation "measure (\<lambda>(fl, last, cnt). last)") auto

declare remove_more.simps [simp del]

definition pjmedia_jbuf_remove_frame :: "pjmedia_jbuf \<Rightarrow> nat \<Rightarrow> pjmedia_jbuf \<times> nat" where
  "pjmedia_jbuf_remove_frame jb frame_cnt =
     (let last_discard_num = fl_discarded_num (jb_framelist jb);
          (fl, cnt) = jb_framelist_remove_head (jb_framelist jb) frame_cnt;
          (fl, cnt) = remove_more fl last_discard_num cnt in
      (jb\<lparr>jb_framelist := fl\<rparr>, cnt))"

end
