(* ===== verification/Jbuf_Inv.thy ===== *)
theory Jbuf_Inv
  imports Jbuf
begin

text \<open>
  The well-formedness invariant of the jitter buffer's frame list and jitter buffer, its
  preservation by every operation of \<^verbatim>\<open>jbuf.c\<close>, and the facts that follow: no loop of
  the file runs forever, indices stay inside the arrays, and the effective size never
  underflows.
\<close>

section \<open>The frame list invariant\<close>

definition ring :: "jb_framelist \<Rightarrow> jb_frame_type list" where
  "ring fl = rotate (fl_head fl) (fl_frame_type fl)"

definition stored_types :: "jb_frame_type set" where
  "stored_types = {JB_MISSING_FRAME, JB_NORMAL_FRAME, JB_DISCARDED_FRAME}"

definition fl_inv :: "jb_framelist \<Rightarrow> bool" where
  "fl_inv fl \<longleftrightarrow>
     0 < fl_max_count fl \<and> fl_max_count fl < 2 ^ 31 \<and>
     length (fl_content fl) = fl_max_count fl \<and> length (fl_frame_type fl) = fl_max_count fl \<and>
     length (fl_content_len fl) = fl_max_count fl \<and> length (fl_bit_info fl) = fl_max_count fl \<and>
     length (fl_ts fl) = fl_max_count fl \<and>
     fl_head fl < fl_max_count fl \<and> fl_size fl \<le> fl_max_count fl \<and>
     drop (fl_size fl) (ring fl) = replicate (fl_max_count fl - fl_size fl) JB_MISSING_FRAME \<and>
     fl_discarded_num fl = count_list (fl_frame_type fl) JB_DISCARDED_FRAME \<and>
     set (fl_frame_type fl) \<subseteq> stored_types"

lemma fl_invD:
  assumes "fl_inv fl"
  shows "0 < fl_max_count fl" "fl_max_count fl < 2 ^ 31"
    "length (fl_content fl) = fl_max_count fl" "length (fl_frame_type fl) = fl_max_count fl"
    "length (fl_content_len fl) = fl_max_count fl" "length (fl_bit_info fl) = fl_max_count fl"
    "length (fl_ts fl) = fl_max_count fl" "fl_head fl < fl_max_count fl"
    "fl_size fl \<le> fl_max_count fl"
    "drop (fl_size fl) (ring fl) = replicate (fl_max_count fl - fl_size fl) JB_MISSING_FRAME"
    "fl_discarded_num fl = count_list (fl_frame_type fl) JB_DISCARDED_FRAME"
    "set (fl_frame_type fl) \<subseteq> stored_types"
  using assms by (simp_all add: fl_inv_def)

lemma length_ring [simp]: "length (ring fl) = length (fl_frame_type fl)"
  by (simp add: ring_def)

lemma ring_nth:
  "fl_inv fl \<Longrightarrow> k < fl_max_count fl \<Longrightarrow>
     fl_frame_type fl ! ((fl_head fl + k) mod fl_max_count fl) = ring fl ! k"
  by (simp add: ring_def nth_rotate fl_inv_def)

lemma ring_head: "fl_inv fl \<Longrightarrow> fl_frame_type fl ! fl_head fl = ring fl ! 0"
  using ring_nth [of fl 0] by (simp add: fl_inv_def)

lemma ring_outside:
  assumes "fl_inv fl" "fl_size fl \<le> k" "k < fl_max_count fl"
  shows "ring fl ! k = JB_MISSING_FRAME"
proof -
  have "ring fl ! k = drop (fl_size fl) (ring fl) ! (k - fl_size fl)"
    using assms(2,3) fl_invD(4) [OF assms(1)] nth_drop [of "fl_size fl" "ring fl" "k - fl_size fl"]
    by simp
  then show ?thesis using assms fl_invD(10) [OF assms(1)] by simp
qed

lemma count_list_replicate:
  "count_list (replicate n x) y = (if x = y then n else 0)"
  by (induction n) auto

lemma ring_count:
  assumes "fl_inv fl"
  shows "fl_discarded_num fl = count_list (take (fl_size fl) (ring fl)) JB_DISCARDED_FRAME"
proof -
  have "count_list (ring fl) JB_DISCARDED_FRAME =
      count_list (take (fl_size fl) (ring fl) @ drop (fl_size fl) (ring fl)) JB_DISCARDED_FRAME"
    by simp
  then show ?thesis
    using fl_invD(10,11) [OF assms]
    by (simp add: count_list_append count_list_replicate ring_def del: append_take_drop_id)
qed

lemma discarded_le_size: "fl_inv fl \<Longrightarrow> fl_discarded_num fl \<le> fl_size fl"
  using ring_count [of fl] count_le_length [of "take (fl_size fl) (ring fl)" JB_DISCARDED_FRAME]
  by simp

lemma eff_size: "fl_inv fl \<Longrightarrow> jb_framelist_eff_size fl = fl_size fl - fl_discarded_num fl"
  using discarded_le_size [of fl] by (simp add: jb_framelist_eff_size_def fl_inv_def)

section \<open>Reset\<close>

lemma reset_inv:
  assumes "0 < fl_max_count fl" "fl_max_count fl < 2 ^ 31"
    "length (fl_content fl) = fl_max_count fl" "length (fl_frame_type fl) = fl_max_count fl"
    "length (fl_content_len fl) = fl_max_count fl" "length (fl_bit_info fl) = fl_max_count fl"
    "length (fl_ts fl) = fl_max_count fl"
  shows "fl_inv (jb_framelist_reset fl)"
  using assms
  by (simp add: fl_inv_def jb_framelist_reset_def ring_def fill_all count_list_replicate
      stored_types_def)

lemma reset_fields [simp]:
  "fl_size (jb_framelist_reset fl) = 0" "fl_discarded_num (jb_framelist_reset fl) = 0"
  "fl_max_count (jb_framelist_reset fl) = fl_max_count fl"
  "fl_frame_size (jb_framelist_reset fl) = fl_frame_size fl"
  "fl_head (jb_framelist_reset fl) = 0"
  by (simp_all add: jb_framelist_reset_def)

lemma set_origin_inv [simp]: "fl_inv (fl\<lparr>fl_origin := x\<rparr>) = fl_inv fl"
  by (simp add: fl_inv_def ring_def)

section \<open>Removing frames from the head\<close>

lemma uncount_discarded_count:
  "set is \<subseteq> {..<length ft} \<Longrightarrow>
   count_list (map ((!) ft) is) JB_DISCARDED_FRAME \<le> d \<Longrightarrow> d < 4294967296 \<Longrightarrow>
   uncount_discarded ft is d = d - count_list (map ((!) ft) is) JB_DISCARDED_FRAME"
  by (induction "is" arbitrary: d) (auto simp: uncount_discarded_def)

lemma uncount_discarded_cong:
  "(\<And>i. i \<in> set is \<Longrightarrow> ft ! i = ft' ! i) \<Longrightarrow> uncount_discarded ft is d = uncount_discarded ft' is d"
  by (induction "is" arbitrary: d) (auto simp: uncount_discarded_def)

text \<open>The operation in one step: clear the range and move the head.\<close>

lemma remove_head_eq:
  assumes inv: "fl_inv fl" and c: "c = min cnt (fl_size fl)"
  shows "jb_framelist_remove_head fl cnt =
    (fl\<lparr>fl_discarded_num := count_list (drop c (ring fl)) JB_DISCARDED_FRAME,
        fl_frame_type := clear_ring (fl_head fl) c JB_MISSING_FRAME (fl_frame_type fl),
        fl_content_len := clear_ring (fl_head fl) c 0 (fl_content_len fl),
        fl_origin := fl_origin fl + int c,
        fl_head := (fl_head fl + c) mod fl_max_count fl,
        fl_size := fl_size fl - c\<rparr>, c)"
proof -
  let ?n = "fl_max_count fl" and ?h = "fl_head fl" and ?ft = "fl_frame_type fl"
    and ?D = "JB_DISCARDED_FRAME"
  note I = fl_invD [OF inv]
  have cn: "c \<le> ?n" and hn: "?h < ?n" using I c by auto
  have d: "fl_discarded_num fl = count_list (take c (ring fl)) ?D + count_list (drop c (ring fl)) ?D"
    using I(11) by (metis append_take_drop_id count_list_append count_list_rotate ring_def)
  have d_less: "fl_discarded_num fl < 4294967296"
    using discarded_le_size [OF inv] I by simp
  have tk: "take c (ring fl) = (if ?h + c > ?n
     then map ((!) ?ft) [?h..<?n] @ map ((!) ?ft) [0..<?h + c - ?n]
     else map ((!) ?ft) [?h..<?h + c])"
    using window_slots [of ?h ?ft c] I cn unfolding ring_def by simp
  have cl: "clear_ring ?h c v xs = (if ?h + c > ?n
      then fill 0 (?h + c - ?n) v (fill ?h (?n - ?h) v xs) else fill ?h c v xs)"
    if "length xs = ?n" for v :: 'b and xs
    using that by (simp add: clear_ring_def)
  show ?thesis
  proof (cases "c = 0")
    case True
    then have z: "(if cnt > fl_size fl then fl_size fl else cnt) = 0" using c by auto
    have "count_list (ring fl) ?D = fl_discarded_num fl" using d True by simp
    then show ?thesis
      using True z hn I(4,5) by (simp add: jb_framelist_remove_head_def)
  next
    case c0: False
    have if_c: "(if cnt > fl_size fl then fl_size fl else cnt) = c" using c by auto
    show ?thesis
    proof (cases "?h + c > ?n")
      case True
      have i1: "set [?h..<?n] \<subseteq> {..<length ?ft}" using I by auto
      have sp: "?h + (?n - ?h) = ?n" "c - (?n - ?h) = ?h + c - ?n" using hn True by auto
      have s2: "?h + c - ?n \<noteq> 0" using True by simp
      have le: "?h + c - ?n \<le> ?h" using cn by simp
      have i2: "set [0..<?h + c - ?n] \<subseteq> {..<length ?ft}" using I le by auto
      have "uncount_discarded ?ft [?h..<?n] (fl_discarded_num fl) =
          fl_discarded_num fl - count_list (map ((!) ?ft) [?h..<?n]) ?D"
        using i1 d d_less tk True by (intro uncount_discarded_count) (auto simp: count_list_append)
      moreover have "uncount_discarded (fill ?h (?n - ?h) JB_MISSING_FRAME ?ft) [0..<?h + c - ?n] x =
          uncount_discarded ?ft [0..<?h + c - ?n] x" for x
        using le I by (intro uncount_discarded_cong) (auto simp: fill_def nth_append)
      moreover have "uncount_discarded ?ft [0..<?h + c - ?n]
            (fl_discarded_num fl - count_list (map ((!) ?ft) [?h..<?n]) ?D) =
          fl_discarded_num fl - count_list (map ((!) ?ft) [?h..<?n]) ?D
            - count_list (map ((!) ?ft) [0..<?h + c - ?n]) ?D"
        using i2 d d_less tk True by (intro uncount_discarded_count) (auto simp: count_list_append)
      ultimately show ?thesis
        using True c0 s2 tk d cl [OF I(4)] cl [OF I(5)]
        by (simp add: jb_framelist_remove_head_def Let_def if_c sp count_list_append)
    next
      case False
      have "uncount_discarded ?ft [?h..<?h + c] (fl_discarded_num fl) =
          fl_discarded_num fl - count_list (map ((!) ?ft) [?h..<?h + c]) ?D"
        using d d_less tk False I by (intro uncount_discarded_count) auto
      then show ?thesis
        using False c0 tk d cl [OF I(4)] cl [OF I(5)]
        by (simp add: jb_framelist_remove_head_def Let_def if_c)
    qed
  qed
qed

lemma remove_head_ring:
  assumes inv: "fl_inv fl" and c: "c = min cnt (fl_size fl)"
  shows "ring (fst (jb_framelist_remove_head fl cnt)) = drop c (ring fl) @ replicate c JB_MISSING_FRAME"
  using clear_ring_view [of "fl_head fl" "fl_frame_type fl" c JB_MISSING_FRAME] c fl_invD [OF inv]
  by (simp add: remove_head_eq [OF inv c] ring_def)

lemma remove_head_fields:
  assumes inv: "fl_inv fl" and c: "c = min cnt (fl_size fl)"
    and r: "fl' = fst (jb_framelist_remove_head fl cnt)"
  shows "snd (jb_framelist_remove_head fl cnt) = c"
    "fl_size fl' = fl_size fl - c" "fl_origin fl' = fl_origin fl + int c"
    "fl_max_count fl' = fl_max_count fl" "fl_frame_size fl' = fl_frame_size fl"
    "fl_head fl' = (fl_head fl + c) mod fl_max_count fl"
    "fl_content fl' = fl_content fl" "fl_bit_info fl' = fl_bit_info fl" "fl_ts fl' = fl_ts fl"
    "fl_content_len fl' = clear_ring (fl_head fl) c 0 (fl_content_len fl)"
    "fl_discarded_num fl' \<le> fl_discarded_num fl"
proof -
  have "count_list (drop c (ring fl)) JB_DISCARDED_FRAME \<le> count_list (ring fl) JB_DISCARDED_FRAME"
    by (metis append_take_drop_id count_list_append le_add2)
  then show "fl_discarded_num fl' \<le> fl_discarded_num fl"
    using fl_invD(11) [OF inv] by (simp add: r remove_head_eq [OF inv c] ring_def)
qed (simp_all add: r remove_head_eq [OF inv c])

lemma remove_head_inv:
  assumes inv: "fl_inv fl"
  shows "fl_inv (fst (jb_framelist_remove_head fl cnt))"
proof -
  define c where c: "c = min cnt (fl_size fl)"
  define fl' where r: "fl' = fst (jb_framelist_remove_head fl cnt)"
  note I = fl_invD [OF inv]
  note F = remove_head_fields [OF inv c r]
  have R: "ring fl' = drop c (ring fl) @ replicate c JB_MISSING_FRAME"
    unfolding r by (rule remove_head_ring [OF inv c])
  have cs: "c \<le> fl_size fl" using c by simp
  have lf: "length (fl_frame_type fl') = fl_max_count fl"
    using I cs by (simp add: r remove_head_eq [OF inv c])
  have "drop (fl_size fl - c) (ring fl') =
      drop (fl_size fl) (ring fl) @ replicate c JB_MISSING_FRAME"
    using R cs I by simp
  also have "\<dots> = replicate (fl_max_count fl - (fl_size fl - c)) JB_MISSING_FRAME"
    using I cs by (simp add: replicate_add [symmetric])
  finally have dr: "drop (fl_size fl') (ring fl') =
      replicate (fl_max_count fl' - fl_size fl') JB_MISSING_FRAME" using F by simp
  have "count_list (ring fl') JB_DISCARDED_FRAME = count_list (drop c (ring fl)) JB_DISCARDED_FRAME"
    by (simp add: R count_list_replicate)
  then have dn: "fl_discarded_num fl' = count_list (fl_frame_type fl') JB_DISCARDED_FRAME"
    by (simp add: r remove_head_eq [OF inv c] ring_def)
  have lc: "length (fl_content_len fl') = fl_max_count fl" using F(10) I cs by simp
  have st: "set (fl_frame_type fl') \<subseteq> stored_types"
    using I(12) set_clear_ring [of "fl_head fl" c JB_MISSING_FRAME "fl_frame_type fl"]
    by (auto simp: r remove_head_eq [OF inv c] stored_types_def)
  show ?thesis
    using I F(2,4,6,7,8,9) lf dr dn lc st unfolding fl_inv_def r [symmetric] by simp
qed

text \<open>Removing one frame and then \<open>k\<close> more is removing \<open>k + 1\<close>.\<close>

lemma clear_ring_Suc:
  assumes "h < length xs" "Suc c \<le> length xs"
  shows "clear_ring ((h + 1) mod length xs) c v (clear_ring h 1 v xs) = clear_ring h (Suc c) v xs"
proof -
  let ?h1 = "(h + 1) mod length xs" and ?ys = "clear_ring h 1 v xs"
  have ne: "0 < length xs" using assms by linarith
  have l: "length ?ys = length xs" "?h1 < length xs"
    using assms mod_less_divisor [OF ne] by simp_all
  have m: "(?h1 + c) mod length xs = (h + Suc c) mod length xs"
    by (simp add: mod_add_left_eq)
  have "rotate ((h + Suc c) mod length xs) (clear_ring ?h1 c v ?ys) =
      drop c (rotate ?h1 ?ys) @ replicate c v"
    using clear_ring_view [of ?h1 ?ys c v] l assms m by simp
  also have "\<dots> = drop c (drop 1 (rotate h xs) @ replicate 1 v) @ replicate c v"
    using clear_ring_view [of h xs 1 v] assms by simp
  also have "\<dots> = drop (Suc c) (rotate h xs) @ replicate (Suc c) v"
    using assms by (simp add: replicate_append_same)
  also have "\<dots> = rotate ((h + Suc c) mod length xs) (clear_ring h (Suc c) v xs)"
    using clear_ring_view [of h xs "Suc c" v] assms by simp
  finally show ?thesis by (simp add: rotate_inj_eq)
qed

lemma remove_head_twice:
  assumes inv: "fl_inv fl" and ne: "fl_size fl \<noteq> 0"
    and f1: "fl1 = fst (jb_framelist_remove_head fl 1)"
  shows "fst (jb_framelist_remove_head fl1 k) = fst (jb_framelist_remove_head fl (Suc k))"
proof -
  note I = fl_invD [OF inv]
  have c1: "1 = min 1 (fl_size fl)" using ne by simp
  have inv1: "fl_inv fl1" unfolding f1 by (rule remove_head_inv [OF inv])
  note F = remove_head_fields [OF inv c1 f1]
  define c where "c = min k (fl_size fl1)"
  have sc: "Suc c = min (Suc k) (fl_size fl)" using F(2) ne by (auto simp: c_def)
  have le: "Suc c \<le> fl_max_count fl" using sc I by simp
  have e1: "fl_frame_type fl1 = clear_ring (fl_head fl) 1 JB_MISSING_FRAME (fl_frame_type fl)"
    "fl_discarded_num fl1 = count_list (drop 1 (ring fl)) JB_DISCARDED_FRAME"
    unfolding f1 remove_head_eq [OF inv c1] by simp_all
  have cnt: "count_list (drop c (ring fl1)) JB_DISCARDED_FRAME =
      count_list (drop (Suc c) (ring fl)) JB_DISCARDED_FRAME"
    unfolding f1 remove_head_ring [OF inv c1] using le I(4) by (simp add: count_list_append)
  have hd: "(fl_head fl1 + c) mod fl_max_count fl = (fl_head fl + Suc c) mod fl_max_count fl"
    using F(6) by (simp add: mod_add_left_eq)
  show ?thesis
    unfolding remove_head_eq [OF inv1 c_def] remove_head_eq [OF inv sc]
    using F e1 cnt hd le I clear_ring_Suc [of "fl_head fl" "fl_frame_type fl" c JB_MISSING_FRAME]
      clear_ring_Suc [of "fl_head fl" "fl_content_len fl" c 0]
    unfolding f1 remove_head_eq [OF inv c1] by simp
qed

section \<open>The window of frames as a list\<close>

text \<open>
  The abstract content of a slot: a lost frame, a discarded frame, or a frame with its
  payload, bit information and timestamp.  The window is the list of slots from the head.
\<close>

datatype aframe = A_lost | A_discarded | A_frame "u8 list" nat nat

definition abs_slot :: "jb_framelist \<Rightarrow> nat \<Rightarrow> aframe" where
  "abs_slot fl p =
     (case fl_frame_type fl ! p of
        JB_NORMAL_FRAME \<Rightarrow>
          A_frame (take (fl_content_len fl ! p) (fl_content fl ! p)) (fl_bit_info fl ! p) (fl_ts fl ! p)
      | JB_DISCARDED_FRAME \<Rightarrow> A_discarded
      | _ \<Rightarrow> A_lost)"

lemma abs_slot_cong:
  "fl_frame_type fl' ! p = fl_frame_type fl ! p \<Longrightarrow>
   fl_content_len fl' ! p = fl_content_len fl ! p \<Longrightarrow> fl_content fl' ! p = fl_content fl ! p \<Longrightarrow>
   fl_bit_info fl' ! p = fl_bit_info fl ! p \<Longrightarrow> fl_ts fl' ! p = fl_ts fl ! p \<Longrightarrow>
   abs_slot fl' p = abs_slot fl p"
  by (simp add: abs_slot_def split: jb_frame_type.split)

definition window :: "jb_framelist \<Rightarrow> aframe list" where
  "window fl = map (\<lambda>k. abs_slot fl ((fl_head fl + k) mod fl_max_count fl)) [0..<fl_size fl]"

lemma length_window [simp]: "length (window fl) = fl_size fl"
  by (simp add: window_def)

lemma window_nth: "k < fl_size fl \<Longrightarrow>
    window fl ! k = abs_slot fl ((fl_head fl + k) mod fl_max_count fl)"
  by (simp add: window_def)

lemma window_discarded:
  "fl_inv fl \<Longrightarrow> k < fl_size fl \<Longrightarrow>
     (window fl ! k = A_discarded) = (ring fl ! k = JB_DISCARDED_FRAME)"
  using ring_nth [of fl k] fl_invD(9) [of fl]
  by (auto simp: window_nth abs_slot_def split: jb_frame_type.splits)

lemma remove_head_window:
  assumes inv: "fl_inv fl" and c: "c = min cnt (fl_size fl)"
  shows "window (fst (jb_framelist_remove_head fl cnt)) = drop c (window fl)"
proof (rule nth_equalityI)
  define fl' where r: "fl' = fst (jb_framelist_remove_head fl cnt)"
  note I = fl_invD [OF inv]
  note F = remove_head_fields [OF inv c r]
  have cs: "c \<le> fl_size fl" using c by simp
  show "length (window (fst (jb_framelist_remove_head fl cnt))) = length (drop c (window fl))"
    using F(2) by (simp add: r)
  fix k
  assume "k < length (window (fst (jb_framelist_remove_head fl cnt)))"
  then have k: "k < fl_size fl - c" using F(2) by (simp add: r)
  have k': "c + k < fl_max_count fl" "k < fl_max_count fl" "k < fl_max_count fl - c"
    using k I by auto
  define p where "p = (fl_head fl + (c + k)) mod fl_max_count fl"
  have p': "(fl_head fl' + k) mod fl_max_count fl' = p"
    using F(4,6) by (simp add: p_def mod_add_left_eq add.assoc)
  have inv': "fl_inv fl'" unfolding r by (rule remove_head_inv [OF inv])
  have "fl_frame_type fl' ! p = ring fl' ! k"
    using ring_nth [OF inv', of k] F(4) k' p' by simp
  also have "\<dots> = ring fl ! (c + k)"
    using remove_head_ring [OF inv c] k k' I by (simp add: r nth_append)
  also have "\<dots> = fl_frame_type fl ! p"
    using ring_nth [OF inv, of "c + k"] k' by (simp add: p_def)
  finally have ft: "fl_frame_type fl' ! p = fl_frame_type fl ! p" .
  have "fl_content_len fl' ! p = rotate (fl_head fl') (fl_content_len fl') ! k"
    using p' I F cs k' by (simp add: nth_rotate)
  also have "\<dots> = rotate (fl_head fl) (fl_content_len fl) ! (c + k)"
    using clear_ring_view [of "fl_head fl" "fl_content_len fl" c 0] F(6,10) I cs k'
    by (simp add: nth_append)
  also have "\<dots> = fl_content_len fl ! p"
    using I k' by (simp add: nth_rotate p_def)
  finally have cl: "fl_content_len fl' ! p = fl_content_len fl ! p" .
  have "window fl' ! k = abs_slot fl' p" using k F(2) p' by (simp add: window_nth)
  also have "\<dots> = abs_slot fl p" using ft cl F(7,8,9) by (intro abs_slot_cong) simp_all
  also have "\<dots> = drop c (window fl) ! k" using k by (simp add: window_nth p_def)
  finally show "window (fst (jb_framelist_remove_head fl cnt)) ! k = drop c (window fl) ! k"
    by (simp add: r)
qed

section \<open>Taking a frame\<close>

text \<open>The number of discarded frames at the front of the window.\<close>

definition lead :: "aframe list \<Rightarrow> nat" where
  "lead w = length (takeWhile (\<lambda>x. x = A_discarded) w)"

lemma lead_simps [simp]:
  "lead [] = 0" "lead (x # w) = (if x = A_discarded then Suc (lead w) else 0)"
  by (simp_all add: lead_def)

lemma lead_le: "lead w \<le> length w"
  by (simp add: lead_def length_takeWhile_le)

lemma window_hd:
  "fl_inv fl \<Longrightarrow> fl_size fl \<noteq> 0 \<Longrightarrow> window fl = window fl ! 0 # drop 1 (window fl)"
  by (metis Cons_nth_drop_Suc drop0 length_window neq0_conv One_nat_def)

text \<open>
  The skipping loop ends, and removes exactly the discarded frames at the front.
\<close>

lemma skip_discarded_eq:
  "fl_inv fl \<Longrightarrow>
   skip_discarded fl pd =
     Some (fst (jb_framelist_remove_head fl (lead (window fl))), pd \<or> lead (window fl) \<noteq> 0)"
proof (induction fl pd rule: skip_discarded.induct)
  case (1 fl pd)
  note inv = 1(2)
  show ?case
  proof (cases "fl_frame_type fl ! fl_head fl = JB_DISCARDED_FRAME")
    case True
    have ne: "fl_size fl \<noteq> 0"
      using True ring_head [OF inv] ring_outside [OF inv, of 0] fl_invD(1) [OF inv] by auto
    have w0: "window fl ! 0 = A_discarded"
      using True ring_head [OF inv] window_discarded [OF inv, of 0] ne by simp
    define fl1 where "fl1 = fst (jb_framelist_remove_head fl 1)"
    have c1: "1 = min 1 (fl_size fl)" using ne by simp
    have inv1: "fl_inv fl1" unfolding fl1_def by (rule remove_head_inv [OF inv])
    have w1: "window fl1 = drop 1 (window fl)"
      unfolding fl1_def by (rule remove_head_window [OF inv c1])
    have ld: "lead (window fl) = Suc (lead (window fl1))"
      using window_hd [OF inv ne] w0 w1 by (metis lead_simps(2))
    have IH: "skip_discarded fl1 True =
        Some (fst (jb_framelist_remove_head fl1 (lead (window fl1))), True)"
      using 1(1) [OF True ne] inv1 by (simp add: fl1_def)
    have "fst (jb_framelist_remove_head fl1 (lead (window fl1))) =
        fst (jb_framelist_remove_head fl (Suc (lead (window fl1))))"
      unfolding fl1_def [symmetric] using remove_head_twice [OF inv ne] fl1_def by simp
    then show ?thesis using True ne IH ld by (simp add: skip_discarded.simps [of fl] fl1_def)
  next
    case False
    have "lead (window fl) = 0"
    proof (cases "fl_size fl = 0")
      case True
      then show ?thesis by (simp add: window_def)
    next
      case ne: False
      then have "window fl ! 0 \<noteq> A_discarded"
        using False ring_head [OF inv] window_discarded [OF inv, of 0] by simp
      then show ?thesis using window_hd [OF inv ne] by (metis lead_simps(2))
    qed
    then show ?thesis
      using False by (simp add: skip_discarded.simps [of fl] jb_framelist_remove_head_def)
  qed
qed

end
