(* ===== verification/Jbuf_Spec.thy ===== *)
theory Jbuf_Spec
  imports Jbuf_Inv
begin

text \<open>
  The frame list refines a sequence-indexed window: every operation of
  \<^verbatim>\<open>jb_framelist_*\<close> is characterised by what it does to the origin and the list of
  abstract frames, and keeps the invariant.  The locale \<open>frame_window\<close> states that
  contract; its interpretation on the model's operations is at the end.
\<close>

section \<open>Get\<close>

definition pop_head :: "jb_framelist \<Rightarrow> jb_framelist" where
  "pop_head fl =
     fl\<lparr>fl_frame_type := (fl_frame_type fl)[fl_head fl := JB_MISSING_FRAME],
        fl_content_len := (fl_content_len fl)[fl_head fl := 0],
        fl_bit_info := (fl_bit_info fl)[fl_head fl := 0],
        fl_ts := (fl_ts fl)[fl_head fl := 0],
        fl_origin := fl_origin fl + 1,
        fl_head := (fl_head fl + 1) mod fl_max_count fl,
        fl_size := fl_size fl - 1\<rparr>"

lemma pop_head_ring:
  "fl_inv fl \<Longrightarrow> ring (pop_head fl) = tl (ring fl) @ [JB_MISSING_FRAME]"
  using pop_ring_view [of "fl_head fl" "fl_frame_type fl" JB_MISSING_FRAME] fl_invD [of fl]
  by (simp add: ring_def pop_head_def)

lemma pop_head_inv:
  assumes inv: "fl_inv fl" and ne: "fl_size fl \<noteq> 0" and nd: "ring fl ! 0 \<noteq> JB_DISCARDED_FRAME"
  shows "fl_inv (pop_head fl)"
proof -
  note I = fl_invD [OF inv]
  have r: "ring fl = ring fl ! 0 # tl (ring fl)"
    using I by (metis length_ring list.collapse hd_conv_nth length_greater_0_conv)
  have R: "ring (pop_head fl) = tl (ring fl) @ [JB_MISSING_FRAME]" by (rule pop_head_ring [OF inv])
  have "drop (fl_size fl - 1) (tl (ring fl)) = drop (fl_size fl) (ring fl)"
    using ne by (simp add: drop_Suc [symmetric])
  then have dr: "drop (fl_size fl - 1) (ring (pop_head fl)) =
      replicate (fl_max_count fl - (fl_size fl - 1)) JB_MISSING_FRAME"
    using R I ne by (simp add: replicate_append_same [symmetric] Suc_diff_le)
  have "count_list (ring (pop_head fl)) JB_DISCARDED_FRAME = count_list (ring fl) JB_DISCARDED_FRAME"
    using R nd by (subst r) simp
  then have cn: "count_list ((fl_frame_type fl)[fl_head fl := JB_MISSING_FRAME]) JB_DISCARDED_FRAME =
      count_list (fl_frame_type fl) JB_DISCARDED_FRAME"
    by (simp add: ring_def pop_head_def)
  have "(fl_head fl + 1) mod fl_max_count fl < fl_max_count fl"
    using I by (intro mod_less_divisor) auto
  moreover have "set ((fl_frame_type fl)[fl_head fl := JB_MISSING_FRAME]) \<subseteq> stored_types"
    using I(12) set_update_subset_insert [of "fl_frame_type fl" "fl_head fl" JB_MISSING_FRAME]
    by (auto simp: stored_types_def)
  ultimately show ?thesis
    using I dr cn by (simp add: fl_inv_def) (simp add: pop_head_def)
qed

lemma pop_head_window:
  assumes inv: "fl_inv fl" and ne: "fl_size fl \<noteq> 0"
  shows "window (pop_head fl) = tl (window fl)"
proof (rule nth_equalityI)
  note I = fl_invD [OF inv]
  show "length (window (pop_head fl)) = length (tl (window fl))" by (simp add: pop_head_def)
  fix k
  assume "k < length (window (pop_head fl))"
  then have k: "Suc k < fl_size fl" by (simp add: pop_head_def)
  define p where "p = (fl_head fl + Suc k) mod fl_max_count fl"
  have p': "((fl_head fl + 1) mod fl_max_count fl + k) mod fl_max_count fl = p"
    by (simp add: p_def mod_add_left_eq)
  have "p \<noteq> fl_head fl"
    using mod_add_cancel_less [of "Suc k" "fl_max_count fl" 0 "fl_head fl"] k I by (auto simp: p_def)
  then have "abs_slot (pop_head fl) p = abs_slot fl p"
    by (intro abs_slot_cong) (simp_all add: pop_head_def)
  then show "window (pop_head fl) ! k = tl (window fl) ! k"
    using k p' window_nth [of k "pop_head fl"] window_nth [of "Suc k" fl]
    by (simp add: nth_tl p_def pop_head_def)
qed

definition frame_of_head :: "jb_framelist \<Rightarrow> nat option \<Rightarrow> bool \<Rightarrow> jb_frame" where
  "frame_of_head fl max_size prev_discarded =
     (let h = fl_head fl; frm_size = fl_content_len fl ! h;
          copy_size = (case max_size of None \<Rightarrow> frm_size | Some s \<Rightarrow> min s frm_size) in
      if prev_discarded
      then \<lparr>fr_data = [], fr_size = 0, fr_type = JB_MISSING_FRAME, fr_bit_info = 0,
            fr_ts = fl_ts fl ! h, fr_seq = fl_origin fl\<rparr>
      else \<lparr>fr_data = take copy_size (fl_content fl ! h), fr_size = copy_size,
            fr_type = fl_frame_type fl ! h, fr_bit_info = fl_bit_info fl ! h,
            fr_ts = fl_ts fl ! h, fr_seq = fl_origin fl\<rparr>)"

lemma drop_lead: "w ! lead w \<noteq> A_discarded" if "lead w < length w"
  using that nth_length_takeWhile [of "\<lambda>x. x = A_discarded" w] by (simp add: lead_def)

text \<open>The whole operation, in terms of the number \<open>L\<close> of discarded frames in front.\<close>

lemma framelist_get_eq:
  assumes inv: "fl_inv fl" and L: "L = lead (window fl)"
    and f1: "fl1 = fst (jb_framelist_remove_head fl L)"
  shows "jb_framelist_get fl max_size =
    (if L = fl_size fl then Some (fl1, None)
     else Some (pop_head fl1, Some (frame_of_head fl1 max_size (L \<noteq> 0))))"
proof -
  have Ls: "L \<le> fl_size fl" using lead_le [of "window fl"] L by simp
  then have c: "L = min L (fl_size fl)" by simp
  have s1: "fl_size fl1 = fl_size fl - L" by (rule remove_head_fields(2) [OF inv c f1])
  show ?thesis
  proof (cases "fl_size fl = 0")
    case True
    then have "L = 0" using Ls by simp
    then have "fl1 = fl" using f1 True by (simp add: jb_framelist_remove_head_def)
    then show ?thesis using True \<open>L = 0\<close> by (simp add: jb_framelist_get_def)
  next
    case False
    then show ?thesis
      using skip_discarded_eq [OF inv, of False] s1 Ls
      by (simp add: jb_framelist_get_def L [symmetric] f1 [symmetric] Let_def pop_head_def
          frame_of_head_def)
  qed
qed

lemma framelist_get_spec:
  assumes inv: "fl_inv fl" and L: "L = lead (window fl)"
  obtains fl' r where "jb_framelist_get fl max_size = Some (fl', r)" "fl_inv fl'"
    "fl_max_count fl' = fl_max_count fl" "fl_frame_size fl' = fl_frame_size fl"
    "window fl' = drop (Suc L) (window fl)"
    "L = fl_size fl \<Longrightarrow> r = None \<and> fl_origin fl' = fl_origin fl + int L"
    "L < fl_size fl \<Longrightarrow> fl_origin fl' = fl_origin fl + int L + 1 \<and>
       (\<exists>f. r = Some f \<and> fr_seq f = fl_origin fl + int L \<and>
        (0 < L \<longrightarrow> fr_type f = JB_MISSING_FRAME) \<and>
        (\<forall>d b t. L = 0 \<and> window fl ! 0 = A_frame d b t \<longrightarrow>
           fr_type f = JB_NORMAL_FRAME \<and> fr_bit_info f = b \<and> fr_ts f = t \<and>
           fr_data f = (case max_size of None \<Rightarrow> d | Some s \<Rightarrow> take s d)) \<and>
        (L = 0 \<and> window fl ! 0 = A_lost \<longrightarrow> fr_type f \<noteq> JB_NORMAL_FRAME))"
proof -
  have Ls: "L \<le> fl_size fl" using lead_le [of "window fl"] L by simp
  then have c: "L = min L (fl_size fl)" by simp
  define fl1 where f1: "fl1 = fst (jb_framelist_remove_head fl L)"
  note F = remove_head_fields [OF inv c f1]
  have inv1: "fl_inv fl1" unfolding f1 by (rule remove_head_inv [OF inv])
  have w1: "window fl1 = drop L (window fl)" unfolding f1 by (rule remove_head_window [OF inv c])
  note G = framelist_get_eq [OF inv L f1, of max_size]
  show ?thesis
  proof (cases "L = fl_size fl")
    case True
    then show ?thesis using G inv1 F w1 by (intro that [of fl1 None]) simp_all
  next
    case False
    then have Ll: "L < fl_size fl" using Ls by simp
    have ne1: "fl_size fl1 \<noteq> 0" using F(2) Ll by simp
    have "window fl1 ! 0 = window fl ! L" using w1 Ll by simp
    then have nd: "window fl1 ! 0 \<noteq> A_discarded" using drop_lead [of "window fl"] L Ll by simp
    then have nd': "ring fl1 ! 0 \<noteq> JB_DISCARDED_FRAME"
      using window_discarded [OF inv1, of 0] ne1 by simp
    let ?f = "frame_of_head fl1 max_size (L \<noteq> 0)"
    have wp: "window (pop_head fl1) = drop (Suc L) (window fl)"
      using pop_head_window [OF inv1 ne1] w1 by (simp add: drop_Suc drop_tl)
    have slot0: "window fl ! 0 = abs_slot fl1 (fl_head fl1)" if "L = 0"
      using that w1 window_nth [of 0 fl1] ne1 fl_invD(8) [OF inv1] by simp
    have fr: "fr_seq ?f = fl_origin fl + int L" "0 < L \<longrightarrow> fr_type ?f = JB_MISSING_FRAME"
      using F(3) by (simp_all add: frame_of_head_def Let_def)
    have data: "fr_type ?f = JB_NORMAL_FRAME \<and> fr_bit_info ?f = b \<and> fr_ts ?f = t \<and>
           fr_data ?f = (case max_size of None \<Rightarrow> d | Some s \<Rightarrow> take s d)"
      if "L = 0" "window fl ! 0 = A_frame d b t" for d b t
      using that slot0
      by (auto simp: abs_slot_def frame_of_head_def Let_def min_def
          split: jb_frame_type.splits option.splits)
    have lost: "fr_type ?f \<noteq> JB_NORMAL_FRAME" if "L = 0" "window fl ! 0 = A_lost"
      using that slot0 by (auto simp: abs_slot_def frame_of_head_def Let_def split: jb_frame_type.splits)
    show ?thesis
      using False Ll G F wp pop_head_inv [OF inv1 ne1 nd'] fr data lost
      by (intro that [of "pop_head fl1" "Some ?f"]) (auto simp: pop_head_def)
  qed
qed

section \<open>Put\<close>

text \<open>Storing a frame at an offset from the origin, growing the window if it lies beyond it.\<close>

definition put_window :: "aframe list \<Rightarrow> nat \<Rightarrow> aframe \<Rightarrow> aframe list" where
  "put_window w d x =
     (if d < length w then w[d := x] else w @ replicate (d - length w) A_lost @ [x])"

lemma length_put_window: "length (put_window w d x) = max (length w) (Suc d)"
  by (auto simp: put_window_def)

lemma nth_put_window:
  "k < max (length w) (Suc d) \<Longrightarrow>
   put_window w d x ! k = (if k = d then x else if k < length w then w ! k else A_lost)"
  by (auto simp: put_window_def nth_append nth_Cons')

lemma window_lost:
  assumes "fl_inv fl" "k < fl_size fl"
  shows "(window fl ! k = A_lost) = (ring fl ! k = JB_MISSING_FRAME)"
proof -
  have "ring fl ! k \<in> stored_types"
    using assms fl_invD [OF assms(1)] nth_mem [of k "ring fl"] by (auto simp: ring_def)
  then show ?thesis
    using ring_nth [of fl k] fl_invD(9) [of fl] assms
    by (auto simp: window_nth abs_slot_def stored_types_def split: jb_frame_type.splits)
qed

text \<open>The store step at a free slot \<open>d\<close> positions after the head.\<close>

definition store :: "jb_framelist \<Rightarrow> nat \<Rightarrow> u8 list \<Rightarrow> nat \<Rightarrow> nat \<Rightarrow> jb_framelist" where
  "store fl d frame b t =
     (let pos = (fl_head fl + d) mod fl_max_count fl in
      fl\<lparr>fl_frame_type := (fl_frame_type fl)[pos := JB_NORMAL_FRAME],
         fl_content_len := (fl_content_len fl)[pos := length frame],
         fl_bit_info := (fl_bit_info fl)[pos := b], fl_ts := (fl_ts fl)[pos := t],
         fl_size := max (fl_size fl) (Suc d),
         fl_content := (fl_content fl)[pos := overlay frame (fl_content fl ! pos)]\<rparr>)"

lemma count_list_update_other:
  "i < length xs \<Longrightarrow> xs ! i \<noteq> y \<Longrightarrow> x \<noteq> y \<Longrightarrow> count_list (xs[i := x]) y = count_list xs y"
  by (induction xs arbitrary: i) (auto split: nat.splits)

lemma store_inv:
  assumes inv: "fl_inv fl" and d: "d < fl_max_count fl" and m: "ring fl ! d = JB_MISSING_FRAME"
  shows "fl_inv (store fl d frame b t)"
proof -
  note I = fl_invD [OF inv]
  let ?pos = "(fl_head fl + d) mod fl_max_count fl"
  have pos: "?pos < fl_max_count fl" using I by (intro mod_less_divisor) auto
  have R: "ring (store fl d frame b t) = (ring fl)[d := JB_NORMAL_FRAME]"
    using update_ring_view [of "fl_head fl" "fl_frame_type fl" d JB_NORMAL_FRAME] I d
    by (simp add: ring_def store_def Let_def)
  have "drop (max (fl_size fl) (Suc d)) ((ring fl)[d := JB_NORMAL_FRAME]) =
      drop (max (fl_size fl) (Suc d) - fl_size fl) (drop (fl_size fl) (ring fl))"
    by (simp add: drop_update_cancel)
  then have dr: "drop (max (fl_size fl) (Suc d)) ((ring fl)[d := JB_NORMAL_FRAME]) =
      replicate (fl_max_count fl - max (fl_size fl) (Suc d)) JB_MISSING_FRAME"
    using I(10) by simp
  have "fl_frame_type fl ! ?pos = JB_MISSING_FRAME" using ring_nth [OF inv d] m by simp
  then have cn: "count_list ((fl_frame_type fl)[?pos := JB_NORMAL_FRAME]) JB_DISCARDED_FRAME =
      count_list (fl_frame_type fl) JB_DISCARDED_FRAME"
    using pos I by (intro count_list_update_other) auto
  have "set ((fl_frame_type fl)[?pos := JB_NORMAL_FRAME]) \<subseteq> stored_types"
    using I(12) set_update_subset_insert [of "fl_frame_type fl" ?pos JB_NORMAL_FRAME]
    by (auto simp: stored_types_def)
  then show ?thesis
    using I d dr cn R by (simp add: fl_inv_def) (simp add: store_def Let_def)
qed

lemma store_window:
  assumes inv: "fl_inv fl" and d: "d < fl_max_count fl" and m: "ring fl ! d = JB_MISSING_FRAME"
  shows "window (store fl d frame b t) = put_window (window fl) d (A_frame frame b t)"
proof (rule nth_equalityI)
  note I = fl_invD [OF inv]
  let ?pos = "(fl_head fl + d) mod fl_max_count fl" and ?fl = "store fl d frame b t"
  have pos: "?pos < fl_max_count fl" using I by (intro mod_less_divisor) auto
  show "length (window ?fl) = length (put_window (window fl) d (A_frame frame b t))"
    by (simp add: length_put_window store_def Let_def)
  fix k
  assume "k < length (window ?fl)"
  then have k: "k < max (fl_size fl) (Suc d)" by (simp add: store_def Let_def)
  then have kn: "k < fl_max_count fl" using I d by auto
  define p where "p = (fl_head fl + k) mod fl_max_count fl"
  have w: "window ?fl ! k = abs_slot ?fl p"
    using k by (simp add: window_def p_def store_def Let_def)
  show "window ?fl ! k = put_window (window fl) d (A_frame frame b t) ! k"
  proof (cases "k = d")
    case True
    then have "abs_slot ?fl p = A_frame frame b t"
      using pos I by (simp add: abs_slot_def store_def Let_def p_def overlay_def)
    then show ?thesis using w k True by (simp add: nth_put_window)
  next
    case False
    then have "p \<noteq> ?pos" using mod_add_cancel_less [OF kn d, of "fl_head fl"] by (auto simp: p_def)
    then have same: "abs_slot ?fl p = abs_slot fl p"
      by (intro abs_slot_cong) (simp_all add: store_def Let_def)
    have "abs_slot fl p = A_lost" if "\<not> k < fl_size fl"
      using that ring_outside [OF inv _ kn] ring_nth [OF inv kn] by (simp add: p_def abs_slot_def)
    then show ?thesis using w same k False by (auto simp: nth_put_window window_nth p_def)
  qed
qed

lemma put_at_store_eq:
  assumes inv: "fl_inv fl" and d: "0 \<le> d" "d < int (fl_max_count fl)"
    and i: "index = fl_origin fl + d"
  shows "put_at_store fl index d frame b t JB_NORMAL_FRAME =
    (if ring fl ! nat d \<noteq> JB_MISSING_FRAME then (fl, PJ_EEXISTS)
     else (store fl (nat d) frame b t, PJ_SUCCESS))"
proof -
  have n: "nat (int (fl_head fl) + d) = fl_head fl + nat d" using d by simp
  have "fl_frame_type fl ! ((fl_head fl + nat d) mod fl_max_count fl) = ring fl ! nat d"
    using ring_nth [OF inv, of "nat d"] d by simp
  moreover have "(if fl_origin fl + int (fl_size fl) \<le> index then nat (d + 1) else fl_size fl) =
      max (fl_size fl) (Suc (nat d))"
    using d i by auto
  ultimately show ?thesis by (simp add: put_at_store_def Let_def n store_def)
qed

text \<open>
  The abstract operation on the origin \<open>o\<close> and window \<open>w\<close> of a buffer of
  \<open>n\<close> frames.  A frame behind the origin is late, restarts the numbering near the end of
  the index range, or empties the buffer; a frame beyond the capacity is refused or, when it
  is farther than the largest dropout, empties the buffer.
\<close>

type_synonym awindow = "int \<times> aframe list"

definition spec_rebase :: "awindow \<Rightarrow> int \<Rightarrow> awindow" where
  "spec_rebase ow index =
     (let (o', w) = ow;
          (o1, w1) = (if index < o' then
              (if u32 (o' + int (length w)) \<ge> MAX_FRAME_INDEX then (index - int (length w), w)
               else (index, []))
            else (o', w))
      in if w1 = [] then (index, []) else (o1, w1))"

definition spec_put :: "nat \<Rightarrow> awindow \<Rightarrow> int \<Rightarrow> aframe \<Rightarrow> awindow \<times> pj_status" where
  "spec_put n ow index x =
     (if index < fst ow \<and> fst ow - index < JB_MAX_MISORDER then (ow, PJ_ETOOSMALL)
      else
        (let (o2, w2) = spec_rebase ow index in
         if index - o2 \<ge> int n \<and> index - o2 \<le> JB_MAX_DROPOUT then ((o2, w2), PJ_ETOOMANY)
         else
           (let (o3, w3) = (if index - o2 \<ge> int n then (index, []) else (o2, w2));
                d = nat (index - o3) in
            if d < length w3 \<and> w3 ! d \<noteq> A_lost then ((o3, w3), PJ_EEXISTS)
            else ((o3, put_window w3 d x), PJ_SUCCESS))))"

definition abs_fl :: "jb_framelist \<Rightarrow> awindow" where
  "abs_fl fl = (fl_origin fl, window fl)"

lemma window_set_origin [simp]: "window (fl\<lparr>fl_origin := x\<rparr>) = window fl"
proof -
  have "abs_slot (fl\<lparr>fl_origin := x\<rparr>) p = abs_slot fl p" for p
    by (intro abs_slot_cong) simp_all
  then show ?thesis by (simp add: window_def)
qed

lemma window_reset [simp]: "window (jb_framelist_reset fl) = []"
  by (simp add: window_def)

lemma window_Nil [simp]: "(window fl = []) = (fl_size fl = 0)"
  by (simp add: window_def)

lemma fl_reset_inv: "fl_inv fl \<Longrightarrow> fl_inv (jb_framelist_reset fl)"
  by (rule reset_inv) (simp_all add: fl_inv_def)

text \<open>
  After the first two blocks the list is well formed, represents the rebased window, and the
  distance is the offset of the frame from the origin.
\<close>

lemma put_at_rebase:
  assumes inv: "fl_inv fl" and nl: "\<not> (index < fl_origin fl \<and> fl_origin fl - index < JB_MAX_MISORDER)"
  obtains fl1 d1 where "put_at_negative fl index = Inr (fl1, d1)"
    "fl_inv (fst (put_at_empty fl1 index d1))"
    "abs_fl (fst (put_at_empty fl1 index d1)) = spec_rebase (abs_fl fl) index"
    "snd (put_at_empty fl1 index d1) = index - fl_origin (fst (put_at_empty fl1 index d1))"
    "0 \<le> snd (put_at_empty fl1 index d1)"
    "fl_max_count (fst (put_at_empty fl1 index d1)) = fl_max_count fl"
    "fl_frame_size (fst (put_at_empty fl1 index d1)) = fl_frame_size fl"
proof (cases "index < fl_origin fl")
  case True
  show ?thesis
  proof (cases "u32 (fl_origin fl + int (fl_size fl)) \<ge> MAX_FRAME_INDEX")
    case restart: True
    show ?thesis
      by (rule that [of "fl\<lparr>fl_origin := index - int (fl_size fl)\<rparr>" "int (fl_size fl)"])
        (use True restart nl inv in \<open>auto simp: put_at_negative_def Let_def put_at_empty_def
            abs_fl_def spec_rebase_def\<close>)
  next
    case jump: False
    show ?thesis
      by (rule that [of "(jb_framelist_reset fl)\<lparr>fl_origin := index\<rparr>" 0])
        (use True jump nl fl_reset_inv [OF inv] in \<open>auto simp: put_at_negative_def Let_def
            put_at_empty_def abs_fl_def spec_rebase_def\<close>)
  qed
next
  case False
  show ?thesis
    by (rule that [of fl "index - fl_origin fl"])
      (use False nl inv in \<open>auto simp: put_at_negative_def Let_def put_at_empty_def
          abs_fl_def spec_rebase_def\<close>)
qed

lemma store_refines:
  assumes inv: "fl_inv fl" and d: "0 \<le> d" "d < int (fl_max_count fl)" "d = index - fl_origin fl"
    and r: "put_at_store fl index d frame b t JB_NORMAL_FRAME = (fl', st)"
  shows "fl_inv fl'" "fl_max_count fl' = fl_max_count fl" "fl_frame_size fl' = fl_frame_size fl"
    "(if nat d < length (window fl) \<and> window fl ! nat d \<noteq> A_lost then (abs_fl fl, PJ_EEXISTS)
      else ((fl_origin fl, put_window (window fl) (nat d) (A_frame frame b t)), PJ_SUCCESS)) =
     (abs_fl fl', st)"
proof -
  have i: "index = fl_origin fl + d" and dn: "nat d < fl_max_count fl" using d by auto
  note E = put_at_store_eq [OF inv d(1,2) i, of frame b t]
  have iff: "(ring fl ! nat d \<noteq> JB_MISSING_FRAME) =
      (nat d < length (window fl) \<and> window fl ! nat d \<noteq> A_lost)"
    using window_lost [OF inv, of "nat d"] ring_outside [OF inv _ dn]
    by (cases "nat d < fl_size fl") simp_all
  have si: "fl_inv (store fl (nat d) frame b t)"
    "window (store fl (nat d) frame b t) = put_window (window fl) (nat d) (A_frame frame b t)"
    if "ring fl ! nat d = JB_MISSING_FRAME"
    using store_inv [OF inv dn that] store_window [OF inv dn that] by simp_all
  have sf: "fl_origin (store fl (nat d) frame b t) = fl_origin fl"
    "fl_max_count (store fl (nat d) frame b t) = fl_max_count fl"
    "fl_frame_size (store fl (nat d) frame b t) = fl_frame_size fl"
    by (simp_all add: store_def Let_def)
  show "fl_inv fl'" "fl_max_count fl' = fl_max_count fl" "fl_frame_size fl' = fl_frame_size fl"
    using r E si sf inv by (auto split: if_splits)
  show "(if nat d < length (window fl) \<and> window fl ! nat d \<noteq> A_lost then (abs_fl fl, PJ_EEXISTS)
      else ((fl_origin fl, put_window (window fl) (nat d) (A_frame frame b t)), PJ_SUCCESS)) =
     (abs_fl fl', st)"
    using r E si sf iff by (auto simp: abs_fl_def split: if_splits)
qed

lemma framelist_put_refines:
  assumes inv: "fl_inv fl" and len: "length frame \<le> fl_frame_size fl"
    and r: "jb_framelist_put_at fl index frame b t JB_NORMAL_FRAME = (fl', st)"
  shows "fl_inv fl'" "fl_max_count fl' = fl_max_count fl" "fl_frame_size fl' = fl_frame_size fl"
    "spec_put (fl_max_count fl) (abs_fl fl) index (A_frame frame b t) = (abs_fl fl', st)"
proof -
  have "fl_inv fl' \<and> fl_max_count fl' = fl_max_count fl \<and> fl_frame_size fl' = fl_frame_size fl \<and>
    spec_put (fl_max_count fl) (abs_fl fl) index (A_frame frame b t) = (abs_fl fl', st)"
  proof (cases "index < fl_origin fl \<and> fl_origin fl - index < JB_MAX_MISORDER")
    case True
    then have "put_at_negative fl index = Inl PJ_ETOOSMALL"
      by (auto simp: put_at_negative_def Let_def)
    then have "fl' = fl" "st = PJ_ETOOSMALL"
      using r len by (auto simp: jb_framelist_put_at_def)
    then show ?thesis using True inv by (simp add: spec_put_def abs_fl_def)
  next
    case False
    obtain fl1 d1 where n: "put_at_negative fl index = Inr (fl1, d1)"
      and i2: "fl_inv (fst (put_at_empty fl1 index d1))"
      and a2: "abs_fl (fst (put_at_empty fl1 index d1)) = spec_rebase (abs_fl fl) index"
      and d2: "snd (put_at_empty fl1 index d1) = index - fl_origin (fst (put_at_empty fl1 index d1))"
        "0 \<le> snd (put_at_empty fl1 index d1)"
      and m2: "fl_max_count (fst (put_at_empty fl1 index d1)) = fl_max_count fl"
        "fl_frame_size (fst (put_at_empty fl1 index d1)) = fl_frame_size fl"
      by (rule put_at_rebase [OF inv False])
    obtain f2 e2 where p2: "put_at_empty fl1 index d1 = (f2, e2)" by fastforce
    note A = i2 [unfolded p2 fst_conv] a2 [unfolded p2 fst_conv]
      d2 [unfolded p2 fst_conv snd_conv] m2 [unfolded p2 fst_conv]
    have sr: "spec_rebase (abs_fl fl) index = (fl_origin f2, window f2)"
      using A(2) by (simp add: abs_fl_def)
    have le: "index - fl_origin f2 = e2" using A(3) by simp
    have ft: "fst (abs_fl fl) = fl_origin fl" by (simp add: abs_fl_def)
    show ?thesis
    proof (cases "put_at_far f2 index e2")
      case (Inl e)
      then have "fl' = f2" "st = e" "e = PJ_ETOOMANY" "e2 \<ge> int (fl_max_count f2)" "\<not> e2 > JB_MAX_DROPOUT"
        using r len n p2 by (auto simp: jb_framelist_put_at_def put_at_far_def split: if_splits)
      then show ?thesis using A(1,5,6) sr le False ft by (simp add: spec_put_def abs_fl_def)
    next
      case (Inr x)
      obtain f3 e3 where x: "x = (f3, e3)" by fastforce
      have ps: "put_at_store f3 index e3 frame b t JB_NORMAL_FRAME = (fl', st)"
        using r len n p2 Inr x by (auto simp: jb_framelist_put_at_def)
      have f3: "fl_inv f3 \<and> 0 \<le> e3 \<and> e3 < int (fl_max_count f3) \<and> e3 = index - fl_origin f3 \<and>
          fl_max_count f3 = fl_max_count fl \<and> fl_frame_size f3 = fl_frame_size fl \<and>
          (fl_origin f3, window f3) = (if e2 \<ge> int (fl_max_count fl) then (index, []) else (fl_origin f2, window f2)) \<and>
          \<not> (e2 \<ge> int (fl_max_count fl) \<and> e2 \<le> JB_MAX_DROPOUT)"
        using Inr x A fl_reset_inv [OF A(1)] fl_invD(1) [OF A(1)]
        by (auto simp: put_at_far_def split: if_splits)
      then have ow: "(if e2 \<ge> int (fl_max_count fl) then (index, []) else (fl_origin f2, window f2)) =
          (fl_origin f3, window f3)"
        and nd: "(e2 \<ge> int (fl_max_count fl) \<and> e2 \<le> JB_MAX_DROPOUT) = False"
        and ng: "(index < fl_origin fl \<and> fl_origin fl - index < JB_MAX_MISORDER) = False"
        and i3: "fl_inv f3" "0 \<le> e3" "e3 < int (fl_max_count f3)"
        and e3: "index - fl_origin f3 = e3"
        using False by auto
      note S = store_refines [OF i3 e3 [symmetric] ps]
      have "spec_put (fl_max_count fl) (abs_fl fl) index (A_frame frame b t) = (abs_fl fl', st)"
        unfolding spec_put_def sr split_conv Let_def le ft ow nd ng if_False e3
        using S(4) by (simp only: abs_fl_def)
      then show ?thesis using S(1,2,3) f3 by simp
    qed
  qed
  then show "fl_inv fl'" "fl_max_count fl' = fl_max_count fl" "fl_frame_size fl' = fl_frame_size fl"
    "spec_put (fl_max_count fl) (abs_fl fl) index (A_frame frame b t) = (abs_fl fl', st)"
    by simp_all
qed

section \<open>Discard\<close>

definition spec_discard :: "awindow \<Rightarrow> int \<Rightarrow> awindow \<times> pj_status" where
  "spec_discard ow index =
     (if fst ow \<le> index \<and> index < fst ow + int (length (snd ow))
      then ((fst ow, (snd ow)[nat (index - fst ow) := A_discarded]), PJ_SUCCESS)
      else (ow, PJ_EINVAL))"

lemma count_list_update_new:
  "i < length xs \<Longrightarrow> xs ! i \<noteq> y \<Longrightarrow> count_list (xs[i := y]) y = Suc (count_list xs y)"
  by (induction xs arbitrary: i) (auto split: nat.splits)

text \<open>
  Discarding a frame that is not discarded yet keeps the invariant; \<open>already\<close> says that
  the frame is.
\<close>

definition already :: "awindow \<Rightarrow> int \<Rightarrow> bool" where
  "already ow index \<longleftrightarrow> fst ow \<le> index \<and> index < fst ow + int (length (snd ow)) \<and>
     snd ow ! nat (index - fst ow) = A_discarded"

lemma framelist_discard_refines:
  assumes inv: "fl_inv fl" and na: "\<not> already (abs_fl fl) index"
    and r: "jb_framelist_discard fl index = (fl', st)"
  shows "fl_inv fl'" "fl_max_count fl' = fl_max_count fl" "fl_frame_size fl' = fl_frame_size fl"
    "spec_discard (abs_fl fl) index = (abs_fl fl', st)"
proof -
  note I = fl_invD [OF inv]
  let ?in = "fl_origin fl \<le> index \<and> index < fl_origin fl + int (fl_size fl)"
  have *: "fl_inv fl' \<and> fl_max_count fl' = fl_max_count fl \<and> fl_frame_size fl' = fl_frame_size fl \<and>
    spec_discard (abs_fl fl) index = (abs_fl fl', st)"
  proof (cases ?in)
    case False
    then have "jb_framelist_discard fl index = (fl, PJ_EINVAL)"
      by (auto simp: jb_framelist_discard_def)
    then show ?thesis using r inv False by (auto simp: spec_discard_def abs_fl_def)
  next
    case True
    define d where "d = nat (index - fl_origin fl)"
    define pos where "pos = (fl_head fl + d) mod fl_max_count fl"
    have d: "d < fl_size fl" "d < fl_max_count fl" using True I by (auto simp: d_def)
    have pos: "pos < fl_max_count fl" using I by (simp add: pos_def)
    have np: "nat (int (fl_head fl) + (index - fl_origin fl)) mod fl_max_count fl = pos"
      using True by (simp add: pos_def d_def nat_add_distrib)
    have nd: "ring fl ! d \<noteq> JB_DISCARDED_FRAME"
      using na True window_discarded [OF inv d(1)] by (auto simp: already_def abs_fl_def d_def)
    have cl: "count_list (fl_frame_type fl) JB_DISCARDED_FRAME < 2 ^ 31"
      using I(2,4) count_le_length [of "fl_frame_type fl" JB_DISCARDED_FRAME] by linarith
    then have un: "u32 (1 + int (count_list (fl_frame_type fl) JB_DISCARDED_FRAME)) =
        Suc (count_list (fl_frame_type fl) JB_DISCARDED_FRAME)"
      by (simp add: u32_nonneg)
    have fl': "fl' = fl\<lparr>fl_frame_type := (fl_frame_type fl)[pos := JB_DISCARDED_FRAME],
        fl_discarded_num := Suc (count_list (fl_frame_type fl) JB_DISCARDED_FRAME)\<rparr>" "st = PJ_SUCCESS"
      using r True un by (simp_all add: jb_framelist_discard_def Let_def np I(11) add.commute)
    have R: "ring fl' = (ring fl)[d := JB_DISCARDED_FRAME]"
      using update_ring_view [of "fl_head fl" "fl_frame_type fl" d JB_DISCARDED_FRAME] I d
      by (simp add: ring_def fl' pos_def)
    have cn: "count_list ((fl_frame_type fl)[pos := JB_DISCARDED_FRAME]) JB_DISCARDED_FRAME =
        Suc (count_list (fl_frame_type fl) JB_DISCARDED_FRAME)"
      using pos I nd ring_nth [OF inv d(2)] by (intro count_list_update_new) (simp_all add: pos_def)
    have st: "set ((fl_frame_type fl)[pos := JB_DISCARDED_FRAME]) \<subseteq> stored_types"
      using I(12) set_update_subset_insert [of "fl_frame_type fl" pos JB_DISCARDED_FRAME]
      by (auto simp: stored_types_def)
    have inv': "fl_inv fl'"
      using I R cn st d by (simp add: fl_inv_def) (simp add: fl')
    have "window fl' = (window fl)[d := A_discarded]"
    proof (rule nth_equalityI)
      show "length (window fl') = length ((window fl)[d := A_discarded])" by (simp add: fl')
      fix k
      assume "k < length (window fl')"
      then have k: "k < fl_size fl" "k < fl_max_count fl" using I by (simp_all add: fl')
      show "window fl' ! k = (window fl)[d := A_discarded] ! k"
      proof (cases "k = d")
        case True
        then show ?thesis using R d I window_discarded [OF inv', of d] by (simp add: fl')
      next
        case False
        then have "(fl_head fl + k) mod fl_max_count fl \<noteq> pos"
          using mod_add_cancel_less [OF k(2) d(2), of "fl_head fl"] by (auto simp: pos_def)
        then have "abs_slot fl' ((fl_head fl + k) mod fl_max_count fl) =
            abs_slot fl ((fl_head fl + k) mod fl_max_count fl)"
          by (intro abs_slot_cong) (simp_all add: fl')
        moreover have "window fl' ! k = abs_slot fl' ((fl_head fl + k) mod fl_max_count fl)"
          using k window_nth [of k fl'] by (simp add: fl')
        ultimately show ?thesis using k False by (simp add: window_nth)
      qed
    qed
    then show ?thesis using inv' True by (simp add: fl' spec_discard_def abs_fl_def d_def)
  qed
  show "fl_inv fl'" "fl_max_count fl' = fl_max_count fl" "fl_frame_size fl' = fl_frame_size fl"
    "spec_discard (abs_fl fl) index = (abs_fl fl', st)"
    using * by simp_all
qed

section \<open>Peek\<close>

text \<open>The position in a window of its \<open>i\<close>-th frame that is not discarded.\<close>

fun kept_pos :: "aframe list \<Rightarrow> nat \<Rightarrow> nat" where
  "kept_pos [] i = 0"
| "kept_pos (x # w) i =
     (if x = A_discarded then Suc (kept_pos w i) else if i = 0 then 0 else Suc (kept_pos w (i - 1)))"

abbreviation kept :: "aframe list \<Rightarrow> aframe list" where
  "kept w \<equiv> filter (\<lambda>x. x \<noteq> A_discarded) w"

lemma kept_pos_nth:
  "i < length (kept w) \<Longrightarrow> kept_pos w i < length w \<and> w ! kept_pos w i = kept w ! i"
  by (induction w i rule: kept_pos.induct) (auto simp: nth_Cons')

lemma length_kept:
  assumes "fl_inv fl"
  shows "length (kept (window fl)) = jb_framelist_eff_size fl"
proof -
  have m: "map (\<lambda>x. x = A_discarded) (window fl) =
      map (\<lambda>x. x = JB_DISCARDED_FRAME) (take (fl_size fl) (ring fl))"
    using window_discarded [OF assms] fl_invD [OF assms] by (intro nth_equalityI) auto
  have c: "length (filter (\<lambda>x. x \<noteq> y) xs) + length (filter id (map (\<lambda>x. x = y) xs)) = length xs"
    "count_list xs y = length (filter id (map (\<lambda>x. x = y) xs))" for xs :: "'b list" and y
    by (induction xs) auto
  show ?thesis
    using c(1) [of A_discarded "window fl"] c(2) [of "take (fl_size fl) (ring fl)" JB_DISCARDED_FRAME]
      ring_count [OF assms] m eff_size [OF assms] by simp
qed

lemma peek_pos_kept:
  assumes inv: "fl_inv fl"
  shows "w = drop k (window fl) \<Longrightarrow> i < length (kept w) \<Longrightarrow>
    peek_pos (fl_frame_type fl) (fl_max_count fl) ((fl_head fl + k) mod fl_max_count fl) i =
      Some ((fl_head fl + (k + kept_pos w i)) mod fl_max_count fl)"
proof (induction w arbitrary: k i)
  case Nil
  then show ?case by simp
next
  case (Cons x w)
  have ks: "k < fl_size fl" using Cons.prems(1) by (metis drop_all length_window list.discI not_le)
  then have kn: "k < fl_max_count fl" using fl_invD [OF inv] by simp
  have x: "x = window fl ! k" "w = drop (Suc k) (window fl)"
    using Cons.prems(1) ks by (metis Cons_nth_drop_Suc length_window list.inject)+
  have nx: "((fl_head fl + k) mod fl_max_count fl + 1) mod fl_max_count fl =
      (fl_head fl + Suc k) mod fl_max_count fl"
    by (metis One_nat_def add.right_neutral add_Suc_right mod_add_left_eq)
  have t: "(fl_frame_type fl ! ((fl_head fl + k) mod fl_max_count fl) = JB_DISCARDED_FRAME) =
      (x = A_discarded)"
    using ring_nth [OF inv kn] window_discarded [OF inv ks] x by simp
  show ?case
    using Cons.IH [OF x(2)] Cons.prems(2) t nx
    by (subst peek_pos.simps) auto
qed

definition frame_at :: "jb_framelist \<Rightarrow> nat \<Rightarrow> nat \<Rightarrow> jb_frame" where
  "frame_at fl pos offset =
     \<lparr>fr_data = fl_content fl ! pos, fr_size = fl_content_len fl ! pos,
      fr_type = fl_frame_type fl ! pos, fr_bit_info = fl_bit_info fl ! pos,
      fr_ts = fl_ts fl ! pos, fr_seq = fl_origin fl + int offset\<rparr>"

lemma framelist_peek_eq:
  assumes inv: "fl_inv fl"
  shows "jb_framelist_peek fl offset =
    (if offset < length (kept (window fl))
     then Some (Some (frame_at fl ((fl_head fl + kept_pos (window fl) offset) mod fl_max_count fl) offset))
     else Some None)"
  using peek_pos_kept [OF inv, of "window fl" 0 offset] fl_invD(8) [OF inv] length_kept [OF inv]
  by (simp add: jb_framelist_peek_def frame_at_def)

section \<open>The contract of a frame window\<close>

text \<open>The abstract counterparts of the removal and of the get.\<close>

definition spec_remove :: "awindow \<Rightarrow> nat \<Rightarrow> awindow \<times> nat" where
  "spec_remove ow n =
     (let c = min n (length (snd ow)) in ((fst ow + int c, drop c (snd ow)), c))"

definition spec_get :: "awindow \<Rightarrow> awindow \<times> (int \<times> aframe) option" where
  "spec_get ow =
     (let L = lead (snd ow) in
      if L = length (snd ow) then ((fst ow + int L, []), None)
      else ((fst ow + int L + 1, drop (Suc L) (snd ow)),
            Some (fst ow + int L, if L = 0 then snd ow ! 0 else A_lost)))"

text \<open>What the caller is handed for an abstract frame.\<close>

definition delivers :: "nat option \<Rightarrow> jb_frame option \<Rightarrow> (int \<times> aframe) option \<Rightarrow> bool" where
  "delivers max_size r x \<longleftrightarrow>
     (case (r, x) of
        (None, None) \<Rightarrow> True
      | (Some f, Some (seq, a)) \<Rightarrow> fr_seq f = seq \<and>
          (case a of
             A_frame d b t \<Rightarrow> fr_type f = JB_NORMAL_FRAME \<and> fr_bit_info f = b \<and> fr_ts f = t \<and>
               fr_data f = (case max_size of None \<Rightarrow> d | Some s \<Rightarrow> take s d)
           | _ \<Rightarrow> fr_type f \<noteq> JB_NORMAL_FRAME)
      | _ \<Rightarrow> False)"

text \<open>
  The frames in a window are frames that were put, at the index they were put with; the
  window does not reach the bound \<open>B\<close>.
\<close>

definition from_history :: "(int \<times> aframe) set \<Rightarrow> int \<Rightarrow> awindow \<Rightarrow> bool" where
  "from_history H B ow \<longleftrightarrow> fst ow + int (length (snd ow)) \<le> B \<and>
     (\<forall>k<length (snd ow). \<forall>d b t. snd ow ! k = A_frame d b t \<longrightarrow> (fst ow + int k, A_frame d b t) \<in> H)"

lemma from_history_mono: "from_history H B ow \<Longrightarrow> H \<subseteq> H' \<Longrightarrow> from_history H' B ow"
  unfolding from_history_def by blast

lemma from_history_remove:
  "from_history H B ow \<Longrightarrow> from_history H B (fst (spec_remove ow n))"
  by (auto simp: from_history_def spec_remove_def Let_def min_def of_nat_diff add.assoc
      simp flip: of_nat_add)

lemma from_history_discard:
  "from_history H B ow \<Longrightarrow> from_history H B (fst (spec_discard ow i))"
  by (auto simp: from_history_def spec_discard_def nth_list_update split: if_splits)

lemma from_history_get:
  assumes h: "from_history H B ow"
  shows "from_history H B (fst (spec_get ow))"
    "snd (spec_get ow) = Some (s, A_frame d b t) \<Longrightarrow> (s, A_frame d b t) \<in> H"
proof -
  have d: "from_history H B (fst ow + int c, drop c (snd ow))" if "c \<le> length (snd ow)" for c
    using from_history_remove [OF h, of c] that by (simp add: spec_remove_def)
  show "from_history H B (fst (spec_get ow))"
    using d [of "lead (snd ow)"] d [of "Suc (lead (snd ow))"] lead_le [of "snd ow"]
    by (auto simp: spec_get_def Let_def algebra_simps)
  show "snd (spec_get ow) = Some (s, A_frame d b t) \<Longrightarrow> (s, A_frame d b t) \<in> H"
    using h by (auto simp: spec_get_def Let_def from_history_def split: if_splits)
qed

lemma from_history_put:
  assumes h: "from_history H B ow" and i: "0 \<le> i" "i < B" and B: "B < int MAX_FRAME_INDEX"
  shows "from_history (insert (i, x) H) B (fst (spec_put n ow i x))"
proof -
  obtain o' w where ow: "ow = (o', w)" by fastforce
  have nr: "\<not> u32 (o' + int (length w)) \<ge> MAX_FRAME_INDEX" if "i < o'"
    using h i B that by (auto simp: from_history_def ow u32_nonneg MAX_FRAME_INDEX_def)
  have rb: "from_history H B (spec_rebase ow i) \<and>
      (\<not> (i < o' \<and> o' - i < JB_MAX_MISORDER) \<longrightarrow> fst (spec_rebase ow i) \<le> i)"
    using h i nr by (auto simp: spec_rebase_def ow from_history_def Let_def)
  obtain o2 w2 where r2: "spec_rebase ow i = (o2, w2)" by fastforce
  have put: "from_history (insert (i, x) H) B (o3, put_window w3 (nat (i - o3)) x)"
    if "from_history H B (o3, w3)" "o3 \<le> i" for o3 w3
    using that i by (auto simp: from_history_def length_put_window nth_put_window split: if_splits)
  have e: "from_history H B (i, [])" using i by (simp add: from_history_def)
  have im: "H \<subseteq> insert (i, x) H" by blast
  note hm = from_history_mono [OF _ im]
  show ?thesis
    using rb r2 hm [OF h] hm [OF e] hm [of B "(o2, w2)"] put [OF e] put [of o2 w2]
    by (auto simp: spec_put_def ow Let_def)
qed

text \<open>The origin never moves backwards, unless a frame arrives far behind it.\<close>

lemma origin_put:
  assumes h: "fst ow - i < JB_MAX_MISORDER"
  shows "fst ow \<le> fst (fst (spec_put n ow i x))"
  using h by (cases ow) (auto simp: spec_put_def spec_rebase_def Let_def split: prod.splits if_splits)

lemma origin_others:
  "fst ow \<le> fst (fst (spec_remove ow c))" "fst ow \<le> fst (fst (spec_discard ow i))"
  "fst ow \<le> fst (fst (spec_get ow))"
  "snd (spec_get ow) = Some (s, x) \<Longrightarrow> fst ow \<le> s \<and> s < fst (fst (spec_get ow))"
  by (auto simp: spec_remove_def spec_discard_def spec_get_def Let_def split: if_splits)

lemma framelist_get_refines:
  assumes inv: "fl_inv fl"
  shows "\<exists>fl' r. jb_framelist_get fl m = Some (fl', r) \<and> fl_inv fl' \<and>
    fl_max_count fl' = fl_max_count fl \<and> fl_frame_size fl' = fl_frame_size fl \<and>
    abs_fl fl' = fst (spec_get (abs_fl fl)) \<and> delivers m r (snd (spec_get (abs_fl fl)))"
proof -
  define L where "L = lead (window fl)"
  have Ls: "L \<le> fl_size fl" using lead_le [of "window fl"] L_def by simp
  obtain fl' r where g: "jb_framelist_get fl m = Some (fl', r)" "fl_inv fl'"
    "fl_max_count fl' = fl_max_count fl" "fl_frame_size fl' = fl_frame_size fl"
    "window fl' = drop (Suc L) (window fl)"
    and none: "L = fl_size fl \<Longrightarrow> r = None \<and> fl_origin fl' = fl_origin fl + int L"
    and some: "L < fl_size fl \<Longrightarrow> fl_origin fl' = fl_origin fl + int L + 1 \<and>
       (\<exists>f. r = Some f \<and> fr_seq f = fl_origin fl + int L \<and>
        (0 < L \<longrightarrow> fr_type f = JB_MISSING_FRAME) \<and>
        (\<forall>d b t. L = 0 \<and> window fl ! 0 = A_frame d b t \<longrightarrow>
           fr_type f = JB_NORMAL_FRAME \<and> fr_bit_info f = b \<and> fr_ts f = t \<and>
           fr_data f = (case m of None \<Rightarrow> d | Some s \<Rightarrow> take s d)) \<and>
        (L = 0 \<and> window fl ! 0 = A_lost \<longrightarrow> fr_type f \<noteq> JB_NORMAL_FRAME))"
    by (rule framelist_get_spec [OF inv L_def, of m]) (rule that; blast)
  have sg: "spec_get (abs_fl fl) = (if L = fl_size fl then ((fl_origin fl + int L, []), None)
      else ((fl_origin fl + int L + 1, drop (Suc L) (window fl)),
            Some (fl_origin fl + int L, if L = 0 then window fl ! 0 else A_lost)))"
    by (simp add: spec_get_def abs_fl_def Let_def L_def)
  have nd: "window fl ! 0 \<noteq> A_discarded" if "L = 0" "L < fl_size fl"
    using drop_lead [of "window fl"] that by (simp add: L_def)
  have "abs_fl fl' = fst (spec_get (abs_fl fl)) \<and> delivers m r (snd (spec_get (abs_fl fl)))"
  proof (cases "L = fl_size fl")
    case True
    then show ?thesis using none g(5) unfolding sg by (simp add: abs_fl_def delivers_def)
  next
    case False
    then have lt: "L < fl_size fl" using Ls by simp
    then show ?thesis
      using some [OF lt] g(5) False nd unfolding sg
      by (cases "window fl ! 0") (auto simp: abs_fl_def delivers_def)
  qed
  then show ?thesis using g by blast
qed

text \<open>
  The interface a jitter buffer needs of its frame store: the operations keep the store's
  invariant, its capacity and its frame size limit, and act on the abstract window as
  specified.
\<close>

locale frame_window =
  fixes inv :: "'s \<Rightarrow> bool" and abs :: "'s \<Rightarrow> awindow" and cap :: "'s \<Rightarrow> nat" and lim :: "'s \<Rightarrow> nat"
    and put :: "'s \<Rightarrow> int \<Rightarrow> u8 list \<Rightarrow> nat \<Rightarrow> nat \<Rightarrow> 's \<times> pj_status"
    and get :: "'s \<Rightarrow> nat option \<Rightarrow> ('s \<times> jb_frame option) option"
    and remove :: "'s \<Rightarrow> nat \<Rightarrow> 's \<times> nat"
    and discard :: "'s \<Rightarrow> int \<Rightarrow> 's \<times> pj_status"
  assumes put_law: "inv s \<Longrightarrow> length frame \<le> lim s \<Longrightarrow> put s i frame b t = (s', st) \<Longrightarrow>
      inv s' \<and> cap s' = cap s \<and> lim s' = lim s \<and>
      spec_put (cap s) (abs s) i (A_frame frame b t) = (abs s', st)"
    and get_law: "inv s \<Longrightarrow> \<exists>s' r. get s m = Some (s', r) \<and>
      inv s' \<and> cap s' = cap s \<and> lim s' = lim s \<and>
      abs s' = fst (spec_get (abs s)) \<and> delivers m r (snd (spec_get (abs s)))"
    and remove_law: "inv s \<Longrightarrow> remove s n = (s', c) \<Longrightarrow>
      inv s' \<and> cap s' = cap s \<and> lim s' = lim s \<and> spec_remove (abs s) n = (abs s', c)"
    and discard_law: "inv s \<Longrightarrow> \<not> already (abs s) i \<Longrightarrow> discard s i = (s', st) \<Longrightarrow>
      inv s' \<and> cap s' = cap s \<and> lim s' = lim s \<and> spec_discard (abs s) i = (abs s', st)"
    and cap_pos: "inv s \<Longrightarrow> 0 < cap s"
begin

text \<open>
  One change of the store made by a caller that puts only frames of \<open>X\<close>.
\<close>

inductive moves :: "(int \<times> u8 list \<times> nat \<times> nat) set \<Rightarrow> 's \<Rightarrow> 's \<Rightarrow> bool" for X where
  m_refl: "moves X s s"
| m_put: "moves X s s1 \<Longrightarrow> (i, frame, b, t) \<in> X \<Longrightarrow> length frame \<le> lim s1 \<Longrightarrow>
    put s1 i frame b t = (s2, st) \<Longrightarrow> moves X s s2"
| m_get: "moves X s s1 \<Longrightarrow> get s1 m = Some (s2, r) \<Longrightarrow> moves X s s2"
| m_remove: "moves X s s1 \<Longrightarrow> remove s1 n = (s2, c) \<Longrightarrow> moves X s s2"
| m_discard: "moves X s s1 \<Longrightarrow> \<not> already (abs s1) i \<Longrightarrow> discard s1 i = (s2, st) \<Longrightarrow> moves X s s2"

lemma get_abs:
  assumes "inv s" "get s m = Some (s', r)"
  shows "inv s'" "cap s' = cap s" "lim s' = lim s" "abs s' = fst (spec_get (abs s))"
    "delivers m r (snd (spec_get (abs s)))"
  using get_law [OF assms(1), of m] assms(2) by auto

lemma moves_inv:
  "moves X s s' \<Longrightarrow> inv s \<Longrightarrow> inv s' \<and> cap s' = cap s \<and> lim s' = lim s"
proof (induction rule: moves.induct)
  case (m_put s s1 i frame b t s2 st)
  then show ?case using put_law by metis
next
  case (m_get s s1 m s2 r)
  then show ?case using get_abs by metis
next
  case (m_remove s s1 n s2 c)
  then show ?case using remove_law by metis
next
  case (m_discard s s1 i s2 st)
  then show ?case using discard_law by metis
qed simp

definition abs_puts :: "(int \<times> u8 list \<times> nat \<times> nat) set \<Rightarrow> (int \<times> aframe) set" where
  "abs_puts X = (\<lambda>(i, frame, b, t). (i, A_frame frame b t)) ` X"

lemma moves_history:
  "moves X s s' \<Longrightarrow> inv s \<Longrightarrow> from_history H B (abs s) \<Longrightarrow> B < int MAX_FRAME_INDEX \<Longrightarrow>
   (\<And>i f b t. (i, f, b, t) \<in> X \<Longrightarrow> 0 \<le> i \<and> i < B) \<Longrightarrow> from_history (H \<union> abs_puts X) B (abs s')"
proof (induction rule: moves.induct)
  case (m_refl s)
  then show ?case by (blast intro: from_history_mono)
next
  case (m_put s s1 i frame b t s2 st)
  have i1: "inv s1" using moves_inv m_put by blast
  have "from_history (insert (i, A_frame frame b t) (H \<union> abs_puts X)) B (abs s2)"
    using from_history_put [of "H \<union> abs_puts X" B "abs s1" i "A_frame frame b t" "cap s1"]
      m_put put_law [OF i1 m_put(3,4)] by (metis fst_conv)
  moreover have "(i, A_frame frame b t) \<in> abs_puts X" using m_put(2) by (force simp: abs_puts_def)
  ultimately show ?case by (simp add: insert_absorb)
next
  case (m_get s s1 m s2 r)
  then show ?case using from_history_get(1) get_abs(4) moves_inv by metis
next
  case (m_remove s s1 n s2 c)
  then show ?case using from_history_remove remove_law moves_inv by (metis fst_conv)
next
  case (m_discard s s1 i s2 st)
  then show ?case using from_history_discard discard_law moves_inv by (metis fst_conv)
qed

lemma moves_origin:
  "moves X s s' \<Longrightarrow> inv s \<Longrightarrow> from_history H B (abs s) \<Longrightarrow> B < int MAX_FRAME_INDEX \<Longrightarrow>
   (\<And>i f b t. (i, f, b, t) \<in> X \<Longrightarrow> 0 \<le> i \<and> i < B \<and> B - i < JB_MAX_MISORDER) \<Longrightarrow>
   fst (abs s) \<le> fst (abs s')"
proof (induction rule: moves.induct)
  case (m_put s s1 i frame b t s2 st)
  have i1: "inv s1" using moves_inv m_put by blast
  have "from_history (H \<union> abs_puts X) B (abs s1)"
    using moves_history [OF m_put(1) m_put(6) m_put(7) m_put(8)] m_put(9) by blast
  then have "fst (abs s1) - i < JB_MAX_MISORDER"
    using m_put(9) [OF m_put(2)] by (auto simp: from_history_def)
  then have "fst (abs s1) \<le> fst (abs s2)"
    using origin_put [of "abs s1" i "cap s1" "A_frame frame b t"] put_law [OF i1 m_put(3,4)] by simp
  moreover have "fst (abs s) \<le> fst (abs s1)" using m_put.IH [OF m_put(6-8)] m_put(9) by blast
  ultimately show ?case by simp
next
  case (m_get s s1 m s2 r)
  have "inv s1" using moves_inv m_get by blast
  from get_abs(4) [OF this m_get(2)] have "fst (abs s1) \<le> fst (abs s2)"
    using origin_others(3) by simp
  moreover have "fst (abs s) \<le> fst (abs s1)" using m_get.IH [OF m_get(4-6)] m_get(7) by blast
  ultimately show ?case by simp
next
  case (m_remove s s1 n s2 c)
  have "inv s1" using moves_inv m_remove by blast
  from remove_law [OF this m_remove(2)] have "fst (abs s1) \<le> fst (abs s2)"
    using origin_others(1) [of "abs s1" n] by simp
  moreover have "fst (abs s) \<le> fst (abs s1)" using m_remove.IH [OF m_remove(4-6)] m_remove(7) by blast
  ultimately show ?case by simp
next
  case (m_discard s s1 i s2 st)
  have "inv s1" using moves_inv m_discard by blast
  from discard_law [OF this m_discard(2,3)] have "fst (abs s1) \<le> fst (abs s2)"
    using origin_others(2) [of "abs s1" i] by simp
  moreover have "fst (abs s) \<le> fst (abs s1)" using m_discard.IH [OF m_discard(5-7)] m_discard(8) by blast
  ultimately show ?case by simp
qed simp

text \<open>
  Making room for a frame that does not fit: removing the excess and putting again succeeds
  or finds the frame already there.
\<close>

lemma put_after_remove:
  assumes i: "inv s" and l: "length frame \<le> lim s"
    and p: "put s0 i frame b t = (s, PJ_ETOOMANY)" "inv s0" "length frame \<le> lim s0"
    and r: "remove s (nat (i - fst (abs s) - int (cap s) + 1)) = (s1, c)"
  shows "snd (put s1 i frame b t) \<in> {PJ_SUCCESS, PJ_EEXISTS}"
proof -
  have c0: "cap s = cap s0" and sp: "spec_put (cap s0) (abs s0) i (A_frame frame b t) = (abs s, PJ_ETOOMANY)"
    using put_law [OF p(2,3,1)] by simp_all
  have far: "int (cap s) \<le> i - fst (abs s)"
    using sp c0 by (cases "abs s") (auto simp: spec_put_def Let_def split: if_splits prod.splits)
  have q: "inv s1" "lim s1 = lim s" "cap s1 = cap s"
    and a1: "spec_remove (abs s) (nat (i - fst (abs s) - int (cap s) + 1)) = (abs s1, c)"
    using remove_law [OF i r] by simp_all
  obtain s2 st where s2: "put s1 i frame b t = (s2, st)" by fastforce
  have "length frame \<le> lim s1" using l q by simp
  then have sp1: "spec_put (cap s) (abs s1) i (A_frame frame b t) = (abs s2, st)"
    using put_law [OF q(1) _ s2] q(3) by simp
  obtain o1 w1 where w1: "abs s1 = (o1, w1)" by fastforce
  have o1: "o1 \<le> i" "w1 = [] \<or> i - o1 = int (cap s) - 1"
    using a1 far cap_pos [OF i] w1
    by (auto simp: spec_remove_def Let_def min_def split: if_splits)
  obtain o2 w2 where rb: "spec_rebase (abs s1) i = (o2, w2)" and d2: "i - o2 < int (cap s)"
    using o1 cap_pos [OF i] by (cases "w1 = []") (auto simp: spec_rebase_def w1)
  have "st \<in> {PJ_SUCCESS, PJ_EEXISTS}"
    using sp1 o1(1) d2 unfolding spec_put_def rb by (auto simp: w1 Let_def split: if_splits)
  then show ?thesis using s2 by simp
qed

end

interpretation fw: frame_window fl_inv abs_fl fl_max_count fl_frame_size
  "\<lambda>fl i frame b t. jb_framelist_put_at fl i frame b t JB_NORMAL_FRAME"
  jb_framelist_get jb_framelist_remove_head jb_framelist_discard
proof
  fix s s' :: jb_framelist and frame :: "u8 list" and i b t st
  assume "fl_inv s" "length frame \<le> fl_frame_size s"
    "jb_framelist_put_at s i frame b t JB_NORMAL_FRAME = (s', st)"
  then show "fl_inv s' \<and> fl_max_count s' = fl_max_count s \<and> fl_frame_size s' = fl_frame_size s \<and>
      spec_put (fl_max_count s) (abs_fl s) i (A_frame frame b t) = (abs_fl s', st)"
    using framelist_put_refines [of s frame i b t s' st] by simp
next
  fix s s' :: jb_framelist and i st
  assume "fl_inv s" "\<not> already (abs_fl s) i" "jb_framelist_discard s i = (s', st)"
  then show "fl_inv s' \<and> fl_max_count s' = fl_max_count s \<and> fl_frame_size s' = fl_frame_size s \<and>
      spec_discard (abs_fl s) i = (abs_fl s', st)"
    using framelist_discard_refines [of s i s' st] by simp
next
  fix s s' :: jb_framelist and n c
  assume "fl_inv s" "jb_framelist_remove_head s n = (s', c)"
  then show "fl_inv s' \<and> fl_max_count s' = fl_max_count s \<and> fl_frame_size s' = fl_frame_size s \<and>
      spec_remove (abs_fl s) n = (abs_fl s', c)"
    using remove_head_inv [of s n] remove_head_window [OF _ refl, of s n]
      remove_head_fields [OF _ refl refl, of s n]
    by (simp add: spec_remove_def abs_fl_def Let_def)
next
  fix s :: jb_framelist and m
  assume inv: "fl_inv s"
  show "\<exists>s' r. jb_framelist_get s m = Some (s', r) \<and> fl_inv s' \<and> fl_max_count s' = fl_max_count s \<and>
      fl_frame_size s' = fl_frame_size s \<and> abs_fl s' = fst (spec_get (abs_fl s)) \<and>
      delivers m r (snd (spec_get (abs_fl s)))"
    by (rule framelist_get_refines [OF inv])
next
  fix s :: jb_framelist
  assume "fl_inv s"
  then show "0 < fl_max_count s" by (simp add: fl_inv_def)
qed

end
