(* ===== verification/Jbuf_Safety.thy ===== *)
theory Jbuf_Safety
  imports Jbuf_Spec
begin

text \<open>
  The jitter buffer as a whole: an invariant that every public call keeps, from which
  follows that no call runs forever and that frames come out as they were put in, in the
  order of their sequence numbers.
\<close>

section \<open>Discarded frames lie behind the discard reference\<close>

definition disc_le :: "int \<Rightarrow> awindow \<Rightarrow> bool" where
  "disc_le r ow \<longleftrightarrow> (\<forall>k<length (snd ow). snd ow ! k = A_discarded \<longrightarrow> fst ow + int k \<le> r)"

lemma disc_le_put:
  assumes h: "disc_le r ow" and x: "x \<noteq> A_discarded"
  shows "disc_le r (fst (spec_put n ow i x))"
proof -
  obtain o' w where ow: "ow = (o', w)" by fastforce
  obtain o2 w2 where r2: "spec_rebase ow i = (o2, w2)" by fastforce
  have rb: "disc_le r (o2, w2)"
    using h r2 by (fastforce simp: spec_rebase_def ow disc_le_def Let_def split: if_splits)
  have put: "disc_le r (o3, put_window w3 d x)" if "disc_le r (o3, w3)" for o3 w3 d
    using that x by (auto simp: disc_le_def length_put_window nth_put_window split: if_splits)
  have e: "disc_le r (i, [])" by (simp add: disc_le_def)
  show ?thesis using h rb e put [OF rb] put [OF e] by (auto simp: spec_put_def r2 Let_def)
qed

lemma disc_le_remove: "disc_le r ow \<Longrightarrow> disc_le r (fst (spec_remove ow n))"
  by (auto simp: disc_le_def spec_remove_def Let_def min_def add.assoc simp flip: of_nat_add)

lemma disc_le_get: "disc_le r ow \<Longrightarrow> disc_le r (fst (spec_get ow))"
  using disc_le_remove [of r ow "Suc (lead (snd ow))"] lead_le [of "snd ow"]
  by (auto simp: spec_get_def spec_remove_def Let_def disc_le_def add_ac)

lemma disc_le_discard:
  "disc_le r ow \<Longrightarrow> r \<le> i \<Longrightarrow> disc_le i (fst (spec_discard ow i))"
  by (fastforce simp: disc_le_def spec_discard_def nth_list_update split: if_splits)

lemma disc_le_reset: "fl_size fl = 0 \<Longrightarrow> disc_le r (abs_fl fl)"
  by (simp add: disc_le_def abs_fl_def)

lemma disc_le_not_already:
  assumes h: "disc_le r ow" and r: "r < i"
  shows "\<not> already ow i"
proof
  assume a: "already ow i"
  then have "nat (i - fst ow) < length (snd ow)" "snd ow ! nat (i - fst ow) = A_discarded" "fst ow \<le> i"
    by (auto simp: already_def)
  then have "fst ow + int (nat (i - fst ow)) \<le> r" using h unfolding disc_le_def by blast
  then show False using \<open>fst ow \<le> i\<close> r by simp
qed

lemma disc_le_last: "i = fst ow + int (length (snd ow)) - 1 \<Longrightarrow> disc_le i ow"
  by (auto simp: disc_le_def)

section \<open>The invariant of the jitter buffer\<close>

abbreviation prefetch_inv :: "pjmedia_jbuf \<Rightarrow> bool" where
  "prefetch_inv jb \<equiv> 0 \<le> jb_min_prefetch jb \<and> jb_min_prefetch jb \<le> jb_max_prefetch jb \<and>
     jb_max_prefetch jb \<le> int (jb_max_count jb) \<and> 0 \<le> jb_prefetch jb \<and>
     jb_prefetch jb \<le> jb_max_prefetch jb"

definition jb_inv :: "pjmedia_jbuf \<Rightarrow> bool" where
  "jb_inv jb \<longleftrightarrow>
     fl_inv (jb_framelist jb) \<and> fl_max_count (jb_framelist jb) = jb_max_count jb \<and>
     fl_frame_size (jb_framelist jb) = jb_frame_size jb \<and>
     0 < jb_frame_ptime jb \<and> 0 < jb_frame_ptime_denum jb \<and>
     1 \<le> jb_min_shrink_gap jb \<and> jb_min_shrink_gap jb < 2 ^ 31 \<and> prefetch_inv jb \<and>
     (jb_discard_dist jb \<noteq> 0 \<longrightarrow>
        jb_discard_algo jb \<noteq> JB_DISCARD_STATIC \<and> disc_le (jb_discard_ref jb) (abs_fl (jb_framelist jb)))"

text \<open>The burst-level estimator changes only the level fields, the history and the prefetch.\<close>

lemma calculate_jitter_fields [simp]:
  "jb_framelist (jbuf_calculate_jitter jb) = jb_framelist jb"
  "jb_max_count (jbuf_calculate_jitter jb) = jb_max_count jb"
  "jb_frame_size (jbuf_calculate_jitter jb) = jb_frame_size jb"
  "jb_frame_ptime (jbuf_calculate_jitter jb) = jb_frame_ptime jb"
  "jb_frame_ptime_denum (jbuf_calculate_jitter jb) = jb_frame_ptime_denum jb"
  "jb_min_shrink_gap (jbuf_calculate_jitter jb) = jb_min_shrink_gap jb"
  "jb_discard_dist (jbuf_calculate_jitter jb) = jb_discard_dist jb"
  "jb_discard_algo (jbuf_calculate_jitter jb) = jb_discard_algo jb"
  "jb_discard_ref (jbuf_calculate_jitter jb) = jb_discard_ref jb"
  "jb_min_prefetch (jbuf_calculate_jitter jb) = jb_min_prefetch jb"
  "jb_max_prefetch (jbuf_calculate_jitter jb) = jb_max_prefetch jb"
  by (simp_all add: jbuf_calculate_jitter_def Let_def)

lemma calculate_jitter_prefetch:
  "prefetch_inv jb \<Longrightarrow> 0 \<le> jb_prefetch (jbuf_calculate_jitter jb) \<and>
     jb_prefetch (jbuf_calculate_jitter jb) \<le> jb_max_prefetch jb"
  by (auto simp: jbuf_calculate_jitter_def Let_def clamp_prefetch_dec_def clamp_prefetch_inc_def)

lemma calculate_jitter_inv: "jb_inv jb \<Longrightarrow> jb_inv (jbuf_calculate_jitter jb)"
  using calculate_jitter_prefetch [of jb] by (simp add: jb_inv_def)

section \<open>The discard algorithms\<close>

definition keeps :: "(int \<times> u8 list \<times> nat \<times> nat) set \<Rightarrow> pjmedia_jbuf \<Rightarrow> pjmedia_jbuf \<Rightarrow> bool" where
  "keeps X jb jb' \<longleftrightarrow> jb_inv jb' \<and> fw.moves X (jb_framelist jb) (jb_framelist jb')"

lemma discard_static_keeps:
  assumes inv: "jb_inv jb" and d0: "jb_discard_dist jb = 0"
  shows "keeps {} jb (jbuf_discard_static jb)"
proof -
  obtain fl c where r: "jb_framelist_remove_head (jb_framelist jb) 1 = (fl, c)" by fastforce
  have fi: "fl_inv (jb_framelist jb)" using inv by (simp add: jb_inv_def)
  note L = fw.remove_law [OF fi r]
  have m: "fw.moves {} (jb_framelist jb) fl" by (rule fw.m_remove [OF fw.m_refl r])
  show ?thesis
    using inv d0 L m fw.m_refl [of "{}" "jb_framelist jb"]
    by (simp add: keeps_def jbuf_discard_static_def jb_inv_def Let_def r r [unfolded One_nat_def])
qed

lemma s32_range: "- (2 ^ 31) \<le> s32 i \<and> s32 i < 2 ^ 31"
proof -
  have "0 \<le> (i + 2 ^ 31) mod 2 ^ 32" "(i + 2 ^ 31) mod 2 ^ 32 < 2 ^ 32" by simp_all
  then show ?thesis unfolding s32_def by simp
qed

text \<open>
  The distance to the next frame to discard is at least the minimum gap, so the algorithm
  always discards beyond its reference, where nothing is discarded yet.
\<close>

lemma discard_progressive_keeps:
  assumes inv: "jb_inv jb" and na: "jb_discard_algo jb \<noteq> JB_DISCARD_STATIC"
  shows "keeps {} jb (jbuf_discard_progressive jb)"
proof -
  let ?fl = "jb_framelist jb"
  have fi: "fl_inv ?fl" and gap: "1 \<le> jb_min_shrink_gap jb" "jb_min_shrink_gap jb < 2 ^ 31"
    using inv by (simp_all add: jb_inv_def)
  define cur where "cur = jb_framelist_eff_size ?fl"
  define bl where "bl = u32 (max (jb_eff_level jb) (jb_level jb))"
  define last where "last = fl_origin ?fl + int (fl_size ?fl) - 1"
  define dd where "dd = u32 (int (progressive_T bl) * int (jb_frame_ptime_denum jb)) div
     (cur - max bl (jb_min_delay jb)) div jb_frame_ptime jb"
  define dist where "dist = nat (max (jb_min_shrink_gap jb) (s32 (int dd)))"
  define ref where "ref = (if jb_discard_dist jb = 0 then last
     else if last < jb_discard_ref jb then last else jb_discard_ref jb)"
  define sq where "sq = (if ref + int dist < fl_origin ?fl then fl_origin ?fl else ref + int dist)"
  have mx: "1 \<le> max (jb_min_shrink_gap jb) (s32 (int dd))"
    "max (jb_min_shrink_gap jb) (s32 (int dd)) < 2 ^ 31"
    using gap s32_range [of "int dd"] by auto
  have dist: "u32 (max (jb_min_shrink_gap jb) (s32 (int dd))) = dist" "1 \<le> dist"
    "s32 (int dist) = int dist"
    using mx by (simp_all add: dist_def u32_nonneg s32_id)
  have eq: "jbuf_discard_progressive jb =
    (if jb_last_op jb \<noteq> JB_OP_PUT then jb
     else if cur \<le> bl \<or> cur \<le> jb_min_delay jb then jb\<lparr>jb_discard_dist := 0\<rparr>
     else if last \<ge> ref + int dist
       then jb\<lparr>jb_discard_ref := sq, jb_discard_dist := dist,
               jb_framelist := fst (jb_framelist_discard ?fl sq)\<rparr>
       else jb\<lparr>jb_discard_ref := ref, jb_discard_dist := dist\<rparr>)"
  proof -
    have "(if jb_discard_dist jb = 0 then jb\<lparr>jb_discard_ref := last\<rparr>
        else if last < jb_discard_ref jb then jb\<lparr>jb_discard_ref := last\<rparr> else jb) =
      jb\<lparr>jb_discard_ref := ref\<rparr>"
      by (simp add: ref_def)
    then show ?thesis
      unfolding jbuf_discard_progressive_def Let_def jb_framelist_origin_def jb_framelist_size_def
        cur_def [symmetric] bl_def [symmetric] last_def [symmetric] dd_def [symmetric]
      by (simp add: dist(1,3) sq_def)
  qed
  have ll: "disc_le last (abs_fl ?fl)" by (rule disc_le_last) (simp add: last_def abs_fl_def)
  have ri: "disc_le ref (abs_fl ?fl)"
    using ll inv by (auto simp: ref_def jb_inv_def)
  have sq: "ref < sq" using dist by (auto simp: sq_def)
  obtain fl' st where d: "jb_framelist_discard ?fl sq = (fl', st)" by fastforce
  have nal: "\<not> already (abs_fl ?fl) sq" by (rule disc_le_not_already [OF ri sq])
  note L = fw.discard_law [OF fi nal d]
  have dl: "disc_le sq (abs_fl fl')" using disc_le_discard [OF ri, of sq] sq L by simp
  have m: "fw.moves {} ?fl fl'" by (rule fw.m_discard [OF fw.m_refl nal d])
  show ?thesis
    unfolding keeps_def eq using inv na L dl ri m fw.m_refl [of "{}" ?fl] by (simp add: jb_inv_def d)
qed

lemma run_discard_keeps: "jb_inv jb \<Longrightarrow> keeps {} jb (run_discard_algo jb)"
  using discard_static_keeps [of jb] discard_progressive_keeps [of jb]
  by (auto simp: run_discard_algo_def keeps_def jb_inv_def fw.m_refl split: jb_discard_algo.split)

lemma keeps_cong:
  assumes "keeps X jb1 jb'" "jb_framelist jb1 = jb_framelist jb"
  shows "keeps X jb jb'"
  using assms by (simp add: keeps_def)

text \<open>Fields that \<open>jb_inv\<close> does not depend on.\<close>

lemma jb_inv_update [simp]:
  "jb_inv (jb\<lparr>jb_level := x\<rparr>) = jb_inv jb" "jb_inv (jb\<lparr>jb_last_op := op\<rparr>) = jb_inv jb"
  "jb_inv (jb\<lparr>jb_status := s\<rparr>) = jb_inv jb" "jb_inv (jb\<lparr>jb_init_cycle_cnt := x\<rparr>) = jb_inv jb"
  "jb_inv (jb\<lparr>jb_prefetching := p\<rparr>) = jb_inv jb" "jb_inv (jb\<lparr>jb_lost := n\<rparr>) = jb_inv jb"
  "jb_inv (jb\<lparr>jb_empty := n\<rparr>) = jb_inv jb" "jb_inv (jb\<lparr>jb_discard := n\<rparr>) = jb_inv jb"
  "jb_inv (jb\<lparr>jb_delay := d\<rparr>) = jb_inv jb"
  by (simp_all add: jb_inv_def)

lemma update_keeps:
  assumes inv: "jb_inv jb"
  shows "keeps {} jb (jbuf_update jb oper)"
proof -
  have r: "keeps {} jb (run_discard_algo j)" if "jb_inv j" "jb_framelist j = jb_framelist jb" for j
    using run_discard_keeps [OF that(1)] that(2) by (rule keeps_cong)
  have n: "keeps {} jb j" if "jb_inv j" "jb_framelist j = jb_framelist jb" for j
    using that fw.m_refl by (simp add: keeps_def)
  have c: "keeps {} jb (if b then x else y)" if "b \<Longrightarrow> keeps {} jb x" "\<not> b \<Longrightarrow> keeps {} jb y" for b x y
    using that by simp
  show ?thesis
    unfolding jbuf_update_def Let_def by (intro c; (rule r | rule n)) (use inv in \<open>auto intro!: calculate_jitter_inv\<close>)
qed

section \<open>Put\<close>

lemma spec_put_toomany:
  "spec_put n ow i x = (ow', PJ_ETOOMANY) \<Longrightarrow> int n \<le> i - fst ow' \<and> i - fst ow' \<le> JB_MAX_DROPOUT"
  by (cases ow') (auto simp: spec_put_def Let_def split: if_splits prod.splits)

text \<open>
  The loop that makes room removes frames and puts again at most once: it ends, and the
  frame list has only changed by a removal and puts of the frame.
\<close>

lemma put_retry_ends:
  assumes inv: "fl_inv fl0" and len: "length frame \<le> fl_frame_size fl0"
    and p: "jb_framelist_put_at fl0 seq frame b t JB_NORMAL_FRAME = (fl, st0)"
    and jb: "jb_framelist jb = fl" "jb_max_count jb = fl_max_count fl0"
  obtains fl' n st where
    "put_retry jb seq frame b t st0 = Some (jb\<lparr>jb_framelist := fl', jb_discard := n\<rparr>, st)"
    "st \<noteq> PJ_ETOOMANY" "fw.moves {(seq, frame, b, t)} fl0 fl'"
    "\<And>r. disc_le r (abs_fl fl0) \<Longrightarrow> disc_le r (abs_fl fl')"
proof -
  note L = fw.put_law [OF inv len p]
  have m: "fw.moves {(seq, frame, b, t)} fl0 fl"
    using fw.m_put [OF fw.m_refl, of seq frame b t "{(seq, frame, b, t)}" fl0 fl st0] len p by simp
  have dl: "disc_le r (abs_fl fl)" if "disc_le r (abs_fl fl0)" for r
    using disc_le_put [OF that, of "A_frame frame b t" "fl_max_count fl0" seq] L by simp
  show ?thesis
  proof (cases "st0 = PJ_ETOOMANY")
    case False
    then show ?thesis
      using m dl jb by (intro that [of "jb_discard jb" fl st0]) (simp_all add: put_retry.simps [of jb])
  next
    case True
    define dist where "dist = seq - fl_origin fl - int (fl_max_count fl0) + 1"
    have "int (fl_max_count fl0) \<le> seq - fl_origin fl" "seq - fl_origin fl \<le> 3000"
      using spec_put_toomany L True by (auto simp: abs_fl_def JB_MAX_DROPOUT_def)
    then have u: "u32 dist = nat dist" by (simp add: dist_def u32_nonneg)
    obtain fl1 c where r: "jb_framelist_remove_head fl (nat dist) = (fl1, c)" by fastforce
    have fi: "fl_inv fl" using L by simp
    note R = fw.remove_law [OF fi r]
    have len1: "length frame \<le> fl_frame_size fl1" using R L len by simp
    obtain fl2 st2 where p2: "jb_framelist_put_at fl1 seq frame b t JB_NORMAL_FRAME = (fl2, st2)"
      by fastforce
    have i1: "fl_inv fl1" using R by simp
    note L2 = fw.put_law [OF i1 len1 p2]
    have "snd (jb_framelist_put_at fl1 seq frame b t JB_NORMAL_FRAME) \<in> {PJ_SUCCESS, PJ_EEXISTS}"
      by (rule fw.put_after_remove [where s = fl and s0 = fl0 and c = c])
        (use fi L len p True inv r in \<open>simp_all add: dist_def abs_fl_def\<close>)
    then have st2: "st2 \<noteq> PJ_ETOOMANY" using p2 by auto
    have m2: "fw.moves {(seq, frame, b, t)} fl0 fl2"
      using fw.m_put [OF fw.m_remove [OF m r], of seq frame b t fl2 st2] len1 p2 by simp
    have d2: "disc_le r (abs_fl fl2)" if "disc_le r (abs_fl fl0)" for r
      using disc_le_put [of r "abs_fl fl1" "A_frame frame b t" "fl_max_count fl1" seq] L2
        disc_le_remove [OF dl [OF that], of "nat dist"] R by simp
    have "put_retry jb seq frame b t st0 =
        Some (jb\<lparr>jb_framelist := fl2, jb_discard := u32 (int (jb_discard jb) + int c)\<rparr>, st2)"
      using True r p2 st2 jb u
      by (simp add: put_retry.simps [of _ _ _ _ _ PJ_ETOOMANY] put_retry.simps [of _ _ _ _ _ st2]
          Let_def jb_framelist_origin_def dist_def)
    then show ?thesis using st2 m2 d2 by (intro that) blast+
  qed
qed

lemma moves_comp_mono:
  "fw.moves Y x z \<Longrightarrow> fw.moves X w x \<Longrightarrow> Y \<subseteq> X \<Longrightarrow> fw.moves X w z"
proof (induction rule: fw.moves.induct)
  case (m_put s s1 i frame b t s2 st)
  then have "(i, frame, b, t) \<in> X" by blast
  then show ?case by (rule fw.m_put [OF m_put.IH [OF m_put.prems] _ m_put(3,4)])
qed (auto intro: fw.moves.intros)

lemma moves_comp: "fw.moves X w x \<Longrightarrow> fw.moves X x z \<Longrightarrow> fw.moves X w z"
  using moves_comp_mono by blast

lemma keeps_trans:
  assumes "keeps X jb jb1" "fw.moves Y (jb_framelist jb1) (jb_framelist jb2)" "jb_inv jb2" "Y \<subseteq> X"
  shows "keeps X jb jb2"
  using assms moves_comp_mono unfolding keeps_def by blast

lemma put_frame3_keeps:
  assumes inv: "jb_inv jb"
  obtains jb' d where "pjmedia_jbuf_put_frame3 jb frame b seq t = Some (jb', d)"
    "keeps {(seq, take (jb_frame_size jb) frame, b, t)} jb jb'"
proof -
  define f where "f = take (jb_frame_size jb) frame"
  have mf: "take (min (length frame) (jb_frame_size jb)) frame = f" by (simp add: f_def min_def)
  let ?fl = "jb_framelist jb"
  have fi: "fl_inv ?fl" and lf: "length f \<le> fl_frame_size ?fl" and mc: "jb_max_count jb = fl_max_count ?fl"
    using inv by (simp_all add: jb_inv_def f_def)
  obtain fl st0 where p: "jb_framelist_put_at ?fl seq f b t JB_NORMAL_FRAME = (fl, st0)" by fastforce
  obtain fl' n st where r: "put_retry (jb\<lparr>jb_framelist := fl\<rparr>) seq f b t st0 =
      Some (jb\<lparr>jb_framelist := fl', jb_discard := n\<rparr>, st)"
    and m: "fw.moves {(seq, f, b, t)} ?fl fl'"
    and d: "\<And>r. disc_le r (abs_fl ?fl) \<Longrightarrow> disc_le r (abs_fl fl')"
    by (rule put_retry_ends [OF fi lf p, of "jb\<lparr>jb_framelist := fl\<rparr>"]) (simp_all add: mc)
  have k: "keeps {(seq, f, b, t)} jb (jb\<lparr>jb_framelist := fl', jb_discard := n\<rparr>)"
    using fw.moves_inv [OF m fi] m inv d by (simp add: keeps_def jb_inv_def)
  define j where "j = jb\<lparr>jb_framelist := fl', jb_discard := n\<rparr>"
  have fin: "keeps {(seq, f, b, t)} jb (jbuf_update j' JB_OP_PUT)"
    if "jb_inv j' = jb_inv j" "jb_framelist j' = jb_framelist j" for j'
    using keeps_trans [OF k, of "{}"] update_keeps [of j' JB_OP_PUT] that k
    unfolding keeps_def j_def by simp
  have fail: "keeps {(seq, f, b, t)} jb (j\<lparr>jb_discard := v\<rparr>)" for v
    using k unfolding keeps_def j_def by simp
  have "\<exists>jb' d. pjmedia_jbuf_put_frame3 jb frame b seq t = Some (jb', d) \<and>
      keeps {(seq, f, b, t)} jb jb'"
    using fin fail
    by (simp add: pjmedia_jbuf_put_frame3_def mf p r j_def [symmetric] Let_def) blast
  then show ?thesis using that unfolding f_def by blast
qed

section \<open>Get, peek and remove\<close>

lemma get_frame3_keeps:
  assumes inv: "jb_inv jb"
  obtains jb' ty r where "pjmedia_jbuf_get_frame3 jb m = Some (jb', ty, r)" "keeps {} jb jb'"
    "\<And>f. r = Some f \<Longrightarrow> \<exists>fl1. jb_framelist_get (jb_framelist jb) m = Some (fl1, Some f) \<and>
        fw.moves {} fl1 (jb_framelist jb') \<and>
        ty = (if fr_type f = JB_NORMAL_FRAME then JB_NORMAL_FRAME else JB_MISSING_FRAME)"
    "r = None \<Longrightarrow> ty \<noteq> JB_NORMAL_FRAME"
proof -
  let ?fl = "jb_framelist jb"
  have fi: "fl_inv ?fl" using inv by (simp add: jb_inv_def)
  obtain fl1 r1 where g: "jb_framelist_get ?fl m = Some (fl1, r1)" using fw.get_law [OF fi, of m] by blast
  note G = fw.get_abs [OF fi g]
  have m1: "fw.moves {} ?fl fl1" by (rule fw.m_get [OF fw.m_refl g])
  have i1: "jb_inv (jb\<lparr>jb_framelist := fl1\<rparr>)"
    using inv G disc_le_get [of "jb_discard_ref jb" "abs_fl ?fl"] by (simp add: jb_inv_def)
  have upd: "jb_inv (jbuf_update (j\<lparr>jb_level := jb_level j + 1\<rparr>) JB_OP_GET) \<and>
      fw.moves {} (jb_framelist j) (jb_framelist (jbuf_update (j\<lparr>jb_level := jb_level j + 1\<rparr>) JB_OP_GET))"
    if "jb_inv j" for j
    using update_keeps [of "j\<lparr>jb_level := jb_level j + 1\<rparr>" JB_OP_GET] that by (simp add: keeps_def)
  have stay: "\<exists>jb' ty. pjmedia_jbuf_get_frame3 jb m = Some (jb', ty, None) \<and> keeps {} jb jb' \<and>
      ty \<noteq> JB_NORMAL_FRAME"
    if "jb_prefetching jb \<or> jb_framelist_eff_size ?fl < jb_min_delay jb"
    using that upd [of "jb\<lparr>jb_empty := u32 (int (jb_empty jb) + 1)\<rparr>"] upd [of jb] inv
    by (auto simp: pjmedia_jbuf_get_frame3_def Let_def keeps_def)
  have take: "\<exists>jb' ty. pjmedia_jbuf_get_frame3 jb m = Some (jb', ty, r1) \<and> jb_inv jb' \<and>
      fw.moves {} fl1 (jb_framelist jb') \<and>
      (case r1 of None \<Rightarrow> ty \<noteq> JB_NORMAL_FRAME
       | Some f \<Rightarrow> ty = (if fr_type f = JB_NORMAL_FRAME then JB_NORMAL_FRAME else JB_MISSING_FRAME))"
    if n: "\<not> (jb_prefetching jb \<or> jb_framelist_eff_size ?fl < jb_min_delay jb)"
  proof -
    define j where "j = jb\<lparr>jb_framelist := fl1\<rparr>"
    have fj: "jb_framelist j = fl1" "jb_inv j" using i1 by (simp_all add: j_def)
    have u: "jb_inv (jbuf_update j' JB_OP_GET) \<and> fw.moves {} fl1 (jb_framelist (jbuf_update j' JB_OP_GET))"
      if "jb_inv j' = jb_inv j" "jb_framelist j' = fl1" for j'
      using update_keeps [of j' JB_OP_GET] that fj by (simp add: keeps_def)
    show ?thesis
    proof (cases r1)
      case None
      then show ?thesis
        using n g u fj by (simp add: pjmedia_jbuf_get_frame3_def Let_def j_def [symmetric])
    next
      case (Some f)
      then show ?thesis
        using n g u fj by (simp add: pjmedia_jbuf_get_frame3_def Let_def j_def [symmetric])
    qed
  qed
  show ?thesis
  proof (cases "jb_prefetching jb \<or> jb_framelist_eff_size ?fl < jb_min_delay jb")
    case True
    then show ?thesis using stay that by blast
  next
    case False
    then obtain jb' ty where t: "pjmedia_jbuf_get_frame3 jb m = Some (jb', ty, r1)" "jb_inv jb'"
      "fw.moves {} fl1 (jb_framelist jb')"
      "case r1 of None \<Rightarrow> ty \<noteq> JB_NORMAL_FRAME
       | Some f \<Rightarrow> ty = (if fr_type f = JB_NORMAL_FRAME then JB_NORMAL_FRAME else JB_MISSING_FRAME)"
      using take by blast
    have "keeps {} jb (jb\<lparr>jb_framelist := fl1\<rparr>)" using i1 m1 by (simp add: keeps_def)
    then have "keeps {} jb jb'" by (rule keeps_trans [where Y = "{}"]) (use t in simp_all)
    then show ?thesis using t g by (intro that [of jb' ty r1]) auto
  qed
qed

lemma peek_frame_ends:
  assumes "jb_inv jb"
  shows "\<exists>r. pjmedia_jbuf_peek_frame jb offset = Some r"
  using assms framelist_peek_eq [of "jb_framelist jb" offset]
  by (auto simp: pjmedia_jbuf_peek_frame_def jb_inv_def)

lemma remove_more_moves:
  "fl_inv fl \<Longrightarrow> fw.moves {} fl (fst (remove_more fl l c)) \<and>
     (\<forall>r. disc_le r (abs_fl fl) \<longrightarrow> disc_le r (abs_fl (fst (remove_more fl l c))))"
proof (induction fl l c rule: remove_more.induct)
  case (1 fl l c)
  show ?case
  proof (cases "fl_discarded_num fl < l")
    case False
    then show ?thesis by (simp add: remove_more.simps [of fl] fw.m_refl)
  next
    case True
    obtain fl' n where r: "jb_framelist_remove_head fl (l - fl_discarded_num fl) = (fl', n)" by fastforce
    note R = fw.remove_law [OF 1(2) r]
    have m: "fw.moves {} fl fl'" by (rule fw.m_remove [OF fw.m_refl r])
    let ?rest = "remove_more fl' (fl_discarded_num fl)
        (u32 (int (u32_sub c (l - fl_discarded_num fl)) + int n))"
    have IH: "fw.moves {} fl' (fst ?rest) \<and>
        (\<forall>r. disc_le r (abs_fl fl') \<longrightarrow> disc_le r (abs_fl (fst ?rest)))"
      using 1(1) [OF True refl r [symmetric] refl] R by simp
    have eq: "remove_more fl l c = ?rest"
      using True r by (simp add: remove_more.simps [of fl] Let_def)
    have "disc_le r' (abs_fl fl) \<Longrightarrow> disc_le r' (abs_fl fl')" for r'
      using disc_le_remove [of r' "abs_fl fl" "l - fl_discarded_num fl"] R by simp
    then show ?thesis using IH moves_comp [OF m] unfolding eq by blast
  qed
qed

lemma remove_frame_keeps:
  assumes inv: "jb_inv jb"
  shows "keeps {} jb (fst (pjmedia_jbuf_remove_frame jb n))"
proof -
  let ?fl = "jb_framelist jb"
  have fi: "fl_inv ?fl" using inv by (simp add: jb_inv_def)
  obtain fl' c where r: "jb_framelist_remove_head ?fl n = (fl', c)" by fastforce
  note R = fw.remove_law [OF fi r]
  have m: "fw.moves {} ?fl fl'" by (rule fw.m_remove [OF fw.m_refl r])
  define fl2 where "fl2 = fst (remove_more fl' (fl_discarded_num ?fl) c)"
  have M: "fw.moves {} fl' fl2" "\<And>r. disc_le r (abs_fl fl') \<Longrightarrow> disc_le r (abs_fl fl2)"
    using remove_more_moves [of fl' "fl_discarded_num ?fl" c] R by (simp_all add: fl2_def)
  have m2: "fw.moves {} ?fl fl2" by (rule moves_comp [OF m M(1)])
  have d: "disc_le r (abs_fl ?fl) \<Longrightarrow> disc_le r (abs_fl fl2)" for r
    using M(2) disc_le_remove [of r "abs_fl ?fl" n] R by simp
  have "fst (pjmedia_jbuf_remove_frame jb n) = jb\<lparr>jb_framelist := fl2\<rparr>"
    by (simp add: pjmedia_jbuf_remove_frame_def r fl2_def split_beta Let_def)
  then show ?thesis
    using fw.moves_inv [OF m2 fi] m2 d inv by (simp add: keeps_def jb_inv_def)
qed

section \<open>Configuration\<close>

lemma reset_keeps_inv: "jb_inv jb \<Longrightarrow> jb_inv (pjmedia_jbuf_reset jb)"
  using fl_reset_inv [of "jb_framelist jb"] by (simp add: jb_inv_def pjmedia_jbuf_reset_def)

lemma create_inv:
  assumes c: "pjmedia_jbuf_create frame_size ptime max_count content0 type0 len0 bits0 ts0 = Some jb"
    and n: "0 < max_count" "max_count < 2 ^ 31" and p: "ptime \<le> 200"
    and l: "length content0 = max_count" "length type0 = max_count" "length len0 = max_count"
      "length bits0 = max_count" "length ts0 = max_count"
  shows "jb_inv jb"
proof -
  have p0: "0 < ptime" using c by (auto simp: pjmedia_jbuf_create_def split: if_splits)
  have u: "u32 (int max_count * 4) div 5 \<le> max_count"
  proof -
    have "int (u32 (int max_count * 4)) \<le> int max_count * 4"
      using zmod_le_nonneg_dividend [of "int max_count * 4" "2 ^ 32"] by (simp add: u32_def)
    then show ?thesis by linarith
  qed
  have g: "1 \<le> 200 div ptime" "200 div ptime < 2 ^ 31"
    using p p0 le_less_trans [OF div_le_dividend [of 200 ptime], of "2 ^ 31"]
    by (simp_all add: div_greater_zero_iff Suc_le_eq)
  have fi: "fl_inv (jb_framelist_reset (jb_framelist_init frame_size max_count content0 type0 len0 bits0 ts0))"
    unfolding jb_framelist_init_def
    by (rule reset_inv) (use n l in \<open>simp_all add: jb_framelist_reset_def\<close>)
  have f: "fl_max_count (jb_framelist_init frame_size max_count content0 type0 len0 bits0 ts0) = max_count"
    "fl_frame_size (jb_framelist_init frame_size max_count content0 type0 len0 bits0 ts0) = frame_size"
    by (simp_all add: jb_framelist_init_def)
  show ?thesis
    using c p0 u g fi f
    by (auto simp: pjmedia_jbuf_create_def Let_def jb_inv_def pjmedia_jbuf_reset_def
        pjmedia_jbuf_set_discard_def jbuf_consts zdiv_int [symmetric])
qed

lemma set_ptime2_inv:
  assumes inv: "jb_inv jb" and s: "pjmedia_jbuf_set_ptime2 jb ptime denum = Some jb'"
    and d: "0 < denum" "ptime \<le> 200 * denum" "200 * denum < 2 ^ 31"
  shows "jb_inv jb'"
proof -
  have p0: "0 < ptime" using s by (auto simp: pjmedia_jbuf_set_ptime2_def split: if_splits)
  have u: "u32 (200 * int denum) = 200 * denum" using d by (simp add: u32_nonneg nat_mult_distrib)
  have "1 \<le> 200 * denum div ptime" using d p0 by (simp add: div_greater_zero_iff Suc_le_eq)
  moreover have "200 * denum div ptime < 2 ^ 31" using d div_le_dividend [of "200 * denum" ptime] by linarith
  ultimately have "1 \<le> s32 (int (200 * denum div ptime)) \<and> s32 (int (200 * denum div ptime)) < 2 ^ 31"
    using s32_range [of "int (200 * denum div ptime)"] by (simp add: s32_id)
  then show ?thesis
    using inv s d p0 u
    by (auto simp: pjmedia_jbuf_set_ptime2_def jb_inv_def PJMEDIA_JBUF_DISC_MIN_GAP_def)
qed

lemma set_fixed_inv: "jb_inv jb \<Longrightarrow> jb_inv (fst (pjmedia_jbuf_set_fixed jb p))"
  by (auto simp: pjmedia_jbuf_set_fixed_def pjmedia_jbuf_set_discard_def jb_inv_def)

lemma set_adaptive_inv: "jb_inv jb \<Longrightarrow> jb_inv (fst (pjmedia_jbuf_set_adaptive jb p mn mx))"
  by (auto simp: pjmedia_jbuf_set_adaptive_def jb_inv_def)

lemma set_min_delay_inv: "jb_inv jb \<Longrightarrow> jb_inv (pjmedia_jbuf_set_min_delay jb d)"
  by (simp add: pjmedia_jbuf_set_min_delay_def jb_inv_def Let_def)

lemma set_discard_inv:
  "jb_inv jb \<Longrightarrow> (algo = JB_DISCARD_STATIC \<longrightarrow> jb_discard_dist jb = 0) \<Longrightarrow>
   jb_inv (pjmedia_jbuf_set_discard jb algo)"
  by (auto simp: pjmedia_jbuf_set_discard_def jb_inv_def)

section \<open>Reachable jitter buffers\<close>

text \<open>
  The jitter buffers a caller can get to: created with a frame time of at most 200 ms (the
  minimum discard gap) and changed by the calls of the file.  The static discard algorithm is
  selected before the progressive one has started, as the streams do.
\<close>

inductive jb_reach :: "pjmedia_jbuf \<Rightarrow> bool" where
  jr_create: "pjmedia_jbuf_create frame_size ptime max_count content0 type0 len0 bits0 ts0 = Some jb \<Longrightarrow>
    0 < max_count \<Longrightarrow> max_count < 2 ^ 31 \<Longrightarrow> ptime \<le> 200 \<Longrightarrow>
    length content0 = max_count \<Longrightarrow> length type0 = max_count \<Longrightarrow> length len0 = max_count \<Longrightarrow>
    length bits0 = max_count \<Longrightarrow> length ts0 = max_count \<Longrightarrow> jb_reach jb"
| jr_put: "jb_reach jb \<Longrightarrow> pjmedia_jbuf_put_frame3 jb frame b seq t = Some (jb', d) \<Longrightarrow> jb_reach jb'"
| jr_get: "jb_reach jb \<Longrightarrow> pjmedia_jbuf_get_frame3 jb m = Some (jb', r) \<Longrightarrow> jb_reach jb'"
| jr_remove: "jb_reach jb \<Longrightarrow> jb_reach (fst (pjmedia_jbuf_remove_frame jb n))"
| jr_reset: "jb_reach jb \<Longrightarrow> jb_reach (pjmedia_jbuf_reset jb)"
| jr_fixed: "jb_reach jb \<Longrightarrow> jb_reach (fst (pjmedia_jbuf_set_fixed jb p))"
| jr_adaptive: "jb_reach jb \<Longrightarrow> jb_reach (fst (pjmedia_jbuf_set_adaptive jb p mn mx))"
| jr_min_delay: "jb_reach jb \<Longrightarrow> jb_reach (pjmedia_jbuf_set_min_delay jb d)"
| jr_discard: "jb_reach jb \<Longrightarrow> (algo = JB_DISCARD_STATIC \<longrightarrow> jb_discard_dist jb = 0) \<Longrightarrow>
    jb_reach (pjmedia_jbuf_set_discard jb algo)"
| jr_ptime: "jb_reach jb \<Longrightarrow> pjmedia_jbuf_set_ptime2 jb ptime denum = Some jb' \<Longrightarrow>
    0 < denum \<Longrightarrow> ptime \<le> 200 * denum \<Longrightarrow> 200 * denum < 2 ^ 31 \<Longrightarrow> jb_reach jb'"

lemma put_frame3_inv:
  assumes "jb_inv jb" "pjmedia_jbuf_put_frame3 jb frame b seq t = Some (jb', d)"
  shows "keeps {(seq, take (jb_frame_size jb) frame, b, t)} jb jb'"
  using put_frame3_keeps [OF assms(1), of frame b seq t] assms(2) by auto

lemma get_frame3_inv:
  assumes "jb_inv jb" "pjmedia_jbuf_get_frame3 jb m = Some (jb', r)"
  shows "keeps {} jb jb'"
  by (rule get_frame3_keeps [OF assms(1), of m]) (use assms(2) in auto)

lemma reach_inv: "jb_reach jb \<Longrightarrow> jb_inv jb"
proof (induction rule: jb_reach.induct)
  case jr_create
  then show ?case by (rule create_inv)
next
  case (jr_put jb frame b seq t jb' d)
  then show ?case using put_frame3_inv by (simp add: keeps_def)
next
  case (jr_get jb m jb' r)
  then show ?case using get_frame3_inv by (simp add: keeps_def)
next
  case (jr_remove jb n)
  then show ?case using remove_frame_keeps by (simp add: keeps_def)
next
  case (jr_discard jb algo)
  show ?case by (rule set_discard_inv [OF jr_discard.IH jr_discard(2)])
next
  case (jr_ptime jb ptime denum jb')
  show ?case by (rule set_ptime2_inv [OF jr_ptime.IH jr_ptime(2-5)])
qed (simp_all add: reset_keeps_inv set_fixed_inv set_adaptive_inv set_min_delay_inv)

end
