(* ===== verification/Jbuf_Props.thy ===== *)
theory Jbuf_Props
  imports Jbuf_Safety "HOL-Library.Sublist"
begin

text \<open>
  The properties of the jitter buffer: what a caller of the public functions of
  \<^verbatim>\<open>jbuf.c\<close> can rely on.
\<close>

section \<open>Runs of calls\<close>

datatype jb_call = Put "u8 list" nat int nat | Get "nat option" | Remove nat

text \<open>A run of calls and the frames it delivers; \<open>None\<close> if a call does not return.\<close>

fun jb_run :: "pjmedia_jbuf \<Rightarrow> jb_call list \<Rightarrow> (pjmedia_jbuf \<times> jb_frame list) option" where
  "jb_run jb [] = Some (jb, [])"
| "jb_run jb (Put frame b seq t # cs) =
     (case pjmedia_jbuf_put_frame3 jb frame b seq t of
        None \<Rightarrow> None
      | Some (jb', _) \<Rightarrow> jb_run jb' cs)"
| "jb_run jb (Get m # cs) =
     (case pjmedia_jbuf_get_frame3 jb m of
        None \<Rightarrow> None
      | Some (jb', _, r) \<Rightarrow>
          (case jb_run jb' cs of
             None \<Rightarrow> None
           | Some (jb'', out) \<Rightarrow> Some (jb'', (case r of None \<Rightarrow> out | Some f \<Rightarrow> f # out))))"
| "jb_run jb (Remove n # cs) = jb_run (fst (pjmedia_jbuf_remove_frame jb n)) cs"

definition puts_of :: "jb_call list \<Rightarrow> (int \<times> aframe) set" where
  "puts_of cs = {(seq, A_frame (take k frame) b t) | frame b seq t k. Put frame b seq t \<in> set cs}"

text \<open>
  The sequence numbers put are in the range in which \<^verbatim>\<open>jb_framelist_put_at\<close> does not
  renumber the buffered frames.
\<close>

definition seqs_ok :: "jb_call list \<Rightarrow> bool" where
  "seqs_ok cs \<longleftrightarrow> (\<forall>c\<in>set cs. case c of Put _ _ seq _ \<Rightarrow> 0 \<le> seq \<and> seq + 2 < int MAX_FRAME_INDEX | _ \<Rightarrow> True)"

text \<open>No frame is put a hundred or more behind the newest one put so far (\<open>B - 1\<close>).\<close>

fun near :: "int \<Rightarrow> jb_call list \<Rightarrow> bool" where
  "near B [] = True"
| "near B (Put _ _ seq _ # cs) = (B - seq < JB_MAX_MISORDER \<and> near (max B (seq + 1)) cs)"
| "near B (Get _ # cs) = near B cs"
| "near B (Remove _ # cs) = near B cs"

lemma from_history_bound: "from_history H B ow \<Longrightarrow> B \<le> B' \<Longrightarrow> from_history H B' ow"
  by (auto simp: from_history_def)

lemma keeps_history:
  assumes k: "keeps X jb jb'" and inv: "jb_inv jb" and h: "from_history H B (abs_fl (jb_framelist jb))"
    and B: "B < int MAX_FRAME_INDEX" and X: "\<And>i f b t. (i, f, b, t) \<in> X \<Longrightarrow> 0 \<le> i \<and> i < B"
  shows "from_history (H \<union> fw.abs_puts X) B (abs_fl (jb_framelist jb'))"
  using fw.moves_history [of X "jb_framelist jb" "jb_framelist jb'" H B] assms
  by (auto simp: keeps_def jb_inv_def)

lemma puts_of_simps [simp]:
  "puts_of [] = {}" "puts_of (Get m # cs) = puts_of cs" "puts_of (Remove n # cs) = puts_of cs"
  "puts_of cs \<subseteq> puts_of (c # cs)"
  "fw.abs_puts {(seq, take k frame, b, t)} \<subseteq> puts_of (Put frame b seq t # cs)"
  by (auto simp: puts_of_def fw.abs_puts_def) blast+

lemma delivers_history:
  assumes inv: "fl_inv fl" and h: "from_history H B (abs_fl fl)"
    and g: "jb_framelist_get fl m = Some (fl', Some f)"
  shows "fl_origin fl \<le> fr_seq f \<and> fr_seq f < fl_origin fl' \<and>
    (fr_type f = JB_NORMAL_FRAME \<longrightarrow> (\<exists>d b t. (fr_seq f, A_frame d b t) \<in> H \<and>
       fr_bit_info f = b \<and> fr_ts f = t \<and> prefix (fr_data f) d))"
proof -
  note G = fw.get_abs [OF inv g]
  obtain s a where sg: "snd (spec_get (abs_fl fl)) = Some (s, a)" and s: "fr_seq f = s"
    using G(5) by (auto simp: delivers_def split: option.splits)
  have o: "fl_origin fl \<le> s" "s < fl_origin fl'"
    using origin_others(4) [OF sg] unfolding G(4) [symmetric] by (simp_all add: abs_fl_def)
  have "\<exists>d b t. (fr_seq f, A_frame d b t) \<in> H \<and> fr_bit_info f = b \<and> fr_ts f = t \<and> prefix (fr_data f) d"
    if n: "fr_type f = JB_NORMAL_FRAME"
  proof -
    obtain d b t where a: "a = A_frame d b t" "fr_bit_info f = b" "fr_ts f = t"
      "fr_data f = (case m of None \<Rightarrow> d | Some s \<Rightarrow> take s d)"
      using G(5) n by (auto simp: delivers_def sg split: aframe.splits)
    have "(s, A_frame d b t) \<in> H" using from_history_get(2) [OF h] sg a by simp
    moreover have "prefix (fr_data f) d" using a(4) by (simp add: take_is_prefix split: option.splits)
    ultimately show ?thesis using a s by blast
  qed
  then show ?thesis using o s by blast
qed

lemma run_from_puts:
  "jb_inv jb \<Longrightarrow> from_history H (int MAX_FRAME_INDEX - 1) (abs_fl (jb_framelist jb)) \<Longrightarrow> seqs_ok cs \<Longrightarrow>
   \<exists>jb' out. jb_run jb cs = Some (jb', out) \<and>
     (\<forall>f\<in>set out. fr_type f = JB_NORMAL_FRAME \<longrightarrow>
        (\<exists>d b t. (fr_seq f, A_frame d b t) \<in> H \<union> puts_of cs \<and> fr_bit_info f = b \<and> fr_ts f = t \<and>
          prefix (fr_data f) d))"
proof (induction cs arbitrary: jb H)
  case Nil
  then show ?case by simp
next
  case (Cons c cs)
  let ?B = "int MAX_FRAME_INDEX - 1"
  have ok: "seqs_ok cs" using Cons.prems(3) by (simp add: seqs_ok_def)
  have B: "?B < int MAX_FRAME_INDEX" by simp
  have fi: "fl_inv (jb_framelist jb)" using Cons.prems by (simp add: jb_inv_def)
  have k0: "from_history H ?B (abs_fl (jb_framelist jb'))" if "keeps {} jb jb'" for jb'
    using keeps_history [OF that Cons.prems(1,2) B] by (simp add: fw.abs_puts_def)
  show ?case
  proof (cases c)
    case (Put frame b seq t)
    let ?X = "{(seq, take (jb_frame_size jb) frame, b, t)}"
    obtain jb' d where p: "pjmedia_jbuf_put_frame3 jb frame b seq t = Some (jb', d)" "keeps ?X jb jb'"
      by (rule put_frame3_keeps [OF Cons.prems(1)])
    have "from_history (H \<union> fw.abs_puts ?X) ?B (abs_fl (jb_framelist jb'))"
      by (rule keeps_history [OF p(2) Cons.prems(1,2) B])
        (use Cons.prems(3) Put in \<open>auto simp: seqs_ok_def\<close>)
    from Cons.IH [OF _ this ok] p(2) obtain jb'' out where r: "jb_run jb' cs = Some (jb'', out)"
      and f: "\<forall>f\<in>set out. fr_type f = JB_NORMAL_FRAME \<longrightarrow>
        (\<exists>d b t. (fr_seq f, A_frame d b t) \<in> H \<union> fw.abs_puts ?X \<union> puts_of cs \<and> fr_bit_info f = b \<and>
          fr_ts f = t \<and> prefix (fr_data f) d)"
      unfolding keeps_def by blast
    have "H \<union> fw.abs_puts ?X \<union> puts_of cs \<subseteq> H \<union> puts_of (c # cs)"
      using puts_of_simps(4) [of cs c] puts_of_simps(5) [of seq _ frame b t cs] Put by blast
    then show ?thesis using r f p Put by auto blast
  next
    case (Get m)
    obtain jb' ty r where g: "pjmedia_jbuf_get_frame3 jb m = Some (jb', ty, r)" "keeps {} jb jb'"
      and d: "\<And>f. r = Some f \<Longrightarrow> \<exists>fl1. jb_framelist_get (jb_framelist jb) m = Some (fl1, Some f) \<and>
        fw.moves {} fl1 (jb_framelist jb') \<and>
        ty = (if fr_type f = JB_NORMAL_FRAME then JB_NORMAL_FRAME else JB_MISSING_FRAME)"
      by (rule get_frame3_keeps [OF Cons.prems(1), of m]) blast
    from Cons.IH [OF _ k0 [OF g(2)] ok] g(2) obtain jb'' out where r: "jb_run jb' cs = Some (jb'', out)"
      and f: "\<forall>f\<in>set out. fr_type f = JB_NORMAL_FRAME \<longrightarrow>
        (\<exists>d b t. (fr_seq f, A_frame d b t) \<in> H \<union> puts_of cs \<and> fr_bit_info f = b \<and>
          fr_ts f = t \<and> prefix (fr_data f) d)"
      unfolding keeps_def by blast
    have "\<exists>d b t. (fr_seq f, A_frame d b t) \<in> H \<and> fr_bit_info f = b \<and> fr_ts f = t \<and> prefix (fr_data f) d"
      if "r = Some f" "fr_type f = JB_NORMAL_FRAME" for f
      using d [OF that(1)] delivers_history [OF fi Cons.prems(2)] that(2) by blast
    then show ?thesis using r f g Get by (auto split: option.splits)
  next
    case (Remove n)
    note k = remove_frame_keeps [OF Cons.prems(1), of n]
    then show ?thesis using Cons.IH [OF _ k0 [OF k] ok] Remove unfolding keeps_def by simp
  qed
qed

lemma run_in_order:
  "jb_inv jb \<Longrightarrow> from_history H B (abs_fl (jb_framelist jb)) \<Longrightarrow> B < int MAX_FRAME_INDEX \<Longrightarrow>
   seqs_ok cs \<Longrightarrow> near B cs \<Longrightarrow> jb_run jb cs = Some (jb', out) \<Longrightarrow>
   sorted_wrt (<) (map fr_seq out) \<and> (\<forall>f\<in>set out. fl_origin (jb_framelist jb) \<le> fr_seq f)"
proof (induction cs arbitrary: jb H B out)
  case Nil
  then show ?case by simp
next
  case (Cons c cs)
  have ok: "seqs_ok cs" using Cons.prems(4) by (simp add: seqs_ok_def)
  have fi: "fl_inv (jb_framelist jb)" using Cons.prems by (simp add: jb_inv_def)
  have k0: "jb_inv j" "from_history H B (abs_fl (jb_framelist j))" 
      if "keeps {} jb j" for j
    using keeps_history [OF that Cons.prems(1,2,3)] that by (simp_all add: fw.abs_puts_def keeps_def)
  have up: "fl_origin a \<le> fl_origin c" if "fw.moves {} a c" "fl_inv a" "from_history H B (abs_fl a)" for a c
    using fw.moves_origin [OF that Cons.prems(3)] by (simp add: abs_fl_def)
  show ?case
  proof (cases c)
    case (Put frame b seq t)
    let ?X = "{(seq, take (jb_frame_size jb) frame, b, t)}" and ?B = "max B (seq + 1)"
    obtain j d where p: "pjmedia_jbuf_put_frame3 jb frame b seq t = Some (j, d)" "keeps ?X jb j"
      by (rule put_frame3_keeps [OF Cons.prems(1)])
    have h: "from_history H ?B (abs_fl (jb_framelist jb))"
      by (rule from_history_bound [OF Cons.prems(2)]) simp
    have s: "0 \<le> seq" "seq < ?B" "?B - seq < JB_MAX_MISORDER" "?B < int MAX_FRAME_INDEX" "near ?B cs"
      using Cons.prems(3,4,5) Put by (auto simp: seqs_ok_def JB_MAX_MISORDER_def)
    have h': "from_history (H \<union> fw.abs_puts ?X) ?B (abs_fl (jb_framelist j))"
      by (rule keeps_history [OF p(2) Cons.prems(1) h s(4)]) (use s in simp)
    have "fst (abs_fl (jb_framelist jb)) \<le> fst (abs_fl (jb_framelist j))"
      by (rule fw.moves_origin [of ?X, OF _ fi h s(4)]) (use p(2) s in \<open>simp_all add: keeps_def\<close>)
    then have "fl_origin (jb_framelist jb) \<le> fl_origin (jb_framelist j)" by (simp add: abs_fl_def)
    moreover have "jb_inv j" using p(2) by (simp add: keeps_def)
    ultimately show ?thesis
      using Cons.IH [OF _ h' s(4) ok s(5), of out] Cons.prems(6) Put p by fastforce
  next
    case (Get m)
    obtain j ty r where g: "pjmedia_jbuf_get_frame3 jb m = Some (j, ty, r)" "keeps {} jb j"
      and d: "\<And>f. r = Some f \<Longrightarrow> \<exists>fl1. jb_framelist_get (jb_framelist jb) m = Some (fl1, Some f) \<and>
        fw.moves {} fl1 (jb_framelist j) \<and>
        ty = (if fr_type f = JB_NORMAL_FRAME then JB_NORMAL_FRAME else JB_MISSING_FRAME)"
      by (rule get_frame3_keeps [OF Cons.prems(1), of m]) blast
    obtain out' where r': "jb_run j cs = Some (jb', out')"
      "out = (case r of None \<Rightarrow> out' | Some f \<Rightarrow> f # out')"
      using Cons.prems(6) Get g by (auto split: option.splits)
    have IH: "sorted_wrt (<) (map fr_seq out') \<and> (\<forall>f\<in>set out'. fl_origin (jb_framelist j) \<le> fr_seq f)"
      using Cons.IH [OF k0 [OF g(2)] Cons.prems(3) ok _ r'(1)] Cons.prems(5) Get by simp
    have oj: "fl_origin (jb_framelist jb) \<le> fl_origin (jb_framelist j)"
      using up [of "jb_framelist jb"] g(2) fi Cons.prems(2) by (simp add: keeps_def)
    have fo: "fl_origin (jb_framelist jb) \<le> fr_seq f \<and> fr_seq f < fl_origin (jb_framelist j)"
      if "r = Some f" for f
    proof -
      obtain fl1 where g1: "jb_framelist_get (jb_framelist jb) m = Some (fl1, Some f)"
        and m1: "fw.moves {} fl1 (jb_framelist j)" using d [OF \<open>r = Some f\<close>] by blast
      note G = fw.get_abs [OF fi g1]
      have "from_history H B (abs_fl fl1)" using from_history_get(1) [OF Cons.prems(2)] G(4) by simp
      from up [OF m1 G(1) this] delivers_history [OF fi Cons.prems(2) g1] show ?thesis by simp
    qed
    show ?thesis using IH oj fo r'(2) by (fastforce split: option.splits)
  next
    case (Remove n)
    note k = remove_frame_keeps [OF Cons.prems(1), of n]
    have "fl_origin (jb_framelist jb) \<le> fl_origin (jb_framelist (fst (pjmedia_jbuf_remove_frame jb n)))"
      using up k fi Cons.prems(2) by (simp add: keeps_def)
    then show ?thesis
      using Cons.IH [OF k0 [OF k] Cons.prems(3) ok, of out] Cons.prems(5,6) Remove by fastforce
  qed
qed

section \<open>Properties\<close>




text \<open>The circular frame list implements the abstract window: putting a frame of legal size
  keeps the list well formed and has exactly the effect and the status code of the
  window operation, which refuses late frames (\<^verbatim>\<open>PJ_ETOOSMALL\<close>), frames beyond the
  capacity (\<^verbatim>\<open>PJ_ETOOMANY\<close>) and duplicates (\<^verbatim>\<open>PJ_EEXISTS\<close>).\<close>

theorem jbuf_put_refines_window:
  assumes "fl_inv fl" "length frame \<le> fl_frame_size fl"
  shows "fl_inv (fst (jb_framelist_put_at fl index frame b t JB_NORMAL_FRAME)) \<and>
    spec_put (fl_max_count fl) (abs_fl fl) index (A_frame frame b t) =
      (abs_fl (fst (jb_framelist_put_at fl index frame b t JB_NORMAL_FRAME)),
       snd (jb_framelist_put_at fl index frame b t JB_NORMAL_FRAME))"
  using framelist_put_refines [OF assms prod.collapse [symmetric]] by blast

text \<open>A peek at an offset below the effective size shows the frame at that offset among the
  frames that are not discarded; beyond it the buffer reports empty.  The sequence number it
  reports is the origin plus the offset, without the discarded frames in between.\<close>

theorem jbuf_peek_skips_discarded:
  assumes "fl_inv fl"
  shows "jb_framelist_peek fl offset = Some None \<and> jb_framelist_eff_size fl \<le> offset \<or>
    (\<exists>f. jb_framelist_peek fl offset = Some (Some f) \<and> offset < jb_framelist_eff_size fl \<and>
      fr_seq f = fl_origin fl + int offset \<and>
      (\<forall>d b t. kept (window fl) ! offset = A_frame d b t \<longleftrightarrow>
         fr_type f = JB_NORMAL_FRAME \<and> take (fr_size f) (fr_data f) = d \<and> fr_bit_info f = b \<and> fr_ts f = t))"
proof (cases "offset < jb_framelist_eff_size fl")
  case False
  then show ?thesis using framelist_peek_eq [OF assms] length_kept [OF assms] by auto
next
  case True
  then have l: "offset < length (kept (window fl))" using length_kept [OF assms] by simp
  define pos where "pos = (fl_head fl + kept_pos (window fl) offset) mod fl_max_count fl"
  have "kept (window fl) ! offset = abs_slot fl pos"
    using kept_pos_nth [OF l] window_nth [of "kept_pos (window fl) offset" fl] by (simp add: pos_def)
  then have "kept (window fl) ! offset = A_frame d b t \<longleftrightarrow>
      fr_type (frame_at fl pos offset) = JB_NORMAL_FRAME \<and>
      take (fr_size (frame_at fl pos offset)) (fr_data (frame_at fl pos offset)) = d \<and>
      fr_bit_info (frame_at fl pos offset) = b \<and> fr_ts (frame_at fl pos offset) = t" for d b t
    by (auto simp: abs_slot_def frame_at_def split: jb_frame_type.splits)
  moreover have "fr_seq (frame_at fl pos offset) = fl_origin fl + int offset" by (simp add: frame_at_def)
  ultimately show ?thesis
    using framelist_peek_eq [OF assms, of offset] l True unfolding pos_def by auto
qed

text \<open>
  The running statistics over the values \<open>vs\<close>, oldest first.
\<close>

definition stat_of :: "int list \<Rightarrow> pj_math_stat" where
  "stat_of vs = fold (\<lambda>v s. pj_math_stat_update s v) vs pj_math_stat_init"

lemma c_mod_bound: "0 < n \<Longrightarrow> \<bar>c_mod a n\<bar> < n"
proof -
  assume n: "0 < n"
  have "c_mod a n = sgn a * (\<bar>a\<bar> mod n)"
    unfolding minus_div_mult_eq_mod [symmetric] using n
    by (cases "a \<ge> 0") (auto simp: c_mod_def c_div_def sgn_if algebra_simps)
  then show ?thesis using n by (cases "a = 0") (auto simp: abs_mult sgn_if)
qed

lemma stat_update_mean:
  assumes n: "0 \<le> ms_n s" and r: "\<bar>ms_mean_res s\<bar> < max 1 (ms_n s)"
    and s': "s' = pj_math_stat_update s v"
  shows "ms_n s' = ms_n s + 1" "\<bar>ms_mean_res s'\<bar> < ms_n s'"
    "ms_n s' * ms_mean s' + ms_mean_res s' = ms_n s * ms_mean s + ms_mean_res s + v"
proof -
  define N where "N = ms_n s + 1"
  define q where "q = c_div (v - ms_mean s) N"
  define m where "m = c_mod (v - ms_mean s) N"
  have N: "0 < N" using n by (simp add: N_def)
  have mb: "\<bar>m\<bar> < N" unfolding m_def by (rule c_mod_bound [OF N])
  have qm: "q * N + m = v - ms_mean s" unfolding q_def m_def by (rule c_div_mod_eq)
  have f: "ms_n s' = N"
    "ms_mean s' = ms_mean s + q + (if ms_mean_res s + m \<ge> N then 1 else if ms_mean_res s + m \<le> - N then - 1 else 0)"
    "ms_mean_res s' = ms_mean_res s + m - (if ms_mean_res s + m \<ge> N then N else if ms_mean_res s + m \<le> - N then - N else 0)"
    by (simp_all add: s' pj_math_stat_update_def Let_def N_def q_def m_def)
  show "ms_n s' = ms_n s + 1" using f by (simp add: N_def)
  show "\<bar>ms_mean_res s'\<bar> < ms_n s'" using f mb r n unfolding N_def by (auto split: if_splits)
  have "N * ms_mean s' + ms_mean_res s' = N * (ms_mean s + q) + ms_mean_res s + m"
    using f by (auto simp: algebra_simps)
  also have "\<dots> = ms_n s * ms_mean s + ms_mean_res s + v"
    using qm by (simp add: N_def algebra_simps)
  finally show "ms_n s' * ms_mean s' + ms_mean_res s' = ms_n s * ms_mean s + ms_mean_res s + v"
    using f by simp
qed

lemma stat_of_mean:
  "ms_n (stat_of vs) = int (length vs) \<and> \<bar>ms_mean_res (stat_of vs)\<bar> < max 1 (int (length vs)) \<and>
   ms_n (stat_of vs) * ms_mean (stat_of vs) + ms_mean_res (stat_of vs) = sum_list vs"
proof (induction vs rule: rev_induct)
  case Nil
  show ?case by (simp add: stat_of_def pj_math_stat_init_def)
next
  case (snoc v vs)
  have "stat_of (vs @ [v]) = pj_math_stat_update (stat_of vs) v" by (simp add: stat_of_def)
  moreover have "0 \<le> ms_n (stat_of vs)" "\<bar>ms_mean_res (stat_of vs)\<bar> < max 1 (ms_n (stat_of vs))"
    using snoc.IH by simp_all
  ultimately show ?case using stat_update_mean [of "stat_of vs" "stat_of (vs @ [v])" v] snoc.IH by auto
qed

lemma stat_of_extrema:
  "vs \<noteq> [] \<Longrightarrow> ms_min (stat_of vs) = Min (set vs) \<and> ms_max (stat_of vs) = Max (set vs) \<and>
    ms_last (stat_of vs) = last vs"
proof (induction vs rule: rev_induct)
  case Nil
  then show ?case by simp
next
  case (snoc v vs)
  have e: "stat_of (vs @ [v]) = pj_math_stat_update (stat_of vs) v" by (simp add: stat_of_def)
  have n: "ms_n (stat_of vs) = int (length vs)" using stat_of_mean by blast
  show ?case
  proof (cases "vs = []")
    case True
    then show ?thesis by (simp add: stat_of_def pj_math_stat_init_def pj_math_stat_update_def Let_def)
  next
    case False
    then show ?thesis
      using snoc.IH n by (simp add: e pj_math_stat_update_def Let_def min.commute max.commute)
  qed
qed

text \<open>The integer statistics that the jitter buffer keeps of its delay and burst level are
  exact: after any non-empty sequence of values the count, minimum, maximum and last value
  are right, and the running mean is less than one off the true mean, however long the
  sequence, because the residual of the divisions is carried along.\<close>

theorem math_stat_mean_accurate:
  assumes "vs \<noteq> []"
  shows "ms_n (stat_of vs) = int (length vs) \<and> ms_min (stat_of vs) = Min (set vs) \<and>
    ms_max (stat_of vs) = Max (set vs) \<and> ms_last (stat_of vs) = last vs \<and>
    \<bar>sum_list vs - int (length vs) * ms_mean (stat_of vs)\<bar> < int (length vs)"
proof -
  have "max 1 (int (length vs)) = int (length vs)" using assms by (cases vs) simp_all
  then have "\<bar>sum_list vs - int (length vs) * ms_mean (stat_of vs)\<bar> < int (length vs)"
    using stat_of_mean [of vs] by (auto simp: abs_less_iff)
  then show ?thesis using stat_of_mean [of vs] stat_of_extrema [OF assms] by simp
qed

section \<open>Witnesses\<close>

text \<open>A buffer of four one-byte frames of 20 ms.\<close>

definition demo_jbuf :: pjmedia_jbuf where
  "demo_jbuf = the (pjmedia_jbuf_create 1 20 4 [[0], [0], [0], [0]]
     [JB_MISSING_FRAME, JB_MISSING_FRAME, JB_MISSING_FRAME, JB_MISSING_FRAME]
     [0, 0, 0, 0] [0, 0, 0, 0] [0, 0, 0, 0])"

lemma demo_reach: "jb_reach demo_jbuf"
proof (rule jr_create)
  show "pjmedia_jbuf_create 1 20 4 [[0], [0], [0], [0]]
     [JB_MISSING_FRAME, JB_MISSING_FRAME, JB_MISSING_FRAME, JB_MISSING_FRAME]
     [0, 0, 0, 0] [0, 0, 0, 0] [0, 0, 0, 0] = Some demo_jbuf"
    by (simp add: demo_jbuf_def pjmedia_jbuf_create_def Let_def)
qed simp_all

lemma demo_fl_inv: "fl_inv (jb_framelist demo_jbuf)"
  using reach_inv [OF demo_reach] by (simp add: jb_inv_def)

definition demo_calls :: "jb_call list" where
  "demo_calls = [Put [1] 0 10 0, Put [3] 0 12 0, Put [2] 0 11 0, Get None, Get None]"

lemma demo_calls_ok: "seqs_ok demo_calls" "near 0 demo_calls"
  by (simp_all add: demo_calls_def seqs_ok_def MAX_FRAME_INDEX_def JB_MAX_MISORDER_def)




lemma jbuf_put_refines_window_witness:
  "fl_inv (jb_framelist demo_jbuf) \<and>
   fl_inv (fst (jb_framelist_put_at (jb_framelist demo_jbuf) 10 [1] 0 0 JB_NORMAL_FRAME))"
proof -
  have "length [1 :: u8] \<le> fl_frame_size (jb_framelist demo_jbuf)"
    by (simp add: demo_jbuf_def pjmedia_jbuf_create_def Let_def pjmedia_jbuf_reset_def
        pjmedia_jbuf_set_discard_def jb_framelist_init_def)
  then show ?thesis using jbuf_put_refines_window [OF demo_fl_inv] demo_fl_inv by blast
qed

lemma jbuf_peek_skips_discarded_witness:
  "fl_inv (jb_framelist demo_jbuf) \<and> (\<exists>r. jb_framelist_peek (jb_framelist demo_jbuf) 0 = Some r)"
  using jbuf_peek_skips_discarded [OF demo_fl_inv, of 0] demo_fl_inv by blast

lemma math_stat_mean_accurate_witness:
  "\<bar>sum_list [40, 20, - 10, 60] - 4 * ms_mean (stat_of [40, 20, - 10, 60])\<bar> < 4"
  using math_stat_mean_accurate [of "[40, 20, - 10, 60]"] by simp

end
