(* ===== verification/Timeval.thy ===== *)
theory Timeval
  imports Pj_Prelude
begin

text \<open>
  Time values: \<^verbatim>\<open>pj_time_val\<close> with the comparison and arithmetic macros of
  \<^verbatim>\<open>pjlib/include/pj/types.h\<close> and \<^verbatim>\<open>pj_time_val_normalize\<close> of
  \<^verbatim>\<open>pjlib/src/pj/types.c\<close>.  C's \<^verbatim>\<open>long\<close> fields are \<open>int\<close>.
\<close>

datatype pj_time_val = Time_val (tv_sec: int) (tv_msec: int)

definition PJ_TIME_VAL_MSEC :: "pj_time_val \<Rightarrow> int" where
  "PJ_TIME_VAL_MSEC t = tv_sec t * 1000 + tv_msec t"

definition PJ_TIME_VAL_EQ :: "pj_time_val \<Rightarrow> pj_time_val \<Rightarrow> bool" where
  "PJ_TIME_VAL_EQ t1 t2 \<longleftrightarrow> tv_sec t1 = tv_sec t2 \<and> tv_msec t1 = tv_msec t2"

definition PJ_TIME_VAL_GT :: "pj_time_val \<Rightarrow> pj_time_val \<Rightarrow> bool" where
  "PJ_TIME_VAL_GT t1 t2 \<longleftrightarrow>
     tv_sec t1 > tv_sec t2 \<or> (tv_sec t1 = tv_sec t2 \<and> tv_msec t1 > tv_msec t2)"

definition PJ_TIME_VAL_GTE :: "pj_time_val \<Rightarrow> pj_time_val \<Rightarrow> bool" where
  "PJ_TIME_VAL_GTE t1 t2 \<longleftrightarrow> PJ_TIME_VAL_GT t1 t2 \<or> PJ_TIME_VAL_EQ t1 t2"

definition PJ_TIME_VAL_LT :: "pj_time_val \<Rightarrow> pj_time_val \<Rightarrow> bool" where
  "PJ_TIME_VAL_LT t1 t2 \<longleftrightarrow> \<not> PJ_TIME_VAL_GTE t1 t2"

definition PJ_TIME_VAL_LTE :: "pj_time_val \<Rightarrow> pj_time_val \<Rightarrow> bool" where
  "PJ_TIME_VAL_LTE t1 t2 \<longleftrightarrow> \<not> PJ_TIME_VAL_GT t1 t2"

function normalize_neg :: "int \<Rightarrow> int \<Rightarrow> int \<times> int" where
  "normalize_neg s ms =
     (let s = s - 1; ms = ms + 1000 in if ms \<le> - 1000 then normalize_neg s ms else (s, ms))"
  by pat_completeness auto
termination
  by (relation "measure (\<lambda>(s, ms). nat (- ms))") auto

declare normalize_neg.simps [simp del]

definition pj_time_val_normalize :: "pj_time_val \<Rightarrow> pj_time_val" where
  "pj_time_val_normalize t =
     (let (s, ms) =
        (if tv_msec t \<ge> 1000 then (tv_sec t + c_div (tv_msec t) 1000, c_mod (tv_msec t) 1000)
         else if tv_msec t \<le> - 1000 then normalize_neg (tv_sec t) (tv_msec t)
         else (tv_sec t, tv_msec t)) in
      if s \<ge> 1 \<and> ms < 0 then Time_val (s - 1) (ms + 1000)
      else if s < 0 \<and> ms > 0 then Time_val (s + 1) (ms - 1000)
      else Time_val s ms)"

definition PJ_TIME_VAL_ADD :: "pj_time_val \<Rightarrow> pj_time_val \<Rightarrow> pj_time_val" where
  "PJ_TIME_VAL_ADD t1 t2 =
     pj_time_val_normalize (Time_val (tv_sec t1 + tv_sec t2) (tv_msec t1 + tv_msec t2))"

definition PJ_TIME_VAL_SUB :: "pj_time_val \<Rightarrow> pj_time_val \<Rightarrow> pj_time_val" where
  "PJ_TIME_VAL_SUB t1 t2 =
     pj_time_val_normalize (Time_val (tv_sec t1 - tv_sec t2) (tv_msec t1 - tv_msec t2))"

section \<open>Order\<close>

instantiation pj_time_val :: linorder
begin

definition less_eq_pj_time_val :: "pj_time_val \<Rightarrow> pj_time_val \<Rightarrow> bool" where
  "less_eq_pj_time_val a b \<longleftrightarrow> tv_sec a < tv_sec b \<or> (tv_sec a = tv_sec b \<and> tv_msec a \<le> tv_msec b)"

definition less_pj_time_val :: "pj_time_val \<Rightarrow> pj_time_val \<Rightarrow> bool" where
  "less_pj_time_val a b \<longleftrightarrow> tv_sec a < tv_sec b \<or> (tv_sec a = tv_sec b \<and> tv_msec a < tv_msec b)"

instance
  by standard
    (auto simp: less_eq_pj_time_val_def less_pj_time_val_def intro: pj_time_val.expand)

end

lemma time_val_macros [simp]:
  "PJ_TIME_VAL_EQ a b = (a = b)" "PJ_TIME_VAL_GT a b = (b < a)" "PJ_TIME_VAL_GTE a b = (b \<le> a)"
  "PJ_TIME_VAL_LT a b = (a < b)" "PJ_TIME_VAL_LTE a b = (a \<le> b)"
  by (auto simp: PJ_TIME_VAL_EQ_def PJ_TIME_VAL_GT_def PJ_TIME_VAL_GTE_def PJ_TIME_VAL_LT_def
      PJ_TIME_VAL_LTE_def less_eq_pj_time_val_def less_pj_time_val_def intro: pj_time_val.expand)

section \<open>Normal form\<close>

text \<open>Fewer than a thousand milliseconds either way, with the sign of the seconds.\<close>

definition canonical :: "pj_time_val \<Rightarrow> bool" where
  "canonical t \<longleftrightarrow> - 1000 < tv_msec t \<and> tv_msec t < 1000 \<and>
     (tv_sec t \<ge> 1 \<longrightarrow> tv_msec t \<ge> 0) \<and> (tv_sec t < 0 \<longrightarrow> tv_msec t \<le> 0)"

lemma normalize_neg_spec:
  "ms \<le> - 1000 \<Longrightarrow> normalize_neg s ms = (s', ms') \<Longrightarrow>
   s' * 1000 + ms' = s * 1000 + ms \<and> - 1000 < ms' \<and> ms' \<le> 0"
proof (induction s ms rule: normalize_neg.induct)
  case (1 s ms)
  show ?case
  proof (cases "ms + 1000 \<le> - 1000")
    case True
    have "normalize_neg (s - 1) (ms + 1000) = (s', ms')"
      using 1(3) True by (simp add: normalize_neg.simps [of s])
    then show ?thesis using 1(1) [OF refl refl True True] by simp
  next
    case False
    then show ?thesis using 1(2,3) by (simp add: normalize_neg.simps [of s] algebra_simps)
  qed
qed

text \<open>Normalising a time value ends, keeps its length in milliseconds and brings it to the
  normal form, whatever its fields.\<close>

theorem time_val_normalize_correct:
  "canonical (pj_time_val_normalize t) \<and>
   PJ_TIME_VAL_MSEC (pj_time_val_normalize t) = PJ_TIME_VAL_MSEC t"
proof -
  obtain s ms where t: "t = Time_val s ms" by (cases t)
  obtain s1 m1 where e: "(if ms \<ge> 1000 then (s + c_div ms 1000, c_mod ms 1000)
      else if ms \<le> - 1000 then normalize_neg s ms else (s, ms)) = (s1, m1)" by fastforce
  have "s1 * 1000 + m1 = s * 1000 + ms \<and> - 1000 < m1 \<and> m1 < 1000"
  proof -
    consider "ms \<ge> 1000" | "ms \<le> - 1000" | "- 1000 < ms" "ms < 1000" by linarith
    then show ?thesis
    proof cases
      case 1
      then have "c_div ms 1000 = ms div 1000" by (simp add: c_div_nonneg)
      moreover have "c_mod ms 1000 = ms mod 1000"
        using 1 by (simp add: c_mod_def c_div_nonneg minus_div_mult_eq_mod)
      moreover have "s1 = s + c_div ms 1000" "m1 = c_mod ms 1000" using e 1 by auto
      moreover have "ms div 1000 * 1000 + ms mod 1000 = ms" by simp
      ultimately show ?thesis by (simp add: algebra_simps)
    next
      case 2
      then show ?thesis using e normalize_neg_spec [of ms s s1 m1] by auto
    next
      case 3
      then show ?thesis using e by auto
    qed
  qed
  moreover have "pj_time_val_normalize t =
      (if s1 \<ge> 1 \<and> m1 < 0 then Time_val (s1 - 1) (m1 + 1000)
       else if s1 < 0 \<and> m1 > 0 then Time_val (s1 + 1) (m1 - 1000) else Time_val s1 m1)"
    unfolding pj_time_val_normalize_def t pj_time_val.sel e by simp
  ultimately show ?thesis by (auto simp: canonical_def PJ_TIME_VAL_MSEC_def t)
qed

text \<open>On normalised time values the field-wise comparison macros order values by their length
  in milliseconds.\<close>

theorem time_val_order_is_msec:
  assumes "canonical a" "canonical b"
  shows "(PJ_TIME_VAL_LT a b \<longleftrightarrow> PJ_TIME_VAL_MSEC a < PJ_TIME_VAL_MSEC b) \<and>
    (PJ_TIME_VAL_GTE a b \<longleftrightarrow> PJ_TIME_VAL_MSEC a \<ge> PJ_TIME_VAL_MSEC b) \<and>
    (PJ_TIME_VAL_EQ a b \<longleftrightarrow> PJ_TIME_VAL_MSEC a = PJ_TIME_VAL_MSEC b)"
proof (intro conjI)
  have lt: "a < b \<longleftrightarrow> PJ_TIME_VAL_MSEC a < PJ_TIME_VAL_MSEC b" if "canonical a" "canonical b" for a b
  proof -
    have "tv_sec a < tv_sec b \<Longrightarrow> PJ_TIME_VAL_MSEC a < PJ_TIME_VAL_MSEC b"
      if "canonical a" "canonical b" for a b
      using that unfolding canonical_def PJ_TIME_VAL_MSEC_def
      by (cases "tv_sec a < 0"; cases "tv_sec b \<ge> 1") (simp; linarith)+
    from this [OF that] this [OF that(2,1)] show ?thesis
      by (cases "tv_sec a = tv_sec b") (force simp: less_pj_time_val_def PJ_TIME_VAL_MSEC_def)+
  qed
  show "PJ_TIME_VAL_LT a b \<longleftrightarrow> PJ_TIME_VAL_MSEC a < PJ_TIME_VAL_MSEC b" using lt assms by simp
  show "PJ_TIME_VAL_GTE a b \<longleftrightarrow> PJ_TIME_VAL_MSEC a \<ge> PJ_TIME_VAL_MSEC b"
    using lt [OF assms] by (simp add: not_less [symmetric])
  show "PJ_TIME_VAL_EQ a b \<longleftrightarrow> PJ_TIME_VAL_MSEC a = PJ_TIME_VAL_MSEC b"
    using lt [OF assms] lt [OF assms(2,1)] by (auto simp: PJ_TIME_VAL_MSEC_def)
qed

lemma time_val_order_is_msec_witness:
  "PJ_TIME_VAL_LT (Time_val 0 (- 500)) (Time_val 1 250) \<longleftrightarrow>
     PJ_TIME_VAL_MSEC (Time_val 0 (- 500)) < PJ_TIME_VAL_MSEC (Time_val 1 250)"
  using time_val_order_is_msec [of "Time_val 0 (- 500)" "Time_val 1 250"]
  by (simp add: canonical_def)

end
