(* ===== verification/Sift.thy ===== *)
theory Sift
  imports Pj_Prelude
begin

text \<open>
  Binary heaps in arrays, as lists: the two sifting procedures by swaps, and that they
  restore the heap order.  They are the reference against which the hole-moving loops of
  \<^verbatim>\<open>timer.c\<close> are proved.
\<close>

definition HEAP_PARENT :: "nat \<Rightarrow> nat" where
  "HEAP_PARENT x = (if x = 0 then 0 else (x - 1) div 2)"

definition HEAP_LEFT :: "nat \<Rightarrow> nat" where
  "HEAP_LEFT x = x + x + 1"

lemma HEAP_PARENT_less: "0 < s \<Longrightarrow> HEAP_PARENT s < s"
  by (auto simp: HEAP_PARENT_def)

lemma HEAP_PARENT_0 [simp]: "HEAP_PARENT 0 = 0"
  by (simp add: HEAP_PARENT_def)

lemma parent_child: "0 < c \<and> HEAP_PARENT c = s \<longleftrightarrow> c = HEAP_LEFT s \<or> c = HEAP_LEFT s + 1"
  unfolding HEAP_PARENT_def HEAP_LEFT_def by presburger

lemma HEAP_PARENT_bound [simp]: "s < n \<Longrightarrow> HEAP_PARENT s < n"
  by (auto simp: HEAP_PARENT_def)

lemma HEAP_PARENT_neq [simp]:
  "0 < s \<Longrightarrow> HEAP_PARENT s \<noteq> s" "0 < s \<Longrightarrow> s \<noteq> HEAP_PARENT s"
  using HEAP_PARENT_less [of s] by auto

definition swap :: "'a list \<Rightarrow> nat \<Rightarrow> nat \<Rightarrow> 'a list" where
  "swap xs i j = xs[i := xs ! j, j := xs ! i]"

lemma length_swap [simp]: "length (swap xs i j) = length xs"
  by (simp add: swap_def)

lemma mset_swap_list: "i < length xs \<Longrightarrow> j < length xs \<Longrightarrow> mset (swap xs i j) = mset xs"
  unfolding swap_def by (metis mset_swap)

lemma nth_swap:
  "i < length xs \<Longrightarrow> j < length xs \<Longrightarrow> s < length xs \<Longrightarrow>
   swap xs i j ! s = (if s = j then xs ! i else if s = i then xs ! j else xs ! s)"
  by (auto simp: swap_def nth_list_update)

definition heap_ordered :: "('a \<Rightarrow> 'b::linorder) \<Rightarrow> 'a list \<Rightarrow> bool" where
  "heap_ordered k xs \<longleftrightarrow> (\<forall>s<length xs. k (xs ! HEAP_PARENT s) \<le> k (xs ! s))"

function sift_up :: "('a \<Rightarrow> 'b::linorder) \<Rightarrow> 'a list \<Rightarrow> nat \<Rightarrow> 'a list" where
  "sift_up k xs s =
     (if s > 0 \<and> k (xs ! s) < k (xs ! HEAP_PARENT s)
      then sift_up k (swap xs s (HEAP_PARENT s)) (HEAP_PARENT s) else xs)"
  by pat_completeness auto
termination
  by (relation "measure (\<lambda>(k, xs, s). s)") (auto intro: HEAP_PARENT_less)

definition smaller_child :: "('a \<Rightarrow> 'b::linorder) \<Rightarrow> 'a list \<Rightarrow> nat \<Rightarrow> nat" where
  "smaller_child k xs s =
     (let c = HEAP_LEFT s in if c + 1 < length xs \<and> k (xs ! (c + 1)) < k (xs ! c) then c + 1 else c)"

lemma smaller_child_gt: "s < smaller_child k xs s"
  by (simp add: smaller_child_def HEAP_LEFT_def Let_def)

function sift_down :: "('a \<Rightarrow> 'b::linorder) \<Rightarrow> 'a list \<Rightarrow> nat \<Rightarrow> 'a list" where
  "sift_down k xs s =
     (if HEAP_LEFT s < length xs \<and> k (xs ! smaller_child k xs s) < k (xs ! s)
      then sift_down k (swap xs s (smaller_child k xs s)) (smaller_child k xs s) else xs)"
  by pat_completeness auto
termination
proof (relation "measure (\<lambda>(k, xs, s). length xs - s)")
  fix k :: "'a \<Rightarrow> 'b" and xs :: "'a list" and s
  assume "HEAP_LEFT s < length xs \<and> k (xs ! smaller_child k xs s) < k (xs ! s)"
  moreover have "s < smaller_child k xs s" by (rule smaller_child_gt)
  moreover have "HEAP_LEFT s > s" by (simp add: HEAP_LEFT_def)
  ultimately show "((k, swap xs s (smaller_child k xs s), smaller_child k xs s), (k, xs, s))
      \<in> measure (\<lambda>(k, xs, s). length xs - s)"
    by (simp add: diff_less_mono2)
qed simp

declare sift_up.simps [simp del] sift_down.simps [simp del]

lemma smaller_child_less: "HEAP_LEFT s < length xs \<Longrightarrow> smaller_child k xs s < length xs"
  by (simp add: smaller_child_def Let_def)

lemma smaller_child_parent: "HEAP_PARENT (smaller_child k xs s) = s"
  using parent_child [of "HEAP_LEFT s" s] parent_child [of "HEAP_LEFT s + 1" s]
  by (simp add: smaller_child_def Let_def)

lemma smaller_child_least:
  assumes "0 < c" "HEAP_PARENT c = s" "c < length xs"
  shows "k (xs ! smaller_child k xs s) \<le> k (xs ! c)"
  using assms parent_child [of c s] by (auto simp: smaller_child_def Let_def)

section \<open>Sifting up\<close>

text \<open>Ordered except between \<open>s\<close> and its parent; the children of \<open>s\<close> are above its parent.\<close>

definition up_inv :: "('a \<Rightarrow> 'b::linorder) \<Rightarrow> 'a list \<Rightarrow> nat \<Rightarrow> bool" where
  "up_inv k xs s \<longleftrightarrow> s < length xs \<and>
     (\<forall>t<length xs. t \<noteq> s \<longrightarrow> k (xs ! HEAP_PARENT t) \<le> k (xs ! t)) \<and>
     (\<forall>c<length xs. 0 < c \<and> HEAP_PARENT c = s \<longrightarrow> k (xs ! HEAP_PARENT s) \<le> k (xs ! c))"

lemma sift_up_correct:
  "up_inv k xs s \<Longrightarrow> heap_ordered k (sift_up k xs s) \<and> mset (sift_up k xs s) = mset xs \<and>
     length (sift_up k xs s) = length xs"
proof (induction k xs s rule: sift_up.induct)
  case (1 k xs s)
  let ?p = "HEAP_PARENT s"
  have s: "s < length xs" and o: "\<And>t. t < length xs \<Longrightarrow> t \<noteq> s \<Longrightarrow> k (xs ! HEAP_PARENT t) \<le> k (xs ! t)"
    and c: "\<And>c. c < length xs \<Longrightarrow> 0 < c \<Longrightarrow> HEAP_PARENT c = s \<Longrightarrow> k (xs ! ?p) \<le> k (xs ! c)"
    using 1(2) by (auto simp: up_inv_def)
  show ?case
  proof (cases "s > 0 \<and> k (xs ! s) < k (xs ! ?p)")
    case True
    have p: "?p < s" "?p < length xs" using True s HEAP_PARENT_less [of s] by auto
    let ?ys = "swap xs s ?p"
    have pc: "HEAP_PARENT t < length xs" if "t < length xs" for t
      using that by simp
    have pt: "k (xs ! HEAP_PARENT ?p) \<le> k (xs ! ?p)" using o p by auto
    have "up_inv k ?ys ?p"
      unfolding up_inv_def
    proof (intro conjI allI impI)
      show "?p < length ?ys" using p by simp
    next
      fix t
      assume t: "t < length ?ys" "t \<noteq> ?p"
      show "k (?ys ! HEAP_PARENT t) \<le> k (?ys ! t)"
      proof (cases "t = s")
        case True
        then show ?thesis using p s \<open>s > 0 \<and> k (xs ! s) < k (xs ! ?p)\<close> by (simp add: nth_swap)
      next
        case False
        consider "HEAP_PARENT t = s" | "HEAP_PARENT t = ?p" | "HEAP_PARENT t \<noteq> s" "HEAP_PARENT t \<noteq> ?p" by blast
        then show ?thesis
        proof cases
          case 1
          then have "0 < t" using p by (cases "t = 0") auto
          then show ?thesis using 1 c [of t] t False s p by (simp add: nth_swap)
        next
          case 2
          then have "k (xs ! ?p) \<le> k (xs ! t)" using o [of t] t False by simp
          then show ?thesis using 2 t False s p True by (simp add: nth_swap)
        next
          case 3
          then show ?thesis using o [of t] t False s p pc [of t] by (simp add: nth_swap)
        qed
      qed
    next
      fix c'
      assume c': "c' < length ?ys" "0 < c' \<and> HEAP_PARENT c' = ?p"
      have pp: "HEAP_PARENT ?p \<noteq> ?p \<or> ?p = 0" using HEAP_PARENT_less [of ?p] by (cases "?p = 0") auto
      have ps: "HEAP_PARENT ?p \<noteq> s" using p HEAP_PARENT_less [of ?p] by (cases "?p = 0") auto
      have ne: "c' \<noteq> ?p" using c' HEAP_PARENT_less [of c'] by auto
      have xc: "k (xs ! ?p) \<le> k (xs ! c')" if "c' \<noteq> s" using o [of c'] c' that by simp
      show "k (?ys ! HEAP_PARENT ?p) \<le> k (?ys ! c')"
        using c' pp ps ne xc pt p s pc [of ?p] True
        by (cases "c' = s"; cases "?p = 0") (auto simp: nth_swap intro: order_trans)
    qed
    then have IH: "heap_ordered k (sift_up k ?ys ?p) \<and> mset (sift_up k ?ys ?p) = mset ?ys \<and>
        length (sift_up k ?ys ?p) = length ?ys"
      by (rule 1(1) [OF True])
    then show ?thesis using True s p mset_swap_list [of s xs ?p] by (simp add: sift_up.simps [of k xs])
  next
    case False
    have "heap_ordered k xs"
      unfolding heap_ordered_def
    proof (intro allI impI)
      fix t
      assume "t < length xs"
      then show "k (xs ! HEAP_PARENT t) \<le> k (xs ! t)" using o [of t] False by (cases "t = s") auto
    qed
    moreover have "sift_up k xs s = xs" using False by (subst sift_up.simps) (rule if_not_P)
    ultimately show ?thesis by simp
  qed
qed

section \<open>Sifting down\<close>

text \<open>Ordered except between \<open>s\<close> and its children, which are above its parent.\<close>

definition down_inv :: "('a \<Rightarrow> 'b::linorder) \<Rightarrow> 'a list \<Rightarrow> nat \<Rightarrow> bool" where
  "down_inv k xs s \<longleftrightarrow> s < length xs \<and>
     (\<forall>t<length xs. t = 0 \<or> HEAP_PARENT t \<noteq> s \<longrightarrow> k (xs ! HEAP_PARENT t) \<le> k (xs ! t)) \<and>
     (\<forall>c<length xs. 0 < c \<and> HEAP_PARENT c = s \<and> 0 < s \<longrightarrow> k (xs ! HEAP_PARENT s) \<le> k (xs ! c))"

lemma sift_down_correct:
  "down_inv k xs s \<Longrightarrow> heap_ordered k (sift_down k xs s) \<and> mset (sift_down k xs s) = mset xs \<and>
     length (sift_down k xs s) = length xs"
proof (induction k xs s rule: sift_down.induct)
  case (1 k xs s)
  let ?c = "smaller_child k xs s"
  have s: "s < length xs"
    and o: "\<And>t. t < length xs \<Longrightarrow> t = 0 \<or> HEAP_PARENT t \<noteq> s \<Longrightarrow> k (xs ! HEAP_PARENT t) \<le> k (xs ! t)"
    and g: "\<And>c. c < length xs \<Longrightarrow> 0 < c \<Longrightarrow> HEAP_PARENT c = s \<Longrightarrow> 0 < s \<Longrightarrow> k (xs ! HEAP_PARENT s) \<le> k (xs ! c)"
    using 1(2) by (auto simp: down_inv_def)
  show ?case
  proof (cases "HEAP_LEFT s < length xs \<and> k (xs ! ?c) < k (xs ! s)")
    case True
    have c: "?c < length xs" "s < ?c" "HEAP_PARENT ?c = s"
      using True smaller_child_less smaller_child_gt smaller_child_parent by auto
    let ?ys = "swap xs s ?c"
    have pc: "HEAP_PARENT t < length xs" if "t < length xs" for t
      using that by simp
    have "down_inv k ?ys ?c"
      unfolding down_inv_def
    proof (intro conjI allI impI)
      show "?c < length ?ys" using c by simp
    next
      fix t
      assume t: "t < length ?ys" and tc: "t = 0 \<or> HEAP_PARENT t \<noteq> ?c"
      have tl: "t < length xs" using t by simp
      have pt: "HEAP_PARENT t \<noteq> ?c" using tc c by (cases "t = 0") auto
      show "k (?ys ! HEAP_PARENT t) \<le> k (?ys ! t)"
      proof (cases "0 < t \<and> HEAP_PARENT t = s")
        case child: True
        then show ?thesis
          using True c tl s smaller_child_least [of t s xs k] by (cases "t = ?c") (auto simp: nth_swap)
      next
        case nc: False
        then have ok: "k (xs ! HEAP_PARENT t) \<le> k (xs ! t)" using o [OF tl] by auto
        have tn: "t \<noteq> ?c" using nc c by auto
        show ?thesis
        proof (cases "t = s")
          case ts: True
          show ?thesis
          proof (cases "s = 0")
            case True
            then show ?thesis using ts by simp
          next
            case s0: False
            have "HEAP_PARENT s \<noteq> s" using HEAP_PARENT_less [of s] s0 by simp
            then show ?thesis using ts g [of ?c] c s s0 pt pc [of s] by (simp add: nth_swap)
          qed
        next
          case False
          have "HEAP_PARENT t \<noteq> s" using nc False by (cases "t = 0") auto
          then show ?thesis using ok False tn pt tl s c pc [of t] by (simp add: nth_swap)
        qed
      qed
    next
      fix d
      assume d: "d < length ?ys" "0 < d \<and> HEAP_PARENT d = ?c \<and> 0 < ?c"
      have "d \<noteq> ?c" "d \<noteq> s" using d c HEAP_PARENT_less [of d] by auto
      moreover have "k (xs ! ?c) \<le> k (xs ! d)" using o [of d] d c by auto
      ultimately show "k (?ys ! HEAP_PARENT ?c) \<le> k (?ys ! d)" using c s d by (simp add: nth_swap)
    qed
    then have IH: "heap_ordered k (sift_down k ?ys ?c) \<and> mset (sift_down k ?ys ?c) = mset ?ys \<and>
        length (sift_down k ?ys ?c) = length ?ys"
      by (rule 1(1) [OF True])
    then show ?thesis using True s c mset_swap_list [of s xs ?c] by (simp add: sift_down.simps [of k xs])
  next
    case False
    have "heap_ordered k xs"
      unfolding heap_ordered_def
    proof (intro allI impI)
      fix t
      assume t: "t < length xs"
      show "k (xs ! HEAP_PARENT t) \<le> k (xs ! t)"
      proof (cases "0 < t \<and> HEAP_PARENT t = s")
        case True
        then have "HEAP_LEFT s \<le> t" using parent_child [of t s] by auto
        then have "k (xs ! s) \<le> k (xs ! ?c)" using False t by auto
        also have "\<dots> \<le> k (xs ! t)" using smaller_child_least [of t s xs k] True t by simp
        finally show ?thesis using True by simp
      next
        case False
        then show ?thesis using o [OF t] by auto
      qed
    qed
    moreover have "sift_down k xs s = xs" using False by (subst sift_down.simps) (rule if_not_P)
    ultimately show ?thesis by simp
  qed
qed

lemma heap_root_least:
  assumes "heap_ordered k xs"
  shows "s < length xs \<Longrightarrow> k (xs ! 0) \<le> k (xs ! s)"
proof (induction s rule: less_induct)
  case (less s)
  show ?case
  proof (cases "s = 0")
    case False
    then have "HEAP_PARENT s < s" by (simp add: HEAP_PARENT_less)
    then have "k (xs ! 0) \<le> k (xs ! HEAP_PARENT s)" using less by simp
    also have "\<dots> \<le> k (xs ! s)" using assms less(2) by (simp add: heap_ordered_def)
    finally show ?thesis .
  qed simp
qed

text \<open>
  Replacing the element at \<open>s\<close> of an ordered heap by \<open>m\<close> leaves it ready for sifting in
  the direction the comparison with the parent gives.
\<close>

lemma replace_down:
  assumes h: "heap_ordered k xs" and s: "s < length xs" and m: "k (xs[s := m] ! HEAP_PARENT s) \<le> k m"
  shows "down_inv k (xs[s := m]) s"
  unfolding down_inv_def
proof (intro conjI allI impI)
  show "s < length (xs[s := m])" using s by simp
next
  fix t
  assume t: "t < length (xs[s := m])" "t = 0 \<or> HEAP_PARENT t \<noteq> s"
  then show "k (xs[s := m] ! HEAP_PARENT t) \<le> k (xs[s := m] ! t)"
    using h m s by (cases "t = s"; cases "t = 0") (auto simp: heap_ordered_def nth_list_update)
next
  fix c
  assume c: "c < length (xs[s := m])" "0 < c \<and> HEAP_PARENT c = s \<and> 0 < s"
  have "k (xs ! HEAP_PARENT s) \<le> k (xs ! s)" "k (xs ! s) \<le> k (xs ! c)" "c \<noteq> s" "HEAP_PARENT s \<noteq> s"
    using h s c HEAP_PARENT_less [of c] HEAP_PARENT_less [of s] by (auto simp: heap_ordered_def)
  then show "k (xs[s := m] ! HEAP_PARENT s) \<le> k (xs[s := m] ! c)" using s c by simp
qed

lemma replace_up:
  assumes h: "heap_ordered k xs" and s: "s < length xs" and m: "k m \<le> k (xs ! HEAP_PARENT s)"
  shows "up_inv k (xs[s := m]) s"
  unfolding up_inv_def
proof (intro conjI allI impI)
  show "s < length (xs[s := m])" using s by simp
next
  fix t
  assume t: "t < length (xs[s := m])" "t \<noteq> s"
  have ok: "k (xs ! HEAP_PARENT t) \<le> k (xs ! t)" "k (xs ! HEAP_PARENT s) \<le> k (xs ! s)"
    using h t s by (auto simp: heap_ordered_def)
  then show "k (xs[s := m] ! HEAP_PARENT t) \<le> k (xs[s := m] ! t)"
    using t s m by (cases "HEAP_PARENT t = s") (auto simp: nth_list_update)
next
  fix c
  assume c: "c < length (xs[s := m])" "0 < c \<and> HEAP_PARENT c = s"
  have ne: "c \<noteq> s" using c HEAP_PARENT_less [of c] by auto
  have "k (xs ! HEAP_PARENT s) \<le> k (xs ! s)" "k (xs ! s) \<le> k (xs ! c)"
    using h s c by (auto simp: heap_ordered_def)
  then show "k (xs[s := m] ! HEAP_PARENT s) \<le> k (xs[s := m] ! c)"
    using s c ne m by (auto simp: nth_list_update)
qed

lemma append_up:
  assumes "heap_ordered k xs"
  shows "up_inv k (xs @ [m]) (length xs)"
proof -
  have "HEAP_PARENT c \<noteq> length xs" if "c < length (xs @ [m])" "0 < c" for c
    using that HEAP_PARENT_less [of c] by auto
  then show ?thesis
    using assms by (auto simp: up_inv_def heap_ordered_def nth_append less_Suc_eq)
qed

end
