(* ===== verification/Timer.thy ===== *)
theory Timer
  imports Timeval Sift
begin

text \<open>
  The timer heap of \<^verbatim>\<open>pjlib/src/pj/timer.c\<close> in its default build
  (\<^verbatim>\<open>PJ_TIMER_USE_COPY = 1\<close>, \<^verbatim>\<open>PJ_TIMER_USE_LINKED_LIST = 0\<close>): a binary heap of
  pointers to copies of the scheduled entries, an array that maps timer ids to heap slots or,
  negated, links the free ids, and the operations create, schedule, cancel and poll.

  The caller's timer entries and the reference counts of group locks are memory outside the
  heap, so the operations work on a \<open>timer_world\<close>: the heap, the entries by address, and
  the reference counts by lock.  A pointer \<^verbatim>\<open>&ht->timer_dups[i]\<close> is the index \<open>i\<close>;
  the null pointers that \<^verbatim>\<open>pj_pool_calloc\<close> leaves in unused heap slots are index 0,
  which is never a timer id.  Locking is left out: each operation holds the heap's lock from
  its first access to its last, except that \<^verbatim>\<open>pj_timer_heap_poll\<close> releases it around
  the callback, which is therefore an arbitrary function on the world.  The clock, the
  callback and the outcome of each allocation are parameters.
\<close>

record pj_timer_entry =
  te_id :: int
  te_user_data :: nat
  te_cb :: nat
  te_timer_id :: int

record pj_timer_entry_dup =
  td_dup :: pj_timer_entry
  td_entry :: nat
  td_timer_value :: pj_time_val
  td_grp_lock :: "nat option"

record pj_timer_heap =
  th_max_size :: nat
  th_cur_size :: nat
  th_max_entries_per_poll :: nat
  th_heap :: "nat list"
  th_timer_ids :: "int list"
  th_timer_dups :: "pj_timer_entry_dup list"
  th_timer_ids_freelist :: int

record timer_world =
  tw_ht :: pj_timer_heap
  tw_entries :: "nat \<Rightarrow> pj_timer_entry"
  tw_refs :: "nat \<Rightarrow> int"

definition DEFAULT_MAX_TIMED_OUT_PER_POLL :: nat where
  "DEFAULT_MAX_TIMED_OUT_PER_POLL = 64"

definition PJ_MAXINT32 :: int where "PJ_MAXINT32 = 0x7FFFFFFF"

text \<open>The copy a heap slot points to, and the time at which it expires.\<close>

abbreviation dup_at :: "pj_timer_heap \<Rightarrow> nat \<Rightarrow> pj_timer_entry_dup" where
  "dup_at ht p \<equiv> th_timer_dups ht ! p"

abbreviation value_at :: "pj_timer_heap \<Rightarrow> nat \<Rightarrow> pj_time_val" where
  "value_at ht p \<equiv> td_timer_value (dup_at ht p)"

abbreviation id_at :: "pj_timer_heap \<Rightarrow> nat \<Rightarrow> int" where
  "id_at ht p \<equiv> te_timer_id (td_dup (dup_at ht p))"

section \<open>Heap primitives\<close>

definition copy_node :: "pj_timer_heap \<Rightarrow> nat \<Rightarrow> nat \<Rightarrow> pj_timer_heap" where
  "copy_node ht slot moved_node =
     ht\<lparr>th_heap := (th_heap ht)[slot := moved_node],
        th_timer_ids := (th_timer_ids ht)[nat (id_at ht moved_node) := int slot]\<rparr>"

definition pop_freelist :: "pj_timer_heap \<Rightarrow> pj_timer_heap \<times> int" where
  "pop_freelist ht =
     (let new_id = th_timer_ids_freelist ht in
      (ht\<lparr>th_timer_ids_freelist := - (th_timer_ids ht ! nat new_id)\<rparr>, new_id))"

definition push_freelist :: "pj_timer_heap \<Rightarrow> int \<Rightarrow> pj_timer_heap" where
  "push_freelist ht old_id =
     ht\<lparr>th_timer_ids := (th_timer_ids ht)[nat old_id := - th_timer_ids_freelist ht],
        th_timer_ids_freelist := old_id\<rparr>"

lemma copy_node_fields [simp]:
  "th_cur_size (copy_node ht s m) = th_cur_size ht" "th_max_size (copy_node ht s m) = th_max_size ht"
  "th_timer_dups (copy_node ht s m) = th_timer_dups ht"
  "th_timer_ids_freelist (copy_node ht s m) = th_timer_ids_freelist ht"
  "th_max_entries_per_poll (copy_node ht s m) = th_max_entries_per_poll ht"
  "length (th_heap (copy_node ht s m)) = length (th_heap ht)"
  "length (th_timer_ids (copy_node ht s m)) = length (th_timer_ids ht)"
  by (simp_all add: copy_node_def)

function reheap_down :: "pj_timer_heap \<Rightarrow> nat \<Rightarrow> nat \<Rightarrow> nat \<Rightarrow> pj_timer_heap" where
  "reheap_down ht moved_node slot child =
     (if child < th_cur_size ht then
        (let child = (if child + 1 < th_cur_size ht \<and>
                         PJ_TIME_VAL_LT (value_at ht (th_heap ht ! (child + 1)))
                                        (value_at ht (th_heap ht ! child))
                      then child + 1 else child) in
         if PJ_TIME_VAL_LT (value_at ht (th_heap ht ! child)) (value_at ht moved_node)
         then reheap_down (copy_node ht slot (th_heap ht ! child)) moved_node child (HEAP_LEFT child)
         else copy_node ht slot moved_node)
      else copy_node ht slot moved_node)"
  by pat_completeness auto
termination
  by (relation "measure (\<lambda>(ht, m, slot, child). th_cur_size ht - child)")
    (auto simp: HEAP_LEFT_def split: if_splits)

function reheap_up :: "pj_timer_heap \<Rightarrow> nat \<Rightarrow> nat \<Rightarrow> nat \<Rightarrow> pj_timer_heap" where
  "reheap_up ht moved_node slot parent =
     (if slot > 0 \<and> PJ_TIME_VAL_LT (value_at ht moved_node) (value_at ht (th_heap ht ! parent))
      then reheap_up (copy_node ht slot (th_heap ht ! parent)) moved_node parent (HEAP_PARENT parent)
      else copy_node ht slot moved_node)"
  by pat_completeness auto
termination
proof (relation "measures [\<lambda>(ht, m, slot, parent). parent, \<lambda>(ht, m, slot, parent). slot]")
  fix ht :: pj_timer_heap and m slot parent :: nat
  assume "0 < slot \<and> PJ_TIME_VAL_LT (value_at ht m) (value_at ht (th_heap ht ! parent))"
  then show "((copy_node ht slot (th_heap ht ! parent), m, parent, HEAP_PARENT parent), ht, m, slot, parent)
      \<in> measures [\<lambda>(ht, m, slot, parent). parent, \<lambda>(ht, m, slot, parent). slot]"
    by (cases "parent = 0") (auto simp: HEAP_PARENT_less)
qed simp

declare reheap_down.simps [simp del] reheap_up.simps [simp del]

text \<open>
  \<^verbatim>\<open>remove_node\<close> also writes the caller's entry, unless that memory no longer holds the
  id the copy was scheduled with.
\<close>

definition set_entry_timer_id :: "timer_world \<Rightarrow> nat \<Rightarrow> int \<Rightarrow> timer_world" where
  "set_entry_timer_id w e i =
     w\<lparr>tw_entries := (tw_entries w)(e := (tw_entries w e)\<lparr>te_timer_id := i\<rparr>)\<rparr>"

definition remove_node :: "timer_world \<Rightarrow> nat \<Rightarrow> timer_world \<times> nat" where
  "remove_node w slot =
     (let ht = tw_ht w;
          removed_node = th_heap ht ! slot;
          ht = push_freelist ht (id_at ht removed_node);
          ht = ht\<lparr>th_cur_size := th_cur_size ht - 1\<rparr>;
          e = td_entry (dup_at ht removed_node);
          w = (if id_at ht removed_node \<noteq> te_timer_id (tw_entries w e) then w
               else set_entry_timer_id w e (- 1));
          ht = ht\<lparr>th_timer_dups := (th_timer_dups ht)[removed_node :=
                   (dup_at ht removed_node)\<lparr>td_dup := (td_dup (dup_at ht removed_node))\<lparr>te_timer_id := - 1\<rparr>\<rparr>]\<rparr>;
          ht = (if slot < th_cur_size ht then
                  (let moved_node = th_heap ht ! th_cur_size ht;
                       ht = copy_node ht slot moved_node;
                       parent = HEAP_PARENT slot in
                   if PJ_TIME_VAL_GTE (value_at ht moved_node) (value_at ht (th_heap ht ! parent))
                   then reheap_down ht moved_node slot (HEAP_LEFT slot)
                   else reheap_up ht moved_node slot parent)
                else ht) in
      (w\<lparr>tw_ht := ht\<rparr>, removed_node))"

text \<open>
  The three allocations of \<^verbatim>\<open>grow_heap\<close> succeed where \<open>mem\<close> says so; \<open>junk\<close>
  is the uninitialised memory of the new copies.
\<close>

definition grow_heap :: "(nat \<Rightarrow> bool) \<Rightarrow> pj_timer_entry_dup \<Rightarrow> pj_timer_heap \<Rightarrow> pj_timer_heap \<times> pj_status" where
  "grow_heap mem junk ht =
     (let new_size = th_max_size ht * 2;
          new_heap = take (th_cur_size ht) (th_heap ht) @ replicate (new_size - th_cur_size ht) 0 in
      if \<not> mem 0 then (ht, PJ_ENOMEM)
      else if \<not> mem 1 then (ht, PJ_ENOMEM)
      else
        (let ht = ht\<lparr>th_timer_dups := take (th_max_size ht) (th_timer_dups ht) @
                       replicate (new_size - th_max_size ht) junk,
                     th_heap := new_heap\<rparr> in
         if \<not> mem 2 then (ht, PJ_ENOMEM)
         else
           (ht\<lparr>th_timer_ids := take (th_max_size ht) (th_timer_ids ht) @
                 map (\<lambda>i. - (int i + 1)) [th_max_size ht..<new_size],
               th_max_size := new_size\<rparr>, PJ_SUCCESS)))"

definition insert_node ::
    "(nat \<Rightarrow> bool) \<Rightarrow> pj_timer_entry_dup \<Rightarrow> timer_world \<Rightarrow> nat \<Rightarrow> pj_time_val \<Rightarrow> timer_world \<times> pj_status" where
  "insert_node mem junk w new_node future_time =
     (let (ht, status) = (if th_cur_size (tw_ht w) + 2 \<ge> th_max_size (tw_ht w)
                          then grow_heap mem junk (tw_ht w) else (tw_ht w, PJ_SUCCESS)) in
      if status \<noteq> PJ_SUCCESS then (w\<lparr>tw_ht := ht\<rparr>, status)
      else
        (let timer_copy = nat (te_timer_id (tw_entries w new_node));
             ht = ht\<lparr>th_timer_dups := (th_timer_dups ht)[timer_copy :=
                      \<lparr>td_dup = tw_entries w new_node, td_entry = new_node,
                       td_timer_value = future_time, td_grp_lock = None\<rparr>]\<rparr>;
             ht = reheap_up ht timer_copy (th_cur_size ht) (HEAP_PARENT (th_cur_size ht));
             ht = ht\<lparr>th_cur_size := th_cur_size ht + 1\<rparr> in
         (w\<lparr>tw_ht := ht\<rparr>, PJ_SUCCESS)))"

definition schedule_entry ::
    "(nat \<Rightarrow> bool) \<Rightarrow> pj_timer_entry_dup \<Rightarrow> timer_world \<Rightarrow> nat \<Rightarrow> pj_time_val \<Rightarrow> timer_world \<times> pj_status" where
  "schedule_entry mem junk w entry future_time =
     (if th_cur_size (tw_ht w) < th_max_size (tw_ht w) then
        (let (ht, new_id) = pop_freelist (tw_ht w);
             w = set_entry_timer_id (w\<lparr>tw_ht := ht\<rparr>) entry new_id in
         insert_node mem junk w entry future_time)
      else (w, PJ_EOTHER (- 1)))"

section \<open>Public operations\<close>

definition pj_timer_heap_create :: "nat \<Rightarrow> pj_timer_entry_dup list \<Rightarrow> pj_timer_heap" where
  "pj_timer_heap_create size0 dups0 =
     (let size = size0 + 2 in
      \<lparr>th_max_size = size, th_cur_size = 0,
       th_max_entries_per_poll = DEFAULT_MAX_TIMED_OUT_PER_POLL,
       th_heap = replicate size 0, th_timer_ids = map (\<lambda>i. - (int i + 1)) [0..<size],
       th_timer_dups = dups0, th_timer_ids_freelist = 1\<rparr>)"

definition pj_timer_heap_set_max_timed_out_per_poll :: "pj_timer_heap \<Rightarrow> nat \<Rightarrow> pj_timer_heap \<times> nat" where
  "pj_timer_heap_set_max_timed_out_per_poll ht cnt =
     (ht\<lparr>th_max_entries_per_poll := cnt\<rparr>, th_max_entries_per_poll ht)"

definition pj_timer_entry_init :: "int \<Rightarrow> nat \<Rightarrow> nat \<Rightarrow> pj_timer_entry" where
  "pj_timer_entry_init id0 user_data cb =
     \<lparr>te_id = id0, te_user_data = user_data, te_cb = cb, te_timer_id = - 1\<rparr>"

definition pj_timer_entry_running :: "pj_timer_entry \<Rightarrow> bool" where
  "pj_timer_entry_running entry \<longleftrightarrow> te_timer_id entry \<ge> 1"

definition add_ref :: "timer_world \<Rightarrow> nat option \<Rightarrow> int \<Rightarrow> timer_world" where
  "add_ref w l n =
     (case l of None \<Rightarrow> w | Some g \<Rightarrow> w\<lparr>tw_refs := (tw_refs w)(g := tw_refs w g + n)\<rparr>)"

definition schedule_w_grp_lock ::
    "(nat \<Rightarrow> bool) \<Rightarrow> pj_timer_entry_dup \<Rightarrow> pj_time_val \<Rightarrow> timer_world \<Rightarrow> nat \<Rightarrow> pj_time_val \<Rightarrow> bool \<Rightarrow> int \<Rightarrow>
       nat option \<Rightarrow> timer_world \<times> pj_status" where
  "schedule_w_grp_lock mem junk now w entry delay set_id id_val grp_lock =
     (if te_cb (tw_entries w entry) = 0 then (w, PJ_EINVAL)
      else
        (let expires = PJ_TIME_VAL_ADD now delay in
         if pj_timer_entry_running (tw_entries w entry) then (w, PJ_EINVALIDOP)
         else
           (let (w, status) = schedule_entry mem junk w entry expires in
            if status = PJ_SUCCESS then
              (let timer_copy = nat (te_timer_id (tw_entries w entry));
                   ht = tw_ht w;
                   d = dup_at ht timer_copy;
                   d = (if set_id then d\<lparr>td_dup := (td_dup d)\<lparr>te_id := id_val\<rparr>\<rparr> else d);
                   w = (if set_id then w\<lparr>tw_entries := (tw_entries w)(entry :=
                          (tw_entries w entry)\<lparr>te_id := id_val\<rparr>)\<rparr> else w);
                   d = d\<lparr>td_grp_lock := grp_lock\<rparr>;
                   w = w\<lparr>tw_ht := ht\<lparr>th_timer_dups := (th_timer_dups ht)[timer_copy := d]\<rparr>\<rparr>
               in (add_ref w grp_lock 1, PJ_SUCCESS))
            else (w, status))))"

definition pj_timer_heap_schedule ::
    "(nat \<Rightarrow> bool) \<Rightarrow> pj_timer_entry_dup \<Rightarrow> pj_time_val \<Rightarrow> timer_world \<Rightarrow> nat \<Rightarrow> pj_time_val \<Rightarrow>
       timer_world \<times> pj_status" where
  "pj_timer_heap_schedule mem junk now w entry delay =
     schedule_w_grp_lock mem junk now w entry delay False 1 None"

definition pj_timer_heap_schedule_w_grp_lock ::
    "(nat \<Rightarrow> bool) \<Rightarrow> pj_timer_entry_dup \<Rightarrow> pj_time_val \<Rightarrow> timer_world \<Rightarrow> nat \<Rightarrow> pj_time_val \<Rightarrow> int \<Rightarrow>
       nat option \<Rightarrow> timer_world \<times> pj_status" where
  "pj_timer_heap_schedule_w_grp_lock mem junk now w entry delay id_val grp_lock =
     schedule_w_grp_lock mem junk now w entry delay True id_val grp_lock"

text \<open>
  The flag \<^verbatim>\<open>F_DONT_CALL\<close> is always set by the only caller, so the heap's close hook is
  never called; \<^verbatim>\<open>F_DONT_ASSERT\<close> only silences an assertion.
\<close>

definition cancel :: "timer_world \<Rightarrow> nat \<Rightarrow> timer_world \<times> int" where
  "cancel w entry =
     (let ht = tw_ht w;
          timer_node_slot = th_timer_ids ht ! nat (te_timer_id (tw_entries w entry)) in
      if timer_node_slot < 0 then (set_entry_timer_id w entry (- 1), 0)
      else if entry \<noteq> td_entry (dup_at ht (th_heap ht ! nat timer_node_slot))
      then (set_entry_timer_id w entry (- 1), 0)
      else (fst (remove_node w (nat timer_node_slot)), 1))"

definition cancel_timer :: "timer_world \<Rightarrow> nat \<Rightarrow> bool \<Rightarrow> int \<Rightarrow> timer_world \<times> int" where
  "cancel_timer w entry f_set_id id_val =
     (let tid = te_timer_id (tw_entries w entry) in
      if tid < 1 \<or> tid \<ge> int (th_max_size (tw_ht w)) then (w, 0)
      else
        (let grp_lock = td_grp_lock (dup_at (tw_ht w) (nat tid));
             (w, cnt) = cancel w entry in
         if cnt > 0 then
           (let w = (if f_set_id then w\<lparr>tw_entries := (tw_entries w)(entry :=
                       (tw_entries w entry)\<lparr>te_id := id_val\<rparr>)\<rparr> else w)
            in (add_ref w grp_lock (- 1), cnt))
         else (w, cnt)))"

definition pj_timer_heap_cancel :: "timer_world \<Rightarrow> nat \<Rightarrow> timer_world \<times> int" where
  "pj_timer_heap_cancel w entry = cancel_timer w entry False 0"

definition pj_timer_heap_cancel_if_active :: "timer_world \<Rightarrow> nat \<Rightarrow> int \<Rightarrow> timer_world \<times> int" where
  "pj_timer_heap_cancel_if_active w entry id_val = cancel_timer w entry True id_val"

text \<open>
  One timed-out entry: remove the root, and call its callback if the caller's memory still
  matches the copy.  The second result is the entry whose callback was called.
\<close>

definition poll_one :: "(nat \<Rightarrow> timer_world \<Rightarrow> timer_world) \<Rightarrow> timer_world \<Rightarrow> timer_world \<times> nat option" where
  "poll_one callback w =
     (let (w, node) = remove_node w 0;
          d = dup_at (tw_ht w) node;
          entry = td_entry d;
          grp_lock = td_grp_lock d;
          ht = tw_ht w;
          w = w\<lparr>tw_ht := ht\<lparr>th_timer_dups := (th_timer_dups ht)[node := d\<lparr>td_grp_lock := None\<rparr>]\<rparr>\<rparr>;
          valid = (te_cb (td_dup d) = te_cb (tw_entries w entry) \<and>
                   te_user_data (td_dup d) = te_user_data (tw_entries w entry));
          call = (valid \<and> te_cb (tw_entries w entry) \<noteq> 0);
          w = (if call then callback entry w else w);
          w = (if valid then add_ref w grp_lock (- 1) else w) in
      (w, if call then Some entry else None))"

text \<open>
  The polling loop: \<open>tick n\<close> is the \<open>n\<close>-th reading of the clock and \<open>tmin\<close>
  the code's \<^verbatim>\<open>min_time_node\<close>, which keeps its old value when the heap runs empty.
  The limit is read in every iteration, so a callback that keeps raising it could make the
  loop run forever: \<open>None\<close>.
\<close>

partial_function (option) poll_loop ::
    "(nat \<Rightarrow> timer_world \<Rightarrow> timer_world) \<Rightarrow> (nat \<Rightarrow> pj_time_val) \<Rightarrow> timer_world \<Rightarrow> nat \<Rightarrow>
       pj_time_val \<Rightarrow> pj_time_val \<Rightarrow> (timer_world \<times> nat \<times> pj_time_val \<times> nat list) option" where
  "poll_loop callback tick w cnt now tmin =
     (if th_cur_size (tw_ht w) \<noteq> 0 \<and> PJ_TIME_VAL_LTE tmin now \<and>
         cnt < th_max_entries_per_poll (tw_ht w) then
        (let (w, fired) = poll_one callback w;
             cnt = cnt + 1;
             (tmin, now) = (if th_cur_size (tw_ht w) \<noteq> 0
               then (value_at (tw_ht w) (th_heap (tw_ht w) ! 0), tick cnt) else (tmin, now)) in
         Option.bind (poll_loop callback tick w cnt now tmin)
           (\<lambda>(w, cnt, now, fs). Some (w, cnt, now, (case fired of None \<Rightarrow> fs | Some e \<Rightarrow> e # fs))))
      else Some (w, cnt, now, []))"

text \<open>
  The results are the number of entries removed, the delay until the next one and the
  entries called, in order.
\<close>

definition pj_timer_heap_poll ::
    "(nat \<Rightarrow> timer_world \<Rightarrow> timer_world) \<Rightarrow> (nat \<Rightarrow> pj_time_val) \<Rightarrow> timer_world \<Rightarrow>
       (timer_world \<times> nat \<times> pj_time_val \<times> nat list) option" where
  "pj_timer_heap_poll callback tick w =
     (if th_cur_size (tw_ht w) = 0 then Some (w, 0, Time_val PJ_MAXINT32 PJ_MAXINT32, [])
      else
        (let now = tick 0;
             tmin = value_at (tw_ht w) (th_heap (tw_ht w) ! 0) in
         map_option (\<lambda>(w, cnt, now, fired).
            (let next_delay =
               (if th_cur_size (tw_ht w) \<noteq> 0 then
                  (let now = (if cnt > 0 then tick (cnt + 1) else now);
                       d = PJ_TIME_VAL_SUB (value_at (tw_ht w) (th_heap (tw_ht w) ! 0)) now in
                   if tv_sec d < 0 \<or> tv_msec d < 0 then Time_val 0 0 else d)
                else Time_val PJ_MAXINT32 PJ_MAXINT32) in
             (w, cnt, next_delay, fired)))
           (poll_loop callback tick w 0 now tmin)))"

definition pj_timer_heap_count :: "pj_timer_heap \<Rightarrow> nat" where
  "pj_timer_heap_count ht = th_cur_size ht"

definition pj_timer_heap_earliest_time :: "pj_timer_heap \<Rightarrow> pj_status + pj_time_val" where
  "pj_timer_heap_earliest_time ht =
     (if th_cur_size ht = 0 then Inl PJ_ENOTFOUND else Inr (value_at ht (th_heap ht ! 0)))"

end
