(* ===== verification/Timer_Inv.thy ===== *)
theory Timer_Inv
  imports Timer
begin

text \<open>
  The invariant of the timer heap and its preservation: the heap order, the two-way link
  between timer ids and heap slots, and the free list of ids.  The hole-moving loops
  \<^verbatim>\<open>reheap_up\<close> and \<^verbatim>\<open>reheap_down\<close> are shown equal to sifting by swaps on the
  heap in which the moved node already sits in the hole.
\<close>

section \<open>Reheaping\<close>

definition pk :: "pj_timer_heap \<Rightarrow> nat \<Rightarrow> bool" where
  "pk ht p \<longleftrightarrow> p < length (th_timer_ids ht) \<and> id_at ht p = int p"

definition linked :: "pj_timer_heap \<Rightarrow> nat \<Rightarrow> nat \<Rightarrow> bool" where
  "linked ht s p \<longleftrightarrow> pk ht p \<and> th_timer_ids ht ! p = int s"

text \<open>A hole at \<open>slot\<close> among the first \<open>n\<close> slots, for the node \<open>m\<close>.\<close>

definition hole :: "pj_timer_heap \<Rightarrow> nat \<Rightarrow> nat \<Rightarrow> nat \<Rightarrow> bool" where
  "hole ht n slot m \<longleftrightarrow> n \<le> length (th_heap ht) \<and> slot < n \<and> pk ht m \<and>
     (\<forall>s<n. s \<noteq> slot \<longrightarrow> linked ht s (th_heap ht ! s) \<and> th_heap ht ! s \<noteq> m)"

definition plug :: "pj_timer_heap \<Rightarrow> nat \<Rightarrow> nat \<Rightarrow> nat \<Rightarrow> nat list" where
  "plug ht n slot m = (take n (th_heap ht))[slot := m]"

lemma pk_copy [simp]: "pk (copy_node ht s x) p = pk ht p"
  by (simp add: pk_def)

lemma length_plug: "n \<le> length (th_heap ht) \<Longrightarrow> length (plug ht n slot m) = n"
  by (simp add: plug_def)

lemma plug_nth:
  "n \<le> length (th_heap ht) \<Longrightarrow> slot < n \<Longrightarrow> s < n \<Longrightarrow>
   plug ht n slot m ! s = (if s = slot then m else th_heap ht ! s)"
  by (simp add: plug_def nth_list_update)

lemma hole_move:
  assumes h: "hole ht n slot m" and c: "c < n" "c \<noteq> slot"
  shows "hole (copy_node ht slot (th_heap ht ! c)) n c m"
    "plug (copy_node ht slot (th_heap ht ! c)) n c m = swap (plug ht n slot m) slot c"
proof -
  let ?x = "th_heap ht ! c"
  have lx: "linked ht c ?x" and sl: "slot < n" "n \<le> length (th_heap ht)" using h c by (auto simp: hole_def)
  have id: "nat (id_at ht ?x) = ?x" "?x < length (th_timer_ids ht)" using lx by (auto simp: linked_def pk_def)
  have ne: "th_heap ht ! s \<noteq> ?x" if "s < n" "s \<noteq> slot" "s \<noteq> c" for s
    using that h lx by (auto simp: hole_def linked_def)
  show "hole (copy_node ht slot ?x) n c m"
    unfolding hole_def
  proof (intro conjI allI impI)
    fix s
    assume s: "s < n" "s \<noteq> c"
    show "linked (copy_node ht slot ?x) s (th_heap (copy_node ht slot ?x) ! s)"
      using s h id sl lx ne [of s]
      by (cases "s = slot") (auto simp: copy_node_def linked_def pk_def hole_def)
    show "th_heap (copy_node ht slot ?x) ! s \<noteq> m"
      using s h sl c by (cases "s = slot") (auto simp: copy_node_def hole_def)
  qed (use h c sl in \<open>auto simp: hole_def\<close>)
  show "plug (copy_node ht slot ?x) n c m = swap (plug ht n slot m) slot c"
    using sl c by (simp add: swap_def plug_def copy_node_def take_update_swap list_update_overwrite)
qed

text \<open>The hole filled: every slot is linked and the heap is the plugged one.\<close>

lemma hole_fill:
  assumes h: "hole ht n slot m"
  shows "take n (th_heap (copy_node ht slot m)) = plug ht n slot m"
    "\<And>s. s < n \<Longrightarrow> linked (copy_node ht slot m) s (th_heap (copy_node ht slot m) ! s)"
    "\<And>p. p \<noteq> m \<Longrightarrow> th_timer_ids (copy_node ht slot m) ! p = th_timer_ids ht ! p"
proof -
  have sl: "slot < n" "n \<le> length (th_heap ht)" "pk ht m" using h by (auto simp: hole_def)
  show "take n (th_heap (copy_node ht slot m)) = plug ht n slot m"
    by (simp add: plug_def copy_node_def take_update_swap)
  show "linked (copy_node ht slot m) s (th_heap (copy_node ht slot m) ! s)" if "s < n" for s
    using that sl h by (cases "s = slot") (auto simp: copy_node_def linked_def pk_def hole_def)
  show "th_timer_ids (copy_node ht slot m) ! p = th_timer_ids ht ! p" if "p \<noteq> m" for p
    using that sl by (simp add: copy_node_def pk_def)
qed

definition reheaped :: "pj_timer_heap \<Rightarrow> nat \<Rightarrow> nat list \<Rightarrow> nat list \<Rightarrow> pj_timer_heap \<Rightarrow> bool" where
  "reheaped ht n xs ys ht' \<longleftrightarrow> take n (th_heap ht') = ys \<and>
     (\<forall>s<n. linked ht' s (th_heap ht' ! s)) \<and>
     (\<forall>p. p \<notin> set xs \<longrightarrow> th_timer_ids ht' ! p = th_timer_ids ht ! p) \<and>
     th_cur_size ht' = th_cur_size ht \<and> th_max_size ht' = th_max_size ht \<and>
     th_timer_dups ht' = th_timer_dups ht \<and> th_timer_ids_freelist ht' = th_timer_ids_freelist ht \<and>
     th_max_entries_per_poll ht' = th_max_entries_per_poll ht \<and>
     length (th_heap ht') = length (th_heap ht) \<and> length (th_timer_ids ht') = length (th_timer_ids ht)"

lemma set_plug: "n \<le> length (th_heap ht) \<Longrightarrow> slot < n \<Longrightarrow>
    m \<in> set (plug ht n slot m) \<and> (s < n \<longrightarrow> s \<noteq> slot \<longrightarrow> th_heap ht ! s \<in> set (plug ht n slot m))"
  using plug_nth [of n ht slot slot m] plug_nth [of n ht slot s m] length_plug [of n ht slot m]
  by (metis nth_mem)

lemma reheaped_fill:
  assumes h: "hole ht n slot m"
  shows "reheaped ht n (plug ht n slot m) (plug ht n slot m) (copy_node ht slot m)"
proof -
  have "p \<noteq> m" if "p \<notin> set (plug ht n slot m)" for p
    using that set_plug [of n ht slot m] h by (auto simp: hole_def)
  then show ?thesis using hole_fill [OF h] by (simp add: reheaped_def)
qed

lemma reheaped_move:
  assumes h: "hole ht n slot m" and c: "c < n" "c \<noteq> slot"
    and r: "reheaped (copy_node ht slot (th_heap ht ! c)) n (swap (plug ht n slot m) slot c) ys ht'"
  shows "reheaped ht n (plug ht n slot m) ys ht'"
proof -
  have b: "slot < n" "n \<le> length (th_heap ht)" using h by (auto simp: hole_def)
  have s: "set (swap (plug ht n slot m) slot c) = set (plug ht n slot m)"
    using mset_swap_list [of slot "plug ht n slot m" c] b c length_plug [of n ht] by (metis mset_eq_setD)
  have x: "th_heap ht ! c \<in> set (plug ht n slot m)" using set_plug b c by blast
  have id: "nat (id_at ht (th_heap ht ! c)) = th_heap ht ! c"
    using h c by (auto simp: hole_def linked_def pk_def)
  have "th_timer_ids (copy_node ht slot (th_heap ht ! c)) ! p = th_timer_ids ht ! p"
    if np: "p \<notin> set (plug ht n slot m)" for p
  proof -
    have "th_heap ht ! c \<noteq> p" using np x by auto
    then show ?thesis by (simp add: copy_node_def id)
  qed
  then show ?thesis using r unfolding reheaped_def s by simp
qed

lemma reheap_up_spec:
  "hole ht n slot m \<Longrightarrow> parent = HEAP_PARENT slot \<Longrightarrow>
   reheaped ht n (plug ht n slot m) (sift_up (value_at ht) (plug ht n slot m) slot)
     (reheap_up ht m slot parent)"
proof (induction ht m slot parent rule: reheap_up.induct)
  case (1 ht m slot parent)
  note h = 1(2)
  have b: "slot < n" "n \<le> length (th_heap ht)" using h by (auto simp: hole_def)
  have V: "plug ht n slot m ! slot = m" using b plug_nth [of n ht slot slot m] by simp
  have P: "plug ht n slot m ! parent = th_heap ht ! parent" if "slot > 0"
    using that b plug_nth [of n ht slot parent m] 1(3) by simp
  let ?c = "slot > 0 \<and> value_at ht m < value_at ht (th_heap ht ! parent)"
  show ?case
  proof (cases ?c)
    case True
    have c: "parent < n" "parent \<noteq> slot" using True 1(3) b by auto
    note M = hole_move [OF h c]
    have "reheaped (copy_node ht slot (th_heap ht ! parent)) n (swap (plug ht n slot m) slot parent)
        (sift_up (value_at ht) (swap (plug ht n slot m) slot parent) parent)
        (reheap_up (copy_node ht slot (th_heap ht ! parent)) m parent (HEAP_PARENT parent))"
      using 1(1) [OF _ M(1) refl] True unfolding M(2) by simp
    from reheaped_move [OF h c this]
    show ?thesis
      using True V P 1(3) by (simp add: reheap_up.simps [of ht] sift_up.simps [of "value_at ht" "plug ht n slot m"])
  next
    case False
    have "sift_up (value_at ht) (plug ht n slot m) slot = plug ht n slot m"
      using False V P 1(3) by (subst sift_up.simps) auto
    moreover have "reheap_up ht m slot parent = copy_node ht slot m"
      using False by (subst reheap_up.simps) auto
    ultimately show ?thesis using reheaped_fill [OF h] by simp
  qed
qed

lemma reheap_up_cur: "th_cur_size (reheap_up ht m s p) = th_cur_size ht"
  by (induction ht m s p rule: reheap_up.induct) (simp add: reheap_up.simps)

lemma reheap_down_spec:
  "hole ht n slot m \<Longrightarrow> child = HEAP_LEFT slot \<Longrightarrow> n = th_cur_size ht \<Longrightarrow>
   reheaped ht n (plug ht n slot m) (sift_down (value_at ht) (plug ht n slot m) slot)
     (reheap_down ht m slot child)"
proof (induction ht m slot child rule: reheap_down.induct)
  case (1 ht m slot child)
  note h = 1(2)
  let ?V = "plug ht n slot m"
  have b: "slot < n" "n \<le> length (th_heap ht)" using h by (auto simp: hole_def)
  have lV: "length ?V = n" using b by (simp add: length_plug)
  have V: "?V ! slot = m" using b plug_nth [of n ht slot slot m] by simp
  have P: "?V ! c = th_heap ht ! c" if "slot < c" "c < n" for c
    using that b plug_nth [of n ht slot c m] by simp
  have sc: "slot < child" using 1(3) by (simp add: HEAP_LEFT_def)
  define c where "c = (if child + 1 < th_cur_size ht \<and>
      PJ_TIME_VAL_LT (value_at ht (th_heap ht ! (child + 1))) (value_at ht (th_heap ht ! child))
      then child + 1 else child)"
  have cs: "c = smaller_child (value_at ht) ?V slot" if "child < n"
    using that sc P [of child] P [of "child + 1"] 1(3,4) lV
    by (auto simp: c_def smaller_child_def Let_def)
  have cb: "slot < c" "child < n \<Longrightarrow> c < n" using sc 1(4) by (auto simp: c_def)
  show ?case
  proof (cases "child < n \<and> value_at ht (th_heap ht ! c) < value_at ht m")
    case True
    have cc: "c < n" "c \<noteq> slot" using cb True by auto
    note M = hole_move [OF h cc]
    have "reheaped (copy_node ht slot (th_heap ht ! c)) n (swap ?V slot c)
        (sift_down (value_at ht) (swap ?V slot c) c)
        (reheap_down (copy_node ht slot (th_heap ht ! c)) m c (HEAP_LEFT c))"
      using 1(1) [OF _ c_def _ M(1) refl] True 1(4) unfolding M(2) by simp
    from reheaped_move [OF h cc this]
    have r: "reheaped ht n ?V (sift_down (value_at ht) (swap ?V slot c) c)
        (reheap_down (copy_node ht slot (th_heap ht ! c)) m c (HEAP_LEFT c))" .
    have "sift_down (value_at ht) ?V slot = sift_down (value_at ht) (swap ?V slot c) c"
      using True V P [OF cb(1) cc(1)] cs 1(3) lV by (subst sift_down.simps) simp
    moreover have "reheap_down ht m slot child =
        reheap_down (copy_node ht slot (th_heap ht ! c)) m c (HEAP_LEFT c)"
      using True 1(4) by (subst reheap_down.simps) (simp add: c_def [symmetric, simplified])
    ultimately show ?thesis using r by simp
  next
    case False
    have "sift_down (value_at ht) ?V slot = ?V"
      using False V P [OF cb(1)] cb cs 1(3) lV by (subst sift_down.simps) auto
    moreover have "reheap_down ht m slot child = copy_node ht slot m"
      using False 1(4) by (subst reheap_down.simps) (auto simp: c_def Let_def)
    ultimately show ?thesis using reheaped_fill [OF h] by simp
  qed
qed

section \<open>The heap invariant\<close>

text \<open>The free ids in the order of the list that starts at \<open>f\<close>; the end is the size \<open>n\<close>.\<close>

fun fchain :: "int list \<Rightarrow> int \<Rightarrow> nat list \<Rightarrow> nat \<Rightarrow> bool" where
  "fchain ids f [] n = (f = int n)"
| "fchain ids f (x # xs) n = (f = int x \<and> fchain ids (- (ids ! x)) xs n)"

lemma fchain_cong:
  "(\<And>x. x \<in> set fs \<Longrightarrow> ids' ! x = ids ! x) \<Longrightarrow> fchain ids' f fs n = fchain ids f fs n"
  by (induction fs arbitrary: f) auto

definition live :: "pj_timer_heap \<Rightarrow> nat list" where
  "live ht = take (th_cur_size ht) (th_heap ht)"

definition th_ok :: "pj_timer_heap \<Rightarrow> bool" where
  "th_ok ht \<longleftrightarrow>
     length (th_heap ht) = th_max_size ht \<and> length (th_timer_ids ht) = th_max_size ht \<and>
     length (th_timer_dups ht) = th_max_size ht \<and> th_cur_size ht + 1 < th_max_size ht \<and>
     (\<forall>s<th_cur_size ht. 0 < th_heap ht ! s \<and> linked ht s (th_heap ht ! s)) \<and>
     heap_ordered (value_at ht) (live ht) \<and>
     (\<exists>fs. fchain (th_timer_ids ht) (th_timer_ids_freelist ht) fs (th_max_size ht) \<and> distinct fs \<and>
        set fs = {1..<th_max_size ht} - set (live ht))"

lemma th_okD:
  assumes "th_ok ht"
  shows "length (th_heap ht) = th_max_size ht" "length (th_timer_ids ht) = th_max_size ht"
    "length (th_timer_dups ht) = th_max_size ht" "th_cur_size ht + 1 < th_max_size ht"
    "\<And>s. s < th_cur_size ht \<Longrightarrow> 0 < th_heap ht ! s \<and> linked ht s (th_heap ht ! s)"
    "heap_ordered (value_at ht) (live ht)" "length (live ht) = th_cur_size ht"
  using assms by (auto simp: th_ok_def live_def)

lemma live_nth: "s < th_cur_size ht \<Longrightarrow> live ht ! s = th_heap ht ! s"
  by (simp add: live_def)

lemma distinct_live:
  assumes "th_ok ht"
  shows "distinct (live ht)"
proof -
  have "s = t" if "s < th_cur_size ht" "t < th_cur_size ht" "th_heap ht ! s = th_heap ht ! t" for s t
    using th_okD(5) [OF assms that(1)] th_okD(5) [OF assms that(2)] that(3) by (auto simp: linked_def)
  then show ?thesis
    using th_okD(7) [OF assms] by (auto simp: distinct_conv_nth live_nth)
qed

lemma live_member:
  assumes "th_ok ht"
  shows "p \<in> set (live ht) \<longleftrightarrow> (\<exists>s<th_cur_size ht. th_heap ht ! s = p)"
  using th_okD(7) [OF assms] by (auto simp: in_set_conv_nth live_nth)

lemma live_range:
  assumes "th_ok ht" "p \<in> set (live ht)"
  shows "0 < p" "p < th_max_size ht" "id_at ht p = int p"
proof -
  obtain s where "s < th_cur_size ht" "th_heap ht ! s = p" using assms live_member by blast
  then show "0 < p" "p < th_max_size ht" "id_at ht p = int p"
    using th_okD(5) [OF assms(1), of s] th_okD(2) [OF assms(1)] by (auto simp: linked_def pk_def)
qed

lemma free_negative:
  assumes "th_ok ht" "p \<in> {1..<th_max_size ht} - set (live ht)"
  shows "th_timer_ids ht ! p < 0"
proof -
  obtain fs where c: "fchain (th_timer_ids ht) (th_timer_ids_freelist ht) fs (th_max_size ht)"
    and s: "set fs = {1..<th_max_size ht} - set (live ht)"
    using assms(1) by (auto simp: th_ok_def)
  have "fchain ids f xs n \<Longrightarrow> (\<forall>x\<in>set xs. 0 < x) \<Longrightarrow> 0 < n \<Longrightarrow> x \<in> set xs \<Longrightarrow> ids ! x < 0" for ids f xs n x
  proof (induction xs arbitrary: f)
    case (Cons y ys)
    have "0 < - (ids ! y)" using Cons.prems by (cases ys) auto
    then show ?case using Cons by auto
  qed simp
  from this [OF c] show ?thesis using assms s th_okD(4) [OF assms(1)] by auto
qed

text \<open>
  An entry of \<^verbatim>\<open>timer_ids\<close> in range is the slot of a live timer or negative.
\<close>

lemma timer_id_lookup:
  assumes "th_ok ht" "1 \<le> i" "i < int (th_max_size ht)"
  shows "0 \<le> th_timer_ids ht ! nat i \<longleftrightarrow> nat i \<in> set (live ht)"
    "nat i \<in> set (live ht) \<Longrightarrow>
       nat (th_timer_ids ht ! nat i) < th_cur_size ht \<and> th_heap ht ! nat (th_timer_ids ht ! nat i) = nat i"
proof -
  have r: "nat i \<in> {1..<th_max_size ht}" using assms by auto
  show "nat (th_timer_ids ht ! nat i) < th_cur_size ht \<and> th_heap ht ! nat (th_timer_ids ht ! nat i) = nat i"
    if l: "nat i \<in> set (live ht)"
  proof -
    obtain s where s: "s < th_cur_size ht" "th_heap ht ! s = nat i" using l live_member [OF assms(1)] by blast
    then have "th_timer_ids ht ! nat i = int s" using th_okD(5) [OF assms(1) s(1)] by (simp add: linked_def)
    then show ?thesis using s by simp
  qed
  show "0 \<le> th_timer_ids ht ! nat i \<longleftrightarrow> nat i \<in> set (live ht)"
    using free_negative [OF assms(1), of "nat i"] r th_okD(5) [OF assms(1)] live_member [OF assms(1), of "nat i"]
    by (force simp: linked_def)
qed

section \<open>Removing a node\<close>

lemma distinct_mset_minus_singleton_set:
  "distinct xs \<Longrightarrow> mset ys = mset xs - {#p#} \<Longrightarrow> set ys = set xs - {p}"
  by (metis distinct_remove1_removeAll mset_eq_setD mset_remove1 set_removeAll)


lemma heap_ordered_take: "heap_ordered k xs \<Longrightarrow> heap_ordered k (take n xs)"
  by (auto simp: heap_ordered_def)

lemma heap_ordered_cong:
  "(\<And>p. p \<in> set xs \<Longrightarrow> k p = k' p) \<Longrightarrow> heap_ordered k xs = heap_ordered k' xs"
  by (auto simp: heap_ordered_def)

text \<open>
  The heap of \<^verbatim>\<open>remove_node\<close> after the id has been freed and the copy marked, before the
  last node is moved.
\<close>

definition freed :: "pj_timer_heap \<Rightarrow> nat \<Rightarrow> pj_timer_heap" where
  "freed ht p =
     ht\<lparr>th_timer_ids := (th_timer_ids ht)[p := - th_timer_ids_freelist ht],
        th_timer_ids_freelist := int p, th_cur_size := th_cur_size ht - 1,
        th_timer_dups := (th_timer_dups ht)[p := (dup_at ht p)\<lparr>td_dup := (td_dup (dup_at ht p))\<lparr>te_timer_id := - 1\<rparr>\<rparr>]\<rparr>"

definition refill :: "pj_timer_heap \<Rightarrow> nat \<Rightarrow> pj_timer_heap" where
  "refill ht slot =
     (if slot < th_cur_size ht then
        (let moved_node = th_heap ht ! th_cur_size ht;
             ht = copy_node ht slot moved_node;
             parent = HEAP_PARENT slot in
         if PJ_TIME_VAL_GTE (value_at ht moved_node) (value_at ht (th_heap ht ! parent))
         then reheap_down ht moved_node slot (HEAP_LEFT slot)
         else reheap_up ht moved_node slot parent)
      else ht)"

lemma remove_node_eq:
  assumes "th_ok (tw_ht w)" "slot < th_cur_size (tw_ht w)"
    "p = th_heap (tw_ht w) ! slot" "e = td_entry (dup_at (tw_ht w) p)"
  shows "remove_node w slot =
    ((if te_timer_id (tw_entries w e) = int p then set_entry_timer_id w e (- 1) else w)
       \<lparr>tw_ht := refill (freed (tw_ht w) p) slot\<rparr>, p)"
proof -
  have "id_at (tw_ht w) p = int p" using th_okD(5) [OF assms(1,2)] assms(3) by (auto simp: linked_def pk_def)
  then show ?thesis
    by (auto simp: remove_node_def Let_def push_freelist_def freed_def refill_def
        assms(3) [symmetric] assms(4) [symmetric] set_entry_timer_id_def)
qed

lemma freed_dup:
  "q \<noteq> p \<Longrightarrow> dup_at (freed ht p) q = dup_at ht q"
  "td_timer_value (dup_at (freed ht p) q) = td_timer_value (dup_at ht q)"
  "td_entry (dup_at (freed ht p) q) = td_entry (dup_at ht q)"
  "td_grp_lock (dup_at (freed ht p) q) = td_grp_lock (dup_at ht q)"
  "te_cb (td_dup (dup_at (freed ht p) q)) = te_cb (td_dup (dup_at ht q))"
  "te_user_data (td_dup (dup_at (freed ht p) q)) = te_user_data (td_dup (dup_at ht q))"
proof -
  have "dup_at (freed ht p) q = dup_at ht q \<or>
      dup_at (freed ht p) q = (dup_at ht q)\<lparr>td_dup := (td_dup (dup_at ht q))\<lparr>te_timer_id := - 1\<rparr>\<rparr>"
    by (cases "q = p"; cases "p < length (th_timer_dups ht)") (simp_all add: freed_def list_update_beyond)
  then show "td_timer_value (dup_at (freed ht p) q) = td_timer_value (dup_at ht q)"
    "td_entry (dup_at (freed ht p) q) = td_entry (dup_at ht q)"
    "td_grp_lock (dup_at (freed ht p) q) = td_grp_lock (dup_at ht q)"
    "te_cb (td_dup (dup_at (freed ht p) q)) = te_cb (td_dup (dup_at ht q))"
    "te_user_data (td_dup (dup_at (freed ht p) q)) = te_user_data (td_dup (dup_at ht q))"
    by auto
qed (simp add: freed_def)

text \<open>
  Freeing the id of the node in a slot and refilling the slot with the last node keeps the
  heap well formed and removes exactly that node.
\<close>

lemma refill_freed:
  assumes ok: "th_ok ht" and s: "slot < th_cur_size ht" and p: "p = th_heap ht ! slot"
    and r: "ht' = refill (freed ht p) slot"
  shows "th_ok ht'" "mset (live ht') = mset (live ht) - {#p#}" "th_timer_dups ht' = th_timer_dups (freed ht p)"
    "th_max_size ht' = th_max_size ht" "th_cur_size ht' = th_cur_size ht - 1"
    "th_max_entries_per_poll ht' = th_max_entries_per_poll ht"
proof -
  note O = th_okD [OF ok]
  define n where "n = th_cur_size ht - 1"
  define f where "f = freed ht p"
  have pl: "p \<in> set (live ht)" using s p live_member [OF ok] by blast
  note pr = live_range [OF ok pl]
  have n: "n < th_cur_size ht" "n < th_max_size ht" "slot \<le> n" using s O(4) by (auto simp: n_def)
  have ff: "th_heap f = th_heap ht" "th_cur_size f = n" "th_max_size f = th_max_size ht"
    "th_timer_ids_freelist f = int p" "th_max_entries_per_poll f = th_max_entries_per_poll ht"
    "length (th_timer_ids f) = th_max_size ht" "length (th_timer_dups f) = th_max_size ht"
    "th_timer_ids f = (th_timer_ids ht)[p := - th_timer_ids_freelist ht]"
    using O by (simp_all add: f_def freed_def n_def)
  have pk: "pk f q" if "pk ht q" "q \<noteq> p" for q
    using that O by (simp add: pk_def f_def freed_dup(1)) (simp add: freed_def)
  have lk: "linked f t (th_heap ht ! t)" "th_heap ht ! t \<noteq> p" if "t < th_cur_size ht" "t \<noteq> slot" for t
  proof -
    have lt: "linked ht t (th_heap ht ! t)" and ls: "linked ht slot p" using O(5) that(1) s p by auto
    then show np: "th_heap ht ! t \<noteq> p" using that by (auto simp: linked_def)
    show "linked f t (th_heap ht ! t)" using lt np pk by (simp add: linked_def ff)
  qed
  have kf: "value_at f q = value_at ht q" for q by (simp add: f_def freed_dup)
  have ho: "heap_ordered (value_at f) (take n (th_heap ht))"
  proof -
    have "heap_ordered (value_at ht) (take n (live ht))" by (rule heap_ordered_take [OF O(6)])
    then show ?thesis using n by (simp add: live_def min_def kf)
  qed
  have lv: "live ht = take n (th_heap ht) @ [th_heap ht ! n]"
    using n O(1) by (simp add: live_def n_def take_Suc_conv_app_nth [symmetric])
  have main: "heap_ordered (value_at ht) (take n (th_heap ht')) \<and>
      mset (take n (th_heap ht')) = mset (live ht) - {#p#} \<and>
      (\<forall>t<n. linked ht' t (th_heap ht' ! t)) \<and>
      (\<forall>q. q \<notin> set (live ht) - {p} \<longrightarrow> th_timer_ids ht' ! q = th_timer_ids f ! q) \<and>
      th_cur_size ht' = n \<and> th_max_size ht' = th_max_size ht \<and> th_timer_dups ht' = th_timer_dups f \<and>
      th_timer_ids_freelist ht' = int p \<and> th_max_entries_per_poll ht' = th_max_entries_per_poll ht \<and>
      length (th_heap ht') = th_max_size ht \<and> length (th_timer_ids ht') = th_max_size ht"
  proof (cases "slot < n")
    case False
    then have "slot = n" using n by simp
    moreover have "ht' = f" using False r ff by (simp add: refill_def f_def)
    ultimately show ?thesis
      using lk ho n ff O lv p by (auto simp: kf)
  next
    case True
    define m where "m = th_heap ht ! n"
    define g where "g = copy_node f slot m"
    have mn: "linked f n m" "m \<noteq> p" using lk [of n] True n by (simp_all add: m_def)
    have gm: "nat (id_at f m) = m" "m < th_max_size ht" using mn ff by (auto simp: linked_def pk_def)
    have g: "th_heap g = (th_heap ht)[slot := m]" "th_cur_size g = n" "th_timer_dups g = th_timer_dups f"
      "th_max_size g = th_max_size ht" "th_timer_ids g = (th_timer_ids f)[m := int slot]"
      "th_timer_ids_freelist g = int p" "th_max_entries_per_poll g = th_max_entries_per_poll ht"
      "length (th_timer_ids g) = th_max_size ht"
      using ff gm by (simp_all add: g_def) (simp_all add: copy_node_def gm ff)
    have kg: "value_at g q = value_at ht q" for q using kf by (simp add: g)
    have "th_heap ht ! t \<noteq> m" if "t < n" for t
      using that nth_eq_iff_index_eq [OF distinct_live [OF ok], of t n] n O(7)
        live_nth [of t ht] live_nth [of n ht]
      by (simp add: m_def)
    moreover have "pk g m" using mn by (simp add: linked_def g_def)
    moreover have "linked g t (th_heap ht ! t)" if "t < n" "t \<noteq> slot" "th_heap ht ! t \<noteq> m" for t
      using lk(1) [of t] that n by (simp add: linked_def g) (simp add: g_def)
    ultimately have hl: "hole g n slot m" using True n O(1) by (simp add: hole_def g)
    define xs where "xs = (take n (th_heap ht))[slot := m]"
    have pg: "plug g n slot m = xs" using True by (simp add: plug_def g xs_def take_update_swap)
    have lx: "length xs = n" "slot < length (take n (th_heap ht))" using n O(1) True by (simp_all add: xs_def)
    have mx: "mset xs = mset (live ht) - {#p#}"
      using mset_update [OF lx(2), of m] True lv p mn(2) diff_union_swap [of p m "mset (take n (th_heap ht))"]
      by (simp add: xs_def m_def)
    have sx: "set xs = set (live ht) - {p}"
      by (rule distinct_mset_minus_singleton_set [OF distinct_live [OF ok] mx])
    have xp: "xs ! HEAP_PARENT slot = th_heap g ! HEAP_PARENT slot"
      using True n O(1) by (simp add: xs_def g flip: take_update_swap)
    have fin: ?thesis if "reheaped g n xs ys ht'" "heap_ordered (value_at ht) ys \<and> mset ys = mset xs" for ys
    proof -
      have ids: "th_timer_ids ht' ! q = th_timer_ids f ! q" if "q \<notin> set (live ht) - {p}" for q
      proof -
        have "q \<notin> set xs" using that sx by simp
        moreover have "m \<in> set xs" using lx True by (simp add: xs_def set_update_memI)
        ultimately have "q \<noteq> m" "th_timer_ids ht' ! q = th_timer_ids g ! q"
          using \<open>reheaped g n xs ys ht'\<close> by (auto simp: reheaped_def)
        then show ?thesis by (simp add: g)
      qed
      have idl: "length (th_timer_ids g) = th_max_size ht" by (rule g(8))
      then show ?thesis using that ids mx O(1) by (simp add: reheaped_def g(2,3,4,6,7)) (simp add: g)
    qed
    show ?thesis
    proof (cases "value_at ht (th_heap g ! HEAP_PARENT slot) \<le> value_at ht m")
      case down: True
      have "ht' = reheap_down g m slot (HEAP_LEFT slot)"
        using r True down ff(1,2) kf by (simp add: refill_def f_def [symmetric] m_def [symmetric] g_def [symmetric] Let_def)
      then have R: "reheaped g n xs (sift_down (value_at g) xs slot) ht'"
        using reheap_down_spec [OF hl refl] pg g(2) by simp
      have "down_inv (value_at ht) xs slot"
        unfolding xs_def
        by (rule replace_down) (use ho kf lx True down n O(1) xp in \<open>simp_all add: xs_def\<close>)
      then show ?thesis using fin [OF R] sift_down_correct [of "value_at ht" xs slot] by (simp add: kg)
    next
      case up: False
      have "ht' = reheap_up g m slot (HEAP_PARENT slot)"
        using r True up ff(1,2) kf by (simp add: refill_def f_def [symmetric] m_def [symmetric] g_def [symmetric] Let_def)
      then have R: "reheaped g n xs (sift_up (value_at g) xs slot) ht'"
        using reheap_up_spec [OF hl refl] pg by simp
      have s0: "0 < slot" using up True n O(1) by (cases "slot = 0") (auto simp: g)
      have "up_inv (value_at ht) xs slot"
        unfolding xs_def
        by (rule replace_up) (use ho kf lx True up n O(1) s0 in \<open>simp_all add: g\<close>)
      then show ?thesis using fin [OF R] sift_up_correct [of "value_at ht" xs slot] by (simp add: kg)
    qed
  qed
  have lv': "live ht' = take n (th_heap ht')" using main by (simp add: live_def)
  have sl: "set (live ht') = set (live ht) - {p}"
    by (rule distinct_mset_minus_singleton_set [OF distinct_live [OF ok]]) (use main lv' in simp)
  obtain fs where fs: "fchain (th_timer_ids ht) (th_timer_ids_freelist ht) fs (th_max_size ht)"
    "distinct fs" "set fs = {1..<th_max_size ht} - set (live ht)" using ok by (auto simp: th_ok_def)
  have "th_timer_ids ht' ! x = th_timer_ids ht ! x" if "x \<in> set fs" for x
  proof -
    have "x \<notin> set (live ht)" "x \<noteq> p" using that fs(3) pl by auto
    then show ?thesis using main ff(8) by simp
  qed
  then have "fchain (th_timer_ids ht') (th_timer_ids_freelist ht) fs (th_max_size ht)"
    using fchain_cong [of fs "th_timer_ids ht'" "th_timer_ids ht"] fs(1) by simp
  moreover have "th_timer_ids ht' ! p = - th_timer_ids_freelist ht" using main ff(8) pr O(2) by auto
  ultimately have ch: "fchain (th_timer_ids ht') (int p) (p # fs) (th_max_size ht)" by simp
  have dn: "distinct (p # fs)" "set (p # fs) = {1..<th_max_size ht} - set (live ht')"
    using fs pl pr sl by auto
  have kk: "value_at ht' q = value_at ht q" for q using main kf by simp
  have pos: "0 < th_heap ht' ! t" if "t < n" for t
  proof -
    have "th_heap ht' ! t \<in> set (live ht')" using that lv' main n by (simp add: in_set_conv_nth) (metis nth_take)
    then show ?thesis using sl live_range [OF ok] by auto
  qed
  have hk: "heap_ordered (value_at ht') (live ht')"
    using main lv' heap_ordered_cong [of "live ht'" "value_at ht'" "value_at ht"] kk by simp
  show "th_ok ht'"
    unfolding th_ok_def
  proof (intro conjI exI [of _ "p # fs"])
    show "fchain (th_timer_ids ht') (th_timer_ids_freelist ht') (p # fs) (th_max_size ht')"
      using main ch by metis
    show "set (p # fs) = {1..<th_max_size ht'} - set (live ht')" using main dn by metis
  qed (use main O(4) ff(7) hk dn(1) pos n in \<open>simp_all add: n_def\<close>)
  show "mset (live ht') = mset (live ht) - {#p#}" using main lv' by simp
  show "th_timer_dups ht' = th_timer_dups (freed ht p)" using main by (simp add: f_def)
  show "th_max_size ht' = th_max_size ht" "th_cur_size ht' = th_cur_size ht - 1"
    "th_max_entries_per_poll ht' = th_max_entries_per_poll ht" using main by (simp_all add: n_def)
qed

section \<open>Inserting a node\<close>

text \<open>The invariant with the ids in \<open>R\<close> taken from the free list but not yet in the heap.\<close>

definition th_core :: "pj_timer_heap \<Rightarrow> nat set \<Rightarrow> bool" where
  "th_core ht R \<longleftrightarrow>
     length (th_heap ht) = th_max_size ht \<and> length (th_timer_ids ht) = th_max_size ht \<and>
     length (th_timer_dups ht) = th_max_size ht \<and> th_cur_size ht + 1 < th_max_size ht \<and>
     (\<forall>s<th_cur_size ht. 0 < th_heap ht ! s \<and> linked ht s (th_heap ht ! s)) \<and>
     heap_ordered (value_at ht) (live ht) \<and>
     (\<exists>fs. fchain (th_timer_ids ht) (th_timer_ids_freelist ht) fs (th_max_size ht) \<and> distinct fs \<and>
        set fs = {1..<th_max_size ht} - set (live ht) - R)"

lemma pop_freelist_core:
  assumes ok: "th_ok ht" and p: "pop_freelist ht = (ht', i)"
  shows "th_core ht' {nat i}" "1 \<le> i" "i < int (th_max_size ht)" "nat i \<notin> set (live ht)"
    "live ht' = live ht" "th_max_size ht' = th_max_size ht" "th_cur_size ht' = th_cur_size ht"
    "th_timer_dups ht' = th_timer_dups ht" "th_max_entries_per_poll ht' = th_max_entries_per_poll ht"
proof -
  obtain fs where fs: "fchain (th_timer_ids ht) (th_timer_ids_freelist ht) fs (th_max_size ht)"
    "distinct fs" "set fs = {1..<th_max_size ht} - set (live ht)" using ok by (auto simp: th_ok_def)
  have "card (set (live ht)) = th_cur_size ht"
    using distinct_card [OF distinct_live [OF ok]] th_okD(7) [OF ok] by simp
  then have "set fs \<noteq> {}"
    using card_mono [of "set (live ht)" "{1..<th_max_size ht}"] th_okD(4) [OF ok] fs(3) by auto
  then obtain x xs where x: "fs = x # xs" by (cases fs) auto
  have i: "i = int x" "ht' = ht\<lparr>th_timer_ids_freelist := - (th_timer_ids ht ! x)\<rparr>"
    using p fs(1) x by (auto simp: pop_freelist_def Let_def)
  have xr: "x \<in> {1..<th_max_size ht} - set (live ht)" using fs(3) x by auto
  have l: "live ht' = live ht" by (simp add: live_def i)
  have c: "fchain (th_timer_ids ht') (th_timer_ids_freelist ht') xs (th_max_size ht) \<and> distinct xs \<and>
      set xs = {1..<th_max_size ht} - set (live ht) - {x}"
    using fs x i by auto
  show "th_core ht' {nat i}"
    unfolding th_core_def l using th_okD [OF ok] c i by (auto simp: linked_def pk_def)
  show "1 \<le> i" "i < int (th_max_size ht)" "nat i \<notin> set (live ht)" using xr i by auto
  show "live ht' = live ht" by (rule l)
qed (use p in \<open>auto simp: pop_freelist_def Let_def\<close>)

lemma fchain_upt:
  "\<forall>i\<in>{n..<N}. ids ! i = - (int i + 1) \<Longrightarrow> n \<le> N \<Longrightarrow> fchain ids (int n) [n..<N] N"
proof (induction "N - n" arbitrary: n)
  case (Suc k)
  then have u: "[n..<N] = n # [Suc n..<N]" by (simp add: upt_conv_Cons)
  have "fchain ids (int (Suc n)) [Suc n..<N] N" by (rule Suc(1)) (use Suc(2-4) in auto)
  moreover have "ids ! n = - (int n + 1)" using Suc(2-4) by auto
  ultimately show ?case unfolding u by (simp add: add.commute)
qed simp

lemma fchain_append:
  "fchain ids f fs n \<Longrightarrow> \<forall>i\<in>{n..<N}. ids ! i = - (int i + 1) \<Longrightarrow> n \<le> N \<Longrightarrow> fchain ids f (fs @ [n..<N]) N"
  by (induction fs arbitrary: f) (auto simp: fchain_upt)

lemma grow_heap_core:
  assumes c: "th_core ht R" "R \<subseteq> {1..<th_max_size ht}" and m: "\<And>i. mem i"
    and g: "grow_heap mem junk ht = (ht', st)"
  shows "st = PJ_SUCCESS" "th_core ht' R" "live ht' = live ht" "th_max_size ht' = 2 * th_max_size ht"
    "th_cur_size ht' = th_cur_size ht" "\<And>p. p < th_max_size ht \<Longrightarrow> dup_at ht' p = dup_at ht p"
    "th_max_entries_per_poll ht' = th_max_entries_per_poll ht"
proof -
  let ?n = "th_max_size ht"
  have C: "length (th_heap ht) = ?n" "length (th_timer_ids ht) = ?n" "length (th_timer_dups ht) = ?n"
    "th_cur_size ht + 1 < ?n" "\<And>s. s < th_cur_size ht \<Longrightarrow> 0 < th_heap ht ! s \<and> linked ht s (th_heap ht ! s)"
    "heap_ordered (value_at ht) (live ht)" using c(1) by (auto simp: th_core_def)
  have h: "ht' = ht\<lparr>th_timer_dups := th_timer_dups ht @ replicate ?n junk,
      th_heap := take (th_cur_size ht) (th_heap ht) @ replicate (2 * ?n - th_cur_size ht) 0,
      th_timer_ids := th_timer_ids ht @ map (\<lambda>i. - (int i + 1)) [?n..<2 * ?n], th_max_size := 2 * ?n\<rparr>"
    and st: "st = PJ_SUCCESS"
    using g m C by (simp_all add: grow_heap_def Let_def mult_2 mult_2_right)
  show "st = PJ_SUCCESS" by (rule st)
  show l: "live ht' = live ht" using C by (simp add: live_def h)
  show d: "dup_at ht' p = dup_at ht p" if "p < ?n" for p using that C by (simp add: h nth_append)
  show "th_max_size ht' = 2 * ?n" "th_cur_size ht' = th_cur_size ht"
    "th_max_entries_per_poll ht' = th_max_entries_per_poll ht" by (simp_all add: h)
  have lk: "0 < th_heap ht' ! s \<and> linked ht' s (th_heap ht' ! s)" if s: "s < th_cur_size ht" for s
  proof -
    have e: "th_heap ht' ! s = th_heap ht ! s" using s C by (simp add: h nth_append)
    have "th_heap ht ! s < ?n" using C(5) [OF s] C(2) by (simp add: linked_def pk_def)
    then show ?thesis
      using C(5) [OF s] C(2) d e by (simp add: linked_def pk_def) (simp add: h nth_append)
  qed
  have lr: "p < ?n" if l: "p \<in> set (live ht)" for p
  proof -
    obtain s where "s < th_cur_size ht" "p = th_heap ht ! s"
      using l C(1,4) by (auto simp: live_def in_set_conv_nth)
    then show ?thesis using C(5) [of s] C(2) by (simp add: linked_def pk_def)
  qed
  have ho: "heap_ordered (value_at ht') (live ht')"
    unfolding l using C(6) heap_ordered_cong [of "live ht" "value_at ht'" "value_at ht"] d lr by simp
  obtain fs where fs: "fchain (th_timer_ids ht) (th_timer_ids_freelist ht) fs ?n" "distinct fs"
    "set fs = {1..<?n} - set (live ht) - R" using c(1) by (auto simp: th_core_def)
  have "fchain (th_timer_ids ht') (th_timer_ids_freelist ht) fs ?n"
    using fs(1,3) C(2) fchain_cong [of fs "th_timer_ids ht'" "th_timer_ids ht"]
    by (auto simp: h nth_append)
  then have "fchain (th_timer_ids ht') (th_timer_ids_freelist ht') (fs @ [?n..<2 * ?n]) (2 * ?n)"
    using C(2) by (intro fchain_append) (auto simp: h nth_append)
  moreover have "distinct (fs @ [?n..<2 * ?n])" using fs by auto
  moreover have "set (fs @ [?n..<2 * ?n]) = {1..<2 * ?n} - set (live ht) - R"
  proof -
    have "set (live ht) \<subseteq> {..<?n}" using lr by blast
    then have "{1..<2 * ?n} - set (live ht) - R = ({1..<?n} - set (live ht) - R) \<union> {?n..<2 * ?n}"
      using c(2) C(4) by fastforce
    then show ?thesis using fs(3) by simp
  qed
  ultimately show "th_core ht' R"
    unfolding th_core_def l using lk ho [unfolded l] C by (auto simp: h)
qed

text \<open>Placing the reserved id \<open>x\<close>, whose copy has been written, at the end of the heap.\<close>

lemma place_core:
  assumes c: "th_core ht {x}" and x: "0 < x" "x < th_max_size ht" "x \<notin> set (live ht)" "id_at ht x = int x"
    and room: "th_cur_size ht + 2 < th_max_size ht"
    and r: "ht' = (reheap_up ht x (th_cur_size ht) (HEAP_PARENT (th_cur_size ht)))\<lparr>th_cur_size := th_cur_size ht + 1\<rparr>"
  shows "th_ok ht'" "mset (live ht') = add_mset x (mset (live ht))" "th_timer_dups ht' = th_timer_dups ht"
    "th_max_size ht' = th_max_size ht" "th_max_entries_per_poll ht' = th_max_entries_per_poll ht"
proof -
  let ?n = "th_cur_size ht"
  have C: "length (th_heap ht) = th_max_size ht" "length (th_timer_ids ht) = th_max_size ht"
    "length (th_timer_dups ht) = th_max_size ht"
    "\<And>s. s < ?n \<Longrightarrow> 0 < th_heap ht ! s \<and> linked ht s (th_heap ht ! s)"
    "heap_ordered (value_at ht) (live ht)" using c by (auto simp: th_core_def)
  have ll: "length (live ht) = ?n" using C(1) room by (simp add: live_def)
  have ne: "th_heap ht ! s \<noteq> x" if "s < ?n" for s
    using x(3) that C(1) room by (auto simp: live_def in_set_conv_nth)
  have hl: "hole ht (Suc ?n) ?n x"
    using C room x ne by (auto simp: hole_def pk_def less_Suc_eq)
  have pl: "plug ht (Suc ?n) ?n x = live ht @ [x]"
    using C(1) room by (simp add: plug_def live_def take_Suc_conv_app_nth list_update_append)
  define ys where "ys = sift_up (value_at ht) (live ht @ [x]) ?n"
  define g where "g = reheap_up ht x ?n (HEAP_PARENT ?n)"
  have R: "reheaped ht (Suc ?n) (live ht @ [x]) ys g"
    unfolding ys_def g_def pl [symmetric] by (rule reheap_up_spec [OF hl refl])
  have Y: "heap_ordered (value_at ht) ys" "mset ys = mset (live ht @ [x])"
    using sift_up_correct [OF append_up [OF C(5)]] ll by (auto simp: ys_def)
  have lv: "live ht' = ys" using R by (simp add: live_def r g_def [symmetric] reheaped_def)
  have dd: "th_timer_dups ht' = th_timer_dups ht" "th_max_size ht' = th_max_size ht"
    "th_max_entries_per_poll ht' = th_max_entries_per_poll ht" "th_cur_size ht' = Suc ?n"
    "th_timer_ids ht' = th_timer_ids g" "th_heap ht' = th_heap g" "th_timer_ids_freelist ht' = th_timer_ids_freelist ht"
    using R by (simp_all add: r g_def [symmetric] reheaped_def)
  have ms: "mset (live ht') = add_mset x (mset (live ht))" using Y lv by simp
  have sl: "set (live ht') = insert x (set (live ht))" using arg_cong [OF ms, of set_mset] by simp
  obtain fs where fs: "fchain (th_timer_ids ht) (th_timer_ids_freelist ht) fs (th_max_size ht)"
    "distinct fs" "set fs = {1..<th_max_size ht} - set (live ht) - {x}" using c by (auto simp: th_core_def)
  have "th_timer_ids g ! q = th_timer_ids ht ! q" if "q \<in> set fs" for q
    using R that fs(3) by (auto simp: reheaped_def)
  then have ch: "fchain (th_timer_ids ht') (th_timer_ids_freelist ht') fs (th_max_size ht)"
    using fchain_cong [of fs "th_timer_ids g" "th_timer_ids ht"] fs(1) by (simp add: dd)
  have lk: "linked ht' s (th_heap ht' ! s)" if "s < Suc ?n" for s
    using R that by (auto simp: reheaped_def linked_def pk_def dd)
  have pos: "0 < th_heap ht' ! s" if "s < Suc ?n" for s
  proof -
    have "th_heap ht' ! s = live ht' ! s" using that by (simp add: live_def dd)
    moreover have "length (live ht') = Suc ?n" using ms ll by (metis size_mset size_add_mset)
    ultimately have "th_heap ht' ! s \<in> set (live ht')" using that by (metis nth_mem)
    moreover have "0 < q" if "q \<in> set (live ht)" for q
      using that C(4) by (auto simp: live_def in_set_conv_nth)
    ultimately show ?thesis using sl x(1) by auto
  qed
  show "th_ok ht'"
    unfolding th_ok_def using C R ch fs(2,3) sl lk pos Y lv room
    by (auto simp: dd reheaped_def intro!: exI [of _ fs])
  show "mset (live ht') = add_mset x (mset (live ht))" "th_timer_dups ht' = th_timer_dups ht"
    "th_max_size ht' = th_max_size ht" "th_max_entries_per_poll ht' = th_max_entries_per_poll ht"
    by (rule ms dd)+
qed

end
