(* ===== verification/Timer_Spec.thy ===== *)
theory Timer_Spec
  imports Timer_Inv
begin

text \<open>
  What the timer heap promises its clients: the set of scheduled entries with their expiry
  times as a map from entry addresses to times, and the effect of schedule, cancel and poll
  on that map.
\<close>

section \<open>The world invariant and the deadline map\<close>

abbreviation running :: "timer_world \<Rightarrow> nat \<Rightarrow> bool" where
  "running w e \<equiv> pj_timer_entry_running (tw_entries w e)"

abbreviation tid :: "timer_world \<Rightarrow> nat \<Rightarrow> nat" where
  "tid w e \<equiv> nat (te_timer_id (tw_entries w e))"

abbreviation owner :: "pj_timer_heap \<Rightarrow> nat \<Rightarrow> nat" where
  "owner ht p \<equiv> td_entry (dup_at ht p)"

text \<open>
  The heap is well formed, and the caller's entries agree with it: a live copy belongs to an
  entry that holds its id, and an entry that holds an id has a live copy.
\<close>

definition tw_ok :: "timer_world \<Rightarrow> bool" where
  "tw_ok w \<longleftrightarrow> th_ok (tw_ht w) \<and>
     (\<forall>p\<in>set (live (tw_ht w)). te_timer_id (tw_entries w (owner (tw_ht w) p)) = int p) \<and>
     (\<forall>e. running w e \<longrightarrow> tid w e \<in> set (live (tw_ht w)) \<and> owner (tw_ht w) (tid w e) = e)"

definition deadline :: "timer_world \<Rightarrow> nat \<rightharpoonup> pj_time_val" where
  "deadline w e = (if running w e then Some (value_at (tw_ht w) (tid w e)) else None)"

lemma tw_okD:
  assumes "tw_ok w"
  shows "th_ok (tw_ht w)"
    "\<And>p. p \<in> set (live (tw_ht w)) \<Longrightarrow> te_timer_id (tw_entries w (owner (tw_ht w) p)) = int p"
    "\<And>e. running w e \<Longrightarrow> tid w e \<in> set (live (tw_ht w)) \<and> owner (tw_ht w) (tid w e) = e"
  using assms by (auto simp: tw_ok_def)

lemma live_running:
  assumes "tw_ok w" "p \<in> set (live (tw_ht w))"
  shows "running w (owner (tw_ht w) p)" "tid w (owner (tw_ht w) p) = p"
  using tw_okD(2) [OF assms] live_range [OF tw_okD(1) [OF assms(1)] assms(2)]
  by (auto simp: pj_timer_entry_running_def)

lemma dom_deadline: "dom (deadline w) = {e. running w e}"
  by (auto simp: deadline_def split: if_splits)

lemma running_inj:
  assumes "tw_ok w" "running w e" "running w e'" "tid w e = tid w e'"
  shows "e = e'"
  using tw_okD(3) [OF assms(1,2)] tw_okD(3) [OF assms(1,3)] assms(4) by metis

section \<open>Removing an entry\<close>

lemma remove_running:
  assumes ok: "tw_ok w" and s: "slot < th_cur_size (tw_ht w)" and p: "p = th_heap (tw_ht w) ! slot"
    and e: "e = owner (tw_ht w) p" and r: "remove_node w slot = (w', q)"
  shows "q = p" "tw_ok w'" "deadline w' = (deadline w)(e := None)"
    "\<And>x. (tw_entries w' x)\<lparr>te_timer_id := 0\<rparr> = (tw_entries w x)\<lparr>te_timer_id := 0\<rparr>"
    "tw_refs w' = tw_refs w" "th_timer_dups (tw_ht w') = th_timer_dups (freed (tw_ht w) p)"
    "th_cur_size (tw_ht w') = th_cur_size (tw_ht w) - 1"
    "th_max_entries_per_poll (tw_ht w') = th_max_entries_per_poll (tw_ht w)"
    "th_max_size (tw_ht w') = th_max_size (tw_ht w)"
    "set (live (tw_ht w')) = set (live (tw_ht w)) - {p}"
proof -
  let ?ht = "tw_ht w"
  have ho: "th_ok ?ht" by (rule tw_okD(1) [OF ok])
  have pl: "p \<in> set (live ?ht)" using s p live_member [OF ho] by blast
  have ep: "te_timer_id (tw_entries w e) = int p" using tw_okD(2) [OF ok pl] e by simp
  have w': "w' = (set_entry_timer_id w e (- 1))\<lparr>tw_ht := refill (freed ?ht p) slot\<rparr>" "q = p"
    using remove_node_eq [OF ho s p e] r ep by auto
  note R = refill_freed [OF ho s p refl]
  have ht': "tw_ht w' = refill (freed ?ht p) slot" by (simp add: w')
  have sl: "set (live (tw_ht w')) = set (live ?ht) - {p}"
    by (rule distinct_mset_minus_singleton_set [OF distinct_live [OF ho]]) (simp add: ht' R)
  have en: "tw_entries w' x = (if x = e then (tw_entries w e)\<lparr>te_timer_id := - 1\<rparr> else tw_entries w x)" for x
    by (simp add: w' set_entry_timer_id_def)
  have ow: "owner (tw_ht w') x = owner ?ht x" "value_at (tw_ht w') x = value_at ?ht x" for x
    by (simp_all add: ht' R(3) freed_dup)
  have run: "running w' x \<longleftrightarrow> running w x \<and> x \<noteq> e" for x
    by (simp add: en pj_timer_entry_running_def)
  have tn: "tid w' x = tid w x" if "x \<noteq> e" for x using that by (simp add: en)
  show "q = p" by (rule w')
  show "set (live (tw_ht w')) = set (live (tw_ht w)) - {p}" by (rule sl)
  have o1: "te_timer_id (tw_entries w' (owner (tw_ht w') y)) = int y" if "y \<in> set (live (tw_ht w'))" for y
  proof -
    have y: "y \<in> set (live ?ht)" "y \<noteq> p" using that sl by auto
    then have "owner ?ht y \<noteq> e" using tw_okD(2) [OF ok y(1)] ep by auto
    then show ?thesis using tw_okD(2) [OF ok y(1)] by (simp add: ow en)
  qed
  have o2: "tid w' x \<in> set (live (tw_ht w')) \<and> owner (tw_ht w') (tid w' x) = x" if "running w' x" for x
  proof -
    have x: "running w x" "x \<noteq> e" using that run by auto
    note T = tw_okD(3) [OF ok x(1)]
    have "tid w x \<noteq> p" using T e x(2) by auto
    then show ?thesis using T x sl tn by (simp add: ow)
  qed
  show "tw_ok w'" unfolding tw_ok_def using o1 o2 R(1) ht' by auto
  show "deadline w' = (deadline w)(e := None)"
    by (rule ext) (auto simp: deadline_def run ow tn)
  show "(tw_entries w' x)\<lparr>te_timer_id := 0\<rparr> = (tw_entries w x)\<lparr>te_timer_id := 0\<rparr>" for x by (simp add: en)
  show "tw_refs w' = tw_refs w" by (simp add: w' set_entry_timer_id_def)
  show "th_timer_dups (tw_ht w') = th_timer_dups (freed (tw_ht w) p)"
    "th_cur_size (tw_ht w') = th_cur_size (tw_ht w) - 1"
    "th_max_entries_per_poll (tw_ht w') = th_max_entries_per_poll (tw_ht w)"
    "th_max_size (tw_ht w') = th_max_size (tw_ht w)" by (simp_all add: ht' R)
qed

text \<open>Changes that the invariant and the deadlines do not see.\<close>

lemma tw_ok_id_update:
  assumes "\<And>x. te_timer_id (f x) = te_timer_id (tw_entries w x)"
  shows "tw_ok (w\<lparr>tw_entries := f\<rparr>) = tw_ok w" "deadline (w\<lparr>tw_entries := f\<rparr>) = deadline w"
  using assms by (auto simp: tw_ok_def deadline_def pj_timer_entry_running_def intro!: ext)

lemma add_ref_same [simp]:
  "tw_ht (add_ref w l n) = tw_ht w" "tw_entries (add_ref w l n) = tw_entries w"
  by (simp_all add: add_ref_def split: option.split)

lemma tw_ok_add_ref [simp]:
  "tw_ok (add_ref w l n) = tw_ok w" "deadline (add_ref w l n) = deadline w"
  by (auto simp: tw_ok_def deadline_def intro!: ext)

lemma tw_ok_dup_update:
  assumes ok: "tw_ok w" and d: "td_timer_value d = value_at (tw_ht w) q"
    "te_timer_id (td_dup d) = id_at (tw_ht w) q" "td_entry d = owner (tw_ht w) q"
  shows "tw_ok (w\<lparr>tw_ht := (tw_ht w)\<lparr>th_timer_dups := (th_timer_dups (tw_ht w))[q := d]\<rparr>\<rparr>)"
    "deadline (w\<lparr>tw_ht := (tw_ht w)\<lparr>th_timer_dups := (th_timer_dups (tw_ht w))[q := d]\<rparr>\<rparr>) = deadline w"
proof -
  let ?ds = "(th_timer_dups (tw_ht w))[q := d]"
  have s: "td_timer_value (?ds ! x) = value_at (tw_ht w) x" "te_timer_id (td_dup (?ds ! x)) = id_at (tw_ht w) x"
    "td_entry (?ds ! x) = owner (tw_ht w) x" for x
    using d by (cases "x = q"; cases "q < length (th_timer_dups (tw_ht w))"; simp add: list_update_beyond)+
  have "th_ok ((tw_ht w)\<lparr>th_timer_dups := ?ds\<rparr>)"
    using tw_okD(1) [OF ok] unfolding th_ok_def live_def linked_def pk_def by (auto simp: s)
  then show "tw_ok (w\<lparr>tw_ht := (tw_ht w)\<lparr>th_timer_dups := ?ds\<rparr>\<rparr>)"
    using ok unfolding tw_ok_def by (simp add: s live_def)
  show "deadline (w\<lparr>tw_ht := (tw_ht w)\<lparr>th_timer_dups := ?ds\<rparr>\<rparr>) = deadline w"
    by (rule ext) (simp add: deadline_def s)
qed

section \<open>Cancel\<close>

lemma cancel_timer_spec:
  assumes ok: "tw_ok w" and c: "cancel_timer w e f v = (w', n)"
  shows "tw_ok w'" "n = (if running w e then 1 else 0)" "deadline w' = (deadline w)(e := None)"
    "\<not> running w e \<Longrightarrow> w' = w"
proof -
  let ?ht = "tw_ht w"
  have ho: "th_ok ?ht" by (rule tw_okD(1) [OF ok])
  have *: "tw_ok w' \<and> n = (if running w e then 1 else 0) \<and> deadline w' = (deadline w)(e := None) \<and>
      (\<not> running w e \<longrightarrow> w' = w)"
  proof (cases "running w e")
    case False
    then have "te_timer_id (tw_entries w e) < 1" by (simp add: pj_timer_entry_running_def)
    then have "w' = w" "n = 0" using c by (auto simp: cancel_timer_def Let_def)
    moreover have "(deadline w)(e := None) = deadline w" using False by (auto simp: deadline_def)
    ultimately show ?thesis using False ok by simp
  next
    case True
    define i where "i = te_timer_id (tw_entries w e)"
    note T = tw_okD(3) [OF ok True]
    have i: "1 \<le> i" "i < int (th_max_size ?ht)" "nat i \<in> set (live ?ht)"
      using True T live_range(2) [OF ho, of "nat i"] by (auto simp: i_def pj_timer_entry_running_def)
    define s where "s = nat (th_timer_ids ?ht ! nat i)"
    have s: "0 \<le> th_timer_ids ?ht ! nat i" "s < th_cur_size ?ht" "th_heap ?ht ! s = nat i"
      using timer_id_lookup [OF ho i(1,2)] i(3) by (auto simp: s_def)
    have ow: "owner ?ht (nat i) = e" using T by (simp add: i_def)
    obtain w1 q where r: "remove_node w s = (w1, q)" by fastforce
    have "cancel w e = (w1, 1)"
      using s(1,3) ow r by (simp add: cancel_def Let_def i_def [symmetric] s_def [symmetric])
    then have "n = 1" and w': "w' = add_ref (if f then w1\<lparr>tw_entries := (tw_entries w1)(e :=
        (tw_entries w1 e)\<lparr>te_id := v\<rparr>)\<rparr> else w1) (td_grp_lock (dup_at ?ht (nat i))) (- 1)"
      using c i by (auto simp: cancel_timer_def Let_def i_def)
    note R = remove_running [OF ok s(2) s(3) [symmetric] ow [symmetric] r]
    have u: "tw_ok (w1\<lparr>tw_entries := (tw_entries w1)(e := (tw_entries w1 e)\<lparr>te_id := v\<rparr>)\<rparr>) = tw_ok w1"
      "deadline (w1\<lparr>tw_entries := (tw_entries w1)(e := (tw_entries w1 e)\<lparr>te_id := v\<rparr>)\<rparr>) = deadline w1"
      by (rule tw_ok_id_update; simp)+
    show ?thesis using R(2,3) True \<open>n = 1\<close> u by (simp add: w')
  qed
  then show "tw_ok w'" "n = (if running w e then 1 else 0)" "deadline w' = (deadline w)(e := None)"
    "\<not> running w e \<Longrightarrow> w' = w" by simp_all
qed

section \<open>Schedule\<close>

lemma insert_node_spec:
  assumes c: "th_core ht {x}" and x: "0 < x" "x < th_max_size ht" "x \<notin> set (live ht)"
    and w: "w = w0\<lparr>tw_ht := ht\<rparr>" "te_timer_id (tw_entries w e) = int x" and m: "\<And>i. mem i"
    and r: "insert_node mem junk w e t = (w', st)"
  shows "st = PJ_SUCCESS" "th_ok (tw_ht w')" "set (live (tw_ht w')) = insert x (set (live ht))"
    "tw_entries w' = tw_entries w" "tw_refs w' = tw_refs w"
    "x < length (th_timer_dups (tw_ht w'))"
    "dup_at (tw_ht w') x = \<lparr>td_dup = tw_entries w e, td_entry = e, td_timer_value = t, td_grp_lock = None\<rparr>"
    "\<And>p. p \<in> set (live ht) \<Longrightarrow> dup_at (tw_ht w') p = dup_at ht p"
    "th_max_entries_per_poll (tw_ht w') = th_max_entries_per_poll ht"
proof -
  let ?d = "\<lparr>td_dup = tw_entries w e, td_entry = e, td_timer_value = t, td_grp_lock = None\<rparr>"
  have htw: "tw_ht w = ht" using w by simp
  obtain g st0 where g: "(if th_cur_size ht + 2 \<ge> th_max_size ht then grow_heap mem junk ht
      else (ht, PJ_SUCCESS)) = (g, st0)" by fastforce
  have sub: "{x} \<subseteq> {1..<th_max_size ht}" using x by auto
  have G: "st0 = PJ_SUCCESS" "th_core g {x}" "live g = live ht" "th_max_size ht \<le> th_max_size g"
    "th_cur_size g = th_cur_size ht" "th_cur_size g + 2 < th_max_size g"
    "th_max_entries_per_poll g = th_max_entries_per_poll ht"
    "\<And>p. p < th_max_size ht \<Longrightarrow> dup_at g p = dup_at ht p"
    using g c grow_heap_core [OF c sub m] x(1,2) by (auto split: if_splits simp: th_core_def)
  define k where "k = g\<lparr>th_timer_dups := (th_timer_dups g)[x := ?d]\<rparr>"
  have xg: "x < length (th_timer_dups g)" using G x by (simp add: th_core_def)
  have lr: "p < th_max_size ht" if l: "p \<in> set (live ht)" for p
  proof -
    obtain s where "s < th_cur_size ht" "p = th_heap ht ! s" using l by (auto simp: live_def in_set_conv_nth)
    then show ?thesis using c by (auto simp: th_core_def linked_def pk_def)
  qed
  have dk: "dup_at k p = dup_at ht p" if l: "p \<in> set (live ht)" for p
  proof -
    have "p \<noteq> x" using l x(3) by auto
    then show ?thesis using G(8) [OF lr [OF l]] by (simp add: k_def)
  qed
  have lk: "live k = live ht" using G by (simp add: k_def live_def)
  have hk: "th_heap g ! s \<in> set (live ht)" if "s < th_cur_size g" for s
  proof -
    have "length (live g) = th_cur_size g" "live g ! s = th_heap g ! s"
      using G(2) that by (auto simp: th_core_def live_def)
    then show ?thesis using that G(3) nth_mem [of s "live g"] by simp
  qed
  have ck: "th_core k {x}"
  proof -
    have "linked k s (th_heap g ! s) = linked g s (th_heap g ! s)" if "s < th_cur_size g" for s
      using dk [OF hk [OF that]] G(8) [OF lr [OF hk [OF that]]] by (simp add: linked_def pk_def) (simp add: k_def)
    moreover have "heap_ordered (value_at k) (live ht) = heap_ordered (value_at g) (live ht)"
      using dk G(8) lr by (intro heap_ordered_cong) simp
    ultimately show ?thesis using G(2,3) lk by (simp add: th_core_def) (simp add: k_def)
  qed
  have idk: "id_at k x = int x" using w(2) xg by (simp add: k_def)
  define h where "h = (reheap_up k x (th_cur_size k) (HEAP_PARENT (th_cur_size k)))\<lparr>th_cur_size := th_cur_size k + 1\<rparr>"
  have rw: "w' = w\<lparr>tw_ht := h\<rparr>" "st = PJ_SUCCESS"
  proof -
    have "th_cur_size k = th_cur_size g" by (simp add: k_def)
    then show "w' = w\<lparr>tw_ht := h\<rparr>" "st = PJ_SUCCESS"
      using r g G(1) w(2) unfolding insert_node_def htw
      by (auto simp: Let_def k_def [symmetric] h_def reheap_up_cur)
  qed
  have xk: "x < th_max_size k" "x \<notin> set (live k)" "th_cur_size k + 2 < th_max_size k"
    using x G lk by (auto simp: k_def)
  note P = place_core [OF ck x(1) xk(1,2) idk xk(3) h_def]
  show "st = PJ_SUCCESS" by (rule rw)
  show "th_ok (tw_ht w')" using P rw by simp
  show "set (live (tw_ht w')) = insert x (set (live ht))"
    using arg_cong [OF P(2), of set_mset] lk rw by simp
  show "tw_entries w' = tw_entries w" "tw_refs w' = tw_refs w" using rw by simp_all
  show "x < length (th_timer_dups (tw_ht w'))" using rw P(3) xg by (simp add: k_def)
  show "dup_at (tw_ht w') x = ?d" using rw P(3) xg by (simp add: k_def)
  show "dup_at (tw_ht w') p = dup_at ht p" if "p \<in> set (live ht)" for p using rw P(3) dk [OF that] by simp
  show "th_max_entries_per_poll (tw_ht w') = th_max_entries_per_poll ht" using rw P(5) G(7) by (simp add: k_def)
qed

lemma schedule_entry_spec:
  assumes ok: "tw_ok w" and nr: "\<not> running w e" and m: "\<And>i. mem i"
    and r: "schedule_entry mem junk w e t = (w', st)"
  shows "st = PJ_SUCCESS" "tw_ok w'" "deadline w' = (deadline w)(e \<mapsto> t)" "running w' e"
    "tid w' e < length (th_timer_dups (tw_ht w'))"
    "td_dup (dup_at (tw_ht w') (tid w' e)) = tw_entries w' e"
    "\<And>x. (tw_entries w' x)\<lparr>te_timer_id := 0\<rparr> = (tw_entries w x)\<lparr>te_timer_id := 0\<rparr>" "tw_refs w' = tw_refs w"
    "th_max_entries_per_poll (tw_ht w') = th_max_entries_per_poll (tw_ht w)"
proof -
  let ?ht = "tw_ht w"
  have ho: "th_ok ?ht" by (rule tw_okD(1) [OF ok])
  obtain ht1 i where p: "pop_freelist ?ht = (ht1, i)" by fastforce
  note P = pop_freelist_core [OF ho p]
  define x where "x = nat i"
  have x: "0 < x" "x < th_max_size ht1" "x \<notin> set (live ht1)" "int x = i" using P by (auto simp: x_def)
  define w1 where "w1 = (set_entry_timer_id w e i)\<lparr>tw_ht := ht1\<rparr>"
  have w1: "set_entry_timer_id (w\<lparr>tw_ht := ht1\<rparr>) e i = w1" by (simp add: w1_def set_entry_timer_id_def)
  have e1: "tw_entries w1 y = (if y = e then (tw_entries w e)\<lparr>te_timer_id := int x\<rparr> else tw_entries w y)" for y
    by (simp add: w1_def set_entry_timer_id_def x(4))
  have ins: "insert_node mem junk w1 e t = (w', st)"
    using r p th_okD(4) [OF ho] by (simp add: schedule_entry_def w1)
  have tx: "te_timer_id (tw_entries w1 e) = int x" by (simp add: e1)
  note I = insert_node_spec [OF P(1) [folded x_def] x(1-3) w1_def tx m ins]
  have L: "set (live (tw_ht w')) = insert x (set (live ?ht))" "x \<notin> set (live ?ht)" using I(3) P(5) x(3) by simp_all
  have en: "tw_entries w' y = (if y = e then (tw_entries w e)\<lparr>te_timer_id := int x\<rparr> else tw_entries w y)" for y
    using I(4) e1 by simp
  have du: "dup_at (tw_ht w') q = dup_at ?ht q" if "q \<in> set (live ?ht)" for q
    using I(8) [of q] that P(5,8) by simp
  have ne: "owner ?ht q \<noteq> e" if "q \<in> set (live ?ht)" for q
    using live_running(1) [OF ok that] nr by auto
  have run: "running w' y \<longleftrightarrow> y = e \<or> running w y" for y
    using x(1) by (auto simp: en pj_timer_entry_running_def)
  show "st = PJ_SUCCESS" by (rule I(1))
  have o1: "te_timer_id (tw_entries w' (owner (tw_ht w') q)) = int q" if "q \<in> set (live (tw_ht w'))" for q
  proof (cases "q = x")
    case True
    then show ?thesis using I(7) by (simp add: en)
  next
    case False
    then have "q \<in> set (live ?ht)" using that L by simp
    then show ?thesis using du ne tw_okD(2) [OF ok] by (simp add: en)
  qed
  have o2: "tid w' y \<in> set (live (tw_ht w')) \<and> owner (tw_ht w') (tid w' y) = y" if "running w' y" for y
  proof (cases "y = e")
    case True
    then show ?thesis using I(7) L by (simp add: en)
  next
    case False
    then have "running w y" using that run by simp
    then show ?thesis using tw_okD(3) [OF ok] du L False by (simp add: en)
  qed
  show "tw_ok w'" unfolding tw_ok_def using I(2) o1 o2 by blast
  show "deadline w' = (deadline w)(e \<mapsto> t)"
  proof
    fix y
    show "deadline w' y = ((deadline w)(e \<mapsto> t)) y"
    proof (cases "y = e")
      case True
      then show ?thesis using I(7) x(1) by (simp add: deadline_def en pj_timer_entry_running_def)
    next
      case False
      then show ?thesis using run du tw_okD(3) [OF ok, of y] by (auto simp: deadline_def en)
    qed
  qed
  show "running w' e" using run by simp
  show "tid w' e < length (th_timer_dups (tw_ht w'))" using I(6) by (simp add: en)
  show "td_dup (dup_at (tw_ht w') (tid w' e)) = tw_entries w' e" using I(4,7) by (simp add: en e1)
  show "(tw_entries w' y)\<lparr>te_timer_id := 0\<rparr> = (tw_entries w y)\<lparr>te_timer_id := 0\<rparr>" for y by (simp add: en)
  show "tw_refs w' = tw_refs w" using I(5) by (simp add: w1_def set_entry_timer_id_def)
  show "th_max_entries_per_poll (tw_ht w') = th_max_entries_per_poll (tw_ht w)" using I(9) P(9) by simp
qed

lemma schedule_spec:
  assumes ok: "tw_ok w" and nr: "\<not> running w e" and cb: "te_cb (tw_entries w e) \<noteq> 0" and m: "\<And>i. mem i"
    and r: "schedule_w_grp_lock mem junk now w e delay set_id idv gl = (w', st)"
  shows "st = PJ_SUCCESS" "tw_ok w'" "deadline w' = (deadline w)(e \<mapsto> PJ_TIME_VAL_ADD now delay)"
    "th_max_entries_per_poll (tw_ht w') = th_max_entries_per_poll (tw_ht w)"
proof -
  obtain w1 st1 where s: "schedule_entry mem junk w e (PJ_TIME_VAL_ADD now delay) = (w1, st1)" by fastforce
  note S = schedule_entry_spec [OF ok nr m s]
  let ?q = "tid w1 e" and ?d = "dup_at (tw_ht w1) (tid w1 e)"
  define d where "d = (if set_id then ?d\<lparr>td_dup := (td_dup ?d)\<lparr>te_id := idv\<rparr>\<rparr> else ?d)\<lparr>td_grp_lock := gl\<rparr>"
  define w2 where "w2 = (if set_id then w1\<lparr>tw_entries := (tw_entries w1)(e :=
      (tw_entries w1 e)\<lparr>te_id := idv\<rparr>)\<rparr> else w1)"
  define w3 where "w3 = w2\<lparr>tw_ht := (tw_ht w2)\<lparr>th_timer_dups := (th_timer_dups (tw_ht w2))[?q := d]\<rparr>\<rparr>"
  have w2: "tw_ok w2" "deadline w2 = deadline w1" "tw_ht w2 = tw_ht w1"
    using S(2) tw_ok_id_update [of "(tw_entries w1)(e := (tw_entries w1 e)\<lparr>te_id := idv\<rparr>)" w1]
    by (simp_all add: w2_def)
  have d: "td_timer_value d = value_at (tw_ht w2) ?q" "te_timer_id (td_dup d) = id_at (tw_ht w2) ?q"
    "td_entry d = owner (tw_ht w2) ?q" by (simp_all add: d_def w2)
  note D = tw_ok_dup_update [OF w2(1) d, folded w3_def]
  have w': "w' = add_ref w3 gl 1" "st = PJ_SUCCESS"
    using r nr cb s S(1) by (auto simp: schedule_w_grp_lock_def Let_def w3_def w2_def d_def)
  show "st = PJ_SUCCESS" by (rule w')
  show "tw_ok w'" "deadline w' = (deadline w)(e \<mapsto> PJ_TIME_VAL_ADD now delay)"
    using D S(3) w2 w' by simp_all
  show "th_max_entries_per_poll (tw_ht w') = th_max_entries_per_poll (tw_ht w)"
    using w' S(9) w2(3) by (simp add: w3_def)
qed

lemma schedule_refused:
  "running w e \<Longrightarrow> te_cb (tw_entries w e) \<noteq> 0 \<Longrightarrow>
   schedule_w_grp_lock mem junk now w e delay set_id idv gl = (w, PJ_EINVALIDOP)"
  "te_cb (tw_entries w e) = 0 \<Longrightarrow>
   schedule_w_grp_lock mem junk now w e delay set_id idv gl = (w, PJ_EINVAL)"
  by (simp_all add: schedule_w_grp_lock_def)

section \<open>The root is the earliest entry\<close>

lemma root_earliest:
  assumes ok: "tw_ok w" and ne: "th_cur_size (tw_ht w) \<noteq> 0"
    and p: "p = th_heap (tw_ht w) ! 0" and e: "e = owner (tw_ht w) p"
  shows "deadline w e = Some (value_at (tw_ht w) p)"
    "\<And>y t. deadline w y = Some t \<Longrightarrow> value_at (tw_ht w) p \<le> t"
proof -
  have ho: "th_ok (tw_ht w)" by (rule tw_okD(1) [OF ok])
  have pl: "p \<in> set (live (tw_ht w))" using p ne live_member [OF ho] by blast
  then show "deadline w e = Some (value_at (tw_ht w) p)"
    using live_running [OF ok pl] e by (simp add: deadline_def)
  fix y t
  assume "deadline w y = Some t"
  then have y: "running w y" "t = value_at (tw_ht w) (tid w y)" by (auto simp: deadline_def split: if_splits)
  then obtain s where s: "s < th_cur_size (tw_ht w)" "th_heap (tw_ht w) ! s = tid w y"
    using tw_okD(3) [OF ok] live_member [OF ho] by blast
  have "value_at (tw_ht w) (live (tw_ht w) ! 0) \<le> value_at (tw_ht w) (live (tw_ht w) ! s)"
    by (rule heap_root_least [OF th_okD(6) [OF ho]]) (simp add: th_okD(7) [OF ho] s)
  then show "value_at (tw_ht w) p \<le> t" using s ne p y by (simp add: live_nth)
qed

lemma empty_deadline:
  assumes "tw_ok w"
  shows "th_cur_size (tw_ht w) = 0 \<longleftrightarrow> (\<forall>e. deadline w e = None)"
proof
  assume "th_cur_size (tw_ht w) = 0"
  then show "\<forall>e. deadline w e = None" using tw_okD(3) [OF assms] by (auto simp: deadline_def live_def)
next
  assume "\<forall>e. deadline w e = None"
  then show "th_cur_size (tw_ht w) = 0" using root_earliest(1) [OF assms _ refl refl] by auto
qed

section \<open>Poll\<close>

text \<open>
  The caller's memory still holds what was scheduled: callback and user data of every live
  copy are those of its entry, and the callback is set.
\<close>

definition fresh :: "timer_world \<Rightarrow> bool" where
  "fresh w \<longleftrightarrow> (\<forall>p\<in>set (live (tw_ht w)). te_cb (tw_entries w (owner (tw_ht w) p)) \<noteq> 0 \<and>
     te_cb (td_dup (dup_at (tw_ht w) p)) = te_cb (tw_entries w (owner (tw_ht w) p)) \<and>
     te_user_data (td_dup (dup_at (tw_ht w) p)) = te_user_data (tw_entries w (owner (tw_ht w) p)))"

text \<open>The state in which \<open>poll_one\<close> calls the callback.\<close>

lemma poll_one_removed:
  assumes ok: "tw_ok w" and ne: "th_cur_size (tw_ht w) \<noteq> 0"
    and p: "p = th_heap (tw_ht w) ! 0" and e: "e = owner (tw_ht w) p"
  obtains w1 where "tw_ok w1" "deadline w1 = (deadline w)(e := None)"
    "\<And>x. (tw_entries w1 x)\<lparr>te_timer_id := 0\<rparr> = (tw_entries w x)\<lparr>te_timer_id := 0\<rparr>"
    "th_max_entries_per_poll (tw_ht w1) = th_max_entries_per_poll (tw_ht w)"
    "\<And>callback. poll_one callback w =
       (let valid = (te_cb (td_dup (dup_at (tw_ht w) p)) = te_cb (tw_entries w e) \<and>
              te_user_data (td_dup (dup_at (tw_ht w) p)) = te_user_data (tw_entries w e));
            call = (valid \<and> te_cb (tw_entries w e) \<noteq> 0);
            w2 = (if call then callback e w1 else w1) in
        (if valid then add_ref w2 (td_grp_lock (dup_at (tw_ht w) p)) (- 1) else w2,
         if call then Some e else None))"
    "fresh w \<Longrightarrow> fresh w1"
proof -
  let ?ht = "tw_ht w"
  have ho: "th_ok ?ht" by (rule tw_okD(1) [OF ok])
  have s: "0 < th_cur_size ?ht" using ne by simp
  obtain w0 q where r: "remove_node w 0 = (w0, q)" by fastforce
  note R = remove_running [OF ok s p e r]
  have dd: "dup_at (tw_ht w0) x = dup_at (freed ?ht p) x" for x by (simp add: R(6))
  let ?d = "dup_at (tw_ht w0) p"
  define w1 where "w1 = w0\<lparr>tw_ht := (tw_ht w0)\<lparr>th_timer_dups := (th_timer_dups (tw_ht w0))[p := ?d\<lparr>td_grp_lock := None\<rparr>]\<rparr>\<rparr>"
  have U: "tw_ok w1" "deadline w1 = deadline w0"
    unfolding w1_def by (rule tw_ok_dup_update [OF R(2)]; simp)+
  have ee: "te_cb (tw_entries w0 x) = te_cb (tw_entries w x)"
    "te_user_data (tw_entries w0 x) = te_user_data (tw_entries w x)" for x
    using arg_cong [OF R(4) [of x], of te_cb] arg_cong [OF R(4) [of x], of te_user_data] by simp_all
  have d: "te_cb (td_dup ?d) = te_cb (td_dup (dup_at ?ht p))" "td_entry ?d = e"
    "te_user_data (td_dup ?d) = te_user_data (td_dup (dup_at ?ht p))"
    "td_grp_lock ?d = td_grp_lock (dup_at ?ht p)"
    by (simp_all add: dd freed_dup(3-6) e)
  have e1: "tw_entries w1 = tw_entries w0" by (simp add: w1_def)
  have po: "poll_one callback w =
       (let valid = (te_cb (td_dup (dup_at ?ht p)) = te_cb (tw_entries w e) \<and>
              te_user_data (td_dup (dup_at ?ht p)) = te_user_data (tw_entries w e));
            call = (valid \<and> te_cb (tw_entries w e) \<noteq> 0);
            w2 = (if call then callback e w1 else w1) in
        (if valid then add_ref w2 (td_grp_lock (dup_at ?ht p)) (- 1) else w2,
         if call then Some e else None))" for callback
    using r R(1) by (simp add: poll_one_def w1_def [symmetric] d e1 ee Let_def)
  have fr: "fresh w1" if f: "fresh w"
    unfolding fresh_def
  proof
    fix x
    assume "x \<in> set (live (tw_ht w1))"
    then have x: "x \<in> set (live ?ht)" "x \<noteq> p" using R(10) by (auto simp: w1_def live_def)
    have "dup_at (tw_ht w1) x = dup_at ?ht x" using x by (simp add: w1_def dd freed_dup(1))
    then show "te_cb (tw_entries w1 (owner (tw_ht w1) x)) \<noteq> 0 \<and>
       te_cb (td_dup (dup_at (tw_ht w1) x)) = te_cb (tw_entries w1 (owner (tw_ht w1) x)) \<and>
       te_user_data (td_dup (dup_at (tw_ht w1) x)) = te_user_data (tw_entries w1 (owner (tw_ht w1) x))"
      using f x by (simp add: fresh_def e1 ee)
  qed
  show ?thesis
    by (rule that [of w1]) (use U R po fr in \<open>simp_all add: w1_def\<close>)
qed

end
