(* ===== verification/Timer_Props.thy ===== *)
theory Timer_Props
  imports Timer_Spec
begin

text \<open>
  The timer service as an interface for the components that schedule timers, its
  implementation by the timer heap, and the properties of polling.
\<close>

section \<open>The timer service interface\<close>

locale timer_service =
  fixes ok :: "'w \<Rightarrow> bool" and due :: "'w \<Rightarrow> nat \<rightharpoonup> pj_time_val" and usable :: "'w \<Rightarrow> nat \<Rightarrow> bool"
    and schedule :: "pj_time_val \<Rightarrow> 'w \<Rightarrow> nat \<Rightarrow> pj_time_val \<Rightarrow> 'w \<times> pj_status"
    and stop :: "'w \<Rightarrow> nat \<Rightarrow> 'w \<times> int"
  assumes schedule_law: "ok w \<Longrightarrow> usable w e \<Longrightarrow> due w e = None \<Longrightarrow> schedule now w e d = (w', st) \<Longrightarrow>
      st = PJ_SUCCESS \<and> ok w' \<and> due w' = (due w)(e \<mapsto> PJ_TIME_VAL_ADD now d) \<and> usable w' = usable w"
    and schedule_busy: "ok w \<Longrightarrow> usable w e \<Longrightarrow> due w e \<noteq> None \<Longrightarrow> schedule now w e d = (w, PJ_EINVALIDOP)"
    and stop_law: "ok w \<Longrightarrow> stop w e = (w', n) \<Longrightarrow>
      ok w' \<and> due w' = (due w)(e := None) \<and> n = (if due w e = None then 0 else 1) \<and> usable w' = usable w"
begin

lemma stop_twice:
  assumes "ok w"
  shows "snd (stop (fst (stop w e)) e) = 0"
  using stop_law [OF assms, of e] by (metis fst_conv fun_upd_same prod.collapse stop_law)

lemma restart:
  assumes ok: "ok w" and u: "usable w e"
    and s: "stop w e = (w1, n)" "schedule now w1 e d = (w2, st)"
  shows "st = PJ_SUCCESS" "ok w2" "due w2 = (due w)(e \<mapsto> PJ_TIME_VAL_ADD now d)" "usable w2 = usable w"
proof -
  have w1: "ok w1" "due w1 = (due w)(e := None)" "usable w1 = usable w" using stop_law [OF ok s(1)] by simp_all
  have "due w1 e = None" using w1 by simp
  from schedule_law [OF w1(1) _ this s(2)] show "st = PJ_SUCCESS" "ok w2"
    "due w2 = (due w)(e \<mapsto> PJ_TIME_VAL_ADD now d)" "usable w2 = usable w"
    using w1 u by simp_all
qed

lemma schedule_stop:
  assumes ok: "ok w" and u: "usable w e" and n: "due w e = None"
    and s: "schedule now w e d = (w1, st)" "stop w1 e = (w2, k)"
  shows "due w2 = due w" "k = 1" "ok w2"
  using schedule_law [OF ok u n s(1)] stop_law [OF _ s(2)] n by auto

end

definition has_cb :: "timer_world \<Rightarrow> nat \<Rightarrow> bool" where
  "has_cb w e \<longleftrightarrow> te_cb (tw_entries w e) \<noteq> 0"

lemma remove_node_cb:
  "te_cb (tw_entries (fst (remove_node w s)) x) = te_cb (tw_entries w x)"
  by (simp add: remove_node_def Let_def set_entry_timer_id_def)

lemma cancel_timer_cb: "te_cb (tw_entries (fst (cancel_timer w e f v)) x) = te_cb (tw_entries w x)"
proof -
  obtain w1 n where c: "cancel w e = (w1, n)" by fastforce
  have "te_cb (tw_entries w1 x) = te_cb (tw_entries w x)"
    using c remove_node_cb [of w _ x]
    by (auto simp: cancel_def Let_def set_entry_timer_id_def split: if_splits)
  then show ?thesis by (auto simp: cancel_timer_def Let_def c)
qed

lemma insert_node_entries: "tw_entries (fst (insert_node mem junk w e t)) = tw_entries w"
  by (auto simp: insert_node_def Let_def split: prod.split)

lemma schedule_cb:
  "te_cb (tw_entries (fst (schedule_w_grp_lock mem junk now w e d si v gl)) x) = te_cb (tw_entries w x)"
proof -
  obtain w1 st where s: "schedule_entry mem junk w e (PJ_TIME_VAL_ADD now d) = (w1, st)" by fastforce
  have "te_cb (tw_entries (fst (schedule_entry mem junk w e (PJ_TIME_VAL_ADD now d))) x) = te_cb (tw_entries w x)"
    by (auto simp: schedule_entry_def Let_def insert_node_entries set_entry_timer_id_def split: prod.split)
  then have "te_cb (tw_entries w1 x) = te_cb (tw_entries w x)" using s by simp
  then show ?thesis by (auto simp: schedule_w_grp_lock_def Let_def s)
qed

lemma deadline_None: "deadline w e = None \<longleftrightarrow> \<not> running w e"
  by (simp add: deadline_def)

text \<open>The timer heap implements the service, as long as the pool has memory.\<close>

interpretation ts: timer_service tw_ok deadline has_cb
  "\<lambda>now w e d. pj_timer_heap_schedule_w_grp_lock (\<lambda>_. True) junk now w e d idv gl"
  "\<lambda>w e. pj_timer_heap_cancel_if_active w e cid"
  for junk idv gl cid
proof
  fix w e now d w' st
  assume a: "tw_ok w" "has_cb w e" "deadline w e = None"
    "pj_timer_heap_schedule_w_grp_lock (\<lambda>_. True) junk now w e d idv gl = (w', st)"
  have r: "schedule_w_grp_lock (\<lambda>_. True) junk now w e d True idv gl = (w', st)"
    using a by (simp add: pj_timer_heap_schedule_w_grp_lock_def)
  have "has_cb w' = has_cb w"
    using schedule_cb [of "\<lambda>_. True" junk now w e d True idv gl] r by (auto simp: has_cb_def intro!: ext)
  then show "st = PJ_SUCCESS \<and> tw_ok w' \<and> deadline w' = (deadline w)(e \<mapsto> PJ_TIME_VAL_ADD now d) \<and> has_cb w' = has_cb w"
    using schedule_spec [OF a(1) _ _ _ r] a(2,3) by (simp add: has_cb_def deadline_None)
next
  fix w e now d
  assume "tw_ok w" "has_cb w e" "deadline w e \<noteq> None"
  then show "pj_timer_heap_schedule_w_grp_lock (\<lambda>_. True) junk now w e d idv gl = (w, PJ_EINVALIDOP)"
    by (simp add: pj_timer_heap_schedule_w_grp_lock_def deadline_None has_cb_def schedule_refused)
next
  fix w e w' n
  assume a: "tw_ok w" "pj_timer_heap_cancel_if_active w e cid = (w', n)"
  have r: "cancel_timer w e True cid = (w', n)" using a by (simp add: pj_timer_heap_cancel_if_active_def)
  have "has_cb w' = has_cb w"
    using cancel_timer_cb [of w e True cid] r by (auto simp: has_cb_def intro!: ext)
  then show "tw_ok w' \<and> deadline w' = (deadline w)(e := None) \<and> n = (if deadline w e = None then 0 else 1) \<and>
      has_cb w' = has_cb w"
    using cancel_timer_spec [OF a(1) r] by (simp add: deadline_None)
qed

section \<open>Polling\<close>

definition good_callback :: "(nat \<Rightarrow> timer_world \<Rightarrow> timer_world) \<Rightarrow> bool" where
  "good_callback cb \<longleftrightarrow> (\<forall>e w. tw_ok w \<longrightarrow> tw_ok (cb e w) \<and>
     th_max_entries_per_poll (tw_ht (cb e w)) = th_max_entries_per_poll (tw_ht w))"

definition quiet_callback :: "(nat \<Rightarrow> timer_world \<Rightarrow> timer_world) \<Rightarrow> bool" where
  "quiet_callback cb \<longleftrightarrow> (\<forall>e w. tw_ht (cb e w) = tw_ht w \<and> tw_entries (cb e w) = tw_entries w)"

lemma poll_one_good:
  assumes ok: "tw_ok w" and ne: "th_cur_size (tw_ht w) \<noteq> 0" and g: "good_callback cb"
    and r: "poll_one cb w = (w', f)"
  shows "tw_ok w'" "th_max_entries_per_poll (tw_ht w') = th_max_entries_per_poll (tw_ht w)"
    "f = None \<or> f = Some (owner (tw_ht w) (th_heap (tw_ht w) ! 0))"
  by (rule poll_one_removed [OF ok ne refl refl];
      use g r in \<open>auto simp: good_callback_def Let_def split: if_splits\<close>)+

lemma poll_loop_stop:
  "\<not> (th_cur_size (tw_ht w) \<noteq> 0 \<and> tmin \<le> now \<and> cnt < th_max_entries_per_poll (tw_ht w)) \<Longrightarrow>
   poll_loop cb tick w cnt now tmin = Some (w, cnt, now, [])"
  by (subst poll_loop.simps) (rule if_not_P, simp)

lemma poll_loop_good:
  assumes g: "good_callback cb"
  shows "tw_ok w \<Longrightarrow> L = th_max_entries_per_poll (tw_ht w) \<Longrightarrow> cnt \<le> L \<Longrightarrow>
    \<exists>w' n now' fs. poll_loop cb tick w cnt now tmin = Some (w', n, now', fs) \<and> tw_ok w' \<and>
      cnt \<le> n \<and> n \<le> L \<and> cnt + length fs \<le> n \<and> th_max_entries_per_poll (tw_ht w') = L"
proof (induction "L - cnt" arbitrary: w cnt now tmin rule: less_induct)
  case less
  show ?case
  proof (cases "th_cur_size (tw_ht w) \<noteq> 0 \<and> tmin \<le> now \<and> cnt < L")
    case False
    then have "poll_loop cb tick w cnt now tmin = Some (w, cnt, now, [])"
      using less.prems by (intro poll_loop_stop) simp
    then show ?thesis using less.prems by simp
  next
    case True
    obtain w1 f where r: "poll_one cb w = (w1, f)" by fastforce
    have ne: "th_cur_size (tw_ht w) \<noteq> 0" using True by simp
    note G = poll_one_good [OF less.prems(1) ne g r]
    obtain tmin' now1 where t: "(if th_cur_size (tw_ht w1) \<noteq> 0
        then (value_at (tw_ht w1) (th_heap (tw_ht w1) ! 0), tick (cnt + 1)) else (tmin, now)) = (tmin', now1)"
      by fastforce
    have dec: "L - (cnt + 1) < L - cnt" "cnt + 1 \<le> L" "L = th_max_entries_per_poll (tw_ht w1)"
      using True G less.prems by auto
    obtain w' n now' fs where IH: "poll_loop cb tick w1 (cnt + 1) now1 tmin' = Some (w', n, now', fs)"
      "tw_ok w'" "cnt + 1 \<le> n" "n \<le> L" "cnt + 1 + length fs \<le> n" "th_max_entries_per_poll (tw_ht w') = L"
      using less.hyps [OF dec(1) G(1) dec(3,2), of now1 tmin'] by blast
    have "poll_loop cb tick w cnt now tmin =
        Some (w', n, now', (case f of None \<Rightarrow> fs | Some e \<Rightarrow> e # fs))"
      using True r t IH(1) less.prems(2) by (subst poll_loop.simps) (auto simp: Let_def split: if_splits)
    then show ?thesis using IH by (auto split: option.splits)
  qed
qed

lemma poll_one_quiet:
  assumes ok: "tw_ok w" and ne: "th_cur_size (tw_ht w) \<noteq> 0" and q: "quiet_callback cb" and f: "fresh w"
    and e: "e = owner (tw_ht w) (th_heap (tw_ht w) ! 0)"
  obtains w' where "poll_one cb w = (w', Some e)" "tw_ok w'" "fresh w'"
    "deadline w' = (deadline w)(e := None)"
    "th_max_entries_per_poll (tw_ht w') = th_max_entries_per_poll (tw_ht w)"
proof -
  let ?p = "th_heap (tw_ht w) ! 0"
  have pl: "?p \<in> set (live (tw_ht w))" using ne live_member [OF tw_okD(1) [OF ok]] by blast
  have v: "te_cb (td_dup (dup_at (tw_ht w) ?p)) = te_cb (tw_entries w e)"
    "te_user_data (td_dup (dup_at (tw_ht w) ?p)) = te_user_data (tw_entries w e)" "te_cb (tw_entries w e) \<noteq> 0"
    using f pl e by (auto simp: fresh_def)
  obtain w1 where w1: "tw_ok w1" "deadline w1 = (deadline w)(e := None)"
    "th_max_entries_per_poll (tw_ht w1) = th_max_entries_per_poll (tw_ht w)" "fresh w1"
    "poll_one cb w = (add_ref (cb e w1) (td_grp_lock (dup_at (tw_ht w) ?p)) (- 1), Some e)"
    by (rule poll_one_removed [OF ok ne refl e]) (use v f in \<open>simp add: Let_def\<close>)
  have s: "tw_ht (cb e w1) = tw_ht w1" "tw_entries (cb e w1) = tw_entries w1"
    using q by (auto simp: quiet_callback_def)
  have "tw_ok (cb e w1)" "deadline (cb e w1) = deadline w1" "fresh (cb e w1)"
    using w1(1,4) by (auto simp: tw_ok_def deadline_def fresh_def s intro!: ext)
  then show ?thesis
    using w1 s by (intro that [of "add_ref (cb e w1) (td_grp_lock (dup_at (tw_ht w) ?p)) (- 1)"])
      (simp_all add: fresh_def)
qed

text \<open>
  One run of the loop with callbacks that do not touch timers: what is fired, in which order,
  and what is left.
\<close>

definition polled :: "(nat \<rightharpoonup> pj_time_val) \<Rightarrow> (nat \<Rightarrow> pj_time_val) \<Rightarrow> nat \<Rightarrow> nat \<Rightarrow> nat list \<Rightarrow> (nat \<rightharpoonup> pj_time_val) \<Rightarrow> bool" where
  "polled D tick cnt L fs D' \<longleftrightarrow>
     set fs \<subseteq> dom D \<and> distinct fs \<and> sorted (map (\<lambda>e. the (D e)) fs) \<and>
     D' = D |` (- set fs) \<and> cnt + length fs \<le> L \<and>
     (\<forall>i<length fs. the (D (fs ! i)) \<le> tick (cnt + i)) \<and>
     (\<forall>e\<in>set fs. \<forall>y t. D' y = Some t \<longrightarrow> the (D e) \<le> t) \<and>
     (cnt + length fs = L \<or> (\<forall>y t. D' y = Some t \<longrightarrow> tick (cnt + length fs) < t))"

lemma polled_Cons:
  assumes e: "D e = Some u" "u \<le> tick cnt" "\<And>y t. D y = Some t \<Longrightarrow> u \<le> t"
    and p: "polled (D(e := None)) tick (cnt + 1) L fs D'"
  shows "polled D tick cnt L (e # fs) D'"
proof -
  let ?D = "D(e := None)"
  have ne: "e \<notin> set fs" using p by (auto simp: polled_def)
  have same: "the (?D y) = the (D y)" if "y \<in> set fs" for y using that ne by auto
  have m: "map (\<lambda>y. the (?D y)) fs = map (\<lambda>y. the (D y)) fs" using same by simp
  have d: "set fs \<subseteq> dom ?D" using p by (simp add: polled_def)
  have le: "u \<le> the (D y)" if "y \<in> set fs" for y
    using that d e(3) [of y] by (force split: if_splits)
  have D': "D' = D |` (- set (e # fs))" using p by (auto simp: polled_def restrict_map_def)
  have nth: "the (D ((e # fs) ! i)) \<le> tick (cnt + i)" if "i < length (e # fs)" for i
  proof (cases i)
    case 0
    then show ?thesis using e by simp
  next
    case (Suc j)
    then have j: "j < length fs" using that by simp
    then have "the (?D (fs ! j)) \<le> tick (cnt + 1 + j)" using p by (simp add: polled_def)
    then show ?thesis using Suc same [of "fs ! j"] j by simp
  qed
  have rest: "the (D x) \<le> t" if "x \<in> set (e # fs)" "D' y = Some t" for x y t
  proof (cases "x = e")
    case True
    then show ?thesis using e that D' by (auto simp: restrict_map_def split: if_splits)
  next
    case False
    then show ?thesis using that p same [of x] by (auto simp: polled_def)
  qed
  show ?thesis
    unfolding polled_def
  proof (intro conjI)
    show "set (e # fs) \<subseteq> dom D" using d e by auto
    show "distinct (e # fs)" using ne p by (simp add: polled_def)
    have "sorted (map (\<lambda>y. the (D y)) fs)" using p unfolding polled_def m by blast
    then show "sorted (map (\<lambda>e. the (D e)) (e # fs))" using le e(1) by auto
    show "D' = D |` (- set (e # fs))" by (rule D')
    show "cnt + length (e # fs) \<le> L" using p by (simp add: polled_def)
    show "\<forall>i<length (e # fs). the (D ((e # fs) ! i)) \<le> tick (cnt + i)" using nth by blast
    show "\<forall>x\<in>set (e # fs). \<forall>y t. D' y = Some t \<longrightarrow> the (D x) \<le> t" using rest by blast
    show "cnt + length (e # fs) = L \<or> (\<forall>y t. D' y = Some t \<longrightarrow> tick (cnt + length (e # fs)) < t)"
      using p by (auto simp: polled_def)
  qed
qed

lemma poll_loop_quiet:
  assumes q: "quiet_callback cb"
  shows "tw_ok w \<Longrightarrow> fresh w \<Longrightarrow> L = th_max_entries_per_poll (tw_ht w) \<Longrightarrow> cnt \<le> L \<Longrightarrow>
    (th_cur_size (tw_ht w) \<noteq> 0 \<Longrightarrow> now = tick cnt \<and> tmin = value_at (tw_ht w) (th_heap (tw_ht w) ! 0)) \<Longrightarrow>
    \<exists>w' now' fs. poll_loop cb tick w cnt now tmin = Some (w', cnt + length fs, now', fs) \<and> tw_ok w' \<and>
      polled (deadline w) tick cnt L fs (deadline w')"
proof (induction "L - cnt" arbitrary: w cnt now tmin rule: less_induct)
  case less
  note prems = less.prems
  have none: "polled (deadline w) tick cnt L [] (deadline w)"
    if "\<not> (th_cur_size (tw_ht w) \<noteq> 0 \<and> tmin \<le> now \<and> cnt < L)"
  proof -
    have "cnt = L \<or> (\<forall>y t. deadline w y = Some t \<longrightarrow> tick cnt < t)"
    proof (cases "th_cur_size (tw_ht w) = 0")
      case True
      then show ?thesis using empty_deadline [OF prems(1)] by simp
    next
      case False
      have "tick cnt < t" if "deadline w y = Some t" "cnt \<noteq> L" for y t
        using root_earliest(2) [OF prems(1) False refl refl that(1)] prems(4,5) that(2) False
          \<open>\<not> (th_cur_size (tw_ht w) \<noteq> 0 \<and> tmin \<le> now \<and> cnt < L)\<close> by force
      then show ?thesis by blast
    qed
    then show ?thesis using prems(4) by (auto simp: polled_def restrict_map_def)
  qed
  show ?case
  proof (cases "th_cur_size (tw_ht w) \<noteq> 0 \<and> tmin \<le> now \<and> cnt < L")
    case False
    then have "poll_loop cb tick w cnt now tmin = Some (w, cnt, now, [])"
      using prems(3) by (intro poll_loop_stop) simp
    then show ?thesis using prems(1) none [OF False] by (intro exI [of _ w] exI [of _ now] exI [of _ "[]"]) simp
  next
    case True
    have ne: "th_cur_size (tw_ht w) \<noteq> 0" using True by simp
    define e where "e = owner (tw_ht w) (th_heap (tw_ht w) ! 0)"
    obtain w1 where r: "poll_one cb w = (w1, Some e)" and w1: "tw_ok w1" "fresh w1"
      "deadline w1 = (deadline w)(e := None)" "th_max_entries_per_poll (tw_ht w1) = th_max_entries_per_poll (tw_ht w)"
      by (rule poll_one_quiet [OF prems(1) ne q prems(2) e_def])
    define x where "x = (if th_cur_size (tw_ht w1) \<noteq> 0
        then (value_at (tw_ht w1) (th_heap (tw_ht w1) ! 0), tick (cnt + 1)) else (tmin, now))"
    have dec: "L - (cnt + 1) < L - cnt" "cnt + 1 \<le> L" "L = th_max_entries_per_poll (tw_ht w1)"
      using True w1(4) prems(3) by auto
    obtain w' now' fs where IH: "poll_loop cb tick w1 (cnt + 1) (snd x) (fst x) = Some (w', cnt + 1 + length fs, now', fs)"
      "tw_ok w'" "polled (deadline w1) tick (cnt + 1) L fs (deadline w')"
      using less.hyps [OF dec(1) w1(1,2) dec(3,2), of "snd x" "fst x"] by (auto simp: x_def)
    have "poll_loop cb tick w cnt now tmin = Some (w', cnt + length (e # fs), now', e # fs)"
      using True r IH(1) prems(3) by (subst poll_loop.simps) (auto simp: Let_def x_def split: if_splits)
    moreover have "polled (deadline w) tick cnt L (e # fs) (deadline w')"
      by (rule polled_Cons [where u = tmin])
        (use root_earliest [OF prems(1) ne refl e_def] prems(5) ne True IH(3) w1(3) in auto)
    ultimately show ?thesis using IH(2) by blast
  qed
qed

section \<open>Properties\<close>

text \<open>Scheduling a timer entry that has a callback and is not running always succeeds (the
  heap grows when it is full), keeps the heap well formed and arms exactly that entry, at the
  current time plus the delay; the expiry times of all other entries are unchanged.  An entry
  that is already running is refused and nothing changes.\<close>

theorem timer_schedule_arms:
  assumes "tw_ok w" "te_cb (tw_entries w e) \<noteq> 0"
  shows "if running w e
    then pj_timer_heap_schedule (\<lambda>_. True) junk now w e delay = (w, PJ_EINVALIDOP)
    else \<exists>w'. pj_timer_heap_schedule (\<lambda>_. True) junk now w e delay = (w', PJ_SUCCESS) \<and> tw_ok w' \<and>
      deadline w' = (deadline w)(e \<mapsto> PJ_TIME_VAL_ADD now delay)"
proof (cases "running w e")
  case True
  then show ?thesis using assms by (simp add: pj_timer_heap_schedule_def schedule_refused)
next
  case False
  obtain w' st where r: "schedule_w_grp_lock (\<lambda>_. True) junk now w e delay False 1 None = (w', st)" by fastforce
  then show ?thesis
    using schedule_spec [OF assms(1) False assms(2) _ r] False by (simp add: pj_timer_heap_schedule_def)
qed

text \<open>Cancelling a timer disarms exactly that entry wherever it is in the heap, keeps the heap
  well formed, and returns 1 if the entry was running and 0 (changing nothing) if it was
  not.\<close>

theorem timer_cancel_disarms:
  assumes "tw_ok w"
  shows "\<exists>w'. pj_timer_heap_cancel w e = (w', if running w e then 1 else 0) \<and> tw_ok w' \<and>
    deadline w' = (deadline w)(e := None) \<and> (\<not> running w e \<longrightarrow> w' = w)"
proof -
  obtain w' n where c: "cancel_timer w e False 0 = (w', n)" by fastforce
  from cancel_timer_spec [OF assms c] c show ?thesis by (simp add: pj_timer_heap_cancel_def)
qed

text \<open>A poll with callbacks that keep the heap well formed (they may schedule and cancel
  timers) always returns, keeps the heap well formed, and processes no more entries than the
  configured maximum.\<close>

theorem timer_poll_total:
  assumes "tw_ok w" "good_callback cb"
  shows "\<exists>w' n d fs. pj_timer_heap_poll cb tick w = Some (w', n, d, fs) \<and> tw_ok w' \<and>
    n \<le> th_max_entries_per_poll (tw_ht w) \<and> length fs \<le> n"
proof -
  let ?m = "value_at (tw_ht w) (th_heap (tw_ht w) ! 0)"
  obtain w' n now' fs where "poll_loop cb tick w 0 (tick 0) ?m = Some (w', n, now', fs)" "tw_ok w'"
    "n \<le> th_max_entries_per_poll (tw_ht w)" "length fs \<le> n"
    using poll_loop_good [OF assms(2,1) refl, of 0 tick "tick 0" ?m] by auto
  then show ?thesis using assms(1) by (simp add: pj_timer_heap_poll_def Let_def)
qed


text \<open>The earliest time the heap reports is the smallest expiry time of the running entries,
  and it reports that there is none exactly when no entry is running.\<close>

theorem timer_earliest_is_minimum:
  assumes "tw_ok w"
  shows "case pj_timer_heap_earliest_time (tw_ht w) of
      Inl st \<Rightarrow> st = PJ_ENOTFOUND \<and> dom (deadline w) = {}
    | Inr t \<Rightarrow> t \<in> ran (deadline w) \<and> (\<forall>t'\<in>ran (deadline w). t \<le> t')"
proof (cases "th_cur_size (tw_ht w) = 0")
  case True
  then show ?thesis using empty_deadline [OF assms] by (auto simp: pj_timer_heap_earliest_time_def)
next
  case False
  then show ?thesis
    using root_earliest [OF assms False refl refl] by (auto simp: pj_timer_heap_earliest_time_def ran_def)
qed

text \<open>When the heap has to grow and the pool is out of memory, scheduling fails with
  \<^verbatim>\<open>PJ_ENOMEM\<close> but leaves the timer id in the caller's entry: the entry counts as
  running although it is not in the heap, and scheduling it again is refused.\<close>

theorem timer_schedule_enomem_stuck:
  assumes ok: "tw_ok w" and cb: "te_cb (tw_entries w e) \<noteq> 0" and nr: "\<not> running w e"
    and full: "th_cur_size (tw_ht w) + 2 \<ge> th_max_size (tw_ht w)" and m: "\<not> mem 0"
  shows "\<exists>w'. pj_timer_heap_schedule mem junk now w e delay = (w', PJ_ENOMEM) \<and> running w' e \<and>
    th_heap (tw_ht w') = th_heap (tw_ht w) \<and> th_cur_size (tw_ht w') = th_cur_size (tw_ht w) \<and>
    pj_timer_heap_schedule mem' junk' now' w' e delay' = (w', PJ_EINVALIDOP)"
proof -
  have ho: "th_ok (tw_ht w)" by (rule tw_okD(1) [OF ok])
  obtain ht1 i where p: "pop_freelist (tw_ht w) = (ht1, i)" by fastforce
  note P = pop_freelist_core [OF ho p]
  have hh: "th_heap ht1 = th_heap (tw_ht w)" using p by (auto simp: pop_freelist_def Let_def)
  define w1 where "w1 = set_entry_timer_id (w\<lparr>tw_ht := ht1\<rparr>) e i"
  have w1: "tw_ht w1 = ht1" "te_timer_id (tw_entries w1 e) = i" "te_cb (tw_entries w1 e) = te_cb (tw_entries w e)"
    by (simp_all add: w1_def set_entry_timer_id_def)
  have "insert_node mem junk w1 e t = (w1\<lparr>tw_ht := ht1\<rparr>, PJ_ENOMEM)" for t
    using full m P(6,7) by (simp add: insert_node_def w1 grow_heap_def Let_def)
  moreover have "w1\<lparr>tw_ht := ht1\<rparr> = w1" by (simp add: w1_def set_entry_timer_id_def)
  ultimately have s: "schedule_entry mem junk w e t = (w1, PJ_ENOMEM)" for t
    using p th_okD(4) [OF ho] by (simp add: schedule_entry_def w1_def)
  then have "pj_timer_heap_schedule mem junk now w e delay = (w1, PJ_ENOMEM)"
    using nr cb by (simp add: pj_timer_heap_schedule_def schedule_w_grp_lock_def Let_def)
  moreover have run: "running w1 e" using w1 P(2) by (simp add: pj_timer_entry_running_def)
  moreover have "pj_timer_heap_schedule mem' junk' now' w1 e delay' = (w1, PJ_EINVALIDOP)"
    using run cb w1 by (simp add: pj_timer_heap_schedule_def schedule_refused)
  ultimately show ?thesis using w1 hh P(7) by auto
qed

section \<open>Witnesses\<close>

definition demo_dup :: pj_timer_entry_dup where
  "demo_dup = \<lparr>td_dup = pj_timer_entry_init 0 0 0, td_entry = 0, td_timer_value = Time_val 0 0, td_grp_lock = None\<rparr>"

text \<open>An empty heap of two entries, and a memory of initialised timer entries.\<close>

definition demo_world :: timer_world where
  "demo_world = \<lparr>tw_ht = pj_timer_heap_create 0 [demo_dup, demo_dup],
     tw_entries = (\<lambda>_. pj_timer_entry_init 0 0 7), tw_refs = (\<lambda>_. 0)\<rparr>"

lemma create_ok:
  assumes "length dups0 = size0 + 2"
  shows "th_ok (pj_timer_heap_create size0 dups0)"
proof -
  let ?ids = "map (\<lambda>i. - (int i + 1)) [0..<size0 + 2]"
  have "fchain ?ids (int 1) [1..<size0 + 2] (size0 + 2)"
  proof (rule fchain_upt)
    show "\<forall>i\<in>{1..<size0 + 2}. ?ids ! i = - (int i + 1)"
    proof
      fix i
      assume "i \<in> {1..<size0 + 2}"
      then show "?ids ! i = - (int i + 1)" by (simp del: upt_Suc)
    qed
  qed simp
  then show ?thesis
    using assms unfolding th_ok_def pj_timer_heap_create_def Let_def
    by (auto simp: live_def heap_ordered_def simp del: fchain.simps upt_Suc intro!: exI [of _ "[1..<size0 + 2]"])
qed

lemma demo_ok: "tw_ok demo_world"
  using create_ok [of "[demo_dup, demo_dup]" 0]
  by (simp add: tw_ok_def demo_world_def pj_timer_entry_running_def pj_timer_entry_init_def)
    (simp add: live_def pj_timer_heap_create_def)

lemma demo_fresh: "fresh demo_world"
  by (simp add: fresh_def demo_world_def live_def pj_timer_heap_create_def)

lemma demo_cb: "te_cb (tw_entries demo_world e) \<noteq> 0" "\<not> running demo_world e"
  by (simp_all add: demo_world_def pj_timer_entry_init_def pj_timer_entry_running_def)

lemma timer_schedule_arms_witness:
  "\<exists>w'. pj_timer_heap_schedule (\<lambda>_. True) demo_dup (Time_val 5 900) demo_world 3 (Time_val 1 200) = (w', PJ_SUCCESS) \<and>
     tw_ok w' \<and> deadline w' = (deadline demo_world)(3 \<mapsto> PJ_TIME_VAL_ADD (Time_val 5 900) (Time_val 1 200))"
  using timer_schedule_arms [OF demo_ok demo_cb(1), of 3 demo_dup "Time_val 5 900" "Time_val 1 200"]
    demo_cb(2) [of 3] by simp

lemma timer_cancel_disarms_witness:
  "\<exists>w'. pj_timer_heap_cancel demo_world 3 = (w', 0) \<and> tw_ok w'"
  using timer_cancel_disarms [OF demo_ok, of 3] demo_cb(2) [of 3] by auto

lemma timer_poll_total_witness:
  "\<exists>w' n d fs. pj_timer_heap_poll (\<lambda>e w. w) (\<lambda>_. Time_val 9 0) demo_world = Some (w', n, d, fs) \<and> tw_ok w'"
  using timer_poll_total [OF demo_ok, of "\<lambda>e w. w" "\<lambda>_. Time_val 9 0"] by (auto simp: good_callback_def)


lemma timer_earliest_is_minimum_witness:
  "pj_timer_heap_earliest_time (tw_ht demo_world) = Inl PJ_ENOTFOUND \<and> dom (deadline demo_world) = {}"
  using timer_earliest_is_minimum [OF demo_ok]
  by (simp add: pj_timer_heap_earliest_time_def demo_world_def pj_timer_heap_create_def)

lemma timer_schedule_enomem_stuck_witness:
  "\<exists>w'. pj_timer_heap_schedule (\<lambda>_. False) demo_dup (Time_val 5 900) demo_world 3 (Time_val 1 200) = (w', PJ_ENOMEM) \<and>
     running w' 3"
proof -
  have "th_cur_size (tw_ht demo_world) + 2 \<ge> th_max_size (tw_ht demo_world)"
    by (simp add: demo_world_def pj_timer_heap_create_def)
  then show ?thesis
    using timer_schedule_enomem_stuck [OF demo_ok demo_cb, of "\<lambda>_. False"] by blast
qed

end
