(* ===== verification/Pjnath_Errno.thy ===== *)
theory Pjnath_Errno
  imports Pj_Prelude
begin

text \<open>
  The status codes of \<^verbatim>\<open>pjnath/include/pjnath/errno.h\<close> that the STUN transaction and the STUN
  message codec return.
\<close>

definition PJNATH_ERRNO_START :: int where "PJNATH_ERRNO_START = 370000"
definition PJNATH_EINSTUNMSGLEN :: pj_status where "PJNATH_EINSTUNMSGLEN = PJ_EOTHER (PJNATH_ERRNO_START + 2)"
definition PJNATH_EINSTUNMSGTYPE :: pj_status where "PJNATH_EINSTUNMSGTYPE = PJ_EOTHER (PJNATH_ERRNO_START + 3)"
definition PJNATH_ESTUNTIMEDOUT :: pj_status where "PJNATH_ESTUNTIMEDOUT = PJ_EOTHER (PJNATH_ERRNO_START + 4)"
definition PJNATH_ESTUNTOOMANYATTR :: pj_status where "PJNATH_ESTUNTOOMANYATTR = PJ_EOTHER (PJNATH_ERRNO_START + 21)"
definition PJNATH_ESTUNINATTRLEN :: pj_status where "PJNATH_ESTUNINATTRLEN = PJ_EOTHER (PJNATH_ERRNO_START + 22)"
definition PJNATH_ESTUNDUPATTR :: pj_status where "PJNATH_ESTUNDUPATTR = PJ_EOTHER (PJNATH_ERRNO_START + 23)"
definition PJNATH_ESTUNFINGERPRINT :: pj_status where "PJNATH_ESTUNFINGERPRINT = PJ_EOTHER (PJNATH_ERRNO_START + 30)"
definition PJNATH_ESTUNMSGINTPOS :: pj_status where "PJNATH_ESTUNMSGINTPOS = PJ_EOTHER (PJNATH_ERRNO_START + 31)"
definition PJNATH_ESTUNFINGERPOS :: pj_status where "PJNATH_ESTUNFINGERPOS = PJ_EOTHER (PJNATH_ERRNO_START + 33)"
definition PJNATH_EINVAF :: pj_status where "PJNATH_EINVAF = PJ_EOTHER (PJNATH_ERRNO_START + 42)"
definition PJNATH_ESTUNDESTROYED :: pj_status where "PJNATH_ESTUNDESTROYED = PJ_EOTHER (PJNATH_ERRNO_START + 60)"

definition PJ_STATUS_FROM_STUN_CODE :: "int \<Rightarrow> pj_status" where
  "PJ_STATUS_FROM_STUN_CODE c = PJ_EOTHER (PJNATH_ERRNO_START + c)"

end
