(* ===== verification/Packet.thy ===== *)
theory Packet
  imports Pj_Prelude
begin

text \<open>
  Reading and writing packets with explicit memory faults, shared by the models of the DNS and
  STUN codecs.  A packet is the list of bytes that belong to the caller's buffer; a read outside it
  is the result \<open>Fault\<close>, an error status the result \<open>Fail\<close>.  \<open>safe m P\<close> says that a computation
  has no fault and that its result, if it has one, satisfies \<open>P\<close>: its rules let the simplifier
  walk through a parser.
\<close>

datatype 'a parse = Fault | Fail pj_status | Done 'a

fun pbind :: "'a parse \<Rightarrow> ('a \<Rightarrow> 'b parse) \<Rightarrow> 'b parse" where
  "pbind Fault f = Fault"
| "pbind (Fail e) f = Fail e"
| "pbind (Done x) f = f x"

definition rd8 :: "u8 list \<Rightarrow> nat \<Rightarrow> u8 parse" where
  "rd8 pkt i = (if i < length pkt then Done (pkt ! i) else Fault)"

definition rd_bytes :: "u8 list \<Rightarrow> nat \<Rightarrow> nat \<Rightarrow> (u8 list) parse" where
  "rd_bytes pkt i n = (if i + n \<le> length pkt then Done (take n (drop i pkt)) else Fault)"

text \<open>Integers in network byte order.\<close>

definition be16 :: "u8 \<Rightarrow> u8 \<Rightarrow> u16" where
  "be16 a b = push_bit 8 (ucast a) OR ucast b"

definition be32 :: "u8 \<Rightarrow> u8 \<Rightarrow> u8 \<Rightarrow> u8 \<Rightarrow> u32" where
  "be32 a b c d = push_bit 24 (ucast a) OR push_bit 16 (ucast b) OR push_bit 8 (ucast c) OR ucast d"

text \<open>A 32-bit load on a little-endian machine.\<close>

definition le32_at :: "u8 \<Rightarrow> u8 \<Rightarrow> u8 \<Rightarrow> u8 \<Rightarrow> u32" where
  "le32_at b0 b1 b2 b3 = ucast b0 OR push_bit 8 (ucast b1) OR push_bit 16 (ucast b2) OR push_bit 24 (ucast b3)"

definition rd16 :: "u8 list \<Rightarrow> nat \<Rightarrow> u16 parse" where
  "rd16 pkt i = (if i + 1 < length pkt then Done (be16 (pkt ! i) (pkt ! (i + 1))) else Fault)"

definition rd32 :: "u8 list \<Rightarrow> nat \<Rightarrow> u32 parse" where
  "rd32 pkt i = (if i + 3 < length pkt then Done (be32 (pkt ! i) (pkt ! (i + 1)) (pkt ! (i + 2)) (pkt ! (i + 3))) else Fault)"

definition put16 :: "u16 \<Rightarrow> u8 list" where
  "put16 v = [ucast (drop_bit 8 v), ucast v]"

definition put32 :: "u32 \<Rightarrow> u8 list" where
  "put32 v = [ucast (drop_bit 24 v), ucast (drop_bit 16 v), ucast (drop_bit 8 v), ucast v]"

definition put_le32 :: "u32 \<Rightarrow> u8 list" where
  "put_le32 v = [ucast v, ucast (drop_bit 8 v), ucast (drop_bit 16 v), ucast (drop_bit 24 v)]"

text \<open>Writing bytes into memory, which must hold them.\<close>

definition mem_put :: "u8 list \<Rightarrow> nat \<Rightarrow> u8 list \<Rightarrow> u8 list" where
  "mem_put buf j bs = take j buf @ bs @ drop (j + length bs) buf"

definition wr_bytes :: "u8 list \<Rightarrow> nat \<Rightarrow> u8 list \<Rightarrow> (u8 list) parse" where
  "wr_bytes mem i bs = (if i + length bs \<le> length mem then Done (mem_put mem i bs) else Fault)"

section \<open>Round trips of integers\<close>

lemma be16_put16 [simp]: "be16 (ucast (drop_bit 8 v)) (ucast v) = v"
  unfolding be16_def by (rule bit_word_eqI) (auto simp: bit_simps)

lemma be32_put32 [simp]: "be32 (ucast (drop_bit 24 v)) (ucast (drop_bit 16 v)) (ucast (drop_bit 8 v)) (ucast v) = v"
proof (rule bit_word_eqI)
  fix n assume "n < LENGTH(32)"
  consider "n < 8" | "8 \<le> n" "n < 16" | "16 \<le> n" "n < 24" | "24 \<le> n" by linarith
  then show "bit (be32 (ucast (drop_bit 24 v)) (ucast (drop_bit 16 v)) (ucast (drop_bit 8 v)) (ucast v)) n = bit v n"
    by cases (use \<open>n < LENGTH(32)\<close> in \<open>auto simp: be32_def bit_simps\<close>)
qed

lemma put16_be16 [simp]: "ucast (drop_bit 8 (be16 a b)) = a" "ucast (be16 a b) = b"
  unfolding be16_def by (rule bit_word_eqI, auto simp: bit_simps dest: bit_imp_le_length)+

lemma length_put [simp]: "length (put16 v) = 2" "length (put32 w) = 4"
  by (simp_all add: put16_def put32_def)

lemma rd_at:
  "length xs = i \<Longrightarrow> rd16 (xs @ put16 v @ ys) i = Done v"
  "length xs = i \<Longrightarrow> rd32 (xs @ put32 w @ ys) i = Done w"
  "length xs = i \<Longrightarrow> length b = n \<Longrightarrow> rd_bytes (xs @ b @ ys) i n = Done b"
  "length xs = i \<Longrightarrow> rd8 (xs @ c # ys) i = Done c"
  by (auto simp: rd16_def rd32_def rd8_def rd_bytes_def put16_def put32_def nth_append)

lemma mem_put_facts:
  assumes "j + length bs \<le> length buf"
  shows "length (mem_put buf j bs) = length buf" "take (j + length bs) (mem_put buf j bs) = take j buf @ bs"
  using assms by (simp_all add: mem_put_def)

section \<open>Computations without a fault\<close>

definition safe :: "'a parse \<Rightarrow> ('a \<Rightarrow> bool) \<Rightarrow> bool" where
  "safe m P = (case m of Fault \<Rightarrow> False | Fail e \<Rightarrow> True | Done x \<Rightarrow> P x)"

lemma safe_simps [simp]:
  "safe (Done x) P = P x"
  "safe (Fail e) P"
  "\<not> safe Fault P"
  by (simp_all add: safe_def)

lemma safe_bind [simp]: "safe (pbind m f) P = safe m (\<lambda>x. safe (f x) P)"
  by (cases m) simp_all

lemma safe_if [simp]: "safe (if c then m else n) P = (if c then safe m P else safe n P)"
  by simp

lemma safe_case_prod [simp]: "safe (case x of (a, b) \<Rightarrow> f a b) P = (case x of (a, b) \<Rightarrow> safe (f a b) P)"
  by (cases x) simp

lemma safe_read [simp]:
  "i < length pkt \<Longrightarrow> safe (rd8 pkt i) P = P (pkt ! i)"
  "i + 1 < length pkt \<Longrightarrow> safe (rd16 pkt i) Q = Q (be16 (pkt ! i) (pkt ! (i + 1)))"
  "i + 3 < length pkt \<Longrightarrow> safe (rd32 pkt i) R = R (be32 (pkt ! i) (pkt ! (i + 1)) (pkt ! (i + 2)) (pkt ! (i + 3)))"
  "i + n \<le> length pkt \<Longrightarrow> safe (rd_bytes pkt i n) S = S (take n (drop i pkt))"
  by (simp_all add: rd8_def rd16_def rd32_def rd_bytes_def)

lemma safe_mono: "safe m P \<Longrightarrow> (\<And>x. m = Done x \<Longrightarrow> P x \<Longrightarrow> Q x) \<Longrightarrow> safe m Q"
  by (cases m) simp_all

lemma safe_bindI: "safe m Q \<Longrightarrow> (\<And>x. m = Done x \<Longrightarrow> Q x \<Longrightarrow> safe (f x) P) \<Longrightarrow> safe (pbind m f) P"
  by (cases m) simp_all

lemma safe_not_fault: "safe m P \<Longrightarrow> m \<noteq> Fault"
  by auto

lemma safe_Done: "safe m P \<Longrightarrow> m = Done x \<Longrightarrow> P x"
  by simp

lemma pbind_Done: "pbind m f = Done y \<longleftrightarrow> (\<exists>x. m = Done x \<and> f x = Done y)"
  by (cases m) simp_all

lemma pbind_cong [fundef_cong]: "m = n \<Longrightarrow> (\<And>x. n = Done x \<Longrightarrow> f x = g x) \<Longrightarrow> pbind m f = pbind n g"
  by (cases n) simp_all

end
