(* ===== verification/Block_Hash.thy ===== *)
theory Block_Hash
  imports Packet
begin

text \<open>
  What the digests of \<^verbatim>\<open>pjlib-util\<close> share: the iteration of a compression function over blocks of 64
  bytes, the 64-bit counter of bits in two words, and the contract of a digest that is fed in pieces.
\<close>

section \<open>Blocks\<close>

function fold_blocks :: "('s \<Rightarrow> u8 list \<Rightarrow> 's) \<Rightarrow> 's \<Rightarrow> u8 list \<Rightarrow> 's" where
  "fold_blocks f h m = (if length m < 64 then h else fold_blocks f (f h (take 64 m)) (drop 64 m))"
  by pat_completeness auto
termination by (relation "measure (\<lambda>(_, _, m). length m)") auto

declare fold_blocks.simps [simp del]

text \<open>The whole blocks of some data and what remains.\<close>

definition whole64 :: "u8 list \<Rightarrow> u8 list" where
  "whole64 d = take (length d div 64 * 64) d"

definition rest64 :: "u8 list \<Rightarrow> u8 list" where
  "rest64 d = drop (length d div 64 * 64) d"

lemma whole_rest: "whole64 d @ rest64 d = d" "length (rest64 d) = length d mod 64" "64 dvd length (whole64 d)"
  by (simp_all add: whole64_def rest64_def minus_div_mult_eq_mod min_absorb2 div_times_less_eq_dividend)

lemma fold_blocks_append: "64 dvd length a \<Longrightarrow> fold_blocks f h (a @ b) = fold_blocks f (fold_blocks f h a) b"
proof (induction f h a rule: fold_blocks.induct)
  case (1 f h a)
  show ?case
  proof (cases "length a < 64")
    case True
    then have "a = []" using 1(2) by (auto dest: dvd_imp_le)
    then show ?thesis by (simp add: fold_blocks.simps [of f h "[]"])
  next
    case False
    then have "64 dvd length (drop 64 a)" using 1(2) by (simp add: dvd_minus_self)
    then show ?thesis using 1(1) False fold_blocks.simps [of f h "a @ b"] fold_blocks.simps [of f h a] by simp
  qed
qed

lemma fold_blocks_short: "length m < 64 \<Longrightarrow> fold_blocks f h m = h"
  by (simp add: fold_blocks.simps)

lemma fold_blocks_block: "length m = 64 \<Longrightarrow> fold_blocks f h m = f h m"
  by (simp add: fold_blocks.simps [of f h m] fold_blocks_short)

lemma fold_blocks_whole: "fold_blocks f h (whole64 d) = fold_blocks f h d"
  using fold_blocks_append [of "whole64 d" f h "rest64 d"] whole_rest [of d] by (simp add: fold_blocks_short)

lemma rest_append: "64 dvd length a \<Longrightarrow> rest64 (a @ b) = rest64 b"
  by (auto simp: rest64_def dvd_def div_mult_self3)

text \<open>Data that stay within the last block, and data that fill it.\<close>

lemma blocks_short:
  assumes "length d mod 64 + length e \<le> 63"
  shows "fold_blocks f h (d @ e) = fold_blocks f h d" "rest64 (d @ e) = rest64 d @ e"
    "(length d + length e) mod 64 = length d mod 64 + length e"
proof -
  have s: "length (rest64 d @ e) < 64" using assms whole_rest(2) [of d] by simp
  have d: "d @ e = whole64 d @ rest64 d @ e" using whole_rest(1) [of d] by simp
  show "fold_blocks f h (d @ e) = fold_blocks f h d"
    unfolding d fold_blocks_append [OF whole_rest(3)] fold_blocks_short [OF s] by (rule fold_blocks_whole)
  show "rest64 (d @ e) = rest64 d @ e" unfolding d rest_append [OF whole_rest(3)] using s by (simp add: rest64_def)
  show "(length d + length e) mod 64 = length d mod 64 + length e"
    using assms mod_add_left_eq [of "length d" 64 "length e"] by simp
qed

lemma blocks_long:
  assumes "63 < length d mod 64 + length e"
  defines "b \<equiv> rest64 d @ take (64 - length d mod 64) e" and "r \<equiv> drop (64 - length d mod 64) e"
  shows "length b = 64" "fold_blocks f h (d @ e) = fold_blocks f (f (fold_blocks f h d) b) r" "rest64 (d @ e) = rest64 r"
    "(length d + length e) mod 64 = length (rest64 r)"
proof -
  have m: "length d mod 64 < 64" by simp
  show l: "length b = 64" using assms(1) m whole_rest(2) [of d] by (auto simp: b_def min_def)
  have "b @ r = rest64 d @ e" by (simp add: b_def r_def)
  then have d: "d @ e = whole64 d @ b @ r" using whole_rest(1) [of d] by (metis append.assoc)
  show "fold_blocks f h (d @ e) = fold_blocks f (f (fold_blocks f h d) b) r"
    unfolding d using l fold_blocks_append [of b f _ r]
    by (simp add: fold_blocks_append [OF whole_rest(3)] fold_blocks_whole fold_blocks_block)
  show r: "rest64 (d @ e) = rest64 r" unfolding d using rest_append [of b r] l by (simp add: rest_append [OF whole_rest(3)])
  show "(length d + length e) mod 64 = length (rest64 r)" using whole_rest(2) [of "d @ e"] r by simp
qed

text \<open>The words of a block on a little-endian machine.\<close>

fun words_of :: "u8 list \<Rightarrow> u32 list" where
  "words_of (a # b # c # d # bs) = le32_at a b c d # words_of bs"
| "words_of _ = []"

section \<open>Counting bits\<close>

lemma carry_count:
  assumes "b < M" "0 < (M :: nat)"
  shows "(a + b) div M = a div M + (if (a + b) mod M < b then 1 else 0)"
proof -
  have "(a + b) div M = a div M + (a mod M + b) div M" using div_add1_eq [of a b M] assms by simp
  moreover have "(a + b) mod M = (a mod M + b) mod M" by (simp add: mod_add_left_eq)
  moreover have "a mod M < M" using assms by simp
  moreover have "(x + b) div M = (if (x + b) mod M < b then 1 else 0)" if "x < M" for x
  proof (cases "x + b < M")
    case False
    then have "(x + b) div M = 1" "(x + b) mod M = x + b - M"
      using that assms div_nat_eqI [of M 1 "x + b"] mod_nat_eqI [of "x + b - M" M "x + b"] by (simp_all add: le_mod_geq)
    then show ?thesis using that False assms by simp
  qed simp
  ultimately show ?thesis by simp
qed

lemma div_mod_octets: "n mod 2 ^ 32 div 8 mod 64 = n div 8 mod 64" for n :: nat
proof -
  have m: "a div 8 mod 64 = a mod 512 div 8" for a :: nat using mod_mult2_eq [of a 8 64] by simp
  have "n mod 2 ^ 32 mod 512 = n mod 512" by (rule mod_mod_cancel) simp
  then show ?thesis unfolding m by simp
qed

lemma count_octets_of_nat: "unat (of_nat (8 * n) :: u32) div 8 mod 64 = n mod 64"
  using div_mod_octets [of "8 * n"] by (simp only: unat_of_nat) simp

lemma count_offset: "unat (drop_bit 3 (of_nat (8 * n) :: u32) AND 63) = n mod 64"
proof -
  have "(63 :: u32) = mask 6" by (simp add: mask_eq_exp_minus_1)
  then have "unat (drop_bit 3 (of_nat (8 * n) :: u32) AND 63) = take_bit 6 (drop_bit 3 (unat (of_nat (8 * n) :: u32)))"
    by (simp only: take_bit_eq_mask [symmetric] unsigned_take_bit_eq unat_drop_bit_eq)
  also have "\<dots> = unat (of_nat (8 * n) :: u32) div 8 mod 64" by (simp only: take_bit_eq_mod drop_bit_eq_div) simp
  finally show ?thesis unfolding count_octets_of_nat .
qed

text \<open>Another test for the carry: the low word has become smaller.\<close>

lemma carry_less:
  assumes "0 < (M :: nat)"
  shows "(a + b) div M = a div M + b div M + (if (a + b) mod M < a mod M then 1 else 0)"
proof -
  have d: "(a + b) div M = a div M + b div M + (a mod M + b mod M) div M" by (rule div_add1_eq)
  have m: "(a + b) mod M = (a mod M + b mod M) mod M" by (simp add: mod_add_eq)
  have l: "a mod M < M" "b mod M < M" using assms by simp_all
  have "(x + y) div M = (if (x + y) mod M < x then 1 else 0)" if "x < M" "y < M" for x y
    using carry_count [OF that(1) assms, of y] that by (simp add: add.commute)
  then show ?thesis unfolding d m using l by simp
qed

section \<open>Digests fed in pieces\<close>

text \<open>A digest has contexts it may start from; \<open>rep d c\<close> says that the context stands for the data so far.  A
  piece that satisfies \<open>ok\<close> is added to them, and the end gives the digest \<open>spec\<close> of all of them.\<close>

locale stream_digest =
  fixes start :: "'c set" and feed :: "'c \<Rightarrow> u8 list \<Rightarrow> 'c" and fin :: "'c \<Rightarrow> 'r"
    and rep :: "u8 list \<Rightarrow> 'c \<Rightarrow> bool" and ok :: "u8 list \<Rightarrow> bool" and spec :: "u8 list \<Rightarrow> 'r"
  assumes start_rep: "c \<in> start \<Longrightarrow> rep [] c"
    and feed_rep: "rep d c \<Longrightarrow> ok e \<Longrightarrow> rep (d @ e) (feed c e)"
    and fin_spec: "rep d c \<Longrightarrow> fin c = spec d"
begin

lemma feeds_rep: "rep d c \<Longrightarrow> list_all ok es \<Longrightarrow> rep (d @ concat es) (foldl feed c es)"
  by (induction es arbitrary: d c) (simp_all add: feed_rep flip: append_assoc)

lemma streaming: "c \<in> start \<Longrightarrow> list_all ok es \<Longrightarrow> fin (foldl feed c es) = spec (concat es)"
  using fin_spec [OF feeds_rep [OF start_rep]] by simp

lemma chunking_irrelevant:
  "c \<in> start \<Longrightarrow> c' \<in> start \<Longrightarrow> list_all ok es \<Longrightarrow> list_all ok es' \<Longrightarrow> concat es = concat es' \<Longrightarrow>
    fin (foldl feed c es) = fin (foldl feed c' es')"
  by (simp add: streaming)

lemma one_piece: "c \<in> start \<Longrightarrow> ok e \<Longrightarrow> fin (feed c e) = spec e"
  using streaming [of c "[e]"] by simp

end

end
