(* ===== verification/Crc32.thy ===== *)
theory Crc32
  imports Block_Hash
begin

text \<open>
  CRC-32 of \<^verbatim>\<open>pjlib-util/src/pjlib-util/crc32.c\<close>, in both builds the file has: with the table of a
  little-endian machine (\<^verbatim>\<open>PJ_CRC32_HAS_TABLES\<close>, the default) and without tables.  The address of
  the data is a parameter, since the table build first aligns its reads to four bytes.  The main
  result is that the table build computes what the build without tables computes.
\<close>

definition CRC32_NEGL :: u32 where "CRC32_NEGL = 0xffffffff"

section \<open>The build with tables\<close>

definition crc_tab :: "u32 list" where
  "crc_tab = [
    0x00000000, 0x77073096, 0xee0e612c, 0x990951ba, 0x076dc419, 0x706af48f, 0xe963a535, 0x9e6495a3,
    0x0edb8832, 0x79dcb8a4, 0xe0d5e91e, 0x97d2d988, 0x09b64c2b, 0x7eb17cbd, 0xe7b82d07, 0x90bf1d91,
    0x1db71064, 0x6ab020f2, 0xf3b97148, 0x84be41de, 0x1adad47d, 0x6ddde4eb, 0xf4d4b551, 0x83d385c7,
    0x136c9856, 0x646ba8c0, 0xfd62f97a, 0x8a65c9ec, 0x14015c4f, 0x63066cd9, 0xfa0f3d63, 0x8d080df5,
    0x3b6e20c8, 0x4c69105e, 0xd56041e4, 0xa2677172, 0x3c03e4d1, 0x4b04d447, 0xd20d85fd, 0xa50ab56b,
    0x35b5a8fa, 0x42b2986c, 0xdbbbc9d6, 0xacbcf940, 0x32d86ce3, 0x45df5c75, 0xdcd60dcf, 0xabd13d59,
    0x26d930ac, 0x51de003a, 0xc8d75180, 0xbfd06116, 0x21b4f4b5, 0x56b3c423, 0xcfba9599, 0xb8bda50f,
    0x2802b89e, 0x5f058808, 0xc60cd9b2, 0xb10be924, 0x2f6f7c87, 0x58684c11, 0xc1611dab, 0xb6662d3d,
    0x76dc4190, 0x01db7106, 0x98d220bc, 0xefd5102a, 0x71b18589, 0x06b6b51f, 0x9fbfe4a5, 0xe8b8d433,
    0x7807c9a2, 0x0f00f934, 0x9609a88e, 0xe10e9818, 0x7f6a0dbb, 0x086d3d2d, 0x91646c97, 0xe6635c01,
    0x6b6b51f4, 0x1c6c6162, 0x856530d8, 0xf262004e, 0x6c0695ed, 0x1b01a57b, 0x8208f4c1, 0xf50fc457,
    0x65b0d9c6, 0x12b7e950, 0x8bbeb8ea, 0xfcb9887c, 0x62dd1ddf, 0x15da2d49, 0x8cd37cf3, 0xfbd44c65,
    0x4db26158, 0x3ab551ce, 0xa3bc0074, 0xd4bb30e2, 0x4adfa541, 0x3dd895d7, 0xa4d1c46d, 0xd3d6f4fb,
    0x4369e96a, 0x346ed9fc, 0xad678846, 0xda60b8d0, 0x44042d73, 0x33031de5, 0xaa0a4c5f, 0xdd0d7cc9,
    0x5005713c, 0x270241aa, 0xbe0b1010, 0xc90c2086, 0x5768b525, 0x206f85b3, 0xb966d409, 0xce61e49f,
    0x5edef90e, 0x29d9c998, 0xb0d09822, 0xc7d7a8b4, 0x59b33d17, 0x2eb40d81, 0xb7bd5c3b, 0xc0ba6cad,
    0xedb88320, 0x9abfb3b6, 0x03b6e20c, 0x74b1d29a, 0xead54739, 0x9dd277af, 0x04db2615, 0x73dc1683,
    0xe3630b12, 0x94643b84, 0x0d6d6a3e, 0x7a6a5aa8, 0xe40ecf0b, 0x9309ff9d, 0x0a00ae27, 0x7d079eb1,
    0xf00f9344, 0x8708a3d2, 0x1e01f268, 0x6906c2fe, 0xf762575d, 0x806567cb, 0x196c3671, 0x6e6b06e7,
    0xfed41b76, 0x89d32be0, 0x10da7a5a, 0x67dd4acc, 0xf9b9df6f, 0x8ebeeff9, 0x17b7be43, 0x60b08ed5,
    0xd6d6a3e8, 0xa1d1937e, 0x38d8c2c4, 0x4fdff252, 0xd1bb67f1, 0xa6bc5767, 0x3fb506dd, 0x48b2364b,
    0xd80d2bda, 0xaf0a1b4c, 0x36034af6, 0x41047a60, 0xdf60efc3, 0xa867df55, 0x316e8eef, 0x4669be79,
    0xcb61b38c, 0xbc66831a, 0x256fd2a0, 0x5268e236, 0xcc0c7795, 0xbb0b4703, 0x220216b9, 0x5505262f,
    0xc5ba3bbe, 0xb2bd0b28, 0x2bb45a92, 0x5cb36a04, 0xc2d7ffa7, 0xb5d0cf31, 0x2cd99e8b, 0x5bdeae1d,
    0x9b64c2b0, 0xec63f226, 0x756aa39c, 0x026d930a, 0x9c0906a9, 0xeb0e363f, 0x72076785, 0x05005713,
    0x95bf4a82, 0xe2b87a14, 0x7bb12bae, 0x0cb61b38, 0x92d28e9b, 0xe5d5be0d, 0x7cdcefb7, 0x0bdbdf21,
    0x86d3d2d4, 0xf1d4e242, 0x68ddb3f8, 0x1fda836e, 0x81be16cd, 0xf6b9265b, 0x6fb077e1, 0x18b74777,
    0x88085ae6, 0xff0f6a70, 0x66063bca, 0x11010b5c, 0x8f659eff, 0xf862ae69, 0x616bffd3, 0x166ccf45,
    0xa00ae278, 0xd70dd2ee, 0x4e048354, 0x3903b3c2, 0xa7672661, 0xd06016f7, 0x4969474d, 0x3e6e77db,
    0xaed16a4a, 0xd9d65adc, 0x40df0b66, 0x37d83bf0, 0xa9bcae53, 0xdebb9ec5, 0x47b2cf7f, 0x30b5ffe9,
    0xbdbdf21c, 0xcabac28a, 0x53b39330, 0x24b4a3a6, 0xbad03605, 0xcdd70693, 0x54de5729, 0x23d967bf,
    0xb3667a2e, 0xc4614ab8, 0x5d681b02, 0x2a6f2b94, 0xb40bbe37, 0xc30c8ea1, 0x5a05df1b, 0x2d02ef8d
  ]"

definition CRC32_INDEX :: "u32 \<Rightarrow> nat" where "CRC32_INDEX c = unat (c AND 0xff)"
definition CRC32_SHIFTED :: "u32 \<Rightarrow> u32" where "CRC32_SHIFTED c = drop_bit 8 c"

text \<open>One look-up without data, and one that takes in a byte.\<close>

definition crc_step :: "u32 \<Rightarrow> u32" where
  "crc_step crc = crc_tab ! CRC32_INDEX crc XOR CRC32_SHIFTED crc"

definition crc_byte :: "u32 \<Rightarrow> u8 \<Rightarrow> u32" where
  "crc_byte crc b = crc_tab ! unat ((crc AND 0xff) XOR ucast b) XOR CRC32_SHIFTED crc"

text \<open>The loop that brings the address to a multiple of four, and the loop over words; the rest of the
  data comes back with the value.\<close>

fun crc_align :: "nat \<Rightarrow> u8 list \<Rightarrow> u32 \<Rightarrow> u32 \<times> u8 list" where
  "crc_align addr [] crc = (crc, [])"
| "crc_align addr (b # bs) crc =
     (if addr mod 4 \<noteq> 0 then crc_align (addr + 1) bs (crc_byte crc b) else (crc, b # bs))"

fun crc_words :: "u8 list \<Rightarrow> u32 \<Rightarrow> u32 \<times> u8 list" where
  "crc_words (b0 # b1 # b2 # b3 # bs) crc =
     crc_words bs (crc_step (crc_step (crc_step (crc_step (crc XOR le32_at b0 b1 b2 b3)))))"
| "crc_words bs crc = (crc, bs)"

definition pj_crc32_init :: u32 where "pj_crc32_init = 0"

definition pj_crc32_update :: "nat \<Rightarrow> u8 list \<Rightarrow> u32 \<Rightarrow> u32" where
  "pj_crc32_update addr data crc_state =
     (let crc = crc_state XOR CRC32_NEGL;
          (crc, data) = crc_align addr data crc;
          (crc, data) = crc_words data crc;
          crc = foldl crc_byte crc data in
      crc XOR CRC32_NEGL)"

definition pj_crc32_final :: "u32 \<Rightarrow> u32" where "pj_crc32_final crc_state = crc_state"

definition pj_crc32_calc :: "nat \<Rightarrow> u8 list \<Rightarrow> u32" where
  "pj_crc32_calc addr data = pj_crc32_final (pj_crc32_update addr data pj_crc32_init)"

section \<open>The build without tables\<close>

definition crc_shift :: "u32 \<Rightarrow> u32" where
  "crc_shift temp = (if temp AND 1 \<noteq> 0 then drop_bit 1 temp XOR 0xEDB88320 else drop_bit 1 temp)"

definition crc_octet :: "u32 \<Rightarrow> u8 \<Rightarrow> u32" where
  "crc_octet crc b = drop_bit 8 crc XOR (crc_shift ^^ 8) ((crc AND 0xff) XOR ucast b)"

definition crc32_init_nt :: u32 where "crc32_init_nt = CRC32_NEGL"

text \<open>The new state and the value returned.\<close>

definition crc32_update_nt :: "u8 list \<Rightarrow> u32 \<Rightarrow> u32 \<times> u32" where
  "crc32_update_nt octets crc_state = (let crc = foldl crc_octet crc_state octets in (crc, crc XOR CRC32_NEGL))"

definition crc32_final_nt :: "u32 \<Rightarrow> u32" where "crc32_final_nt crc_state = crc_state XOR CRC32_NEGL"

definition crc32_calc_nt :: "u8 list \<Rightarrow> u32" where
  "crc32_calc_nt data = crc32_final_nt (fst (crc32_update_nt data crc32_init_nt))"

section \<open>Both builds agree\<close>

lemma crc_tab_length: "length crc_tab = 256"
  by (simp add: crc_tab_def)

text \<open>The table is linear: each half is the other one with the entry of a power of two added.\<close>

definition crc_double :: "u32 \<Rightarrow> u32 list \<Rightarrow> u32 list" where
  "crc_double v xs = xs @ map (\<lambda>x. x XOR v) xs"

lemma crc_tab_double:
  "crc_tab = crc_double 0xedb88320 (crc_double 0x76dc4190 (crc_double 0x3b6e20c8 (crc_double 0x1db71064
     (crc_double 0x0edb8832 (crc_double 0x076dc419 (crc_double 0xee0e612c (crc_double 0x77073096 [0])))))))"
  by (simp add: crc_tab_def crc_double_def)

lemma and_one_odd: "x AND 1 \<noteq> 0 \<longleftrightarrow> odd x" for x :: u32
  by (simp add: and_one_eq mod_2_eq_odd)

lemma crc_shift_xor: "crc_shift (a XOR b) = crc_shift a XOR crc_shift b"
proof -
  have "odd (a XOR b) \<longleftrightarrow> odd a \<noteq> odd b" by (simp add: even_xor_iff)
  then show ?thesis
    unfolding crc_shift_def and_one_odd drop_bit_xor
    by (cases "odd a"; cases "odd b") (simp_all add: ac_simps)
qed

lemma crc_octets_xor: "(crc_shift ^^ n) (a XOR b) = (crc_shift ^^ n) a XOR (crc_shift ^^ n) b"
  by (induction n arbitrary: a b) (simp_all add: crc_shift_xor funpow_swap1)

lemma funpow_8: "(f ^^ 8) x = f (f (f (f (f (f (f (f x)))))))"
  by (simp add: numeral_eq_Suc)

lemma crc_basis:
  "(crc_shift ^^ 8) 1 = 0x77073096" "(crc_shift ^^ 8) 2 = 0xee0e612c" "(crc_shift ^^ 8) 4 = 0x076dc419"
  "(crc_shift ^^ 8) 8 = 0x0edb8832" "(crc_shift ^^ 8) 16 = 0x1db71064" "(crc_shift ^^ 8) 32 = 0x3b6e20c8"
  "(crc_shift ^^ 8) 64 = 0x76dc4190" "(crc_shift ^^ 8) 128 = 0xedb88320"
  by (simp_all add: funpow_8 crc_shift_def)

definition crc_entry :: "nat \<Rightarrow> u32" where
  "crc_entry i = (crc_shift ^^ 8) (of_nat i)"

lemma of_nat_add_power:
  assumes "i < 2 ^ k" "k < 32"
  shows "(of_nat (2 ^ k + i) :: u32) = of_nat i XOR 2 ^ k"
proof -
  have b: "\<not> bit (of_nat i :: u32) k" using assms(1) by (simp add: bit_of_nat_iff bit_iff_odd [where a = i])
  have "(2 ^ k :: u32) + of_nat i = 2 ^ k OR of_nat i"
    by (rule disjunctive_add) (use b in \<open>auto simp: bit_exp_iff\<close>)
  also have "\<dots> = of_nat i XOR 2 ^ k"
    by (rule bit_word_eqI) (use b in \<open>auto simp: bit_or_iff bit_xor_iff bit_exp_iff\<close>)
  finally show ?thesis by simp
qed

lemma crc_entry_double:
  assumes "k < 32"
  shows "map crc_entry [0..<2 ^ Suc k] = crc_double ((crc_shift ^^ 8) (2 ^ k)) (map crc_entry [0..<2 ^ k])"
proof -
  have e: "crc_entry (2 ^ k + i) = crc_entry i XOR (crc_shift ^^ 8) (2 ^ k)" if "i < 2 ^ k" for i
    unfolding crc_entry_def of_nat_add_power [OF that assms] crc_octets_xor ..
  have "[0..<2 ^ Suc k] = [0..<2 ^ k] @ map (\<lambda>i. i + 2 ^ k) [0..<2 ^ k]"
    using upt_add_eq_append [of 0 "2 ^ k" "2 ^ k"] map_add_upt [of "2 ^ k" "2 ^ k"]
    by (simp add: mult_2)
  then show ?thesis
    using e by (auto simp: crc_double_def add.commute [where b = "2 ^ k"] simp del: power_Suc)
qed

lemma crc_tab_entries: "map crc_entry [0..<256] = crc_tab"
proof -
  have "map crc_entry [0..<2 ^ 0] = [0]" by (simp add: crc_entry_def funpow_8 crc_shift_def)
  then show ?thesis
    using crc_entry_double [of 0] crc_entry_double [of 1] crc_entry_double [of 2] crc_entry_double [of 3]
      crc_entry_double [of 4] crc_entry_double [of 5] crc_entry_double [of 6] crc_entry_double [of 7]
    unfolding crc_tab_double crc_basis [symmetric] by (simp add: numeral_eq_Suc)
qed

lemma crc_tab_nth: "i < 256 \<Longrightarrow> crc_tab ! i = (crc_shift ^^ 8) (of_nat i)"
  by (simp add: crc_tab_entries [symmetric] crc_entry_def)

lemma low_byte: "(\<And>n. 8 \<le> n \<Longrightarrow> \<not> bit x n) \<Longrightarrow> unat x < 256" for x :: u32
proof -
  assume "\<And>n. 8 \<le> n \<Longrightarrow> \<not> bit x n"
  then have "x = take_bit 8 x" by (intro bit_word_eqI) (metis bit_take_bit_iff not_le)
  then have "unat x = take_bit 8 (unat x)" by (metis unsigned_take_bit_eq)
  then show "unat x < 256" using take_bit_nat_less_exp [of 8 "unat x"] by simp
qed

lemma bit_255 [simp]: "bit (0xff :: int) n \<longleftrightarrow> n < 8"
proof -
  have e: "(0xff :: int) = mask 8" by (simp add: mask_eq_exp_minus_1)
  show ?thesis unfolding e bit_mask_iff by auto
qed

lemma byte_in: "(c XOR ucast b) AND 0xff = (c AND 0xff) XOR ucast b" "drop_bit 8 (ucast b) = (0 :: u32)"
  for c :: u32 and b :: u8
  by (rule bit_word_eqI, auto simp: bit_and_iff bit_xor_iff bit_unsigned_iff bit_drop_bit_eq dest: bit_imp_le_length)+

lemma crc_step_shift: "crc_step c = (crc_shift ^^ 8) (c AND 0xff) XOR drop_bit 8 c"
proof -
  have "unat (c AND 0xff) < 256" by (rule low_byte) (auto simp: bit_and_iff bit_simps)
  then show ?thesis by (simp add: crc_step_def CRC32_INDEX_def CRC32_SHIFTED_def crc_tab_nth)
qed

lemma crc_byte_step: "crc_byte c b = crc_step (c XOR ucast b)"
  by (simp add: crc_byte_def crc_step_def CRC32_INDEX_def CRC32_SHIFTED_def byte_in)

lemma crc_byte_octet: "crc_byte c b = crc_octet c b"
  by (simp add: crc_byte_step crc_step_shift crc_octet_def byte_in xor.commute)

text \<open>Data above the lowest byte passes through a step unchanged, one byte further down.\<close>

lemma crc_step_above:
  assumes "take_bit 24 v = v"
  shows "crc_step (x XOR push_bit 8 v) = crc_step x XOR v"
proof -
  have v: "bit v n \<Longrightarrow> n < 24" for n using assms by (metis bit_take_bit_iff)
  have "(x XOR push_bit 8 v) AND 0xff = x AND 0xff" by (rule bit_word_eqI) (auto simp: bit_simps)
  moreover have "drop_bit 8 (x XOR push_bit 8 v) = drop_bit 8 x XOR v"
    by (rule bit_word_eqI) (auto simp: bit_simps dest: v)
  ultimately show ?thesis by (simp add: crc_step_shift ac_simps)
qed

lemma crc_word_bytes:
  "crc_step (crc_step (crc_step (crc_step (c XOR le32_at b0 b1 b2 b3)))) =
     crc_byte (crc_byte (crc_byte (crc_byte c b0) b1) b2) b3"
proof -
  define v3 :: u32 where "v3 = ucast b3"
  define v2 :: u32 where "v2 = ucast b2 XOR push_bit 8 v3"
  define v1 :: u32 where "v1 = ucast b1 XOR push_bit 8 v2"
  have v: "take_bit 24 v3 = v3" "take_bit 24 v2 = v2" "take_bit 24 v1 = v1"
    unfolding v1_def v2_def v3_def by (rule bit_word_eqI, auto simp: bit_simps dest: bit_imp_le_length)+
  have w: "le32_at b0 b1 b2 b3 = ucast b0 XOR push_bit 8 v1"
    unfolding le32_at_def v1_def v2_def v3_def
    by (rule bit_word_eqI) (auto simp: bit_simps dest: bit_imp_le_length)
  have "crc_step (c XOR le32_at b0 b1 b2 b3) = crc_byte c b0 XOR v1"
    unfolding w using crc_step_above [OF v(3), of "c XOR ucast b0"] by (simp add: crc_byte_step xor.assoc)
  moreover have "crc_step (x XOR v1) = crc_byte x b1 XOR v2" for x
    using crc_step_above [OF v(2), of "x XOR ucast b1"] unfolding v1_def by (simp add: crc_byte_step xor.assoc)
  moreover have "crc_step (x XOR v2) = crc_byte x b2 XOR v3" for x
    using crc_step_above [OF v(1), of "x XOR ucast b2"] unfolding v2_def by (simp add: crc_byte_step xor.assoc)
  ultimately show ?thesis by (simp add: v3_def crc_byte_step)
qed

lemma crc_align_bytes: "(case crc_align addr bs c of (c', bs') \<Rightarrow> foldl crc_byte c' bs') = foldl crc_byte c bs"
  by (induction addr bs c rule: crc_align.induct) simp_all

lemma crc_words_bytes: "(case crc_words bs c of (c', bs') \<Rightarrow> foldl crc_byte c' bs') = foldl crc_byte c bs"
  by (induction bs c rule: crc_words.induct) (simp_all add: crc_word_bytes)

lemma crc_update_bytes: "pj_crc32_update addr bs c = foldl crc_octet (c XOR CRC32_NEGL) bs XOR CRC32_NEGL"
proof -
  obtain c1 bs1 where a: "crc_align addr bs (c XOR CRC32_NEGL) = (c1, bs1)" by fastforce
  obtain c2 bs2 where w: "crc_words bs1 c1 = (c2, bs2)" by fastforce
  have "crc_byte = crc_octet" by (intro ext crc_byte_octet)
  then show ?thesis
    using crc_align_bytes [of addr bs "c XOR CRC32_NEGL"] crc_words_bytes [of bs1 c1]
    by (simp add: pj_crc32_update_def a w)
qed

lemma crc_table_bitwise: "pj_crc32_calc addr data = crc32_calc_nt data"
  by (simp add: pj_crc32_calc_def pj_crc32_final_def pj_crc32_init_def crc_update_bytes crc32_calc_nt_def
      crc32_final_nt_def crc32_update_nt_def crc32_init_nt_def Let_def)

lemma neg_twice: "(x XOR CRC32_NEGL) XOR CRC32_NEGL = x"
  by (simp add: xor.assoc)

interpretation crc_stream: stream_digest "{pj_crc32_init}" "\<lambda>c data. pj_crc32_update addr data c" pj_crc32_final
  "\<lambda>d c. c = crc32_calc_nt d" "\<lambda>_. True" crc32_calc_nt for addr
  by unfold_locales
    (auto simp: pj_crc32_init_def pj_crc32_final_def crc_update_bytes crc32_calc_nt_def crc32_final_nt_def crc32_update_nt_def crc32_init_nt_def
      Let_def neg_twice)

section \<open>Property\<close>

text \<open>C38: The table build computes the same check sum as the bit-by-bit build, at whatever address the data
  lies, so that the result does not depend on the alignment; and feeding data in pieces gives the check sum
  of the whole.\<close>

theorem crc32_table_equals_bitwise:
  "pj_crc32_calc addr data = crc32_calc_nt data \<and>
   pj_crc32_update addr' data' (pj_crc32_update addr data c) = pj_crc32_update addr'' (data @ data') c"
  by (simp add: crc_table_bitwise crc_update_bytes neg_twice)

end
