(* ===== verification/Sha1.thy ===== *)
theory Sha1
  imports Block_Hash
begin

text \<open>
  SHA-1 and HMAC-SHA1 of \<^verbatim>\<open>pjlib-util/src/pjlib-util/sha1.c\<close> and \<^verbatim>\<open>hmac_sha1.c\<close> on a little-endian
  machine with 64-bit sizes.  \<^verbatim>\<open>SHA1_Transform\<close> works in place and leaves its expanded words in the
  caller's buffer, as the model does.  The unrolled calls of the round macros pass the five variables
  rotated by one place each time; a round of the model returns them rotated.
\<close>

section \<open>The code\<close>

definition rol :: "u32 \<Rightarrow> nat \<Rightarrow> u32" where
  "rol v n = push_bit n v OR drop_bit (32 - n) v"

definition blk0 :: "u32 list \<Rightarrow> nat \<Rightarrow> u32 list" where
  "blk0 l i = l[i := (rol (l ! i) 24 AND 0xFF00FF00) OR (rol (l ! i) 8 AND 0x00FF00FF)]"

definition blk :: "u32 list \<Rightarrow> nat \<Rightarrow> u32 list" where
  "blk l i = l[i mod 16 := rol (l ! ((i + 13) mod 16) XOR l ! ((i + 8) mod 16) XOR l ! ((i + 2) mod 16) XOR l ! (i mod 16)) 1]"

text \<open>The macros \<^verbatim>\<open>R0\<close> to \<^verbatim>\<open>R4\<close>, chosen by the number of the round.\<close>

definition sha1_fun :: "nat \<Rightarrow> u32 \<Rightarrow> u32 \<Rightarrow> u32 \<Rightarrow> u32" where
  "sha1_fun i w x y =
     (if i < 20 then (w AND (x XOR y)) XOR y
      else if i < 40 then w XOR x XOR y
      else if i < 60 then ((w OR x) AND y) OR (w AND x)
      else w XOR x XOR y)"

definition sha1_const :: "nat \<Rightarrow> u32" where
  "sha1_const i = (if i < 20 then 0x5A827999 else if i < 40 then 0x6ED9EBA1 else if i < 60 then 0x8F1BBCDC else 0xCA62C1D6)"

type_synonym sha1_vars = "u32 \<times> u32 \<times> u32 \<times> u32 \<times> u32"

definition sha1_round :: "sha1_vars \<times> u32 list \<Rightarrow> nat \<Rightarrow> sha1_vars \<times> u32 list" where
  "sha1_round s i =
     (let ((v, w, x, y, z), l) = s;
          l = (if i < 16 then blk0 l i else blk l i);
          z = z + (sha1_fun i w x y + l ! (i mod 16) + sha1_const i + rol v 5);
          w = rol w 30 in
      ((z, v, w, x, y), l))"

definition bytes_of :: "u32 list \<Rightarrow> u8 list" where
  "bytes_of ws = concat (map (\<lambda>w. [ucast w, ucast (drop_bit 8 w), ucast (drop_bit 16 w), ucast (drop_bit 24 w)]) ws)"

definition add_vars :: "sha1_vars \<Rightarrow> sha1_vars \<Rightarrow> sha1_vars" where
  "add_vars s t = (case (s, t) of ((a, b, c, d, e), (a', b', c', d', e')) \<Rightarrow> (a + a', b + b', c + c', d + d', e + e'))"

definition SHA1_Transform :: "sha1_vars \<Rightarrow> u8 list \<Rightarrow> sha1_vars \<times> u8 list" where
  "SHA1_Transform state buffer =
     (let (vars, l) = foldl sha1_round (state, words_of buffer) [0..<80] in (add_vars state vars, bytes_of l))"

record pj_sha1_context =
  sh_state :: sha1_vars
  sh_count0 :: u32
  sh_count1 :: u32
  sh_buffer :: "u8 list"

text \<open>\<^verbatim>\<open>pj_sha1_init\<close> leaves the buffer of 64 bytes as it is.\<close>

definition pj_sha1_init :: "u8 list \<Rightarrow> pj_sha1_context" where
  "pj_sha1_init buffer =
     \<lparr>sh_state = (0x67452301, 0xEFCDAB89, 0x98BADCFE, 0x10325476, 0xC3D2E1F0), sh_count0 = 0, sh_count1 = 0, sh_buffer = buffer\<rparr>"

text \<open>The loop over the whole blocks of the data, with \<open>data\<close> what is left of it.\<close>

function sha1_blocks :: "sha1_vars \<Rightarrow> u8 list \<Rightarrow> sha1_vars \<times> u8 list" where
  "sha1_blocks state data =
     (if 63 < length data then sha1_blocks (fst (SHA1_Transform state (take 64 data))) (drop 64 data) else (state, data))"
  by pat_completeness auto
termination by (relation "measure (length \<circ> snd)") auto

declare sha1_blocks.simps [simp del]

definition sha1_count :: "nat \<Rightarrow> pj_sha1_context \<Rightarrow> pj_sha1_context" where
  "sha1_count len ctx =
     (let count0 = sh_count0 ctx + push_bit 3 (of_nat len);
          count1 = (if unat count0 < (len * 8) mod 2 ^ 64 then sh_count1 ctx + 1 else sh_count1 ctx) in
      ctx\<lparr>sh_count0 := count0, sh_count1 := count1 + drop_bit 29 (of_nat len)\<rparr>)"

definition pj_sha1_update :: "pj_sha1_context \<Rightarrow> u8 list \<Rightarrow> pj_sha1_context" where
  "pj_sha1_update ctx data =
     (let j = unat (drop_bit 3 (sh_count0 ctx) AND 63);
          ctx = sha1_count (length data) ctx in
      if j + length data > 63 then
        (let i = 64 - j;
             buffer = mem_put (sh_buffer ctx) j (take i data);
             (state, buffer) = SHA1_Transform (sh_state ctx) buffer;
             (state, rest) = sha1_blocks state (drop i data) in
         ctx\<lparr>sh_state := state, sh_buffer := mem_put buffer 0 rest\<rparr>)
      else ctx\<lparr>sh_buffer := mem_put (sh_buffer ctx) j data\<rparr>)"

text \<open>The loop that pads with zeros: the low nine bits of the count grow by eight in every round.\<close>

function sha1_pad :: "pj_sha1_context \<Rightarrow> pj_sha1_context" where
  "sha1_pad ctx = (if sh_count0 ctx AND 504 \<noteq> 448 then sha1_pad (pj_sha1_update ctx [0]) else ctx)"
  by pat_completeness auto

definition count_octets :: "pj_sha1_context \<Rightarrow> nat" where
  "count_octets ctx = unat (sh_count0 ctx) div 8 mod 64"

lemma and_504: "c AND 504 = 448 \<longleftrightarrow> unat c div 8 mod 64 = 56" for c :: u32
proof -
  have e: "(504 :: nat) = push_bit 3 (mask 6)" by (simp add: mask_eq_exp_minus_1 push_bit_eq_mult)
  have "unat c AND 504 = push_bit 3 (take_bit 6 (drop_bit 3 (unat c)))"
    unfolding e by (rule bit_eqI) (auto simp: bit_simps)
  then have "unat c AND 504 = 8 * (unat c div 8 mod 64)"
    by (simp add: push_bit_eq_mult take_bit_eq_mod drop_bit_eq_div)
  moreover have "c AND 504 = 448 \<longleftrightarrow> unat c AND 504 = 448"
    by (simp add: word_unat_eq_iff unsigned_and_eq)
  ultimately show ?thesis by simp
qed

lemma update_count: "sh_count0 (pj_sha1_update ctx d) = sh_count0 ctx + push_bit 3 (of_nat (length d))"
  by (simp add: pj_sha1_update_def sha1_count_def Let_def split: prod.split)

lemma count_step: "unat (c + 8) div 8 mod 64 = (unat c div 8 mod 64 + 1) mod 64" for c :: u32
proof -
  have "unat (c + 8) = (unat c + 8) mod 2 ^ 32" by (simp add: unat_word_ariths)
  then have "unat (c + 8) div 8 mod 64 = (unat c + 8) div 8 mod 64" by (simp only: div_mod_octets)
  moreover have "(unat c + 8) div 8 = unat c div 8 + 1" by simp
  ultimately show ?thesis by (simp add: mod_Suc_eq)
qed

termination sha1_pad
proof (relation "measure (\<lambda>ctx. (56 + 64 - count_octets ctx) mod 64)")
  fix ctx :: pj_sha1_context
  assume "sh_count0 ctx AND 504 \<noteq> 448"
  then have n: "count_octets ctx \<noteq> 56" "count_octets ctx < 64" by (simp_all add: and_504 count_octets_def)
  have "count_octets (pj_sha1_update ctx [0]) = (count_octets ctx + 1) mod 64"
    using count_step [of "sh_count0 ctx"] by (simp add: count_octets_def update_count)
  then show "(pj_sha1_update ctx [0], ctx) \<in> measure (\<lambda>ctx. (56 + 64 - count_octets ctx) mod 64)"
    using n by (cases "count_octets ctx = 63") (auto simp: mod_if)
qed simp

declare sha1_pad.simps [simp del]

text \<open>The digest and the context after the final wipe.\<close>

definition sha1_finalcount :: "pj_sha1_context \<Rightarrow> u8 list" where
  "sha1_finalcount ctx = put32 (sh_count1 ctx) @ put32 (sh_count0 ctx)"

definition sha1_digest :: "sha1_vars \<Rightarrow> u8 list" where
  "sha1_digest s = (case s of (a, b, c, d, e) \<Rightarrow> put32 a @ put32 b @ put32 c @ put32 d @ put32 e)"

definition pj_sha1_final :: "pj_sha1_context \<Rightarrow> pj_sha1_context \<times> u8 list" where
  "pj_sha1_final ctx =
     (let finalcount = sha1_finalcount ctx;
          ctx = pj_sha1_update ctx [0x80];
          ctx = sha1_pad ctx;
          ctx = pj_sha1_update ctx finalcount in
      (\<lparr>sh_state = (0, 0, 0, 0, 0), sh_count0 = 0, sh_count1 = 0, sh_buffer = replicate 64 0\<rparr>, sha1_digest (sh_state ctx)))"

record pj_hmac_sha1_context =
  hm_context :: pj_sha1_context
  hm_k_opad :: "u8 list"

definition hmac_pad :: "u8 \<Rightarrow> u8 list \<Rightarrow> u8 list" where
  "hmac_pad x key = map (\<lambda>b. b XOR x) (key @ replicate (64 - length key) 0)"

text \<open>\<open>tbuf\<close> and \<open>buf\<close> are what the buffers of the two contexts hold before.\<close>

definition pj_hmac_sha1_init :: "u8 list \<Rightarrow> u8 list \<Rightarrow> u8 list \<Rightarrow> pj_hmac_sha1_context" where
  "pj_hmac_sha1_init tbuf buf key =
     (let key = (if length key > 64 then snd (pj_sha1_final (pj_sha1_update (pj_sha1_init tbuf) key)) else key) in
      \<lparr>hm_context = pj_sha1_update (pj_sha1_init buf) (hmac_pad 0x36 key), hm_k_opad = hmac_pad 0x5c key\<rparr>)"

definition pj_hmac_sha1_update :: "pj_hmac_sha1_context \<Rightarrow> u8 list \<Rightarrow> pj_hmac_sha1_context" where
  "pj_hmac_sha1_update hctx input = hctx\<lparr>hm_context := pj_sha1_update (hm_context hctx) input\<rparr>"

definition pj_hmac_sha1_final :: "pj_hmac_sha1_context \<Rightarrow> pj_hmac_sha1_context \<times> u8 list" where
  "pj_hmac_sha1_final hctx =
     (let (ctx, digest) = pj_sha1_final (hm_context hctx);
          ctx = pj_sha1_init (sh_buffer ctx);
          ctx = pj_sha1_update ctx (hm_k_opad hctx);
          ctx = pj_sha1_update ctx digest;
          (ctx, digest) = pj_sha1_final ctx in
      (hctx\<lparr>hm_context := ctx\<rparr>, digest))"

definition pj_hmac_sha1 :: "u8 list \<Rightarrow> u8 list \<Rightarrow> u8 list \<Rightarrow> u8 list \<Rightarrow> u8 list" where
  "pj_hmac_sha1 tbuf buf input key = snd (pj_hmac_sha1_final (pj_hmac_sha1_update (pj_hmac_sha1_init tbuf buf key) input))"

section \<open>The standard\<close>

text \<open>SHA-1 as FIPS PUB 180-1 defines it: the message schedule, the functions and constants, the
  compression of a block and the padding; and HMAC as RFC 2104 defines it.\<close>

fun sched :: "u32 list \<Rightarrow> nat \<Rightarrow> u32" where
  "sched m t = (if t < 16 then m ! t
     else rol (sched m (t - 3) XOR sched m (t - 8) XOR sched m (t - 14) XOR sched m (t - 16)) 1)"

declare sched.simps [simp del]

definition fips_f :: "nat \<Rightarrow> u32 \<Rightarrow> u32 \<Rightarrow> u32 \<Rightarrow> u32" where
  "fips_f t b c d =
     (if t < 20 then (b AND c) OR (NOT b AND d)
      else if t < 40 then b XOR c XOR d
      else if t < 60 then (b AND c) OR (b AND d) OR (c AND d)
      else b XOR c XOR d)"

definition fips_step :: "u32 list \<Rightarrow> sha1_vars \<Rightarrow> nat \<Rightarrow> sha1_vars" where
  "fips_step m s t = (case s of (a, b, c, d, e) \<Rightarrow> (rol a 5 + fips_f t b c d + e + sched m t + sha1_const t, a, rol b 30, c, d))"

fun be_words :: "u8 list \<Rightarrow> u32 list" where
  "be_words (a # b # c # d # bs) = be32 a b c d # be_words bs"
| "be_words _ = []"

definition compress :: "sha1_vars \<Rightarrow> u8 list \<Rightarrow> sha1_vars" where
  "compress h block = add_vars h (foldl (fips_step (be_words block)) h [0..<80])"

abbreviation compress_all :: "sha1_vars \<Rightarrow> u8 list \<Rightarrow> sha1_vars" where
  "compress_all \<equiv> fold_blocks compress"

definition sha1_h0 :: sha1_vars where
  "sha1_h0 = (0x67452301, 0xEFCDAB89, 0x98BADCFE, 0x10325476, 0xC3D2E1F0)"

definition be64 :: "nat \<Rightarrow> u8 list" where
  "be64 n = put32 (of_nat (n div 2 ^ 32)) @ put32 (of_nat n)"

definition fips_pad :: "u8 list \<Rightarrow> u8 list" where
  "fips_pad m = m @ 0x80 # replicate ((119 - length m mod 64) mod 64) 0 @ be64 (8 * length m)"

definition fips_sha1 :: "u8 list \<Rightarrow> u8 list" where
  "fips_sha1 m = sha1_digest (compress_all sha1_h0 (fips_pad m))"

definition rfc_hmac :: "u8 list \<Rightarrow> u8 list \<Rightarrow> u8 list" where
  "rfc_hmac key text =
     (let k = (if length key > 64 then fips_sha1 key else key) in
      fips_sha1 (hmac_pad 0x5c k @ fips_sha1 (hmac_pad 0x36 k @ text)))"

section \<open>The compression function\<close>

lemma sha1_fun_fips: "sha1_fun t b c d = fips_f t b c d"
proof -
  have "(b AND (c XOR d)) XOR d = (b AND c) OR (NOT b AND d)" by (rule bit_word_eqI) (auto simp: bit_simps)
  moreover have "((b OR c) AND d) OR (b AND c) = (b AND c) OR (b AND d) OR (c AND d)" by (rule bit_word_eqI) (auto simp: bit_simps)
  ultimately show ?thesis by (simp add: sha1_fun_def fips_f_def)
qed

lemma bit_rol:
  assumes "n < 32" "0 < k" "k < 32"
  shows "bit (rol v k) n \<longleftrightarrow> (if n < k then bit v (n + (32 - k)) else bit v (n - k))"
  using assms by (auto simp: rol_def bit_or_iff bit_push_bit_iff bit_drop_bit_eq add.commute dest: bit_imp_le_length)

lemma bit_le32:
  "n < 32 \<Longrightarrow> bit (le32_at a b c d) n \<longleftrightarrow>
    (if n < 8 then bit a n else if n < 16 then bit b (n - 8) else if n < 24 then bit c (n - 16) else bit d (n - 24))"
  by (auto simp: le32_at_def bit_or_iff bit_push_bit_iff bit_unsigned_iff dest: bit_imp_le_length)

lemma bit_be32:
  "n < 32 \<Longrightarrow> bit (be32 a b c d) n \<longleftrightarrow>
    (if n < 8 then bit d n else if n < 16 then bit c (n - 8) else if n < 24 then bit b (n - 16) else bit a (n - 24))"
  by (auto simp: be32_def bit_or_iff bit_push_bit_iff bit_unsigned_iff dest: bit_imp_le_length)

lemma bit_swap_masks:
  "bit (0xFF00FF00 :: u32) n \<longleftrightarrow> 8 \<le> n \<and> n < 16 \<or> 24 \<le> n \<and> n < 32"
  "bit (0x00FF00FF :: u32) n \<longleftrightarrow> n < 8 \<or> 16 \<le> n \<and> n < 24"
proof -
  have e: "(0xFF00FF00 :: u32) = push_bit 24 (mask 8) OR push_bit 8 (mask 8)" "(0x00FF00FF :: u32) = push_bit 16 (mask 8) OR mask 8"
    by (simp_all add: mask_eq_exp_minus_1)
  show "bit (0xFF00FF00 :: u32) n \<longleftrightarrow> 8 \<le> n \<and> n < 16 \<or> 24 \<le> n \<and> n < 32" "bit (0x00FF00FF :: u32) n \<longleftrightarrow> n < 8 \<or> 16 \<le> n \<and> n < 24"
    unfolding e by (auto simp: bit_or_iff bit_push_bit_iff bit_mask_iff)
qed

lemma swap_le_be: "(rol (le32_at a b c d) 24 AND 0xFF00FF00) OR (rol (le32_at a b c d) 8 AND 0x00FF00FF) = be32 a b c d"
proof (rule bit_word_eqI)
  fix n assume "n < LENGTH(32)"
  then show "bit ((rol (le32_at a b c d) 24 AND 0xFF00FF00) OR (rol (le32_at a b c d) 8 AND 0x00FF00FF)) n = bit (be32 a b c d) n"
    unfolding bit_or_iff bit_and_iff bit_swap_masks by (auto simp: bit_rol bit_le32 bit_be32)
qed

lemma words_length: "length bs = 4 * n \<Longrightarrow> length (words_of bs) = n" "length bs = 4 * n \<Longrightarrow> length (be_words bs) = n"
  "length bs = 4 * n \<Longrightarrow> i < n \<Longrightarrow> (rol (words_of bs ! i) 24 AND 0xFF00FF00) OR (rol (words_of bs ! i) 8 AND 0x00FF00FF) = be_words bs ! i"
proof (induction bs arbitrary: n i rule: words_of.induct)
  case (1 a b c d bs)
  case 1 then show ?case using "1.IH"(1) [of "n - 1"] by simp
  case 2 then show ?case using "1.IH"(2) [of "n - 1"] by simp
  case 3 then show ?case using "1.IH"(3) [of "n - 1" "i - 1"] by (cases i) (simp_all add: swap_le_be)
qed auto

text \<open>The block of sixteen words as a window of the message schedule.\<close>

definition sched_window :: "u32 list \<Rightarrow> u32 list \<Rightarrow> nat \<Rightarrow> u32 list \<Rightarrow> bool" where
  "sched_window raw m t l \<longleftrightarrow> length l = 16 \<and> (\<forall>s. t \<le> s \<longrightarrow> s < 16 \<longrightarrow> l ! s = raw ! s) \<and>
     (\<forall>s. s < t \<longrightarrow> t \<le> s + 16 \<longrightarrow> l ! (s mod 16) = sched m s)"

lemma sched_window_blk:
  assumes "sched_window raw m t l" "length raw = 16" "t < 80"
    and raw: "\<And>i. i < 16 \<Longrightarrow> (rol (raw ! i) 24 AND 0xFF00FF00) OR (rol (raw ! i) 8 AND 0x00FF00FF) = m ! i"
  shows "sched_window raw m (Suc t) (if t < 16 then blk0 l t else blk l t) \<and> (if t < 16 then blk0 l t else blk l t) ! (t mod 16) = sched m t"
proof (cases "t < 16")
  case True
  then have "blk0 l t = l[t := m ! t]" "sched m t = m ! t" "length l = 16"
    using assms(1) raw [of t] by (simp_all add: blk0_def sched_window_def sched.simps)
  then show ?thesis using assms(1) True by (auto simp: sched_window_def nth_list_update less_Suc_eq)
next
  case False
  have old: "l ! (s mod 16) = sched m s" if "s < t" "t \<le> s + 16" for s using assms(1) that by (simp add: sched_window_def)
  have w: "(t + k) mod 16 = (t - k') mod 16" if "k + k' = 16" for k k'
  proof -
    have "t + k = t - k' + 16" using that False by simp
    then show ?thesis by (simp only: mod_add_self2)
  qed
  note i = w [of 13 3, simplified] w [of 8 8, simplified] w [of 2 14, simplified] w [of 0 16, simplified]
  have b: "blk l t = l[t mod 16 := sched m t]"
    using False old [of "t - 3"] old [of "t - 8"] old [of "t - 14"] old [of "t - 16"] sched.simps [of m t]
    by (simp add: blk_def i add.commute)
  have ne: "s mod 16 \<noteq> t mod 16" if "s < t" "Suc t \<le> s + 16" for s
  proof
    assume "s mod 16 = t mod 16"
    then have "16 dvd t - s" using that mod_eq_dvd_iff_nat [of s t 16] by simp
    then show False using that by (auto dest: dvd_imp_le)
  qed
  have "l[t mod 16 := sched m t] ! (s mod 16) = sched m s" if "s < Suc t" "Suc t \<le> s + 16" for s
    using ne [of s] old [of s] that assms(1) by (cases "s = t") (auto simp: sched_window_def)
  then show ?thesis using assms(1) False b by (simp add: sched_window_def)
qed

lemma rounds_fips:
  assumes "length raw = 16" "\<And>i. i < 16 \<Longrightarrow> (rol (raw ! i) 24 AND 0xFF00FF00) OR (rol (raw ! i) 8 AND 0x00FF00FF) = m ! i" "n \<le> 80"
  shows "fst (foldl sha1_round (h, raw) [0..<n]) = foldl (fips_step m) h [0..<n] \<and> sched_window raw m n (snd (foldl sha1_round (h, raw) [0..<n]))"
  using assms(3)
proof (induction n)
  case 0
  then show ?case using assms(1) by (simp add: sched_window_def)
next
  case (Suc n)
  obtain v l where s: "foldl sha1_round (h, raw) [0..<n] = (v, l)" by fastforce
  obtain a b c d e where v: "v = (a, b, c, d, e)" by (cases v) auto
  have w: "sched_window raw m n l" "v = foldl (fips_step m) h [0..<n]" using Suc s by simp_all
  let ?l = "if n < 16 then blk0 l n else blk l n"
  have "foldl sha1_round (h, raw) [0..<Suc n] = sha1_round (v, l) n" using s by simp
  also have "\<dots> = ((e + (fips_f n b c d + ?l ! (n mod 16) + sha1_const n + rol a 5), a, rol b 30, c, d), ?l)"
    by (simp only: v sha1_round_def sha1_fun_fips Let_def prod.case)
  finally have "foldl sha1_round (h, raw) [0..<Suc n] =
      ((e + (fips_f n b c d + ?l ! (n mod 16) + sha1_const n + rol a 5), a, rol b 30, c, d), ?l)" .
  moreover have "foldl (fips_step m) h [0..<Suc n] = fips_step m (a, b, c, d, e) n" using w(2) v by simp
  moreover have "fips_step m (a, b, c, d, e) n = (e + (fips_f n b c d + sched m n + sha1_const n + rol a 5), a, rol b 30, c, d)"
    by (simp add: fips_step_def ac_simps)
  moreover have "sched_window raw m (Suc n) ?l" "?l ! (n mod 16) = sched m n"
    using sched_window_blk [OF w(1) assms(1) _ assms(2)] Suc.prems by simp_all
  ultimately show ?case by (simp only: fst_conv snd_conv simp_thms)
qed

lemma transform_compress:
  assumes "length buf = 64"
  shows "fst (SHA1_Transform h buf) = compress h buf" "length (snd (SHA1_Transform h buf)) = 64"
proof -
  let ?r = "foldl sha1_round (h, words_of buf) [0..<80]"
  have l: "length buf = 4 * 16" using assms by simp
  have "fst ?r = foldl (fips_step (be_words buf)) h [0..<80]" "length (snd ?r) = 16"
    using rounds_fips [of "words_of buf" "be_words buf" 80 h] words_length [OF l] by (auto simp: sched_window_def)
  moreover have "length (bytes_of ws) = 4 * length ws" for ws by (induction ws) (simp_all add: bytes_of_def)
  ultimately show "fst (SHA1_Transform h buf) = compress h buf" "length (snd (SHA1_Transform h buf)) = 64"
    by (simp_all add: SHA1_Transform_def compress_def case_prod_beta del: upt_conv_Cons)
qed

section \<open>Streaming\<close>

text \<open>What a context holds after the data \<open>d\<close>: the whole blocks are compressed, the rest is in the
  buffer, and the two counters are the number of bits.\<close>

definition sha1_rep :: "u8 list \<Rightarrow> pj_sha1_context \<Rightarrow> bool" where
  "sha1_rep d ctx \<longleftrightarrow> length (sh_buffer ctx) = 64 \<and> sh_state ctx = compress_all sha1_h0 d \<and>
     take (length d mod 64) (sh_buffer ctx) = rest64 d \<and>
     sh_count0 ctx = of_nat (8 * length d) \<and> sh_count1 ctx = of_nat (8 * length d div 2 ^ 32)"

lemma sha1_blocks_compress: "sha1_blocks h d = (compress_all h d, rest64 d)"
proof (induction h d rule: sha1_blocks.induct)
  case (1 h d)
  show ?case
  proof (cases "63 < length d")
    case True
    have "rest64 (take 64 d @ drop 64 d) = rest64 (drop 64 d)" using True by (intro rest_append) simp
    then show ?thesis
      using 1 True transform_compress(1) [of "take 64 d" h] by (simp add: sha1_blocks.simps [of h d] fold_blocks.simps [of compress h d])
  qed (simp add: sha1_blocks.simps fold_blocks_short rest64_def)
qed

lemma sha1_count_rep:
  assumes "sh_count0 ctx = of_nat (8 * n)" "sh_count1 ctx = of_nat (8 * n div 2 ^ 32)" "len < 2 ^ 29"
  shows "sh_count0 (sha1_count len ctx) = of_nat (8 * (n + len))" "sh_count1 (sha1_count len ctx) = of_nat (8 * (n + len) div 2 ^ 32)"
proof -
  have c: "sh_count0 ctx + push_bit 3 (of_nat len) = of_nat (8 * n + 8 * len)"
    using assms(1) by (simp add: push_bit_eq_mult)
  then show "sh_count0 (sha1_count len ctx) = of_nat (8 * (n + len))" by (simp add: sha1_count_def Let_def)
  have "unat (of_nat len :: u32) = len" using assms(3) by (simp add: unat_of_nat)
  then have "unat (drop_bit 29 (of_nat len :: u32)) = len div 2 ^ 29" by (simp only: unat_drop_bit_eq) (simp only: drop_bit_eq_div)
  then have d: "drop_bit 29 (of_nat len :: u32) = 0" using assms(3) by (simp only: div_less unat_eq_0)
  have "unat (of_nat (8 * n + 8 * len) :: u32) < (len * 8) mod 2 ^ 64 \<longleftrightarrow> (8 * n + 8 * len) mod 2 ^ 32 < 8 * len"
    using assms(3) by (simp only: unat_of_nat) (simp add: mult.commute)
  moreover have "8 * len < 2 ^ 32" using assms(3) by simp
  ultimately show "sh_count1 (sha1_count len ctx) = of_nat (8 * (n + len) div 2 ^ 32)"
    using carry_count [of "8 * len" "2 ^ 32" "8 * n"] assms(2)
    by (simp add: sha1_count_def Let_def c d distrib_left)
qed

lemma rep_offset:
  assumes "sha1_rep d ctx"
  shows "unat (drop_bit 3 (sh_count0 ctx) AND 63) = length d mod 64" "sh_count0 ctx AND 504 = 448 \<longleftrightarrow> length d mod 64 = 56"
proof -
  have c: "sh_count0 ctx = of_nat (8 * length d)" using assms by (simp add: sha1_rep_def)
  show "unat (drop_bit 3 (sh_count0 ctx) AND 63) = length d mod 64" unfolding c by (rule count_offset)
  show "sh_count0 ctx AND 504 = 448 \<longleftrightarrow> length d mod 64 = 56" unfolding and_504 c count_octets_of_nat ..
qed

lemma update_rep:
  assumes "sha1_rep d ctx" "length e < 2 ^ 29"
  shows "sha1_rep (d @ e) (pj_sha1_update ctx e)"
proof -
  let ?c = "sha1_count (length e) ctx" and ?j = "length d mod 64"
  have r: "length (sh_buffer ctx) = 64" "sh_state ctx = compress_all sha1_h0 d" "take ?j (sh_buffer ctx) = rest64 d"
    using assms(1) by (simp_all add: sha1_rep_def)
  have k: "sh_buffer ?c = sh_buffer ctx" "sh_state ?c = sh_state ctx" by (simp_all add: sha1_count_def Let_def)
  have cnt: "sh_count0 ?c = of_nat (8 * length (d @ e))" "sh_count1 ?c = of_nat (8 * length (d @ e) div 2 ^ 32)"
    using sha1_count_rep [of ctx "length d" "length e"] assms by (simp_all add: sha1_rep_def)
  have j: "?j < 64" by simp
  show ?thesis
  proof (cases "?j + length e > 63")
    case False
    then have "pj_sha1_update ctx e = ?c\<lparr>sh_buffer := mem_put (sh_buffer ctx) ?j e\<rparr>"
      by (simp add: pj_sha1_update_def rep_offset(1) [OF assms(1)] Let_def k)
    then show ?thesis
      using False cnt r k blocks_short(1) [of d e compress sha1_h0] blocks_short(2,3) [of d e] mem_put_facts [of ?j e "sh_buffer ctx"]
      by (simp add: sha1_rep_def)
  next
    case True
    let ?b = "mem_put (sh_buffer ctx) ?j (take (64 - ?j) e)" and ?r = "drop (64 - ?j) e"
    let ?t = "SHA1_Transform (sh_state ctx) ?b"
    have l: "?j + length (take (64 - ?j) e) = 64" using True j by simp
    then have b: "?b = rest64 d @ take (64 - ?j) e" using r(1,3) by (simp add: mem_put_def)
    have u: "pj_sha1_update ctx e =
        ?c\<lparr>sh_state := compress_all (fst ?t) ?r, sh_buffer := mem_put (snd ?t) 0 (rest64 ?r)\<rparr>"
      using True by (simp add: pj_sha1_update_def rep_offset(1) [OF assms(1)] Let_def k sha1_blocks_compress case_prod_beta)
    have t: "fst ?t = compress (compress_all sha1_h0 d) ?b" "length (snd ?t) = 64"
      using transform_compress [of ?b "sh_state ctx"] blocks_long(1) [OF True] r(2) b by simp_all
    have s: "length (rest64 ?r) < 64" using whole_rest(2) [of ?r] by simp
    have "take (length (d @ e) mod 64) (mem_put (snd ?t) 0 (rest64 ?r)) = rest64 (d @ e)"
      using mem_put_facts(2) [of 0 "rest64 ?r" "snd ?t"] s t(2) blocks_long(3,4) [OF True] by simp
    moreover have "length (mem_put (snd ?t) 0 (rest64 ?r)) = 64"
      using mem_put_facts(1) [of 0 "rest64 ?r" "snd ?t"] s t(2) by simp
    moreover have "compress_all (fst ?t) ?r = compress_all sha1_h0 (d @ e)"
      by (subst t(1), subst b, rule blocks_long(2) [OF True, symmetric])
    ultimately show ?thesis unfolding sha1_rep_def u using cnt by simp
  qed
qed

lemma init_rep: "length buf = 64 \<Longrightarrow> sha1_rep [] (pj_sha1_init buf)"
  by (simp add: sha1_rep_def pj_sha1_init_def fold_blocks_short sha1_h0_def rest64_def)

lemma pad_rep: "sha1_rep d ctx \<Longrightarrow> sha1_rep (d @ replicate ((120 - length d mod 64) mod 64) 0) (sha1_pad ctx)"
proof (induction ctx arbitrary: d rule: sha1_pad.induct)
  case (1 ctx)
  show ?case
  proof (cases "length d mod 64 = 56")
    case True
    then show ?thesis using 1(2) rep_offset(2) [OF 1(2)] by (simp add: sha1_pad.simps [of ctx])
  next
    case False
    define x where "x = length d mod 64"
    have "x < 64" "x \<noteq> 56" using False by (simp_all add: x_def)
    moreover have "Suc (length d) mod 64 = (if x = 63 then 0 else Suc x)" by (simp add: x_def mod_Suc)
    ultimately have "(120 - x) mod 64 = Suc ((120 - length (d @ [0]) mod 64) mod 64)" by (auto simp: mod_if)
    then have "d @ replicate ((120 - x) mod 64) 0 = (d @ [0]) @ replicate ((120 - length (d @ [0]) mod 64) mod 64) 0" by simp
    moreover have "sha1_rep (d @ [0]) (pj_sha1_update ctx [0])" using update_rep [OF 1(2), of "[0]"] by simp
    moreover have "sh_count0 ctx AND 504 \<noteq> 448" using False rep_offset(2) [OF 1(2)] by simp
    ultimately show ?thesis using 1(1) [of "d @ [0]"] by (simp only: sha1_pad.simps [of ctx] x_def if_True simp_thms)
  qed
qed

lemma final_rep:
  assumes "sha1_rep d ctx"
  shows "snd (pj_sha1_final ctx) = fips_sha1 d"
proof -
  let ?c = "sha1_pad (pj_sha1_update ctx [0x80])"
  define x where "x = length d mod 64"
  have "x < 64" "Suc (length d) mod 64 = (if x = 63 then 0 else Suc x)" by (simp_all add: x_def mod_Suc)
  then have "(120 - Suc (length d) mod 64) mod 64 = (119 - length d mod 64) mod 64" by (auto simp: x_def [symmetric])
  then have "sha1_rep (d @ 0x80 # replicate ((119 - length d mod 64) mod 64) 0) ?c"
    using pad_rep [OF update_rep [OF assms, of "[0x80]"]] by simp
  moreover have "sha1_finalcount ctx = be64 (8 * length d)" using assms by (simp add: sha1_finalcount_def be64_def sha1_rep_def)
  moreover have "length (be64 (8 * length d)) < 2 ^ 29" by (simp add: be64_def put32_def)
  ultimately have "sha1_rep (fips_pad d) (pj_sha1_update ?c (sha1_finalcount ctx))"
    using update_rep [of "d @ 0x80 # replicate ((119 - length d mod 64) mod 64) 0" ?c "be64 (8 * length d)"] by (simp add: fips_pad_def)
  then show ?thesis by (simp add: pj_sha1_final_def Let_def fips_sha1_def sha1_rep_def)
qed

interpretation sha1_stream: stream_digest "{pj_sha1_init buffer | buffer. length buffer = 64}" pj_sha1_update "\<lambda>ctx. snd (pj_sha1_final ctx)"
  sha1_rep "\<lambda>e. length e < 2 ^ 29" fips_sha1
  by unfold_locales (auto intro: init_rep update_rep final_rep)

text \<open>C37: Whatever way a message is cut into updates, the code computes the SHA-1 of the standard, provided that no
  single update is of 512 megabytes or more.\<close>

theorem sha1_streaming_is_fips:
  assumes "length buffer = 64" "\<forall>data \<in> set chunks. length data < 2 ^ 29"
  shows "snd (pj_sha1_final (foldl pj_sha1_update (pj_sha1_init buffer) chunks)) = fips_sha1 (concat chunks)"
  using assms by (intro sha1_stream.streaming) (auto simp: list_all_iff)

theorem sha1_streaming_is_fips_witness:
  "snd (pj_sha1_final (foldl pj_sha1_update (pj_sha1_init (replicate 64 7)) [[97], [98, 99]])) = fips_sha1 [97, 98, 99]"
  using sha1_streaming_is_fips [of "replicate 64 7" "[[97], [98, 99]]"] by simp

lemma hmac_pad_length: "length key \<le> 64 \<Longrightarrow> length (hmac_pad x key) = 64"
  by (simp add: hmac_pad_def)

lemma digest_length: "length (fips_sha1 m) = 20"
  by (simp add: fips_sha1_def sha1_digest_def put32_def split: prod.split)

text \<open>What a context of the HMAC holds: the inner digest has begun with the key, and the key of the outer one is kept.\<close>

definition hmac_key :: "u8 list \<Rightarrow> u8 list" where
  "hmac_key key = (if length key > 64 then fips_sha1 key else key)"

definition hmac_rep :: "u8 list \<Rightarrow> u8 list \<Rightarrow> pj_hmac_sha1_context \<Rightarrow> bool" where
  "hmac_rep key d hctx \<longleftrightarrow> sha1_rep (hmac_pad 0x36 (hmac_key key) @ d) (hm_context hctx) \<and> hm_k_opad hctx = hmac_pad 0x5c (hmac_key key)"

lemma hmac_key_pad: "length (hmac_pad x (hmac_key key)) = 64"
  by (rule hmac_pad_length) (simp add: hmac_key_def digest_length)

lemma feed_short: "sha1_rep e c \<Longrightarrow> length f \<le> 64 \<Longrightarrow> sha1_rep (e @ f) (pj_sha1_update c f)"
  by (rule update_rep) auto

lemma hmac_init_rep:
  assumes "length tbuf = 64" "length buf = 64" "length key < 2 ^ 29"
  shows "hmac_rep key [] (pj_hmac_sha1_init tbuf buf key)"
proof -
  have "snd (pj_sha1_final (pj_sha1_update (pj_sha1_init tbuf) key)) = fips_sha1 key" using assms by (intro sha1_stream.one_piece) auto
  moreover have "sha1_rep (hmac_pad 0x36 (hmac_key key)) (pj_sha1_update (pj_sha1_init buf) (hmac_pad 0x36 (hmac_key key)))"
    using feed_short [OF init_rep [OF assms(2)], of "hmac_pad 0x36 (hmac_key key)"] by (simp add: hmac_key_pad)
  ultimately show ?thesis by (cases "64 < length key") (simp_all add: hmac_rep_def pj_hmac_sha1_init_def hmac_key_def Let_def)
qed

lemma hmac_final_rep:
  assumes "hmac_rep key d hctx"
  shows "snd (pj_hmac_sha1_final hctx) = rfc_hmac key d"
proof -
  let ?k = "hmac_key key" and ?c = "hm_context hctx"
  have f: "snd (pj_sha1_final ?c) = fips_sha1 (hmac_pad 0x36 ?k @ d)" using assms by (auto simp: hmac_rep_def intro: final_rep)
  have b: "length (sh_buffer (fst (pj_sha1_final ?c))) = 64" by (simp add: pj_sha1_final_def Let_def)
  have "sha1_rep (hmac_pad 0x5c ?k @ fips_sha1 m)
      (pj_sha1_update (pj_sha1_update (pj_sha1_init (sh_buffer (fst (pj_sha1_final ?c)))) (hmac_pad 0x5c ?k)) (fips_sha1 m))" for m
    using feed_short [OF feed_short [OF init_rep [OF b], of "hmac_pad 0x5c ?k"], of "fips_sha1 m"] by (simp add: hmac_key_pad digest_length)
  then have "snd (pj_sha1_final (pj_sha1_update (pj_sha1_update (pj_sha1_init (sh_buffer (fst (pj_sha1_final ?c)))) (hmac_pad 0x5c ?k)) (fips_sha1 m))) =
      fips_sha1 (hmac_pad 0x5c ?k @ fips_sha1 m)" for m by (rule final_rep)
  moreover have "rfc_hmac key d = fips_sha1 (hmac_pad 0x5c ?k @ fips_sha1 (hmac_pad 0x36 ?k @ d))" by (simp add: rfc_hmac_def hmac_key_def Let_def)
  moreover have "hm_k_opad hctx = hmac_pad 0x5c ?k" using assms by (simp add: hmac_rep_def)
  ultimately show ?thesis using f by (simp add: pj_hmac_sha1_final_def case_prod_beta Let_def)
qed

lemma hmac_feed_rep: "hmac_rep key d hctx \<Longrightarrow> length e < 2 ^ 29 \<Longrightarrow> hmac_rep key (d @ e) (pj_hmac_sha1_update hctx e)"
  using update_rep [of "hmac_pad 0x36 (hmac_key key) @ d" "hm_context hctx" e] by (simp add: hmac_rep_def pj_hmac_sha1_update_def)

interpretation hmac_stream: stream_digest "{pj_hmac_sha1_init tbuf buf key | tbuf buf. length tbuf = 64 \<and> length buf = 64 \<and> length key < 2 ^ 29}"
  pj_hmac_sha1_update "\<lambda>hctx. snd (pj_hmac_sha1_final hctx)" "hmac_rep key" "\<lambda>e. length e < 2 ^ 29" "rfc_hmac key" for key
  by unfold_locales (auto intro: hmac_init_rep hmac_final_rep hmac_feed_rep)



text \<open>A single update of 512 megabytes: the carry out of the low word is counted twice, because the low word is
  compared with the number of bits before its reduction to 32 bits.\<close>

theorem sha1_large_update_miscounts:
  assumes "length data = 2 ^ 29"
  shows "8 * length data div 2 ^ 32 = 1 \<and> sh_count1 (pj_sha1_update (pj_sha1_init buffer) data) = 2"
proof -
  have c: "sh_count1 (pj_sha1_update ctx data) = sh_count1 (sha1_count (length data) ctx)" for ctx
    by (simp add: pj_sha1_update_def Let_def split: prod.split)
  have "push_bit 3 (of_nat (2 ^ 29)) = (0 :: u32)" "drop_bit 29 (of_nat (2 ^ 29)) = (1 :: u32)" by simp_all
  then show ?thesis unfolding c assms by (simp add: sha1_count_def pj_sha1_init_def)
qed

theorem sha1_large_update_miscounts_witness:
  "8 * length (replicate (2 ^ 29) (0 :: u8)) div 2 ^ 32 = 1 \<and> sh_count1 (pj_sha1_update (pj_sha1_init []) (replicate (2 ^ 29) 0)) = 2"
  by (rule sha1_large_update_miscounts) (rule length_replicate)

end
