(* ===== verification/Stun_Msg.thy ===== *)
theory Stun_Msg
  imports Pjnath_Errno Crc32 Sha1
begin

text \<open>
  The STUN message codec of \<^verbatim>\<open>pjnath/src/pjnath/stun_msg.c\<close>: the attribute descriptors, one
  decoder, encoder and copy per kind of attribute, the construction of messages, the check of a packet,
  the decoder with its error responses and the encoder with MESSAGE-INTEGRITY and FINGERPRINT.

  The code casts an attribute to the structure that its type stands for; the model has one constructor
  per structure and a cast to another one is a \<open>Fault\<close>.  Reads of a packet and writes to the caller's
  buffer outside it are a \<open>Fault\<close> too.  A socket address is its family, its port in host byte order
  and the bytes of the address, the fields the codec uses.  \<^verbatim>\<open>size_t\<close> has 64 bits; where the code
  narrows it to \<^verbatim>\<open>unsigned\<close> or \<^verbatim>\<open>pj_uint16_t\<close>, so does the model.  The CRC and the HMAC are those of
  the theories \<^verbatim>\<open>Crc32\<close> and \<^verbatim>\<open>Sha1\<close>: the address of the data and the bytes a context holds before its
  initialisation, which do not influence their results, are fixed.
  \<^verbatim>\<open>PJ_STUN_OLD_STYLE_MI_FINGERPRINT\<close> is 0, its default, and the pool never fails.
\<close>

section \<open>Data\<close>

definition PJ_STUN_MAGIC :: u32 where "PJ_STUN_MAGIC = 0x2112A442"
definition STUN_XOR_FINGERPRINT :: u32 where "STUN_XOR_FINGERPRINT = 0x5354554e"
definition PJ_STUN_MAX_ATTR :: nat where "PJ_STUN_MAX_ATTR = 16"
definition ATTR_HDR_LEN :: nat where "ATTR_HDR_LEN = 4"
definition STUN_GENERIC_IPV4_ADDR_LEN :: u16 where "STUN_GENERIC_IPV4_ADDR_LEN = 8"
definition STUN_GENERIC_IPV6_ADDR_LEN :: u16 where "STUN_GENERIC_IPV6_ADDR_LEN = 20"

definition PJ_STUN_ATTR_MESSAGE_INTEGRITY :: u16 where "PJ_STUN_ATTR_MESSAGE_INTEGRITY = 0x0008"
definition PJ_STUN_ATTR_ERROR_CODE :: u16 where "PJ_STUN_ATTR_ERROR_CODE = 0x0009"
definition PJ_STUN_ATTR_UNKNOWN_ATTRIBUTES :: u16 where "PJ_STUN_ATTR_UNKNOWN_ATTRIBUTES = 0x000A"
definition PJ_STUN_ATTR_END_MANDATORY_ATTR :: u16 where "PJ_STUN_ATTR_END_MANDATORY_ATTR = 0x0031"
definition PJ_STUN_ATTR_START_EXTENDED_ATTR :: u16 where "PJ_STUN_ATTR_START_EXTENDED_ATTR = 0x8021"
definition PJ_STUN_ATTR_SOFTWARE :: u16 where "PJ_STUN_ATTR_SOFTWARE = 0x8022"
definition PJ_STUN_ATTR_FINGERPRINT :: u16 where "PJ_STUN_ATTR_FINGERPRINT = 0x8028"
definition PJ_STUN_ATTR_END_EXTENDED_ATTR :: u16 where "PJ_STUN_ATTR_END_EXTENDED_ATTR = 0x802b"

definition PJ_STUN_IS_DATAGRAM :: u32 where "PJ_STUN_IS_DATAGRAM = 1"
definition PJ_STUN_CHECK_PACKET :: u32 where "PJ_STUN_CHECK_PACKET = 2"
definition PJ_STUN_NO_FINGERPRINT_CHECK :: u32 where "PJ_STUN_NO_FINGERPRINT_CHECK = 8"

definition PJ_STUN_SC_BAD_REQUEST :: int where "PJ_STUN_SC_BAD_REQUEST = 400"
definition PJ_STUN_SC_UNKNOWN_ATTRIBUTE :: int where "PJ_STUN_SC_UNKNOWN_ATTRIBUTE = 420"
definition PJ_STUN_SC_SERVER_ERROR :: int where "PJ_STUN_SC_SERVER_ERROR = 500"

record pj_stun_msg_hdr =
  mh_type :: u16
  mh_length :: u16
  mh_magic :: u32
  mh_tsx_id :: "u8 list"

datatype pj_sockaddr = Sa_inet u16 "u8 list" | Sa_inet6 u16 "u8 list" | Sa_other

text \<open>The structures whose first member is a \<^verbatim>\<open>pj_stun_attr_hdr\<close>.  A field the code reads through
  a cast is a selector, which says nothing about an attribute of another kind.\<close>

datatype pj_stun_attr =
    Sockaddr_attr (ah_type: u16) (ah_length: u16) bool pj_sockaddr
  | Empty_attr (ah_type: u16) (ah_length: u16)
  | String_attr (ah_type: u16) (ah_length: u16) (sa_value: "u8 list")
  | Uint_attr (ah_type: u16) (ah_length: u16) u32
  | Uint64_attr (ah_type: u16) (ah_length: u16) u32 u32
  | Msgint_attr (ah_type: u16) (ah_length: u16) (mi_hmac: "u8 list")
  | Errcode_attr (ah_type: u16) (ah_length: u16) (ea_err_code: int) "u8 list"
  | Unknown_attr (ah_type: u16) (ah_length: u16) "u16 list"
  | Binary_attr (ah_type: u16) (ah_length: u16) u32 "u8 list"

record pj_stun_msg =
  sm_hdr :: pj_stun_msg_hdr
  sm_attr :: "pj_stun_attr list"

text \<open>The functions of a descriptor are those of one kind of attribute.\<close>

datatype attr_codec =
  C_sockaddr | C_xored_sockaddr | C_string | C_msgint | C_errcode | C_unknown | C_uint | C_uint64 | C_binary | C_empty

type_synonym attr_desc = "string \<times> attr_codec"

definition mandatory_attr_desc :: "attr_desc option list" where
  "mandatory_attr_desc =
   [None, Some (''MAPPED-ADDRESS'', C_sockaddr), Some (''RESPONSE-ADDRESS'', C_sockaddr),
    Some (''CHANGE-REQUEST'', C_uint), Some (''SOURCE-ADDRESS'', C_sockaddr), Some (''CHANGED-ADDRESS'', C_sockaddr),
    Some (''USERNAME'', C_string), Some (''PASSWORD'', C_string), Some (''MESSAGE-INTEGRITY'', C_msgint),
    Some (''ERROR-CODE'', C_errcode), Some (''UNKNOWN-ATTRIBUTES'', C_unknown), Some (''REFLECTED-FROM'', C_sockaddr),
    Some (''CHANNEL-NUMBER'', C_uint), Some (''LIFETIME'', C_uint), None, Some (''MAGIC-COOKIE'', C_uint),
    Some (''BANDWIDTH'', C_uint), None, Some (''XOR-PEER-ADDRESS'', C_xored_sockaddr), Some (''DATA'', C_binary),
    Some (''REALM'', C_string), Some (''NONCE'', C_string), Some (''XOR-RELAYED-ADDRESS'', C_xored_sockaddr),
    Some (''REQUESTED-ADDRESS-FAMILY'', C_uint), Some (''EVEN-PORT'', C_uint), Some (''REQUESTED-TRANSPORT'', C_uint),
    Some (''DONT-FRAGMENT'', C_empty), None, None, None, None, None, Some (''XOR-MAPPED-ADDRESS'', C_xored_sockaddr),
    Some (''TIMER-VAL'', C_uint), Some (''RESERVATION-TOKEN'', C_uint64),
    Some (''XOR-REFLECTED-FROM'', C_xored_sockaddr), Some (''PRIORITY'', C_uint), Some (''USE-CANDIDATE'', C_empty),
    None, None, None, None, Some (''CONNECTION-ID'', C_uint), None, None, None, None, None, Some (''ICMP'', C_uint),
    None]"

definition extended_attr_desc :: "attr_desc option list" where
  "extended_attr_desc =
   [None, Some (''SOFTWARE'', C_string), Some (''ALTERNATE-SERVER'', C_sockaddr), Some (''REFRESH-INTERVAL'', C_uint),
    None, None, None, Some (''FINGERPRINT'', C_uint), Some (''ICE-CONTROLLED'', C_uint64),
    Some (''ICE-CONTROLLING'', C_uint64)]"

definition stun_method_names :: "string list" where
  "stun_method_names =
    [''Unknown'', ''Binding'', ''SharedSecret'', ''Allocate'', ''Refresh'', ''???'', ''Send'', ''Data'', ''CreatePermission'', ''ChannelBind'', ''Connect'', ''ConnectionBind'', ''ConnectionAttempt'']"

definition stun_err_msg_map :: "(int \<times> string) list" where
  "stun_err_msg_map =
    [(300, ''Try Alternate''),
     (400, ''Bad Request''),
     (401, ''Unauthorized''),
     (403, ''Forbidden''),
     (420, ''Unknown Attribute''),
     (437, ''Allocation Mismatch''),
     (438, ''Stale Nonce''),
     (439, ''Active Destination Already Set''),
     (441, ''Wrong Credentials''),
     (442, ''Unsupported Transport Protocol''),
     (445, ''Operation for TCP Only''),
     (446, ''Connection Failure''),
     (447, ''Connection Timeout''),
     (486, ''Allocation Quota Reached''),
     (487, ''Role Conflict''),
     (500, ''Server Error''),
     (508, ''Insufficient Capacity''),
     (600, ''Global Failure'')]"

definition PJ_STUN_GET_METHOD :: "u32 \<Rightarrow> u32" where "PJ_STUN_GET_METHOD msg_type = msg_type AND 0xFEEF"
definition PJ_STUN_IS_REQUEST :: "u32 \<Rightarrow> bool" where "PJ_STUN_IS_REQUEST msg_type = (msg_type AND 0x0110 = 0x0000)"
definition PJ_STUN_IS_SUCCESS_RESPONSE :: "u32 \<Rightarrow> bool" where "PJ_STUN_IS_SUCCESS_RESPONSE msg_type = (msg_type AND 0x0110 = 0x0100)"
definition PJ_STUN_IS_ERROR_RESPONSE :: "u32 \<Rightarrow> bool" where "PJ_STUN_IS_ERROR_RESPONSE msg_type = (msg_type AND 0x0110 = 0x0110)"
definition PJ_STUN_IS_INDICATION :: "u32 \<Rightarrow> bool" where "PJ_STUN_IS_INDICATION msg_type = (msg_type AND 0x0110 = 0x0010)"

section \<open>Names and reasons\<close>

definition pj_stun_get_method_name :: "u32 \<Rightarrow> string" where
  "pj_stun_get_method_name msg_type =
     (let m = unat (PJ_STUN_GET_METHOD msg_type) in
      if m \<ge> length stun_method_names then ''???'' else stun_method_names ! m)"

definition pj_stun_get_class_name :: "u32 \<Rightarrow> string" where
  "pj_stun_get_class_name msg_type =
     (if PJ_STUN_IS_REQUEST msg_type then ''request''
      else if PJ_STUN_IS_SUCCESS_RESPONSE msg_type then ''success response''
      else if PJ_STUN_IS_ERROR_RESPONSE msg_type then ''error response''
      else if PJ_STUN_IS_INDICATION msg_type then ''indication''
      else ''???'')"

definition find_attr_desc :: "u16 \<Rightarrow> attr_desc option" where
  "find_attr_desc attr_type =
     (if attr_type < PJ_STUN_ATTR_END_MANDATORY_ATTR then mandatory_attr_desc ! unat attr_type
      else if attr_type \<ge> PJ_STUN_ATTR_START_EXTENDED_ATTR \<and> attr_type < PJ_STUN_ATTR_END_EXTENDED_ATTR
      then extended_attr_desc ! unat (attr_type - PJ_STUN_ATTR_START_EXTENDED_ATTR)
      else None)"

definition pj_stun_get_attr_name :: "u16 \<Rightarrow> string" where
  "pj_stun_get_attr_name attr_type = (case find_attr_desc attr_type of None \<Rightarrow> ''???'' | Some (name, _) \<Rightarrow> name)"

text \<open>The binary search over the codes; \<open>None\<close> is the null string.\<close>

function err_search :: "int \<Rightarrow> nat \<Rightarrow> nat \<Rightarrow> nat parse" where
  "err_search err_code first n =
     (if n > 0 then
        (let half = n div 2; mid = first + half in
         if mid < length stun_err_msg_map then
           (if fst (stun_err_msg_map ! mid) < err_code then err_search err_code (mid + 1) (n - (half + 1))
            else if fst (stun_err_msg_map ! mid) > err_code then err_search err_code first half
            else Done mid)
         else Fault)
      else Done first)"
  by pat_completeness auto
termination by (relation "measure (\<lambda>(_, _, n). n)") auto

declare err_search.simps [simp del]

definition pj_stun_get_err_reason :: "int \<Rightarrow> (string option) parse" where
  "pj_stun_get_err_reason err_code =
     pbind (err_search err_code 0 (length stun_err_msg_map)) (\<lambda>first.
       if first < length stun_err_msg_map
       then Done (if fst (stun_err_msg_map ! first) = err_code then Some (snd (stun_err_msg_map ! first)) else None)
       else Fault)"

text \<open>The static \<^verbatim>\<open>padding_char\<close>: its new value and the one returned.\<close>

definition pj_stun_set_padding_char :: "int \<Rightarrow> int \<Rightarrow> int \<times> int" where
  "pj_stun_set_padding_char padding_char chr = (chr, padding_char)"

text \<open>What \<^verbatim>\<open>%d\<close> prints.\<close>

fun nat_dec :: "nat \<Rightarrow> string" where
  "nat_dec n = (if n < 10 then [char_of (48 + n)] else nat_dec (n div 10) @ [char_of (48 + n mod 10)])"

declare nat_dec.simps [simp del]

definition int_dec :: "int \<Rightarrow> string" where
  "int_dec i = (if i < 0 then CHR ''-'' # nat_dec (nat (- i)) else nat_dec (nat i))"

definition str_bytes :: "string \<Rightarrow> u8 list" where
  "str_bytes s = map of_char s"

section \<open>Attributes\<close>

definition align4 :: "nat \<Rightarrow> nat" where
  "align4 n = (n + 3) div 4 * 4"

definition u32t :: "nat \<Rightarrow> nat" where
  "u32t n = n mod 2 ^ 32"

text \<open>The bytes after a value of \<open>n\<close> bytes up to the next multiple of four.\<close>

definition pad_bytes :: "int \<Rightarrow> nat \<Rightarrow> u8 list" where
  "pad_bytes padding_char n = (if n mod 4 \<noteq> 0 then replicate (4 - n mod 4) (word_of_int padding_char) else [])"

definition xor_bytes :: "u8 list \<Rightarrow> u8 list \<Rightarrow> u8 list" where
  "xor_bytes xs ys = map2 (XOR) xs ys"

text \<open>Port and address as they are on the wire, and back.\<close>

definition xor_key :: "pj_stun_msg_hdr \<Rightarrow> u8 list" where
  "xor_key msghdr = put32 PJ_STUN_MAGIC @ mh_tsx_id msghdr"

definition xor_port :: "u16 \<Rightarrow> u16" where
  "xor_port port = port XOR ucast (drop_bit 16 PJ_STUN_MAGIC)"

definition pj_sockaddr_get_addr_len :: "pj_sockaddr \<Rightarrow> nat" where
  "pj_sockaddr_get_addr_len a = (case a of Sa_inet _ _ \<Rightarrow> 4 | Sa_inet6 _ _ \<Rightarrow> 16 | Sa_other \<Rightarrow> 0)"

definition pj_stun_sockaddr_attr_init :: "u16 \<Rightarrow> bool \<Rightarrow> pj_sockaddr \<Rightarrow> nat \<Rightarrow> pj_stun_attr parse" where
  "pj_stun_sockaddr_attr_init attr_type xor_ed addr addr_len =
     (if addr_len = 16 \<or> addr_len = 28
      then Done (Sockaddr_attr attr_type (of_nat (pj_sockaddr_get_addr_len addr + 4)) xor_ed addr)
      else Fail PJ_EINVAL)"

definition decode_sockaddr_attr :: "u8 list \<Rightarrow> nat \<Rightarrow> pj_stun_attr parse" where
  "decode_sockaddr_attr pdu buf =
     pbind (rd16 pdu buf) (\<lambda>ty. pbind (rd16 pdu (buf + 2)) (\<lambda>len.
       if len \<noteq> STUN_GENERIC_IPV4_ADDR_LEN \<and> len \<noteq> STUN_GENERIC_IPV6_ADDR_LEN then Fail PJNATH_ESTUNINATTRLEN
       else pbind (rd8 pdu (buf + 5)) (\<lambda>val.
         if val = 1 then
           (if len \<noteq> STUN_GENERIC_IPV4_ADDR_LEN then Fail PJNATH_ESTUNINATTRLEN
            else pbind (rd16 pdu (buf + 6)) (\<lambda>port. pbind (rd_bytes pdu (buf + 8) 4) (\<lambda>addr.
              Done (Sockaddr_attr ty len False (Sa_inet port addr)))))
         else if val = 2 then
           (if len \<noteq> STUN_GENERIC_IPV6_ADDR_LEN then Fail PJNATH_ESTUNINATTRLEN
            else pbind (rd16 pdu (buf + 6)) (\<lambda>port. pbind (rd_bytes pdu (buf + 8) 16) (\<lambda>addr.
              Done (Sockaddr_attr ty len False (Sa_inet6 port addr)))))
         else Fail PJNATH_EINVAF)))"

definition decode_xored_sockaddr_attr :: "u8 list \<Rightarrow> nat \<Rightarrow> pj_stun_msg_hdr \<Rightarrow> pj_stun_attr parse" where
  "decode_xored_sockaddr_attr pdu buf msghdr =
     pbind (decode_sockaddr_attr pdu buf) (\<lambda>attr.
       case attr of
         Sockaddr_attr ty len _ (Sa_inet port addr) \<Rightarrow>
           Done (Sockaddr_attr ty len True (Sa_inet (xor_port port) (xor_bytes addr (put32 PJ_STUN_MAGIC))))
       | Sockaddr_attr ty len _ (Sa_inet6 port addr) \<Rightarrow>
           Done (Sockaddr_attr ty len True (Sa_inet6 (xor_port port) (xor_bytes addr (xor_key msghdr))))
       | Sockaddr_attr ty len _ Sa_other \<Rightarrow> Fail PJNATH_EINVAF
       | _ \<Rightarrow> Fault)"

text \<open>An encoder writes at \<open>buf\<close> of the memory \<open>mem\<close>, where \<open>len\<close> bytes are said to be free, and returns
  the memory and the number of bytes printed.\<close>

definition encode_sockaddr_attr :: "pj_stun_attr \<Rightarrow> u8 list \<Rightarrow> nat \<Rightarrow> nat \<Rightarrow> pj_stun_msg_hdr \<Rightarrow> (u8 list \<times> nat) parse" where
  "encode_sockaddr_attr a mem buf len msghdr =
     (case a of
        Sockaddr_attr ty _ xor_ed sockaddr \<Rightarrow>
          pbind (wr_bytes mem buf (put16 ty)) (\<lambda>mem.
            case sockaddr of
              Sa_inet port addr \<Rightarrow>
                if len < 12 then Fail PJ_ETOOSMALL
                else pbind (wr_bytes mem (buf + 2) (put16 STUN_GENERIC_IPV4_ADDR_LEN @ [0, 1] @
                    (if xor_ed then put16 (xor_port port) @ xor_bytes addr (put32 PJ_STUN_MAGIC) else put16 port @ addr)))
                  (\<lambda>mem. Done (mem, 12))
            | Sa_inet6 port addr \<Rightarrow>
                if len < 24 then Fail PJ_ETOOSMALL
                else pbind (wr_bytes mem (buf + 2) (put16 STUN_GENERIC_IPV6_ADDR_LEN @ [0, 2] @
                    (if xor_ed then put16 (xor_port port) @ xor_bytes addr (xor_key msghdr) else put16 port @ addr)))
                  (\<lambda>mem. Done (mem, 24))
            | Sa_other \<Rightarrow> Fail PJNATH_EINVAF)
      | _ \<Rightarrow> Fault)"

definition clone_sockaddr_attr :: "pj_stun_attr \<Rightarrow> pj_stun_attr parse" where
  "clone_sockaddr_attr a = (case a of Sockaddr_attr ty len xor_ed sockaddr \<Rightarrow> Done (Sockaddr_attr ty len xor_ed sockaddr) | _ \<Rightarrow> Fault)"

definition pj_stun_string_attr_init :: "u16 \<Rightarrow> u8 list \<Rightarrow> pj_stun_attr" where
  "pj_stun_string_attr_init attr_type value =
     (if value \<noteq> [] then String_attr attr_type (of_nat (length value)) value else String_attr attr_type 0 [])"

definition decode_string_attr :: "u8 list \<Rightarrow> nat \<Rightarrow> pj_stun_attr parse" where
  "decode_string_attr pdu buf =
     pbind (rd16 pdu buf) (\<lambda>ty. pbind (rd16 pdu (buf + 2)) (\<lambda>len.
       pbind (rd_bytes pdu (buf + ATTR_HDR_LEN) (unat len)) (\<lambda>value. Done (String_attr ty len value))))"

definition encode_string_attr :: "int \<Rightarrow> pj_stun_attr \<Rightarrow> u8 list \<Rightarrow> nat \<Rightarrow> nat \<Rightarrow> pj_stun_msg_hdr \<Rightarrow> (u8 list \<times> nat) parse" where
  "encode_string_attr padding_char a mem buf len msghdr =
     (case a of
        String_attr ty _ value \<Rightarrow>
          (let slen = length value; printed = u32t (align4 (u32t slen + ATTR_HDR_LEN)) in
           if len < printed then Fail PJ_ETOOSMALL
           else pbind (wr_bytes mem buf (put16 ty @
               put16 (if mh_magic msghdr \<noteq> PJ_STUN_MAGIC \<or> ty = PJ_STUN_ATTR_SOFTWARE then of_nat (align4 slen) else of_nat slen) @
               value @ pad_bytes padding_char slen)) (\<lambda>mem. Done (mem, printed)))
      | _ \<Rightarrow> Fault)"

definition clone_string_attr :: "pj_stun_attr \<Rightarrow> pj_stun_attr parse" where
  "clone_string_attr a = (case a of String_attr ty len value \<Rightarrow> Done (String_attr ty len value) | _ \<Rightarrow> Fault)"

definition pj_stun_empty_attr_create :: "u16 \<Rightarrow> pj_stun_attr" where
  "pj_stun_empty_attr_create attr_type = Empty_attr attr_type 0"

definition decode_empty_attr :: "u8 list \<Rightarrow> nat \<Rightarrow> pj_stun_attr parse" where
  "decode_empty_attr pdu buf =
     pbind (rd16 pdu buf) (\<lambda>ty. pbind (rd16 pdu (buf + 2)) (\<lambda>len.
       if len \<noteq> 0 then Fail PJNATH_ESTUNINATTRLEN else Done (Empty_attr ty len)))"

definition encode_empty_attr :: "pj_stun_attr \<Rightarrow> u8 list \<Rightarrow> nat \<Rightarrow> nat \<Rightarrow> (u8 list \<times> nat) parse" where
  "encode_empty_attr a mem buf len =
     (case a of
        Empty_attr ty _ \<Rightarrow>
          if len < ATTR_HDR_LEN then Fail PJ_ETOOSMALL
          else pbind (wr_bytes mem buf (put16 ty @ put16 0)) (\<lambda>mem. Done (mem, ATTR_HDR_LEN))
      | _ \<Rightarrow> Fault)"

definition clone_empty_attr :: "pj_stun_attr \<Rightarrow> pj_stun_attr parse" where
  "clone_empty_attr a = (case a of Empty_attr ty len \<Rightarrow> Done (Empty_attr ty len) | _ \<Rightarrow> Fault)"

definition pj_stun_uint_attr_create :: "u16 \<Rightarrow> u32 \<Rightarrow> pj_stun_attr" where
  "pj_stun_uint_attr_create attr_type value = Uint_attr attr_type 4 value"

definition decode_uint_attr :: "u8 list \<Rightarrow> nat \<Rightarrow> pj_stun_attr parse" where
  "decode_uint_attr pdu buf =
     pbind (rd16 pdu buf) (\<lambda>ty. pbind (rd16 pdu (buf + 2)) (\<lambda>len.
       if len \<noteq> 4 then Fail PJNATH_ESTUNINATTRLEN
       else pbind (rd32 pdu (buf + 4)) (\<lambda>value. Done (Uint_attr ty len value))))"

definition encode_uint_attr :: "pj_stun_attr \<Rightarrow> u8 list \<Rightarrow> nat \<Rightarrow> nat \<Rightarrow> (u8 list \<times> nat) parse" where
  "encode_uint_attr a mem buf len =
     (case a of
        Uint_attr ty _ value \<Rightarrow>
          if len < 8 then Fail PJ_ETOOSMALL
          else pbind (wr_bytes mem buf (put16 ty @ put16 4 @ put32 value)) (\<lambda>mem. Done (mem, 8))
      | _ \<Rightarrow> Fault)"

definition clone_uint_attr :: "pj_stun_attr \<Rightarrow> pj_stun_attr parse" where
  "clone_uint_attr a = (case a of Uint_attr ty len value \<Rightarrow> Done (Uint_attr ty len value) | _ \<Rightarrow> Fault)"

text \<open>A null value is the zeroed structure.\<close>

definition pj_stun_uint64_attr_create :: "u16 \<Rightarrow> (u32 \<times> u32) option \<Rightarrow> pj_stun_attr" where
  "pj_stun_uint64_attr_create attr_type value =
     (case value of Some (hi, lo) \<Rightarrow> Uint64_attr attr_type 8 hi lo | None \<Rightarrow> Uint64_attr attr_type 8 0 0)"

definition decode_uint64_attr :: "u8 list \<Rightarrow> nat \<Rightarrow> pj_stun_attr parse" where
  "decode_uint64_attr pdu buf =
     pbind (rd16 pdu buf) (\<lambda>ty. pbind (rd16 pdu (buf + 2)) (\<lambda>len.
       if len \<noteq> 8 then Fail PJNATH_ESTUNINATTRLEN
       else pbind (rd32 pdu (buf + 4)) (\<lambda>hi. pbind (rd32 pdu (buf + 8)) (\<lambda>lo. Done (Uint64_attr ty len hi lo)))))"

definition encode_uint64_attr :: "pj_stun_attr \<Rightarrow> u8 list \<Rightarrow> nat \<Rightarrow> nat \<Rightarrow> (u8 list \<times> nat) parse" where
  "encode_uint64_attr a mem buf len =
     (case a of
        Uint64_attr ty _ hi lo \<Rightarrow>
          if len < 12 then Fail PJ_ETOOSMALL
          else pbind (wr_bytes mem buf (put16 ty @ put16 8 @ put32 hi @ put32 lo)) (\<lambda>mem. Done (mem, 12))
      | _ \<Rightarrow> Fault)"

definition clone_uint64_attr :: "pj_stun_attr \<Rightarrow> pj_stun_attr parse" where
  "clone_uint64_attr a = (case a of Uint64_attr ty len hi lo \<Rightarrow> Done (Uint64_attr ty len hi lo) | _ \<Rightarrow> Fault)"

definition pj_stun_msgint_attr_create :: pj_stun_attr where
  "pj_stun_msgint_attr_create = Msgint_attr PJ_STUN_ATTR_MESSAGE_INTEGRITY 20 (replicate 20 0)"

definition decode_msgint_attr :: "u8 list \<Rightarrow> nat \<Rightarrow> pj_stun_attr parse" where
  "decode_msgint_attr pdu buf =
     pbind (rd16 pdu buf) (\<lambda>ty. pbind (rd16 pdu (buf + 2)) (\<lambda>len.
       if len \<noteq> 20 then Fail PJNATH_ESTUNINATTRLEN
       else pbind (rd_bytes pdu (buf + 4) 20) (\<lambda>hmac. Done (Msgint_attr ty len hmac))))"

definition encode_msgint_attr :: "pj_stun_attr \<Rightarrow> u8 list \<Rightarrow> nat \<Rightarrow> nat \<Rightarrow> (u8 list \<times> nat) parse" where
  "encode_msgint_attr a mem buf len =
     (case a of
        Msgint_attr ty length_ hmac \<Rightarrow>
          if len < 24 then Fail PJ_ETOOSMALL
          else pbind (wr_bytes mem buf (put16 ty @ put16 length_ @ hmac)) (\<lambda>mem. Done (mem, 24))
      | _ \<Rightarrow> Fault)"

definition clone_msgint_attr :: "pj_stun_attr \<Rightarrow> pj_stun_attr parse" where
  "clone_msgint_attr a = (case a of Msgint_attr ty len hmac \<Rightarrow> Done (Msgint_attr ty len hmac) | _ \<Rightarrow> Fault)"

definition pj_stun_errcode_attr_create :: "int \<Rightarrow> (u8 list) option \<Rightarrow> pj_stun_attr parse" where
  "pj_stun_errcode_attr_create err_code err_reason =
     (if err_code = 0 then Fail PJ_EINVAL
      else pbind
        (case err_reason of
           Some r \<Rightarrow> Done r
         | None \<Rightarrow> pbind (pj_stun_get_err_reason err_code) (\<lambda>str.
             Done (case str of
                 None \<Rightarrow> str_bytes (''Unknown error '' @ int_dec err_code)
               | Some s \<Rightarrow> if s = [] then str_bytes (''Unknown error '' @ int_dec err_code) else str_bytes s)))
        (\<lambda>reason. Done (Errcode_attr PJ_STUN_ATTR_ERROR_CODE (of_nat (4 + length reason)) err_code reason)))"

definition decode_errcode_attr :: "u8 list \<Rightarrow> nat \<Rightarrow> pj_stun_attr parse" where
  "decode_errcode_attr pdu buf =
     pbind (rd16 pdu buf) (\<lambda>ty. pbind (rd16 pdu (buf + 2)) (\<lambda>len.
       if len < 4 then Fail PJNATH_ESTUNINATTRLEN
       else pbind (rd8 pdu (buf + 6)) (\<lambda>cls. pbind (rd8 pdu (buf + 7)) (\<lambda>num.
         pbind (rd_bytes pdu (buf + ATTR_HDR_LEN + 4) (unat len - 4)) (\<lambda>reason.
           Done (Errcode_attr ty len (uint cls * 100 + uint num) reason))))))"

definition encode_errcode_attr :: "int \<Rightarrow> pj_stun_attr \<Rightarrow> u8 list \<Rightarrow> nat \<Rightarrow> nat \<Rightarrow> (u8 list \<times> nat) parse" where
  "encode_errcode_attr padding_char a mem buf len =
     (case a of
        Errcode_attr ty _ err_code reason \<Rightarrow>
          (let slen = length reason; printed = u32t (align4 (ATTR_HDR_LEN + 4 + u32t slen)) in
           if len < printed then Fail PJ_ETOOSMALL
           else pbind (wr_bytes mem buf (put16 ty @ put16 (of_nat (4 + slen)) @ put16 0 @
               [word_of_int (c_div err_code 100), word_of_int (c_mod err_code 100)] @ reason @ pad_bytes padding_char slen))
             (\<lambda>mem. Done (mem, printed)))
      | _ \<Rightarrow> Fault)"

definition clone_errcode_attr :: "pj_stun_attr \<Rightarrow> pj_stun_attr parse" where
  "clone_errcode_attr a = (case a of Errcode_attr ty len err_code reason \<Rightarrow> Done (Errcode_attr ty len err_code reason) | _ \<Rightarrow> Fault)"

definition pj_stun_unknown_attr_create :: "u16 list \<Rightarrow> pj_stun_attr parse" where
  "pj_stun_unknown_attr_create attr_array =
     (if length attr_array < PJ_STUN_MAX_ATTR
      then Done (Unknown_attr PJ_STUN_ATTR_UNKNOWN_ATTRIBUTES (of_nat (length attr_array * 2)) attr_array)
      else Fail PJ_EINVAL)"

fun rd_u16s :: "u8 list \<Rightarrow> nat \<Rightarrow> nat \<Rightarrow> (u16 list) parse" where
  "rd_u16s pdu buf 0 = Done []"
| "rd_u16s pdu buf (Suc n) = pbind (rd16 pdu buf) (\<lambda>v. pbind (rd_u16s pdu (buf + 2) n) (\<lambda>vs. Done (v # vs)))"

definition decode_unknown_attr :: "u8 list \<Rightarrow> nat \<Rightarrow> pj_stun_attr parse" where
  "decode_unknown_attr pdu buf =
     pbind (rd16 pdu buf) (\<lambda>ty. pbind (rd16 pdu (buf + 2)) (\<lambda>len.
       let attr_count = unat len div 2 in
       if attr_count > PJ_STUN_MAX_ATTR then Fail PJ_ETOOMANY
       else pbind (rd_u16s pdu (buf + ATTR_HDR_LEN) attr_count) (\<lambda>attrs. Done (Unknown_attr ty len attrs))))"

definition encode_unknown_attr :: "int \<Rightarrow> pj_stun_attr \<Rightarrow> u8 list \<Rightarrow> nat \<Rightarrow> nat \<Rightarrow> (u8 list \<times> nat) parse" where
  "encode_unknown_attr padding_char a mem buf len =
     (case a of
        Unknown_attr ty _ attrs \<Rightarrow>
          (let bytes = length attrs * 2; printed = u32t (align4 (ATTR_HDR_LEN + u32t bytes)) in
           if len < printed then Fail PJ_ETOOSMALL
           else pbind (wr_bytes mem buf (put16 ty @ put16 (of_nat bytes) @ concat (map put16 attrs) @ pad_bytes padding_char bytes))
             (\<lambda>mem. Done (mem, printed)))
      | _ \<Rightarrow> Fault)"

definition clone_unknown_attr :: "pj_stun_attr \<Rightarrow> pj_stun_attr parse" where
  "clone_unknown_attr a = (case a of Unknown_attr ty len attrs \<Rightarrow> Done (Unknown_attr ty len attrs) | _ \<Rightarrow> Fault)"

text \<open>\<open>None\<close> is a null data pointer.\<close>

definition pj_stun_binary_attr_init :: "u16 \<Rightarrow> (u8 list) option \<Rightarrow> nat \<Rightarrow> pj_stun_attr parse" where
  "pj_stun_binary_attr_init attr_type data len =
     (if attr_type = 0 then Fail PJ_EINVAL
      else case data of
          Some d \<Rightarrow> Done (Binary_attr attr_type (of_nat len) PJ_STUN_MAGIC (take len d))
        | None \<Rightarrow> Done (Binary_attr attr_type (of_nat len) PJ_STUN_MAGIC []))"

definition decode_binary_attr :: "u8 list \<Rightarrow> nat \<Rightarrow> pj_stun_attr parse" where
  "decode_binary_attr pdu buf =
     pbind (rd16 pdu buf) (\<lambda>ty. pbind (rd16 pdu (buf + 2)) (\<lambda>len.
       pbind (rd_bytes pdu (buf + ATTR_HDR_LEN) (unat len)) (\<lambda>data. Done (Binary_attr ty len 0 data))))"

definition encode_binary_attr :: "int \<Rightarrow> pj_stun_attr \<Rightarrow> u8 list \<Rightarrow> nat \<Rightarrow> nat \<Rightarrow> (u8 list \<times> nat) parse" where
  "encode_binary_attr padding_char a mem buf len =
     (case a of
        Binary_attr ty _ _ data \<Rightarrow>
          (let n = length data; printed = u32t (align4 (n + ATTR_HDR_LEN)) in
           if len < printed then Fail PJ_ETOOSMALL
           else pbind (wr_bytes mem buf (put16 ty @ put16 (of_nat n) @ data @ pad_bytes padding_char n))
             (\<lambda>mem. Done (mem, printed)))
      | _ \<Rightarrow> Fault)"

definition clone_binary_attr :: "pj_stun_attr \<Rightarrow> pj_stun_attr parse" where
  "clone_binary_attr a = (case a of Binary_attr ty len magic data \<Rightarrow> Done (Binary_attr ty len magic data) | _ \<Rightarrow> Fault)"

text \<open>The calls through the descriptor.\<close>

definition decode_attr :: "attr_codec \<Rightarrow> u8 list \<Rightarrow> nat \<Rightarrow> pj_stun_msg_hdr \<Rightarrow> pj_stun_attr parse" where
  "decode_attr c pdu buf msghdr =
     (case c of
        C_sockaddr \<Rightarrow> decode_sockaddr_attr pdu buf
      | C_xored_sockaddr \<Rightarrow> decode_xored_sockaddr_attr pdu buf msghdr
      | C_string \<Rightarrow> decode_string_attr pdu buf
      | C_msgint \<Rightarrow> decode_msgint_attr pdu buf
      | C_errcode \<Rightarrow> decode_errcode_attr pdu buf
      | C_unknown \<Rightarrow> decode_unknown_attr pdu buf
      | C_uint \<Rightarrow> decode_uint_attr pdu buf
      | C_uint64 \<Rightarrow> decode_uint64_attr pdu buf
      | C_binary \<Rightarrow> decode_binary_attr pdu buf
      | C_empty \<Rightarrow> decode_empty_attr pdu buf)"

definition encode_attr :: "attr_codec \<Rightarrow> int \<Rightarrow> pj_stun_attr \<Rightarrow> u8 list \<Rightarrow> nat \<Rightarrow> nat \<Rightarrow> pj_stun_msg_hdr \<Rightarrow> (u8 list \<times> nat) parse" where
  "encode_attr c padding_char a mem buf len msghdr =
     (case c of
        C_sockaddr \<Rightarrow> encode_sockaddr_attr a mem buf len msghdr
      | C_xored_sockaddr \<Rightarrow> encode_sockaddr_attr a mem buf len msghdr
      | C_string \<Rightarrow> encode_string_attr padding_char a mem buf len msghdr
      | C_msgint \<Rightarrow> encode_msgint_attr a mem buf len
      | C_errcode \<Rightarrow> encode_errcode_attr padding_char a mem buf len
      | C_unknown \<Rightarrow> encode_unknown_attr padding_char a mem buf len
      | C_uint \<Rightarrow> encode_uint_attr a mem buf len
      | C_uint64 \<Rightarrow> encode_uint64_attr a mem buf len
      | C_binary \<Rightarrow> encode_binary_attr padding_char a mem buf len
      | C_empty \<Rightarrow> encode_empty_attr a mem buf len)"

definition clone_attr :: "attr_codec \<Rightarrow> pj_stun_attr \<Rightarrow> pj_stun_attr parse" where
  "clone_attr c a =
     (case c of
        C_sockaddr \<Rightarrow> clone_sockaddr_attr a
      | C_xored_sockaddr \<Rightarrow> clone_sockaddr_attr a
      | C_string \<Rightarrow> clone_string_attr a
      | C_msgint \<Rightarrow> clone_msgint_attr a
      | C_errcode \<Rightarrow> clone_errcode_attr a
      | C_unknown \<Rightarrow> clone_unknown_attr a
      | C_uint \<Rightarrow> clone_uint_attr a
      | C_uint64 \<Rightarrow> clone_uint64_attr a
      | C_binary \<Rightarrow> clone_binary_attr a
      | C_empty \<Rightarrow> clone_empty_attr a)"

section \<open>Messages\<close>

text \<open>The identifier made up when the caller gives none: \<open>rnd\<close> are the results of \<^verbatim>\<open>pj_rand\<close>, and the
  static counter is returned.\<close>

definition new_tsx_id :: "u32 \<Rightarrow> u32 \<times> u32 \<Rightarrow> u32 \<Rightarrow> u8 list \<times> u32" where
  "new_tsx_id pid rnd counter =
     (let (counter, random) = (if counter = 0 then rnd else (counter, fst rnd)) in
      (put_le32 pid @ put_le32 random @ put_le32 counter, counter + 1))"

definition pj_stun_msg_init :: "u32 \<Rightarrow> u32 \<Rightarrow> u8 list \<Rightarrow> pj_stun_msg parse" where
  "pj_stun_msg_init msg_type magic tsx_id =
     (if msg_type = 0 then Fail PJ_EINVAL
      else Done \<lparr>sm_hdr = \<lparr>mh_type = ucast msg_type, mh_length = 0, mh_magic = magic, mh_tsx_id = tsx_id\<rparr>, sm_attr = []\<rparr>)"

definition pj_stun_msg_create :: "u32 \<Rightarrow> u32 \<Rightarrow> u8 list \<Rightarrow> pj_stun_msg parse" where
  "pj_stun_msg_create msg_type magic tsx_id = (if msg_type = 0 then Fail PJ_EINVAL else pj_stun_msg_init msg_type magic tsx_id)"

definition pj_stun_msg_add_attr :: "pj_stun_msg \<Rightarrow> pj_stun_attr \<Rightarrow> pj_stun_msg parse" where
  "pj_stun_msg_add_attr msg attr =
     (if length (sm_attr msg) < PJ_STUN_MAX_ATTR then Done (msg\<lparr>sm_attr := sm_attr msg @ [attr]\<rparr>) else Fail PJ_ETOOMANY)"

definition pj_stun_msg_add_sockaddr_attr :: "pj_stun_msg \<Rightarrow> u16 \<Rightarrow> bool \<Rightarrow> pj_sockaddr \<Rightarrow> nat \<Rightarrow> pj_stun_msg parse" where
  "pj_stun_msg_add_sockaddr_attr msg attr_type xor_ed addr addr_len =
     pbind (pj_stun_sockaddr_attr_init attr_type xor_ed addr addr_len) (pj_stun_msg_add_attr msg)"

definition pj_stun_msg_add_string_attr :: "pj_stun_msg \<Rightarrow> u16 \<Rightarrow> u8 list \<Rightarrow> pj_stun_msg parse" where
  "pj_stun_msg_add_string_attr msg attr_type value = pj_stun_msg_add_attr msg (pj_stun_string_attr_init attr_type value)"

definition pj_stun_msg_add_empty_attr :: "pj_stun_msg \<Rightarrow> u16 \<Rightarrow> pj_stun_msg parse" where
  "pj_stun_msg_add_empty_attr msg attr_type = pj_stun_msg_add_attr msg (pj_stun_empty_attr_create attr_type)"

definition pj_stun_msg_add_uint_attr :: "pj_stun_msg \<Rightarrow> u16 \<Rightarrow> u32 \<Rightarrow> pj_stun_msg parse" where
  "pj_stun_msg_add_uint_attr msg attr_type value = pj_stun_msg_add_attr msg (pj_stun_uint_attr_create attr_type value)"

definition pj_stun_msg_add_uint64_attr :: "pj_stun_msg \<Rightarrow> u16 \<Rightarrow> (u32 \<times> u32) option \<Rightarrow> pj_stun_msg parse" where
  "pj_stun_msg_add_uint64_attr msg attr_type value = pj_stun_msg_add_attr msg (pj_stun_uint64_attr_create attr_type value)"

definition pj_stun_msg_add_msgint_attr :: "pj_stun_msg \<Rightarrow> pj_stun_msg parse" where
  "pj_stun_msg_add_msgint_attr msg = pj_stun_msg_add_attr msg pj_stun_msgint_attr_create"

definition pj_stun_msg_add_errcode_attr :: "pj_stun_msg \<Rightarrow> int \<Rightarrow> (u8 list) option \<Rightarrow> pj_stun_msg parse" where
  "pj_stun_msg_add_errcode_attr msg err_code err_reason = pbind (pj_stun_errcode_attr_create err_code err_reason) (pj_stun_msg_add_attr msg)"

definition pj_stun_msg_add_unknown_attr :: "pj_stun_msg \<Rightarrow> u16 list \<Rightarrow> pj_stun_msg parse" where
  "pj_stun_msg_add_unknown_attr msg attr_type = pbind (pj_stun_unknown_attr_create attr_type) (pj_stun_msg_add_attr msg)"

definition pj_stun_msg_add_binary_attr :: "pj_stun_msg \<Rightarrow> u16 \<Rightarrow> (u8 list) option \<Rightarrow> nat \<Rightarrow> pj_stun_msg parse" where
  "pj_stun_msg_add_binary_attr msg attr_type data len = pbind (pj_stun_binary_attr_init attr_type data len) (pj_stun_msg_add_attr msg)"

definition pj_stun_msg_find_attr :: "pj_stun_msg \<Rightarrow> u16 \<Rightarrow> nat \<Rightarrow> pj_stun_attr option" where
  "pj_stun_msg_find_attr msg attr_type index = find (\<lambda>a. ah_type a = attr_type) (drop index (sm_attr msg))"

text \<open>\<open>None\<close> is a generic attribute without the signature, which has no copy.\<close>

definition pj_stun_attr_clone :: "pj_stun_attr \<Rightarrow> (pj_stun_attr option) parse" where
  "pj_stun_attr_clone attr =
     (case find_attr_desc (ah_type attr) of
        Some (_, c) \<Rightarrow> pbind (clone_attr c attr) (\<lambda>a. Done (Some a))
      | None \<Rightarrow>
          case attr of
            Binary_attr _ _ magic _ \<Rightarrow>
              if magic = PJ_STUN_MAGIC then pbind (clone_binary_attr attr) (\<lambda>a. Done (Some a)) else Done None
          | _ \<Rightarrow> Fault)"

fun clone_attrs :: "pj_stun_attr list \<Rightarrow> (pj_stun_attr list) parse" where
  "clone_attrs [] = Done []"
| "clone_attrs (a # as) =
     pbind (pj_stun_attr_clone a) (\<lambda>c. pbind (clone_attrs as) (\<lambda>cs.
       Done (case c of Some a' \<Rightarrow> a' # cs | None \<Rightarrow> cs)))"

definition pj_stun_msg_clone :: "pj_stun_msg \<Rightarrow> pj_stun_msg parse" where
  "pj_stun_msg_clone src = pbind (clone_attrs (sm_attr src)) (\<lambda>as. Done (src\<lparr>sm_attr := as\<rparr>))"

definition pj_stun_msg_check :: "u8 list \<Rightarrow> u32 \<Rightarrow> unit parse" where
  "pj_stun_msg_check pdu options =
     (if length pdu < 20 then Fail PJNATH_EINSTUNMSGLEN
      else pbind (rd8 pdu 0) (\<lambda>b.
        if b \<noteq> 0 \<and> b \<noteq> 1 then Fail PJNATH_EINSTUNMSGTYPE
        else pbind (rd16 pdu 2) (\<lambda>l.
          let msg_len = unat l in
          if msg_len + 20 > length pdu \<or> options AND PJ_STUN_IS_DATAGRAM \<noteq> 0 \<and> msg_len + 20 \<noteq> length pdu
          then Fail PJNATH_EINSTUNMSGLEN
          else if msg_len mod 4 \<noteq> 0 then Fail PJNATH_EINSTUNMSGLEN
          else pbind (rd32 pdu 4) (\<lambda>magic.
            if magic = PJ_STUN_MAGIC \<and> options AND PJ_STUN_NO_FINGERPRINT_CHECK = 0 then
              pbind (rd16 pdu (msg_len + 20 - 8)) (\<lambda>ty.
                if ty = PJ_STUN_ATTR_FINGERPRINT then
                  pbind (rd16 pdu (msg_len + 20 - 8 + 2)) (\<lambda>attr_len.
                  pbind (rd32 pdu (msg_len + 20 - 8 + 4)) (\<lambda>fingerprint.
                    if attr_len \<noteq> 4 then Fail PJNATH_ESTUNINATTRLEN
                    else pbind (rd_bytes pdu 0 (msg_len + 20 - 8)) (\<lambda>bs.
                      if pj_crc32_calc 0 bs XOR STUN_XOR_FINGERPRINT \<noteq> fingerprint then Fail PJNATH_ESTUNFINGERPRINT
                      else Done ())))
                else Done ())
            else Done ()))))"

definition pj_stun_msg_create_response :: "pj_stun_msg_hdr \<Rightarrow> int \<Rightarrow> (u8 list) option \<Rightarrow> pj_stun_msg parse" where
  "pj_stun_msg_create_response req_hdr err_code err_msg =
     (let msg_type = ucast (mh_type req_hdr) :: u32 in
      if \<not> PJ_STUN_IS_REQUEST msg_type then Fail PJNATH_EINSTUNMSGTYPE
      else pbind (pj_stun_msg_create (if err_code \<noteq> 0 then msg_type OR 0x0110 else msg_type OR 0x0100)
          (mh_magic req_hdr) (mh_tsx_id req_hdr)) (\<lambda>response.
        if err_code \<noteq> 0 then pj_stun_msg_add_errcode_attr response err_code err_msg else Done response))"

section \<open>Decoding\<close>

text \<open>A response is only made where the caller wants one and the message is a request.  The first component is
  the result of the call, the second what \<^verbatim>\<open>*p_response\<close> holds after it.\<close>

type_synonym 'a replied = "'a parse \<times> pj_stun_msg option"

definition refuse :: "pj_status \<Rightarrow> (pj_stun_msg parse) option \<Rightarrow> 'a replied" where
  "refuse status response =
     (case response of
        None \<Rightarrow> (Fail status, None)
      | Some (Done r) \<Rightarrow> (Fail status, Some r)
      | Some (Fail _) \<Rightarrow> (Fail status, None)
      | Some Fault \<Rightarrow> (Fault, None))"

definition respond :: "bool \<Rightarrow> pj_stun_msg_hdr \<Rightarrow> int \<Rightarrow> (u8 list) option \<Rightarrow> (pj_stun_msg parse) option" where
  "respond want hdr err_code err_msg = (if want then Some (pj_stun_msg_create_response hdr err_code err_msg) else None)"

text \<open>An attribute without a descriptor.\<close>

definition decode_unrecognized ::
  "u8 list \<Rightarrow> pj_stun_msg_hdr \<Rightarrow> bool \<Rightarrow> nat \<Rightarrow> u16 \<Rightarrow> nat \<Rightarrow> pj_stun_attr replied" where
  "decode_unrecognized pdu hdr want buf attr_type attr_count =
     (if attr_type \<le> 0x7FFF then
        refuse (PJ_STATUS_FROM_STUN_CODE 420)
          (map_option (\<lambda>r. pbind r (\<lambda>response.
             case pj_stun_msg_add_unknown_attr response [attr_type] of
               Done response' \<Rightarrow> Done response' | Fail _ \<Rightarrow> Done response | Fault \<Rightarrow> Fault))
             (respond want hdr PJ_STUN_SC_UNKNOWN_ATTRIBUTE None))
      else if attr_count \<ge> PJ_STUN_MAX_ATTR then
        refuse PJNATH_ESTUNTOOMANYATTR (respond want hdr PJ_STUN_SC_SERVER_ERROR None)
      else
        case rd16 pdu (buf + 2) of
          Done len \<Rightarrow>
            (case rd_bytes pdu (buf + 4) (unat len) of
               Done data \<Rightarrow>
                 (case pj_stun_binary_attr_init attr_type (Some data) (unat len) of
                    Done attr \<Rightarrow> (Done attr, None)
                  | Fail status \<Rightarrow> refuse status (respond want hdr PJ_STUN_SC_SERVER_ERROR None)
                  | Fault \<Rightarrow> (Fault, None))
             | _ \<Rightarrow> (Fault, None))
        | _ \<Rightarrow> (Fault, None))"

text \<open>The place of MESSAGE-INTEGRITY and FINGERPRINT among the attributes.\<close>

definition track_position :: "u16 \<Rightarrow> bool \<Rightarrow> bool \<Rightarrow> pj_status + bool \<times> bool" where
  "track_position attr_type has_msg_int has_fingerprint =
     (if attr_type = PJ_STUN_ATTR_MESSAGE_INTEGRITY \<and> \<not> has_fingerprint then
        (if has_msg_int then Inl PJNATH_ESTUNDUPATTR else Inr (True, has_fingerprint))
      else if attr_type = PJ_STUN_ATTR_FINGERPRINT then
        (if has_fingerprint then Inl PJNATH_ESTUNDUPATTR else Inr (has_msg_int, True))
      else if has_fingerprint then Inl PJNATH_ESTUNFINGERPOS
      else Inr (has_msg_int, has_fingerprint))"

text \<open>One turn of the loop: the attribute at \<open>buf\<close>, where \<open>pdu_len\<close> bytes are left.  \<open>strerror\<close> is
  \<^verbatim>\<open>pj_strerror\<close>, whose texts go into the reason of a response.\<close>

definition decode_one ::
  "(pj_status \<Rightarrow> string) \<Rightarrow> u8 list \<Rightarrow> pj_stun_msg_hdr \<Rightarrow> bool \<Rightarrow> nat \<Rightarrow> nat \<Rightarrow> bool \<Rightarrow> bool \<Rightarrow> nat \<Rightarrow>
   (pj_stun_attr \<times> nat \<times> bool \<times> bool) replied" where
  "decode_one strerror pdu hdr want buf pdu_len has_msg_int has_fingerprint attr_count =
     (case (rd16 pdu buf, rd16 pdu (buf + 2)) of
        (Done attr_type, Done len) \<Rightarrow>
          (let attr_val_len = align4 (unat len) in
           if pdu_len < attr_val_len + ATTR_HDR_LEN then
             refuse PJNATH_ESTUNINATTRLEN (respond want hdr PJ_STUN_SC_BAD_REQUEST
               (Some (str_bytes (''Attribute '' @ pj_stun_get_attr_name attr_type @ '' has invalid length''))))
           else
             case find_attr_desc attr_type of
               None \<Rightarrow>
                 (case decode_unrecognized pdu hdr want buf attr_type attr_count of
                    (Done attr, r) \<Rightarrow> (Done (attr, attr_val_len, has_msg_int, has_fingerprint), r)
                  | (Fail status, r) \<Rightarrow> (Fail status, r)
                  | (Fault, r) \<Rightarrow> (Fault, r))
             | Some (name, c) \<Rightarrow>
                 (case decode_attr c pdu buf hdr of
                    Fault \<Rightarrow> (Fault, None)
                  | Fail status \<Rightarrow>
                      refuse status (respond want hdr PJ_STUN_SC_BAD_REQUEST
                        (Some (take 79 (str_bytes (strerror status @ '' in '' @ name)))))
                  | Done attr \<Rightarrow>
                      (case track_position attr_type has_msg_int has_fingerprint of
                         Inl status \<Rightarrow> refuse status (respond want hdr PJ_STUN_SC_BAD_REQUEST None)
                       | Inr (mi, fp) \<Rightarrow>
                           if attr_count \<ge> PJ_STUN_MAX_ATTR then
                             refuse PJNATH_ESTUNTOOMANYATTR (respond want hdr PJ_STUN_SC_SERVER_ERROR None)
                           else (Done (attr, attr_val_len, mi, fp), None))))
      | _ \<Rightarrow> (Fault, None))"

function decode_attrs ::
  "(pj_status \<Rightarrow> string) \<Rightarrow> u8 list \<Rightarrow> pj_stun_msg_hdr \<Rightarrow> bool \<Rightarrow> nat \<Rightarrow> nat \<Rightarrow> bool \<Rightarrow> bool \<Rightarrow> pj_stun_attr list \<Rightarrow>
   (pj_stun_attr list \<times> nat) replied" where
  "decode_attrs strerror pdu hdr want buf pdu_len has_msg_int has_fingerprint attrs =
     (if pdu_len < ATTR_HDR_LEN then
        (if pdu_len > 0 then (Fail PJNATH_EINSTUNMSGLEN, None) else (Done (attrs, buf), None))
      else
        case decode_one strerror pdu hdr want buf pdu_len has_msg_int has_fingerprint (length attrs) of
          (Done (attr, attr_val_len, mi, fp), _) \<Rightarrow>
            if attr_val_len + 4 \<ge> pdu_len
            then decode_attrs strerror pdu hdr want (buf + pdu_len) 0 mi fp (attrs @ [attr])
            else decode_attrs strerror pdu hdr want (buf + (attr_val_len + 4)) (pdu_len - (attr_val_len + 4)) mi fp (attrs @ [attr])
        | (Fail status, r) \<Rightarrow> (Fail status, r)
        | (Fault, r) \<Rightarrow> (Fault, r))"
  by pat_completeness auto
termination
  by (relation "measure (\<lambda>(_, _, _, _, _, pdu_len, _). pdu_len)") (auto simp: ATTR_HDR_LEN_def)

declare decode_attrs.simps [simp del]

definition decode_hdr :: "u8 list \<Rightarrow> pj_stun_msg_hdr parse" where
  "decode_hdr pdu =
     pbind (rd16 pdu 0) (\<lambda>ty. pbind (rd16 pdu 2) (\<lambda>len. pbind (rd32 pdu 4) (\<lambda>magic. pbind (rd_bytes pdu 8 12) (\<lambda>tsx_id.
       Done \<lparr>mh_type = ty, mh_length = len, mh_magic = magic, mh_tsx_id = tsx_id\<rparr>))))"

text \<open>The check before the message is created.\<close>

definition decode_precheck :: "u8 list \<Rightarrow> u32 \<Rightarrow> unit parse" where
  "decode_precheck pdu options =
     (if options AND PJ_STUN_CHECK_PACKET \<noteq> 0 then pj_stun_msg_check pdu options
      else pbind (rd16 pdu 2) (\<lambda>l.
        let msg_len = unat l + 20 in
        if msg_len > length pdu \<or> options AND PJ_STUN_IS_DATAGRAM \<noteq> 0 \<and> msg_len \<noteq> length pdu
        then Fail PJNATH_EINSTUNMSGLEN else Done ()))"

text \<open>\<open>has_response\<close> says that \<^verbatim>\<open>p_response\<close> is not null; the result has the message and the parsed length.\<close>

definition pj_stun_msg_decode :: "(pj_status \<Rightarrow> string) \<Rightarrow> u8 list \<Rightarrow> u32 \<Rightarrow> bool \<Rightarrow> (pj_stun_msg \<times> nat) replied" where
  "pj_stun_msg_decode strerror pdu options has_response =
     (if pdu = [] then (Fail PJ_EINVAL, None)
      else
        case pbind (decode_precheck pdu options) (\<lambda>_. decode_hdr pdu) of
          Done hdr \<Rightarrow>
            (case decode_attrs strerror pdu hdr (has_response \<and> PJ_STUN_IS_REQUEST (ucast (mh_type hdr))) 20 (unat (mh_length hdr)) False False [] of
               (Done (attrs, parsed), r) \<Rightarrow> (Done (\<lparr>sm_hdr = hdr, sm_attr = attrs\<rparr>, parsed), r)
             | (Fail status, r) \<Rightarrow> (Fail status, r)
             | (Fault, r) \<Rightarrow> (Fault, r))
        | Fail status \<Rightarrow> (Fail status, None)
        | Fault \<Rightarrow> (Fault, None))"

section \<open>Encoding\<close>

definition encode_any :: "int \<Rightarrow> pj_stun_attr \<Rightarrow> u8 list \<Rightarrow> nat \<Rightarrow> nat \<Rightarrow> pj_stun_msg_hdr \<Rightarrow> (u8 list \<times> nat) parse" where
  "encode_any padding_char a mem buf buf_size msghdr =
     (case find_attr_desc (ah_type a) of
        Some (_, c) \<Rightarrow> encode_attr c padding_char a mem buf (u32t buf_size) msghdr
      | None \<Rightarrow>
          case a of
            Binary_attr _ _ magic _ \<Rightarrow>
              if magic = PJ_STUN_MAGIC then encode_binary_attr padding_char a mem buf (u32t buf_size) else Fail PJ_EBUG
          | _ \<Rightarrow> Fault)"

text \<open>The loop that stops at MESSAGE-INTEGRITY or FINGERPRINT: memory, position, free bytes, and the index
  it stopped at.\<close>

fun encode_attrs ::
  "int \<Rightarrow> pj_stun_msg_hdr \<Rightarrow> pj_stun_attr list \<Rightarrow> u8 list \<Rightarrow> nat \<Rightarrow> nat \<Rightarrow> nat \<Rightarrow> (u8 list \<times> nat \<times> nat \<times> nat) parse" where
  "encode_attrs padding_char hdr [] mem buf buf_size i = Done (mem, buf, buf_size, i)"
| "encode_attrs padding_char hdr (a # as) mem buf buf_size i =
     (if ah_type a = PJ_STUN_ATTR_MESSAGE_INTEGRITY \<or> ah_type a = PJ_STUN_ATTR_FINGERPRINT then Done (mem, buf, buf_size, i)
      else pbind (encode_any padding_char a mem buf buf_size hdr) (\<lambda>(mem, printed).
        encode_attrs padding_char hdr as mem (buf + printed) (buf_size - printed) (i + 1)))"

text \<open>The scan of the remaining attributes; the pointers are indices.\<close>

fun scan_rest :: "pj_stun_attr list \<Rightarrow> nat \<Rightarrow> nat option \<Rightarrow> nat option \<Rightarrow> (nat \<times> nat option \<times> nat option) parse" where
  "scan_rest [] i amsgint afingerprint = Done (i, amsgint, afingerprint)"
| "scan_rest (a # as) i amsgint afingerprint =
     (if afingerprint \<noteq> None then Fail PJNATH_ESTUNFINGERPOS
      else if ah_type a = PJ_STUN_ATTR_MESSAGE_INTEGRITY then
        (if amsgint \<noteq> None then Fail PJNATH_ESTUNMSGINTPOS else scan_rest as (i + 1) (Some i) afingerprint)
      else if ah_type a = PJ_STUN_ATTR_FINGERPRINT then scan_rest as (i + 1) amsgint (Some i)
      else scan_rest as (i + 1) amsgint afingerprint)"

definition stun_hmac :: "u8 list \<Rightarrow> u8 list \<Rightarrow> u8 list" where
  "stun_hmac key data =
     snd (pj_hmac_sha1_final (pj_hmac_sha1_update (pj_hmac_sha1_init (replicate 64 0) (replicate 64 0) key) data))"

text \<open>The position test of MESSAGE-INTEGRITY, after the loops have moved \<open>i\<close>.\<close>

definition msgint_position :: "pj_stun_attr list \<Rightarrow> nat \<Rightarrow> nat option \<Rightarrow> (nat option) parse" where
  "msgint_position attrs i afingerprint =
     (let attr_count = length attrs in
      if attr_count > 1 \<and> i < u32_sub attr_count 2 then Fail PJNATH_ESTUNMSGINTPOS
      else if i = u32_sub attr_count 2 then
        (if i + 1 < attr_count then
           (if ah_type (attrs ! (i + 1)) \<noteq> PJ_STUN_ATTR_FINGERPRINT then Fail PJNATH_ESTUNMSGINTPOS else Done (Some (i + 1)))
         else Fault)
      else Done afingerprint)"

definition encode_integrity ::
  "pj_stun_attr list \<Rightarrow> u8 list \<Rightarrow> nat \<Rightarrow> nat \<Rightarrow> nat \<Rightarrow> nat option \<Rightarrow> nat option \<Rightarrow> (u8 list) option \<Rightarrow>
   (pj_stun_attr list \<times> u8 list \<times> nat \<times> nat \<times> nat option) parse" where
  "encode_integrity attrs mem buf buf_size i amsgint afingerprint key =
     (case amsgint of
        None \<Rightarrow> Done (attrs, mem, buf, buf_size, afingerprint)
      | Some m \<Rightarrow>
          (case key of
             None \<Rightarrow> Fail PJ_EINVALIDOP
           | Some k \<Rightarrow>
               pbind (msgint_position attrs i afingerprint) (\<lambda>afingerprint.
               pbind (rd_bytes mem 0 buf) (\<lambda>bs.
                 case attrs ! m of
                   Msgint_attr ty len _ \<Rightarrow>
                     (let a = Msgint_attr ty len (stun_hmac k bs) in
                      pbind (encode_msgint_attr a mem buf (u32t buf_size)) (\<lambda>(mem, printed).
                        Done (attrs[m := a], mem, buf + printed, buf_size - printed, afingerprint)))
                 | _ \<Rightarrow> Fault))))"

definition encode_fingerprint ::
  "pj_stun_attr list \<Rightarrow> u8 list \<Rightarrow> nat \<Rightarrow> nat \<Rightarrow> nat option \<Rightarrow> (pj_stun_attr list \<times> u8 list \<times> nat) parse" where
  "encode_fingerprint attrs mem buf buf_size afingerprint =
     (case afingerprint of
        None \<Rightarrow> Done (attrs, mem, buf)
      | Some f \<Rightarrow>
          pbind (rd16 mem 2) (\<lambda>l.
          pbind (wr_bytes mem 2 (put16 (l + 8))) (\<lambda>mem.
          pbind (rd_bytes mem 0 buf) (\<lambda>bs.
            case attrs ! f of
              Uint_attr ty len _ \<Rightarrow>
                (let a = Uint_attr ty len (pj_crc32_calc 0 bs XOR STUN_XOR_FINGERPRINT) in
                 pbind (encode_uint_attr a mem buf (u32t buf_size)) (\<lambda>(mem, printed).
                   Done (attrs[f := a], mem, buf + printed)))
            | _ \<Rightarrow> Fault))))"

text \<open>The result is the message, which the encoder updates, the memory and the length.\<close>

definition pj_stun_msg_encode ::
  "int \<Rightarrow> pj_stun_msg \<Rightarrow> u8 list \<Rightarrow> nat \<Rightarrow> u32 \<Rightarrow> (u8 list) option \<Rightarrow> (pj_stun_msg \<times> u8 list \<times> nat) parse" where
  "pj_stun_msg_encode padding_char msg mem buf_size options key =
     (let hdr = sm_hdr msg; attrs = sm_attr msg in
      if buf_size = 0 then Fail PJ_EINVAL
      else if options \<noteq> 0 then Fail PJ_EINVAL
      else if buf_size < 20 then Fail PJ_ETOOSMALL
      else pbind (wr_bytes mem 0 (put16 (mh_type hdr) @ put16 0 @ put32 (mh_magic hdr) @ mh_tsx_id hdr)) (\<lambda>mem.
        pbind (encode_attrs padding_char hdr attrs mem 20 (buf_size - 20) 0) (\<lambda>(mem, buf, buf_size, i).
        let found = (\<lambda>ty. if i < length attrs \<and> ah_type (attrs ! i) = ty then Some i else None) in
        pbind (scan_rest (drop (i + 1) attrs) (i + 1) (found PJ_STUN_ATTR_MESSAGE_INTEGRITY) (found PJ_STUN_ATTR_FINGERPRINT))
          (\<lambda>(i, amsgint, afingerprint).
        let body_len = (if amsgint \<noteq> None then of_nat (buf - 20 + 24) else of_nat (buf - 20)) :: u16 in
        pbind (wr_bytes mem 2 (put16 body_len)) (\<lambda>mem.
        pbind (encode_integrity attrs mem buf buf_size i amsgint afingerprint key) (\<lambda>(attrs, mem, buf, buf_size, afingerprint).
        pbind (encode_fingerprint attrs mem buf buf_size afingerprint) (\<lambda>(attrs, mem, buf).
          Done (\<lparr>sm_hdr = hdr\<lparr>mh_length := of_nat (buf - 20)\<rparr>, sm_attr = attrs\<rparr>, mem, buf))))))))"

end
