(* ===== verification/Stun_Tsx.thy ===== *)
theory Stun_Tsx
  imports Timer_Props Stun_Msg
begin

text \<open>
  The STUN client transaction of \<^verbatim>\<open>pjnath/src/pjnath/stun_transaction.c\<close>: the
  retransmission schedule of a request over an unreliable transport, the single timeout over a
  reliable one, and the completion by a response, a timeout or a send error.

  A transaction works on the timer heap of theory \<^verbatim>\<open>Timer\<close>: its two timer entries live at
  two addresses of the timer world, and the \<^verbatim>\<open>id\<close> field of an entry, which the code uses
  as an activity flag, is the field of that entry.  The application's callbacks are recorded as
  events.  In every function \<^verbatim>\<open>on_complete\<close> and \<^verbatim>\<open>on_destroy\<close> are the last access to the
  transaction, so what the application does in them (further calls of this file) comes after
  the function as further steps; \<^verbatim>\<open>on_send_msg\<close> is the parameter \<open>send\<close>, the status of
  the \<open>n\<close>-th transmission, and does not call back into the transaction.  Group locks only
  show in the reference counts the timer heap keeps.
\<close>

definition TIMER_INACTIVE :: int where "TIMER_INACTIVE = 0"
definition TIMER_ACTIVE :: int where "TIMER_ACTIVE = 1"
definition PJ_STUN_RTO_VALUE :: nat where "PJ_STUN_RTO_VALUE = 100"
definition PJ_STUN_TIMEOUT_VALUE :: nat where "PJ_STUN_TIMEOUT_VALUE = 16 * PJ_STUN_RTO_VALUE"
definition PJ_STUN_MAX_TRANSMIT_COUNT :: nat where "PJ_STUN_MAX_TRANSMIT_COUNT = 7"

record pj_stun_client_tsx =
  st_has_on_complete :: bool
  st_has_on_destroy :: bool
  st_grp_lock :: "nat option"
  st_complete :: bool
  st_require_retransmit :: bool
  st_rto_msec :: nat
  st_retransmit_timer :: nat
  st_transmit_count :: nat
  st_retransmit_time :: pj_time_val
  st_destroy_timer :: nat
  st_is_destroying :: bool
  st_last_pkt :: "u8 list"

datatype stun_event = Ev_send "u8 list" | Ev_complete pj_status | Ev_destroy

record stun_world =
  sw_timers :: timer_world
  sw_tsx :: pj_stun_client_tsx
  sw_events :: "stun_event list"

text \<open>The environment of a call: the clock, the pool and the outcome of transmissions.\<close>

record stun_env =
  en_now :: pj_time_val
  en_mem :: "nat \<Rightarrow> bool"
  en_junk :: pj_timer_entry_dup
  en_send :: "nat \<Rightarrow> pj_status"

definition emit :: "stun_event \<Rightarrow> stun_world \<Rightarrow> stun_world" where
  "emit ev sw = sw\<lparr>sw_events := sw_events sw @ [ev]\<rparr>"

abbreviation upd_tsx :: "(pj_stun_client_tsx \<Rightarrow> pj_stun_client_tsx) \<Rightarrow> stun_world \<Rightarrow> stun_world" where
  "upd_tsx f sw \<equiv> sw\<lparr>sw_tsx := f (sw_tsx sw)\<rparr>"

abbreviation sends :: "stun_world \<Rightarrow> nat" where
  "sends sw \<equiv> length (filter (\<lambda>ev. case ev of Ev_send _ \<Rightarrow> True | _ \<Rightarrow> False) (sw_events sw))"

section \<open>Use of the timer heap\<close>

definition timer_id :: "stun_world \<Rightarrow> nat \<Rightarrow> int" where
  "timer_id sw e = te_id (tw_entries (sw_timers sw) e)"

definition set_timer_id :: "nat \<Rightarrow> int \<Rightarrow> stun_world \<Rightarrow> stun_world" where
  "set_timer_id e v sw =
     sw\<lparr>sw_timers := (sw_timers sw)\<lparr>tw_entries := (tw_entries (sw_timers sw))
          (e := (tw_entries (sw_timers sw) e)\<lparr>te_id := v\<rparr>)\<rparr>\<rparr>"

definition start_timer :: "stun_env \<Rightarrow> nat \<Rightarrow> pj_time_val \<Rightarrow> stun_world \<Rightarrow> stun_world \<times> pj_status" where
  "start_timer env e delay sw =
     (let (tw, status) = pj_timer_heap_schedule_w_grp_lock (en_mem env) (en_junk env) (en_now env)
                           (sw_timers sw) e delay TIMER_ACTIVE (st_grp_lock (sw_tsx sw)) in
      (sw\<lparr>sw_timers := tw\<rparr>, status))"

definition stop_timer :: "nat \<Rightarrow> stun_world \<Rightarrow> stun_world" where
  "stop_timer e sw = sw\<lparr>sw_timers := fst (pj_timer_heap_cancel_if_active (sw_timers sw) e TIMER_INACTIVE)\<rparr>"

section \<open>Operations\<close>

text \<open>
  \<^verbatim>\<open>PJ_POOL_ZALLOC_T\<close> leaves both timer entries zeroed but for callback and user data
  (\<open>cb_r\<close>, \<open>cb_d\<close> and \<open>self\<close>).
\<close>

definition pj_stun_client_tsx_create ::
    "nat \<Rightarrow> nat option \<Rightarrow> bool \<Rightarrow> bool \<Rightarrow> bool \<Rightarrow> nat \<Rightarrow> nat \<Rightarrow> nat \<Rightarrow> nat \<Rightarrow> nat \<Rightarrow> timer_world \<Rightarrow>
       stun_world option" where
  "pj_stun_client_tsx_create rto grp_lock on_send_msg on_complete on_destroy re de cb_r cb_d self tw =
     (if \<not> on_send_msg then None
      else
        Some \<lparr>sw_timers = tw\<lparr>tw_entries := (tw_entries tw)
                (re := \<lparr>te_id = 0, te_user_data = self, te_cb = cb_r, te_timer_id = 0\<rparr>,
                 de := \<lparr>te_id = 0, te_user_data = self, te_cb = cb_d, te_timer_id = 0\<rparr>)\<rparr>,
              sw_tsx = \<lparr>st_has_on_complete = on_complete, st_has_on_destroy = on_destroy,
                st_grp_lock = grp_lock, st_complete = False, st_require_retransmit = False,
                st_rto_msec = rto, st_retransmit_timer = re, st_transmit_count = 0,
                st_retransmit_time = Time_val 0 0, st_destroy_timer = de, st_is_destroying = False,
                st_last_pkt = []\<rparr>,
              sw_events = []\<rparr>)"

definition pj_stun_client_tsx_schedule_destroy ::
    "stun_env \<Rightarrow> pj_time_val \<Rightarrow> stun_world \<Rightarrow> stun_world \<times> pj_status" where
  "pj_stun_client_tsx_schedule_destroy env delay sw =
     (if \<not> st_has_on_destroy (sw_tsx sw) then (sw, PJ_EINVAL)
      else if st_is_destroying (sw_tsx sw) then (sw, PJ_SUCCESS)
      else
        (let sw = upd_tsx (st_is_destroying_update (\<lambda>_. True)) sw;
             sw = stop_timer (st_destroy_timer (sw_tsx sw)) sw;
             sw = stop_timer (st_retransmit_timer (sw_tsx sw)) sw;
             (sw, status) = start_timer env (st_destroy_timer (sw_tsx sw)) delay sw in
         if status \<noteq> PJ_SUCCESS then (sw, status)
         else (upd_tsx (st_has_on_complete_update (\<lambda>_. False)) sw, PJ_SUCCESS)))"

definition pj_stun_client_tsx_stop :: "stun_world \<Rightarrow> stun_world" where
  "pj_stun_client_tsx_stop sw =
     (let sw = stop_timer (st_retransmit_timer (sw_tsx sw)) sw in
      stop_timer (st_destroy_timer (sw_tsx sw)) sw)"

definition pj_stun_client_tsx_is_complete :: "stun_world \<Rightarrow> bool" where
  "pj_stun_client_tsx_is_complete sw = st_complete (sw_tsx sw)"

text \<open>The delay before the next retransmission or the timeout.\<close>

definition next_retransmit_time :: "pj_stun_client_tsx \<Rightarrow> pj_time_val" where
  "next_retransmit_time tsx =
     (if st_transmit_count tsx = 0 then Time_val 0 (int (st_rto_msec tsx))
      else if st_transmit_count tsx < PJ_STUN_MAX_TRANSMIT_COUNT - 1 then
        (let msec = u32 (PJ_TIME_VAL_MSEC (st_retransmit_time tsx));
             msec = u32 (int msec * 2) in
         Time_val (int (msec div 1000)) (int (msec mod 1000)))
      else Time_val (int (PJ_STUN_TIMEOUT_VALUE div 1000)) (int (PJ_STUN_TIMEOUT_VALUE mod 1000)))"

text \<open>The part of \<^verbatim>\<open>tsx_transmit_msg\<close> after the timer has been started.\<close>

definition tsx_send :: "stun_env \<Rightarrow> bool \<Rightarrow> stun_world \<Rightarrow> stun_world \<times> pj_status" where
  "tsx_send env mod_count sw =
     (let sw = (if mod_count then upd_tsx (st_transmit_count_update Suc) sw else sw);
          status = en_send env (sends sw);
          sw = emit (Ev_send (st_last_pkt (sw_tsx sw))) sw;
          status = (if status = PJ_EPENDING \<or> status = PJ_EBUSY then PJ_SUCCESS else status);
          sw = (if status = PJNATH_ESTUNDESTROYED then sw
                else if status \<noteq> PJ_SUCCESS then
                  (if mod_count \<or> status = PJ_EINVALIDOP
                   then stop_timer (st_retransmit_timer (sw_tsx sw)) sw else sw)
                else sw) in
      (sw, status))"

definition tsx_transmit_msg :: "stun_env \<Rightarrow> bool \<Rightarrow> stun_world \<Rightarrow> stun_world \<times> pj_status" where
  "tsx_transmit_msg env mod_count sw =
     (let re = st_retransmit_timer (sw_tsx sw) in
      if \<not> (timer_id sw re = TIMER_INACTIVE \<or> \<not> st_require_retransmit (sw_tsx sw) \<or> \<not> mod_count)
      then (sw, PJ_EBUSY)
      else if st_require_retransmit (sw_tsx sw) \<and> mod_count then
        (let t = next_retransmit_time (sw_tsx sw);
             sw = upd_tsx (st_retransmit_time_update (\<lambda>_. t)) sw;
             (sw, status) = start_timer env re t sw in
         if status \<noteq> PJ_SUCCESS then (set_timer_id re TIMER_INACTIVE sw, status)
         else tsx_send env mod_count sw)
      else tsx_send env mod_count sw)"

definition pj_stun_client_tsx_send_msg ::
    "stun_env \<Rightarrow> bool \<Rightarrow> u8 list \<Rightarrow> stun_world \<Rightarrow> stun_world \<times> pj_status" where
  "pj_stun_client_tsx_send_msg env retransmit pkt sw =
     (let re = st_retransmit_timer (sw_tsx sw) in
      if pkt = [] then (sw, PJ_EINVAL)
      else if timer_id sw re \<noteq> 0 then (sw, PJ_EBUSY)
      else if st_is_destroying (sw_tsx sw) then (sw, PJ_SUCCESS)
      else
        (let sw = upd_tsx (\<lambda>tsx. tsx\<lparr>st_last_pkt := pkt, st_require_retransmit := retransmit\<rparr>) sw;
             (sw, status) =
               (if \<not> retransmit then
                  (let timeout = u32 (int (st_rto_msec (sw_tsx sw)) * 16);
                       t = Time_val (int (timeout div 1000)) (int (timeout mod 1000));
                       sw = upd_tsx (\<lambda>tsx. tsx\<lparr>st_transmit_count := PJ_STUN_MAX_TRANSMIT_COUNT,
                                               st_retransmit_time := t\<rparr>) sw;
                       (sw, status) = start_timer env re t sw in
                   if status \<noteq> PJ_SUCCESS then (set_timer_id re TIMER_INACTIVE sw, status)
                   else (sw, PJ_SUCCESS))
                else (sw, PJ_SUCCESS)) in
         if status \<noteq> PJ_SUCCESS then (sw, status)
         else
           (let (sw, status) = tsx_transmit_msg env True sw in
            if status \<noteq> PJ_SUCCESS then (stop_timer re sw, status) else (sw, PJ_SUCCESS))))"

text \<open>\<^verbatim>\<open>if (!tsx->complete) ...\<close>, the block that reports completion.\<close>

definition finish :: "pj_status \<Rightarrow> stun_world \<Rightarrow> stun_world" where
  "finish status sw =
     (if st_complete (sw_tsx sw) then sw
      else
        (let sw = upd_tsx (st_complete_update (\<lambda>_. True)) sw in
         if st_has_on_complete (sw_tsx sw) then emit (Ev_complete status) sw else sw))"

definition retransmit_timer_callback :: "stun_env \<Rightarrow> stun_world \<Rightarrow> stun_world" where
  "retransmit_timer_callback env sw =
     (let re = st_retransmit_timer (sw_tsx sw) in
      if st_is_destroying (sw_tsx sw) then sw
      else if st_transmit_count (sw_tsx sw) \<ge> PJ_STUN_MAX_TRANSMIT_COUNT then
        finish PJNATH_ESTUNTIMEDOUT (set_timer_id re 0 sw)
      else
        (let (sw, status) = tsx_transmit_msg env True (set_timer_id re 0 sw) in
         if status = PJNATH_ESTUNDESTROYED then sw
         else if status \<noteq> PJ_SUCCESS then finish status (set_timer_id re 0 sw)
         else sw))"

definition pj_stun_client_tsx_retransmit :: "stun_env \<Rightarrow> bool \<Rightarrow> stun_world \<Rightarrow> stun_world \<times> pj_status" where
  "pj_stun_client_tsx_retransmit env mod_count sw =
     (if timer_id sw (st_destroy_timer (sw_tsx sw)) \<noteq> 0 \<or> st_is_destroying (sw_tsx sw) then (sw, PJ_SUCCESS)
      else
        (let sw = (if mod_count then stop_timer (st_retransmit_timer (sw_tsx sw)) sw else sw) in
         tsx_transmit_msg env mod_count sw))"

definition destroy_timer_callback :: "stun_world \<Rightarrow> stun_world" where
  "destroy_timer_callback sw = emit Ev_destroy (set_timer_id (st_destroy_timer (sw_tsx sw)) 0 sw)"

definition pj_stun_client_tsx_on_rx_msg :: "pj_stun_msg \<Rightarrow> stun_world \<Rightarrow> stun_world \<times> pj_status" where
  "pj_stun_client_tsx_on_rx_msg msg sw =
     (if \<not> PJ_STUN_IS_SUCCESS_RESPONSE (ucast (mh_type (sm_hdr msg))) \<and> \<not> PJ_STUN_IS_ERROR_RESPONSE (ucast (mh_type (sm_hdr msg)))
      then (sw, PJNATH_EINSTUNMSGTYPE)
      else
        (let sw = stop_timer (st_retransmit_timer (sw_tsx sw)) sw in
         case pj_stun_msg_find_attr msg PJ_STUN_ATTR_ERROR_CODE 0 of
           None \<Rightarrow> (finish PJ_SUCCESS sw, PJ_SUCCESS)
         | Some err_attr \<Rightarrow>
             if ea_err_code err_attr \<le> 200 then (sw, PJ_SUCCESS)
             else (finish (PJ_STATUS_FROM_STUN_CODE (ea_err_code err_attr)) sw, PJ_SUCCESS)))"

end
