(* ===== verification/Stun_Tsx_Props.thy ===== *)
theory Stun_Tsx_Props
  imports Stun_Tsx
begin

text \<open>
  Properties of the STUN client transaction, over arbitrary sequences of calls and timer
  expiries: completion is reported at most once, nothing is sent or reported once the
  transaction is being destroyed, the retransmission schedule is the documented one and ends
  in a timeout, and a response stops it.
\<close>

section \<open>The timer flag of an entry\<close>

lemma remove_node_id: "te_id (tw_entries (fst (remove_node w s)) x) = te_id (tw_entries w x)"
  by (simp add: remove_node_def Let_def set_entry_timer_id_def)

lemma cancel_id:
  assumes "tw_ok w"
  shows "te_id (tw_entries (fst (pj_timer_heap_cancel_if_active w e v)) x) =
    (if x = e \<and> running w e then v else te_id (tw_entries w x))"
proof -
  obtain w1 n where c: "cancel w e = (w1, n)" by fastforce
  have i1: "te_id (tw_entries w1 x) = te_id (tw_entries w x)"
    using c remove_node_id [of w _ x]
    by (auto simp: cancel_def Let_def set_entry_timer_id_def split: if_splits)
  obtain w' k where r: "cancel_timer w e True v = (w', k)" by fastforce
  note S = cancel_timer_spec [OF assms r]
  show ?thesis
  proof (cases "running w e")
    case False
    then show ?thesis using S(4) r by (simp add: pj_timer_heap_cancel_if_active_def)
  next
    case True
    then have "k = 1" using S(2) by simp
    then show ?thesis
      using True r i1 c by (auto simp: pj_timer_heap_cancel_if_active_def cancel_timer_def Let_def split: if_splits)
  qed
qed

lemma schedule_id:
  assumes "tw_ok w" "has_cb w e" "deadline w e = None"
    and r: "pj_timer_heap_schedule_w_grp_lock (\<lambda>_. True) junk now w e d v gl = (w', st)"
  shows "te_id (tw_entries w' x) = (if x = e then v else te_id (tw_entries w x))"
proof -
  obtain w1 st1 where s: "schedule_entry (\<lambda>_. True) junk w e (PJ_TIME_VAL_ADD now d) = (w1, st1)" by fastforce
  have nr: "\<not> running w e" using assms(3) by (simp add: deadline_None)
  note S = schedule_entry_spec [OF assms(1) nr _ s, simplified]
  have "te_id (tw_entries w1 y) = te_id (tw_entries w y)" for y
    using arg_cong [OF S(7) [of y], of te_id] by simp
  then show ?thesis
    using r nr assms(2) s S(1)
    by (auto simp: pj_timer_heap_schedule_w_grp_lock_def schedule_w_grp_lock_def Let_def has_cb_def)
qed

section \<open>Timers of a transaction\<close>

abbreviation due :: "stun_world \<Rightarrow> nat \<rightharpoonup> pj_time_val" where
  "due sw \<equiv> deadline (sw_timers sw)"

definition tsx_ok :: "stun_world \<Rightarrow> bool" where
  "tsx_ok sw \<longleftrightarrow> tw_ok (sw_timers sw) \<and> st_retransmit_timer (sw_tsx sw) \<noteq> st_destroy_timer (sw_tsx sw) \<and>
     has_cb (sw_timers sw) (st_retransmit_timer (sw_tsx sw)) \<and>
     has_cb (sw_timers sw) (st_destroy_timer (sw_tsx sw))"

lemma stop_timer_laws:
  assumes "tsx_ok sw"
  shows "tsx_ok (stop_timer e sw)" "due (stop_timer e sw) = (due sw)(e := None)"
    "timer_id (stop_timer e sw) x = (if x = e \<and> due sw e \<noteq> None then TIMER_INACTIVE else timer_id sw x)"
    "sw_tsx (stop_timer e sw) = sw_tsx sw" "sw_events (stop_timer e sw) = sw_events sw"
proof -
  have ok: "tw_ok (sw_timers sw)" using assms by (simp add: tsx_ok_def)
  obtain w' n where c: "pj_timer_heap_cancel_if_active (sw_timers sw) e TIMER_INACTIVE = (w', n)" by fastforce
  note L = ts.stop_law [OF ok c]
  show "tsx_ok (stop_timer e sw)" using assms L by (simp add: tsx_ok_def stop_timer_def c)
  show "due (stop_timer e sw) = (due sw)(e := None)" using L by (simp add: stop_timer_def c)
  show "timer_id (stop_timer e sw) x = (if x = e \<and> due sw e \<noteq> None then TIMER_INACTIVE else timer_id sw x)"
    using cancel_id [OF ok, of e TIMER_INACTIVE x] by (simp add: timer_id_def stop_timer_def c deadline_None)
qed (simp_all add: stop_timer_def)

lemma start_timer_laws:
  assumes ok: "tsx_ok sw" and e: "e \<in> {st_retransmit_timer (sw_tsx sw), st_destroy_timer (sw_tsx sw)}"
    and m: "en_mem env = (\<lambda>_. True)" and n: "due sw e = None" and r: "start_timer env e d sw = (sw', st)"
  shows "st = PJ_SUCCESS" "tsx_ok sw'" "due sw' = (due sw)(e \<mapsto> PJ_TIME_VAL_ADD (en_now env) d)"
    "timer_id sw' x = (if x = e then TIMER_ACTIVE else timer_id sw x)"
    "sw_tsx sw' = sw_tsx sw" "sw_events sw' = sw_events sw"
proof -
  have tok: "tw_ok (sw_timers sw)" and cb: "has_cb (sw_timers sw) e" using ok e by (auto simp: tsx_ok_def)
  obtain w' s where s: "pj_timer_heap_schedule_w_grp_lock (\<lambda>_. True) (en_junk env) (en_now env)
      (sw_timers sw) e d TIMER_ACTIVE (st_grp_lock (sw_tsx sw)) = (w', s)" by fastforce
  have sw': "sw' = sw\<lparr>sw_timers := w'\<rparr>" "st = s" using r s m by (auto simp: start_timer_def)
  note L = ts.schedule_law [OF tok cb n s]
  show "st = PJ_SUCCESS" "tsx_ok sw'" "due sw' = (due sw)(e \<mapsto> PJ_TIME_VAL_ADD (en_now env) d)"
    using L ok by (simp_all add: sw' tsx_ok_def)
  show "timer_id sw' x = (if x = e then TIMER_ACTIVE else timer_id sw x)"
    using schedule_id [OF tok cb n s] by (simp add: timer_id_def sw')
qed (use r in \<open>auto simp: start_timer_def split: prod.splits\<close>)

lemma set_timer_id_laws [simp]:
  "due (set_timer_id e v sw) = due sw" "tsx_ok (set_timer_id e v sw) = tsx_ok sw"
  "timer_id (set_timer_id e v sw) x = (if x = e then v else timer_id sw x)"
  "sw_tsx (set_timer_id e v sw) = sw_tsx sw" "sw_events (set_timer_id e v sw) = sw_events sw"
proof -
  let ?f = "(tw_entries (sw_timers sw))(e := (tw_entries (sw_timers sw) e)\<lparr>te_id := v\<rparr>)"
  note U = tw_ok_id_update [of ?f "sw_timers sw"]
  show "due (set_timer_id e v sw) = due sw" "tsx_ok (set_timer_id e v sw) = tsx_ok sw"
    using U by (auto simp: set_timer_id_def tsx_ok_def has_cb_def)
qed (simp_all add: set_timer_id_def timer_id_def)

lemma tsx_ok_upd [simp]:
  "tsx_ok (emit ev sw) = tsx_ok sw"
  "st_retransmit_timer (f (sw_tsx sw)) = st_retransmit_timer (sw_tsx sw) \<Longrightarrow>
   st_destroy_timer (f (sw_tsx sw)) = st_destroy_timer (sw_tsx sw) \<Longrightarrow> tsx_ok (upd_tsx f sw) = tsx_ok sw"
  by (simp_all add: tsx_ok_def emit_def)

lemma emit_simps [simp]:
  "sw_timers (emit ev sw) = sw_timers sw" "sw_tsx (emit ev sw) = sw_tsx sw"
  "sw_events (emit ev sw) = sw_events sw @ [ev]" "timer_id (emit ev sw) e = timer_id sw e"
  by (simp_all add: emit_def timer_id_def)

section \<open>Runs\<close>

datatype stun_call =
    Send bool "u8 list"
  | Retransmit bool
  | Rx pj_stun_msg
  | Schedule_destroy pj_time_val
  | Stop
  | Expire_retransmit
  | Expire_destroy

text \<open>
  A timer expires when the timer heap removes its entry and calls its callback; an entry that
  is not running does not expire.
\<close>

definition expire :: "nat \<Rightarrow> stun_world \<Rightarrow> stun_world" where
  "expire e sw = sw\<lparr>sw_timers := fst (remove_node (sw_timers sw)
     (nat (th_timer_ids (tw_ht (sw_timers sw)) ! tid (sw_timers sw) e)))\<rparr>"

fun stun_exec :: "stun_env \<Rightarrow> stun_call \<Rightarrow> stun_world \<Rightarrow> stun_world" where
  "stun_exec env (Send rt pkt) sw = fst (pj_stun_client_tsx_send_msg env rt pkt sw)"
| "stun_exec env (Retransmit mc) sw = fst (pj_stun_client_tsx_retransmit env mc sw)"
| "stun_exec env (Rx msg) sw = fst (pj_stun_client_tsx_on_rx_msg msg sw)"
| "stun_exec env (Schedule_destroy d) sw = fst (pj_stun_client_tsx_schedule_destroy env d sw)"
| "stun_exec env Stop sw = pj_stun_client_tsx_stop sw"
| "stun_exec env Expire_retransmit sw =
     (if running (sw_timers sw) (st_retransmit_timer (sw_tsx sw))
      then retransmit_timer_callback env (expire (st_retransmit_timer (sw_tsx sw)) sw) else sw)"
| "stun_exec env Expire_destroy sw =
     (if running (sw_timers sw) (st_destroy_timer (sw_tsx sw))
      then destroy_timer_callback (expire (st_destroy_timer (sw_tsx sw)) sw) else sw)"

fun stun_run :: "(stun_env \<times> stun_call) list \<Rightarrow> stun_world \<Rightarrow> stun_world" where
  "stun_run [] sw = sw"
| "stun_run ((env, c) # cs) sw = stun_run cs (stun_exec env c sw)"

lemma expire_laws:
  assumes ok: "tsx_ok sw" and r: "running (sw_timers sw) e"
  shows "tsx_ok (expire e sw)" "due (expire e sw) = (due sw)(e := None)"
    "timer_id (expire e sw) x = timer_id sw x"
    "sw_tsx (expire e sw) = sw_tsx sw" "sw_events (expire e sw) = sw_events sw"
proof -
  let ?w = "sw_timers sw" and ?i = "te_timer_id (tw_entries (sw_timers sw) e)"
  have tok: "tw_ok ?w" using ok by (simp add: tsx_ok_def)
  note T = tw_okD(3) [OF tok r]
  have i: "1 \<le> ?i" "nat ?i < th_max_size (tw_ht ?w)"
    using r live_range(2) [OF tw_okD(1) [OF tok]] T by (auto simp: pj_timer_entry_running_def)
  then have i2: "?i < int (th_max_size (tw_ht ?w))" by simp
  note K = timer_id_lookup(2) [OF tw_okD(1) [OF tok] i(1) i2]
  obtain w' p where rm: "remove_node ?w (nat (th_timer_ids (tw_ht ?w) ! tid ?w e)) = (w', p)" by fastforce
  have s: "nat (th_timer_ids (tw_ht ?w) ! tid ?w e) < th_cur_size (tw_ht ?w)"
    "tid ?w e = th_heap (tw_ht ?w) ! nat (th_timer_ids (tw_ht ?w) ! tid ?w e)" "e = owner (tw_ht ?w) (tid ?w e)"
    using K T by simp_all
  note R = remove_running [OF tok s rm]
  have cb: "has_cb w' = has_cb ?w" using remove_node_cb [of ?w] rm by (auto simp: has_cb_def intro!: ext) (metis fst_conv)+
  show "tsx_ok (expire e sw)" using ok R(2) cb by (simp add: tsx_ok_def expire_def rm)
  show "due (expire e sw) = (due sw)(e := None)" using R(3) by (simp add: expire_def rm)
  show "timer_id (expire e sw) x = timer_id sw x"
    using remove_node_id [of ?w _ x] by (simp add: expire_def timer_id_def)
qed (simp_all add: expire_def)

section \<open>What the operations change\<close>

lemma timer_ops_frame [simp]:
  "sw_tsx (stop_timer e sw) = sw_tsx sw" "sw_events (stop_timer e sw) = sw_events sw"
  "sw_tsx (fst (start_timer env e d sw)) = sw_tsx sw" "sw_events (fst (start_timer env e d sw)) = sw_events sw"
  "sw_tsx (expire e sw) = sw_tsx sw" "sw_events (expire e sw) = sw_events sw"
  by (simp_all add: stop_timer_def start_timer_def expire_def split_beta)

definition flags :: "stun_world \<Rightarrow> bool \<times> bool \<times> bool \<times> nat \<times> nat" where
  "flags sw = (st_complete (sw_tsx sw), st_has_on_complete (sw_tsx sw), st_is_destroying (sw_tsx sw),
     st_retransmit_timer (sw_tsx sw), st_destroy_timer (sw_tsx sw))"

lemma flags_upd [simp]:
  "flags (emit ev sw) = flags sw" "flags (set_timer_id e v sw) = flags sw" "flags (stop_timer e sw) = flags sw"
  "flags (fst (start_timer env e d sw)) = flags sw" "flags (expire e sw) = flags sw"
  by (simp_all add: flags_def)

lemma tsx_send_frame:
  "flags (fst (tsx_send env mc sw)) = flags sw"
  "\<exists>pkt. sw_events (fst (tsx_send env mc sw)) = sw_events sw @ [Ev_send pkt]"
  by (auto simp: tsx_send_def Let_def flags_def)

lemma transmit_frame:
  "flags (fst (tsx_transmit_msg env mc sw)) = flags sw"
  "sw_events (fst (tsx_transmit_msg env mc sw)) = sw_events sw \<or>
   (\<exists>pkt. sw_events (fst (tsx_transmit_msg env mc sw)) = sw_events sw @ [Ev_send pkt])"
proof -
  let ?sw = "upd_tsx (st_retransmit_time_update (\<lambda>_. next_retransmit_time (sw_tsx sw))) sw"
  obtain s1 st where s: "start_timer env (st_retransmit_timer (sw_tsx sw)) (next_retransmit_time (sw_tsx sw)) ?sw = (s1, st)"
    by fastforce
  have f: "flags s1 = flags sw" "sw_events s1 = sw_events sw"
    using arg_cong [OF s, of "\<lambda>x. flags (fst x)"] arg_cong [OF s, of "\<lambda>x. sw_events (fst x)"]
    by (simp_all add: flags_def)
  show "flags (fst (tsx_transmit_msg env mc sw)) = flags sw"
    using f tsx_send_frame(1) by (simp add: tsx_transmit_msg_def Let_def s)
  show "sw_events (fst (tsx_transmit_msg env mc sw)) = sw_events sw \<or>
   (\<exists>pkt. sw_events (fst (tsx_transmit_msg env mc sw)) = sw_events sw @ [Ev_send pkt])"
    using f tsx_send_frame(2) [of env mc s1] tsx_send_frame(2) [of env mc sw]
    by (auto simp: tsx_transmit_msg_def Let_def s)
qed

lemma send_msg_frame:
  "flags (fst (pj_stun_client_tsx_send_msg env rt pkt sw)) = flags sw"
  "st_is_destroying (sw_tsx sw) \<Longrightarrow> fst (pj_stun_client_tsx_send_msg env rt pkt sw) = sw"
  "sw_events (fst (pj_stun_client_tsx_send_msg env rt pkt sw)) = sw_events sw \<or>
   (\<exists>pkt'. sw_events (fst (pj_stun_client_tsx_send_msg env rt pkt sw)) = sw_events sw @ [Ev_send pkt'])"
proof -
  define s0 where "s0 = upd_tsx (\<lambda>tsx. tsx\<lparr>st_last_pkt := pkt, st_require_retransmit := rt\<rparr>) sw"
  define T where "T = u32 (int (st_rto_msec (sw_tsx s0)) * 16)"
  define t where "t = Time_val (int (T div 1000)) (int (T mod 1000))"
  define s1 where "s1 = upd_tsx (\<lambda>tsx. tsx\<lparr>st_transmit_count := PJ_STUN_MAX_TRANSMIT_COUNT, st_retransmit_time := t\<rparr>) s0"
  obtain s2 st where s: "start_timer env (st_retransmit_timer (sw_tsx sw)) t s1 = (s2, st)" by fastforce
  obtain a x where a: "tsx_transmit_msg env True s2 = (a, x)" by fastforce
  obtain b y where b: "tsx_transmit_msg env True s0 = (b, y)" by fastforce
  have f: "flags s2 = flags sw" "sw_events s2 = sw_events sw" "flags s0 = flags sw" "sw_events s0 = sw_events sw"
    using arg_cong [OF s, of "\<lambda>x. flags (fst x)"] arg_cong [OF s, of "\<lambda>x. sw_events (fst x)"]
    by (simp_all add: flags_def s1_def s0_def)
  have ab: "flags a = flags sw" "flags b = flags sw"
    "sw_events a = sw_events sw \<or> (\<exists>p. sw_events a = sw_events sw @ [Ev_send p])"
    "sw_events b = sw_events sw \<or> (\<exists>p. sw_events b = sw_events sw @ [Ev_send p])"
    using transmit_frame [of env True s2] transmit_frame [of env True s0] f by (auto simp: a b)
  note D = pj_stun_client_tsx_send_msg_def Let_def s0_def [symmetric] T_def [symmetric] t_def [symmetric]
    s1_def [symmetric] s a b
  show "flags (fst (pj_stun_client_tsx_send_msg env rt pkt sw)) = flags sw" using f ab by (auto simp: D)
  show "sw_events (fst (pj_stun_client_tsx_send_msg env rt pkt sw)) = sw_events sw \<or>
   (\<exists>pkt'. sw_events (fst (pj_stun_client_tsx_send_msg env rt pkt sw)) = sw_events sw @ [Ev_send pkt'])"
    using f ab by (auto simp: D)
  show "st_is_destroying (sw_tsx sw) \<Longrightarrow> fst (pj_stun_client_tsx_send_msg env rt pkt sw) = sw"
    by (simp add: pj_stun_client_tsx_send_msg_def Let_def)
qed

section \<open>Completion is reported at most once\<close>

definition completions :: "stun_world \<Rightarrow> nat" where
  "completions sw = length (filter (\<lambda>ev. case ev of Ev_complete _ \<Rightarrow> True | _ \<Rightarrow> False) (sw_events sw))"

definition once :: "stun_world \<Rightarrow> bool" where
  "once sw \<longleftrightarrow> completions sw \<le> 1 \<and> (completions sw = 1 \<longrightarrow> st_complete (sw_tsx sw))"

lemma once_cong:
  assumes "once sw" "flags sw' = flags sw"
    "sw_events sw' = sw_events sw \<or> (\<exists>p. sw_events sw' = sw_events sw @ [Ev_send p]) \<or> sw_events sw' = sw_events sw @ [Ev_destroy]"
  shows "once sw'"
  using assms by (auto simp: once_def completions_def flags_def)

lemma completions_append:
  "sw_events sw' = sw_events sw @ [ev] \<Longrightarrow>
   completions sw' = completions sw + (case ev of Ev_complete _ \<Rightarrow> 1 | _ \<Rightarrow> 0)"
  "sw_events sw' = sw_events sw \<Longrightarrow> completions sw' = completions sw"
  by (auto simp: completions_def split: stun_event.split)

lemma once_finish:
  assumes "once sw"
  shows "once (finish st sw)"
proof (cases "st_complete (sw_tsx sw)")
  case False
  then have "completions sw = 0" using assms by (auto simp: once_def le_Suc_eq)
  moreover have "completions (finish st sw) \<le> completions sw + 1"
    using False by (simp add: completions_def finish_def Let_def)
  moreover have "st_complete (sw_tsx (finish st sw))" by (simp add: finish_def Let_def)
  ultimately show ?thesis by (simp add: once_def)
qed (use assms in \<open>simp add: finish_def\<close>)

lemma once_exec:
  assumes "once sw"
  shows "once (stun_exec env c sw)"
proof (cases c)
  case (Send rt pkt)
  show ?thesis
    unfolding Send stun_exec.simps
    by (rule once_cong [OF assms]) (use send_msg_frame(1,3) [where env = env and rt = rt and pkt = pkt and sw = sw] in auto)
next
  case (Retransmit mc)
  show ?thesis
    unfolding Retransmit stun_exec.simps
    by (rule once_cong [OF assms])
      (use transmit_frame [of env mc "if mc then stop_timer (st_retransmit_timer (sw_tsx sw)) sw else sw"] in
        \<open>auto simp: pj_stun_client_tsx_retransmit_def Let_def split: if_splits\<close>)
next
  case (Rx msg)
  have "once (stop_timer e sw)" for e by (rule once_cong [OF assms]) simp_all
  then show ?thesis
    using assms once_finish by (simp add: Rx pj_stun_client_tsx_on_rx_msg_def Let_def split: option.split)
next
  case (Schedule_destroy d)
  have e: "sw_events (fst (pj_stun_client_tsx_schedule_destroy env d sw)) = sw_events sw"
    "st_complete (sw_tsx (fst (pj_stun_client_tsx_schedule_destroy env d sw))) = st_complete (sw_tsx sw)"
    by (simp_all add: pj_stun_client_tsx_schedule_destroy_def Let_def split_beta)
  then show ?thesis using assms by (simp add: Schedule_destroy once_def completions_def)
next
  case Stop
  show ?thesis
    unfolding Stop by (rule once_cong [OF assms]) (simp_all add: pj_stun_client_tsx_stop_def Let_def)
next
  case Expire_retransmit
  let ?re = "st_retransmit_timer (sw_tsx sw)"
  define s where "s = set_timer_id ?re 0 (expire ?re sw)"
  have s: "once s" unfolding s_def by (rule once_cong [OF assms]) simp_all
  obtain a st where t: "tsx_transmit_msg env True s = (a, st)" by fastforce
  have a: "once a" by (rule once_cong [OF s]) (use transmit_frame [of env True s] t in auto)
  have a0: "once (set_timer_id ?re 0 a)" by (rule once_cong [OF a]) simp_all
  have ex: "once (expire ?re sw)" by (rule once_cong [OF assms]) simp_all
  show ?thesis
    using assms ex once_finish [OF s] once_finish [OF a0] a t
    by (simp add: Expire_retransmit retransmit_timer_callback_def Let_def s_def [symmetric])
next
  case Expire_destroy
  have "once (destroy_timer_callback (expire e sw))" for e
    by (rule once_cong [OF assms]) (simp_all add: destroy_timer_callback_def)
  then show ?thesis using assms by (simp add: Expire_destroy)
qed

section \<open>Nothing happens after the start of destruction\<close>

definition doomed :: "stun_world \<Rightarrow> bool" where
  "doomed sw \<longleftrightarrow> st_is_destroying (sw_tsx sw) \<and> \<not> st_has_on_complete (sw_tsx sw)"

lemma doomed_cong:
  assumes "doomed sw" "flags sw' = flags sw"
  shows "doomed sw'"
  using assms by (auto simp: doomed_def flags_def)

lemma doomed_exec:
  assumes "doomed sw"
  shows "doomed (stun_exec env c sw) \<and>
    (sw_events (stun_exec env c sw) = sw_events sw \<or> sw_events (stun_exec env c sw) = sw_events sw @ [Ev_destroy])"
proof -
  have d: "st_is_destroying (sw_tsx sw)" "\<not> st_has_on_complete (sw_tsx sw)" using assms by (auto simp: doomed_def)
  show ?thesis
  proof (cases c)
    case (Send rt pkt)
    then show ?thesis using send_msg_frame(2) [OF d(1)] assms by simp
  next
    case (Rx msg)
    have "doomed (finish st (stop_timer e sw)) \<and> sw_events (finish st (stop_timer e sw)) = sw_events sw" for st e
      using d by (simp add: finish_def doomed_def Let_def)
    moreover have "doomed (stop_timer e sw)" for e by (rule doomed_cong [OF assms]) simp
    ultimately show ?thesis
      using assms by (simp add: Rx pj_stun_client_tsx_on_rx_msg_def Let_def split: option.split)
  qed (use assms d in \<open>auto simp: doomed_def pj_stun_client_tsx_retransmit_def pj_stun_client_tsx_schedule_destroy_def
      pj_stun_client_tsx_stop_def Let_def retransmit_timer_callback_def destroy_timer_callback_def\<close>)
qed

lemma doomed_run:
  "doomed sw \<Longrightarrow> doomed (stun_run cs sw) \<and> (\<exists>n. sw_events (stun_run cs sw) = sw_events sw @ replicate n Ev_destroy)"
proof (induction cs sw rule: stun_run.induct)
  case (1 sw)
  then show ?case by (auto intro: exI [of _ 0])
next
  case (2 env c cs sw)
  obtain n where n: "sw_events (stun_run cs (stun_exec env c sw)) = sw_events (stun_exec env c sw) @ replicate n Ev_destroy"
    "doomed (stun_run cs (stun_exec env c sw))"
    using 2(1) doomed_exec [OF 2(2)] by blast
  show ?case
  proof (cases "sw_events (stun_exec env c sw) = sw_events sw")
    case True
    then show ?thesis using n by auto
  next
    case False
    then have "sw_events (stun_exec env c sw) = sw_events sw @ [Ev_destroy]" using doomed_exec [OF 2(2)] by blast
    then have "sw_events (stun_run ((env, c) # cs) sw) = sw_events sw @ replicate (Suc n) Ev_destroy" using n by simp
    then show ?thesis using n(2) exI [of _ "Suc n"] by fastforce
  qed
qed

section \<open>A created transaction\<close>

lemma tsx_create_ok:
  assumes "tw_ok tw" "\<not> running tw re" "\<not> running tw de" "re \<noteq> de" "cb_r \<noteq> 0" "cb_d \<noteq> 0"
    and c: "pj_stun_client_tsx_create rto gl True oc od re de cb_r cb_d self tw = Some sw"
  shows "tsx_ok sw" "due sw re = None" "timer_id sw re = TIMER_INACTIVE"
    "sw_events sw = []" "st_retransmit_timer (sw_tsx sw) = re" "st_destroy_timer (sw_tsx sw) = de"
proof -
  have o: "p \<in> set (live (tw_ht tw)) \<Longrightarrow> owner (tw_ht tw) p \<notin> {re, de}" for p
    using live_running(1) [OF assms(1)] assms(2,3) by auto
  have ht: "tw_ht (sw_timers sw) = tw_ht tw" using c by (auto simp: pj_stun_client_tsx_create_def)
  have en: "te_timer_id (tw_entries (sw_timers sw) e) = (if e \<in> {re, de} then 0 else te_timer_id (tw_entries tw e))" for e
    using c by (auto simp: pj_stun_client_tsx_create_def)
  have "tw_ok (sw_timers sw)"
    using tw_okD [OF assms(1)] o by (simp add: tw_ok_def ht en pj_timer_entry_running_def)
  then show "tsx_ok sw" using c assms(4-6) by (auto simp: tsx_ok_def has_cb_def pj_stun_client_tsx_create_def)
  show "due sw re = None" using en [of re] by (simp add: deadline_None pj_timer_entry_running_def)
qed (use c assms(4) in \<open>auto simp: pj_stun_client_tsx_create_def timer_id_def TIMER_INACTIVE_def\<close>)

section \<open>The retransmission schedule\<close>

text \<open>The delay armed with the \<open>k\<close>-th transmission, in milliseconds.\<close>

definition retransmit_delay :: "nat \<Rightarrow> nat \<Rightarrow> int" where
  "retransmit_delay rto k = (if k < PJ_STUN_MAX_TRANSMIT_COUNT then int rto * 2 ^ (k - 1) else 1600)"

text \<open>
  The request has been transmitted \<open>k\<close> times, the last time at \<open>t\<close>, and the retransmit timer
  is armed with the delay of that transmission.
\<close>

definition waiting :: "nat \<Rightarrow> pj_time_val \<Rightarrow> stun_world \<Rightarrow> bool" where
  "waiting k t sw \<longleftrightarrow> tsx_ok sw \<and> \<not> st_complete (sw_tsx sw) \<and> \<not> st_is_destroying (sw_tsx sw) \<and>
     st_require_retransmit (sw_tsx sw) \<and> st_transmit_count (sw_tsx sw) = k \<and>
     PJ_TIME_VAL_MSEC (st_retransmit_time (sw_tsx sw)) = retransmit_delay (st_rto_msec (sw_tsx sw)) k \<and>
     due sw (st_retransmit_timer (sw_tsx sw)) = Some (PJ_TIME_VAL_ADD t (st_retransmit_time (sw_tsx sw)))"

text \<open>The timer heap has memory and transmissions succeed, at once or asynchronously.\<close>

definition good_env :: "stun_env \<Rightarrow> bool" where
  "good_env env \<longleftrightarrow> en_mem env = (\<lambda>_. True) \<and> (\<forall>n. en_send env n \<in> {PJ_SUCCESS, PJ_EPENDING, PJ_EBUSY})"

lemma msec_split: "0 \<le> x \<Longrightarrow> int (nat x div 1000) * 1000 + int (nat x mod 1000) = x"
  using div_mult_mod_eq [of "nat x" 1000] by linarith

lemma next_retransmit_time_delay:
  assumes "k < PJ_STUN_MAX_TRANSMIT_COUNT" "st_transmit_count tsx = k"
    "0 < k \<Longrightarrow> PJ_TIME_VAL_MSEC (st_retransmit_time tsx) = retransmit_delay (st_rto_msec tsx) k"
    "st_rto_msec tsx * 32 < 2 ^ 32"
  shows "PJ_TIME_VAL_MSEC (next_retransmit_time tsx) = retransmit_delay (st_rto_msec tsx) (Suc k)"
proof -
  let ?r = "st_rto_msec tsx"
  have "k \<in> {0, 1, 2, 3, 4, 5, 6}" using assms(1) by (auto simp: PJ_STUN_MAX_TRANSMIT_COUNT_def)
  then show ?thesis
    using assms(2-4)
    by (auto simp: next_retransmit_time_def retransmit_delay_def PJ_STUN_MAX_TRANSMIT_COUNT_def Let_def
        PJ_TIME_VAL_MSEC_def PJ_STUN_TIMEOUT_VALUE_def PJ_STUN_RTO_VALUE_def u32_nonneg msec_split)
qed

text \<open>A transmission that succeeds.\<close>

lemma tsx_transmit_waiting:
  assumes ok: "tsx_ok sw" and g: "good_env env" and k: "k < PJ_STUN_MAX_TRANSMIT_COUNT"
    and f: "\<not> st_complete (sw_tsx sw)" "\<not> st_is_destroying (sw_tsx sw)" "st_require_retransmit (sw_tsx sw)"
      "st_transmit_count (sw_tsx sw) = k" "st_rto_msec (sw_tsx sw) * 32 < 2 ^ 32"
    and t: "0 < k \<Longrightarrow> PJ_TIME_VAL_MSEC (st_retransmit_time (sw_tsx sw)) = retransmit_delay (st_rto_msec (sw_tsx sw)) k"
    and n: "due sw (st_retransmit_timer (sw_tsx sw)) = None"
      "timer_id sw (st_retransmit_timer (sw_tsx sw)) = TIMER_INACTIVE"
  obtains sw' where "tsx_transmit_msg env True sw = (sw', PJ_SUCCESS)" "waiting (Suc k) (en_now env) sw'"
    "sw_events sw' = sw_events sw @ [Ev_send (st_last_pkt (sw_tsx sw))]" "st_last_pkt (sw_tsx sw') = st_last_pkt (sw_tsx sw)"
    "st_rto_msec (sw_tsx sw') = st_rto_msec (sw_tsx sw)" "st_has_on_complete (sw_tsx sw') = st_has_on_complete (sw_tsx sw)"
proof -
  let ?re = "st_retransmit_timer (sw_tsx sw)" and ?t = "next_retransmit_time (sw_tsx sw)"
  define s0 where "s0 = upd_tsx (st_retransmit_time_update (\<lambda>_. ?t)) sw"
  obtain s1 st where s: "start_timer env ?re ?t s0 = (s1, st)" by fastforce
  have s0: "tsx_ok s0" "due s0 ?re = None" "st_retransmit_timer (sw_tsx s0) = ?re" "sw_events s0 = sw_events sw"
    using ok n by (simp_all add: s0_def)
  note L = start_timer_laws [OF s0(1) _ _ s0(2) s] 
  have s1: "st = PJ_SUCCESS" "tsx_ok s1" "due s1 ?re = Some (PJ_TIME_VAL_ADD (en_now env) ?t)"
    "sw_tsx s1 = sw_tsx s0" "sw_events s1 = sw_events sw"
    using L g s0 by (simp_all add: good_env_def)
  have send: "en_send env n = PJ_SUCCESS \<or> en_send env n = PJ_EPENDING \<or> en_send env n = PJ_EBUSY" for n
    using g by (auto simp: good_env_def)
  have z: "(if x = PJ_EPENDING \<or> x = PJ_EBUSY then PJ_SUCCESS else x) = PJ_SUCCESS"
    if "x = PJ_SUCCESS \<or> x = PJ_EPENDING \<or> x = PJ_EBUSY" for x
    using that by auto
  define s2 where "s2 = emit (Ev_send (st_last_pkt (sw_tsx s1))) (upd_tsx (st_transmit_count_update Suc) s1)"
  have r: "tsx_transmit_msg env True sw = (s2, PJ_SUCCESS)"
    using f(3) n(2) s s1(1) z [OF send]
    by (simp add: tsx_transmit_msg_def Let_def s0_def [symmetric] tsx_send_def s2_def PJNATH_ESTUNDESTROYED_def)
  have "tsx_ok s2" using s1(2,4) by (simp add: tsx_ok_def s2_def)
  then have "waiting (Suc k) (en_now env) s2"
    using s1 f next_retransmit_time_delay [OF k f(4) t f(5)]
    by (simp add: waiting_def s2_def s0_def)
  then show ?thesis
    using r s1 by (intro that [of s2]) (simp_all add: s2_def s0_def)
qed

lemma waiting_expire:
  assumes w: "waiting k t sw" and k: "0 < k" "k < PJ_STUN_MAX_TRANSMIT_COUNT" and g: "good_env env"
    and r: "st_rto_msec (sw_tsx sw) * 32 < 2 ^ 32"
  shows "waiting (Suc k) (en_now env) (stun_exec env Expire_retransmit sw) \<and>
    sw_events (stun_exec env Expire_retransmit sw) = sw_events sw @ [Ev_send (st_last_pkt (sw_tsx sw))] \<and>
    st_last_pkt (sw_tsx (stun_exec env Expire_retransmit sw)) = st_last_pkt (sw_tsx sw) \<and>
    st_rto_msec (sw_tsx (stun_exec env Expire_retransmit sw)) = st_rto_msec (sw_tsx sw) \<and>
    st_has_on_complete (sw_tsx (stun_exec env Expire_retransmit sw)) = st_has_on_complete (sw_tsx sw)"
proof -
  let ?re = "st_retransmit_timer (sw_tsx sw)"
  have ok: "tsx_ok sw" and run: "running (sw_timers sw) ?re"
    using w by (auto simp: waiting_def deadline_def split: if_splits)
  define s where "s = set_timer_id ?re 0 (expire ?re sw)"
  have s: "tsx_ok s" "due s ?re = None" "timer_id s ?re = TIMER_INACTIVE" "sw_tsx s = sw_tsx sw" "sw_events s = sw_events sw"
    using expire_laws [OF ok run] by (simp_all add: s_def TIMER_INACTIVE_def)
  obtain s' where s': "tsx_transmit_msg env True s = (s', PJ_SUCCESS)" "waiting (Suc k) (en_now env) s'"
    "sw_events s' = sw_events s @ [Ev_send (st_last_pkt (sw_tsx s))]" "st_last_pkt (sw_tsx s') = st_last_pkt (sw_tsx s)"
    "st_rto_msec (sw_tsx s') = st_rto_msec (sw_tsx s)" "st_has_on_complete (sw_tsx s') = st_has_on_complete (sw_tsx s)"
    using tsx_transmit_waiting [OF s(1) g k(2)] s(2-) w r by (auto simp: waiting_def)
  have "stun_exec env Expire_retransmit sw = s'"
    using run w k(2) s'(1)
    by (simp add: retransmit_timer_callback_def waiting_def Let_def s_def [symmetric] PJNATH_ESTUNDESTROYED_def)
  then show ?thesis using s' s by simp
qed

lemma waiting_timeout:
  assumes w: "waiting PJ_STUN_MAX_TRANSMIT_COUNT t sw" and c: "st_has_on_complete (sw_tsx sw)"
  shows "sw_events (stun_exec env Expire_retransmit sw) = sw_events sw @ [Ev_complete PJNATH_ESTUNTIMEDOUT] \<and>
    pj_stun_client_tsx_is_complete (stun_exec env Expire_retransmit sw) \<and>
    due (stun_exec env Expire_retransmit sw) (st_retransmit_timer (sw_tsx sw)) = None"
proof -
  let ?re = "st_retransmit_timer (sw_tsx sw)"
  have ok: "tsx_ok sw" and run: "running (sw_timers sw) ?re"
    using w by (auto simp: waiting_def deadline_def split: if_splits)
  have "due (set_timer_id ?re 0 (expire ?re sw)) ?re = None" using expire_laws(2) [OF ok run] by simp
  then show ?thesis
    using run w c
    by (simp add: retransmit_timer_callback_def finish_def waiting_def Let_def pj_stun_client_tsx_is_complete_def)
qed

lemma send_waiting:
  assumes ok: "tsx_ok sw" and g: "good_env env" and p: "pkt \<noteq> []"
    and f: "\<not> st_complete (sw_tsx sw)" "\<not> st_is_destroying (sw_tsx sw)" "st_transmit_count (sw_tsx sw) = 0"
      "st_rto_msec (sw_tsx sw) * 32 < 2 ^ 32"
    and n: "due sw (st_retransmit_timer (sw_tsx sw)) = None"
      "timer_id sw (st_retransmit_timer (sw_tsx sw)) = TIMER_INACTIVE"
  shows "waiting 1 (en_now env) (stun_exec env (Send True pkt) sw) \<and>
    sw_events (stun_exec env (Send True pkt) sw) = sw_events sw @ [Ev_send pkt] \<and>
    st_last_pkt (sw_tsx (stun_exec env (Send True pkt) sw)) = pkt \<and>
    st_rto_msec (sw_tsx (stun_exec env (Send True pkt) sw)) = st_rto_msec (sw_tsx sw) \<and>
    st_has_on_complete (sw_tsx (stun_exec env (Send True pkt) sw)) = st_has_on_complete (sw_tsx sw)"
proof -
  define s where "s = upd_tsx (\<lambda>tsx. tsx\<lparr>st_last_pkt := pkt, st_require_retransmit := True\<rparr>) sw"
  have s: "tsx_ok s" "due s (st_retransmit_timer (sw_tsx s)) = None"
    "timer_id s (st_retransmit_timer (sw_tsx s)) = TIMER_INACTIVE" "sw_events s = sw_events sw"
    using ok n by (simp_all add: s_def timer_id_def tsx_ok_def)
  obtain s' where s': "tsx_transmit_msg env True s = (s', PJ_SUCCESS)" "waiting (Suc 0) (en_now env) s'"
    "sw_events s' = sw_events s @ [Ev_send (st_last_pkt (sw_tsx s))]" "st_last_pkt (sw_tsx s') = st_last_pkt (sw_tsx s)"
    "st_rto_msec (sw_tsx s') = st_rto_msec (sw_tsx s)" "st_has_on_complete (sw_tsx s') = st_has_on_complete (sw_tsx s)"
    using tsx_transmit_waiting [OF s(1) g, of 0] s(2,3) f
    by (auto simp: s_def PJ_STUN_MAX_TRANSMIT_COUNT_def)
  have "stun_exec env (Send True pkt) sw = s'"
    using p n(2) f(2) s'(1) by (simp add: pj_stun_client_tsx_send_msg_def Let_def s_def [symmetric] TIMER_INACTIVE_def)
  then show ?thesis using s' s by (simp add: s_def)
qed

abbreviation expiries :: "stun_env list \<Rightarrow> (stun_env \<times> stun_call) list" where
  "expiries es \<equiv> map (\<lambda>env. (env, Expire_retransmit)) es"

lemma waiting_run:
  assumes "\<forall>env\<in>set es. good_env env" "waiting k t sw" "0 < k" "k + length es \<le> PJ_STUN_MAX_TRANSMIT_COUNT"
    "st_rto_msec (sw_tsx sw) * 32 < 2 ^ 32"
  shows "waiting (k + length es) (last (t # map en_now es)) (stun_run (expiries es) sw) \<and>
    sw_events (stun_run (expiries es) sw) = sw_events sw @ replicate (length es) (Ev_send (st_last_pkt (sw_tsx sw))) \<and>
    st_rto_msec (sw_tsx (stun_run (expiries es) sw)) = st_rto_msec (sw_tsx sw) \<and>
    st_has_on_complete (sw_tsx (stun_run (expiries es) sw)) = st_has_on_complete (sw_tsx sw)"
  using assms
proof (induction es arbitrary: k t sw)
  case (Cons env es)
  note W = waiting_expire [OF Cons.prems(2,3), of env]
  have "k < PJ_STUN_MAX_TRANSMIT_COUNT" "good_env env" using Cons.prems by simp_all
  note W = W [OF this Cons.prems(5)]
  show ?case using Cons.IH [of "Suc k" "en_now env" "stun_exec env Expire_retransmit sw"] W Cons.prems by simp
qed simp

lemma stun_run_append: "stun_run (xs @ ys) sw = stun_run ys (stun_run xs sw)"
  by (induction xs sw rule: stun_run.induct) simp_all

lemma exec_timers [simp]:
  "st_retransmit_timer (sw_tsx (stun_exec env c sw)) = st_retransmit_timer (sw_tsx sw)"
proof -
  have f: "st_retransmit_timer (sw_tsx s) = st_retransmit_timer (sw_tsx s')" if "flags s = flags s'" for s s'
    using that by (simp add: flags_def)
  have fin: "st_retransmit_timer (sw_tsx (finish st s)) = st_retransmit_timer (sw_tsx s)" for st s
    by (simp add: finish_def Let_def)
  note T = f [OF transmit_frame(1)]
  show ?thesis
    by (cases c)
      (simp_all add: T f [OF send_msg_frame(1)] fin pj_stun_client_tsx_retransmit_def pj_stun_client_tsx_on_rx_msg_def
        pj_stun_client_tsx_schedule_destroy_def pj_stun_client_tsx_stop_def retransmit_timer_callback_def
        destroy_timer_callback_def Let_def split_beta split: option.split)
qed

lemma run_timers [simp]: "st_retransmit_timer (sw_tsx (stun_run cs sw)) = st_retransmit_timer (sw_tsx sw)"
  by (induction cs sw rule: stun_run.induct) (simp_all del: stun_exec.simps)

lemma schedule_destroy_ok:
  assumes ok: "tsx_ok sw" and f: "st_has_on_destroy (sw_tsx sw)" "\<not> st_is_destroying (sw_tsx sw)"
    and m: "en_mem env = (\<lambda>_. True)" and r: "pj_stun_client_tsx_schedule_destroy env d sw = (sw', st)"
  shows "st = PJ_SUCCESS"
proof -
  define s0 where "s0 = upd_tsx (st_is_destroying_update (\<lambda>_. True)) sw"
  define s1 where "s1 = stop_timer (st_destroy_timer (sw_tsx s0)) s0"
  define s2 where "s2 = stop_timer (st_retransmit_timer (sw_tsx s0)) s1"
  have s0: "tsx_ok s0" using ok by (simp add: s0_def)
  have s1: "tsx_ok s1" "due s1 (st_destroy_timer (sw_tsx s0)) = None" "sw_tsx s1 = sw_tsx s0"
    using stop_timer_laws [OF s0] by (simp_all add: s1_def)
  have s2: "tsx_ok s2" "due s2 (st_destroy_timer (sw_tsx s0)) = None" "sw_tsx s2 = sw_tsx s0"
    using stop_timer_laws [OF s1(1)] s1 by (simp_all add: s2_def)
  obtain a x where a: "start_timer env (st_destroy_timer (sw_tsx s0)) d s2 = (a, x)" by fastforce
  have "x = PJ_SUCCESS" using start_timer_laws(1) [OF s2(1) _ m s2(2) a] s2(3) by simp
  then show ?thesis
    using r f a s1(3) s2(3) by (simp add: pj_stun_client_tsx_schedule_destroy_def Let_def s0_def [symmetric] s1_def [symmetric] s2_def [symmetric])
qed

section \<open>Properties\<close>

lemma once_run: "once sw \<Longrightarrow> once (stun_run cs sw)"
  by (induction cs sw rule: stun_run.induct) (simp_all add: once_exec)

text \<open>C27: A created transaction reports its completion to the application at most once,
  whatever the order of sends, retransmissions, responses, stops, destructions and timer
  expiries, and whether or not sending and timer scheduling succeed; a reported completion
  leaves the transaction complete.\<close>

theorem stun_completes_at_most_once:
  assumes "pj_stun_client_tsx_create rto gl on_send oc od re de cb_r cb_d self tw = Some sw"
  shows "completions (stun_run cs sw) \<le> 1 \<and>
    (completions (stun_run cs sw) = 1 \<longrightarrow> pj_stun_client_tsx_is_complete (stun_run cs sw))"
proof -
  have "once sw"
    using assms by (auto simp: pj_stun_client_tsx_create_def once_def completions_def split: if_splits)
  then show ?thesis using once_run [of sw cs] by (simp add: once_def pj_stun_client_tsx_is_complete_def)
qed

text \<open>Once \<^verbatim>\<open>pj_stun_client_tsx_schedule_destroy\<close> has succeeded for a transaction that was
  not being destroyed, no later call, response or timer expiry makes it transmit or report
  completion: the only callback the application still sees is the destruction.\<close>

theorem stun_silent_after_schedule_destroy:
  assumes "pj_stun_client_tsx_schedule_destroy env delay sw = (sw', PJ_SUCCESS)" "\<not> st_is_destroying (sw_tsx sw)"
  shows "\<exists>n. sw_events (stun_run cs sw') = sw_events sw @ replicate n Ev_destroy"
proof -
  have "doomed sw'" "sw_events sw' = sw_events sw"
    using assms
    by (auto simp: pj_stun_client_tsx_schedule_destroy_def doomed_def Let_def split_beta split: if_splits)
  then show ?thesis using doomed_run [of sw' cs] by simp
qed

text \<open>The retransmission schedule.  After the request and \<open>n < 7\<close> timer expiries without a
  response the packet has been sent \<open>n + 1\<close> times and the retransmit timer is armed, from the
  time of the last transmission, with \<open>rto * 2 ^ n\<close> milliseconds, or 1600 milliseconds after the
  seventh and last transmission.\<close>

theorem stun_retransmit_schedule:
  assumes tw: "tw_ok tw" "\<not> running tw re" "\<not> running tw de" "re \<noteq> de" "cb_r \<noteq> 0" "cb_d \<noteq> 0"
    and c: "pj_stun_client_tsx_create rto gl True oc od re de cb_r cb_d self tw = Some sw"
    and es: "\<forall>env\<in>set (env # es). good_env env" "length es < PJ_STUN_MAX_TRANSMIT_COUNT"
    and p: "pkt \<noteq> []" "rto * 32 < 2 ^ 32"
  shows "\<exists>t. deadline (sw_timers (stun_run ((env, Send True pkt) # expiries es) sw)) re =
      Some (PJ_TIME_VAL_ADD (last (map en_now (env # es))) t) \<and>
    PJ_TIME_VAL_MSEC t = (if length es < 6 then int rto * 2 ^ length es else 1600) \<and>
    sw_events (stun_run ((env, Send True pkt) # expiries es) sw) = replicate (Suc (length es)) (Ev_send pkt)"
proof -
  note C = tsx_create_ok [OF tw c]
  have f: "\<not> st_complete (sw_tsx sw)" "\<not> st_is_destroying (sw_tsx sw)" "st_transmit_count (sw_tsx sw) = 0"
    "st_rto_msec (sw_tsx sw) = rto" using c by (auto simp: pj_stun_client_tsx_create_def)
  define s1 where "s1 = stun_exec env (Send True pkt) sw"
  have s1: "waiting 1 (en_now env) s1" "sw_events s1 = [Ev_send pkt]" "st_last_pkt (sw_tsx s1) = pkt"
    "st_rto_msec (sw_tsx s1) = rto"
    using send_waiting [OF C(1) _ p(1) f(1-3)] C f(4) es(1) p(2) by (simp_all add: s1_def)
  define s2 where "s2 = stun_run (expiries es) s1"
  have s2: "waiting (Suc (length es)) (last (map en_now (env # es))) s2"
    "sw_events s2 = replicate (Suc (length es)) (Ev_send pkt)" "st_rto_msec (sw_tsx s2) = rto"
    using waiting_run [OF _ s1(1), of es] s1 es p(2) by (auto simp: s2_def)
  have re: "st_retransmit_timer (sw_tsx s2) = re" using C(5) by (simp add: s2_def s1_def del: stun_exec.simps)
  have "PJ_TIME_VAL_MSEC (st_retransmit_time (sw_tsx s2)) = (if length es < 6 then int rto * 2 ^ length es else 1600)"
    using s2 by (simp add: waiting_def retransmit_delay_def PJ_STUN_MAX_TRANSMIT_COUNT_def)
  then show ?thesis using s2 re by (auto simp: waiting_def s1_def s2_def)
qed

text \<open>C26: Liveness: a request that is never answered is transmitted seven times and then
  reported as timed out; the transaction is complete and its retransmit timer is not armed.\<close>

theorem stun_unanswered_times_out:
  assumes tw: "tw_ok tw" "\<not> running tw re" "\<not> running tw de" "re \<noteq> de" "cb_r \<noteq> 0" "cb_d \<noteq> 0"
    and c: "pj_stun_client_tsx_create rto gl True True od re de cb_r cb_d self tw = Some sw"
    and es: "\<forall>env\<in>set (env # es). good_env env" "length es = 6"
    and p: "pkt \<noteq> []" "rto * 32 < 2 ^ 32"
    and r: "sw' = stun_run ((env, Send True pkt) # expiries (es @ [env'])) sw"
  shows "sw_events sw' = replicate 7 (Ev_send pkt) @ [Ev_complete PJNATH_ESTUNTIMEDOUT] \<and>
    pj_stun_client_tsx_is_complete sw' \<and> deadline (sw_timers sw') re = None"
proof -
  note C = tsx_create_ok [OF tw c]
  have f: "\<not> st_complete (sw_tsx sw)" "\<not> st_is_destroying (sw_tsx sw)" "st_transmit_count (sw_tsx sw) = 0"
    "st_rto_msec (sw_tsx sw) = rto" "st_has_on_complete (sw_tsx sw)" using c by (auto simp: pj_stun_client_tsx_create_def)
  define s1 where "s1 = stun_exec env (Send True pkt) sw"
  have s1: "waiting 1 (en_now env) s1" "sw_events s1 = [Ev_send pkt]" "st_last_pkt (sw_tsx s1) = pkt"
    "st_rto_msec (sw_tsx s1) = rto" "st_has_on_complete (sw_tsx s1)"
    using send_waiting [OF C(1) _ p(1) f(1-3)] C f(4,5) es(1) p(2) by (simp_all add: s1_def)
  define s2 where "s2 = stun_run (expiries es) s1"
  have s2: "waiting PJ_STUN_MAX_TRANSMIT_COUNT (last (en_now env # map en_now es)) s2"
    "sw_events s2 = [Ev_send pkt] @ replicate 6 (Ev_send pkt)" "st_has_on_complete (sw_tsx s2)"
    using waiting_run [OF _ s1(1), of es] s1 es p(2) by (auto simp: s2_def PJ_STUN_MAX_TRANSMIT_COUNT_def)
  have re: "st_retransmit_timer (sw_tsx s2) = re" using C(5) by (simp add: s2_def s1_def del: stun_exec.simps)
  have "sw' = stun_exec env' Expire_retransmit s2"
    by (simp add: r stun_run_append s1_def s2_def del: stun_exec.simps)
  moreover have "[Ev_send pkt] @ replicate 6 (Ev_send pkt) = replicate 7 (Ev_send pkt)"
    by (simp add: numeral_eq_Suc)
  ultimately show ?thesis using waiting_timeout [OF s2(1,3), of env'] s2(2) re by simp
qed

lemma final_response_completes:
  assumes ok: "tsx_ok sw" and t: "PJ_STUN_IS_SUCCESS_RESPONSE (ucast (mh_type (sm_hdr msg))) \<or> PJ_STUN_IS_ERROR_RESPONSE (ucast (mh_type (sm_hdr msg)))"
    and e: "pj_stun_msg_find_attr msg PJ_STUN_ATTR_ERROR_CODE 0 = err" "\<forall>a. err = Some a \<longrightarrow> 200 < ea_err_code a"
    and r: "pj_stun_client_tsx_on_rx_msg msg sw = (sw', st)"
  shows "st = PJ_SUCCESS \<and> deadline (sw_timers sw') (st_retransmit_timer (sw_tsx sw)) = None \<and>
    pj_stun_client_tsx_is_complete sw' \<and>
    sw_events sw' = (if st_complete (sw_tsx sw) \<or> \<not> st_has_on_complete (sw_tsx sw) then sw_events sw
      else sw_events sw @ [Ev_complete (case err of None \<Rightarrow> PJ_SUCCESS | Some a \<Rightarrow> PJ_STATUS_FROM_STUN_CODE (ea_err_code a))])"
proof -
  let ?s = "stop_timer (st_retransmit_timer (sw_tsx sw)) sw"
  have "due ?s (st_retransmit_timer (sw_tsx sw)) = None" using stop_timer_laws(2) [OF ok] by simp
  then show ?thesis
    using t e r by (auto simp: pj_stun_client_tsx_on_rx_msg_def Let_def finish_def pj_stun_client_tsx_is_complete_def
        split: option.splits if_splits)
qed

text \<open>A success response, or an error response with a code above 200, disarms the
  retransmit timer, completes the transaction and reports the completion with the status of
  the response, unless it was complete before.\<close>

theorem stun_final_response_completes:
  assumes ok: "tsx_ok sw" and t: "PJ_STUN_IS_SUCCESS_RESPONSE (ucast (mh_type (sm_hdr msg))) \<or> PJ_STUN_IS_ERROR_RESPONSE (ucast (mh_type (sm_hdr msg)))"
    and e: "pj_stun_msg_find_attr msg PJ_STUN_ATTR_ERROR_CODE 0 = err" "\<forall>a. err = Some a \<longrightarrow> 200 < ea_err_code a"
    and r: "pj_stun_client_tsx_on_rx_msg msg sw = (sw', st)"
  shows "st = PJ_SUCCESS \<and> deadline (sw_timers sw') (st_retransmit_timer (sw_tsx sw)) = None \<and>
    pj_stun_client_tsx_is_complete sw' \<and>
    sw_events sw' = (if st_complete (sw_tsx sw) \<or> \<not> st_has_on_complete (sw_tsx sw) then sw_events sw
      else sw_events sw @ [Ev_complete (case err of None \<Rightarrow> PJ_SUCCESS | Some a \<Rightarrow> PJ_STATUS_FROM_STUN_CODE (ea_err_code a))])"
  using assms by (rule final_response_completes)

text \<open>An error response with a code of 200 or less stops the retransmissions and the
  timeout for good: the transaction stays incomplete with its timer disarmed, so that without
  a further response or call it never completes.\<close>

theorem stun_provisional_response_stalls:
  assumes w: "waiting k t sw" and m: "PJ_STUN_IS_ERROR_RESPONSE (ucast (mh_type (sm_hdr msg)))"
    and a: "pj_stun_msg_find_attr msg PJ_STUN_ATTR_ERROR_CODE 0 = Some a" "ea_err_code a \<le> 200"
    and r: "pj_stun_client_tsx_on_rx_msg msg sw = (sw', st)"
  shows "st = PJ_SUCCESS \<and> stun_run (expiries es) sw' = sw' \<and> \<not> pj_stun_client_tsx_is_complete sw' \<and>
    sw_events sw' = sw_events sw"
proof -
  let ?re = "st_retransmit_timer (sw_tsx sw)"
  have ok: "tsx_ok sw" using w by (simp add: waiting_def)
  have sw': "sw' = stop_timer ?re sw" "st = PJ_SUCCESS"
    using m a r by (auto simp: pj_stun_client_tsx_on_rx_msg_def Let_def split: if_splits prod.splits)
  have "\<not> running (sw_timers sw') (st_retransmit_timer (sw_tsx sw'))"
    using stop_timer_laws(2) [OF ok, of ?re] by (simp add: sw' flip: deadline_None)
  then have "stun_run (expiries es) sw' = sw'" by (induction es) simp_all
  then show ?thesis using sw' w by (simp add: waiting_def pj_stun_client_tsx_is_complete_def)
qed

section \<open>Witnesses\<close>

definition demo_env :: stun_env where
  "demo_env = \<lparr>en_now = Time_val 5 900, en_mem = (\<lambda>_. True), en_junk = demo_dup, en_send = (\<lambda>_. PJ_SUCCESS)\<rparr>"

definition demo_stun_hdr :: "u16 \<Rightarrow> pj_stun_msg_hdr" where
  "demo_stun_hdr ty = \<lparr>mh_type = ty, mh_length = 0, mh_magic = PJ_STUN_MAGIC, mh_tsx_id = replicate 12 1\<rparr>"

definition demo_tsx :: stun_world where
  "demo_tsx = the (pj_stun_client_tsx_create 100 None True True True 1 2 7 8 9 demo_world)"

lemma demo_env_good: "good_env demo_env" "\<forall>env\<in>set (replicate n demo_env). good_env env"
  by (simp_all add: good_env_def demo_env_def)

lemma demo_create: "pj_stun_client_tsx_create 100 None True True True 1 2 7 8 9 demo_world = Some demo_tsx"
  by (simp add: demo_tsx_def pj_stun_client_tsx_create_def)

lemma demo_tsx_fields:
  "\<not> st_complete (sw_tsx demo_tsx)" "\<not> st_is_destroying (sw_tsx demo_tsx)" "st_transmit_count (sw_tsx demo_tsx) = 0"
  "st_rto_msec (sw_tsx demo_tsx) = 100" "st_has_on_complete (sw_tsx demo_tsx)" "st_has_on_destroy (sw_tsx demo_tsx)"
  by (simp_all add: demo_tsx_def pj_stun_client_tsx_create_def)

lemmas demo_tsx_ok = tsx_create_ok [OF demo_ok demo_cb(2) demo_cb(2) _ _ _ demo_create, simplified]

lemma stun_completes_at_most_once_witness: "completions (stun_run [(demo_env, Stop)] demo_tsx) \<le> 1"
  using stun_completes_at_most_once [OF demo_create] by blast

lemma stun_retransmit_schedule_witness:
  "\<exists>t. deadline (sw_timers (stun_run ((demo_env, Send True [1]) # expiries [demo_env]) demo_tsx)) 1 =
      Some (PJ_TIME_VAL_ADD (Time_val 5 900) t) \<and> PJ_TIME_VAL_MSEC t = 200"
  using stun_retransmit_schedule [OF demo_ok demo_cb(2) demo_cb(2) _ _ _ demo_create, of demo_env "[demo_env]" "[1]"]
    demo_env_good by (auto simp: PJ_STUN_MAX_TRANSMIT_COUNT_def demo_env_def simp del: stun_run.simps)

lemma stun_unanswered_times_out_witness:
  "sw_events (stun_run ((demo_env, Send True [1]) # expiries (replicate 6 demo_env @ [demo_env])) demo_tsx) =
     replicate 7 (Ev_send [1]) @ [Ev_complete PJNATH_ESTUNTIMEDOUT]"
  by (rule conjunct1 [OF stun_unanswered_times_out [OF demo_ok demo_cb(2) demo_cb(2) _ _ _ demo_create _ _ _ _ refl]])
    (simp_all add: demo_env_good)

lemma stun_final_response_completes_witness:
  "sw_events (fst (pj_stun_client_tsx_on_rx_msg \<lparr>sm_hdr = demo_stun_hdr 0x0101, sm_attr = []\<rparr> demo_tsx)) = [Ev_complete PJ_SUCCESS]"
proof -
  let ?m = "\<lparr>sm_hdr = demo_stun_hdr 0x0101, sm_attr = []\<rparr> :: pj_stun_msg"
  obtain sw' st where r: "pj_stun_client_tsx_on_rx_msg ?m demo_tsx = (sw', st)" by fastforce
  have t: "PJ_STUN_IS_SUCCESS_RESPONSE (ucast (mh_type (sm_hdr ?m)))" by (simp add: PJ_STUN_IS_SUCCESS_RESPONSE_def demo_stun_hdr_def)
  have a: "pj_stun_msg_find_attr ?m PJ_STUN_ATTR_ERROR_CODE 0 = None" by (simp add: pj_stun_msg_find_attr_def)
  show ?thesis
    using stun_final_response_completes [OF demo_tsx_ok(1) _ a _ r] t demo_tsx_ok(4) demo_tsx_fields by (simp add: r)
qed

lemma demo_waiting: "waiting 1 (Time_val 5 900) (stun_exec demo_env (Send True [1]) demo_tsx)"
  using send_waiting [OF demo_tsx_ok(1) demo_env_good(1), of "[1]"] demo_tsx_ok demo_tsx_fields
  by (simp add: demo_env_def del: stun_exec.simps)

lemma stun_provisional_response_stalls_witness:
  "\<not> pj_stun_client_tsx_is_complete (stun_run (expiries [demo_env])
     (fst (pj_stun_client_tsx_on_rx_msg \<lparr>sm_hdr = demo_stun_hdr 0x0111, sm_attr = [Errcode_attr 9 4 100 []]\<rparr>
       (stun_exec demo_env (Send True [1]) demo_tsx))))"
proof -
  let ?m = "\<lparr>sm_hdr = demo_stun_hdr 0x0111, sm_attr = [Errcode_attr 9 4 100 []]\<rparr> :: pj_stun_msg"
  obtain sw' st where r: "pj_stun_client_tsx_on_rx_msg ?m (stun_exec demo_env (Send True [1]) demo_tsx) = (sw', st)"
    by fastforce
  have t: "PJ_STUN_IS_ERROR_RESPONSE (ucast (mh_type (sm_hdr ?m)))" by (simp add: PJ_STUN_IS_ERROR_RESPONSE_def demo_stun_hdr_def)
  have a: "pj_stun_msg_find_attr ?m PJ_STUN_ATTR_ERROR_CODE 0 = Some (Errcode_attr 9 4 100 [])"
    by (simp add: pj_stun_msg_find_attr_def PJ_STUN_ATTR_ERROR_CODE_def)
  show ?thesis
    using stun_provisional_response_stalls [OF demo_waiting t a _ r, of "[demo_env]"] r
    by (simp del: stun_run.simps stun_exec.simps)
qed

lemma stun_silent_after_schedule_destroy_witness:
  "\<exists>sw' n. pj_stun_client_tsx_schedule_destroy demo_env (Time_val 1 0) demo_tsx = (sw', PJ_SUCCESS) \<and>
     sw_events (stun_run [(demo_env, Send True [1])] sw') = replicate n Ev_destroy"
proof -
  obtain sw' st where r: "pj_stun_client_tsx_schedule_destroy demo_env (Time_val 1 0) demo_tsx = (sw', st)" by fastforce
  note f = demo_tsx_fields(6,2)
  have "st = PJ_SUCCESS" using schedule_destroy_ok [OF demo_tsx_ok(1) f _ r] demo_env_good by (simp add: good_env_def)
  then show ?thesis
    using stun_silent_after_schedule_destroy [of demo_env "Time_val 1 0" demo_tsx sw' "[(demo_env, Send True [1])]"] r f
      demo_tsx_ok(4) by (auto simp del: stun_run.simps)
qed

end
