(* ===== verification/Sip_Tsx.thy ===== *)
theory Sip_Tsx
  imports Timeval
begin

text \<open>
  The SIP transaction of \<^verbatim>\<open>pjsip/src/pjsip/sip_transaction.c\<close>: the state machines of client
  and server transactions, their timers, retransmissions, and the bookkeeping around
  transmissions that complete later.

  A \<open>sip_world\<close> is one \<^verbatim>\<open>pjsip_transaction\<close> with what it shares with the rest: the owner mark
  (\<^verbatim>\<open>mod_data\<close>) of transmit buffers, whether the transaction layer is loaded, the number of
  transmissions whose \<^verbatim>\<open>transport_callback\<close> is still due, and the log of what the
  transaction user, the transport and the layer see.  A timer entry is a slot with its
  deadline, when it is armed, and its \<^verbatim>\<open>id\<close> field; that the slots behave like entries of the
  timer heap is shown in theory \<^verbatim>\<open>Sip_Tsx_Props\<close>.

  Calls of the transport layer are parameters (\<open>net\<close>): what \<^verbatim>\<open>pjsip_transport_send\<close> returns,
  which callbacks the stateless send makes before it returns, and what it returns.  Callbacks
  to the transaction user are recorded and make no calls back into the transaction before the
  operation ends.  Locks, the reference counts of buffers, transports and group locks,
  addresses, reason phrases, and the deferral of \<^verbatim>\<open>transport_callback\<close> through
  \<^verbatim>\<open>misc_timer\<close> are left out.
\<close>

section \<open>Data\<close>

datatype pjsip_role_e = PJSIP_ROLE_UAC | PJSIP_ROLE_UAS

datatype pjsip_method_e =
    PJSIP_INVITE_METHOD
  | PJSIP_CANCEL_METHOD
  | PJSIP_ACK_METHOD
  | PJSIP_BYE_METHOD
  | PJSIP_REGISTER_METHOD
  | PJSIP_OPTIONS_METHOD
  | PJSIP_OTHER_METHOD

datatype pjsip_tsx_state_e =
    PJSIP_TSX_STATE_NULL
  | PJSIP_TSX_STATE_CALLING
  | PJSIP_TSX_STATE_TRYING
  | PJSIP_TSX_STATE_PROCEEDING
  | PJSIP_TSX_STATE_COMPLETED
  | PJSIP_TSX_STATE_CONFIRMED
  | PJSIP_TSX_STATE_TERMINATED
  | PJSIP_TSX_STATE_DESTROYED

text \<open>The code compares states by their position in the enumeration.\<close>

primrec state_num :: "pjsip_tsx_state_e \<Rightarrow> nat" where
  "state_num PJSIP_TSX_STATE_NULL = 0"
| "state_num PJSIP_TSX_STATE_CALLING = 1"
| "state_num PJSIP_TSX_STATE_TRYING = 2"
| "state_num PJSIP_TSX_STATE_PROCEEDING = 3"
| "state_num PJSIP_TSX_STATE_COMPLETED = 4"
| "state_num PJSIP_TSX_STATE_CONFIRMED = 5"
| "state_num PJSIP_TSX_STATE_TERMINATED = 6"
| "state_num PJSIP_TSX_STATE_DESTROYED = 7"

lemma state_num_inj: "state_num a = state_num b \<longleftrightarrow> a = b"
  by (cases a; cases b) simp_all

instantiation pjsip_tsx_state_e :: linorder
begin

definition less_eq_pjsip_tsx_state_e :: "pjsip_tsx_state_e \<Rightarrow> pjsip_tsx_state_e \<Rightarrow> bool" where
  "less_eq_pjsip_tsx_state_e a b \<longleftrightarrow> state_num a \<le> state_num b"

definition less_pjsip_tsx_state_e :: "pjsip_tsx_state_e \<Rightarrow> pjsip_tsx_state_e \<Rightarrow> bool" where
  "less_pjsip_tsx_state_e a b \<longleftrightarrow> state_num a < state_num b"

instance
  by standard (auto simp: less_eq_pjsip_tsx_state_e_def less_pjsip_tsx_state_e_def state_num_inj)

end

lemmas state_order = less_eq_pjsip_tsx_state_e_def less_pjsip_tsx_state_e_def

text \<open>A message: a request with its method or a response with its status code.\<close>

datatype pjsip_msg = Request pjsip_method_e | Response int

fun is_request :: "pjsip_msg \<Rightarrow> bool" where
  "is_request (Request m) = True"
| "is_request (Response c) = False"

record pjsip_tx_data =
  td_id :: nat
  td_msg :: pjsip_msg
  td_cseq_method :: pjsip_method_e

text \<open>\<open>tp_down\<close> is \<^verbatim>\<open>is_shutdown || is_destroying\<close>.\<close>

record pjsip_transport =
  tp_id :: nat
  tp_reliable :: bool
  tp_down :: bool

datatype tsx_timer = Retransmit_timer | Timeout_timer

datatype pjsip_event =
    Event_timer tsx_timer
  | Event_tx_msg pjsip_tx_data
  | Event_rx_msg pjsip_msg

datatype event_src =
    Src_unknown
  | Src_timer
  | Src_tx_msg
  | Src_rx_msg pjsip_msg
  | Src_transport_error
  | Src_user

datatype tsx_log =
    Tu_rx_response int
  | Tu_state pjsip_tsx_state_e pjsip_tsx_state_e event_src
  | Net_send nat
  | Unregistered
  | Released

record timer_slot =
  tm_due :: "pj_time_val option"
  tm_id :: int

record pjsip_transaction =
  ts_self :: nat
  ts_user :: bool
  ts_terminating :: bool
  ts_role :: pjsip_role_e
  ts_method :: pjsip_method_e
  ts_status_code :: int
  ts_state :: pjsip_tsx_state_e
  ts_handle_200resp :: bool
  ts_transport :: "pjsip_transport option"
  ts_is_reliable :: bool
  f_pending_transport :: bool
  f_pending_resched :: bool
  f_pending_send :: bool
  f_pending_destroy :: bool
  f_resolved_server :: bool
  ts_transport_err :: pj_status
  ts_pending_tx :: "nat option"
  ts_last_tx :: "pjsip_tx_data option"
  ts_retransmit_count :: nat
  ts_retransmit_timer :: timer_slot
  ts_timeout_timer :: timer_slot

record sip_world = pjsip_transaction +
  sx_mod_data :: "nat \<Rightarrow> nat option"
  sx_layer_up :: bool
  sx_tp_sends :: nat
  sx_log :: "tsx_log list"

section \<open>Constants and configuration\<close>

definition SIP_TIMER_INACTIVE :: int where "SIP_TIMER_INACTIVE = 0"
definition RETRANSMIT_TIMER :: int where "RETRANSMIT_TIMER = 1"
definition TIMEOUT_TIMER :: int where "TIMEOUT_TIMER = 2"
definition TRANSPORT_ERR_TIMER :: int where "TRANSPORT_ERR_TIMER = 3"
definition TRANSPORT_DISC_TIMER :: int where "TRANSPORT_DISC_TIMER = 4"
definition TERMINATE_TIMER :: int where "TERMINATE_TIMER = 5"

definition PJSIP_SC_BAD_GATEWAY :: int where "PJSIP_SC_BAD_GATEWAY = 502"
definition PJSIP_SC_TSX_TIMEOUT :: int where "PJSIP_SC_TSX_TIMEOUT = 408"
definition PJSIP_SC_TSX_TRANSPORT_ERROR :: int where "PJSIP_SC_TSX_TRANSPORT_ERROR = 503"
definition PJSIP_SC_CALL_TSX_DOES_NOT_EXIST :: int where "PJSIP_SC_CALL_TSX_DOES_NOT_EXIST = 481"
definition PJSIP_TSX_1XX_RETRANS_DELAY :: nat where "PJSIP_TSX_1XX_RETRANS_DELAY = 60"

definition PJ_ECANCELLED :: pj_status where "PJ_ECANCELLED = PJ_EOTHER 70014"
definition PJ_ERESOLVE :: pj_status where "PJ_ERESOLVE = PJ_EOTHER 70018"
definition PJ_EIGNORED :: pj_status where "PJ_EIGNORED = PJ_EOTHER 70020"
definition PJLIB_UTIL_EDNS_NXDOMAIN :: pj_status where "PJLIB_UTIL_EDNS_NXDOMAIN = PJ_EOTHER 320053"
definition PJSIP_ENOTREQUESTMSG :: pj_status where "PJSIP_ENOTREQUESTMSG = PJ_EOTHER 171021"
definition PJSIP_ENOTRESPONSEMSG :: pj_status where "PJSIP_ENOTRESPONSEMSG = PJ_EOTHER 171022"
definition PJSIP_EINVALIDMETHOD :: pj_status where "PJSIP_EINVALIDMETHOD = PJ_EOTHER 171055"

definition PJSIP_IS_STATUS_IN_CLASS :: "int \<Rightarrow> int \<Rightarrow> bool" where
  "PJSIP_IS_STATUS_IN_CLASS status_code code_class \<longleftrightarrow> c_div status_code 100 = c_div code_class 100"

text \<open>The timer settings: \<^verbatim>\<open>pjsip_cfg()->tsx\<close> and the static values derived from it.\<close>

record tsx_cfg =
  cf_t1 :: nat
  cf_t2 :: nat
  cf_t4 :: nat
  cf_td :: nat
  t1_timer_val :: pj_time_val
  t2_timer_val :: pj_time_val
  t4_timer_val :: pj_time_val
  td_timer_val :: pj_time_val
  timeout_timer_val :: pj_time_val
  max_retrans_count :: int

definition msec_val :: "nat \<Rightarrow> pj_time_val" where
  "msec_val t = Time_val (int (t div 1000)) (int (t mod 1000))"

definition pjsip_tsx_set_timers :: "nat \<Rightarrow> nat \<Rightarrow> nat \<Rightarrow> nat \<Rightarrow> tsx_cfg \<Rightarrow> tsx_cfg" where
  "pjsip_tsx_set_timers t1 t2 t4 td c =
     (let c = (if t1 \<noteq> 0 then c\<lparr>t1_timer_val := msec_val t1, cf_t1 := t1\<rparr> else c);
          c = (if t2 \<noteq> 0 then c\<lparr>t2_timer_val := msec_val t2, cf_t2 := t2\<rparr> else c);
          c = (if t4 \<noteq> 0 then c\<lparr>t4_timer_val := msec_val t4, cf_t4 := t4\<rparr> else c) in
      if td \<noteq> 0 then c\<lparr>td_timer_val := msec_val td, timeout_timer_val := msec_val td, cf_td := td\<rparr> else c)"

definition pjsip_tsx_initialize_timer_values :: "tsx_cfg \<Rightarrow> tsx_cfg" where
  "pjsip_tsx_initialize_timer_values c =
     c\<lparr>t1_timer_val := msec_val (cf_t1 c), t2_timer_val := msec_val (cf_t2 c),
       t4_timer_val := msec_val (cf_t4 c), td_timer_val := msec_val (cf_td c),
       timeout_timer_val := msec_val (cf_td c)\<rparr>"

definition pjsip_tsx_set_max_retransmit_count :: "int \<Rightarrow> tsx_cfg \<Rightarrow> tsx_cfg" where
  "pjsip_tsx_set_max_retransmit_count mx c = c\<lparr>max_retrans_count := mx\<rparr>"

text \<open>
  What the transport layer does with one transmission.  \<open>net_busy\<close>: the buffer is still
  marked pending.  \<open>net_tp\<close>: the result of \<^verbatim>\<open>pjsip_transport_send\<close>.  \<open>net_cbs\<close>: the calls of
  \<^verbatim>\<open>send_msg_callback\<close> the stateless send makes before it returns, each with the transmission
  that this callback itself may start; \<open>net_ret\<close>: its result.
\<close>

datatype net = Net (net_busy: bool) (net_tp: pj_status) (net_cbs: "cb list") (net_ret: pj_status)
and cb = Cb_sent pjsip_transport net | Cb_failed pj_status "pjsip_transport option" bool

record sip_env =
  ev_now :: pj_time_val
  ev_cfg :: tsx_cfg
  ev_net :: net
  ev_ack :: "pj_status + pjsip_tx_data"

section \<open>Timers, status and transport\<close>

definition slot_schedule :: "pj_time_val \<Rightarrow> pj_time_val \<Rightarrow> int \<Rightarrow> timer_slot \<Rightarrow> timer_slot \<times> pj_status" where
  "slot_schedule now delay idv s =
     (if tm_due s \<noteq> None then (s, PJ_EINVALIDOP)
      else (\<lparr>tm_due = Some (PJ_TIME_VAL_ADD now delay), tm_id = idv\<rparr>, PJ_SUCCESS))"

definition slot_cancel :: "timer_slot \<Rightarrow> timer_slot" where
  "slot_cancel s = (if tm_due s \<noteq> None then \<lparr>tm_due = None, tm_id = SIP_TIMER_INACTIVE\<rparr> else s)"

primrec on_timer :: "tsx_timer \<Rightarrow> (timer_slot \<Rightarrow> timer_slot) \<Rightarrow> sip_world \<Rightarrow> sip_world" where
  "on_timer Retransmit_timer f w = w\<lparr>ts_retransmit_timer := f (ts_retransmit_timer w)\<rparr>"
| "on_timer Timeout_timer f w = w\<lparr>ts_timeout_timer := f (ts_timeout_timer w)\<rparr>"

definition tsx_schedule_timer :: "sip_env \<Rightarrow> tsx_timer \<Rightarrow> pj_time_val \<Rightarrow> int \<Rightarrow> sip_world \<Rightarrow> sip_world" where
  "tsx_schedule_timer env e delay active_id w =
     on_timer e (\<lambda>s. fst (slot_schedule (ev_now env) delay active_id s)) w"

definition tsx_cancel_timer :: "tsx_timer \<Rightarrow> sip_world \<Rightarrow> sip_world" where
  "tsx_cancel_timer e w = on_timer e slot_cancel w"

definition log_tsx :: "tsx_log \<Rightarrow> sip_world \<Rightarrow> sip_world" where
  "log_tsx ev w = w\<lparr>sx_log := sx_log w @ [ev]\<rparr>"

definition tsx_set_status_code :: "int \<Rightarrow> sip_world \<Rightarrow> sip_world" where
  "tsx_set_status_code code w = w\<lparr>ts_status_code := code\<rparr>"

text \<open>\<^verbatim>\<open>tsx_tp_state_callback\<close> for \<^verbatim>\<open>PJSIP_TP_STATE_DISCONNECTED\<close>, the one state it handles.\<close>

definition tsx_tp_state_callback :: "sip_env \<Rightarrow> pj_status \<Rightarrow> sip_world \<Rightarrow> sip_world" where
  "tsx_tp_state_callback env status w =
     (let w = w\<lparr>f_pending_transport := False, ts_transport_err := status\<rparr> in
      if ts_state w < PJSIP_TSX_STATE_COMPLETED
      then tsx_schedule_timer env Timeout_timer (Time_val 0 0) TRANSPORT_DISC_TIMER
             (tsx_cancel_timer Timeout_timer w)
      else w)"

definition tsx_update_transport :: "sip_env \<Rightarrow> pjsip_transport option \<Rightarrow> sip_world \<Rightarrow> sip_world" where
  "tsx_update_transport env tp w =
     (let w = w\<lparr>ts_transport := None\<rparr> in
      case tp of
        None \<Rightarrow> w
      | Some t \<Rightarrow>
          let w = w\<lparr>ts_transport := Some t\<rparr> in
          if tp_down t then tsx_tp_state_callback env (PJ_EOTHER PJSIP_SC_TSX_TRANSPORT_ERROR) w else w)"

definition tsx_shutdown :: "sip_env \<Rightarrow> sip_world \<Rightarrow> sip_world" where
  "tsx_shutdown env w =
     (let w = tsx_update_transport env None w;
          w = w\<lparr>ts_last_tx := None\<rparr>;
          w = tsx_cancel_timer Timeout_timer w;
          w = tsx_cancel_timer Retransmit_timer w;
          w = w\<lparr>f_pending_resched := False, f_pending_send := False\<rparr>;
          w = (if f_pending_transport w then w\<lparr>f_pending_destroy := True, ts_user := False\<rparr> else w) in
      if \<not> ts_terminating w then log_tsx Released (w\<lparr>ts_terminating := True\<rparr>) else w)"

definition mod_tsx_layer_unregister_tsx :: "sip_world \<Rightarrow> sip_world" where
  "mod_tsx_layer_unregister_tsx w = (if sx_layer_up w then log_tsx Unregistered w else w)"

text \<open>The state change with its notifications, and what entering a final state does.\<close>

definition notify_state :: "pjsip_tsx_state_e \<Rightarrow> event_src \<Rightarrow> bool \<Rightarrow> sip_world \<Rightarrow> sip_world" where
  "notify_state st src no_notify w =
     (let prev_state = ts_state w;
          w = w\<lparr>ts_state := st\<rparr>;
          w = (case src of
                 Src_rx_msg (Response code) \<Rightarrow>
                   if ts_user w \<and> \<not> no_notify then log_tsx (Tu_rx_response code) w else w
               | _ \<Rightarrow> w) in
      if ts_user w \<and> \<not> no_notify then log_tsx (Tu_state prev_state st src) w else w)"

definition enter_terminated :: "sip_env \<Rightarrow> bool \<Rightarrow> sip_world \<Rightarrow> sip_world" where
  "enter_terminated env no_schedule w =
     (let w = (if f_pending_transport w then
                 (let w = (case ts_pending_tx w of
                             Some t \<Rightarrow> w\<lparr>sx_mod_data := (sx_mod_data w)(t := None), ts_pending_tx := None\<rparr>
                           | None \<Rightarrow> w) in
                  w\<lparr>f_pending_transport := False\<rparr>)
               else w);
          w = tsx_cancel_timer Timeout_timer w in
      if \<not> no_schedule then tsx_schedule_timer env Timeout_timer (Time_val 0 0) TIMEOUT_TIMER w else w)"

definition tsx_set_state ::
    "sip_env \<Rightarrow> pjsip_tsx_state_e \<Rightarrow> event_src \<Rightarrow> bool \<Rightarrow> bool \<Rightarrow> sip_world \<Rightarrow> sip_world" where
  "tsx_set_state env st src no_notify no_schedule w =
     (let w = notify_state st src no_notify w in
      if st = PJSIP_TSX_STATE_TERMINATED then enter_terminated env no_schedule w
      else if st = PJSIP_TSX_STATE_DESTROYED then tsx_shutdown env (mod_tsx_layer_unregister_tsx w)
      else w)"

section \<open>Transmission\<close>

definition tsx_resched_retransmission :: "sip_env \<Rightarrow> sip_world \<Rightarrow> sip_world" where
  "tsx_resched_retransmission env w =
     (let t1 = cf_t1 (ev_cfg env); t2 = cf_t2 (ev_cfg env);
          msec_time = (if ts_role w = PJSIP_ROLE_UAC \<and> ts_status_code w \<ge> 100 then t2
                       else u32 (2 ^ ts_retransmit_count w * int t1));
          msec_time =
            (if ts_role w = PJSIP_ROLE_UAC then
               (if msec_time > t2 \<and> ts_method w \<noteq> PJSIP_INVITE_METHOD then t2 else msec_time)
             else if ts_status_code w < 200 then PJSIP_TSX_1XX_RETRANS_DELAY * 1000
             else if msec_time > t2 then t2 else msec_time) in
      if msec_time \<noteq> 0
      then tsx_schedule_timer env Retransmit_timer (msec_val msec_time) RETRANSMIT_TIMER w
      else w)"

text \<open>The part of \<^verbatim>\<open>send_msg_callback\<close> and \<^verbatim>\<open>transport_callback_impl\<close> after the pending send.\<close>

definition resched_if_pending :: "sip_env \<Rightarrow> sip_world \<Rightarrow> sip_world" where
  "resched_if_pending env w =
     (if f_pending_resched w \<and> \<not> f_pending_transport w then
        (let w = w\<lparr>f_pending_resched := False\<rparr> in
         if \<not> ts_is_reliable w then tsx_resched_retransmission env w else w)
      else w)"

text \<open>\<^verbatim>\<open>send_msg_callback\<close> when the message could not be sent: the last attempt has failed, or the
  next address is to be tried.\<close>

definition give_up :: "sip_env \<Rightarrow> pj_status \<Rightarrow> bool \<Rightarrow> sip_world \<Rightarrow> sip_world" where
  "give_up env status ours w =
     (let w = w\<lparr>ts_transport_err := status, f_pending_transport := False\<rparr>;
          w = (if ours then w\<lparr>f_resolved_server := True\<rparr> else w);
          sc = (if status = PJ_ERESOLVE \<or> status = PJLIB_UTIL_EDNS_NXDOMAIN \<or> status = PJ_ECANCELLED
                then PJSIP_SC_BAD_GATEWAY else PJSIP_SC_TSX_TRANSPORT_ERROR) in
      if (ts_role w = PJSIP_ROLE_UAC \<or> sc = PJSIP_SC_BAD_GATEWAY) \<and>
         ts_state w \<noteq> PJSIP_TSX_STATE_TERMINATED \<and> ts_state w \<noteq> PJSIP_TSX_STATE_DESTROYED then
        tsx_set_state env PJSIP_TSX_STATE_TERMINATED Src_transport_error False False (tsx_set_status_code sc w)
      else if f_pending_destroy w then
        tsx_set_state env PJSIP_TSX_STATE_DESTROYED Src_transport_error False False (tsx_set_status_code sc w)
      else if ts_role w = PJSIP_ROLE_UAS \<and> f_pending_resched w \<and>
              ts_state w \<noteq> PJSIP_TSX_STATE_TERMINATED \<and> ts_state w \<noteq> PJSIP_TSX_STATE_DESTROYED then
        tsx_resched_retransmission env (w\<lparr>f_pending_resched := False\<rparr>)
      else w)"

definition try_next_address :: "sip_env \<Rightarrow> nat \<Rightarrow> sip_world \<Rightarrow> sip_world" where
  "try_next_address env td w =
     (let w = w\<lparr>ts_retransmit_count := 0\<rparr>;
          w = (if tm_id (ts_timeout_timer w) \<noteq> 0
               then tsx_schedule_timer env Timeout_timer (timeout_timer_val (ev_cfg env)) TIMEOUT_TIMER
                      (tsx_cancel_timer Timeout_timer w)
               else w) in
      w\<lparr>sx_mod_data := (sx_mod_data w)(td \<mapsto> ts_self w), ts_pending_tx := Some td\<rparr>)"

definition send_failed :: "sip_env \<Rightarrow> pj_status \<Rightarrow> pjsip_transport option \<Rightarrow> bool \<Rightarrow> bool \<Rightarrow> nat \<Rightarrow> sip_world \<Rightarrow> sip_world" where
  "send_failed env status cur_transport cont ours td w =
     (let w = (if cur_transport = ts_transport w then tsx_update_transport env None w else w) in
      if \<not> cont \<or> f_pending_destroy w \<or> status = PJ_ECANCELLED then give_up env status ours w
      else try_next_address env td w)"

text \<open>\<^verbatim>\<open>send_msg_callback\<close> when the message has been sent, up to the pending send.\<close>

definition adopt_transport :: "sip_env \<Rightarrow> pjsip_transport \<Rightarrow> bool \<Rightarrow> sip_world \<Rightarrow> sip_world" where
  "adopt_transport env cur_transport ours w =
     (let w = (if ours \<and> ts_transport w \<noteq> Some cur_transport
               then (tsx_update_transport env (Some cur_transport) w)\<lparr>ts_is_reliable := tp_reliable cur_transport\<rparr>
               else w);
          w = w\<lparr>f_pending_transport := False\<rparr> in
      if ours then w\<lparr>f_resolved_server := True\<rparr> else w)"

text \<open>The attempt of \<^verbatim>\<open>tsx_send_msg\<close> over the transport it has: the result, if this ends the call,
  and otherwise the status so far.\<close>

definition send_over_transport :: "sip_env \<Rightarrow> pj_status \<Rightarrow> nat \<Rightarrow> sip_world \<Rightarrow> sip_world \<times> pj_status \<times> bool" where
  "send_over_transport env tp_status td w =
     (case ts_transport w of
        None \<Rightarrow> (w, PJ_SUCCESS, False)
      | Some _ \<Rightarrow>
          let w = log_tsx (Net_send td) w in
          if tp_status = PJ_EPENDING then (w\<lparr>f_pending_transport := True, sx_tp_sends := Suc (sx_tp_sends w)\<rparr>, PJ_SUCCESS, True)
          else if tp_status = PJ_SUCCESS then (w\<lparr>f_pending_transport := False\<rparr>, PJ_SUCCESS, True)
          else (tsx_update_transport env None (w\<lparr>f_pending_transport := False\<rparr>), tp_status, False))"

fun tsx_send_msg :: "sip_env \<Rightarrow> net \<Rightarrow> pjsip_tx_data option \<Rightarrow> sip_world \<Rightarrow> sip_world \<times> pj_status"
and send_msg_callback :: "sip_env \<Rightarrow> cb \<Rightarrow> nat \<Rightarrow> sip_world \<Rightarrow> sip_world \<times> bool"
and run_callbacks :: "sip_env \<Rightarrow> cb list \<Rightarrow> nat \<Rightarrow> sip_world \<Rightarrow> sip_world" where
  "tsx_send_msg env (Net busy tp_status cbs ret) None w = (w, PJ_EINVAL)"
| "tsx_send_msg env (Net busy tp_status cbs ret) (Some td) w =
     (if f_pending_transport w then (w\<lparr>f_pending_send := True\<rparr>, PJ_SUCCESS)
      else if busy then (w, PJ_SUCCESS)
      else
        (let (w, status, fin) = send_over_transport env tp_status (td_id td) w in
         if fin then (w, status)
         else if ts_role w = PJSIP_ROLE_UAC \<and> f_resolved_server w then
           (tsx_set_state env PJSIP_TSX_STATE_TERMINATED Src_transport_error False False
              (tsx_set_status_code PJSIP_SC_TSX_TRANSPORT_ERROR w),
            if status = PJ_SUCCESS then PJ_EUNKNOWN else status)
         else
           (let w = w\<lparr>sx_mod_data := (sx_mod_data w)(td_id td \<mapsto> ts_self w), ts_pending_tx := Some (td_id td),
                       f_pending_transport := True\<rparr>;
                w = run_callbacks env cbs (td_id td) (log_tsx (Net_send (td_id td)) w);
                status = (if ret = PJ_EPENDING then PJ_SUCCESS else ret);
                w = (if status \<noteq> PJ_SUCCESS then
                       (let w = (case td_msg td of Request _ \<Rightarrow> tsx_set_status_code PJSIP_SC_TSX_TRANSPORT_ERROR w
                                 | Response _ \<Rightarrow> w) in
                        w\<lparr>f_pending_transport := False, sx_mod_data := (sx_mod_data w)(td_id td := None),
                          ts_pending_tx := None\<rparr>)
                     else w) in
            (w, if status = PJ_SUCCESS \<and> ts_state w = PJSIP_TSX_STATE_TERMINATED then ts_transport_err w else status))))"
| "send_msg_callback env (Cb_sent cur_transport nt) td w =
     (if \<not> sx_layer_up w \<or> sx_mod_data w td = None then (w, False)
      else
        (let ours = (sx_mod_data w td = Some (ts_self w));
             w = (if ours then w\<lparr>sx_mod_data := (sx_mod_data w)(td := None)\<rparr> else w);
             w = w\<lparr>ts_pending_tx := None\<rparr>;
             w = adopt_transport env cur_transport ours w in
         if f_pending_destroy w then
           (tsx_set_state env PJSIP_TSX_STATE_DESTROYED Src_unknown False False w, False)
         else
           (let w = (if f_pending_send w then fst (tsx_send_msg env nt (ts_last_tx w) (w\<lparr>f_pending_send := False\<rparr>))
                     else w) in
            (resched_if_pending env w, False))))"
| "send_msg_callback env (Cb_failed status cur_transport cont) td w =
     (if \<not> sx_layer_up w \<or> sx_mod_data w td = None then (w, False)
      else
        (let ours = (sx_mod_data w td = Some (ts_self w));
             w = (if ours then w\<lparr>sx_mod_data := (sx_mod_data w)(td := None)\<rparr> else w);
             cont = (ours \<and> cont);
             w = w\<lparr>ts_pending_tx := None\<rparr> in
         (send_failed env status cur_transport cont ours td w, cont)))"
| "run_callbacks env [] td w = w"
| "run_callbacks env (c # cs) td w =
     (let (w, cont) = send_msg_callback env c td w in if cont then run_callbacks env cs td w else w)"

text \<open>
  \<^verbatim>\<open>transport_callback_impl\<close>: \<open>sent\<close> is \<open>None\<close> when the bytes went out and otherwise the error.
\<close>

definition transport_callback_impl :: "sip_env \<Rightarrow> pj_status option \<Rightarrow> sip_world \<Rightarrow> sip_world" where
  "transport_callback_impl env sent w =
     (let w = w\<lparr>f_pending_transport := False, sx_tp_sends := sx_tp_sends w - 1\<rparr> in
      if (sent = None \<or> ts_role w = PJSIP_ROLE_UAS) \<and> f_pending_destroy w then
        tsx_set_state env PJSIP_TSX_STATE_DESTROYED Src_unknown False False w
      else
        (let w = (if sent = None \<or> ts_role w = PJSIP_ROLE_UAS then
                    resched_if_pending env
                      (if f_pending_send w
                       then fst (tsx_send_msg env (ev_net env) (ts_last_tx w) (w\<lparr>f_pending_send := False\<rparr>))
                       else w)
                  else w) in
         case sent of
           Some status \<Rightarrow>
             if ts_role w = PJSIP_ROLE_UAC then
               (let w = w\<lparr>ts_transport_err := status\<rparr> in
                if ts_state w < PJSIP_TSX_STATE_COMPLETED
                then tsx_schedule_timer env Timeout_timer (Time_val 0 0) TRANSPORT_ERR_TIMER
                       (tsx_cancel_timer Timeout_timer w)
                else w)
             else w
         | None \<Rightarrow> w))"

definition pjsip_tsx_retransmit_no_state :: "sip_env \<Rightarrow> pjsip_tx_data option \<Rightarrow> sip_world \<Rightarrow> sip_world \<times> pj_status" where
  "pjsip_tsx_retransmit_no_state env tdata w =
     tsx_send_msg env (ev_net env) (case tdata of None \<Rightarrow> ts_last_tx w | Some t \<Rightarrow> Some t) w"

definition tsx_retransmit :: "sip_env \<Rightarrow> bool \<Rightarrow> sip_world \<Rightarrow> sip_world \<times> pj_status" where
  "tsx_retransmit env resched w =
     (if resched \<and> tm_due (ts_retransmit_timer w) \<noteq> None then (w, PJ_SUCCESS)
      else
        (case ts_last_tx w of
           None \<Rightarrow> (w, PJ_EBUG)
         | Some tdata \<Rightarrow>
             let mx = max_retrans_count (ev_cfg env) in
             if mx \<ge> 0 \<and> int (ts_retransmit_count w) \<ge> mx \<and> is_request (td_msg tdata) then
               (tsx_schedule_timer env Timeout_timer (Time_val 0 0) TIMEOUT_TIMER (tsx_cancel_timer Timeout_timer w),
                PJ_SUCCESS)
             else
               (let w = w\<lparr>ts_retransmit_count := Suc (ts_retransmit_count w)\<rparr>;
                    w = (if resched then
                           (if f_pending_transport w then w\<lparr>f_pending_resched := True\<rparr>
                            else tsx_resched_retransmission env w)
                         else w);
                    (w, status) = tsx_send_msg env (ev_net env) (ts_last_tx w) w in
                if status \<noteq> PJ_SUCCESS then (w, status)
                else if resched \<and> f_pending_transport w then
                  ((tsx_cancel_timer Retransmit_timer w)\<lparr>f_pending_resched := True\<rparr>, PJ_SUCCESS)
                else (w, PJ_SUCCESS))))"

section \<open>State handlers\<close>

abbreviation restart_timeout :: "sip_env \<Rightarrow> pj_time_val \<Rightarrow> sip_world \<Rightarrow> sip_world" where
  "restart_timeout env t w \<equiv> tsx_schedule_timer env Timeout_timer t TIMEOUT_TIMER (tsx_cancel_timer Timeout_timer w)"

text \<open>Start the retransmission timer, or leave a note when the transport is pending.\<close>

definition start_retransmit :: "sip_env \<Rightarrow> pj_time_val \<Rightarrow> sip_world \<Rightarrow> sip_world" where
  "start_retransmit env t w =
     (let w = w\<lparr>ts_retransmit_count := 0\<rparr> in
      if f_pending_transport w then w\<lparr>f_pending_resched := True\<rparr>
      else tsx_schedule_timer env Retransmit_timer t RETRANSMIT_TIMER w)"

definition tsx_on_state_null :: "sip_env \<Rightarrow> pjsip_event \<Rightarrow> sip_world \<Rightarrow> sip_world \<times> pj_status" where
  "tsx_on_state_null env event w =
     (if ts_role w = PJSIP_ROLE_UAS then
        (tsx_set_state env PJSIP_TSX_STATE_TRYING
           (case event of Event_rx_msg m \<Rightarrow> Src_rx_msg m | _ \<Rightarrow> Src_unknown) False False w, PJ_SUCCESS)
      else
        (case event of
           Event_tx_msg tdata \<Rightarrow>
             let w = w\<lparr>ts_last_tx := Some tdata\<rparr>;
                 (w, status) = tsx_send_msg env (ev_net env) (Some tdata) w in
             if status \<noteq> PJ_SUCCESS then (w, status)
             else
               (let w = restart_timeout env (timeout_timer_val (ev_cfg env)) w;
                    w = (if \<not> ts_is_reliable w then start_retransmit env (t1_timer_val (ev_cfg env)) w else w) in
                (tsx_set_state env PJSIP_TSX_STATE_CALLING Src_tx_msg False False w, PJ_SUCCESS))
         | _ \<Rightarrow> (w, PJ_EBUG)))"

text \<open>The last message of a response buffer becomes the one to retransmit.\<close>

abbreviation save_last_tx :: "pjsip_tx_data \<Rightarrow> sip_world \<Rightarrow> sip_world" where
  "save_last_tx tdata w \<equiv> w\<lparr>ts_last_tx := Some tdata\<rparr>"

text \<open>The three branches of \<^verbatim>\<open>tsx_on_state_proceeding_uas\<close> after a response has been sent.\<close>

definition uas_sent_1xx :: "sip_env \<Rightarrow> pjsip_tx_data \<Rightarrow> sip_world \<Rightarrow> sip_world" where
  "uas_sent_1xx env tdata w =
     (let w = save_last_tx tdata w;
          w = tsx_set_state env PJSIP_TSX_STATE_PROCEEDING Src_tx_msg False False w in
      if PJSIP_TSX_1XX_RETRANS_DELAY > 0 \<and> ts_method w = PJSIP_INVITE_METHOD \<and> ts_status_code w > 100
      then start_retransmit env (Time_val (int PJSIP_TSX_1XX_RETRANS_DELAY) 0) (tsx_cancel_timer Retransmit_timer w)
      else w)"

definition uas_sent_2xx :: "sip_env \<Rightarrow> pjsip_tx_data \<Rightarrow> sip_world \<Rightarrow> sip_world" where
  "uas_sent_2xx env tdata w =
     (let w = tsx_cancel_timer Retransmit_timer w in
      if ts_method w = PJSIP_INVITE_METHOD \<and> \<not> ts_handle_200resp w then
        tsx_set_state env PJSIP_TSX_STATE_TERMINATED Src_tx_msg False False w
      else
        (let w = (if ts_method w = PJSIP_INVITE_METHOD then start_retransmit env (t1_timer_val (ev_cfg env)) w else w);
             w = save_last_tx tdata w;
             timeout = (if ts_method w = PJSIP_INVITE_METHOD then timeout_timer_val (ev_cfg env)
                        else if \<not> ts_is_reliable w then timeout_timer_val (ev_cfg env)
                        else Time_val 0 0);
             w = restart_timeout env timeout w in
         tsx_set_state env PJSIP_TSX_STATE_COMPLETED Src_tx_msg False False w))"

definition uas_sent_final :: "sip_env \<Rightarrow> pjsip_tx_data \<Rightarrow> sip_world \<Rightarrow> sip_world" where
  "uas_sent_final env tdata w =
     (let w = tsx_cancel_timer Retransmit_timer w;
          w = save_last_tx tdata w;
          timeout = (if ts_method w = PJSIP_INVITE_METHOD then timeout_timer_val (ev_cfg env)
                     else if \<not> ts_is_reliable w then timeout_timer_val (ev_cfg env)
                     else Time_val 0 0);
          w = restart_timeout env timeout w;
          w = (if \<not> ts_is_reliable w \<and> td_cseq_method tdata = PJSIP_INVITE_METHOD
               then start_retransmit env (t1_timer_val (ev_cfg env)) w else w) in
      tsx_set_state env PJSIP_TSX_STATE_COMPLETED Src_tx_msg False False w)"

definition tsx_on_state_proceeding_uas :: "sip_env \<Rightarrow> pjsip_event \<Rightarrow> sip_world \<Rightarrow> sip_world \<times> pj_status" where
  "tsx_on_state_proceeding_uas env event w =
     (case event of
        Event_rx_msg _ \<Rightarrow>
          if ts_last_tx w = None then (w, PJ_EBUG)
          else if f_pending_transport w then (w\<lparr>f_pending_send := True\<rparr>, PJ_SUCCESS)
          else tsx_send_msg env (ev_net env) (ts_last_tx w) w
      | Event_tx_msg tdata \<Rightarrow>
          (case td_msg tdata of
             Request _ \<Rightarrow> (w, PJSIP_ENOTRESPONSEMSG)
           | Response code \<Rightarrow>
               let w = tsx_set_status_code code w;
                   w = (if ts_last_tx w \<noteq> None \<and> ts_last_tx w \<noteq> Some tdata then w\<lparr>ts_last_tx := None\<rparr> else w);
                   (w, status) = tsx_send_msg env (ev_net env) (Some tdata) w in
               if status \<noteq> PJ_SUCCESS then (w, status)
               else if PJSIP_IS_STATUS_IN_CLASS (ts_status_code w) 100 then (uas_sent_1xx env tdata w, PJ_SUCCESS)
               else if PJSIP_IS_STATUS_IN_CLASS (ts_status_code w) 200 then (uas_sent_2xx env tdata w, PJ_SUCCESS)
               else if ts_status_code w \<ge> 300 then (uas_sent_final env tdata w, PJ_SUCCESS)
               else (w, PJ_SUCCESS))
      | Event_timer Retransmit_timer \<Rightarrow> tsx_retransmit env True w
      | Event_timer Timeout_timer \<Rightarrow>
          (tsx_set_state env PJSIP_TSX_STATE_TERMINATED Src_timer False False
             (tsx_set_status_code PJSIP_SC_TSX_TIMEOUT w), PJ_EBUG))"

definition tsx_on_state_trying :: "sip_env \<Rightarrow> pjsip_event \<Rightarrow> sip_world \<Rightarrow> sip_world \<times> pj_status" where
  "tsx_on_state_trying env event w =
     (case event of
        Event_tx_msg _ \<Rightarrow>
          let (w, status) = tsx_on_state_proceeding_uas env event w in
          if status = PJ_SUCCESS \<and> ts_state w = PJSIP_TSX_STATE_TRYING
          then (tsx_set_state env PJSIP_TSX_STATE_PROCEEDING Src_tx_msg False False w, status)
          else (w, status)
      | _ \<Rightarrow> (w, PJ_SUCCESS))"

text \<open>The delay of timer D or K.\<close>

definition completed_delay :: "sip_env \<Rightarrow> sip_world \<Rightarrow> pj_time_val" where
  "completed_delay env w =
     (if \<not> ts_is_reliable w then
        (if ts_method w = PJSIP_INVITE_METHOD then td_timer_val (ev_cfg env) else t4_timer_val (ev_cfg env))
      else Time_val 0 0)"

text \<open>A final response of class 3 to 6 at the client.\<close>

definition uac_rx_failure :: "sip_env \<Rightarrow> pjsip_msg \<Rightarrow> sip_world \<Rightarrow> sip_world \<times> pj_status" where
  "uac_rx_failure env msg w =
     (let w = tsx_cancel_timer Retransmit_timer w;
          w = tsx_cancel_timer Timeout_timer w;
          complete = (\<lambda>last w.
            let w = tsx_set_state env PJSIP_TSX_STATE_COMPLETED (Src_rx_msg msg) False False w;
                w = (case last of Some ack \<Rightarrow> w\<lparr>ts_last_tx := Some ack\<rparr> | None \<Rightarrow> w) in
            (restart_timeout env (completed_delay env w) w, PJ_SUCCESS)) in
      if ts_method w = PJSIP_INVITE_METHOD then
        (case ev_ack env of
           Inl status \<Rightarrow> (w, status)
         | Inr ack \<Rightarrow>
             let (w, status) = tsx_send_msg env (ev_net env) (Some ack) w in
             if status \<noteq> PJ_SUCCESS then (w, status) else complete (Some ack) w)
      else if ts_method w = PJSIP_BYE_METHOD \<and>
              (ts_status_code w = 408 \<or> ts_status_code w = PJSIP_SC_CALL_TSX_DOES_NOT_EXIST) then
        (tsx_set_state env PJSIP_TSX_STATE_TERMINATED (Src_rx_msg msg) False False w, PJ_SUCCESS)
      else complete None w)"

definition uac_rx_2xx :: "sip_env \<Rightarrow> event_src \<Rightarrow> sip_world \<Rightarrow> sip_world" where
  "uac_rx_2xx env src w =
     (let w = tsx_cancel_timer Timeout_timer w in
      if ts_method w = PJSIP_INVITE_METHOD then tsx_set_state env PJSIP_TSX_STATE_TERMINATED src False False w
      else
        (let w = tsx_schedule_timer env Timeout_timer (completed_delay env w) TIMEOUT_TIMER w;
             w = tsx_cancel_timer Retransmit_timer w in
         tsx_set_state env PJSIP_TSX_STATE_COMPLETED src False False w))"

definition tsx_on_state_proceeding_uac :: "sip_env \<Rightarrow> pjsip_event \<Rightarrow> sip_world \<Rightarrow> sip_world \<times> pj_status" where
  "tsx_on_state_proceeding_uac env event w =
     (case event of
        Event_tx_msg _ \<Rightarrow> (w, PJ_EINVALIDOP)
      | Event_rx_msg (Request _) \<Rightarrow> (w, PJSIP_ENOTRESPONSEMSG)
      | Event_rx_msg (Response code) \<Rightarrow>
          let w = tsx_set_status_code code w; src = Src_rx_msg (Response code) in
          if PJSIP_IS_STATUS_IN_CLASS (ts_status_code w) 100
          then (tsx_set_state env PJSIP_TSX_STATE_PROCEEDING src False False w, PJ_SUCCESS)
          else if PJSIP_IS_STATUS_IN_CLASS (ts_status_code w) 200 then (uac_rx_2xx env src w, PJ_SUCCESS)
          else if ts_status_code w \<ge> 300 \<and> ts_status_code w \<le> 699 then uac_rx_failure env (Response code) w
          else (w, PJ_EBUG)
      | Event_timer Retransmit_timer \<Rightarrow> tsx_retransmit env True w
      | Event_timer Timeout_timer \<Rightarrow>
          (tsx_set_state env PJSIP_TSX_STATE_TERMINATED Src_timer False False
             (tsx_set_status_code PJSIP_SC_TSX_TIMEOUT w), PJ_SUCCESS))"

definition tsx_on_state_calling :: "sip_env \<Rightarrow> pjsip_event \<Rightarrow> sip_world \<Rightarrow> sip_world \<times> pj_status" where
  "tsx_on_state_calling env event w =
     (case event of
        Event_timer Retransmit_timer \<Rightarrow> tsx_retransmit env True w
      | Event_timer Timeout_timer \<Rightarrow>
          (let w = tsx_cancel_timer Retransmit_timer w;
               w = w\<lparr>f_pending_resched := False\<rparr>;
               w = tsx_set_status_code PJSIP_SC_TSX_TIMEOUT w in
           (tsx_set_state env PJSIP_TSX_STATE_TERMINATED Src_timer False False w, PJ_SUCCESS))
      | Event_rx_msg (Request _) \<Rightarrow> (w, PJSIP_ENOTRESPONSEMSG)
      | Event_rx_msg (Response code) \<Rightarrow>
          (let w = tsx_cancel_timer Retransmit_timer w;
               w = (if code \<ge> 200 then
                      (if tm_id (ts_timeout_timer w) \<noteq> 0 then tsx_cancel_timer Timeout_timer w else w)
                    else if ts_method w = PJSIP_INVITE_METHOD then tsx_cancel_timer Timeout_timer w
                    else if \<not> ts_is_reliable w
                    then tsx_schedule_timer env Retransmit_timer (t2_timer_val (ev_cfg env)) RETRANSMIT_TIMER w
                    else w);
               w = w\<lparr>f_pending_resched := False\<rparr> in
           (fst (tsx_on_state_proceeding_uac env event w), PJ_SUCCESS))
      | Event_tx_msg _ \<Rightarrow> (w, PJ_EBUG))"

definition tsx_on_state_completed_uas :: "sip_env \<Rightarrow> pjsip_event \<Rightarrow> sip_world \<Rightarrow> sip_world \<times> pj_status" where
  "tsx_on_state_completed_uas env event w =
     (case event of
        Event_rx_msg (Response _) \<Rightarrow> (w, PJSIP_ENOTREQUESTMSG)
      | Event_rx_msg (Request m) \<Rightarrow>
          if m \<noteq> PJSIP_ACK_METHOD then tsx_retransmit env False w
          else if ts_method w \<noteq> PJSIP_INVITE_METHOD then (w, PJSIP_EINVALIDMETHOD)
          else
            (let w = tsx_cancel_timer Retransmit_timer w;
                 w = w\<lparr>f_pending_resched := False\<rparr>;
                 timeout = (if c_div (ts_status_code w) 100 = 2 then td_timer_val (ev_cfg env)
                            else if ts_is_reliable w then Time_val 0 0 else t4_timer_val (ev_cfg env));
                 w = restart_timeout env timeout w in
             (tsx_set_state env PJSIP_TSX_STATE_CONFIRMED (Src_rx_msg (Request m)) False False w, PJ_SUCCESS))
      | Event_timer Retransmit_timer \<Rightarrow> tsx_retransmit env True w
      | Event_timer Timeout_timer \<Rightarrow>
          (let w = (if ts_method w = PJSIP_INVITE_METHOD then tsx_set_status_code PJSIP_SC_TSX_TIMEOUT w else w) in
           (tsx_set_state env PJSIP_TSX_STATE_TERMINATED Src_timer False False w, PJ_SUCCESS))
      | Event_tx_msg tdata \<Rightarrow> (w, if ts_last_tx w \<noteq> Some tdata then PJ_EINVALIDOP else PJ_SUCCESS))"

definition tsx_on_state_completed_uac :: "sip_env \<Rightarrow> pjsip_event \<Rightarrow> sip_world \<Rightarrow> sip_world \<times> pj_status" where
  "tsx_on_state_completed_uac env event w =
     (case event of
        Event_timer Retransmit_timer \<Rightarrow> (w, PJ_SUCCESS)
      | Event_timer Timeout_timer \<Rightarrow>
          (tsx_set_state env PJSIP_TSX_STATE_TERMINATED Src_timer False False w, PJ_SUCCESS)
      | Event_rx_msg msg \<Rightarrow>
          if ts_method w = PJSIP_INVITE_METHOD then
            (case msg of
               Response code \<Rightarrow> if code \<ge> 200 then tsx_retransmit env False w else (w, PJ_SUCCESS)
             | Request _ \<Rightarrow> (w, PJ_SUCCESS))
          else (w, PJ_SUCCESS)
      | Event_tx_msg _ \<Rightarrow> (w, PJ_EINVALIDOP))"

definition tsx_on_state_confirmed :: "sip_env \<Rightarrow> pjsip_event \<Rightarrow> sip_world \<Rightarrow> sip_world \<times> pj_status" where
  "tsx_on_state_confirmed env event w =
     (case event of
        Event_rx_msg msg \<Rightarrow> (w, if is_request msg then PJ_SUCCESS else PJSIP_ENOTREQUESTMSG)
      | Event_timer Retransmit_timer \<Rightarrow> (w, PJ_SUCCESS)
      | Event_timer Timeout_timer \<Rightarrow>
          (tsx_set_state env PJSIP_TSX_STATE_TERMINATED Src_timer False False w, PJ_SUCCESS)
      | Event_tx_msg _ \<Rightarrow> (w, PJ_EBUG))"

definition tsx_on_state_terminated :: "sip_env \<Rightarrow> pjsip_event \<Rightarrow> sip_world \<Rightarrow> sip_world \<times> pj_status" where
  "tsx_on_state_terminated env event w =
     (case event of
        Event_timer _ \<Rightarrow> (tsx_set_state env PJSIP_TSX_STATE_DESTROYED Src_timer False False w, PJ_SUCCESS)
      | _ \<Rightarrow> (w, PJ_EIGNORED))"

definition tsx_on_state_destroyed :: "sip_env \<Rightarrow> pjsip_event \<Rightarrow> sip_world \<Rightarrow> sip_world \<times> pj_status" where
  "tsx_on_state_destroyed env event w = (w, PJ_EIGNORED)"

text \<open>The handler tables; \<open>None\<close> is their \<^verbatim>\<open>NULL\<close> entry.\<close>

fun tsx_state_handler ::
    "pjsip_role_e \<Rightarrow> pjsip_tsx_state_e \<Rightarrow> (sip_env \<Rightarrow> pjsip_event \<Rightarrow> sip_world \<Rightarrow> sip_world \<times> pj_status) option" where
  "tsx_state_handler r PJSIP_TSX_STATE_NULL = Some tsx_on_state_null"
| "tsx_state_handler r PJSIP_TSX_STATE_CALLING =
     (if r = PJSIP_ROLE_UAC then Some tsx_on_state_calling else None)"
| "tsx_state_handler r PJSIP_TSX_STATE_TRYING =
     (if r = PJSIP_ROLE_UAC then None else Some tsx_on_state_trying)"
| "tsx_state_handler r PJSIP_TSX_STATE_PROCEEDING =
     (if r = PJSIP_ROLE_UAC then Some tsx_on_state_proceeding_uac else Some tsx_on_state_proceeding_uas)"
| "tsx_state_handler r PJSIP_TSX_STATE_COMPLETED =
     (if r = PJSIP_ROLE_UAC then Some tsx_on_state_completed_uac else Some tsx_on_state_completed_uas)"
| "tsx_state_handler r PJSIP_TSX_STATE_CONFIRMED = Some tsx_on_state_confirmed"
| "tsx_state_handler r PJSIP_TSX_STATE_TERMINATED = Some tsx_on_state_terminated"
| "tsx_state_handler r PJSIP_TSX_STATE_DESTROYED = Some tsx_on_state_destroyed"

text \<open>Dispatch of an event to the handler of the current state; \<open>None\<close> is a call through \<^verbatim>\<open>NULL\<close>.\<close>

definition tsx_dispatch :: "sip_env \<Rightarrow> pjsip_event \<Rightarrow> sip_world \<Rightarrow> (sip_world \<times> pj_status) option" where
  "tsx_dispatch env event w =
     (case tsx_state_handler (ts_role w) (ts_state w) of None \<Rightarrow> None | Some h \<Rightarrow> Some (h env event w))"

section \<open>Operations\<close>

definition pjsip_tsx_send_msg ::
    "sip_env \<Rightarrow> pjsip_tx_data option \<Rightarrow> sip_world \<Rightarrow> (sip_world \<times> pj_status) option" where
  "pjsip_tsx_send_msg env tdata w =
     (case (case tdata of None \<Rightarrow> ts_last_tx w | Some t \<Rightarrow> Some t) of
        None \<Rightarrow> Some (w, PJ_EINVALIDOP)
      | Some t \<Rightarrow> tsx_dispatch env (Event_tx_msg t) w)"

definition pjsip_tsx_recv_msg :: "sip_env \<Rightarrow> pjsip_msg \<Rightarrow> sip_world \<Rightarrow> (sip_world \<times> pj_status) option" where
  "pjsip_tsx_recv_msg env msg w = tsx_dispatch env (Event_rx_msg msg) w"

definition pjsip_tsx_terminate :: "sip_env \<Rightarrow> int \<Rightarrow> sip_world \<Rightarrow> sip_world \<times> pj_status" where
  "pjsip_tsx_terminate env code w =
     (if \<not> code \<ge> 200 then (w, PJ_EINVAL)
      else if ts_state w < PJSIP_TSX_STATE_TERMINATED then
        (tsx_set_state env PJSIP_TSX_STATE_TERMINATED Src_user False False (tsx_set_status_code code w), PJ_SUCCESS)
      else (w, PJ_SUCCESS))"

definition pjsip_tsx_terminate_async2 :: "sip_env \<Rightarrow> int \<Rightarrow> nat \<Rightarrow> sip_world \<Rightarrow> sip_world \<times> pj_status" where
  "pjsip_tsx_terminate_async2 env code millisec w =
     (if \<not> code \<ge> 200 then (w, PJ_EINVAL)
      else
        (let w = (if ts_status_code w < 200 then tsx_set_status_code code w else w);
             delay = pj_time_val_normalize (Time_val 0 (int millisec)) in
         (tsx_schedule_timer env Timeout_timer delay TERMINATE_TIMER (tsx_cancel_timer Timeout_timer w), PJ_SUCCESS)))"

definition pjsip_tsx_terminate_async :: "sip_env \<Rightarrow> int \<Rightarrow> sip_world \<Rightarrow> sip_world \<times> pj_status" where
  "pjsip_tsx_terminate_async env code w = pjsip_tsx_terminate_async2 env code 100 w"

definition pjsip_tsx_stop_retransmit :: "sip_world \<Rightarrow> sip_world \<times> pj_status" where
  "pjsip_tsx_stop_retransmit w =
     (if ts_method w \<noteq> PJSIP_INVITE_METHOD then (w, PJ_EINVALIDOP)
      else (tsx_cancel_timer Retransmit_timer w, PJ_SUCCESS))"

definition pjsip_tsx_set_timeout :: "sip_env \<Rightarrow> nat \<Rightarrow> sip_world \<Rightarrow> sip_world \<times> pj_status" where
  "pjsip_tsx_set_timeout env millisec w =
     (if \<not> (ts_role w = PJSIP_ROLE_UAC \<and> ts_method w = PJSIP_INVITE_METHOD) then (w, PJ_EINVALIDOP)
      else if ts_status_code w \<ge> 200 \<and> tm_id (ts_timeout_timer w) \<noteq> 0 then (w, PJ_EEXISTS)
      else (restart_timeout env (pj_time_val_normalize (Time_val 0 (int millisec))) w, PJ_SUCCESS))"

text \<open>The callback of both timers, called by the timer heap once it has removed the entry.\<close>

definition timer_transport_error :: "sip_env \<Rightarrow> bool \<Rightarrow> sip_world \<Rightarrow> sip_world" where
  "timer_transport_error env tp_disc w =
     (let prev_state = ts_state w;
          w = tsx_update_transport env None w in
      if tp_disc \<and> ts_method w = PJSIP_INVITE_METHOD \<and> ts_role w = PJSIP_ROLE_UAS \<and> ts_status_code w < 200 \<and>
         \<not> f_pending_transport w \<and> \<not> f_pending_destroy w then
        w\<lparr>f_pending_transport := False, f_pending_resched := False, f_pending_send := False,
          f_pending_destroy := False, f_resolved_server := False\<rparr>
      else
        (let w = (if ts_status_code w < 200 then tsx_set_status_code PJSIP_SC_TSX_TRANSPORT_ERROR w else w);
             w = tsx_set_state env PJSIP_TSX_STATE_TERMINATED Src_transport_error True True w;
             w = (if ts_user w then log_tsx (Tu_state prev_state PJSIP_TSX_STATE_TERMINATED Src_transport_error) w else w) in
         tsx_schedule_timer env Timeout_timer (Time_val 0 0) TIMEOUT_TIMER w))"

definition entry_id :: "tsx_timer \<Rightarrow> sip_world \<Rightarrow> int" where
  "entry_id e w = (case e of Retransmit_timer \<Rightarrow> tm_id (ts_retransmit_timer w) | Timeout_timer \<Rightarrow> tm_id (ts_timeout_timer w))"

definition tsx_timer_callback :: "sip_env \<Rightarrow> tsx_timer \<Rightarrow> sip_world \<Rightarrow> sip_world option" where
  "tsx_timer_callback env e w =
     (if ts_state w \<ge> PJSIP_TSX_STATE_DESTROYED then Some w
      else if entry_id e w = TERMINATE_TIMER then
        Some (if ts_state w < PJSIP_TSX_STATE_TERMINATED then fst (pjsip_tsx_terminate env (ts_status_code w) w) else w)
      else if entry_id e w = TRANSPORT_ERR_TIMER \<or> entry_id e w = TRANSPORT_DISC_TIMER then
        (let tp_disc = (entry_id e w = TRANSPORT_DISC_TIMER);
             w = on_timer e (\<lambda>s. s\<lparr>tm_id := 0\<rparr>) w in
         Some (if ts_state w < PJSIP_TSX_STATE_TERMINATED then timer_transport_error env tp_disc w else w))
      else map_option fst (tsx_dispatch env (Event_timer e) (on_timer e (\<lambda>s. s\<lparr>tm_id := 0\<rparr>) w)))"

text \<open>The timer heap removes an armed entry and calls it back.\<close>

definition timer_armed :: "tsx_timer \<Rightarrow> sip_world \<Rightarrow> bool" where
  "timer_armed e w \<longleftrightarrow>
     tm_due (case e of Retransmit_timer \<Rightarrow> ts_retransmit_timer w | Timeout_timer \<Rightarrow> ts_timeout_timer w) \<noteq> None"

definition fire :: "sip_env \<Rightarrow> tsx_timer \<Rightarrow> sip_world \<Rightarrow> sip_world option" where
  "fire env e w = tsx_timer_callback env e (on_timer e (\<lambda>s. s\<lparr>tm_due := None\<rparr>) w)"

text \<open>The transaction as \<^verbatim>\<open>tsx_create\<close> leaves it, and the part of the creation functions that
  concerns the state machine.\<close>

definition tsx_create :: "nat \<Rightarrow> bool \<Rightarrow> (nat \<Rightarrow> nat option) \<Rightarrow> sip_world" where
  "tsx_create self user mod_data =
     \<lparr>ts_self = self, ts_user = user, ts_terminating = False, ts_role = PJSIP_ROLE_UAC,
      ts_method = PJSIP_INVITE_METHOD, ts_status_code = 0, ts_state = PJSIP_TSX_STATE_NULL,
      ts_handle_200resp = True, ts_transport = None, ts_is_reliable = False, f_pending_transport = False,
      f_pending_resched = False, f_pending_send = False, f_pending_destroy = False, f_resolved_server = False,
      ts_transport_err = PJ_SUCCESS, ts_pending_tx = None, ts_last_tx = None, ts_retransmit_count = 0,
      ts_retransmit_timer = \<lparr>tm_due = None, tm_id = SIP_TIMER_INACTIVE\<rparr>,
      ts_timeout_timer = \<lparr>tm_due = None, tm_id = SIP_TIMER_INACTIVE\<rparr>,
      sx_mod_data = mod_data, sx_layer_up = True, sx_tp_sends = 0, sx_log = []\<rparr>"

definition tsx_init_uac :: "pjsip_method_e \<Rightarrow> pjsip_tx_data \<Rightarrow> bool \<Rightarrow> sip_world \<Rightarrow> sip_world" where
  "tsx_init_uac meth tdata dst_reliable w =
     w\<lparr>ts_role := PJSIP_ROLE_UAC, ts_method := meth, ts_state := PJSIP_TSX_STATE_NULL,
       ts_last_tx := Some tdata, ts_is_reliable := dst_reliable\<rparr>"

definition tsx_init_uas :: "sip_env \<Rightarrow> pjsip_method_e \<Rightarrow> pjsip_transport option \<Rightarrow> bool \<Rightarrow> sip_world \<Rightarrow> sip_world" where
  "tsx_init_uas env meth res_transport dst_reliable w =
     (let w = w\<lparr>ts_role := PJSIP_ROLE_UAS, ts_method := meth, ts_state := PJSIP_TSX_STATE_NULL\<rparr> in
      case res_transport of
        Some t \<Rightarrow> (tsx_update_transport env (Some t) w)\<lparr>ts_is_reliable := tp_reliable t\<rparr>
      | None \<Rightarrow> w\<lparr>ts_is_reliable := dst_reliable\<rparr>)"

end
