(* ===== verification/Hash.thy ===== *)
theory Hash
  imports Pj_Prelude
begin

text \<open>
  The hash table of \<^verbatim>\<open>pjlib/src/pj/hash.c\<close> in its default build: chains of entries in
  \<open>2 ^ n\<close> rows, a keyed hash (SipHash-2-4) to choose the row, and look-ups that are exact or
  ignore the case of letters.

  A chain is the list of its entries, and a link that \<^verbatim>\<open>find_entry\<close> returns is the row and the
  position in its chain.  A key is the bytes \<^verbatim>\<open>keylen\<close> covers; the entry holds a copy of them
  (\<^verbatim>\<open>pj_hash_set_np\<close> keeps the caller's pointer instead, so there the caller must not change the
  bytes).  A value is never \<^verbatim>\<open>NULL\<close> in an entry; the argument \<open>None\<close> is \<^verbatim>\<open>NULL\<close>.  The result
  \<open>None\<close> of an operation stands for the dereference of the \<^verbatim>\<open>NULL\<close> that \<^verbatim>\<open>find_entry\<close> returns when it
  has neither a pool nor an entry buffer.
\<close>

type_synonym u64 = "64 word"

section \<open>SipHash\<close>

definition pj_tolower :: "u8 \<Rightarrow> u8" where
  "pj_tolower c = (if 65 \<le> c \<and> c \<le> 90 then c + 32 else c)"

definition SIP_U64 :: "u32 \<Rightarrow> u32 \<Rightarrow> u64" where
  "SIP_U64 hi lo = push_bit 32 (ucast hi) OR ucast lo"

definition SIP_ROTL :: "u64 \<Rightarrow> nat \<Rightarrow> u64" where
  "SIP_ROTL x b = push_bit b x OR drop_bit (64 - b) x"

fun SIP_ROUND :: "u64 \<times> u64 \<times> u64 \<times> u64 \<Rightarrow> u64 \<times> u64 \<times> u64 \<times> u64" where
  "SIP_ROUND (v0, v1, v2, v3) =
     (let v0 = v0 + v1; v1 = SIP_ROTL v1 13; v1 = v1 XOR v0; v0 = SIP_ROTL v0 32;
          v2 = v2 + v3; v3 = SIP_ROTL v3 16; v3 = v3 XOR v2;
          v0 = v0 + v3; v3 = SIP_ROTL v3 21; v3 = v3 XOR v0;
          v2 = v2 + v1; v1 = SIP_ROTL v1 17; v1 = v1 XOR v2; v2 = SIP_ROTL v2 32 in
      (v0, v1, v2, v3))"

definition sip_byte :: "bool \<Rightarrow> u8 \<Rightarrow> u8" where
  "sip_byte lower c = (if lower then pj_tolower c else c)"

text \<open>The loop that collects up to eight bytes into a word, on top of what the word holds.\<close>

fun sip_word :: "bool \<Rightarrow> nat \<Rightarrow> u8 list \<Rightarrow> u64 \<Rightarrow> u64" where
  "sip_word lower i [] m = m"
| "sip_word lower i (c # cs) m = sip_word lower (Suc i) cs (m OR push_bit (8 * i) (ucast (sip_byte lower c)))"

definition sip_absorb :: "u64 \<Rightarrow> u64 \<times> u64 \<times> u64 \<times> u64 \<Rightarrow> u64 \<times> u64 \<times> u64 \<times> u64" where
  "sip_absorb m v =
     (let (v0, v1, v2, v3) = v;
          (v0, v1, v2, v3) = SIP_ROUND (SIP_ROUND (v0, v1, v2, v3 XOR m)) in
      (v0 XOR m, v1, v2, v3))"

text \<open>The loop over the whole blocks; the rest of the input comes back with the state.\<close>

fun sip_blocks :: "bool \<Rightarrow> nat \<Rightarrow> u8 list \<Rightarrow> u64 \<times> u64 \<times> u64 \<times> u64 \<Rightarrow> (u64 \<times> u64 \<times> u64 \<times> u64) \<times> u8 list" where
  "sip_blocks lower 0 cs v = (v, cs)"
| "sip_blocks lower (Suc n) cs v = sip_blocks lower n (drop 8 cs) (sip_absorb (sip_word lower 0 (take 8 cs) 0) v)"

definition siphash24 :: "u64 \<Rightarrow> u64 \<Rightarrow> u8 list \<Rightarrow> bool \<Rightarrow> u64" where
  "siphash24 k0 k1 data lower =
     (let v = (SIP_U64 0x736f6d65 0x70736575 XOR k0, SIP_U64 0x646f7261 0x6e646f6d XOR k1,
               SIP_U64 0x6c796765 0x6e657261 XOR k0, SIP_U64 0x74656462 0x79746573 XOR k1);
          (v, rest) = sip_blocks lower (length data div 8) data v;
          b = sip_word lower 0 rest (push_bit 56 (of_nat (length data)));
          (v0, v1, v2, v3) = sip_absorb b v;
          (v0, v1, v2, v3) = SIP_ROUND (SIP_ROUND (SIP_ROUND (SIP_ROUND (v0, v1, v2 XOR 0xff, v3)))) in
      v0 XOR v1 XOR v2 XOR v3)"

text \<open>The key of the process: \<^verbatim>\<open>sip_k0\<close>, \<^verbatim>\<open>sip_k1\<close> and \<^verbatim>\<open>sip_key_ready\<close>.\<close>

record sip_key =
  sip_k0 :: u64
  sip_k1 :: u64
  sip_key_ready :: bool

fun mix_entropy :: "u8 list \<times> nat \<Rightarrow> u8 list \<Rightarrow> u8 list \<times> nat" where
  "mix_entropy (k, idx) [] = (k, idx)"
| "mix_entropy (k, idx) (c # cs) =
     (let j = idx mod 16 in mix_entropy (k[j := k ! j * 33 + c], idx + 1) cs)"

text \<open>The sources of entropy are the byte strings \<^verbatim>\<open>pj_hash_init_key\<close> reads, in its order.\<close>

definition be_word :: "u8 list \<Rightarrow> nat \<Rightarrow> u32" where
  "be_word k i = push_bit 24 (ucast (k ! i)) OR push_bit 16 (ucast (k ! (i + 1))) OR
     push_bit 8 (ucast (k ! (i + 2))) OR ucast (k ! (i + 3))"

definition pj_hash_init_key :: "u8 list list \<Rightarrow> sip_key \<Rightarrow> sip_key" where
  "pj_hash_init_key sources s =
     (if sip_key_ready s then s
      else
        (let (k, idx) = foldl mix_entropy (replicate 16 0, 0) sources in
         \<lparr>sip_k0 = SIP_U64 (be_word k 0) (be_word k 4), sip_k1 = SIP_U64 (be_word k 8) (be_word k 12),
          sip_key_ready = True\<rparr>))"

definition calc_table_hash :: "sip_key \<Rightarrow> u8 list \<Rightarrow> bool \<Rightarrow> u32" where
  "calc_table_hash s key lower =
     (let b = siphash24 (sip_k0 s) (sip_k1 s) key lower in ucast b XOR ucast (drop_bit 32 b))"

section \<open>The unkeyed hash\<close>

definition PJ_HASH_MULTIPLIER :: u32 where "PJ_HASH_MULTIPLIER = 33"

text \<open>The bytes of a key: \<^verbatim>\<open>keylen\<close> of them, or up to the first zero for \<^verbatim>\<open>PJ_HASH_KEY_STRING\<close> (\<open>None\<close>).\<close>

definition key_bytes :: "u8 list \<Rightarrow> nat option \<Rightarrow> u8 list" where
  "key_bytes key keylen = (case keylen of None \<Rightarrow> takeWhile (\<lambda>c. c \<noteq> 0) key | Some n \<Rightarrow> take n key)"

definition pj_hash_calc :: "u32 \<Rightarrow> u8 list \<Rightarrow> nat option \<Rightarrow> u32" where
  "pj_hash_calc hash key keylen = foldl (\<lambda>h c. h * PJ_HASH_MULTIPLIER + ucast c) hash (key_bytes key keylen)"

definition pj_hash_calc_tolower :: "u32 \<Rightarrow> u8 list \<Rightarrow> u8 list \<times> u32" where
  "pj_hash_calc_tolower hval key =
     foldl (\<lambda>(result, h) c. (result @ [pj_tolower c], h * PJ_HASH_MULTIPLIER + ucast (pj_tolower c))) ([], hval) key"

section \<open>The table\<close>

record 'v pj_hash_entry =
  he_key :: "u8 list"
  he_hash :: u32
  he_value :: 'v

record 'v pj_hash_table =
  ht_table :: "'v pj_hash_entry list list"
  ht_count :: nat
  ht_rows :: nat

text \<open>The loop that chooses the number of rows; \<^verbatim>\<open>table_size\<close> is \<open>2 ^ k\<close>.\<close>

function grow_table_size :: "nat \<Rightarrow> nat \<Rightarrow> nat" where
  "grow_table_size sz k =
     (let table_size = 2 * 2 ^ k in
      if table_size < sz \<and> table_size \<le> 2147483647 then grow_table_size sz (Suc k) else table_size)"
  by auto
termination
proof (relation "measure (\<lambda>(_, k). 31 - k)")
  fix sz k t :: nat
  assume t: "t = 2 * 2 ^ k" "t < sz \<and> t \<le> 2147483647"
  have "k < 31"
  proof (rule ccontr)
    assume "\<not> k < 31"
    then have "(2::nat) ^ 31 \<le> 2 ^ k" by (intro power_increasing) simp_all
    then show False using t by simp
  qed
  then show "((sz, Suc k), sz, k) \<in> measure (\<lambda>(_, k). 31 - k)" by simp
qed simp

declare grow_table_size.simps [simp del]

definition pj_hash_create :: "nat \<Rightarrow> 'v pj_hash_table" where
  "pj_hash_create sz =
     (let table_size = grow_table_size sz 3 - 1 in
      \<lparr>ht_table = replicate (table_size + 1) [], ht_count = 0, ht_rows = table_size\<rparr>)"

text \<open>Whether \<^verbatim>\<open>pj_ansi_strnicmp\<close> finds two strings equal within \<open>n\<close> bytes: it stops at a zero.\<close>

fun strnicmp_eq :: "u8 list \<Rightarrow> u8 list \<Rightarrow> nat \<Rightarrow> bool" where
  "strnicmp_eq as bs 0 = True"
| "strnicmp_eq (a # as) (b # bs) (Suc n) = (pj_tolower a = pj_tolower b \<and> (a = 0 \<or> strnicmp_eq as bs n))"
| "strnicmp_eq _ _ (Suc n) = False"

text \<open>Whether \<^verbatim>\<open>pj_stricmp\<close> returns 0.\<close>

definition stricmp_eq :: "u8 list \<Rightarrow> u8 list \<Rightarrow> bool" where
  "stricmp_eq a b \<longleftrightarrow> length a = length b \<and> strnicmp_eq a b (length a)"

definition entry_matches :: "bool \<Rightarrow> u32 \<Rightarrow> u8 list \<Rightarrow> 'v pj_hash_entry \<Rightarrow> bool" where
  "entry_matches lower hash key e \<longleftrightarrow> he_hash e = hash \<and> length (he_key e) = length key \<and>
     (lower \<and> strnicmp_eq (he_key e) key (length key) \<or> \<not> lower \<and> he_key e = key)"

text \<open>The scan of a chain: the position of the entry, or of the link at the end.\<close>

fun scan :: "('v pj_hash_entry \<Rightarrow> bool) \<Rightarrow> 'v pj_hash_entry list \<Rightarrow> nat" where
  "scan P [] = 0"
| "scan P (e # es) = (if P e then 0 else Suc (scan P es))"

text \<open>The value \<^verbatim>\<open>find_entry\<close> leaves in \<^verbatim>\<open>*hval\<close>.\<close>

definition report_hval :: "u8 list \<Rightarrow> bool \<Rightarrow> u32 option \<Rightarrow> u32 option" where
  "report_hval key lower hval =
     (case hval of
        Some h \<Rightarrow> Some (if h = 0 then (if lower then snd (pj_hash_calc_tolower 0 key)
                                        else pj_hash_calc 0 key (Some (length key))) else h)
      | None \<Rightarrow> None)"

definition bucket :: "'v pj_hash_table \<Rightarrow> u32 \<Rightarrow> nat" where
  "bucket ht hash = unat (hash AND of_nat (ht_rows ht))"

definition find_entry ::
    "sip_key \<Rightarrow> bool \<Rightarrow> 'v pj_hash_table \<Rightarrow> u8 list \<Rightarrow> nat option \<Rightarrow> 'v option \<Rightarrow> u32 option \<Rightarrow> bool \<Rightarrow> bool \<Rightarrow>
       ('v pj_hash_table \<times> nat \<times> nat \<times> u32 option) option" where
  "find_entry s pool ht key keylen val hval entry_buf lower =
     (let key = key_bytes key keylen;
          hash = calc_table_hash s key lower;
          hval = report_hval key lower hval;
          row = bucket ht hash;
          chain = ht_table ht ! row;
          pos = scan (entry_matches lower hash key) chain in
      case val of
        None \<Rightarrow> Some (ht, row, pos, hval)
      | Some v \<Rightarrow>
          if pos < length chain then Some (ht, row, pos, hval)
          else if \<not> entry_buf \<and> \<not> pool then None
          else
            (let entry = \<lparr>he_key = key, he_hash = hash, he_value = v\<rparr> in
             Some (ht\<lparr>ht_table := (ht_table ht)[row := chain @ [entry]], ht_count := ht_count ht + 1\<rparr>, row, pos, hval)))"

definition hash_get :: "sip_key \<Rightarrow> 'v pj_hash_table \<Rightarrow> u8 list \<Rightarrow> nat option \<Rightarrow> u32 option \<Rightarrow> bool \<Rightarrow> ('v option \<times> u32 option) option" where
  "hash_get s ht key keylen hval lower =
     (case find_entry s False ht key keylen None hval False lower of
        None \<Rightarrow> None
      | Some (ht, row, pos, hval) \<Rightarrow>
          let chain = ht_table ht ! row in
          Some (if pos < length chain then Some (he_value (chain ! pos)) else None, hval))"

definition pj_hash_get :: "sip_key \<Rightarrow> 'v pj_hash_table \<Rightarrow> u8 list \<Rightarrow> nat option \<Rightarrow> u32 option \<Rightarrow> ('v option \<times> u32 option) option" where
  "pj_hash_get s ht key keylen hval = hash_get s ht key keylen hval False"

definition pj_hash_get_lower :: "sip_key \<Rightarrow> 'v pj_hash_table \<Rightarrow> u8 list \<Rightarrow> nat option \<Rightarrow> u32 option \<Rightarrow> ('v option \<times> u32 option) option" where
  "pj_hash_get_lower s ht key keylen hval = hash_get s ht key keylen hval True"

definition hash_set ::
    "sip_key \<Rightarrow> bool \<Rightarrow> 'v pj_hash_table \<Rightarrow> u8 list \<Rightarrow> nat option \<Rightarrow> u32 \<Rightarrow> 'v option \<Rightarrow> bool \<Rightarrow> bool \<Rightarrow> 'v pj_hash_table option" where
  "hash_set s pool ht key keylen hval val entry_buf lower =
     (case find_entry s pool ht key keylen val (Some hval) entry_buf lower of
        None \<Rightarrow> None
      | Some (ht, row, pos, _) \<Rightarrow>
          let chain = ht_table ht ! row in
          Some (if pos < length chain then
                  (case val of
                     None \<Rightarrow> ht\<lparr>ht_table := (ht_table ht)[row := take pos chain @ drop (Suc pos) chain],
                               ht_count := ht_count ht - 1\<rparr>
                   | Some v \<Rightarrow> ht\<lparr>ht_table := (ht_table ht)[row := chain[pos := (chain ! pos)\<lparr>he_value := v\<rparr>]]\<rparr>)
                else ht))"

definition pj_hash_set :: "sip_key \<Rightarrow> bool \<Rightarrow> 'v pj_hash_table \<Rightarrow> u8 list \<Rightarrow> nat option \<Rightarrow> u32 \<Rightarrow> 'v option \<Rightarrow> 'v pj_hash_table option" where
  "pj_hash_set s pool ht key keylen hval val = hash_set s pool ht key keylen hval val False False"

definition pj_hash_set_lower :: "sip_key \<Rightarrow> bool \<Rightarrow> 'v pj_hash_table \<Rightarrow> u8 list \<Rightarrow> nat option \<Rightarrow> u32 \<Rightarrow> 'v option \<Rightarrow> 'v pj_hash_table option" where
  "pj_hash_set_lower s pool ht key keylen hval val = hash_set s pool ht key keylen hval val False True"

definition pj_hash_set_np :: "sip_key \<Rightarrow> 'v pj_hash_table \<Rightarrow> u8 list \<Rightarrow> nat option \<Rightarrow> u32 \<Rightarrow> 'v option \<Rightarrow> 'v pj_hash_table option" where
  "pj_hash_set_np s ht key keylen hval val = hash_set s False ht key keylen hval val True False"

definition pj_hash_set_np_lower :: "sip_key \<Rightarrow> 'v pj_hash_table \<Rightarrow> u8 list \<Rightarrow> nat option \<Rightarrow> u32 \<Rightarrow> 'v option \<Rightarrow> 'v pj_hash_table option" where
  "pj_hash_set_np_lower s ht key keylen hval val = hash_set s False ht key keylen hval val True True"

definition pj_hash_count :: "'v pj_hash_table \<Rightarrow> nat" where
  "pj_hash_count ht = ht_count ht"

text \<open>An iterator: the row and the part of its chain that starts with the current entry.\<close>

record 'v pj_hash_iterator =
  hi_index :: nat
  hi_entry :: "'v pj_hash_entry list"

text \<open>The scan for the next row that is not empty; \<open>rows\<close> are the rows from \<^verbatim>\<open>index\<close> on.\<close>

fun next_row :: "nat \<Rightarrow> 'v pj_hash_entry list list \<Rightarrow> 'v pj_hash_iterator option" where
  "next_row index [] = None"
| "next_row index (chain # rows) =
     (if chain \<noteq> [] then Some \<lparr>hi_index = index, hi_entry = chain\<rparr> else next_row (Suc index) rows)"

definition pj_hash_first :: "'v pj_hash_table \<Rightarrow> 'v pj_hash_iterator option" where
  "pj_hash_first ht = next_row 0 (take (ht_rows ht + 1) (ht_table ht))"

definition pj_hash_next :: "'v pj_hash_table \<Rightarrow> 'v pj_hash_iterator \<Rightarrow> 'v pj_hash_iterator option" where
  "pj_hash_next ht it =
     (if tl (hi_entry it) \<noteq> [] then Some (it\<lparr>hi_entry := tl (hi_entry it)\<rparr>)
      else next_row (Suc (hi_index it)) (drop (Suc (hi_index it)) (take (ht_rows ht + 1) (ht_table ht))))"

definition pj_hash_this :: "'v pj_hash_iterator \<Rightarrow> 'v" where
  "pj_hash_this it = he_value (hd (hi_entry it))"

lemma tolower_zero [simp]: "pj_tolower c = 0 \<longleftrightarrow> c = 0"
proof -
  have "c + 32 \<noteq> 0" if "65 \<le> c" "c \<le> 90" for c :: u8
    using that by (simp add: word_le_nat_alt unat_arith_simps split: if_splits)
  then show ?thesis by (auto simp: pj_tolower_def)
qed

section \<open>Comparison of strings\<close>

lemma stricmp_refl: "stricmp_eq a a"
proof -
  have "strnicmp_eq a a (length a)" by (induction a) simp_all
  then show ?thesis by (simp add: stricmp_eq_def)
qed

lemma strnicmp_sym: "strnicmp_eq a b n \<Longrightarrow> strnicmp_eq b a n"
proof (induction a b n rule: strnicmp_eq.induct)
  case (2 a as b bs n)
  then have "a = 0 \<longleftrightarrow> b = 0" by (metis strnicmp_eq.simps(2) tolower_zero)
  then show ?case using 2 by auto
qed simp_all

lemma stricmp_sym: "stricmp_eq a b \<longleftrightarrow> stricmp_eq b a"
  by (auto simp: stricmp_eq_def dest: strnicmp_sym)

lemma strnicmp_trans: "strnicmp_eq a b n \<Longrightarrow> strnicmp_eq b c n \<Longrightarrow> strnicmp_eq a c n"
proof (induction a b n arbitrary: c rule: strnicmp_eq.induct)
  case (2 a as b bs n)
  then have "a = 0 \<longleftrightarrow> b = 0" by (metis strnicmp_eq.simps(2) tolower_zero)
  then show ?case using 2 by (cases c) auto
qed simp_all

lemma stricmp_trans: "stricmp_eq a b \<Longrightarrow> stricmp_eq b c \<Longrightarrow> stricmp_eq a c"
  by (auto simp: stricmp_eq_def dest: strnicmp_trans)

end
