(* ===== verification/Hash_Props.thy ===== *)
theory Hash_Props
  imports Hash
begin

text \<open>
  The hash table implements a finite map from keys, taken up to the case of letters in the
  case-insensitive variants, to values.  The interface is the locale \<open>key_table\<close>, which
  the table of theory \<^verbatim>\<open>Hash\<close> implements in both variants.
\<close>

section \<open>Keys\<close>

definition norm_key :: "bool \<Rightarrow> u8 list \<Rightarrow> u8 list" where
  "norm_key lower k = (if lower then map pj_tolower k else k)"

text \<open>Keys the case-insensitive comparison reads to their end.\<close>

definition key_ok :: "bool \<Rightarrow> u8 list \<Rightarrow> bool" where
  "key_ok lower k \<longleftrightarrow> (lower \<longrightarrow> 0 \<notin> set (butlast k))"

lemma tolower_idem [simp]: "pj_tolower (pj_tolower c) = pj_tolower c"
proof -
  have "\<not> c + 32 \<le> 90" if "65 \<le> c" "c \<le> 90" for c :: u8
    using that by (simp add: word_le_nat_alt unat_arith_simps split: if_splits)
  then show ?thesis by (auto simp: pj_tolower_def)
qed

lemma strnicmp_norm:
  assumes "length a = length b" "0 \<notin> set (butlast a)"
  shows "strnicmp_eq a b (length b) \<longleftrightarrow> map pj_tolower a = map pj_tolower b"
  using assms
proof (induction a b rule: list_induct2)
  case (Cons x xs y ys)
  then show ?case by (cases "xs = []") (auto split: if_splits)
qed simp

section \<open>Hashes of keys\<close>

lemma sip_word_lower: "sip_word True i cs m = sip_word False i (map pj_tolower cs) m"
  by (induction cs arbitrary: i m) (simp_all add: sip_byte_def)

lemma sip_blocks_lower:
  "fst (sip_blocks True n cs v) = fst (sip_blocks False n (map pj_tolower cs) v) \<and>
   map pj_tolower (snd (sip_blocks True n cs v)) = snd (sip_blocks False n (map pj_tolower cs) v)"
  by (induction n arbitrary: cs v) (simp_all add: sip_word_lower take_map drop_map)

lemma siphash24_lower: "siphash24 k0 k1 data True = siphash24 k0 k1 (map pj_tolower data) False"
proof -
  define v where "v = (SIP_U64 0x736f6d65 0x70736575 XOR k0, SIP_U64 0x646f7261 0x6e646f6d XOR k1,
      SIP_U64 0x6c796765 0x6e657261 XOR k0, SIP_U64 0x74656462 0x79746573 XOR k1)"
  obtain u rest where b: "sip_blocks True (length data div 8) data v = (u, rest)" by fastforce
  then have b': "sip_blocks False (length data div 8) (map pj_tolower data) v = (u, map pj_tolower rest)"
    using sip_blocks_lower [of "length data div 8" data v] by (simp add: prod_eq_iff)
  show ?thesis
    by (simp only: siphash24_def Let_def length_map v_def [symmetric] b b' prod.case sip_word_lower)
qed

lemma table_hash_norm: "calc_table_hash s k lower = calc_table_hash s (norm_key lower k) False"
  by (simp add: calc_table_hash_def norm_key_def siphash24_lower)

lemma calc_tolower_eq: "pj_hash_calc_tolower h key = (map pj_tolower key, pj_hash_calc h (map pj_tolower key) (Some (length key)))"
proof -
  have "foldl (\<lambda>(result, h) c. (result @ [pj_tolower c], h * PJ_HASH_MULTIPLIER + ucast (pj_tolower c))) (acc, h) key =
      (acc @ map pj_tolower key, foldl (\<lambda>h c. h * PJ_HASH_MULTIPLIER + ucast c) h (map pj_tolower key))" for acc
    by (induction key arbitrary: acc h) simp_all
  then show ?thesis by (simp add: pj_hash_calc_tolower_def pj_hash_calc_def key_bytes_def)
qed

section \<open>Chains\<close>

text \<open>A chain as an association list from normalised keys.\<close>

definition bindings :: "bool \<Rightarrow> 'v pj_hash_entry list \<Rightarrow> (u8 list \<times> 'v) list" where
  "bindings lower es = map (\<lambda>e. (norm_key lower (he_key e), he_value e)) es"

lemma bindings_simps [simp]:
  "bindings lower [] = []" "bindings lower (e # es) = (norm_key lower (he_key e), he_value e) # bindings lower es"
  "bindings lower (es @ fs) = bindings lower es @ bindings lower fs" "length (bindings lower es) = length es"
  by (simp_all add: bindings_def)

lemma scan_le: "scan P es \<le> length es"
  by (induction es) auto

text \<open>Scan, overwrite and remove on a chain whose entries match exactly when they have the key \<open>K\<close>.\<close>

lemma scan_found:
  assumes "\<forall>e\<in>set es. P e \<longleftrightarrow> norm_key lower (he_key e) = K"
  shows "scan P es < length es \<longleftrightarrow> K \<in> fst ` set (bindings lower es)"
  using assms by (induction es) auto

lemma scan_lookup:
  assumes "\<forall>e\<in>set es. P e \<longleftrightarrow> norm_key lower (he_key e) = K"
  shows "(if scan P es < length es then Some (he_value (es ! scan P es)) else None) = map_of (bindings lower es) K"
  using assms by (induction es) auto

lemma scan_update:
  assumes "\<forall>e\<in>set es. P e \<longleftrightarrow> norm_key lower (he_key e) = K" "scan P es < length es"
  shows "map_of (bindings lower (es[scan P es := (es ! scan P es)\<lparr>he_value := v\<rparr>])) = (map_of (bindings lower es))(K \<mapsto> v)"
    "map fst (bindings lower (es[scan P es := (es ! scan P es)\<lparr>he_value := v\<rparr>])) = map fst (bindings lower es)"
  using assms by (induction es) (auto simp: fun_upd_twist)

lemma scan_delete:
  assumes "\<forall>e\<in>set es. P e \<longleftrightarrow> norm_key lower (he_key e) = K" "distinct (map fst (bindings lower es))"
  shows "map_of (bindings lower (take (scan P es) es @ drop (Suc (scan P es)) es)) = (map_of (bindings lower es))(K := None)"
  using assms
proof (induction es)
  case (Cons e es)
  show ?case
  proof (cases "P e")
    case True
    then have "K \<notin> fst ` set (bindings lower es)" using Cons.prems by simp
    then have "map_of (bindings lower es) K = None" by (simp add: map_of_eq_None_iff)
    then show ?thesis using True Cons.prems by (auto intro!: ext)
  next
    case False
    then show ?thesis using Cons by (auto simp: fun_eq_iff)
  qed
qed simp

text \<open>Rows: every binding is in the row its key selects.\<close>

lemma map_of_rows:
  assumes "\<forall>r<length rows. \<forall>p\<in>set (rows ! r). ix (fst p) = r"
  shows "map_of (concat rows) k = (if ix k < length rows then map_of (rows ! ix k) k else None)"
  using assms
proof (induction rows rule: rev_induct)
  case (snoc x xs)
  have x: "ix (fst p) = length xs" if "p \<in> set x" for p using spec [OF snoc.prems, of "length xs"] that by simp
  have IH: "map_of (concat xs) k = (if ix k < length xs then map_of (xs ! ix k) k else None)"
    by (rule snoc.IH) (use snoc.prems in \<open>auto simp: nth_append\<close>)
  have "map_of x k = None" if "ix k \<noteq> length xs" using x that by (force simp: map_of_eq_None_iff)
  then show ?case using IH by (auto simp: nth_append map_add_def split: option.split)
qed simp

section \<open>The invariant\<close>

definition ent_ok :: "sip_key \<Rightarrow> bool \<Rightarrow> nat \<Rightarrow> nat \<Rightarrow> 'v pj_hash_entry \<Rightarrow> bool" where
  "ent_ok s lower rows r e \<longleftrightarrow> key_ok lower (he_key e) \<and> he_hash e = calc_table_hash s (he_key e) lower \<and>
     unat (he_hash e AND of_nat rows) = r"

definition hash_ok :: "sip_key \<Rightarrow> bool \<Rightarrow> 'v pj_hash_table \<Rightarrow> bool" where
  "hash_ok s lower ht \<longleftrightarrow>
     ht_rows ht < 4294967296 \<and> length (ht_table ht) = ht_rows ht + 1 \<and>
     (\<forall>r<length (ht_table ht). \<forall>e\<in>set (ht_table ht ! r). ent_ok s lower (ht_rows ht) r e) \<and>
     (\<forall>r<length (ht_table ht). distinct (map fst (bindings lower (ht_table ht ! r)))) \<and>
     ht_count ht = sum_list (map length (ht_table ht))"

text \<open>The map a table stands for.\<close>

definition hash_map :: "bool \<Rightarrow> 'v pj_hash_table \<Rightarrow> u8 list \<rightharpoonup> 'v" where
  "hash_map lower ht = map_of (bindings lower (concat (ht_table ht)))"

definition row_of :: "sip_key \<Rightarrow> 'v pj_hash_table \<Rightarrow> u8 list \<Rightarrow> nat" where
  "row_of s ht k = bucket ht (calc_table_hash s k False)"

lemma bucket_less:
  assumes "ht_rows ht < 4294967296" "length (ht_table ht) = ht_rows ht + 1"
  shows "bucket ht h < length (ht_table ht)"
proof -
  have "h AND of_nat (ht_rows ht) \<le> (of_nat (ht_rows ht) :: u32)" by (rule word_and_le1)
  then have "unat (h AND of_nat (ht_rows ht)) \<le> unat (of_nat (ht_rows ht) :: u32)" by (simp add: word_le_nat_alt)
  also have "\<dots> = ht_rows ht" using assms(1) by (simp add: unat_of_nat take_bit_nat_eq_self)
  finally show ?thesis using assms(2) by (simp add: bucket_def)
qed

lemma bucket_ok: "hash_ok s lower ht \<Longrightarrow> bucket ht h < length (ht_table ht)"
  using bucket_less unfolding hash_ok_def by blast

lemma hash_ok_entry:
  assumes "hash_ok s lower ht" "r < length (ht_table ht)" "e \<in> set (ht_table ht ! r)"
  shows "key_ok lower (he_key e)" "he_hash e = calc_table_hash s (he_key e) lower"
    "bucket ht (calc_table_hash s (he_key e) lower) = r"
proof -
  have e: "ent_ok s lower (ht_rows ht) r e" using assms unfolding hash_ok_def by blast
  then show h: "key_ok lower (he_key e)" "he_hash e = calc_table_hash s (he_key e) lower" by (simp_all add: ent_ok_def)
  show "bucket ht (calc_table_hash s (he_key e) lower) = r" using e by (metis ent_ok_def bucket_def)
qed

lemma hash_map_row:
  assumes "hash_ok s lower ht"
  shows "hash_map lower ht k = map_of (bindings lower (ht_table ht ! row_of s ht k)) k"
proof -
  let ?rows = "map (bindings lower) (ht_table ht)"
  have "\<forall>r<length ?rows. \<forall>p\<in>set (?rows ! r). row_of s ht (fst p) = r"
    using hash_ok_entry(3) [OF assms] by (auto simp: bindings_def row_of_def simp flip: table_hash_norm)
  from map_of_rows [OF this, of k]
  have "map_of (concat ?rows) k = (if row_of s ht k < length ?rows then map_of (?rows ! row_of s ht k) k else None)" .
  moreover have "row_of s ht k < length ?rows" using bucket_ok [OF assms] by (simp add: row_of_def)
  moreover have "concat ?rows = bindings lower (concat (ht_table ht))" by (induction "ht_table ht") (simp_all add: bindings_def map_concat)
  ultimately show ?thesis by (simp add: hash_map_def)
qed

lemma entry_matches_norm:
  assumes "key_ok lower (he_key e)" "he_hash e = calc_table_hash s (he_key e) lower"
  shows "entry_matches lower (calc_table_hash s key lower) key e \<longleftrightarrow> norm_key lower (he_key e) = norm_key lower key"
proof -
  have "calc_table_hash s (he_key e) lower = calc_table_hash s key lower" if "norm_key lower (he_key e) = norm_key lower key"
    using that table_hash_norm by metis
  moreover have "length (he_key e) = length key" if "norm_key lower (he_key e) = norm_key lower key"
    using that by (metis length_map norm_key_def)
  ultimately show ?thesis
    using assms strnicmp_norm [of "he_key e" key] by (auto simp: entry_matches_def key_ok_def norm_key_def split: if_splits)
qed

text \<open>One row replaced: the invariant and the map.\<close>

lemma row_update:
  assumes ok: "hash_ok s lower ht" and K: "row = row_of s ht K"
    and ht': "ht' = ht\<lparr>ht_table := (ht_table ht)[row := chain], ht_count := c\<rparr>"
    and es: "\<forall>e\<in>set chain. ent_ok s lower (ht_rows ht) row e"
    and d: "distinct (map fst (bindings lower chain))"
    and m: "map_of (bindings lower chain) = (map_of (bindings lower (ht_table ht ! row)))(K := v)"
    and c: "c + length (ht_table ht ! row) = ht_count ht + length chain"
  shows "hash_ok s lower ht' \<and> hash_map lower ht' = (hash_map lower ht)(K := v)"
proof -
  have r: "row < length (ht_table ht)" using bucket_ok [OF ok] by (simp add: K row_of_def)
  have b: "bucket ht' = bucket ht" "row_of s ht' = row_of s ht" by (auto simp: bucket_def row_of_def ht' fun_eq_iff)
  have n: "ht_table ht' ! q = (if q = row then chain else ht_table ht ! q)" if "q < length (ht_table ht)" for q
    using that r by (auto simp: ht' nth_list_update)
  have "sum_list (map length (ht_table ht')) + length (ht_table ht ! row) = sum_list (map length (ht_table ht)) + length chain"
    using r member_le_sum_list [of "length (ht_table ht ! row)" "map length (ht_table ht)"]
    by (simp add: ht' map_update sum_list_update)
  then have ok': "hash_ok s lower ht'"
    using ok es d c r by (auto simp: hash_ok_def ht' nth_list_update)
  moreover have "hash_map lower ht' k = ((hash_map lower ht)(K := v)) k" for k
  proof -
    have q: "row_of s ht k < length (ht_table ht)" using bucket_ok [OF ok] by (simp add: row_of_def)
    then show ?thesis
      using hash_map_row [OF ok, of k] hash_map_row [OF ok', of k] m K n [OF q] b by (auto simp: fun_upd_def)
  qed
  ultimately show ?thesis by blast
qed

section \<open>Operations\<close>

text \<open>What \<^verbatim>\<open>find_entry\<close> works on.\<close>

lemma chain_facts:
  assumes ok: "hash_ok s lower ht" and row: "row = bucket ht (calc_table_hash s key lower)"
  shows "row = row_of s ht (norm_key lower key)" "row < length (ht_table ht)"
    "\<forall>e\<in>set (ht_table ht ! row). entry_matches lower (calc_table_hash s key lower) key e \<longleftrightarrow> norm_key lower (he_key e) = norm_key lower key"
    "\<forall>e\<in>set (ht_table ht ! row). ent_ok s lower (ht_rows ht) row e"
    "distinct (map fst (bindings lower (ht_table ht ! row)))" "length (ht_table ht ! row) \<le> ht_count ht"
proof -
  show "row = row_of s ht (norm_key lower key)" by (simp add: row row_of_def flip: table_hash_norm)
  show r: "row < length (ht_table ht)" using bucket_ok [OF ok] by (simp add: row)
  show es: "\<forall>e\<in>set (ht_table ht ! row). ent_ok s lower (ht_rows ht) row e"
    using ok r by (simp add: hash_ok_def)
  then show "\<forall>e\<in>set (ht_table ht ! row). entry_matches lower (calc_table_hash s key lower) key e \<longleftrightarrow> norm_key lower (he_key e) = norm_key lower key"
    by (auto simp: ent_ok_def entry_matches_norm)
  show "distinct (map fst (bindings lower (ht_table ht ! row)))" using ok r by (simp add: hash_ok_def)
  show "length (ht_table ht ! row) \<le> ht_count ht"
    using ok r member_le_sum_list [of "length (ht_table ht ! row)" "map length (ht_table ht)"] by (simp add: hash_ok_def)
qed

lemma hash_get_spec:
  assumes "hash_ok s lower ht" "key_bytes key keylen = k"
  shows "hash_get s ht key keylen hval lower = Some (hash_map lower ht (norm_key lower k), report_hval k lower hval)"
proof -
  note F = chain_facts [OF assms(1) refl, of k]
  show ?thesis
    using scan_lookup [OF F(3)] hash_map_row [OF assms(1), of "norm_key lower k"]
    by (simp add: hash_get_def find_entry_def assms(2) Let_def flip: F(1))
qed

lemma hash_delete_spec:
  assumes ok: "hash_ok s lower ht" and k: "key_bytes key keylen = k"
  shows "\<exists>ht'. hash_set s pool ht key keylen hval None buf lower = Some ht' \<and> hash_ok s lower ht' \<and>
    hash_map lower ht' = (hash_map lower ht)(norm_key lower k := None)"
proof -
  define h where "h = calc_table_hash s k lower"
  define row where "row = bucket ht h"
  define chain where "chain = ht_table ht ! row"
  define pos where "pos = scan (entry_matches lower h k) chain"
  note F = chain_facts [OF ok refl, of k, folded h_def, folded row_def, folded chain_def]
  show ?thesis
  proof (cases "pos < length chain")
    case False
    then have "hash_map lower ht (norm_key lower k) = None"
      using scan_lookup [OF F(3)] hash_map_row [OF ok, of "norm_key lower k"] F(1) by (simp add: pos_def chain_def)
    then show ?thesis
      using False ok by (auto simp: hash_set_def find_entry_def k Let_def h_def row_def chain_def pos_def)
  next
    case True
    define chain' where "chain' = take pos chain @ drop (Suc pos) chain"
    define ht' where "ht' = ht\<lparr>ht_table := (ht_table ht)[row := chain'], ht_count := ht_count ht - 1\<rparr>"
    have s: "set chain' \<subseteq> set chain" unfolding chain'_def by (auto dest: in_set_takeD in_set_dropD)
    have "hash_ok s lower ht' \<and> hash_map lower ht' = (hash_map lower ht)(norm_key lower k := None)"
    proof (rule row_update [OF ok F(1) ht'_def])
      show "\<forall>e\<in>set chain'. ent_ok s lower (ht_rows ht) row e"
        using F(4) s by blast
      have "map fst (bindings lower chain) = map fst (bindings lower (take pos chain)) @
          norm_key lower (he_key (chain ! pos)) # map fst (bindings lower (drop (Suc pos) chain))"
        using id_take_nth_drop [OF True] by (metis bindings_simps(2,3) fst_conv list.simps(9) map_append)
      then show "distinct (map fst (bindings lower chain'))" using F(5) by (simp add: chain'_def)
      show "map_of (bindings lower chain') = (map_of (bindings lower (ht_table ht ! row)))(norm_key lower k := None)"
        using scan_delete [OF F(3,5)] by (simp add: chain'_def pos_def chain_def)
      show "ht_count ht - 1 + length (ht_table ht ! row) = ht_count ht + length chain'"
        using True F(6) by (simp add: chain'_def chain_def)
    qed
    moreover have "hash_set s pool ht key keylen hval None buf lower = Some ht'"
      using True by (simp add: hash_set_def find_entry_def k Let_def ht'_def chain'_def h_def row_def chain_def pos_def)
    ultimately show ?thesis by blast
  qed
qed

lemma hash_insert_spec:
  assumes ok: "hash_ok s lower ht" and k: "key_bytes key keylen = k" "key_ok lower k" and p: "pool \<or> buf"
  shows "\<exists>ht'. hash_set s pool ht key keylen hval (Some v) buf lower = Some ht' \<and> hash_ok s lower ht' \<and>
    hash_map lower ht' = (hash_map lower ht)(norm_key lower k \<mapsto> v)"
proof -
  define h where "h = calc_table_hash s k lower"
  define row where "row = bucket ht h"
  define chain where "chain = ht_table ht ! row"
  define pos where "pos = scan (entry_matches lower h k) chain"
  note F = chain_facts [OF ok refl, of k, folded h_def, folded row_def, folded chain_def]
  show ?thesis
  proof (cases "pos < length chain")
    case True
    define chain' where "chain' = chain[pos := (chain ! pos)\<lparr>he_value := v\<rparr>]"
    define ht' where "ht' = ht\<lparr>ht_table := (ht_table ht)[row := chain'], ht_count := ht_count ht\<rparr>"
    note U = scan_update [OF F(3), folded pos_def, OF True, of v, folded chain'_def]
    have "hash_ok s lower ht' \<and> hash_map lower ht' = (hash_map lower ht)(norm_key lower k := Some v)"
    proof (rule row_update [OF ok F(1) ht'_def])
      show "\<forall>e\<in>set chain'. ent_ok s lower (ht_rows ht) row e"
      proof
        fix e
        assume "e \<in> set chain'"
        then have "\<exists>f\<in>set chain. he_key e = he_key f \<and> he_hash e = he_hash f"
          using True set_update_subset_insert [of chain pos] by (fastforce simp: chain'_def)
        then show "ent_ok s lower (ht_rows ht) row e"
          using F(4) by (metis ent_ok_def)
      qed
    qed (use U F(5) in \<open>simp_all add: chain_def chain'_def\<close>)
    moreover have "hash_set s pool ht key keylen hval (Some v) buf lower = Some ht'"
      using True by (simp add: hash_set_def find_entry_def k Let_def ht'_def chain'_def h_def row_def chain_def pos_def)
    ultimately show ?thesis by auto
  next
    case False
    define e where "e = \<lparr>he_key = k, he_hash = h, he_value = v\<rparr>"
    define ht' where "ht' = ht\<lparr>ht_table := (ht_table ht)[row := chain @ [e]], ht_count := ht_count ht + 1\<rparr>"
    have new: "norm_key lower k \<notin> fst ` set (bindings lower chain)" using False scan_found [OF F(3)] by (simp add: pos_def)
    have "hash_ok s lower ht' \<and> hash_map lower ht' = (hash_map lower ht)(norm_key lower k := Some v)"
    proof (rule row_update [OF ok F(1) ht'_def])
      have "ent_ok s lower (ht_rows ht) row e" using k(2) by (simp add: ent_ok_def e_def h_def row_def bucket_def)
      then show "\<forall>e\<in>set (chain @ [e]). ent_ok s lower (ht_rows ht) row e" using F(4) by simp
      show "distinct (map fst (bindings lower (chain @ [e])))" using F(5) new by (simp add: e_def)
      have "map_of (bindings lower chain) (norm_key lower k) = None" using new by (simp add: map_of_eq_None_iff)
      then show "map_of (bindings lower (chain @ [e])) = (map_of (bindings lower (ht_table ht ! row)))(norm_key lower k := Some v)"
        by (auto simp: e_def chain_def map_add_def fun_eq_iff split: option.split)
    qed (simp add: chain_def)
    moreover have "pos = length chain" using False scan_le [of "entry_matches lower h k" chain] by (simp add: pos_def)
    then have "hash_set s pool ht key keylen hval (Some v) buf lower = Some ht'"
      using p F(2) by (auto simp: hash_set_def find_entry_def k Let_def ht'_def e_def chain_def row_def h_def pos_def)
    ultimately show ?thesis by auto
  qed
qed

section \<open>Creation and size\<close>

lemma grow_table_size_spec:
  assumes "k \<le> 30"
  shows "\<exists>m. k < m \<and> m \<le> 31 \<and> grow_table_size sz k = 2 ^ m \<and> (sz \<le> 2 ^ 31 \<longrightarrow> sz \<le> 2 ^ m) \<and> (m = Suc k \<or> 2 ^ (m - 1) < sz)"
  using assms
proof (induction sz k rule: grow_table_size.induct)
  case (1 sz k)
  show ?case
  proof (cases "2 * 2 ^ k < sz \<and> 2 * 2 ^ k \<le> (2147483647::nat)")
    case True
    have "k \<noteq> 30" using True by (intro notI) simp
    then have k: "Suc k \<le> 30" using "1.prems" by simp
    obtain m where m: "Suc k < m" "m \<le> 31" "grow_table_size sz (Suc k) = 2 ^ m" "sz \<le> 2 ^ 31 \<longrightarrow> sz \<le> 2 ^ m"
      "m = Suc (Suc k) \<or> 2 ^ (m - 1) < sz"
      using "1.IH" [OF refl True k] by blast
    have "2 ^ (m - 1) < sz" using m(5) True by auto
    then show ?thesis using m True by (intro exI [of _ m]) (simp add: grow_table_size.simps [of sz k] Let_def)
  next
    case False
    have "(2::nat) * 2 ^ k \<ge> sz \<or> k = 30"
    proof (cases "k = 30")
      case nk: False
      then have "k \<le> 29" using "1.prems" by simp
      then have "(2::nat) ^ k \<le> 2 ^ 29" by (intro power_increasing) simp_all
      then show ?thesis using False by simp
    qed simp
    then show ?thesis using False "1.prems" by (intro exI [of _ "Suc k"]) (auto simp: grow_table_size.simps [of sz k] Let_def)
  qed
qed

lemma create_table:
  obtains m where "4 \<le> m" "m \<le> 31" "ht_rows (pj_hash_create sz) + 1 = 2 ^ m" "sz \<le> 2 ^ 31 \<longrightarrow> sz \<le> 2 ^ m"
    "m = 4 \<or> 2 ^ (m - 1) < sz"
proof -
  obtain m where m: "3 < m" "m \<le> 31" "grow_table_size sz 3 = 2 ^ m" "sz \<le> 2 ^ 31 \<longrightarrow> sz \<le> 2 ^ m" "m = Suc 3 \<or> 2 ^ (m - 1) < sz"
    using grow_table_size_spec [of 3 sz] by auto
  show ?thesis by (rule that [of m]) (use m in \<open>auto simp: pj_hash_create_def Let_def\<close>)
qed

lemma create_hash_ok: "hash_ok s lower (pj_hash_create sz)" "hash_map lower (pj_hash_create sz) = Map.empty"
proof -
  obtain m where m: "m \<le> 31" "ht_rows (pj_hash_create sz :: 'a pj_hash_table) + 1 = 2 ^ m" using create_table by metis
  have "(2::nat) ^ m \<le> 2 ^ 31" using m(1) by (intro power_increasing) simp_all
  then have "ht_rows (pj_hash_create sz :: 'a pj_hash_table) < 4294967296" using m(2) by simp
  then show "hash_ok s lower (pj_hash_create sz :: 'a pj_hash_table)"
    unfolding hash_ok_def pj_hash_create_def Let_def by (simp add: sum_list_replicate del: replicate.simps)
  show "hash_map lower (pj_hash_create sz) = Map.empty"
    by (simp add: hash_map_def pj_hash_create_def Let_def bindings_def)
qed

lemma distinct_rows:
  assumes "\<forall>r<length rows. \<forall>p\<in>set (rows ! r). ix (fst p) = r" "\<forall>r<length rows. distinct (map fst (rows ! r))"
  shows "distinct (map fst (concat rows))"
  using assms
proof (induction rows rule: rev_induct)
  case (snoc x xs)
  have x: "ix (fst p) = length xs" if "p \<in> set x" for p using spec [OF snoc.prems(1), of "length xs"] that by simp
  have xs: "ix (fst p) < length xs" if p: "p \<in> set (concat xs)" for p
  proof -
    obtain x where "x \<in> set xs" "p \<in> set x" using p by auto
    then obtain r where "r < length xs" "p \<in> set (xs ! r)" by (auto simp: in_set_conv_nth [of x])
    then have "ix (fst p) = r" using spec [OF snoc.prems(1), of r] by (simp add: nth_append)
    then show ?thesis using \<open>r < length xs\<close> by simp
  qed
  have "distinct (map fst (xs ! r))" if "r < length xs" for r
    using spec [OF snoc.prems(2), of r] that by (simp add: nth_append)
  moreover have "ix (fst p) = r" if "r < length xs" "p \<in> set (xs ! r)" for r p
    using spec [OF snoc.prems(1), of r] that by (simp add: nth_append)
  ultimately have "distinct (map fst (concat xs))" by (intro snoc.IH) simp_all
  moreover have "distinct (map fst x)" using spec [OF snoc.prems(2), of "length xs"] by simp
  moreover have "set (map fst (concat xs)) \<inter> set (map fst x) = {}"
  proof (rule ccontr)
    assume "set (map fst (concat xs)) \<inter> set (map fst x) \<noteq> {}"
    then obtain p q where "p \<in> set (concat xs)" "q \<in> set x" "fst p = fst q"
      unfolding set_map by blast
    then show False using x [of q] xs [of p] by simp
  qed
  ultimately show ?case by simp
qed simp

lemma hash_count_card:
  assumes "hash_ok s lower ht"
  shows "distinct (map fst (bindings lower (concat (ht_table ht))))" "pj_hash_count ht = card (dom (hash_map lower ht))"
proof -
  let ?rows = "map (bindings lower) (ht_table ht)"
  have c: "concat ?rows = bindings lower (concat (ht_table ht))" by (induction "ht_table ht") (simp_all add: bindings_def map_concat)
  have "\<forall>r<length ?rows. \<forall>p\<in>set (?rows ! r). row_of s ht (fst p) = r"
    using hash_ok_entry(3) [OF assms] by (auto simp: bindings_def row_of_def simp flip: table_hash_norm)
  moreover have "\<forall>r<length ?rows. distinct (map fst (?rows ! r))" using assms by (simp add: hash_ok_def)
  ultimately have "distinct (map fst (concat ?rows))" by (rule distinct_rows)
  then show d: "distinct (map fst (bindings lower (concat (ht_table ht))))" by (simp only: c)
  have "card (dom (hash_map lower ht)) = length (concat (ht_table ht))"
    using distinct_card [OF d] by (simp add: hash_map_def dom_map_of_conv_image_fst)
  then show "pj_hash_count ht = card (dom (hash_map lower ht))"
    using assms by (simp add: pj_hash_count_def hash_ok_def length_concat)
qed

section \<open>Iteration\<close>

text \<open>The values a loop with \<^verbatim>\<open>pj_hash_first\<close>, \<^verbatim>\<open>pj_hash_next\<close> and \<^verbatim>\<open>pj_hash_this\<close> sees, with an upper bound on
  the number of rounds.\<close>

fun hash_loop :: "nat \<Rightarrow> 'v pj_hash_table \<Rightarrow> 'v pj_hash_iterator option \<Rightarrow> 'v list" where
  "hash_loop n ht None = []"
| "hash_loop 0 ht (Some it) = []"
| "hash_loop (Suc n) ht (Some it) = pj_hash_this it # hash_loop n ht (pj_hash_next ht it)"

definition ahead :: "'v pj_hash_table \<Rightarrow> 'v pj_hash_iterator \<Rightarrow> 'v pj_hash_entry list" where
  "ahead ht it = hi_entry it @ concat (drop (Suc (hi_index it)) (ht_table ht))"

lemma next_row_ahead:
  assumes "rows = drop i (ht_table ht)"
  shows "case next_row i rows of None \<Rightarrow> concat rows = [] | Some it \<Rightarrow> hi_entry it \<noteq> [] \<and> ahead ht it = concat rows"
  using assms
proof (induction i rows rule: next_row.induct)
  case (2 i chain rows)
  have d: "rows = drop (Suc i) (ht_table ht)" using "2.prems" by (metis drop_Suc list.sel(3) tl_drop)
  show ?case
  proof (cases "chain = []")
    case True
    then show ?thesis using "2.IH" [OF _ d] by (simp split: option.splits)
  next
    case False
    then show ?thesis using d by (simp add: ahead_def)
  qed
qed simp

lemma hash_loop_ahead:
  assumes "length (ht_table ht) = ht_rows ht + 1" "hi_entry it \<noteq> []" "length (ahead ht it) \<le> n"
  shows "hash_loop n ht (Some it) = map he_value (ahead ht it)"
  using assms(2,3)
proof (induction n arbitrary: it)
  case 0
  then show ?case by (simp add: ahead_def)
next
  case (Suc n)
  obtain e es where e: "hi_entry it = e # es" using Suc.prems(1) by (cases "hi_entry it") auto
  show ?case
  proof (cases "es = []")
    case False
    then have "hash_loop n ht (Some (it\<lparr>hi_entry := es\<rparr>)) = map he_value (ahead ht (it\<lparr>hi_entry := es\<rparr>))"
      using Suc.prems e by (intro Suc.IH) (simp_all add: ahead_def)
    then show ?thesis using False e by (simp add: pj_hash_next_def pj_hash_this_def ahead_def)
  next
    case True
    let ?r = "drop (Suc (hi_index it)) (ht_table ht)"
    note N = next_row_ahead [OF refl, of "Suc (hi_index it)" ht]
    have t: "pj_hash_next ht it = next_row (Suc (hi_index it)) ?r" using True e assms(1) by (simp add: pj_hash_next_def)
    show ?thesis
    proof (cases "next_row (Suc (hi_index it)) ?r")
      case None
      then show ?thesis using N True e t by (simp add: pj_hash_this_def ahead_def)
    next
      case (Some it')
      then have "hash_loop n ht (Some it') = map he_value (ahead ht it')"
        using N Suc.prems True e by (intro Suc.IH) (simp_all add: ahead_def)
      moreover have "map he_value (ahead ht it') = map he_value (concat ?r)" using Some N by simp
      ultimately show ?thesis using Some True e t by (simp add: pj_hash_this_def ahead_def)
    qed
  qed
qed

section \<open>The interface\<close>

text \<open>
  A table from keys to values, where keys with the same normal form are the same key: what a
  client of the hash table relies on.
\<close>

locale key_table =
  fixes ok :: "'t \<Rightarrow> bool" and valid :: "'k \<Rightarrow> bool" and norm :: "'k \<Rightarrow> 'n" and contents :: "'t \<Rightarrow> 'n \<rightharpoonup> 'v"
    and get :: "'t \<Rightarrow> 'k \<Rightarrow> 'v option" and put :: "'t \<Rightarrow> 'k \<Rightarrow> 'v \<Rightarrow> 't" and del :: "'t \<Rightarrow> 'k \<Rightarrow> 't" and count :: "'t \<Rightarrow> nat"
  assumes get_law: "ok t \<Longrightarrow> get t k = contents t (norm k)"
    and put_law: "ok t \<Longrightarrow> valid k \<Longrightarrow> ok (put t k v) \<and> contents (put t k v) = (contents t)(norm k \<mapsto> v)"
    and del_law: "ok t \<Longrightarrow> ok (del t k) \<and> contents (del t k) = (contents t)(norm k := None)"
    and count_law: "ok t \<Longrightarrow> count t = card (dom (contents t))"
begin

lemma get_put: "ok t \<Longrightarrow> valid k \<Longrightarrow> get (put t k v) l = (if norm l = norm k then Some v else get t l)"
  using put_law [of t k v] by (simp add: get_law)

lemma get_del: "ok t \<Longrightarrow> get (del t k) l = (if norm l = norm k then None else get t l)"
  using del_law [of t k] by (simp add: get_law)

lemma put_del:
  assumes "ok t" "valid k" "get t k = None"
  shows "contents (del (put t k v) k) = contents t"
  using assms put_law [of t k v] del_law [of "put t k v" k] by (simp add: get_law fun_upd_idem)

end

definition table_get :: "sip_key \<Rightarrow> bool \<Rightarrow> 'v pj_hash_table \<Rightarrow> u8 list \<Rightarrow> 'v option" where
  "table_get s lower ht k = fst (the (hash_get s ht k (Some (length k)) (Some 0) lower))"

definition table_put :: "sip_key \<Rightarrow> bool \<Rightarrow> u32 \<Rightarrow> 'v pj_hash_table \<Rightarrow> u8 list \<Rightarrow> 'v \<Rightarrow> 'v pj_hash_table" where
  "table_put s lower hval ht k v = the (hash_set s True ht k (Some (length k)) hval (Some v) False lower)"

definition table_del :: "sip_key \<Rightarrow> bool \<Rightarrow> u32 \<Rightarrow> 'v pj_hash_table \<Rightarrow> u8 list \<Rightarrow> 'v pj_hash_table" where
  "table_del s lower hval ht k = the (hash_set s False ht k (Some (length k)) hval None False lower)"

lemma key_bytes_all [simp]: "key_bytes k (Some (length k)) = k"
  by (simp add: key_bytes_def)

interpretation kt: key_table "hash_ok s lower" "key_ok lower" "norm_key lower" "hash_map lower"
  "table_get s lower" "table_put s lower hval" "table_del s lower hval2" pj_hash_count
  for s lower hval hval2
proof
  fix t :: "'v pj_hash_table" and k v
  assume ok: "hash_ok s lower t"
  show "table_get s lower t k = hash_map lower t (norm_key lower k)"
    using hash_get_spec [OF ok key_bytes_all] by (simp add: table_get_def)
  show "hash_ok s lower (table_del s lower hval2 t k) \<and> hash_map lower (table_del s lower hval2 t k) = (hash_map lower t)(norm_key lower k := None)"
    using hash_delete_spec [OF ok key_bytes_all, of False k hval2 False] by (auto simp: table_del_def)
  show "pj_hash_count t = card (dom (hash_map lower t))" by (rule hash_count_card [OF ok])
  assume "key_ok lower k"
  then show "hash_ok s lower (table_put s lower hval t k v) \<and> hash_map lower (table_put s lower hval t k v) = (hash_map lower t)(norm_key lower k \<mapsto> v)"
    using hash_insert_spec [OF ok key_bytes_all, of k True False hval v] by (auto simp: table_put_def)
qed

section \<open>Properties\<close>

text \<open>C4: The hash table is a finite map from keys (up to the case of letters for the functions that
  ignore it) to values: a look-up gives the value of the map and reports the unkeyed hash of the key,
  setting a value updates the map at that key only, setting \<^verbatim>\<open>NULL\<close> removes the key, and the
  count is the number of keys, whatever keys share a row or a hash.  No operation fails when it has a
  pool or an entry buffer, and the table stays well formed.\<close>

theorem hash_refines_map:
  assumes "hash_ok s lower ht" "key_bytes key keylen = k" "key_ok lower k" "pool \<or> buf"
  shows "hash_get s ht key keylen hval lower = Some (hash_map lower ht (norm_key lower k), report_hval k lower hval) \<and>
    (\<exists>ht'. hash_set s pool ht key keylen h (Some v) buf lower = Some ht' \<and> hash_ok s lower ht' \<and>
       hash_map lower ht' = (hash_map lower ht)(norm_key lower k \<mapsto> v)) \<and>
    (\<exists>ht'. hash_set s pool ht key keylen h None buf lower = Some ht' \<and> hash_ok s lower ht' \<and>
       hash_map lower ht' = (hash_map lower ht)(norm_key lower k := None)) \<and>
    pj_hash_count ht = card (dom (hash_map lower ht))"
  using hash_get_spec [OF assms(1,2)] hash_insert_spec [OF assms] hash_delete_spec [OF assms(1,2)] hash_count_card(2) [OF assms(1)]
  by blast

text \<open>Creating a table ends for every size: the number of rows is a power of two between 16 and
  \<open>2 ^ 31\<close>, the smallest such power that is not below the requested size (a larger size gets
  \<open>2 ^ 31\<close> rows), and the new table is well formed and empty.\<close>

theorem hash_create_rows:
  "\<exists>m. 4 \<le> m \<and> m \<le> 31 \<and> ht_rows (pj_hash_create sz :: 'v pj_hash_table) + 1 = 2 ^ m \<and> (sz \<le> 2 ^ 31 \<longrightarrow> sz \<le> 2 ^ m) \<and>
     (m = 4 \<or> 2 ^ (m - 1) < sz) \<and> hash_ok s lower (pj_hash_create sz :: 'v pj_hash_table) \<and>
     hash_map lower (pj_hash_create sz :: 'v pj_hash_table) = Map.empty"
proof -
  obtain m where m: "4 \<le> m" "m \<le> 31" "ht_rows (pj_hash_create sz :: 'v pj_hash_table) + 1 = 2 ^ m" "sz \<le> 2 ^ 31 \<longrightarrow> sz \<le> 2 ^ m"
    "m = 4 \<or> 2 ^ (m - 1) < sz"
    by (rule create_table [where 'a = 'v])
  then show ?thesis using create_hash_ok by blast
qed

text \<open>A loop with \<^verbatim>\<open>pj_hash_first\<close> and \<^verbatim>\<open>pj_hash_next\<close> over a table that is not changed ends after as
  many rounds as the table has entries and sees the value of every key exactly once.\<close>

theorem hash_loop_sees_all:
  assumes "hash_ok s lower ht" "pj_hash_count ht \<le> n"
  shows "\<exists>ks. distinct ks \<and> set ks = dom (hash_map lower ht) \<and>
    map Some (hash_loop n ht (pj_hash_first ht)) = map (hash_map lower ht) ks"
proof -
  let ?bs = "bindings lower (concat (ht_table ht))"
  note D = hash_count_card(1) [OF assms(1)]
  have len: "length (ht_table ht) = ht_rows ht + 1" "length (concat (ht_table ht)) \<le> n"
    using assms by (simp_all add: hash_ok_def pj_hash_count_def length_concat)
  have f: "pj_hash_first ht = next_row 0 (ht_table ht)" using len by (simp add: pj_hash_first_def)
  have "hash_loop n ht (pj_hash_first ht) = map he_value (concat (ht_table ht))"
    using next_row_ahead [of "ht_table ht" 0 ht] hash_loop_ahead [OF len(1), of _ n] len(2) unfolding f
    by (auto split: option.splits)
  then have l: "hash_loop n ht (pj_hash_first ht) = map snd ?bs" by (simp add: bindings_def)
  have "hash_map lower ht (fst p) = Some (snd p)" if "p \<in> set ?bs" for p
    using map_of_is_SomeI [OF D, of "fst p" "snd p"] that by (simp add: hash_map_def)
  then have "map Some (map snd ?bs) = map (hash_map lower ht) (map fst ?bs)" by simp
  moreover have "set (map fst ?bs) = dom (hash_map lower ht)" by (simp add: hash_map_def dom_map_of_conv_image_fst)
  ultimately show ?thesis using l D by (intro exI [of _ "map fst ?bs"]) simp
qed

section \<open>Witnesses\<close>

definition demo_key :: sip_key where
  "demo_key = \<lparr>sip_k0 = 0x0706050403020100, sip_k1 = 0x0f0e0d0c0b0a0908, sip_key_ready = True\<rparr>"

lemma hash_refines_map_witness:
  "\<exists>ht'. hash_set demo_key True (pj_hash_create 31) [65, 98] (Some 2) 0 (Some (7::nat)) False True = Some ht' \<and>
     hash_map True ht' [97, 98] = Some 7"
proof -
  have "key_bytes [65, 98] (Some 2) = [65, 98]" "key_ok True [65, 98]" "norm_key True [65, 98] = [97, 98]"
    by (simp_all add: key_bytes_def key_ok_def norm_key_def pj_tolower_def)
  from hash_refines_map [where s = demo_key and pool = True and buf = False and h = 0 and v = "7::nat" and ht = "pj_hash_create 31",
      OF create_hash_ok(1) this(1,2)] this(3)
  show ?thesis by fastforce
qed

lemma hash_loop_sees_all_witness: "hash_loop 5 (pj_hash_create 31 :: nat pj_hash_table) (pj_hash_first (pj_hash_create 31)) = []"
proof -
  have "pj_hash_count (pj_hash_create 31 :: nat pj_hash_table) \<le> 5" by (simp add: pj_hash_count_def pj_hash_create_def Let_def)
  from hash_loop_sees_all [OF create_hash_ok(1) this] show ?thesis by (auto simp: create_hash_ok(2))
qed

end
