(* ===== verification/Sip_Layer.thy ===== *)
theory Sip_Layer
  imports Sip_Tsx Hash_Props
begin

text \<open>
  The transaction layer of \<^verbatim>\<open>pjsip/src/pjsip/sip_transaction.c\<close>: the keys that identify a
  transaction, the two hash tables of registered transactions, the creation of client and
  server transactions, and the routing of received messages to them.

  A \<open>tsx_layer\<close> holds the two tables, with the number of a transaction as value, and the
  transactions themselves.  A header that is missing from a received message is \<open>None\<close>; the
  result \<open>None\<close> of an operation is the dereference of a missing header or a call through \<^verbatim>\<open>NULL\<close>.
  Parameters are what other modules decide: the outcome of the allocations in \<^verbatim>\<open>tsx_create\<close>, the
  generated branch, the destination of a request and the response address of a request.
\<close>

section \<open>Keys\<close>

record pjsip_method =
  mt_id :: pjsip_method_e
  mt_name :: "u8 list"

record pjsip_via =
  via_branch :: "u8 list"
  via_host :: "u8 list"
  via_port :: int

text \<open>The parts of a received message the layer reads.\<close>

record sip_rdata =
  rd_msg :: pjsip_msg
  rd_method :: pjsip_method
  rd_via :: "pjsip_via option"
  rd_cseq :: "(int \<times> pjsip_method) option"
  rd_from_tag :: "(u8 list) option"
  rd_to_tag :: "u8 list"
  rd_cid :: "u8 list"

definition PJSIP_EMISSINGHDR :: pj_status where "PJSIP_EMISSINGHDR = PJ_EOTHER 171050"
definition PJSIP_EINVALIDHDR :: pj_status where "PJSIP_EINVALIDHDR = PJ_EOTHER 171051"
definition PJSIP_RFC3261_BRANCH_LEN :: nat where "PJSIP_RFC3261_BRANCH_LEN = 7"
definition PJSIP_RFC3261_BRANCH_ID :: "u8 list" where
  "PJSIP_RFC3261_BRANCH_ID = [122, 57, 104, 71, 52, 98, 75]"
definition SEPARATOR :: u8 where "SEPARATOR = 36"

text \<open>The digits \<^verbatim>\<open>pj_utoa_pad\<close> writes, last digit first, and the number it prints.\<close>

fun utoa_digits :: "nat \<Rightarrow> u8 list" where
  "utoa_digits val = (of_nat (val mod 10) + 48) # (if val div 10 > 0 then utoa_digits (val div 10) else [])"

declare utoa_digits.simps [simp del]

definition pj_utoa :: "nat \<Rightarrow> u8 list" where
  "pj_utoa val = rev (utoa_digits val)"

text \<open>An \<^verbatim>\<open>int\<close> passed as an \<^verbatim>\<open>unsigned long\<close> of 64 bits.\<close>

definition ulong :: "int \<Rightarrow> nat" where
  "ulong i = nat (i mod 2 ^ 64)"

definition key_role :: "pjsip_role_e \<Rightarrow> u8" where
  "key_role role = (if role = PJSIP_ROLE_UAC then 99 else 115)"

definition key_method :: "pjsip_method \<Rightarrow> u8 list" where
  "key_method m =
     (if mt_id m \<noteq> PJSIP_INVITE_METHOD \<and> mt_id m \<noteq> PJSIP_ACK_METHOD then mt_name m @ [SEPARATOR] else [])"

text \<open>The size \<^verbatim>\<open>create_tsx_key_2543\<close> allocates for the key.\<close>

definition key_2543_size :: "pjsip_method \<Rightarrow> u8 list \<Rightarrow> u8 list \<Rightarrow> u8 list \<Rightarrow> bool \<Rightarrow> nat" where
  "key_2543_size m from_tag cid host include_via =
     length (mt_name m) + 11 + length from_tag + length cid + 16 + (if include_via then length host + 11 else 0)"

definition create_tsx_key_2543 :: "pjsip_role_e \<Rightarrow> pjsip_method \<Rightarrow> sip_rdata \<Rightarrow> bool \<Rightarrow> pj_status + u8 list" where
  "create_tsx_key_2543 role m rdata include_via =
     (case (rd_via rdata, rd_cseq rdata, rd_from_tag rdata) of
        (Some via, Some (cseq, _), Some from_tag) \<Rightarrow>
          Inr ([key_role role, SEPARATOR] @ key_method m @ pj_utoa (ulong cseq) @ [SEPARATOR] @ from_tag @ [SEPARATOR] @
            rd_cid rdata @ [SEPARATOR] @
            (if include_via then via_host via @ [58] @ pj_utoa (ulong (via_port via)) @ [SEPARATOR] else []) @ [0])
      | _ \<Rightarrow> Inl PJSIP_EMISSINGHDR)"

definition key_3261_size :: "pjsip_method \<Rightarrow> u8 list \<Rightarrow> nat" where
  "key_3261_size m branch = length branch + length (mt_name m) + 4"

definition create_tsx_key_3261 :: "pjsip_role_e \<Rightarrow> pjsip_method \<Rightarrow> u8 list \<Rightarrow> u8 list" where
  "create_tsx_key_3261 role m branch = [key_role role, SEPARATOR] @ key_method m @ branch"

definition is_rfc3261 :: "u8 list \<Rightarrow> bool" where
  "is_rfc3261 branch \<longleftrightarrow>
     map pj_tolower (take PJSIP_RFC3261_BRANCH_LEN branch) = map pj_tolower PJSIP_RFC3261_BRANCH_ID"

definition pjsip_tsx_create_key :: "pjsip_role_e \<Rightarrow> pjsip_method \<Rightarrow> sip_rdata \<Rightarrow> (pj_status + u8 list) option" where
  "pjsip_tsx_create_key role m rdata =
     (case rd_via rdata of
        None \<Rightarrow> None
      | Some via \<Rightarrow>
          Some (if is_rfc3261 (via_branch via) then Inr (create_tsx_key_3261 role m (via_branch via))
                else create_tsx_key_2543 role m rdata True))"

section \<open>Registered transactions\<close>

record layer_tsx =
  lt_role :: pjsip_role_e
  lt_method :: pjsip_method
  lt_cseq :: int
  lt_key :: "u8 list"
  lt_key2 :: "u8 list"
  lt_world :: sip_world

record tsx_layer =
  ly_sip :: sip_key
  ly_htable :: "nat pj_hash_table"
  ly_htable2 :: "nat pj_hash_table"
  ly_tsx :: "nat \<rightharpoonup> layer_tsx"

text \<open>\<^verbatim>\<open>tsx->hashed_key\<close> and \<^verbatim>\<open>tsx->hashed_key2\<close>.\<close>

definition hashed :: "u8 list \<Rightarrow> u32" where
  "hashed key = snd (pj_hash_calc_tolower 0 key)"

definition ht_find :: "sip_key \<Rightarrow> nat pj_hash_table \<Rightarrow> u8 list \<Rightarrow> nat option" where
  "ht_find s ht key = (case pj_hash_get_lower s ht key (Some (length key)) (Some 0) of None \<Rightarrow> None | Some (v, _) \<Rightarrow> v)"

definition ht_set :: "sip_key \<Rightarrow> bool \<Rightarrow> nat pj_hash_table \<Rightarrow> u8 list \<Rightarrow> nat option \<Rightarrow> nat pj_hash_table" where
  "ht_set s pool ht key v =
     (case pj_hash_set_lower s pool ht key (Some (length key)) (hashed key) v of None \<Rightarrow> ht | Some ht' \<Rightarrow> ht')"

definition mod_tsx_layer_register_tsx :: "nat \<Rightarrow> layer_tsx \<Rightarrow> tsx_layer \<Rightarrow> tsx_layer \<times> pj_status" where
  "mod_tsx_layer_register_tsx i t ly =
     (if ht_find (ly_sip ly) (ly_htable ly) (lt_key t) \<noteq> None then (ly, PJ_EEXISTS)
      else
        (let ly = ly\<lparr>ly_htable := ht_set (ly_sip ly) True (ly_htable ly) (lt_key t) (Some i)\<rparr>;
             ly = (if lt_role t = PJSIP_ROLE_UAS
                   then ly\<lparr>ly_htable2 := ht_set (ly_sip ly) True (ly_htable2 ly) (lt_key2 t) (Some i)\<rparr> else ly) in
         (ly\<lparr>ly_tsx := (ly_tsx ly)(i \<mapsto> t)\<rparr>, PJ_SUCCESS)))"

definition layer_unregister_tsx :: "nat \<Rightarrow> tsx_layer \<Rightarrow> tsx_layer" where
  "layer_unregister_tsx i ly =
     (case ly_tsx ly i of
        None \<Rightarrow> ly
      | Some t \<Rightarrow>
          let ly = ly\<lparr>ly_htable := ht_set (ly_sip ly) False (ly_htable ly) (lt_key t) None\<rparr> in
          if lt_role t = PJSIP_ROLE_UAS
          then ly\<lparr>ly_htable2 := ht_set (ly_sip ly) False (ly_htable2 ly) (lt_key2 t) None\<rparr> else ly)"

definition pjsip_tsx_layer_get_tsx_count :: "tsx_layer \<Rightarrow> nat" where
  "pjsip_tsx_layer_get_tsx_count ly = pj_hash_count (ly_htable ly)"

definition find_tsx :: "u8 list \<Rightarrow> tsx_layer \<Rightarrow> nat option" where
  "find_tsx key ly = ht_find (ly_sip ly) (ly_htable ly) key"

definition pjsip_tsx_layer_find_tsx :: "u8 list \<Rightarrow> tsx_layer \<Rightarrow> nat option" where
  "pjsip_tsx_layer_find_tsx key ly = find_tsx key ly"

section \<open>Creation\<close>

text \<open>
  \<open>create\<close> is the status of \<^verbatim>\<open>tsx_create\<close>, \<open>dest\<close> the result of \<^verbatim>\<open>pjsip_get_request_dest\<close> (whether the
  transport is reliable) and \<open>gen_branch\<close> the branch made for a request that has none.  The last
  result is the transaction that is shut down when the creation fails late.
\<close>

definition pjsip_tsx_create_uac2 ::
    "pj_status \<Rightarrow> pj_status + bool \<Rightarrow> u8 list \<Rightarrow> nat \<Rightarrow> pjsip_tx_data \<Rightarrow> pjsip_method \<Rightarrow> int option \<Rightarrow> u8 list \<Rightarrow>
       (nat \<Rightarrow> nat option) \<Rightarrow> tsx_layer \<Rightarrow> tsx_layer \<times> pj_status" where
  "pjsip_tsx_create_uac2 create dest gen_branch i tdata m cseq branch mod_data ly =
     (if \<not> is_request (td_msg tdata) then (ly, PJSIP_ENOTREQUESTMSG)
      else if mt_id m = PJSIP_ACK_METHOD then (ly, PJ_EINVALIDOP)
      else
        (case cseq of
           None \<Rightarrow> (ly, PJSIP_EMISSINGHDR)
         | Some cs \<Rightarrow>
             if create \<noteq> PJ_SUCCESS then (ly, create)
             else
               (let branch = (if branch = [] then PJSIP_RFC3261_BRANCH_ID @ [80, 106] @ gen_branch else branch);
                    key = create_tsx_key_3261 PJSIP_ROLE_UAC m branch in
                case dest of
                  Inl status \<Rightarrow> (ly, status)
                | Inr reliable \<Rightarrow>
                    mod_tsx_layer_register_tsx i
                      \<lparr>lt_role = PJSIP_ROLE_UAC, lt_method = m, lt_cseq = cs, lt_key = key, lt_key2 = [],
                       lt_world = tsx_init_uac (mt_id m) tdata reliable (tsx_create i True mod_data)\<rparr> ly)))"

definition pjsip_method_cmp_eq :: "pjsip_method \<Rightarrow> pjsip_method \<Rightarrow> bool" where
  "pjsip_method_cmp_eq m1 m2 \<longleftrightarrow>
     mt_id m1 = mt_id m2 \<and> (mt_id m1 \<noteq> PJSIP_OTHER_METHOD \<or> mt_name m1 = mt_name m2)"

text \<open>\<open>addr\<close> is the result of \<^verbatim>\<open>pjsip_get_response_addr\<close>: the transport to use, or whether the
  destination is reliable.\<close>

definition pjsip_tsx_create_uas2 ::
    "sip_env \<Rightarrow> pj_status \<Rightarrow> pj_status + (pjsip_transport + bool) \<Rightarrow> nat \<Rightarrow> sip_rdata \<Rightarrow> (nat \<Rightarrow> nat option) \<Rightarrow> tsx_layer \<Rightarrow>
       tsx_layer \<times> pj_status" where
  "pjsip_tsx_create_uas2 env create addr i rdata mod_data ly =
     (if \<not> is_request (rd_msg rdata) then (ly, PJSIP_ENOTREQUESTMSG)
      else if mt_id (rd_method rdata) = PJSIP_ACK_METHOD then (ly, PJ_EINVALIDOP)
      else
        (case (rd_cseq rdata, rd_via rdata) of
           (Some (cs, cm), Some via) \<Rightarrow>
             if \<not> pjsip_method_cmp_eq (rd_method rdata) cm then (ly, PJSIP_EINVALIDHDR)
             else if create \<noteq> PJ_SUCCESS then (ly, create)
             else
               (case pjsip_tsx_create_key PJSIP_ROLE_UAS (rd_method rdata) rdata of
                  Some (Inr key) \<Rightarrow>
                    (case create_tsx_key_2543 PJSIP_ROLE_UAS (rd_method rdata) rdata False of
                       Inl status \<Rightarrow> (ly, status)
                     | Inr key2 \<Rightarrow>
                         (case addr of
                            Inl status \<Rightarrow> (ly, status)
                          | Inr a \<Rightarrow>
                              mod_tsx_layer_register_tsx i
                                \<lparr>lt_role = PJSIP_ROLE_UAS, lt_method = rd_method rdata, lt_cseq = cs, lt_key = key, lt_key2 = key2,
                                 lt_world = tsx_init_uas env (mt_id (rd_method rdata))
                                   (case a of Inl t \<Rightarrow> Some t | Inr _ \<Rightarrow> None) (case a of Inl _ \<Rightarrow> False | Inr r \<Rightarrow> r)
                                   (tsx_create i True mod_data)\<rparr> ly))
                | Some (Inl status) \<Rightarrow> (ly, status)
                | None \<Rightarrow> (ly, PJSIP_EMISSINGHDR))
         | _ \<Rightarrow> (ly, PJSIP_EMISSINGHDR)))"

section \<open>Received messages\<close>

text \<open>A transaction after an operation; a destroyed transaction has left the tables.\<close>

definition store_tsx :: "nat \<Rightarrow> layer_tsx \<Rightarrow> sip_world \<Rightarrow> tsx_layer \<Rightarrow> tsx_layer" where
  "store_tsx i t w ly =
     (let ly = (if ts_state w = PJSIP_TSX_STATE_DESTROYED \<and> ts_state (lt_world t) \<noteq> PJSIP_TSX_STATE_DESTROYED
                then layer_unregister_tsx i ly else ly) in
      ly\<lparr>ly_tsx := (ly_tsx ly)(i \<mapsto> t\<lparr>lt_world := w\<rparr>)\<rparr>)"

datatype rx_result = Rx_pass | Rx_bad_request | Rx_tsx nat

definition pjsip_tsx_detect_merged_requests :: "sip_rdata \<Rightarrow> tsx_layer \<Rightarrow> nat option" where
  "pjsip_tsx_detect_merged_requests rdata ly =
     (if rd_to_tag rdata \<noteq> [] then None
      else
        (case rd_cseq rdata of
           None \<Rightarrow> None
         | Some (_, cm) \<Rightarrow>
             (case pjsip_tsx_create_key PJSIP_ROLE_UAS cm rdata of
                Some (Inr key) \<Rightarrow>
                  if ht_find (ly_sip ly) (ly_htable ly) key \<noteq> None then None
                  else
                    (case create_tsx_key_2543 PJSIP_ROLE_UAS cm rdata False of
                       Inl _ \<Rightarrow> None
                     | Inr key2 \<Rightarrow> ht_find (ly_sip ly) (ly_htable2 ly) key2)
              | _ \<Rightarrow> None)))"

definition mod_tsx_layer_on_rx_request :: "sip_env \<Rightarrow> sip_rdata \<Rightarrow> tsx_layer \<Rightarrow> (tsx_layer \<times> rx_result) option" where
  "mod_tsx_layer_on_rx_request env rdata ly =
     (case rd_cseq rdata of
        None \<Rightarrow> None
      | Some (cs, cm) \<Rightarrow>
          (case pjsip_tsx_create_key PJSIP_ROLE_UAS cm rdata of
             Some (Inr key) \<Rightarrow>
               (case Option.bind (find_tsx key ly) (\<lambda>i. map_option (Pair i) (ly_tsx ly i)) of
                  None \<Rightarrow> Some (ly, Rx_pass)
                | Some (i, t) \<Rightarrow>
                    let w = lt_world t in
                    if ts_state w = PJSIP_TSX_STATE_TERMINATED then Some (ly, Rx_pass)
                    else if mt_id (rd_method rdata) = PJSIP_ACK_METHOD \<and> ts_method w = PJSIP_INVITE_METHOD \<and>
                            c_div (ts_status_code w) 100 = 2 then Some (ly, Rx_pass)
                    else if mt_id (rd_method rdata) = ts_method w \<and> cs \<noteq> lt_cseq t then Some (ly, Rx_bad_request)
                    else
                      (case pjsip_tsx_recv_msg env (rd_msg rdata) w of
                         None \<Rightarrow> None
                       | Some (w', _) \<Rightarrow> Some (store_tsx i t w' ly, Rx_tsx i)))
           | _ \<Rightarrow> None))"

definition mod_tsx_layer_on_rx_response :: "sip_env \<Rightarrow> sip_rdata \<Rightarrow> tsx_layer \<Rightarrow> (tsx_layer \<times> rx_result) option" where
  "mod_tsx_layer_on_rx_response env rdata ly =
     (case rd_cseq rdata of
        None \<Rightarrow> None
      | Some (cs, cm) \<Rightarrow>
          (case pjsip_tsx_create_key PJSIP_ROLE_UAC cm rdata of
             Some (Inr key) \<Rightarrow>
               (case Option.bind (find_tsx key ly) (\<lambda>i. map_option (Pair i) (ly_tsx ly i)) of
                  None \<Rightarrow> Some (ly, Rx_pass)
                | Some (i, t) \<Rightarrow>
                    if ts_state (lt_world t) = PJSIP_TSX_STATE_TERMINATED then Some (ly, Rx_pass)
                    else
                      (case pjsip_tsx_recv_msg env (rd_msg rdata) (lt_world t) of
                         None \<Rightarrow> None
                       | Some (w', _) \<Rightarrow> Some (store_tsx i t w' ly, Rx_tsx i)))
           | _ \<Rightarrow> None))"

end
