(* ===== verification/Sip_Tsx_Inv.thy ===== *)
theory Sip_Tsx_Inv
  imports Sip_Tsx
begin

text \<open>
  The invariant of a SIP transaction and its preservation by every operation: the role fits
  the state, the flags of pending work fit the state, the timeout timer runs in every state
  that must come to an end, and the notifications of the transaction user form a path through
  the states that ends in the current one.
\<close>

section \<open>The invariant\<close>

text \<open>The state after the notifications of a log, if they form an ascending path.\<close>

fun walk :: "pjsip_tsx_state_e \<Rightarrow> tsx_log list \<Rightarrow> pjsip_tsx_state_e option" where
  "walk st [] = Some st"
| "walk st (Tu_state p n src # es) = (if p = st \<and> p \<le> n then walk n es else None)"
| "walk st (_ # es) = walk st es"

lemma walk_append: "walk st (es @ fs) = Option.bind (walk st es) (\<lambda>st'. walk st' fs)"
  by (induction st es rule: walk.induct) auto

definition role_ok :: "sip_world \<Rightarrow> bool" where
  "role_ok w \<longleftrightarrow>
     (ts_role w = PJSIP_ROLE_UAC \<longrightarrow> ts_state w \<noteq> PJSIP_TSX_STATE_TRYING \<and> ts_state w \<noteq> PJSIP_TSX_STATE_CONFIRMED) \<and>
     (ts_role w = PJSIP_ROLE_UAS \<longrightarrow> ts_state w \<noteq> PJSIP_TSX_STATE_CALLING)"

definition flags_ok :: "sip_world \<Rightarrow> bool" where
  "flags_ok w \<longleftrightarrow>
     (ts_role w = PJSIP_ROLE_UAC \<and> ts_state w < PJSIP_TSX_STATE_TERMINATED \<and> f_pending_send w \<longrightarrow>
        f_pending_transport w \<or> f_resolved_server w) \<and>
     (ts_role w = PJSIP_ROLE_UAC \<and> (ts_transport w \<noteq> None \<or> sx_tp_sends w \<noteq> 0) \<longrightarrow> f_resolved_server w) \<and>
     (f_pending_destroy w \<longrightarrow> ts_state w = PJSIP_TSX_STATE_DESTROYED) \<and>
     (ts_state w = PJSIP_TSX_STATE_DESTROYED \<longrightarrow> \<not> f_pending_send w \<and> ts_last_tx w = None)"

definition timers_ok :: "sip_world \<Rightarrow> bool" where
  "timers_ok w \<longleftrightarrow>
     tm_id (ts_retransmit_timer w) \<in> {SIP_TIMER_INACTIVE, RETRANSMIT_TIMER} \<and>
     (ts_state w = PJSIP_TSX_STATE_COMPLETED \<or> ts_state w = PJSIP_TSX_STATE_CONFIRMED \<longrightarrow>
        ts_status_code w \<ge> 200 \<and> tm_due (ts_timeout_timer w) \<noteq> None) \<and>
     (ts_state w = PJSIP_TSX_STATE_TERMINATED \<longrightarrow>
        tm_due (ts_timeout_timer w) \<noteq> None \<and> tm_id (ts_timeout_timer w) = TIMEOUT_TIMER)"

definition log_ok :: "sip_world \<Rightarrow> bool" where
  "log_ok w \<longleftrightarrow> (ts_user w \<or> ts_state w = PJSIP_TSX_STATE_DESTROYED) \<and>
     walk PJSIP_TSX_STATE_NULL (sx_log w) = Some (ts_state w) \<and>
     ts_terminating w = (ts_state w = PJSIP_TSX_STATE_DESTROYED) \<and>
     count_list (sx_log w) Released = of_bool (ts_terminating w)"

definition tsx_inv :: "sip_world \<Rightarrow> bool" where
  "tsx_inv w \<longleftrightarrow> role_ok w \<and> flags_ok w \<and> timers_ok w \<and> log_ok w"

lemmas inv_defs = tsx_inv_def role_ok_def flags_ok_def timers_ok_def log_ok_def

section \<open>Timers\<close>

lemma slot_restart [simp]:
  "slot_schedule now d i (slot_cancel s) = (\<lparr>tm_due = Some (PJ_TIME_VAL_ADD now d), tm_id = i\<rparr>, PJ_SUCCESS)"
  by (simp add: slot_schedule_def slot_cancel_def)

lemma slot_cancel_simps [simp]:
  "tm_due (slot_cancel s) = None"
  "tm_id (slot_cancel s) \<in> {SIP_TIMER_INACTIVE, tm_id s}"
  by (simp_all add: slot_cancel_def)

lemma restart_eq [simp]:
  "tsx_schedule_timer env Timeout_timer d i (tsx_cancel_timer Timeout_timer w) =
     w\<lparr>ts_timeout_timer := \<lparr>tm_due = Some (PJ_TIME_VAL_ADD (ev_now env) d), tm_id = i\<rparr>\<rparr>"
  "tsx_schedule_timer env Retransmit_timer d i (tsx_cancel_timer Retransmit_timer w) =
     w\<lparr>ts_retransmit_timer := \<lparr>tm_due = Some (PJ_TIME_VAL_ADD (ev_now env) d), tm_id = i\<rparr>\<rparr>"
  by (simp_all add: tsx_schedule_timer_def tsx_cancel_timer_def)

text \<open>A change of the retransmission timer keeps everything else.\<close>

definition same_but_retransmit :: "sip_world \<Rightarrow> sip_world \<Rightarrow> bool" where
  "same_but_retransmit w w' \<longleftrightarrow> (\<exists>s. w' = w\<lparr>ts_retransmit_timer := s\<rparr> \<and>
     tm_id s \<in> {SIP_TIMER_INACTIVE, RETRANSMIT_TIMER, tm_id (ts_retransmit_timer w)})"

lemma same_but_retransmit_inv:
  assumes "same_but_retransmit w w'" "tsx_inv w"
  shows "tsx_inv w'"
proof -
  obtain s where w': "w' = w\<lparr>ts_retransmit_timer := s\<rparr>"
    and s: "tm_id s \<in> {SIP_TIMER_INACTIVE, RETRANSMIT_TIMER, tm_id (ts_retransmit_timer w)}"
    using assms(1) by (auto simp: same_but_retransmit_def)
  have "tm_id s \<in> {SIP_TIMER_INACTIVE, RETRANSMIT_TIMER}"
    using s assms(2) by (auto simp: tsx_inv_def timers_ok_def)
  then have "timers_ok w'" using assms(2) by (simp add: tsx_inv_def timers_ok_def w')
  moreover have "role_ok w'" "flags_ok w'" "log_ok w'"
    using assms(2) by (simp_all add: tsx_inv_def role_ok_def flags_ok_def log_ok_def w')
  ultimately show ?thesis by (simp add: tsx_inv_def)
qed

lemma retransmit_timer_ops:
  "same_but_retransmit w (tsx_cancel_timer Retransmit_timer w)"
  "same_but_retransmit w (tsx_schedule_timer env Retransmit_timer d RETRANSMIT_TIMER w)"
  "same_but_retransmit w (tsx_resched_retransmission env w)"
proof -
  have I: "same_but_retransmit w (w\<lparr>ts_retransmit_timer := s\<rparr>)"
    if "tm_id s \<in> {SIP_TIMER_INACTIVE, RETRANSMIT_TIMER, tm_id (ts_retransmit_timer w)}" for s
    using that unfolding same_but_retransmit_def by blast
  show S: "same_but_retransmit w (tsx_schedule_timer env Retransmit_timer d RETRANSMIT_TIMER w)" for d
    unfolding tsx_schedule_timer_def on_timer.simps by (rule I) (simp add: slot_schedule_def)
  show "same_but_retransmit w (tsx_cancel_timer Retransmit_timer w)"
    unfolding tsx_cancel_timer_def on_timer.simps by (rule I) (simp add: slot_cancel_def)
  have "same_but_retransmit w w" using I [of "ts_retransmit_timer w"] by simp
  then show "same_but_retransmit w (tsx_resched_retransmission env w)"
    using S by (simp add: tsx_resched_retransmission_def Let_def)
qed

section \<open>State changes\<close>

text \<open>What the transaction user is told of a state change.\<close>

definition tu_notes :: "pjsip_tsx_state_e \<Rightarrow> event_src \<Rightarrow> sip_world \<Rightarrow> tsx_log list" where
  "tu_notes st src w =
     (if ts_user w
      then (case src of Src_rx_msg (Response code) \<Rightarrow> [Tu_rx_response code] | _ \<Rightarrow> []) @ [Tu_state (ts_state w) st src]
      else [])"

lemma notify_state_eq: "notify_state st src False w = w\<lparr>ts_state := st, sx_log := sx_log w @ tu_notes st src w\<rparr>"
  by (simp add: notify_state_def Let_def tu_notes_def log_tsx_def split: event_src.split pjsip_msg.split)

lemma notify_state_silent: "notify_state st src True w = w\<lparr>ts_state := st\<rparr>"
  by (simp add: notify_state_def Let_def split: event_src.split pjsip_msg.split)

lemma set_state_eq [simp]:
  assumes "st \<noteq> PJSIP_TSX_STATE_TERMINATED" "st \<noteq> PJSIP_TSX_STATE_DESTROYED"
  shows "tsx_set_state env st src False False w = w\<lparr>ts_state := st, sx_log := sx_log w @ tu_notes st src w\<rparr>"
  using assms by (simp add: tsx_set_state_def notify_state_eq)

text \<open>The transmit buffer a terminated transaction lets go of.\<close>

definition detached :: "sip_world \<Rightarrow> nat \<Rightarrow> nat option" where
  "detached w =
     (if f_pending_transport w
      then (case ts_pending_tx w of Some t \<Rightarrow> (sx_mod_data w)(t := None) | None \<Rightarrow> sx_mod_data w)
      else sx_mod_data w)"

lemma count_notes [simp]: "count_list (tu_notes st src w) Released = 0"
  by (simp add: tu_notes_def split: event_src.split pjsip_msg.split)

lemma terminated_eq:
  "tsx_set_state env PJSIP_TSX_STATE_TERMINATED src False False w =
    w\<lparr>ts_state := PJSIP_TSX_STATE_TERMINATED, sx_log := sx_log w @ tu_notes PJSIP_TSX_STATE_TERMINATED src w,
      sx_mod_data := detached w, ts_pending_tx := (if f_pending_transport w then None else ts_pending_tx w),
      f_pending_transport := False,
      ts_timeout_timer := \<lparr>tm_due = Some (PJ_TIME_VAL_ADD (ev_now env) (Time_val 0 0)), tm_id = TIMEOUT_TIMER\<rparr>\<rparr>"
  by (cases w) (simp add: tsx_set_state_def notify_state_eq enter_terminated_def detached_def Let_def split: option.split)

lemma walk_notes:
  assumes "walk PJSIP_TSX_STATE_NULL (sx_log w) = Some (ts_state w)" "ts_state w \<le> st" "ts_user w \<or> st = ts_state w"
  shows "walk PJSIP_TSX_STATE_NULL (sx_log w @ tu_notes st src w) = Some st"
  using assms by (auto simp: walk_append tu_notes_def split: event_src.split pjsip_msg.split)

text \<open>What holds before a transaction that is not destroyed is terminated.\<close>

definition pre_inv :: "sip_world \<Rightarrow> bool" where
  "pre_inv w \<longleftrightarrow>
     (ts_role w = PJSIP_ROLE_UAC \<and> (ts_transport w \<noteq> None \<or> sx_tp_sends w \<noteq> 0) \<longrightarrow> f_resolved_server w) \<and>
     \<not> f_pending_destroy w \<and> tm_id (ts_retransmit_timer w) \<in> {SIP_TIMER_INACTIVE, RETRANSMIT_TIMER} \<and>
     ts_state w \<le> PJSIP_TSX_STATE_TERMINATED \<and> log_ok w"

lemma inv_pre: "tsx_inv w \<Longrightarrow> ts_state w \<noteq> PJSIP_TSX_STATE_DESTROYED \<Longrightarrow> pre_inv w"
  by (cases "ts_state w") (simp_all add: pre_inv_def inv_defs state_order)

lemma terminated_inv:
  assumes "pre_inv w"
  shows "tsx_inv (tsx_set_state env PJSIP_TSX_STATE_TERMINATED src False False w)"
proof -
  note e = terminated_eq [of env src w]
  have "ts_user w" "ts_state w \<noteq> PJSIP_TSX_STATE_DESTROYED" using assms by (auto simp: pre_inv_def log_ok_def state_order)
  then have "log_ok (tsx_set_state env PJSIP_TSX_STATE_TERMINATED src False False w)"
    using assms walk_notes [of w PJSIP_TSX_STATE_TERMINATED src] by (simp add: e log_ok_def pre_inv_def)
  then show ?thesis using assms by (simp add: tsx_inv_def role_ok_def flags_ok_def timers_ok_def pre_inv_def e state_order)
qed

lemma terminated_fields [simp]:
  "ts_state (tsx_set_state env PJSIP_TSX_STATE_TERMINATED src False False w) = PJSIP_TSX_STATE_TERMINATED"
  "tm_due (ts_timeout_timer (tsx_set_state env PJSIP_TSX_STATE_TERMINATED src False False w)) \<noteq> None"
  "ts_status_code (tsx_set_state env PJSIP_TSX_STATE_TERMINATED src False False w) = ts_status_code w"
  "ts_transport_err (tsx_set_state env PJSIP_TSX_STATE_TERMINATED src False False w) = ts_transport_err w"
  "ts_role (tsx_set_state env PJSIP_TSX_STATE_TERMINATED src False False w) = ts_role w"
  "ts_method (tsx_set_state env PJSIP_TSX_STATE_TERMINATED src False False w) = ts_method w"
  by (simp_all add: terminated_eq)

text \<open>The log entries of a destruction besides the notification.\<close>

definition farewell :: "sip_world \<Rightarrow> tsx_log list" where
  "farewell w = (if sx_layer_up w then [Unregistered] else []) @ (if ts_terminating w then [] else [Released])"

lemma destroyed_eq:
  "tsx_set_state env PJSIP_TSX_STATE_DESTROYED src False False w =
    w\<lparr>ts_state := PJSIP_TSX_STATE_DESTROYED, sx_log := sx_log w @ tu_notes PJSIP_TSX_STATE_DESTROYED src w @ farewell w,
      ts_transport := None, ts_last_tx := None, ts_timeout_timer := slot_cancel (ts_timeout_timer w),
      ts_retransmit_timer := slot_cancel (ts_retransmit_timer w), f_pending_resched := False, f_pending_send := False,
      f_pending_destroy := f_pending_destroy w \<or> f_pending_transport w,
      ts_user := ts_user w \<and> \<not> f_pending_transport w, ts_terminating := True\<rparr>"
  by (cases w) (simp add: tsx_set_state_def notify_state_eq mod_tsx_layer_unregister_tsx_def log_tsx_def tsx_shutdown_def
      tsx_update_transport_def tsx_cancel_timer_def Let_def farewell_def)

lemma walk_farewell [simp]: "walk st (farewell w) = Some st"
  "count_list (farewell w) Released = of_bool (\<not> ts_terminating w)"
  by (simp_all add: farewell_def)

lemma destroyed_inv:
  assumes "pre_inv w \<or> tsx_inv w"
  shows "tsx_inv (tsx_set_state env PJSIP_TSX_STATE_DESTROYED src False False w)"
proof -
  note e = destroyed_eq [of env src w]
  have l: "log_ok w" and i: "tm_id (ts_retransmit_timer w) \<in> {SIP_TIMER_INACTIVE, RETRANSMIT_TIMER}"
    and f: "ts_role w = PJSIP_ROLE_UAC \<and> (ts_transport w \<noteq> None \<or> sx_tp_sends w \<noteq> 0) \<longrightarrow> f_resolved_server w"
    using assms by (auto simp: pre_inv_def tsx_inv_def timers_ok_def flags_ok_def)
  have "ts_state w \<le> PJSIP_TSX_STATE_DESTROYED" by (cases "ts_state w") (simp_all add: state_order)
  then have "walk PJSIP_TSX_STATE_NULL (sx_log w @ tu_notes PJSIP_TSX_STATE_DESTROYED src w @ farewell w) = Some PJSIP_TSX_STATE_DESTROYED"
    using l walk_notes [of w PJSIP_TSX_STATE_DESTROYED src]
    by (auto simp: log_ok_def walk_append simp flip: append_assoc)
  moreover have "tm_id (slot_cancel (ts_retransmit_timer w)) \<in> {SIP_TIMER_INACTIVE, RETRANSMIT_TIMER}"
    using i by (auto simp: slot_cancel_def)
  moreover have "count_list (sx_log w) Released = of_bool (ts_terminating w)" using l by (simp add: log_ok_def)
  ultimately show ?thesis using f by (simp add: inv_defs e state_order)
qed

section \<open>Transmissions\<close>

text \<open>A failure the transport layer reports is an error code, and a stateless send that is refused
  makes no callback.\<close>

fun net_ok :: "net \<Rightarrow> bool" and cb_ok :: "cb \<Rightarrow> bool" and cbs_ok :: "cb list \<Rightarrow> bool" where
  "net_ok (Net busy tp cbs ret) \<longleftrightarrow> cbs_ok cbs \<and> (ret \<noteq> PJ_SUCCESS \<and> ret \<noteq> PJ_EPENDING \<longrightarrow> cbs = [])"
| "cb_ok (Cb_sent t n) \<longleftrightarrow> net_ok n"
| "cb_ok (Cb_failed st t c) \<longleftrightarrow> st \<noteq> PJ_SUCCESS"
| "cbs_ok [] \<longleftrightarrow> True"
| "cbs_ok (c # cs) \<longleftrightarrow> cb_ok c \<and> cbs_ok cs"

text \<open>What a transmission or one of its callbacks may change.\<close>

definition tx_frame :: "sip_world \<Rightarrow> sip_world \<Rightarrow> bool" where
  "tx_frame w w' \<longleftrightarrow>
     ts_role w' = ts_role w \<and> ts_method w' = ts_method w \<and> ts_handle_200resp w' = ts_handle_200resp w \<and>
     (ts_state w' = ts_state w \<or> ts_state w < PJSIP_TSX_STATE_TERMINATED \<and> ts_state w' = PJSIP_TSX_STATE_TERMINATED) \<and>
     (ts_state w \<noteq> PJSIP_TSX_STATE_DESTROYED \<longrightarrow>
        ts_last_tx w' = ts_last_tx w \<and> (tm_due (ts_timeout_timer w) \<noteq> None \<longrightarrow> tm_due (ts_timeout_timer w') \<noteq> None)) \<and>
     (ts_status_code w' = ts_status_code w \<or> 200 \<le> ts_status_code w') \<and>
     (ts_transport_err w \<noteq> PJ_SUCCESS \<longrightarrow> ts_transport_err w' \<noteq> PJ_SUCCESS)"

lemma tx_frame_refl [simp]: "tx_frame w w"
  by (simp add: tx_frame_def)

lemma tx_frame_trans: "tx_frame w w' \<Longrightarrow> tx_frame w' w'' \<Longrightarrow> tx_frame w w''"
  unfolding tx_frame_def by (elim conjE disjE; simp add: state_order)

lemma tx_frame_retransmit: "same_but_retransmit w w' \<Longrightarrow> tx_frame w w'"
  by (auto simp: same_but_retransmit_def tx_frame_def)

lemma update_transport_None [simp]: "tsx_update_transport env None w = w\<lparr>ts_transport := None\<rparr>"
  by (simp add: tsx_update_transport_def)

lemma inv_frame:
  assumes "tsx_inv w" "ts_state w' = ts_state w" "ts_role w' = ts_role w" "f_pending_send w' = f_pending_send w"
    "f_resolved_server w \<longrightarrow> f_resolved_server w'" "f_pending_transport w' = f_pending_transport w \<or> f_pending_transport w' \<or> f_resolved_server w' \<or> \<not> f_pending_send w \<or> ts_role w = PJSIP_ROLE_UAS \<or> ts_state w \<ge> PJSIP_TSX_STATE_TERMINATED"
    "ts_role w = PJSIP_ROLE_UAC \<and> (ts_transport w' \<noteq> None \<or> sx_tp_sends w' \<noteq> 0) \<longrightarrow> ts_transport w \<noteq> None \<or> sx_tp_sends w \<noteq> 0 \<or> f_resolved_server w'"
    "f_pending_destroy w' = f_pending_destroy w" "ts_last_tx w' = ts_last_tx w"
    "tm_id (ts_retransmit_timer w') = tm_id (ts_retransmit_timer w)" "ts_status_code w' = ts_status_code w"
    "ts_timeout_timer w' = ts_timeout_timer w \<or>
      tm_due (ts_timeout_timer w') \<noteq> None \<and> (ts_state w = PJSIP_TSX_STATE_TERMINATED \<longrightarrow> tm_id (ts_timeout_timer w') = TIMEOUT_TIMER)"
    "ts_user w' = ts_user w" "ts_terminating w' = ts_terminating w" "sx_log w' = sx_log w \<or> (\<exists>n. sx_log w' = sx_log w @ [Net_send n])"
  shows "tsx_inv w'"
proof -
  have "log_ok w'" using assms(1,2,13-15) by (auto simp: tsx_inv_def log_ok_def walk_append)
  moreover have "timers_ok w'" using assms(1,2,10,11,12) by (auto simp: tsx_inv_def timers_ok_def)
  moreover have "role_ok w'" using assms(1-3) by (simp add: tsx_inv_def role_ok_def)
  moreover have "flags_ok w'"
    using assms(1) unfolding tsx_inv_def flags_ok_def assms(2-4,8,9) using assms(5-7) by (auto simp: not_less)
  ultimately show ?thesis by (simp add: tsx_inv_def)
qed

lemma tp_state_callback_fields:
  "\<exists>t. tsx_tp_state_callback env st w = w\<lparr>f_pending_transport := False, ts_transport_err := st, ts_timeout_timer := t\<rparr> \<and>
     (t = ts_timeout_timer w \<or> ts_state w < PJSIP_TSX_STATE_COMPLETED \<and> tm_due t \<noteq> None)"
proof (cases "ts_state w < PJSIP_TSX_STATE_COMPLETED")
  case True
  then show ?thesis by (auto simp: tsx_tp_state_callback_def Let_def)
next
  case False
  then show ?thesis by (intro exI [of _ "ts_timeout_timer w"]) (simp add: tsx_tp_state_callback_def Let_def)
qed

lemma adopt_transport_fields:
  "\<exists>tp rel err t fr. adopt_transport env cur ours w =
     w\<lparr>ts_transport := tp, ts_is_reliable := rel, f_pending_transport := False, ts_transport_err := err,
       ts_timeout_timer := t, f_resolved_server := fr\<rparr> \<and>
     (t = ts_timeout_timer w \<or> ts_state w < PJSIP_TSX_STATE_COMPLETED \<and> tm_due t \<noteq> None) \<and>
     fr = (ours \<or> f_resolved_server w) \<and> (ours \<or> tp = ts_transport w) \<and>
     (err = ts_transport_err w \<or> err \<noteq> PJ_SUCCESS)"
proof -
  have up: "\<exists>ft err t. tsx_update_transport env (Some cur) w =
      w\<lparr>ts_transport := Some cur, f_pending_transport := ft, ts_transport_err := err, ts_timeout_timer := t\<rparr> \<and>
      (t = ts_timeout_timer w \<or> ts_state w < PJSIP_TSX_STATE_COMPLETED \<and> tm_due t \<noteq> None) \<and>
      (err = ts_transport_err w \<or> err \<noteq> PJ_SUCCESS)"
  proof (cases "tp_down cur")
    case True
    then show ?thesis
      using tp_state_callback_fields [of env "PJ_EOTHER PJSIP_SC_TSX_TRANSPORT_ERROR" "w\<lparr>ts_transport := Some cur\<rparr>"]
      by (auto simp: tsx_update_transport_def)
  next
    case False
    then show ?thesis
      by (intro exI [of _ "f_pending_transport w"] exI [of _ "ts_transport_err w"] exI [of _ "ts_timeout_timer w"])
        (simp add: tsx_update_transport_def)
  qed
  show ?thesis
  proof (cases "ours \<and> ts_transport w \<noteq> Some cur")
    case True
    obtain ft err t where u: "tsx_update_transport env (Some cur) w =
      w\<lparr>ts_transport := Some cur, f_pending_transport := ft, ts_transport_err := err, ts_timeout_timer := t\<rparr>"
      and te: "t = ts_timeout_timer w \<or> ts_state w < PJSIP_TSX_STATE_COMPLETED \<and> tm_due t \<noteq> None"
        "err = ts_transport_err w \<or> err \<noteq> PJ_SUCCESS"
      using up by blast
    show ?thesis
      by (intro exI [of _ "Some cur"] exI [of _ "tp_reliable cur"] exI [of _ err] exI [of _ t] exI [of _ True])
        (use True te in \<open>simp add: adopt_transport_def Let_def u\<close>)
  next
    case False
    then show ?thesis
      by (intro exI [of _ "ts_transport w"] exI [of _ "ts_is_reliable w"] exI [of _ "ts_transport_err w"]
          exI [of _ "ts_timeout_timer w"] exI [of _ "ours \<or> f_resolved_server w"])
        (cases w; auto simp: adopt_transport_def Let_def)
  qed
qed

lemma adopt_transport_inv:
  assumes "tsx_inv w"
  shows "ours \<or> \<not> f_pending_send w \<or> ts_state w \<ge> PJSIP_TSX_STATE_TERMINATED \<Longrightarrow> tsx_inv (adopt_transport env cur ours w)"
    "ts_state w \<noteq> PJSIP_TSX_STATE_DESTROYED \<Longrightarrow> tsx_inv ((adopt_transport env cur ours w)\<lparr>f_pending_send := False\<rparr>)"
    "tx_frame w (adopt_transport env cur ours w)"
    "f_pending_send (adopt_transport env cur ours w) = f_pending_send w"
    "f_pending_destroy (adopt_transport env cur ours w) = f_pending_destroy w"
    "ts_state (adopt_transport env cur ours w) = ts_state w"
proof -
  obtain tp rel err t fr where e: "adopt_transport env cur ours w =
     w\<lparr>ts_transport := tp, ts_is_reliable := rel, f_pending_transport := False, ts_transport_err := err,
       ts_timeout_timer := t, f_resolved_server := fr\<rparr>"
    and t: "t = ts_timeout_timer w \<or> ts_state w < PJSIP_TSX_STATE_COMPLETED \<and> tm_due t \<noteq> None"
    and fr: "fr = (ours \<or> f_resolved_server w)" "ours \<or> tp = ts_transport w"
    and err: "err = ts_transport_err w \<or> err \<noteq> PJ_SUCCESS"
    using adopt_transport_fields [of env cur ours w] by blast
  have t': "t = ts_timeout_timer w \<or> tm_due t \<noteq> None \<and> (ts_state w = PJSIP_TSX_STATE_TERMINATED \<longrightarrow> tm_id t = TIMEOUT_TIMER)"
    using t by (auto simp: state_order)
  have tr: "ts_role w = PJSIP_ROLE_UAC \<and> (tp \<noteq> None \<or> sx_tp_sends w \<noteq> 0) \<longrightarrow> ts_transport w \<noteq> None \<or> sx_tp_sends w \<noteq> 0 \<or> fr"
    using fr by auto
  show "tsx_inv (adopt_transport env cur ours w)"
    if "ours \<or> \<not> f_pending_send w \<or> ts_state w \<ge> PJSIP_TSX_STATE_TERMINATED"
    unfolding e by (rule inv_frame [OF assms]) (use that fr tr t' in auto)
  show "tsx_inv ((adopt_transport env cur ours w)\<lparr>f_pending_send := False\<rparr>)" if "ts_state w \<noteq> PJSIP_TSX_STATE_DESTROYED"
  proof -
    have "tsx_inv (w\<lparr>f_pending_send := False\<rparr>)" using assms by (simp add: inv_defs)
    then show ?thesis unfolding e by (rule inv_frame) (use fr tr t' in auto)
  qed
  show "tx_frame w (adopt_transport env cur ours w)" using t err by (auto simp: e tx_frame_def)
  show "f_pending_send (adopt_transport env cur ours w) = f_pending_send w"
    "f_pending_destroy (adopt_transport env cur ours w) = f_pending_destroy w"
    "ts_state (adopt_transport env cur ours w) = ts_state w" by (simp_all add: e)
qed

lemma resched_if_pending_inv:
  assumes "tsx_inv w"
  shows "tsx_inv (resched_if_pending env w)" "tx_frame w (resched_if_pending env w)"
    "ts_transport_err (resched_if_pending env w) = ts_transport_err w"
    "ts_state (resched_if_pending env w) = ts_state w"
proof -
  let ?w = "w\<lparr>f_pending_resched := False\<rparr>"
  have i: "tsx_inv ?w" by (rule inv_frame [OF assms]) auto
  have f: "tx_frame w ?w" by (simp add: tx_frame_def)
  note R = retransmit_timer_ops(3) [of ?w env]
  show "tsx_inv (resched_if_pending env w)"
    using assms i same_but_retransmit_inv [OF R i] by (simp add: resched_if_pending_def Let_def)
  show "tx_frame w (resched_if_pending env w)"
    using f tx_frame_trans [OF f tx_frame_retransmit [OF R]] by (simp add: resched_if_pending_def Let_def)
  show "ts_transport_err (resched_if_pending env w) = ts_transport_err w"
    "ts_state (resched_if_pending env w) = ts_state w"
    using R by (auto simp: resched_if_pending_def Let_def same_but_retransmit_def)
qed

lemma tx_frameD:
  assumes "tx_frame w w'"
  shows "ts_role w' = ts_role w" "ts_method w' = ts_method w"
    "ts_state w' = ts_state w \<or> ts_state w < PJSIP_TSX_STATE_TERMINATED \<and> ts_state w' = PJSIP_TSX_STATE_TERMINATED"
    "ts_transport_err w \<noteq> PJ_SUCCESS \<Longrightarrow> ts_transport_err w' \<noteq> PJ_SUCCESS"
    "ts_state w \<noteq> PJSIP_TSX_STATE_DESTROYED \<Longrightarrow> ts_last_tx w' = ts_last_tx w"
  using assms by (auto simp: tx_frame_def)

text \<open>A failed transmission.\<close>

lemma give_up_inv:
  assumes inv: "tsx_inv w" and st: "st \<noteq> PJ_SUCCESS"
  shows "tsx_inv (give_up env st ours w) \<and> tx_frame w (give_up env st ours w) \<and>
    ts_transport_err (give_up env st ours w) \<noteq> PJ_SUCCESS"
proof -
  define w2 where "w2 = w\<lparr>ts_transport_err := st, f_pending_transport := False, f_resolved_server := ours \<or> f_resolved_server w\<rparr>"
  define sc where "sc = (if st = PJ_ERESOLVE \<or> st = PJLIB_UTIL_EDNS_NXDOMAIN \<or> st = PJ_ECANCELLED
    then PJSIP_SC_BAD_GATEWAY else PJSIP_SC_TSX_TRANSPORT_ERROR)"
  have w2: "(if ours then (w\<lparr>ts_transport_err := st, f_pending_transport := False\<rparr>)\<lparr>f_resolved_server := True\<rparr>
      else w\<lparr>ts_transport_err := st, f_pending_transport := False\<rparr>) = w2"
    by (cases w) (simp add: w2_def)
  have g: "give_up env st ours w =
     (if (ts_role w2 = PJSIP_ROLE_UAC \<or> sc = PJSIP_SC_BAD_GATEWAY) \<and>
         ts_state w2 \<noteq> PJSIP_TSX_STATE_TERMINATED \<and> ts_state w2 \<noteq> PJSIP_TSX_STATE_DESTROYED then
        tsx_set_state env PJSIP_TSX_STATE_TERMINATED Src_transport_error False False (tsx_set_status_code sc w2)
      else if f_pending_destroy w2 then
        tsx_set_state env PJSIP_TSX_STATE_DESTROYED Src_transport_error False False (tsx_set_status_code sc w2)
      else if ts_role w2 = PJSIP_ROLE_UAS \<and> f_pending_resched w2 \<and>
              ts_state w2 \<noteq> PJSIP_TSX_STATE_TERMINATED \<and> ts_state w2 \<noteq> PJSIP_TSX_STATE_DESTROYED then
        tsx_resched_retransmission env (w2\<lparr>f_pending_resched := False\<rparr>)
      else w2)"
    by (simp add: give_up_def w2 sc_def Let_def)
  have sc: "200 \<le> sc" by (simp add: sc_def PJSIP_SC_BAD_GATEWAY_def PJSIP_SC_TSX_TRANSPORT_ERROR_def)
  have fr: "tx_frame w w2" "ts_transport_err w2 \<noteq> PJ_SUCCESS" "ts_state w2 = ts_state w" "ts_role w2 = ts_role w"
    using st by (simp_all add: tx_frame_def w2_def)
  have i2: "tsx_inv w2" if "ts_role w = PJSIP_ROLE_UAS \<or> ts_state w \<ge> PJSIP_TSX_STATE_TERMINATED"
    by (rule inv_frame [OF inv]) (use that in \<open>auto simp: w2_def\<close>)
  consider (A) "ts_role w = PJSIP_ROLE_UAC \<or> sc = PJSIP_SC_BAD_GATEWAY" "ts_state w \<noteq> PJSIP_TSX_STATE_TERMINATED"
      "ts_state w \<noteq> PJSIP_TSX_STATE_DESTROYED"
    | (B) "\<not> ((ts_role w = PJSIP_ROLE_UAC \<or> sc = PJSIP_SC_BAD_GATEWAY) \<and> ts_state w \<noteq> PJSIP_TSX_STATE_TERMINATED \<and>
      ts_state w \<noteq> PJSIP_TSX_STATE_DESTROYED)" "f_pending_destroy w2"
    | (C) "\<not> ((ts_role w = PJSIP_ROLE_UAC \<or> sc = PJSIP_SC_BAD_GATEWAY) \<and> ts_state w \<noteq> PJSIP_TSX_STATE_TERMINATED \<and>
      ts_state w \<noteq> PJSIP_TSX_STATE_DESTROYED)" "\<not> f_pending_destroy w2"
    by blast
  then show ?thesis
  proof cases
    case A
    have "pre_inv (tsx_set_status_code sc w2)"
      using inv_pre [OF inv A(3)] by (auto simp: pre_inv_def tsx_set_status_code_def w2_def log_ok_def)
    from terminated_inv [OF this] show ?thesis
      using A fr sc by (cases "ts_state w") (simp_all add: g tx_frame_def terminated_eq tsx_set_status_code_def state_order)
  next
    case B
    then have d: "ts_state w = PJSIP_TSX_STATE_DESTROYED" using inv by (simp add: w2_def tsx_inv_def flags_ok_def)
    then have "tsx_inv w2" using i2 by (simp add: state_order)
    then have "tsx_inv (tsx_set_status_code sc w2)" using d by (simp add: inv_defs tsx_set_status_code_def fr)
    then have "tsx_inv (tsx_set_state env PJSIP_TSX_STATE_DESTROYED Src_transport_error False False (tsx_set_status_code sc w2))"
      using destroyed_inv by blast
    then show ?thesis using B d fr sc by (simp add: g tx_frame_def destroyed_eq tsx_set_status_code_def)
  next
    case C
    then have "ts_role w = PJSIP_ROLE_UAS \<or> ts_state w \<ge> PJSIP_TSX_STATE_TERMINATED"
      by (cases "ts_role w") (auto simp: state_order)
    note i = i2 [OF this]
    let ?w = "w2\<lparr>f_pending_resched := False\<rparr>"
    have "tsx_inv ?w" by (rule inv_frame [OF i]) auto
    moreover have "tx_frame w ?w" using fr(1) by (simp add: tx_frame_def)
    moreover note R = retransmit_timer_ops(3) [of ?w env]
    moreover have "ts_transport_err (tsx_resched_retransmission env ?w) \<noteq> PJ_SUCCESS"
      using R fr(2) by (auto simp: same_but_retransmit_def)
    ultimately show ?thesis
      using C i fr same_but_retransmit_inv [OF R] tx_frame_trans [OF _ tx_frame_retransmit [OF R]] by (auto simp: g)
  qed
qed

lemma send_failed_inv:
  assumes inv: "tsx_inv w" and st: "st \<noteq> PJ_SUCCESS"
  shows "tsx_inv (send_failed env st tp cont ours td w) \<and> tx_frame w (send_failed env st tp cont ours td w) \<and>
    (ts_state w < PJSIP_TSX_STATE_TERMINATED \<and> ts_state (send_failed env st tp cont ours td w) = PJSIP_TSX_STATE_TERMINATED \<longrightarrow>
       ts_transport_err (send_failed env st tp cont ours td w) \<noteq> PJ_SUCCESS)"
proof -
  define w1 where "w1 = (if tp = ts_transport w then w\<lparr>ts_transport := None\<rparr> else w)"
  have w1: "tsx_inv w1" "tx_frame w w1" "ts_state w1 = ts_state w"
    using inv inv_frame [OF inv, of "w\<lparr>ts_transport := None\<rparr>"] by (auto simp: w1_def tx_frame_def)
  have s: "send_failed env st tp cont ours td w =
      (if \<not> cont \<or> f_pending_destroy w1 \<or> st = PJ_ECANCELLED then give_up env st ours w1 else try_next_address env td w1)"
    by (simp add: send_failed_def w1_def Let_def)
  have "tsx_inv (try_next_address env td w1)"
    by (rule inv_frame [OF w1(1)]) (auto simp: try_next_address_def Let_def)
  moreover have "tx_frame w1 (try_next_address env td w1)" "ts_state (try_next_address env td w1) = ts_state w"
    using w1(3) by (auto simp: tx_frame_def try_next_address_def Let_def)
  ultimately show ?thesis
    using give_up_inv [OF w1(1) st] tx_frame_trans [OF w1(2)] by (auto simp: s)
qed

lemma send_failed_pending: "f_pending_send (send_failed env st tp cont ours td w) \<Longrightarrow> f_pending_send w"
proof -
  have "f_pending_send (give_up env st ours w) \<Longrightarrow> f_pending_send w" for w
    using retransmit_timer_ops(3) [of "w\<lparr>ts_transport_err := st, f_pending_transport := False, f_pending_resched := False\<rparr>" env]
      retransmit_timer_ops(3) [of "w\<lparr>ts_transport_err := st, f_pending_transport := False, f_resolved_server := True, f_pending_resched := False\<rparr>" env]
    by (auto simp: give_up_def Let_def terminated_eq destroyed_eq tsx_set_status_code_def same_but_retransmit_def split: if_splits)
  then have "f_pending_send (give_up env st ours (w\<lparr>ts_transport := None\<rparr>)) \<Longrightarrow> f_pending_send w"
    "f_pending_send (give_up env st ours w) \<Longrightarrow> f_pending_send w" by fastforce+
  then show "f_pending_send (send_failed env st tp cont ours td w) \<Longrightarrow> f_pending_send w"
    by (auto simp: send_failed_def try_next_address_def Let_def split: if_splits)
qed

text \<open>What a transmission guarantees: the invariant, the frame, and that a transmission reported
  as successful has not terminated the transaction.\<close>

definition sent_ok :: "sip_world \<Rightarrow> sip_world \<times> pj_status \<Rightarrow> bool" where
  "sent_ok w r \<longleftrightarrow> tsx_inv (fst r) \<and> tx_frame w (fst r) \<and> (snd r = PJ_SUCCESS \<longrightarrow> ts_state (fst r) = ts_state w) \<and>
     (ts_role w = PJSIP_ROLE_UAS \<and> ts_state w < PJSIP_TSX_STATE_TERMINATED \<and> ts_state (fst r) = PJSIP_TSX_STATE_TERMINATED \<longrightarrow>
        ts_transport_err (fst r) \<noteq> PJ_SUCCESS)"

definition called_ok :: "sip_world \<Rightarrow> sip_world \<Rightarrow> bool" where
  "called_ok w w' \<longleftrightarrow> tsx_inv w' \<and> tx_frame w w' \<and>
     ((ts_role w = PJSIP_ROLE_UAC \<longrightarrow> \<not> f_pending_send w) \<and> ts_state w < PJSIP_TSX_STATE_TERMINATED \<and>
        ts_state w' = PJSIP_TSX_STATE_TERMINATED \<longrightarrow> ts_transport_err w' \<noteq> PJ_SUCCESS)"

lemma called_ok_trans:
  assumes "called_ok w w'" "called_ok w' w''" "f_pending_send w' \<longrightarrow> f_pending_send w"
  shows "called_ok w w''"
proof -
  have f: "tx_frame w w'" "tx_frame w' w''" using assms by (simp_all add: called_ok_def)
  have "ts_transport_err w'' \<noteq> PJ_SUCCESS"
    if "ts_role w = PJSIP_ROLE_UAC \<longrightarrow> \<not> f_pending_send w" "ts_state w < PJSIP_TSX_STATE_TERMINATED"
      "ts_state w'' = PJSIP_TSX_STATE_TERMINATED"
  proof (cases "ts_state w' = ts_state w")
    case True
    then show ?thesis using assms that tx_frameD(1) [OF f(1)] by (auto simp: called_ok_def)
  next
    case False
    then have "ts_state w' = PJSIP_TSX_STATE_TERMINATED" using tx_frameD(3) [OF f(1)] by blast
    then have "ts_transport_err w' \<noteq> PJ_SUCCESS" using assms(1) that by (simp add: called_ok_def)
    then show ?thesis using tx_frameD(4) [OF f(2)] by blast
  qed
  then show ?thesis using assms tx_frame_trans [OF f] by (simp add: called_ok_def)
qed

text \<open>A callback first takes the buffer back.\<close>

definition take_back :: "bool \<Rightarrow> nat \<Rightarrow> sip_world \<Rightarrow> sip_world" where
  "take_back ours td w = (if ours then w\<lparr>sx_mod_data := (sx_mod_data w)(td := None)\<rparr> else w)\<lparr>ts_pending_tx := None\<rparr>"

lemma take_back_inv:
  assumes "tsx_inv w"
  shows "tsx_inv (take_back ours td w)" "tx_frame w (take_back ours td w)" "ts_state (take_back ours td w) = ts_state w"
    "f_pending_send (take_back ours td w) = f_pending_send w" "f_pending_destroy (take_back ours td w) = f_pending_destroy w"
proof -
  show "tsx_inv (take_back ours td w)" by (rule inv_frame [OF assms]) (auto simp: take_back_def)
qed (simp_all add: take_back_def tx_frame_def)

lemma failed_callback_ok:
  assumes inv: "tsx_inv w" and st: "st \<noteq> PJ_SUCCESS"
    and r: "send_msg_callback env (Cb_failed st tp cont) td w = (w', c)"
  shows "called_ok w w' \<and> (f_pending_send w' \<longrightarrow> f_pending_send w)"
proof (cases "\<not> sx_layer_up w \<or> sx_mod_data w td = None")
  case True
  then show ?thesis using r inv by (auto simp: called_ok_def)
next
  case False
  define ours where "ours = (sx_mod_data w td = Some (ts_self w))"
  define w1 where "w1 = take_back ours td w"
  note w1 = take_back_inv [OF inv, of ours td, folded w1_def]
  have w': "w' = send_failed env st tp (ours \<and> cont) ours td w1"
    using r False by (auto simp: ours_def Let_def w1_def take_back_def)
  show ?thesis
    using send_failed_inv [OF w1(1) st, of env tp "ours \<and> cont" ours td] w1 tx_frame_trans [OF w1(2)]
      send_failed_pending [of env st tp "ours \<and> cont" ours td w1]
    by (auto simp: called_ok_def w')
qed

lemma sent_callback_ok:
  assumes inv: "tsx_inv w" and r: "send_msg_callback env (Cb_sent tp nt) td w = (w', c)"
    and IH: "\<And>w1. tsx_inv w1 \<Longrightarrow> ts_state w1 \<noteq> PJSIP_TSX_STATE_DESTROYED \<Longrightarrow> sent_ok w1 (tsx_send_msg env nt (ts_last_tx w1) w1)"
  shows "called_ok w w' \<and> \<not> c"
proof (cases "\<not> sx_layer_up w \<or> sx_mod_data w td = None")
  case True
  then show ?thesis using r inv by (auto simp: called_ok_def)
next
  case False
  define ours where "ours = (sx_mod_data w td = Some (ts_self w))"
  define w1 where "w1 = take_back ours td w"
  note w1 = take_back_inv [OF inv, of ours td, folded w1_def]
  define w2 where "w2 = adopt_transport env tp ours w1"
  note A = adopt_transport_inv [OF w1(1), where ours = ours and env = env and cur = tp, folded w2_def]
  have f2: "tx_frame w w2" using tx_frame_trans [OF w1(2) A(3)] .
  define w3 where "w3 = (if f_pending_send w2 then fst (tsx_send_msg env nt (ts_last_tx w2) (w2\<lparr>f_pending_send := False\<rparr>)) else w2)"
  have "send_msg_callback env (Cb_sent tp nt) td w =
      (if f_pending_destroy w2 then (tsx_set_state env PJSIP_TSX_STATE_DESTROYED Src_unknown False False w2, False)
       else (resched_if_pending env w3, False))"
    unfolding send_msg_callback.simps if_not_P [OF False] Let_def w3_def w2_def w1_def take_back_def ours_def ..
  then have w': "w' = (if f_pending_destroy w2 then tsx_set_state env PJSIP_TSX_STATE_DESTROYED Src_unknown False False w2
      else resched_if_pending env w3)" "\<not> c"
    using r by (simp_all split: if_splits)
  show ?thesis
  proof (cases "f_pending_destroy w2")
    case True
    then have d: "ts_state w = PJSIP_TSX_STATE_DESTROYED" using A(5) w1(1,3) by (simp add: tsx_inv_def flags_ok_def)
    then have "tsx_inv w2" using A(1) w1(3) by (simp add: state_order)
    then have "tsx_inv w'" using destroyed_inv True by (simp add: w')
    then show ?thesis using True d f2 w' by (simp add: called_ok_def destroyed_eq tx_frame_def state_order)
  next
    case False
    have w3: "tsx_inv w3 \<and> tx_frame w2 w3 \<and> (ts_role w = PJSIP_ROLE_UAC \<longrightarrow> \<not> f_pending_send w \<longrightarrow> ts_state w3 = ts_state w2) \<and>
      (ts_role w = PJSIP_ROLE_UAS \<and> ts_state w2 < PJSIP_TSX_STATE_TERMINATED \<and> ts_state w3 = PJSIP_TSX_STATE_TERMINATED \<longrightarrow> ts_transport_err w3 \<noteq> PJ_SUCCESS)"
    proof (cases "f_pending_send w2")
      case False
      then show ?thesis using A(1,4) by (auto simp: w3_def)
    next
      case True
      have nd: "ts_state w1 \<noteq> PJSIP_TSX_STATE_DESTROYED" using True A(4) w1(1) by (auto simp: tsx_inv_def flags_ok_def)
      have s2: "ts_state w2 \<noteq> PJSIP_TSX_STATE_DESTROYED" using nd tx_frameD(3) [OF A(3)] by auto
      have "sent_ok (w2\<lparr>f_pending_send := False\<rparr>) (tsx_send_msg env nt (ts_last_tx w2) (w2\<lparr>f_pending_send := False\<rparr>))"
        using IH [OF A(2) [OF nd]] s2 by simp
      moreover have "tx_frame w2 (w2\<lparr>f_pending_send := False\<rparr>)" by (simp add: tx_frame_def)
      ultimately show ?thesis
        using True A(4) w1(4) tx_frame_trans tx_frameD(1) [OF f2] by (auto simp: w3_def sent_ok_def)
    qed
    note R = resched_if_pending_inv [OF conjunct1 [OF w3], of env]
    have "tx_frame w w3" using tx_frame_trans [OF f2] w3 by blast
    then have fr: "tx_frame w w'" using tx_frame_trans [OF _ R(2)] False w' by simp
    have "ts_transport_err w' \<noteq> PJ_SUCCESS"
      if a: "ts_role w = PJSIP_ROLE_UAC \<longrightarrow> \<not> f_pending_send w" "ts_state w < PJSIP_TSX_STATE_TERMINATED"
        "ts_state w' = PJSIP_TSX_STATE_TERMINATED"
    proof -
      have "ts_state w3 = PJSIP_TSX_STATE_TERMINATED" "ts_state w2 = ts_state w"
        using R(4) False w' a(3) A(6) w1(3) by simp_all
      then have "ts_transport_err w3 \<noteq> PJ_SUCCESS" using w3 a by (cases "ts_role w") auto
      then show ?thesis using R(3) False w' by simp
    qed
    then show ?thesis using R(1) False w' fr by (simp add: called_ok_def)
  qed
qed

lemma fresh_send_ok:
  assumes inv: "tsx_inv w" and st: "ts_state w \<noteq> PJSIP_TSX_STATE_DESTROYED" and ft: "\<not> f_pending_transport w"
    and nr: "\<not> (ts_role w = PJSIP_ROLE_UAC \<and> f_resolved_server w)"
    and IH: "\<And>w1. tsx_inv w1 \<Longrightarrow> called_ok w1 (run_callbacks env cbs (td_id td) w1)"
    and w1: "w1 = log_tsx (Net_send (td_id td)) (w\<lparr>sx_mod_data := (sx_mod_data w)(td_id td \<mapsto> ts_self w),
        ts_pending_tx := Some (td_id td), f_pending_transport := True\<rparr>)"
    and w2: "w2 = run_callbacks env cbs (td_id td) w1" "s \<noteq> PJ_SUCCESS \<longrightarrow> cbs = []"
    and w3: "w3 = (if s \<noteq> PJ_SUCCESS then
        (let w = (case td_msg td of Request _ \<Rightarrow> tsx_set_status_code PJSIP_SC_TSX_TRANSPORT_ERROR w2 | Response _ \<Rightarrow> w2) in
          w\<lparr>f_pending_transport := False, sx_mod_data := (sx_mod_data w)(td_id td := None), ts_pending_tx := None\<rparr>) else w2)"
  shows "sent_ok w (w3, if s = PJ_SUCCESS \<and> ts_state w3 = PJSIP_TSX_STATE_TERMINATED then ts_transport_err w3 else s)"
proof -
  have i1: "tsx_inv w1" by (rule inv_frame [OF inv]) (auto simp: w1 log_tsx_def)
  have f1: "tx_frame w w1" by (simp add: tx_frame_def w1 log_tsx_def)
  note C = IH [OF i1, folded w2(1)]
  show ?thesis
  proof (cases "s = PJ_SUCCESS")
    case True
    have "ts_transport_err w2 \<noteq> PJ_SUCCESS" if "ts_state w < PJSIP_TSX_STATE_TERMINATED" "ts_state w2 = PJSIP_TSX_STATE_TERMINATED"
    proof -
      have "ts_role w = PJSIP_ROLE_UAC \<longrightarrow> \<not> f_pending_send w"
        using inv ft nr that(1) by (auto simp: tsx_inv_def flags_ok_def)
      then show ?thesis using C that by (auto simp: called_ok_def w1 log_tsx_def)
    qed
    then show ?thesis
      using True C tx_frame_trans [OF f1] tx_frameD(3) [of w w2] w3 by (auto simp: sent_ok_def called_ok_def)
  next
    case False
    then have w2': "w2 = w1" using w2 by simp
    have fs: "ts_role w = PJSIP_ROLE_UAC \<and> ts_state w < PJSIP_TSX_STATE_TERMINATED \<longrightarrow> \<not> f_pending_send w"
      using inv ft nr by (auto simp: tsx_inv_def flags_ok_def)
    define w4 where "w4 = w1\<lparr>f_pending_transport := False, sx_mod_data := (sx_mod_data w)(td_id td := None), ts_pending_tx := None\<rparr>"
    have i4: "tsx_inv w4" by (rule inv_frame [OF inv]) (use fs ft in \<open>auto simp: w4_def w1 log_tsx_def\<close>)
    have i5: "tsx_inv (tsx_set_status_code PJSIP_SC_TSX_TRANSPORT_ERROR w4)"
      using i4 by (simp add: inv_defs tsx_set_status_code_def PJSIP_SC_TSX_TRANSPORT_ERROR_def)
    have w3': "w3 = (case td_msg td of Request _ \<Rightarrow> tsx_set_status_code PJSIP_SC_TSX_TRANSPORT_ERROR w4 | Response _ \<Rightarrow> w4)"
      using False by (simp add: w3 w2' w4_def w1 log_tsx_def tsx_set_status_code_def split: pjsip_msg.split)
    have "tsx_inv w3" using i4 i5 by (simp add: w3' split: pjsip_msg.split)
    moreover have "tx_frame w w3" "ts_state w3 = ts_state w"
      by (simp_all add: w3' w4_def w1 log_tsx_def tsx_set_status_code_def tx_frame_def PJSIP_SC_TSX_TRANSPORT_ERROR_def
          split: pjsip_msg.split)
    ultimately show ?thesis using False by (auto simp: sent_ok_def)
  qed
qed

lemma over_transport_ok:
  assumes inv: "tsx_inv w" and ft: "\<not> f_pending_transport w"
    and r: "send_over_transport env tp td w = (w', st, fin)"
  shows "tsx_inv w' \<and> tx_frame w w' \<and> ts_state w' = ts_state w \<and> (fin \<longrightarrow> st = PJ_SUCCESS) \<and>
    (\<not> fin \<longrightarrow> \<not> f_pending_transport w' \<and> ts_role w' = ts_role w)"
proof (cases "ts_transport w")
  case None
  then show ?thesis using r inv ft by (auto simp: send_over_transport_def)
next
  case (Some t)
  have "tsx_inv w'"
    by (rule inv_frame [OF inv]) (use r ft Some in \<open>auto simp: send_over_transport_def Let_def log_tsx_def split: if_splits\<close>)
  then show ?thesis
    using r Some by (auto simp: send_over_transport_def Let_def log_tsx_def tx_frame_def split: if_splits)
qed

lemma sent_ok_frame:
  assumes "tx_frame w w1" "ts_state w1 = ts_state w" "sent_ok w1 r"
  shows "sent_ok w r"
  using assms tx_frame_trans [OF assms(1)] tx_frameD(1) [OF assms(1)] by (simp add: sent_ok_def)

lemma run_callbacks_ok:
  assumes "\<And>c w. c \<in> set cs \<Longrightarrow> tsx_inv w \<Longrightarrow> cb_ok c \<Longrightarrow> called_ok w (fst (send_msg_callback env c td w)) \<and>
      (snd (send_msg_callback env c td w) \<longrightarrow> f_pending_send (fst (send_msg_callback env c td w)) \<longrightarrow> f_pending_send w)"
    and "tsx_inv w" "cbs_ok cs"
  shows "called_ok w (run_callbacks env cs td w)"
  using assms
proof (induction cs arbitrary: w)
  case Nil
  then show ?case by (auto simp: called_ok_def)
next
  case (Cons c cs)
  obtain w1 cont where r: "send_msg_callback env c td w = (w1, cont)" by fastforce
  have c: "called_ok w w1" "cont \<longrightarrow> f_pending_send w1 \<longrightarrow> f_pending_send w"
    using Cons.prems(1) [of c w] Cons.prems(2,3) r by auto
  have "called_ok w1 (run_callbacks env cs td w1)"
    by (rule Cons.IH) (use Cons.prems c in \<open>auto simp: called_ok_def\<close>)
  then show ?case using called_ok_trans [OF c(1)] c by (auto simp: r)
qed

lemma stateless_send_ok:
  assumes inv: "tsx_inv w" and nd: "ts_state w \<noteq> PJSIP_TSX_STATE_DESTROYED" and ok: "net_ok (Net busy tp cbs ret)"
    and IH: "\<And>w1. tsx_inv w1 \<Longrightarrow> called_ok w1 (run_callbacks env cbs (td_id td) w1)"
  shows "sent_ok w (tsx_send_msg env (Net busy tp cbs ret) (Some td) w)"
proof -
  obtain w1 st fin where o: "send_over_transport env tp (td_id td) w = (w1, st, fin)" by (metis prod_cases3)
  have pend: "sent_ok w (w\<lparr>f_pending_send := True\<rparr>, PJ_SUCCESS)" if "f_pending_transport w"
    using inv nd that by (auto simp: sent_ok_def tx_frame_def inv_defs)
  have same: "sent_ok w (w, PJ_SUCCESS)" using inv by (auto simp: sent_ok_def)
  show ?thesis
  proof (cases "f_pending_transport w \<or> busy")
    case True
    then show ?thesis using pend same by auto
  next
    case False
    then have ft: "\<not> f_pending_transport w" by simp
    note O = over_transport_ok [OF inv ft o]
    consider (a) fin | (b) "\<not> fin" "ts_role w1 = PJSIP_ROLE_UAC \<and> f_resolved_server w1"
      | (c) "\<not> fin" "\<not> (ts_role w1 = PJSIP_ROLE_UAC \<and> f_resolved_server w1)" by blast
    then show ?thesis
    proof cases
      case a
      then show ?thesis using False o O by (auto simp: sent_ok_def)
    next
      case b
      let ?w = "tsx_set_status_code PJSIP_SC_TSX_TRANSPORT_ERROR w1"
      have "pre_inv w1" using inv_pre O nd by auto
      then have "pre_inv ?w" by (simp add: pre_inv_def tsx_set_status_code_def log_ok_def)
      from terminated_inv [OF this] have "sent_ok w1 (tsx_set_state env PJSIP_TSX_STATE_TERMINATED Src_transport_error False False ?w,
          if st = PJ_SUCCESS then PJ_EUNKNOWN else st)"
        using b O nd by (cases "ts_state w1")
          (auto simp: sent_ok_def tx_frame_def terminated_eq tsx_set_status_code_def PJSIP_SC_TSX_TRANSPORT_ERROR_def state_order)
      then have "sent_ok w (tsx_set_state env PJSIP_TSX_STATE_TERMINATED Src_transport_error False False ?w,
          if st = PJ_SUCCESS then PJ_EUNKNOWN else st)"
        using sent_ok_frame O by blast
      then show ?thesis using False o b by simp
    next
      case c
      define s where "s = (if ret = PJ_EPENDING then PJ_SUCCESS else ret)"
      have "s \<noteq> PJ_SUCCESS \<longrightarrow> cbs = []" using ok by (auto simp: s_def)
      moreover have "ts_state w1 \<noteq> PJSIP_TSX_STATE_DESTROYED" "\<not> f_pending_transport w1" "tsx_inv w1" using O nd c by auto
      ultimately have "sent_ok w1 (tsx_send_msg env (Net busy tp cbs ret) (Some td) w)"
        using fresh_send_ok [OF _ _ _ c(2) IH refl refl _ refl, of s] False c(1)
        unfolding s_def by (simp only: tsx_send_msg.simps Let_def o prod.case c(2) if_False de_Morgan_disj simp_thms)
      then show ?thesis using sent_ok_frame O by blast
    qed
  qed
qed

lemma send_msg_ok:
  "\<And>w tdo. tsx_inv w \<Longrightarrow> net_ok n \<Longrightarrow> tdo \<noteq> None \<longrightarrow> ts_state w \<noteq> PJSIP_TSX_STATE_DESTROYED \<Longrightarrow> sent_ok w (tsx_send_msg env n tdo w)"
  "\<And>w td. tsx_inv w \<Longrightarrow> cb_ok c \<Longrightarrow> called_ok w (fst (send_msg_callback env c td w)) \<and>
     (snd (send_msg_callback env c td w) \<longrightarrow> f_pending_send (fst (send_msg_callback env c td w)) \<longrightarrow> f_pending_send w)"
proof (induction n and c rule: net.induct cb.induct)
  case (Net busy tp cbs ret)
  have IH: "called_ok w1 (run_callbacks env cbs td w1)" if "tsx_inv w1" for w1 td
    by (rule run_callbacks_ok) (use Net that in auto)
  show ?case
  proof (cases tdo)
    case None
    then show ?thesis using Net by (auto simp: sent_ok_def)
  next
    case (Some td)
    then show ?thesis using stateless_send_ok [OF Net(2) _ Net(3) IH] Net(4) by simp
  qed
next
  case (Cb_sent cur nt)
  obtain w' c where r: "send_msg_callback env (Cb_sent cur nt) td w = (w', c)" by fastforce
  show ?case using sent_callback_ok [OF Cb_sent(2) r] Cb_sent(1,3) r by auto
next
  case (Cb_failed st cur cont)
  obtain w' c where r: "send_msg_callback env (Cb_failed st cur cont) td w = (w', c)" by fastforce
  show ?case using failed_callback_ok [OF Cb_failed(1) _ r] Cb_failed(2) r by simp
qed

end
