(* ===== verification/Sip_Tsx_Step.thy ===== *)
theory Sip_Tsx_Step
  imports Sip_Tsx_Inv
begin

text \<open>
  Every state handler and every operation keeps the invariant of a SIP transaction; the
  transition relation of a transaction in its environment, and the invariant in every
  reachable state.
\<close>

section \<open>Building blocks\<close>

definition rid_ok :: "timer_slot \<Rightarrow> bool" where
  "rid_ok s \<longleftrightarrow> tm_id s \<in> {SIP_TIMER_INACTIVE, RETRANSMIT_TIMER}"

lemma rid_ok_ops [simp]:
  "rid_ok s \<Longrightarrow> rid_ok (slot_cancel s)"
  "rid_ok s \<Longrightarrow> rid_ok (fst (slot_schedule now d RETRANSMIT_TIMER s))"
  "rid_ok s \<Longrightarrow> rid_ok (s\<lparr>tm_due := x\<rparr>)"
  "rid_ok (s\<lparr>tm_id := 0\<rparr>)"
  by (auto simp: rid_ok_def slot_cancel_def slot_schedule_def SIP_TIMER_INACTIVE_def)

lemma inv_rid [simp]: "tsx_inv w \<Longrightarrow> rid_ok (ts_retransmit_timer w)"
  by (simp add: tsx_inv_def timers_ok_def rid_ok_def)

lemma inv_user: "tsx_inv w \<Longrightarrow> ts_state w < PJSIP_TSX_STATE_DESTROYED \<Longrightarrow> ts_user w"
  by (auto simp: tsx_inv_def log_ok_def)

lemmas timer_eqs = tsx_schedule_timer_def tsx_cancel_timer_def

text \<open>Before completion the invariant does not depend on the status code, the timeout timer and
  the saved message.\<close>

lemma inv_early:
  assumes "tsx_inv w" "ts_state w < PJSIP_TSX_STATE_COMPLETED"
    "ts_state w' = ts_state w" "ts_role w' = ts_role w" "f_pending_send w' = f_pending_send w"
    "f_resolved_server w' = f_resolved_server w" "f_pending_transport w' = f_pending_transport w"
    "ts_transport w' = ts_transport w" "sx_tp_sends w' = sx_tp_sends w" "f_pending_destroy w' = f_pending_destroy w"
    "rid_ok (ts_retransmit_timer w')" "ts_user w' = ts_user w" "ts_terminating w' = ts_terminating w" "sx_log w' = sx_log w"
  shows "tsx_inv w'"
proof -
  have "ts_state w \<noteq> PJSIP_TSX_STATE_COMPLETED" "ts_state w \<noteq> PJSIP_TSX_STATE_CONFIRMED"
    "ts_state w \<noteq> PJSIP_TSX_STATE_TERMINATED" "ts_state w \<noteq> PJSIP_TSX_STATE_DESTROYED"
    using assms(2) by (auto simp: state_order)
  then show ?thesis
    using assms(1) assms(11) unfolding tsx_inv_def role_ok_def flags_ok_def timers_ok_def log_ok_def rid_ok_def
    by (simp add: assms(3-10,12-14))
qed

text \<open>A change of the timers, the saved message and the retransmission bookkeeping in any state
  but the last.\<close>

lemma inv_timers:
  assumes "tsx_inv w" "ts_state w \<noteq> PJSIP_TSX_STATE_DESTROYED"
    "ts_state w' = ts_state w" "ts_role w' = ts_role w" "f_pending_send w' = f_pending_send w"
    "f_resolved_server w' = f_resolved_server w" "f_pending_transport w' = f_pending_transport w"
    "ts_transport w' = ts_transport w" "sx_tp_sends w' = sx_tp_sends w" "f_pending_destroy w' = f_pending_destroy w"
    "rid_ok (ts_retransmit_timer w')" "ts_user w' = ts_user w" "ts_terminating w' = ts_terminating w" "sx_log w' = sx_log w"
    "ts_status_code w' = ts_status_code w \<or> 200 \<le> ts_status_code w'"
    "ts_timeout_timer w' = ts_timeout_timer w \<or>
      tm_due (ts_timeout_timer w') \<noteq> None \<and> (ts_state w = PJSIP_TSX_STATE_TERMINATED \<longrightarrow> tm_id (ts_timeout_timer w') = TIMEOUT_TIMER)"
  shows "tsx_inv w'"
proof -
  have "timers_ok w'" using assms(1,3,11,15,16) by (auto simp: tsx_inv_def timers_ok_def rid_ok_def)
  then show ?thesis
    using assms(1,2) unfolding tsx_inv_def role_ok_def flags_ok_def log_ok_def by (simp add: assms(3-10,12-14))
qed

lemma inv_set_state:
  assumes "tsx_inv w" "ts_state w \<le> st" "st < PJSIP_TSX_STATE_TERMINATED"
    "ts_role w = PJSIP_ROLE_UAC \<Longrightarrow> st \<noteq> PJSIP_TSX_STATE_TRYING \<and> st \<noteq> PJSIP_TSX_STATE_CONFIRMED"
    "ts_role w = PJSIP_ROLE_UAS \<Longrightarrow> st \<noteq> PJSIP_TSX_STATE_CALLING"
    "PJSIP_TSX_STATE_COMPLETED \<le> st \<Longrightarrow> 200 \<le> ts_status_code w \<and> tm_due (ts_timeout_timer w) \<noteq> None"
  shows "tsx_inv (tsx_set_state env st src False False w)"
proof -
  have st: "st \<noteq> PJSIP_TSX_STATE_TERMINATED" "st \<noteq> PJSIP_TSX_STATE_DESTROYED" using assms(3) by (auto simp: state_order)
  have u: "ts_user w" using inv_user [OF assms(1)] assms(2,3) by (auto simp: state_order)
  have lt: "ts_state w < PJSIP_TSX_STATE_TERMINATED" using assms(2,3) by simp
  have "log_ok (tsx_set_state env st src False False w)"
    using assms(1,2) u st lt walk_notes [of w st src] by (auto simp: tsx_inv_def log_ok_def state_order)
  moreover have "timers_ok (tsx_set_state env st src False False w)"
    using inv_rid [OF assms(1)] assms(6) st by (cases st) (simp_all add: timers_ok_def rid_ok_def state_order)
  moreover have "flags_ok (tsx_set_state env st src False False w)"
  proof -
    have "ts_state w \<noteq> PJSIP_TSX_STATE_DESTROYED" using lt by (auto simp: state_order)
    then show ?thesis using assms(1) lt st by (auto simp: tsx_inv_def flags_ok_def)
  qed
  moreover have "role_ok (tsx_set_state env st src False False w)"
    using assms(4,5) st by (simp add: role_ok_def)
  ultimately show ?thesis by (simp add: tsx_inv_def)
qed

lemma start_retransmit_inv:
  assumes "tsx_inv w" "ts_state w \<noteq> PJSIP_TSX_STATE_DESTROYED"
  shows "tsx_inv (start_retransmit env t w)"
  by (rule inv_timers [OF assms]) (use assms in \<open>auto simp: start_retransmit_def Let_def timer_eqs\<close>)

lemma start_retransmit_fields [simp]:
  "ts_state (start_retransmit env t w) = ts_state w" "ts_role (start_retransmit env t w) = ts_role w"
  "ts_status_code (start_retransmit env t w) = ts_status_code w"
  "ts_timeout_timer (start_retransmit env t w) = ts_timeout_timer w"
  "ts_method (start_retransmit env t w) = ts_method w" "ts_is_reliable (start_retransmit env t w) = ts_is_reliable w"
  by (simp_all add: start_retransmit_def Let_def timer_eqs)

lemma send_okD:
  assumes "tsx_inv w" "net_ok (ev_net env)" "ts_state w \<noteq> PJSIP_TSX_STATE_DESTROYED" "tsx_send_msg env (ev_net env) tdo w = (w', st)"
  shows "tsx_inv w'" "tx_frame w w'" "st = PJ_SUCCESS \<Longrightarrow> ts_state w' = ts_state w" "ts_role w' = ts_role w"
proof -
  have "sent_ok w (w', st)" using send_msg_ok(1) [OF assms(1,2), of tdo env] assms(3,4) by auto
  then show "tsx_inv w'" "tx_frame w w'" "st = PJ_SUCCESS \<Longrightarrow> ts_state w' = ts_state w" "ts_role w' = ts_role w"
    by (auto simp: sent_ok_def tx_frame_def)
qed

section \<open>Handlers\<close>

lemma retransmit_inv:
  assumes inv: "tsx_inv w" and n: "net_ok (ev_net env)" and nd: "ts_state w \<noteq> PJSIP_TSX_STATE_DESTROYED"
  shows "tsx_inv (fst (tsx_retransmit env resched w))"
proof (cases "ts_last_tx w")
  case None
  then show ?thesis using inv by (simp add: tsx_retransmit_def)
next
  case (Some td)
  define w1 where "w1 = w\<lparr>ts_retransmit_count := Suc (ts_retransmit_count w)\<rparr>"
  define w2 where "w2 = (if resched then (if f_pending_transport w1 then w1\<lparr>f_pending_resched := True\<rparr>
      else tsx_resched_retransmission env w1) else w1)"
  obtain w3 st where s: "tsx_send_msg env (ev_net env) (ts_last_tx w2) w2 = (w3, st)" by fastforce
  have w1: "tsx_inv w1" by (rule inv_timers [OF inv nd]) (use inv in \<open>auto simp: w1_def\<close>)
  have i: "tsx_inv (w1\<lparr>f_pending_resched := True\<rparr>)"
    by (rule inv_timers [OF inv nd]) (use inv in \<open>auto simp: w1_def\<close>)
  note R = retransmit_timer_ops(3) [of w1 env]
  have st2: "ts_state w2 = ts_state w" using R by (auto simp: w2_def w1_def same_but_retransmit_def)
  have w2: "tsx_inv w2" using w1 i same_but_retransmit_inv [OF R w1] by (simp add: w2_def)
  note S = send_okD [OF w2 n _ s]
  have w3: "tsx_inv w3" "ts_state w3 \<noteq> PJSIP_TSX_STATE_DESTROYED"
    using S(1,2) st2 nd tx_frameD(3) [of w2 w3] by auto
  have w4: "tsx_inv ((tsx_cancel_timer Retransmit_timer w3)\<lparr>f_pending_resched := True\<rparr>)"
    by (rule inv_timers [OF w3]) (use w3 in \<open>auto simp: timer_eqs\<close>)
  have w5: "tsx_inv (tsx_schedule_timer env Timeout_timer (Time_val 0 0) TIMEOUT_TIMER (tsx_cancel_timer Timeout_timer w))"
    by (rule inv_timers [OF inv nd]) (use inv in auto)
  show ?thesis
    using Some inv w3 w4 w5 s
    by (simp add: tsx_retransmit_def Let_def w1_def [symmetric] w2_def [symmetric])
qed

lemma null_inv:
  assumes inv: "tsx_inv w" and n: "net_ok (ev_net env)" and st: "ts_state w = PJSIP_TSX_STATE_NULL"
  shows "tsx_inv (fst (tsx_on_state_null env ev w))"
proof (cases "ts_role w")
  case PJSIP_ROLE_UAS
  then show ?thesis
    using inv_set_state [OF inv, of PJSIP_TSX_STATE_TRYING env] st
    by (auto simp: tsx_on_state_null_def state_order simp del: set_state_eq)
next
  case PJSIP_ROLE_UAC
  show ?thesis
  proof (cases ev)
    case (Event_tx_msg td)
    define w0 where "w0 = w\<lparr>ts_last_tx := Some td\<rparr>"
    obtain w1 s where s: "tsx_send_msg env (ev_net env) (Some td) w0 = (w1, s)" by fastforce
    have w0: "tsx_inv w0" by (rule inv_early [OF inv]) (use inv st in \<open>auto simp: w0_def state_order\<close>)
    have s0: "ts_state w0 = PJSIP_TSX_STATE_NULL" "ts_role w0 = PJSIP_ROLE_UAC" using st PJSIP_ROLE_UAC by (simp_all add: w0_def)
    note S = send_okD [OF w0 n _ s]
    define w2 where "w2 = tsx_schedule_timer env Timeout_timer (timeout_timer_val (ev_cfg env)) TIMEOUT_TIMER (tsx_cancel_timer Timeout_timer w1)"
    define w3 where "w3 = (if \<not> ts_is_reliable w2 then start_retransmit env (t1_timer_val (ev_cfg env)) w2 else w2)"
    have "tsx_inv (tsx_set_state env PJSIP_TSX_STATE_CALLING Src_tx_msg False False w3)" if "s = PJ_SUCCESS"
    proof (rule inv_set_state)
      have w1: "tsx_inv w1" "ts_state w1 = PJSIP_TSX_STATE_NULL" using S s0 that by simp_all
      have w2: "tsx_inv w2" "ts_state w2 = PJSIP_TSX_STATE_NULL"
        using inv_timers [OF w1(1), of w2] w1 by (simp_all add: w2_def)
      then show "tsx_inv w3" using start_retransmit_inv by (simp add: w3_def)
      show "ts_state w3 \<le> PJSIP_TSX_STATE_CALLING" using w2 by (simp add: w3_def state_order)
      have "ts_role w3 = PJSIP_ROLE_UAC" using S(4) s0 by (simp add: w3_def w2_def)
      then show "ts_role w3 = PJSIP_ROLE_UAS \<Longrightarrow> PJSIP_TSX_STATE_CALLING \<noteq> PJSIP_TSX_STATE_CALLING" by simp
    qed (simp_all add: state_order)
    then show ?thesis
      using PJSIP_ROLE_UAC Event_tx_msg s S(1) s0
      by (simp add: tsx_on_state_null_def w0_def [symmetric] Let_def w2_def [symmetric] w3_def [symmetric] del: set_state_eq restart_eq)
  qed (use PJSIP_ROLE_UAC inv in \<open>simp_all add: tsx_on_state_null_def\<close>)
qed

lemma terminate_inv:
  assumes "tsx_inv w" "ts_state w \<noteq> PJSIP_TSX_STATE_DESTROYED"
  shows "tsx_inv (tsx_set_state env PJSIP_TSX_STATE_TERMINATED src False False w)"
  using terminated_inv inv_pre [OF assms] by blast

lemma terminate_code_inv:
  assumes "tsx_inv w" "ts_state w \<noteq> PJSIP_TSX_STATE_DESTROYED"
  shows "tsx_inv (tsx_set_state env PJSIP_TSX_STATE_TERMINATED src False False (tsx_set_status_code c w))"
proof -
  have "pre_inv (tsx_set_status_code c w)"
    using inv_pre [OF assms] by (simp add: pre_inv_def tsx_set_status_code_def log_ok_def)
  then show ?thesis by (rule terminated_inv)
qed

lemma class_codes:
  "PJSIP_IS_STATUS_IN_CLASS c 200 \<Longrightarrow> 200 \<le> c"
  "PJSIP_IS_STATUS_IN_CLASS c 100 \<Longrightarrow> 100 \<le> c \<and> c < 200"
  by (auto simp: PJSIP_IS_STATUS_IN_CLASS_def c_div_def sgn_if abs_if split: if_splits)

text \<open>A server transaction that has sent a response.\<close>

lemma uas_sent_inv:
  assumes inv: "tsx_inv w" and st: "ts_state w < PJSIP_TSX_STATE_COMPLETED" and r: "ts_role w = PJSIP_ROLE_UAS"
  shows "tsx_inv (uas_sent_1xx env td w)"
    "200 \<le> ts_status_code w \<Longrightarrow> tsx_inv (uas_sent_2xx env td w)"
    "200 \<le> ts_status_code w \<Longrightarrow> tsx_inv (uas_sent_final env td w)"
proof -
  have le: "ts_state w \<le> PJSIP_TSX_STATE_PROCEEDING" "ts_state w \<le> PJSIP_TSX_STATE_COMPLETED"
    "ts_state w \<noteq> PJSIP_TSX_STATE_DESTROYED" "ts_state w \<noteq> PJSIP_TSX_STATE_TERMINATED"
    using st by (auto simp: state_order)
  define a where "a = tsx_set_state env PJSIP_TSX_STATE_PROCEEDING Src_tx_msg False False (w\<lparr>ts_last_tx := Some td\<rparr>)"
  have "tsx_inv (w\<lparr>ts_last_tx := Some td\<rparr>)" by (rule inv_early [OF inv st]) (use inv in auto)
  then have a: "tsx_inv a" "ts_state a = PJSIP_TSX_STATE_PROCEEDING"
    unfolding a_def by (rule inv_set_state) (use le r in \<open>auto simp: state_order a_def\<close>)
  have "tsx_inv (tsx_cancel_timer Retransmit_timer a)" by (rule inv_early [OF a(1)]) (use a in \<open>auto simp: timer_eqs state_order\<close>)
  then show "tsx_inv (uas_sent_1xx env td w)"
    using a start_retransmit_inv [of "tsx_cancel_timer Retransmit_timer a" env]
    by (simp add: uas_sent_1xx_def a_def [symmetric] Let_def timer_eqs del: set_state_eq)
  define b where "b = tsx_cancel_timer Retransmit_timer w"
  have b: "tsx_inv b" "ts_state b = ts_state w" "ts_role b = ts_role w" "ts_status_code b = ts_status_code w"
    "ts_method b = ts_method w" "ts_is_reliable b = ts_is_reliable w" "ts_handle_200resp b = ts_handle_200resp w"
    using inv_early [OF inv st, of b] inv by (auto simp: b_def timer_eqs)
  have fin: "tsx_inv (tsx_set_state env PJSIP_TSX_STATE_COMPLETED Src_tx_msg False False x)"
    if "tsx_inv x" "ts_state x = ts_state w" "ts_role x = ts_role w" "200 \<le> ts_status_code x" "tm_due (ts_timeout_timer x) \<noteq> None" for x
    by (rule inv_set_state) (use that le r in \<open>auto simp: state_order\<close>)
  have c: "tsx_inv (tsx_schedule_timer env Timeout_timer t TIMEOUT_TIMER (tsx_cancel_timer Timeout_timer (x\<lparr>ts_last_tx := Some td\<rparr>)))"
    if "tsx_inv x" "ts_state x = ts_state w" for x t
    by (rule inv_early [OF that(1)]) (use that st in auto)
  have sr: "tsx_inv (start_retransmit env t x)" if "tsx_inv x" "ts_state x = ts_state w" for x t
    using start_retransmit_inv that le(3) by simp
  show "tsx_inv (uas_sent_2xx env td w)" if "200 \<le> ts_status_code w"
  proof (cases "ts_method w = PJSIP_INVITE_METHOD \<and> \<not> ts_handle_200resp w")
    case True
    then show ?thesis using terminate_inv [OF b(1)] b le(3) by (simp add: uas_sent_2xx_def b_def [symmetric] Let_def)
  next
    case False
    define x where "x = (if ts_method w = PJSIP_INVITE_METHOD then start_retransmit env (t1_timer_val (ev_cfg env)) b else b)"
    have x: "tsx_inv x" "ts_state x = ts_state w" "ts_role x = ts_role w" "ts_status_code x = ts_status_code w"
      using b sr by (simp_all add: x_def)
    define t where "t = (if ts_method (x\<lparr>ts_last_tx := Some td\<rparr>) = PJSIP_INVITE_METHOD then timeout_timer_val (ev_cfg env)
       else if \<not> ts_is_reliable (x\<lparr>ts_last_tx := Some td\<rparr>) then timeout_timer_val (ev_cfg env) else Time_val 0 0)"
    have "uas_sent_2xx env td w = tsx_set_state env PJSIP_TSX_STATE_COMPLETED Src_tx_msg False False
       (tsx_schedule_timer env Timeout_timer t TIMEOUT_TIMER (tsx_cancel_timer Timeout_timer (x\<lparr>ts_last_tx := Some td\<rparr>)))"
      using False b by (simp only: uas_sent_2xx_def Let_def b_def [symmetric] if_False x_def t_def)
    then show ?thesis using fin [OF c [OF x(1,2)]] x that by simp
  qed
  show "tsx_inv (uas_sent_final env td w)" if "200 \<le> ts_status_code w"
  proof -
    define t where "t = (if ts_method (b\<lparr>ts_last_tx := Some td\<rparr>) = PJSIP_INVITE_METHOD then timeout_timer_val (ev_cfg env)
       else if \<not> ts_is_reliable (b\<lparr>ts_last_tx := Some td\<rparr>) then timeout_timer_val (ev_cfg env) else Time_val 0 0)"
    define x where "x = tsx_schedule_timer env Timeout_timer t TIMEOUT_TIMER (tsx_cancel_timer Timeout_timer (b\<lparr>ts_last_tx := Some td\<rparr>))"
    define y where "y = (if \<not> ts_is_reliable x \<and> td_cseq_method td = PJSIP_INVITE_METHOD
       then start_retransmit env (t1_timer_val (ev_cfg env)) x else x)"
    have x: "tsx_inv x" "ts_state x = ts_state w" "ts_role x = ts_role w" "ts_status_code x = ts_status_code w"
      "tm_due (ts_timeout_timer x) \<noteq> None"
      using c [OF b(1,2)] b by (simp_all add: x_def)
    have "tsx_inv y" "ts_state y = ts_state w" "ts_role y = ts_role w" "ts_status_code y = ts_status_code w"
      "tm_due (ts_timeout_timer y) \<noteq> None"
      using x sr by (simp_all add: y_def)
    moreover have "uas_sent_final env td w = tsx_set_state env PJSIP_TSX_STATE_COMPLETED Src_tx_msg False False y"
      by (simp only: uas_sent_final_def Let_def b_def [symmetric] x_def y_def t_def)
    ultimately show ?thesis using fin that by simp
  qed
qed

lemma proceeding_uas_inv:
  assumes inv: "tsx_inv w" and n: "net_ok (ev_net env)" and st: "ts_state w < PJSIP_TSX_STATE_COMPLETED"
    and r: "ts_role w = PJSIP_ROLE_UAS"
  shows "tsx_inv (fst (tsx_on_state_proceeding_uas env ev w))"
proof -
  have nd: "ts_state w \<noteq> PJSIP_TSX_STATE_DESTROYED" using st by (auto simp: state_order)
  show ?thesis
  proof (cases ev)
    case (Event_timer e)
    then show ?thesis
      using retransmit_inv [OF inv n nd, of True] terminate_code_inv [OF inv nd]
      by (cases e) (simp_all add: tsx_on_state_proceeding_uas_def)
  next
    case (Event_rx_msg m)
    obtain w1 s where s: "tsx_send_msg env (ev_net env) (ts_last_tx w) w = (w1, s)" by fastforce
    have "tsx_inv (w\<lparr>f_pending_send := True\<rparr>)" if "f_pending_transport w"
      using inv that nd by (simp add: inv_defs)
    then show ?thesis
      using Event_rx_msg inv s send_okD(1) [OF inv n nd s] by (simp add: tsx_on_state_proceeding_uas_def)
  next
    case (Event_tx_msg td)
    show ?thesis
    proof (cases "td_msg td")
      case (Request m)
      then show ?thesis using Event_tx_msg inv by (simp add: tsx_on_state_proceeding_uas_def)
    next
      case (Response code)
      define w0 where "w0 = tsx_set_status_code code w"
      define w1 where "w1 = (if ts_last_tx w0 \<noteq> None \<and> ts_last_tx w0 \<noteq> Some td then w0\<lparr>ts_last_tx := None\<rparr> else w0)"
      obtain w2 s where s: "tsx_send_msg env (ev_net env) (Some td) w1 = (w2, s)" by fastforce
      have w1: "tsx_inv w1" "ts_state w1 = ts_state w" "ts_role w1 = ts_role w"
        using inv_early [OF inv st, of w1] inv by (auto simp: w1_def w0_def tsx_set_status_code_def)
      note S = send_okD [OF w1(1) n _ s]
      have "tsx_inv w2" using S(1) w1 nd by simp
      moreover have "s = PJ_SUCCESS \<Longrightarrow> ts_state w2 < PJSIP_TSX_STATE_COMPLETED" "ts_role w2 = PJSIP_ROLE_UAS"
        using S(3,4) w1 st r nd by simp_all
      moreover have "fst (tsx_on_state_proceeding_uas env ev w) =
        (if s \<noteq> PJ_SUCCESS then w2 else if PJSIP_IS_STATUS_IN_CLASS (ts_status_code w2) 100 then uas_sent_1xx env td w2
         else if PJSIP_IS_STATUS_IN_CLASS (ts_status_code w2) 200 then uas_sent_2xx env td w2
         else if ts_status_code w2 \<ge> 300 then uas_sent_final env td w2 else w2)"
        using s unfolding Event_tx_msg w1_def w0_def
        by (simp only: tsx_on_state_proceeding_uas_def Let_def pjsip_event.case Response pjsip_msg.case split_conv) simp
      ultimately show ?thesis using uas_sent_inv [of w2 env td] class_codes(1) [of "ts_status_code w2"] by auto
    qed
  qed
qed

lemma trying_inv:
  assumes inv: "tsx_inv w" and n: "net_ok (ev_net env)" and st: "ts_state w = PJSIP_TSX_STATE_TRYING"
    and r: "ts_role w = PJSIP_ROLE_UAS"
  shows "tsx_inv (fst (tsx_on_state_trying env ev w))"
proof -
  obtain w1 s where p: "tsx_on_state_proceeding_uas env ev w = (w1, s)" by fastforce
  have w1: "tsx_inv w1" using proceeding_uas_inv [OF inv n _ r, of ev] st p by (simp add: state_order)
  have "ts_role w1 = PJSIP_ROLE_UAS" if "ts_state w1 = PJSIP_TSX_STATE_TRYING"
    using that w1 by (cases "ts_role w1") (auto simp: tsx_inv_def role_ok_def)
  then have "tsx_inv (tsx_set_state env PJSIP_TSX_STATE_PROCEEDING Src_tx_msg False False w1)"
    if "ts_state w1 = PJSIP_TSX_STATE_TRYING"
    using inv_set_state [OF w1, of PJSIP_TSX_STATE_PROCEEDING env] that by (auto simp: state_order simp del: set_state_eq)
  then show ?thesis
    using inv w1 p by (cases ev) (simp_all add: tsx_on_state_trying_def del: set_state_eq)
qed

lemma early_ops_inv:
  assumes inv: "tsx_inv w" and st: "ts_state w < PJSIP_TSX_STATE_COMPLETED"
  shows "tsx_inv (tsx_cancel_timer e w)" "tsx_inv (tsx_set_status_code c w)" "tsx_inv (w\<lparr>f_pending_resched := b\<rparr>)"
    "tsx_inv (tsx_schedule_timer env Retransmit_timer t RETRANSMIT_TIMER w)"
    "ts_state (tsx_cancel_timer e w) = ts_state w" "ts_state (tsx_schedule_timer env e t i w) = ts_state w"
    "ts_role (tsx_cancel_timer e w) = ts_role w" "ts_role (tsx_schedule_timer env e t i w) = ts_role w"
proof -
  show "tsx_inv (tsx_cancel_timer e w)" by (rule inv_early [OF inv st]) (use inv in \<open>cases e; simp add: timer_eqs\<close>)+
  show "tsx_inv (tsx_set_status_code c w)" by (rule inv_early [OF inv st]) (use inv in \<open>simp_all add: tsx_set_status_code_def\<close>)
  show "tsx_inv (w\<lparr>f_pending_resched := b\<rparr>)" by (rule inv_early [OF inv st]) (use inv in simp_all)
  show "tsx_inv (tsx_schedule_timer env Retransmit_timer t RETRANSMIT_TIMER w)"
    by (rule inv_early [OF inv st]) (use inv in \<open>simp_all add: timer_eqs\<close>)
qed (cases e; simp add: timer_eqs)+

text \<open>A client transaction that receives a final response.\<close>

lemma uac_complete_inv:
  assumes inv: "tsx_inv w" and st: "ts_state w < PJSIP_TSX_STATE_COMPLETED" and r: "ts_role w = PJSIP_ROLE_UAC"
    and c: "200 \<le> ts_status_code w"
  shows "tsx_inv (tsx_schedule_timer env Timeout_timer t TIMEOUT_TIMER (tsx_cancel_timer Timeout_timer
      (case x of Some a \<Rightarrow> (tsx_set_state env PJSIP_TSX_STATE_COMPLETED src False False w)\<lparr>ts_last_tx := Some a\<rparr>
       | None \<Rightarrow> tsx_set_state env PJSIP_TSX_STATE_COMPLETED src False False w)))" (is "tsx_inv ?w")
proof -
  let ?t = "\<lparr>tm_due = Some (PJ_TIME_VAL_ADD (ev_now env) t), tm_id = TIMEOUT_TIMER\<rparr>"
  define v where "v = (case x of Some a \<Rightarrow> w\<lparr>ts_last_tx := Some a, ts_timeout_timer := ?t\<rparr> | None \<Rightarrow> w\<lparr>ts_timeout_timer := ?t\<rparr>)"
  have "tsx_inv v" by (rule inv_early [OF inv st]) (use inv in \<open>auto simp: v_def split: option.split\<close>)
  then have "tsx_inv (tsx_set_state env PJSIP_TSX_STATE_COMPLETED src False False v)"
    by (rule inv_set_state) (use st r c in \<open>auto simp: v_def state_order split: option.split\<close>)
  moreover have "tsx_set_state env PJSIP_TSX_STATE_COMPLETED src False False v = ?w"
    by (cases w) (simp add: v_def tu_notes_def split: option.split)
  ultimately show ?thesis by simp
qed

lemma uac_rx_inv:
  assumes inv: "tsx_inv w" and n: "net_ok (ev_net env)" and st: "ts_state w < PJSIP_TSX_STATE_COMPLETED"
    and r: "ts_role w = PJSIP_ROLE_UAC" and c: "200 \<le> ts_status_code w"
  shows "tsx_inv (fst (uac_rx_failure env msg w))" "tsx_inv (uac_rx_2xx env src w)"
proof -
  have nd: "ts_state w \<noteq> PJSIP_TSX_STATE_DESTROYED" using st by (auto simp: state_order)
  define a where "a = tsx_cancel_timer Timeout_timer (tsx_cancel_timer Retransmit_timer w)"
  have a: "tsx_inv a" "ts_state a = ts_state w" "ts_role a = ts_role w" "ts_status_code a = ts_status_code w"
    "ts_method a = ts_method w" "ts_is_reliable a = ts_is_reliable w"
    using inv_early [OF inv st, of a] inv by (auto simp: a_def timer_eqs)
  note C = uac_complete_inv [where env = env and src = "Src_rx_msg msg"]
  have ack: "tsx_inv (fst (if s \<noteq> PJ_SUCCESS then (b, s) else (tsx_schedule_timer env Timeout_timer (completed_delay env v) TIMEOUT_TIMER
      (tsx_cancel_timer Timeout_timer v), PJ_SUCCESS)))"
    if s: "tsx_send_msg env (ev_net env) (Some k) a = (b, s)"
      and v: "v = (tsx_set_state env PJSIP_TSX_STATE_COMPLETED (Src_rx_msg msg) False False b)\<lparr>ts_last_tx := Some k\<rparr>" for k b s v
  proof -
    note S = send_okD [OF a(1) n _ s]
    have b: "tsx_inv b" "s = PJ_SUCCESS \<Longrightarrow> ts_state b = ts_state w" "ts_role b = PJSIP_ROLE_UAC"
      "200 \<le> ts_status_code b" using S a nd r c by (auto simp: tx_frame_def)
    then show ?thesis using C [of b "completed_delay env v" "Some k"] st v by simp
  qed
  show "tsx_inv (fst (uac_rx_failure env msg w))"
  proof (cases "ts_method w = PJSIP_INVITE_METHOD")
    case True
    show ?thesis
    proof (cases "ev_ack env")
      case (Inl e)
      then show ?thesis using True a by (simp add: uac_rx_failure_def Let_def a_def [symmetric])
    next
      case (Inr k)
      obtain b s where s: "tsx_send_msg env (ev_net env) (Some k) a = (b, s)" by fastforce
      show ?thesis
        using True a Inr s ack [OF s refl]
        by (cases "s = PJ_SUCCESS") (simp_all add: uac_rx_failure_def Let_def a_def [symmetric] del: set_state_eq restart_eq)
    qed
  next
    case False
    show ?thesis
      using False a C [OF a(1), of _ None] terminate_inv [OF a(1)] st r c nd
      by (auto simp: uac_rx_failure_def Let_def a_def [symmetric] simp del: set_state_eq restart_eq)
  qed
  define d where "d = tsx_cancel_timer Timeout_timer w"
  have d: "tsx_inv d" "ts_state d = ts_state w" "ts_role d = ts_role w" "ts_status_code d = ts_status_code w"
    "ts_method d = ts_method w" "tm_due (ts_timeout_timer d) = None"
    using inv_early [OF inv st, of d] inv by (auto simp: d_def timer_eqs)
  define e where "e = tsx_cancel_timer Retransmit_timer (tsx_schedule_timer env Timeout_timer (completed_delay env d) TIMEOUT_TIMER d)"
  have e: "tsx_inv e" "ts_state e = ts_state w" "ts_role e = ts_role w" "ts_status_code e = ts_status_code w"
    "tm_due (ts_timeout_timer e) \<noteq> None"
    using inv_early [OF d(1), of e] d st by (auto simp: e_def timer_eqs slot_schedule_def)
  have "tsx_inv (tsx_set_state env PJSIP_TSX_STATE_COMPLETED src False False e)"
    by (rule inv_set_state [OF e(1)]) (use e st r c in \<open>auto simp: state_order\<close>)
  then show "tsx_inv (uac_rx_2xx env src w)"
    using d terminate_inv [OF d(1)] nd by (simp add: uac_rx_2xx_def Let_def d_def [symmetric] e_def [symmetric] del: set_state_eq)
qed

lemma proceeding_uac_inv:
  assumes inv: "tsx_inv w" and n: "net_ok (ev_net env)" and st: "ts_state w < PJSIP_TSX_STATE_COMPLETED"
    and r: "ts_role w = PJSIP_ROLE_UAC"
  shows "tsx_inv (fst (tsx_on_state_proceeding_uac env ev w))"
proof -
  have nd: "ts_state w \<noteq> PJSIP_TSX_STATE_DESTROYED" using st by (auto simp: state_order)
  show ?thesis
  proof (cases ev)
    case (Event_timer e)
    then show ?thesis
      using retransmit_inv [OF inv n nd, of True] terminate_code_inv [OF inv nd]
      by (cases e) (simp_all add: tsx_on_state_proceeding_uac_def)
  next
    case (Event_tx_msg td)
    then show ?thesis using inv by (simp add: tsx_on_state_proceeding_uac_def)
  next
    case (Event_rx_msg m)
    show ?thesis
    proof (cases m)
      case (Request k)
      then show ?thesis using Event_rx_msg inv by (simp add: tsx_on_state_proceeding_uac_def)
    next
      case (Response c)
      define v where "v = tsx_set_status_code c w"
      have v: "tsx_inv v" "ts_state v = ts_state w" "ts_role v = PJSIP_ROLE_UAC" "ts_status_code v = c"
        using early_ops_inv(2) [OF inv st] r by (simp_all add: v_def tsx_set_status_code_def)
      have p: "tsx_inv (tsx_set_state env PJSIP_TSX_STATE_PROCEEDING src False False v)" for src
        by (rule inv_set_state [OF v(1)]) (use v st in \<open>auto simp: state_order\<close>)
      have "fst (tsx_on_state_proceeding_uac env ev w) =
        (if PJSIP_IS_STATUS_IN_CLASS c 100 then tsx_set_state env PJSIP_TSX_STATE_PROCEEDING (Src_rx_msg (Response c)) False False v
         else if PJSIP_IS_STATUS_IN_CLASS c 200 then uac_rx_2xx env (Src_rx_msg (Response c)) v
         else if c \<ge> 300 \<and> c \<le> 699 then fst (uac_rx_failure env (Response c) v) else v)"
        using Event_rx_msg Response v(4)
        by (simp add: tsx_on_state_proceeding_uac_def Let_def v_def [symmetric] del: set_state_eq)
      then show ?thesis
        using p v uac_rx_inv [OF v(1) n] st class_codes(1) [of c] by (simp del: set_state_eq)
    qed
  qed
qed

lemma calling_inv:
  assumes inv: "tsx_inv w" and n: "net_ok (ev_net env)" and st: "ts_state w = PJSIP_TSX_STATE_CALLING"
    and r: "ts_role w = PJSIP_ROLE_UAC"
  shows "tsx_inv (fst (tsx_on_state_calling env ev w))"
proof -
  have early: "ts_state w < PJSIP_TSX_STATE_COMPLETED" using st by (simp add: state_order)
  show ?thesis
  proof (cases ev)
    case (Event_timer e)
    define v where "v = (tsx_cancel_timer Retransmit_timer w)\<lparr>f_pending_resched := False\<rparr>"
    have "tsx_inv v" "ts_state v = PJSIP_TSX_STATE_CALLING"
      using inv_early [OF inv early, of v] inv st by (simp_all add: v_def timer_eqs)
    then show ?thesis
      using Event_timer retransmit_inv [OF inv n, of True] terminate_code_inv [of v] st
      by (cases e) (simp_all add: tsx_on_state_calling_def Let_def v_def [symmetric])
  next
    case (Event_tx_msg td)
    then show ?thesis using inv by (simp add: tsx_on_state_calling_def)
  next
    case (Event_rx_msg m)
    show ?thesis
    proof (cases m)
      case (Request k)
      then show ?thesis using Event_rx_msg inv by (simp add: tsx_on_state_calling_def)
    next
      case (Response c)
      define a where "a = tsx_cancel_timer Retransmit_timer w"
      define b where "b = (if c \<ge> 200 then (if tm_id (ts_timeout_timer a) \<noteq> 0 then tsx_cancel_timer Timeout_timer a else a)
          else if ts_method a = PJSIP_INVITE_METHOD then tsx_cancel_timer Timeout_timer a
          else if \<not> ts_is_reliable a
          then tsx_schedule_timer env Retransmit_timer (t2_timer_val (ev_cfg env)) RETRANSMIT_TIMER a else a)"
      define d where "d = b\<lparr>f_pending_resched := False\<rparr>"
      have a: "tsx_inv a" "ts_state a = ts_state w" "ts_role a = ts_role w"
        using early_ops_inv [OF inv early] by (simp_all add: a_def)
      have b: "tsx_inv b" "ts_state b = ts_state w" "ts_role b = ts_role w"
        using early_ops_inv [OF a(1)] a early by (simp_all add: b_def)
      have d: "tsx_inv d" "ts_state d < PJSIP_TSX_STATE_COMPLETED" "ts_role d = PJSIP_ROLE_UAC"
        using early_ops_inv(3) [OF b(1)] b early r by (simp_all add: d_def)
      have "fst (tsx_on_state_calling env ev w) = fst (tsx_on_state_proceeding_uac env ev d)"
        unfolding tsx_on_state_calling_def Event_rx_msg Response Let_def d_def b_def a_def by simp
      then show ?thesis using proceeding_uac_inv [OF d(1) n d(2,3)] by simp
    qed
  qed
qed

lemma completed_uas_inv:
  assumes inv: "tsx_inv w" and n: "net_ok (ev_net env)" and st: "ts_state w = PJSIP_TSX_STATE_COMPLETED"
    and r: "ts_role w = PJSIP_ROLE_UAS"
  shows "tsx_inv (fst (tsx_on_state_completed_uas env ev w))"
proof -
  have nd: "ts_state w \<noteq> PJSIP_TSX_STATE_DESTROYED" using st by simp
  have c: "200 \<le> ts_status_code w" using inv st by (simp add: tsx_inv_def timers_ok_def)
  have ack: "tsx_inv (tsx_set_state env PJSIP_TSX_STATE_CONFIRMED src False False
      (restart_timeout env t ((tsx_cancel_timer Retransmit_timer w)\<lparr>f_pending_resched := False\<rparr>)))" for src t
  proof (rule inv_set_state)
    show "tsx_inv (restart_timeout env t ((tsx_cancel_timer Retransmit_timer w)\<lparr>f_pending_resched := False\<rparr>))"
      by (rule inv_timers [OF inv nd]) (use inv st in \<open>simp_all add: timer_eqs\<close>)
  qed (use st r c in \<open>simp_all add: timer_eqs state_order\<close>)
  show ?thesis
  proof (cases ev)
    case (Event_timer e)
    then show ?thesis
      using retransmit_inv [OF inv n nd, of True] terminate_code_inv [OF inv nd] terminate_inv [OF inv nd]
      by (cases e) (simp_all add: tsx_on_state_completed_uas_def Let_def)
  next
    case (Event_rx_msg m)
    then show ?thesis
      using retransmit_inv [OF inv n nd, of False] inv ack
      by (cases m) (simp_all add: tsx_on_state_completed_uas_def Let_def del: set_state_eq restart_eq)
  qed (use inv in \<open>simp add: tsx_on_state_completed_uas_def\<close>)
qed

lemma completed_uac_inv:
  assumes inv: "tsx_inv w" and n: "net_ok (ev_net env)" and nd: "ts_state w \<noteq> PJSIP_TSX_STATE_DESTROYED"
  shows "tsx_inv (fst (tsx_on_state_completed_uac env ev w))"
  using inv retransmit_inv [OF inv n nd, of False] terminate_inv [OF inv nd]
  by (simp add: tsx_on_state_completed_uac_def split: pjsip_event.split tsx_timer.split pjsip_msg.split)

lemma confirmed_inv:
  assumes inv: "tsx_inv w" and nd: "ts_state w \<noteq> PJSIP_TSX_STATE_DESTROYED"
  shows "tsx_inv (fst (tsx_on_state_confirmed env ev w))"
  using inv terminate_inv [OF inv nd]
  by (simp add: tsx_on_state_confirmed_def split: pjsip_event.split tsx_timer.split)

lemma terminated_handler_inv:
  assumes "tsx_inv w"
  shows "tsx_inv (fst (tsx_on_state_terminated env ev w))" "tsx_inv (fst (tsx_on_state_destroyed env ev w))"
  using assms destroyed_inv [of w]
  by (simp_all add: tsx_on_state_terminated_def tsx_on_state_destroyed_def split: pjsip_event.split)

lemmas handler_inv = null_inv calling_inv trying_inv proceeding_uas_inv proceeding_uac_inv completed_uas_inv
  completed_uac_inv confirmed_inv terminated_handler_inv

text \<open>The handler tables have an entry for every state a transaction of a role can be in.\<close>

lemma handler_exists:
  assumes "tsx_inv w"
  shows "tsx_state_handler (ts_role w) (ts_state w) \<noteq> None"
  using assms by (cases "ts_role w"; cases "ts_state w") (simp_all add: tsx_inv_def role_ok_def)

lemma dispatch_inv:
  assumes inv: "tsx_inv w" and n: "net_ok (ev_net env)"
  shows "\<exists>w' s. tsx_dispatch env ev w = Some (w', s) \<and> tsx_inv w'"
proof -
  obtain h where h: "tsx_state_handler (ts_role w) (ts_state w) = Some h" using handler_exists [OF inv] by blast
  have "tsx_inv (fst (h env ev w))"
  proof (cases "ts_state w")
    case PJSIP_TSX_STATE_PROCEEDING
    then show ?thesis using h proceeding_uas_inv [OF inv n] proceeding_uac_inv [OF inv n]
      by (cases "ts_role w") (auto simp: state_order)
  next
    case PJSIP_TSX_STATE_COMPLETED
    then show ?thesis using h completed_uas_inv [OF inv n] completed_uac_inv [OF inv n]
      by (cases "ts_role w") auto
  next
    case PJSIP_TSX_STATE_CALLING
    then show ?thesis using h calling_inv [OF inv n] by (cases "ts_role w") auto
  next
    case PJSIP_TSX_STATE_TRYING
    then show ?thesis using h trying_inv [OF inv n] by (cases "ts_role w") auto
  qed (use h inv n handler_inv in auto)
  then show ?thesis using h by (cases "h env ev w") (simp add: tsx_dispatch_def)
qed

section \<open>Timers\<close>

text \<open>The termination that \<^verbatim>\<open>tsx_timer_callback\<close> assembles for a transport error, with the
  notification outside \<^verbatim>\<open>tsx_set_state\<close>, has the effect of an ordinary one.\<close>

lemma silent_terminated_eq:
  "tsx_set_state env PJSIP_TSX_STATE_TERMINATED src True True w =
    w\<lparr>ts_state := PJSIP_TSX_STATE_TERMINATED, sx_mod_data := detached w,
      ts_pending_tx := (if f_pending_transport w then None else ts_pending_tx w),
      f_pending_transport := False, ts_timeout_timer := slot_cancel (ts_timeout_timer w)\<rparr>"
  by (cases w) (simp add: tsx_set_state_def notify_state_silent enter_terminated_def detached_def Let_def
      tsx_cancel_timer_def split: option.split)

lemma silent_terminate_eq:
  assumes "w1 = tsx_set_state env PJSIP_TSX_STATE_TERMINATED Src_transport_error True True w"
  shows "tsx_schedule_timer env Timeout_timer (Time_val 0 0) TIMEOUT_TIMER
      (if ts_user w1 then log_tsx (Tu_state (ts_state w) PJSIP_TSX_STATE_TERMINATED Src_transport_error) w1 else w1) =
    tsx_set_state env PJSIP_TSX_STATE_TERMINATED Src_transport_error False False w"
  by (cases w) (simp add: assms silent_terminated_eq terminated_eq tsx_schedule_timer_def log_tsx_def tu_notes_def)

text \<open>What is left of the invariant when the timeout timer has been taken off the heap.\<close>

definition popped :: "sip_world \<Rightarrow> bool" where
  "popped w \<longleftrightarrow> pre_inv w \<and> (ts_state w < PJSIP_TSX_STATE_COMPLETED \<longrightarrow> tsx_inv w) \<and>
     (PJSIP_TSX_STATE_COMPLETED \<le> ts_state w \<and> ts_state w < PJSIP_TSX_STATE_TERMINATED \<longrightarrow> 200 \<le> ts_status_code w)"

lemma popped_timeout:
  assumes inv: "tsx_inv w" and nd: "ts_state w \<noteq> PJSIP_TSX_STATE_DESTROYED"
  shows "popped (w\<lparr>ts_timeout_timer := s\<rparr>)"
proof -
  have "tsx_inv (w\<lparr>ts_timeout_timer := s\<rparr>)" if "ts_state w < PJSIP_TSX_STATE_COMPLETED"
    by (rule inv_early [OF inv that]) (use inv in simp_all)
  moreover have "200 \<le> ts_status_code w" if "PJSIP_TSX_STATE_COMPLETED \<le> ts_state w" "ts_state w < PJSIP_TSX_STATE_TERMINATED"
    using inv that by (cases "ts_state w") (simp_all add: tsx_inv_def timers_ok_def state_order)
  moreover have "pre_inv (w\<lparr>ts_timeout_timer := s\<rparr>)" using inv_pre [OF inv nd] by (simp add: pre_inv_def log_ok_def)
  ultimately show ?thesis by (simp add: popped_def)
qed

lemma transport_error_inv:
  assumes p: "popped w" and lt: "ts_state w < PJSIP_TSX_STATE_TERMINATED"
  shows "tsx_inv (timer_transport_error env tp_disc w)"
proof -
  define v where "v = w\<lparr>ts_transport := None\<rparr>"
  define u where "u = (if ts_status_code v < 200 then tsx_set_status_code PJSIP_SC_TSX_TRANSPORT_ERROR v else v)"
  define d where "d \<longleftrightarrow> tp_disc \<and> ts_method v = PJSIP_INVITE_METHOD \<and> ts_role v = PJSIP_ROLE_UAS \<and> ts_status_code v < 200 \<and>
         \<not> f_pending_transport v \<and> \<not> f_pending_destroy v"
  have "pre_inv u" using p by (simp add: popped_def u_def v_def pre_inv_def tsx_set_status_code_def log_ok_def)
  then have fin: "tsx_inv (tsx_set_state env PJSIP_TSX_STATE_TERMINATED Src_transport_error False False u)"
    by (rule terminated_inv)
  have su: "ts_state w = ts_state u" by (simp add: u_def v_def tsx_set_status_code_def)
  show ?thesis
  proof (cases d)
    case True
    then have "ts_state w < PJSIP_TSX_STATE_COMPLETED" using p lt by (auto simp: popped_def d_def v_def)
    then have inv: "tsx_inv w" and s: "ts_state w \<noteq> PJSIP_TSX_STATE_COMPLETED" "ts_state w \<noteq> PJSIP_TSX_STATE_DESTROYED"
      using p by (auto simp: popped_def state_order)
    have "tsx_inv (v\<lparr>f_pending_transport := False, f_pending_resched := False, f_pending_send := False,
        f_pending_destroy := False, f_resolved_server := False\<rparr>)"
      using True inv s by (simp add: tsx_inv_def role_ok_def flags_ok_def timers_ok_def log_ok_def v_def d_def)
    then show ?thesis using True by (simp add: timer_transport_error_def Let_def d_def v_def)
  next
    case False
    have "timer_transport_error env tp_disc w = tsx_set_state env PJSIP_TSX_STATE_TERMINATED Src_transport_error False False u"
      using False silent_terminate_eq [OF refl, of env u, folded su]
      by (simp only: timer_transport_error_def Let_def d_def [symmetric] v_def [symmetric] u_def [symmetric]
          update_transport_None if_False)
    then show ?thesis using fin by simp
  qed
qed

text \<open>The timeout timer in the states that end by it.\<close>

lemma dispatch_popped:
  assumes p: "popped w" and n: "net_ok (ev_net env)" and r: "role_ok w"
  shows "\<exists>w' s. tsx_dispatch env (Event_timer Timeout_timer) w = Some (w', s) \<and> tsx_inv w'"
proof (cases "ts_state w < PJSIP_TSX_STATE_COMPLETED")
  case True
  then show ?thesis using dispatch_inv [OF _ n] p by (simp add: popped_def)
next
  case False
  have pre: "pre_inv w" "pre_inv (tsx_set_status_code c w)" for c
    using p by (simp_all add: popped_def pre_inv_def tsx_set_status_code_def log_ok_def)
  note fin = terminated_inv [OF pre(1)] terminated_inv [OF pre(2)] destroyed_inv [OF disjI1, OF pre(1)]
  have "ts_state w \<noteq> PJSIP_TSX_STATE_DESTROYED" using pre(1) by (auto simp: pre_inv_def state_order)
  then show ?thesis
    using False fin by (cases "ts_state w") (auto simp: tsx_dispatch_def tsx_on_state_completed_uas_def
        tsx_on_state_completed_uac_def tsx_on_state_confirmed_def tsx_on_state_terminated_def Let_def state_order)
qed

lemma fire_retransmit_inv:
  assumes inv: "tsx_inv w" and n: "net_ok (ev_net env)"
  shows "\<exists>w'. fire env Retransmit_timer w = Some w' \<and> tsx_inv w'"
proof -
  have s: "tsx_inv (w\<lparr>ts_retransmit_timer := s\<rparr>)" if "rid_ok s" for s
    using same_but_retransmit_inv [OF _ inv] that by (auto simp: same_but_retransmit_def rid_ok_def)
  have "rid_ok (ts_retransmit_timer w)" using inv by simp
  then have i: "tsx_inv (w\<lparr>ts_retransmit_timer := (ts_retransmit_timer w)\<lparr>tm_due := None\<rparr>\<rparr>)"
    "tsx_inv (w\<lparr>ts_retransmit_timer := (ts_retransmit_timer w)\<lparr>tm_due := None, tm_id := 0\<rparr>\<rparr>)"
    using s rid_ok_ops by blast+
  have "tm_id (ts_retransmit_timer w) \<in> {0, 1}" using inv by (simp add: tsx_inv_def timers_ok_def SIP_TIMER_INACTIVE_def RETRANSMIT_TIMER_def)
  then show ?thesis
    using i dispatch_inv [OF i(2) n, of "Event_timer Retransmit_timer"]
    by (auto simp: fire_def tsx_timer_callback_def entry_id_def TERMINATE_TIMER_def TRANSPORT_ERR_TIMER_def TRANSPORT_DISC_TIMER_def)
qed

lemma fire_timeout_inv:
  assumes inv: "tsx_inv w" and n: "net_ok (ev_net env)"
  shows "\<exists>w'. fire env Timeout_timer w = Some w' \<and> tsx_inv w'"
proof (cases "ts_state w = PJSIP_TSX_STATE_DESTROYED")
  case True
  then have "tsx_inv (w\<lparr>ts_timeout_timer := (ts_timeout_timer w)\<lparr>tm_due := None\<rparr>\<rparr>)"
    using inv by (simp add: inv_defs)
  then show ?thesis using True by (simp add: fire_def tsx_timer_callback_def)
next
  case False
  define a where "a = w\<lparr>ts_timeout_timer := (ts_timeout_timer w)\<lparr>tm_due := None\<rparr>\<rparr>"
  define b where "b = w\<lparr>ts_timeout_timer := (ts_timeout_timer w)\<lparr>tm_due := None, tm_id := 0\<rparr>\<rparr>"
  have p: "popped a" "popped b" using popped_timeout [OF inv False] by (simp_all add: a_def b_def)
  have f: "fire env Timeout_timer w = tsx_timer_callback env Timeout_timer a"
    "on_timer Timeout_timer (\<lambda>s. s\<lparr>tm_id := 0\<rparr>) a = b" "ts_state a = ts_state w" "ts_state b = ts_state w"
    "ts_status_code a = ts_status_code w" "entry_id Timeout_timer a = tm_id (ts_timeout_timer w)"
    by (simp_all add: fire_def a_def b_def entry_id_def)
  have lt: "\<not> PJSIP_TSX_STATE_DESTROYED \<le> ts_state w" using False by (cases "ts_state w") (simp_all add: state_order)
  have t: "ts_state w < PJSIP_TSX_STATE_TERMINATED" if "tm_id (ts_timeout_timer w) \<noteq> TIMEOUT_TIMER"
    using that inv lt by (cases "ts_state w") (simp_all add: tsx_inv_def timers_ok_def state_order)
  have "pre_inv (tsx_set_status_code c a)" for c
    using p(1) by (simp add: popped_def pre_inv_def tsx_set_status_code_def log_ok_def)
  then have k: "tsx_inv (fst (pjsip_tsx_terminate env (ts_status_code a) a))" if "ts_state w < PJSIP_TSX_STATE_TERMINATED"
    using p(1) f(3) that terminated_inv by (auto simp: pjsip_tsx_terminate_def popped_def)
  have d: "\<exists>w' s. tsx_dispatch env (Event_timer Timeout_timer) b = Some (w', s) \<and> tsx_inv w'"
    by (rule dispatch_popped [OF p(2) n]) (use inv in \<open>simp add: tsx_inv_def role_ok_def b_def\<close>)
  show ?thesis
    using f lt k t d transport_error_inv [OF p(2)]
    by (auto simp: tsx_timer_callback_def Let_def TERMINATE_TIMER_def TRANSPORT_ERR_TIMER_def TRANSPORT_DISC_TIMER_def TIMEOUT_TIMER_def)
qed

section \<open>Operations\<close>

lemma no_pending_send_inv: "tsx_inv w \<Longrightarrow> tsx_inv (w\<lparr>f_pending_send := False\<rparr>)"
  by (simp add: tsx_inv_def role_ok_def flags_ok_def timers_ok_def log_ok_def)

lemma terminate_async2_inv:
  assumes inv: "tsx_inv w" and lt: "ts_state w < PJSIP_TSX_STATE_TERMINATED"
  shows "tsx_inv (fst (pjsip_tsx_terminate_async2 env c ms w))"
proof (cases "200 \<le> c")
  case True
  have "ts_state w \<noteq> PJSIP_TSX_STATE_DESTROYED" using lt by (auto simp: state_order)
  then show ?thesis
    by (intro inv_timers [OF inv])
      (use inv lt True in \<open>auto simp: pjsip_tsx_terminate_async2_def Let_def tsx_set_status_code_def\<close>)
qed (use inv in \<open>simp add: pjsip_tsx_terminate_async2_def\<close>)

lemma terminate_op_inv: "tsx_inv w \<Longrightarrow> tsx_inv (fst (pjsip_tsx_terminate env c w))"
  using terminate_code_inv [of w] by (cases "ts_state w") (auto simp: pjsip_tsx_terminate_def state_order)

lemma set_timeout_inv:
  assumes inv: "tsx_inv w" and nd: "ts_state w \<noteq> PJSIP_TSX_STATE_DESTROYED"
  shows "tsx_inv (fst (pjsip_tsx_set_timeout env ms w))"
  by (rule inv_timers [OF inv nd]) (use inv in \<open>auto simp: pjsip_tsx_set_timeout_def\<close>)

lemma stop_retransmit_inv: "tsx_inv w \<Longrightarrow> tsx_inv (fst (pjsip_tsx_stop_retransmit w))"
  using same_but_retransmit_inv [OF retransmit_timer_ops(1)] by (simp add: pjsip_tsx_stop_retransmit_def)

lemma tp_state_callback_inv:
  assumes inv: "tsx_inv w" and tp: "ts_transport w \<noteq> None"
  shows "tsx_inv (tsx_tp_state_callback env st w)"
proof -
  obtain t where e: "tsx_tp_state_callback env st w = w\<lparr>f_pending_transport := False, ts_transport_err := st, ts_timeout_timer := t\<rparr>"
    and t: "t = ts_timeout_timer w \<or> ts_state w < PJSIP_TSX_STATE_COMPLETED \<and> tm_due t \<noteq> None"
    using tp_state_callback_fields by blast
  have "ts_role w = PJSIP_ROLE_UAC \<longrightarrow> f_resolved_server w" using inv tp by (simp add: tsx_inv_def flags_ok_def)
  then show ?thesis
    unfolding e by (intro inv_frame [OF inv]) (use t in \<open>cases "ts_role w"; auto simp: state_order\<close>)+
qed

lemma transport_callback_inv:
  assumes inv: "tsx_inv w" and n: "net_ok (ev_net env)" and tp: "sx_tp_sends w \<noteq> 0"
  shows "tsx_inv (transport_callback_impl env sent w)"
proof -
  define a where "a = w\<lparr>f_pending_transport := False, sx_tp_sends := sx_tp_sends w - 1\<rparr>"
  define b where "b = (if f_pending_send a then fst (tsx_send_msg env (ev_net env) (ts_last_tx a) (a\<lparr>f_pending_send := False\<rparr>)) else a)"
  define d where "d = (if sent = None \<or> ts_role a = PJSIP_ROLE_UAS then resched_if_pending env b else a)"
  define e where "e st = (if ts_state d < PJSIP_TSX_STATE_COMPLETED
    then tsx_schedule_timer env Timeout_timer (Time_val 0 0) TRANSPORT_ERR_TIMER (tsx_cancel_timer Timeout_timer (d\<lparr>ts_transport_err := st\<rparr>))
    else d\<lparr>ts_transport_err := st\<rparr>)" for st
  have "ts_role w = PJSIP_ROLE_UAC \<longrightarrow> f_resolved_server w" using inv tp by (simp add: tsx_inv_def flags_ok_def)
  then have a: "tsx_inv a" unfolding a_def by (intro inv_frame [OF inv]) (cases "ts_role w"; simp)+
  have nd: "ts_state a \<noteq> PJSIP_TSX_STATE_DESTROYED" if "f_pending_send a" using a that by (auto simp: tsx_inv_def flags_ok_def)
  have b: "tsx_inv b"
    using a nd send_okD(1) [OF no_pending_send_inv [OF a] n]
    by (cases "tsx_send_msg env (ev_net env) (ts_last_tx a) (a\<lparr>f_pending_send := False\<rparr>)") (auto simp: b_def)
  have d: "tsx_inv d" using a b resched_if_pending_inv(1) by (simp add: d_def)
  have e: "tsx_inv (e st)" for st
  proof (cases "ts_state d < PJSIP_TSX_STATE_COMPLETED")
    case True
    then show ?thesis by (intro inv_early [OF d]) (use d in \<open>simp_all add: e_def\<close>)
  next
    case False
    then show ?thesis by (intro inv_frame [OF d]) (auto simp: e_def)
  qed
  have "transport_callback_impl env sent w =
      (if (sent = None \<or> ts_role a = PJSIP_ROLE_UAS) \<and> f_pending_destroy a
       then tsx_set_state env PJSIP_TSX_STATE_DESTROYED Src_unknown False False a
       else case sent of Some st \<Rightarrow> (if ts_role d = PJSIP_ROLE_UAC then e st else d) | None \<Rightarrow> d)"
    by (simp only: transport_callback_impl_def Let_def a_def [symmetric] b_def [symmetric] d_def [symmetric])
      (simp add: e_def split: option.split)
  then show ?thesis using a d e destroyed_inv [of a] by (simp split: option.split)
qed

section \<open>A transaction in its environment\<close>

text \<open>
  One call into a transaction: a received or transmitted message, a timer that expires, a
  request of the transaction user, or a report of the transport layer.  The user does not call
  a destroyed transaction, and schedules a termination only while the transaction is alive.
\<close>

inductive tsx_step :: "sip_world \<Rightarrow> sip_world \<Rightarrow> bool" where
  step_recv: "net_ok (ev_net env) \<Longrightarrow> pjsip_tsx_recv_msg env m w = Some (w', s) \<Longrightarrow> tsx_step w w'"
| step_send: "net_ok (ev_net env) \<Longrightarrow> pjsip_tsx_send_msg env td w = Some (w', s) \<Longrightarrow> tsx_step w w'"
| step_fire: "net_ok (ev_net env) \<Longrightarrow> timer_armed e w \<Longrightarrow> fire env e w = Some w' \<Longrightarrow> tsx_step w w'"
| step_terminate: "tsx_step w (fst (pjsip_tsx_terminate env c w))"
| step_terminate_async: "ts_state w < PJSIP_TSX_STATE_TERMINATED \<Longrightarrow> tsx_step w (fst (pjsip_tsx_terminate_async2 env c ms w))"
| step_stop: "tsx_step w (fst (pjsip_tsx_stop_retransmit w))"
| step_set_timeout: "ts_state w \<noteq> PJSIP_TSX_STATE_DESTROYED \<Longrightarrow> tsx_step w (fst (pjsip_tsx_set_timeout env ms w))"
| step_retransmit: "net_ok (ev_net env) \<Longrightarrow> ts_state w \<noteq> PJSIP_TSX_STATE_DESTROYED \<Longrightarrow>
    tsx_step w (fst (pjsip_tsx_retransmit_no_state env td w))"
| step_send_done: "cb_ok c \<Longrightarrow> tsx_step w (fst (send_msg_callback env c tid w))"
| step_transport_done: "net_ok (ev_net env) \<Longrightarrow> sx_tp_sends w \<noteq> 0 \<Longrightarrow> tsx_step w (transport_callback_impl env sent w)"
| step_disconnected: "ts_transport w \<noteq> None \<Longrightarrow> tsx_step w (tsx_tp_state_callback env st w)"
| step_unload: "tsx_step w (w\<lparr>sx_layer_up := False\<rparr>)"

lemma step_inv:
  assumes "tsx_step w w'" "tsx_inv w"
  shows "tsx_inv w'"
  using assms
proof (induction rule: tsx_step.induct)
  case (step_recv env m w w' s)
  then show ?case using dispatch_inv [of w env "Event_rx_msg m"] by (auto simp: pjsip_tsx_recv_msg_def)
next
  case (step_send env td w w' s)
  show ?case
  proof (cases "case td of None \<Rightarrow> ts_last_tx w | Some t \<Rightarrow> Some t")
    case (Some t)
    then show ?thesis using step_send dispatch_inv [of w env "Event_tx_msg t"] by (auto simp: pjsip_tsx_send_msg_def)
  qed (use step_send in \<open>simp add: pjsip_tsx_send_msg_def\<close>)
next
  case (step_fire env e w w')
  then show ?case using fire_retransmit_inv [of w env] fire_timeout_inv [of w env] by (cases e) auto
next
  case (step_retransmit env w td)
  obtain w1 s where "tsx_send_msg env (ev_net env) (case td of None \<Rightarrow> ts_last_tx w | Some t \<Rightarrow> Some t) w = (w1, s)"
    by fastforce
  then show ?case using send_okD(1) step_retransmit by (simp add: pjsip_tsx_retransmit_no_state_def)
next
  case (step_send_done c w env tid)
  then show ?case using send_msg_ok(2) [of w c env tid] by (simp add: called_ok_def)
next
  case (step_unload w)
  then show ?case by (intro inv_frame [OF step_unload]) auto
qed (simp_all add: terminate_op_inv terminate_async2_inv stop_retransmit_inv set_timeout_inv
    transport_callback_inv tp_state_callback_inv)

text \<open>The states reachable from a new transaction with a transaction user.\<close>

inductive tsx_reach :: "sip_world \<Rightarrow> bool" where
  reach_uac: "tsx_reach (tsx_init_uac meth td rel (tsx_create self True md))"
| reach_uas: "tsx_reach (tsx_init_uas env meth tp rel (tsx_create self True md))"
| reach_step: "tsx_reach w \<Longrightarrow> tsx_step w w' \<Longrightarrow> tsx_reach w'"

lemma init_inv:
  "tsx_inv (tsx_init_uac meth td rel (tsx_create self True md))"
  "tsx_inv (tsx_init_uas env meth tp rel (tsx_create self True md))"
proof -
  show "tsx_inv (tsx_init_uac meth td rel (tsx_create self True md))"
    by (simp add: tsx_init_uac_def tsx_create_def inv_defs)
  show "tsx_inv (tsx_init_uas env meth tp rel (tsx_create self True md))"
  proof (cases tp)
    case (Some t)
    then show ?thesis
      by (auto simp: tsx_init_uas_def tsx_create_def inv_defs tsx_update_transport_def tsx_tp_state_callback_def Let_def)
  qed (simp add: tsx_init_uas_def tsx_create_def inv_defs)
qed

lemma tsx_reach_inv: "tsx_reach w \<Longrightarrow> tsx_inv w"
  by (induction rule: tsx_reach.induct) (simp_all add: init_inv step_inv)

end
