(* ===== verification/Sip_Tsx_Props.thy ===== *)
theory Sip_Tsx_Props
  imports Sip_Tsx_Step Timer_Props
begin

text \<open>
  What the SIP transaction guarantees: to its user (the states it is told of, the time-outs, the
  final states), on the wire (retransmissions, acknowledgements) and to the transaction layer
  (registration ends, memory is released once); and the situations in which a transaction is
  left behind for ever.  The timer slots of theory \<^verbatim>\<open>Sip_Tsx\<close> are shown to be the entries of the
  timer heap.
\<close>

section \<open>Timer slots and the timer heap\<close>

text \<open>A timer entry of the heap seen as a slot.\<close>

definition slot_of :: "timer_world \<Rightarrow> nat \<Rightarrow> timer_slot" where
  "slot_of w e = \<lparr>tm_due = deadline w e, tm_id = te_id (tw_entries w e)\<rparr>"

lemma schedule_te_id:
  assumes "schedule_w_grp_lock mem junk now w e d True v gl = (w', st)"
  shows "te_id (tw_entries w' x) = (if x = e \<and> st = PJ_SUCCESS then v else te_id (tw_entries w x))"
proof -
  obtain w1 s where r: "schedule_entry mem junk w e (PJ_TIME_VAL_ADD now d) = (w1, s)" by fastforce
  have "te_id (tw_entries (fst (schedule_entry mem junk w e (PJ_TIME_VAL_ADD now d))) x) = te_id (tw_entries w x)"
    by (auto simp: schedule_entry_def Let_def insert_node_entries set_entry_timer_id_def split: prod.split)
  then have "te_id (tw_entries w1 x) = te_id (tw_entries w x)" using r by simp
  then show ?thesis
    using assms by (auto simp: schedule_w_grp_lock_def Let_def r add_ref_def split: if_splits option.splits)
qed

lemma cancel_te_id:
  assumes "cancel_timer w e True v = (w', n)"
  shows "te_id (tw_entries w' x) = (if x = e \<and> n > 0 then v else te_id (tw_entries w x))"
proof -
  obtain w1 k where c: "cancel w e = (w1, k)" by fastforce
  have "te_id (tw_entries (fst (remove_node w s)) x) = te_id (tw_entries w x)" for s
    by (simp add: remove_node_def Let_def set_entry_timer_id_def)
  then have "te_id (tw_entries w1 x) = te_id (tw_entries w x)"
    using c by (auto simp: cancel_def Let_def set_entry_timer_id_def split: if_splits)
  then show ?thesis
    using assms by (auto simp: cancel_timer_def Let_def c add_ref_def split: if_splits option.splits)
qed

lemma schedule_slot:
  assumes ok: "tw_ok w" "has_cb w e"
    and r: "pj_timer_heap_schedule_w_grp_lock (\<lambda>_. True) junk now w e d idv gl = (w', st)"
  shows "tw_ok w' \<and> (slot_of w' e, st) = slot_schedule now d idv (slot_of w e) \<and> (\<forall>x. x \<noteq> e \<longrightarrow> slot_of w' x = slot_of w x)"
proof (cases "deadline w e")
  case None
  note L = ts.schedule_law [OF ok None r]
  have "te_id (tw_entries w' x) = (if x = e then idv else te_id (tw_entries w x))" for x
    using schedule_te_id [of _ junk now w e d idv gl w' st x] r L by (simp add: pj_timer_heap_schedule_w_grp_lock_def)
  then show ?thesis using L None by (simp add: slot_of_def slot_schedule_def)
next
  case (Some t)
  then show ?thesis using ts.schedule_busy [OF ok, of junk now d idv gl] r ok by (simp add: slot_of_def slot_schedule_def)
qed

lemma cancel_slot:
  assumes ok: "tw_ok w" and r: "pj_timer_heap_cancel_if_active w e SIP_TIMER_INACTIVE = (w', n)"
  shows "tw_ok w' \<and> slot_of w' e = slot_cancel (slot_of w e) \<and> (\<forall>x. x \<noteq> e \<longrightarrow> slot_of w' x = slot_of w x)"
proof -
  note L = ts.stop_law [OF ok r]
  have "te_id (tw_entries w' x) = (if x = e \<and> deadline w e \<noteq> None then SIP_TIMER_INACTIVE else te_id (tw_entries w x))" for x
    using cancel_te_id [of w e SIP_TIMER_INACTIVE w' n x] r L by (auto simp: pj_timer_heap_cancel_if_active_def)
  then show ?thesis using L by (simp add: slot_of_def slot_cancel_def)
qed

section \<open>Final states\<close>

lemma fire_completed:
  assumes inv: "tsx_inv w" and st: "ts_state w = PJSIP_TSX_STATE_COMPLETED \<or> ts_state w = PJSIP_TSX_STATE_CONFIRMED"
  shows "\<exists>w'. fire env Timeout_timer w = Some w' \<and> ts_state w' = PJSIP_TSX_STATE_TERMINATED \<and> sx_layer_up w' = sx_layer_up w"
proof -
  have c: "200 \<le> ts_status_code w" using inv st by (auto simp: tsx_inv_def timers_ok_def)
  have r: "ts_role w = PJSIP_ROLE_UAC \<longrightarrow> ts_state w = PJSIP_TSX_STATE_COMPLETED" using inv st by (auto simp: tsx_inv_def role_ok_def)
  have t: "timer_transport_error env d x = tsx_set_state env PJSIP_TSX_STATE_TERMINATED Src_transport_error False False (x\<lparr>ts_transport := None\<rparr>)"
    if "200 \<le> ts_status_code x" for d x
    using that silent_terminate_eq [OF refl, of env "x\<lparr>ts_transport := None\<rparr>"] by (simp add: timer_transport_error_def Let_def cong: if_cong split del: if_split)
  show ?thesis
    using st c r
    by (cases "ts_role w") (auto simp: fire_def tsx_timer_callback_def entry_id_def state_order pjsip_tsx_terminate_def t Let_def
        tsx_dispatch_def tsx_on_state_completed_uas_def tsx_on_state_completed_uac_def tsx_on_state_confirmed_def
        terminated_eq tsx_set_status_code_def)
qed

lemma fire_terminated:
  assumes inv: "tsx_inv w" and st: "ts_state w = PJSIP_TSX_STATE_TERMINATED"
  shows "\<exists>w'. fire env Timeout_timer w = Some w' \<and> ts_state w' = PJSIP_TSX_STATE_DESTROYED \<and>
    \<not> timer_armed Timeout_timer w' \<and> \<not> timer_armed Retransmit_timer w' \<and> ts_transport w' = None \<and>
    (sx_layer_up w \<longrightarrow> Unregistered \<in> set (sx_log w'))"
proof -
  have "tm_id (ts_timeout_timer w) = TIMEOUT_TIMER" using inv st by (simp add: tsx_inv_def timers_ok_def)
  then show ?thesis
    using st by (simp add: fire_def tsx_timer_callback_def entry_id_def state_order TIMEOUT_TIMER_def TERMINATE_TIMER_def
        TRANSPORT_ERR_TIMER_def TRANSPORT_DISC_TIMER_def tsx_dispatch_def tsx_on_state_terminated_def destroyed_eq
        timer_armed_def farewell_def)
qed

section \<open>Messages\<close>

text \<open>A message that goes out at once over the transport the transaction has.\<close>

definition sends_now :: "net \<Rightarrow> sip_world \<Rightarrow> bool" where
  "sends_now n w \<longleftrightarrow> ts_transport w \<noteq> None \<and> \<not> f_pending_transport w \<and> \<not> net_busy n \<and> net_tp n = PJ_SUCCESS"

lemma PJ_SUCCESS_neq_EPENDING [simp]: "PJ_SUCCESS \<noteq> PJ_EPENDING" "PJ_EPENDING \<noteq> PJ_SUCCESS"
  by simp_all

lemma send_now:
  assumes "sends_now n w"
  shows "tsx_send_msg env n (Some td) w = (w\<lparr>sx_log := sx_log w @ [Net_send (td_id td)]\<rparr>, PJ_SUCCESS)"
proof -
  obtain busy tp cbs ret where n: "n = Net busy tp cbs ret" by (cases n)
  show ?thesis using assms
    by (cases w) (auto simp: n sends_now_def send_over_transport_def log_tsx_def)
qed

text \<open>The wait before the next retransmission of a request that has had no response: T1 doubled
  with every retransmission, and for requests other than \<^verbatim>\<open>INVITE\<close> at most T2 (timers A and E of
  RFC 3261).\<close>

definition request_wait :: "tsx_cfg \<Rightarrow> pjsip_method_e \<Rightarrow> nat \<Rightarrow> nat" where
  "request_wait c meth n =
     (if meth = PJSIP_INVITE_METHOD then cf_t1 c * 2 ^ n else min (cf_t2 c) (cf_t1 c * 2 ^ n))"

lemma resched_request:
  assumes "ts_role w = PJSIP_ROLE_UAC" "ts_status_code w < 100" "tm_due (ts_retransmit_timer w) = None"
    "cf_t1 (ev_cfg env) * 2 ^ ts_retransmit_count w < 2 ^ 32" "0 < request_wait (ev_cfg env) (ts_method w) (ts_retransmit_count w)"
  shows "tsx_resched_retransmission env w = w\<lparr>ts_retransmit_timer := \<lparr>tm_due = Some (PJ_TIME_VAL_ADD (ev_now env)
      (msec_val (request_wait (ev_cfg env) (ts_method w) (ts_retransmit_count w)))), tm_id = RETRANSMIT_TIMER\<rparr>\<rparr>"
proof -
  have e: "2 ^ ts_retransmit_count w * int (cf_t1 (ev_cfg env)) = int (cf_t1 (ev_cfg env) * 2 ^ ts_retransmit_count w)" by simp
  have "u32 (int k) = k" if "k < 2 ^ 32" for k :: nat using that by (simp add: u32_def)
  then have u: "u32 (2 ^ ts_retransmit_count w * int (cf_t1 (ev_cfg env))) = cf_t1 (ev_cfg env) * 2 ^ ts_retransmit_count w"
    unfolding e using assms(4) by blast
  define N where "N = cf_t1 (ev_cfg env) * 2 ^ ts_retransmit_count w"
  have m: "(if N > cf_t2 (ev_cfg env) \<and> ts_method w \<noteq> PJSIP_INVITE_METHOD then cf_t2 (ev_cfg env) else N) =
      request_wait (ev_cfg env) (ts_method w) (ts_retransmit_count w)"
    by (auto simp: request_wait_def N_def [symmetric] min_def)
  have c: "\<not> (ts_role w = PJSIP_ROLE_UAC \<and> 100 \<le> ts_status_code w)" using assms(2) by simp
  show ?thesis
    unfolding tsx_resched_retransmission_def Let_def if_not_P [OF c] if_P [OF assms(1)] u N_def [symmetric] m
    using assms(3,5) by (simp add: tsx_schedule_timer_def slot_schedule_def)
qed

lemma fire_retransmit_calling:
  assumes st: "ts_state w = PJSIP_TSX_STATE_CALLING" "ts_role w = PJSIP_ROLE_UAC" "ts_status_code w < 100"
    and id: "tm_id (ts_retransmit_timer w) = RETRANSMIT_TIMER" and td: "ts_last_tx w = Some td" and n: "sends_now (ev_net env) w"
    and mx: "max_retrans_count (ev_cfg env) < 0 \<or> int (ts_retransmit_count w) < max_retrans_count (ev_cfg env)"
    and t: "cf_t1 (ev_cfg env) * 2 ^ Suc (ts_retransmit_count w) < 2 ^ 32"
      "0 < request_wait (ev_cfg env) (ts_method w) (Suc (ts_retransmit_count w))"
  shows "fire env Retransmit_timer w = Some (w\<lparr>ts_retransmit_count := Suc (ts_retransmit_count w),
    ts_retransmit_timer := \<lparr>tm_due = Some (PJ_TIME_VAL_ADD (ev_now env) (msec_val
       (request_wait (ev_cfg env) (ts_method w) (Suc (ts_retransmit_count w))))), tm_id = RETRANSMIT_TIMER\<rparr>,
    sx_log := sx_log w @ [Net_send (td_id td)]\<rparr>)"
proof -
  define a where "a = w\<lparr>ts_retransmit_timer := \<lparr>tm_due = None, tm_id = 0\<rparr>, ts_retransmit_count := Suc (ts_retransmit_count w)\<rparr>"
  note R = resched_request [of a env]
  have S: "sends_now (ev_net env) (a\<lparr>ts_retransmit_timer := s\<rparr>)" for s using n by (simp add: sends_now_def a_def)
  have nf: "\<not> f_pending_transport a" using n by (simp add: sends_now_def a_def)
  have f: "fire env Retransmit_timer w = map_option fst (tsx_dispatch env (Event_timer Retransmit_timer)
      (w\<lparr>ts_retransmit_timer := \<lparr>tm_due = None, tm_id = 0\<rparr>\<rparr>))"
    using st id by (cases "ts_retransmit_timer w") (simp add: fire_def tsx_timer_callback_def entry_id_def state_order RETRANSMIT_TIMER_def TERMINATE_TIMER_def
        TRANSPORT_ERR_TIMER_def TRANSPORT_DISC_TIMER_def)
  also have "\<dots> = Some (fst (tsx_retransmit env True (w\<lparr>ts_retransmit_timer := \<lparr>tm_due = None, tm_id = 0\<rparr>\<rparr>)))"
    using st by (simp add: tsx_dispatch_def tsx_on_state_calling_def)
  also have "\<dots> = Some ((tsx_resched_retransmission env a)\<lparr>sx_log := sx_log w @ [Net_send (td_id td)]\<rparr>)"
  proof -
    let ?w = "w\<lparr>ts_retransmit_timer := \<lparr>tm_due = None, tm_id = 0\<rparr>\<rparr>"
    have l: "ts_last_tx (tsx_resched_retransmission env a) = Some td" "sx_log (tsx_resched_retransmission env a) = sx_log w"
      "sends_now (ev_net env) (tsx_resched_retransmission env a)"
      using R st t S td by (simp_all add: a_def)
    have m: "\<not> (0 \<le> max_retrans_count (ev_cfg env) \<and> max_retrans_count (ev_cfg env) \<le> int (ts_retransmit_count ?w) \<and> is_request (td_msg td))"
      using mx by auto
    have a: "?w\<lparr>ts_retransmit_count := Suc (ts_retransmit_count ?w)\<rparr> = a" by (simp add: a_def)
    have nf': "\<not> f_pending_transport (tsx_resched_retransmission env a)" using l(3) by (simp add: sends_now_def)
    have "tsx_retransmit env True ?w =
        ((tsx_resched_retransmission env a)\<lparr>sx_log := sx_log w @ [Net_send (td_id td)]\<rparr>, PJ_SUCCESS)"
      unfolding tsx_retransmit_def Let_def a using td m nf nf' send_now [OF l(3), of env td] l(1,2) by auto
    then show ?thesis by simp
  qed
  also have "tsx_resched_retransmission env a = a\<lparr>ts_retransmit_timer := \<lparr>tm_due = Some (PJ_TIME_VAL_ADD (ev_now env)
      (msec_val (request_wait (ev_cfg env) (ts_method w) (Suc (ts_retransmit_count w))))), tm_id = RETRANSMIT_TIMER\<rparr>\<rparr>"
    using R st t by (simp add: a_def)
  finally show ?thesis by (simp add: a_def)
qed

text \<open>Responses at the client.\<close>

lemma class_iff:
  "0 \<le> c \<Longrightarrow> PJSIP_IS_STATUS_IN_CLASS c 100 \<longleftrightarrow> 100 \<le> c \<and> c < 200"
  "0 \<le> c \<Longrightarrow> PJSIP_IS_STATUS_IN_CLASS c 200 \<longleftrightarrow> 200 \<le> c \<and> c < 300"
  by (auto simp: PJSIP_IS_STATUS_IN_CLASS_def c_div_def sgn_if)

definition uac_final_state :: "pjsip_method_e \<Rightarrow> int \<Rightarrow> pjsip_tsx_state_e" where
  "uac_final_state meth code =
     (if meth = PJSIP_INVITE_METHOD \<and> code < 300 \<or> meth = PJSIP_BYE_METHOD \<and> (code = 408 \<or> code = 481)
      then PJSIP_TSX_STATE_TERMINATED else PJSIP_TSX_STATE_COMPLETED)"

text \<open>What a final response leaves behind.\<close>

definition final_ok :: "pjsip_method_e \<Rightarrow> int \<Rightarrow> pjsip_tx_data \<Rightarrow> sip_world \<Rightarrow> bool" where
  "final_ok meth code ack w \<longleftrightarrow> ts_state w = uac_final_state meth code \<and> ts_status_code w = code \<and>
     Tu_rx_response code \<in> set (sx_log w) \<and> timer_armed Timeout_timer w \<and>
     (ts_state w = PJSIP_TSX_STATE_COMPLETED \<longrightarrow> \<not> timer_armed Retransmit_timer w) \<and>
     (meth = PJSIP_INVITE_METHOD \<and> 300 \<le> code \<longrightarrow> Net_send (td_id ack) \<in> set (sx_log w) \<and> ts_last_tx w = Some ack)"

lemma cancel_fields [simp]:
  "ts_state (tsx_cancel_timer e w) = ts_state w" "ts_method (tsx_cancel_timer e w) = ts_method w"
  "ts_user (tsx_cancel_timer e w) = ts_user w" "ts_status_code (tsx_cancel_timer e w) = ts_status_code w"
  "sends_now n (tsx_cancel_timer e w) = sends_now n w" "ts_is_reliable (tsx_cancel_timer e w) = ts_is_reliable w"
  "sx_log (tsx_cancel_timer e w) = sx_log w"
  by (cases e; simp add: timer_eqs sends_now_def)+

lemma uac_rx_2xx_final:
  assumes "ts_user w" "ts_status_code w = code" "200 \<le> code" "code < 300"
  shows "final_ok (ts_method w) code ack (uac_rx_2xx env (Src_rx_msg (Response code)) w)"
  using assms by (auto simp: uac_rx_2xx_def Let_def final_ok_def uac_final_state_def terminated_eq tu_notes_def timer_armed_def
      timer_eqs slot_schedule_def)

lemma uac_rx_failure_final:
  assumes "ts_user w" "ts_status_code w = code" "300 \<le> code"
    "ts_method w = PJSIP_INVITE_METHOD \<longrightarrow> ev_ack env = Inr ack \<and> sends_now (ev_net env) w"
  shows "\<exists>w'. uac_rx_failure env (Response code) w = (w', PJ_SUCCESS) \<and> final_ok (ts_method w) code ack w'"
proof -
  define a where "a = tsx_cancel_timer Timeout_timer (tsx_cancel_timer Retransmit_timer w)"
  have a: "ts_user a" "ts_status_code a = code" "ts_method a = ts_method w" "tm_due (ts_retransmit_timer a) = None"
    "sends_now (ev_net env) w \<longrightarrow> tsx_send_msg env (ev_net env) (Some ack) a = (a\<lparr>sx_log := sx_log a @ [Net_send (td_id ack)]\<rparr>, PJ_SUCCESS)"
    using assms send_now [of "ev_net env" a env ack] by (simp_all add: a_def) (simp add: timer_eqs)
  show ?thesis
    using a assms
    by (cases "ts_method w = PJSIP_INVITE_METHOD")
      (auto simp: uac_rx_failure_def Let_def a_def [symmetric] final_ok_def uac_final_state_def terminated_eq tu_notes_def
        timer_armed_def PJSIP_SC_CALL_TSX_DOES_NOT_EXIST_def)
qed

lemma proceeding_uac_final:
  assumes "ts_user w" "200 \<le> code" "code \<le> 699"
    "ts_method w = PJSIP_INVITE_METHOD \<and> 300 \<le> code \<longrightarrow> ev_ack env = Inr ack \<and> sends_now (ev_net env) w"
  shows "\<exists>w'. tsx_on_state_proceeding_uac env (Event_rx_msg (Response code)) w = (w', PJ_SUCCESS) \<and> final_ok (ts_method w) code ack w'"
proof -
  let ?w = "tsx_set_status_code code w"
  have s: "ts_user ?w" "ts_status_code ?w = code" "ts_method ?w = ts_method w" "sends_now (ev_net env) ?w = sends_now (ev_net env) w"
    using assms by (simp_all add: tsx_set_status_code_def sends_now_def)
  show ?thesis
    using uac_rx_2xx_final [OF s(1,2), of ack env] uac_rx_failure_final [OF s(1,2), of env ack] assms s
    by (cases "code < 300") (simp_all add: tsx_on_state_proceeding_uac_def Let_def class_iff)
qed

lemma recv_final:
  assumes w: "ts_role w = PJSIP_ROLE_UAC" "ts_state w = PJSIP_TSX_STATE_CALLING \<or> ts_state w = PJSIP_TSX_STATE_PROCEEDING" "ts_user w"
    and c: "200 \<le> code" "code \<le> 699"
      "ts_method w = PJSIP_INVITE_METHOD \<and> 300 \<le> code \<longrightarrow> ev_ack env = Inr ack \<and> sends_now (ev_net env) w"
  shows "\<exists>w'. pjsip_tsx_recv_msg env (Response code) w = Some (w', PJ_SUCCESS) \<and> final_ok (ts_method w) code ack w'"
proof (cases "ts_state w = PJSIP_TSX_STATE_PROCEEDING")
  case True
  then show ?thesis using proceeding_uac_final [of w code env ack] w c by (simp add: pjsip_tsx_recv_msg_def tsx_dispatch_def)
next
  case False
  define a where "a = tsx_cancel_timer Retransmit_timer w"
  define b where "b = (if tm_id (ts_timeout_timer a) \<noteq> 0 then tsx_cancel_timer Timeout_timer a else a)\<lparr>f_pending_resched := False\<rparr>"
  have b: "ts_user b" "ts_method b = ts_method w" "sends_now (ev_net env) b = sends_now (ev_net env) w"
    using w(3) by (simp_all add: b_def a_def) (simp_all add: sends_now_def timer_eqs)
  have "tsx_on_state_calling env (Event_rx_msg (Response code)) w =
      (fst (tsx_on_state_proceeding_uac env (Event_rx_msg (Response code)) b), PJ_SUCCESS)"
    using c(1) by (simp add: tsx_on_state_calling_def Let_def a_def [symmetric] b_def cong: if_cong)
  then show ?thesis
    using False w proceeding_uac_final [of b code env ack] b c by (auto simp: pjsip_tsx_recv_msg_def tsx_dispatch_def)
qed

section \<open>Properties\<close>

text \<open>C1: In every state a transaction can reach, the notifications its user has received form a
  connected path that starts in the initial state, never goes back in the order of the states,
  and ends in the transaction's current state, in whatever order messages, timers, transport
  reports and requests of the user have been interleaved.\<close>

theorem sip_states_ascend:
  assumes "tsx_reach w"
  shows "walk PJSIP_TSX_STATE_NULL (sx_log w) = Some (ts_state w)"
  using tsx_reach_inv [OF assms] by (simp add: tsx_inv_def log_ok_def)

text \<open>C7: The tables of state handlers contain \<^verbatim>\<open>NULL\<close> entries, but no reachable transaction calls
  one: every event in every reachable state finds a handler, and so does the expiry of either
  timer.\<close>

theorem sip_handlers_total:
  assumes "tsx_reach w" "net_ok (ev_net env)"
  shows "tsx_dispatch env ev w \<noteq> None \<and> fire env e w \<noteq> None"
  using tsx_reach_inv [OF assms(1)] dispatch_inv [OF _ assms(2)] fire_retransmit_inv [OF _ assms(2)] fire_timeout_inv [OF _ assms(2)]
  by (cases e) fastforce+

text \<open>C9: A transaction that has completed ends: its timeout timer is armed, the expiry of it (for
  whatever purpose it was last armed) leads to the terminated state with the timer armed again,
  and the next expiry destroys the transaction, with both timers stopped, the transport given
  back and the transaction taken out of the layer's table.\<close>

theorem sip_final_states_end:
  assumes "tsx_reach w" "ts_state w = PJSIP_TSX_STATE_COMPLETED \<or> ts_state w = PJSIP_TSX_STATE_CONFIRMED"
    "net_ok (ev_net env1)"
  shows "timer_armed Timeout_timer w \<and>
    (\<exists>w1 w2. fire env1 Timeout_timer w = Some w1 \<and> ts_state w1 = PJSIP_TSX_STATE_TERMINATED \<and> timer_armed Timeout_timer w1 \<and>
      fire env2 Timeout_timer w1 = Some w2 \<and> ts_state w2 = PJSIP_TSX_STATE_DESTROYED \<and>
      \<not> timer_armed Timeout_timer w2 \<and> \<not> timer_armed Retransmit_timer w2 \<and> ts_transport w2 = None \<and>
      (sx_layer_up w \<longrightarrow> Unregistered \<in> set (sx_log w2)))"
proof -
  note inv = tsx_reach_inv [OF assms(1)]
  obtain w1 where w1: "fire env1 Timeout_timer w = Some w1" "ts_state w1 = PJSIP_TSX_STATE_TERMINATED" "sx_layer_up w1 = sx_layer_up w"
    using fire_completed [OF inv assms(2)] by blast
  have i1: "tsx_inv w1" using fire_timeout_inv [OF inv assms(3)] w1 by auto
  have "timer_armed Timeout_timer w" "timer_armed Timeout_timer w1"
    using inv i1 assms(2) w1 by (auto simp: tsx_inv_def timers_ok_def timer_armed_def)
  then show ?thesis using w1 fire_terminated [OF i1 w1(2), of env2] by auto
qed

text \<open>C8: A transaction gives up its memory (the last reference that its creation took) exactly when
  it is destroyed, and only once, also when a transmission is still pending at that time and
  the destruction is completed later by its callback.\<close>

theorem sip_released_once:
  assumes "tsx_reach w"
  shows "count_list (sx_log w) Released = of_bool (ts_state w = PJSIP_TSX_STATE_DESTROYED)"
  using tsx_reach_inv [OF assms] by (simp add: tsx_inv_def log_ok_def)

text \<open>C33: A client transaction whose request is not answered in time (timers B and F) ends in the
  terminated state with status 408, tells its user so as a timer event, and has its timer
  armed for its destruction.\<close>

theorem sip_client_timeout:
  assumes "ts_role w = PJSIP_ROLE_UAC" "ts_state w = PJSIP_TSX_STATE_CALLING \<or> ts_state w = PJSIP_TSX_STATE_PROCEEDING"
    "tm_id (ts_timeout_timer w) = TIMEOUT_TIMER" "ts_user w"
  shows "\<exists>w'. fire env Timeout_timer w = Some w' \<and> ts_state w' = PJSIP_TSX_STATE_TERMINATED \<and> ts_status_code w' = 408 \<and>
    sx_log w' = sx_log w @ [Tu_state (ts_state w) PJSIP_TSX_STATE_TERMINATED Src_timer] \<and> timer_armed Timeout_timer w'"
proof -
  have f: "fire env Timeout_timer w = map_option fst (tsx_dispatch env (Event_timer Timeout_timer)
      (w\<lparr>ts_timeout_timer := (ts_timeout_timer w)\<lparr>tm_due := None, tm_id := 0\<rparr>\<rparr>))"
    using assms by (auto simp: fire_def tsx_timer_callback_def entry_id_def state_order TIMEOUT_TIMER_def TERMINATE_TIMER_def
        TRANSPORT_ERR_TIMER_def TRANSPORT_DISC_TIMER_def)
  show ?thesis
    using assms
    by (auto simp: f tsx_dispatch_def tsx_on_state_calling_def tsx_on_state_proceeding_uac_def terminated_eq
        tsx_set_status_code_def tu_notes_def PJSIP_SC_TSX_TIMEOUT_def timer_armed_def Let_def timer_eqs)
qed

text \<open>When the retransmission timer of an unanswered request expires, the request is sent once
  more and the timer is armed again: T1 doubled with every retransmission, and for requests
  other than \<^verbatim>\<open>INVITE\<close> never more than T2.  Nothing else changes.  (The count of retransmissions is
  below the configured limit, the interval fits in 32 bits, and the transport takes the message.)\<close>

theorem sip_retransmit_wait:
  assumes "ts_state w = PJSIP_TSX_STATE_CALLING" "ts_role w = PJSIP_ROLE_UAC" "ts_status_code w < 100"
    "tm_id (ts_retransmit_timer w) = RETRANSMIT_TIMER" "ts_last_tx w = Some td" "sends_now (ev_net env) w"
    "max_retrans_count (ev_cfg env) < 0 \<or> int (ts_retransmit_count w) < max_retrans_count (ev_cfg env)"
    "cf_t1 (ev_cfg env) * 2 ^ Suc (ts_retransmit_count w) < 2 ^ 32"
    "0 < request_wait (ev_cfg env) (ts_method w) (Suc (ts_retransmit_count w))"
  shows "fire env Retransmit_timer w = Some (w\<lparr>ts_retransmit_count := Suc (ts_retransmit_count w),
    ts_retransmit_timer := \<lparr>tm_due = Some (PJ_TIME_VAL_ADD (ev_now env) (msec_val
       (request_wait (ev_cfg env) (ts_method w) (Suc (ts_retransmit_count w))))), tm_id = RETRANSMIT_TIMER\<rparr>,
    sx_log := sx_log w @ [Net_send (td_id td)]\<rparr>)"
  using assms by (rule fire_retransmit_calling)


text \<open>C34: A server transaction that has sent its final response and gets the request again sends
  the response again and changes nothing else; \<^verbatim>\<open>ACK\<close> to an \<^verbatim>\<open>INVITE\<close> confirms the transaction instead:
  no message is sent, retransmission stops, and the timeout timer runs for timer D after a 2xx, for
  T4 after a failure over an unreliable transport and not at all over a reliable one.\<close>

theorem sip_ack_confirms:
  assumes "ts_role w = PJSIP_ROLE_UAS" "ts_state w = PJSIP_TSX_STATE_COMPLETED" "ts_method w = PJSIP_INVITE_METHOD" "ts_user w"
    "200 \<le> ts_status_code w" "ts_last_tx w = Some td" "td_msg td = Response rc" "sends_now (ev_net env) w"
  shows "(\<forall>m. m \<noteq> PJSIP_ACK_METHOD \<longrightarrow> pjsip_tsx_recv_msg env (Request m) w =
      Some (w\<lparr>ts_retransmit_count := Suc (ts_retransmit_count w), sx_log := sx_log w @ [Net_send (td_id td)]\<rparr>, PJ_SUCCESS)) \<and>
    (\<exists>w'. pjsip_tsx_recv_msg env (Request PJSIP_ACK_METHOD) w = Some (w', PJ_SUCCESS) \<and>
      ts_state w' = PJSIP_TSX_STATE_CONFIRMED \<and> \<not> timer_armed Retransmit_timer w' \<and> \<not> f_pending_resched w' \<and>
      tm_due (ts_timeout_timer w') = Some (PJ_TIME_VAL_ADD (ev_now env)
        (if ts_status_code w < 300 then td_timer_val (ev_cfg env)
         else if ts_is_reliable w then Time_val 0 0 else t4_timer_val (ev_cfg env))) \<and>
      sx_log w' = sx_log w @ [Tu_state PJSIP_TSX_STATE_COMPLETED PJSIP_TSX_STATE_CONFIRMED (Src_rx_msg (Request PJSIP_ACK_METHOD))])"
proof -
  have "c_div (ts_status_code w) 100 = 2 \<longleftrightarrow> ts_status_code w < 300"
    using assms(5) by (auto simp: c_div_def sgn_if)
  moreover have "sends_now (ev_net env) (w\<lparr>ts_retransmit_count := Suc (ts_retransmit_count w)\<rparr>)"
    using assms(8) by (simp add: sends_now_def)
  ultimately show ?thesis
    using assms send_now [of "ev_net env" "w\<lparr>ts_retransmit_count := Suc (ts_retransmit_count w)\<rparr>" env td]
    by (auto simp: pjsip_tsx_recv_msg_def tsx_dispatch_def tsx_on_state_completed_uas_def tsx_retransmit_def Let_def
        tu_notes_def timer_armed_def timer_eqs)
qed

text \<open>Scheduling the termination of a transaction that is already terminated takes away the
  timer that would destroy it: when the new timer expires nothing happens, no timer is left, and
  every later message is ignored.  The transaction stays registered and is never released.\<close>

theorem sip_terminate_async_strands:
  assumes "tsx_reach w" "ts_state w = PJSIP_TSX_STATE_TERMINATED" "200 \<le> code"
    "w1 = fst (pjsip_tsx_terminate_async2 env1 code ms w)"
  shows "snd (pjsip_tsx_terminate_async2 env1 code ms w) = PJ_SUCCESS \<and>
    (\<exists>w2. fire env2 Timeout_timer w1 = Some w2 \<and> ts_state w2 = PJSIP_TSX_STATE_TERMINATED \<and> \<not> timer_armed Timeout_timer w2 \<and>
      sx_log w2 = sx_log w \<and> (\<forall>env m td. pjsip_tsx_recv_msg env m w2 = Some (w2, PJ_EIGNORED) \<and>
        pjsip_tsx_send_msg env (Some td) w2 = Some (w2, PJ_EIGNORED) \<and> pjsip_tsx_terminate env code w2 = (w2, PJ_SUCCESS)))"
  using assms(2,3)
  by (simp add: assms(4) pjsip_tsx_terminate_async2_def Let_def tsx_set_status_code_def fire_def tsx_timer_callback_def entry_id_def
      state_order timer_armed_def pjsip_tsx_recv_msg_def pjsip_tsx_send_msg_def tsx_dispatch_def tsx_on_state_terminated_def
      pjsip_tsx_terminate_def)

text \<open>When the termination of a client transaction has been scheduled and a provisional response
  arrives before the timer expires, the response overwrites the status code of the scheduled
  termination: the timer then asks for a termination with a status below 200, which is refused,
  so the transaction stays in the proceeding state with its timeout timer gone.\<close>

theorem sip_terminate_async_forgotten:
  assumes "tsx_reach w" "ts_role w = PJSIP_ROLE_UAC" "ts_state w = PJSIP_TSX_STATE_PROCEEDING" "200 \<le> code"
    "100 \<le> rc" "rc < 200" "w1 = fst (pjsip_tsx_terminate_async2 env1 code ms w)"
  shows "\<exists>w2 w3. pjsip_tsx_recv_msg env2 (Response rc) w1 = Some (w2, PJ_SUCCESS) \<and> fire env3 Timeout_timer w2 = Some w3 \<and>
    ts_state w3 = PJSIP_TSX_STATE_PROCEEDING \<and> ts_status_code w3 = rc \<and> \<not> timer_armed Timeout_timer w3"
  using assms(2-6)
  by (simp add: assms(7) pjsip_tsx_terminate_async2_def Let_def tsx_set_status_code_def fire_def tsx_timer_callback_def entry_id_def
      state_order timer_armed_def pjsip_tsx_recv_msg_def tsx_dispatch_def tsx_on_state_proceeding_uac_def class_iff
      pjsip_tsx_terminate_def)

text \<open>C40: When the acknowledgement of a failure response to \<^verbatim>\<open>INVITE\<close> cannot be created, the client
  transaction stays in its state without a notification to its user, and with neither timer
  armed: only another message or request can end it.\<close>

theorem sip_ack_failure_strands:
  assumes "tsx_reach w" "ts_role w = PJSIP_ROLE_UAC" "ts_method w = PJSIP_INVITE_METHOD" "ts_state w = PJSIP_TSX_STATE_PROCEEDING"
    "300 \<le> code" "code \<le> 699" "ev_ack env = Inl st"
  shows "\<exists>w'. pjsip_tsx_recv_msg env (Response code) w = Some (w', st) \<and> ts_state w' = PJSIP_TSX_STATE_PROCEEDING \<and>
    sx_log w' = sx_log w \<and> \<not> timer_armed Timeout_timer w' \<and> \<not> timer_armed Retransmit_timer w'"
  using assms(2-7)
  by (simp add: pjsip_tsx_recv_msg_def tsx_dispatch_def tsx_on_state_proceeding_uac_def class_iff Let_def uac_rx_failure_def
      tsx_set_status_code_def timer_eqs timer_armed_def)

text \<open>The timer slots a transaction works with are the entries of the timer heap: scheduling an
  entry with \<^verbatim>\<open>pj_timer_heap_schedule_w_grp_lock\<close> and cancelling it with
  \<^verbatim>\<open>pj_timer_heap_cancel_if_active\<close> act on its deadline and its \<^verbatim>\<open>id\<close> exactly as the slot operations do,
  keep the heap well formed, and leave the slot of every other entry alone.\<close>

theorem sip_timer_slots_refine:
  assumes "tw_ok w" "has_cb w e"
    "pj_timer_heap_schedule_w_grp_lock (\<lambda>_. True) junk now w e d idv gl = (w1, st)"
    "pj_timer_heap_cancel_if_active w e SIP_TIMER_INACTIVE = (w2, n)"
  shows "tw_ok w1 \<and> (slot_of w1 e, st) = slot_schedule now d idv (slot_of w e) \<and> (\<forall>x. x \<noteq> e \<longrightarrow> slot_of w1 x = slot_of w x) \<and>
    tw_ok w2 \<and> slot_of w2 e = slot_cancel (slot_of w e) \<and> (\<forall>x. x \<noteq> e \<longrightarrow> slot_of w2 x = slot_of w x)"
  using schedule_slot [OF assms(1-3)] cancel_slot [OF assms(1,4)] by simp

section \<open>Witnesses\<close>

definition demo_cfg :: tsx_cfg where
  "demo_cfg = pjsip_tsx_initialize_timer_values
     \<lparr>cf_t1 = 500, cf_t2 = 4000, cf_t4 = 5000, cf_td = 32000, t1_timer_val = Time_val 0 0, t2_timer_val = Time_val 0 0,
      t4_timer_val = Time_val 0 0, td_timer_val = Time_val 0 0, timeout_timer_val = Time_val 0 0, max_retrans_count = - 1\<rparr>"

definition demo_ack :: pjsip_tx_data where
  "demo_ack = \<lparr>td_id = 9, td_msg = Request PJSIP_ACK_METHOD, td_cseq_method = PJSIP_ACK_METHOD\<rparr>"

definition sip_demo_env :: "pj_status + pjsip_tx_data \<Rightarrow> sip_env" where
  "sip_demo_env a = \<lparr>ev_now = Time_val 100 0, ev_cfg = demo_cfg, ev_net = Net False PJ_SUCCESS [] PJ_SUCCESS, ev_ack = a\<rparr>"

definition demo_tp :: pjsip_transport where
  "demo_tp = \<lparr>tp_id = 1, tp_reliable = False, tp_down = False\<rparr>"

definition demo_req :: "pjsip_method_e \<Rightarrow> pjsip_tx_data" where
  "demo_req m = \<lparr>td_id = 5, td_msg = Request m, td_cseq_method = m\<rparr>"

text \<open>A client that has sent its request over a transport found by the stateless send.\<close>

definition demo_sent :: "pjsip_method_e \<Rightarrow> sip_world option" where
  "demo_sent m = map_option fst (pjsip_tsx_send_msg
     ((sip_demo_env (Inr demo_ack))\<lparr>ev_net := Net False PJ_SUCCESS [Cb_sent demo_tp (Net False PJ_SUCCESS [] PJ_SUCCESS)] PJ_SUCCESS\<rparr>)
     None (tsx_init_uac m (demo_req m) False (tsx_create 1 True (\<lambda>_. None))))"

text \<open>A server of a request other than \<^verbatim>\<open>INVITE\<close> that has answered it.\<close>

definition demo_answered :: "pjsip_method_e \<Rightarrow> int \<Rightarrow> sip_world option" where
  "demo_answered m c = Option.bind (pjsip_tsx_recv_msg (sip_demo_env (Inr demo_ack)) (Request m)
       (tsx_init_uas (sip_demo_env (Inr demo_ack)) m (Some demo_tp) False (tsx_create 2 True (\<lambda>_. None))))
     (\<lambda>(w, _). map_option fst (pjsip_tsx_send_msg (sip_demo_env (Inr demo_ack))
        (Some \<lparr>td_id = 6, td_msg = Response c, td_cseq_method = m\<rparr>) w))"

lemma demo_net: "net_ok (ev_net (sip_demo_env a))"
  by (simp add: sip_demo_env_def)

lemmas demo_eval = demo_sent_def demo_answered_def sip_demo_env_def demo_cfg_def demo_req_def demo_tp_def demo_ack_def tsx_init_uac_def
  tsx_init_uas_def tsx_create_def pjsip_tsx_initialize_timer_values_def pjsip_tsx_send_msg_def pjsip_tsx_recv_msg_def tsx_dispatch_def
  tsx_on_state_null_def tsx_on_state_trying_def tsx_on_state_proceeding_uas_def tsx_on_state_calling_def tsx_on_state_proceeding_uac_def
  uas_sent_final_def send_over_transport_def start_retransmit_def adopt_transport_def tsx_update_transport_def resched_if_pending_def
  log_tsx_def Let_def timer_eqs slot_schedule_def slot_cancel_def tu_notes_def class_iff tsx_set_status_code_def

abbreviation demo_calling :: sip_world where
  "demo_calling \<equiv> the (demo_sent PJSIP_INVITE_METHOD)"

abbreviation demo_completed :: sip_world where
  "demo_completed \<equiv> the (demo_answered PJSIP_INVITE_METHOD 486)"

abbreviation demo_ringing :: sip_world where
  "demo_ringing \<equiv> fst (the (pjsip_tsx_recv_msg (sip_demo_env (Inr demo_ack)) (Response 180) demo_calling))"

abbreviation demo_over :: sip_world where
  "demo_over \<equiv> fst (pjsip_tsx_terminate (sip_demo_env (Inr demo_ack)) 487 demo_calling)"

lemma demo_calling_fields:
  "ts_role demo_calling = PJSIP_ROLE_UAC" "ts_state demo_calling = PJSIP_TSX_STATE_CALLING"
  "ts_user demo_calling" "ts_method demo_calling = PJSIP_INVITE_METHOD"
  "tm_id (ts_timeout_timer demo_calling) = TIMEOUT_TIMER" "tm_id (ts_retransmit_timer demo_calling) = RETRANSMIT_TIMER"
  "ts_status_code demo_calling = 0" "ts_retransmit_count demo_calling = 0"
  "ts_last_tx demo_calling = Some (demo_req PJSIP_INVITE_METHOD)"
  "sends_now (ev_net (sip_demo_env (Inr demo_ack))) demo_calling"
  by (simp_all add: demo_eval sends_now_def)

lemma demo_completed_fields:
  "ts_role demo_completed = PJSIP_ROLE_UAS" "ts_state demo_completed = PJSIP_TSX_STATE_COMPLETED"
  "ts_method demo_completed = PJSIP_INVITE_METHOD" "ts_user demo_completed" "200 \<le> ts_status_code demo_completed"
  "ts_last_tx demo_completed = Some \<lparr>td_id = 6, td_msg = Response 486, td_cseq_method = PJSIP_INVITE_METHOD\<rparr>"
  "sends_now (ev_net (sip_demo_env (Inr demo_ack))) demo_completed"
  by (simp_all add: demo_eval sends_now_def)

lemma demo_ringing_fields:
  "ts_role demo_ringing = PJSIP_ROLE_UAC" "ts_state demo_ringing = PJSIP_TSX_STATE_PROCEEDING"
  "ts_method demo_ringing = PJSIP_INVITE_METHOD"
  by (simp_all add: demo_eval)

lemma dispatch_reach:
  assumes "tsx_reach w" "net_ok (ev_net env)"
  shows "tsx_reach (fst (the (pjsip_tsx_recv_msg env m w)))" "tsx_reach (fst (the (pjsip_tsx_send_msg env (Some td) w)))"
proof -
  note d = dispatch_inv [OF tsx_reach_inv [OF assms(1)] assms(2)]
  obtain w1 s1 w2 s2 where "pjsip_tsx_recv_msg env m w = Some (w1, s1)" "pjsip_tsx_send_msg env (Some td) w = Some (w2, s2)"
    using d [of "Event_rx_msg m"] d [of "Event_tx_msg td"] by (auto simp: pjsip_tsx_recv_msg_def pjsip_tsx_send_msg_def)
  then show "tsx_reach (fst (the (pjsip_tsx_recv_msg env m w)))" "tsx_reach (fst (the (pjsip_tsx_send_msg env (Some td) w)))"
    using reach_step [OF assms(1) step_recv [OF assms(2)]] reach_step [OF assms(1) step_send [OF assms(2)]] by simp_all
qed

lemma sip_reached: "tsx_reach demo_calling" "tsx_reach demo_completed" "tsx_reach demo_ringing" "tsx_reach demo_over"
proof -
  let ?e = "sip_demo_env (Inr demo_ack)"
  have "demo_calling = fst (the (pjsip_tsx_send_msg (?e\<lparr>ev_net := Net False PJ_SUCCESS [Cb_sent demo_tp (Net False PJ_SUCCESS [] PJ_SUCCESS)] PJ_SUCCESS\<rparr>)
      (Some (demo_req PJSIP_INVITE_METHOD)) (tsx_init_uac PJSIP_INVITE_METHOD (demo_req PJSIP_INVITE_METHOD) False (tsx_create 1 True (\<lambda>_. None)))))"
    by (simp add: demo_eval)
  then show c: "tsx_reach demo_calling"
    using dispatch_reach(2) [OF reach_uac, of "?e\<lparr>ev_net := Net False PJ_SUCCESS [Cb_sent demo_tp (Net False PJ_SUCCESS [] PJ_SUCCESS)] PJ_SUCCESS\<rparr>"]
    by simp
  have "demo_completed = fst (the (pjsip_tsx_send_msg ?e (Some \<lparr>td_id = 6, td_msg = Response 486, td_cseq_method = PJSIP_INVITE_METHOD\<rparr>)
      (fst (the (pjsip_tsx_recv_msg ?e (Request PJSIP_INVITE_METHOD)
        (tsx_init_uas ?e PJSIP_INVITE_METHOD (Some demo_tp) False (tsx_create 2 True (\<lambda>_. None))))))))"
    by (simp add: demo_eval)
  then show "tsx_reach demo_completed"
    using dispatch_reach(2) [OF dispatch_reach(1) [OF reach_uas demo_net] demo_net] by simp
  show "tsx_reach demo_ringing" by (rule dispatch_reach(1) [OF c demo_net])
  show "tsx_reach demo_over" by (rule reach_step [OF c step_terminate])
qed

lemma sip_states_ascend_witness: "walk PJSIP_TSX_STATE_NULL (sx_log demo_completed) = Some PJSIP_TSX_STATE_COMPLETED"
  using sip_states_ascend [OF sip_reached(2)] by (simp add: demo_completed_fields)

lemma sip_handlers_total_witness: "fire (sip_demo_env (Inr demo_ack)) Retransmit_timer demo_calling \<noteq> None"
  using sip_handlers_total [OF sip_reached(1) demo_net] by simp

lemma sip_final_states_end_witness: "timer_armed Timeout_timer demo_completed"
  using sip_final_states_end [OF sip_reached(2) disjI1 [OF demo_completed_fields(2)] demo_net] by simp

lemma sip_released_once_witness: "count_list (sx_log demo_calling) Released = 0"
  using sip_released_once [OF sip_reached(1)] by (simp add: demo_calling_fields)

lemma sip_client_timeout_witness:
  "\<exists>w'. fire (sip_demo_env (Inr demo_ack)) Timeout_timer demo_calling = Some w' \<and> ts_status_code w' = 408"
  using sip_client_timeout [OF demo_calling_fields(1) disjI1 [OF demo_calling_fields(2)] demo_calling_fields(5,3),
      of "sip_demo_env (Inr demo_ack)"] by auto

lemma sip_retransmit_wait_witness:
  "\<exists>w'. fire (sip_demo_env (Inr demo_ack)) Retransmit_timer demo_calling = Some w' \<and>
     tm_due (ts_retransmit_timer w') = Some (Time_val 101 0)"
proof -
  have "cf_t1 (ev_cfg (sip_demo_env (Inr demo_ack))) = 500" "max_retrans_count (ev_cfg (sip_demo_env (Inr demo_ack))) = - 1"
    "PJ_TIME_VAL_ADD (ev_now (sip_demo_env (Inr demo_ack))) (msec_val 1000) = Time_val 101 0"
    by (simp_all add: sip_demo_env_def demo_cfg_def pjsip_tsx_initialize_timer_values_def PJ_TIME_VAL_ADD_def msec_val_def
        pj_time_val_normalize_def)
  then show ?thesis
    using sip_retransmit_wait [OF demo_calling_fields(2,1) _ demo_calling_fields(6,9,10)]
    by (simp add: demo_calling_fields request_wait_def)
qed


lemma sip_ack_confirms_witness:
  "\<exists>w'. pjsip_tsx_recv_msg (sip_demo_env (Inr demo_ack)) (Request PJSIP_ACK_METHOD) demo_completed = Some (w', PJ_SUCCESS) \<and>
     ts_state w' = PJSIP_TSX_STATE_CONFIRMED"
  using sip_ack_confirms [OF demo_completed_fields(1-6), of 486 "sip_demo_env (Inr demo_ack)"] demo_completed_fields(7) by auto

lemma sip_terminate_async_strands_witness:
  "\<exists>w2. fire (sip_demo_env (Inr demo_ack)) Timeout_timer (fst (pjsip_tsx_terminate_async2 (sip_demo_env (Inr demo_ack)) 487 100 demo_over)) = Some w2 \<and>
     \<not> timer_armed Timeout_timer w2"
proof -
  have "ts_state demo_over = PJSIP_TSX_STATE_TERMINATED" by (simp add: pjsip_tsx_terminate_def demo_calling_fields state_order)
  from sip_terminate_async_strands [OF sip_reached(4) this _ refl, of 487 "sip_demo_env (Inr demo_ack)" 100 "sip_demo_env (Inr demo_ack)"]
  show ?thesis by auto
qed

lemma sip_terminate_async_forgotten_witness:
  "\<exists>w2 w3. pjsip_tsx_recv_msg (sip_demo_env (Inr demo_ack)) (Response 183)
      (fst (pjsip_tsx_terminate_async2 (sip_demo_env (Inr demo_ack)) 487 100 demo_ringing)) = Some (w2, PJ_SUCCESS) \<and>
     fire (sip_demo_env (Inr demo_ack)) Timeout_timer w2 = Some w3 \<and> ts_status_code w3 = 183"
  using sip_terminate_async_forgotten [OF sip_reached(3) demo_ringing_fields(1,2) _ _ _ refl, of 487 183] by fastforce

lemma sip_ack_failure_strands_witness:
  "\<exists>w'. pjsip_tsx_recv_msg (sip_demo_env (Inl PJ_ENOMEM)) (Response 486) demo_ringing = Some (w', PJ_ENOMEM) \<and>
     \<not> timer_armed Timeout_timer w'"
proof -
  have "ev_ack (sip_demo_env (Inl PJ_ENOMEM)) = Inl PJ_ENOMEM" by (simp add: sip_demo_env_def)
  from sip_ack_failure_strands [OF sip_reached(3) demo_ringing_fields(1,3,2) _ _ this, of 486] show ?thesis by auto
qed

lemma sip_timer_slots_refine_witness:
  "slot_of (fst (pj_timer_heap_cancel_if_active demo_world 3 SIP_TIMER_INACTIVE)) 3 = slot_cancel (slot_of demo_world 3)"
proof -
  have "has_cb demo_world 3" using demo_cb by (simp add: has_cb_def)
  from sip_timer_slots_refine [OF demo_ok this surjective_pairing surjective_pairing] show ?thesis by blast
qed

end
