(* ===== verification/Sip_Layer_Props.thy ===== *)
theory Sip_Layer_Props
  imports Sip_Layer Sip_Tsx_Props
begin

text \<open>
  The transaction layer: keys fit the memory allocated for them and identify a transaction
  exactly as intended, registration keeps the tables in step with the transactions, and
  received messages reach the transaction they belong to.  The proofs about the tables rest
  on the interface \<open>key_table\<close> of the hash table.
\<close>

section \<open>Keys\<close>

lemma utoa_length:
  assumes "val < 10 ^ k" "0 < k"
  shows "length (utoa_digits val) \<le> k"
  using assms
proof (induction val arbitrary: k rule: utoa_digits.induct)
  case (1 val)
  obtain j where k: "k = Suc j" using "1.prems"(2) by (cases k) auto
  show ?case
  proof (cases "val div 10 > 0")
    case True
    have "val div 10 < 10 ^ j" using "1.prems"(1) by (simp add: k less_mult_imp_div_less mult.commute)
    moreover have "0 < j" using True "1.prems"(1) k by (cases j) auto
    ultimately show ?thesis using "1.IH" [of j] True by (simp add: k utoa_digits.simps [of val])
  next
    case False
    then show ?thesis by (simp add: k utoa_digits.simps [of val])
  qed
qed

lemma utoa_31:
  assumes "0 \<le> i" "i < 2 ^ 31"
  shows "length (pj_utoa (ulong i)) \<le> 10"
proof -
  have "ulong i = nat i" using assms by (simp add: ulong_def)
  moreover have "nat i < 10 ^ 10" using assms by simp
  ultimately show ?thesis using utoa_length [of "nat i" 10] by (simp add: pj_utoa_def)
qed

lemma key_method_length: "length (key_method m) \<le> length (mt_name m) + 1"
  by (simp add: key_method_def)

lemma tolower_separator [simp]: "pj_tolower c = SEPARATOR \<longleftrightarrow> c = SEPARATOR"
proof -
  have "c + 32 \<noteq> 36" if "65 \<le> c" "c \<le> 90" for c :: u8
    using that by (simp add: word_le_nat_alt unat_arith_simps split: if_splits)
  then show ?thesis by (auto simp: pj_tolower_def SEPARATOR_def)
qed

lemma no_separator_map [simp]: "SEPARATOR \<in> set (map pj_tolower xs) \<longleftrightarrow> SEPARATOR \<in> set xs"
  by (metis (no_types, lifting) image_iff list.set_map tolower_separator)

lemma append_sep_eq:
  assumes "s \<notin> set a" "s \<notin> set c"
  shows "a @ s # b = c @ s # d \<longleftrightarrow> a = c \<and> b = d"
  using assms
proof (induction a arbitrary: c)
  case Nil
  then show ?case by (cases c) auto
next
  case (Cons x a)
  then show ?case by (cases c) auto
qed

lemma tolower_role: "pj_tolower (key_role r) = key_role r"
  by (simp add: key_role_def pj_tolower_def)

definition in_key :: "pjsip_method \<Rightarrow> bool" where
  "in_key m \<longleftrightarrow> mt_id m \<noteq> PJSIP_INVITE_METHOD \<and> mt_id m \<noteq> PJSIP_ACK_METHOD"

lemma key_3261_eq:
  assumes "SEPARATOR \<notin> set (mt_name m1)" "SEPARATOR \<notin> set (mt_name m2)" "SEPARATOR \<notin> set b1" "SEPARATOR \<notin> set b2"
  shows "norm_key True (create_tsx_key_3261 r1 m1 b1) = norm_key True (create_tsx_key_3261 r2 m2 b2) \<longleftrightarrow>
    r1 = r2 \<and> norm_key True b1 = norm_key True b2 \<and>
    (in_key m1 \<longleftrightarrow> in_key m2) \<and> (in_key m1 \<longrightarrow> norm_key True (mt_name m1) = norm_key True (mt_name m2))"
proof -
  have r: "key_role r1 = key_role r2 \<longleftrightarrow> r1 = r2" by (cases r1; cases r2) (simp_all add: key_role_def)
  define f :: "pjsip_method \<Rightarrow> u8 list" where "f m = map pj_tolower (mt_name m)" for m
  define b where "b x = map pj_tolower x" for x
  have s: "pj_tolower SEPARATOR = SEPARATOR" by simp
  have n: "SEPARATOR \<notin> set (f m1)" "SEPARATOR \<notin> set (f m2)" "SEPARATOR \<notin> set (b b1)" "SEPARATOR \<notin> set (b b2)"
    using assms by (simp_all add: f_def b_def del: list.set_map set_map)
  have k: "norm_key True (create_tsx_key_3261 r m x) =
      key_role r # SEPARATOR # (if in_key m then f m @ SEPARATOR # b x else b x)" for r m x
    by (simp add: norm_key_def create_tsx_key_3261_def key_method_def in_key_def f_def b_def tolower_role s)
  have "f m @ SEPARATOR # y \<noteq> z" "z \<noteq> f m @ SEPARATOR # y" if "SEPARATOR \<notin> set z" for m y z using that by auto
  then have "(if in_key m1 then f m1 @ SEPARATOR # b b1 else b b1) = (if in_key m2 then f m2 @ SEPARATOR # b b2 else b b2) \<longleftrightarrow>
      (in_key m1 \<longleftrightarrow> in_key m2) \<and> (in_key m1 \<longrightarrow> f m1 = f m2) \<and> b b1 = b b2"
    using n append_sep_eq [OF n(1,2), of "b b1" "b b2"] by auto
  moreover have "norm_key True b1 = b b1" "norm_key True b2 = b b2" "norm_key True (mt_name m1) = f m1" "norm_key True (mt_name m2) = f m2"
    by (simp_all add: norm_key_def f_def b_def)
  ultimately show ?thesis unfolding k by (simp only: list.inject r) blast
qed

section \<open>The tables\<close>

lemma ht_find_get: "hash_ok s True ht \<Longrightarrow> ht_find s ht key = table_get s True ht key"
  using hash_get_spec [OF _ key_bytes_all, of s True ht key "Some 0"] by (simp add: ht_find_def table_get_def pj_hash_get_lower_def)

lemma ht_set_put:
  "hash_ok s True ht \<Longrightarrow> key_ok True key \<Longrightarrow> ht_set s True ht key (Some i) = table_put s True (hashed key) ht key i"
  "hash_ok s True ht \<Longrightarrow> ht_set s False ht key None = table_del s True (hashed key) ht key"
  using hash_insert_spec [OF _ key_bytes_all, of s True ht key True False "hashed key" i]
    hash_delete_spec [OF _ key_bytes_all, of s True ht False key "hashed key" False]
  by (auto simp: ht_set_def table_put_def table_del_def pj_hash_set_lower_def)

lemmas ht_laws = ht_find_get ht_set_put kt.get_law kt.put_law kt.del_law

text \<open>The tables agree with the transactions.\<close>

definition layer_ok :: "tsx_layer \<Rightarrow> bool" where
  "layer_ok ly \<longleftrightarrow> hash_ok (ly_sip ly) True (ly_htable ly) \<and> hash_ok (ly_sip ly) True (ly_htable2 ly) \<and>
     (\<forall>k i. hash_map True (ly_htable ly) k = Some i \<longrightarrow> (\<exists>t. ly_tsx ly i = Some t \<and> norm_key True (lt_key t) = k)) \<and>
     (\<forall>k i. hash_map True (ly_htable2 ly) k = Some i \<longrightarrow>
        (\<exists>t. ly_tsx ly i = Some t \<and> lt_role t = PJSIP_ROLE_UAS \<and> norm_key True (lt_key2 t) = k))"

lemma layer_okD:
  assumes "layer_ok ly"
  shows "hash_map True (ly_htable ly) k = Some i \<Longrightarrow> \<exists>t. ly_tsx ly i = Some t \<and> norm_key True (lt_key t) = k"
    "hash_map True (ly_htable2 ly) k = Some i \<Longrightarrow> \<exists>t. ly_tsx ly i = Some t \<and> lt_role t = PJSIP_ROLE_UAS \<and> norm_key True (lt_key2 t) = k"
  using assms unfolding layer_ok_def by blast+

lemma layer_find: "layer_ok ly \<Longrightarrow> find_tsx key ly = hash_map True (ly_htable ly) (norm_key True key)"
  by (simp add: layer_ok_def find_tsx_def ht_laws)

lemma register_ok:
  assumes ok: "layer_ok ly" and new: "ly_tsx ly i = None" and k: "key_ok True (lt_key t)" "key_ok True (lt_key2 t)"
    and free: "find_tsx (lt_key t) ly = None"
  shows "\<exists>ly'. mod_tsx_layer_register_tsx i t ly = (ly', PJ_SUCCESS) \<and> layer_ok ly' \<and> ly_sip ly' = ly_sip ly \<and>
    ly_tsx ly' = (ly_tsx ly)(i \<mapsto> t) \<and> hash_map True (ly_htable ly') = (hash_map True (ly_htable ly))(norm_key True (lt_key t) \<mapsto> i) \<and>
    hash_map True (ly_htable2 ly') = (if lt_role t = PJSIP_ROLE_UAS
      then (hash_map True (ly_htable2 ly))(norm_key True (lt_key2 t) \<mapsto> i) else hash_map True (ly_htable2 ly))"
proof -
  let ?s = "ly_sip ly"
  define h1 where "h1 = ht_set ?s True (ly_htable ly) (lt_key t) (Some i)"
  define h2 where "h2 = (if lt_role t = PJSIP_ROLE_UAS then ht_set ?s True (ly_htable2 ly) (lt_key2 t) (Some i) else ly_htable2 ly)"
  define ly' where "ly' = ly\<lparr>ly_htable := h1, ly_htable2 := h2, ly_tsx := (ly_tsx ly)(i \<mapsto> t)\<rparr>"
  have t: "hash_ok ?s True (ly_htable ly)" "hash_ok ?s True (ly_htable2 ly)" using ok by (simp_all add: layer_ok_def)
  have h1: "hash_ok ?s True h1" "hash_map True h1 = (hash_map True (ly_htable ly))(norm_key True (lt_key t) \<mapsto> i)"
    using t k by (simp_all add: h1_def ht_laws)
  have h2: "hash_ok ?s True h2" "hash_map True h2 = (if lt_role t = PJSIP_ROLE_UAS
      then (hash_map True (ly_htable2 ly))(norm_key True (lt_key2 t) \<mapsto> i) else hash_map True (ly_htable2 ly))"
    using t k by (simp_all add: h2_def ht_laws)
  have old: "x \<noteq> i" if "hash_map True (ly_htable ly) k = Some x \<or> hash_map True (ly_htable2 ly) k = Some x" for k x
  proof -
    have "ly_tsx ly x \<noteq> None" using that ok unfolding layer_ok_def by (metis option.distinct(1))
    then show ?thesis using new by auto
  qed
  have "layer_ok ly'"
    unfolding layer_ok_def
  proof (intro conjI allI impI)
    fix k x
    assume "hash_map True (ly_htable ly') k = Some x"
    then show "\<exists>t. ly_tsx ly' x = Some t \<and> norm_key True (lt_key t) = k"
      using ok old [of k x] h1 by (auto simp: layer_ok_def ly'_def split: if_splits)
  next
    fix k x
    assume "hash_map True (ly_htable2 ly') k = Some x"
    then show "\<exists>t. ly_tsx ly' x = Some t \<and> lt_role t = PJSIP_ROLE_UAS \<and> norm_key True (lt_key2 t) = k"
      using ok old [of k x] h2 by (auto simp: layer_ok_def ly'_def split: if_splits)
  qed (use h1 h2 in \<open>simp_all add: ly'_def\<close>)
  moreover have "mod_tsx_layer_register_tsx i t ly = (ly', PJ_SUCCESS)"
    using free by (simp add: mod_tsx_layer_register_tsx_def find_tsx_def Let_def ly'_def h1_def h2_def)
  ultimately show ?thesis using h1 h2 by (simp add: ly'_def)
qed

lemma unregister_ok:
  assumes ok: "layer_ok ly" and t: "ly_tsx ly i = Some t"
  shows "layer_ok (layer_unregister_tsx i ly)"
    "hash_map True (ly_htable (layer_unregister_tsx i ly)) = (hash_map True (ly_htable ly))(norm_key True (lt_key t) := None)"
    "hash_map True (ly_htable2 (layer_unregister_tsx i ly)) = (if lt_role t = PJSIP_ROLE_UAS
      then (hash_map True (ly_htable2 ly))(norm_key True (lt_key2 t) := None) else hash_map True (ly_htable2 ly))"
    "ly_tsx (layer_unregister_tsx i ly) = ly_tsx ly" "ly_sip (layer_unregister_tsx i ly) = ly_sip ly"
  using ok t by (auto simp: layer_unregister_tsx_def layer_ok_def Let_def ht_laws split: if_splits)

lemma find_after_unregister:
  assumes "layer_ok ly" "ly_tsx ly i = Some t"
  shows "find_tsx key (layer_unregister_tsx i ly) = (if norm_key True key = norm_key True (lt_key t) then None else find_tsx key ly)"
  using unregister_ok [OF assms] layer_find [OF assms(1)] layer_find [of "layer_unregister_tsx i ly"] by simp

section \<open>Messages without zero bytes\<close>

definition method_ok :: "pjsip_method \<Rightarrow> bool" where
  "method_ok m \<longleftrightarrow> 0 \<notin> set (mt_name m) \<and> SEPARATOR \<notin> set (mt_name m)"

definition rdata_ok :: "sip_rdata \<Rightarrow> bool" where
  "rdata_ok r \<longleftrightarrow> method_ok (rd_method r) \<and> 0 \<notin> set (rd_cid r) \<and>
     (\<forall>v. rd_via r = Some v \<longrightarrow> 0 \<notin> set (via_branch v) \<and> 0 \<notin> set (via_host v)) \<and>
     (\<forall>f. rd_from_tag r = Some f \<longrightarrow> 0 \<notin> set f)"

lemma digits_nonzero: "0 \<notin> set (utoa_digits n)"
proof (induction n rule: utoa_digits.induct)
  case (1 n)
  have "(of_nat (n mod 10) + 48 :: u8) \<noteq> 0"
  proof
    assume "(of_nat (n mod 10) + 48 :: u8) = 0"
    then have z: "(of_nat (n mod 10 + 48) :: u8) = 0" by simp
    have "n mod 10 + 48 < 256" using mod_less_divisor [of 10 n] by linarith
    then have "unat (of_nat (n mod 10 + 48) :: u8) = n mod 10 + 48" unfolding unat_of_nat by simp
    then show False unfolding z by simp
  qed
  then show ?case using 1 by (auto simp: utoa_digits.simps [of n])
qed

lemma key_3261_ok: "method_ok m \<Longrightarrow> 0 \<notin> set b \<Longrightarrow> key_ok True (create_tsx_key_3261 r m b)"
  by (auto simp: key_ok_def create_tsx_key_3261_def key_role_def SEPARATOR_def key_method_def method_ok_def dest!: in_set_butlastD)

lemma key_2543_ok:
  assumes "method_ok m" "rdata_ok r" "create_tsx_key_2543 role m r via = Inr key"
  shows "key_ok True key"
proof -
  have d: "0 \<notin> set (pj_utoa n)" for n using digits_nonzero by (simp add: pj_utoa_def)
  show ?thesis
    using assms d by (auto simp: create_tsx_key_2543_def key_ok_def key_role_def SEPARATOR_def key_method_def method_ok_def
        rdata_ok_def butlast_append split: option.splits prod.splits if_splits)
qed

lemma key_2543_error: "create_tsx_key_2543 role m r via = Inl st \<Longrightarrow> st = PJSIP_EMISSINGHDR"
  by (auto simp: create_tsx_key_2543_def split: option.splits)

lemma create_key_ok:
  assumes "method_ok m" "rdata_ok r" "pjsip_tsx_create_key role m r = Some (Inr key)"
  shows "key_ok True key"
  using assms key_3261_ok [OF assms(1)] key_2543_ok [OF assms(1,2), of role True key]
  by (auto simp: pjsip_tsx_create_key_def rdata_ok_def split: option.splits if_splits)

section \<open>Every operation keeps the tables in step\<close>

lemma register_layer_ok:
  assumes "layer_ok ly" "ly_tsx ly i = None" "key_ok True (lt_key t)" "key_ok True (lt_key2 t)"
  shows "layer_ok (fst (mod_tsx_layer_register_tsx i t ly))"
proof (cases "find_tsx (lt_key t) ly")
  case None
  then show ?thesis using register_ok [OF assms] by auto
next
  case (Some x)
  then show ?thesis using assms(1) by (simp add: mod_tsx_layer_register_tsx_def find_tsx_def)
qed

lemma create_uac_layer_ok:
  assumes "layer_ok ly" "ly_tsx ly i = None" "method_ok m" "0 \<notin> set branch" "0 \<notin> set gen"
  shows "layer_ok (fst (pjsip_tsx_create_uac2 cr dest gen i td m cs branch md ly))"
proof -
  have "0 \<notin> set (if branch = [] then PJSIP_RFC3261_BRANCH_ID @ [80, 106] @ gen else branch)"
    using assms(4,5) by (simp add: PJSIP_RFC3261_BRANCH_ID_def)
  then show ?thesis
    using assms(1) register_layer_ok [OF assms(1,2)] key_3261_ok [OF assms(3)]
    by (auto simp: pjsip_tsx_create_uac2_def Let_def key_ok_def split: option.splits sum.splits simp del: set_append)
qed

lemma create_uas_layer_ok:
  assumes "layer_ok ly" "ly_tsx ly i = None" "rdata_ok r"
  shows "layer_ok (fst (pjsip_tsx_create_uas2 env cr addr i r md ly))"
proof -
  have m: "method_ok (rd_method r)" using assms(3) by (simp add: rdata_ok_def)
  show ?thesis
    using assms(1) register_layer_ok [OF assms(1,2)] create_key_ok [OF m assms(3)] key_2543_ok [OF m assms(3)]
    by (auto simp: pjsip_tsx_create_uas2_def split: option.splits sum.splits prod.splits)
qed

lemma store_layer_ok:
  assumes ok: "layer_ok ly" and t: "ly_tsx ly i = Some t"
  shows "layer_ok (store_tsx i t w ly)"
proof -
  have put: "layer_ok (l\<lparr>ly_tsx := (ly_tsx l)(i \<mapsto> t\<lparr>lt_world := w\<rparr>)\<rparr>)" if l: "layer_ok l" "ly_tsx l i = Some t" for l
    unfolding layer_ok_def
  proof (intro conjI allI impI)
    fix k x
    assume "hash_map True (ly_htable (l\<lparr>ly_tsx := (ly_tsx l)(i \<mapsto> t\<lparr>lt_world := w\<rparr>)\<rparr>)) k = Some x"
    then obtain u where "ly_tsx l x = Some u" "norm_key True (lt_key u) = k" using layer_okD(1) [OF l(1)] by auto
    then show "\<exists>u. ly_tsx (l\<lparr>ly_tsx := (ly_tsx l)(i \<mapsto> t\<lparr>lt_world := w\<rparr>)\<rparr>) x = Some u \<and> norm_key True (lt_key u) = k"
      using l(2) by auto
  next
    fix k x
    assume "hash_map True (ly_htable2 (l\<lparr>ly_tsx := (ly_tsx l)(i \<mapsto> t\<lparr>lt_world := w\<rparr>)\<rparr>)) k = Some x"
    then obtain u where "ly_tsx l x = Some u" "lt_role u = PJSIP_ROLE_UAS" "norm_key True (lt_key2 u) = k"
      using layer_okD(2) [OF l(1)] by auto
    then show "\<exists>u. ly_tsx (l\<lparr>ly_tsx := (ly_tsx l)(i \<mapsto> t\<lparr>lt_world := w\<rparr>)\<rparr>) x = Some u \<and> lt_role u = PJSIP_ROLE_UAS \<and> norm_key True (lt_key2 u) = k"
      using l(2) by auto
  qed (use l(1) in \<open>simp_all add: layer_ok_def\<close>)
  show ?thesis using put [OF ok t] put [of "layer_unregister_tsx i ly"] unregister_ok(1,4) [OF ok t] t
    by (simp add: store_tsx_def Let_def)
qed

lemma on_rx_layer_ok:
  assumes "layer_ok ly"
  shows "mod_tsx_layer_on_rx_request env r ly = Some (ly', x) \<Longrightarrow> layer_ok ly'"
    "mod_tsx_layer_on_rx_response env r ly = Some (ly', x) \<Longrightarrow> layer_ok ly'"
  using assms store_layer_ok [OF assms]
  by (auto simp: mod_tsx_layer_on_rx_request_def mod_tsx_layer_on_rx_response_def Let_def bind_eq_Some_conv
      split: option.splits sum.splits prod.splits if_splits)

section \<open>Properties\<close>

text \<open>The memory allocated for a transaction key is enough: the bytes written, with the
  sequence number and the port in decimal and the final zero, never exceed the size computed
  before, for every sequence number and port below \<open>2 ^ 31\<close>.\<close>

theorem sip_key_fits:
  assumes "create_tsx_key_2543 role m r include_via = Inr key" "rd_via r = Some via" "rd_cseq r = Some (cs, cm)" "rd_from_tag r = Some f"
    "0 \<le> cs" "cs < 2 ^ 31" "0 \<le> via_port via" "via_port via < 2 ^ 31"
  shows "length key \<le> key_2543_size m f (rd_cid r) (via_host via) include_via \<and>
    length (create_tsx_key_3261 role m branch) \<le> key_3261_size m branch"
proof -
  have "key = [key_role role, SEPARATOR] @ key_method m @ pj_utoa (ulong cs) @ [SEPARATOR] @ f @ [SEPARATOR] @ rd_cid r @ [SEPARATOR] @
      (if include_via then via_host via @ [58] @ pj_utoa (ulong (via_port via)) @ [SEPARATOR] else []) @ [0]"
    using assms(1-4) by (simp add: create_tsx_key_2543_def)
  then show ?thesis
    using utoa_31 [OF assms(5,6)] utoa_31 [OF assms(7,8)] key_method_length [of m]
    by (simp add: key_2543_size_def key_3261_size_def create_tsx_key_3261_def)
qed



text \<open>When two server transactions have the same secondary key (the same From tag, Call-ID, CSeq
  and method, but different branches), the removal of the first also removes the second one's
  entry from the table of merged requests, while the second is still registered.\<close>

theorem sip_merged_entry_lost:
  assumes "layer_ok ly" "ly_tsx ly i = None" "ly_tsx ly j = None" "i \<noteq> j"
    "lt_role a = PJSIP_ROLE_UAS" "lt_role b = PJSIP_ROLE_UAS" "lt_key2 a = lt_key2 b" "norm_key True (lt_key a) \<noteq> norm_key True (lt_key b)"
    "key_ok True (lt_key a)" "key_ok True (lt_key b)" "key_ok True (lt_key2 a)"
    "find_tsx (lt_key a) ly = None" "find_tsx (lt_key b) ly = None"
  shows "\<exists>ly1 ly2. mod_tsx_layer_register_tsx i a ly = (ly1, PJ_SUCCESS) \<and> mod_tsx_layer_register_tsx j b ly1 = (ly2, PJ_SUCCESS) \<and>
    ht_find (ly_sip ly2) (ly_htable2 ly2) (lt_key2 b) = Some j \<and>
    find_tsx (lt_key b) (layer_unregister_tsx i ly2) = Some j \<and>
    ht_find (ly_sip ly2) (ly_htable2 (layer_unregister_tsx i ly2)) (lt_key2 b) = None"
proof -
  obtain ly1 where l1: "mod_tsx_layer_register_tsx i a ly = (ly1, PJ_SUCCESS)" "layer_ok ly1" "ly_sip ly1 = ly_sip ly"
    "ly_tsx ly1 = (ly_tsx ly)(i \<mapsto> a)" "hash_map True (ly_htable ly1) = (hash_map True (ly_htable ly))(norm_key True (lt_key a) \<mapsto> i)"
    using register_ok [OF assms(1,2,9,11,12)] by auto
  have f: "find_tsx (lt_key b) ly1 = None"
    using layer_find [OF l1(2)] layer_find [OF assms(1)] l1(5) assms(8,13) by simp
  obtain ly2 where l2: "mod_tsx_layer_register_tsx j b ly1 = (ly2, PJ_SUCCESS)" "layer_ok ly2" "ly_sip ly2 = ly_sip ly1"
    "ly_tsx ly2 = (ly_tsx ly1)(j \<mapsto> b)" "hash_map True (ly_htable ly2) = (hash_map True (ly_htable ly1))(norm_key True (lt_key b) \<mapsto> j)"
    "hash_map True (ly_htable2 ly2) = (hash_map True (ly_htable2 ly1))(norm_key True (lt_key2 b) \<mapsto> j)"
    using register_ok [OF l1(2) _ assms(10) _ f, of j] assms l1(4) by auto
  have t: "ly_tsx ly2 i = Some a" using l2(4) l1(4) assms(4) by simp
  note u = unregister_ok [OF l2(2) t]
  have h: "hash_ok (ly_sip ly2) True (ly_htable2 ly2)" "hash_ok (ly_sip ly2) True (ly_htable2 (layer_unregister_tsx i ly2))"
    using l2(2) u(1,5) by (simp_all add: layer_ok_def)
  have "find_tsx (lt_key b) (layer_unregister_tsx i ly2) = Some j"
    using find_after_unregister [OF l2(2) t] assms(8) layer_find [OF l2(2)] l2(5) by simp
  then show ?thesis using l1 l2 h u(3) assms by (auto simp: ht_laws)
qed

section \<open>Witnesses\<close>

definition demo_rdata :: "pjsip_method_e \<Rightarrow> u8 list \<Rightarrow> sip_rdata" where
  "demo_rdata meth name =
     \<lparr>rd_msg = Request meth, rd_method = \<lparr>mt_id = meth, mt_name = name\<rparr>,
      rd_via = Some \<lparr>via_branch = PJSIP_RFC3261_BRANCH_ID @ [49, 50], via_host = [104], via_port = 5060\<rparr>,
      rd_cseq = Some (7, \<lparr>mt_id = meth, mt_name = name\<rparr>), rd_from_tag = Some [102], rd_to_tag = [], rd_cid = [99]\<rparr>"

definition demo_layer :: tsx_layer where
  "demo_layer = \<lparr>ly_sip = demo_key, ly_htable = pj_hash_create 31, ly_htable2 = pj_hash_create 31, ly_tsx = Map.empty\<rparr>"

lemma demo_layer_ok: "layer_ok demo_layer" "ly_tsx demo_layer i = None" "find_tsx k demo_layer = None"
proof -
  show ok: "layer_ok demo_layer" by (simp add: layer_ok_def demo_layer_def create_hash_ok)
  show "ly_tsx demo_layer i = None" by (simp add: demo_layer_def)
  show "find_tsx k demo_layer = None" using layer_find [OF ok] by (simp add: demo_layer_def create_hash_ok)
qed

lemma demo_rdata_ok: "rdata_ok (demo_rdata PJSIP_BYE_METHOD [66, 89, 69])"
  by (simp add: rdata_ok_def demo_rdata_def method_ok_def PJSIP_RFC3261_BRANCH_ID_def SEPARATOR_def)

lemma sip_key_fits_witness:
  "length (projr (create_tsx_key_2543 PJSIP_ROLE_UAS \<lparr>mt_id = PJSIP_BYE_METHOD, mt_name = [66, 89, 69]\<rparr>
     (demo_rdata PJSIP_BYE_METHOD [66, 89, 69]) True)) \<le> 44"
proof -
  have "create_tsx_key_2543 PJSIP_ROLE_UAS \<lparr>mt_id = PJSIP_BYE_METHOD, mt_name = [66, 89, 69]\<rparr> (demo_rdata PJSIP_BYE_METHOD [66, 89, 69]) True =
      Inr (projr (create_tsx_key_2543 PJSIP_ROLE_UAS \<lparr>mt_id = PJSIP_BYE_METHOD, mt_name = [66, 89, 69]\<rparr> (demo_rdata PJSIP_BYE_METHOD [66, 89, 69]) True))"
    by (simp add: create_tsx_key_2543_def demo_rdata_def)
  from sip_key_fits [OF this, of "\<lparr>via_branch = PJSIP_RFC3261_BRANCH_ID @ [49, 50], via_host = [104], via_port = 5060\<rparr>" 7
      "\<lparr>mt_id = PJSIP_BYE_METHOD, mt_name = [66, 89, 69]\<rparr>" "[102]"]
  show ?thesis by (simp add: key_2543_size_def demo_rdata_def)
qed



definition demo_layer_tsx :: "u8 \<Rightarrow> layer_tsx" where
  "demo_layer_tsx x = \<lparr>lt_role = PJSIP_ROLE_UAS, lt_method = \<lparr>mt_id = PJSIP_BYE_METHOD, mt_name = [66, 89, 69]\<rparr>, lt_cseq = 7,
     lt_key = [115, x], lt_key2 = [115], lt_world = tsx_create 0 True Map.empty\<rparr>"

lemma sip_merged_entry_lost_witness:
  "\<exists>ly2. ht_find demo_key (ly_htable2 ly2) [115] = Some 2 \<and> find_tsx [115, 51] (layer_unregister_tsx 1 ly2) = Some 2 \<and>
     ht_find demo_key (ly_htable2 (layer_unregister_tsx 1 ly2)) [115] = None"
proof -
  have n: "norm_key True (lt_key (demo_layer_tsx 50)) \<noteq> norm_key True (lt_key (demo_layer_tsx 51))"
    by (simp add: demo_layer_tsx_def norm_key_def pj_tolower_def)
  obtain ly1 ly2 where l: "mod_tsx_layer_register_tsx 1 (demo_layer_tsx 50) demo_layer = (ly1, PJ_SUCCESS)"
    "mod_tsx_layer_register_tsx 2 (demo_layer_tsx 51) ly1 = (ly2, PJ_SUCCESS)"
    "ht_find (ly_sip ly2) (ly_htable2 ly2) (lt_key2 (demo_layer_tsx 51)) = Some 2"
    "find_tsx (lt_key (demo_layer_tsx 51)) (layer_unregister_tsx 1 ly2) = Some 2"
    "ht_find (ly_sip ly2) (ly_htable2 (layer_unregister_tsx 1 ly2)) (lt_key2 (demo_layer_tsx 51)) = None"
    using sip_merged_entry_lost [OF demo_layer_ok(1,2,2) _ _ _ _ n _ _ _ demo_layer_ok(3,3), of 1 2]
    by (auto simp: demo_layer_tsx_def key_ok_def)
  moreover have "ly_sip ly2 = demo_key"
    using l(1,2) by (auto simp: mod_tsx_layer_register_tsx_def Let_def demo_layer_def demo_layer_tsx_def split: if_splits)
  ultimately show ?thesis by (auto simp: demo_layer_tsx_def)
qed

end
