(* ===== verification/Sip_Module.thy ===== *)
theory Sip_Module
  imports Sip_Layer_Props
begin

text \<open>
  The life of the transaction layer of \<^verbatim>\<open>pjsip/src/pjsip/sip_transaction.c\<close> as a module of the
  endpoint: its creation, the stop that ends every registered transaction, and its unloading.
  The record \<open>tsx_module\<close> is \<^verbatim>\<open>struct mod_tsx_layer\<close>: \<open>md_endpt\<close> says whether \<^verbatim>\<open>endpt\<close> is set and
  \<open>md_registered\<close> whether the module has an id.  The outcome of the allocations and of the
  registration at the endpoint are parameters.
\<close>

section \<open>The module\<close>

definition PJSIP_SC_SERVICE_UNAVAILABLE :: int where "PJSIP_SC_SERVICE_UNAVAILABLE = 503"

record tsx_module =
  md_endpt :: bool
  md_registered :: bool
  md_atexit :: bool
  md_layer :: tsx_layer

text \<open>One round of the loop in \<^verbatim>\<open>mod_tsx_layer_stop\<close> for the transaction found in the table; \<open>None\<close> is a
  table entry without a transaction.\<close>

definition stop_tsx :: "(nat \<Rightarrow> sip_env) \<Rightarrow> nat \<Rightarrow> tsx_layer \<Rightarrow> tsx_layer option" where
  "stop_tsx env i ly =
     (case ly_tsx ly i of
        None \<Rightarrow> None
      | Some t \<Rightarrow>
          let ly = layer_unregister_tsx i ly;
              w = mod_tsx_layer_unregister_tsx (lt_world t);
              w = fst (pjsip_tsx_terminate (env i) PJSIP_SC_SERVICE_UNAVAILABLE w);
              w = tsx_shutdown (env i) w in
          Some (ly\<lparr>ly_tsx := (ly_tsx ly)(i \<mapsto> t\<lparr>lt_world := w\<rparr>)\<rparr>))"

partial_function (option) mod_tsx_layer_stop :: "(nat \<Rightarrow> sip_env) \<Rightarrow> tsx_layer \<Rightarrow> tsx_layer option" where
  "mod_tsx_layer_stop env ly =
     (case pj_hash_first (ly_htable ly) of
        None \<Rightarrow> Some ly
      | Some it \<Rightarrow> Option.bind (stop_tsx env (pj_hash_this it) ly) (mod_tsx_layer_stop env))"

declare mod_tsx_layer_stop.simps [code]

definition tsx_layer_destroy :: "tsx_module \<Rightarrow> tsx_module" where
  "tsx_layer_destroy md = md\<lparr>md_endpt := False\<rparr>"

text \<open>\<open>atexit\<close> says whether the endpoint takes the call back that destroys the module later.\<close>

definition mod_tsx_layer_unload :: "bool \<Rightarrow> tsx_module \<Rightarrow> tsx_module \<times> pj_status" where
  "mod_tsx_layer_unload atexit md =
     (if pj_hash_count (ly_htable (md_layer md)) \<noteq> 0
      then (if atexit then md\<lparr>md_atexit := True\<rparr> else md, PJ_EBUSY)
      else (tsx_layer_destroy md, PJ_SUCCESS))"

text \<open>The endpoint stops a module, unloads it and takes its id away (\<^verbatim>\<open>pjsip_endpt_unregister_module\<close>
  and \<^verbatim>\<open>unload_module\<close> of \<^verbatim>\<open>sip_endpoint.c\<close>).\<close>

definition unload_module :: "bool \<Rightarrow> tsx_module \<Rightarrow> tsx_module \<times> pj_status" where
  "unload_module atexit md =
     (case mod_tsx_layer_unload atexit md of
        (md, status) \<Rightarrow> if status \<noteq> PJ_SUCCESS then (md, status) else (md\<lparr>md_registered := False\<rparr>, PJ_SUCCESS))"

definition pjsip_endpt_unregister_module :: "(nat \<Rightarrow> sip_env) \<Rightarrow> bool \<Rightarrow> tsx_module \<Rightarrow> (tsx_module \<times> pj_status) option" where
  "pjsip_endpt_unregister_module env atexit md =
     (if \<not> md_registered md then Some (md, PJ_ENOTFOUND)
      else Option.bind (mod_tsx_layer_stop env (md_layer md)) (\<lambda>ly. Some (unload_module atexit (md\<lparr>md_layer := ly\<rparr>))))"

definition pjsip_tsx_layer_destroy :: "(nat \<Rightarrow> sip_env) \<Rightarrow> bool \<Rightarrow> tsx_module \<Rightarrow> (tsx_module \<times> pj_status) option" where
  "pjsip_tsx_layer_destroy env atexit md =
     (if \<not> md_endpt md then Some (md, PJ_EINVALIDOP) else pjsip_endpt_unregister_module env atexit md)"

text \<open>
  \<open>pool\<close> and \<open>tables\<close> say whether the memory for the pool and the tables is there, \<open>mutex\<close>, \<open>reg\<close> and \<open>reg2\<close>
  are the results of creating the mutex and of registering the module and \<^verbatim>\<open>mod_stateful_util\<close>; a
  successful registration gives the module its id.
\<close>

definition pjsip_tsx_layer_init_module ::
    "bool \<Rightarrow> bool \<Rightarrow> pj_status \<Rightarrow> pj_status \<Rightarrow> pj_status \<Rightarrow> nat \<Rightarrow> tsx_cfg \<Rightarrow> tsx_module \<Rightarrow> tsx_cfg \<times> tsx_module \<times> pj_status" where
  "pjsip_tsx_layer_init_module pool tables mutex reg reg2 max_count cfg md =
     (if md_endpt md then (cfg, md, PJ_EINVALIDOP)
      else
        (let cfg = pjsip_tsx_initialize_timer_values cfg;
             cfg = cfg\<lparr>max_retrans_count := -1\<rparr> in
         if \<not> pool then (cfg, md, PJ_ENOMEM)
         else
           (let md = md\<lparr>md_endpt := True\<rparr> in
            if \<not> tables then (cfg, md, PJ_ENOMEM)
            else
              (let md = md\<lparr>md_layer := (md_layer md)\<lparr>ly_htable := pj_hash_create max_count, ly_htable2 := pj_hash_create max_count\<rparr>\<rparr> in
               if mutex \<noteq> PJ_SUCCESS then (cfg, md, mutex)
               else if reg \<noteq> PJ_SUCCESS then (cfg, md, reg)
               else
                 (let md = md\<lparr>md_registered := True\<rparr> in
                  if reg2 \<noteq> PJ_SUCCESS then (cfg, md, reg2) else (cfg, md, PJ_SUCCESS))))))"

section \<open>The first entry of a table\<close>

lemma first_value:
  assumes ok: "hash_ok s lower ht" and f: "pj_hash_first ht = Some it"
  shows "\<exists>k. hash_map lower ht k = Some (pj_hash_this it)"
proof -
  have len: "length (ht_table ht) = ht_rows ht + 1" using ok by (simp add: hash_ok_def)
  have "hi_entry it \<noteq> []" "ahead ht it = concat (ht_table ht)"
    using next_row_ahead [OF refl, of 0 ht] f len by (simp_all add: pj_hash_first_def)
  then have "concat (ht_table ht) = hd (hi_entry it) # tl (hi_entry it) @ concat (drop (Suc (hi_index it)) (ht_table ht))"
    by (simp add: ahead_def flip: append_Cons)
  then show ?thesis by (auto simp: hash_map_def bindings_def pj_hash_this_def)
qed

lemma first_none:
  assumes ok: "hash_ok s lower ht" and f: "pj_hash_first ht = None"
  shows "hash_map lower ht = Map.empty"
  using next_row_ahead [OF refl, of 0 ht] f ok by (simp add: pj_hash_first_def hash_ok_def hash_map_def bindings_def)

section \<open>Stopping\<close>

text \<open>A transaction that will do nothing any more.\<close>

definition ended :: "sip_world \<Rightarrow> bool" where
  "ended w \<longleftrightarrow> PJSIP_TSX_STATE_TERMINATED \<le> ts_state w \<and> ts_terminating w \<and> tm_due (ts_timeout_timer w) = None \<and>
     tm_due (ts_retransmit_timer w) = None \<and> ts_transport w = None \<and> ts_last_tx w = None"

lemma shutdown_ended:
  assumes "PJSIP_TSX_STATE_TERMINATED \<le> ts_state w"
  shows "ended (tsx_shutdown env w)"
  using assms
  by (simp add: ended_def tsx_shutdown_def tsx_update_transport_def tsx_cancel_timer_def slot_cancel_def log_tsx_def Let_def)

lemma terminate_state: "PJSIP_TSX_STATE_TERMINATED \<le> ts_state (fst (pjsip_tsx_terminate env PJSIP_SC_SERVICE_UNAVAILABLE w))"
  by (simp add: pjsip_tsx_terminate_def PJSIP_SC_SERVICE_UNAVAILABLE_def tsx_set_state_def notify_state_def enter_terminated_def
      tsx_schedule_timer_def tsx_cancel_timer_def log_tsx_def tsx_set_status_code_def Let_def not_less split: option.splits)

definition stopped :: "(nat \<Rightarrow> sip_env) \<Rightarrow> nat \<Rightarrow> layer_tsx \<Rightarrow> layer_tsx" where
  "stopped env i t = t\<lparr>lt_world := tsx_shutdown (env i)
     (fst (pjsip_tsx_terminate (env i) PJSIP_SC_SERVICE_UNAVAILABLE (mod_tsx_layer_unregister_tsx (lt_world t))))\<rparr>"

lemma stopped_ended: "ended (lt_world (stopped env i t))"
  by (simp add: stopped_def shutdown_ended terminate_state)

lemma stopped_keys [simp]:
  "lt_key (stopped env i t) = lt_key t" "lt_key2 (stopped env i t) = lt_key2 t" "lt_role (stopped env i t) = lt_role t"
  by (simp_all add: stopped_def)

lemma update_layer_ok:
  assumes "layer_ok ly" "ly_tsx ly i = Some t" "lt_key t' = lt_key t" "lt_key2 t' = lt_key2 t" "lt_role t' = lt_role t"
  shows "layer_ok (ly\<lparr>ly_tsx := (ly_tsx ly)(i \<mapsto> t')\<rparr>)"
proof -
  let ?l = "ly\<lparr>ly_tsx := (ly_tsx ly)(i \<mapsto> t')\<rparr>"
  have "\<exists>u. ly_tsx ?l x = Some u \<and> norm_key True (lt_key u) = k" if "hash_map True (ly_htable ?l) k = Some x" for k x
    using layer_okD(1) [OF assms(1), of k x] that assms(2,3) by (cases "x = i") auto
  moreover have "\<exists>u. ly_tsx ?l x = Some u \<and> lt_role u = PJSIP_ROLE_UAS \<and> norm_key True (lt_key2 u) = k"
    if "hash_map True (ly_htable2 ?l) k = Some x" for k x
    using layer_okD(2) [OF assms(1), of k x] that assms(2,4,5) by (cases "x = i") auto
  ultimately show ?thesis using assms(1) by (simp add: layer_ok_def)
qed

lemma stop_tsx_spec:
  assumes ok: "layer_ok ly" and k: "hash_map True (ly_htable ly) k = Some i"
  shows "\<exists>t ly'. ly_tsx ly i = Some t \<and> norm_key True (lt_key t) = k \<and> stop_tsx env i ly = Some ly' \<and> layer_ok ly' \<and>
    hash_map True (ly_htable ly') = (hash_map True (ly_htable ly))(k := None) \<and>
    hash_map True (ly_htable2 ly') = (if lt_role t = PJSIP_ROLE_UAS
      then (hash_map True (ly_htable2 ly))(norm_key True (lt_key2 t) := None) else hash_map True (ly_htable2 ly)) \<and>
    ly_tsx ly' = (ly_tsx ly)(i \<mapsto> stopped env i t)"
proof -
  obtain t where t: "ly_tsx ly i = Some t" "norm_key True (lt_key t) = k" using layer_okD(1) [OF ok k] by auto
  note u = unregister_ok [OF ok t(1)]
  have "layer_ok ((layer_unregister_tsx i ly)\<lparr>ly_tsx := (ly_tsx (layer_unregister_tsx i ly))(i \<mapsto> stopped env i t)\<rparr>)"
    using u t by (intro update_layer_ok [of _ _ t]) simp_all
  then show ?thesis using t u by (simp add: stop_tsx_def Let_def stopped_def)
qed

lemma ran_remove:
  assumes "m k = Some i" "\<And>k'. m k' = Some i \<Longrightarrow> k' = k"
  shows "ran m = insert i (ran (m(k := None)))" "i \<notin> ran (m(k := None))"
proof -
  show "i \<notin> ran (m(k := None))" using assms(2) by (auto simp: ran_def)
  have "x \<in> ran m \<longleftrightarrow> x = i \<or> x \<in> ran (m(k := None))" for x
    using assms(1) by (auto simp: ran_def) (metis option.inject)
  then show "ran m = insert i (ran (m(k := None)))" by blast
qed

lemma stop_spec:
  assumes "layer_ok ly"
  shows "\<exists>ly'. mod_tsx_layer_stop env ly = Some ly' \<and> layer_ok ly' \<and> hash_map True (ly_htable ly') = Map.empty \<and>
    hash_map True (ly_htable2 ly') \<subseteq>\<^sub>m hash_map True (ly_htable2 ly) \<and>
    ran (hash_map True (ly_htable2 ly')) \<inter> ran (hash_map True (ly_htable ly)) = {} \<and>
    ly_tsx ly' = (\<lambda>i. if i \<in> ran (hash_map True (ly_htable ly)) then map_option (stopped env i) (ly_tsx ly i) else ly_tsx ly i)"
  using assms
proof (induction "pj_hash_count (ly_htable ly)" arbitrary: ly rule: less_induct)
  case less
  let ?h = "hash_map True (ly_htable ly)"
  have ok: "hash_ok (ly_sip ly) True (ly_htable ly)" using less.prems by (simp add: layer_ok_def)
  show ?case
  proof (cases "pj_hash_first (ly_htable ly)")
    case None
    then show ?thesis using first_none [OF ok] less.prems by (subst mod_tsx_layer_stop.simps) simp
  next
    case (Some it)
    define i where "i = pj_hash_this it"
    obtain k where k: "?h k = Some i" using first_value [OF ok Some] i_def by auto
    obtain t l where s: "ly_tsx ly i = Some t" "norm_key True (lt_key t) = k" "stop_tsx env i ly = Some l" "layer_ok l"
      "hash_map True (ly_htable l) = ?h(k := None)"
      "hash_map True (ly_htable2 l) = (if lt_role t = PJSIP_ROLE_UAS
         then (hash_map True (ly_htable2 ly))(norm_key True (lt_key2 t) := None) else hash_map True (ly_htable2 ly))"
      "ly_tsx l = (ly_tsx ly)(i \<mapsto> stopped env i t)"
      using stop_tsx_spec [OF less.prems k] by blast
    have only: "k' = k" if "?h k' = Some i" for k' using layer_okD(1) [OF less.prems that] s(1,2) by auto
    have ran: "ran ?h = insert i (ran (hash_map True (ly_htable l)))" "i \<notin> ran (hash_map True (ly_htable l))"
      using ran_remove [of ?h k i] k only unfolding s(5) by blast+
    have okl: "hash_ok (ly_sip l) True (ly_htable l)" using s(4) by (simp add: layer_ok_def)
    have "finite (dom ?h)" by (simp add: hash_map_def finite_dom_map_of)
    then have "0 < card (dom ?h)" using k by (auto simp: card_gt_0_iff)
    then have "pj_hash_count (ly_htable l) < pj_hash_count (ly_htable ly)"
      using hash_count_card(2) [OF okl] hash_count_card(2) [OF ok] k s(5) by (simp add: domI [of ?h k])
    from less.hyps [OF this s(4)] obtain ly' where ly': "mod_tsx_layer_stop env l = Some ly'" "layer_ok ly'"
      "hash_map True (ly_htable ly') = Map.empty" "hash_map True (ly_htable2 ly') \<subseteq>\<^sub>m hash_map True (ly_htable2 l)"
      "ran (hash_map True (ly_htable2 ly')) \<inter> ran (hash_map True (ly_htable l)) = {}"
      "ly_tsx ly' = (\<lambda>i. if i \<in> ran (hash_map True (ly_htable l)) then map_option (stopped env i) (ly_tsx l i) else ly_tsx l i)"
      by blast
    have sub: "hash_map True (ly_htable2 l) \<subseteq>\<^sub>m hash_map True (ly_htable2 ly)" unfolding s(6) by (auto simp: map_le_def)
    have "i \<notin> ran (hash_map True (ly_htable2 l))"
    proof
      assume "i \<in> ran (hash_map True (ly_htable2 l))"
      then obtain k2 where k2: "hash_map True (ly_htable2 l) k2 = Some i" by (auto simp: ran_def)
      then have "lt_role t = PJSIP_ROLE_UAS" "norm_key True (lt_key2 t) = k2" using layer_okD(2) [OF s(4) k2] s(7) by auto
      then show False using k2 s(6) by simp
    qed
    then have "i \<notin> ran (hash_map True (ly_htable2 ly'))" using ly'(4) by (fastforce simp: ran_def map_le_def dom_def)
    then have "ran (hash_map True (ly_htable2 ly')) \<inter> ran ?h = {}" using ly'(5) ran by auto
    moreover have "ly_tsx ly' j = (if j \<in> ran ?h then map_option (stopped env j) (ly_tsx ly j) else ly_tsx ly j)" for j
      using ran s(1) by (cases "j = i") (simp_all add: ly'(6) s(7))
    then have "ly_tsx ly' = (\<lambda>i. if i \<in> ran ?h then map_option (stopped env i) (ly_tsx ly i) else ly_tsx ly i)" by (rule ext)
    moreover have "mod_tsx_layer_stop env ly = Some ly'"
      using Some s(3) ly'(1) i_def by (subst mod_tsx_layer_stop.simps) simp
    ultimately show ?thesis using ly'(2-4) map_le_trans [OF ly'(4) sub] by blast
  qed
qed

lemma count_empty:
  assumes "hash_ok s lower ht" "hash_map lower ht = Map.empty"
  shows "pj_hash_count ht = 0"
  using hash_count_card(2) [OF assms(1)] assms(2) by simp

section \<open>Properties\<close>


text \<open>A creation of the layer that fails after the pool has been made leaves the layer marked as created: every later
  attempt is refused.\<close>

theorem sip_init_failure_sticks:
  assumes "pjsip_tsx_layer_init_module True tables mutex reg PJ_SUCCESS n cfg md = (cfg', md', status)" "\<not> md_endpt md"
    "status \<noteq> PJ_SUCCESS"
  shows "\<not> md_registered md' \<or> md_registered md"
    "pjsip_tsx_layer_init_module True True PJ_SUCCESS PJ_SUCCESS PJ_SUCCESS n cfg' md' = (cfg', md', PJ_EINVALIDOP)"
  using assms by (auto simp: pjsip_tsx_layer_init_module_def Let_def split: if_splits)

section \<open>Witnesses\<close>

definition demo_module :: tsx_module where
  "demo_module = \<lparr>md_endpt = True, md_registered = True, md_atexit = False,
     md_layer = fst (pjsip_tsx_create_uas2 (sip_demo_env (Inr demo_ack)) PJ_SUCCESS (Inr (Inr True)) 3 (demo_rdata PJSIP_BYE_METHOD [66, 89, 69]) Map.empty demo_layer)\<rparr>"


lemma sip_init_failure_sticks_witness:
  "pjsip_tsx_layer_init_module True True PJ_SUCCESS PJ_SUCCESS PJ_SUCCESS 31
      ((pjsip_tsx_initialize_timer_values demo_cfg)\<lparr>max_retrans_count := -1\<rparr>) (demo_module\<lparr>md_registered := False\<rparr>) =
     ((pjsip_tsx_initialize_timer_values demo_cfg)\<lparr>max_retrans_count := -1\<rparr>, demo_module\<lparr>md_registered := False\<rparr>, PJ_EINVALIDOP)"
proof -
  have "pjsip_tsx_layer_init_module True False PJ_SUCCESS PJ_SUCCESS PJ_SUCCESS 31 demo_cfg (demo_module\<lparr>md_endpt := False, md_registered := False\<rparr>) =
      ((pjsip_tsx_initialize_timer_values demo_cfg)\<lparr>max_retrans_count := -1\<rparr>, demo_module\<lparr>md_registered := False\<rparr>, PJ_ENOMEM)"
    by (simp add: pjsip_tsx_layer_init_module_def demo_module_def)
  from sip_init_failure_sticks(2) [OF this] show ?thesis by simp
qed

end
