(* ===== verification/Dns.thy ===== *)
theory Dns
  imports Packet Hash
begin

text \<open>
  The DNS message codec of \<^verbatim>\<open>pjlib-util/src/pjlib-util/dns.c\<close>: queries, the parser with name
  decompression, the copy of a parsed packet and the record constructors.

  Pointers into a packet are offsets; \<^verbatim>\<open>max\<close> is the length of the packet.  A name that is being
  written is the list of bytes so far together with the capacity of the memory allocated for it, and
  a write beyond the capacity is a \<open>Fault\<close>.  The C recursion counter runs from 0 to
  \<^verbatim>\<open>MAX_NAME_RECURSION\<close>; the model counts the levels that are left.  \<^verbatim>\<open>int\<close> lengths are natural
  numbers, which no packet of a datagram's size makes overflow.  The pool never fails.
\<close>

definition PJLIB_UTIL_EDNSQRYTOOSMALL :: pj_status where "PJLIB_UTIL_EDNSQRYTOOSMALL = PJ_EOTHER 320040"
definition PJLIB_UTIL_EDNSINSIZE :: pj_status where "PJLIB_UTIL_EDNSINSIZE = PJ_EOTHER 320041"
definition PJLIB_UTIL_EDNSINCLASS :: pj_status where "PJLIB_UTIL_EDNSINCLASS = PJ_EOTHER 320042"
definition PJLIB_UTIL_EDNSINNAMEPTR :: pj_status where "PJLIB_UTIL_EDNSINNAMEPTR = PJ_EOTHER 320043"
definition PJ_DNS_MAX_SECTION_COUNT :: u16 where "PJ_DNS_MAX_SECTION_COUNT = 256"
definition PJ_DNS_MAX_NAMES_IN_NAMETABLE :: nat where "PJ_DNS_MAX_NAMES_IN_NAMETABLE = 16"
definition MAX_NAME_RECURSION :: nat where "MAX_NAME_RECURSION = 5"

definition PJ_DNS_TYPE_A :: u16 where "PJ_DNS_TYPE_A = 1"
definition PJ_DNS_TYPE_NS :: u16 where "PJ_DNS_TYPE_NS = 2"
definition PJ_DNS_TYPE_CNAME :: u16 where "PJ_DNS_TYPE_CNAME = 5"
definition PJ_DNS_TYPE_PTR :: u16 where "PJ_DNS_TYPE_PTR = 12"
definition PJ_DNS_TYPE_AAAA :: u16 where "PJ_DNS_TYPE_AAAA = 28"
definition PJ_DNS_TYPE_SRV :: u16 where "PJ_DNS_TYPE_SRV = 33"

record pj_dns_hdr =
  dh_id :: u16
  dh_flags :: u16
  dh_qdcount :: u16
  dh_anscount :: u16
  dh_nscount :: u16
  dh_arcount :: u16

record pj_dns_parsed_query =
  dq_name :: "u8 list"
  dq_type :: u16
  dq_class :: u16

text \<open>The union \<^verbatim>\<open>rdata\<close>; \<^verbatim>\<open>cname\<close>, \<^verbatim>\<open>ns\<close> and \<^verbatim>\<open>ptr\<close> have the same layout.\<close>

datatype dns_rdata =
    Rd_none
  | Rd_srv (srv_prio: u16) (srv_weight: u16) (srv_port: u16) (srv_target: "u8 list")
  | Rd_name "u8 list"
  | Rd_a "u8 list"
  | Rd_aaaa "u8 list"

record pj_dns_parsed_rr =
  rr_name :: "u8 list"
  rr_type :: u16
  rr_class :: u16
  rr_ttl :: u32
  rr_rdlength :: u16
  rr_data :: "(u8 list) option"
  rr_rdata :: dns_rdata

record pj_dns_parsed_packet =
  dp_hdr :: pj_dns_hdr
  dp_q :: "pj_dns_parsed_query list"
  dp_ans :: "pj_dns_parsed_rr list"
  dp_ns :: "pj_dns_parsed_rr list"
  dp_arr :: "pj_dns_parsed_rr list"

section \<open>Queries\<close>

text \<open>The loop over the labels of a dotted name.\<close>

function query_labels :: "u8 list \<Rightarrow> u8 list" where
  "query_labels name =
     (if name = [] then []
      else
        (let label = takeWhile (\<lambda>c. c \<noteq> 46) name;
             rest = dropWhile (\<lambda>c. c \<noteq> 46) name in
         of_nat (length label) # label @ query_labels (if rest \<noteq> [] then tl rest else [])))"
  by pat_completeness auto
termination
proof (relation "measure length")
  fix name label rest :: "u8 list"
  assume a: "name \<noteq> []" "rest = dropWhile (\<lambda>c. c \<noteq> 46) name"
  have "length rest \<le> length name" using a(2) length_dropWhile_le by simp
  then show "(if rest \<noteq> [] then tl rest else [], name) \<in> measure length" using a(1) by (cases rest) auto
qed simp

declare query_labels.simps [simp del]

text \<open>The bytes written to the caller's buffer of \<open>sz\<close> bytes.\<close>

definition pj_dns_make_query :: "nat \<Rightarrow> u16 \<Rightarrow> int \<Rightarrow> u8 list \<Rightarrow> (u8 list) parse" where
  "pj_dns_make_query sz qid qtype name =
     (if qtype = 0 then Fail PJ_EINVAL
      else if sz < 12 + (length name + 2) + 4 then Fail PJLIB_UTIL_EDNSQRYTOOSMALL
      else
        (let pkt = put16 qid @ put16 (push_bit 8 1) @ put16 1 @ replicate 6 0 @
               query_labels name @ [0] @ put16 (word_of_int qtype) @ put16 1 in
         if length pkt \<le> sz then Done pkt else Fault))"

section \<open>Names\<close>

text \<open>The loop of \<^verbatim>\<open>get_name_len\<close>; \<open>nested\<close> is the recursive call at an offset.  The result is
  \<^verbatim>\<open>*parsed_len\<close> and \<^verbatim>\<open>*name_len\<close>.\<close>

function name_len_loop :: "(nat \<Rightarrow> (nat \<times> nat) parse) \<Rightarrow> u8 list \<Rightarrow> nat \<Rightarrow> nat \<Rightarrow> nat \<Rightarrow> (nat \<times> nat) parse" where
  "name_len_loop nested pkt p parsed_len name_len =
     (if p < length pkt then
        pbind (rd8 pkt p) (\<lambda>c.
          if c = 0 then Done (parsed_len + 1, name_len)
          else if c AND 0xc0 = 0xc0 then
            (if p + 1 \<ge> length pkt then Fail PJLIB_UTIL_EDNSINNAMEPTR
             else
               pbind (rd16 pkt p) (\<lambda>v.
                 let offset = unat (v XOR 0xc000) in
                 if offset \<ge> length pkt then Fail PJLIB_UTIL_EDNSINNAMEPTR
                 else pbind (nested offset) (\<lambda>(_, ptr_len). Done (parsed_len + 2, name_len + ptr_len))))
          else
            (let label_len = unat c in
             if p + 1 + label_len + 1 > length pkt then Fail PJLIB_UTIL_EDNSINNAMEPTR
             else
               pbind (rd8 pkt (p + (label_len + 1))) (\<lambda>d.
                 name_len_loop nested pkt (p + (label_len + 1)) (parsed_len + (label_len + 1))
                   (name_len + (if d \<noteq> 0 then label_len + 1 else label_len)))))
      else Done (parsed_len + 1, name_len))"
  by pat_completeness auto
termination by (relation "measure (\<lambda>(_, pkt, p, _, _). length pkt - p)") auto

declare name_len_loop.simps [simp del]

primrec get_name_len :: "nat \<Rightarrow> u8 list \<Rightarrow> nat \<Rightarrow> (nat \<times> nat) parse" where
  "get_name_len 0 pkt start = Fail PJLIB_UTIL_EDNSINNAMEPTR"
| "get_name_len (Suc levels) pkt start =
     (if start \<ge> length pkt then Fail PJLIB_UTIL_EDNSINNAMEPTR
      else name_len_loop (get_name_len levels pkt) pkt start 0 0)"

text \<open>A write of \<open>bs\<close> at the end of a name of capacity \<open>cap\<close>.\<close>

definition name_put :: "nat \<Rightarrow> u8 list \<Rightarrow> u8 list \<Rightarrow> (u8 list) parse" where
  "name_put cap name bs = (if length name + length bs \<le> cap then Done (name @ bs) else Fault)"

function name_loop :: "nat \<Rightarrow> (nat \<Rightarrow> u8 list \<Rightarrow> (u8 list) parse) \<Rightarrow> u8 list \<Rightarrow> nat \<Rightarrow> u8 list \<Rightarrow> (u8 list) parse" where
  "name_loop cap nested pkt p name =
     (if p < length pkt then
        pbind (rd8 pkt p) (\<lambda>c.
          if c = 0 then Done name
          else if c AND 0xc0 = 0xc0 then
            (if p + 1 \<ge> length pkt then Fail PJLIB_UTIL_EDNSINNAMEPTR
             else
               pbind (rd16 pkt p) (\<lambda>v.
                 let offset = unat (v XOR 0xc000) in
                 if offset \<ge> length pkt then Fail PJLIB_UTIL_EDNSINNAMEPTR
                 else nested offset name))
          else
            (let label_len = unat c in
             if p + 1 + label_len + 1 > length pkt then Fail PJLIB_UTIL_EDNSINNAMEPTR
             else
               pbind (rd_bytes pkt (p + 1) label_len) (\<lambda>label.
                 pbind (name_put cap name label) (\<lambda>name.
                   pbind (rd8 pkt (p + (label_len + 1))) (\<lambda>d.
                     pbind (if d \<noteq> 0 then name_put cap name [46] else Done name) (\<lambda>name.
                       name_loop cap nested pkt (p + (label_len + 1)) name))))))
      else Done name)"
  by pat_completeness auto
termination by (relation "measure (\<lambda>(_, _, pkt, p, _). length pkt - p)") auto

declare name_loop.simps [simp del]

primrec get_name :: "nat \<Rightarrow> nat \<Rightarrow> u8 list \<Rightarrow> nat \<Rightarrow> u8 list \<Rightarrow> (u8 list) parse" where
  "get_name 0 cap pkt start name = Fail PJLIB_UTIL_EDNSINNAMEPTR"
| "get_name (Suc levels) cap pkt start name =
     (if start \<ge> length pkt then Fail PJLIB_UTIL_EDNSINNAMEPTR
      else name_loop cap (get_name levels cap pkt) pkt start name)"

text \<open>The sequence all callers use: the lengths, an allocation with \<open>extra\<close> bytes to spare, the name.\<close>

definition parse_name :: "nat \<Rightarrow> u8 list \<Rightarrow> nat \<Rightarrow> (nat \<times> u8 list) parse" where
  "parse_name extra pkt start =
     pbind (get_name_len (Suc MAX_NAME_RECURSION) pkt start) (\<lambda>(name_part_len, name_len).
       pbind (get_name (Suc MAX_NAME_RECURSION) (name_len + extra) pkt start []) (\<lambda>name.
         Done (name_part_len, name)))"

section \<open>Records and packets\<close>

definition parse_query :: "u8 list \<Rightarrow> nat \<Rightarrow> (nat \<times> pj_dns_parsed_query) parse" where
  "parse_query pkt start =
     pbind (parse_name 4 pkt start) (\<lambda>(name_part_len, name).
       let p = start + name_part_len in
       if p + 4 > length pkt then Fail PJLIB_UTIL_EDNSINSIZE
       else
         pbind (rd16 pkt p) (\<lambda>type.
           pbind (rd16 pkt (p + 2)) (\<lambda>cls.
             Done (p + 4 - start, \<lparr>dq_name = name, dq_type = type, dq_class = cls\<rparr>))))"

definition rr_type_known :: "u16 \<Rightarrow> bool" where
  "rr_type_known type \<longleftrightarrow> type = PJ_DNS_TYPE_A \<or> type = PJ_DNS_TYPE_AAAA \<or> type = PJ_DNS_TYPE_CNAME \<or>
     type = PJ_DNS_TYPE_NS \<or> type = PJ_DNS_TYPE_PTR \<or> type = PJ_DNS_TYPE_SRV"

text \<open>The part of \<^verbatim>\<open>parse_rr\<close> that depends on the type; the result is the position after the record.\<close>

definition parse_rdata :: "u8 list \<Rightarrow> nat \<Rightarrow> u16 \<Rightarrow> u16 \<Rightarrow> (nat \<times> (u8 list) option \<times> dns_rdata) parse" where
  "parse_rdata pkt p type rdlength =
     (if type = PJ_DNS_TYPE_A then
        (if p + 4 > length pkt then Fail PJLIB_UTIL_EDNSINSIZE
         else pbind (rd_bytes pkt p 4) (\<lambda>a. Done (p + 4, None, Rd_a a)))
      else if type = PJ_DNS_TYPE_AAAA then
        (if p + 16 > length pkt then Fail PJLIB_UTIL_EDNSINSIZE
         else pbind (rd_bytes pkt p 16) (\<lambda>a. Done (p + 16, None, Rd_aaaa a)))
      else if type = PJ_DNS_TYPE_CNAME \<or> type = PJ_DNS_TYPE_NS \<or> type = PJ_DNS_TYPE_PTR then
        pbind (parse_name 0 pkt p) (\<lambda>(name_part_len, name). Done (p + name_part_len, None, Rd_name name))
      else if type = PJ_DNS_TYPE_SRV then
        (if p + 6 > length pkt then Fail PJLIB_UTIL_EDNSINSIZE
         else
           pbind (rd16 pkt p) (\<lambda>prio.
             pbind (rd16 pkt (p + 2)) (\<lambda>weight.
               pbind (rd16 pkt (p + 4)) (\<lambda>port.
                 pbind (parse_name 0 pkt (p + 6)) (\<lambda>(name_part_len, target).
                   Done (p + 6 + name_part_len, None, Rd_srv prio weight port target))))))
      else
        pbind (rd_bytes pkt p (unat rdlength)) (\<lambda>d. Done (p + unat rdlength, Some d, Rd_none)))"

definition parse_rr :: "u8 list \<Rightarrow> nat \<Rightarrow> (nat \<times> pj_dns_parsed_rr) parse" where
  "parse_rr pkt start =
     pbind (parse_name 4 pkt start) (\<lambda>(name_part_len, name).
       let p = start + name_part_len in
       if p + 10 > length pkt then Fail PJLIB_UTIL_EDNSINSIZE
       else
         pbind (rd16 pkt p) (\<lambda>type.
           pbind (rd16 pkt (p + 2)) (\<lambda>cls.
             if cls \<noteq> 1 \<and> rr_type_known type then Fail PJLIB_UTIL_EDNSINCLASS
             else
               pbind (rd32 pkt (p + 4)) (\<lambda>ttl.
                 pbind (rd16 pkt (p + 8)) (\<lambda>rdlength.
                   let p = p + 10 in
                   if p + unat rdlength > length pkt then Fail PJLIB_UTIL_EDNSINSIZE
                   else
                     pbind (parse_rdata pkt p type rdlength) (\<lambda>(p, data, rdata).
                       Done (p - start,
                         \<lparr>rr_name = name, rr_type = type, rr_class = cls, rr_ttl = ttl, rr_rdlength = rdlength,
                          rr_data = data, rr_rdata = rdata\<rparr>)))))))"

text \<open>The loop over the records of a section, from \<open>start\<close> on.\<close>

primrec parse_section :: "(nat \<Rightarrow> (nat \<times> 'a) parse) \<Rightarrow> nat \<Rightarrow> nat \<Rightarrow> (nat \<times> 'a list) parse" where
  "parse_section parse 0 start = Done (start, [])"
| "parse_section parse (Suc n) start =
     pbind (parse start) (\<lambda>(parsed_len, x).
       pbind (parse_section parse n (start + parsed_len)) (\<lambda>(start, xs). Done (start, x # xs)))"

definition parse_dns_hdr :: "u8 list \<Rightarrow> pj_dns_hdr parse" where
  "parse_dns_hdr pkt =
     pbind (rd16 pkt 0) (\<lambda>i. pbind (rd16 pkt 2) (\<lambda>f. pbind (rd16 pkt 4) (\<lambda>qd. pbind (rd16 pkt 6) (\<lambda>an.
       pbind (rd16 pkt 8) (\<lambda>ns. pbind (rd16 pkt 10) (\<lambda>ar.
         Done \<lparr>dh_id = i, dh_flags = f, dh_qdcount = qd, dh_anscount = an, dh_nscount = ns, dh_arcount = ar\<rparr>))))))"

definition pj_dns_parse_packet :: "u8 list \<Rightarrow> pj_dns_parsed_packet parse" where
  "pj_dns_parse_packet pkt =
     (if pkt = [] then Fail PJ_EINVAL
      else if length pkt < 12 then Fail PJLIB_UTIL_EDNSINSIZE
      else
        pbind (parse_dns_hdr pkt) (\<lambda>hdr.
          if dh_qdcount hdr > PJ_DNS_MAX_SECTION_COUNT \<or> dh_anscount hdr > PJ_DNS_MAX_SECTION_COUNT \<or>
             dh_nscount hdr > PJ_DNS_MAX_SECTION_COUNT \<or> dh_arcount hdr > PJ_DNS_MAX_SECTION_COUNT
          then Fail PJ_ETOOMANY
          else
            pbind (parse_section (parse_query pkt) (unat (dh_qdcount hdr)) 12) (\<lambda>(start, q).
              pbind (parse_section (parse_rr pkt) (unat (dh_anscount hdr)) start) (\<lambda>(start, ans).
                pbind (parse_section (parse_rr pkt) (unat (dh_nscount hdr)) start) (\<lambda>(start, ns).
                  pbind (parse_section (parse_rr pkt) (unat (dh_arcount hdr)) start) (\<lambda>(start, arr).
                    Done \<lparr>dp_hdr = hdr, dp_q = q, dp_ans = ans, dp_ns = ns, dp_arr = arr\<rparr>))))))"

section \<open>Copies\<close>

text \<open>The name table is the list of its names; the second result is the name for the copy.\<close>

definition apply_name_table :: "u8 list list \<Rightarrow> u8 list \<Rightarrow> u8 list list \<times> u8 list" where
  "apply_name_table table src =
     (case find (\<lambda>n. stricmp_eq n src) table of
        Some n \<Rightarrow> (table, n)
      | None \<Rightarrow> (if length table < PJ_DNS_MAX_NAMES_IN_NAMETABLE then table @ [src] else table, src))"

definition copy_query :: "u8 list list \<Rightarrow> pj_dns_parsed_query \<Rightarrow> u8 list list \<times> pj_dns_parsed_query" where
  "copy_query table src = (let (table, name) = apply_name_table table (dq_name src) in (table, src\<lparr>dq_name := name\<rparr>))"

definition copy_rr :: "u8 list list \<Rightarrow> pj_dns_parsed_rr \<Rightarrow> u8 list list \<times> pj_dns_parsed_rr" where
  "copy_rr table src =
     (let (table, name) = apply_name_table table (rr_name src);
          dst = src\<lparr>rr_name := name, rr_data := map_option (take (unat (rr_rdlength src))) (rr_data src)\<rparr> in
      if rr_type src = PJ_DNS_TYPE_SRV then
        (case rr_rdata src of
           Rd_srv prio weight port target \<Rightarrow>
             (let (table, target) = apply_name_table table target in
              (table, dst\<lparr>rr_rdata := Rd_srv prio weight port target\<rparr>))
         | _ \<Rightarrow> (table, dst))
      else (table, dst))"

primrec copy_section :: "('t \<Rightarrow> 'a \<Rightarrow> 't \<times> 'a) \<Rightarrow> 't \<Rightarrow> 'a list \<Rightarrow> 't \<times> 'a list" where
  "copy_section copy table [] = (table, [])"
| "copy_section copy table (x # xs) =
     (let (table, y) = copy table x; (table, ys) = copy_section copy table xs in (table, y # ys))"

text \<open>\<open>qd\<close>, \<open>an\<close>, \<open>ns\<close>, \<open>ar\<close> say which sections the options leave in.\<close>

definition dup_section :: "('t \<Rightarrow> 'a \<Rightarrow> 't \<times> 'a) \<Rightarrow> bool \<Rightarrow> u16 \<Rightarrow> 't \<Rightarrow> 'a list \<Rightarrow> 't \<times> u16 \<times> 'a list" where
  "dup_section copy keep n table xs =
     (if n \<noteq> 0 \<and> keep then (let (table, ys) = copy_section copy table (take (unat n) xs) in (table, of_nat (length ys), ys))
      else (table, 0, []))"

definition pj_dns_packet_dup :: "bool \<Rightarrow> bool \<Rightarrow> bool \<Rightarrow> bool \<Rightarrow> pj_dns_parsed_packet \<Rightarrow> pj_dns_parsed_packet" where
  "pj_dns_packet_dup qd an ns ar p =
     (let hdr = dp_hdr p;
          (table, nq, q) = dup_section copy_query qd (dh_qdcount hdr) [] (dp_q p);
          (table, na, ans) = dup_section copy_rr an (dh_anscount hdr) table (dp_ans p);
          (table, nn, nss) = dup_section copy_rr ns (dh_nscount hdr) table (dp_ns p);
          (table, nr, arr) = dup_section copy_rr ar (dh_arcount hdr) table (dp_arr p) in
      \<lparr>dp_hdr = hdr\<lparr>dh_qdcount := nq, dh_anscount := na, dh_nscount := nn, dh_arcount := nr\<rparr>,
       dp_q = q, dp_ans = ans, dp_ns = nss, dp_arr = arr\<rparr>)"

section \<open>Record constructors\<close>

definition init_rr :: "u8 list \<Rightarrow> u16 \<Rightarrow> nat \<Rightarrow> nat \<Rightarrow> dns_rdata \<Rightarrow> pj_dns_parsed_rr" where
  "init_rr res_name type dnsclass ttl rdata =
     \<lparr>rr_name = res_name, rr_type = type, rr_class = of_nat dnsclass, rr_ttl = of_nat ttl, rr_rdlength = 0, rr_data = None,
      rr_rdata = rdata\<rparr>"

definition pj_dns_init_srv_rr :: "u8 list \<Rightarrow> nat \<Rightarrow> nat \<Rightarrow> nat \<Rightarrow> nat \<Rightarrow> nat \<Rightarrow> u8 list \<Rightarrow> pj_dns_parsed_rr" where
  "pj_dns_init_srv_rr res_name dnsclass ttl prio weight port target =
     init_rr res_name PJ_DNS_TYPE_SRV dnsclass ttl (Rd_srv (of_nat prio) (of_nat weight) (of_nat port) target)"

definition pj_dns_init_cname_rr :: "u8 list \<Rightarrow> nat \<Rightarrow> nat \<Rightarrow> u8 list \<Rightarrow> pj_dns_parsed_rr" where
  "pj_dns_init_cname_rr res_name dnsclass ttl name = init_rr res_name PJ_DNS_TYPE_CNAME dnsclass ttl (Rd_name name)"

definition pj_dns_init_a_rr :: "u8 list \<Rightarrow> nat \<Rightarrow> nat \<Rightarrow> u8 list \<Rightarrow> pj_dns_parsed_rr" where
  "pj_dns_init_a_rr res_name dnsclass ttl ip_addr = init_rr res_name PJ_DNS_TYPE_A dnsclass ttl (Rd_a ip_addr)"

definition pj_dns_init_aaaa_rr :: "u8 list \<Rightarrow> nat \<Rightarrow> nat \<Rightarrow> u8 list \<Rightarrow> pj_dns_parsed_rr" where
  "pj_dns_init_aaaa_rr res_name dnsclass ttl ip_addr = init_rr res_name PJ_DNS_TYPE_AAAA dnsclass ttl (Rd_aaaa ip_addr)"

end
