(* ===== verification/Dns_Props.thy ===== *)
theory Dns_Props
  imports Dns
begin

text \<open>
  The DNS codec is memory safe on every packet, a parsed name fills exactly the memory measured for
  it, queries survive a round trip through the parser, and a copied packet differs from its source at
  most in the case of letters in names.
\<close>

section \<open>Names\<close>

text \<open>The three cases of the loops: the end of the name, a compression pointer, a label.\<close>

definition at_end :: "u8 list \<Rightarrow> nat \<Rightarrow> bool" where
  "at_end pkt p \<longleftrightarrow> \<not> (p < length pkt \<and> pkt ! p \<noteq> 0)"

definition at_ptr :: "u8 list \<Rightarrow> nat \<Rightarrow> bool" where
  "at_ptr pkt p \<longleftrightarrow> p < length pkt \<and> pkt ! p AND 0xc0 = 0xc0"

definition ptr_target :: "u8 list \<Rightarrow> nat \<Rightarrow> nat" where
  "ptr_target pkt p = unat (be16 (pkt ! p) (pkt ! (p + 1)) XOR 0xc000)"

definition after_label :: "u8 list \<Rightarrow> nat \<Rightarrow> nat" where
  "after_label pkt p = p + (unat (pkt ! p) + 1)"

definition label_width :: "u8 list \<Rightarrow> nat \<Rightarrow> nat" where
  "label_width pkt p = (if pkt ! after_label pkt p \<noteq> 0 then unat (pkt ! p) + 1 else unat (pkt ! p))"

lemma name_len_loop_end: "at_end pkt p \<Longrightarrow> name_len_loop nl pkt p l n = Done (l + 1, n)"
  by (subst name_len_loop.simps) (auto simp: at_end_def rd8_def)

lemma name_len_loop_ptr:
  "\<not> at_end pkt p \<Longrightarrow> at_ptr pkt p \<Longrightarrow> name_len_loop nl pkt p l n =
    (if p + 1 < length pkt \<and> ptr_target pkt p < length pkt then pbind (nl (ptr_target pkt p)) (\<lambda>(_, k). Done (l + 2, n + k))
     else Fail PJLIB_UTIL_EDNSINNAMEPTR)"
  by (subst name_len_loop.simps) (auto simp: at_end_def at_ptr_def ptr_target_def rd8_def rd16_def Let_def)

lemma name_len_loop_label:
  "\<not> at_end pkt p \<Longrightarrow> \<not> at_ptr pkt p \<Longrightarrow> name_len_loop nl pkt p l n =
    (if after_label pkt p < length pkt
     then name_len_loop nl pkt (after_label pkt p) (l + (unat (pkt ! p) + 1)) (n + label_width pkt p)
     else Fail PJLIB_UTIL_EDNSINNAMEPTR)"
  by (subst name_len_loop.simps)
    (auto simp: at_end_def at_ptr_def rd8_def Let_def after_label_def label_width_def)

lemma name_loop_end: "at_end pkt p \<Longrightarrow> name_loop cap nn pkt p name = Done name"
  by (subst name_loop.simps) (auto simp: at_end_def rd8_def)

lemma name_loop_ptr:
  "\<not> at_end pkt p \<Longrightarrow> at_ptr pkt p \<Longrightarrow> p + 1 < length pkt \<Longrightarrow> ptr_target pkt p < length pkt \<Longrightarrow>
   name_loop cap nn pkt p name = nn (ptr_target pkt p) name"
  by (subst name_loop.simps) (auto simp: at_end_def at_ptr_def ptr_target_def rd8_def rd16_def Let_def)

lemma name_loop_label:
  "\<not> at_end pkt p \<Longrightarrow> \<not> at_ptr pkt p \<Longrightarrow> after_label pkt p < length pkt \<Longrightarrow> length name + label_width pkt p \<le> cap \<Longrightarrow>
   name_loop cap nn pkt p name =
     name_loop cap nn pkt (after_label pkt p)
       (name @ take (unat (pkt ! p)) (drop (p + 1) pkt) @ (if pkt ! after_label pkt p \<noteq> 0 then [46] else []))"
  by (subst name_loop.simps)
    (auto simp: at_end_def at_ptr_def rd8_def rd_bytes_def name_put_def Let_def after_label_def label_width_def split: if_splits)

lemmas name_len_loop_cases = name_len_loop_end name_len_loop_ptr name_len_loop_label

lemma name_len_loop_step:
  obtains "at_end pkt p" | "\<not> at_end pkt p" "at_ptr pkt p" | "\<not> at_end pkt p" "\<not> at_ptr pkt p" by blast

text \<open>Induction over the labels of a name.\<close>

lemma label_induct [consumes 1, case_names step]:
  assumes "p < length pkt"
    and "\<And>p. p < length pkt \<Longrightarrow>
      (\<not> at_end pkt p \<Longrightarrow> \<not> at_ptr pkt p \<Longrightarrow> after_label pkt p < length pkt \<Longrightarrow> P (after_label pkt p)) \<Longrightarrow> P p"
  shows "P p"
  using assms(1)
proof (induction "length pkt - p" arbitrary: p rule: less_induct)
  case less
  show ?case
    by (rule assms(2) [OF less.prems]) (use less in \<open>auto simp: after_label_def\<close>)
qed

text \<open>A measured name ends inside the packet.\<close>

lemma name_len_loop_safe:
  assumes "p < length pkt" "\<And>off. off < length pkt \<Longrightarrow> safe (nested off) (\<lambda>_. True)"
  shows "safe (name_len_loop nested pkt p l n) (\<lambda>(a, n'). l < a \<and> a + p \<le> l + length pkt)"
  using assms(1)
proof (induction p arbitrary: l n rule: label_induct)
  case (step p)
  show ?case
  proof (cases rule: name_len_loop_step [of pkt p])
    case 2
    have "safe (nested (ptr_target pkt p)) (\<lambda>x. case x of (_, k) \<Rightarrow> p + 1 < length pkt)"
      if "p + 1 < length pkt" "ptr_target pkt p < length pkt"
      using assms(2) [OF that(2)] that(1) by (auto elim!: safe_mono)
    then show ?thesis using 2 by (auto simp: name_len_loop_ptr case_prod_beta elim!: safe_mono)
  next
    case 3
    have "safe (name_len_loop nested pkt (after_label pkt p) (l + (unat (pkt ! p) + 1)) (n + label_width pkt p))
        (\<lambda>(a, n'). l < a \<and> a + p \<le> l + length pkt)" if "after_label pkt p < length pkt"
      using step(2) [OF 3 that] by (rule safe_mono) (auto simp: after_label_def)
    then show ?thesis using 3 by (simp add: name_len_loop_label)
  qed (use step in \<open>simp add: name_len_loop_end\<close>)
qed

lemma get_name_len_safe:
  "safe (get_name_len levels pkt start) (\<lambda>(a, n). 0 < a \<and> start + a \<le> length pkt)"
proof (induction levels arbitrary: start)
  case (Suc levels)
  have "safe (get_name_len levels pkt off) (\<lambda>_. True)" for off using Suc by (rule safe_mono) simp
  then have "safe (name_len_loop (get_name_len levels pkt) pkt start 0 0) (\<lambda>(a, n). 0 < a \<and> start + a \<le> length pkt)"
    if "start < length pkt"
    using name_len_loop_safe [of start pkt "get_name_len levels pkt" 0 0] that by (auto elim!: safe_mono)
  then show ?case by simp
qed simp

text \<open>The second pass writes exactly the bytes the first one counted.\<close>

lemma name_loop_fits:
  assumes "p < length pkt" "name_len_loop nl pkt p l n0 = Done (a, n1)" "length name + n1 \<le> cap + n0"
    and nest: "\<And>off x y name. nl off = Done (x, y) \<Longrightarrow> length name + y \<le> cap \<Longrightarrow>
      \<exists>name'. nn off name = Done name' \<and> length name' = length name + y"
  shows "n0 \<le> n1 \<and> (\<exists>name'. name_loop cap nn pkt p name = Done name' \<and> length name' + n0 = length name + n1)"
  using assms(1-3)
proof (induction p arbitrary: l n0 name rule: label_induct)
  case (step p)
  show ?case
  proof (cases rule: name_len_loop_step [of pkt p])
    case 1
    then show ?thesis using step by (simp add: name_len_loop_end name_loop_end)
  next
    case 2
    then obtain x y where "p + 1 < length pkt" "ptr_target pkt p < length pkt" "nl (ptr_target pkt p) = Done (x, y)" "n1 = n0 + y"
      using step(3) by (auto simp: name_len_loop_ptr pbind_Done split: if_splits)
    then show ?thesis using nest [of "ptr_target pkt p" x y name] step(4) 2 by (simp add: name_loop_ptr)
  next
    case 3
    then have q: "after_label pkt p < length pkt"
      "name_len_loop nl pkt (after_label pkt p) (l + (unat (pkt ! p) + 1)) (n0 + label_width pkt p) = Done (a, n1)"
      using step(3) by (auto simp: name_len_loop_label split: if_splits)
    let ?name = "name @ take (unat (pkt ! p)) (drop (p + 1) pkt) @ (if pkt ! after_label pkt p \<noteq> 0 then [46] else [])"
    have len: "length ?name = length name + label_width pkt p"
      using q(1) by (simp add: label_width_def after_label_def)
    have ih: "n0 + label_width pkt p \<le> n1 \<and> (\<exists>name'. name_loop cap nn pkt (after_label pkt p) ?name = Done name' \<and>
        length name' + (n0 + label_width pkt p) = length ?name + n1)"
      by (rule step(2) [OF 3 q]) (use len step(4) in simp)
    then have "length name + label_width pkt p \<le> cap" using step(4) by linarith
    then show ?thesis using ih len q(1) 3 by (auto simp: name_loop_label)
  qed
qed

lemma get_name_fits:
  assumes "get_name_len levels pkt start = Done (a, n)" "length name + n \<le> cap"
  shows "\<exists>name'. get_name levels cap pkt start name = Done name' \<and> length name' = length name + n"
  using assms
proof (induction levels arbitrary: start a n name)
  case (Suc levels)
  then have s: "start < length pkt" "name_len_loop (get_name_len levels pkt) pkt start 0 0 = Done (a, n)"
    by (auto split: if_splits)
  show ?case
    using name_loop_fits [OF s, of name cap "get_name levels cap pkt"] Suc s(1) by simp
qed simp

lemma parse_name_safe:
  "safe (parse_name extra pkt start) (\<lambda>(a, name). 0 < a \<and> start + a \<le> length pkt)"
proof -
  let ?k = "Suc MAX_NAME_RECURSION"
  have "safe (get_name ?k (n + extra) pkt start []) (\<lambda>name. 0 < a \<and> start + a \<le> length pkt)"
    if "get_name_len ?k pkt start = Done (a, n)" "0 < a \<and> start + a \<le> length pkt" for a n
    using get_name_fits [OF that(1), of "[]" "n + extra"] that(2) by (auto simp del: get_name.simps)
  then have "safe (get_name_len ?k pkt start) (\<lambda>(a, n). safe (get_name ?k (n + extra) pkt start []) (\<lambda>name. 0 < a \<and> start + a \<le> length pkt))"
    by (intro safe_mono [OF get_name_len_safe]) blast
  then show ?thesis by (simp add: parse_name_def del: get_name.simps get_name_len.simps)
qed

lemma parse_name_safe_mono:
  "(\<And>a name. 0 < a \<Longrightarrow> start + a \<le> length pkt \<Longrightarrow> Q (a, name)) \<Longrightarrow> safe (parse_name extra pkt start) Q"
  by (rule safe_mono [OF parse_name_safe]) auto

section \<open>Records\<close>

definition rr_data_ok :: "pj_dns_parsed_rr \<Rightarrow> bool" where
  "rr_data_ok rr = (case rr_data rr of None \<Rightarrow> True | Some d \<Rightarrow> length d = unat (rr_rdlength rr))"

lemma parse_query_safe: "safe (parse_query pkt start) (\<lambda>(n, q). start + n \<le> length pkt \<and> True)"
  unfolding parse_query_def safe_bind
  by (rule parse_name_safe_mono) (simp add: Let_def)

lemma parse_rdata_safe:
  assumes "p + unat rdlength \<le> length pkt"
  shows "safe (parse_rdata pkt p type rdlength) (\<lambda>(q, data, _). p \<le> q \<and> q \<le> length pkt \<and>
    (case data of None \<Rightarrow> True | Some d \<Rightarrow> length d = unat rdlength))"
  using assms unfolding parse_rdata_def by (auto intro!: parse_name_safe_mono)

lemma parse_rr_safe: "safe (parse_rr pkt start) (\<lambda>(n, rr). start + n \<le> length pkt \<and> rr_data_ok rr)"
proof -
  have r: "safe (parse_rdata pkt p type rdlength) (\<lambda>x. safe (case x of (p, data, rdata) \<Rightarrow>
      Done (p - start, \<lparr>rr_name = name, rr_type = type, rr_class = cls, rr_ttl = ttl, rr_rdlength = rdlength,
        rr_data = data, rr_rdata = rdata\<rparr>)) (\<lambda>(n, rr). start + n \<le> length pkt \<and> rr_data_ok rr))"
    if "p + unat rdlength \<le> length pkt" "start \<le> p" for p type rdlength name cls ttl
    by (rule safe_mono [OF parse_rdata_safe [OF that(1)]]) (use that(2) in \<open>auto simp: rr_data_ok_def split: option.splits\<close>)
  show ?thesis
    unfolding parse_rr_def safe_bind
    by (rule parse_name_safe_mono) (auto simp: Let_def intro!: r [simplified])
qed

lemma parse_section_safe:
  assumes "\<And>start. safe (parse start) (\<lambda>(n, x). start + n \<le> m \<and> Q x)" "start \<le> m"
  shows "safe (parse_section parse k start) (\<lambda>(s, xs). s \<le> m \<and> length xs = k \<and> list_all Q xs)"
  using assms(2)
proof (induction k arbitrary: start)
  case (Suc k)
  have "safe (parse_section parse k (start + n)) (\<lambda>x. safe (case x of (s, xs) \<Rightarrow> Done (s, y # xs))
      (\<lambda>(s, xs). s \<le> m \<and> length xs = Suc k \<and> list_all Q xs))"
    if "start + n \<le> m" "Q y" for n y
    by (rule safe_mono [OF Suc.IH [OF that(1)]]) (use that(2) in auto)
  then show ?case unfolding parse_section.simps safe_bind
    by (intro safe_mono [OF assms(1)]) auto
qed simp

text \<open>What the parser promises of a packet it accepts.\<close>

definition dns_packet_ok :: "pj_dns_parsed_packet \<Rightarrow> bool" where
  "dns_packet_ok p \<longleftrightarrow>
     length (dp_q p) = unat (dh_qdcount (dp_hdr p)) \<and> length (dp_ans p) = unat (dh_anscount (dp_hdr p)) \<and>
     length (dp_ns p) = unat (dh_nscount (dp_hdr p)) \<and> length (dp_arr p) = unat (dh_arcount (dp_hdr p)) \<and>
     length (dp_q p) \<le> 256 \<and> length (dp_ans p) \<le> 256 \<and> length (dp_ns p) \<le> 256 \<and> length (dp_arr p) \<le> 256 \<and>
     list_all rr_data_ok (dp_ans p @ dp_ns p @ dp_arr p)"

lemma parse_section_mono:
  assumes "\<And>start. safe (parse start) (\<lambda>(n, x). start + n \<le> m \<and> Q x)" "start \<le> m"
    and "\<And>s xs. s \<le> m \<Longrightarrow> length xs = k \<Longrightarrow> list_all Q xs \<Longrightarrow> P (s, xs)"
  shows "safe (parse_section parse k start) P"
  by (rule safe_mono [OF parse_section_safe [OF assms(1,2)]]) (use assms(3) in auto)

lemma section_count: "\<not> PJ_DNS_MAX_SECTION_COUNT < c \<Longrightarrow> unat c \<le> 256"
  by (simp add: PJ_DNS_MAX_SECTION_COUNT_def not_less word_le_nat_alt)

lemma parse_packet_safe: "safe (pj_dns_parse_packet pkt) dns_packet_ok"
proof -
  have "safe (parse_section (parse_query pkt) (unat a) 12) (\<lambda>(start, q).
      safe (parse_section (parse_rr pkt) (unat b) start) (\<lambda>(start, ans).
        safe (parse_section (parse_rr pkt) (unat c) start) (\<lambda>(start, ns).
          safe (parse_section (parse_rr pkt) (unat d) start) (\<lambda>(start, arr).
            dns_packet_ok \<lparr>dp_hdr = \<lparr>dh_id = i, dh_flags = f, dh_qdcount = a, dh_anscount = b, dh_nscount = c, dh_arcount = d\<rparr>,
              dp_q = q, dp_ans = ans, dp_ns = ns, dp_arr = arr\<rparr>))))"
    if "12 \<le> length pkt" "unat a \<le> 256" "unat b \<le> 256" "unat c \<le> 256" "unat d \<le> 256" for a b c d i f
    by (rule parse_section_mono [OF parse_query_safe that(1)], simp,
        rule parse_section_mono [OF parse_rr_safe], simp, simp,
        rule parse_section_mono [OF parse_rr_safe], simp, simp,
        rule parse_section_mono [OF parse_rr_safe], simp) (use that in \<open>simp add: dns_packet_ok_def\<close>)
  then show ?thesis by (auto simp: pj_dns_parse_packet_def parse_dns_hdr_def section_count)
qed

section \<open>Queries\<close>

text \<open>A name as the list of its labels.\<close>

fun dotted :: "u8 list list \<Rightarrow> u8 list" where
  "dotted [] = []"
| "dotted [l] = l"
| "dotted (l # ls) = l @ 46 # dotted ls"

definition label_ok :: "u8 list \<Rightarrow> bool" where
  "label_ok l \<longleftrightarrow> l \<noteq> [] \<and> 46 \<notin> set l \<and> length l < 192"

definition encoded :: "u8 list list \<Rightarrow> u8 list" where
  "encoded ls = concat (map (\<lambda>l. of_nat (length l) # l) ls)"

lemma dotted_Cons: "dotted (l # ls) = l @ (if ls = [] then [] else 46 # dotted ls)"
  by (cases ls) simp_all

lemma encoded_simps [simp]: "encoded [] = []" "encoded (l # ls) = of_nat (length l) # l @ encoded ls"
  by (simp_all add: encoded_def)

lemma query_labels_length: "length (query_labels name) \<le> length name + 1"
proof (induction name rule: query_labels.induct)
  case (1 name)
  let ?l = "takeWhile (\<lambda>c. c \<noteq> 46) name" and ?r = "dropWhile (\<lambda>c. c \<noteq> 46) name"
  have s: "length ?l + length ?r = length name" by (metis length_append takeWhile_dropWhile_id)
  show ?case
  proof (cases "name = [] \<or> ?r = []")
    case True
    then show ?thesis using s by (subst query_labels.simps) (auto simp: Let_def query_labels.simps [of "[]"])
  next
    case False
    then have "length (query_labels (tl ?r)) \<le> length (tl ?r) + 1" using 1 [OF _ refl refl] by simp
    moreover have "length (tl ?r) + 1 = length ?r" using False by simp
    moreover have "query_labels name = of_nat (length ?l) # ?l @ query_labels (tl ?r)"
      using False by (subst query_labels.simps) (simp add: Let_def)
    ultimately show ?thesis using s by simp
  qed
qed

lemma query_labels_dotted: "list_all label_ok ls \<Longrightarrow> query_labels (dotted ls) = encoded ls"
proof (induction ls)
  case Nil
  then show ?case by (simp add: query_labels.simps)
next
  case (Cons l ls)
  then have l: "l \<noteq> []" "\<And>c. c \<in> set l \<Longrightarrow> c \<noteq> 46" by (auto simp: label_ok_def)
  have t: "takeWhile (\<lambda>c. c \<noteq> 46) (dotted (l # ls)) = l"
    "dropWhile (\<lambda>c. c \<noteq> 46) (dotted (l # ls)) = (if ls = [] then [] else 46 # dotted ls)"
    using l(2) by (auto simp: dotted_Cons takeWhile_append dropWhile_append takeWhile_eq_all_conv)
  have "dotted (l # ls) \<noteq> []" using l(1) by (simp add: dotted_Cons)
  then have "query_labels (dotted (l # ls)) = of_nat (length l) # l @ query_labels (dotted ls)"
    by (subst query_labels.simps) (simp add: t Let_def)
  then show ?case using Cons by simp
qed

lemma make_query_no_fault: "pj_dns_make_query sz qid qtype name \<noteq> Fault"
  using query_labels_length [of name] by (auto simp: pj_dns_make_query_def Let_def)

lemma label_byte:
  assumes "label_ok l"
  shows "unat (of_nat (length l) :: u8) = length l" "(of_nat (length l) :: u8) \<noteq> 0" "(of_nat (length l) :: u8) AND 0xc0 \<noteq> 0xc0"
proof -
  show u: "unat (of_nat (length l) :: u8) = length l"
    using assms by (simp add: label_ok_def unat_of_nat take_bit_eq_mod)
  show "(of_nat (length l) :: u8) \<noteq> 0" using u assms by (metis label_ok_def length_0_conv unat_0)
  have "(192 :: u8) \<le> c" if "c AND 0xc0 = 0xc0" for c :: u8 using word_and_le2 [of c 192] that by simp
  then have "(of_nat (length l) :: u8) AND 0xc0 = 0xc0 \<Longrightarrow> unat (192 :: u8) \<le> unat (of_nat (length l) :: u8)"
    by (simp only: word_le_nat_alt)
  then show "(of_nat (length l) :: u8) AND 0xc0 \<noteq> 0xc0" using u assms unfolding label_ok_def by fastforce
qed

lemma encoded_head: "list_all label_ok ls \<Longrightarrow> (encoded ls @ 0 # zs) ! 0 = 0 \<longleftrightarrow> ls = []"
  by (cases ls) (auto simp: label_byte)

text \<open>Both passes over an encoded name.\<close>

lemma encoded_name:
  assumes "list_all label_ok ls" "pkt = pre @ encoded ls @ 0 # zs" "length name + length (dotted ls) \<le> cap"
  shows "name_len_loop nl pkt (length pre) l n = Done (l + length (encoded ls) + 1, n + length (dotted ls))"
    and "name_loop cap nn pkt (length pre) name = Done (name @ dotted ls)"
proof -
  have "name_len_loop nl pkt (length pre) l n = Done (l + length (encoded ls) + 1, n + length (dotted ls)) \<and>
      name_loop cap nn pkt (length pre) name = Done (name @ dotted ls)"
    using assms
  proof (induction ls arbitrary: pre l n name)
    case Nil
    then have "at_end pkt (length pre)" by (simp add: at_end_def)
    then show ?case by (simp add: name_len_loop_end name_loop_end)
  next
    case (Cons x ls)
    let ?p = "length pre" and ?pre = "pre @ of_nat (length x) # x"
    have x: "label_ok x" "list_all label_ok ls" using Cons.prems(1) by simp_all
    have p: "pkt ! ?p = of_nat (length x)" "?p < length pkt" using Cons.prems(2) by simp_all
    have c: "\<not> at_end pkt ?p" "\<not> at_ptr pkt ?p" using p label_byte [OF x(1)] by (simp_all add: at_end_def at_ptr_def)
    have q: "after_label pkt ?p = length ?pre" using p label_byte(1) [OF x(1)] by (simp add: after_label_def)
    have rest: "pkt = ?pre @ encoded ls @ 0 # zs" using Cons.prems(2) by simp
    have h: "pkt ! length ?pre = 0 \<longleftrightarrow> ls = []" using encoded_head [OF x(2)] unfolding rest by (simp add: nth_append)
    have w: "label_width pkt ?p + length (dotted ls) = length (dotted (x # ls))"
      using h label_byte(1) [OF x(1)] p(1) unfolding label_width_def q by (simp add: dotted_Cons)
    have t: "take (unat (pkt ! ?p)) (drop (?p + 1) pkt) = x"
      using p(1) label_byte(1) [OF x(1)] Cons.prems(2) by simp
    have ok: "after_label pkt ?p < length pkt" "length name + label_width pkt ?p \<le> cap"
      using rest q w Cons.prems(3) by (simp_all add: rest)
    let ?name = "name @ x @ (if ls = [] then [] else [46])"
    have "length ?name + length (dotted ls) \<le> cap" using Cons.prems(3) by (simp add: dotted_Cons split: if_splits)
    note ih = Cons.IH [OF x(2) rest this]
    show ?case
      using name_len_loop_label [OF c, of nl l n] name_loop_label [OF c ok, of nn] ok(1) ih h w t label_byte(1) [OF x(1)] p(1)
      unfolding q by (cases "ls = []") (simp_all add: dotted_Cons)
  qed
  then show "name_len_loop nl pkt (length pre) l n = Done (l + length (encoded ls) + 1, n + length (dotted ls))"
    "name_loop cap nn pkt (length pre) name = Done (name @ dotted ls)" by blast+
qed

lemma parse_hdr_bytes:
  "parse_dns_hdr (put16 a @ put16 b @ put16 c @ put16 d @ put16 e @ put16 f @ rest) = Done
    \<lparr>dh_id = a, dh_flags = b, dh_qdcount = c, dh_anscount = d, dh_nscount = e, dh_arcount = f\<rparr>"
  by (simp add: parse_dns_hdr_def rd16_def put16_def)

lemma six_zeros: "replicate 6 0 = put16 0 @ put16 0 @ put16 0"
  by (simp add: put16_def numeral_eq_Suc)

lemma parse_encoded_name:
  assumes "list_all label_ok ls" "pkt = pre @ encoded ls @ 0 # zs"
  shows "parse_name extra pkt (length pre) = Done (length (encoded ls) + 1, dotted ls)"
  using encoded_name [OF assms, of "[]" "length (dotted ls) + extra"] assms(2)
  by (simp add: parse_name_def)

section \<open>Copies\<close>

text \<open>What a comparison without case sees of a name: lower case, up to a zero byte.\<close>

fun fold_name :: "u8 list \<Rightarrow> u8 list" where
  "fold_name [] = []"
| "fold_name (c # cs) = (if c = 0 then replicate (Suc (length cs)) 0 else pj_tolower c # fold_name cs)"

lemma strnicmp_fold: "strnicmp_eq a b n \<Longrightarrow> length a = n \<Longrightarrow> length b = n \<Longrightarrow> fold_name a = fold_name b"
proof (induction a b n rule: strnicmp_eq.induct)
  case (2 a as b bs n)
  then have "pj_tolower a = pj_tolower b" by simp
  then have "a = 0 \<longleftrightarrow> b = 0" by (metis tolower_zero)
  then show ?case using 2 by auto
qed simp_all

lemma stricmp_fold: "stricmp_eq a b \<Longrightarrow> fold_name a = fold_name b"
  unfolding stricmp_eq_def by (metis strnicmp_fold)

text \<open>A packet with its names seen so.\<close>

definition fold_query :: "pj_dns_parsed_query \<Rightarrow> pj_dns_parsed_query" where
  "fold_query q = q\<lparr>dq_name := fold_name (dq_name q)\<rparr>"

definition fold_rdata :: "dns_rdata \<Rightarrow> dns_rdata" where
  "fold_rdata d = (case d of Rd_srv a b c target \<Rightarrow> Rd_srv a b c (fold_name target) | _ \<Rightarrow> d)"

definition fold_rr :: "pj_dns_parsed_rr \<Rightarrow> pj_dns_parsed_rr" where
  "fold_rr r = r\<lparr>rr_name := fold_name (rr_name r), rr_rdata := fold_rdata (rr_rdata r)\<rparr>"

definition fold_packet :: "pj_dns_parsed_packet \<Rightarrow> pj_dns_parsed_packet" where
  "fold_packet p = p\<lparr>dp_q := map fold_query (dp_q p), dp_ans := map fold_rr (dp_ans p),
     dp_ns := map fold_rr (dp_ns p), dp_arr := map fold_rr (dp_arr p)\<rparr>"

lemma name_table_name: "fold_name (snd (apply_name_table table src)) = fold_name src"
  by (auto simp: apply_name_table_def find_Some_iff split: option.splits intro: stricmp_fold)

lemma copy_query_fold: "fold_query (snd (copy_query table q)) = fold_query q"
  using name_table_name [of table "dq_name q"]
  by (auto simp: copy_query_def fold_query_def split: prod.splits)

lemma copy_rr_fold:
  assumes "rr_data_ok r"
  shows "fold_rr (snd (copy_rr table r)) = fold_rr r"
proof -
  obtain t n where t: "apply_name_table table (rr_name r) = (t, n)" by fastforce
  have n: "fold_name n = fold_name (rr_name r)" using name_table_name [of table "rr_name r"] t by simp
  have d: "map_option (take (unat (rr_rdlength r))) (rr_data r) = rr_data r"
    using assms by (auto simp: rr_data_ok_def split: option.splits)
  show ?thesis
  proof (cases "rr_type r = PJ_DNS_TYPE_SRV \<and> (\<exists>a b c x. rr_rdata r = Rd_srv a b c x)")
    case True
    then obtain a b c x where x: "rr_rdata r = Rd_srv a b c x" by blast
    obtain t' y where y: "apply_name_table t x = (t', y)" by fastforce
    have "fold_name y = fold_name x" using name_table_name [of t x] y by simp
    then show ?thesis using True n d x y t by (simp add: copy_rr_def fold_rr_def fold_rdata_def Let_def)
  next
    case False
    then have "copy_rr table r = (t, r\<lparr>rr_name := n, rr_data := rr_data r\<rparr>)"
      using t d by (auto simp: copy_rr_def Let_def split: dns_rdata.splits)
    then show ?thesis using n by (simp add: fold_rr_def)
  qed
qed

lemma copy_section_fold:
  assumes "\<And>t x. x \<in> set xs \<Longrightarrow> f (snd (copy t x)) = f x"
  shows "map f (snd (copy_section copy table xs)) = map f xs"
  using assms
proof (induction xs arbitrary: table)
  case (Cons x xs)
  obtain t y where y: "copy table x = (t, y)" by fastforce
  obtain t' ys where ys: "copy_section copy t xs = (t', ys)" by fastforce
  have "f y = f x" using Cons.prems [of x table] y by simp
  moreover have "map f ys = map f xs" using Cons.IH [of t] Cons.prems ys by simp
  ultimately show ?case using y ys by simp
qed simp

lemma dup_section_fold:
  fixes n :: u16
  assumes "\<And>t x. x \<in> set xs \<Longrightarrow> f (snd (copy t x)) = f x" "length xs = unat n" "dup_section copy True n table xs = (t', m, ys)"
  shows "m = n" "map f ys = map f xs"
proof -
  have "map f ys = map f xs" "n \<noteq> 0 \<longrightarrow> m = of_nat (length ys)" "n = 0 \<longrightarrow> m = 0"
    using assms(2,3) copy_section_fold [where f = f and copy = copy and xs = xs and table = table, OF assms(1)]
    by (auto simp: dup_section_def unat_eq_zero split: prod.splits if_splits)
  moreover have "length ys = length xs" using calculation(1) by (metis length_map)
  ultimately show "m = n" "map f ys = map f xs" using assms(2) by auto
qed

lemma packet_dup_fold:
  assumes "dns_packet_ok p"
  shows "fold_packet (pj_dns_packet_dup True True True True p) = fold_packet p"
proof -
  let ?h = "dp_hdr p"
  obtain t1 nq q where q: "dup_section copy_query True (dh_qdcount ?h) [] (dp_q p) = (t1, nq, q)" by (metis prod_cases3)
  obtain t2 na an where an: "dup_section copy_rr True (dh_anscount ?h) t1 (dp_ans p) = (t2, na, an)" by (metis prod_cases3)
  obtain t3 nn ns where ns: "dup_section copy_rr True (dh_nscount ?h) t2 (dp_ns p) = (t3, nn, ns)" by (metis prod_cases3)
  obtain t4 nr ar where ar: "dup_section copy_rr True (dh_arcount ?h) t3 (dp_arr p) = (t4, nr, ar)" by (metis prod_cases3)
  have ok: "list_all rr_data_ok (dp_ans p)" "list_all rr_data_ok (dp_ns p)" "list_all rr_data_ok (dp_arr p)"
    using assms by (simp_all add: dns_packet_ok_def)
  note len = assms [unfolded dns_packet_ok_def]
  have "nq = dh_qdcount ?h" "map fold_query q = map fold_query (dp_q p)"
    using dup_section_fold [where f = fold_query, OF _ _ q] len by (simp_all add: copy_query_fold)
  moreover have "na = dh_anscount ?h" "map fold_rr an = map fold_rr (dp_ans p)"
    using dup_section_fold [where f = fold_rr, OF _ _ an] len ok(1) by (simp_all add: copy_rr_fold list_all_iff)
  moreover have "nn = dh_nscount ?h" "map fold_rr ns = map fold_rr (dp_ns p)"
    using dup_section_fold [where f = fold_rr, OF _ _ ns] len ok(2) by (simp_all add: copy_rr_fold list_all_iff)
  moreover have "nr = dh_arcount ?h" "map fold_rr ar = map fold_rr (dp_arr p)"
    using dup_section_fold [where f = fold_rr, OF _ _ ar] len ok(3) by (simp_all add: copy_rr_fold list_all_iff)
  ultimately show ?thesis by (simp add: pj_dns_packet_dup_def q an ns ar fold_packet_def Let_def)
qed

section \<open>Properties\<close>

text \<open>C23: The DNS parser is safe on every packet, however malformed: it reads no byte outside the packet,
  writes no byte beyond the memory allocated for a name (the second pass over a compressed name writes
  exactly as many bytes as the first one counted), follows at most five compression pointers in a row and
  so ends on pointer loops, and every packet it accepts has as many records as its header says, at most 256
  in each section.  Building a query writes no byte beyond the size that it checks.\<close>

theorem dns_memory_safe:
  "safe (pj_dns_parse_packet pkt) dns_packet_ok \<and> pj_dns_make_query sz qid qtype name \<noteq> Fault"
  using parse_packet_safe make_query_no_fault by blast

lemma query_round_trip:
  assumes "list_all label_ok ls" "qtype \<noteq> 0" "12 + (length (dotted ls) + 2) + 4 \<le> sz"
  shows "\<exists>pkt. pj_dns_make_query sz qid qtype (dotted ls) = Done pkt \<and>
    pj_dns_parse_packet pkt = Done
      \<lparr>dp_hdr = \<lparr>dh_id = qid, dh_flags = 0x100, dh_qdcount = 1, dh_anscount = 0, dh_nscount = 0, dh_arcount = 0\<rparr>,
       dp_q = [\<lparr>dq_name = dotted ls, dq_type = word_of_int qtype, dq_class = 1\<rparr>], dp_ans = [], dp_ns = [], dp_arr = []\<rparr>"
proof -
  let ?hdr = "put16 qid @ put16 0x100 @ put16 1 @ replicate 6 0"
  let ?tail = "put16 (word_of_int qtype) @ put16 1"
  let ?pkt = "?hdr @ encoded ls @ 0 # ?tail"
  have h: "length ?hdr = 12" by simp
  have m: "pj_dns_make_query sz qid qtype (dotted ls) = Done ?pkt"
    using assms query_labels_dotted [OF assms(1)] query_labels_length [of "dotted ls"]
    by (simp add: pj_dns_make_query_def Let_def)
  have n: "parse_name 4 ?pkt 12 = Done (length (encoded ls) + 1, dotted ls)"
    using parse_encoded_name [OF assms(1) refl, of 4 ?hdr ?tail] by simp
  have q: "parse_query ?pkt 12 = Done (length (encoded ls) + 5, \<lparr>dq_name = dotted ls, dq_type = word_of_int qtype, dq_class = 1\<rparr>)"
    unfolding parse_query_def n
    using rd_at(1) [of "?hdr @ encoded ls @ [0]" "12 + (length (encoded ls) + 1)" "word_of_int qtype" "put16 1"]
      rd_at(1) [of "?hdr @ encoded ls @ [0] @ put16 (word_of_int qtype)" "12 + (length (encoded ls) + 1) + 2" 1 "[]"]
    by (simp add: Let_def)
  have "parse_dns_hdr ?pkt = Done \<lparr>dh_id = qid, dh_flags = 0x100, dh_qdcount = 1, dh_anscount = 0, dh_nscount = 0, dh_arcount = 0\<rparr>"
    using parse_hdr_bytes [where a = qid and b = "0x100" and c = 1 and d = 0 and e = 0 and f = 0] by (simp add: six_zeros)
  then have "pj_dns_parse_packet ?pkt = Done
      \<lparr>dp_hdr = \<lparr>dh_id = qid, dh_flags = 0x100, dh_qdcount = 1, dh_anscount = 0, dh_nscount = 0, dh_arcount = 0\<rparr>,
       dp_q = [\<lparr>dq_name = dotted ls, dq_type = word_of_int qtype, dq_class = 1\<rparr>], dp_ans = [], dp_ns = [], dp_arr = []\<rparr>"
    using q by (simp add: pj_dns_parse_packet_def PJ_DNS_MAX_SECTION_COUNT_def)
  then show ?thesis using m by blast
qed

text \<open>C39: A query for a name whose labels are not empty and shorter than 192 bytes is parsed back to the
  same name, type and class, with recursion desired, one question and no records.\<close>

theorem dns_query_round_trip:
  assumes "list_all label_ok ls" "qtype \<noteq> 0" "12 + (length (dotted ls) + 2) + 4 \<le> sz"
  shows "\<exists>pkt. pj_dns_make_query sz qid qtype (dotted ls) = Done pkt \<and>
    pj_dns_parse_packet pkt = Done
      \<lparr>dp_hdr = \<lparr>dh_id = qid, dh_flags = 0x100, dh_qdcount = 1, dh_anscount = 0, dh_nscount = 0, dh_arcount = 0\<rparr>,
       dp_q = [\<lparr>dq_name = dotted ls, dq_type = word_of_int qtype, dq_class = 1\<rparr>], dp_ans = [], dp_ns = [], dp_arr = []\<rparr>"
  using assms by (rule query_round_trip)

theorem dns_query_round_trip_witness:
  "\<exists>pkt. pj_dns_make_query 512 7 33 [95, 115, 46, 97] = Done pkt \<and>
    pj_dns_parse_packet pkt = Done
      \<lparr>dp_hdr = \<lparr>dh_id = 7, dh_flags = 0x100, dh_qdcount = 1, dh_anscount = 0, dh_nscount = 0, dh_arcount = 0\<rparr>,
       dp_q = [\<lparr>dq_name = [95, 115, 46, 97], dq_type = 33, dq_class = 1\<rparr>], dp_ans = [], dp_ns = [], dp_arr = []\<rparr>"
  using dns_query_round_trip [of "[[95, 115], [97]]" 33 512 7] by (simp add: label_ok_def)

text \<open>The copy of a parsed packet, with all sections, equals the packet but for the case of letters in
  names and for what follows a zero byte in one: names that the comparison finds equal share one entry of the name
  table, and so the spelling of the first.\<close>

theorem dns_packet_dup_same:
  assumes "pj_dns_parse_packet pkt = Done p"
  shows "fold_packet (pj_dns_packet_dup True True True True p) = fold_packet p"
  by (rule packet_dup_fold) (rule safe_Done [OF parse_packet_safe assms])

theorem dns_packet_dup_same_witness:
  "\<exists>pkt p. pj_dns_parse_packet pkt = Done p \<and> fold_packet (pj_dns_packet_dup True True True True p) = fold_packet p"
proof -
  obtain pkt p where "pj_dns_parse_packet pkt = Done p" using query_round_trip [of "[[95, 115], [97]]" 33 512 7] by (auto simp: label_ok_def)
  then show ?thesis using dns_packet_dup_same by blast
qed

end
