(* ===== verification/Stun_Msg_Decode.thy ===== *)
theory Stun_Msg_Decode
  imports Stun_Msg
begin

text \<open>
  Safety of the STUN decoder: the search for a reason phrase, the attributes as values of the type that
  their descriptor expects, and the absence of memory faults in \<^verbatim>\<open>pj_stun_msg_decode\<close>.
\<close>

lemmas stun_consts = ATTR_HDR_LEN_def PJ_STUN_MAX_ATTR_def STUN_GENERIC_IPV4_ADDR_LEN_def STUN_GENERIC_IPV6_ADDR_LEN_def

declare add_2_eq_Suc [simp del] add_2_eq_Suc' [simp del]

section \<open>Reasons\<close>

lemma err_map_length: "length stun_err_msg_map = 18"
  by (simp add: stun_err_msg_map_def)

lemma err_map_sorted: "sorted_wrt (<) (map fst stun_err_msg_map)"
  by (simp add: stun_err_msg_map_def)

lemma err_map_mono: "i < j \<Longrightarrow> j < length stun_err_msg_map \<Longrightarrow> fst (stun_err_msg_map ! i) < fst (stun_err_msg_map ! j)"
  using err_map_sorted by (simp add: sorted_wrt_iff_nth_less)

text \<open>What the search keeps: the entries before \<open>first\<close> are too small and those from \<open>first + n\<close> on are
  not.\<close>

definition err_between :: "int \<Rightarrow> nat \<Rightarrow> nat \<Rightarrow> bool" where
  "err_between c lo hi \<longleftrightarrow> lo \<le> hi \<and> hi \<le> length stun_err_msg_map \<and> (\<forall>i<lo. fst (stun_err_msg_map ! i) < c) \<and>
     (\<forall>i. hi \<le> i \<longrightarrow> i < length stun_err_msg_map \<longrightarrow> c \<le> fst (stun_err_msg_map ! i))"

lemma err_search_found: "err_between c first (first + n) \<Longrightarrow> \<exists>r. err_search c first n = Done r \<and> err_between c r r"
proof (induction c first n rule: err_search.induct)
  case (1 c first n)
  let ?mid = "first + n div 2"
  show ?case
  proof (cases "n = 0")
    case True
    then show ?thesis using "1.prems" by (simp add: err_search.simps)
  next
    case False
    then have m: "?mid < length stun_err_msg_map" "?mid < first + n" using "1.prems" by (auto simp: err_between_def)
    consider (lt) "fst (stun_err_msg_map ! ?mid) < c" | (gt) "fst (stun_err_msg_map ! ?mid) > c" | (eq) "fst (stun_err_msg_map ! ?mid) = c"
      by linarith
    then show ?thesis
    proof cases
      case lt
      have "i \<le> ?mid \<Longrightarrow> fst (stun_err_msg_map ! i) < c" for i using err_map_mono [of i ?mid] m(1) lt by (cases "i = ?mid") auto
      then have "err_between c (?mid + 1) (?mid + 1 + (n - (n div 2 + 1)))" using "1.prems" m by (auto simp: err_between_def)
      then show ?thesis using "1.IH"(1) False m lt by (simp add: err_search.simps [of c first n] Let_def)
    next
      case gt
      have "?mid \<le> i \<Longrightarrow> i < length stun_err_msg_map \<Longrightarrow> c \<le> fst (stun_err_msg_map ! i)" for i
        using err_map_mono [of ?mid i] gt by (cases "i = ?mid") auto
      then have "err_between c first ?mid" using "1.prems" m by (auto simp: err_between_def)
      then show ?thesis using "1.IH"(2) False m gt by (simp add: err_search.simps [of c first n] Let_def)
    next
      case eq
      have "err_between c ?mid ?mid"
        using m(1) eq err_map_mono [of _ ?mid] err_map_mono [of ?mid] unfolding err_between_def
        by (metis le_less order_refl)
      then show ?thesis using False m eq by (simp add: err_search.simps [of c first n] Let_def)
    qed
  qed
qed

lemma err_map_last: "fst (stun_err_msg_map ! 17) = 600"
  by (simp add: stun_err_msg_map_def)

lemma err_reason_lookup:
  "pj_stun_get_err_reason c = (if c \<le> 600 then Done (map_of stun_err_msg_map c) else Fault)"
proof -
  obtain r where r: "err_search c 0 (length stun_err_msg_map) = Done r" "err_between c r r"
    using err_search_found [of c 0 "length stun_err_msg_map"] by (auto simp: err_between_def)
  have d: "distinct (map fst stun_err_msg_map)" by (simp add: stun_err_msg_map_def)
  have b: "r < length stun_err_msg_map \<longleftrightarrow> c \<le> 600"
  proof
    assume "r < length stun_err_msg_map"
    then have "r \<le> 17" by (simp add: err_map_length)
    then have "c \<le> fst (stun_err_msg_map ! 17)" using r(2) by (simp add: err_between_def err_map_length)
    then show "c \<le> 600" by (simp add: err_map_last)
  next
    assume "c \<le> 600"
    then have "\<not> fst (stun_err_msg_map ! 17) < c" by (simp add: err_map_last)
    then have "\<not> 17 < r" using r(2) by (auto simp: err_between_def)
    then show "r < length stun_err_msg_map" by (simp add: err_map_length)
  qed
  have "map_of stun_err_msg_map c = (if fst (stun_err_msg_map ! r) = c then Some (snd (stun_err_msg_map ! r)) else None)"
    if l: "r < length stun_err_msg_map"
  proof (cases "fst (stun_err_msg_map ! r) = c")
    case True
    then have "(c, snd (stun_err_msg_map ! r)) \<in> set stun_err_msg_map" using l nth_mem by fastforce
    then show ?thesis using True d by simp
  next
    case False
    have "fst (stun_err_msg_map ! i) \<noteq> c" if "i < length stun_err_msg_map" for i
      using r(2) False err_map_mono [of r i] that l by (cases i r rule: linorder_cases) (auto simp: err_between_def)
    then have "c \<notin> fst ` set stun_err_msg_map" by (force simp: in_set_conv_nth)
    then show ?thesis using False by (simp add: map_of_eq_None_iff)
  qed
  then show ?thesis using r(1) b by (simp add: pj_stun_get_err_reason_def)
qed

text \<open>The reason phrase of a code: the search agrees with a plain lookup up to 600, the last code of the table, and
  reads behind the table for every larger code.\<close>

theorem stun_err_reason_lookup:
  "pj_stun_get_err_reason c = (if c \<le> 600 then Done (map_of stun_err_msg_map c) else Fault)"
  by (rule err_reason_lookup)

section \<open>Attributes of the right type\<close>

fun sockaddr_ok :: "pj_sockaddr \<Rightarrow> bool" where
  "sockaddr_ok (Sa_inet _ addr) = (length addr = 4)"
| "sockaddr_ok (Sa_inet6 _ addr) = (length addr = 16)"
| "sockaddr_ok Sa_other = True"

definition fits :: "attr_codec \<Rightarrow> pj_stun_attr \<Rightarrow> bool" where
  "fits c a =
     (case c of
        C_sockaddr \<Rightarrow> (case a of Sockaddr_attr _ _ _ sa \<Rightarrow> sockaddr_ok sa | _ \<Rightarrow> False)
      | C_xored_sockaddr \<Rightarrow> (case a of Sockaddr_attr _ _ _ sa \<Rightarrow> sockaddr_ok sa | _ \<Rightarrow> False)
      | C_string \<Rightarrow> (case a of String_attr _ _ _ \<Rightarrow> True | _ \<Rightarrow> False)
      | C_msgint \<Rightarrow> (case a of Msgint_attr _ _ hmac \<Rightarrow> length hmac = 20 | _ \<Rightarrow> False)
      | C_errcode \<Rightarrow> (case a of Errcode_attr _ _ _ _ \<Rightarrow> True | _ \<Rightarrow> False)
      | C_unknown \<Rightarrow> (case a of Unknown_attr _ _ attrs \<Rightarrow> length attrs \<le> PJ_STUN_MAX_ATTR | _ \<Rightarrow> False)
      | C_uint \<Rightarrow> (case a of Uint_attr _ _ _ \<Rightarrow> True | _ \<Rightarrow> False)
      | C_uint64 \<Rightarrow> (case a of Uint64_attr _ _ _ _ \<Rightarrow> True | _ \<Rightarrow> False)
      | C_binary \<Rightarrow> (case a of Binary_attr _ _ _ _ \<Rightarrow> True | _ \<Rightarrow> False)
      | C_empty \<Rightarrow> (case a of Empty_attr _ _ \<Rightarrow> True | _ \<Rightarrow> False))"

fun generic :: "pj_stun_attr \<Rightarrow> bool" where
  "generic (Binary_attr _ _ magic _) = (magic = PJ_STUN_MAGIC)"
| "generic _ = False"

definition attr_typed :: "pj_stun_attr \<Rightarrow> bool" where
  "attr_typed a = (case find_attr_desc (ah_type a) of Some (_, c) \<Rightarrow> fits c a | None \<Rightarrow> generic a)"

definition msg_typed :: "pj_stun_msg \<Rightarrow> bool" where
  "msg_typed msg \<longleftrightarrow> length (mh_tsx_id (sm_hdr msg)) = 12 \<and> length (sm_attr msg) \<le> PJ_STUN_MAX_ATTR \<and> list_all attr_typed (sm_attr msg)"

lemma fits_cases:
  "fits C_sockaddr a \<longleftrightarrow> (\<exists>ty len x sa. a = Sockaddr_attr ty len x sa \<and> sockaddr_ok sa)"
  "fits C_xored_sockaddr a \<longleftrightarrow> (\<exists>ty len x sa. a = Sockaddr_attr ty len x sa \<and> sockaddr_ok sa)"
  "fits C_string a \<longleftrightarrow> (\<exists>ty len v. a = String_attr ty len v)"
  "fits C_msgint a \<longleftrightarrow> (\<exists>ty len h. a = Msgint_attr ty len h \<and> length h = 20)"
  "fits C_errcode a \<longleftrightarrow> (\<exists>ty len c r. a = Errcode_attr ty len c r)"
  "fits C_unknown a \<longleftrightarrow> (\<exists>ty len us. a = Unknown_attr ty len us \<and> length us \<le> PJ_STUN_MAX_ATTR)"
  "fits C_uint a \<longleftrightarrow> (\<exists>ty len v. a = Uint_attr ty len v)"
  "fits C_uint64 a \<longleftrightarrow> (\<exists>ty len hi lo. a = Uint64_attr ty len hi lo)"
  "fits C_binary a \<longleftrightarrow> (\<exists>ty len m d. a = Binary_attr ty len m d)"
  "fits C_empty a \<longleftrightarrow> (\<exists>ty len. a = Empty_attr ty len)"
  by (cases a; simp add: fits_def)+

lemma generic_cases: "generic a \<longleftrightarrow> (\<exists>ty len d. a = Binary_attr ty len PJ_STUN_MAGIC d)"
  by (cases a) auto

lemma clone_typed: "attr_typed a \<Longrightarrow> pj_stun_attr_clone a = Done (Some a)"
  unfolding attr_typed_def pj_stun_attr_clone_def
  by (cases "find_attr_desc (ah_type a)"; cases "snd (the (find_attr_desc (ah_type a)))")
    (auto simp: fits_cases generic_cases clone_attr_def clone_sockaddr_attr_def clone_string_attr_def clone_msgint_attr_def clone_errcode_attr_def
      clone_unknown_attr_def clone_uint_attr_def clone_uint64_attr_def clone_binary_attr_def clone_empty_attr_def)

lemma clone_msg_typed: "msg_typed msg \<Longrightarrow> pj_stun_msg_clone msg = Done msg"
proof -
  have "list_all attr_typed as \<Longrightarrow> clone_attrs as = Done as" for as by (induction as) (simp_all add: clone_typed)
  then show "msg_typed msg \<Longrightarrow> pj_stun_msg_clone msg = Done msg" by (simp add: msg_typed_def pj_stun_msg_clone_def)
qed

section \<open>The decoders of attributes\<close>

lemma rd_u16s_safe: "buf + 2 * n \<le> length pdu \<Longrightarrow> safe (rd_u16s pdu buf n) (\<lambda>vs. length vs = n)"
proof (induction n arbitrary: buf)
  case (Suc n)
  then have "safe (rd_u16s pdu (buf + 2) n) (\<lambda>vs. length vs = n)" by simp
  then show ?case using Suc.prems by (auto elim: safe_mono)
qed simp

lemma xor_bytes_length: "length xs \<le> length ys \<Longrightarrow> length (xor_bytes xs ys) = length xs"
  by (simp add: xor_bytes_def)

lemma decode_sockaddr_safe:
  assumes "rd16 pdu buf = Done ty" "rd16 pdu (buf + 2) = Done len" "buf + 4 + unat len \<le> length pdu"
  shows "safe (decode_sockaddr_attr pdu buf) (\<lambda>a. fits C_sockaddr a \<and> ah_type a = ty)"
proof (cases "len = 8 \<or> len = 20")
  case True
  then have "len = 8 \<and> buf + 12 \<le> length pdu \<or> len = 20 \<and> buf + 24 \<le> length pdu" using assms(3) by auto
  then show ?thesis by (auto simp: decode_sockaddr_attr_def assms(1,2) stun_consts fits_def)
qed (simp add: decode_sockaddr_attr_def assms(1,2) stun_consts)

lemma decode_xored_safe:
  assumes "rd16 pdu buf = Done ty" "rd16 pdu (buf + 2) = Done len" "buf + 4 + unat len \<le> length pdu" "length (mh_tsx_id hdr) = 12"
  shows "safe (decode_xored_sockaddr_attr pdu buf hdr) (\<lambda>a. fits C_xored_sockaddr a \<and> ah_type a = ty)"
  using assms(4) decode_sockaddr_safe [OF assms(1-3)] unfolding decode_xored_sockaddr_attr_def safe_bind
  by (auto simp: fits_cases xor_bytes_length xor_key_def elim!: safe_mono split: pj_sockaddr.split)

lemma decode_plain_safe:
  assumes "rd16 pdu buf = Done ty" "rd16 pdu (buf + 2) = Done len" "buf + 4 + unat len \<le> length pdu"
  shows "safe (decode_string_attr pdu buf) (\<lambda>a. fits C_string a \<and> ah_type a = ty)"
    "safe (decode_msgint_attr pdu buf) (\<lambda>a. fits C_msgint a \<and> ah_type a = ty)"
    "safe (decode_errcode_attr pdu buf) (\<lambda>a. fits C_errcode a \<and> ah_type a = ty)"
    "safe (decode_unknown_attr pdu buf) (\<lambda>a. fits C_unknown a \<and> ah_type a = ty)"
    "safe (decode_uint_attr pdu buf) (\<lambda>a. fits C_uint a \<and> ah_type a = ty)"
    "safe (decode_uint64_attr pdu buf) (\<lambda>a. fits C_uint64 a \<and> ah_type a = ty)"
    "safe (decode_binary_attr pdu buf) (\<lambda>a. fits C_binary a \<and> ah_type a = ty)"
    "safe (decode_empty_attr pdu buf) (\<lambda>a. fits C_empty a \<and> ah_type a = ty)"
proof -
  show "safe (decode_string_attr pdu buf) (\<lambda>a. fits C_string a \<and> ah_type a = ty)"
    "safe (decode_binary_attr pdu buf) (\<lambda>a. fits C_binary a \<and> ah_type a = ty)"
    "safe (decode_empty_attr pdu buf) (\<lambda>a. fits C_empty a \<and> ah_type a = ty)"
    using assms(3)
    by (simp_all add: decode_string_attr_def decode_binary_attr_def decode_empty_attr_def assms(1,2) stun_consts fits_def)
  have n: "buf + 4 + 20 \<le> length pdu" if "len = 20" using assms(3) that by simp
  show "safe (decode_msgint_attr pdu buf) (\<lambda>a. fits C_msgint a \<and> ah_type a = ty)"
    using n by (auto simp: decode_msgint_attr_def assms(1,2) fits_def)
  have n: "buf + 4 + 4 \<le> length pdu" if "len = 4" using assms(3) that by simp
  show "safe (decode_uint_attr pdu buf) (\<lambda>a. fits C_uint a \<and> ah_type a = ty)"
    using n by (auto simp: decode_uint_attr_def assms(1,2) fits_def)
  have n: "buf + 4 + 8 \<le> length pdu" if "len = 8" using assms(3) that by simp
  show "safe (decode_uint64_attr pdu buf) (\<lambda>a. fits C_uint64 a \<and> ah_type a = ty)"
    using n by (auto simp: decode_uint64_attr_def assms(1,2) fits_def)
  have n: "4 \<le> unat len" if "\<not> len < 4" using that by (simp add: not_less word_le_nat_alt)
  show "safe (decode_errcode_attr pdu buf) (\<lambda>a. fits C_errcode a \<and> ah_type a = ty)"
    using n assms(3) by (auto simp: decode_errcode_attr_def assms(1,2) stun_consts fits_def)
  have "safe (rd_u16s pdu (buf + 4) (unat len div 2)) (\<lambda>vs. length vs = unat len div 2)"
    using assms(3) by (intro rd_u16s_safe) simp
  then show "safe (decode_unknown_attr pdu buf) (\<lambda>a. fits C_unknown a \<and> ah_type a = ty)"
    by (auto simp: decode_unknown_attr_def assms(1,2) stun_consts fits_def Let_def elim!: safe_mono)
qed

lemma decode_attr_safe:
  assumes "rd16 pdu buf = Done ty" "rd16 pdu (buf + 2) = Done len" "buf + 4 + unat len \<le> length pdu" "length (mh_tsx_id hdr) = 12"
  shows "safe (decode_attr c pdu buf hdr) (\<lambda>a. fits c a \<and> ah_type a = ty)"
  using decode_sockaddr_safe [OF assms(1-3)] decode_xored_safe [OF assms] decode_plain_safe [OF assms(1-3)]
  by (cases c) (simp_all add: decode_attr_def)

section \<open>The decoder\<close>

lemma create_response_safe:
  assumes "e \<le> 600"
  shows "pj_stun_msg_create_response hdr e m \<noteq> Fault"
proof -
  have "safe (pj_stun_errcode_attr_create e m) (\<lambda>_. True)"
    using assms by (cases m) (simp_all add: pj_stun_errcode_attr_create_def err_reason_lookup)
  then have "safe (pj_stun_msg_create_response hdr e m) (\<lambda>_. True)"
    by (simp add: pj_stun_msg_create_response_def pj_stun_msg_create_def pj_stun_msg_init_def pj_stun_msg_add_errcode_attr_def
        pj_stun_msg_add_attr_def Let_def stun_consts)
  then show ?thesis by (rule safe_not_fault)
qed

lemma refuse_safe:
  "respond want hdr e m = r \<Longrightarrow> e \<le> 600 \<Longrightarrow> safe (fst (refuse st r)) P"
  using create_response_safe [of e hdr m]
  by (auto simp: respond_def refuse_def split: option.splits parse.splits if_splits)

lemma stun_codes: "PJ_STUN_SC_BAD_REQUEST \<le> 600" "PJ_STUN_SC_SERVER_ERROR \<le> 600" "PJ_STUN_SC_UNKNOWN_ATTRIBUTE \<le> 600"
  by (simp_all add: PJ_STUN_SC_BAD_REQUEST_def PJ_STUN_SC_SERVER_ERROR_def PJ_STUN_SC_UNKNOWN_ATTRIBUTE_def)

lemma unrecognized_safe:
  assumes "rd16 pdu (buf + 2) = Done len" "buf + 4 + unat len \<le> length pdu" "find_attr_desc ty = None"
  shows "safe (fst (decode_unrecognized pdu hdr want buf ty n)) (\<lambda>a. attr_typed a \<and> n < PJ_STUN_MAX_ATTR)"
proof -
  have u: "pj_stun_msg_add_unknown_attr m [ty] \<noteq> Fault" for m
    by (simp add: pj_stun_msg_add_unknown_attr_def pj_stun_unknown_attr_create_def pj_stun_msg_add_attr_def stun_consts)
  have "pj_stun_msg_create_response hdr PJ_STUN_SC_UNKNOWN_ATTRIBUTE None \<noteq> Fault" by (rule create_response_safe) (rule stun_codes)
  then have "safe (fst (refuse st (map_option (\<lambda>r. pbind r (\<lambda>response.
             case pj_stun_msg_add_unknown_attr response [ty] of
               Done response' \<Rightarrow> Done response' | Fail _ \<Rightarrow> Done response | Fault \<Rightarrow> Fault))
             (respond want hdr PJ_STUN_SC_UNKNOWN_ATTRIBUTE None)))) P" for st and P :: "pj_stun_attr \<Rightarrow> bool"
    using u by (auto simp: respond_def refuse_def safe_def split: option.splits parse.splits elim!: pbind.elims)
  moreover have "ty \<noteq> 0" if "\<not> ty \<le> 0x7FFF" using that by auto
  moreover have "rd_bytes pdu (buf + 4) (unat len) = Done (take (unat len) (drop (buf + 4) pdu))" using assms(2) by (simp add: rd_bytes_def)
  ultimately show ?thesis
    using refuse_safe [OF refl stun_codes(2)] assms(1,3)
    by (auto simp: decode_unrecognized_def pj_stun_binary_attr_init_def attr_typed_def)
qed

lemma align4_ge: "n \<le> align4 n"
  by (simp add: align4_def)

lemma decode_one_safe:
  assumes "buf + pdu_len \<le> length pdu" "4 \<le> pdu_len" "length (mh_tsx_id hdr) = 12"
  shows "safe (fst (decode_one se pdu hdr want buf pdu_len mi fp n)) (\<lambda>(a, l, _). attr_typed a \<and> n < PJ_STUN_MAX_ATTR \<and> l + 4 \<le> pdu_len)"
proof -
  obtain ty len where r: "rd16 pdu buf = Done ty" "rd16 pdu (buf + 2) = Done len" using assms(1,2) by (simp add: rd16_def)
  show ?thesis
  proof (cases "pdu_len < align4 (unat len) + ATTR_HDR_LEN")
    case True
    then show ?thesis using refuse_safe [OF refl stun_codes(1)] by (simp add: decode_one_def r)
  next
    case False
    then have l: "buf + 4 + unat len \<le> length pdu" "align4 (unat len) + 4 \<le> pdu_len"
      using assms(1) align4_ge [of "unat len"] by (simp_all add: stun_consts)
    show ?thesis
    proof (cases "find_attr_desc ty")
      case None
      then show ?thesis using unrecognized_safe [OF r(2) l(1) None, of hdr want n] False l(2)
        by (auto simp: decode_one_def r split: prod.splits parse.splits)
    next
      case (Some d)
      obtain name c where d: "d = (name, c)" by (cases d)
      show ?thesis using decode_attr_safe [OF r l(1) assms(3), of c] False l(2) Some d refuse_safe [OF refl stun_codes(1)] refuse_safe [OF refl stun_codes(2)]
        by (auto simp: decode_one_def r attr_typed_def split: parse.splits sum.splits)
    qed
  qed
qed

lemma decode_attrs_safe:
  assumes "buf + pdu_len \<le> length pdu" "length (mh_tsx_id hdr) = 12" "length attrs \<le> PJ_STUN_MAX_ATTR" "list_all attr_typed attrs"
  shows "safe (fst (decode_attrs se pdu hdr want buf pdu_len mi fp attrs))
    (\<lambda>(as, p). list_all attr_typed as \<and> length as \<le> PJ_STUN_MAX_ATTR \<and> p = buf + pdu_len)"
  using assms
proof (induction se pdu hdr want buf pdu_len mi fp attrs rule: decode_attrs.induct)
  case (1 se pdu hdr want buf pdu_len mi fp attrs)
  show ?case
  proof (cases "pdu_len < ATTR_HDR_LEN")
    case True
    then show ?thesis using "1.prems" by (simp add: decode_attrs.simps)
  next
    case False
    then have l: "4 \<le> pdu_len" by (simp add: stun_consts)
    note one = decode_one_safe [OF "1.prems"(1) l "1.prems"(2), of se want mi fp "length attrs"]
    obtain m r where o: "decode_one se pdu hdr want buf pdu_len mi fp (length attrs) = (m, r)" by fastforce
    show ?thesis
    proof (cases m)
      case Fault
      then show ?thesis using one o by simp
    next
      case (Fail e)
      then show ?thesis using False o by (simp add: decode_attrs.simps [of se pdu hdr want buf])
    next
      case (Done x)
      obtain a l mi' fp' where x: "x = (a, l, mi', fp')" by (cases x)
      have t: "attr_typed a" "length attrs < PJ_STUN_MAX_ATTR" "l + 4 \<le> pdu_len" using one o Done x by simp_all
      show ?thesis
        using "1.IH" [OF False _ refl refl refl refl] o Done x t "1.prems" False
        by (auto simp: decode_attrs.simps [of se pdu hdr want buf] elim!: safe_mono)
    qed
  qed
qed

lemma check_safe: "safe (pj_stun_msg_check pdu options) (\<lambda>_. \<exists>l. rd16 pdu 2 = Done l \<and> unat l + 20 \<le> length pdu)"
proof (cases "length pdu < 20")
  case False
  then have "pdu \<noteq> []" by auto
  then obtain b l m where r: "rd8 pdu 0 = Done b" "rd16 pdu 2 = Done l" "rd32 pdu 4 = Done m" using False by (simp add: rd8_def rd16_def rd32_def)
  show ?thesis
  proof (cases "unat l + 20 \<le> length pdu")
    case True
    then show ?thesis using r by (auto simp: pj_stun_msg_check_def Let_def)
  qed (use r in \<open>auto simp: pj_stun_msg_check_def Let_def\<close>)
qed (simp add: pj_stun_msg_check_def)

lemma precheck_safe:
  assumes "4 \<le> length pdu \<or> options AND PJ_STUN_CHECK_PACKET \<noteq> 0"
  shows "safe (decode_precheck pdu options) (\<lambda>_. \<exists>l. rd16 pdu 2 = Done l \<and> unat l + 20 \<le> length pdu)"
  using assms check_safe [of pdu options] by (auto simp: decode_precheck_def Let_def rd16_def)

lemma decode_hdr_safe:
  assumes "rd16 pdu 2 = Done l" "unat l + 20 \<le> length pdu"
  shows "safe (decode_hdr pdu) (\<lambda>h. mh_length h = l \<and> length (mh_tsx_id h) = 12)"
  using assms by (simp add: decode_hdr_def)

lemma decode_safe:
  assumes "4 \<le> length pdu \<or> options AND PJ_STUN_CHECK_PACKET \<noteq> 0"
  shows "safe (fst (pj_stun_msg_decode se pdu options resp)) (\<lambda>(msg, n). msg_typed msg \<and> n = 20 + unat (mh_length (sm_hdr msg)) \<and> n \<le> length pdu)"
proof -
  have h: "safe (pbind (decode_precheck pdu options) (\<lambda>_. decode_hdr pdu)) (\<lambda>h. unat (mh_length h) + 20 \<le> length pdu \<and> length (mh_tsx_id h) = 12)"
    using precheck_safe [OF assms] unfolding safe_bind
    by (elim safe_mono) (use decode_hdr_safe in \<open>fastforce elim!: safe_mono\<close>)
  show ?thesis
  proof (cases "pbind (decode_precheck pdu options) (\<lambda>_. decode_hdr pdu)")
    case (Done hdr)
    then have "unat (mh_length hdr) + 20 \<le> length pdu" "length (mh_tsx_id hdr) = 12" using h by simp_all
    then show ?thesis
      using decode_attrs_safe [of 20 "unat (mh_length hdr)" pdu hdr "[]" se "resp \<and> PJ_STUN_IS_REQUEST (ucast (mh_type hdr))" False False] Done
      by (auto simp: pj_stun_msg_decode_def msg_typed_def split: prod.splits parse.splits)
  qed (use h in \<open>auto simp: pj_stun_msg_decode_def\<close>)
qed

lemma decode_fault_iff:
  "fst (pj_stun_msg_decode se pdu options resp) = Fault \<longleftrightarrow> pdu \<noteq> [] \<and> length pdu < 4 \<and> options AND PJ_STUN_CHECK_PACKET = 0"
proof (cases "4 \<le> length pdu \<or> options AND PJ_STUN_CHECK_PACKET \<noteq> 0")
  case True
  then show ?thesis using decode_safe [OF True, of se resp] by (auto simp: safe_def)
next
  case False
  then have "rd16 pdu 2 = Fault" by (simp add: rd16_def)
  then show ?thesis using False by (simp add: pj_stun_msg_decode_def decode_precheck_def)
qed

text \<open>C36: The decoder reads outside the packet exactly when a caller passes a packet of one to three bytes without
  asking for the check of the packet.\<close>

theorem stun_decode_fault_iff:
  "fst (pj_stun_msg_decode se pdu options resp) = Fault \<longleftrightarrow> pdu \<noteq> [] \<and> length pdu < 4 \<and> options AND PJ_STUN_CHECK_PACKET = 0"
  by (rule decode_fault_iff)

end
