(* ===== verification/Stun_Msg_Encode.thy ===== *)
theory Stun_Msg_Encode
  imports Stun_Msg_Decode
begin

text \<open>
  The STUN encoder against the wire format: the bytes of an attribute, the message with the
  MESSAGE-INTEGRITY of RFC 2104 and the FINGERPRINT of the bitwise CRC-32, and the memory the encoder
  writes.
\<close>

section \<open>Memory\<close>

lemma mem_put_append:
  "i + length a + length b \<le> length m \<Longrightarrow> mem_put (mem_put m i a) (i + length a) b = mem_put m i (a @ b)"
  by (simp add: mem_put_def min_absorb1 ac_simps)

lemma mem_put_same: "i + length a \<le> length m \<Longrightarrow> length b = length a \<Longrightarrow> mem_put (mem_put m i a) i b = mem_put m i b"
  by (simp add: mem_put_def min_absorb1)

lemma mem_put_length [simp]: "i + length a \<le> length m \<Longrightarrow> length (mem_put m i a) = length m"
  by (rule mem_put_facts)

lemma mem_put_nil [simp]: "i \<le> length m \<Longrightarrow> mem_put m i [] = m"
  by (simp add: mem_put_def)

lemma rd_prefix:
  "length bs \<le> length m \<Longrightarrow> rd_bytes (mem_put m 0 bs) 0 (length bs) = Done bs"
  "4 + length x \<le> length m \<Longrightarrow> rd16 (mem_put m 0 (put16 t @ put16 l @ x)) 2 = Done l"
  by (simp_all add: rd_bytes_def rd16_def mem_put_def put16_def nth_append)

lemma wr_more:
  "length bs + length cs \<le> length m \<Longrightarrow> wr_bytes (mem_put m 0 bs) (length bs) cs = Done (mem_put m 0 (bs @ cs))"
  "4 + length x \<le> length m \<Longrightarrow> wr_bytes (mem_put m 0 (put16 t @ put16 l @ x)) 2 (put16 l') = Done (mem_put m 0 (put16 t @ put16 l' @ x))"
proof -
  show "length bs + length cs \<le> length m \<Longrightarrow> wr_bytes (mem_put m 0 bs) (length bs) cs = Done (mem_put m 0 (bs @ cs))"
    using mem_put_append [of 0 bs cs m] by (simp add: wr_bytes_def)
  show "4 + length x \<le> length m \<Longrightarrow> wr_bytes (mem_put m 0 (put16 t @ put16 l @ x)) 2 (put16 l') = Done (mem_put m 0 (put16 t @ put16 l' @ x))"
    by (simp add: wr_bytes_def mem_put_def put16_def eval_nat_numeral)
qed

section \<open>The wire format\<close>

text \<open>The bytes of an attribute, header and padding included.\<close>

definition wire_string_len :: "pj_stun_msg_hdr \<Rightarrow> u16 \<Rightarrow> nat \<Rightarrow> nat" where
  "wire_string_len hdr ty n = (if mh_magic hdr \<noteq> PJ_STUN_MAGIC \<or> ty = PJ_STUN_ATTR_SOFTWARE then align4 n else n)"

fun attr_wire :: "int \<Rightarrow> pj_stun_msg_hdr \<Rightarrow> pj_stun_attr \<Rightarrow> u8 list" where
  "attr_wire pc hdr (Sockaddr_attr ty _ x (Sa_inet p addr)) = put16 ty @ put16 8 @ [0, 1] @
     (if x then put16 (xor_port p) @ xor_bytes addr (put32 PJ_STUN_MAGIC) else put16 p @ addr)"
| "attr_wire pc hdr (Sockaddr_attr ty _ x (Sa_inet6 p addr)) = put16 ty @ put16 20 @ [0, 2] @
     (if x then put16 (xor_port p) @ xor_bytes addr (xor_key hdr) else put16 p @ addr)"
| "attr_wire pc hdr (Sockaddr_attr ty _ x Sa_other) = []"
| "attr_wire pc hdr (Empty_attr ty _) = put16 ty @ put16 0"
| "attr_wire pc hdr (String_attr ty _ v) =
     put16 ty @ put16 (of_nat (wire_string_len hdr ty (length v))) @ v @ pad_bytes pc (length v)"
| "attr_wire pc hdr (Uint_attr ty _ v) = put16 ty @ put16 4 @ put32 v"
| "attr_wire pc hdr (Uint64_attr ty _ hi lo) = put16 ty @ put16 8 @ put32 hi @ put32 lo"
| "attr_wire pc hdr (Msgint_attr ty len hmac) = put16 ty @ put16 len @ hmac"
| "attr_wire pc hdr (Errcode_attr ty _ c r) = put16 ty @ put16 (of_nat (4 + length r)) @ put16 0 @
     [word_of_int (c_div c 100), word_of_int (c_mod c 100)] @ r @ pad_bytes pc (length r)"
| "attr_wire pc hdr (Unknown_attr ty _ us) =
     put16 ty @ put16 (of_nat (length us * 2)) @ concat (map put16 us) @ pad_bytes pc (length us * 2)"
| "attr_wire pc hdr (Binary_attr ty _ _ d) = put16 ty @ put16 (of_nat (length d)) @ d @ pad_bytes pc (length d)"

definition wires :: "int \<Rightarrow> pj_stun_msg_hdr \<Rightarrow> pj_stun_attr list \<Rightarrow> u8 list" where
  "wires pc hdr as = concat (map (attr_wire pc hdr) as)"

definition hdr_wire :: "pj_stun_msg_hdr \<Rightarrow> u16 \<Rightarrow> u8 list" where
  "hdr_wire hdr len = put16 (mh_type hdr) @ put16 len @ put32 (mh_magic hdr) @ mh_tsx_id hdr"

fun known_family :: "pj_stun_attr \<Rightarrow> bool" where
  "known_family (Sockaddr_attr _ _ _ Sa_other) = False"
| "known_family _ = True"

definition plain_attr :: "pj_stun_attr \<Rightarrow> bool" where
  "plain_attr a \<longleftrightarrow> attr_typed a \<and> known_family a \<and> ah_type a \<noteq> PJ_STUN_ATTR_MESSAGE_INTEGRITY \<and> ah_type a \<noteq> PJ_STUN_ATTR_FINGERPRINT"

text \<open>The attributes MESSAGE-INTEGRITY, keyed, and FINGERPRINT after the bytes before them.\<close>

definition mac_attr :: "pj_stun_msg_hdr \<Rightarrow> u8 list \<Rightarrow> (u8 list) option \<Rightarrow> pj_stun_attr list" where
  "mac_attr hdr body key =
     (case key of
        None \<Rightarrow> []
      | Some k \<Rightarrow> [Msgint_attr PJ_STUN_ATTR_MESSAGE_INTEGRITY 20 (rfc_hmac k (hdr_wire hdr (of_nat (length body + 24)) @ body))])"

definition crc_attr :: "pj_stun_msg_hdr \<Rightarrow> u8 list \<Rightarrow> u16 option \<Rightarrow> pj_stun_attr list" where
  "crc_attr hdr body fp =
     (case fp of
        None \<Rightarrow> []
      | Some l \<Rightarrow> [Uint_attr PJ_STUN_ATTR_FINGERPRINT l
          (crc32_calc_nt (hdr_wire hdr (of_nat (length body + 8)) @ body) XOR STUN_XOR_FINGERPRINT)])"

definition sealed :: "int \<Rightarrow> pj_stun_msg_hdr \<Rightarrow> pj_stun_attr list \<Rightarrow> (u8 list) option \<Rightarrow> u16 option \<Rightarrow> pj_stun_attr list" where
  "sealed pc hdr base key fp =
     (let as = base @ mac_attr hdr (wires pc hdr base) key in as @ crc_attr hdr (wires pc hdr as) fp)"

definition stun_wire :: "int \<Rightarrow> pj_stun_msg_hdr \<Rightarrow> pj_stun_attr list \<Rightarrow> u8 list" where
  "stun_wire pc hdr as = hdr_wire hdr (of_nat (length (wires pc hdr as))) @ wires pc hdr as"

lemma wires_simps [simp]: "wires pc hdr [] = []" "wires pc hdr (a # as) = attr_wire pc hdr a @ wires pc hdr as"
  "wires pc hdr (as @ bs) = wires pc hdr as @ wires pc hdr bs"
  by (simp_all add: wires_def)

lemma align4_add: "align4 (n + 4) = align4 n + 4" "align4 (4 + n) = align4 n + 4" "align4 (8 + n) = align4 n + 8" "4 dvd align4 n"
proof -
  show "align4 (n + 4) = align4 n + 4" "align4 (4 + n) = align4 n + 4" "align4 (8 + n) = align4 n + 8"
    unfolding align4_def by presburger+
qed (simp add: align4_def)

lemma pad_length: "length (pad_bytes pc n) = align4 n - n"
proof -
  have "n mod 4 \<noteq> 0 \<Longrightarrow> 4 - n mod 4 = align4 n - n" "n mod 4 = 0 \<Longrightarrow> align4 n - n = 0" unfolding align4_def by presburger+
  then show ?thesis by (auto simp: pad_bytes_def)
qed

lemma value_length [simp]: "length v + length (pad_bytes pc (length v)) = align4 (length v)"
  "length us * 2 + length (pad_bytes pc (length us * 2)) = align4 (length us * 2)"
  using align4_ge [of "length v"] align4_ge [of "length us * 2"] by (simp_all add: pad_length)

lemma concat_put16 [simp]: "length (concat (map put16 us)) = length us * 2"
  by (induction us) simp_all

lemma wire_length:
  "length (attr_wire pc hdr (String_attr ty l v)) = align4 (length v) + 4"
  "length (attr_wire pc hdr (Errcode_attr ty l c r)) = align4 (length r) + 8"
  "length (attr_wire pc hdr (Unknown_attr ty l us)) = align4 (length us * 2) + 4"
  "length (attr_wire pc hdr (Binary_attr ty l m d)) = align4 (length d) + 4"
  using value_length(1) [of v pc] value_length(1) [of r pc] value_length(2) [of us pc] value_length(1) [of d pc] by simp_all

lemma u32t_small [simp]: "n < 4294967296 \<Longrightarrow> u32t n = n"
  by (simp add: u32t_def)

lemma wr_ok: "i + length bs \<le> length m \<Longrightarrow> wr_bytes m i bs = Done (mem_put m i bs)"
  by (simp add: wr_bytes_def)

lemma encode_sockaddr_wire:
  assumes "a = Sockaddr_attr ty l x sa" "sockaddr_ok sa" "known_family a" "length (mh_tsx_id hdr) = 12"
    and "length (attr_wire pc hdr a) \<le> n" "buf + length (attr_wire pc hdr a) \<le> length mem"
  shows "encode_sockaddr_attr a mem buf n hdr = Done (mem_put mem buf (attr_wire pc hdr a), length (attr_wire pc hdr a))"
proof -
  have w: "pbind (wr_bytes mem buf (put16 ty)) (\<lambda>mem. pbind (wr_bytes mem (buf + 2) r) (\<lambda>mem. Done (mem, k))) =
      Done (mem_put mem buf (put16 ty @ r), k)" if "buf + 2 + length r \<le> length mem" for r k
    using that mem_put_append [of buf "put16 ty" r mem] by (simp add: wr_ok)
  show ?thesis
  proof (cases sa)
    case (Sa_inet p addr)
    then show ?thesis using assms by (auto simp: encode_sockaddr_attr_def stun_consts xor_bytes_length w)
  next
    case (Sa_inet6 p addr)
    then show ?thesis using assms by (auto simp: encode_sockaddr_attr_def stun_consts xor_bytes_length xor_key_def w)
  qed (use assms in simp)
qed

lemma encode_attr_wire:
  assumes "fits c a" "known_family a" "length (mh_tsx_id hdr) = 12" "n < 4294967296"
    and "length (attr_wire pc hdr a) \<le> n" "buf + length (attr_wire pc hdr a) \<le> length mem"
  shows "encode_attr c pc a mem buf n hdr = Done (mem_put mem buf (attr_wire pc hdr a), length (attr_wire pc hdr a))"
proof (cases c)
  case C_sockaddr
  then show ?thesis using assms encode_sockaddr_wire [of a _ _ _ _ hdr pc n buf mem] by (auto simp: fits_cases encode_attr_def simp del: attr_wire.simps)
next
  case C_xored_sockaddr
  then show ?thesis using assms encode_sockaddr_wire [of a _ _ _ _ hdr pc n buf mem] by (auto simp: fits_cases encode_attr_def simp del: attr_wire.simps)
next
  case C_string
  then obtain ty l v where a: "a = String_attr ty l v" using assms by (auto simp: fits_cases)
  then have s: "align4 (length v) + 4 \<le> n" "length v \<le> align4 (length v)" using assms(5) wire_length(1) [of pc hdr ty l v] align4_ge by simp_all
  then show ?thesis using assms C_string a
    by (simp add: encode_attr_def encode_string_attr_def Let_def stun_consts wr_ok align4_add wire_string_len_def)
next
  case C_errcode
  then obtain ty l e v where a: "a = Errcode_attr ty l e v" using assms by (auto simp: fits_cases)
  then have s: "align4 (length v) + 8 \<le> n" "length v \<le> align4 (length v)" using assms(5) wire_length(2) [of pc hdr ty l e v] align4_ge by simp_all
  then show ?thesis using assms C_errcode a
    by (simp add: encode_attr_def encode_errcode_attr_def Let_def stun_consts wr_ok align4_add)
next
  case C_unknown
  then obtain ty l us where a: "a = Unknown_attr ty l us" using assms by (auto simp: fits_cases)
  then have s: "align4 (length us * 2) + 4 \<le> n" "length us * 2 \<le> align4 (length us * 2)"
    using assms(5) wire_length(3) [of pc hdr ty l us] align4_ge by simp_all
  then show ?thesis using assms C_unknown a
    by (simp add: encode_attr_def encode_unknown_attr_def Let_def stun_consts wr_ok align4_add)
next
  case C_binary
  then obtain ty l m v where a: "a = Binary_attr ty l m v" using assms by (auto simp: fits_cases)
  then have s: "align4 (length v) + 4 \<le> n" "length v \<le> align4 (length v)" using assms(5) wire_length(4) [of pc hdr ty l m v] align4_ge by simp_all
  then show ?thesis using assms C_binary a
    by (simp add: encode_attr_def encode_binary_attr_def Let_def stun_consts wr_ok align4_add)
qed (use assms in \<open>auto simp: fits_cases encode_attr_def encode_msgint_attr_def encode_uint_attr_def encode_uint64_attr_def encode_empty_attr_def
    wr_ok stun_consts\<close>)

lemma encode_any_wire:
  assumes "attr_typed a" "known_family a" "length (mh_tsx_id hdr) = 12" "n < 4294967296"
    and "length (attr_wire pc hdr a) \<le> n" "buf + length (attr_wire pc hdr a) \<le> length mem"
  shows "encode_any pc a mem buf n hdr = Done (mem_put mem buf (attr_wire pc hdr a), length (attr_wire pc hdr a))"
proof (cases "find_attr_desc (ah_type a)")
  case None
  then have "fits C_binary a" "generic a" using assms(1) by (auto simp: attr_typed_def generic_cases fits_cases)
  then show ?thesis
    using encode_attr_wire [OF _ assms(2-6), of C_binary] None assms(4) by (auto simp: encode_any_def encode_attr_def generic_cases)
next
  case (Some d)
  then show ?thesis
    using encode_attr_wire [OF _ assms(2-6), of "snd d"] assms(1,4) by (simp add: encode_any_def attr_typed_def split: prod.splits)
qed

lemma encode_attrs_wire:
  assumes "list_all plain_attr base" "length (mh_tsx_id hdr) = 12" "n < 4294967296" "length (wires pc hdr base) \<le> n" "buf + n \<le> length mem"
    and "rest = [] \<or> ah_type (hd rest) \<in> {PJ_STUN_ATTR_MESSAGE_INTEGRITY, PJ_STUN_ATTR_FINGERPRINT}"
  shows "encode_attrs pc hdr (base @ rest) mem buf n i =
    Done (mem_put mem buf (wires pc hdr base), buf + length (wires pc hdr base), n - length (wires pc hdr base), i + length base)"
  using assms(1,3-5)
proof (induction base arbitrary: mem buf n i)
  case Nil
  then show ?case using assms(6) by (cases rest) auto
next
  case (Cons a base)
  let ?w = "attr_wire pc hdr a"
  have a: "attr_typed a" "known_family a" "ah_type a \<noteq> PJ_STUN_ATTR_MESSAGE_INTEGRITY" "ah_type a \<noteq> PJ_STUN_ATTR_FINGERPRINT"
    using Cons.prems(1) by (simp_all add: plain_attr_def)
  have e: "encode_any pc a mem buf n hdr = Done (mem_put mem buf ?w, length ?w)"
    using encode_any_wire [OF a(1,2) assms(2) Cons.prems(2)] Cons.prems by simp
  have "encode_attrs pc hdr (base @ rest) (mem_put mem buf ?w) (buf + length ?w) (n - length ?w) (i + 1) =
      Done (mem_put (mem_put mem buf ?w) (buf + length ?w) (wires pc hdr base), buf + length ?w + length (wires pc hdr base),
        n - length ?w - length (wires pc hdr base), i + 1 + length base)"
    using Cons.prems by (intro Cons.IH) simp_all
  moreover have "mem_put (mem_put mem buf ?w) (buf + length ?w) (wires pc hdr base) = mem_put mem buf (?w @ wires pc hdr base)"
    using Cons.prems by (intro mem_put_append) simp
  ultimately show ?case using a e by simp
qed

section \<open>Integrity and fingerprint\<close>

lemma stun_hmac_rfc: "length k < 2 ^ 29 \<Longrightarrow> length d < 2 ^ 29 \<Longrightarrow> stun_hmac k d = rfc_hmac k d"
  unfolding stun_hmac_def
  by (rule hmac_stream.one_piece) (simp_all, intro exI conjI, rule refl, simp_all)

lemma rfc_hmac_length: "length (rfc_hmac k d) = 20"
  by (simp add: rfc_hmac_def Let_def digest_length)

lemma hdr_wire_length [simp]: "length (mh_tsx_id hdr) = 12 \<Longrightarrow> length (hdr_wire hdr l) = 20"
  by (simp add: hdr_wire_def)

lemma set_length:
  assumes "length (mh_tsx_id hdr) = 12" "20 + length x \<le> length m"
  shows "wr_bytes (mem_put m 0 (hdr_wire hdr l @ x)) 2 (put16 l') = Done (mem_put m 0 (hdr_wire hdr l' @ x))"
    "rd16 (mem_put m 0 (hdr_wire hdr l @ x)) 2 = Done l"
  using assms wr_more(2) [of "put32 (mh_magic hdr) @ mh_tsx_id hdr @ x" m "mh_type hdr" l l']
    rd_prefix(2) [of "put32 (mh_magic hdr) @ mh_tsx_id hdr @ x" m "mh_type hdr" l]
  by (simp_all add: hdr_wire_def)

lemma encode_integrity_wire:
  fixes hdr body
  defines "w \<equiv> hdr_wire hdr (of_nat (length body + 24)) @ body"
  assumes "attrs ! m = Msgint_attr PJ_STUN_ATTR_MESSAGE_INTEGRITY 20 h" "i = length attrs" "length attrs \<le> PJ_STUN_MAX_ATTR" "length (mh_tsx_id hdr) = 12"
    and "length k < 2 ^ 29" "length w < 2 ^ 29" "length w + 24 \<le> length mem" "24 \<le> n" "n < 4294967296"
  shows "encode_integrity attrs (mem_put mem 0 w) (length w) n i (Some m) f (Some k) =
    (let a = Msgint_attr PJ_STUN_ATTR_MESSAGE_INTEGRITY 20 (rfc_hmac k w) in
     Done (attrs[m := a], mem_put mem 0 (w @ attr_wire pc hdr a), length w + 24, n - 24, f))"
proof -
  have "i \<noteq> u32_sub (length attrs) 2" "\<not> i < u32_sub (length attrs) 2" if "length attrs > 1" using that assms(3,4) by (simp_all add: stun_consts)
  moreover have "i \<noteq> u32_sub (length attrs) 2" if "length attrs \<le> 1" using that assms(3) by (cases "length attrs") (simp_all add: u32_sub_def u32_def)
  ultimately have "i \<noteq> u32_sub (length attrs) 2" "length attrs > 1 \<longrightarrow> \<not> i < u32_sub (length attrs) 2" using not_less by blast+
  then have "msgint_position attrs i f = Done f" by (auto simp: msgint_position_def Let_def)
  then show ?thesis
    using assms(2,6-) rd_prefix(1) [of w mem] wr_more(1) [of w _ mem]
    by (simp add: encode_integrity_def encode_msgint_attr_def stun_hmac_rfc rfc_hmac_length Let_def)
qed

lemma encode_fingerprint_wire:
  fixes hdr body
  defines "w \<equiv> hdr_wire hdr (of_nat (length body + 8)) @ body"
  assumes "attrs ! m = Uint_attr PJ_STUN_ATTR_FINGERPRINT l v" "length (mh_tsx_id hdr) = 12" "length w + 8 \<le> length mem" "8 \<le> n" "n < 4294967296"
  shows "encode_fingerprint attrs (mem_put mem 0 (hdr_wire hdr (of_nat (length body)) @ body)) (length w) n (Some m) =
    (let a = Uint_attr PJ_STUN_ATTR_FINGERPRINT l (crc32_calc_nt w XOR STUN_XOR_FINGERPRINT) in
     Done (attrs[m := a], mem_put mem 0 (w @ attr_wire pc hdr a), length w + 8))"
proof -
  have l: "length w = 20 + length body" using assms(3) by (simp add: w_def)
  have s: "wr_bytes (mem_put mem 0 (hdr_wire hdr (of_nat (length body)) @ body)) 2 (put16 (of_nat (length body) + 8)) = Done (mem_put mem 0 w)"
    using set_length(1) [OF assms(3), of body mem] assms(4) l by (simp add: w_def add.commute)
  show ?thesis
    using assms(2,4-) s l set_length(2) [OF assms(3), of body mem] rd_prefix(1) [of w mem] wr_more(1) [of w _ mem]
    by (simp add: encode_fingerprint_def encode_uint_attr_def crc_table_bitwise Let_def)
qed

section \<open>The encoder\<close>

text \<open>A message as the application builds it: attributes of any kind, then at most one MESSAGE-INTEGRITY and
  at most one FINGERPRINT with whatever value they hold before.\<close>

definition unsealed :: "pj_stun_attr list \<Rightarrow> (u8 list) option \<Rightarrow> (u16 \<times> u32) option \<Rightarrow> pj_stun_attr list" where
  "unsealed base mi fp =
     base @ (case mi of None \<Rightarrow> [] | Some h \<Rightarrow> [Msgint_attr PJ_STUN_ATTR_MESSAGE_INTEGRITY 20 h]) @
     (case fp of None \<Rightarrow> [] | Some (l, v) \<Rightarrow> [Uint_attr PJ_STUN_ATTR_FINGERPRINT l v])"

definition used_key :: "(u8 list) option \<Rightarrow> u8 list \<Rightarrow> (u8 list) option" where
  "used_key mi key = (case mi of None \<Rightarrow> None | Some _ \<Rightarrow> Some key)"

lemma mi_fp_types [simp]: "PJ_STUN_ATTR_FINGERPRINT \<noteq> PJ_STUN_ATTR_MESSAGE_INTEGRITY" "PJ_STUN_ATTR_MESSAGE_INTEGRITY \<noteq> PJ_STUN_ATTR_FINGERPRINT"
  by (simp_all add: PJ_STUN_ATTR_FINGERPRINT_def PJ_STUN_ATTR_MESSAGE_INTEGRITY_def)

lemma wire_mac_length [simp]: "length (wires pc hdr (mac_attr hdr b k)) = (if k = None then 0 else 24)"
  by (cases k) (simp_all add: mac_attr_def rfc_hmac_length)

lemma wire_crc_length [simp]: "length (wires pc hdr (crc_attr hdr b f)) = (if f = None then 0 else 8)"
  by (cases f) (simp_all add: crc_attr_def)

lemma encode_loops:
  assumes "list_all plain_attr base" "length (mh_tsx_id hdr) = 12" "n < 4294967296" "20 + length (wires pc hdr base) \<le> n" "n \<le> length mem"
    and "attrs = unsealed base mi fp"
  shows "encode_attrs pc hdr attrs (mem_put mem 0 (hdr_wire hdr 0)) 20 (n - 20) 0 =
      Done (mem_put mem 0 (hdr_wire hdr 0 @ wires pc hdr base), 20 + length (wires pc hdr base), n - 20 - length (wires pc hdr base), length base)"
    and "let found = (\<lambda>ty. if length base < length attrs \<and> ah_type (attrs ! length base) = ty then Some (length base) else None) in
      scan_rest (drop (length base + 1) attrs) (length base + 1) (found PJ_STUN_ATTR_MESSAGE_INTEGRITY) (found PJ_STUN_ATTR_FINGERPRINT) =
      Done (if mi = None \<and> fp = None then length attrs + 1 else length attrs,
        if mi = None then None else Some (length base),
        if fp = None then None else Some (length base + (if mi = None then 0 else 1)))"
proof -
  let ?r = "(case mi of None \<Rightarrow> [] | Some h \<Rightarrow> [Msgint_attr PJ_STUN_ATTR_MESSAGE_INTEGRITY 20 h]) @
     (case fp of None \<Rightarrow> [] | Some (l, v) \<Rightarrow> [Uint_attr PJ_STUN_ATTR_FINGERPRINT l v])"
  have "?r = [] \<or> ah_type (hd ?r) \<in> {PJ_STUN_ATTR_MESSAGE_INTEGRITY, PJ_STUN_ATTR_FINGERPRINT}" by (auto split: option.split)
  moreover have "mem_put (mem_put mem 0 (hdr_wire hdr 0)) 20 (wires pc hdr base) = mem_put mem 0 (hdr_wire hdr 0 @ wires pc hdr base)"
    using mem_put_append [of 0 "hdr_wire hdr 0" "wires pc hdr base" mem] assms(2,4,5) by simp
  ultimately show "encode_attrs pc hdr attrs (mem_put mem 0 (hdr_wire hdr 0)) 20 (n - 20) 0 =
      Done (mem_put mem 0 (hdr_wire hdr 0 @ wires pc hdr base), 20 + length (wires pc hdr base), n - 20 - length (wires pc hdr base), length base)"
    using encode_attrs_wire [OF assms(1,2), of "n - 20" pc 20 "mem_put mem 0 (hdr_wire hdr 0)" ?r 0] assms(2-6) by (simp add: unsealed_def)
  show "let found = (\<lambda>ty. if length base < length attrs \<and> ah_type (attrs ! length base) = ty then Some (length base) else None) in
      scan_rest (drop (length base + 1) attrs) (length base + 1) (found PJ_STUN_ATTR_MESSAGE_INTEGRITY) (found PJ_STUN_ATTR_FINGERPRINT) =
      Done (if mi = None \<and> fp = None then length attrs + 1 else length attrs,
        if mi = None then None else Some (length base),
        if fp = None then None else Some (length base + (if mi = None then 0 else 1)))"
    by (cases mi; cases fp) (auto simp: assms(6) unsealed_def nth_append Let_def)
qed

lemma encode_fingerprint_last:
  fixes bs :: "pj_stun_attr list" and pc :: int and hdr :: pj_stun_msg_hdr and l :: u16
  defines "b \<equiv> wires pc hdr bs" and "as \<equiv> bs @ crc_attr hdr (wires pc hdr bs) (Some l)"
  assumes "length (mh_tsx_id hdr) = 12" "28 + length b \<le> length mem" "8 \<le> n" "n < 4294967296"
  shows "encode_fingerprint (bs @ [Uint_attr PJ_STUN_ATTR_FINGERPRINT l v]) (mem_put mem 0 (hdr_wire hdr (of_nat (length b)) @ b)) (20 + length b) n
      (Some (length bs)) =
    Done (as, mem_put mem 0 (stun_wire pc hdr as), 20 + length (wires pc hdr as))"
  using encode_fingerprint_wire [of "bs @ [Uint_attr PJ_STUN_ATTR_FINGERPRINT l v]" "length bs" l v hdr b mem n pc] assms
  by (simp add: Let_def as_def crc_attr_def stun_wire_def b_def)

lemma encode_wire:
  fixes base mi fp key hdr pc
  defines "as \<equiv> sealed pc hdr base (used_key mi key) (map_option fst fp)"
  assumes "list_all plain_attr base" "length (mh_tsx_id hdr) = 12" "length (unsealed base mi fp) \<le> PJ_STUN_MAX_ATTR"
    and "length key < 2 ^ 29" "20 + length (wires pc hdr as) \<le> n" "n \<le> length mem" "n < 2 ^ 29"
  shows "pj_stun_msg_encode pc \<lparr>sm_hdr = hdr, sm_attr = unsealed base mi fp\<rparr> mem n 0 (Some key) =
    Done (\<lparr>sm_hdr = hdr\<lparr>mh_length := of_nat (length (wires pc hdr as))\<rparr>, sm_attr = as\<rparr>, mem_put mem 0 (stun_wire pc hdr as), 20 + length (wires pc hdr as))"
proof -
  let ?b = "wires pc hdr base" and ?u = "unsealed base mi fp"
  let ?base1 = "base @ mac_attr hdr ?b (used_key mi key)"
  let ?m = "if mi = None then 0 else 24 :: nat"
  let ?b1 = "wires pc hdr ?base1"
  have lb: "length ?b1 = length ?b + ?m" by (simp add: used_key_def split: option.split)
  have la: "length (wires pc hdr as) = length ?b1 + (if fp = None then 0 else 8)" by (simp add: as_def sealed_def Let_def)
  have w0: "wr_bytes mem 0 (hdr_wire hdr 0) = Done (mem_put mem 0 (hdr_wire hdr 0))" using assms(3,6,7) by (intro wr_ok) simp
  note loops = encode_loops [OF assms(2,3) _ _ assms(7) refl, of pc mi fp]
  have w1: "wr_bytes (mem_put mem 0 (hdr_wire hdr 0 @ ?b)) 2 (put16 l) = Done (mem_put mem 0 (hdr_wire hdr l @ ?b))" for l
    using set_length(1) [OF assms(3), of ?b mem 0 l] assms(6,7) la lb by simp
  have i: "encode_integrity ?u (mem_put mem 0 (hdr_wire hdr (of_nat (length ?b1)) @ ?b)) (20 + length ?b) (n - 20 - length ?b)
      (if mi = None \<and> fp = None then length ?u + 1 else length ?u) (if mi = None then None else Some (length base)) f (Some key) =
    Done (?base1 @ drop (length ?base1) ?u, mem_put mem 0 (hdr_wire hdr (of_nat (length ?b1)) @ ?b1), 20 + length ?b1, n - 20 - length ?b1, f)" for f
  proof (cases mi)
    case None
    then show ?thesis by (simp add: encode_integrity_def mac_attr_def used_key_def unsealed_def)
  next
    case (Some h)
    have "?u ! length base = Msgint_attr PJ_STUN_ATTR_MESSAGE_INTEGRITY 20 h" by (simp add: unsealed_def Some)
    then show ?thesis
      using encode_integrity_wire [of ?u "length base" h "length ?u" hdr key ?b mem "n - 20 - length ?b" f pc] assms(3-8) la lb Some
      by (simp add: mac_attr_def used_key_def Let_def unsealed_def rfc_hmac_length)
  qed
  have f: "encode_fingerprint (?base1 @ drop (length ?base1) ?u) (mem_put mem 0 (hdr_wire hdr (of_nat (length ?b1)) @ ?b1)) (20 + length ?b1) (n - 20 - length ?b1)
      (if fp = None then None else Some (length base + (if mi = None then 0 else 1))) =
    Done (as, mem_put mem 0 (stun_wire pc hdr as), 20 + length (wires pc hdr as))"
  proof (cases fp)
    case None
    then show ?thesis by (cases mi) (simp_all add: encode_fingerprint_def as_def sealed_def crc_attr_def stun_wire_def unsealed_def mac_attr_def used_key_def)
  next
    case (Some lv)
    obtain l v where lv: "lv = (l, v)" by (cases lv)
    have d: "?base1 @ drop (length ?base1) ?u = ?base1 @ [Uint_attr PJ_STUN_ATTR_FINGERPRINT l v]"
      "length base + (if mi = None then 0 else 1) = length ?base1"
      by (cases mi; simp add: unsealed_def Some lv mac_attr_def used_key_def)+
    have "28 + length ?b1 \<le> length mem" "8 \<le> n - 20 - length ?b1" "n - 20 - length ?b1 < 4294967296"
      using assms(6-8) la Some by simp_all
    from encode_fingerprint_last [OF assms(3) this, of l v] show ?thesis
      unfolding d as_def sealed_def by (simp only: Some lv Let_def option.simps fst_conv if_False simp_thms)
  qed
  have bl: "(if (if mi = None then None else Some (length base)) \<noteq> None then of_nat (20 + length ?b - 20 + 24) else of_nat (20 + length ?b - 20) :: u16) =
      of_nat (length ?b1)" using lb by simp
  have n: "n < 4294967296" "20 + length ?b \<le> n" using assms(6,8) la lb by simp_all
  have "20 \<le> n" using n(2) by simp
  then show ?thesis
    unfolding pj_stun_msg_encode_def Let_def pj_stun_msg.simps hdr_wire_def [symmetric] w0
    using loops(1) [OF n] loops(2) [OF n, unfolded Let_def]
    by (simp only: pbind.simps prod.case bl w1 i f) simp
qed

end
