(* ===== verification/Stun_Msg_Props.thy ===== *)
theory Stun_Msg_Props
  imports Stun_Msg_Encode
begin

text \<open>
  What a receiver makes of an encoded STUN message: the round trip through the decoder, the acceptance of
  the FINGERPRINT, and where the encoder and the check of a packet go wrong.
\<close>

section \<open>Reading at an offset\<close>

lemma rd_shift:
  "rd8 (pre @ w) (length pre + k) = rd8 w k"
  "rd16 (pre @ w) (length pre + k) = rd16 w k"
  "rd32 (pre @ w) (length pre + k) = rd32 w k"
  "rd_bytes (pre @ w) (length pre + k) n = rd_bytes w k n"
  by (simp_all add: rd8_def rd16_def rd32_def rd_bytes_def nth_append)

lemma rd_shift0:
  "rd16 (pre @ w) (length pre) = rd16 w 0"
  using rd_shift(2) [of pre w 0] by simp

lemma rd_u16s_shift: "rd_u16s (pre @ w) (length pre + k) n = rd_u16s w k n"
  by (induction n arbitrary: k) (simp_all add: rd_shift add.assoc)

lemma decode_shift: "decode_attr c (pre @ w) (length pre) hdr = decode_attr c w 0 hdr"
  by (cases c) (simp_all add: decode_attr_def decode_sockaddr_attr_def decode_xored_sockaddr_attr_def decode_string_attr_def
      decode_msgint_attr_def decode_errcode_attr_def decode_unknown_attr_def decode_uint_attr_def decode_uint64_attr_def
      decode_binary_attr_def decode_empty_attr_def rd_shift rd_shift0 rd_u16s_shift add.assoc Let_def cong: if_cong)

lemma rd_u16s_put: "rd_u16s (concat (map put16 us) @ post) 0 (length us) = Done us"
proof (induction us)
  case (Cons u us)
  have "rd_u16s (put16 u @ concat (map put16 us) @ post) (length (put16 u) + 0) (length us) = Done us"
    unfolding rd_u16s_shift by (rule Cons)
  then show ?case using rd_at(1) [of "[]" 0 u "concat (map put16 us) @ post"] by simp
qed simp

lemma xor_bytes_twice: "length xs \<le> length ks \<Longrightarrow> xor_bytes (xor_bytes xs ks) ks = xs"
  by (rule nth_equalityI) (simp_all add: xor_bytes_def xor.assoc)

lemma xor_port_twice [simp]: "xor_port (xor_port p) = p"
  by (simp add: xor_port_def xor.assoc)

lemma be16_small [simp]: "be16 0 0 = 0" "be16 0 4 = 4" "be16 0 8 = 8" "be16 0 20 = 20"
  by (simp_all add: be16_def)

section \<open>What is received\<close>

text \<open>The attribute that a receiver gets: the lengths are those of the wire, and strings that are sent with an
  aligned length keep the padding.\<close>

fun received :: "int \<Rightarrow> pj_stun_msg_hdr \<Rightarrow> pj_stun_attr \<Rightarrow> pj_stun_attr" where
  "received pc hdr (Sockaddr_attr ty _ x sa) = Sockaddr_attr ty (case sa of Sa_inet _ _ \<Rightarrow> 8 | _ \<Rightarrow> 20) x sa"
| "received pc hdr (Empty_attr ty _) = Empty_attr ty 0"
| "received pc hdr (String_attr ty _ v) =
     (let l = wire_string_len hdr ty (length v) in String_attr ty (of_nat l) (take l (v @ pad_bytes pc (length v))))"
| "received pc hdr (Uint_attr ty _ v) = Uint_attr ty 4 v"
| "received pc hdr (Uint64_attr ty _ hi lo) = Uint64_attr ty 8 hi lo"
| "received pc hdr (Msgint_attr ty l h) = Msgint_attr ty l h"
| "received pc hdr (Errcode_attr ty _ c r) = Errcode_attr ty (of_nat (4 + length r)) c r"
| "received pc hdr (Unknown_attr ty _ us) = Unknown_attr ty (of_nat (length us * 2)) us"
| "received pc hdr (Binary_attr ty _ m d) = Binary_attr ty (of_nat (length d)) (if find_attr_desc ty = None then PJ_STUN_MAGIC else 0) d"

text \<open>The attributes that can make the trip: an address is XOR-ed where its type says so, an error code fits
  its two bytes, and an attribute without a descriptor has an optional type.\<close>

fun faithful :: "attr_codec \<Rightarrow> pj_stun_attr \<Rightarrow> bool" where
  "faithful c (Sockaddr_attr _ _ x sa) \<longleftrightarrow> x = (c = C_xored_sockaddr) \<and> sa \<noteq> Sa_other"
| "faithful c (Errcode_attr _ _ e _) \<longleftrightarrow> 0 \<le> e \<and> e < 25600"
| "faithful c (Msgint_attr _ l _) \<longleftrightarrow> l = 20"
| "faithful c _ \<longleftrightarrow> True"

definition sendable :: "pj_stun_attr \<Rightarrow> bool" where
  "sendable a \<longleftrightarrow> attr_typed a \<and> (case find_attr_desc (ah_type a) of Some (_, c) \<Rightarrow> faithful c a | None \<Rightarrow> 0x7FFF < ah_type a)"

lemma received_type [simp]: "ah_type (received pc hdr a) = ah_type a"
  by (cases a) (simp_all add: Let_def)

lemma unat_small16: "n < 65536 \<Longrightarrow> unat (of_nat n :: u16) = n"
  by (simp add: unat_of_nat)

text \<open>The header of an attribute on the wire, and the length that the decoder derives from it.\<close>

lemma wire_head:
  assumes "fits c a" "faithful c a" "length (mh_tsx_id hdr) = 12" "length (attr_wire pc hdr a) < 65536"
  shows "\<exists>v. attr_wire pc hdr a = put16 (ah_type a) @ put16 (ah_length (received pc hdr a)) @ v"
    and "align4 (unat (ah_length (received pc hdr a))) + 4 = length (attr_wire pc hdr a)"
proof -
  have al: "align4 (align4 n) = align4 n" "align4 8 = 8" "align4 20 = 20" "align4 4 = 4" "align4 0 = 0" for n by (simp_all add: align4_def)
  show "\<exists>v. attr_wire pc hdr a = put16 (ah_type a) @ put16 (ah_length (received pc hdr a)) @ v"
    using assms(2) by (cases "(pc, hdr, a)" rule: attr_wire.cases) (auto simp: Let_def)
  have g: "n \<le> align4 n" for n by (rule align4_ge)
  show "align4 (unat (ah_length (received pc hdr a))) + 4 = length (attr_wire pc hdr a)"
  proof (cases "(pc, hdr, a)" rule: attr_wire.cases)
    case (5 pc' hdr' ty l v)
    then have "wire_string_len hdr ty (length v) < 65536" "align4 (wire_string_len hdr ty (length v)) = align4 (length v)"
      using assms(4) wire_length(1) [of pc hdr ty l v] g [of "length v"] by (auto simp: wire_string_len_def al)
    then show ?thesis using 5 wire_length(1) [of pc hdr ty l v] by (simp add: Let_def unat_small16 del: attr_wire.simps)
  next
    case (9 pc' hdr' ty l e v)
    then show ?thesis
      using assms(4) wire_length(2) [of pc hdr ty l e v] g [of "length v"] unat_small16 [of "4 + length v"]
      by (simp add: align4_add del: attr_wire.simps of_nat_add)
  next
    case (10 pc' hdr' ty l us)
    then show ?thesis
      using assms(4) wire_length(3) [of pc hdr ty l us] g [of "length us * 2"] unat_small16 [of "length us * 2"]
      by (simp del: attr_wire.simps of_nat_mult)
  next
    case (11 pc' hdr' ty l m v)
    then show ?thesis
      using assms(4) wire_length(4) [of pc hdr ty l m v] g [of "length v"] unat_small16 [of "length v"] by (simp del: attr_wire.simps)
  qed (use assms in \<open>cases c; auto simp: fits_cases al xor_bytes_length xor_key_def\<close>)+
qed

lemma decode_sockaddr_bytes:
  "length b = 4 \<Longrightarrow> decode_sockaddr_attr (put16 ty @ put16 8 @ 0 # 1 # put16 p @ b @ post) 0 = Done (Sockaddr_attr ty 8 False (Sa_inet p b))"
  "length b = 16 \<Longrightarrow> decode_sockaddr_attr (put16 ty @ put16 20 @ 0 # 2 # put16 p @ b @ post) 0 = Done (Sockaddr_attr ty 20 False (Sa_inet6 p b))"
  by (simp_all add: decode_sockaddr_attr_def stun_consts rd16_def rd8_def rd_bytes_def put16_def)

lemma decode_sockaddr_wire:
  assumes "a = Sockaddr_attr ty l x sa" "sockaddr_ok sa" "sa \<noteq> Sa_other" "length (mh_tsx_id hdr) = 12"
  shows "\<not> x \<Longrightarrow> decode_sockaddr_attr (attr_wire pc hdr a @ post) 0 = Done (received pc hdr a)"
    "x \<Longrightarrow> decode_xored_sockaddr_attr (attr_wire pc hdr a @ post) 0 hdr = Done (received pc hdr a)"
  using assms
  by (cases sa; simp add: decode_xored_sockaddr_attr_def decode_sockaddr_bytes xor_bytes_length xor_bytes_twice xor_key_def)+

lemma errcode_octets: "0 \<le> e \<Longrightarrow> e < 25600 \<Longrightarrow> uint (word_of_int (c_div e 100) :: u8) * 100 + uint (word_of_int (c_mod e 100) :: u8) = e"
proof -
  assume e: "0 \<le> e" "e < 25600"
  then have "c_div e 100 = e div 100" "c_mod e 100 = e mod 100" by (simp_all add: c_mod_def c_div_nonneg minus_div_mult_eq_mod)
  then show ?thesis using e by (simp add: uint_word_of_int)
qed

lemma decode_wire:
  assumes "fits c a" "faithful c a" "length (mh_tsx_id hdr) = 12" "length (attr_wire pc hdr a) < 65536"
    and "c = C_binary \<Longrightarrow> find_attr_desc (ah_type a) \<noteq> None"
  shows "decode_attr c (attr_wire pc hdr a @ post) 0 hdr = Done (received pc hdr a)"
proof (cases c)
  case C_sockaddr
  then show ?thesis using assms decode_sockaddr_wire(1) [of a] by (auto simp: fits_cases decode_attr_def simp del: attr_wire.simps)
next
  case C_xored_sockaddr
  then show ?thesis using assms decode_sockaddr_wire(2) [of a] by (auto simp: fits_cases decode_attr_def simp del: attr_wire.simps)
next
  case C_string
  then obtain ty l v where a: "a = String_attr ty l v" using assms by (auto simp: fits_cases)
  let ?l = "wire_string_len hdr ty (length v)"
  have n: "?l < 65536" "?l \<le> align4 (length v)" using assms(4) a wire_length(1) [of pc hdr ty l v] align4_ge [of "length v"] by (auto simp: wire_string_len_def)
  then have "?l \<le> length v + length (pad_bytes pc (length v))" by (simp only: value_length)
  then show ?thesis using a C_string n(1)
    by (simp add: decode_attr_def decode_string_attr_def stun_consts rd16_def rd_bytes_def put16_def unat_small16 Let_def del: value_length)
next
  case C_errcode
  then obtain ty l e v where a: "a = Errcode_attr ty l e v" using assms by (auto simp: fits_cases)
  have n: "4 + length v < 65536" using assms(4) a wire_length(2) [of pc hdr ty l e v] align4_ge [of "length v"] by simp
  then have "\<not> (of_nat (4 + length v) :: u16) < 4" using unat_small16 [OF n] by (simp add: word_less_nat_alt del: of_nat_add)
  then show ?thesis using a C_errcode unat_small16 [OF n] errcode_octets [of e] assms(2)
    by (simp add: decode_attr_def decode_errcode_attr_def stun_consts rd16_def rd8_def rd_bytes_def put16_def del: of_nat_add)
next
  case C_unknown
  then obtain ty l us where a: "a = Unknown_attr ty l us" "length us \<le> 16" using assms by (auto simp: fits_cases stun_consts)
  have "unat (of_nat (length us * 2) :: u16) = length us * 2" using a(2) by (intro unat_small16) simp
  moreover have "rd_u16s (attr_wire pc hdr a @ post) 4 (length us) = Done us"
    using rd_u16s_shift [of "put16 ty @ put16 (of_nat (length us * 2))" "concat (map put16 us) @ pad_bytes pc (length us * 2) @ post" 0 "length us"]
      rd_u16s_put [of us] a(1) by (simp del: of_nat_mult)
  ultimately show ?thesis using a C_unknown
    by (simp add: decode_attr_def decode_unknown_attr_def stun_consts rd16_def put16_def Let_def del: of_nat_mult)
next
  case C_binary
  then obtain ty l m v where a: "a = Binary_attr ty l m v" using assms by (auto simp: fits_cases)
  have n: "length v < 65536" using assms(4) a wire_length(4) [of pc hdr ty l m v] align4_ge [of "length v"] by simp
  then show ?thesis using a C_binary assms(5) by (auto simp: decode_attr_def decode_binary_attr_def stun_consts rd16_def rd_bytes_def put16_def unat_small16)
qed (use assms in \<open>auto simp: fits_cases decode_attr_def decode_msgint_attr_def decode_uint_attr_def decode_uint64_attr_def decode_empty_attr_def
    rd16_def rd32_def rd_bytes_def put16_def put32_def\<close>)

section \<open>The loop over the wire\<close>

text \<open>The flags of the decoder admit a list of attributes.\<close>

fun positions_ok :: "bool \<Rightarrow> bool \<Rightarrow> pj_stun_attr list \<Rightarrow> bool" where
  "positions_ok mi fp [] = True"
| "positions_ok mi fp (a # as) =
     (if find_attr_desc (ah_type a) = None then positions_ok mi fp as
      else case track_position (ah_type a) mi fp of Inl _ \<Rightarrow> False | Inr (mi', fp') \<Rightarrow> positions_ok mi' fp' as)"

lemma attr_wire_hdr [simp]: "attr_wire pc (hdr\<lparr>mh_length := l\<rparr>) a = attr_wire pc hdr a" "received pc (hdr\<lparr>mh_length := l\<rparr>) a = received pc hdr a"
  by (cases "(pc, hdr, a)" rule: attr_wire.cases; simp add: wire_string_len_def xor_key_def)
    (cases a; simp add: wire_string_len_def)

lemma decode_one_wire:
  fixes a pc hdr
  defines "w \<equiv> attr_wire pc hdr a"
  assumes "sendable a" "length (mh_tsx_id hdr) = 12" "length w < 65536" "length w \<le> n" "k < PJ_STUN_MAX_ATTR"
    and p: "positions_ok mi fp (a # as)"
  shows "\<exists>mi' fp'. decode_one se (pre @ w @ post) hdr want (length pre) n mi fp k = (Done (received pc hdr a, length w - 4, mi', fp'), None) \<and>
    positions_ok mi' fp' as"
proof -
  define c where "c = (case find_attr_desc (ah_type a) of None \<Rightarrow> C_binary | Some (_, c) \<Rightarrow> c)"
  have c: "fits c a" "faithful c a" using assms(2) by (auto simp: sendable_def attr_typed_def c_def fits_cases generic_cases split: option.splits)
  obtain v where v: "w = put16 (ah_type a) @ put16 (ah_length (received pc hdr a)) @ v"
    using wire_head(1) [OF c assms(3)] assms(4) by (auto simp: w_def)
  have l: "align4 (unat (ah_length (received pc hdr a))) + 4 = length w" using wire_head(2) [OF c assms(3)] assms(4) by (simp add: w_def)
  have r: "rd16 (pre @ w @ post) (length pre) = Done (ah_type a)" "rd16 (pre @ w @ post) (length pre + 2) = Done (ah_length (received pc hdr a))"
    unfolding rd_shift rd_shift0 by (simp_all add: v rd16_def put16_def)
  have nl: "\<not> n < align4 (unat (ah_length (received pc hdr a))) + ATTR_HDR_LEN" "align4 (unat (ah_length (received pc hdr a))) = length w - 4"
    using l assms(5) by (simp_all add: stun_consts)
  show ?thesis
  proof (cases "find_attr_desc (ah_type a)")
    case None
    then obtain ty m d where a: "a = Binary_attr ty m PJ_STUN_MAGIC d" "0x7FFF < ty" using assms(2) by (auto simp: sendable_def attr_typed_def generic_cases)
    have d: "length d < 65536" using assms(4) a wire_length(4) [of pc hdr ty m PJ_STUN_MAGIC d] align4_ge [of "length d"] by (simp add: w_def)
    have "rd_bytes (pre @ w @ post) (length pre + 4) (length d) = Done d"
      unfolding rd_shift by (simp add: w_def a(1) rd_bytes_def put16_def)
    moreover have "ty \<noteq> 0" "\<not> ty \<le> 0x7FFF" using a(2) by auto
    ultimately have "decode_unrecognized (pre @ w @ post) hdr want (length pre) ty k = (Done (received pc hdr a), None)"
      using a r(2) d None assms(6) by (simp add: decode_unrecognized_def pj_stun_binary_attr_init_def unat_small16)
    then show ?thesis using None p nl r a(1) by (simp add: decode_one_def)
  next
    case (Some nc)
    obtain name where nc: "nc = (name, c)" by (cases nc) (simp add: c_def Some)
    obtain mi' fp' where t: "track_position (ah_type a) mi fp = Inr (mi', fp')" "positions_ok mi' fp' as"
      using p Some by (auto split: sum.splits)
    have "decode_attr c (pre @ w @ post) (length pre) hdr = Done (received pc hdr a)"
      unfolding decode_shift w_def using decode_wire [OF c assms(3)] assms(4) Some by (simp add: w_def)
    then show ?thesis using Some nc t nl r assms(6) by (simp add: decode_one_def)
  qed
qed

lemma wire_min: "sendable a \<Longrightarrow> length (mh_tsx_id hdr) = 12 \<Longrightarrow> 4 \<le> length (attr_wire pc hdr a)"
  by (cases "(pc, hdr, a)" rule: attr_wire.cases) (auto simp: sendable_def attr_typed_def fits_def split: option.splits attr_codec.splits)

lemma decode_attrs_wire:
  assumes "list_all sendable as" "length (mh_tsx_id hdr) = 12" "length (wires pc hdr as) < 65536" "length attrs + length as \<le> PJ_STUN_MAX_ATTR"
    and "positions_ok mi fp as"
  shows "decode_attrs se (pre @ wires pc hdr as @ post) hdr want (length pre) (length (wires pc hdr as)) mi fp attrs =
    (Done (attrs @ map (received pc hdr) as, length pre + length (wires pc hdr as)), None)"
  using assms(1,3-5)
proof (induction as arbitrary: pre mi fp attrs)
  case Nil
  then show ?case by (simp add: decode_attrs.simps stun_consts)
next
  case (Cons a as)
  let ?w = "attr_wire pc hdr a" and ?n = "length (wires pc hdr (a # as))"
  have s: "sendable a" "length ?w < 65536" "length ?w \<le> ?n" "length attrs < PJ_STUN_MAX_ATTR" using Cons.prems by simp_all
  have m: "4 \<le> length ?w" by (rule wire_min [OF s(1) assms(2)])
  obtain mi' fp' where o: "decode_one se (pre @ ?w @ wires pc hdr as @ post) hdr want (length pre) ?n mi fp (length attrs) =
      (Done (received pc hdr a, length ?w - 4, mi', fp'), None)" "positions_ok mi' fp' as"
    using decode_one_wire [OF s(1) assms(2) s(2,3,4) Cons.prems(4), where post = "wires pc hdr as @ post"] by blast
  have "decode_attrs se ((pre @ ?w) @ wires pc hdr as @ post) hdr want (length (pre @ ?w)) (length (wires pc hdr as)) mi' fp' (attrs @ [received pc hdr a]) =
      (Done ((attrs @ [received pc hdr a]) @ map (received pc hdr) as, length (pre @ ?w) + length (wires pc hdr as)), None)"
    using Cons.prems o(2) by (intro Cons.IH) simp_all
  then show ?case
    using o(1) m by (cases "wires pc hdr as = []")
      (auto simp: decode_attrs.simps [of se _ hdr want "length pre"] stun_consts)
qed

section \<open>Whole messages\<close>

lemma seal_desc:
  "find_attr_desc PJ_STUN_ATTR_MESSAGE_INTEGRITY = Some (''MESSAGE-INTEGRITY'', C_msgint)"
  "find_attr_desc PJ_STUN_ATTR_FINGERPRINT = Some (''FINGERPRINT'', C_uint)"
  by (simp_all add: find_attr_desc_def mandatory_attr_desc_def extended_attr_desc_def PJ_STUN_ATTR_MESSAGE_INTEGRITY_def
      PJ_STUN_ATTR_FINGERPRINT_def PJ_STUN_ATTR_END_MANDATORY_ATTR_def PJ_STUN_ATTR_START_EXTENDED_ATTR_def PJ_STUN_ATTR_END_EXTENDED_ATTR_def)

lemma sealed_sendable:
  assumes "list_all sendable base"
  shows "list_all sendable (sealed pc hdr base k f)"
proof -
  have "sendable (Msgint_attr PJ_STUN_ATTR_MESSAGE_INTEGRITY 20 (rfc_hmac key d))" "sendable (Uint_attr PJ_STUN_ATTR_FINGERPRINT l v)" for key d l v
    by (simp_all add: sendable_def attr_typed_def seal_desc fits_def rfc_hmac_length)
  then show ?thesis using assms by (cases k; cases f) (simp_all add: sealed_def mac_attr_def crc_attr_def Let_def)
qed

lemma positions_plain: "list_all plain_attr base \<Longrightarrow> positions_ok False False (base @ as) = positions_ok False False as"
  by (induction base) (simp_all add: plain_attr_def track_position_def)

lemma positions_plain_only: "list_all plain_attr base \<Longrightarrow> positions_ok False False base"
  using positions_plain [of base "[]"] by simp

lemma positions_sealed: "list_all plain_attr base \<Longrightarrow> positions_ok False False (sealed pc hdr base k f)"
  by (cases k; cases f) (simp_all add: sealed_def Let_def positions_plain positions_plain_only mac_attr_def crc_attr_def seal_desc track_position_def)

lemma sealed_length: "length (sealed pc hdr base (used_key mi key) (map_option fst fp)) = length (unsealed base mi fp)"
  by (cases mi; cases fp) (simp_all add: sealed_def unsealed_def used_key_def mac_attr_def crc_attr_def Let_def split: prod.split)

lemma fits_sizes: "fits c (Sockaddr_attr ty l x sa) \<Longrightarrow> sockaddr_ok sa" "fits c (Msgint_attr ty l h) \<Longrightarrow> length h = 20"
  by (cases c; simp add: fits_def)+

lemma wire_dvd: "sendable a \<Longrightarrow> length (mh_tsx_id hdr) = 12 \<Longrightarrow> 4 dvd length (attr_wire pc hdr a)"
proof (cases "(pc, hdr, a)" rule: attr_wire.cases)
  case (5 pc' hdr' ty l v)
  then show ?thesis using wire_length(1) [of pc hdr ty l v] by (simp add: align4_add(4) del: attr_wire.simps)
next
  case (9 pc' hdr' ty l e v)
  then show ?thesis using wire_length(2) [of pc hdr ty l e v] by (simp add: align4_add(4) del: attr_wire.simps)
next
  case (10 pc' hdr' ty l us)
  then show ?thesis using wire_length(3) [of pc hdr ty l us] by (simp add: align4_add(4) del: attr_wire.simps)
next
  case (11 pc' hdr' ty l m v)
  then show ?thesis using wire_length(4) [of pc hdr ty l m v] by (simp add: align4_add(4) del: attr_wire.simps)
qed (auto simp: sendable_def attr_typed_def xor_bytes_length xor_key_def split: option.splits dest!: fits_sizes)

lemma wires_dvd: "list_all sendable as \<Longrightarrow> length (mh_tsx_id hdr) = 12 \<Longrightarrow> 4 dvd length (wires pc hdr as)"
  by (induction as) (simp_all add: wire_dvd)

lemma hdr_reads:
  assumes "length (mh_tsx_id hdr) = 12"
  shows "rd8 (hdr_wire hdr l @ x) 0 = Done (ucast (drop_bit 8 (mh_type hdr)))" "rd16 (hdr_wire hdr l @ x) 2 = Done l"
    "rd32 (hdr_wire hdr l @ x) 4 = Done (mh_magic hdr)" "decode_hdr (hdr_wire hdr l @ x) = Done (hdr\<lparr>mh_length := l\<rparr>)"
  using assms by (simp_all add: decode_hdr_def hdr_wire_def rd8_def rd16_def rd32_def rd_bytes_def put16_def put32_def)

text \<open>A packet that ends in a FINGERPRINT passes the check.\<close>

lemma type_octet:
  fixes t :: u16
  assumes "t < 0x200"
  shows "(ucast (drop_bit 8 t) :: u8) = 0 \<or> (ucast (drop_bit 8 t) :: u8) = 1"
proof -
  have "unat t < 512" using assms by (simp add: word_less_nat_alt)
  then have "unat t div 2 ^ 8 < 2" by simp
  then have "unat (drop_bit 8 t) < 2" by (simp only: unat_drop_bit_eq) (simp only: drop_bit_eq_div)
  then have "unat (ucast (drop_bit 8 t) :: u8) < 2" by (simp only: unsigned_ucast_eq) (simp add: take_bit_eq_mod)
  then show ?thesis unfolding word_unat_eq_iff unat_0 unat_1 by linarith
qed

lemma tail_reads:
  fixes w :: "u8 list" and t l :: u16 and v :: u32
  defines "pdu \<equiv> w @ put16 t @ put16 l @ put32 v"
  shows "rd16 pdu (length w) = Done t" "rd16 pdu (length w + 2) = Done l" "rd32 pdu (length w + 4) = Done v" "rd_bytes pdu 0 (length w) = Done w"
  unfolding pdu_def rd_shift rd_shift0 by (simp_all add: rd16_def rd32_def put16_def put32_def rd_bytes_def)

lemma check_wire:
  fixes hdr b
  defines "w \<equiv> hdr_wire hdr (of_nat (length b + 8)) @ b"
  assumes "length (mh_tsx_id hdr) = 12" "mh_type hdr < 0x200" "length b + 8 < 65536" "4 dvd length b"
  shows "pj_stun_msg_check (w @ put16 PJ_STUN_ATTR_FINGERPRINT @ put16 4 @ put32 (crc32_calc_nt w XOR STUN_XOR_FINGERPRINT)) options = Done ()"
proof -
  let ?pdu = "w @ put16 PJ_STUN_ATTR_FINGERPRINT @ put16 4 @ put32 (crc32_calc_nt w XOR STUN_XOR_FINGERPRINT)"
  let ?l = "of_nat (length b + 8) :: u16"
  have lw: "length w = 20 + length b" using assms(2) by (simp add: w_def)
  have ul: "unat ?l = length b + 8" by (rule unat_small16 [OF assms(4)])
  have h: "rd8 ?pdu 0 = Done (ucast (drop_bit 8 (mh_type hdr)))" "rd16 ?pdu 2 = Done ?l" "rd32 ?pdu 4 = Done (mh_magic hdr)"
    unfolding w_def append.assoc by (rule hdr_reads [OF assms(2)])+
  have p: "unat ?l + 20 - 8 = length w" "length ?pdu = unat ?l + 20" "unat ?l mod 4 = 0" using ul lw assms(5) by auto
  show ?thesis
    unfolding pj_stun_msg_check_def h pbind.simps Let_def p(1,3) tail_reads using type_octet [OF assms(3)] p(2) by (auto simp: crc_table_bitwise)
qed

lemma decode_stun_wire:
  assumes "list_all sendable as" "length (mh_tsx_id hdr) = 12" "length (wires pc hdr as) < 65536" "length as \<le> PJ_STUN_MAX_ATTR"
    and "positions_ok False False as" and c: "options AND PJ_STUN_CHECK_PACKET = 0 \<or> pj_stun_msg_check (stun_wire pc hdr as) options = Done ()"
  shows "pj_stun_msg_decode se (stun_wire pc hdr as) options resp =
    (Done (\<lparr>sm_hdr = hdr\<lparr>mh_length := of_nat (length (wires pc hdr as))\<rparr>, sm_attr = map (received pc hdr) as\<rparr>, 20 + length (wires pc hdr as)), None)"
proof -
  let ?l = "of_nat (length (wires pc hdr as)) :: u16"
  let ?hdr = "hdr\<lparr>mh_length := ?l\<rparr>"
  have ul: "unat ?l = length (wires pc hdr as)" by (rule unat_small16 [OF assms(3)])
  have "rd16 (stun_wire pc hdr as) 2 = Done ?l" "length (stun_wire pc hdr as) = unat ?l + 20"
    using hdr_reads(2) [OF assms(2)] ul assms(2) by (simp_all add: stun_wire_def)
  then have "decode_precheck (stun_wire pc hdr as) options = Done ()" using c by (auto simp: decode_precheck_def Let_def)
  moreover have "decode_hdr (stun_wire pc hdr as) = Done ?hdr" unfolding stun_wire_def by (rule hdr_reads(4) [OF assms(2)])
  moreover have "attr_wire pc ?hdr = attr_wire pc hdr" "received pc ?hdr = received pc hdr" by (intro ext, simp)+
  then have "wires pc ?hdr as = wires pc hdr as" "map (received pc ?hdr) as = map (received pc hdr) as" by (simp_all add: wires_def)
  then have "decode_attrs se (stun_wire pc hdr as) ?hdr want 20 (unat ?l) False False [] = (Done (map (received pc hdr) as, 20 + length (wires pc hdr as)), None)" for want
    using decode_attrs_wire [of as ?hdr pc "[]" False False se "hdr_wire hdr ?l" "[]" want] assms ul by (simp add: stun_wire_def)
  moreover have "stun_wire pc hdr as \<noteq> []" by (simp add: stun_wire_def hdr_wire_def put16_def)
  ultimately show ?thesis by (simp add: pj_stun_msg_decode_def)
qed

lemma check_sealed:
  assumes "list_all sendable base" "length (mh_tsx_id hdr) = 12" "mh_type hdr < 0x200" "length (wires pc hdr (sealed pc hdr base k (Some l))) < 65536"
  shows "pj_stun_msg_check (stun_wire pc hdr (sealed pc hdr base k (Some l))) options = Done ()"
proof -
  let ?as = "base @ mac_attr hdr (wires pc hdr base) k"
  let ?b = "wires pc hdr ?as"
  have "?as = sealed pc hdr base k None" by (simp add: sealed_def crc_attr_def Let_def)
  then have "list_all sendable ?as" using sealed_sendable [OF assms(1)] by metis
  then have d: "4 dvd length ?b" by (rule wires_dvd [OF _ assms(2)])
  have "sealed pc hdr base k (Some l) = ?as @ crc_attr hdr ?b (Some l)" by (simp add: sealed_def Let_def)
  then have "stun_wire pc hdr (sealed pc hdr base k (Some l)) = (hdr_wire hdr (of_nat (length ?b + 8)) @ ?b) @ put16 PJ_STUN_ATTR_FINGERPRINT @ put16 4 @
      put32 (crc32_calc_nt (hdr_wire hdr (of_nat (length ?b + 8)) @ ?b) XOR STUN_XOR_FINGERPRINT)" "length ?b + 8 < 65536"
    using assms(4) by (simp_all add: stun_wire_def crc_attr_def ac_simps)
  then show ?thesis using check_wire [OF assms(2,3) _ d, of options] by simp
qed

section \<open>The memory of the encoder\<close>

fun is_sockaddr :: "pj_stun_attr \<Rightarrow> bool" where
  "is_sockaddr (Sockaddr_attr _ _ _ _) = True"
| "is_sockaddr _ = False"

text \<open>Values whose size does not overflow \<^verbatim>\<open>unsigned\<close>.\<close>

fun small_attr :: "pj_stun_attr \<Rightarrow> bool" where
  "small_attr (String_attr _ _ v) = (length v < 4294967280)"
| "small_attr (Errcode_attr _ _ _ v) = (length v < 4294967280)"
| "small_attr (Binary_attr _ _ _ v) = (length v < 4294967280)"
| "small_attr _ = True"

lemma align4_less: "align4 n < n + 4"
  by (simp add: align4_def)

lemma encode_too_small:
  assumes "fits c a" "small_attr a" "\<not> is_sockaddr a" "n < length (attr_wire pc hdr a)"
  shows "encode_attr c pc a mem buf n hdr = Fail PJ_ETOOSMALL"
proof (cases c)
  case C_string
  then obtain ty l v where a: "a = String_attr ty l v" using assms by (auto simp: fits_cases)
  then show ?thesis using assms C_string wire_length(1) [of pc hdr ty l v] align4_less [of "length v"]
    by (simp add: encode_attr_def encode_string_attr_def Let_def stun_consts align4_add del: attr_wire.simps)
next
  case C_errcode
  then obtain ty l e v where a: "a = Errcode_attr ty l e v" using assms by (auto simp: fits_cases)
  then show ?thesis using assms C_errcode wire_length(2) [of pc hdr ty l e v] align4_less [of "length v"]
    by (simp add: encode_attr_def encode_errcode_attr_def Let_def stun_consts align4_add del: attr_wire.simps)
next
  case C_unknown
  then obtain ty l us where a: "a = Unknown_attr ty l us" "length us \<le> 16" using assms by (auto simp: fits_cases stun_consts)
  then show ?thesis using assms C_unknown wire_length(3) [of pc hdr ty l us] align4_less [of "length us * 2"]
    by (simp add: encode_attr_def encode_unknown_attr_def Let_def stun_consts align4_add del: attr_wire.simps)
next
  case C_binary
  then obtain ty l m v where a: "a = Binary_attr ty l m v" using assms by (auto simp: fits_cases)
  then show ?thesis using assms C_binary wire_length(4) [of pc hdr ty l m v] align4_less [of "length v"]
    by (simp add: encode_attr_def encode_binary_attr_def Let_def stun_consts align4_add del: attr_wire.simps)
qed (use assms in \<open>auto simp: fits_cases encode_attr_def encode_msgint_attr_def encode_uint_attr_def encode_uint64_attr_def encode_empty_attr_def
    stun_consts\<close>)

lemma sockaddr_too_small:
  assumes "fits c a" "is_sockaddr a" "n < length (attr_wire pc hdr a) \<or> \<not> known_family a" "length (mh_tsx_id hdr) = 12" "buf + 2 \<le> length mem"
  shows "safe (encode_attr c pc a mem buf n hdr) P"
  using assms
  by (cases "(pc, hdr, a)" rule: attr_wire.cases; cases c)
    (auto simp: fits_def encode_attr_def encode_sockaddr_attr_def wr_ok xor_bytes_length xor_key_def)

lemma encode_attr_safe:
  assumes "fits c a" "small_attr a" "length (mh_tsx_id hdr) = 12" "n < 4294967296" "buf + n \<le> length mem" "is_sockaddr a \<Longrightarrow> buf + 2 \<le> length mem"
  shows "safe (encode_attr c pc a mem buf n hdr) (\<lambda>(mem', p). length mem' = length mem \<and> p \<le> n)"
proof (cases "n < length (attr_wire pc hdr a) \<or> \<not> known_family a")
  case True
  show ?thesis
  proof (cases "is_sockaddr a")
    case True
    then show ?thesis using sockaddr_too_small [OF assms(1) True _ assms(3), of n pc buf mem] assms(6) \<open>n < _ \<or> _\<close> by blast
  next
    case False
    then have "n < length (attr_wire pc hdr a)" using True by (cases a) auto
    then show ?thesis using encode_too_small [OF assms(1,2) False] by simp
  qed
next
  case False
  then show ?thesis using encode_attr_wire [OF assms(1) _ assms(3,4), of pc buf mem] assms(5) by simp
qed

lemma encode_any_safe:
  assumes "attr_typed a" "small_attr a" "length (mh_tsx_id hdr) = 12" "buf + n \<le> length mem" "is_sockaddr a \<Longrightarrow> buf + 2 \<le> length mem"
  shows "safe (encode_any pc a mem buf n hdr) (\<lambda>(mem', p). length mem' = length mem \<and> p \<le> n)"
proof -
  have u: "u32t n \<le> n" "u32t n < 4294967296" by (simp_all add: u32t_def)
  have s: "safe (encode_attr c pc a mem buf (u32t n) hdr) (\<lambda>(mem', p). length mem' = length mem \<and> p \<le> n)" if "fits c a" for c
    using encode_attr_safe [OF that assms(2,3) u(2), of buf mem pc] assms(4,5) u(1) by (auto elim!: safe_mono)
  show ?thesis
  proof (cases "find_attr_desc (ah_type a)")
    case None
    then show ?thesis using s [of C_binary] assms(1) by (auto simp: encode_any_def encode_attr_def attr_typed_def generic_cases fits_def)
  next
    case (Some d)
    then show ?thesis using s [of "snd d"] assms(1) by (auto simp: encode_any_def attr_typed_def split: prod.splits)
  qed
qed

lemma encode_attrs_safe:
  assumes "list_all attr_typed as" "list_all small_attr as" "length (mh_tsx_id hdr) = 12" "buf + n \<le> length mem"
    and "list_ex is_sockaddr as \<Longrightarrow> buf + n + 2 \<le> length mem"
  shows "safe (encode_attrs pc hdr as mem buf n i) (\<lambda>(mem', b, n', k). length mem' = length mem \<and> b + n' = buf + n \<and> buf \<le> b \<and> i \<le> k \<and> k \<le> i + length as)"
  using assms(1,2,4,5)
proof (induction as arbitrary: mem buf n i)
  case (Cons a as)
  have a: "safe (encode_any pc a mem buf n hdr) (\<lambda>(mem', p). length mem' = length mem \<and> p \<le> n)"
    using Cons.prems by (intro encode_any_safe assms(3)) auto
  have "safe (encode_attrs pc hdr as mem' (buf + p) (n - p) (i + 1))
      (\<lambda>(m, b, n', k). length m = length mem \<and> b + n' = buf + n \<and> buf \<le> b \<and> i \<le> k \<and> k \<le> i + length (a # as))"
    if "length mem' = length mem" "p \<le> n" for mem' p
    using Cons.IH [of "buf + p" "n - p" mem' "i + 1"] that Cons.prems by (auto elim!: safe_mono)
  then show ?case using a Cons.prems(3) by (auto elim!: safe_mono)
qed simp

definition points_to :: "pj_stun_attr list \<Rightarrow> u16 \<Rightarrow> nat option \<Rightarrow> bool" where
  "points_to attrs ty x \<longleftrightarrow> (\<forall>m. x = Some m \<longrightarrow> m < length attrs \<and> ah_type (attrs ! m) = ty)"

lemma scan_rest_safe:
  assumes "drop i attrs = as" "points_to attrs PJ_STUN_ATTR_MESSAGE_INTEGRITY mi" "points_to attrs PJ_STUN_ATTR_FINGERPRINT fp"
  shows "safe (scan_rest as i mi fp) (\<lambda>(j, mi', fp'). j = i + length as \<and> points_to attrs PJ_STUN_ATTR_MESSAGE_INTEGRITY mi' \<and>
    points_to attrs PJ_STUN_ATTR_FINGERPRINT fp')"
  using assms
proof (induction as arbitrary: i mi fp)
  case (Cons a as)
  have d: "drop (i + 1) attrs = as" "i < length attrs" "attrs ! i = a"
    using Cons.prems(1) by (metis drop_Suc list.sel(3) drop_drop plus_1_eq_Suc add.commute tl_drop, metis drop_all leI list.simps(3), metis hd_drop_conv_nth list.sel(1) drop_all leI list.simps(3))
  have i: "points_to attrs ty (Some i)" if "ah_type a = ty" for ty using that d by (simp add: points_to_def)
  show ?case using Cons.IH [OF d(1)] Cons.prems(2,3) i by (auto elim!: safe_mono)
qed simp

lemma msgint_position_after:
  assumes "i = length attrs \<or> i = length attrs + 1" "length attrs \<le> PJ_STUN_MAX_ATTR"
  shows "msgint_position attrs i f = Done f"
proof -
  have "\<not> i < u32_sub (length attrs) 2 \<and> i \<noteq> u32_sub (length attrs) 2" if "length attrs > 1" using that assms by (auto simp: stun_consts)
  moreover have "i \<noteq> u32_sub (length attrs) 2" if "\<not> length attrs > 1" using that assms by (cases "length attrs") (auto simp: u32_sub_def u32_def)
  ultimately show ?thesis by (cases "length attrs > 1") (auto simp: msgint_position_def Let_def)
qed

lemma seal_typed:
  "attr_typed a \<Longrightarrow> ah_type a = PJ_STUN_ATTR_MESSAGE_INTEGRITY \<Longrightarrow> \<exists>l h. a = Msgint_attr PJ_STUN_ATTR_MESSAGE_INTEGRITY l h"
  "attr_typed a \<Longrightarrow> ah_type a = PJ_STUN_ATTR_FINGERPRINT \<Longrightarrow> \<exists>l v. a = Uint_attr PJ_STUN_ATTR_FINGERPRINT l v"
  by (auto simp: attr_typed_def seal_desc fits_cases)

lemma stun_hmac_length: "length (stun_hmac k d) = 20"
  by (simp add: stun_hmac_def pj_hmac_sha1_final_def pj_sha1_final_def sha1_digest_def case_prod_beta Let_def)

lemma encode_seal_safe:
  assumes "list_all attr_typed attrs" "length attrs \<le> PJ_STUN_MAX_ATTR" "20 \<le> buf" "buf + n \<le> length mem"
    and "i = length attrs \<or> i = length attrs + 1" "points_to attrs PJ_STUN_ATTR_MESSAGE_INTEGRITY mi" "points_to attrs PJ_STUN_ATTR_FINGERPRINT fp"
  shows "safe (pbind (encode_integrity attrs mem buf n i mi fp key) (\<lambda>(attrs, mem, buf, n, fp). encode_fingerprint attrs mem buf n fp)) (\<lambda>_. True)"
proof -
  have u: "u32t n' \<le> n'" for n' by (simp add: u32t_def)
  have f: "safe (encode_fingerprint attrs' mem' b n' fp) (\<lambda>_. True)"
    if h: "length mem' = length mem" "b + n' \<le> length mem" "20 \<le> b" "points_to attrs' PJ_STUN_ATTR_FINGERPRINT fp" "list_all attr_typed attrs'"
    for attrs' mem' b n'
  proof (cases fp)
    case (Some k)
    then obtain l v where a: "attrs' ! k = Uint_attr PJ_STUN_ATTR_FINGERPRINT l v"
      using h(4,5) seal_typed(2) [of "attrs' ! k"] by (auto simp: points_to_def list_all_length)
    have "safe (wr_bytes mem' 2 (put16 x)) P = P (mem_put mem' 2 (put16 x))" for x P using h by (simp add: wr_ok)
    moreover have "length (mem_put mem' 2 (put16 x)) = length mem" for x using h by simp
    ultimately show ?thesis using h Some a u [of n'] by (simp add: encode_fingerprint_def encode_uint_attr_def wr_ok Let_def)
  qed (simp add: encode_fingerprint_def)
  show ?thesis
  proof (cases mi)
    case None
    then show ?thesis using f [of mem buf n attrs] assms by (simp add: encode_integrity_def)
  next
    case (Some m)
    then obtain l h where a: "attrs ! m = Msgint_attr PJ_STUN_ATTR_MESSAGE_INTEGRITY l h" "m < length attrs"
      using assms(1,6) seal_typed(1) [of "attrs ! m"] by (auto simp: points_to_def list_all_length)
    let ?a = "\<lambda>d. Msgint_attr PJ_STUN_ATTR_MESSAGE_INTEGRITY l (stun_hmac (the key) d)"
    have t: "list_all attr_typed (attrs[m := ?a d])" "points_to (attrs[m := ?a d]) PJ_STUN_ATTR_FINGERPRINT fp" for d
      using assms(1,7) a by (auto simp: list_all_length nth_list_update points_to_def attr_typed_def seal_desc fits_def stun_hmac_length)
    show ?thesis
      using f [OF _ _ _ t(2,1)] assms(3,4) a(1) Some u [of n] msgint_position_after [OF assms(5,2), of fp]
      by (cases key) (auto simp: encode_integrity_def encode_msgint_attr_def wr_ok stun_hmac_length Let_def)
  qed
qed

lemma encode_safe:
  assumes "msg_typed msg" "list_all small_attr (sm_attr msg)" "n \<le> length mem" "list_ex is_sockaddr (sm_attr msg) \<Longrightarrow> n + 2 \<le> length mem"
  shows "safe (pj_stun_msg_encode pc msg mem n options key) (\<lambda>_. True)"
proof (cases "n < 20 \<or> options \<noteq> 0")
  case True
  then show ?thesis by (auto simp: pj_stun_msg_encode_def Let_def)
next
  case False
  let ?as = "sm_attr msg" and ?hdr = "sm_hdr msg"
  have t: "list_all attr_typed ?as" "length ?as \<le> PJ_STUN_MAX_ATTR" "length (mh_tsx_id ?hdr) = 12" using assms(1) by (simp_all add: msg_typed_def)
  have s: "list_ex is_sockaddr ?as \<Longrightarrow> 2 + n \<le> length mem" using assms(4) by simp
  define m0 where "m0 = mem_put mem 0 (hdr_wire ?hdr 0)"
  have w: "wr_bytes mem 0 (hdr_wire ?hdr 0) = Done m0" "length m0 = length mem" using False assms(3) t(3) by (simp_all add: wr_ok m0_def)
  have loop: "safe (encode_attrs pc ?hdr ?as m0 20 (n - 20) 0)
      (\<lambda>(mem', b, n', k). length mem' = length mem \<and> b + n' = n \<and> 20 \<le> b \<and> k \<le> length ?as)"
    using encode_attrs_safe [OF t(1) assms(2) t(3), of 20 "n - 20" m0 pc 0] w(2) False assms(3) s by (auto elim!: safe_mono)
  have rest: "safe (pbind (scan_rest (drop (k + 1) ?as) (k + 1) mi fp) (\<lambda>(i, mi, fp). pbind (wr_bytes mem' 2 (put16 (l mi))) (\<lambda>mem'.
      pbind (encode_integrity ?as mem' b n' i mi fp key) (\<lambda>(attrs, mem', b, n', fp). pbind (encode_fingerprint attrs mem' b n' fp)
      (\<lambda>(attrs, mem', b). Done (g attrs mem' b)))))) (\<lambda>_. True)"
    if "length mem' = length mem" "b + n' = n" "20 \<le> b" "k \<le> length ?as" "points_to ?as PJ_STUN_ATTR_MESSAGE_INTEGRITY mi" "points_to ?as PJ_STUN_ATTR_FINGERPRINT fp"
    for mem' b n' k mi fp l and g :: "pj_stun_attr list \<Rightarrow> u8 list \<Rightarrow> nat \<Rightarrow> pj_stun_msg \<times> u8 list \<times> nat"
  proof -
    have "safe (encode_integrity ?as (mem_put mem' 2 (put16 x)) b n' j mi' fp' key)
        (\<lambda>r. safe (case r of (attrs, mem', b, n', fp) \<Rightarrow> encode_fingerprint attrs mem' b n' fp) (\<lambda>_. True))"
      if "j = length ?as \<or> j = length ?as + 1" "points_to ?as PJ_STUN_ATTR_MESSAGE_INTEGRITY mi'" "points_to ?as PJ_STUN_ATTR_FINGERPRINT fp'" for x j mi' fp'
      using encode_seal_safe [OF t(1,2) _ _ that, of b n' "mem_put mem' 2 (put16 x)" key] \<open>length mem' = length mem\<close> \<open>b + n' = n\<close> \<open>20 \<le> b\<close> assms(3) by simp
    note i = this
    have j: "k + 1 + length (drop (k + 1) ?as) = length ?as \<or> k + 1 + length (drop (k + 1) ?as) = length ?as + 1" using that(4) by auto
    show ?thesis
      using scan_rest_safe [OF refl that(5,6), of "k + 1"] that(1-4) assms(3) i [OF j] by (auto simp: wr_ok elim!: safe_mono)
  qed
  have found: "points_to ?as ty (if k < length ?as \<and> ah_type (?as ! k) = ty then Some k else None)" for ty k by (simp add: points_to_def)
  have c: "(n = 0) = False" "(options \<noteq> 0) = False" "(n < 20) = False" using False by auto
  show ?thesis
    unfolding pj_stun_msg_encode_def Let_def hdr_wire_def [symmetric] w c if_False pbind.simps
    by (rule safe_bindI [OF loop], clarify, rule rest, (assumption | rule found | simp only:)+)
qed

text \<open>A message for the examples: a Binding request with a priority and both seals.\<close>

definition ex_hdr :: pj_stun_msg_hdr where
  "ex_hdr = \<lparr>mh_type = 1, mh_length = 0, mh_magic = PJ_STUN_MAGIC, mh_tsx_id = replicate 12 7\<rparr>"

definition ex_attr :: pj_stun_attr where
  "ex_attr = Uint_attr 0x0024 4 5"

lemma ex_facts: "length (mh_tsx_id ex_hdr) = 12" "mh_type ex_hdr < 0x200" "plain_attr ex_attr" "sendable ex_attr" "length (attr_wire pc hdr ex_attr) = 8"
proof -
  have "find_attr_desc 0x0024 = Some (''PRIORITY'', C_uint)"
    by (simp add: find_attr_desc_def mandatory_attr_desc_def PJ_STUN_ATTR_END_MANDATORY_ATTR_def)
  then show "plain_attr ex_attr" "sendable ex_attr"
    by (simp_all add: ex_attr_def plain_attr_def sendable_def attr_typed_def fits_def PJ_STUN_ATTR_MESSAGE_INTEGRITY_def PJ_STUN_ATTR_FINGERPRINT_def)
qed (simp_all add: ex_hdr_def ex_attr_def)

lemma ex_sealed: "length (wires pc hdr (sealed pc hdr [ex_attr] (used_key (Some h) key) (map_option fst (Some (4, 0))))) = 40"
  by (simp add: sealed_def Let_def ex_facts used_key_def)

section \<open>Properties\<close>

text \<open>C20: The encoder produces the wire format: the header, the attributes in order, the HMAC-SHA1 of RFC 2104 over
  everything before it with a header length that includes it, and the CRC-32 likewise.  It changes no byte behind
  the message, and leaves both values and the length in the message.\<close>

theorem stun_encode_wire_format:
  fixes base mi fp key hdr pc
  defines "as \<equiv> sealed pc hdr base (used_key mi key) (map_option fst fp)"
  assumes "list_all plain_attr base" "length (mh_tsx_id hdr) = 12" "length (unsealed base mi fp) \<le> PJ_STUN_MAX_ATTR"
    and "length key < 2 ^ 29" "20 + length (wires pc hdr as) \<le> n" "n \<le> length mem" "n < 2 ^ 29"
  shows "pj_stun_msg_encode pc \<lparr>sm_hdr = hdr, sm_attr = unsealed base mi fp\<rparr> mem n 0 (Some key) =
    Done (\<lparr>sm_hdr = hdr\<lparr>mh_length := of_nat (length (wires pc hdr as))\<rparr>, sm_attr = as\<rparr>, stun_wire pc hdr as @ drop (20 + length (wires pc hdr as)) mem,
      20 + length (wires pc hdr as))"
  using encode_wire [OF assms(2-5), of pc n mem] assms(1,3,6-8) by (simp add: mem_put_def stun_wire_def)

theorem stun_encode_wire_format_witness:
  "\<exists>as. pj_stun_msg_encode 0 \<lparr>sm_hdr = ex_hdr, sm_attr = unsealed [ex_attr] (Some (replicate 20 0)) (Some (4, 0))\<rparr> (replicate 100 0) 100 0 (Some [1, 2, 3]) =
    Done (\<lparr>sm_hdr = ex_hdr\<lparr>mh_length := 40\<rparr>, sm_attr = as\<rparr>, stun_wire 0 ex_hdr as @ replicate 40 0, 60)"
  using stun_encode_wire_format [of "[ex_attr]" ex_hdr "Some (replicate 20 0)" "Some (4, 0)" "[1, 2, 3]" 0 100 "replicate 100 0"]
  by (simp only: ex_sealed) (auto simp: ex_facts unsealed_def stun_consts)



text \<open>C35: Every attribute of a decoded message has the structure that its descriptor expects, there is room for all of
  them, the parsed length is that of the header, and a clone of the message is the message.\<close>

theorem stun_decode_typed:
  assumes "pj_stun_msg_decode se pdu options resp = (Done (msg, n), r)"
  shows "msg_typed msg \<and> n = 20 + unat (mh_length (sm_hdr msg)) \<and> n \<le> length pdu \<and> pj_stun_msg_clone msg = Done msg"
proof -
  have "fst (pj_stun_msg_decode se pdu options resp) \<noteq> Fault" using assms by simp
  then have "4 \<le> length pdu \<or> options AND PJ_STUN_CHECK_PACKET \<noteq> 0 \<or> pdu = []" unfolding decode_fault_iff by auto
  moreover have "pdu \<noteq> []" using assms by (auto simp: pj_stun_msg_decode_def)
  ultimately show ?thesis using decode_safe [of pdu options se resp] assms clone_msg_typed [of msg] by auto
qed

theorem stun_decode_typed_witness:
  "msg_typed \<lparr>sm_hdr = ex_hdr\<lparr>mh_length := 8\<rparr>, sm_attr = [ex_attr]\<rparr>"
proof -
  have "pj_stun_msg_decode (\<lambda>_. '''') (stun_wire 0 ex_hdr [ex_attr]) 0 True = (Done (\<lparr>sm_hdr = ex_hdr\<lparr>mh_length := 8\<rparr>, sm_attr = [ex_attr]\<rparr>, 28), None)"
    using decode_stun_wire [of "[ex_attr]" ex_hdr 0 0 "\<lambda>_. ''''" True] positions_plain_only [of "[ex_attr]"]
    by (simp add: ex_facts stun_consts) (simp add: ex_attr_def)
  from stun_decode_typed [OF this] show ?thesis by blast
qed

text \<open>The encoder stays inside the caller's buffer, whatever the sizes, for messages without socket addresses; with
  one it may write up to two bytes behind a buffer that is full.\<close>

theorem stun_encode_memory_safe:
  assumes "msg_typed msg" "list_all small_attr (sm_attr msg)" "n \<le> length mem" "list_ex is_sockaddr (sm_attr msg) \<longrightarrow> n + 2 \<le> length mem"
  shows "pj_stun_msg_encode pc msg mem n options key \<noteq> Fault"
  by (rule safe_not_fault [OF encode_safe]) (use assms in auto)

theorem stun_encode_memory_safe_witness:
  "pj_stun_msg_encode 0 \<lparr>sm_hdr = ex_hdr, sm_attr = [ex_attr]\<rparr> (replicate 25 0) 25 0 None \<noteq> Fault"
  by (rule stun_encode_memory_safe) (use ex_facts(3) in \<open>simp_all add: msg_typed_def plain_attr_def ex_facts(1) stun_consts ex_attr_def\<close>)

text \<open>The two bytes: a socket address that follows a full buffer is written before its size is compared.\<close>

theorem stun_encode_sockaddr_overflow:
  assumes "length mem = 20" "length (mh_tsx_id hdr) = 12" "a = Sockaddr_attr 0x0001 l x sa"
  shows "pj_stun_msg_encode pc \<lparr>sm_hdr = hdr, sm_attr = a # as\<rparr> mem 20 0 key = Fault"
proof -
  have "find_attr_desc 0x0001 = Some (''MAPPED-ADDRESS'', C_sockaddr)"
    by (simp add: find_attr_desc_def mandatory_attr_desc_def PJ_STUN_ATTR_END_MANDATORY_ATTR_def)
  moreover have "wr_bytes mem 0 (hdr_wire hdr 0) = Done (mem_put mem 0 (hdr_wire hdr 0))" "length (mem_put mem 0 (hdr_wire hdr 0)) = 20"
    using assms(1,2) by (simp_all add: wr_ok)
  ultimately show ?thesis
    unfolding pj_stun_msg_encode_def Let_def pj_stun_msg.simps hdr_wire_def [symmetric] assms(3)
    by (simp add: encode_any_def encode_attr_def encode_sockaddr_attr_def wr_bytes_def PJ_STUN_ATTR_MESSAGE_INTEGRITY_def PJ_STUN_ATTR_FINGERPRINT_def)
qed

theorem stun_encode_sockaddr_overflow_witness:
  "pj_stun_msg_encode 0 \<lparr>sm_hdr = ex_hdr, sm_attr = [Sockaddr_attr 0x0001 8 False (Sa_inet 80 [1, 2, 3, 4])]\<rparr> (replicate 20 0) 20 0 None = Fault"
  by (rule stun_encode_sockaddr_overflow [OF _ _ refl]) (simp_all add: ex_facts(1))

lemma encode_attrs_stop: "s \<in> {PJ_STUN_ATTR_MESSAGE_INTEGRITY, PJ_STUN_ATTR_FINGERPRINT} \<Longrightarrow> ah_type a = s \<Longrightarrow>
    encode_attrs pc hdr (base @ a # as) mem buf n i = encode_attrs pc hdr (base @ a # bs) mem buf n i"
  by (induction base arbitrary: mem buf n i) (auto intro!: arg_cong2 [where f = pbind])

lemma encode_attrs_index:
  assumes "list_all (\<lambda>b. ah_type b \<notin> {PJ_STUN_ATTR_MESSAGE_INTEGRITY, PJ_STUN_ATTR_FINGERPRINT}) base"
    and "encode_attrs pc hdr (base @ a # as) mem buf n i = Done (mem', buf', n', k)"
    and "ah_type a = PJ_STUN_ATTR_MESSAGE_INTEGRITY"
  shows "k = i + length base"
  using assms by (induction base arbitrary: mem buf n i) (fastforce simp: pbind_Done split: if_splits prod.splits)+

lemma scan_rest_skip:
  "list_all (\<lambda>b. ah_type b \<notin> {PJ_STUN_ATTR_MESSAGE_INTEGRITY, PJ_STUN_ATTR_FINGERPRINT}) as \<Longrightarrow> scan_rest as i mi None = Done (i + length as, mi, None)"
  by (induction as arbitrary: i) auto

lemma integrity_append:
  assumes "encode_integrity attrs m b n (length attrs) (Some k) None key = Done (as, r)" "k < length attrs" "length (attrs @ extra) \<le> PJ_STUN_MAX_ATTR"
  shows "encode_integrity (attrs @ extra) m b n (length (attrs @ extra)) (Some k) None key = Done (as @ extra, r)"
  using assms msgint_position_after [of "length attrs" attrs None] msgint_position_after [of "length (attrs @ extra)" "attrs @ extra" None]
  by (auto simp: encode_integrity_def pbind_Done nth_append list_update_append1 Let_def split: option.splits pj_stun_attr.splits prod.splits)

lemma integrity_no_fingerprint:
  "encode_integrity attrs m b n (length attrs) (Some k) None key = Done (as, m', b', n', f) \<Longrightarrow> length attrs \<le> PJ_STUN_MAX_ATTR \<Longrightarrow> f = None"
  using msgint_position_after [of "length attrs" attrs None]
  by (cases "attrs ! k") (auto simp: encode_integrity_def pbind_Done Let_def split: option.splits)

text \<open>Attributes behind MESSAGE-INTEGRITY other than FINGERPRINT are left out of the packet without an error: the tests
  of its position come after the loops have moved the index to the end.\<close>

theorem stun_encode_drops_after_integrity:
  assumes "list_all (\<lambda>b. ah_type b \<notin> {PJ_STUN_ATTR_MESSAGE_INTEGRITY, PJ_STUN_ATTR_FINGERPRINT}) (base @ extra)"
    and "ah_type mi = PJ_STUN_ATTR_MESSAGE_INTEGRITY" "length (base @ mi # extra) \<le> PJ_STUN_MAX_ATTR"
    and e: "pj_stun_msg_encode pc \<lparr>sm_hdr = hdr, sm_attr = base @ [mi]\<rparr> mem n options key = Done (\<lparr>sm_hdr = hdr', sm_attr = as\<rparr>, mem', len)"
  shows "pj_stun_msg_encode pc \<lparr>sm_hdr = hdr, sm_attr = base @ mi # extra\<rparr> mem n options key = Done (\<lparr>sm_hdr = hdr', sm_attr = as @ extra\<rparr>, mem', len)"
proof -
  let ?A = "base @ [mi]" and ?B = "base @ mi # extra"
  have x: "list_all (\<lambda>b. ah_type b \<notin> {PJ_STUN_ATTR_MESSAGE_INTEGRITY, PJ_STUN_ATTR_FINGERPRINT}) base"
    "list_all (\<lambda>b. ah_type b \<notin> {PJ_STUN_ATTR_MESSAGE_INTEGRITY, PJ_STUN_ATTR_FINGERPRINT}) extra" using assms(1) by simp_all
  have o: "n \<noteq> 0" "options = 0" "\<not> n < 20" using e by (auto simp: pj_stun_msg_encode_def Let_def split: if_splits)
  from e o obtain m0 m1 b n1 k where w: "wr_bytes mem 0 (hdr_wire hdr 0) = Done m0"
    and l: "encode_attrs pc hdr ?A m0 20 (n - 20) 0 = Done (m1, b, n1, k)"
    by (auto simp: pj_stun_msg_encode_def Let_def pbind_Done hdr_wire_def)
  have k: "k = length base" using encode_attrs_index [OF x(1) l assms(2)] by simp
  have lB: "encode_attrs pc hdr ?B m0 20 (n - 20) 0 = Done (m1, b, n1, k)" using l assms(2) encode_attrs_stop [of PJ_STUN_ATTR_MESSAGE_INTEGRITY mi pc hdr base extra m0 20 "n - 20" 0 "[]"] by simp
  from e o w l k assms(2) obtain m2 as' m3 b3 n3 f where s: "wr_bytes m1 2 (put16 (of_nat (b - 20 + 24))) = Done m2"
    and i: "encode_integrity ?A m2 b n1 (length ?A) (Some k) None key = Done (as', m3, b3, n3, f)"
    and r: "encode_fingerprint as' m3 b3 n3 f = Done (as, mem', len)" "hdr' = hdr\<lparr>mh_length := of_nat (len - 20)\<rparr>"
    by (auto simp: pj_stun_msg_encode_def Let_def pbind_Done hdr_wire_def [symmetric])
  have f: "f = None" using integrity_no_fingerprint [OF i] assms(3) by simp
  have iB: "encode_integrity ?B m2 b n1 (length ?B) (Some k) None key = Done (as' @ extra, m3, b3, n3, f)"
    using integrity_append [OF i, of extra] k assms(3) by simp
  have "scan_rest (drop (Suc k) ?B) (Suc k) (Some k) None = Done (length ?B, Some k, None)"
    using scan_rest_skip [OF x(2), of "Suc k" "Some k"] k by simp
  moreover have "length base < length ?B" by simp
  ultimately show ?thesis
    using o w lB k s iB r f assms(2)
    by (simp add: pj_stun_msg_encode_def Let_def hdr_wire_def [symmetric] encode_fingerprint_def del: length_append)
qed

theorem stun_encode_drops_after_integrity_witness:
  "\<exists>as mem'. pj_stun_msg_encode 0 \<lparr>sm_hdr = ex_hdr, sm_attr = [pj_stun_msgint_attr_create, ex_attr]\<rparr> (replicate 100 0) 100 0 (Some [1]) =
    Done (\<lparr>sm_hdr = ex_hdr\<lparr>mh_length := 24\<rparr>, sm_attr = as @ [ex_attr]\<rparr>, mem', 44)"
proof -
  let ?as = "sealed 0 ex_hdr [] (used_key (Some (replicate 20 0)) [1]) (map_option fst (None :: (u16 \<times> u32) option))"
  have "length (wires 0 ex_hdr ?as) = 24" by (simp add: sealed_def crc_attr_def Let_def used_key_def)
  then have "pj_stun_msg_encode 0 \<lparr>sm_hdr = ex_hdr, sm_attr = [] @ [pj_stun_msgint_attr_create]\<rparr> (replicate 100 0) 100 0 (Some [1]) =
      Done (\<lparr>sm_hdr = ex_hdr\<lparr>mh_length := 24\<rparr>, sm_attr = ?as\<rparr>, mem_put (replicate 100 0) 0 (stun_wire 0 ex_hdr ?as), 44)"
    using encode_wire [of "[]" ex_hdr "Some (replicate 20 0)" None "[1]" 0 100 "replicate 100 0"]
    by (simp add: ex_facts unsealed_def stun_consts pj_stun_msgint_attr_create_def)
  from stun_encode_drops_after_integrity [OF _ _ _ this, of "[ex_attr]"] show ?thesis
    using ex_facts(3) by (auto simp: plain_attr_def stun_consts pj_stun_msgint_attr_create_def)
qed

text \<open>The check of a packet takes the last eight bytes for an attribute whatever they are: a request without
  attributes is refused because of the bytes of its transaction identifier.\<close>

theorem stun_check_misreads_tsx_id:
  assumes "mh_type hdr < 0x200" "mh_magic hdr = PJ_STUN_MAGIC" "mh_tsx_id hdr = t @ put16 PJ_STUN_ATTR_FINGERPRINT @ put16 l @ u"
    and "length t = 4" "length u = 4" "l \<noteq> 4"
  shows "pj_stun_msg_check (stun_wire pc hdr []) 0 = Fail PJNATH_ESTUNINATTRLEN"
proof -
  define w where "w = put16 (mh_type hdr) @ put16 0 @ put32 (mh_magic hdr) @ t"
  let ?pdu = "w @ put16 PJ_STUN_ATTR_FINGERPRINT @ put16 l @ u"
  have p: "stun_wire pc hdr [] = ?pdu" "length ?pdu = 20" "length w = 12" using assms by (simp_all add: stun_wire_def hdr_wire_def w_def)
  have "rd16 ?pdu (length w) = Done PJ_STUN_ATTR_FINGERPRINT" "rd16 ?pdu (length w + 2) = Done l"
    unfolding rd_shift rd_shift0 by (simp_all add: rd16_def put16_def)
  moreover have "\<exists>v. rd32 ?pdu 16 = Done v" using p(2) by (simp add: rd32_def)
  ultimately have r: "rd16 ?pdu 12 = Done PJ_STUN_ATTR_FINGERPRINT" "rd16 ?pdu 14 = Done l" "\<exists>v. rd32 ?pdu 16 = Done v" unfolding p(3) by simp_all
  have "length (mh_tsx_id hdr) = 12" "stun_wire pc hdr [] = hdr_wire hdr 0 @ []" using assms by (simp_all add: stun_wire_def)
  then have "rd8 ?pdu 0 = Done (ucast (drop_bit 8 (mh_type hdr)))" "rd16 ?pdu 2 = Done 0" "rd32 ?pdu 4 = Done PJ_STUN_MAGIC"
    using hdr_reads [of hdr 0 "[]"] assms(2) p(1) by simp_all
  then show ?thesis
    using type_octet [OF assms(1)] r p(2) assms(6) unfolding p(1) pj_stun_msg_check_def by auto
qed

theorem stun_check_misreads_tsx_id_witness:
  "pj_stun_msg_check (stun_wire 0 \<lparr>mh_type = 1, mh_length = 0, mh_magic = PJ_STUN_MAGIC, mh_tsx_id = [1, 2, 3, 4, 0x80, 0x28, 0, 0, 5, 6, 7, 8]\<rparr> []) 0 =
    Fail PJNATH_ESTUNINATTRLEN"
  by (rule stun_check_misreads_tsx_id [of _ "[1, 2, 3, 4]" 0 "[5, 6, 7, 8]"]) (simp_all add: PJ_STUN_ATTR_FINGERPRINT_def put16_def)

end
