(* ===== verification/Md5.thy ===== *)
theory Md5
  imports Block_Hash
begin

text \<open>
  MD5 of \<^verbatim>\<open>pjlib-util/src/pjlib-util/md5.c\<close> on a little-endian machine, where \<^verbatim>\<open>byteReverse\<close> does nothing.
  The unrolled calls of \<^verbatim>\<open>MD5STEP\<close> are a table of the core function, the word of the block, the constant and the
  shift; each call passes the four variables rotated by one place, so a step of the model returns them
  rotated.  \<^verbatim>\<open>unsigned\<close> lengths are below \<open>2 ^ 32\<close>.
\<close>

section \<open>The code\<close>

type_synonym md5_vars = "u32 \<times> u32 \<times> u32 \<times> u32"

definition F1 :: "u32 \<Rightarrow> u32 \<Rightarrow> u32 \<Rightarrow> u32" where "F1 x y z = z XOR (x AND (y XOR z))"
definition F2 :: "u32 \<Rightarrow> u32 \<Rightarrow> u32 \<Rightarrow> u32" where "F2 x y z = F1 z x y"
definition F3 :: "u32 \<Rightarrow> u32 \<Rightarrow> u32 \<Rightarrow> u32" where "F3 x y z = x XOR y XOR z"
definition F4 :: "u32 \<Rightarrow> u32 \<Rightarrow> u32 \<Rightarrow> u32" where "F4 x y z = y XOR (x OR NOT z)"

definition md5_core :: "nat \<Rightarrow> u32 \<Rightarrow> u32 \<Rightarrow> u32 \<Rightarrow> u32" where
  "md5_core f = (if f = 1 then F1 else if f = 2 then F2 else if f = 3 then F3 else F4)"

definition md5_steps :: "(nat \<times> nat \<times> u32 \<times> nat) list" where
  "md5_steps =
    [(1, 0, 0xd76aa478, 7), (1, 1, 0xe8c7b756, 12), (1, 2, 0x242070db, 17), (1, 3, 0xc1bdceee, 22),
     (1, 4, 0xf57c0faf, 7), (1, 5, 0x4787c62a, 12), (1, 6, 0xa8304613, 17), (1, 7, 0xfd469501, 22),
     (1, 8, 0x698098d8, 7), (1, 9, 0x8b44f7af, 12), (1, 10, 0xffff5bb1, 17), (1, 11, 0x895cd7be, 22),
     (1, 12, 0x6b901122, 7), (1, 13, 0xfd987193, 12), (1, 14, 0xa679438e, 17), (1, 15, 0x49b40821, 22),
     (2, 1, 0xf61e2562, 5), (2, 6, 0xc040b340, 9), (2, 11, 0x265e5a51, 14), (2, 0, 0xe9b6c7aa, 20),
     (2, 5, 0xd62f105d, 5), (2, 10, 0x02441453, 9), (2, 15, 0xd8a1e681, 14), (2, 4, 0xe7d3fbc8, 20),
     (2, 9, 0x21e1cde6, 5), (2, 14, 0xc33707d6, 9), (2, 3, 0xf4d50d87, 14), (2, 8, 0x455a14ed, 20),
     (2, 13, 0xa9e3e905, 5), (2, 2, 0xfcefa3f8, 9), (2, 7, 0x676f02d9, 14), (2, 12, 0x8d2a4c8a, 20),
     (3, 5, 0xfffa3942, 4), (3, 8, 0x8771f681, 11), (3, 11, 0x6d9d6122, 16), (3, 14, 0xfde5380c, 23),
     (3, 1, 0xa4beea44, 4), (3, 4, 0x4bdecfa9, 11), (3, 7, 0xf6bb4b60, 16), (3, 10, 0xbebfbc70, 23),
     (3, 13, 0x289b7ec6, 4), (3, 0, 0xeaa127fa, 11), (3, 3, 0xd4ef3085, 16), (3, 6, 0x04881d05, 23),
     (3, 9, 0xd9d4d039, 4), (3, 12, 0xe6db99e5, 11), (3, 15, 0x1fa27cf8, 16), (3, 2, 0xc4ac5665, 23),
     (4, 0, 0xf4292244, 6), (4, 7, 0x432aff97, 10), (4, 14, 0xab9423a7, 15), (4, 5, 0xfc93a039, 21),
     (4, 12, 0x655b59c3, 6), (4, 3, 0x8f0ccc92, 10), (4, 10, 0xffeff47d, 15), (4, 1, 0x85845dd1, 21),
     (4, 8, 0x6fa87e4f, 6), (4, 15, 0xfe2ce6e0, 10), (4, 6, 0xa3014314, 15), (4, 13, 0x4e0811a1, 21),
     (4, 4, 0xf7537e82, 6), (4, 11, 0xbd3af235, 10), (4, 2, 0x2ad7d2bb, 15), (4, 9, 0xeb86d391, 21)]"

definition MD5STEP :: "u32 list \<Rightarrow> md5_vars \<Rightarrow> nat \<times> nat \<times> u32 \<times> nat \<Rightarrow> md5_vars" where
  "MD5STEP inp s st =
     (let (w, x, y, z) = s; (f, i, k, n) = st;
          w = w + (md5_core f x y z + (inp ! i + k));
          w = push_bit n w OR drop_bit (32 - n) w;
          w = w + x in
      (z, w, x, y))"

definition md5_add :: "md5_vars \<Rightarrow> md5_vars \<Rightarrow> md5_vars" where
  "md5_add s t = (case (s, t) of ((a, b, c, d), (a', b', c', d')) \<Rightarrow> (a + a', b + b', c + c', d + d'))"

definition MD5Transform :: "md5_vars \<Rightarrow> u32 list \<Rightarrow> md5_vars" where
  "MD5Transform buf inp = md5_add buf (foldl (MD5STEP inp) buf md5_steps)"

record pj_md5_context =
  m5_buf :: md5_vars
  m5_bits0 :: u32
  m5_bits1 :: u32
  m5_in :: "u8 list"

text \<open>\<^verbatim>\<open>pj_md5_init\<close> leaves the buffer of 64 bytes as it is.\<close>

definition pj_md5_init :: "u8 list \<Rightarrow> pj_md5_context" where
  "pj_md5_init inp =
     \<lparr>m5_buf = (0x67452301, 0xefcdab89, 0x98badcfe, 0x10325476), m5_bits0 = 0, m5_bits1 = 0, m5_in = inp\<rparr>"

text \<open>The loop over the whole blocks: the context and what is left of the data.\<close>

function md5_blocks :: "pj_md5_context \<Rightarrow> u8 list \<Rightarrow> pj_md5_context \<times> u8 list" where
  "md5_blocks ctx buf =
     (if length buf \<ge> 64 then
        md5_blocks (ctx\<lparr>m5_in := take 64 buf, m5_buf := MD5Transform (m5_buf ctx) (words_of (take 64 buf))\<rparr>) (drop 64 buf)
      else (ctx, buf))"
  by pat_completeness auto
termination by (relation "measure (length \<circ> snd)") auto

declare md5_blocks.simps [simp del]

definition md5_count :: "pj_md5_context \<Rightarrow> nat \<Rightarrow> pj_md5_context" where
  "md5_count ctx len =
     (let t = m5_bits0 ctx;
          bits0 = t + push_bit 3 (of_nat len);
          bits1 = (if bits0 < t then m5_bits1 ctx + 1 else m5_bits1 ctx) in
      ctx\<lparr>m5_bits0 := bits0, m5_bits1 := bits1 + drop_bit 29 (of_nat len)\<rparr>)"

definition pj_md5_update :: "pj_md5_context \<Rightarrow> u8 list \<Rightarrow> pj_md5_context" where
  "pj_md5_update ctx buf =
     (let t = unat (drop_bit 3 (m5_bits0 ctx) AND 0x3f);
          ctx = md5_count ctx (length buf) in
      if t \<noteq> 0 \<and> length buf < 64 - t then ctx\<lparr>m5_in := mem_put (m5_in ctx) t buf\<rparr>
      else
        (let (ctx, buf) =
               (if t \<noteq> 0 then
                  (let inp = mem_put (m5_in ctx) t (take (64 - t) buf) in
                   (ctx\<lparr>m5_in := inp, m5_buf := MD5Transform (m5_buf ctx) (words_of inp)\<rparr>, drop (64 - t) buf))
                else (ctx, buf));
             (ctx, buf) = md5_blocks ctx buf in
         ctx\<lparr>m5_in := mem_put (m5_in ctx) 0 buf\<rparr>))"

definition md5_digest :: "md5_vars \<Rightarrow> u8 list" where
  "md5_digest s = (case s of (a, b, c, d) \<Rightarrow> put_le32 a @ put_le32 b @ put_le32 c @ put_le32 d)"

definition pj_md5_final :: "pj_md5_context \<Rightarrow> pj_md5_context \<times> u8 list" where
  "pj_md5_final ctx =
     (let count = unat (drop_bit 3 (m5_bits0 ctx) AND 0x3F);
          inp = mem_put (m5_in ctx) count [0x80];
          p = count + 1;
          count = 64 - 1 - count;
          (buf, inp) =
            (if count < 8 then
               (let inp = mem_put inp p (replicate count 0) in
                (MD5Transform (m5_buf ctx) (words_of inp), mem_put inp 0 (replicate 56 0)))
             else (m5_buf ctx, mem_put inp p (replicate (count - 8) 0)));
          inp = mem_put inp 56 (put_le32 (m5_bits0 ctx));
          inp = mem_put inp 60 (put_le32 (m5_bits1 ctx));
          buf = MD5Transform buf (words_of inp) in
      (\<lparr>m5_buf = (0, 0, 0, 0), m5_bits0 = 0, m5_bits1 = 0, m5_in = replicate 64 0\<rparr>, md5_digest buf))"

section \<open>The standard\<close>

text \<open>MD5 as RFC 1321 defines it: the functions, the order of the words, the shifts, the table of constants, the
  padding and the order of the output bytes.\<close>

definition rfc_T :: "u32 list" where
  "rfc_T =
    [0xd76aa478, 0xe8c7b756, 0x242070db, 0xc1bdceee, 0xf57c0faf, 0x4787c62a, 0xa8304613, 0xfd469501,
     0x698098d8, 0x8b44f7af, 0xffff5bb1, 0x895cd7be, 0x6b901122, 0xfd987193, 0xa679438e, 0x49b40821,
     0xf61e2562, 0xc040b340, 0x265e5a51, 0xe9b6c7aa, 0xd62f105d, 0x02441453, 0xd8a1e681, 0xe7d3fbc8,
     0x21e1cde6, 0xc33707d6, 0xf4d50d87, 0x455a14ed, 0xa9e3e905, 0xfcefa3f8, 0x676f02d9, 0x8d2a4c8a,
     0xfffa3942, 0x8771f681, 0x6d9d6122, 0xfde5380c, 0xa4beea44, 0x4bdecfa9, 0xf6bb4b60, 0xbebfbc70,
     0x289b7ec6, 0xeaa127fa, 0xd4ef3085, 0x04881d05, 0xd9d4d039, 0xe6db99e5, 0x1fa27cf8, 0xc4ac5665,
     0xf4292244, 0x432aff97, 0xab9423a7, 0xfc93a039, 0x655b59c3, 0x8f0ccc92, 0xffeff47d, 0x85845dd1,
     0x6fa87e4f, 0xfe2ce6e0, 0xa3014314, 0x4e0811a1, 0xf7537e82, 0xbd3af235, 0x2ad7d2bb, 0xeb86d391]"

definition rfc_F :: "nat \<Rightarrow> u32 \<Rightarrow> u32 \<Rightarrow> u32 \<Rightarrow> u32" where
  "rfc_F i x y z =
     (if i < 16 then (x AND y) OR (NOT x AND z)
      else if i < 32 then (x AND z) OR (y AND NOT z)
      else if i < 48 then x XOR y XOR z
      else y XOR (x OR NOT z))"

definition rfc_k :: "nat \<Rightarrow> nat" where
  "rfc_k i = (if i < 16 then i else if i < 32 then (5 * i + 1) mod 16 else if i < 48 then (3 * i + 5) mod 16 else (7 * i) mod 16)"

definition rfc_s :: "nat \<Rightarrow> nat" where
  "rfc_s i = [[7, 12, 17, 22], [5, 9, 14, 20], [4, 11, 16, 23], [6, 10, 15, 21]] ! (i div 16) ! (i mod 4)"

definition rotl :: "u32 \<Rightarrow> nat \<Rightarrow> u32" where
  "rotl v n = push_bit n v OR drop_bit (32 - n) v"

definition rfc_md5_step :: "u32 list \<Rightarrow> md5_vars \<Rightarrow> nat \<Rightarrow> md5_vars" where
  "rfc_md5_step m s i = (case s of (a, b, c, d) \<Rightarrow> (d, b + rotl (a + rfc_F i b c d + m ! rfc_k i + rfc_T ! i) (rfc_s i), b, c))"

definition rfc_md5_block :: "md5_vars \<Rightarrow> u8 list \<Rightarrow> md5_vars" where
  "rfc_md5_block h block = md5_add h (foldl (rfc_md5_step (words_of block)) h [0..<64])"

definition rfc_md5_pad :: "u8 list \<Rightarrow> u8 list" where
  "rfc_md5_pad m = m @ 0x80 # replicate ((119 - length m mod 64) mod 64) 0 @
     put_le32 (of_nat (8 * length m)) @ put_le32 (of_nat (8 * length m div 2 ^ 32))"

definition rfc_md5 :: "u8 list \<Rightarrow> u8 list" where
  "rfc_md5 m = md5_digest (fold_blocks rfc_md5_block (0x67452301, 0xefcdab89, 0x98badcfe, 0x10325476) (rfc_md5_pad m))"

section \<open>The transformation\<close>

lemma md5_core_rfc: "F1 x y z = (x AND y) OR (NOT x AND z)" "F2 x y z = (x AND z) OR (y AND NOT z)"
  unfolding F1_def F2_def by (rule bit_word_eqI, auto simp: bit_simps)+

lemma md5_steps_rfc: "md5_steps = map (\<lambda>i. (i div 16 + 1, rfc_k i, rfc_T ! i, rfc_s i)) [0..<64]"
  by code_simp

lemma md5_step_rfc: "i < 64 \<Longrightarrow> MD5STEP m s (i div 16 + 1, rfc_k i, rfc_T ! i, rfc_s i) = rfc_md5_step m s i"
proof -
  assume i: "i < 64"
  consider "i < 16" "i div 16 = 0" | "\<not> i < 16" "i < 32" "i div 16 = 1" | "\<not> i < 32" "i < 48" "i div 16 = 2" | "\<not> i < 48" "i div 16 = 3"
    using i by linarith
  then have "md5_core (i div 16 + 1) x y z = rfc_F i x y z" for x y z
    by cases (simp_all add: md5_core_def rfc_F_def md5_core_rfc F3_def F4_def)
  then show ?thesis by (cases s) (simp add: MD5STEP_def rfc_md5_step_def rotl_def Let_def ac_simps)
qed

lemma transform_rfc: "MD5Transform h (words_of block) = rfc_md5_block h block"
proof -
  have "foldl (MD5STEP m) h md5_steps = foldl (rfc_md5_step m) h [0..<64]" for m
    unfolding md5_steps_rfc foldl_map using md5_step_rfc by (intro foldl_cong) auto
  then show ?thesis by (simp add: MD5Transform_def rfc_md5_block_def)
qed

section \<open>Streaming\<close>

abbreviation md5_h0 :: md5_vars where
  "md5_h0 \<equiv> (0x67452301, 0xefcdab89, 0x98badcfe, 0x10325476)"

definition md5_rep :: "u8 list \<Rightarrow> pj_md5_context \<Rightarrow> bool" where
  "md5_rep d ctx \<longleftrightarrow> length (m5_in ctx) = 64 \<and> m5_buf ctx = fold_blocks rfc_md5_block md5_h0 d \<and>
     take (length d mod 64) (m5_in ctx) = rest64 d \<and>
     m5_bits0 ctx = of_nat (8 * length d) \<and> m5_bits1 ctx = of_nat (8 * length d div 2 ^ 32)"

lemma md5_blocks_fold:
  "length (m5_in ctx) = 64 \<Longrightarrow> \<exists>inp. length inp = 64 \<and>
    md5_blocks ctx d = (ctx\<lparr>m5_in := inp, m5_buf := fold_blocks rfc_md5_block (m5_buf ctx) d\<rparr>, rest64 d)"
proof (induction ctx d rule: md5_blocks.induct)
  case (1 ctx d)
  show ?case
  proof (cases "64 \<le> length d")
    case True
    have "rest64 (take 64 d @ drop 64 d) = rest64 (drop 64 d)" using True by (intro rest_append) simp
    then show ?thesis
      using "1.IH" True md5_blocks.simps [of ctx d] fold_blocks.simps [of rfc_md5_block "m5_buf ctx" d] by (auto simp: transform_rfc)
  next
    case False
    then have "md5_blocks ctx d = (ctx\<lparr>m5_in := m5_in ctx, m5_buf := m5_buf ctx\<rparr>, d)" by (simp add: md5_blocks.simps)
    then show ?thesis using False "1.prems" by (intro exI [of _ "m5_in ctx"]) (simp add: fold_blocks_short rest64_def)
  qed
qed

lemma md5_count_rep:
  assumes "m5_bits0 ctx = of_nat (8 * n)" "m5_bits1 ctx = of_nat (8 * n div 2 ^ 32)" "len < 2 ^ 32"
  shows "m5_bits0 (md5_count ctx len) = of_nat (8 * (n + len))" "m5_bits1 (md5_count ctx len) = of_nat (8 * (n + len) div 2 ^ 32)"
proof -
  have c: "m5_bits0 ctx + push_bit 3 (of_nat len) = of_nat (8 * n + 8 * len)" using assms(1) by (simp add: push_bit_eq_mult)
  then show "m5_bits0 (md5_count ctx len) = of_nat (8 * (n + len))" by (simp add: md5_count_def Let_def)
  have "unat (of_nat len :: u32) = len" using assms(3) by (simp add: unat_of_nat)
  then have "unat (drop_bit 29 (of_nat len :: u32)) = len div 2 ^ 29" by (simp only: unat_drop_bit_eq) (simp only: drop_bit_eq_div)
  then have d: "drop_bit 29 (of_nat len :: u32) = of_nat (8 * len div 2 ^ 32)" using assms(3) by (simp add: word_unat_eq_iff unat_of_nat)
  have "(of_nat (8 * n + 8 * len) :: u32) < of_nat (8 * n) \<longleftrightarrow> (8 * n + 8 * len) mod 2 ^ 32 < 8 * n mod 2 ^ 32"
    by (simp only: word_less_nat_alt unat_of_nat) simp
  moreover have "m5_bits1 (md5_count ctx len) =
      (if of_nat (8 * n + 8 * len) < m5_bits0 ctx then m5_bits1 ctx + 1 else m5_bits1 ctx) + of_nat (8 * len div 2 ^ 32)"
    unfolding md5_count_def Let_def c d by simp
  ultimately show "m5_bits1 (md5_count ctx len) = of_nat (8 * (n + len) div 2 ^ 32)"
    using carry_less [of "2 ^ 32" "8 * n" "8 * len"] unfolding assms(1,2) distrib_left by (simp del: of_nat_mult)
qed

lemma md5_update_rep:
  assumes "md5_rep d ctx" "length e < 2 ^ 32"
  shows "md5_rep (d @ e) (pj_md5_update ctx e)"
proof -
  let ?c = "md5_count ctx (length e)" and ?j = "length d mod 64"
  have r: "length (m5_in ctx) = 64" "m5_buf ctx = fold_blocks rfc_md5_block md5_h0 d" "take ?j (m5_in ctx) = rest64 d"
    "m5_bits0 ctx = of_nat (8 * length d)" using assms(1) by (simp_all add: md5_rep_def)
  have k: "m5_in ?c = m5_in ctx" "m5_buf ?c = m5_buf ctx" by (simp_all add: md5_count_def Let_def)
  have cnt: "m5_bits0 ?c = of_nat (8 * length (d @ e))" "m5_bits1 ?c = of_nat (8 * length (d @ e) div 2 ^ 32)"
    using md5_count_rep [of ctx "length d" "length e"] assms by (simp_all add: md5_rep_def)
  have off: "unat (drop_bit 3 (m5_bits0 ctx) AND 0x3f) = ?j" unfolding r(4) by (rule count_offset)
  have j: "?j < 64" by simp
  show ?thesis
  proof (cases "?j \<noteq> 0 \<and> length e < 64 - ?j")
    case True
    then have "pj_md5_update ctx e = ?c\<lparr>m5_in := mem_put (m5_in ctx) ?j e\<rparr>" "?j + length e \<le> 63" by (simp_all add: pj_md5_update_def off Let_def k) linarith
    then show ?thesis
      using cnt r k blocks_short(1) [of d e rfc_md5_block md5_h0] blocks_short(2,3) [of d e] mem_put_facts [of ?j e "m5_in ctx"]
      by (simp add: md5_rep_def)
  next
    case False
    define c1 where "c1 = (if ?j \<noteq> 0 then (let inp = mem_put (m5_in ctx) ?j (take (64 - ?j) e) in
        (?c\<lparr>m5_in := inp, m5_buf := MD5Transform (m5_buf ctx) (words_of inp)\<rparr>, drop (64 - ?j) e)) else (?c, e))"
    have u: "pj_md5_update ctx e = (let (c, b) = md5_blocks (fst c1) (snd c1) in c\<lparr>m5_in := mem_put (m5_in c) 0 b\<rparr>)"
      using False by (auto simp: pj_md5_update_def off Let_def k c1_def case_prod_beta)
    have c1: "length (m5_in (fst c1)) = 64 \<and> fold_blocks rfc_md5_block (m5_buf (fst c1)) (snd c1) = fold_blocks rfc_md5_block md5_h0 (d @ e) \<and>
        rest64 (snd c1) = rest64 (d @ e)"
    proof (cases "?j = 0")
      case True
      then show ?thesis using fold_blocks_append [of d rfc_md5_block md5_h0 e] rest_append [of d e] r k by (simp add: c1_def mod_eq_0_iff_dvd)
    next
      case j0: False
      then have l: "63 < ?j + length e" using False by linarith
      then have "mem_put (m5_in ctx) ?j (take (64 - ?j) e) = rest64 d @ take (64 - ?j) e" using r(1,3) j by (simp add: mem_put_def)
      then show ?thesis using blocks_long(1,3) [OF l] blocks_long(2) [OF l, of rfc_md5_block md5_h0] j0 r(2) by (simp add: c1_def transform_rfc Let_def)
    qed
    have c1': "m5_bits0 (fst c1) = m5_bits0 ?c" "m5_bits1 (fst c1) = m5_bits1 ?c" by (simp_all add: c1_def Let_def)
    obtain inp where b: "length inp = 64"
      "md5_blocks (fst c1) (snd c1) = ((fst c1)\<lparr>m5_in := inp, m5_buf := fold_blocks rfc_md5_block md5_h0 (d @ e)\<rparr>, rest64 (d @ e))"
      using md5_blocks_fold [of "fst c1" "snd c1"] c1 by auto
    have "length (rest64 (d @ e)) < 64" using whole_rest(2) [of "d @ e"] by simp
    then show ?thesis
      using cnt c1' b mem_put_facts [of 0 "rest64 (d @ e)" inp] whole_rest(2) [of "d @ e"] by (simp add: u md5_rep_def)
  qed
qed

lemma md5_init_rep: "length inp = 64 \<Longrightarrow> md5_rep [] (pj_md5_init inp)"
  by (simp add: md5_rep_def pj_md5_init_def fold_blocks_short rest64_def)

lemma md5_final_rep:
  assumes "md5_rep d ctx"
  shows "snd (pj_md5_final ctx) = rfc_md5 d"
proof -
  let ?j = "length d mod 64" and ?w = "put_le32 (m5_bits0 ctx) @ put_le32 (m5_bits1 ctx)" and ?f = "fold_blocks rfc_md5_block"
  have r: "length (m5_in ctx) = 64" "m5_buf ctx = ?f md5_h0 d" "take ?j (m5_in ctx) = rest64 d" "m5_bits0 ctx = of_nat (8 * length d)"
    "m5_bits1 ctx = of_nat (8 * length d div 2 ^ 32)" using assms by (simp_all add: md5_rep_def)
  have off: "unat (drop_bit 3 (m5_bits0 ctx) AND 0x3F) = ?j" unfolding r(4) by (rule count_offset)
  have lr: "length (rest64 d) = ?j" "?j < 64" using whole_rest(2) by simp_all
  define z where "z = (119 - ?j) mod 64"
  have "rfc_md5_pad d = whole64 d @ rest64 d @ 0x80 # replicate z 0 @ ?w"
    using whole_rest(1) [of d] r(4,5) by (simp add: rfc_md5_pad_def z_def)
  then have p: "?f md5_h0 (rfc_md5_pad d) = ?f (m5_buf ctx) (rest64 d @ 0x80 # replicate z 0 @ ?w)"
    using fold_blocks_append [OF whole_rest(3)] fold_blocks_whole r(2) by metis
  let ?m = "mem_put (m5_in ctx) ?j [0x80]"
  have b80: "?m = rest64 d @ 0x80 # drop (?j + 1) (m5_in ctx)" using r(3) by (simp add: mem_put_def)
  define seal where "seal m = mem_put (mem_put m 56 (put_le32 (m5_bits0 ctx))) 60 (put_le32 (m5_bits1 ctx))" for m
  have sl: "seal (b @ c) = b @ ?w" if "length b = 56" "length c = 8" for b c using that by (simp add: seal_def mem_put_def put_le32_def)
  have lw: "length ?w = 8" by (simp add: put_le32_def)
  show ?thesis
  proof (cases "?j < 56")
    case True
    let ?b = "rest64 d @ 0x80 # replicate (55 - ?j) 0"
    have "119 - ?j = 55 - ?j + 64" using True by simp
    then have z: "z = 55 - ?j" unfolding z_def by (simp only: mod_add_self2) simp
    have l: "length ?b = 56" using True lr by simp
    have "56 - ?j = Suc (55 - ?j)" using True by simp
    then have i: "mem_put ?m (?j + 1) (replicate (55 - ?j) 0) = ?b @ drop 56 (m5_in ctx)" unfolding b80 using True lr by (simp add: mem_put_def)
    have j: "64 - 1 - ?j - 8 = 55 - ?j" "(64 - 1 - ?j < 8) = False" using True by auto
    have "snd (pj_md5_final ctx) = md5_digest (rfc_md5_block (m5_buf ctx) (seal (mem_put ?m (?j + 1) (replicate (55 - ?j) 0))))"
      unfolding pj_md5_final_def off Let_def j seal_def by (simp add: transform_rfc)
    also have "\<dots> = md5_digest (rfc_md5_block (m5_buf ctx) (?b @ ?w))" unfolding i using l r(1) by (simp add: sl del: append_assoc)
    also have "rfc_md5_block (m5_buf ctx) (?b @ ?w) = ?f (m5_buf ctx) (?b @ ?w)" using l lw by (intro fold_blocks_block [symmetric]) simp
    finally show ?thesis using p z by (simp add: rfc_md5_def)
  next
    case False
    let ?b = "rest64 d @ 0x80 # replicate (63 - ?j) 0" and ?b' = "replicate 56 0 @ ?w"
    have "119 - ?j = 63 - ?j + 56" "119 - ?j < 64" using False lr by simp_all
    then have z: "replicate z 0 = replicate (63 - ?j) (0 :: u8) @ replicate 56 0" unfolding z_def by (simp only: mod_less replicate_add)
    have l: "length ?b = 64" "length ?b' = 64" using lr lw by simp_all
    have i: "mem_put ?m (?j + 1) (replicate (63 - ?j) 0) = ?b" unfolding b80 using lr r(1) by (simp add: mem_put_def)
    have e: "mem_put ?b 0 (replicate 56 0) = replicate 56 0 @ drop 56 ?b" by (simp add: mem_put_def)
    have j: "64 - 1 - ?j = 63 - ?j" "(63 - ?j < 8) = True" using False lr by auto
    have "snd (pj_md5_final ctx) =
        md5_digest (rfc_md5_block (rfc_md5_block (m5_buf ctx) (mem_put ?m (?j + 1) (replicate (63 - ?j) 0)))
          (seal (mem_put (mem_put ?m (?j + 1) (replicate (63 - ?j) 0)) 0 (replicate 56 0))))"
      unfolding pj_md5_final_def off Let_def j seal_def by (simp add: transform_rfc)
    also have "\<dots> = md5_digest (rfc_md5_block (rfc_md5_block (m5_buf ctx) ?b) ?b')" unfolding i e using l(1) by (subst sl) simp_all
    also have "rfc_md5_block (rfc_md5_block (m5_buf ctx) ?b) ?b' = ?f (m5_buf ctx) (?b @ ?b')"
      using l fold_blocks_append [of ?b rfc_md5_block "m5_buf ctx" ?b'] fold_blocks_block [of ?b rfc_md5_block "m5_buf ctx"]
        fold_blocks_block [of ?b' rfc_md5_block] by simp
    finally show ?thesis using p z by (simp add: rfc_md5_def)
  qed
qed

interpretation md5_stream: stream_digest "{pj_md5_init inp | inp. length inp = 64}" pj_md5_update "\<lambda>ctx. snd (pj_md5_final ctx)"
  md5_rep "\<lambda>e. length e < 2 ^ 32" rfc_md5
  by unfold_locales (auto intro: md5_init_rep md5_update_rep md5_final_rep)

text \<open>Whatever way a message is cut into updates, the code computes the MD5 of RFC 1321.\<close>

theorem md5_streaming_is_rfc:
  assumes "length inp = 64" "\<forall>data \<in> set chunks. length data < 2 ^ 32"
  shows "snd (pj_md5_final (foldl pj_md5_update (pj_md5_init inp) chunks)) = rfc_md5 (concat chunks)"
  using assms by (intro md5_stream.streaming) (auto simp: list_all_iff)

theorem md5_streaming_is_rfc_witness:
  "snd (pj_md5_final (foldl pj_md5_update (pj_md5_init (replicate 64 7)) [[97], [98, 99]])) = rfc_md5 [97, 98, 99]"
  using md5_streaming_is_rfc [of "replicate 64 7" "[[97], [98, 99]]"] by simp

end
