(* ===== verification/Stun_Auth.thy ===== *)
theory Stun_Auth
  imports Stun_Msg Md5 Hash
begin

text \<open>
  STUN authentication, \<^verbatim>\<open>pjnath/src/pjnath/stun_auth.c\<close>: the key of a credential, the verification of a
  request against a static or dynamic credential with the challenge it answers with, and the verification of a
  response.

  A string is its bytes and \<open>None\<close> is a null pointer; the callbacks of a dynamic credential are fields, whose
  results are the status and what the call leaves in its output arguments.  Memory that the code leaves
  uninitialised in the digest contexts is zero, as in \<^verbatim>\<open>stun_hmac\<close>; the digests do not depend on it.  The copies
  of a credential and of the credential information are the values themselves.  The old-style integrity build is
  left out.
\<close>

definition PJ_STUN_ATTR_USERNAME :: u16 where "PJ_STUN_ATTR_USERNAME = 0x0006"
definition PJ_STUN_ATTR_REALM :: u16 where "PJ_STUN_ATTR_REALM = 0x0014"
definition PJ_STUN_ATTR_NONCE :: u16 where "PJ_STUN_ATTR_NONCE = 0x0015"

definition PJ_STUN_SC_UNAUTHORIZED :: int where "PJ_STUN_SC_UNAUTHORIZED = 401"
definition PJ_STUN_SC_STALE_NONCE :: int where "PJ_STUN_SC_STALE_NONCE = 438"

section \<open>Credentials\<close>

datatype pj_stun_passwd_type = PJ_STUN_PASSWD_PLAIN | PJ_STUN_PASSWD_HASHED

record static_cred =
  sc_realm :: "u8 list"
  sc_username :: "u8 list"
  sc_data_type :: pj_stun_passwd_type
  sc_data :: "u8 list"
  sc_nonce :: "u8 list"

record dyn_cred =
  dc_get_auth :: "pj_status \<times> u8 list \<times> u8 list"
  dc_get_password :: "pj_stun_msg \<Rightarrow> (u8 list) option \<Rightarrow> u8 list \<Rightarrow> pj_status \<times> pj_stun_passwd_type \<times> u8 list"
  dc_verify_nonce :: "(pj_stun_msg \<Rightarrow> (u8 list) option \<Rightarrow> u8 list \<Rightarrow> u8 list \<Rightarrow> bool) option"

text \<open>\<open>Other_cred\<close> is a credential whose type is neither of the two.\<close>

datatype pj_stun_auth_cred = Static_cred static_cred | Dyn_cred dyn_cred | Other_cred

record pj_stun_req_cred_info =
  ci_realm :: "u8 list"
  ci_username :: "u8 list"
  ci_nonce :: "u8 list"
  ci_auth_key :: "u8 list"

text \<open>The macro \<^verbatim>\<open>REMOVE_QUOTE\<close>: one quote at either end.\<close>

definition remove_quote :: "u8 list \<Rightarrow> u8 list" where
  "remove_quote s =
     (let s = (if s \<noteq> [] \<and> hd s = 34 then tl s else s) in
      if s \<noteq> [] \<and> last s = 34 then butlast s else s)"

definition calc_md5_key :: "u8 list \<Rightarrow> u8 list \<Rightarrow> u8 list \<Rightarrow> u8 list" where
  "calc_md5_key realm username passwd =
     (let ctx = pj_md5_init (replicate 64 0);
          ctx = pj_md5_update ctx (remove_quote username);
          ctx = pj_md5_update ctx [58];
          ctx = pj_md5_update ctx (remove_quote realm);
          ctx = pj_md5_update ctx [58];
          ctx = pj_md5_update ctx passwd
      in snd (pj_md5_final ctx))"

definition pj_stun_create_key :: "(u8 list) option \<Rightarrow> u8 list \<Rightarrow> pj_stun_passwd_type \<Rightarrow> u8 list \<Rightarrow> u8 list" where
  "pj_stun_create_key realm username data_type data =
     (case realm of
        Some r \<Rightarrow>
          (if r \<noteq> [] then (if data_type = PJ_STUN_PASSWD_PLAIN then calc_md5_key r username data else data)
           else data)
      | None \<Rightarrow> data)"

section \<open>Challenges\<close>

definition create_challenge ::
  "pj_stun_msg \<Rightarrow> int \<Rightarrow> string option \<Rightarrow> u8 list \<Rightarrow> u8 list \<Rightarrow> pj_stun_msg parse" where
  "create_challenge msg err_code errstr realm nonce =
     pbind (pj_stun_msg_create_response (sm_hdr msg) err_code (map_option str_bytes errstr)) (\<lambda>response.
     pbind
       (if err_code \<noteq> 400 \<and> realm \<noteq> [] then
          pbind (pj_stun_msg_add_string_attr response PJ_STUN_ATTR_REALM realm) (\<lambda>response.
            Done (response, if nonce = [] then str_bytes ''pjstun'' else nonce))
        else Done (response, nonce)) (\<lambda>(response, nonce).
       if err_code \<noteq> 400 \<and> nonce \<noteq> [] then pj_stun_msg_add_string_attr response PJ_STUN_ATTR_NONCE nonce
       else Done response))"

section \<open>Message integrity\<close>

text \<open>The search for MESSAGE-INTEGRITY: the number of bytes before it, the attribute, and whether an attribute
  follows it.\<close>

fun find_msgint :: "pj_stun_attr list \<Rightarrow> nat \<Rightarrow> pj_stun_attr option \<Rightarrow> nat \<times> pj_stun_attr option \<times> bool" where
  "find_msgint [] amsgi_pos amsgi = (amsgi_pos, amsgi, False)"
| "find_msgint (a # as) amsgi_pos amsgi =
     (if ah_type a = PJ_STUN_ATTR_MESSAGE_INTEGRITY then find_msgint as amsgi_pos (Some a)
      else if amsgi \<noteq> None then (amsgi_pos, amsgi, True)
      else find_msgint as (amsgi_pos + align4 (unat (ah_length a)) + 4) amsgi)"

text \<open>The digest of the header, with the length up to the attribute when others follow it, and of the body
  before it.\<close>

definition msgint_digest :: "u8 list \<Rightarrow> u8 list \<Rightarrow> nat \<Rightarrow> bool \<Rightarrow> (u8 list) parse" where
  "msgint_digest key pkt amsgi_pos has_attr_beyond_mi =
     (let ctx = pj_hmac_sha1_init (replicate 64 0) (replicate 64 0) key in
      pbind (rd_bytes pkt 0 20) (\<lambda>hdr.
        let ctx = pj_hmac_sha1_update ctx (if has_attr_beyond_mi then mem_put hdr 2 (put16 (of_nat (amsgi_pos + 24))) else hdr) in
        pbind (rd_bytes pkt 20 amsgi_pos) (\<lambda>body. Done (snd (pj_hmac_sha1_final (pj_hmac_sha1_update ctx body))))))"

definition pj_stun_authenticate_response :: "u8 list \<Rightarrow> pj_stun_msg \<Rightarrow> u8 list \<Rightarrow> unit parse" where
  "pj_stun_authenticate_response pkt msg key =
     (if pkt = [] then Fail PJ_EINVAL
      else case pj_stun_msg_find_attr msg PJ_STUN_ATTR_MESSAGE_INTEGRITY 0 of
        None \<Rightarrow> Fail (PJ_STATUS_FROM_STUN_CODE PJ_STUN_SC_UNAUTHORIZED)
      | Some _ \<Rightarrow>
          if mh_length (sm_hdr msg) < 24 then Fail PJNATH_EINSTUNMSGLEN
          else
            (let (amsgi_pos, amsgi, has_attr_beyond_mi) = find_msgint (sm_attr msg) 0 None in
             case amsgi of
               None \<Rightarrow> Fail (PJ_STATUS_FROM_STUN_CODE PJ_STUN_SC_BAD_REQUEST)
             | Some a \<Rightarrow>
                 pbind (msgint_digest key pkt amsgi_pos has_attr_beyond_mi) (\<lambda>digest.
                   if mi_hmac a \<noteq> digest then Fail (PJ_STATUS_FROM_STUN_CODE PJ_STUN_SC_UNAUTHORIZED) else Done ())))"

section \<open>Requests\<close>

text \<open>How a part of the verification ends: it goes on, jumps to \<^verbatim>\<open>on_auth_failed\<close> with a code and a text, or
  returns.\<close>

datatype auth = Go_on | Auth_failed int "string option" | Return "unit parse"

definition and_then :: "auth \<Rightarrow> auth \<Rightarrow> auth" where
  "and_then a b = (case a of Go_on \<Rightarrow> b | Auth_failed c t \<Rightarrow> Auth_failed c t | Return p \<Rightarrow> Return p)"

definition with_key :: "u8 list \<Rightarrow> u8 list \<Rightarrow> pj_stun_req_cred_info \<Rightarrow> auth \<times> pj_stun_req_cred_info" where
  "with_key username key info =
     (if key = [] then Return (Fail PJ_EBUG) else Go_on, info\<lparr>ci_username := username, ci_auth_key := key\<rparr>)"

text \<open>The user name and the key.  The key of an empty password has no storage, so the code returns.\<close>

definition auth_user ::
  "pj_stun_msg \<Rightarrow> pj_stun_auth_cred \<Rightarrow> (u8 list) option \<Rightarrow> u8 list \<Rightarrow> pj_stun_req_cred_info \<Rightarrow> auth \<times> pj_stun_req_cred_info" where
  "auth_user msg cred arealm auser info =
     (case cred of
        Static_cred c \<Rightarrow>
          if auser = sc_username c then
            with_key (sc_username c) (pj_stun_create_key (Some (ci_realm info)) auser (sc_data_type c) (sc_data c)) info
          else (Auth_failed PJ_STUN_SC_UNAUTHORIZED None, info)
      | Dyn_cred d \<Rightarrow>
          (let (rc, data_type, password) = dc_get_password d msg arealm auser in
           if rc = PJ_SUCCESS then with_key auser (pj_stun_create_key arealm auser data_type password) info
           else (Auth_failed PJ_STUN_SC_UNAUTHORIZED None, info))
      | Other_cred \<Rightarrow> (Return (Fail PJ_EBUG), info))"

text \<open>The requirements of long-term and short-term credentials.\<close>

definition auth_terms :: "pj_stun_req_cred_info \<Rightarrow> (u8 list) option \<Rightarrow> (u8 list) option \<Rightarrow> auth" where
  "auth_terms info arealm anonce =
     (if ci_realm info \<noteq> [] then
        (case arealm of
           None \<Rightarrow> Auth_failed PJ_STUN_SC_BAD_REQUEST (Some ''Missing REALM'')
         | Some r \<Rightarrow>
             if anonce = None \<and> ci_nonce info \<noteq> [] then Auth_failed PJ_STUN_SC_BAD_REQUEST (Some ''Missing NONCE'')
             else if \<not> stricmp_eq r (ci_realm info) then Auth_failed PJ_STUN_SC_UNAUTHORIZED (Some ''Invalid REALM'')
             else Go_on)
      else
        (case arealm of
           Some _ \<Rightarrow> Go_on
         | None \<Rightarrow>
             if ci_nonce info \<noteq> [] then Auth_failed PJ_STUN_SC_UNAUTHORIZED (Some ''NONCE required'') else Go_on))"

definition auth_nonce ::
  "pj_stun_msg \<Rightarrow> pj_stun_auth_cred \<Rightarrow> pj_stun_req_cred_info \<Rightarrow> (u8 list) option \<Rightarrow> u8 list \<Rightarrow> (u8 list) option \<Rightarrow> auth" where
  "auth_nonce msg cred info arealm auser anonce =
     (case anonce of
        None \<Rightarrow> Go_on
      | Some n \<Rightarrow>
          (let ok =
             (case cred of
                Dyn_cred d \<Rightarrow> (case dc_verify_nonce d of Some verify \<Rightarrow> verify msg arealm auser n | None \<Rightarrow> True)
              | _ \<Rightarrow> ci_nonce info \<noteq> [] \<longrightarrow> n = ci_nonce info)
           in if \<not> ok then Auth_failed PJ_STUN_SC_STALE_NONCE None else Go_on))"

definition auth_digest :: "u8 list \<Rightarrow> u8 list \<Rightarrow> pj_stun_attr \<Rightarrow> nat \<Rightarrow> bool \<Rightarrow> auth" where
  "auth_digest key pkt amsgi amsgi_pos has_attr_beyond_mi =
     (case msgint_digest key pkt amsgi_pos has_attr_beyond_mi of
        Done digest \<Rightarrow>
          if mi_hmac amsgi \<noteq> digest then Auth_failed PJ_STUN_SC_UNAUTHORIZED (Some ''MESSAGE-INTEGRITY mismatch'') else Go_on
      | Fail status \<Rightarrow> Return (Fail status)
      | Fault \<Rightarrow> Return Fault)"

text \<open>All checks, once the realm and the nonce of the credential are known.\<close>

definition auth_checks ::
  "u8 list \<Rightarrow> pj_stun_msg \<Rightarrow> pj_stun_auth_cred \<Rightarrow> pj_stun_req_cred_info \<Rightarrow> auth \<times> pj_stun_req_cred_info" where
  "auth_checks pkt msg cred info =
     (let (amsgi_pos, amsgi, has_attr_beyond_mi) = find_msgint (sm_attr msg) 0 None in
      case amsgi of
        None \<Rightarrow> (Auth_failed (if ci_realm info \<noteq> [] then PJ_STUN_SC_UNAUTHORIZED else PJ_STUN_SC_BAD_REQUEST) None, info)
      | Some mi \<Rightarrow>
          (case pj_stun_msg_find_attr msg PJ_STUN_ATTR_USERNAME 0 of
             None \<Rightarrow> (Auth_failed PJ_STUN_SC_BAD_REQUEST (Some ''Missing USERNAME''), info)
           | Some auser \<Rightarrow>
               (let arealm = map_option sa_value (pj_stun_msg_find_attr msg PJ_STUN_ATTR_REALM 0);
                    anonce = map_option sa_value (pj_stun_msg_find_attr msg PJ_STUN_ATTR_NONCE 0) in
                if ci_realm info \<noteq> [] \<and> arealm = None then (Auth_failed PJ_STUN_SC_BAD_REQUEST (Some ''Missing REALM''), info)
                else
                  (let (r, info) = auth_user msg cred arealm (sa_value auser) info in
                   (and_then r (and_then (auth_terms info arealm anonce)
                      (and_then (auth_nonce msg cred info arealm (sa_value auser) anonce)
                         (auth_digest (ci_auth_key info) pkt mi amsgi_pos has_attr_beyond_mi))), info)))))"

text \<open>The result of the call and what it leaves in \<^verbatim>\<open>*p_response\<close> and, when it gets there, in \<^verbatim>\<open>*p_info\<close>.\<close>

definition pj_stun_authenticate_request ::
  "u8 list \<Rightarrow> pj_stun_msg \<Rightarrow> pj_stun_auth_cred \<Rightarrow> bool \<Rightarrow> unit replied \<times> pj_stun_req_cred_info option" where
  "pj_stun_authenticate_request pkt msg cred has_response =
     (if pkt = [] then ((Fail PJ_EINVAL, None), None)
      else
        (let want = has_response \<and> PJ_STUN_IS_REQUEST (ucast (mh_type (sm_hdr msg)));
             start = (\<lambda>realm nonce. \<lparr>ci_realm = realm, ci_username = [], ci_nonce = nonce, ci_auth_key = []\<rparr>);
             (status, realm, nonce) =
               (case cred of
                  Static_cred c \<Rightarrow> (PJ_SUCCESS, sc_realm c, sc_nonce c)
                | Dyn_cred d \<Rightarrow> dc_get_auth d
                | Other_cred \<Rightarrow> (PJ_EBUG, [], []))
         in
         if status \<noteq> PJ_SUCCESS then ((Fail status, None), Some (start realm nonce))
         else
           (let (r, info) = auth_checks pkt msg cred (start realm nonce) in
            (case r of
               Go_on \<Rightarrow> (Done (), None)
             | Return p \<Rightarrow> (p, None)
             | Auth_failed err_code err_text \<Rightarrow>
                 refuse (PJ_STATUS_FROM_STUN_CODE err_code)
                   (if want then Some (create_challenge msg err_code err_text realm nonce) else None), Some info))))"

section \<open>Which messages can be authenticated\<close>

definition pj_stun_auth_valid_for_msg :: "pj_stun_msg \<Rightarrow> bool" where
  "pj_stun_auth_valid_for_msg msg =
     (let msg_type = ucast (mh_type (sm_hdr msg)) :: u32 in
      if \<not> PJ_STUN_IS_ERROR_RESPONSE msg_type \<and> \<not> PJ_STUN_IS_INDICATION msg_type then True
      else if PJ_STUN_IS_INDICATION msg_type then False
      else case pj_stun_msg_find_attr msg PJ_STUN_ATTR_ERROR_CODE 0 of
          None \<Rightarrow> True
        | Some err_attr \<Rightarrow>
            ea_err_code err_attr \<notin> {PJ_STUN_SC_BAD_REQUEST, PJ_STUN_SC_UNAUTHORIZED, PJ_STUN_SC_STALE_NONCE, PJ_STUN_SC_UNKNOWN_ATTRIBUTE})"

end
