(* ===== verification/Stun_Auth_Props.thy ===== *)
theory Stun_Auth_Props
  imports Stun_Msg_Props Stun_Auth
begin

text \<open>
  Properties of STUN authentication: where the attributes of a decoded message lie in the packet, that the digest
  computed for a decoded packet is the one of RFC 5389, which packets are accepted, and that what the encoder
  signs is accepted.
\<close>

declare add_2_eq_Suc [simp del] add_2_eq_Suc' [simp del]

section \<open>The layout of a decoded message\<close>

definition span :: "pj_stun_attr \<Rightarrow> nat" where
  "span a = align4 (unat (ah_length a)) + 4"

definition spans :: "pj_stun_attr list \<Rightarrow> nat" where
  "spans as = sum_list (map span as)"

lemma spans_simps [simp]: "spans [] = 0" "spans (a # as) = span a + spans as" "spans (as @ bs) = spans as + spans bs"
  by (simp_all add: spans_def)

abbreviation is_msgint :: "pj_stun_attr \<Rightarrow> bool" where
  "is_msgint a \<equiv> ah_type a = PJ_STUN_ATTR_MESSAGE_INTEGRITY"

text \<open>The attributes lie one after the other from \<open>p\<close> on; the digest in MESSAGE-INTEGRITY is that of the packet.\<close>

definition placed :: "u8 list \<Rightarrow> nat \<Rightarrow> pj_stun_attr \<Rightarrow> bool" where
  "placed pdu p a \<longleftrightarrow> rd16 pdu p = Done (ah_type a) \<and> rd16 pdu (p + 2) = Done (ah_length a) \<and>
     (is_msgint a \<longrightarrow> ah_length a = 20 \<and> rd_bytes pdu (p + 4) 20 = Done (mi_hmac a))"

fun laid_out :: "u8 list \<Rightarrow> nat \<Rightarrow> pj_stun_attr list \<Rightarrow> bool" where
  "laid_out pdu p [] = True"
| "laid_out pdu p (a # as) \<longleftrightarrow> placed pdu p a \<and> laid_out pdu (p + span a) as"

lemma laid_out_append: "laid_out pdu p (as @ bs) \<longleftrightarrow> laid_out pdu p as \<and> laid_out pdu (p + spans as) bs"
  by (induction as arbitrary: p) (auto simp: add.assoc)

lemma decode_attr_head: "decode_attr c pdu buf hdr = Done a \<Longrightarrow> rd16 pdu buf = Done (ah_type a) \<and> rd16 pdu (buf + 2) = Done (ah_length a)"
proof -
  have s: "decode_sockaddr_attr pdu buf = Done x \<Longrightarrow> rd16 pdu buf = Done (ah_type x) \<and> rd16 pdu (buf + 2) = Done (ah_length x)" for x
    by (auto simp: decode_sockaddr_attr_def pbind_Done split: if_splits)
  have x: "decode_xored_sockaddr_attr pdu buf hdr = Done x \<Longrightarrow>
      \<exists>y. decode_sockaddr_attr pdu buf = Done y \<and> ah_type y = ah_type x \<and> ah_length y = ah_length x" for x
  proof -
    assume e: "decode_xored_sockaddr_attr pdu buf hdr = Done x"
    then obtain y where "decode_sockaddr_attr pdu buf = Done y" by (auto simp: decode_xored_sockaddr_attr_def pbind_Done)
    with e show ?thesis by (cases y) (auto simp: decode_xored_sockaddr_attr_def split: pj_sockaddr.splits)
  qed
  have "decode_xored_sockaddr_attr pdu buf hdr = Done x \<Longrightarrow> rd16 pdu buf = Done (ah_type x) \<and> rd16 pdu (buf + 2) = Done (ah_length x)" for x
    using x [of x] s by metis
  with s show "decode_attr c pdu buf hdr = Done a \<Longrightarrow> rd16 pdu buf = Done (ah_type a) \<and> rd16 pdu (buf + 2) = Done (ah_length a)"
    by (cases c) (auto simp: decode_attr_def decode_string_attr_def decode_msgint_attr_def decode_errcode_attr_def decode_unknown_attr_def
        decode_uint_attr_def decode_uint64_attr_def decode_binary_attr_def decode_empty_attr_def pbind_Done Let_def split: if_splits)
qed

lemma decode_attr_placed:
  assumes "decode_attr c pdu buf hdr = Done a" "find_attr_desc (ah_type a) = Some (name, c)"
  shows "placed pdu buf a"
proof -
  have "ah_length a = 20 \<and> rd_bytes pdu (buf + 4) 20 = Done (mi_hmac a)" if "is_msgint a"
  proof -
    have "c = C_msgint" using assms(2) that by (simp add: seal_desc)
    then show ?thesis using assms(1) by (auto simp: decode_attr_def decode_msgint_attr_def pbind_Done split: if_splits)
  qed
  then show ?thesis using decode_attr_head [OF assms(1)] by (simp add: placed_def)
qed

lemma refuse_not_Done [simp]: "refuse st r \<noteq> (Done x, r')" "(Done x, r') \<noteq> refuse st r"
  by (auto simp: refuse_def split: option.splits parse.splits)

lemma unrecognized_placed:
  assumes "decode_unrecognized pdu hdr want buf ty k = (Done a, r)" "find_attr_desc ty = None" "rd16 pdu buf = Done ty"
  shows "placed pdu buf a \<and> ah_type a = ty"
  using assms
  by (auto simp: decode_unrecognized_def placed_def pj_stun_binary_attr_init_def seal_desc
      split: if_splits parse.splits)

lemma decode_one_placed:
  assumes "decode_one se pdu hdr want buf n mi fp k = (Done (a, l, mi', fp'), r)"
  shows "placed pdu buf a \<and> l + 4 = span a \<and> span a \<le> n \<and> (positions_ok mi' fp' as \<longrightarrow> positions_ok mi fp (a # as))"
proof -
  obtain ty len where t: "rd16 pdu buf = Done ty" "rd16 pdu (buf + 2) = Done len"
    using assms by (auto simp: decode_one_def split: parse.splits)
  have l: "\<not> n < align4 (unat len) + ATTR_HDR_LEN" using assms by (auto simp: decode_one_def t)
  show ?thesis
  proof (cases "find_attr_desc ty")
    case None
    obtain m r' where u: "decode_unrecognized pdu hdr want buf ty k = (m, r')" by fastforce
    have m: "m = Done a \<and> l = align4 (unat len) \<and> mi' = mi \<and> fp' = fp"
      using assms l None u by (cases m) (simp_all add: decode_one_def t Let_def)
    then have "placed pdu buf a \<and> ah_type a = ty" using unrecognized_placed [OF _ None t(1)] u by blast
    moreover from this have "ah_length a = len" using t(2) by (simp add: placed_def)
    ultimately show ?thesis using m None l unfolding span_def stun_consts by auto
  next
    case (Some d)
    obtain name c where d: "d = (name, c)" by (cases d)
    have a: "decode_attr c pdu buf hdr = Done a" "l = align4 (unat len)" "track_position ty mi fp = Inr (mi', fp')"
      using assms l Some d by (auto simp: decode_one_def t Let_def split: parse.splits sum.splits if_splits)
    have "ah_type a = ty" "ah_length a = len" using decode_attr_head [OF a(1)] t by simp_all
    then show ?thesis using decode_attr_placed [OF a(1)] Some d a l t by (auto simp: span_def stun_consts)
  qed
qed

lemma decode_attrs_layout:
  "fst (decode_attrs se pdu hdr want buf n mi fp attrs) = Done (as, q) \<Longrightarrow>
    \<exists>new. as = attrs @ new \<and> laid_out pdu buf new \<and> spans new = n \<and> positions_ok mi fp new"
proof (induction se pdu hdr want buf n mi fp attrs rule: decode_attrs.induct)
  case (1 se pdu hdr want buf n mi fp attrs)
  show ?case
  proof (cases "n < ATTR_HDR_LEN")
    case True
    then show ?thesis using "1.prems" by (auto simp: decode_attrs.simps split: if_splits)
  next
    case False
    obtain a l mi' fp' r where o: "decode_one se pdu hdr want buf n mi fp (length attrs) = (Done (a, l, mi', fp'), r)"
      using "1.prems" False by (auto simp: decode_attrs.simps [of se pdu hdr want buf] split: prod.splits parse.splits)
    note p = decode_one_placed [OF o]
    have "fst (decode_attrs se pdu hdr want (buf + span a) (n - span a) mi' fp' (attrs @ [a])) = Done (as, q)"
      using "1.prems" False o p by (auto simp: decode_attrs.simps [of se pdu hdr want buf] split: if_splits)
    moreover have "\<exists>new. as = (attrs @ [a]) @ new \<and> laid_out pdu (buf + span a) new \<and> spans new = n - span a \<and> positions_ok mi' fp' new"
    proof (cases "l + 4 \<ge> n")
      case True
      then show ?thesis using "1.IH"(1) [OF False o [symmetric] refl refl refl refl True] calculation p by simp
    next
      case 2: False
      then show ?thesis using "1.IH"(2) [OF False o [symmetric] refl refl refl refl 2] calculation p by simp
    qed
    then obtain new where "as = attrs @ a # new" "laid_out pdu (buf + span a) new" "spans new = n - span a" "positions_ok mi' fp' new"
      by auto
    then show ?thesis using p by (intro exI [of _ "a # new"]) auto
  qed
qed

lemma positions_no_msgint: "positions_ok mi fp as \<Longrightarrow> mi \<or> fp \<Longrightarrow> list_all (\<lambda>a. \<not> is_msgint a) as"
proof (induction as arbitrary: mi fp)
  case (Cons a as)
  show ?case
  proof (cases "find_attr_desc (ah_type a)")
    case None
    then have "\<not> is_msgint a" by (auto simp: seal_desc)
    then show ?thesis using Cons None by auto
  next
    case (Some d)
    then have "\<not> is_msgint a" using Cons.prems by (auto simp: track_position_def split: if_splits sum.splits)
    then show ?thesis using Cons Some by (auto simp: track_position_def split: if_splits)
  qed
qed simp

text \<open>At most one MESSAGE-INTEGRITY.\<close>

lemma positions_one_msgint:
  "positions_ok mi False as \<Longrightarrow> list_ex is_msgint as \<Longrightarrow>
    \<exists>pre m post. as = pre @ m # post \<and> is_msgint m \<and> list_all (\<lambda>a. \<not> is_msgint a) (pre @ post)"
proof (induction as arbitrary: mi)
  case (Cons a as)
  show ?case
  proof (cases "is_msgint a")
    case True
    then have "list_all (\<lambda>a. \<not> is_msgint a) as"
      using Cons.prems(1) positions_no_msgint [of True False as] by (auto simp: seal_desc track_position_def split: if_splits)
    then show ?thesis using True by (intro exI [of _ "[]"] exI [of _ a] exI [of _ as]) simp
  next
    case False
    obtain mi' fp' where p: "positions_ok mi' fp' as" using Cons.prems(1) by (auto split: option.splits sum.splits if_splits)
    have "list_ex is_msgint as" using Cons.prems(2) False by simp
    then have "\<not> fp'" using positions_no_msgint [OF p] by (auto simp: list_all_iff list_ex_iff)
    then obtain pre m post where "as = pre @ m # post" "is_msgint m" "list_all (\<lambda>a. \<not> is_msgint a) (pre @ post)"
      using Cons.IH [of mi'] p \<open>list_ex is_msgint as\<close> by auto
    then show ?thesis using False by (intro exI [of _ "a # pre"] exI [of _ m] exI [of _ post]) simp
  qed
qed simp

lemma find_msgint_none: "list_all (\<lambda>a. \<not> is_msgint a) as \<Longrightarrow> find_msgint as p None = (p + spans as, None, False)"
  by (induction as arbitrary: p) (simp_all add: span_def)

lemma find_msgint_at:
  assumes "list_all (\<lambda>a. \<not> is_msgint a) (pre @ post)" "is_msgint m"
  shows "find_msgint (pre @ m # post) p None = (p + spans pre, Some m, post \<noteq> [])"
proof -
  have "find_msgint (m # post) q None = (q, Some m, post \<noteq> [])" for q using assms by (cases post) simp_all
  then show ?thesis using assms(1) by (induction pre arbitrary: p) (simp_all add: span_def)
qed

section \<open>The digest\<close>

text \<open>What RFC 5389 authenticates: the header with a length that ends at MESSAGE-INTEGRITY, and the \<open>p\<close> bytes of
  the body before it.\<close>

definition mi_text :: "u8 list \<Rightarrow> nat \<Rightarrow> u8 list" where
  "mi_text pdu p = take 2 pdu @ put16 (of_nat (p + 24)) @ take (16 + p) (drop 4 pdu)"

lemma hmac_sha1_pieces:
  assumes "length key < 2 ^ 29" "list_all (\<lambda>e. length e < 2 ^ 29) es"
  shows "snd (pj_hmac_sha1_final (foldl pj_hmac_sha1_update (pj_hmac_sha1_init (replicate 64 0) (replicate 64 0) key) es)) = rfc_hmac key (concat es)"
  by (rule hmac_stream.streaming) (use assms in \<open>auto intro!: exI [of _ "replicate 64 (0 :: u8)"]\<close>)

lemma put16_at_2: "rd16 pdu 2 = Done l \<Longrightarrow> take 2 (drop 2 pdu) = put16 l"
proof -
  assume a: "rd16 pdu 2 = Done l"
  then have "2 + 1 < length pdu" "l = be16 (pdu ! 2) (pdu ! 3)" by (auto simp: rd16_def split: if_splits)
  moreover have "take 2 (drop 2 pdu) = [pdu ! 2, pdu ! 3]"
    using calculation(1) by (intro nth_equalityI) (auto simp: less_Suc_eq numeral_eq_Suc)
  ultimately show ?thesis by (simp add: put16_def)
qed

lemma msgint_digest_rfc:
  assumes "20 + p \<le> length pdu" "p < 2 ^ 29" "length key < 2 ^ 29" "b \<or> rd16 pdu 2 = Done (of_nat (p + 24))"
  shows "msgint_digest key pdu p b = Done (rfc_hmac key (mi_text pdu p))"
proof -
  let ?h = "if b then mem_put (take 20 pdu) 2 (put16 (of_nat (p + 24))) else take 20 pdu"
  have "take 20 pdu = take 2 pdu @ take 2 (drop 2 pdu) @ take 16 (drop 4 pdu)"
    using take_add [of 2 18 pdu] take_add [of 2 16 "drop 2 pdu"] by simp
  then have h: "?h = take 2 pdu @ put16 (of_nat (p + 24)) @ take 16 (drop 4 pdu)"
    using assms(1,4) put16_at_2 [of pdu "of_nat (p + 24)"] by (auto simp: mem_put_def drop_take)
  have t: "?h @ take p (drop 20 pdu) = mi_text pdu p"
    unfolding h mi_text_def using take_add [of 16 p "drop 4 pdu"] by simp
  have "snd (pj_hmac_sha1_final (foldl pj_hmac_sha1_update (pj_hmac_sha1_init (replicate 64 0) (replicate 64 0) key) [?h, take p (drop 20 pdu)])) =
      rfc_hmac key (concat [?h, take p (drop 20 pdu)])"
    by (rule hmac_sha1_pieces) (use assms(1-3) in \<open>auto simp: h\<close>)
  then show ?thesis using assms(1) t by (simp add: msgint_digest_def rd_bytes_def Let_def)
qed

section \<open>Decoded messages\<close>

lemma decoded_layout:
  assumes "pj_stun_msg_decode se pdu options resp = (Done (msg, n), r)"
  shows "laid_out pdu 20 (sm_attr msg)" "spans (sm_attr msg) = unat (mh_length (sm_hdr msg))" "positions_ok False False (sm_attr msg)"
    "rd16 pdu 2 = Done (mh_length (sm_hdr msg))" "20 + unat (mh_length (sm_hdr msg)) \<le> length pdu" "pdu \<noteq> []"
proof -
  show ne: "pdu \<noteq> []" using assms by (auto simp: pj_stun_msg_decode_def)
  obtain hdr where h: "pbind (decode_precheck pdu options) (\<lambda>_. decode_hdr pdu) = Done hdr"
    using assms ne by (cases "pbind (decode_precheck pdu options) (\<lambda>_. decode_hdr pdu)") (simp_all add: pj_stun_msg_decode_def)
  let ?d = "decode_attrs se pdu hdr (resp \<and> PJ_STUN_IS_REQUEST (ucast (mh_type hdr))) 20 (unat (mh_length hdr)) False False []"
  have d: "fst ?d = Done (sm_attr msg, n) \<and> sm_hdr msg = hdr"
    using assms ne h by (cases ?d; cases "fst ?d") (auto simp: pj_stun_msg_decode_def)
  then show "laid_out pdu 20 (sm_attr msg)" "spans (sm_attr msg) = unat (mh_length (sm_hdr msg))" "positions_ok False False (sm_attr msg)"
    using decode_attrs_layout [of se pdu hdr _ 20 "unat (mh_length hdr)" False False "[]"] by auto
  show "rd16 pdu 2 = Done (mh_length (sm_hdr msg))" using h d by (auto simp: decode_hdr_def pbind_Done dest: arg_cong [of _ _ mh_length])
  have "fst (pj_stun_msg_decode se pdu options resp) \<noteq> Fault" using assms by simp
  then have "4 \<le> length pdu \<or> options AND PJ_STUN_CHECK_PACKET \<noteq> 0" using ne unfolding decode_fault_iff by auto
  then show "20 + unat (mh_length (sm_hdr msg)) \<le> length pdu" using decode_safe [of pdu options se resp] assms by auto
qed

text \<open>A packet is authentic under a key if the bytes of its first MESSAGE-INTEGRITY are the HMAC of RFC 5389.\<close>

definition authentic :: "u8 list \<Rightarrow> u8 list \<Rightarrow> pj_stun_msg \<Rightarrow> bool" where
  "authentic key pdu msg \<longleftrightarrow> list_ex is_msgint (sm_attr msg) \<and>
     (let p = spans (takeWhile (\<lambda>a. \<not> is_msgint a) (sm_attr msg)) in
      take 20 (drop (24 + p) pdu) = rfc_hmac key (mi_text pdu p))"

lemma decoded_msgint:
  assumes d: "pj_stun_msg_decode se pdu options resp = (Done (msg, n), r)" and "list_ex is_msgint (sm_attr msg)"
  shows "\<exists>p m b. find_msgint (sm_attr msg) 0 None = (p, Some m, b) \<and> 24 \<le> mh_length (sm_hdr msg) \<and>
    (\<forall>key. length key < 2 ^ 29 \<longrightarrow> (\<exists>digest. msgint_digest key pdu p b = Done digest \<and> (mi_hmac m = digest \<longleftrightarrow> authentic key pdu msg)))"
proof -
  note l = decoded_layout [OF d]
  obtain pre m post where a: "sm_attr msg = pre @ m # post" "is_msgint m" "list_all (\<lambda>a. \<not> is_msgint a) (pre @ post)"
    using positions_one_msgint [OF l(3) assms(2)] by blast
  have m: "ah_length m = 20" "rd_bytes pdu (24 + spans pre) 20 = Done (mi_hmac m)"
    using l(1) a(2) by (auto simp: a(1) laid_out_append placed_def add.commute add.left_commute)
  have sp: "span m = 24" by (simp add: span_def m align4_def)
  have len: "spans pre + 24 + spans post = unat (mh_length (sm_hdr msg))" using l(2) by (simp add: a(1) sp)
  have "unat (mh_length (sm_hdr msg)) < 65536" by (rule order_less_le_trans [OF unsigned_less]) simp
  then have p: "20 + spans pre \<le> length pdu" "spans pre < 2 ^ 29" "24 \<le> mh_length (sm_hdr msg)"
    using len l(5) by (simp_all add: word_le_nat_alt)
  have b: "post \<noteq> [] \<or> rd16 pdu 2 = Done (of_nat (spans pre + 24))"
  proof (cases "post = []")
    case True
    then have "of_nat (spans pre + 24) = mh_length (sm_hdr msg)" using len by simp
    then show ?thesis using l(4) by simp
  qed simp
  have "takeWhile (\<lambda>a. \<not> is_msgint a) (sm_attr msg) = pre" using a by (simp add: takeWhile_append2 list_all_iff)
  moreover have "mi_hmac m = take 20 (drop (24 + spans pre) pdu)" using m(2) by (auto simp: rd_bytes_def split: if_splits)
  ultimately have "\<exists>digest. msgint_digest key pdu (spans pre) (post \<noteq> []) = Done digest \<and> (mi_hmac m = digest \<longleftrightarrow> authentic key pdu msg)"
    if "length key < 2 ^ 29" for key
    using msgint_digest_rfc [OF p(1,2) that b] a by (simp add: authentic_def Let_def)
  then show ?thesis using find_msgint_at [OF a(3,2), of 0] p(3) by (simp add: a(1))
qed

lemma find_attr_msgint: "pj_stun_msg_find_attr msg PJ_STUN_ATTR_MESSAGE_INTEGRITY 0 = None \<longleftrightarrow> \<not> list_ex is_msgint (sm_attr msg)"
  by (auto simp: pj_stun_msg_find_attr_def find_None_iff list_ex_iff)

lemma response_auth:
  assumes "pj_stun_msg_decode se pdu options resp = (Done (msg, n), r)" "length key < 2 ^ 29"
  shows "pj_stun_authenticate_response pdu msg key = (if authentic key pdu msg then Done () else Fail (PJ_STATUS_FROM_STUN_CODE PJ_STUN_SC_UNAUTHORIZED))"
proof (cases "list_ex is_msgint (sm_attr msg)")
  case True
  obtain p m b digest where f: "find_msgint (sm_attr msg) 0 None = (p, Some m, b)" "24 \<le> mh_length (sm_hdr msg)"
    "msgint_digest key pdu p b = Done digest" "mi_hmac m = digest \<longleftrightarrow> authentic key pdu msg"
    using decoded_msgint [OF assms(1) True] assms(2) by blast
  obtain a where "pj_stun_msg_find_attr msg PJ_STUN_ATTR_MESSAGE_INTEGRITY 0 = Some a" using True find_attr_msgint [of msg] by fastforce
  moreover have "\<not> mh_length (sm_hdr msg) < 24" using f(2) by (simp only: not_less)
  ultimately show ?thesis using f decoded_layout(6) [OF assms(1)] by (simp add: pj_stun_authenticate_response_def)
next
  case False
  then show ?thesis
    using decoded_layout(6) [OF assms(1)] find_attr_msgint [of msg] by (simp add: pj_stun_authenticate_response_def authentic_def)
qed

section \<open>Requests against a static credential\<close>

text \<open>The key of a credential, as RFC 5389 defines it.\<close>

definition static_key :: "static_cred \<Rightarrow> u8 list" where
  "static_key c =
     (if sc_realm c = [] \<or> sc_data_type c = PJ_STUN_PASSWD_HASHED then sc_data c
      else rfc_md5 (remove_quote (sc_username c) @ [58] @ remove_quote (sc_realm c) @ [58] @ sc_data c))"

abbreviation attr_value :: "pj_stun_msg \<Rightarrow> u16 \<Rightarrow> (u8 list) option" where
  "attr_value msg ty \<equiv> map_option sa_value (pj_stun_msg_find_attr msg ty 0)"

text \<open>What the realm and the nonce of a request have to be.\<close>

definition realm_ok :: "static_cred \<Rightarrow> pj_stun_msg \<Rightarrow> bool" where
  "realm_ok c msg =
     (case attr_value msg PJ_STUN_ATTR_REALM of
        None \<Rightarrow> sc_realm c = [] \<and> sc_nonce c = []
      | Some realm \<Rightarrow> sc_realm c = [] \<or> stricmp_eq realm (sc_realm c))"

definition nonce_ok :: "static_cred \<Rightarrow> pj_stun_msg \<Rightarrow> bool" where
  "nonce_ok c msg =
     (case attr_value msg PJ_STUN_ATTR_NONCE of
        None \<Rightarrow> sc_realm c = [] \<or> sc_nonce c = []
      | Some nonce \<Rightarrow> sc_nonce c = [] \<or> nonce = sc_nonce c)"

lemma calc_md5_rfc:
  assumes "length realm < 2 ^ 32" "length username < 2 ^ 32" "length passwd < 2 ^ 32"
  shows "calc_md5_key realm username passwd = rfc_md5 (remove_quote username @ [58] @ remove_quote realm @ [58] @ passwd)"
proof -
  have q: "length (remove_quote x) \<le> length x" for x by (simp add: remove_quote_def Let_def)
  have "snd (pj_md5_final (foldl pj_md5_update (pj_md5_init (replicate 64 0)) [remove_quote username, [58], remove_quote realm, [58], passwd])) =
      rfc_md5 (concat [remove_quote username, [58], remove_quote realm, [58], passwd])"
    using assms q [of username] q [of realm] by (intro md5_stream.streaming) auto
  then show ?thesis by (simp add: calc_md5_key_def Let_def)
qed

lemma create_key_static:
  assumes "length (sc_realm c) < 2 ^ 32" "length (sc_username c) < 2 ^ 32" "length (sc_data c) < 2 ^ 32"
  shows "pj_stun_create_key (Some (sc_realm c)) (sc_username c) (sc_data_type c) (sc_data c) = static_key c"
  using calc_md5_rfc [OF assms] by (cases "sc_data_type c") (simp_all add: pj_stun_create_key_def static_key_def)

text \<open>The outcome of the checks that come before the digest.\<close>

lemma terms_nonce_static:
  assumes "ci_realm info = sc_realm c" "ci_nonce info = sc_nonce c" "\<not> (sc_realm c \<noteq> [] \<and> realm = None)"
    and "realm = attr_value msg PJ_STUN_ATTR_REALM" "nonce = attr_value msg PJ_STUN_ATTR_NONCE"
  shows "and_then (auth_terms info realm nonce) (and_then (auth_nonce msg (Static_cred c) info realm user nonce) k) = Go_on \<longleftrightarrow>
    realm_ok c msg \<and> nonce_ok c msg \<and> k = Go_on"
  using assms(3) unfolding auth_terms_def auth_nonce_def assms(1,2) realm_ok_def nonce_ok_def assms(4,5) [symmetric]
  by (cases realm; cases nonce) (auto simp: and_then_def)

lemma and_then_Go_on: "and_then Go_on k = k"
  by (simp add: and_then_def)

lemma and_then_Return: "and_then a b = Return x \<longleftrightarrow> a = Return x \<or> a = Go_on \<and> b = Return x"
  by (cases a) (simp_all add: and_then_def)

lemma auth_terms_Return: "auth_terms info realm nonce \<noteq> Return x"
  by (simp add: auth_terms_def split: option.split)

lemma auth_nonce_Return: "auth_nonce msg cred info realm user nonce \<noteq> Return x"
  by (simp add: auth_nonce_def Let_def split: option.split)

lemma rfc_md5_length: "length (rfc_md5 m) = 16"
  by (simp add: rfc_md5_def md5_digest_def put_le32_def split: prod.split)

lemma auth_checks_static:
  assumes d: "pj_stun_msg_decode se pdu options resp = (Done (msg, n), r)"
    and "length (sc_realm c) < 2 ^ 32" "length (sc_username c) < 2 ^ 32" "length (sc_data c) < 2 ^ 29"
    and "ci_realm info = sc_realm c" "ci_nonce info = sc_nonce c"
  shows "fst (auth_checks pdu msg (Static_cred c) info) = Go_on \<longleftrightarrow>
    attr_value msg PJ_STUN_ATTR_USERNAME = Some (sc_username c) \<and> realm_ok c msg \<and> nonce_ok c msg \<and>
    static_key c \<noteq> [] \<and> authentic (static_key c) pdu msg"
    and "fst (auth_checks pdu msg (Static_cred c) info) = Return x \<Longrightarrow> x = Fail PJ_EBUG"
proof -
  have k: "pj_stun_create_key (Some (sc_realm c)) (sc_username c) (sc_data_type c) (sc_data c) = static_key c"
    using assms(2-4) by (intro create_key_static) simp_all
  have kl: "length (static_key c) < 2 ^ 29" using assms(4) by (simp add: static_key_def rfc_md5_length)
  let ?go = "fst (auth_checks pdu msg (Static_cred c) info)"
  let ?r = "attr_value msg PJ_STUN_ATTR_REALM" and ?n = "attr_value msg PJ_STUN_ATTR_NONCE"
  let ?i = "info\<lparr>ci_username := sc_username c, ci_auth_key := static_key c\<rparr>"
  have au: "auth_user msg (Static_cred c) ?r (sc_username c) info = (if static_key c = [] then Return (Fail PJ_EBUG) else Go_on, ?i)"
    using k assms(5) by (simp add: auth_user_def with_key_def)
  have "(?go = Go_on \<longleftrightarrow> attr_value msg PJ_STUN_ATTR_USERNAME = Some (sc_username c) \<and> realm_ok c msg \<and> nonce_ok c msg \<and>
      static_key c \<noteq> [] \<and> authentic (static_key c) pdu msg) \<and> (?go = Return x \<longrightarrow> x = Fail PJ_EBUG)"
  proof (cases "list_ex is_msgint (sm_attr msg)")
    case False
    then have "fst (snd (find_msgint (sm_attr msg) 0 None)) = None"
      using find_msgint_none [of "sm_attr msg" 0] by (auto simp: list_all_iff list_ex_iff)
    then show ?thesis using False by (auto simp: auth_checks_def authentic_def split: prod.splits)
  next
    case mi: True
    obtain p m b digest where f: "find_msgint (sm_attr msg) 0 None = (p, Some m, b)"
      "msgint_digest (static_key c) pdu p b = Done digest" "mi_hmac m = digest \<longleftrightarrow> authentic (static_key c) pdu msg"
      using decoded_msgint [OF d mi] kl by blast
    have dg: "auth_digest (static_key c) pdu m p b = Go_on \<longleftrightarrow> authentic (static_key c) pdu msg"
      "auth_digest (static_key c) pdu m p b \<noteq> Return x" for x
      using f(2,3) by (simp_all add: auth_digest_def)
    show ?thesis
    proof (cases "pj_stun_msg_find_attr msg PJ_STUN_ATTR_USERNAME 0")
      case None
      then show ?thesis by (simp add: auth_checks_def f)
    next
      case (Some u)
      consider (realm) "sc_realm c \<noteq> [] \<and> ?r = None" | (user) "\<not> (sc_realm c \<noteq> [] \<and> ?r = None)" "sa_value u \<noteq> sc_username c"
        | (key) "\<not> (sc_realm c \<noteq> [] \<and> ?r = None)" "sa_value u = sc_username c" "static_key c = []"
        | (go) "\<not> (sc_realm c \<noteq> [] \<and> ?r = None)" "sa_value u = sc_username c" "static_key c \<noteq> []" by blast
      then show ?thesis
      proof cases
        case realm
        then show ?thesis using Some assms(5) by (simp add: auth_checks_def f realm_ok_def)
      next
        case user
        then show ?thesis using Some assms(5) by (auto simp: auth_checks_def f auth_user_def and_then_def)
      next
        case key
        have "?go = Return (Fail PJ_EBUG)"
          unfolding auth_checks_def f Let_def Some assms(5) using key au by (auto simp: and_then_def)
        then show ?thesis using key by simp
      next
        case go
        have "?go = and_then (auth_terms ?i ?r ?n) (and_then (auth_nonce msg (Static_cred c) ?i ?r (sc_username c) ?n) (auth_digest (static_key c) pdu m p b))"
          unfolding auth_checks_def f Let_def Some assms(5) using go au by (auto simp: and_then_Go_on)
        then show ?thesis
          using terms_nonce_static [of ?i c ?r msg ?n "sc_username c" "auth_digest (static_key c) pdu m p b"] dg Some go assms(5,6)
          by (simp add: and_then_Return auth_terms_Return auth_nonce_Return)
      qed
    qed
  qed
  then show "?go = Go_on \<longleftrightarrow> attr_value msg PJ_STUN_ATTR_USERNAME = Some (sc_username c) \<and> realm_ok c msg \<and> nonce_ok c msg \<and>
      static_key c \<noteq> [] \<and> authentic (static_key c) pdu msg" "?go = Return x \<Longrightarrow> x = Fail PJ_EBUG" by blast+
qed

text \<open>Challenges can be made for every code of the checks.\<close>

lemma challenge_safe: "e \<le> 600 \<Longrightarrow> create_challenge msg e t realm nonce \<noteq> Fault"
proof -
  assume "e \<le> 600"
  then have "safe (pj_stun_msg_create_response (sm_hdr msg) e m) (\<lambda>_. True)" for m
    using create_response_safe [of e "sm_hdr msg" m] by (simp add: safe_def split: parse.split)
  moreover have "safe (pj_stun_msg_add_string_attr r ty v) (\<lambda>_. True)" for r ty v
    by (simp add: pj_stun_msg_add_string_attr_def pj_stun_msg_add_attr_def)
  ultimately have "safe (create_challenge msg e t realm nonce) (\<lambda>_. True)"
    by (auto simp: create_challenge_def intro!: safe_bindI split: prod.splits elim: safe_mono)
  then show ?thesis by (rule safe_not_fault)
qed

lemma refuse_Fail: "r \<noteq> Some Fault \<Longrightarrow> fst (refuse st r) = Fail st"
  by (auto simp: refuse_def split: option.splits parse.splits)

lemmas auth_codes = PJ_STUN_SC_UNAUTHORIZED_def PJ_STUN_SC_BAD_REQUEST_def PJ_STUN_SC_STALE_NONCE_def

definition known_code :: "auth \<Rightarrow> bool" where
  "known_code x = (case x of Auth_failed e _ \<Rightarrow> e \<le> 600 | _ \<Rightarrow> True)"

lemma known_codes:
  "known_code (auth_terms i r n)" "known_code (auth_nonce msg cred i r u n)" "known_code (auth_digest k pdu m p b)"
  "known_code (fst (auth_user msg cred r x i))"
  by (simp_all add: known_code_def auth_terms_def auth_nonce_def auth_digest_def auth_user_def with_key_def auth_codes Let_def case_prod_beta
      split: option.split parse.split pj_stun_auth_cred.split)

lemma known_and_then: "known_code x \<Longrightarrow> known_code y \<Longrightarrow> known_code (and_then x y)"
  by (cases x) (simp_all add: and_then_def known_code_def)

lemma auth_failed_code: "known_code (fst (auth_checks pdu msg cred info))"
proof -
  have f: "known_code (Auth_failed PJ_STUN_SC_UNAUTHORIZED t)" "known_code (Auth_failed PJ_STUN_SC_BAD_REQUEST t)" for t
    by (simp_all add: known_code_def auth_codes)
  show ?thesis
    unfolding auth_checks_def Let_def case_prod_beta
    by (simp add: f split: option.split) (intro conjI allI impI known_and_then known_codes)
qed

lemma request_outcome:
  fixes c :: static_cred
  assumes "pdu \<noteq> []"
  defines "info \<equiv> \<lparr>ci_realm = sc_realm c, ci_username = [], ci_nonce = sc_nonce c, ci_auth_key = []\<rparr>"
  shows "fst (fst (pj_stun_authenticate_request pdu msg (Static_cred c) want)) =
    (case fst (auth_checks pdu msg (Static_cred c) info) of
       Go_on \<Rightarrow> Done () | Return p \<Rightarrow> p | Auth_failed e _ \<Rightarrow> Fail (PJ_STATUS_FROM_STUN_CODE e))"
proof -
  obtain x i where x: "auth_checks pdu msg (Static_cred c) info = (x, i)" by fastforce
  show ?thesis
  proof (cases x)
    case (Auth_failed e t)
    then have "e \<le> 600" using auth_failed_code [of pdu msg "Static_cred c" info] x by (simp add: known_code_def)
    then show ?thesis
      using assms(1) x Auth_failed challenge_safe [of e msg t "sc_realm c" "sc_nonce c"]
      by (auto simp: pj_stun_authenticate_request_def Let_def info_def [symmetric] intro!: refuse_Fail)
  qed (use assms(1) x in \<open>simp_all add: pj_stun_authenticate_request_def Let_def info_def [symmetric]\<close>)
qed

lemma request_auth:
  assumes "pj_stun_msg_decode se pdu options resp = (Done (msg, n), r)"
    and "length (sc_realm c) < 2 ^ 32" "length (sc_username c) < 2 ^ 32" "length (sc_data c) < 2 ^ 29"
  shows "(fst (fst (pj_stun_authenticate_request pdu msg (Static_cred c) want)) = Done () \<longleftrightarrow>
      attr_value msg PJ_STUN_ATTR_USERNAME = Some (sc_username c) \<and> realm_ok c msg \<and> nonce_ok c msg \<and>
      static_key c \<noteq> [] \<and> authentic (static_key c) pdu msg) \<and>
    fst (fst (pj_stun_authenticate_request pdu msg (Static_cred c) want)) \<noteq> Fault"
proof -
  let ?i = "\<lparr>ci_realm = sc_realm c, ci_username = [], ci_nonce = sc_nonce c, ci_auth_key = []\<rparr>"
  show ?thesis
    using auth_checks_static [OF assms, of ?i] request_outcome [OF decoded_layout(6) [OF assms(1)], of msg c want]
    by (auto split: auth.splits)
qed

section \<open>Signed messages\<close>

lemma received_span:
  assumes "sendable a" "length (mh_tsx_id hdr) = 12" "length (attr_wire pc hdr a) < 65536"
  shows "span (received pc hdr a) = length (attr_wire pc hdr a)"
proof -
  define c where "c = (case find_attr_desc (ah_type a) of None \<Rightarrow> C_binary | Some (_, c) \<Rightarrow> c)"
  have "fits c a" "faithful c a"
    using assms(1) by (auto simp: sendable_def attr_typed_def c_def generic_cases fits_cases split: option.splits)
  from wire_head(2) [OF this assms(2,3)] show ?thesis by (simp add: span_def)
qed

lemma received_spans:
  assumes "list_all sendable as" "length (mh_tsx_id hdr) = 12" "length (wires pc hdr as) < 65536"
  shows "spans (map (received pc hdr) as) = length (wires pc hdr as)"
  using assms by (induction as) (simp_all add: received_span)

lemma sealed_authentic:
  fixes base pc hdr key fp
  defines "as \<equiv> sealed pc hdr base (Some key) fp"
  assumes "list_all plain_attr base" "list_all sendable base" "length (mh_tsx_id hdr) = 12" "length (wires pc hdr as) < 65536"
    and "sm_attr msg = map (received pc hdr) as"
  shows "authentic key (stun_wire pc hdr as) msg"
proof -
  let ?b = "wires pc hdr base"
  let ?h = "rfc_hmac key (hdr_wire hdr (of_nat (length ?b + 24)) @ ?b)"
  obtain post where a: "as = base @ Msgint_attr PJ_STUN_ATTR_MESSAGE_INTEGRITY 20 ?h # post"
    by (simp add: as_def sealed_def mac_attr_def Let_def)
  have np: "\<not> is_msgint x" if "x \<in> set (map (received pc hdr) base)" for x
    using that assms(2) by (auto simp: list_all_iff plain_attr_def)
  have tw: "takeWhile (\<lambda>a. \<not> is_msgint a) (sm_attr msg) = map (received pc hdr) base"
    using takeWhile_append2 [of "map (received pc hdr) base" "\<lambda>a. \<not> is_msgint a"] np by (simp add: assms(6) a)
  have p: "spans (map (received pc hdr) base) = length ?b" using received_spans [OF assms(3,4)] assms(5) by (simp add: a)
  obtain L rest where w: "stun_wire pc hdr as = hdr_wire hdr L @ ?b @ put16 PJ_STUN_ATTR_MESSAGE_INTEGRITY @ put16 20 @ ?h @ rest"
    by (simp add: stun_wire_def a)
  have "mi_text (stun_wire pc hdr as) (length ?b) = hdr_wire hdr (of_nat (length ?b + 24)) @ ?b"
    unfolding w mi_text_def hdr_wire_def using assms(4) by simp
  moreover have "take 20 (drop (24 + length ?b) (stun_wire pc hdr as)) = ?h"
    unfolding w using assms(4) by (simp add: hdr_wire_def rfc_hmac_length)
  moreover have "list_ex is_msgint (sm_attr msg)" by (simp add: assms(6) a)
  ultimately show ?thesis by (simp add: authentic_def tw p Let_def)
qed

text \<open>What comes out of the encoder and goes through the decoder.\<close>

lemma sealed_transfer:
  fixes base pc hdr key fp
  defines "as \<equiv> sealed pc hdr base (Some key) (map_option fst fp)"
  assumes "list_all plain_attr base" "list_all sendable base" "length (mh_tsx_id hdr) = 12" "length (unsealed base (Some h) fp) \<le> PJ_STUN_MAX_ATTR"
    and "length key < 2 ^ 29" "20 + length (wires pc hdr as) \<le> n" "n \<le> length mem" "n < 65556"
  shows "\<exists>msg mem' len rx. pj_stun_msg_encode pc \<lparr>sm_hdr = hdr, sm_attr = unsealed base (Some h) fp\<rparr> mem n 0 (Some key) = Done (msg, mem', len) \<and>
    pj_stun_msg_decode se (take len mem') 0 resp = (Done (rx, len), None) \<and> authentic key (take len mem') rx \<and>
    sm_attr rx = map (received pc hdr) as \<and> mh_type (sm_hdr rx) = mh_type hdr"
proof -
  have u: "used_key (Some h) key = Some key" by (simp add: used_key_def)
  have l: "length (wires pc hdr as) < 65536" using assms(7,9) by simp
  have s: "list_all sendable as" "positions_ok False False as" "length as \<le> PJ_STUN_MAX_ATTR"
    unfolding as_def using sealed_sendable [OF assms(3)] positions_sealed [OF assms(2)] assms(5) sealed_length [of pc hdr base "Some h" key fp]
    by (simp_all add: u)
  let ?rx = "\<lparr>sm_hdr = hdr\<lparr>mh_length := of_nat (length (wires pc hdr as))\<rparr>, sm_attr = map (received pc hdr) as\<rparr>"
  have d: "pj_stun_msg_decode se (stun_wire pc hdr as) 0 resp = (Done (?rx, 20 + length (wires pc hdr as)), None)"
    by (intro decode_stun_wire [OF s(1) assms(4) l s(3,2)]) simp
  have t: "take (20 + length (wires pc hdr as)) (mem_put mem 0 (stun_wire pc hdr as)) = stun_wire pc hdr as"
    using assms(4) by (simp add: mem_put_def stun_wire_def)
  have "authentic key (stun_wire pc hdr as) ?rx"
    using sealed_authentic [OF assms(2-4), of pc key "map_option fst fp" ?rx] l by (simp add: as_def)
  then show ?thesis
    using encode_wire [OF assms(2,4-6), of pc n mem] assms(7-9) d t by (auto simp: as_def u)
qed

section \<open>A request of a client that knows the credential\<close>

definition login_attrs :: "static_cred \<Rightarrow> u8 list \<Rightarrow> pj_stun_attr list" where
  "login_attrs c nonce =
     [pj_stun_string_attr_init PJ_STUN_ATTR_USERNAME (sc_username c), pj_stun_string_attr_init PJ_STUN_ATTR_REALM (sc_realm c),
      pj_stun_string_attr_init PJ_STUN_ATTR_NONCE nonce]"

lemmas login_types = PJ_STUN_ATTR_USERNAME_def PJ_STUN_ATTR_REALM_def PJ_STUN_ATTR_NONCE_def

lemma login_desc:
  "find_attr_desc PJ_STUN_ATTR_USERNAME = Some (''USERNAME'', C_string)"
  "find_attr_desc PJ_STUN_ATTR_REALM = Some (''REALM'', C_string)"
  "find_attr_desc PJ_STUN_ATTR_NONCE = Some (''NONCE'', C_string)"
  by (simp_all add: find_attr_desc_def mandatory_attr_desc_def login_types PJ_STUN_ATTR_END_MANDATORY_ATTR_def)

lemma string_attr_init: "pj_stun_string_attr_init ty v = String_attr ty (of_nat (length v)) v"
  by (simp add: pj_stun_string_attr_init_def)

lemma login_plain: "list_all plain_attr (login_attrs c nonce)" "list_all sendable (login_attrs c nonce)"
  by (simp_all add: login_attrs_def string_attr_init plain_attr_def sendable_def attr_typed_def fits_def login_desc)
    (simp_all add: login_types PJ_STUN_ATTR_MESSAGE_INTEGRITY_def PJ_STUN_ATTR_FINGERPRINT_def)

lemma login_values:
  assumes "list_all (\<lambda>a. ah_type a \<notin> {PJ_STUN_ATTR_USERNAME, PJ_STUN_ATTR_REALM, PJ_STUN_ATTR_NONCE}) others"
    and "mh_magic hdr = PJ_STUN_MAGIC" "sm_attr rx = map (received pc hdr) (sealed pc hdr (others @ login_attrs c nonce) k f)"
  shows "attr_value rx PJ_STUN_ATTR_USERNAME = Some (sc_username c)" "attr_value rx PJ_STUN_ATTR_REALM = Some (sc_realm c)"
    "attr_value rx PJ_STUN_ATTR_NONCE = Some nonce"
proof -
  have "find (\<lambda>a. ah_type a = ty) (map (received pc hdr) others @ as) = find (\<lambda>a. ah_type a = ty) as"
    if "ty \<in> {PJ_STUN_ATTR_USERNAME, PJ_STUN_ATTR_REALM, PJ_STUN_ATTR_NONCE}" for ty as
    using assms(1) that by (induction others) auto
  moreover have "received pc hdr (pj_stun_string_attr_init ty v) = String_attr ty (of_nat (length v)) v" if "ty \<noteq> PJ_STUN_ATTR_SOFTWARE" for ty v
    using that assms(2) by (simp add: string_attr_init wire_string_len_def Let_def)
  ultimately show "attr_value rx PJ_STUN_ATTR_USERNAME = Some (sc_username c)" "attr_value rx PJ_STUN_ATTR_REALM = Some (sc_realm c)"
    "attr_value rx PJ_STUN_ATTR_NONCE = Some nonce"
    by (simp_all add: pj_stun_msg_find_attr_def assms(3) sealed_def login_attrs_def Let_def del: received.simps)
      (simp_all add: login_types PJ_STUN_ATTR_SOFTWARE_def string_attr_init)
qed

lemma login_accepted:
  fixes others pc hdr c nonce fp
  defines "key \<equiv> pj_stun_create_key (Some (sc_realm c)) (sc_username c) (sc_data_type c) (sc_data c)"
  defines "base \<equiv> others @ login_attrs c nonce"
  assumes "list_all plain_attr others" "list_all sendable others" "length (mh_tsx_id hdr) = 12" "mh_magic hdr = PJ_STUN_MAGIC"
    and "list_all (\<lambda>a. ah_type a \<notin> {PJ_STUN_ATTR_USERNAME, PJ_STUN_ATTR_REALM, PJ_STUN_ATTR_NONCE}) others"
    and "sc_realm c \<noteq> []" "sc_nonce c = [] \<or> nonce = sc_nonce c" "sc_data c \<noteq> []" "length (sc_data c) < 2 ^ 29"
    and "length (unsealed base (Some h) fp) \<le> PJ_STUN_MAX_ATTR"
    and "20 + length (wires pc hdr (sealed pc hdr base (Some key) (map_option fst fp))) \<le> n" "n \<le> length mem" "n < 65556"
  shows "\<exists>msg mem' len rx. pj_stun_msg_encode pc \<lparr>sm_hdr = hdr, sm_attr = unsealed base (Some h) fp\<rparr> mem n 0 (Some key) = Done (msg, mem', len) \<and>
    pj_stun_msg_decode se (take len mem') 0 resp = (Done (rx, len), None) \<and>
    fst (fst (pj_stun_authenticate_request (take len mem') rx (Static_cred c) want)) = Done ()"
proof -
  have "length (wires pc hdr (login_attrs c nonce)) < 65536" using assms(13,15) by (simp add: base_def sealed_def Let_def)
  then have l: "length (sc_username c) < 65536" "length (sc_realm c) < 65536" by (simp_all add: login_attrs_def string_attr_init)
  have k: "key = static_key c" unfolding key_def using l assms(11) by (intro create_key_static) simp_all
  have "length key < 2 ^ 29" using assms(11) by (simp add: k static_key_def rfc_md5_length)
  have kn: "static_key c \<noteq> []" using assms(10) rfc_md5_length by (metis list.size(3) static_key_def zero_neq_numeral)
  have b: "list_all plain_attr base" "list_all sendable base" using assms(3,4) login_plain by (simp_all add: base_def)
  obtain msg mem' len rx where t: "pj_stun_msg_encode pc \<lparr>sm_hdr = hdr, sm_attr = unsealed base (Some h) fp\<rparr> mem n 0 (Some key) = Done (msg, mem', len)"
    "pj_stun_msg_decode se (take len mem') 0 resp = (Done (rx, len), None)" "authentic key (take len mem') rx"
    "sm_attr rx = map (received pc hdr) (sealed pc hdr base (Some key) (map_option fst fp))"
    using sealed_transfer [OF b assms(5,12) \<open>length key < 2 ^ 29\<close> assms(13-15), of se resp] by blast
  note v = login_values [OF assms(7,6) t(4) [unfolded base_def]]
  have "realm_ok c rx" "nonce_ok c rx" using assms(9) by (simp_all add: realm_ok_def nonce_ok_def v stricmp_refl)
  then have "fst (fst (pj_stun_authenticate_request (take len mem') rx (Static_cred c) want)) = Done ()"
    using request_auth [OF t(2), of c want] l assms(11) v(1) t(3) kn by (simp add: k)
  then show ?thesis using t by blast
qed

section \<open>Properties\<close>

text \<open>A decoded response is accepted exactly when the bytes of its MESSAGE-INTEGRITY are the HMAC-SHA1 of RFC 2104, under
  the key, of the header with the length up to that attribute and the attributes before it.  Any other response
  gets the status of 401, and no packet makes the check read outside of it.\<close>

theorem stun_response_authenticated:
  assumes "pj_stun_msg_decode se pdu options resp = (Done (msg, n), r)" "length key < 2 ^ 29"
  shows "pj_stun_authenticate_response pdu msg key =
    (if authentic key pdu msg then Done () else Fail (PJ_STATUS_FROM_STUN_CODE PJ_STUN_SC_UNAUTHORIZED))"
  using assms by (rule response_auth)


text \<open>C12: A client that knows a long-term credential gets through: its request, with the key made by \<^verbatim>\<open>pj_stun_create_key\<close>,
  encoded, sent, and decoded, is accepted by a server with that credential.\<close>

theorem stun_login_accepted:
  fixes others pc hdr c nonce fp
  defines "key \<equiv> pj_stun_create_key (Some (sc_realm c)) (sc_username c) (sc_data_type c) (sc_data c)"
  defines "base \<equiv> others @ login_attrs c nonce"
  assumes "list_all plain_attr others" "list_all sendable others" "length (mh_tsx_id hdr) = 12" "mh_magic hdr = PJ_STUN_MAGIC"
    and "list_all (\<lambda>a. ah_type a \<notin> {PJ_STUN_ATTR_USERNAME, PJ_STUN_ATTR_REALM, PJ_STUN_ATTR_NONCE}) others"
    and "sc_realm c \<noteq> []" "sc_nonce c = [] \<or> nonce = sc_nonce c" "sc_data c \<noteq> []" "length (sc_data c) < 2 ^ 29"
    and "length (unsealed base (Some h) fp) \<le> PJ_STUN_MAX_ATTR"
    and "20 + length (wires pc hdr (sealed pc hdr base (Some key) (map_option fst fp))) \<le> n" "n \<le> length mem" "n < 65556"
  shows "\<exists>msg mem' len rx. pj_stun_msg_encode pc \<lparr>sm_hdr = hdr, sm_attr = unsealed base (Some h) fp\<rparr> mem n 0 (Some key) = Done (msg, mem', len) \<and>
    pj_stun_msg_decode se (take len mem') 0 resp = (Done (rx, len), None) \<and>
    fst (fst (pj_stun_authenticate_request (take len mem') rx (Static_cred c) want)) = Done ()"
  unfolding key_def base_def by (rule login_accepted) (use assms in \<open>simp_all add: key_def base_def\<close>)

text \<open>A short-term credential with a nonce cannot be used: a request without REALM is refused as lacking a nonce, also
  when it has the right one and is authentic.\<close>

theorem stun_short_term_nonce_refused:
  assumes "pdu \<noteq> []" "sc_realm c = []" "sc_nonce c \<noteq> []" "sc_data c \<noteq> []"
    and "find_msgint (sm_attr msg) 0 None = (p, Some m, b)" "attr_value msg PJ_STUN_ATTR_REALM = None"
    and "attr_value msg PJ_STUN_ATTR_USERNAME = Some (sc_username c)" "attr_value msg PJ_STUN_ATTR_NONCE = Some (sc_nonce c)"
  shows "fst (fst (pj_stun_authenticate_request pdu msg (Static_cred c) want)) = Fail (PJ_STATUS_FROM_STUN_CODE PJ_STUN_SC_UNAUTHORIZED)"
proof -
  obtain u where u: "pj_stun_msg_find_attr msg PJ_STUN_ATTR_USERNAME 0 = Some u" "sa_value u = sc_username c" using assms(7) by auto
  let ?i = "\<lparr>ci_realm = sc_realm c, ci_username = [], ci_nonce = sc_nonce c, ci_auth_key = []\<rparr>"
  have "fst (auth_checks pdu msg (Static_cred c) ?i) = Auth_failed PJ_STUN_SC_UNAUTHORIZED (Some ''NONCE required'')"
    using u assms(2-6)
    by (simp add: auth_checks_def auth_user_def with_key_def pj_stun_create_key_def auth_terms_def and_then_def)
  then show ?thesis using request_outcome [OF assms(1), of msg c want] by simp
qed

section \<open>Witnesses\<close>

definition ex_cred :: static_cred where
  "ex_cred = \<lparr>sc_realm = [114], sc_username = [117], sc_data_type = PJ_STUN_PASSWD_PLAIN, sc_data = [112], sc_nonce = [110]\<rparr>"

lemma ex_login_length:
  "length (wires 0 ex_hdr (sealed 0 ex_hdr ([ex_attr] @ login_attrs ex_cred [110]) (Some key) (map_option fst (Some (4 :: u16, 0 :: u32))))) = 64"
  by (simp add: sealed_def Let_def ex_facts login_attrs_def string_attr_init ex_cred_def pad_bytes_def)

lemma ex_login_facts:
  "length (unsealed ([ex_attr] @ login_attrs ex_cred [110]) (Some (replicate 20 0)) (Some (4, 0))) \<le> PJ_STUN_MAX_ATTR"
  "list_all (\<lambda>a. ah_type a \<notin> {PJ_STUN_ATTR_USERNAME, PJ_STUN_ATTR_REALM, PJ_STUN_ATTR_NONCE}) [ex_attr]"
  "mh_magic ex_hdr = PJ_STUN_MAGIC" "sc_realm ex_cred \<noteq> []" "sc_nonce ex_cred = [] \<or> [110] = sc_nonce ex_cred" "sc_data ex_cred \<noteq> []"
  "length (sc_data ex_cred) < 2 ^ 29"
  by (simp_all add: unsealed_def login_attrs_def stun_consts ex_attr_def ex_hdr_def ex_cred_def login_types)

theorem stun_login_accepted_witness:
  "\<exists>msg mem' len rx. pj_stun_msg_encode 0 \<lparr>sm_hdr = ex_hdr, sm_attr = unsealed ([ex_attr] @ login_attrs ex_cred [110]) (Some (replicate 20 0)) (Some (4, 0))\<rparr>
      (replicate 100 0) 100 0 (Some (pj_stun_create_key (Some (sc_realm ex_cred)) (sc_username ex_cred) (sc_data_type ex_cred) (sc_data ex_cred))) = Done (msg, mem', len) \<and>
    pj_stun_msg_decode (\<lambda>_. '''') (take len mem') 0 True = (Done (rx, len), None) \<and>
    fst (fst (pj_stun_authenticate_request (take len mem') rx (Static_cred ex_cred) True)) = Done ()"
  by (rule stun_login_accepted) (use ex_login_length ex_login_facts ex_facts in simp_all)

lemma ex_login:
  obtains pdu rx n where "pj_stun_msg_decode (\<lambda>_. '''') pdu 0 True = (Done (rx, n), None)"
    "fst (fst (pj_stun_authenticate_request pdu rx (Static_cred ex_cred) True)) = Done ()"
proof -
  have "\<exists>msg mem' len rx. pj_stun_msg_encode 0 \<lparr>sm_hdr = ex_hdr, sm_attr = unsealed ([ex_attr] @ login_attrs ex_cred [110]) (Some (replicate 20 0)) (Some (4, 0))\<rparr>
      (replicate 100 0) 100 0 (Some (pj_stun_create_key (Some (sc_realm ex_cred)) (sc_username ex_cred) (sc_data_type ex_cred) (sc_data ex_cred))) = Done (msg, mem', len) \<and>
    pj_stun_msg_decode (\<lambda>_. '''') (take len mem') 0 True = (Done (rx, len), None) \<and>
    fst (fst (pj_stun_authenticate_request (take len mem') rx (Static_cred ex_cred) True)) = Done ()"
    by (rule login_accepted) (use ex_login_length ex_login_facts ex_facts in simp_all)
  then show thesis using that by blast
qed


lemma ex_signed:
  "\<exists>msg mem' len rx. pj_stun_msg_encode 0 \<lparr>sm_hdr = ex_hdr, sm_attr = unsealed [ex_attr] (Some (replicate 20 0)) (Some (4, 0))\<rparr> (replicate 100 0) 100 0 (Some [1, 2, 3]) =
      Done (msg, mem', len) \<and>
    pj_stun_msg_decode (\<lambda>_. '''') (take len mem') 0 True = (Done (rx, len), None) \<and> authentic [1, 2, 3] (take len mem') rx"
  using sealed_transfer [of "[ex_attr]" ex_hdr "replicate 20 0" "Some (4, 0)" "[1, 2, 3]" 0 100 "replicate 100 0" "\<lambda>_. ''''" True] ex_sealed [of 0 ex_hdr "replicate 20 0" "[1, 2, 3]"]
  by (fastforce simp: ex_facts used_key_def unsealed_def stun_consts)

theorem stun_response_authenticated_witness:
  "\<exists>pdu rx n. pj_stun_msg_decode (\<lambda>_. '''') pdu 0 True = (Done (rx, n), None) \<and> pj_stun_authenticate_response pdu rx [1, 2, 3] = Done ()"
proof -
  obtain pdu rx n where d: "pj_stun_msg_decode (\<lambda>_. '''') pdu 0 True = (Done (rx, n), None)" "authentic [1, 2, 3] pdu rx"
    using ex_signed by blast
  then show ?thesis using stun_response_authenticated [OF d(1), of "[1, 2, 3]"] by auto
qed

theorem stun_short_term_nonce_refused_witness:
  "fst (fst (pj_stun_authenticate_request [1]
     \<lparr>sm_hdr = ex_hdr, sm_attr = [String_attr 0x0006 1 [117], String_attr 0x0015 1 [110], Msgint_attr 0x0008 20 (replicate 20 0)]\<rparr>
     (Static_cred (ex_cred\<lparr>sc_realm := []\<rparr>)) True)) = Fail (PJ_STATUS_FROM_STUN_CODE PJ_STUN_SC_UNAUTHORIZED)"
  by (rule stun_short_term_nonce_refused [where p = 16 and m = "Msgint_attr 0x0008 20 (replicate 20 0)" and b = False])
    (simp_all add: ex_cred_def align4_def pj_stun_msg_find_attr_def login_types PJ_STUN_ATTR_MESSAGE_INTEGRITY_def)

end
