(* ===== verification/Sip_Auth.thy ===== *)
theory Sip_Auth
  imports Md5 Hash Sip_Layer
begin

text \<open>
  SIP digest authentication: the client session of \<^verbatim>\<open>pjsip/src/pjsip/sip_auth_client.c\<close> and the server side of
  \<^verbatim>\<open>pjsip/src/pjsip/sip_auth_server.c\<close>, in the default configuration: no OpenSSL (MD5 of \<^verbatim>\<open>pjlib-util\<close>),
  \<^verbatim>\<open>PJSIP_AUTH_QOP_SUPPORT\<close> on, header caching, automatic sending and multiple authorization headers off.

  A string is the list of its bytes.  The union of an authorization header is a record with the fields of the digest
  credential and the token of the OAuth credential.  Parameters are the printed request URI (\<open>None\<close> if it does not fit), the
  string of \<^verbatim>\<open>pj_create_unique_string\<close>, the callback of AKA credentials and the look-up function of the server.  The
  result \<open>None\<close> is a call through a null pointer.
\<close>

unbundle bit_operations_syntax

section \<open>Algorithms\<close>

definition PJ_ENOTSUP :: pj_status where "PJ_ENOTSUP = PJ_EOTHER 70012"
definition PJSIP_EINVALIDSTATUS :: pj_status where "PJSIP_EINVALIDSTATUS = PJ_EOTHER 171030"
definition PJSIP_EURITOOLONG :: pj_status where "PJSIP_EURITOOLONG = PJ_EOTHER 171043"
definition PJSIP_EFAILEDCREDENTIAL :: pj_status where "PJSIP_EFAILEDCREDENTIAL = PJ_EOTHER 171100"
definition PJSIP_ENOCREDENTIAL :: pj_status where "PJSIP_ENOCREDENTIAL = PJ_EOTHER 171101"
definition PJSIP_EINVALIDALGORITHM :: pj_status where "PJSIP_EINVALIDALGORITHM = PJ_EOTHER 171102"
definition PJSIP_EINVALIDQOP :: pj_status where "PJSIP_EINVALIDQOP = PJ_EOTHER 171103"
definition PJSIP_EINVALIDAUTHSCHEME :: pj_status where "PJSIP_EINVALIDAUTHSCHEME = PJ_EOTHER 171104"
definition PJSIP_EAUTHNOAUTH :: pj_status where "PJSIP_EAUTHNOAUTH = PJ_EOTHER 171106"
definition PJSIP_EAUTHINVALIDDIGEST :: pj_status where "PJSIP_EAUTHINVALIDDIGEST = PJ_EOTHER 171110"
definition PJSIP_EAUTHSTALECOUNT :: pj_status where "PJSIP_EAUTHSTALECOUNT = PJ_EOTHER 171111"
definition PJSIP_EAUTHINAKACRED :: pj_status where "PJSIP_EAUTHINAKACRED = PJ_EOTHER 171113"
definition PJSIP_EAUTHNOCHAL :: pj_status where "PJSIP_EAUTHNOCHAL = PJ_EOTHER 171114"

lemmas auth_status_defs = PJ_ENOTSUP_def PJSIP_EINVALIDSTATUS_def PJSIP_EURITOOLONG_def
  PJSIP_EFAILEDCREDENTIAL_def PJSIP_ENOCREDENTIAL_def PJSIP_EINVALIDALGORITHM_def PJSIP_EINVALIDQOP_def
  PJSIP_EINVALIDAUTHSCHEME_def PJSIP_EAUTHNOAUTH_def PJSIP_EAUTHINVALIDDIGEST_def PJSIP_EAUTHSTALECOUNT_def
  PJSIP_EAUTHINAKACRED_def PJSIP_EAUTHNOCHAL_def

datatype pjsip_auth_algorithm_type =
    PJSIP_AUTH_ALGORITHM_NOT_SET
  | PJSIP_AUTH_ALGORITHM_MD5
  | PJSIP_AUTH_ALGORITHM_SHA256
  | PJSIP_AUTH_ALGORITHM_SHA512_256
  | PJSIP_AUTH_ALGORITHM_AKAV1_MD5
  | PJSIP_AUTH_ALGORITHM_AKAV2_MD5
  | PJSIP_AUTH_ALGORITHM_COUNT

record pjsip_auth_algorithm =
  al_type :: pjsip_auth_algorithm_type
  al_iana_name :: "u8 list"
  al_openssl_name :: "u8 list"
  al_digest_length :: nat
  al_digest_str_length :: nat

definition ascii_bytes :: "string \<Rightarrow> u8 list" where
  "ascii_bytes s = map (\<lambda>c. of_nat (of_char c)) s"

text \<open>The entry of \<^verbatim>\<open>pjsip_auth_algorithms\<close> for a type.\<close>

definition alg_entry :: "pjsip_auth_algorithm_type \<Rightarrow> string \<Rightarrow> string \<Rightarrow> nat \<Rightarrow> pjsip_auth_algorithm" where
  "alg_entry ty iana ossl len =
     \<lparr>al_type = ty, al_iana_name = ascii_bytes iana, al_openssl_name = ascii_bytes ossl, al_digest_length = len, al_digest_str_length = 2 * len\<rparr>"

primrec pjsip_auth_algorithms :: "pjsip_auth_algorithm_type \<Rightarrow> pjsip_auth_algorithm" where
  "pjsip_auth_algorithms PJSIP_AUTH_ALGORITHM_NOT_SET = alg_entry PJSIP_AUTH_ALGORITHM_NOT_SET '''' '''' 0"
| "pjsip_auth_algorithms PJSIP_AUTH_ALGORITHM_MD5 = alg_entry PJSIP_AUTH_ALGORITHM_MD5 ''MD5'' ''MD5'' 16"
| "pjsip_auth_algorithms PJSIP_AUTH_ALGORITHM_SHA256 = alg_entry PJSIP_AUTH_ALGORITHM_SHA256 ''SHA-256'' ''SHA256'' 32"
| "pjsip_auth_algorithms PJSIP_AUTH_ALGORITHM_SHA512_256 = alg_entry PJSIP_AUTH_ALGORITHM_SHA512_256 ''SHA-512-256'' ''SHA512-256'' 32"
| "pjsip_auth_algorithms PJSIP_AUTH_ALGORITHM_AKAV1_MD5 = alg_entry PJSIP_AUTH_ALGORITHM_AKAV1_MD5 ''AKAv1-MD5'' '''' 16"
| "pjsip_auth_algorithms PJSIP_AUTH_ALGORITHM_AKAV2_MD5 = alg_entry PJSIP_AUTH_ALGORITHM_AKAV2_MD5 ''AKAv2-MD5'' '''' 16"
| "pjsip_auth_algorithms PJSIP_AUTH_ALGORITHM_COUNT = alg_entry PJSIP_AUTH_ALGORITHM_COUNT '''' '''' 0"

definition pjsip_auth_get_algorithm_by_type :: "pjsip_auth_algorithm_type \<Rightarrow> pjsip_auth_algorithm option" where
  "pjsip_auth_get_algorithm_by_type ty =
     (if ty \<noteq> PJSIP_AUTH_ALGORITHM_NOT_SET \<and> ty \<noteq> PJSIP_AUTH_ALGORITHM_COUNT then Some (pjsip_auth_algorithms ty) else None)"

definition pjsip_auth_get_algorithm_by_iana_name :: "u8 list \<Rightarrow> pjsip_auth_algorithm option" where
  "pjsip_auth_get_algorithm_by_iana_name iana_name =
     (if iana_name = [] then Some (pjsip_auth_algorithms PJSIP_AUTH_ALGORITHM_MD5)
      else if stricmp_eq iana_name (al_iana_name (pjsip_auth_algorithms PJSIP_AUTH_ALGORITHM_MD5))
      then Some (pjsip_auth_algorithms PJSIP_AUTH_ALGORITHM_MD5) else None)"

definition pjsip_auth_is_algorithm_supported :: "pjsip_auth_algorithm_type \<Rightarrow> bool" where
  "pjsip_auth_is_algorithm_supported ty =
     (if ty = PJSIP_AUTH_ALGORITHM_NOT_SET \<or> ty = PJSIP_AUTH_ALGORITHM_COUNT then False
      else if al_openssl_name (pjsip_auth_algorithms ty) = [] then True
      else ty = PJSIP_AUTH_ALGORITHM_MD5)"

section \<open>Credentials, challenges and headers\<close>

record pjsip_cred_info =
  ci_cred_realm :: "u8 list"
  ci_scheme :: "u8 list"
  ci_user :: "u8 list"
  ci_data_type :: u32
  ci_data :: "u8 list"
  ci_algorithm :: pjsip_auth_algorithm_type
  ci_aka_k :: "u8 list"
  ci_aka_op :: "u8 list"
  ci_aka_amf :: "u8 list"
  ci_has_cb :: bool

definition PJSIP_CRED_DATA_PLAIN_PASSWD :: u32 where "PJSIP_CRED_DATA_PLAIN_PASSWD = 0"
definition PJSIP_CRED_DATA_DIGEST :: u32 where "PJSIP_CRED_DATA_DIGEST = 1"
definition PJSIP_CRED_DATA_EXT_AKA :: u32 where "PJSIP_CRED_DATA_EXT_AKA = 16"

definition PJSIP_CRED_DATA_IS_AKA :: "pjsip_cred_info \<Rightarrow> bool" where
  "PJSIP_CRED_DATA_IS_AKA c \<longleftrightarrow> ci_data_type c AND 0x00F0 = PJSIP_CRED_DATA_EXT_AKA"

definition PJSIP_CRED_DATA_IS_PASSWD :: "pjsip_cred_info \<Rightarrow> bool" where
  "PJSIP_CRED_DATA_IS_PASSWD c \<longleftrightarrow> ci_data_type c AND 0x000F = PJSIP_CRED_DATA_PLAIN_PASSWD"

definition PJSIP_CRED_DATA_IS_DIGEST :: "pjsip_cred_info \<Rightarrow> bool" where
  "PJSIP_CRED_DATA_IS_DIGEST c \<longleftrightarrow> ci_data_type c AND 0x000F = PJSIP_CRED_DATA_DIGEST"

record pjsip_digest_credential =
  dc_realm :: "u8 list"
  dc_username :: "u8 list"
  dc_nonce :: "u8 list"
  dc_uri :: "u8 list"
  dc_response :: "u8 list"
  dc_algorithm :: "u8 list"
  dc_cnonce :: "u8 list"
  dc_opaque :: "u8 list"
  dc_qop :: "u8 list"
  dc_nc :: "u8 list"
  dc_token :: "u8 list"

record pjsip_authorization_hdr =
  ah_is_proxy :: bool
  ah_scheme :: "u8 list"
  ah_cred :: pjsip_digest_credential

definition empty_credential :: pjsip_digest_credential where
  "empty_credential = \<lparr>dc_realm = [], dc_username = [], dc_nonce = [], dc_uri = [], dc_response = [], dc_algorithm = [],
     dc_cnonce = [], dc_opaque = [], dc_qop = [], dc_nc = [], dc_token = []\<rparr>"

record pjsip_digest_challenge =
  ch_realm :: "u8 list"
  ch_domain :: "u8 list"
  ch_nonce :: "u8 list"
  ch_opaque :: "u8 list"
  ch_stale :: bool
  ch_algorithm :: "u8 list"
  ch_qop :: "u8 list"

record pjsip_www_authenticate_hdr =
  wa_is_proxy :: bool
  wa_scheme :: "u8 list"
  wa_chal :: pjsip_digest_challenge

text \<open>\<^verbatim>\<open>Digest\<close>, \<^verbatim>\<open>Bearer\<close> and \<^verbatim>\<open>auth\<close>.\<close>

definition pjsip_DIGEST_STR :: "u8 list" where "pjsip_DIGEST_STR = [68, 105, 103, 101, 115, 116]"
definition pjsip_BEARER_STR :: "u8 list" where "pjsip_BEARER_STR = [66, 101, 97, 114, 101, 114]"
definition pjsip_AUTH_STR :: "u8 list" where "pjsip_AUTH_STR = [97, 117, 116, 104]"

section \<open>The response digest\<close>

definition pj_hex_digits :: "u8 list" where
  "pj_hex_digits = [48, 49, 50, 51, 52, 53, 54, 55, 56, 57, 97, 98, 99, 100, 101, 102]"

definition pj_val_to_hex_digit :: "u8 \<Rightarrow> u8 list" where
  "pj_val_to_hex_digit v = [pj_hex_digits ! unat (drop_bit 4 (v AND 0xF0)), pj_hex_digits ! unat (v AND 0x0F)]"

definition digestNtoStr :: "u8 list \<Rightarrow> u8 list" where
  "digestNtoStr digest = concat (map pj_val_to_hex_digit digest)"

definition md5_pieces :: "u8 list list \<Rightarrow> u8 list" where
  "md5_pieces ps = snd (pj_md5_final (foldl pj_md5_update (pj_md5_init (replicate 64 0)) ps))"

text \<open>\<open>room\<close> is the length of the result buffer; \<open>nc\<close>, \<open>cnonce\<close> and \<open>qop\<close> are \<open>None\<close> for null pointers.\<close>

definition pjsip_auth_create_digest2 ::
    "nat \<Rightarrow> u8 list \<Rightarrow> u8 list option \<Rightarrow> u8 list option \<Rightarrow> u8 list option \<Rightarrow> u8 list \<Rightarrow> u8 list \<Rightarrow> pjsip_cred_info \<Rightarrow> u8 list \<Rightarrow>
       pjsip_auth_algorithm_type \<Rightarrow> pj_status + u8 list" where
  "pjsip_auth_create_digest2 room nonce nc cnonce qop uri realm cred_info method ty =
     (case pjsip_auth_get_algorithm_by_type ty of
        None \<Rightarrow> Inl PJ_ENOTSUP
      | Some algorithm \<Rightarrow>
          if \<not> pjsip_auth_is_algorithm_supported (al_type algorithm) then Inl PJ_ENOTSUP
          else if qop \<noteq> None \<and> \<not> (nc \<noteq> None \<and> cnonce \<noteq> None) then Inl PJ_EINVAL
          else if room < al_digest_str_length algorithm then Inl PJ_EINVAL
          else if \<not> PJSIP_CRED_DATA_IS_PASSWD cred_info \<and> \<not> PJSIP_CRED_DATA_IS_DIGEST cred_info then Inl PJ_EINVAL
          else if PJSIP_CRED_DATA_IS_DIGEST cred_info \<and> ci_algorithm cred_info \<noteq> PJSIP_AUTH_ALGORITHM_NOT_SET \<and>
                  ci_algorithm cred_info \<noteq> ty then Inl PJ_EINVAL
          else if PJSIP_CRED_DATA_IS_DIGEST cred_info \<and> \<not> length (ci_data cred_info) \<ge> al_digest_str_length algorithm then Inl PJ_EINVAL
          else
            (let ha1 = (if PJSIP_CRED_DATA_IS_PASSWD cred_info
                        then digestNtoStr (md5_pieces [ci_user cred_info, [58], realm, [58], ci_data cred_info])
                        else take (al_digest_str_length algorithm) (ci_data cred_info));
                 ha2 = digestNtoStr (md5_pieces [method, [58], uri]);
                 mid = (case qop of
                          Some q \<Rightarrow> if q \<noteq> [] then [[58], the nc, [58], the cnonce, [58], q] else []
                        | None \<Rightarrow> []) in
             Inr (digestNtoStr (md5_pieces ([ha1, [58], nonce] @ mid @ [[58], ha2])))))"

definition pjsip_auth_create_digest ::
    "nat \<Rightarrow> u8 list \<Rightarrow> u8 list option \<Rightarrow> u8 list option \<Rightarrow> u8 list option \<Rightarrow> u8 list \<Rightarrow> u8 list \<Rightarrow> pjsip_cred_info \<Rightarrow> u8 list \<Rightarrow>
       pj_status + u8 list" where
  "pjsip_auth_create_digest room nonce nc cnonce qop uri realm cred_info method =
     (if PJSIP_CRED_DATA_IS_AKA cred_info then Inl PJ_EINVAL
      else pjsip_auth_create_digest2 room nonce nc cnonce qop uri realm cred_info method PJSIP_AUTH_ALGORITHM_MD5)"

definition pjsip_auth_create_digestSHA256 ::
    "nat \<Rightarrow> u8 list \<Rightarrow> u8 list option \<Rightarrow> u8 list option \<Rightarrow> u8 list option \<Rightarrow> u8 list \<Rightarrow> u8 list \<Rightarrow> pjsip_cred_info \<Rightarrow> u8 list \<Rightarrow>
       pj_status + u8 list" where
  "pjsip_auth_create_digestSHA256 room nonce nc cnonce qop uri realm cred_info method =
     (if PJSIP_CRED_DATA_IS_AKA cred_info then Inl PJ_EINVAL
      else pjsip_auth_create_digest2 room nonce nc cnonce qop uri realm cred_info method PJSIP_AUTH_ALGORITHM_SHA256)"

section \<open>The client\<close>

text \<open>The search for the token \<^verbatim>\<open>auth\<close> in the lower-case copy, which ends with a zero byte.\<close>

fun qop_scan :: "u8 list \<Rightarrow> bool" where
  "qop_scan [] = False"
| "qop_scan (c # cs) =
     (if c = 0 then False
      else if take 4 (c # cs) = pjsip_AUTH_STR
      then (let e = (case drop 3 cs of [] \<Rightarrow> 0 | x # _ \<Rightarrow> x) in
            if e = 34 \<or> e = 44 \<or> e = 0 then True else qop_scan (drop 3 cs))
      else qop_scan cs)"

definition has_auth_qop :: "u8 list \<Rightarrow> bool" where
  "has_auth_qop qop_offer = qop_scan (map pj_tolower qop_offer)"

text \<open>\<^verbatim>\<open>snprintf\<close> with \<^verbatim>\<open>%08u\<close> into 16 bytes.\<close>

definition print_nc :: "u32 \<Rightarrow> u8 list" where
  "print_nc nc = (let d = pj_utoa (unat nc) in replicate (8 - length d) 48 @ d)"

type_synonym aka_cb = "pjsip_digest_challenge \<Rightarrow> pjsip_cred_info \<Rightarrow> u8 list \<Rightarrow> pjsip_digest_credential \<Rightarrow> pj_status \<times> pjsip_digest_credential"

definition respond_digest ::
    "aka_cb \<Rightarrow> pjsip_digest_challenge \<Rightarrow> u8 list \<Rightarrow> pjsip_cred_info \<Rightarrow> u8 list \<Rightarrow> u32 \<Rightarrow> u8 list \<Rightarrow> pjsip_auth_algorithm_type \<Rightarrow>
       pjsip_digest_credential \<Rightarrow> pj_status \<times> pjsip_digest_credential" where
  "respond_digest cb chal uri cred_info cnonce nc method ty cred =
     (let cred = cred\<lparr>dc_username := ci_user cred_info, dc_realm := ch_realm chal, dc_nonce := ch_nonce chal, dc_uri := uri,
                      dc_algorithm := ch_algorithm chal, dc_opaque := ch_opaque chal\<rparr>;
          room = al_digest_str_length (pjsip_auth_algorithms ty);
          store = (\<lambda>cred r. case r of Inl status \<Rightarrow> (status, cred) | Inr d \<Rightarrow> (PJ_SUCCESS, cred\<lparr>dc_response := d\<rparr>)) in
      if ch_qop chal = [] then
        (if PJSIP_CRED_DATA_IS_AKA cred_info then cb chal cred_info method cred
         else store cred (pjsip_auth_create_digest2 room (dc_nonce cred) None None None uri (ch_realm chal) cred_info method ty))
      else if has_auth_qop (ch_qop chal) then
        (let cred = cred\<lparr>dc_qop := pjsip_AUTH_STR, dc_nc := print_nc nc,
                         dc_cnonce := (if cnonce \<noteq> [] then cnonce else ascii_bytes ''b39971'')\<rparr> in
         if PJSIP_CRED_DATA_IS_AKA cred_info then cb chal cred_info method cred
         else store cred (pjsip_auth_create_digest2 room (dc_nonce cred) (Some (dc_nc cred)) (Some (dc_cnonce cred)) (Some pjsip_AUTH_STR)
                uri (ch_realm chal) cred_info method ty))
      else (PJSIP_EINVALIDQOP, cred))"

datatype pjsip_auth_qop_type = PJSIP_AUTH_QOP_NONE | PJSIP_AUTH_QOP_AUTH | PJSIP_AUTH_QOP_AUTH_INT | PJSIP_AUTH_QOP_UNKNOWN

record pjsip_cached_auth =
  ca_realm :: "u8 list"
  ca_is_proxy :: bool
  ca_qop_value :: pjsip_auth_qop_type
  ca_stale_cnt :: nat
  ca_nc :: u32
  ca_cnonce :: "u8 list"
  ca_last_chal :: "pjsip_www_authenticate_hdr option"
  ca_alg :: pjsip_auth_algorithm_type

text \<open>\<open>uniq\<close> is the string of \<^verbatim>\<open>pj_create_unique_string\<close>; the hyphens are removed.\<close>

definition update_digest_session :: "u8 list \<Rightarrow> pjsip_www_authenticate_hdr \<Rightarrow> pjsip_cached_auth \<Rightarrow> pjsip_cached_auth option" where
  "update_digest_session uniq hdr ca =
     (if ch_qop (wa_chal hdr) = [] then Some ca
      else if ca_cnonce ca = [] then
        Some (ca\<lparr>ca_last_chal := Some hdr, ca_cnonce := filter (\<lambda>c. c \<noteq> 45) uniq, ca_nc := 1,
                 ca_realm := (if ca_realm ca = [] then ch_realm (wa_chal hdr) else ca_realm ca)\<rparr>)
      else
        (case ca_last_chal ca of
           None \<Rightarrow> None
         | Some lc \<Rightarrow>
             if ch_nonce (wa_chal hdr) = ch_nonce (wa_chal lc) then Some (ca\<lparr>ca_nc := ca_nc ca + 1\<rparr>)
             else
               Some (ca\<lparr>ca_last_chal := Some (lc\<lparr>wa_chal := (wa_chal lc)\<lparr>ch_nonce := ch_nonce (wa_chal hdr), ch_opaque := ch_opaque (wa_chal hdr)\<rparr>\<rparr>),
                        ca_nc := 1\<rparr>)))"

text \<open>\<open>cs_lock\<close> and \<open>cs_async\<close> say whether the session has a lock and an asynchronous setting.\<close>

record pjsip_auth_clt_sess =
  cs_initial_auth :: bool
  cs_pref_algorithm :: "u8 list"
  cs_cred :: "pjsip_cred_info list"
  cs_cached :: "pjsip_cached_auth list"
  cs_lock :: bool
  cs_async :: bool

definition pjsip_auth_clt_init :: pjsip_auth_clt_sess where
  "pjsip_auth_clt_init = \<lparr>cs_initial_auth = False, cs_pref_algorithm = [], cs_cred = [], cs_cached = [], cs_lock = False, cs_async = False\<rparr>"

text \<open>The place of the first cached session for a realm and an algorithm.\<close>

fun find_auth :: "u8 list \<Rightarrow> pjsip_auth_algorithm_type \<Rightarrow> pjsip_cached_auth list \<Rightarrow> nat option" where
  "find_auth realm ty [] = None"
| "find_auth realm ty (a # as) =
     (if stricmp_eq (ca_realm a) realm \<and> ca_alg a = ty then Some 0 else map_option Suc (find_auth realm ty as))"

definition find_cached_auth :: "pjsip_auth_clt_sess \<Rightarrow> u8 list \<Rightarrow> pjsip_auth_algorithm_type \<Rightarrow> nat option" where
  "find_cached_auth sess realm ty = find_auth realm ty (cs_cached sess)"

text \<open>Whether a credential passes the \<^verbatim>\<open>switch\<close> on its type in \<^verbatim>\<open>auth_find_cred\<close>.\<close>

definition is_aka_alg :: "pjsip_auth_algorithm_type \<Rightarrow> bool" where
  "is_aka_alg ty \<longleftrightarrow> ty = PJSIP_AUTH_ALGORITHM_AKAV1_MD5 \<or> ty = PJSIP_AUTH_ALGORITHM_AKAV2_MD5"

definition cred_usable :: "pjsip_auth_algorithm_type \<Rightarrow> pjsip_cred_info \<Rightarrow> bool" where
  "cred_usable ty c =
     (if ci_data_type c = PJSIP_CRED_DATA_PLAIN_PASSWD then \<not> is_aka_alg ty
      else if ci_data_type c = PJSIP_CRED_DATA_DIGEST then ci_algorithm c = ty
      else if ci_data_type c = PJSIP_CRED_DATA_EXT_AKA then is_aka_alg ty
      else True)"

fun find_cred_loop :: "u8 list \<Rightarrow> pjsip_auth_algorithm_type \<Rightarrow> pjsip_cred_info option \<Rightarrow> pjsip_cred_info list \<Rightarrow> pjsip_cred_info option" where
  "find_cred_loop realm ty wildcard [] = wildcard"
| "find_cred_loop realm ty wildcard (c # cs) =
     (if \<not> cred_usable ty c then find_cred_loop realm ty wildcard cs
      else if stricmp_eq (ci_cred_realm c) realm then Some c
      else if ci_cred_realm c = [42] then find_cred_loop realm ty (Some c) cs
      else find_cred_loop realm ty wildcard cs)"

definition auth_find_cred :: "pjsip_auth_clt_sess \<Rightarrow> u8 list \<Rightarrow> pjsip_auth_algorithm_type \<Rightarrow> pjsip_cred_info option" where
  "auth_find_cred sess realm ty = find_cred_loop realm ty None (cs_cred sess)"

text \<open>
  Setting credentials.  \<^verbatim>\<open>PJSIP_HAS_DIGEST_AKA_AUTH\<close> is off, so that AKA credentials are refused; by then the new array is in
  place, filled up to the refused credential, while the count is still the old one.  \<open>junk\<close> is what the memory from the
  refused credential on holds.
\<close>

definition default_alg :: "pjsip_cred_info \<Rightarrow> pjsip_cred_info" where
  "default_alg ci = (if PJSIP_CRED_DATA_IS_DIGEST ci \<and> ci_algorithm ci = PJSIP_AUTH_ALGORITHM_NOT_SET
                     then ci\<lparr>ci_algorithm := PJSIP_AUTH_ALGORITHM_MD5\<rparr> else ci)"

definition pjsip_auth_clt_set_credentials ::
    "pjsip_cred_info list \<Rightarrow> pjsip_cred_info list \<Rightarrow> pjsip_auth_clt_sess \<Rightarrow> pjsip_auth_clt_sess \<times> pj_status" where
  "pjsip_auth_clt_set_credentials junk c sess =
     (if c = [] then (sess\<lparr>cs_cred := []\<rparr>, PJ_SUCCESS)
      else
        (case dropWhile (\<lambda>ci. \<not> PJSIP_CRED_DATA_IS_AKA ci) c of
           aka # _ \<Rightarrow>
             (sess\<lparr>cs_cred := take (length (cs_cred sess))
                (map default_alg (takeWhile (\<lambda>ci. \<not> PJSIP_CRED_DATA_IS_AKA ci) c) @
                 (hd junk)\<lparr>ci_data_type := ci_data_type aka\<rparr> # tl junk)\<rparr>, PJSIP_EAUTHINAKACRED)
         | [] \<Rightarrow> (sess\<lparr>cs_cred := map default_alg c\<rparr>, PJ_SUCCESS)))"

definition pjsip_auth_clt_set_prefs :: "bool \<Rightarrow> u8 list \<Rightarrow> pjsip_auth_clt_sess \<Rightarrow> pjsip_auth_clt_sess \<times> pj_status" where
  "pjsip_auth_clt_set_prefs initial algorithm sess = (sess\<lparr>cs_initial_auth := initial, cs_pref_algorithm := algorithm\<rparr>, PJ_SUCCESS)"

text \<open>A request under construction: the name of its method, its printed URI and its headers.\<close>

datatype req_hdr = Auth_hdr pjsip_authorization_hdr | Other_hdr nat

record auth_req =
  rq_method :: "u8 list"
  rq_uri :: "u8 list option"
  rq_hdrs :: "req_hdr list"

definition auth_respond ::
    "aka_cb \<Rightarrow> u8 list \<Rightarrow> pjsip_www_authenticate_hdr \<Rightarrow> u8 list option \<Rightarrow> pjsip_cred_info \<Rightarrow> u8 list \<Rightarrow> pjsip_auth_algorithm_type \<Rightarrow>
       pjsip_cached_auth \<Rightarrow> (pjsip_cached_auth \<times> (pj_status + pjsip_authorization_hdr)) option" where
  "auth_respond cb uniq hdr uri cred_info method ty ca =
     (case uri of
        None \<Rightarrow> Some (ca, Inl PJSIP_EURITOOLONG)
      | Some uri_str \<Rightarrow>
          if stricmp_eq (wa_scheme hdr) pjsip_DIGEST_STR then
            (case update_digest_session uniq hdr ca of
               None \<Rightarrow> None
             | Some ca \<Rightarrow>
                 (case respond_digest cb (wa_chal hdr) uri_str cred_info (ca_cnonce ca) (ca_nc ca) method ty empty_credential of
                    (status, cred) \<Rightarrow>
                      if status \<noteq> PJ_SUCCESS then Some (ca, Inl status)
                      else
                        (let ca = (if ch_qop (wa_chal hdr) \<noteq> [] \<and> ca_qop_value ca = PJSIP_AUTH_QOP_NONE
                                   then ca\<lparr>ca_qop_value := (if dc_qop cred = pjsip_AUTH_STR then PJSIP_AUTH_QOP_AUTH else PJSIP_AUTH_QOP_UNKNOWN)\<rparr>
                                   else ca) in
                         Some (ca, Inr \<lparr>ah_is_proxy = wa_is_proxy hdr, ah_scheme = pjsip_DIGEST_STR, ah_cred = cred\<rparr>))))
          else Some (ca, Inl PJSIP_EINVALIDAUTHSCHEME))"

text \<open>The empty authorization header that the preference for initial authorization asks for.\<close>

definition initial_hdr :: "pjsip_auth_clt_sess \<Rightarrow> u8 list \<Rightarrow> pjsip_cred_info \<Rightarrow> pjsip_authorization_hdr" where
  "initial_hdr sess uri c =
     \<lparr>ah_is_proxy = False, ah_scheme = ci_scheme c,
      ah_cred =
        (if stricmp_eq (ci_scheme c) pjsip_BEARER_STR
         then empty_credential\<lparr>dc_username := ci_user c, dc_realm := ci_cred_realm c, dc_token := ci_data c\<rparr>
         else empty_credential\<lparr>dc_username := ci_user c, dc_realm := ci_cred_realm c, dc_uri := uri,
                dc_algorithm := (if ci_algorithm c = PJSIP_AUTH_ALGORITHM_NOT_SET then cs_pref_algorithm sess
                                 else al_iana_name (pjsip_auth_algorithms (ci_algorithm c)))\<rparr>)\<rparr>"

definition pjsip_auth_clt_init_req :: "auth_req \<Rightarrow> pjsip_auth_clt_sess \<Rightarrow> pjsip_auth_clt_sess \<times> auth_req \<times> pj_status" where
  "pjsip_auth_clt_init_req tdata sess =
     (let sess = sess\<lparr>cs_cached := map (\<lambda>a. a\<lparr>ca_stale_cnt := 0\<rparr>) (cs_cached sess)\<rparr> in
      if \<not> cs_initial_auth sess then (sess, tdata, PJ_SUCCESS)
      else
        (case rq_uri tdata of
           None \<Rightarrow> (sess, tdata, PJSIP_EURITOOLONG)
         | Some uri \<Rightarrow>
             (sess, tdata\<lparr>rq_hdrs := rq_hdrs tdata @ map (\<lambda>c. Auth_hdr (initial_hdr sess uri c)) (cs_cred sess)\<rparr>, PJ_SUCCESS)))"

section \<open>Answering a challenge\<close>

definition PJSIP_MAX_STALE_COUNT :: nat where "PJSIP_MAX_STALE_COUNT = 3"

text \<open>An authorization header that answers challenges like \<open>hchal\<close>, and its position: the loop removes those without a
  response and stops at the first other one.\<close>

definition answers :: "pjsip_www_authenticate_hdr \<Rightarrow> pjsip_authorization_hdr \<Rightarrow> bool" where
  "answers hchal h \<longleftrightarrow> ah_is_proxy h = wa_is_proxy hchal \<and> stricmp_eq (ch_realm (wa_chal hchal)) (dc_realm (ah_cred h)) \<and>
     stricmp_eq (wa_scheme hchal) (ah_scheme h)"

definition is_empty_auth :: "pjsip_authorization_hdr \<Rightarrow> bool" where
  "is_empty_auth h \<longleftrightarrow> stricmp_eq (ah_scheme h) pjsip_DIGEST_STR \<and> dc_response (ah_cred h) = []"

fun find_sent :: "pjsip_www_authenticate_hdr \<Rightarrow> req_hdr list \<Rightarrow> req_hdr list \<Rightarrow> req_hdr list \<times> (pjsip_authorization_hdr \<times> req_hdr list) option" where
  "find_sent hchal before [] = (rev before, None)"
| "find_sent hchal before (Other_hdr n # hs) = find_sent hchal (Other_hdr n # before) hs"
| "find_sent hchal before (Auth_hdr h # hs) =
     (if answers hchal h then
        (if is_empty_auth h then find_sent hchal before hs else (rev before, Some (h, hs)))
      else find_sent hchal (Auth_hdr h # before) hs)"

text \<open>What happens to an earlier answer: the headers without it and the stale count, or the reason to give up.  A message
  given up keeps its headers, less the empty answers that the search has removed.\<close>

definition process_auth ::
    "aka_cb \<Rightarrow> u8 list \<Rightarrow> pjsip_www_authenticate_hdr \<Rightarrow> auth_req \<Rightarrow> pjsip_auth_clt_sess \<Rightarrow> pjsip_auth_algorithm_type \<Rightarrow> pjsip_cached_auth \<Rightarrow>
       (auth_req \<times> pjsip_cached_auth \<times> (pj_status + pjsip_authorization_hdr)) option" where
  "process_auth cb uniq hchal tdata sess ty ca =
     (case find_sent hchal [] (rq_hdrs tdata) of
        (before, sent) \<Rightarrow>
          let go = (\<lambda>tdata ca.
                (case auth_find_cred sess (ch_realm (wa_chal hchal)) ty of
                   None \<Rightarrow> Some (tdata, ca, Inl PJSIP_ENOCREDENTIAL)
                 | Some cred \<Rightarrow>
                     map_option (\<lambda>(ca, r). (tdata, ca, r)) (auth_respond cb uniq hchal (rq_uri tdata) cred (rq_method tdata) ty ca))) in
          case sent of
            None \<Rightarrow> go (tdata\<lparr>rq_hdrs := before\<rparr>) ca
          | Some (sent_auth, after) \<Rightarrow>
              let tdata' = tdata\<lparr>rq_hdrs := before @ Auth_hdr sent_auth # after\<rparr>;
                  stale = (ch_stale (wa_chal hchal) \<or> ch_nonce (wa_chal hchal) \<noteq> dc_nonce (ah_cred sent_auth)) in
              if \<not> stale then Some (tdata', ca, Inl PJSIP_EFAILEDCREDENTIAL)
              else
                let ca = ca\<lparr>ca_stale_cnt := ca_stale_cnt ca + 1\<rparr> in
                if ca_stale_cnt ca \<ge> PJSIP_MAX_STALE_COUNT then Some (tdata', ca, Inl PJSIP_EAUTHSTALECOUNT)
                else go (tdata\<lparr>rq_hdrs := before @ after\<rparr>) ca)"

text \<open>The headers of a response; \<open>None\<close> is a header that is no challenge.\<close>

definition new_cached :: "pjsip_www_authenticate_hdr \<Rightarrow> pjsip_auth_algorithm_type \<Rightarrow> pjsip_cached_auth" where
  "new_cached hchal ty =
     \<lparr>ca_realm = ch_realm (wa_chal hchal), ca_is_proxy = wa_is_proxy hchal, ca_qop_value = PJSIP_AUTH_QOP_NONE, ca_stale_cnt = 0,
      ca_nc = 0, ca_cnonce = [], ca_last_chal = None, ca_alg = ty\<rparr>"

record auth_run =
  ar_sess :: pjsip_auth_clt_sess
  ar_req :: auth_req
  ar_chal_cnt :: nat
  ar_auth_cnt :: nat
  ar_last_err :: pj_status

definition reinit_one :: "aka_cb \<Rightarrow> u8 list \<Rightarrow> pjsip_www_authenticate_hdr \<Rightarrow> auth_run \<Rightarrow> auth_run option" where
  "reinit_one cb uniq hchal r =
     (let r = r\<lparr>ar_chal_cnt := ar_chal_cnt r + 1\<rparr> in
      if \<not> stricmp_eq (wa_scheme hchal) pjsip_DIGEST_STR then Some (r\<lparr>ar_last_err := PJSIP_EINVALIDAUTHSCHEME\<rparr>)
      else
        (case pjsip_auth_get_algorithm_by_iana_name (ch_algorithm (wa_chal hchal)) of
           None \<Rightarrow> Some (r\<lparr>ar_last_err := PJSIP_EINVALIDALGORITHM\<rparr>)
         | Some algorithm \<Rightarrow>
             let sess = ar_sess r;
                 realm = ch_realm (wa_chal hchal);
                 (sess, i) = (case find_cached_auth sess realm (al_type algorithm) of
                                Some i \<Rightarrow> (sess, i)
                              | None \<Rightarrow> (sess\<lparr>cs_cached := cs_cached sess @ [new_cached hchal (al_type algorithm)]\<rparr>, length (cs_cached sess))) in
             (case process_auth cb uniq hchal (ar_req r) sess (al_type algorithm) (cs_cached sess ! i) of
                None \<Rightarrow> None
              | Some (tdata, ca, res) \<Rightarrow>
                  let r = r\<lparr>ar_sess := sess\<lparr>cs_cached := (cs_cached sess)[i := ca]\<rparr>, ar_req := tdata\<rparr> in
                  (case res of
                     Inl status \<Rightarrow> Some (r\<lparr>ar_last_err := status\<rparr>)
                   | Inr hauth \<Rightarrow>
                       Some (r\<lparr>ar_req := tdata\<lparr>rq_hdrs := rq_hdrs tdata @ [Auth_hdr hauth]\<rparr>, ar_auth_cnt := ar_auth_cnt r + 1\<rparr>)))))"

fun reinit_loop :: "aka_cb \<Rightarrow> (nat \<Rightarrow> u8 list) \<Rightarrow> pjsip_www_authenticate_hdr option list \<Rightarrow> auth_run \<Rightarrow> auth_run option" where
  "reinit_loop cb uniq [] r = Some r"
| "reinit_loop cb uniq (None # hs) r = reinit_loop cb uniq hs r"
| "reinit_loop cb uniq (Some hchal # hs) r =
     (case reinit_one cb (uniq (length hs)) hchal r of None \<Rightarrow> None | Some r \<Rightarrow> reinit_loop cb uniq hs r)"

text \<open>\<open>code\<close> is the status code of the response; a success returns the request to be sent, whose branch is removed, with
  its strict route set restored.\<close>

definition pjsip_auth_clt_reinit_req ::
    "aka_cb \<Rightarrow> (nat \<Rightarrow> u8 list) \<Rightarrow> int \<Rightarrow> pjsip_www_authenticate_hdr option list \<Rightarrow> auth_req \<Rightarrow> pjsip_auth_clt_sess \<Rightarrow>
       (pjsip_auth_clt_sess \<times> auth_req \<times> pj_status) option" where
  "pjsip_auth_clt_reinit_req cb uniq code hdrs tdata sess =
     (if \<not> (code = 401 \<or> code = 407) then Some (sess, tdata, PJSIP_EINVALIDSTATUS)
      else
        map_option
          (\<lambda>r. (ar_sess r, ar_req r,
             if ar_chal_cnt r = 0 then PJSIP_EAUTHNOCHAL else if ar_auth_cnt r = 0 then ar_last_err r else PJ_SUCCESS))
          (reinit_loop cb uniq hdrs \<lparr>ar_sess = sess, ar_req = tdata, ar_chal_cnt = 0, ar_auth_cnt = 0, ar_last_err = PJSIP_EAUTHNOAUTH\<rparr>))"

section \<open>Sessions with a parent, copies and asynchronous answers\<close>

text \<open>A session may have a parent, which then does the work (\<^verbatim>\<open>DO_ON_PARENT_LOCKED\<close>).\<close>

datatype auth_clt = Own_sess pjsip_auth_clt_sess | Child_sess pjsip_auth_clt_sess auth_clt

fun on_parent :: "(pjsip_auth_clt_sess \<Rightarrow> pjsip_auth_clt_sess \<times> 'a) \<Rightarrow> auth_clt \<Rightarrow> auth_clt \<times> 'a" where
  "on_parent f (Own_sess s) = (case f s of (s', x) \<Rightarrow> (Own_sess s', x))"
| "on_parent f (Child_sess s parent) = (case on_parent f parent of (parent', x) \<Rightarrow> (Child_sess s parent', x))"

text \<open>The lock is created with the status \<open>locked\<close> when a session becomes a parent for the first time.\<close>

fun own_sess :: "auth_clt \<Rightarrow> pjsip_auth_clt_sess" where
  "own_sess (Own_sess s) = s"
| "own_sess (Child_sess s _) = s"

fun upd_own :: "(pjsip_auth_clt_sess \<Rightarrow> pjsip_auth_clt_sess) \<Rightarrow> auth_clt \<Rightarrow> auth_clt" where
  "upd_own f (Own_sess s) = Own_sess (f s)"
| "upd_own f (Child_sess s parent) = Child_sess (f s) parent"

definition pjsip_auth_clt_set_parent :: "pj_status \<Rightarrow> auth_clt option \<Rightarrow> auth_clt \<Rightarrow> auth_clt \<times> pj_status" where
  "pjsip_auth_clt_set_parent locked parent sess =
     (case parent of
        None \<Rightarrow> (Own_sess (own_sess sess), PJ_SUCCESS)
      | Some p \<Rightarrow>
          if \<not> cs_lock (own_sess p) \<and> locked \<noteq> PJ_SUCCESS then (sess, locked)
          else (Child_sess (own_sess sess) (upd_own (\<lambda>s. s\<lparr>cs_lock := True\<rparr>) p), PJ_SUCCESS))"

text \<open>The end of a session releases the pool of every cached session; the third result counts them.\<close>

definition pjsip_auth_clt_deinit :: "pj_status \<Rightarrow> auth_clt \<Rightarrow> auth_clt \<times> pj_status \<times> nat" where
  "pjsip_auth_clt_deinit destroyed sess =
     (Own_sess (own_sess sess), if cs_lock (own_sess sess) then destroyed else PJ_SUCCESS, length (cs_cached (own_sess sess)))"

text \<open>A copy has the credentials and the asynchronous setting only; \<open>junk\<close> is what the memory of the algorithm of a credential
  holds that is not copied.\<close>

definition clone_own :: "(nat \<Rightarrow> pjsip_auth_algorithm_type) \<Rightarrow> pjsip_auth_clt_sess \<Rightarrow> pjsip_auth_clt_sess" where
  "clone_own junk rhs =
     pjsip_auth_clt_init\<lparr>cs_cred := map (\<lambda>(i, c). if PJSIP_CRED_DATA_IS_DIGEST c then c else c\<lparr>ci_algorithm := junk i\<rparr>)
       (zip [0..<length (cs_cred rhs)] (cs_cred rhs)), cs_async := cs_async rhs\<rparr>"

fun pjsip_auth_clt_clone :: "(nat \<Rightarrow> pjsip_auth_algorithm_type) \<Rightarrow> auth_clt \<Rightarrow> auth_clt" where
  "pjsip_auth_clt_clone junk (Own_sess rhs) = Own_sess (clone_own junk rhs)"
| "pjsip_auth_clt_clone junk (Child_sess rhs parent) = Child_sess (clone_own junk rhs) (pjsip_auth_clt_clone junk parent)"

definition pjsip_cred_info_cmp_eq :: "pjsip_cred_info \<Rightarrow> pjsip_cred_info \<Rightarrow> bool" where
  "pjsip_cred_info_cmp_eq a b \<longleftrightarrow>
     ci_cred_realm a = ci_cred_realm b \<and> ci_scheme a = ci_scheme b \<and> ci_user a = ci_user b \<and> ci_data a = ci_data b \<and>
     ci_data_type a = ci_data_type b \<and> ci_algorithm a = ci_algorithm b \<and>
     (PJSIP_CRED_DATA_IS_AKA a \<longrightarrow> ci_aka_k a = ci_aka_k b \<and> ci_aka_op a = ci_aka_op b \<and> ci_aka_amf a = ci_aka_amf b)"

text \<open>
  The token of an asynchronous answer: whether its signature is intact and which functions it has.  The function that sends
  the request and the callback of the application run with the token and may use it themselves; sending clears the signature
  after its function, abandoning clears it before.  The third result says whether the function of the token has been called.
\<close>

record auth_token =
  tk_signed :: bool
  tk_send :: bool
  tk_abandon :: bool

definition pjsip_auth_clt_async_configure :: "pjsip_auth_clt_sess \<Rightarrow> pjsip_auth_clt_sess \<times> pj_status" where
  "pjsip_auth_clt_async_configure sess = (sess\<lparr>cs_async := True\<rparr>, PJ_SUCCESS)"

definition pjsip_auth_clt_async_send_req ::
    "(auth_token \<Rightarrow> auth_token \<times> pj_status) \<Rightarrow> auth_token \<Rightarrow> pjsip_auth_clt_sess \<Rightarrow> auth_token \<times> pj_status \<times> bool" where
  "pjsip_auth_clt_async_send_req send_impl token sess =
     (if \<not> cs_async sess then (token, PJ_EINVALIDOP, False)
      else if \<not> tk_send token \<or> \<not> tk_signed token then (token, PJ_EINVAL, False)
      else (case send_impl token of (token', status) \<Rightarrow> (token'\<lparr>tk_signed := False\<rparr>, status, True)))"

definition pjsip_auth_clt_async_abandon :: "(auth_token \<Rightarrow> auth_token) \<Rightarrow> auth_token \<Rightarrow> auth_token \<times> pj_status \<times> bool" where
  "pjsip_auth_clt_async_abandon abandon_impl token =
     (if \<not> tk_signed token then (token, PJ_EINVAL, False)
      else
        (let token = token\<lparr>tk_signed := False\<rparr> in
         (if tk_abandon token then abandon_impl token else token, PJ_SUCCESS, tk_abandon token)))"

definition pjsip_auth_clt_async_impl_on_challenge ::
    "(auth_token \<Rightarrow> auth_token \<times> bool) \<Rightarrow> auth_token \<Rightarrow> pjsip_auth_clt_sess \<Rightarrow> auth_token \<times> pj_status" where
  "pjsip_auth_clt_async_impl_on_challenge cb token sess =
     (if \<not> cs_async sess then (token, PJ_EINVALIDOP)
      else
        (case cb (token\<lparr>tk_signed := True\<rparr>) of
           (token', handled) \<Rightarrow> if handled then (token', PJ_SUCCESS) else (token'\<lparr>tk_signed := False\<rparr>, PJ_EIGNORED)))"

section \<open>The server\<close>

text \<open>The look-up of credentials is a function of the application: of realm and user, or of these, the request and the header.\<close>

datatype cred_lookup =
    Lookup "u8 list \<Rightarrow> u8 list \<Rightarrow> pj_status + pjsip_cred_info"
  | Lookup2 "u8 list \<Rightarrow> u8 list \<Rightarrow> auth_req \<Rightarrow> pjsip_authorization_hdr \<Rightarrow> pj_status + pjsip_cred_info"

record pjsip_auth_srv =
  sv_realm :: "u8 list"
  sv_is_proxy :: bool
  sv_lookup :: cred_lookup

definition lookup_cred :: "pjsip_auth_srv \<Rightarrow> auth_req \<Rightarrow> pjsip_authorization_hdr \<Rightarrow> pj_status + pjsip_cred_info" where
  "lookup_cred srv req h =
     (case sv_lookup srv of
        Lookup2 f \<Rightarrow> f (sv_realm srv) (dc_username (ah_cred h)) req h
      | Lookup f \<Rightarrow> f (sv_realm srv) (dc_username (ah_cred h)))"

definition pjsip_auth_srv_init :: "u8 list \<Rightarrow> (u8 list \<Rightarrow> u8 list \<Rightarrow> pj_status + pjsip_cred_info) \<Rightarrow> bool \<Rightarrow> pjsip_auth_srv" where
  "pjsip_auth_srv_init realm lookup is_proxy = \<lparr>sv_realm = realm, sv_is_proxy = is_proxy, sv_lookup = Lookup lookup\<rparr>"

definition pjsip_auth_srv_init2 ::
    "u8 list \<Rightarrow> (u8 list \<Rightarrow> u8 list \<Rightarrow> auth_req \<Rightarrow> pjsip_authorization_hdr \<Rightarrow> pj_status + pjsip_cred_info) \<Rightarrow> bool \<Rightarrow> pjsip_auth_srv" where
  "pjsip_auth_srv_init2 realm lookup2 is_proxy = \<lparr>sv_realm = realm, sv_is_proxy = is_proxy, sv_lookup = Lookup2 lookup2\<rparr>"

definition pjsip_auth_verify :: "pjsip_authorization_hdr \<Rightarrow> u8 list \<Rightarrow> pjsip_cred_info \<Rightarrow> pj_status" where
  "pjsip_auth_verify hdr method cred_info =
     (if stricmp_eq (ah_scheme hdr) pjsip_DIGEST_STR then
        (let dig = ah_cred hdr in
         case pjsip_auth_get_algorithm_by_iana_name (dc_algorithm dig) of
           None \<Rightarrow> PJSIP_EINVALIDALGORITHM
         | Some alg \<Rightarrow>
             if \<not> pjsip_auth_is_algorithm_supported (al_type alg) then PJSIP_EINVALIDALGORITHM
             else if \<not> (PJSIP_CRED_DATA_IS_PASSWD cred_info \<or> PJSIP_CRED_DATA_IS_DIGEST cred_info \<and> ci_algorithm cred_info = al_type alg)
             then PJSIP_EINVALIDALGORITHM
             else if dc_username dig \<noteq> ci_user cred_info then PJ_EINVALIDOP
             else if dc_realm dig \<noteq> ci_cred_realm cred_info then PJ_EINVALIDOP
             else
               (case pjsip_auth_create_digest2 (al_digest_str_length alg) (dc_nonce dig) (Some (dc_nc dig)) (Some (dc_cnonce dig)) (Some (dc_qop dig))
                       (dc_uri dig) (ci_cred_realm cred_info) cred_info method (al_type alg) of
                  Inl status \<Rightarrow> status
                | Inr digest \<Rightarrow> if stricmp_eq digest (dc_response dig) then PJ_SUCCESS else PJSIP_EAUTHINVALIDDIGEST))
      else PJSIP_EINVALIDAUTHSCHEME)"

text \<open>The first authorization header of the right kind for the realm of the server.\<close>

fun find_authorization :: "pjsip_auth_srv \<Rightarrow> req_hdr list \<Rightarrow> pjsip_authorization_hdr option" where
  "find_authorization srv [] = None"
| "find_authorization srv (Other_hdr _ # hs) = find_authorization srv hs"
| "find_authorization srv (Auth_hdr h # hs) =
     (if ah_is_proxy h = sv_is_proxy srv \<and> stricmp_eq (dc_realm (ah_cred h)) (sv_realm srv) then Some h else find_authorization srv hs)"

text \<open>The status and the code for the response.\<close>

definition pjsip_auth_srv_verify :: "pjsip_auth_srv \<Rightarrow> auth_req \<Rightarrow> pj_status \<times> int" where
  "pjsip_auth_srv_verify srv req =
     (case find_authorization srv (rq_hdrs req) of
        None \<Rightarrow> (PJSIP_EAUTHNOAUTH, if sv_is_proxy srv then 407 else 401)
      | Some h \<Rightarrow>
          if \<not> stricmp_eq (ah_scheme h) pjsip_DIGEST_STR then (PJSIP_EINVALIDAUTHSCHEME, if sv_is_proxy srv then 407 else 401)
          else
            (case pjsip_auth_get_algorithm_by_iana_name (dc_algorithm (ah_cred h)) of
               None \<Rightarrow> (PJSIP_EINVALIDALGORITHM, 200)
             | Some alg \<Rightarrow>
                 if \<not> pjsip_auth_is_algorithm_supported (al_type alg) then (PJSIP_EINVALIDALGORITHM, 200)
                 else
                   (case lookup_cred srv req h of
                      Inl status \<Rightarrow> (status, 403)
                    | Inr cred_info \<Rightarrow>
                        let status = pjsip_auth_verify h (rq_method req) (default_alg cred_info) in
                        (status, if status \<noteq> PJ_SUCCESS then 403 else 200))))"

text \<open>\<open>rnd\<close> gives the random strings for a nonce or an opaque value that the caller has not chosen.\<close>

definition pjsip_auth_srv_challenge2 ::
    "(nat \<Rightarrow> u8 list) \<Rightarrow> pjsip_auth_srv \<Rightarrow> u8 list option \<Rightarrow> u8 list option \<Rightarrow> u8 list option \<Rightarrow> bool \<Rightarrow> pjsip_auth_algorithm_type \<Rightarrow>
       pj_status + pjsip_www_authenticate_hdr" where
  "pjsip_auth_srv_challenge2 rnd srv qop nonce opaque stale ty =
     (case pjsip_auth_get_algorithm_by_type ty of
        None \<Rightarrow> Inl PJSIP_EINVALIDALGORITHM
      | Some algorithm \<Rightarrow>
          if \<not> pjsip_auth_is_algorithm_supported ty then Inl PJSIP_EINVALIDALGORITHM
          else
            Inr \<lparr>wa_is_proxy = sv_is_proxy srv, wa_scheme = pjsip_DIGEST_STR,
                 wa_chal = \<lparr>ch_realm = sv_realm srv, ch_domain = [], ch_nonce = (case nonce of Some n \<Rightarrow> n | None \<Rightarrow> rnd 0),
                   ch_opaque = (case opaque of Some x \<Rightarrow> x | None \<Rightarrow> rnd 1), ch_stale = stale, ch_algorithm = al_iana_name algorithm,
                   ch_qop = (case qop of Some q \<Rightarrow> q | None \<Rightarrow> [])\<rparr>\<rparr>)"

definition pjsip_auth_srv_challenge ::
    "(nat \<Rightarrow> u8 list) \<Rightarrow> pjsip_auth_srv \<Rightarrow> u8 list option \<Rightarrow> u8 list option \<Rightarrow> u8 list option \<Rightarrow> bool \<Rightarrow>
       pj_status + pjsip_www_authenticate_hdr" where
  "pjsip_auth_srv_challenge rnd srv qop nonce opaque stale = pjsip_auth_srv_challenge2 rnd srv qop nonce opaque stale PJSIP_AUTH_ALGORITHM_MD5"

end
