(* ===== verification/Sip_Auth_Props.thy ===== *)
theory Sip_Auth_Props
  imports Sip_Auth
begin

text \<open>
  Properties of SIP digest authentication: the digest is the one of RFC 2617, the server accepts a request exactly when its
  response is that digest, a client that knows the password is accepted, nonce counts are never used twice, and the retries of
  a request come to an end.
\<close>

section \<open>The digest of RFC 2617\<close>

definition rfc_request_digest :: "u8 list \<Rightarrow> u8 list \<Rightarrow> u8 list \<Rightarrow> u8 list \<Rightarrow> u8 list \<Rightarrow> u8 list \<Rightarrow> u8 list \<Rightarrow> u8 list" where
  "rfc_request_digest ha1 nonce nc cnonce qop method uri =
     (let ha2 = digestNtoStr (rfc_md5 (method @ [58] @ uri)) in
      digestNtoStr (rfc_md5 (ha1 @ [58] @ nonce @ (if qop = [] then [] else [58] @ nc @ [58] @ cnonce @ [58] @ qop) @ [58] @ ha2)))"

definition rfc_ha1 :: "pjsip_cred_info \<Rightarrow> u8 list \<Rightarrow> u8 list" where
  "rfc_ha1 c realm = (if PJSIP_CRED_DATA_IS_PASSWD c then digestNtoStr (rfc_md5 (ci_user c @ [58] @ realm @ [58] @ ci_data c)) else take 32 (ci_data c))"

definition short :: "u8 list \<Rightarrow> bool" where
  "short s \<longleftrightarrow> length s < 2 ^ 32"

lemma md5_pieces_rfc: "list_all short ps \<Longrightarrow> md5_pieces ps = rfc_md5 (concat ps)"
  unfolding md5_pieces_def short_def by (rule md5_stream.streaming) auto

lemma hex_length: "length (digestNtoStr d) = 2 * length d"
  by (induction d) (simp_all add: digestNtoStr_def pj_val_to_hex_digit_def)

lemma sip_md5_length: "length (rfc_md5 m) = 16"
  by (simp add: rfc_md5_def md5_digest_def put_le32_def split: prod.split)

lemma md5_alg [simp]:
  "pjsip_auth_get_algorithm_by_type PJSIP_AUTH_ALGORITHM_MD5 = Some (pjsip_auth_algorithms PJSIP_AUTH_ALGORITHM_MD5)"
  "pjsip_auth_is_algorithm_supported PJSIP_AUTH_ALGORITHM_MD5" "al_type (pjsip_auth_algorithms PJSIP_AUTH_ALGORITHM_MD5) = PJSIP_AUTH_ALGORITHM_MD5"
  "al_digest_str_length (pjsip_auth_algorithms PJSIP_AUTH_ALGORITHM_MD5) = 32"
  by (simp_all add: pjsip_auth_get_algorithm_by_type_def pjsip_auth_is_algorithm_supported_def alg_entry_def ascii_bytes_def)

declare pjsip_auth_algorithms.simps [simp del]

text \<open>The conditions on a credential under which a digest is made.\<close>

definition cred_digests :: "pjsip_cred_info \<Rightarrow> bool" where
  "cred_digests c \<longleftrightarrow> PJSIP_CRED_DATA_IS_PASSWD c \<or>
     PJSIP_CRED_DATA_IS_DIGEST c \<and> (ci_algorithm c = PJSIP_AUTH_ALGORITHM_NOT_SET \<or> ci_algorithm c = PJSIP_AUTH_ALGORITHM_MD5) \<and> 32 \<le> length (ci_data c)"

lemma passwd_not_digest: "PJSIP_CRED_DATA_IS_PASSWD c \<Longrightarrow> \<not> PJSIP_CRED_DATA_IS_DIGEST c"
  by (simp add: PJSIP_CRED_DATA_IS_PASSWD_def PJSIP_CRED_DATA_IS_DIGEST_def PJSIP_CRED_DATA_PLAIN_PASSWD_def PJSIP_CRED_DATA_DIGEST_def)

lemma create_digest_some:
  assumes "list_all short [nonce, nc, cnonce, qop, uri, realm, ci_user c, ci_data c, method]" "32 \<le> room"
  shows "pjsip_auth_create_digest2 room nonce (Some nc) (Some cnonce) (Some qop) uri realm c method PJSIP_AUTH_ALGORITHM_MD5 =
    (if cred_digests c then Inr (rfc_request_digest (rfc_ha1 c realm) nonce nc cnonce qop method uri) else Inl PJ_EINVAL)"
proof -
  have c58: "short [58]" by (simp add: short_def)
  have h: "short (digestNtoStr (rfc_md5 m))" for m by (simp add: short_def hex_length sip_md5_length)
  have t: "short (take 32 x)" for x by (simp add: short_def)
  show ?thesis using assms passwd_not_digest [of c]
    by (auto simp: pjsip_auth_create_digest2_def cred_digests_def rfc_request_digest_def rfc_ha1_def Let_def md5_pieces_rfc c58 h t)
qed

lemma create_digest_none:
  "pjsip_auth_create_digest2 room nonce None None None uri realm c method ty =
   pjsip_auth_create_digest2 room nonce (Some nc) (Some cnonce) (Some []) uri realm c method ty"
  by (cases "pjsip_auth_get_algorithm_by_type ty") (simp_all add: pjsip_auth_create_digest2_def)

section \<open>The server\<close>

lemma iana_md5 [simp]:
  "pjsip_auth_get_algorithm_by_iana_name (al_iana_name (pjsip_auth_algorithms PJSIP_AUTH_ALGORITHM_MD5)) = Some (pjsip_auth_algorithms PJSIP_AUTH_ALGORITHM_MD5)"
  by (simp add: pjsip_auth_get_algorithm_by_iana_name_def stricmp_refl)

lemma iana_result: "pjsip_auth_get_algorithm_by_iana_name s = Some a \<Longrightarrow> a = pjsip_auth_algorithms PJSIP_AUTH_ALGORITHM_MD5"
  by (simp add: pjsip_auth_get_algorithm_by_iana_name_def split: if_splits)

text \<open>Whether a header names MD5, by name or by saying nothing.\<close>

definition names_md5 :: "u8 list \<Rightarrow> bool" where
  "names_md5 s \<longleftrightarrow> s = [] \<or> stricmp_eq s [77, 68, 53]"

lemma iana_iff: "pjsip_auth_get_algorithm_by_iana_name s = (if names_md5 s then Some (pjsip_auth_algorithms PJSIP_AUTH_ALGORITHM_MD5) else None)"
  by (simp add: pjsip_auth_get_algorithm_by_iana_name_def names_md5_def pjsip_auth_algorithms.simps alg_entry_def ascii_bytes_def)

text \<open>The fields of a header and of a credential are strings of less than \<open>2 ^ 32\<close> bytes.\<close>

definition cred_short :: "pjsip_cred_info \<Rightarrow> bool" where
  "cred_short c \<longleftrightarrow> list_all short [ci_cred_realm c, ci_user c, ci_data c]"

definition hdr_short :: "pjsip_authorization_hdr \<Rightarrow> bool" where
  "hdr_short h \<longleftrightarrow> list_all short [dc_nonce (ah_cred h), dc_nc (ah_cred h), dc_cnonce (ah_cred h), dc_qop (ah_cred h), dc_uri (ah_cred h)]"

lemma default_alg_facts [simp]:
  "ci_user (default_alg c) = ci_user c" "ci_cred_realm (default_alg c) = ci_cred_realm c" "ci_data (default_alg c) = ci_data c"
  "ci_data_type (default_alg c) = ci_data_type c" "cred_digests (default_alg c) = cred_digests c" "rfc_ha1 (default_alg c) = rfc_ha1 c"
  by (auto simp: default_alg_def cred_digests_def rfc_ha1_def PJSIP_CRED_DATA_IS_PASSWD_def PJSIP_CRED_DATA_IS_DIGEST_def)

lemma verify_iff:
  assumes "hdr_short h" "cred_short c" "short method"
  shows "pjsip_auth_verify h method (default_alg c) = PJ_SUCCESS \<longleftrightarrow>
    stricmp_eq (ah_scheme h) pjsip_DIGEST_STR \<and> names_md5 (dc_algorithm (ah_cred h)) \<and> cred_digests c \<and>
    dc_username (ah_cred h) = ci_user c \<and> dc_realm (ah_cred h) = ci_cred_realm c \<and>
    stricmp_eq (rfc_request_digest (rfc_ha1 c (ci_cred_realm c)) (dc_nonce (ah_cred h)) (dc_nc (ah_cred h)) (dc_cnonce (ah_cred h))
      (dc_qop (ah_cred h)) method (dc_uri (ah_cred h))) (dc_response (ah_cred h))"
proof -
  have s: "list_all short [dc_nonce (ah_cred h), dc_nc (ah_cred h), dc_cnonce (ah_cred h), dc_qop (ah_cred h), dc_uri (ah_cred h),
      ci_cred_realm c, ci_user (default_alg c), ci_data (default_alg c), method]"
    using assms by (simp add: hdr_short_def cred_short_def)
  have p: "PJSIP_CRED_DATA_IS_PASSWD (default_alg c) = PJSIP_CRED_DATA_IS_PASSWD c" "PJSIP_CRED_DATA_IS_DIGEST (default_alg c) = PJSIP_CRED_DATA_IS_DIGEST c"
    by (simp_all add: PJSIP_CRED_DATA_IS_PASSWD_def PJSIP_CRED_DATA_IS_DIGEST_def)
  have d: "PJSIP_CRED_DATA_IS_DIGEST c \<Longrightarrow> ci_algorithm (default_alg c) = PJSIP_AUTH_ALGORITHM_MD5 \<longleftrightarrow>
      ci_algorithm c = PJSIP_AUTH_ALGORITHM_NOT_SET \<or> ci_algorithm c = PJSIP_AUTH_ALGORITHM_MD5"
    by (auto simp: default_alg_def)
  have g: "cred_digests c \<Longrightarrow> PJSIP_CRED_DATA_IS_PASSWD c \<or> PJSIP_CRED_DATA_IS_DIGEST c \<and> ci_algorithm (default_alg c) = PJSIP_AUTH_ALGORITHM_MD5"
    using d by (auto simp: cred_digests_def)
  show ?thesis using create_digest_some [OF s, of 32] g
    by (auto simp: pjsip_auth_verify_def iana_iff Let_def p auth_status_defs split: if_splits)
qed

section \<open>One answer of the client\<close>

lemma create_digest_passwd:
  assumes "ci_data_type c = PJSIP_CRED_DATA_PLAIN_PASSWD" "qop \<noteq> None \<longrightarrow> nc \<noteq> None \<and> cnonce \<noteq> None"
  shows "\<exists>d. pjsip_auth_create_digest2 32 nonce nc cnonce qop uri realm c method PJSIP_AUTH_ALGORITHM_MD5 = Inr d"
    "ci_data_type c' = PJSIP_CRED_DATA_PLAIN_PASSWD \<Longrightarrow> ci_user c' = ci_user c \<Longrightarrow> ci_data c' = ci_data c \<Longrightarrow>
      pjsip_auth_create_digest2 32 nonce nc cnonce qop uri realm c' method PJSIP_AUTH_ALGORITHM_MD5 =
      pjsip_auth_create_digest2 32 nonce nc cnonce qop uri realm c method PJSIP_AUTH_ALGORITHM_MD5"
  using assms
  by (auto simp: pjsip_auth_create_digest2_def PJSIP_CRED_DATA_IS_PASSWD_def PJSIP_CRED_DATA_IS_DIGEST_def PJSIP_CRED_DATA_PLAIN_PASSWD_def
      PJSIP_CRED_DATA_DIGEST_def Let_def)

lemma create_digest_nonempty:
  assumes "pjsip_auth_create_digest2 room nonce nc cnonce qop uri realm c method PJSIP_AUTH_ALGORITHM_MD5 = Inr d"
  shows "d \<noteq> []"
proof -
  have "digestNtoStr (md5_pieces ps) \<noteq> []" for ps
  proof -
    have "length (snd (pj_md5_final ctx)) = 16" for ctx
      by (simp add: pj_md5_final_def md5_digest_def put_le32_def Let_def split: prod.split)
    then have "length (digestNtoStr (md5_pieces ps)) = 32" by (simp add: md5_pieces_def hex_length)
    then show ?thesis by auto
  qed
  then show ?thesis using assms by (auto simp: pjsip_auth_create_digest2_def Let_def split: if_splits)
qed

lemma create_digest_error: "pjsip_auth_create_digest2 room nonce nc cnonce qop uri realm c method ty \<noteq> Inl PJ_SUCCESS"
  by (auto simp: pjsip_auth_create_digest2_def Let_def auth_status_defs split: option.split)

lemma respond_passwd:
  assumes "ci_data_type c = PJSIP_CRED_DATA_PLAIN_PASSWD" "ch_qop chal = [] \<or> has_auth_qop (ch_qop chal)"
  shows "\<exists>cred. respond_digest cb chal uri c cnonce nc method PJSIP_AUTH_ALGORITHM_MD5 empty_credential = (PJ_SUCCESS, cred) \<and>
    dc_username cred = ci_user c \<and> dc_realm cred = ch_realm chal \<and> dc_nonce cred = ch_nonce chal \<and> dc_uri cred = uri \<and>
    dc_algorithm cred = ch_algorithm chal \<and>
    pjsip_auth_create_digest2 32 (dc_nonce cred) (Some (dc_nc cred)) (Some (dc_cnonce cred)) (Some (dc_qop cred)) uri (ch_realm chal) c method
      PJSIP_AUTH_ALGORITHM_MD5 = Inr (dc_response cred)"
proof -
  have aka: "\<not> PJSIP_CRED_DATA_IS_AKA c"
    using assms(1) by (simp add: PJSIP_CRED_DATA_IS_AKA_def PJSIP_CRED_DATA_PLAIN_PASSWD_def PJSIP_CRED_DATA_EXT_AKA_def)
  show ?thesis
  proof (cases "ch_qop chal = []")
    case True
    obtain d where "pjsip_auth_create_digest2 32 (ch_nonce chal) (Some []) (Some []) (Some []) uri (ch_realm chal) c method PJSIP_AUTH_ALGORITHM_MD5 = Inr d"
      using create_digest_passwd(1) [OF assms(1)] by blast
    then show ?thesis using True aka create_digest_none [of 32 "ch_nonce chal" uri "ch_realm chal" c "method" PJSIP_AUTH_ALGORITHM_MD5 "[]" "[]"]
      by (simp add: respond_digest_def Let_def empty_credential_def)
  next
    case False
    let ?cn = "if cnonce \<noteq> [] then cnonce else ascii_bytes ''b39971''"
    obtain d where "pjsip_auth_create_digest2 32 (ch_nonce chal) (Some (print_nc nc)) (Some ?cn) (Some pjsip_AUTH_STR) uri (ch_realm chal) c method
        PJSIP_AUTH_ALGORITHM_MD5 = Inr d"
      using create_digest_passwd(1) [OF assms(1)] by blast
    then show ?thesis using False aka assms(2) by (simp add: respond_digest_def Let_def)
  qed
qed

definition cached_ok :: "pjsip_cached_auth \<Rightarrow> bool" where
  "cached_ok ca \<longleftrightarrow> (ca_cnonce ca \<noteq> [] \<longrightarrow> ca_last_chal ca \<noteq> None)"

definition clt_ok :: "pjsip_auth_clt_sess \<Rightarrow> bool" where
  "clt_ok sess \<longleftrightarrow> list_all cached_ok (cs_cached sess) \<and> list_all (\<lambda>c. \<not> PJSIP_CRED_DATA_IS_AKA c) (cs_cred sess)"

lemma update_session_ok:
  assumes "cached_ok ca"
  shows "\<exists>ca'. update_digest_session uniq hdr ca = Some ca' \<and> cached_ok ca' \<and> ca_stale_cnt ca' = ca_stale_cnt ca \<and> ca_alg ca' = ca_alg ca \<and>
    (stricmp_eq (ca_realm ca) (ch_realm (wa_chal hdr)) \<longrightarrow> ca_realm ca' = ca_realm ca)"
  using assms by (auto simp: update_digest_session_def cached_ok_def stricmp_eq_def split: option.splits)

text \<open>What an answer leaves of the cached session, and the header it makes.\<close>

lemma respond_ok:
  assumes "cached_ok ca" "\<not> PJSIP_CRED_DATA_IS_AKA cred"
  shows "\<exists>ca' r. auth_respond cb uniq hdr uri cred method PJSIP_AUTH_ALGORITHM_MD5 ca = Some (ca', r) \<and> r \<noteq> Inl PJ_SUCCESS \<and> cached_ok ca' \<and>
    ca_stale_cnt ca' = ca_stale_cnt ca \<and> ca_alg ca' = ca_alg ca \<and>
    (stricmp_eq (ca_realm ca) (ch_realm (wa_chal hdr)) \<longrightarrow> ca_realm ca' = ca_realm ca) \<and>
    (\<forall>h. r = Inr h \<longrightarrow> ah_is_proxy h = wa_is_proxy hdr \<and> ah_scheme h = pjsip_DIGEST_STR \<and> dc_realm (ah_cred h) = ch_realm (wa_chal hdr) \<and>
      dc_response (ah_cred h) \<noteq> [])"
proof -
  obtain ca' where u: "update_digest_session uniq hdr ca = Some ca'" "cached_ok ca'" "ca_stale_cnt ca' = ca_stale_cnt ca" "ca_alg ca' = ca_alg ca"
    "stricmp_eq (ca_realm ca) (ch_realm (wa_chal hdr)) \<longrightarrow> ca_realm ca' = ca_realm ca"
    using update_session_ok [OF assms(1)] by blast
  have resp: "dc_realm c = ch_realm (wa_chal hdr) \<and> dc_response c \<noteq> []"
    if "respond_digest cb (wa_chal hdr) s cred cn nc method PJSIP_AUTH_ALGORITHM_MD5 empty_credential = (PJ_SUCCESS, c)" for s cn nc c
    using that assms(2) create_digest_nonempty create_digest_error
    by (auto simp: respond_digest_def Let_def auth_status_defs split: if_splits sum.splits)
  show ?thesis
  proof (cases "uri = None \<or> \<not> stricmp_eq (wa_scheme hdr) pjsip_DIGEST_STR")
    case True
    then show ?thesis using assms(1) by (auto simp: auth_respond_def auth_status_defs split: option.splits)
  next
    case False
    then obtain s where s: "uri = Some s" by auto
    obtain st c where r: "respond_digest cb (wa_chal hdr) s cred (ca_cnonce ca') (ca_nc ca') method PJSIP_AUTH_ALGORITHM_MD5 empty_credential = (st, c)"
      by fastforce
    show ?thesis using False s u r resp [of s "ca_cnonce ca'" "ca_nc ca'" c] by (auto simp: auth_respond_def cached_ok_def Let_def)
  qed
qed

section \<open>A client that knows the password\<close>

lemma find_sent_none:
  "(\<And>h. Auth_hdr h \<in> set hs \<Longrightarrow> \<not> answers c h) \<Longrightarrow> find_sent c b hs = (rev b @ hs, None)"
proof (induction hs arbitrary: b)
  case (Cons x hs)
  then show ?case by (cases x) auto
qed simp

lemma find_authorization_append:
  "find_authorization srv hs = None \<Longrightarrow> find_authorization srv (hs @ [Auth_hdr h]) =
    (if ah_is_proxy h = sv_is_proxy srv \<and> stricmp_eq (dc_realm (ah_cred h)) (sv_realm srv) then Some h else None)"
  by (induction srv hs rule: find_authorization.induct) (auto split: if_splits)

lemma find_authorization_none:
  "find_authorization srv hs = None \<Longrightarrow> Auth_hdr h \<in> set hs \<Longrightarrow> ah_is_proxy h = sv_is_proxy srv \<Longrightarrow> \<not> stricmp_eq (dc_realm (ah_cred h)) (sv_realm srv)"
  by (induction srv hs rule: find_authorization.induct) (auto split: if_splits)

lemma find_authorization_member: "find_authorization srv hs = Some h \<Longrightarrow> Auth_hdr h \<in> set hs"
  by (induction srv hs rule: find_authorization.induct) (auto split: if_splits)

lemma find_auth_bound: "find_auth realm ty as = Some i \<Longrightarrow> i < length as \<and> stricmp_eq (ca_realm (as ! i)) realm \<and> ca_alg (as ! i) = ty"
  by (induction as arbitrary: i) (auto split: if_splits)

lemma login_helper:
  assumes chal: "pjsip_auth_srv_challenge rnd srv qop nonce opaque stale = Inr chal"
    and qop: "qop = None \<or> qop = Some [] \<or> has_auth_qop (the qop)" and sess: "clt_ok sess"
    and cred: "auth_find_cred sess (sv_realm srv) PJSIP_AUTH_ALGORITHM_MD5 = Some c" "ci_data_type c = PJSIP_CRED_DATA_PLAIN_PASSWD"
    and look: "\<And>req h. dc_username (ah_cred h) = ci_user c \<Longrightarrow> lookup_cred srv req h = Inr sc" "ci_data_type sc = PJSIP_CRED_DATA_PLAIN_PASSWD"
      "ci_user sc = ci_user c" "ci_data sc = ci_data c" "ci_cred_realm sc = sv_realm srv"
    and req: "rq_uri req = Some uri" "find_authorization srv (rq_hdrs req) = None" and code: "code = 401 \<or> code = 407"
  shows "\<exists>sess' req'. pjsip_auth_clt_reinit_req cb uniq code [Some chal] req sess = Some (sess', req', PJ_SUCCESS) \<and>
    rq_method req' = rq_method req \<and> pjsip_auth_srv_verify srv req' = (PJ_SUCCESS, 200)"
proof -
  let ?md5 = "PJSIP_AUTH_ALGORITHM_MD5" and ?realm = "sv_realm srv"
  have ch: "wa_is_proxy chal = sv_is_proxy srv" "wa_scheme chal = pjsip_DIGEST_STR" "ch_realm (wa_chal chal) = ?realm"
    "ch_algorithm (wa_chal chal) = al_iana_name (pjsip_auth_algorithms ?md5)" "ch_qop (wa_chal chal) = [] \<or> has_auth_qop (ch_qop (wa_chal chal))"
    using chal qop by (cases qop; auto simp: pjsip_auth_srv_challenge_def pjsip_auth_srv_challenge2_def)+
  obtain s1 i where si: "(case find_cached_auth sess ?realm ?md5 of Some i \<Rightarrow> (sess, i)
      | None \<Rightarrow> (sess\<lparr>cs_cached := cs_cached sess @ [new_cached chal ?md5]\<rparr>, length (cs_cached sess))) = (s1, i)"
    "i < length (cs_cached s1)" "clt_ok s1" "cs_cred s1 = cs_cred sess"
  proof (cases "find_cached_auth sess ?realm ?md5")
    case None
    show ?thesis by (rule that [of "sess\<lparr>cs_cached := cs_cached sess @ [new_cached chal ?md5]\<rparr>" "length (cs_cached sess)"])
      (use sess in \<open>simp_all add: None clt_ok_def cached_ok_def new_cached_def\<close>)
  next
    case (Some i)
    show ?thesis by (rule that [of sess i]) (use sess Some find_auth_bound [of ?realm ?md5 "cs_cached sess" i] in \<open>simp_all add: find_cached_auth_def\<close>)
  qed
  have ok: "cached_ok (cs_cached s1 ! i)" using si(2,3) by (simp add: clt_ok_def list_all_length)
  have sent: "find_sent chal [] (rq_hdrs req) = (rq_hdrs req, None)"
    using find_sent_none [of "rq_hdrs req" chal "[]"] find_authorization_none [OF req(2)] ch(1,3) by (auto simp: answers_def stricmp_sym)
  obtain ca where u: "update_digest_session (uniq 0) chal (cs_cached s1 ! i) = Some ca" using update_session_ok [OF ok] by blast
  obtain cr where r: "respond_digest cb (wa_chal chal) uri c (ca_cnonce ca) (ca_nc ca) (rq_method req) ?md5 empty_credential = (PJ_SUCCESS, cr)"
    "dc_username cr = ci_user c" "dc_realm cr = ?realm" "dc_uri cr = uri" "dc_algorithm cr = ch_algorithm (wa_chal chal)"
    "pjsip_auth_create_digest2 32 (dc_nonce cr) (Some (dc_nc cr)) (Some (dc_cnonce cr)) (Some (dc_qop cr)) uri ?realm c (rq_method req) ?md5 = Inr (dc_response cr)"
    using respond_passwd [OF cred(2) ch(5)] ch(3) by fastforce
  let ?h = "\<lparr>ah_is_proxy = sv_is_proxy srv, ah_scheme = pjsip_DIGEST_STR, ah_cred = cr\<rparr>"
  obtain ca' where a: "auth_respond cb (uniq 0) chal (rq_uri req) c (rq_method req) ?md5 (cs_cached s1 ! i) = Some (ca', Inr ?h)"
    using u r(1) req(1) ch(1,2) by (simp add: auth_respond_def stricmp_refl Let_def)
  have p: "process_auth cb (uniq 0) chal req s1 ?md5 (cs_cached s1 ! i) = Some (req, ca', Inr ?h)"
    using sent cred(1) si(4) a ch(3) by (simp add: process_auth_def Let_def auth_find_cred_def)
  obtain s2 where "pjsip_auth_clt_reinit_req cb uniq code [Some chal] req sess =
      Some (s2, req\<lparr>rq_hdrs := rq_hdrs req @ [Auth_hdr ?h]\<rparr>, PJ_SUCCESS)"
    using code si(1) p ch(2-4)
    by (cases "find_cached_auth sess ?realm ?md5") (auto simp: pjsip_auth_clt_reinit_req_def reinit_one_def Let_def stricmp_refl)
  moreover have "pjsip_auth_verify ?h (rq_method req) (default_alg sc) = PJ_SUCCESS"
    using r look ch(4) create_digest_passwd(2) [OF cred(2), of "Some (dc_qop cr)" "Some (dc_nc cr)" "Some (dc_cnonce cr)" "default_alg sc"]
    by (simp add: pjsip_auth_verify_def Let_def stricmp_refl PJSIP_CRED_DATA_IS_PASSWD_def PJSIP_CRED_DATA_PLAIN_PASSWD_def)
  then have "pjsip_auth_srv_verify srv (req\<lparr>rq_hdrs := rq_hdrs req @ [Auth_hdr ?h]\<rparr>) = (PJ_SUCCESS, 200)"
    using find_authorization_append [OF req(2), of ?h] r(2,3,5) look(1) ch(4) by (simp add: pjsip_auth_srv_verify_def stricmp_refl Let_def)
  ultimately show ?thesis by auto
qed

section \<open>The retries of a request\<close>

text \<open>A request with an answer for a realm, and the number of retries that the cached session for the realm still allows.\<close>

definition answered :: "bool \<Rightarrow> u8 list \<Rightarrow> auth_req \<Rightarrow> bool" where
  "answered prx realm req \<longleftrightarrow> (\<exists>h. Auth_hdr h \<in> set (rq_hdrs req) \<and> ah_is_proxy h = prx \<and> stricmp_eq realm (dc_realm (ah_cred h)) \<and>
     stricmp_eq pjsip_DIGEST_STR (ah_scheme h) \<and> dc_response (ah_cred h) \<noteq> [])"

definition stale_of :: "u8 list \<Rightarrow> pjsip_cached_auth list \<Rightarrow> nat" where
  "stale_of realm as = (case find_auth realm PJSIP_AUTH_ALGORITHM_MD5 as of None \<Rightarrow> 0 | Some i \<Rightarrow> ca_stale_cnt (as ! i))"

definition tries_left :: "bool \<Rightarrow> u8 list \<Rightarrow> pjsip_auth_clt_sess \<Rightarrow> auth_req \<Rightarrow> nat" where
  "tries_left prx realm sess req = (2 - stale_of realm (cs_cached sess)) + (if answered prx realm req then 0 else 1)"

lemma find_sent_spec:
  assumes "stricmp_eq (wa_scheme c) pjsip_DIGEST_STR"
  shows "case find_sent c b hs of
      (bf, None) \<Rightarrow> set bf \<subseteq> set b \<union> set hs \<and> (\<forall>h. Auth_hdr h \<in> set hs \<longrightarrow> answers c h \<longrightarrow> dc_response (ah_cred h) = [])
    | (bf, Some (h, af)) \<Rightarrow> set bf \<subseteq> set b \<union> set hs \<and> Auth_hdr h \<in> set hs \<and> set af \<subseteq> set hs \<and> answers c h \<and> dc_response (ah_cred h) \<noteq> []"
  using assms
proof (induction c b hs rule: find_sent.induct)
  case (3 c b h hs)
  have e: "is_empty_auth h \<longleftrightarrow> dc_response (ah_cred h) = []" if "answers c h"
  proof -
    have "stricmp_eq (ah_scheme h) (wa_scheme c)" using that stricmp_sym by (simp add: answers_def)
    then show ?thesis using stricmp_trans [OF _ "3.prems"] by (simp add: is_empty_auth_def)
  qed
  show ?case
  proof (cases "answers c h \<and> \<not> is_empty_auth h")
    case True
    then show ?thesis using e by auto
  next
    case False
    then show ?thesis using 3 e by (cases "answers c h"; fastforce split: prod.splits option.splits)
  qed
next
  case (2 c b n hs)
  then show ?case by (fastforce split: prod.splits option.splits)
qed simp

lemma find_auth_stricmp: "stricmp_eq a b \<Longrightarrow> find_auth a ty as = find_auth b ty as"
proof (induction as)
  case (Cons x xs)
  have "stricmp_eq (ca_realm x) a \<longleftrightarrow> stricmp_eq (ca_realm x) b"
    using Cons.prems stricmp_trans [of "ca_realm x"] stricmp_sym [of a b] by blast
  then show ?case using Cons by simp
qed simp

lemma find_auth_update:
  assumes "i < length as" "ca_realm a = ca_realm (as ! i)" "ca_alg a = ca_alg (as ! i)"
  shows "find_auth realm ty (as[i := a]) = find_auth realm ty as"
  using assms
proof (induction as arbitrary: i)
  case (Cons x xs)
  then show ?case by (cases i) simp_all
qed simp

lemma find_auth_append: "find_auth realm ty as = None \<Longrightarrow> stricmp_eq (ca_realm a) realm \<Longrightarrow> ca_alg a = ty \<Longrightarrow>
    find_auth realm ty (as @ [a]) = Some (length as)"
  by (induction as) (auto split: if_splits)

lemma find_cred_member: "find_cred_loop realm ty w cs = Some c \<Longrightarrow> c \<in> set cs \<or> w = Some c"
  by (induction realm ty w cs rule: find_cred_loop.induct) (auto split: if_splits)

lemma answered_mono: "set (rq_hdrs req') \<subseteq> set (rq_hdrs req) \<Longrightarrow> answered prx realm req' \<Longrightarrow> answered prx realm req"
  unfolding answered_def by blast

lemma answered_iff:
  assumes "stricmp_eq (wa_scheme hchal) pjsip_DIGEST_STR" "stricmp_eq (ch_realm (wa_chal hchal)) realm" "wa_is_proxy hchal = prx"
  shows "answered prx realm req \<longleftrightarrow> (\<exists>h. Auth_hdr h \<in> set (rq_hdrs req) \<and> answers hchal h \<and> dc_response (ah_cred h) \<noteq> [])"
proof -
  have "stricmp_eq realm x \<longleftrightarrow> stricmp_eq (ch_realm (wa_chal hchal)) x" "stricmp_eq pjsip_DIGEST_STR x \<longleftrightarrow> stricmp_eq (wa_scheme hchal) x" for x
    using assms(1,2) stricmp_trans stricmp_sym [of "ch_realm (wa_chal hchal)"] stricmp_sym [of "wa_scheme hchal"] by blast+
  then show ?thesis using assms(3) by (auto simp: answered_def answers_def)
qed

lemma answer_ok:
  assumes ok: "cached_ok ca" and creds: "list_all (\<lambda>c. \<not> PJSIP_CRED_DATA_IS_AKA c) (cs_cred sess)"
    and re: "stricmp_eq (ch_realm (wa_chal hchal)) realm" and prx: "wa_is_proxy hchal = prx" and ca: "stricmp_eq (ca_realm ca) realm"
  shows "\<exists>ca' r. (case auth_find_cred sess (ch_realm (wa_chal hchal)) PJSIP_AUTH_ALGORITHM_MD5 of
        None \<Rightarrow> Some (tdata, ca, Inl PJSIP_ENOCREDENTIAL)
      | Some cred \<Rightarrow> map_option (\<lambda>(ca, r). (tdata, ca, r))
          (auth_respond cb uniq hchal (rq_uri tdata) cred (rq_method tdata) PJSIP_AUTH_ALGORITHM_MD5 ca)) = Some (tdata, ca', r) \<and> r \<noteq> Inl PJ_SUCCESS \<and>
    cached_ok ca' \<and> ca_stale_cnt ca' = ca_stale_cnt ca \<and> ca_alg ca' = ca_alg ca \<and> ca_realm ca' = ca_realm ca \<and>
    (\<forall>h. r = Inr h \<longrightarrow> answered prx realm (tdata\<lparr>rq_hdrs := rq_hdrs tdata @ [Auth_hdr h]\<rparr>))"
proof (cases "auth_find_cred sess (ch_realm (wa_chal hchal)) PJSIP_AUTH_ALGORITHM_MD5")
  case None
  then show ?thesis using ok by (simp add: auth_status_defs)
next
  case (Some cred)
  then have "\<not> PJSIP_CRED_DATA_IS_AKA cred" using creds find_cred_member by (fastforce simp: auth_find_cred_def list_all_iff)
  from respond_ok [OF ok this, of cb uniq hchal "rq_uri tdata" "rq_method tdata"] obtain ca' r where
    r: "auth_respond cb uniq hchal (rq_uri tdata) cred (rq_method tdata) PJSIP_AUTH_ALGORITHM_MD5 ca = Some (ca', r)" "cached_ok ca'" "r \<noteq> Inl PJ_SUCCESS"
    "ca_stale_cnt ca' = ca_stale_cnt ca" "ca_alg ca' = ca_alg ca" "stricmp_eq (ca_realm ca) (ch_realm (wa_chal hchal)) \<longrightarrow> ca_realm ca' = ca_realm ca"
    "\<forall>h. r = Inr h \<longrightarrow> ah_is_proxy h = wa_is_proxy hchal \<and> ah_scheme h = pjsip_DIGEST_STR \<and> dc_realm (ah_cred h) = ch_realm (wa_chal hchal) \<and>
      dc_response (ah_cred h) \<noteq> []"
    by blast
  have "stricmp_eq (ca_realm ca) (ch_realm (wa_chal hchal))" "stricmp_eq realm (ch_realm (wa_chal hchal))"
    using ca re stricmp_sym stricmp_trans by blast+
  then show ?thesis using Some r prx stricmp_refl by (auto simp: answered_def)
qed

text \<open>One challenge for the realm: an answer uses up a try.\<close>

lemma process_tries:
  assumes ok: "cached_ok ca" and creds: "list_all (\<lambda>c. \<not> PJSIP_CRED_DATA_IS_AKA c) (cs_cred sess)"
    and sch: "stricmp_eq (wa_scheme hchal) pjsip_DIGEST_STR" and re: "stricmp_eq (ch_realm (wa_chal hchal)) realm"
    and prx: "wa_is_proxy hchal = prx" and ca: "stricmp_eq (ca_realm ca) realm"
  shows "\<exists>req' ca' r. process_auth cb uniq hchal req sess PJSIP_AUTH_ALGORITHM_MD5 ca = Some (req', ca', r) \<and> r \<noteq> Inl PJ_SUCCESS \<and>
    cached_ok ca' \<and> ca_realm ca' = ca_realm ca \<and> ca_alg ca' = ca_alg ca \<and> (answered prx realm req' \<longrightarrow> answered prx realm req) \<and>
    (case r of
       Inr h \<Rightarrow> answered prx realm (req'\<lparr>rq_hdrs := rq_hdrs req' @ [Auth_hdr h]\<rparr>) \<and>
         (\<not> answered prx realm req \<and> ca_stale_cnt ca' = ca_stale_cnt ca \<or> ca_stale_cnt ca' = ca_stale_cnt ca + 1 \<and> ca_stale_cnt ca < 2)
     | Inl st \<Rightarrow> (answered prx realm req \<longrightarrow> answered prx realm req') \<and> ca_stale_cnt ca \<le> ca_stale_cnt ca' \<or>
         ca_stale_cnt ca' = ca_stale_cnt ca + 1 \<and> ca_stale_cnt ca < 2)"
proof -
  note iff = answered_iff [OF sch re prx]
  obtain bf sent where f: "find_sent hchal [] (rq_hdrs req) = (bf, sent)" by fastforce
  note spec = find_sent_spec [OF sch, of "[]" "rq_hdrs req", unfolded f]
  show ?thesis
  proof (cases sent)
    case None
    let ?t = "req\<lparr>rq_hdrs := bf\<rparr>"
    have n: "\<not> answered prx realm req" "\<not> answered prx realm ?t" using spec None iff answered_mono [of ?t req prx realm] by auto
    obtain ca' r where "process_auth cb uniq hchal req sess PJSIP_AUTH_ALGORITHM_MD5 ca = Some (?t, ca', r)" "cached_ok ca'" "r \<noteq> Inl PJ_SUCCESS"
      "ca_stale_cnt ca' = ca_stale_cnt ca" "ca_alg ca' = ca_alg ca" "ca_realm ca' = ca_realm ca"
      "\<forall>h. r = Inr h \<longrightarrow> answered prx realm (?t\<lparr>rq_hdrs := rq_hdrs ?t @ [Auth_hdr h]\<rparr>)"
      using answer_ok [OF ok creds re prx ca, of ?t cb uniq] f None by (auto simp: process_auth_def Let_def)
    then show ?thesis using n by (auto split: sum.split)
  next
    case (Some p)
    obtain h af where p: "p = (h, af)" by fastforce
    have s: "set bf \<subseteq> set (rq_hdrs req)" "Auth_hdr h \<in> set (rq_hdrs req)" "set af \<subseteq> set (rq_hdrs req)" "answers hchal h" "dc_response (ah_cred h) \<noteq> []"
      using spec Some p by auto
    let ?t = "req\<lparr>rq_hdrs := bf @ Auth_hdr h # af\<rparr>" and ?u = "req\<lparr>rq_hdrs := bf @ af\<rparr>" and ?ca = "ca\<lparr>ca_stale_cnt := ca_stale_cnt ca + 1\<rparr>"
    have a: "answered prx realm req" "answered prx realm ?t" "answered prx realm ?u \<longrightarrow> answered prx realm req"
      using s iff answered_mono [of ?u req prx realm] iff [of ?t] by auto
    have ok2: "cached_ok ?ca" "stricmp_eq (ca_realm ?ca) realm" using ok ca by (simp_all add: cached_ok_def)
    obtain ca' r where go: "(case auth_find_cred sess (ch_realm (wa_chal hchal)) PJSIP_AUTH_ALGORITHM_MD5 of
        None \<Rightarrow> Some (?u, ?ca, Inl PJSIP_ENOCREDENTIAL)
      | Some cred \<Rightarrow> map_option (\<lambda>(ca, r). (?u, ca, r))
          (auth_respond cb uniq hchal (rq_uri ?u) cred (rq_method ?u) PJSIP_AUTH_ALGORITHM_MD5 ?ca)) = Some (?u, ca', r)" "cached_ok ca'" "r \<noteq> Inl PJ_SUCCESS"
      "ca_stale_cnt ca' = ca_stale_cnt ca + 1" "ca_alg ca' = ca_alg ca" "ca_realm ca' = ca_realm ca"
      "\<forall>h. r = Inr h \<longrightarrow> answered prx realm (?u\<lparr>rq_hdrs := rq_hdrs ?u @ [Auth_hdr h]\<rparr>)"
      using answer_ok [OF ok2(1) creds re prx ok2(2), of ?u cb uniq] by auto
    let ?stale = "ch_stale (wa_chal hchal) \<or> ch_nonce (wa_chal hchal) \<noteq> dc_nonce (ah_cred h)"
    have pa: "process_auth cb uniq hchal req sess PJSIP_AUTH_ALGORITHM_MD5 ca =
      (if \<not> ?stale then Some (?t, ca, Inl PJSIP_EFAILEDCREDENTIAL)
       else if ca_stale_cnt ca + 1 \<ge> 3 then Some (?t, ?ca, Inl PJSIP_EAUTHSTALECOUNT) else Some (?u, ca', r))"
      using f Some p go(1) by (cases "auth_find_cred sess (ch_realm (wa_chal hchal)) PJSIP_AUTH_ALGORITHM_MD5")
        (auto simp: process_auth_def Let_def PJSIP_MAX_STALE_COUNT_def)
    show ?thesis using pa a ok2 ok go(2-7) by (auto simp: auth_status_defs split: sum.split)
  qed
qed

text \<open>The same for a whole step of the loop over the challenges.\<close>

definition for_realm :: "bool \<Rightarrow> u8 list \<Rightarrow> pjsip_www_authenticate_hdr \<Rightarrow> bool" where
  "for_realm prx realm hchal \<longleftrightarrow> wa_is_proxy hchal = prx \<and> stricmp_eq (ch_realm (wa_chal hchal)) realm"

lemma stale_update:
  assumes "find_auth realm PJSIP_AUTH_ALGORITHM_MD5 as = Some i" "ca_realm a = ca_realm (as ! i)" "ca_alg a = ca_alg (as ! i)"
  shows "stale_of realm (as[i := a]) = ca_stale_cnt a" "stale_of realm as = ca_stale_cnt (as ! i)"
  using assms find_auth_bound [OF assms(1)] find_auth_update [of i as a realm PJSIP_AUTH_ALGORITHM_MD5] by (simp_all add: stale_of_def)

lemma reinit_one_tries:
  assumes ok: "clt_ok (ar_sess r)" and re: "for_realm prx realm hchal"
  shows "\<exists>r'. reinit_one cb uniq hchal r = Some r' \<and> clt_ok (ar_sess r') \<and> ar_auth_cnt r \<le> ar_auth_cnt r' \<and> (ar_last_err r \<noteq> PJ_SUCCESS \<longrightarrow> ar_last_err r' \<noteq> PJ_SUCCESS) \<and>
    tries_left prx realm (ar_sess r') (ar_req r') + ar_auth_cnt r' \<le> tries_left prx realm (ar_sess r) (ar_req r) + ar_auth_cnt r"
proof (cases "stricmp_eq (wa_scheme hchal) pjsip_DIGEST_STR \<and> names_md5 (ch_algorithm (wa_chal hchal))")
  case False
  then show ?thesis using ok by (auto simp: reinit_one_def Let_def iana_iff auth_status_defs)
next
  case True
  let ?md5 = "PJSIP_AUTH_ALGORITHM_MD5" and ?s = "ar_sess r" and ?x = "ch_realm (wa_chal hchal)"
  have x: "stricmp_eq ?x realm" "wa_is_proxy hchal = prx" using re by (simp_all add: for_realm_def)
  obtain s i where si: "(case find_cached_auth ?s ?x ?md5 of Some i \<Rightarrow> (?s, i)
      | None \<Rightarrow> (?s\<lparr>cs_cached := cs_cached ?s @ [new_cached hchal ?md5]\<rparr>, length (cs_cached ?s))) = (s, i)"
    "find_auth realm ?md5 (cs_cached s) = Some i" "clt_ok s" "stale_of realm (cs_cached s) = stale_of realm (cs_cached ?s)"
  proof (cases "find_cached_auth ?s ?x ?md5")
    case None
    then have n: "find_auth realm ?md5 (cs_cached ?s) = None" using find_auth_stricmp [OF x(1)] by (simp add: find_cached_auth_def)
    have f: "find_auth realm ?md5 (cs_cached ?s @ [new_cached hchal ?md5]) = Some (length (cs_cached ?s))"
      using find_auth_append [OF n, of "new_cached hchal ?md5"] x(1) by (simp add: new_cached_def)
    show ?thesis by (rule that [of "?s\<lparr>cs_cached := cs_cached ?s @ [new_cached hchal ?md5]\<rparr>" "length (cs_cached ?s)"])
      (use ok f n in \<open>simp_all add: None clt_ok_def cached_ok_def new_cached_def stale_of_def\<close>)
  next
    case (Some i)
    then have "find_auth realm ?md5 (cs_cached ?s) = Some i" using find_auth_stricmp [OF x(1)] by (simp add: find_cached_auth_def)
    then show ?thesis by (intro that [of ?s i]) (use ok Some in simp_all)
  qed
  note b = find_auth_bound [OF si(2)]
  have c: "cached_ok (cs_cached s ! i)" "list_all (\<lambda>c. \<not> PJSIP_CRED_DATA_IS_AKA c) (cs_cred s)"
    using si(3) b by (simp_all add: clt_ok_def list_all_length)
  obtain q ca res where p: "process_auth cb uniq hchal (ar_req r) s ?md5 (cs_cached s ! i) = Some (q, ca, res)" "cached_ok ca"
    "ca_realm ca = ca_realm (cs_cached s ! i)" "ca_alg ca = ca_alg (cs_cached s ! i)" "answered prx realm q \<longrightarrow> answered prx realm (ar_req r)"
    "case res of
       Inr h \<Rightarrow> answered prx realm (q\<lparr>rq_hdrs := rq_hdrs q @ [Auth_hdr h]\<rparr>) \<and>
         (\<not> answered prx realm (ar_req r) \<and> ca_stale_cnt ca = ca_stale_cnt (cs_cached s ! i) \<or>
          ca_stale_cnt ca = ca_stale_cnt (cs_cached s ! i) + 1 \<and> ca_stale_cnt (cs_cached s ! i) < 2)
     | Inl st \<Rightarrow> (answered prx realm (ar_req r) \<longrightarrow> answered prx realm q) \<and> ca_stale_cnt (cs_cached s ! i) \<le> ca_stale_cnt ca \<or>
         ca_stale_cnt ca = ca_stale_cnt (cs_cached s ! i) + 1 \<and> ca_stale_cnt (cs_cached s ! i) < 2" "res \<noteq> Inl PJ_SUCCESS"
    using process_tries [OF c _ x] True b by blast
  note st = stale_update [OF si(2) p(3,4)]
  let ?s' = "s\<lparr>cs_cached := (cs_cached s)[i := ca]\<rparr>"
  have ok': "clt_ok ?s'" using si(3) p(2) by (auto simp: clt_ok_def list_all_iff dest: set_update_subset_insert [THEN subsetD])
  have one: "reinit_one cb uniq hchal r = Some (case res of
      Inl status \<Rightarrow> r\<lparr>ar_chal_cnt := ar_chal_cnt r + 1, ar_sess := ?s', ar_req := q, ar_last_err := status\<rparr>
    | Inr h \<Rightarrow> r\<lparr>ar_chal_cnt := ar_chal_cnt r + 1, ar_sess := ?s', ar_req := q\<lparr>rq_hdrs := rq_hdrs q @ [Auth_hdr h]\<rparr>, ar_auth_cnt := ar_auth_cnt r + 1\<rparr>)"
    using True si(1) p(1) by (cases "find_cached_auth ?s ?x ?md5"; cases res) (simp_all add: reinit_one_def iana_iff Let_def)
  show ?thesis
  proof (cases res)
    case (Inl status)
    then show ?thesis using one ok' p(6,7) st si(4) by (auto simp: tries_left_def)
  next
    case (Inr h)
    then show ?thesis using one ok' p(6) st si(4) by (auto simp: tries_left_def)
  qed
qed

lemma reinit_loop_tries:
  assumes "clt_ok (ar_sess r)" "\<And>hchal. Some hchal \<in> set hs \<Longrightarrow> for_realm prx realm hchal"
  shows "\<exists>r'. reinit_loop cb uniq hs r = Some r' \<and> clt_ok (ar_sess r') \<and> (ar_last_err r \<noteq> PJ_SUCCESS \<longrightarrow> ar_last_err r' \<noteq> PJ_SUCCESS) \<and>
    tries_left prx realm (ar_sess r') (ar_req r') + ar_auth_cnt r' \<le> tries_left prx realm (ar_sess r) (ar_req r) + ar_auth_cnt r"
  using assms
proof (induction cb uniq hs r rule: reinit_loop.induct)
  case (3 cb uniq hchal hs r)
  obtain r1 where r1: "reinit_one cb (uniq (length hs)) hchal r = Some r1" "clt_ok (ar_sess r1)" "ar_last_err r \<noteq> PJ_SUCCESS \<longrightarrow> ar_last_err r1 \<noteq> PJ_SUCCESS"
    "tries_left prx realm (ar_sess r1) (ar_req r1) + ar_auth_cnt r1 \<le> tries_left prx realm (ar_sess r) (ar_req r) + ar_auth_cnt r"
    using reinit_one_tries [OF "3.prems"(1), of prx realm hchal] "3.prems"(2) by fastforce
  then show ?case using "3.IH" [OF r1(1,2)] "3.prems"(2) by fastforce
qed auto

text \<open>How often a request is sent again when the peer answers it with the given responses.\<close>

fun auth_retries :: "aka_cb \<Rightarrow> (nat \<Rightarrow> u8 list) \<Rightarrow> (int \<times> pjsip_www_authenticate_hdr option list) list \<Rightarrow> auth_req \<Rightarrow> pjsip_auth_clt_sess \<Rightarrow> nat" where
  "auth_retries cb uniq [] req sess = 0"
| "auth_retries cb uniq ((code, hdrs) # rs) req sess =
     (case pjsip_auth_clt_reinit_req cb uniq code hdrs req sess of
        Some (sess', req', PJ_SUCCESS) \<Rightarrow> Suc (auth_retries cb uniq rs req' sess')
      | _ \<Rightarrow> 0)"

lemma retries_left:
  assumes "clt_ok sess" "\<And>code hdrs hchal. (code, hdrs) \<in> set rs \<Longrightarrow> Some hchal \<in> set hdrs \<Longrightarrow> for_realm prx realm hchal"
  shows "auth_retries cb uniq rs req sess \<le> tries_left prx realm sess req"
  using assms
proof (induction rs arbitrary: req sess)
  case (Cons x rs)
  obtain code hdrs where x: "x = (code, hdrs)" by fastforce
  let ?r = "\<lparr>ar_sess = sess, ar_req = req, ar_chal_cnt = 0, ar_auth_cnt = 0, ar_last_err = PJSIP_EAUTHNOAUTH\<rparr>"
  obtain r where r: "reinit_loop cb uniq hdrs ?r = Some r" "clt_ok (ar_sess r)" "ar_last_err r \<noteq> PJ_SUCCESS"
    "tries_left prx realm (ar_sess r) (ar_req r) + ar_auth_cnt r \<le> tries_left prx realm sess req"
    using reinit_loop_tries [of ?r hdrs prx realm cb uniq] Cons.prems x by (fastforce simp: auth_status_defs)
  have "auth_retries cb uniq rs (ar_req r) (ar_sess r) \<le> tries_left prx realm (ar_sess r) (ar_req r)"
    using Cons.IH [OF r(2)] Cons.prems(2) by fastforce
  then have *: "Suc (auth_retries cb uniq rs (ar_req r) (ar_sess r)) \<le> tries_left prx realm sess req" if "ar_auth_cnt r \<noteq> 0"
    using r(4) that by linarith
  show ?case
  proof (cases "code = 401 \<or> code = 407")
    case True
    then have "pjsip_auth_clt_reinit_req cb uniq code hdrs req sess = Some (ar_sess r, ar_req r,
        if ar_chal_cnt r = 0 then PJSIP_EAUTHNOCHAL else if ar_auth_cnt r = 0 then ar_last_err r else PJ_SUCCESS)"
      using r(1) by (simp add: pjsip_auth_clt_reinit_req_def)
    then show ?thesis using x r(3) * by (auto simp: auth_status_defs split: pj_status.split)
  next
    case False
    then show ?thesis using x by (simp add: pjsip_auth_clt_reinit_req_def auth_status_defs)
  qed
qed simp

lemma find_auth_map:
  "(\<And>a. ca_realm (f a) = ca_realm a \<and> ca_alg (f a) = ca_alg a) \<Longrightarrow> find_auth realm ty (map f as) = find_auth realm ty as"
  by (induction as) simp_all

lemma init_req_fresh:
  assumes "pjsip_auth_clt_init_req tdata sess = (sess', req, st)" "clt_ok sess"
  shows "clt_ok sess'" "stale_of realm (cs_cached sess') = 0"
proof -
  let ?f = "\<lambda>a. a\<lparr>ca_stale_cnt := 0\<rparr>"
  have s: "sess' = sess\<lparr>cs_cached := map ?f (cs_cached sess)\<rparr>"
    using assms(1) by (auto simp: pjsip_auth_clt_init_req_def Let_def split: if_splits option.splits)
  show "clt_ok sess'" using assms(2) unfolding s by (simp add: clt_ok_def list_all_iff cached_ok_def)
  show "stale_of realm (cs_cached sess') = 0"
    unfolding s stale_of_def using find_auth_map [of ?f realm PJSIP_AUTH_ALGORITHM_MD5 "cs_cached sess"] find_auth_bound [of realm PJSIP_AUTH_ALGORITHM_MD5 "cs_cached sess"]
    by (simp split: option.split)
qed

section \<open>Nonce counts\<close>

text \<open>The pairs of nonce and nonce count that a cached session uses for a sequence of challenges with quality of protection.\<close>

fun nonce_counts :: "u8 list \<Rightarrow> pjsip_www_authenticate_hdr list \<Rightarrow> pjsip_cached_auth \<Rightarrow> (u8 list \<times> u32) list" where
  "nonce_counts uniq [] ca = []"
| "nonce_counts uniq (h # hs) ca =
     (case update_digest_session uniq h ca of
        None \<Rightarrow> []
      | Some ca' \<Rightarrow> (ch_nonce (wa_chal h), ca_nc ca') # nonce_counts uniq hs ca')"

lemma update_nonce:
  assumes "update_digest_session uniq h ca = Some ca'" "ch_qop (wa_chal h) \<noteq> []" "\<exists>c \<in> set uniq. c \<noteq> 45" "cached_ok ca"
  shows "ca_cnonce ca' \<noteq> [] \<and> map_option (ch_nonce \<circ> wa_chal) (ca_last_chal ca') = Some (ch_nonce (wa_chal h)) \<and> cached_ok ca' \<and>
    (ca_cnonce ca \<noteq> [] \<longrightarrow> map_option (ch_nonce \<circ> wa_chal) (ca_last_chal ca) = Some (ch_nonce (wa_chal h)) \<longrightarrow> ca_nc ca' = ca_nc ca + 1)"
  using assms by (auto simp: update_digest_session_def cached_ok_def filter_empty_conv split: if_splits option.splits)

lemma nonce_counts_length:
  assumes "cached_ok ca"
  shows "length (nonce_counts uniq hs ca) = length hs"
  using assms
proof (induction hs arbitrary: ca)
  case (Cons h hs)
  obtain ca' where "update_digest_session uniq h ca = Some ca'" "cached_ok ca'" using update_session_ok [OF Cons.prems] by blast
  then show ?case using Cons.IH by simp
qed simp

lemma nonce_counts_step:
  assumes "cached_ok ca" "\<forall>h \<in> set hs. ch_qop (wa_chal h) \<noteq> []" "\<exists>c \<in> set uniq. c \<noteq> 45" "Suc k < length hs"
    "ch_nonce (wa_chal (hs ! Suc k)) = ch_nonce (wa_chal (hs ! k))"
  shows "snd (nonce_counts uniq hs ca ! Suc k) = snd (nonce_counts uniq hs ca ! k) + 1"
  using assms
proof (induction hs arbitrary: ca k)
  case (Cons h hs)
  obtain ca1 where u: "update_digest_session uniq h ca = Some ca1" using update_session_ok [OF Cons.prems(1)] by blast
  have n: "ca_cnonce ca1 \<noteq> [] \<and> map_option (ch_nonce \<circ> wa_chal) (ca_last_chal ca1) = Some (ch_nonce (wa_chal h)) \<and> cached_ok ca1"
    using update_nonce [OF u _ Cons.prems(3,1)] Cons.prems(2) by simp
  show ?case
  proof (cases k)
    case 0
    then obtain h2 hs2 where h2: "hs = h2 # hs2" using Cons.prems(4) by (cases hs) auto
    obtain ca2 where u2: "update_digest_session uniq h2 ca1 = Some ca2" using update_session_ok [of ca1] n by blast
    have "ca_nc ca2 = ca_nc ca1 + 1" using update_nonce [OF u2 _ Cons.prems(3)] n Cons.prems(2,5) 0 h2 by simp
    then show ?thesis using 0 h2 u u2 by simp
  next
    case (Suc k')
    then show ?thesis using Cons.IH [of ca1 k'] Cons.prems n u by simp
  qed
qed simp

lemma nonce_counts_run:
  assumes "cached_ok ca" "\<forall>h \<in> set hs. ch_qop (wa_chal h) \<noteq> []" "\<exists>c \<in> set uniq. c \<noteq> 45" "i + d < length hs"
    "\<forall>k. i \<le> k \<and> k \<le> i + d \<longrightarrow> ch_nonce (wa_chal (hs ! k)) = nonce"
  shows "snd (nonce_counts uniq hs ca ! (i + d)) = snd (nonce_counts uniq hs ca ! i) + of_nat d"
  using assms(4,5)
proof (induction d)
  case (Suc d)
  have "snd (nonce_counts uniq hs ca ! Suc (i + d)) = snd (nonce_counts uniq hs ca ! (i + d)) + 1"
    using Suc.prems by (intro nonce_counts_step [OF assms(1-3)]) auto
  then show ?case using Suc by simp
qed simp

section \<open>Properties\<close>


text \<open>C14: A client that is challenged by a server, whatever the nonce, with or without quality of protection, and that has the
  password of the user answers the challenge, and the server accepts the request that the client sends again.\<close>

theorem sip_digest_login_accepted:
  assumes "pjsip_auth_srv_challenge rnd srv qop nonce opaque stale = Inr chal" "qop = None \<or> qop = Some [] \<or> has_auth_qop (the qop)" "clt_ok sess"
    "auth_find_cred sess (sv_realm srv) PJSIP_AUTH_ALGORITHM_MD5 = Some c" "ci_data_type c = PJSIP_CRED_DATA_PLAIN_PASSWD"
    "\<And>req h. dc_username (ah_cred h) = ci_user c \<Longrightarrow> lookup_cred srv req h = Inr sc" "ci_data_type sc = PJSIP_CRED_DATA_PLAIN_PASSWD" "ci_user sc = ci_user c"
    "ci_data sc = ci_data c" "ci_cred_realm sc = sv_realm srv" "rq_uri req = Some uri" "find_authorization srv (rq_hdrs req) = None"
    "code = 401 \<or> code = 407"
  shows "\<exists>sess' req'. pjsip_auth_clt_reinit_req cb uniq code [Some chal] req sess = Some (sess', req', PJ_SUCCESS) \<and>
    rq_method req' = rq_method req \<and> pjsip_auth_srv_verify srv req' = (PJ_SUCCESS, 200)"
  using assms by (rule login_helper)


text \<open>C17: As long as the server stays with a nonce, the nonce count of the answers goes up by one each time, so that fewer than
  \<open>2 ^ 32\<close> answers never use a pair of nonce and count twice.\<close>

theorem sip_nonce_count_advances:
  assumes "cached_ok ca" "\<forall>h \<in> set hs. ch_qop (wa_chal h) \<noteq> []" "\<exists>c \<in> set uniq. c \<noteq> 45" "i < j" "j < length hs" "j - i < 2 ^ 32"
    "\<forall>k. i \<le> k \<and> k \<le> j \<longrightarrow> ch_nonce (wa_chal (hs ! k)) = nonce"
  shows "length (nonce_counts uniq hs ca) = length hs \<and>
    snd (nonce_counts uniq hs ca ! j) = snd (nonce_counts uniq hs ca ! i) + of_nat (j - i) \<and>
    snd (nonce_counts uniq hs ca ! j) \<noteq> snd (nonce_counts uniq hs ca ! i)"
proof -
  have e: "snd (nonce_counts uniq hs ca ! j) = snd (nonce_counts uniq hs ca ! i) + of_nat (j - i)"
    using nonce_counts_run [OF assms(1-3), of i "j - i" nonce] assms(4,5,7) by simp
  have "(of_nat d :: u32) \<noteq> 0" if "0 < d" "d < 2 ^ 32" for d :: nat
  proof -
    have "unat (of_nat d :: u32) = d" using that(2) by (simp add: unat_of_nat)
    then show ?thesis using that(1) by auto
  qed
  from this [of "j - i"] assms(4,6) have "(of_nat (j - i) :: u32) \<noteq> 0" by simp
  then show ?thesis using e nonce_counts_length [OF assms(1)] by simp
qed

text \<open>The server's answer to an algorithm it does not know is an error with the status code 200.\<close>

theorem sip_auth_unknown_algorithm:
  assumes "find_authorization srv (rq_hdrs req) = Some h" "stricmp_eq (ah_scheme h) pjsip_DIGEST_STR" "\<not> names_md5 (dc_algorithm (ah_cred h))"
  shows "pjsip_auth_srv_verify srv req = (PJSIP_EINVALIDALGORITHM, 200)"
  using assms by (simp add: pjsip_auth_srv_verify_def iana_iff)

text \<open>A token whose functions leave it alone can be used once: after it has been sent, abandoned or not been taken by the
  application, it is refused.\<close>

lemma sip_auth_token_used_once:
  assumes "pjsip_auth_clt_async_send_req send tk s = (tk', st, True) \<or> pjsip_auth_clt_async_abandon id tk = (tk', PJ_SUCCESS, x) \<or>
    pjsip_auth_clt_async_impl_on_challenge cb tk s = (tk', PJ_EIGNORED)"
  shows "snd (snd (pjsip_auth_clt_async_send_req send' tk' s')) = False \<and> fst (snd (pjsip_auth_clt_async_abandon ab tk')) = PJ_EINVAL"
  using assms
  by (auto simp: pjsip_auth_clt_async_send_req_def pjsip_auth_clt_async_abandon_def pjsip_auth_clt_async_impl_on_challenge_def Let_def
      PJ_EIGNORED_def split: if_splits prod.splits)

text \<open>Whether every session that is a parent has the lock that its children take.\<close>

fun parents_locked :: "auth_clt \<Rightarrow> bool" where
  "parents_locked (Own_sess _) = True"
| "parents_locked (Child_sess _ parent) = (cs_lock (own_sess parent) \<and> parents_locked parent)"

lemma upd_own_keeps: "own_sess (upd_own f s) = f (own_sess s)" "parents_locked (upd_own f s) = parents_locked s"
  by (cases s; simp)+

lemma set_parent_locked:
  assumes "parents_locked s" "\<And>p. parent = Some p \<Longrightarrow> parents_locked p"
  shows "parents_locked (fst (pjsip_auth_clt_set_parent locked parent s))"
  using assms by (cases parent) (auto simp: pjsip_auth_clt_set_parent_def upd_own_keeps)

lemma clone_unlocked: "\<not> cs_lock (own_sess (pjsip_auth_clt_clone junk s))"
  by (cases s) (simp_all add: clone_own_def pjsip_auth_clt_init_def)

text \<open>Giving a session a parent keeps the rule that every parent has a lock; the copy of a session with a parent breaks it: the
  copy of the parent is without the lock that every operation on the copy takes.\<close>

theorem sip_auth_clone_unlocked:
  assumes "parents_locked s" "parents_locked p" "pjsip_auth_clt_set_parent PJ_SUCCESS (Some p) s = (child, st)"
  shows "st = PJ_SUCCESS \<and> parents_locked child \<and> \<not> parents_locked (pjsip_auth_clt_clone junk child)"
  using assms set_parent_locked [OF assms(1), of "Some p" PJ_SUCCESS]
  by (auto simp: pjsip_auth_clt_set_parent_def clone_unlocked upd_own_keeps)

theorem sip_auth_clone_unlocked_witness:
  "\<not> parents_locked (pjsip_auth_clt_clone (\<lambda>_. PJSIP_AUTH_ALGORITHM_MD5)
      (fst (pjsip_auth_clt_set_parent PJ_SUCCESS (Some (Own_sess pjsip_auth_clt_init)) (Own_sess pjsip_auth_clt_init))))"
  using sip_auth_clone_unlocked [OF _ _ surjective_pairing, of "Own_sess pjsip_auth_clt_init" "Own_sess pjsip_auth_clt_init"] by simp

text \<open>The nonce count is printed in decimal: the tenth count is the string that RFC 2617 reads as sixteen.\<close>

theorem sip_nonce_count_decimal: "print_nc 10 = [48, 48, 48, 48, 48, 48, 49, 48]"
  by code_simp

text \<open>Credentials that are refused replace those of the session by memory that was never written.\<close>

theorem sip_refused_credentials_replace:
  assumes "PJSIP_CRED_DATA_IS_AKA aka" "cs_cred sess = [a, b]"
  shows "pjsip_auth_clt_set_credentials [x, y] [aka] sess = (sess\<lparr>cs_cred := [x\<lparr>ci_data_type := ci_data_type aka\<rparr>, y]\<rparr>, PJSIP_EAUTHINAKACRED)"
  using assms by (simp add: pjsip_auth_clt_set_credentials_def numeral_2_eq_2)

section \<open>Witnesses\<close>

definition demo_cred :: "u8 list \<Rightarrow> pjsip_cred_info" where
  "demo_cred realm = \<lparr>ci_cred_realm = realm, ci_scheme = pjsip_DIGEST_STR, ci_user = [117], ci_data_type = 0, ci_data = [112, 119],
     ci_algorithm = PJSIP_AUTH_ALGORITHM_NOT_SET, ci_aka_k = [], ci_aka_op = [], ci_aka_amf = [], ci_has_cb = False\<rparr>"

definition demo_srv :: pjsip_auth_srv where
  "demo_srv = pjsip_auth_srv_init [114] (\<lambda>realm u. if u = [117] then Inr (demo_cred realm) else Inl PJ_ENOTFOUND) False"

definition demo_sess :: pjsip_auth_clt_sess where
  "demo_sess = fst (pjsip_auth_clt_set_credentials [] [demo_cred [42]] pjsip_auth_clt_init)"

definition demo_auth_req :: auth_req where
  "demo_auth_req = \<lparr>rq_method = [66, 89, 69], rq_uri = Some [115], rq_hdrs = [Other_hdr 1]\<rparr>"

lemma demo_auth_facts:
  "demo_sess = \<lparr>cs_initial_auth = False, cs_pref_algorithm = [], cs_cred = [demo_cred [42]], cs_cached = [], cs_lock = False, cs_async = False\<rparr>" "clt_ok demo_sess"
  "auth_find_cred demo_sess (sv_realm demo_srv) PJSIP_AUTH_ALGORITHM_MD5 = Some (demo_cred [42])"
proof -
  show s: "demo_sess = \<lparr>cs_initial_auth = False, cs_pref_algorithm = [], cs_cred = [demo_cred [42]], cs_cached = [], cs_lock = False, cs_async = False\<rparr>"
    by (simp add: demo_sess_def pjsip_auth_clt_set_credentials_def pjsip_auth_clt_init_def demo_cred_def default_alg_def
        PJSIP_CRED_DATA_IS_AKA_def PJSIP_CRED_DATA_IS_DIGEST_def PJSIP_CRED_DATA_EXT_AKA_def PJSIP_CRED_DATA_DIGEST_def)
  show "clt_ok demo_sess" by (simp add: s clt_ok_def demo_cred_def PJSIP_CRED_DATA_IS_AKA_def PJSIP_CRED_DATA_EXT_AKA_def)
  show "auth_find_cred demo_sess (sv_realm demo_srv) PJSIP_AUTH_ALGORITHM_MD5 = Some (demo_cred [42])"
    by (simp add: s demo_srv_def pjsip_auth_srv_init_def auth_find_cred_def cred_usable_def is_aka_alg_def demo_cred_def PJSIP_CRED_DATA_PLAIN_PASSWD_def
        stricmp_eq_def numeral_eq_Suc)
qed

theorem sip_digest_login_accepted_witness:
  "\<exists>chal sess' req'. pjsip_auth_srv_challenge (\<lambda>_. [1, 2]) demo_srv (Some pjsip_AUTH_STR) None None False = Inr chal \<and>
     pjsip_auth_clt_reinit_req (\<lambda>_ _ _ c. (PJ_SUCCESS, c)) (\<lambda>_. [65]) 401 [Some chal] demo_auth_req demo_sess = Some (sess', req', PJ_SUCCESS) \<and>
     pjsip_auth_srv_verify demo_srv req' = (PJ_SUCCESS, 200)"
proof -
  obtain chal where c: "pjsip_auth_srv_challenge (\<lambda>_. [1, 2]) demo_srv (Some pjsip_AUTH_STR) None None False = Inr chal"
    by (simp add: pjsip_auth_srv_challenge_def pjsip_auth_srv_challenge2_def)
  have q: "has_auth_qop (the (Some pjsip_AUTH_STR))" by code_simp
  have l: "dc_username (ah_cred h) = ci_user (demo_cred [42]) \<Longrightarrow> lookup_cred demo_srv req h = Inr (demo_cred (sv_realm demo_srv))" for req h
    by (simp add: lookup_cred_def demo_srv_def pjsip_auth_srv_init_def demo_cred_def)
  from sip_digest_login_accepted [OF c _ demo_auth_facts(2,3) _ l, of demo_auth_req "[115]" 401 "\<lambda>_ _ _ c. (PJ_SUCCESS, c)" "\<lambda>_. [65]"] q c
  show ?thesis by (auto simp: demo_cred_def demo_auth_req_def PJSIP_CRED_DATA_PLAIN_PASSWD_def)
qed


definition demo_chal :: pjsip_www_authenticate_hdr where
  "demo_chal = projr (pjsip_auth_srv_challenge (\<lambda>_. [1, 2]) demo_srv (Some pjsip_AUTH_STR) None None True)"


theorem sip_nonce_count_advances_witness:
  "\<exists>h ca. snd (nonce_counts [65] [h, h] ca ! 1) = snd (nonce_counts [65] [h, h] ca ! 0) + 1"
proof -
  let ?h = "\<lparr>wa_is_proxy = False, wa_scheme = [], wa_chal = \<lparr>ch_realm = [], ch_domain = [], ch_nonce = [1], ch_opaque = [], ch_stale = False,
    ch_algorithm = [], ch_qop = pjsip_AUTH_STR\<rparr>\<rparr>"
  have n: "\<forall>k. 0 \<le> k \<and> k \<le> 1 \<longrightarrow> ch_nonce (wa_chal ([?h, ?h] ! k)) = [1]" by (auto simp: nth_Cons split: nat.split)
  have "cached_ok (new_cached ?h PJSIP_AUTH_ALGORITHM_MD5)" by (simp add: cached_ok_def new_cached_def)
  from sip_nonce_count_advances [OF this _ _ _ _ _ n, of "[65]"] show ?thesis by (auto simp: pjsip_AUTH_STR_def)
qed

theorem sip_auth_unknown_algorithm_witness:
  "\<exists>req. pjsip_auth_srv_verify demo_srv req = (PJSIP_EINVALIDALGORITHM, 200)"
proof -
  let ?h = "\<lparr>ah_is_proxy = False, ah_scheme = pjsip_DIGEST_STR, ah_cred = empty_credential\<lparr>dc_realm := [114], dc_algorithm := [88]\<rparr>\<rparr>"
  have "find_authorization demo_srv (rq_hdrs \<lparr>rq_method = [], rq_uri = None, rq_hdrs = [Auth_hdr ?h]\<rparr>) = Some ?h"
    by (simp add: demo_srv_def pjsip_auth_srv_init_def stricmp_refl)
  from sip_auth_unknown_algorithm [OF this] show ?thesis by (auto simp: stricmp_refl names_md5_def stricmp_eq_def)
qed

theorem sip_refused_credentials_replace_witness:
  "snd (pjsip_auth_clt_set_credentials [demo_cred [1], demo_cred [2]] [(demo_cred [3])\<lparr>ci_data_type := 16\<rparr>]
     (pjsip_auth_clt_init\<lparr>cs_cred := [demo_cred [4], demo_cred [5]]\<rparr>)) = PJSIP_EAUTHINAKACRED"
  using sip_refused_credentials_replace [of "(demo_cred [3])\<lparr>ci_data_type := 16\<rparr>" "pjsip_auth_clt_init\<lparr>cs_cred := [demo_cred [4], demo_cred [5]]\<rparr>"
      "demo_cred [4]" "demo_cred [5]"] by (simp add: PJSIP_CRED_DATA_IS_AKA_def PJSIP_CRED_DATA_EXT_AKA_def)

end
