(* ===== verification/Hmac_Md5.thy ===== *)
theory Hmac_Md5
  imports Md5 Sha1
begin

text \<open>
  HMAC-MD5 of \<^verbatim>\<open>pjlib-util/src/pjlib-util/hmac_md5.c\<close> on top of theory \<^verbatim>\<open>Md5\<close>, and that it is the HMAC of
  RFC 2104 over the digest of RFC 1321.  As in \<^verbatim>\<open>Sha1\<close>, \<open>tbuf\<close> and \<open>buf\<close> are what the buffers of the two
  contexts hold before.
\<close>

unbundle bit_operations_syntax

section \<open>The code\<close>

record pj_hmac_md5_context =
  h5_context :: pj_md5_context
  h5_k_opad :: "u8 list"

definition pj_hmac_md5_init :: "u8 list \<Rightarrow> u8 list \<Rightarrow> u8 list \<Rightarrow> pj_hmac_md5_context" where
  "pj_hmac_md5_init tbuf buf key =
     (let key = (if length key > 64 then snd (pj_md5_final (pj_md5_update (pj_md5_init tbuf) key)) else key);
          k_ipad = map (\<lambda>b. b XOR 0x36) (key @ replicate (64 - length key) 0);
          k_opad = map (\<lambda>b. b XOR 0x5c) (key @ replicate (64 - length key) 0) in
      \<lparr>h5_context = pj_md5_update (pj_md5_init buf) k_ipad, h5_k_opad = k_opad\<rparr>)"

definition pj_hmac_md5_update :: "pj_hmac_md5_context \<Rightarrow> u8 list \<Rightarrow> pj_hmac_md5_context" where
  "pj_hmac_md5_update hctx input = hctx\<lparr>h5_context := pj_md5_update (h5_context hctx) input\<rparr>"

definition pj_hmac_md5_final :: "pj_hmac_md5_context \<Rightarrow> pj_hmac_md5_context \<times> u8 list" where
  "pj_hmac_md5_final hctx =
     (let (ctx, digest) = pj_md5_final (h5_context hctx);
          ctx = pj_md5_init (m5_in ctx);
          ctx = pj_md5_update ctx (h5_k_opad hctx);
          ctx = pj_md5_update ctx digest;
          (ctx, digest) = pj_md5_final ctx in
      (hctx\<lparr>h5_context := ctx\<rparr>, digest))"

definition pj_hmac_md5 :: "u8 list \<Rightarrow> u8 list \<Rightarrow> u8 list \<Rightarrow> u8 list \<Rightarrow> u8 list" where
  "pj_hmac_md5 tbuf buf input key = snd (pj_hmac_md5_final (pj_hmac_md5_update (pj_hmac_md5_init tbuf buf key) input))"

section \<open>The standard\<close>

definition rfc_hmac_md5 :: "u8 list \<Rightarrow> u8 list \<Rightarrow> u8 list" where
  "rfc_hmac_md5 key text =
     (let k = (if length key > 64 then rfc_md5 key else key) in
      rfc_md5 (hmac_pad 0x5c k @ rfc_md5 (hmac_pad 0x36 k @ text)))"

section \<open>The digest\<close>

lemma md5_length: "length (rfc_md5 m) = 16"
  by (simp add: rfc_md5_def md5_digest_def put_le32_def split: prod.split)

definition hmac_md5_key :: "u8 list \<Rightarrow> u8 list" where
  "hmac_md5_key key = (if length key > 64 then rfc_md5 key else key)"

definition hmac_md5_rep :: "u8 list \<Rightarrow> u8 list \<Rightarrow> pj_hmac_md5_context \<Rightarrow> bool" where
  "hmac_md5_rep key d hctx \<longleftrightarrow> md5_rep (hmac_pad 0x36 (hmac_md5_key key) @ d) (h5_context hctx) \<and> h5_k_opad hctx = hmac_pad 0x5c (hmac_md5_key key)"

lemma hmac_md5_key_pad: "length (hmac_pad x (hmac_md5_key key)) = 64"
  by (rule hmac_pad_length) (simp add: hmac_md5_key_def md5_length)

lemma md5_feed_short: "md5_rep e c \<Longrightarrow> length f \<le> 64 \<Longrightarrow> md5_rep (e @ f) (pj_md5_update c f)"
  by (rule md5_update_rep) auto

lemma hmac_md5_init_rep:
  assumes "length tbuf = 64" "length buf = 64" "length key < 2 ^ 32"
  shows "hmac_md5_rep key [] (pj_hmac_md5_init tbuf buf key)"
proof -
  have "snd (pj_md5_final (pj_md5_update (pj_md5_init tbuf) key)) = rfc_md5 key" using assms by (intro md5_stream.one_piece) auto
  moreover have "md5_rep (hmac_pad 0x36 (hmac_md5_key key)) (pj_md5_update (pj_md5_init buf) (hmac_pad 0x36 (hmac_md5_key key)))"
    using md5_feed_short [OF md5_init_rep [OF assms(2)], of "hmac_pad 0x36 (hmac_md5_key key)"] by (simp add: hmac_md5_key_pad)
  ultimately show ?thesis
    by (cases "64 < length key") (simp_all add: hmac_md5_rep_def pj_hmac_md5_init_def hmac_md5_key_def hmac_pad_def Let_def)
qed

lemma hmac_md5_final_rep:
  assumes "hmac_md5_rep key d hctx"
  shows "snd (pj_hmac_md5_final hctx) = rfc_hmac_md5 key d"
proof -
  let ?k = "hmac_md5_key key" and ?c = "h5_context hctx"
  have f: "snd (pj_md5_final ?c) = rfc_md5 (hmac_pad 0x36 ?k @ d)" using assms by (auto simp: hmac_md5_rep_def intro: md5_final_rep)
  have b: "length (m5_in (fst (pj_md5_final ?c))) = 64" by (simp add: pj_md5_final_def Let_def split: prod.split)
  have "md5_rep (hmac_pad 0x5c ?k @ rfc_md5 m)
      (pj_md5_update (pj_md5_update (pj_md5_init (m5_in (fst (pj_md5_final ?c)))) (hmac_pad 0x5c ?k)) (rfc_md5 m))" for m
    using md5_feed_short [OF md5_feed_short [OF md5_init_rep [OF b], of "hmac_pad 0x5c ?k"], of "rfc_md5 m"]
    by (simp add: hmac_md5_key_pad md5_length)
  note g = md5_final_rep [OF this]
  have "h5_k_opad hctx = hmac_pad 0x5c ?k" using assms by (simp add: hmac_md5_rep_def)
  moreover have "rfc_hmac_md5 key d = rfc_md5 (hmac_pad 0x5c ?k @ rfc_md5 (hmac_pad 0x36 ?k @ d))" by (simp add: rfc_hmac_md5_def hmac_md5_key_def Let_def)
  ultimately show ?thesis using f g by (simp add: pj_hmac_md5_final_def case_prod_beta Let_def)
qed

lemma hmac_md5_feed_rep: "hmac_md5_rep key d hctx \<Longrightarrow> length e < 2 ^ 32 \<Longrightarrow> hmac_md5_rep key (d @ e) (pj_hmac_md5_update hctx e)"
  using md5_update_rep [of "hmac_pad 0x36 (hmac_md5_key key) @ d" "h5_context hctx" e] by (simp add: hmac_md5_rep_def pj_hmac_md5_update_def)

interpretation hmac_md5_stream: stream_digest "{pj_hmac_md5_init tbuf buf key | tbuf buf. length tbuf = 64 \<and> length buf = 64 \<and> length key < 2 ^ 32}"
  pj_hmac_md5_update "\<lambda>hctx. snd (pj_hmac_md5_final hctx)" "hmac_md5_rep key" "\<lambda>e. length e < 2 ^ 32" "rfc_hmac_md5 key" for key
  by unfold_locales (auto intro: hmac_md5_init_rep hmac_md5_final_rep hmac_md5_feed_rep)

section \<open>Properties\<close>

text \<open>The HMAC of the code, whole or in pieces, is the one of RFC 2104 over MD5.\<close>

theorem hmac_md5_is_rfc:
  assumes "length tbuf = 64" "length buf = 64" "length key < 2 ^ 32" "\<forall>data \<in> set chunks. length data < 2 ^ 32"
  shows "snd (pj_hmac_md5_final (foldl pj_hmac_md5_update (pj_hmac_md5_init tbuf buf key) chunks)) = rfc_hmac_md5 key (concat chunks)"
  using assms by (intro hmac_md5_stream.streaming) (auto simp: list_all_iff)

theorem hmac_md5_is_rfc_witness:
  "snd (pj_hmac_md5_final (foldl pj_hmac_md5_update (pj_hmac_md5_init (replicate 64 1) (replicate 64 2) [1, 2, 3]) [[4], [5, 6]])) =
   rfc_hmac_md5 [1, 2, 3] [4, 5, 6]"
  using hmac_md5_is_rfc [of "replicate 64 1" "replicate 64 2" "[1, 2, 3]" "[[4], [5, 6]]"] by simp

end
