(* ===== verification/Base64.thy ===== *)
theory Base64
  imports Pj_Prelude
begin

text \<open>
  Base64 of \<^verbatim>\<open>pjlib-util/src/pjlib-util/base64.c\<close>, with both alphabets.  The bytes of the output
  buffer that are written are a result; sizes are those of buffers below \<open>2 ^ 29\<close> bytes, where the
  multiplications of the size macros do not overflow.  A \<^verbatim>\<open>char\<close> is its byte, an \<^verbatim>\<open>int\<close> of the decoder a
  32-bit pattern, so that \<^verbatim>\<open>INV\<close> has all bits set.
\<close>

unbundle bit_operations_syntax

section \<open>The alphabets\<close>

definition INV :: u32 where "INV = -1"
definition PADDING :: u8 where "PADDING = 61"

definition base64_char :: "u8 list" where
  "base64_char = [65, 66, 67, 68, 69, 70, 71, 72, 73, 74, 75, 76, 77, 78, 79, 80, 81, 82, 83, 84, 85, 86, 87, 88, 89, 90,
     97, 98, 99, 100, 101, 102, 103, 104, 105, 106, 107, 108, 109, 110, 111, 112, 113, 114, 115, 116, 117, 118, 119, 120, 121, 122,
     48, 49, 50, 51, 52, 53, 54, 55, 56, 57, 43, 47]"

definition base64url_char :: "u8 list" where
  "base64url_char = [65, 66, 67, 68, 69, 70, 71, 72, 73, 74, 75, 76, 77, 78, 79, 80, 81, 82, 83, 84, 85, 86, 87, 88, 89, 90,
     97, 98, 99, 100, 101, 102, 103, 104, 105, 106, 107, 108, 109, 110, 111, 112, 113, 114, 115, 116, 117, 118, 119, 120, 121, 122,
     48, 49, 50, 51, 52, 53, 54, 55, 56, 57, 45, 95]"

definition base256_char :: "u8 \<Rightarrow> bool \<Rightarrow> u32" where
  "base256_char c url =
     (if 65 \<le> c \<and> c \<le> 90 then ucast c - 65
      else if 97 \<le> c \<and> c \<le> 122 then ucast c - 97 + 26
      else if 48 \<le> c \<and> c \<le> 57 then ucast c - 48 + 52
      else if \<not> url \<and> c = 43 \<or> url \<and> c = 45 then 62
      else if \<not> url \<and> c = 47 \<or> url \<and> c = 95 then 63
      else INV)"

section \<open>Encoding\<close>

definition PJ_BASE256_TO_BASE64_LEN :: "nat \<Rightarrow> nat" where
  "PJ_BASE256_TO_BASE64_LEN n = n * 4 div 3 + 3"

definition PJ_BASE64_TO_BASE256_LEN :: "nat \<Rightarrow> nat" where
  "PJ_BASE64_TO_BASE256_LEN n = n * 3 div 4"

definition b64_letter :: "bool \<Rightarrow> u8 \<Rightarrow> u8" where
  "b64_letter url i = (if url then base64url_char else base64_char) ! unat i"

definition base256to64 :: "u8 \<Rightarrow> u8 \<Rightarrow> u8 \<Rightarrow> nat \<Rightarrow> bool \<Rightarrow> u8 list" where
  "base256to64 c1 c2 c3 pad url =
     [b64_letter url (drop_bit 2 c1), b64_letter url (push_bit 4 (c1 AND 0x3) OR drop_bit 4 (c2 AND 0xF0))] @
     (if pad = 0 then [b64_letter url (push_bit 2 (c2 AND 0xF) OR drop_bit 6 (c3 AND 0xC0)), b64_letter url (c3 AND 0x3F)]
      else if pad = 1 then [b64_letter url (push_bit 2 (c2 AND 0xF) OR drop_bit 6 (c3 AND 0xC0)), PADDING]
      else [PADDING, PADDING])"

fun encode_loop :: "bool \<Rightarrow> u8 list \<Rightarrow> u8 list" where
  "encode_loop url [] = []"
| "encode_loop url [c1] = base256to64 c1 0 0 2 url"
| "encode_loop url [c1, c2] = base256to64 c1 c2 0 1 url"
| "encode_loop url (c1 # c2 # c3 # cs) = base256to64 c1 c2 c3 0 url @ encode_loop url cs"

definition b64_encode :: "u8 list \<Rightarrow> nat \<Rightarrow> bool \<Rightarrow> pj_status + u8 list" where
  "b64_encode inp out_len url =
     (if \<not> PJ_BASE256_TO_BASE64_LEN (length inp) \<le> out_len then Inl PJ_ETOOSMALL else Inr (encode_loop url inp))"

section \<open>Decoding\<close>

text \<open>\<open>next_code\<close> is the inner \<^verbatim>\<open>do\<close> loop, entered with at least one character left; \<open>fill_codes\<close> the loop that fills
  \<^verbatim>\<open>c\<close> from position \<open>4 - n\<close> on.\<close>

fun next_code :: "bool \<Rightarrow> u8 list \<Rightarrow> u32 \<times> u8 list" where
  "next_code url [] = (INV, [])"
| "next_code url (b # bs) = (if base256_char b url = INV \<and> bs \<noteq> [] then next_code url bs else (base256_char b url, bs))"

fun fill_codes :: "bool \<Rightarrow> nat \<Rightarrow> u8 list \<Rightarrow> u32 list \<times> u8 list" where
  "fill_codes url n bs =
     (if n = 0 \<or> bs = [] then ([], bs)
      else (case next_code url bs of (c, r) \<Rightarrow> case fill_codes url (n - 1) r of (cs, r') \<Rightarrow> (c # cs, r')))"

declare fill_codes.simps [simp del]

definition out1 :: "u32 list \<Rightarrow> u8" where
  "out1 c = ucast (push_bit 2 (c ! 0) OR drop_bit 4 (c ! 1 AND 0x30))"

definition out2 :: "u32 list \<Rightarrow> u8" where
  "out2 c = ucast (push_bit 4 (c ! 1 AND 0x0F) OR drop_bit 2 (c ! 2 AND 0x3C))"

definition out3 :: "u32 list \<Rightarrow> u8" where
  "out3 c = ucast (push_bit 6 (c ! 2 AND 0x03) OR (c ! 3 AND 0x3F))"

lemma next_code_less: "bs \<noteq> [] \<Longrightarrow> length (snd (next_code url bs)) < length bs"
  by (induction url bs rule: next_code.induct) auto

lemma fill_codes_le: "length (snd (fill_codes url n bs)) + length (fst (fill_codes url n bs)) \<le> length bs \<and> length (fst (fill_codes url n bs)) \<le> n"
proof (induction url n bs rule: fill_codes.induct)
  case (1 url n bs)
  show ?case
  proof (cases "n = 0 \<or> bs = []")
    case False
    obtain c r where n: "next_code url bs = (c, r)" by fastforce
    obtain cs r' where f: "fill_codes url (n - 1) r = (cs, r')" by fastforce
    have "length r < length bs" using next_code_less [of bs url] False n by simp
    moreover have "length r' + length cs \<le> length r" "length cs \<le> n - 1" using 1 [OF False n [symmetric]] f by simp_all
    ultimately show ?thesis using False n f by (simp add: fill_codes.simps [of url n bs]) linarith
  qed (simp add: fill_codes.simps)
qed

lemma fill_codes_some: "0 < n \<Longrightarrow> bs \<noteq> [] \<Longrightarrow> fst (fill_codes url n bs) \<noteq> []"
  by (simp add: fill_codes.simps [of url n bs] split: prod.split)

function decode_loop :: "bool \<Rightarrow> u8 list \<Rightarrow> u8 list" where
  "decode_loop url bs =
     (if bs = [] then []
      else
        (let (c, r) = fill_codes url 4 bs in
         if length c < 4
         then (if length c > 1 then [out1 c] @ (if length c > 2 then [out2 c] else []) else [])
         else [out1 c, out2 c, out3 c] @ decode_loop url r))"
  by pat_completeness auto
termination
proof (relation "measure (\<lambda>(url, bs). length bs)")
  fix url and bs :: "u8 list" and x c r
  assume "bs \<noteq> []" "x = fill_codes url 4 bs" "(c, r) = x"
  then show "((url, r), (url, bs)) \<in> measure (\<lambda>(url, bs). length bs)"
    using fill_codes_le [of url 4 bs] fill_codes_some [of 4 bs url]
    by (cases "fill_codes url 4 bs"; cases "fst (fill_codes url 4 bs)") auto
qed simp

declare decode_loop.simps [simp del]

fun strip_padding :: "u8 list \<Rightarrow> u8 list" where
  "strip_padding bs = (if bs \<noteq> [] \<and> last bs = PADDING then strip_padding (butlast bs) else bs)"

declare strip_padding.simps [simp del]

definition b64_decode :: "u8 list \<Rightarrow> nat \<Rightarrow> bool \<Rightarrow> pj_status + u8 list" where
  "b64_decode inp out_len url =
     (let buf = strip_padding inp in
      if \<not> PJ_BASE64_TO_BASE256_LEN (length buf) \<le> out_len then Inl PJ_ETOOSMALL else Inr (decode_loop url buf))"

definition pj_base64_encode :: "u8 list \<Rightarrow> nat \<Rightarrow> pj_status + u8 list" where
  "pj_base64_encode inp out_len = b64_encode inp out_len False"

definition pj_base64url_encode :: "u8 list \<Rightarrow> nat \<Rightarrow> pj_status + u8 list" where
  "pj_base64url_encode inp out_len = b64_encode inp out_len True"

definition pj_base64_decode :: "u8 list \<Rightarrow> nat \<Rightarrow> pj_status + u8 list" where
  "pj_base64_decode inp out_len = b64_decode inp out_len False"

definition pj_base64url_decode :: "u8 list \<Rightarrow> nat \<Rightarrow> pj_status + u8 list" where
  "pj_base64url_decode inp out_len = b64_decode inp out_len True"

section \<open>Letters and codes\<close>

lemma letter_codes: "list_all (\<lambda>v. base256_char ((if url then base64url_char else base64_char) ! v) url = of_nat v) [0..<64]"
proof (cases url)
  case True
  have "list_all (\<lambda>v. base256_char (base64url_char ! v) True = of_nat v) [0..<64]" by code_simp
  then show ?thesis using True by simp
next
  case False
  have "list_all (\<lambda>v. base256_char (base64_char ! v) False = of_nat v) [0..<64]" by code_simp
  then show ?thesis using False by simp
qed

lemma letter_code:
  assumes "unat v < 64"
  shows "base256_char (b64_letter url v) url = ucast v" "base256_char (b64_letter url v) url \<noteq> INV" "PADDING \<noteq> b64_letter url v"
proof -
  show c: "base256_char (b64_letter url v) url = ucast v"
    using letter_codes [of url] assms by (auto simp: list_all_iff b64_letter_def unsigned_of_nat)
  have "unat (ucast v :: u32) < 64" using assms by (simp add: unsigned_ucast_eq take_bit_nat_eq_self)
  moreover have "unat INV = 2 ^ 32 - 1" by (simp add: INV_def unsigned_minus_1_eq_mask mask_eq_exp_minus_1)
  ultimately show n: "base256_char (b64_letter url v) url \<noteq> INV" unfolding c by auto
  have "base256_char PADDING url = INV" by (simp add: base256_char_def PADDING_def)
  then show "PADDING \<noteq> b64_letter url v" using n by metis
qed

lemma b64_masks:
  "(0x3 :: u8) = mask 2" "(0xF :: u8) = mask 4" "(0x3F :: u8) = mask 6" "(0xF0 :: u8) = push_bit 4 (mask 4)" "(0xC0 :: u8) = push_bit 6 (mask 2)"
  "(0x3 :: u32) = mask 2" "(0xF :: u32) = mask 4" "(0x3F :: u32) = mask 6" "(0x30 :: u32) = push_bit 4 (mask 2)" "(0x3C :: u32) = push_bit 2 (mask 4)"
  by (simp_all add: mask_eq_exp_minus_1 push_bit_eq_mult)

text \<open>The four groups of six bits.\<close>

definition sx1 :: "u8 \<Rightarrow> u8" where "sx1 c1 = drop_bit 2 c1"
definition sx2 :: "u8 \<Rightarrow> u8 \<Rightarrow> u8" where "sx2 c1 c2 = push_bit 4 (c1 AND 0x3) OR drop_bit 4 (c2 AND 0xF0)"
definition sx3 :: "u8 \<Rightarrow> u8 \<Rightarrow> u8" where "sx3 c2 c3 = push_bit 2 (c2 AND 0xF) OR drop_bit 6 (c3 AND 0xC0)"
definition sx4 :: "u8 \<Rightarrow> u8" where "sx4 c3 = c3 AND 0x3F"

lemmas sx_defs = sx1_def sx2_def sx3_def sx4_def

lemma six_bits [simp]: "unat (sx1 a) < 64" "unat (sx2 a b) < 64" "unat (sx3 a b) < 64" "unat (sx4 a) < 64"
proof -
  have *: "unat x < 64" if "x AND 0x3F = x" for x :: u8
  proof -
    have "x \<le> 0x3F" using word_and_le1 [of x "0x3F"] that by simp
    then show ?thesis by (simp add: word_le_nat_alt)
  qed
  show "unat (sx1 a) < 64" "unat (sx2 a b) < 64" "unat (sx3 a b) < 64" "unat (sx4 a) < 64"
    unfolding sx_defs by (rule *, rule bit_word_eqI, auto simp: b64_masks bit_simps dest: bit_imp_le_length)+
qed

lemma base256to64_sx:
  "base256to64 c1 c2 c3 0 url = map (b64_letter url) [sx1 c1, sx2 c1 c2, sx3 c2 c3, sx4 c3]"
  "base256to64 c1 c2 0 (Suc 0) url = map (b64_letter url) [sx1 c1, sx2 c1 c2, sx3 c2 0] @ [PADDING]"
  "base256to64 c1 0 0 2 url = map (b64_letter url) [sx1 c1, sx2 c1 0] @ [PADDING, PADDING]"
  unfolding base256to64_def sx_defs by simp_all

lemma fill_letters:
  "list_all (\<lambda>v. unat v < 64) vs \<Longrightarrow> length vs \<le> n \<Longrightarrow> length vs = n \<or> r = [] \<Longrightarrow>
    fill_codes url n (map (b64_letter url) vs @ r) = (map ucast vs, r)"
proof (induction vs arbitrary: n)
  case (Cons v vs)
  then have "next_code url (map (b64_letter url) (v # vs) @ r) = (ucast v, map (b64_letter url) vs @ r)"
    using letter_code [of v url] by auto
  moreover have "fill_codes url (n - 1) (map (b64_letter url) vs @ r) = (map ucast vs, r)" using Cons by (intro Cons.IH) auto
  ultimately show ?case using Cons.prems(2) by (simp add: fill_codes.simps [of url n])
qed (simp add: fill_codes.simps)

lemma byte_eqI:
  assumes "bit x 0 = bit y 0" "bit x 1 = bit y 1" "bit x 2 = bit y 2" "bit x 3 = bit y 3"
    "bit x 4 = bit y 4" "bit x 5 = bit y 5" "bit x 6 = bit y 6" "bit x 7 = bit y 7"
  shows "x = (y :: u8)"
proof (rule bit_word_eqI)
  fix n assume "n < LENGTH(8)"
  then have "n \<in> {0, 1, 2, 3, 4, 5, 6, 7}" by auto
  then show "bit x n = bit y n" using assms by auto
qed

lemma bit_letters:
  "bit (sx1 c1) n \<longleftrightarrow> n < 6 \<and> bit c1 (n + 2)"
  "bit (sx2 c1 c2) n \<longleftrightarrow> (if n < 4 then bit c2 (n + 4) else n < 6 \<and> bit c1 (n - 4))"
  "bit (sx3 c2 c3) n \<longleftrightarrow> (if n < 2 then bit c3 (n + 6) else n < 6 \<and> bit c2 (n - 2))"
  "bit (sx4 c3) n \<longleftrightarrow> n < 6 \<and> bit c3 n"
  by (auto simp: sx_defs b64_masks bit_simps add.commute dest: bit_imp_le_length)

lemma regroup:
  "out1 (ucast (sx1 c1) # ucast (sx2 c1 c2) # vs) = c1"
  "out2 (x # ucast (sx2 c1 c2) # ucast (sx3 c2 c3) # vs) = c2"
  "out3 (x # y # ucast (sx3 c2 c3) # ucast (sx4 c3) # vs) = c3"
  unfolding out1_def out2_def out3_def b64_masks
  by (rule byte_eqI; simp add: bit_letters bit_simps; simp add: numeral_2_eq_2 numeral_3_eq_3)+

lemma strip_padding_body: "PADDING \<notin> set body \<Longrightarrow> strip_padding (body @ replicate n PADDING) = body"
proof (induction n)
  case 0
  then show ?case by (subst strip_padding.simps) (auto dest: last_in_set)
next
  case (Suc n)
  have e: "body @ replicate (Suc n) PADDING = (body @ replicate n PADDING) @ [PADDING]" by (simp add: replicate_append_same)
  have "strip_padding (body @ replicate (Suc n) PADDING) = strip_padding (body @ replicate n PADDING)"
    unfolding e by (subst strip_padding.simps) (simp only: last_snoc butlast_snoc, simp)
  then show ?case using Suc by simp
qed

lemma encode_decode_body:
  "\<exists>body n. encode_loop url inp = body @ replicate n PADDING \<and> PADDING \<notin> set body \<and> decode_loop url body = inp \<and>
    length body = (4 * length inp + 2) div 3"
proof (induction url inp rule: encode_loop.induct)
  case (1 url)
  show ?case by (rule exI [of _ "[]"]) (simp add: decode_loop.simps)
next
  case (2 url c1)
  let ?vs = "[sx1 c1, sx2 c1 0]"
  have "fill_codes url 4 (map (b64_letter url) ?vs @ []) = (map ucast ?vs, [])" by (rule fill_letters) simp_all
  then have "decode_loop url (map (b64_letter url) ?vs) = [c1]" by (subst decode_loop.simps) (simp add: regroup)
  moreover have "PADDING \<notin> set (map (b64_letter url) ?vs)" using letter_code(3) by auto
  ultimately show ?case
    by (intro exI [of _ "map (b64_letter url) ?vs"] exI [of _ "Suc (Suc 0)"]) (simp add: base256to64_sx)
next
  case (3 url c1 c2)
  let ?vs = "[sx1 c1, sx2 c1 c2, sx3 c2 0]"
  have "fill_codes url 4 (map (b64_letter url) ?vs @ []) = (map ucast ?vs, [])" by (rule fill_letters) simp_all
  then have "decode_loop url (map (b64_letter url) ?vs) = [c1, c2]" by (subst decode_loop.simps) (simp add: regroup)
  moreover have "PADDING \<notin> set (map (b64_letter url) ?vs)" using letter_code(3) by auto
  ultimately show ?case
    by (intro exI [of _ "map (b64_letter url) ?vs"] exI [of _ 1]) (simp add: base256to64_sx)
next
  case (4 url c1 c2 c3 cs)
  then obtain body n where b: "encode_loop url cs = body @ replicate n PADDING" "PADDING \<notin> set body" "decode_loop url body = cs"
    "length body = (4 * length cs + 2) div 3" by blast
  let ?vs = "[sx1 c1, sx2 c1 c2, sx3 c2 c3, sx4 c3]"
  have "fill_codes url 4 (map (b64_letter url) ?vs @ body) = (map ucast ?vs, body)" by (rule fill_letters) simp_all
  then have "decode_loop url (map (b64_letter url) ?vs @ body) = c1 # c2 # c3 # cs"
    by (subst decode_loop.simps) (simp add: regroup b(3))
  moreover have "PADDING \<notin> set (map (b64_letter url) ?vs @ body)" using b(2) letter_code(3) by auto
  ultimately show ?case
    by (intro exI [of _ "map (b64_letter url) ?vs @ body"] exI [of _ n]) (simp add: base256to64_sx b(1,4))
qed

section \<open>Bounds\<close>

lemma encode_length: "length (encode_loop url inp) = 4 * ((length inp + 2) div 3)"
proof (induction url inp rule: encode_loop.induct)
  case (4 url c1 c2 c3 cs)
  have "(length cs + 3 + 2) div 3 = (length cs + 2) div 3 + 1" by simp
  then show ?case using 4 by (simp add: base256to64_def)
qed (simp_all add: base256to64_def)

lemma decode_length: "4 * length (decode_loop url bs) \<le> 3 * length bs"
proof (induction url bs rule: decode_loop.induct)
  case (1 url bs)
  show ?case
  proof (cases "bs = []")
    case False
    obtain c r where f: "fill_codes url 4 bs = (c, r)" by fastforce
    have l: "length r + length c \<le> length bs" "length c \<le> 4" using fill_codes_le [of url 4 bs] f by simp_all
    show ?thesis
    proof (cases "length c < 4")
      case True
      then show ?thesis using l f by (subst decode_loop.simps) (auto simp: False)
    next
      case full: False
      then have "4 * length (decode_loop url r) \<le> 3 * length r" using 1 [OF False f [symmetric]] by simp
      then show ?thesis using l f full by (subst decode_loop.simps) (simp add: False)
    qed
  qed (simp add: decode_loop.simps)
qed

section \<open>Properties\<close>

text \<open>C21: Encoding with enough room for the output succeeds, stays within the room asked for, and decoding the letters with the
  same alphabet gives the data back.\<close>

theorem base64_round_trip:
  assumes "PJ_BASE256_TO_BASE64_LEN (length inp) \<le> out_len" "length inp \<le> n"
  shows "\<exists>s. b64_encode inp out_len url = Inr s \<and> length s \<le> out_len \<and> b64_decode s n url = Inr inp"
proof -
  obtain body k where b: "encode_loop url inp = body @ replicate k PADDING" "PADDING \<notin> set body" "decode_loop url body = inp"
    "length body = (4 * length inp + 2) div 3" using encode_decode_body by blast
  have s: "strip_padding (encode_loop url inp) = body" unfolding b(1) by (rule strip_padding_body [OF b(2)])
  have "length (encode_loop url inp) \<le> out_len" using assms(1) encode_length [of url inp] by (simp add: PJ_BASE256_TO_BASE64_LEN_def)
  moreover have "length body * 3 div 4 \<le> length inp" unfolding b(4) by linarith
  ultimately show ?thesis using assms s b(3) by (simp add: b64_encode_def b64_decode_def PJ_BASE64_TO_BASE256_LEN_def Let_def)
qed


text \<open>An invalid character at the end of the input is not ignored when it follows an incomplete group: it is decoded like a
  character with all bits set.  The padded letters of one byte and a line feed give two bytes.\<close>

theorem base64_trailing_garbage:
  "pj_base64_decode [81, 81, 61, 61] 9 = Inr [65]" "pj_base64_decode [81, 81, 61, 61, 10] 9 = Inr [65, 15]"
  by code_simp+

theorem base64_round_trip_witness:
  "\<exists>s. b64_encode [1, 2, 3, 4] 20 True = Inr s \<and> b64_decode s 4 True = Inr [1, 2, 3, 4]"
  using base64_round_trip [of "[1, 2, 3, 4]" 20 4 True] by (auto simp: PJ_BASE256_TO_BASE64_LEN_def)


end
