(* ===== verification/Pool.thy ===== *)
theory Pool
  imports Pj_Prelude
begin

text \<open>
  The memory pool of \<^verbatim>\<open>pjlib/src/pj/pool.c\<close> and \<^verbatim>\<open>pjlib/include/pj/pool_i.h\<close>.  A pool takes blocks of memory from its factory and
  hands out chunks of them, from the current position of a block upwards; chunks are not freed one by one.

  Addresses and sizes are 64-bit words, and the arithmetic on them is that of the code.  The memory of the factory is the
  list of the regions it has handed out, pairs of address and size.  \<^verbatim>\<open>block_alloc\<close> of the factory's policy is a parameter, a function of these
  regions and the wanted size; \<^verbatim>\<open>block_free\<close> takes a region from the list.  The callback for lack of memory throws an exception in
  the default policy; a call of it is recorded with the size it is told, and the function returns \<^verbatim>\<open>NULL\<close>, the value \<open>None\<close>.
\<close>

type_synonym pj_size_t = "64 word"
type_synonym regions = "(pj_size_t \<times> pj_size_t) list"
type_synonym block_alloc = "regions \<Rightarrow> pj_size_t \<Rightarrow> pj_size_t option"

record pj_pool_block =
  pb_addr :: pj_size_t
  pb_buf :: pj_size_t
  pb_cur :: pj_size_t
  pb_end :: pj_size_t

text \<open>The list of blocks starts with the newest; the last is the one in the memory of the pool itself.\<close>

record pj_pool =
  pl_addr :: pj_size_t
  pl_factory_data :: nat
  pl_capacity :: pj_size_t
  pl_increment_size :: pj_size_t
  pl_block_list :: "pj_pool_block list"
  pl_alignment :: pj_size_t
  pl_no_memory :: "pj_size_t list"

text \<open>The sizes of the two structures with 64-bit pointers.\<close>

definition sizeof_pool_block :: pj_size_t where "sizeof_pool_block = 40"
definition sizeof_pool :: pj_size_t where "sizeof_pool = 136"
definition PJ_POOL_ALIGNMENT :: pj_size_t where "PJ_POOL_ALIGNMENT = 4"
definition PJ_POOL_MAX_SEARCH_BLOCK_COUNT :: nat where "PJ_POOL_MAX_SEARCH_BLOCK_COUNT = 5"

definition PJ_POOL_ALIGN_PTR :: "pj_size_t \<Rightarrow> pj_size_t \<Rightarrow> pj_size_t" where
  "PJ_POOL_ALIGN_PTR p alignment = p + (- p AND (alignment - 1))"

definition PJ_IS_POWER_OF_TWO :: "pj_size_t \<Rightarrow> bool" where
  "PJ_IS_POWER_OF_TWO val \<longleftrightarrow> 0 < val \<and> val AND (val - 1) = 0"

definition PJ_IS_ALIGNED :: "pj_size_t \<Rightarrow> pj_size_t \<Rightarrow> bool" where
  "PJ_IS_ALIGNED p alignment \<longleftrightarrow> p AND (alignment - 1) = 0"

section \<open>Allocation\<close>

definition pj_pool_get_capacity :: "pj_pool \<Rightarrow> pj_size_t" where
  "pj_pool_get_capacity pool = pl_capacity pool"

definition pj_pool_get_used_size :: "pj_pool \<Rightarrow> pj_size_t" where
  "pj_pool_get_used_size pool = foldl (\<lambda>used b. used + ((pb_cur b - pb_buf b) + sizeof_pool_block)) sizeof_pool (pl_block_list pool)"

definition pj_pool_alloc_from_block :: "pj_pool_block \<Rightarrow> pj_size_t \<Rightarrow> pj_size_t \<Rightarrow> pj_pool_block \<times> pj_size_t option" where
  "pj_pool_alloc_from_block block alignment sz =
     (let ptr = PJ_POOL_ALIGN_PTR (pb_cur block) alignment in
      if pb_cur block \<le> ptr \<and> ptr \<le> pb_end block \<and> sz \<le> pb_end block - ptr
      then (block\<lparr>pb_cur := ptr + sz\<rparr>, Some ptr)
      else (block, None))"

text \<open>The callback of the pool.\<close>

definition no_memory :: "pj_size_t \<Rightarrow> pj_pool \<Rightarrow> pj_pool" where
  "no_memory sz pool = pool\<lparr>pl_no_memory := pl_no_memory pool @ [sz]\<rparr>"

definition pj_pool_create_block :: "block_alloc \<Rightarrow> pj_size_t \<Rightarrow> pj_pool \<times> regions \<Rightarrow> (pj_pool \<times> regions) \<times> bool" where
  "pj_pool_create_block alloc sz = (\<lambda>(pool, mem).
     case alloc mem sz of
       None \<Rightarrow> ((no_memory sz pool, mem), False)
     | Some block \<Rightarrow>
         ((pool\<lparr>pl_capacity := pl_capacity pool + sz,
                pl_block_list := \<lparr>pb_addr = block, pb_buf = block + sizeof_pool_block, pb_cur = block + sizeof_pool_block, pb_end = block + sz\<rparr> #
                  pl_block_list pool\<rparr>, (block, sz) # mem), True))"

text \<open>The search through the blocks, \<open>i\<close> of which have been tried.\<close>

fun find_in_blocks :: "pj_size_t \<Rightarrow> pj_size_t \<Rightarrow> nat \<Rightarrow> pj_pool_block list \<Rightarrow> pj_pool_block list \<times> pj_size_t option" where
  "find_in_blocks alignment sz i [] = ([], None)"
| "find_in_blocks alignment sz i (b # bs) =
     (case pj_pool_alloc_from_block b alignment sz of
        (b', Some p) \<Rightarrow> (b' # bs, Some p)
      | (b', None) \<Rightarrow>
          if i \<ge> PJ_POOL_MAX_SEARCH_BLOCK_COUNT then (b # bs, None)
          else (case find_in_blocks alignment sz (i + 1) bs of (bs', r) \<Rightarrow> (b # bs', r)))"

text \<open>The size of the block that is requested for a chunk.\<close>

definition expand_size :: "pj_size_t \<Rightarrow> pj_size_t \<Rightarrow> pj_size_t \<Rightarrow> pj_size_t" where
  "expand_size increment alignment sz =
     (if increment < sizeof_pool_block + alignment - 1 + sz
      then (increment + sizeof_pool_block + alignment - 1 + sz) div increment * increment
      else increment)"

definition pj_pool_allocate_find :: "block_alloc \<Rightarrow> pj_size_t \<Rightarrow> pj_size_t \<Rightarrow> pj_pool \<times> regions \<Rightarrow> (pj_pool \<times> regions) \<times> pj_size_t option" where
  "pj_pool_allocate_find alloc alignment sz = (\<lambda>(pool, mem).
     case find_in_blocks alignment sz 0 (pl_block_list pool) of
       (bs, Some p) \<Rightarrow> ((pool\<lparr>pl_block_list := bs\<rparr>, mem), Some p)
     | (_, None) \<Rightarrow>
         if pl_increment_size pool = 0 then ((no_memory sz pool, mem), None)
         else
           (case pj_pool_create_block alloc (expand_size (pl_increment_size pool) alignment sz) (pool, mem) of
              (pm, False) \<Rightarrow> (pm, None)
            | ((pool, mem), True) \<Rightarrow>
                (case pj_pool_alloc_from_block (hd (pl_block_list pool)) alignment sz of
                   (b, r) \<Rightarrow> ((pool\<lparr>pl_block_list := b # tl (pl_block_list pool)\<rparr>, mem), r))))"

definition pj_pool_aligned_alloc :: "block_alloc \<Rightarrow> pj_size_t \<Rightarrow> pj_size_t \<Rightarrow> pj_pool \<times> regions \<Rightarrow> (pj_pool \<times> regions) \<times> pj_size_t option" where
  "pj_pool_aligned_alloc alloc alignment sz = (\<lambda>(pool, mem).
     if \<not> (alignment = 0 \<or> PJ_IS_POWER_OF_TWO alignment) then ((pool, mem), None)
     else
       (let alignment = (if alignment = 0 then pl_alignment pool else alignment) in
        case pj_pool_alloc_from_block (hd (pl_block_list pool)) alignment sz of
          (b, Some p) \<Rightarrow> ((pool\<lparr>pl_block_list := b # tl (pl_block_list pool)\<rparr>, mem), Some p)
        | (_, None) \<Rightarrow> pj_pool_allocate_find alloc alignment sz (pool, mem)))"

definition pj_pool_alloc :: "block_alloc \<Rightarrow> pj_size_t \<Rightarrow> pj_pool \<times> regions \<Rightarrow> (pj_pool \<times> regions) \<times> pj_size_t option" where
  "pj_pool_alloc alloc sz pm = pj_pool_aligned_alloc alloc 0 sz pm"

definition pj_pool_calloc :: "block_alloc \<Rightarrow> pj_size_t \<Rightarrow> pj_size_t \<Rightarrow> pj_pool \<times> regions \<Rightarrow> (pj_pool \<times> regions) \<times> pj_size_t option" where
  "pj_pool_calloc alloc cnt sz = (\<lambda>(pool, mem).
     if cnt \<noteq> 0 \<and> sz > (-1) div cnt then ((no_memory (-1) pool, mem), None)
     else pj_pool_alloc alloc (sz * cnt) (pool, mem))"

section \<open>Creation and end\<close>

definition pj_pool_init_int :: "pj_size_t \<Rightarrow> pj_size_t \<Rightarrow> pj_pool \<Rightarrow> pj_pool" where
  "pj_pool_init_int increment_size alignment pool =
     pool\<lparr>pl_increment_size := increment_size, pl_alignment := (if alignment = 0 then PJ_POOL_ALIGNMENT else alignment)\<rparr>"

definition pj_pool_create_int :: "block_alloc \<Rightarrow> pj_size_t \<Rightarrow> pj_size_t \<Rightarrow> pj_size_t \<Rightarrow> regions \<Rightarrow> regions \<times> pj_pool option" where
  "pj_pool_create_int alloc initial_size increment_size alignment mem =
     (if \<not> sizeof_pool + sizeof_pool_block \<le> initial_size then (mem, None)
      else if \<not> (alignment = 0 \<or> PJ_IS_POWER_OF_TWO alignment) then (mem, None)
      else
        (case alloc mem initial_size of
           None \<Rightarrow> (mem, None)
         | Some buffer \<Rightarrow>
             let block = buffer + sizeof_pool;
                 pool = \<lparr>pl_addr = buffer, pl_factory_data = 0, pl_capacity = 0, pl_increment_size = 0,
                   pl_block_list = [\<lparr>pb_addr = block, pb_buf = block + sizeof_pool_block, pb_cur = block + sizeof_pool_block, pb_end = buffer + initial_size\<rparr>],
                   pl_alignment = 0, pl_no_memory = []\<rparr> in
             ((buffer, initial_size) # mem, Some ((pj_pool_init_int increment_size alignment pool)\<lparr>pl_capacity := initial_size\<rparr>))))"

definition block_free :: "pj_size_t \<Rightarrow> pj_size_t \<Rightarrow> regions \<Rightarrow> regions" where
  "block_free block sz mem = remove1 (block, sz) mem"

text \<open>The blocks but the last are freed from the oldest to the newest.\<close>

definition reset_pool :: "pj_pool \<times> regions \<Rightarrow> pj_pool \<times> regions" where
  "reset_pool = (\<lambda>(pool, mem).
     case pl_block_list pool of
       [] \<Rightarrow> (pool, mem)
     | bs \<Rightarrow>
         let mem = foldl (\<lambda>mem b. block_free (pb_addr b) (pb_end b - pb_addr b) mem) mem (rev (butlast bs));
             block = last bs in
         (pool\<lparr>pl_block_list := [block\<lparr>pb_cur := pb_buf block\<rparr>], pl_capacity := pb_end block - pl_addr pool\<rparr>, mem))"

definition pj_pool_reset :: "pj_pool \<times> regions \<Rightarrow> pj_pool \<times> regions" where
  "pj_pool_reset pm = reset_pool pm"

definition pj_pool_destroy_int :: "pj_pool \<times> regions \<Rightarrow> regions" where
  "pj_pool_destroy_int pm =
     (case reset_pool pm of (pool, mem) \<Rightarrow>
        block_free (pl_addr pool) (pb_end (hd (pl_block_list pool)) - pl_addr pool) mem)"

end
