(* ===== verification/Pool_Props.thy ===== *)
theory Pool_Props
  imports Pool
begin

text \<open>
  Properties of the memory pool: the chunks it hands out are aligned, lie in memory obtained from the factory and never
  overlap one another or the headers of blocks and pool; an allocation succeeds whenever the factory has memory; and
  everything obtained is given back in the end.
\<close>

section \<open>Alignment\<close>

lemma and_pred_pow2:
  fixes n :: nat
  assumes "0 < n" "n AND (n - 1) = 0"
  shows "\<exists>k. n = 2 ^ k"
  using assms
proof (induction n rule: less_induct)
  case (less n)
  show ?case
  proof (cases "even n")
    case True
    then obtain m where m: "n = 2 * m" by blast
    with less.prems have "0 < m" by simp
    have e: "n - 1 = 2 * (m - 1) + 1" using m \<open>0 < m\<close> by simp
    have "(n - 1) div 2 = m - 1" "odd (n - 1)" "n div 2 = m" unfolding e by (simp_all add: m)
    then have "n AND (n - 1) = 2 * (m AND (m - 1))" using True by (subst and_rec) simp
    then have "m AND (m - 1) = 0" using less.prems(2) by simp
    with less.IH [of m] \<open>0 < m\<close> m obtain k where "m = 2 ^ k" by auto
    then have "n = 2 ^ Suc k" using m by simp
    then show ?thesis by blast
  next
    case False
    then obtain m where m: "n = 2 * m + 1" by (metis oddE)
    have "n AND (n - 1) = 2 * m" by (subst and_rec) (simp add: m)
    then have "n = 2 ^ 0" using less.prems(2) m by simp
    then show ?thesis by blast
  qed
qed

lemma power_of_two:
  assumes "PJ_IS_POWER_OF_TWO a"
  obtains k where "k < 64" "a = 2 ^ k" "unat a = 2 ^ k"
proof -
  have a: "0 < a" "a AND (a - 1) = 0" using assms by (auto simp: PJ_IS_POWER_OF_TWO_def)
  have "1 \<le> unat a" using a(1) by (simp add: unat_gt_0 Suc_leI flip: word_neq_0_conv)
  then have "unat (a - 1) = unat a - 1" using unat_sub [of 1 a] by (simp add: word_le_nat_alt)
  then have "unat a AND (unat a - 1) = 0" using a(2) by (metis unsigned_and_eq unsigned_0)
  then obtain k where k: "unat a = 2 ^ k" using and_pred_pow2 [of "unat a"] \<open>1 \<le> unat a\<close> by auto
  have "(2 :: nat) ^ k < 2 ^ 64" using unsigned_less [of a, where ?'a = nat] k by simp
  then have "k < 64" by (rule power_less_imp_less_exp [rotated]) simp
  moreover have "a = 2 ^ k" using arg_cong [OF k, of "of_nat :: nat \<Rightarrow> 64 word"] by simp
  ultimately show ?thesis using that k by blast
qed

lemma align_ptr:
  assumes "PJ_IS_POWER_OF_TWO a"
  shows "PJ_IS_ALIGNED (PJ_POOL_ALIGN_PTR p a) a" "unat (PJ_POOL_ALIGN_PTR p a - p) < unat a"
proof -
  obtain k where k: "k < 64" "a = 2 ^ k" "unat a = 2 ^ k" using power_of_two [OF assms] .
  have m: "x AND (a - 1) = take_bit k x" for x :: "64 word"
    by (simp add: k(2) take_bit_eq_mask mask_eq_exp_minus_1)
  have "take_bit k (p + take_bit k (- p)) = 0" using k(1) by transfer (simp add: min_def take_bit_eq_mod mod_simps)
  then show "PJ_IS_ALIGNED (PJ_POOL_ALIGN_PTR p a) a" by (simp add: PJ_IS_ALIGNED_def PJ_POOL_ALIGN_PTR_def m)
  have "unat (take_bit k (- p)) < 2 ^ k" by (simp add: unsigned_take_bit_eq)
  then show "unat (PJ_POOL_ALIGN_PTR p a - p) < unat a" by (simp add: PJ_POOL_ALIGN_PTR_def m k(3))
qed

section \<open>One block\<close>

definition block_ok :: "pj_pool_block \<Rightarrow> bool" where
  "block_ok b \<longleftrightarrow> unat (pb_buf b) = unat (pb_addr b) + 40 \<and> pb_buf b \<le> pb_cur b \<and> pb_cur b \<le> pb_end b"

lemma sub_le:
  fixes a b c :: "64 word"
  assumes "b \<le> a"
  shows "c \<le> a - b \<longleftrightarrow> unat b + unat c \<le> unat a"
  using assms by (auto simp: word_le_nat_alt unat_sub)

lemma add_fits:
  fixes a b :: "64 word"
  shows "unat a + unat b < 2 ^ 64 \<Longrightarrow> unat (a + b) = unat a + unat b"
  by (rule unat_add_lem [THEN iffD1]) simp

lemma alloc_from_block_some:
  assumes "pj_pool_alloc_from_block b a sz = (b', Some p)" "block_ok b" "PJ_IS_POWER_OF_TWO a"
  shows "PJ_IS_ALIGNED p a" "block_ok b'" "unat (pb_cur b) \<le> unat p" "unat p + unat sz = unat (pb_cur b')"
    "pb_addr b' = pb_addr b" "pb_end b' = pb_end b" "pb_buf b' = pb_buf b"
proof -
  have p: "p = PJ_POOL_ALIGN_PTR (pb_cur b) a" "pb_cur b \<le> p" "p \<le> pb_end b" "sz \<le> pb_end b - p" "b' = b\<lparr>pb_cur := p + sz\<rparr>"
    using assms(1) by (auto simp: pj_pool_alloc_from_block_def Let_def split: if_splits)
  show "PJ_IS_ALIGNED p a" using align_ptr(1) [OF assms(3)] p(1) by simp
  have s: "unat p + unat sz \<le> unat (pb_end b)" using p(4) sub_le [OF p(3)] by simp
  then have u: "unat (p + sz) = unat p + unat sz" using unsigned_less [of "pb_end b", where ?'a = nat] by (intro add_fits) simp
  show "unat (pb_cur b) \<le> unat p" using p(2) by (simp add: word_le_nat_alt)
  then show "block_ok b'" using assms(2) s u by (simp add: block_ok_def p(5) word_le_nat_alt)
  show "unat p + unat sz = unat (pb_cur b')" "pb_addr b' = pb_addr b" "pb_end b' = pb_end b" "pb_buf b' = pb_buf b" by (simp_all add: p(5) u)
qed

lemma alloc_from_block_none:
  assumes "pj_pool_alloc_from_block b a sz = (b', None)" "block_ok b" "PJ_IS_POWER_OF_TWO a"
  shows "b' = b" "unat (pb_end b) < unat (pb_cur b) + (unat a - 1) + unat sz"
proof -
  let ?p = "PJ_POOL_ALIGN_PTR (pb_cur b) a"
  have n: "\<not> (pb_cur b \<le> ?p \<and> ?p \<le> pb_end b \<and> sz \<le> pb_end b - ?p)" and e: "b' = b"
    using assms(1) by (auto simp: pj_pool_alloc_from_block_def Let_def split: if_splits)
  show "b' = b" by (rule e)
  have g: "unat (?p - pb_cur b) \<le> unat a - 1" using align_ptr(2) [OF assms(3), of "pb_cur b"] by simp
  show "unat (pb_end b) < unat (pb_cur b) + (unat a - 1) + unat sz"
  proof (rule ccontr)
    assume "\<not> ?thesis"
    then have l: "unat (pb_cur b) + (unat a - 1) + unat sz \<le> unat (pb_end b)" by simp
    have "unat (pb_cur b + (?p - pb_cur b)) = unat (pb_cur b) + unat (?p - pb_cur b)"
      using g l unsigned_less [of "pb_end b", where ?'a = nat] by (intro add_fits) simp
    then have u: "unat ?p = unat (pb_cur b) + unat (?p - pb_cur b)" by simp
    then have "pb_cur b \<le> ?p" "?p \<le> pb_end b" using g l by (simp_all add: word_le_nat_alt)
    with n have "\<not> sz \<le> pb_end b - ?p" by simp
    then show False using sub_le [OF \<open>?p \<le> pb_end b\<close>, of sz] u g l by simp
  qed
qed

lemma expand_size_enough:
  assumes "inc \<noteq> 0" "unat inc + 40 + unat a + unat sz < 2 ^ 64" "0 < a"
  shows "40 + (unat a - 1) + unat sz \<le> unat (expand_size inc a sz)"
proof -
  have a: "1 \<le> unat a" using assms(3) by (simp add: word_less_nat_alt)
  have "unat (sizeof_pool_block + a - 1 + sz) = 40 + (unat a - 1) + unat sz"
  proof -
    have "unat (a - 1) = unat a - 1" using unat_sub [of 1 a] a by (simp add: word_le_nat_alt)
    moreover have "unat ((40 :: 64 word) + (a - 1)) = 40 + unat (a - 1)" using calculation assms(2) a by (subst add_fits) simp_all
    moreover have "unat (((40 :: 64 word) + (a - 1)) + sz) = 40 + unat (a - 1) + unat sz" using calculation assms(2) a by (subst add_fits) simp_all
    ultimately show ?thesis by (simp add: sizeof_pool_block_def add_diff_eq)
  qed
  note n = this
  have s: "inc + sizeof_pool_block + a - 1 + sz = inc + (sizeof_pool_block + a - 1 + sz)" by simp
  have m: "unat (inc + sizeof_pool_block + a - 1 + sz) = unat inc + (40 + (unat a - 1) + unat sz)"
    unfolding s using assms(2) a n by (subst add_fits) simp_all
  let ?x = "unat inc + (40 + (unat a - 1) + unat sz)"
  have i: "0 < unat inc" using assms(1) by (simp add: unat_gt_0)
  have "unat (((inc + sizeof_pool_block + a - 1 + sz) div inc) * inc) = ?x div unat inc * unat inc"
  proof -
    have "unat ((inc + sizeof_pool_block + a - 1 + sz) div inc) = ?x div unat inc" by (simp only: unat_div m)
    moreover have "?x div unat inc * unat inc < 2 ^ LENGTH(64)"
      by (rule le_less_trans [OF div_times_less_eq_dividend]) (use assms(2) a in simp)
    ultimately show ?thesis
      using unat_mult_lem [THEN iffD1, of "(inc + sizeof_pool_block + a - 1 + sz) div inc" inc] by metis
  qed
  moreover have "?x < ?x div unat inc * unat inc + unat inc" using i by (metis add.commute dividend_less_times_div mult.commute)
  ultimately have "40 + (unat a - 1) + unat sz \<le> unat (((inc + sizeof_pool_block + a - 1 + sz) div inc) * inc)" by linarith
  moreover have "40 + (unat a - 1) + unat sz \<le> unat inc" if "\<not> inc < sizeof_pool_block + a - 1 + sz"
    using that n by (simp add: word_less_nat_alt)
  ultimately show ?thesis by (simp add: expand_size_def)
qed

section \<open>Memory\<close>

text \<open>
  The addresses of a region; memory in which no address belongs to two regions; and what the code relies on in an allocator:
  it does not return \<^verbatim>\<open>NULL\<close> as a region, a region does not reach the end of the address space, and it is disjoint from the others.
\<close>

definition mem_region :: "pj_size_t \<times> pj_size_t \<Rightarrow> nat set" where
  "mem_region r = {unat (fst r) ..< unat (fst r) + unat (snd r)}"

definition mem_ok :: "regions \<Rightarrow> bool" where
  "mem_ok mem \<longleftrightarrow> (\<forall>x. length (filter (\<lambda>r. x \<in> mem_region r) mem) \<le> 1) \<and> (\<forall>r \<in> set mem. unat (fst r) + unat (snd r) < 2 ^ 64)"

definition good_alloc :: "block_alloc \<Rightarrow> bool" where
  "good_alloc alloc \<longleftrightarrow> (\<forall>mem sz a. alloc mem sz = Some a \<longrightarrow>
     a \<noteq> 0 \<and> unat a + unat sz < 2 ^ 64 \<and> (\<forall>r \<in> set mem. mem_region r \<inter> mem_region (a, sz) = {}))"

lemma mem_ok_Cons:
  assumes "mem_ok mem" "good_alloc alloc" "alloc mem sz = Some a"
  shows "mem_ok ((a, sz) # mem)"
proof -
  have "\<forall>r \<in> set mem. mem_region r \<inter> mem_region (a, sz) = {}" using assms(2,3) by (simp add: good_alloc_def)
  then have "filter (\<lambda>r. x \<in> mem_region r) mem = []" if "x \<in> mem_region (a, sz)" for x
    using that by (auto simp: filter_empty_conv)
  moreover have "unat a + unat sz < 2 ^ 64" using assms(2,3) by (simp add: good_alloc_def)
  ultimately show ?thesis using assms(1) by (simp add: mem_ok_def)
qed

lemma mem_ok_sub: "mset rs \<subseteq># mset mem \<Longrightarrow> mem_ok mem \<Longrightarrow> mem_ok rs"
proof -
  assume s: "mset rs \<subseteq># mset mem" and m: "mem_ok mem"
  have "length (filter (\<lambda>r. x \<in> mem_region r) rs) \<le> length (filter (\<lambda>r. x \<in> mem_region r) mem)" for x
    using multiset_filter_mono [OF s, of "\<lambda>r. x \<in> mem_region r"] by (metis mset_filter size_mset size_mset_mono)
  moreover have "set rs \<subseteq> set mem" using s by (metis set_mset_mono set_mset_mset)
  ultimately show "mem_ok rs" using m by (auto simp: mem_ok_def intro: order_trans)
qed

lemma mem_ok_disjoint:
  assumes "mem_ok rs" "i < length rs" "j < length rs" "i \<noteq> j"
  shows "mem_region (rs ! i) \<inter> mem_region (rs ! j) = {}"
proof (rule ccontr)
  assume "\<not> ?thesis"
  then obtain x where x: "x \<in> mem_region (rs ! i)" "x \<in> mem_region (rs ! j)" by blast
  have "card {i, j} \<le> card {k. k < length rs \<and> x \<in> mem_region (rs ! k)}" using x assms(2,3) by (intro card_mono) auto
  then have "2 \<le> length (filter (\<lambda>r. x \<in> mem_region r) rs)" using assms(4) by (simp add: length_filter_conv_card)
  moreover have "length (filter (\<lambda>r. x \<in> mem_region r) rs) \<le> 1" using assms(1) unfolding mem_ok_def by blast
  ultimately show False by simp
qed

text \<open>The sizes of the regions add up without wrapping around.\<close>

lemma regions_card:
  assumes "mem_ok rs"
  shows "(\<Sum>r \<leftarrow> rs. unat (snd r)) = card (\<Union>r \<in> set rs. mem_region r)"
  using assms
proof (induction rs)
  case (Cons r rs)
  have rs: "mem_ok rs" by (rule mem_ok_sub [OF _ Cons.prems]) simp
  have "mem_region r \<inter> mem_region q = {}" if q: "q \<in> set rs" for q
  proof -
    obtain j where "j < length rs" "q = rs ! j" using q by (metis in_set_conv_nth)
    then show ?thesis using mem_ok_disjoint [OF Cons.prems, of 0 "Suc j"] by simp
  qed
  then have d: "mem_region r \<inter> (\<Union>r \<in> set rs. mem_region r) = {}" by blast
  have f: "finite (\<Union>r \<in> set rs. mem_region r)" "finite (mem_region r)" by (simp_all add: mem_region_def)
  have "card (\<Union>q \<in> set (r # rs). mem_region q) = card (mem_region r) + card (\<Union>r \<in> set rs. mem_region r)"
    using card_Un_disjoint [OF f(2,1) d] by simp
  then show ?case using Cons.IH [OF rs] by (simp add: mem_region_def)
qed simp

lemma regions_total:
  assumes "mem_ok rs"
  shows "(\<Sum>r \<leftarrow> rs. unat (snd r)) < 2 ^ 64" "unat (\<Sum>r \<leftarrow> rs. snd r) = (\<Sum>r \<leftarrow> rs. unat (snd r))"
proof -
  have "(\<Union>r \<in> set rs. mem_region r) \<subseteq> {..<2 ^ 64 - 1}" using assms by (fastforce simp: mem_ok_def mem_region_def)
  then have "card (\<Union>r \<in> set rs. mem_region r) \<le> 2 ^ 64 - 1" by (metis card_lessThan card_mono finite_lessThan)
  then show s: "(\<Sum>r \<leftarrow> rs. unat (snd r)) < 2 ^ 64" unfolding regions_card [OF assms] by simp
  have "unat (\<Sum>r \<leftarrow> rs. snd r) = (\<Sum>r \<leftarrow> rs. unat (snd r))" if "(\<Sum>r \<leftarrow> rs. unat (snd r)) < 2 ^ 64" for rs :: regions
    using that by (induction rs) (simp_all add: add_fits)
  then show "unat (\<Sum>r \<leftarrow> rs. snd r) = (\<Sum>r \<leftarrow> rs. unat (snd r))" using s .
qed

section \<open>The pool\<close>

text \<open>
  The memory of a block starts with its header, that of the last block with the pool.  What is in use of a block is what lies
  below its current position, the headers included.
\<close>

definition starts :: "pj_pool \<Rightarrow> nat \<Rightarrow> pj_size_t" where
  "starts pool i = (if Suc i = length (pl_block_list pool) then pl_addr pool else pb_addr (pl_block_list pool ! i))"

definition pool_regions :: "pj_pool \<Rightarrow> regions" where
  "pool_regions pool = map (\<lambda>i. (starts pool i, pb_end (pl_block_list pool ! i) - starts pool i)) [0..<length (pl_block_list pool)]"

definition in_use :: "pj_pool \<Rightarrow> nat set" where
  "in_use pool = (\<Union>i < length (pl_block_list pool). {unat (starts pool i) ..< unat (pb_cur (pl_block_list pool ! i))})"

definition headers :: "pj_pool \<Rightarrow> nat set" where
  "headers pool = (\<Union>i < length (pl_block_list pool). {unat (starts pool i) ..< unat (pb_buf (pl_block_list pool ! i))})"

definition pool_ok :: "pj_pool \<Rightarrow> bool" where
  "pool_ok pool \<longleftrightarrow> pl_block_list pool \<noteq> [] \<and> list_all block_ok (pl_block_list pool) \<and>
     unat (pb_addr (last (pl_block_list pool))) = unat (pl_addr pool) + 136 \<and> PJ_IS_POWER_OF_TWO (pl_alignment pool) \<and>
     pl_capacity pool = sum_list (map snd (pool_regions pool))"

text \<open>A pool in the memory of its factory.\<close>

definition pool_in :: "regions \<Rightarrow> pj_pool \<Rightarrow> bool" where
  "pool_in mem pool \<longleftrightarrow> pool_ok pool \<and> mem_ok mem \<and> mset (pool_regions pool) \<subseteq># mset mem"

lemma starts_below:
  assumes "pool_ok pool" "i < length (pl_block_list pool)"
  shows "unat (starts pool i) + 40 \<le> unat (pb_buf (pl_block_list pool ! i))"
    "unat (pb_buf (pl_block_list pool ! i)) \<le> unat (pb_cur (pl_block_list pool ! i))"
    "unat (pb_cur (pl_block_list pool ! i)) \<le> unat (pb_end (pl_block_list pool ! i))"
proof -
  have b: "block_ok (pl_block_list pool ! i)" using assms by (simp add: pool_ok_def list_all_length)
  have "unat (starts pool i) \<le> unat (pb_addr (pl_block_list pool ! i))"
  proof (cases "Suc i = length (pl_block_list pool)")
    case True
    then have "last (pl_block_list pool) = pl_block_list pool ! i"
      by (metis One_nat_def diff_Suc_1' last_conv_nth length_0_conv nat.distinct(1))
    with True assms(1) show ?thesis by (simp add: starts_def pool_ok_def)
  qed (simp add: starts_def)
  then show "unat (starts pool i) + 40 \<le> unat (pb_buf (pl_block_list pool ! i))" using b by (simp add: block_ok_def)
  show "unat (pb_buf (pl_block_list pool ! i)) \<le> unat (pb_cur (pl_block_list pool ! i))"
    "unat (pb_cur (pl_block_list pool ! i)) \<le> unat (pb_end (pl_block_list pool ! i))"
    using b by (simp_all add: block_ok_def word_le_nat_alt)
qed

lemma region_nth:
  assumes "pool_ok pool" "i < length (pl_block_list pool)"
  shows "mem_region (pool_regions pool ! i) = {unat (starts pool i) ..< unat (pb_end (pl_block_list pool ! i))}"
proof -
  have "starts pool i \<le> pb_end (pl_block_list pool ! i)" using starts_below [OF assms] by (simp add: word_le_nat_alt)
  then show ?thesis using assms(2) by (simp add: pool_regions_def mem_region_def unat_sub word_le_nat_alt)
qed

lemma in_use_regions:
  assumes "pool_ok pool" "x \<in> in_use pool"
  shows "\<exists>r \<in> set (pool_regions pool). x \<in> mem_region r"
proof -
  obtain i where i: "i < length (pl_block_list pool)" "x \<in> {unat (starts pool i) ..< unat (pb_cur (pl_block_list pool ! i))}"
    using assms(2) by (auto simp: in_use_def)
  then have "x \<in> mem_region (pool_regions pool ! i)" using starts_below(3) [OF assms(1) i(1)] region_nth [OF assms(1) i(1)] by simp
  moreover have "pool_regions pool ! i \<in> set (pool_regions pool)" using i(1) by (intro nth_mem) (simp add: pool_regions_def)
  ultimately show ?thesis by blast
qed

lemma headers_in_use: "pool_ok pool \<Longrightarrow> headers pool \<subseteq> in_use pool"
proof
  fix x assume ok: "pool_ok pool" and "x \<in> headers pool"
  then obtain i where i: "i < length (pl_block_list pool)" "x \<in> {unat (starts pool i) ..< unat (pb_buf (pl_block_list pool ! i))}"
    by (auto simp: headers_def)
  then have "x \<in> {unat (starts pool i) ..< unat (pb_cur (pl_block_list pool ! i))}" using starts_below(2) [OF ok i(1)] by simp
  then show "x \<in> in_use pool" using i(1) unfolding in_use_def by blast
qed

text \<open>Moving up the current position of one block.\<close>

lemma update_block:
  assumes "pool_in mem pool" "i < length (pl_block_list pool)" "PJ_IS_POWER_OF_TWO a"
    and "pj_pool_alloc_from_block (pl_block_list pool ! i) a sz = (b', Some p)"
  defines "pool' \<equiv> pool\<lparr>pl_block_list := (pl_block_list pool)[i := b']\<rparr>"
  shows "pool_in mem pool'" "pool_regions pool' = pool_regions pool" "in_use pool \<subseteq> in_use pool'"
    "{unat p ..< unat p + unat sz} \<subseteq> in_use pool' - in_use pool" "PJ_IS_ALIGNED p a" "headers pool' = headers pool"
proof -
  let ?bs = "pl_block_list pool"
  have ok: "pool_ok pool" and m: "mem_ok (pool_regions pool)" using assms(1) mem_ok_sub by (auto simp: pool_in_def)
  have bok: "block_ok (?bs ! i)" using ok assms(2) by (simp add: pool_ok_def list_all_length)
  note s = alloc_from_block_some [OF assms(4) bok assms(3)]
  have adr: "pb_addr (?bs[i := b'] ! j) = pb_addr (?bs ! j)" for j using s(5) assms(2) by (cases "j = i") simp_all
  then have st: "starts pool' j = starts pool j" for j by (simp add: starts_def pool'_def)
  have nth: "pb_end (pl_block_list pool' ! j) = pb_end (?bs ! j)" for j using s(6) assms(2) by (cases "j = i") (simp_all add: pool'_def)
  show r: "pool_regions pool' = pool_regions pool" by (simp add: pool_regions_def st nth) (simp add: pool'_def)
  have "list_all block_ok (?bs[i := b'])" using ok s(2) by (auto simp: pool_ok_def list_all_iff dest: set_update_subset_insert [THEN subsetD])
  moreover have "pb_addr (last (?bs[i := b'])) = pb_addr (last ?bs)" using adr ok by (simp add: pool_ok_def last_conv_nth)
  ultimately have "pool_ok pool'" using ok r by (simp add: pool_ok_def pool'_def)
  then show "pool_in mem pool'" using assms(1) r by (simp add: pool_in_def)
  have c: "pb_cur (pl_block_list pool' ! j) = (if j = i then pb_cur b' else pb_cur (?bs ! j))" if "j < length ?bs" for j
    using that by (simp add: pool'_def nth_list_update)
  have up: "unat (pb_cur (?bs ! i)) \<le> unat (pb_cur b')" using s(3,4) by simp
  have len: "length (pl_block_list pool') = length ?bs" by (simp add: pool'_def)
  show "in_use pool \<subseteq> in_use pool'"
  proof
    fix x assume "x \<in> in_use pool"
    then obtain j where "j < length ?bs" "x \<in> {unat (starts pool j) ..< unat (pb_cur (?bs ! j))}" by (auto simp: in_use_def)
    then have "x \<in> {unat (starts pool' j) ..< unat (pb_cur (pl_block_list pool' ! j))}" "j < length (pl_block_list pool')"
      using up c [of j] st [of j] len by (auto split: if_splits)
    then show "x \<in> in_use pool'" unfolding in_use_def by blast
  qed
  show "PJ_IS_ALIGNED p a" by (rule s(1))
  have "pb_buf (pl_block_list pool' ! j) = pb_buf (?bs ! j)" for j using s(7) assms(2) by (cases "j = i") (simp_all add: pool'_def)
  then show "headers pool' = headers pool" by (simp add: headers_def st len)
  note lo = starts_below [OF ok assms(2)]
  have hi: "unat (pb_cur b') \<le> unat (pb_end (?bs ! i))" using s(2,6) by (simp add: block_ok_def word_le_nat_alt)
  show "{unat p ..< unat p + unat sz} \<subseteq> in_use pool' - in_use pool"
  proof
    fix x assume x: "x \<in> {unat p ..< unat p + unat sz}"
    then have "x \<in> {unat (starts pool i) ..< unat (pb_cur b')}" using lo s(3,4) by simp
    then have "x \<in> in_use pool'" using assms(2) c [of i] st [of i] len unfolding in_use_def by force
    moreover have "x \<notin> in_use pool"
    proof
      assume "x \<in> in_use pool"
      then obtain j where j: "j < length ?bs" "x \<in> {unat (starts pool j) ..< unat (pb_cur (?bs ! j))}" by (auto simp: in_use_def)
      have "j \<noteq> i" using j(2) x s(3) by auto
      moreover have "x \<in> mem_region (pool_regions pool ! j)" using j starts_below(3) [OF ok j(1)] region_nth [OF ok j(1)] by simp
      moreover have "x \<in> mem_region (pool_regions pool ! i)" using x lo s(3,4) hi region_nth [OF ok assms(2)] by simp
      ultimately show False using mem_ok_disjoint [OF m, of i j] assms(2) j(1) by (auto simp: pool_regions_def)
    qed
    ultimately show "x \<in> in_use pool' - in_use pool" by simp
  qed
qed

text \<open>A new block in front of the others.\<close>

lemma new_block:
  assumes "pool_in mem pool" "good_alloc alloc" "alloc mem sz = Some a" "40 \<le> unat sz"
    and "pj_pool_create_block alloc sz (pool, mem) = ((pool', mem'), ok)"
  shows "ok" "pool_in mem' pool'" "pool_regions pool' = (a, sz) # pool_regions pool" "mem' = (a, sz) # mem"
    "in_use pool \<subseteq> in_use pool'" "pl_alignment pool' = pl_alignment pool" "pl_increment_size pool' = pl_increment_size pool"
    "pl_addr pool' = pl_addr pool" "unat (pb_end (hd (pl_block_list pool'))) = unat (pb_cur (hd (pl_block_list pool'))) + (unat sz - 40)"
    "headers pool' = headers pool \<union> {unat a ..< unat a + 40}" "{unat a ..< unat a + 40} \<subseteq> in_use pool' - in_use pool"
    "pl_factory_data pool' = pl_factory_data pool" "last (pool_regions pool') = last (pool_regions pool)"
proof -
  let ?b = "\<lparr>pb_addr = a, pb_buf = a + 40, pb_cur = a + 40, pb_end = a + sz\<rparr>" and ?bs = "pl_block_list pool"
  have p: "pool' = pool\<lparr>pl_capacity := pl_capacity pool + sz, pl_block_list := ?b # ?bs\<rparr>" "mem' = (a, sz) # mem" "ok"
    using assms(3,5) by (auto simp: pj_pool_create_block_def sizeof_pool_block_def)
  show "ok" "mem' = (a, sz) # mem" "pl_factory_data pool' = pl_factory_data pool" "pl_alignment pool' = pl_alignment pool" "pl_increment_size pool' = pl_increment_size pool"
    "pl_addr pool' = pl_addr pool" by (simp_all add: p)
  have f: "unat a + unat sz < 2 ^ 64" using assms(2,3) by (simp add: good_alloc_def)
  have u: "unat (a + sz) = unat a + unat sz" "unat (a + 40) = unat a + 40"
    using add_fits [OF f] add_fits [of a 40] f assms(4) by simp_all
  show "unat (pb_end (hd (pl_block_list pool'))) = unat (pb_cur (hd (pl_block_list pool'))) + (unat sz - 40)"
    using assms(4) by (simp add: p u)
  have n: "?bs \<noteq> []" using assms(1) by (simp add: pool_in_def pool_ok_def)
  have s: "starts pool' 0 = a" "starts pool' (Suc i) = starts pool i" for i using n by (simp_all add: p starts_def)
  have u0: "[0..<Suc (length ?bs)] = 0 # map Suc [0..<length ?bs]" by (simp add: map_Suc_upt upt_conv_Cons del: upt_Suc)
  show r: "pool_regions pool' = (a, sz) # pool_regions pool"
    by (simp add: pool_regions_def p(1) u0 del: upt_Suc) (simp add: s [unfolded p(1)] comp_def)
  then show "last (pool_regions pool') = last (pool_regions pool)" using n by (simp add: pool_regions_def)
  have bu: "pb_buf (pl_block_list pool' ! 0) = a + 40" "pb_buf (pl_block_list pool' ! Suc i) = pb_buf (?bs ! i)"
    "pb_cur (pl_block_list pool' ! 0) = a + 40" for i by (simp_all add: p)
  have lt: "{..<length (pl_block_list pool')} = insert 0 (Suc ` {..<length ?bs})" by (simp add: p lessThan_Suc_eq_insert_0)
  show "headers pool' = headers pool \<union> {unat a ..< unat a + 40}" unfolding headers_def lt by (auto simp: s bu u)
  have "{unat a ..< unat a + 40} \<inter> in_use pool = {}"
  proof (rule ccontr)
    assume "\<not> ?thesis"
    then obtain x where x0: "x \<in> {unat a ..< unat a + 40}" "x \<in> in_use pool" by blast
    then obtain r where x: "x \<in> {unat a ..< unat a + 40}" "r \<in> set (pool_regions pool)" "x \<in> mem_region r"
      using in_use_regions [of pool x] assms(1) by (auto simp: pool_in_def)
    then have "r \<in> set mem" using assms(1) by (auto simp: pool_in_def dest: mset_subset_eqD)
    then have "mem_region r \<inter> mem_region (a, sz) = {}" using assms(2,3) by (simp add: good_alloc_def)
    moreover have "x \<in> mem_region (a, sz)" using x(1) assms(4) by (simp add: mem_region_def)
    ultimately show False using x(3) by blast
  qed
  moreover have "{unat a ..< unat a + 40} \<subseteq> in_use pool'" unfolding in_use_def lt by (auto simp: s bu u)
  ultimately show "{unat a ..< unat a + 40} \<subseteq> in_use pool' - in_use pool" by blast
  have "block_ok ?b" using assms(4) by (simp add: block_ok_def u word_le_nat_alt)
  then have "pool_ok pool'" using assms(1) r by (simp add: pool_in_def pool_ok_def p(1) add.commute)
  moreover have "mem_ok mem'" using mem_ok_Cons assms(1-3) by (simp add: p(2) pool_in_def)
  ultimately show "pool_in mem' pool'" using assms(1) r by (simp add: pool_in_def p(2))
  show "in_use pool \<subseteq> in_use pool'"
  proof
    fix x assume "x \<in> in_use pool"
    then obtain j where "j < length ?bs" "x \<in> {unat (starts pool j) ..< unat (pb_cur (?bs ! j))}" by (auto simp: in_use_def)
    then have "Suc j < length (pl_block_list pool')" "x \<in> {unat (starts pool' (Suc j)) ..< unat (pb_cur (pl_block_list pool' ! Suc j))}"
      by (simp_all add: s) (simp_all add: p(1))
    then show "x \<in> in_use pool'" unfolding in_use_def by blast
  qed
qed

lemma find_in_blocks_some:
  "find_in_blocks a sz n bs = (bs', Some p) \<Longrightarrow>
    \<exists>i b'. i < length bs \<and> pj_pool_alloc_from_block (bs ! i) a sz = (b', Some p) \<and> bs' = bs[i := b']"
proof (induction a sz n bs arbitrary: bs' rule: find_in_blocks.induct)
  case (2 a sz n b bs)
  obtain b' r where r: "pj_pool_alloc_from_block b a sz = (b', r)" by fastforce
  show ?case
  proof (cases r)
    case None
    then obtain bs1 where "find_in_blocks a sz (n + 1) bs = (bs1, Some p)" "bs' = b # bs1" "\<not> n \<ge> PJ_POOL_MAX_SEARCH_BLOCK_COUNT"
      using 2(2) r by (auto split: if_splits prod.splits)
    then obtain i b1 where "i < length bs" "pj_pool_alloc_from_block (bs ! i) a sz = (b1, Some p)" "bs1 = bs[i := b1]"
      using 2(1) [OF r [symmetric] None] by blast
    then show ?thesis using \<open>bs' = b # bs1\<close> by (intro exI [of _ "Suc i"] exI [of _ b1]) simp
  next
    case (Some q)
    then show ?thesis using 2(2) r by (intro exI [of _ 0] exI [of _ b']) simp
  qed
qed simp

lemma no_memory_same [simp]:
  "pool_in mem (no_memory sz pool) = pool_in mem pool" "pool_regions (no_memory sz pool) = pool_regions pool" "in_use (no_memory sz pool) = in_use pool"
  "headers (no_memory sz pool) = headers pool" "pl_factory_data (no_memory sz pool) = pl_factory_data pool" "pl_alignment (no_memory sz pool) = pl_alignment pool" "pl_increment_size (no_memory sz pool) = pl_increment_size pool"
  "pl_addr (no_memory sz pool) = pl_addr pool" "pl_block_list (no_memory sz pool) = pl_block_list pool"
proof -
  have "starts (no_memory sz pool) = starts pool" by (simp add: fun_eq_iff starts_def no_memory_def)
  then show r: "pool_regions (no_memory sz pool) = pool_regions pool" "in_use (no_memory sz pool) = in_use pool"
    "headers (no_memory sz pool) = headers pool"
    by (simp_all add: pool_regions_def in_use_def headers_def) (simp_all add: no_memory_def)
  then show "pool_in mem (no_memory sz pool) = pool_in mem pool" by (simp add: pool_in_def pool_ok_def) (simp add: no_memory_def)
qed (simp_all add: no_memory_def)

section \<open>Allocation\<close>

text \<open>What an allocation with an effective alignment of \<open>a\<close> does to the pool and its memory.\<close>

definition allocated :: "pj_size_t \<Rightarrow> pj_size_t \<Rightarrow> pj_pool \<times> regions \<Rightarrow> pj_pool \<times> regions \<Rightarrow> pj_size_t option \<Rightarrow> bool" where
  "allocated a sz pm pm' r \<longleftrightarrow> pool_in (snd pm') (fst pm') \<and>
     mset (snd pm') + mset (pool_regions (fst pm)) = mset (snd pm) + mset (pool_regions (fst pm')) \<and>
     in_use (fst pm) \<subseteq> in_use (fst pm') \<and> pl_alignment (fst pm') = pl_alignment (fst pm) \<and>
     pl_increment_size (fst pm') = pl_increment_size (fst pm) \<and> pl_addr (fst pm') = pl_addr (fst pm) \<and>
     pl_factory_data (fst pm') = pl_factory_data (fst pm) \<and> last (pool_regions (fst pm')) = last (pool_regions (fst pm)) \<and>
     headers (fst pm') - headers (fst pm) \<subseteq> - in_use (fst pm) \<and>
     (\<forall>p. r = Some p \<longrightarrow> PJ_IS_ALIGNED p a \<and> {unat p ..< unat p + unat sz} \<subseteq> in_use (fst pm') - in_use (fst pm) - headers (fst pm'))"

text \<open>A request whose size does not make the arithmetic on the size of a new block wrap around.\<close>

definition request_fits :: "pj_size_t \<Rightarrow> pj_size_t \<Rightarrow> pj_size_t \<Rightarrow> bool" where
  "request_fits inc a sz \<longleftrightarrow> unat inc + 40 + unat a + unat sz < 2 ^ 64"

lemma allocated_update:
  assumes "pool_in mem pool" "i < length (pl_block_list pool)" "PJ_IS_POWER_OF_TWO a"
    and "pj_pool_alloc_from_block (pl_block_list pool ! i) a sz = (b', Some p)"
  shows "allocated a sz (pool, mem) (pool\<lparr>pl_block_list := (pl_block_list pool)[i := b']\<rparr>, mem) (Some p)"
  using update_block [OF assms] headers_in_use [of pool] assms(1) by (auto simp: allocated_def pool_in_def)

lemma allocated_none: "pool_in mem pool \<Longrightarrow> allocated a sz (pool, mem) (pool, mem) None"
  "pool_in mem pool \<Longrightarrow> allocated a sz (pool, mem) (no_memory n pool, mem) None"
  by (simp_all add: allocated_def)

lemma allocated_new_block:
  assumes "pool_in mem pool" "good_alloc alloc" "PJ_IS_POWER_OF_TWO a" "request_fits inc a sz" "inc \<noteq> 0"
    and "pj_pool_create_block alloc (expand_size inc a sz) (pool, mem) = ((pool1, mem1), True)"
  obtains b p where "pj_pool_alloc_from_block (hd (pl_block_list pool1)) a sz = (b, Some p)"
    "allocated a sz (pool, mem) (pool1\<lparr>pl_block_list := b # tl (pl_block_list pool1)\<rparr>, mem1) (Some p)"
proof -
  obtain x where x: "alloc mem (expand_size inc a sz) = Some x"
    using assms(6) by (cases "alloc mem (expand_size inc a sz)") (auto simp: pj_pool_create_block_def)
  have "0 < a" using assms(3) by (simp add: PJ_IS_POWER_OF_TWO_def)
  then have e: "40 + (unat a - 1) + unat sz \<le> unat (expand_size inc a sz)" using expand_size_enough assms(4,5) by (simp add: request_fits_def)
  then have e40: "40 \<le> unat (expand_size inc a sz)" by simp
  note n = new_block [OF assms(1,2) x e40 assms(6)]
  have ne: "pl_block_list pool1 \<noteq> []" using n(2) by (simp add: pool_in_def pool_ok_def)
  have b0: "block_ok (hd (pl_block_list pool1))" using n(2) ne by (auto simp: pool_in_def pool_ok_def list_all_iff)
  obtain b r where r: "pj_pool_alloc_from_block (hd (pl_block_list pool1)) a sz = (b, r)" by fastforce
  have "r \<noteq> None"
  proof
    assume "r = None"
    then show False using alloc_from_block_none(2) [of "hd (pl_block_list pool1)" a sz b] r b0 assms(3) n(9) e by simp
  qed
  then obtain p where p: "r = Some p" by blast
  let ?pool2 = "pool1\<lparr>pl_block_list := (pl_block_list pool1)[0 := b]\<rparr>"
  have u: "(pl_block_list pool1)[0 := b] = b # tl (pl_block_list pool1)" using ne by (cases "pl_block_list pool1") simp_all
  have "pj_pool_alloc_from_block (pl_block_list pool1 ! 0) a sz = (b, Some p)" using r p ne by (simp add: hd_conv_nth)
  from allocated_update [OF n(2) _ assms(3) this] ne have "allocated a sz (pool1, mem1) (?pool2, mem1) (Some p)" by simp
  then have "allocated a sz (pool, mem) (?pool2, mem1) (Some p)" using n(3-8,10-13) by (auto simp: allocated_def)
  then show ?thesis using that r p u by simp
qed

lemma aligned_alloc_allocated:
  assumes "pool_in mem pool" "good_alloc alloc" "pj_pool_aligned_alloc alloc a sz (pool, mem) = (pm', r)"
    and "request_fits (pl_increment_size pool) (if a = 0 then pl_alignment pool else a) sz"
  shows "allocated (if a = 0 then pl_alignment pool else a) sz (pool, mem) pm' r"
proof (cases "a = 0 \<or> PJ_IS_POWER_OF_TWO a")
  case False
  then show ?thesis using assms(1,3) by (auto simp: pj_pool_aligned_alloc_def allocated_none)
next
  case True
  define a' where "a' = (if a = 0 then pl_alignment pool else a)"
  have a: "PJ_IS_POWER_OF_TWO a'" using True assms(1) by (auto simp: a'_def pool_in_def pool_ok_def)
  have ne: "pl_block_list pool \<noteq> []" using assms(1) by (simp add: pool_in_def pool_ok_def)
  have u: "(pl_block_list pool)[0 := b] = b # tl (pl_block_list pool)" for b using ne by (cases "pl_block_list pool") simp_all
  have inc: "pl_increment_size pool = 0 \<or> pl_increment_size pool \<noteq> 0" by simp
  obtain b r0 where b: "pj_pool_alloc_from_block (hd (pl_block_list pool)) a' sz = (b, r0)" by fastforce
  obtain bs r1 where f: "find_in_blocks a' sz 0 (pl_block_list pool) = (bs, r1)" by fastforce
  obtain pm1 ok where c: "pj_pool_create_block alloc (expand_size (pl_increment_size pool) a' sz) (pool, mem) = (pm1, ok)" by fastforce
  have e: "(pm', r) = (case r0 of Some p \<Rightarrow> ((pool\<lparr>pl_block_list := b # tl (pl_block_list pool)\<rparr>, mem), Some p)
      | None \<Rightarrow> pj_pool_allocate_find alloc a' sz (pool, mem))"
    using assms(3) True b by (auto simp: pj_pool_aligned_alloc_def a'_def Let_def split: option.splits)
  consider p where "r0 = Some p" | p where "r0 = None" "r1 = Some p" | "r0 = None" "r1 = None" "pl_increment_size pool = 0"
    | "r0 = None" "r1 = None" "pl_increment_size pool \<noteq> 0" "\<not> ok" | "r0 = None" "r1 = None" "pl_increment_size pool \<noteq> 0" "ok"
    by (cases r0; cases r1) auto
  then have "allocated a' sz (pool, mem) pm' r"
  proof cases
    case (1 p)
    then show ?thesis using e b allocated_update [OF assms(1) _ a, of 0 sz b p] ne u by (simp add: hd_conv_nth)
  next
    case (2 p)
    obtain i b' where "i < length (pl_block_list pool)" "pj_pool_alloc_from_block (pl_block_list pool ! i) a' sz = (b', Some p)"
      "bs = (pl_block_list pool)[i := b']" using find_in_blocks_some f 2(2) by blast
    then show ?thesis using allocated_update [OF assms(1) _ a] e f 2 by (simp add: pj_pool_allocate_find_def)
  next
    case 3
    then show ?thesis using e f assms(1) by (simp add: pj_pool_allocate_find_def allocated_none)
  next
    case 4
    then have "(pm', r) = (pm1, None)" "pm1 = (no_memory (expand_size (pl_increment_size pool) a' sz) pool, mem)"
      using e f c by (auto simp: pj_pool_allocate_find_def pj_pool_create_block_def split: option.splits)
    then show ?thesis using assms(1) by (simp add: allocated_none)
  next
    case 5
    obtain pool1 mem1 where pm1: "pm1 = (pool1, mem1)" by fastforce
    obtain b2 p where "pj_pool_alloc_from_block (hd (pl_block_list pool1)) a' sz = (b2, Some p)"
      "allocated a' sz (pool, mem) (pool1\<lparr>pl_block_list := b2 # tl (pl_block_list pool1)\<rparr>, mem1) (Some p)"
      using allocated_new_block [OF assms(1,2) a assms(4) [folded a'_def] 5(3)] c 5(4) pm1 by metis
    then show ?thesis using e f c 5 pm1 by (simp add: pj_pool_allocate_find_def)
  qed
  then show ?thesis by (simp add: a'_def)
qed

section \<open>Creation, reset and end\<close>

lemma regions_butlast:
  assumes "pl_block_list pool \<noteq> []"
  shows "pool_regions pool = map (\<lambda>b. (pb_addr b, pb_end b - pb_addr b)) (butlast (pl_block_list pool)) @
    [(pl_addr pool, pb_end (last (pl_block_list pool)) - pl_addr pool)]"
proof (rule nth_equalityI)
  fix i assume "i < length (pool_regions pool)"
  then have i: "i < length (pl_block_list pool)" by (simp add: pool_regions_def)
  show "pool_regions pool ! i = (map (\<lambda>b. (pb_addr b, pb_end b - pb_addr b)) (butlast (pl_block_list pool)) @
      [(pl_addr pool, pb_end (last (pl_block_list pool)) - pl_addr pool)]) ! i"
  proof (cases "Suc i = length (pl_block_list pool)")
    case True
    then have "last (pl_block_list pool) = pl_block_list pool ! i" "i = length (butlast (pl_block_list pool))"
      using assms by (simp_all add: last_conv_nth flip: True)
    with True i show ?thesis by (simp add: pool_regions_def starts_def nth_append)
  next
    case False
    with i have "i < length (pl_block_list pool) - 1" by simp
    with i False show ?thesis by (simp add: pool_regions_def starts_def nth_append nth_butlast)
  qed
qed (use assms in \<open>simp add: pool_regions_def\<close>)

lemma free_all: "mset (foldl (\<lambda>mem b. block_free (f b) (g b) mem) mem bs) = mset mem - mset (map (\<lambda>b. (f b, g b)) bs)"
  by (induction bs arbitrary: mem) (simp_all add: block_free_def)

lemma rest_sub:
  assumes "B + L \<subseteq># M"
  shows "L \<subseteq># M - B"
proof (rule mset_subset_eqI)
  fix a show "count L a \<le> count (M - B) a" using mset_subset_eq_count [OF assms, of a] by simp
qed

lemma reset_pool_spec:
  assumes "pool_in mem pool" "reset_pool (pool, mem) = (pool', mem')"
  shows "pool_in mem' pool'" "mset mem' + mset (pool_regions pool) = mset mem + mset (pool_regions pool')"
    "pool_regions pool' = [last (pool_regions pool)]" "in_use pool' = {unat (pl_addr pool) ..< unat (pb_buf (last (pl_block_list pool)))}"
    "pl_addr pool' = pl_addr pool" "pl_factory_data pool' = pl_factory_data pool" "pl_capacity pool' = snd (last (pool_regions pool))"
proof -
  let ?bs = "pl_block_list pool" and ?l = "last (pl_block_list pool)"
  have ok: "pool_ok pool" and sub: "mset (pool_regions pool) \<subseteq># mset mem" and m: "mem_ok mem" using assms(1) by (auto simp: pool_in_def)
  have ne: "?bs \<noteq> []" and bl: "block_ok ?l" using ok by (auto simp: pool_ok_def list_all_iff)
  note rg = regions_butlast [OF ne]
  have p: "pool' = pool\<lparr>pl_block_list := [?l\<lparr>pb_cur := pb_buf ?l\<rparr>], pl_capacity := pb_end ?l - pl_addr pool\<rparr>"
    "mem' = foldl (\<lambda>mem b. block_free (pb_addr b) (pb_end b - pb_addr b) mem) mem (rev (butlast ?bs))"
    using assms(2) ne by (auto simp: reset_pool_def Let_def split: list.splits)
  have r: "pool_regions pool' = [(pl_addr pool, pb_end ?l - pl_addr pool)]" by (simp add: pool_regions_def starts_def p(1))
  show r': "pool_regions pool' = [last (pool_regions pool)]" by (simp add: r rg)
  show "pl_addr pool' = pl_addr pool" "pl_factory_data pool' = pl_factory_data pool" "pl_capacity pool' = snd (last (pool_regions pool))"
    by (simp_all add: p(1) rg)
  show "in_use pool' = {unat (pl_addr pool) ..< unat (pb_buf ?l)}" by (simp add: in_use_def starts_def p(1) lessThan_Suc)
  have mm: "mset mem' = mset mem - mset (map (\<lambda>b. (pb_addr b, pb_end b - pb_addr b)) (butlast ?bs))"
    unfolding p(2) free_all by simp
  have sb: "mset (map (\<lambda>b. (pb_addr b, pb_end b - pb_addr b)) (butlast ?bs)) \<subseteq># mset mem"
    using sub unfolding rg mset_append by (rule subset_mset.order_trans [OF mset_subset_eq_add_left])
  show "mset mem' + mset (pool_regions pool) = mset mem + mset (pool_regions pool')"
    unfolding mm rg r mset_append add.assoc [symmetric] subset_mset.diff_add [OF sb] by (rule refl)
  have "block_ok (?l\<lparr>pb_cur := pb_buf ?l\<rparr>)" using bl by (auto simp: block_ok_def)
  moreover have "pl_capacity pool' = sum_list (map snd (pool_regions pool'))" unfolding r by (simp add: p(1))
  ultimately have "pool_ok pool'" using ok by (simp add: pool_ok_def p(1))
  moreover have "mem_ok mem'" by (rule mem_ok_sub [OF _ m]) (simp add: mm)
  moreover have "mset (pool_regions pool') \<subseteq># mset mem'"
    using sub unfolding mm rg r mset_append by (rule rest_sub)
  ultimately show "pool_in mem' pool'" by (simp add: pool_in_def)
qed

lemma mset_shift:
  fixes D R R' M M' :: "'a multiset"
  assumes "D + R' = M'" "M' + R = M + R'"
  shows "D + R = M"
proof -
  have "(D + R) + R' = M + R'" using assms by (metis add.assoc add.commute)
  then show ?thesis by simp
qed

lemma destroy_spec:
  assumes "pool_in mem pool"
  shows "mset (pj_pool_destroy_int (pool, mem)) + mset (pool_regions pool) = mset mem" "mem_ok (pj_pool_destroy_int (pool, mem))"
proof -
  obtain pool' mem' where r: "reset_pool (pool, mem) = (pool', mem')" by fastforce
  note s = reset_pool_spec [OF assms r]
  have ne: "pl_block_list pool' \<noteq> []" using s(1) by (simp add: pool_in_def pool_ok_def)
  have "length (pool_regions pool') = 1" using s(3) by simp
  then have l: "length (pl_block_list pool') = 1" by (simp add: pool_regions_def)
  then have "pool_regions pool' = [(pl_addr pool', pb_end (hd (pl_block_list pool')) - pl_addr pool')]"
    using regions_butlast [OF ne] ne by (cases "pl_block_list pool'") simp_all
  moreover have "mset (pool_regions pool') \<subseteq># mset mem'" using s(1) by (simp add: pool_in_def)
  ultimately have d: "mset (pj_pool_destroy_int (pool, mem)) = mset mem' - mset (pool_regions pool')" "mset (pool_regions pool') \<subseteq># mset mem'"
    using r by (simp_all add: pj_pool_destroy_int_def block_free_def)
  then have "mset (pj_pool_destroy_int (pool, mem)) + mset (pool_regions pool') = mset mem'" by simp
  then show "mset (pj_pool_destroy_int (pool, mem)) + mset (pool_regions pool) = mset mem" using s(2) by (rule mset_shift)
  have "mem_ok mem'" using s(1) by (simp add: pool_in_def)
  then show "mem_ok (pj_pool_destroy_int (pool, mem))" by (rule mem_ok_sub [rotated]) (simp add: d(1))
qed

lemma create_spec:
  assumes "mem_ok mem" "good_alloc alloc" "pj_pool_create_int alloc isz inc a mem = (mem', Some pool)"
  shows "pool_in mem' pool" "pl_capacity pool = isz" "pl_increment_size pool = inc" "\<exists>x. pool_regions pool = [(x, isz)] \<and> mem' = (x, isz) # mem"
    "in_use pool = {unat (pl_addr pool) ..< unat (pl_addr pool) + 176}"
proof -
  obtain x where x: "alloc mem isz = Some x" and sz: "(176 :: 64 word) \<le> isz" and a: "a = 0 \<or> PJ_IS_POWER_OF_TWO a"
    and m: "mem' = (x, isz) # mem"
    and p: "pool = \<lparr>pl_addr = x, pl_factory_data = 0, pl_capacity = isz, pl_increment_size = inc,
      pl_block_list = [\<lparr>pb_addr = x + 136, pb_buf = x + 136 + 40, pb_cur = x + 136 + 40, pb_end = x + isz\<rparr>],
      pl_alignment = (if a = 0 then PJ_POOL_ALIGNMENT else a), pl_no_memory = []\<rparr>"
    using assms(3) by (auto simp: pj_pool_create_int_def pj_pool_init_int_def sizeof_pool_def sizeof_pool_block_def Let_def split: if_splits option.splits)
  have f: "unat x + unat isz < 2 ^ 64" using assms(2) x by (simp add: good_alloc_def)
  have s: "176 \<le> unat isz" using sz by (simp add: word_le_nat_alt)
  have u: "unat (x + isz) = unat x + unat isz" "unat (x + 136) = unat x + 136" "unat (176 + x) = 176 + unat x"
    using add_fits [OF f] add_fits [of x 136] add_fits [of 176 x] f s by simp_all
  have r: "pool_regions pool = [(x, isz)]" by (simp add: pool_regions_def starts_def p)
  have "PJ_IS_POWER_OF_TWO PJ_POOL_ALIGNMENT" by (simp add: PJ_IS_POWER_OF_TWO_def PJ_POOL_ALIGNMENT_def)
  then have "pool_ok pool" using a r s by (simp add: pool_ok_def) (auto simp: p block_ok_def u word_le_nat_alt)
  then show "pool_in mem' pool" using mem_ok_Cons [OF assms(1,2) x] r m by (simp add: pool_in_def)
  show "pl_capacity pool = isz" "pl_increment_size pool = inc" "\<exists>x. pool_regions pool = [(x, isz)] \<and> mem' = (x, isz) # mem"
    using r m by (simp_all add: p)
  show "in_use pool = {unat (pl_addr pool) ..< unat (pl_addr pool) + 176}" by (simp add: in_use_def starts_def p lessThan_Suc u) (simp add: add.commute)
qed

section \<open>Sequences of allocations\<close>

definition effective_alignment :: "pj_pool \<Rightarrow> pj_size_t \<Rightarrow> pj_size_t" where
  "effective_alignment pool a = (if a = 0 then pl_alignment pool else a)"

fun pool_run :: "block_alloc \<Rightarrow> (pj_size_t \<times> pj_size_t) list \<Rightarrow> pj_pool \<times> regions \<Rightarrow> (pj_pool \<times> regions) \<times> pj_size_t option list" where
  "pool_run alloc [] pm = (pm, [])"
| "pool_run alloc ((a, sz) # reqs) pm =
     (case pj_pool_aligned_alloc alloc a sz pm of (pm', r) \<Rightarrow>
        case pool_run alloc reqs pm' of (pm'', rs) \<Rightarrow> (pm'', r # rs))"

definition chunk :: "(pj_size_t \<times> pj_size_t) \<Rightarrow> pj_size_t option \<Rightarrow> nat set" where
  "chunk req r = (case r of None \<Rightarrow> {} | Some p \<Rightarrow> {unat p ..< unat p + unat (snd req)})"

text \<open>Pairwise disjoint sets, as a list.\<close>

fun disjoint_list :: "nat set list \<Rightarrow> bool" where
  "disjoint_list [] = True"
| "disjoint_list (s # ss) = ((\<forall>t \<in> set ss. s \<inter> t = {}) \<and> disjoint_list ss)"

lemma mset_chain:
  fixes A B C D E F :: "'a multiset"
  assumes "A + B = C + D" "C + E = F + B"
  shows "A + E = F + D"
proof -
  have "(A + E) + B = (F + D) + B" using assms by (metis add.assoc add.commute)
  then show ?thesis by simp
qed

lemma pool_run_spec:
  assumes "good_alloc alloc" "pool_in mem pool" "pool_run alloc reqs (pool, mem) = ((pool', mem'), rs)"
    "list_all (\<lambda>(a, sz). request_fits (pl_increment_size pool) (effective_alignment pool a) sz) reqs"
  shows "pool_in mem' pool' \<and> length rs = length reqs \<and> in_use pool \<subseteq> in_use pool' \<and> headers pool' - headers pool \<subseteq> - in_use pool \<and>
    disjoint_list (map2 chunk reqs rs) \<and>
    (\<forall>c \<in> set (map2 chunk reqs rs). c \<subseteq> in_use pool' - in_use pool - headers pool') \<and>
    list_all2 (\<lambda>(a, sz) r. \<forall>p. r = Some p \<longrightarrow> PJ_IS_ALIGNED p (effective_alignment pool a)) reqs rs \<and>
    mset mem' + mset (pool_regions pool) = mset mem + mset (pool_regions pool')"
  using assms(2-4)
proof (induction reqs arbitrary: pool mem rs)
  case (Cons req reqs)
  obtain a sz where q: "req = (a, sz)" by fastforce
  obtain pool1 mem1 r where s: "pj_pool_aligned_alloc alloc a sz (pool, mem) = ((pool1, mem1), r)" by (metis prod.exhaust)
  obtain rs1 where rn: "pool_run alloc reqs (pool1, mem1) = ((pool', mem'), rs1)" "rs = r # rs1"
    using Cons.prems(2) q s by (auto split: prod.splits)
  have al: "allocated (effective_alignment pool a) sz (pool, mem) (pool1, mem1) r"
    using aligned_alloc_allocated [OF Cons.prems(1) assms(1) s] Cons.prems(3) q by (simp add: effective_alignment_def)
  then have e: "effective_alignment pool1 = effective_alignment pool" "pl_increment_size pool1 = pl_increment_size pool"
    by (simp_all add: allocated_def effective_alignment_def fun_eq_iff)
  have ih: "pool_in mem' pool' \<and> length rs1 = length reqs \<and> in_use pool1 \<subseteq> in_use pool' \<and> headers pool' - headers pool1 \<subseteq> - in_use pool1 \<and>
      disjoint_list (map2 chunk reqs rs1) \<and> (\<forall>c \<in> set (map2 chunk reqs rs1). c \<subseteq> in_use pool' - in_use pool1 - headers pool') \<and>
      list_all2 (\<lambda>(a, sz) r. \<forall>p. r = Some p \<longrightarrow> PJ_IS_ALIGNED p (effective_alignment pool a)) reqs rs1 \<and>
      mset mem' + mset (pool_regions pool1) = mset mem1 + mset (pool_regions pool')"
    using Cons.IH [OF _ rn(1)] al Cons.prems(3) e by (simp add: allocated_def)
  have c: "chunk req r \<subseteq> in_use pool1 - in_use pool - headers pool1" using al by (auto simp: allocated_def chunk_def q split: option.splits)
  have h: "in_use pool \<subseteq> in_use pool1" "headers pool1 - headers pool \<subseteq> - in_use pool" using al by (simp_all add: allocated_def)
  have "chunk req r \<inter> t = {}" if "t \<in> set (map2 chunk reqs rs1)" for t using ih that c by blast
  moreover have "chunk req r \<subseteq> in_use pool' - in_use pool - headers pool'" using c ih by blast
  moreover have "t \<subseteq> in_use pool' - in_use pool - headers pool'" if "t \<in> set (map2 chunk reqs rs1)" for t using ih that h by blast
  moreover have "headers pool' - headers pool \<subseteq> - in_use pool" using ih h by blast
  moreover have "\<forall>p. r = Some p \<longrightarrow> PJ_IS_ALIGNED p (effective_alignment pool a)" using al by (simp add: allocated_def)
  moreover have "mset mem' + mset (pool_regions pool) = mset mem + mset (pool_regions pool')"
  proof (rule mset_chain)
    show "mset mem' + mset (pool_regions pool1) = mset mem1 + mset (pool_regions pool')" using ih by simp
    show "mset mem1 + mset (pool_regions pool) = mset mem + mset (pool_regions pool1)" using al by (simp add: allocated_def)
  qed
  ultimately show ?case using ih h q rn(2) by auto
qed simp

section \<open>Properties\<close>

text \<open>C5: The chunks that a pool hands out, over any sequence of allocations with whatever alignments, are aligned, pairwise disjoint, and
  disjoint from the headers of the pool and of its blocks; they lie in memory that the factory has handed out to this pool alone.\<close>

theorem pool_chunks_disjoint:
  assumes "good_alloc alloc" "mem_ok mem" "pj_pool_create_int alloc isz inc al mem = (mem0, Some pool)"
    "list_all (\<lambda>(a, sz). request_fits inc (effective_alignment pool a) sz) reqs"
    "pool_run alloc reqs (pool, mem0) = ((pool', mem'), rs)"
  shows "disjoint_list (headers pool' # map2 chunk reqs rs) \<and>
    (\<forall>c \<in> set (map2 chunk reqs rs). c \<subseteq> (\<Union>r \<in> set (pool_regions pool'). mem_region r)) \<and>
    list_all2 (\<lambda>(a, sz) r. \<forall>p. r = Some p \<longrightarrow> PJ_IS_ALIGNED p (effective_alignment pool a)) reqs rs \<and>
    mem_ok mem' \<and> mset mem' = mset mem + mset (pool_regions pool')"
proof -
  note c = create_spec [OF assms(2,1,3)]
  have r: "list_all (\<lambda>(a, sz). request_fits (pl_increment_size pool) (effective_alignment pool a) sz) reqs" using assms(4) c(3) by simp
  note s = pool_run_spec [OF assms(1) c(1) assms(5) r]
  have "c \<subseteq> (\<Union>r \<in> set (pool_regions pool'). mem_region r)" if "c \<in> set (map2 chunk reqs rs)" for c
    using s that in_use_regions [of pool'] by (fastforce simp: pool_in_def)
  moreover have "mset mem' = mset mem + mset (pool_regions pool')" using s c(4) by auto
  ultimately show ?thesis using s by (auto simp: pool_in_def)
qed

text \<open>A request that fits is never answered with \<^verbatim>\<open>NULL\<close> by a pool that may grow while its factory has memory: a new block always has room for
  the chunk that it was requested for.\<close>

theorem pool_alloc_succeeds:
  assumes "good_alloc alloc" "pool_in mem pool" "pl_increment_size pool \<noteq> 0" "a = 0 \<or> PJ_IS_POWER_OF_TWO a"
    "request_fits (pl_increment_size pool) (effective_alignment pool a) sz"
    "alloc mem (expand_size (pl_increment_size pool) (effective_alignment pool a) sz) \<noteq> None"
  shows "\<exists>pool' mem' p. pj_pool_aligned_alloc alloc a sz (pool, mem) = ((pool', mem'), Some p) \<and>
    {unat p ..< unat p + unat sz} \<subseteq> in_use pool' - in_use pool"
proof -
  define a' where "a' = effective_alignment pool a"
  have a: "PJ_IS_POWER_OF_TWO a'" using assms(2,4) by (auto simp: a'_def effective_alignment_def pool_in_def pool_ok_def)
  obtain pool' mem' r where s: "pj_pool_aligned_alloc alloc a sz (pool, mem) = ((pool', mem'), r)" by (metis prod.exhaust)
  obtain x where x: "alloc mem (expand_size (pl_increment_size pool) a' sz) = Some x" using assms(6) by (auto simp: a'_def)
  have "r \<noteq> None"
  proof
    assume "r = None"
    obtain pool1 mem1 ok where c: "pj_pool_create_block alloc (expand_size (pl_increment_size pool) a' sz) (pool, mem) = ((pool1, mem1), ok)"
      by (metis prod.exhaust)
    then have ok using x by (auto simp: pj_pool_create_block_def)
    then obtain b p where "pj_pool_alloc_from_block (hd (pl_block_list pool1)) a' sz = (b, Some p)"
      using allocated_new_block [OF assms(2,1) a assms(5) [folded a'_def] assms(3)] c by metis
    then show False using s \<open>r = None\<close> c \<open>ok\<close> assms(3,4)
      by (auto simp: pj_pool_aligned_alloc_def pj_pool_allocate_find_def Let_def effective_alignment_def [symmetric] a'_def [symmetric] split: prod.splits option.splits)
  qed
  then obtain p where p: "r = Some p" by blast
  have "allocated a' sz (pool, mem) (pool', mem') r" using aligned_alloc_allocated [OF assms(2,1) s] assms(5) by (simp add: effective_alignment_def a'_def)
  then show ?thesis using s p by (auto simp: allocated_def)
qed

text \<open>\<^verbatim>\<open>pj_pool_calloc\<close> hands out the full product of count and size or nothing, also where the product would wrap around.\<close>

theorem pool_calloc_no_wrap:
  assumes "good_alloc alloc" "pool_in mem pool" "pj_pool_calloc alloc n sz (pool, mem) = ((pool', mem'), Some p)"
    "request_fits (pl_increment_size pool) (pl_alignment pool) (sz * n)"
  shows "unat (sz * n) = unat sz * unat n \<and> {unat p ..< unat p + unat sz * unat n} \<subseteq> in_use pool' - in_use pool"
proof -
  have g: "n = 0 \<or> sz \<le> (-1) div n" and s: "pj_pool_aligned_alloc alloc 0 (sz * n) (pool, mem) = ((pool', mem'), Some p)"
    using assms(3) by (auto simp: pj_pool_calloc_def pj_pool_alloc_def split: if_splits)
  have "unat sz * unat n \<le> unat (-1 :: 64 word)"
    using g by (auto simp: word_le_nat_alt unat_div) (metis div_times_less_eq_dividend le_trans mult_le_mono1)
  then have "unat sz * unat n < 2 ^ LENGTH(64)" using unsigned_less [of "-1 :: 64 word", where ?'a = nat] by simp
  then have u: "unat (sz * n) = unat sz * unat n" by (rule unat_mult_lem [THEN iffD1])
  have "allocated (pl_alignment pool) (sz * n) (pool, mem) (pool', mem') (Some p)"
    using aligned_alloc_allocated [OF assms(2,1) s] assms(4) by simp
  then show ?thesis using u by (auto simp: allocated_def)
qed

lemma expand_size_wraps:
  assumes "0 < a" "inc \<noteq> 0" "unat inc < 2 ^ 63" "39 + unat a + unat sz < 2 ^ 64" "2 ^ 64 \<le> unat inc + 39 + unat a + unat sz"
  shows "expand_size inc a sz = 0"
proof -
  let ?n = "sizeof_pool_block + a - 1 + sz"
  have a: "1 \<le> unat a" using assms(1) by (simp add: word_less_nat_alt)
  have n: "unat ?n = 39 + unat a + unat sz"
  proof -
    have "?n = 39 + a + sz" by (simp add: sizeof_pool_block_def)
    moreover have "unat (39 + a) = 39 + unat a" using assms(4) by (subst add_fits) simp_all
    moreover have "unat (39 + a + sz) = unat (39 + a) + unat sz" using assms(4) calculation(2) by (intro add_fits) simp
    ultimately show ?thesis by metis
  qed
  have "inc < ?n" using n assms(3,5) by (simp add: word_less_nat_alt)
  moreover have "unat (inc + ?n) = unat inc + unat ?n - 2 ^ 64"
    using n assms(3-5) by (simp add: unat_word_ariths mod_if le_mod_geq)
  then have "inc + ?n < inc" using n assms(4,5) by (simp add: word_less_nat_alt)
  then have "(inc + ?n) div inc = 0" by (simp add: div_word_less)
  moreover have "inc + sizeof_pool_block + a - 1 + sz = inc + ?n" by simp
  ultimately show ?thesis unfolding expand_size_def by (metis mult_zero_left)
qed

lemma no_room:
  assumes "block_ok b" "PJ_IS_POWER_OF_TWO a" "unat (pb_end b) < unat sz"
  shows "pj_pool_alloc_from_block b a sz = (b, None)"
proof -
  obtain b' r where r: "pj_pool_alloc_from_block b a sz = (b', r)" by fastforce
  show ?thesis
  proof (cases r)
    case None
    then show ?thesis using alloc_from_block_none(1) [of b a sz b'] r assms by simp
  next
    case (Some p)
    note s = alloc_from_block_some [OF r [unfolded Some] assms(1,2)]
    have "unat (pb_cur b') \<le> unat (pb_end b)" using s(2,6) by (simp add: block_ok_def word_le_nat_alt)
    then show ?thesis using s(4) assms(3) by simp
  qed
qed

lemma find_no_room:
  "list_all (\<lambda>b. pj_pool_alloc_from_block b a sz = (b, None)) bs \<Longrightarrow> find_in_blocks a sz n bs = (bs, None)"
  by (induction a sz n bs rule: find_in_blocks.induct) (auto split: prod.splits)

text \<open>A request so large that the arithmetic on the size of the new block wraps around makes the pool ask its factory for a block of no
  bytes, of which it then writes the header.\<close>

theorem pool_alloc_overflow:
  assumes "pool_in mem pool" "pl_increment_size pool \<noteq> 0" "unat (pl_increment_size pool) < 2 ^ 63" "PJ_IS_POWER_OF_TWO a"
    "39 + unat a + unat sz < 2 ^ 64" "2 ^ 64 \<le> unat (pl_increment_size pool) + 39 + unat a + unat sz"
    "list_all (\<lambda>b. unat (pb_end b) < unat sz) (pl_block_list pool)" "alloc mem 0 = Some x" "unat x + 40 < 2 ^ 64"
  shows "\<exists>pool'. pj_pool_aligned_alloc alloc a sz (pool, mem) = ((pool', (x, 0) # mem), None) \<and>
    pl_block_list pool' = \<lparr>pb_addr = x, pb_buf = x + 40, pb_cur = x + 40, pb_end = x\<rparr> # pl_block_list pool \<and>
    pl_no_memory pool' = pl_no_memory pool"
proof -
  have a: "0 < a" "a \<noteq> 0" using assms(4) by (auto simp: PJ_IS_POWER_OF_TWO_def)
  have ok: "list_all block_ok (pl_block_list pool)" "pl_block_list pool \<noteq> []" using assms(1) by (simp_all add: pool_in_def pool_ok_def)
  have n: "list_all (\<lambda>b. pj_pool_alloc_from_block b a sz = (b, None)) (pl_block_list pool)"
    using ok(1) assms(7) no_room [OF _ assms(4)] by (simp add: list_all_iff)
  then have f: "find_in_blocks a sz 0 (pl_block_list pool) = (pl_block_list pool, None)" by (rule find_no_room)
  have h: "pj_pool_alloc_from_block (hd (pl_block_list pool)) a sz = (hd (pl_block_list pool), None)" using n ok(2) by (cases "pl_block_list pool") simp_all
  have e: "expand_size (pl_increment_size pool) a sz = 0" using expand_size_wraps a(1) assms(2,3,5,6) by simp
  have "x < x + 40" using add_fits [of x 40] assms(9) by (simp add: word_less_nat_alt)
  then have c: "pj_pool_alloc_from_block \<lparr>pb_addr = x, pb_buf = x + 40, pb_cur = x + 40, pb_end = x\<rparr> a sz =
      (\<lparr>pb_addr = x, pb_buf = x + 40, pb_cur = x + 40, pb_end = x\<rparr>, None)"
    by (auto simp: pj_pool_alloc_from_block_def Let_def)
  show ?thesis using assms(2,4,8) a(2) f h e c
    by (simp add: pj_pool_aligned_alloc_def pj_pool_allocate_find_def pj_pool_create_block_def sizeof_pool_block_def)
qed

section \<open>Witnesses\<close>

text \<open>An allocator that hands out memory in ascending order.\<close>

definition bump_top :: "regions \<Rightarrow> nat" where
  "bump_top mem = foldr (\<lambda>r m. max (unat (fst r) + unat (snd r)) m) mem 4096"

definition bump_alloc :: block_alloc where
  "bump_alloc mem sz = (if bump_top mem + unat sz < 2 ^ 64 then Some (of_nat (bump_top mem)) else None)"

lemma bump_top_above: "4096 \<le> bump_top mem" "r \<in> set mem \<Longrightarrow> unat (fst r) + unat (snd r) \<le> bump_top mem"
  by (induction mem) (auto simp: bump_top_def)

lemma bump_good: "good_alloc bump_alloc"
proof -
  have "a \<noteq> 0 \<and> unat a + unat sz < 2 ^ 64 \<and> (\<forall>r \<in> set mem. mem_region r \<inter> mem_region (a, sz) = {})" if "bump_alloc mem sz = Some a" for mem sz a
  proof -
    have t: "bump_top mem + unat sz < 2 ^ 64" "a = of_nat (bump_top mem)" using that by (auto simp: bump_alloc_def split: if_splits)
    then have u: "unat a = bump_top mem" by (simp add: unat_of_nat)
    then have "a \<noteq> 0" using bump_top_above(1) [of mem] by auto
    moreover have "mem_region r \<inter> mem_region (a, sz) = {}" if "r \<in> set mem" for r
      using bump_top_above(2) [OF that] u by (auto simp: mem_region_def)
    ultimately show ?thesis using t u by simp
  qed
  then show ?thesis by (simp add: good_alloc_def)
qed

definition demo_pool :: "regions \<times> pj_pool option" where
  "demo_pool = pj_pool_create_int bump_alloc 256 512 0 []"

lemma demo_pool_eq: "demo_pool = ([(4096, 256)], Some \<lparr>pl_addr = 4096, pl_factory_data = 0, pl_capacity = 256, pl_increment_size = 512,
    pl_block_list = [\<lparr>pb_addr = 4232, pb_buf = 4272, pb_cur = 4272, pb_end = 4352\<rparr>], pl_alignment = 4, pl_no_memory = []\<rparr>)"
  by (simp add: demo_pool_def pj_pool_create_int_def pj_pool_init_int_def bump_alloc_def bump_top_def sizeof_pool_def sizeof_pool_block_def
      PJ_POOL_ALIGNMENT_def Let_def)

lemma demo_pool_in: "mem_ok []" "pool_in (fst demo_pool) (the (snd demo_pool))"
proof -
  show "mem_ok []" by (simp add: mem_ok_def)
  from create_spec(1) [OF this bump_good, of 256 512 0 "fst demo_pool" "the (snd demo_pool)"] show "pool_in (fst demo_pool) (the (snd demo_pool))"
    using demo_pool_eq by (simp add: demo_pool_def)
qed

theorem pool_chunks_disjoint_witness:
  "\<exists>pool' mem' rs. pool_run bump_alloc [(0, 10), (16, 3), (0, 600)] (the (snd demo_pool), fst demo_pool) = ((pool', mem'), rs) \<and>
     disjoint_list (map2 chunk [(0, 10), (16, 3), (0, 600)] rs)"
proof -
  obtain pool' mem' rs where r: "pool_run bump_alloc [(0, 10), (16, 3), (0, 600)] (the (snd demo_pool), fst demo_pool) = ((pool', mem'), rs)"
    by (metis prod.exhaust)
  have c: "pj_pool_create_int bump_alloc 256 512 0 [] = (fst demo_pool, Some (the (snd demo_pool)))" using demo_pool_eq by (simp add: demo_pool_def)
  from pool_chunks_disjoint [OF bump_good demo_pool_in(1) c _ r] show ?thesis
    using r by (auto simp: request_fits_def effective_alignment_def demo_pool_eq)
qed

theorem pool_alloc_succeeds_witness:
  "\<exists>pool' mem' p. pj_pool_aligned_alloc bump_alloc 8 1000 (the (snd demo_pool), fst demo_pool) = ((pool', mem'), Some p)"
  using pool_alloc_succeeds [OF bump_good demo_pool_in(2), of 8 1000]
  by (auto simp: demo_pool_eq request_fits_def effective_alignment_def PJ_IS_POWER_OF_TWO_def bump_alloc_def bump_top_def expand_size_def sizeof_pool_block_def)

theorem pool_calloc_no_wrap_witness:
  "\<exists>pool' mem' p. pj_pool_calloc bump_alloc 3 7 (the (snd demo_pool), fst demo_pool) = ((pool', mem'), Some p) \<and>
     {unat p ..< unat p + 21} \<subseteq> in_use pool' - in_use (the (snd demo_pool))"
proof -
  have "snd (pj_pool_calloc bump_alloc 3 7 (the (snd demo_pool), fst demo_pool)) = Some 4272"
    by (simp add: demo_pool_eq pj_pool_calloc_def pj_pool_alloc_def pj_pool_aligned_alloc_def Let_def pj_pool_alloc_from_block_def PJ_POOL_ALIGN_PTR_def)
  then obtain pool' mem' where c: "pj_pool_calloc bump_alloc 3 7 (the (snd demo_pool), fst demo_pool) = ((pool', mem'), Some 4272)"
    by (metis prod.collapse)
  from pool_calloc_no_wrap [OF bump_good demo_pool_in(2) c] show ?thesis using c by (auto simp: demo_pool_eq request_fits_def)
qed

theorem pool_alloc_overflow_witness:
  "\<exists>pool'. pj_pool_aligned_alloc bump_alloc 8 18446744073709551116 (the (snd demo_pool), fst demo_pool) = ((pool', [(4352, 0), (4096, 256)]), None) \<and>
     pb_end (hd (pl_block_list pool')) < pb_buf (hd (pl_block_list pool'))"
  using pool_alloc_overflow [OF demo_pool_in(2), of 8 18446744073709551116 bump_alloc 4352]
  by (auto simp: demo_pool_eq PJ_IS_POWER_OF_TWO_def bump_alloc_def bump_top_def)

end
