(* ===== verification/Pool_Caching.thy ===== *)
theory Pool_Caching
  imports Pool_Props
begin

text \<open>
  The caching pool factory of \<^verbatim>\<open>pjlib/src/pj/pool_caching.c\<close>: released pools of the standard sizes are kept for the next request.  A
  state is the factory together with its memory.  Its lock makes the operations run one at a time.

  The operations keep an invariant from which it follows that the cache never holds more than its maximum, that a pool handed out is
  large enough, empty and in nobody else's hands, and that the end of the factory gives all memory back.
\<close>

definition PJ_CACHING_POOL_ARRAY_SIZE :: nat where "PJ_CACHING_POOL_ARRAY_SIZE = 16"
definition START_SIZE :: nat where "START_SIZE = 5"

definition pool_sizes :: "pj_size_t list" where
  "pool_sizes = [256, 512, 1024, 2048, 4096, 8192, 12288, 16384, 20480, 24576, 28672, 32768, 40960, 49152, 57344, 65536]"

record pj_caching_pool =
  cp_capacity :: pj_size_t
  cp_max_capacity :: pj_size_t
  cp_used_count :: pj_size_t
  cp_free_list :: "pj_pool list list"
  cp_used_list :: "pj_pool list"

definition pj_caching_pool_init :: "pj_size_t \<Rightarrow> pj_caching_pool" where
  "pj_caching_pool_init max_capacity =
     \<lparr>cp_capacity = 0, cp_max_capacity = max_capacity, cp_used_count = 0,
      cp_free_list = replicate PJ_CACHING_POOL_ARRAY_SIZE [], cp_used_list = []\<rparr>"

text \<open>The two loops that look for the size: downwards from \<open>i - 1\<close>, and upwards from \<open>i\<close>.\<close>

fun size_down :: "pj_size_t \<Rightarrow> nat \<Rightarrow> nat" where
  "size_down sz 0 = 0"
| "size_down sz (Suc i) = (if pool_sizes ! i \<ge> sz then size_down sz i else Suc i)"

function size_up :: "pj_size_t \<Rightarrow> nat \<Rightarrow> nat" where
  "size_up sz i = (if i < PJ_CACHING_POOL_ARRAY_SIZE \<and> pool_sizes ! i < sz then size_up sz (i + 1) else i)"
  by pat_completeness auto
termination by (relation "measure (\<lambda>(sz, i). PJ_CACHING_POOL_ARRAY_SIZE - i)") auto

declare size_up.simps [simp del]

definition size_index :: "pj_size_t \<Rightarrow> nat" where
  "size_index sz = (if sz \<le> pool_sizes ! START_SIZE then size_down sz START_SIZE else size_up sz (START_SIZE + 1))"

text \<open>The pool that is created or taken from the cache is put at the end of the list of used ones; the result is its address.\<close>

definition put_in_use :: "nat \<Rightarrow> pj_pool \<Rightarrow> pj_caching_pool \<Rightarrow> pj_caching_pool" where
  "put_in_use idx pool cp =
     cp\<lparr>cp_used_list := cp_used_list cp @ [pool\<lparr>pl_factory_data := idx\<rparr>], cp_used_count := cp_used_count cp + 1\<rparr>"

definition cpool_create_pool ::
    "block_alloc \<Rightarrow> pj_size_t \<Rightarrow> pj_size_t \<Rightarrow> pj_size_t \<Rightarrow> pj_caching_pool \<times> regions \<Rightarrow> (pj_caching_pool \<times> regions) \<times> pj_size_t option" where
  "cpool_create_pool alloc initial_size increment_sz alignment = (\<lambda>(cp, mem).
     let idx = size_index initial_size in
     if idx = PJ_CACHING_POOL_ARRAY_SIZE \<or> cp_free_list cp ! idx = [] then
       (let initial_size = (if idx < PJ_CACHING_POOL_ARRAY_SIZE then pool_sizes ! idx else initial_size) in
        case pj_pool_create_int alloc initial_size increment_sz alignment mem of
          (mem, None) \<Rightarrow> ((cp, mem), None)
        | (mem, Some pool) \<Rightarrow> ((put_in_use idx pool cp, mem), Some (pl_addr pool)))
     else
       (let pool = hd (cp_free_list cp ! idx);
            cp = cp\<lparr>cp_free_list := (cp_free_list cp)[idx := tl (cp_free_list cp ! idx)]\<rparr>;
            pool = pj_pool_init_int increment_sz alignment pool;
            cp = cp\<lparr>cp_capacity := (if cp_capacity cp > pj_pool_get_capacity pool then cp_capacity cp - pj_pool_get_capacity pool else 0)\<rparr> in
        ((put_in_use idx pool cp, mem), Some (pl_addr pool))))"

definition cpool_release_pool :: "pj_pool \<Rightarrow> pj_caching_pool \<times> regions \<Rightarrow> pj_caching_pool \<times> regions" where
  "cpool_release_pool pool = (\<lambda>(cp, mem).
     let cp = cp\<lparr>cp_used_list := remove1 pool (cp_used_list cp), cp_used_count := cp_used_count cp - 1\<rparr>;
         pool_capacity = pj_pool_get_capacity pool in
     if pool_capacity > pool_sizes ! (PJ_CACHING_POOL_ARRAY_SIZE - 1) \<or> cp_capacity cp + pool_capacity > cp_max_capacity cp
     then (cp, pj_pool_destroy_int (pool, mem))
     else
       (case pj_pool_reset (pool, mem) of
          (pool, mem) \<Rightarrow>
            let pool_capacity = pj_pool_get_capacity pool;
                i = pl_factory_data pool in
            if i \<ge> PJ_CACHING_POOL_ARRAY_SIZE then (cp, pj_pool_destroy_int (pool, mem))
            else (cp\<lparr>cp_free_list := (cp_free_list cp)[i := pool # cp_free_list cp ! i], cp_capacity := cp_capacity cp + pool_capacity\<rparr>, mem)))"

text \<open>The end of the factory destroys the cached pools and those the application has not released.\<close>

definition pj_caching_pool_destroy :: "pj_caching_pool \<times> regions \<Rightarrow> pj_caching_pool \<times> regions" where
  "pj_caching_pool_destroy = (\<lambda>(cp, mem).
     (cp\<lparr>cp_free_list := replicate (length (cp_free_list cp)) [], cp_used_list := []\<rparr>,
      foldl (\<lambda>mem pool. pj_pool_destroy_int (pool, mem)) mem (concat (cp_free_list cp) @ cp_used_list cp)))"

section \<open>What an application does\<close>

text \<open>The application allocates from the \<open>i\<close>-th of the pools it uses, and resets it.\<close>

definition on_used :: "nat \<Rightarrow> (pj_pool \<times> regions \<Rightarrow> pj_pool \<times> regions) \<Rightarrow> pj_caching_pool \<times> regions \<Rightarrow> pj_caching_pool \<times> regions" where
  "on_used i f = (\<lambda>(cp, mem).
     case f (cp_used_list cp ! i, mem) of (pool, mem) \<Rightarrow> (cp\<lparr>cp_used_list := (cp_used_list cp)[i := pool]\<rparr>, mem))"

inductive cp_reach :: "block_alloc \<Rightarrow> pj_size_t \<Rightarrow> pj_caching_pool \<times> regions \<Rightarrow> bool" for alloc max_capacity where
  init: "cp_reach alloc max_capacity (pj_caching_pool_init max_capacity, [])"
| create: "cp_reach alloc max_capacity s \<Longrightarrow> a = 0 \<or> PJ_IS_POWER_OF_TWO a \<Longrightarrow>
    cp_reach alloc max_capacity (fst (cpool_create_pool alloc isz inc a s))"
| alloc: "cp_reach alloc max_capacity s \<Longrightarrow> i < length (cp_used_list (fst s)) \<Longrightarrow>
    request_fits (pl_increment_size (cp_used_list (fst s) ! i)) (effective_alignment (cp_used_list (fst s) ! i) a) sz \<Longrightarrow>
    cp_reach alloc max_capacity (on_used i (\<lambda>pm. fst (pj_pool_aligned_alloc alloc a sz pm)) s)"
| reset: "cp_reach alloc max_capacity s \<Longrightarrow> i < length (cp_used_list (fst s)) \<Longrightarrow> cp_reach alloc max_capacity (on_used i pj_pool_reset s)"
| release: "cp_reach alloc max_capacity s \<Longrightarrow> pool \<in> set (cp_used_list (fst s)) \<Longrightarrow> cp_reach alloc max_capacity (cpool_release_pool pool s)"

section \<open>The invariant\<close>

text \<open>Whether the first region of a pool has the size that the factory has noted with it.\<close>

definition sized :: "pj_pool \<Rightarrow> bool" where
  "sized p \<longleftrightarrow> (pl_factory_data p < 16 \<longrightarrow> snd (last (pool_regions p)) = pool_sizes ! pl_factory_data p)"

definition cached :: "nat \<Rightarrow> pj_pool \<Rightarrow> bool" where
  "cached i p \<longleftrightarrow> pool_ok p \<and> pl_factory_data p = i \<and> length (pl_block_list p) = 1 \<and> in_use p = headers p \<and> pl_capacity p = pool_sizes ! i"

definition all_pools :: "pj_caching_pool \<Rightarrow> pj_pool list" where
  "all_pools cp = concat (cp_free_list cp) @ cp_used_list cp"

definition cp_ok :: "pj_size_t \<Rightarrow> pj_caching_pool \<times> regions \<Rightarrow> bool" where
  "cp_ok max_capacity = (\<lambda>(cp, mem).
     length (cp_free_list cp) = 16 \<and> mem_ok mem \<and> mset mem = mset (concat (map pool_regions (all_pools cp))) \<and>
     (\<forall>i < 16. \<forall>p \<in> set (cp_free_list cp ! i). cached i p) \<and> (\<forall>p \<in> set (cp_used_list cp). pool_ok p \<and> sized p) \<and>
     unat (cp_capacity cp) = (\<Sum>i < 16. length (cp_free_list cp ! i) * unat (pool_sizes ! i)) \<and>
     cp_capacity cp \<le> max_capacity \<and> cp_max_capacity cp = max_capacity \<and> cp_used_count cp = of_nat (length (cp_used_list cp)))"

section \<open>Sizes\<close>

lemma size_up_spec: "i \<le> 16 \<Longrightarrow> size_up sz i \<le> 16 \<and> (size_up sz i < 16 \<longrightarrow> sz \<le> pool_sizes ! size_up sz i)"
proof (induction sz i rule: size_up.induct)
  case (1 sz i)
  show ?case
  proof (cases "i < PJ_CACHING_POOL_ARRAY_SIZE \<and> pool_sizes ! i < sz")
    case True
    then have "size_up sz i = size_up sz (i + 1)" by (subst size_up.simps) simp
    then show ?thesis using 1(1) True by (simp add: PJ_CACHING_POOL_ARRAY_SIZE_def)
  next
    case False
    then have "size_up sz i = i" by (subst size_up.simps) auto
    then show ?thesis using 1(2) False by (auto simp: PJ_CACHING_POOL_ARRAY_SIZE_def)
  qed
qed

lemma size_index_spec:
  "size_index sz \<le> 16" "size_index sz < 16 \<Longrightarrow> sz \<le> pool_sizes ! size_index sz"
proof -
  have "size_index sz \<le> 16 \<and> (size_index sz < 16 \<longrightarrow> sz \<le> pool_sizes ! size_index sz)"
  proof (cases "sz \<le> pool_sizes ! START_SIZE")
    case True
    have "size_down sz i \<le> i \<and> (sz \<le> pool_sizes ! i \<longrightarrow> sz \<le> pool_sizes ! size_down sz i)" for i
      by (induction i) auto
    from this [of START_SIZE] True show ?thesis by (simp add: size_index_def START_SIZE_def)
  next
    case False
    then show ?thesis using size_up_spec [of 6 sz] by (simp add: size_index_def START_SIZE_def)
  qed
  then show "size_index sz \<le> 16" "size_index sz < 16 \<Longrightarrow> sz \<le> pool_sizes ! size_index sz" by auto
qed

lemma pool_sizes_bounds: "i < 16 \<Longrightarrow> 176 \<le> pool_sizes ! i \<and> unat (pool_sizes ! i) \<le> 65536"
proof -
  assume i: "i < 16"
  have "list_all (\<lambda>s. 176 \<le> s \<and> unat s \<le> 65536) pool_sizes" by (simp add: pool_sizes_def)
  then show ?thesis using i by (simp add: list_all_length pool_sizes_def)
qed

section \<open>Accounting\<close>

lemma sum_update:
  fixes g :: "nat \<Rightarrow> 'a \<Rightarrow> 'b :: comm_monoid_add"
  assumes "k < length xs"
  shows "(\<Sum>i < length xs. g i (xs[k := y] ! i)) + g k (xs ! k) = (\<Sum>i < length xs. g i (xs ! i)) + g k y"
proof -
  have k: "k \<in> {..<length xs}" using assms by simp
  have "(\<Sum>i \<in> {..<length xs} - {k}. g i (xs[k := y] ! i)) = (\<Sum>i \<in> {..<length xs} - {k}. g i (xs ! i))"
    by (rule sum.cong) auto
  then show ?thesis using assms by (simp add: sum.remove [OF _ k] ac_simps)
qed

definition regs :: "pj_pool list \<Rightarrow> (pj_size_t \<times> pj_size_t) multiset" where
  "regs ps = mset (concat (map pool_regions ps))"

lemma regs_simps [simp]: "regs [] = {#}" "regs (p # ps) = mset (pool_regions p) + regs ps" "regs (ps @ qs) = regs ps + regs qs"
  by (simp_all add: regs_def)

lemma regs_concat: "regs (concat pss) = (\<Sum>i < length pss. regs (pss ! i))"
proof (induction pss rule: rev_induct)
  case (snoc ps pss)
  have "(\<Sum>i < length pss. regs ((pss @ [ps]) ! i)) = (\<Sum>i < length pss. regs (pss ! i))" by (rule sum.cong) (simp_all add: nth_append)
  then show ?case using snoc by (simp add: lessThan_Suc add.commute)
qed simp

lemma regs_update_free:
  "k < length pss \<Longrightarrow> regs (concat (pss[k := ps])) + regs (pss ! k) = regs (concat pss) + regs ps"
  using sum_update [of k pss "\<lambda>_. regs" ps] by (simp add: regs_concat)

lemma regs_update_used: "i < length ps \<Longrightarrow> regs (ps[i := p]) + mset (pool_regions (ps ! i)) = regs ps + mset (pool_regions p)"
proof (induction ps arbitrary: i)
  case (Cons q ps)
  then show ?case by (cases i) (auto simp: ac_simps)
qed simp

lemma regs_remove: "p \<in> set ps \<Longrightarrow> regs ps = mset (pool_regions p) + regs (remove1 p ps)"
  by (induction ps) (auto simp: ac_simps)

lemma pool_in_regs:
  assumes "mem_ok mem" "mset mem = regs ps" "p \<in> set ps" "pool_ok p"
  shows "pool_in mem p"
  using assms regs_remove [OF assms(3)] by (simp add: pool_in_def)

lemma factory_data_same [simp]:
  "pool_regions (p\<lparr>pl_factory_data := i\<rparr>) = pool_regions p" "pool_ok (p\<lparr>pl_factory_data := i\<rparr>) = pool_ok p"
  "in_use (p\<lparr>pl_factory_data := i\<rparr>) = in_use p" "headers (p\<lparr>pl_factory_data := i\<rparr>) = headers p"
proof -
  have s: "starts (p\<lparr>pl_factory_data := i\<rparr>) = starts p" by (simp add: starts_def fun_eq_iff)
  show r: "pool_regions (p\<lparr>pl_factory_data := i\<rparr>) = pool_regions p" by (simp add: pool_regions_def s)
  show "pool_ok (p\<lparr>pl_factory_data := i\<rparr>) = pool_ok p" by (simp add: pool_ok_def r)
  show "in_use (p\<lparr>pl_factory_data := i\<rparr>) = in_use p" "headers (p\<lparr>pl_factory_data := i\<rparr>) = headers p"
    by (simp_all add: in_use_def headers_def s)
qed

lemma init_int_same:
  "pool_regions (pj_pool_init_int inc a p) = pool_regions p" "in_use (pj_pool_init_int inc a p) = in_use p" "headers (pj_pool_init_int inc a p) = headers p"
  "a = 0 \<or> PJ_IS_POWER_OF_TWO a \<Longrightarrow> pool_ok p \<Longrightarrow> pool_ok (pj_pool_init_int inc a p)"
proof -
  have s: "starts (pj_pool_init_int inc a p) = starts p" by (simp add: starts_def fun_eq_iff pj_pool_init_int_def)
  show r: "pool_regions (pj_pool_init_int inc a p) = pool_regions p" "in_use (pj_pool_init_int inc a p) = in_use p"
    "headers (pj_pool_init_int inc a p) = headers p"
    by (simp_all add: pool_regions_def in_use_def headers_def s) (simp_all add: pj_pool_init_int_def)
  show "pool_ok (pj_pool_init_int inc a p)" if "a = 0 \<or> PJ_IS_POWER_OF_TWO a" "pool_ok p"
    using that r(1) by (auto simp: pool_ok_def) (auto simp: pj_pool_init_int_def PJ_IS_POWER_OF_TWO_def PJ_POOL_ALIGNMENT_def)
qed

section \<open>The operations keep the invariant\<close>

lemma cp_okD:
  assumes "cp_ok mx (cp, mem)"
  shows "length (cp_free_list cp) = 16" "mem_ok mem" "mset mem = regs (concat (cp_free_list cp)) + regs (cp_used_list cp)"
    "i < 16 \<Longrightarrow> p \<in> set (cp_free_list cp ! i) \<Longrightarrow> cached i p" "p \<in> set (cp_used_list cp) \<Longrightarrow> pool_ok p \<and> sized p"
    "unat (cp_capacity cp) = (\<Sum>i < 16. length (cp_free_list cp ! i) * unat (pool_sizes ! i))" "cp_capacity cp \<le> mx"
    "cp_max_capacity cp = mx" "cp_used_count cp = of_nat (length (cp_used_list cp))"
  using assms by (auto simp: cp_ok_def all_pools_def regs_def)

lemma cp_okI:
  assumes "length (cp_free_list cp) = 16" "mem_ok mem" "mset mem = regs (concat (cp_free_list cp)) + regs (cp_used_list cp)"
    "\<And>i p. i < 16 \<Longrightarrow> p \<in> set (cp_free_list cp ! i) \<Longrightarrow> cached i p" "\<And>p. p \<in> set (cp_used_list cp) \<Longrightarrow> pool_ok p \<and> sized p"
    "unat (cp_capacity cp) = (\<Sum>i < 16. length (cp_free_list cp ! i) * unat (pool_sizes ! i))" "cp_capacity cp \<le> mx"
    "cp_max_capacity cp = mx" "cp_used_count cp = of_nat (length (cp_used_list cp))"
  shows "cp_ok mx (cp, mem)"
  using assms by (auto simp: cp_ok_def all_pools_def regs_def)

lemma init_cp_ok: "cp_ok mx (pj_caching_pool_init mx, [])"
  by (rule cp_okI) (auto simp: pj_caching_pool_init_def PJ_CACHING_POOL_ARRAY_SIZE_def mem_ok_def regs_def)

text \<open>A new pool, or one from the cache.\<close>

lemma create_new_ok:
  assumes "cp_ok mx (cp, mem)" "good_alloc alloc" "pj_pool_create_int alloc isz inc a mem = (mem', Some pool)" "idx < 16 \<longrightarrow> isz = pool_sizes ! idx"
  shows "cp_ok mx (put_in_use idx pool cp, mem')"
proof -
  note k = cp_okD [OF assms(1)] and c = create_spec [OF cp_okD(2) [OF assms(1)] assms(2,3)]
  have ok: "pool_ok pool" "mem_ok mem'" using c(1) by (simp_all add: pool_in_def)
  obtain x where x: "pool_regions pool = [(x, isz)]" "mem' = (x, isz) # mem" using c(4) by blast
  have "sized (pool\<lparr>pl_factory_data := idx\<rparr>)" using x(1) assms(4) by (simp add: sized_def)
  then show ?thesis using k ok x by (intro cp_okI) (auto simp: put_in_use_def)
qed

lemma reuse_ok:
  assumes "cp_ok mx (cp, mem)" "idx < 16" "cp_free_list cp ! idx = p # ps" "a = 0 \<or> PJ_IS_POWER_OF_TWO a"
  defines "cp1 \<equiv> cp\<lparr>cp_free_list := (cp_free_list cp)[idx := ps], cp_capacity := cp_capacity cp - pool_sizes ! idx\<rparr>"
  shows "cp_ok mx (put_in_use idx (pj_pool_init_int inc a p) cp1, mem)" "pool_sizes ! idx \<le> cp_capacity cp"
proof -
  note k = cp_okD [OF assms(1)]
  have c: "cached idx p" using k(4) assms(2,3) by simp
  let ?g = "\<lambda>i ps. length ps * unat (pool_sizes ! i)"
  have u: "(\<Sum>i < 16. length ((cp_free_list cp)[idx := ps] ! i) * unat (pool_sizes ! i)) + unat (pool_sizes ! idx) = unat (cp_capacity cp)"
    using sum_update [of idx "cp_free_list cp" ?g ps] k(1,6) assms(2,3) by simp
  then show le: "pool_sizes ! idx \<le> cp_capacity cp" by (simp add: word_le_nat_alt)
  then have s: "unat (cp_capacity cp - pool_sizes ! idx) = (\<Sum>i < 16. length ((cp_free_list cp)[idx := ps] ! i) * unat (pool_sizes ! i))"
    using u by (simp add: unat_sub)
  have "cp_capacity cp - pool_sizes ! idx \<le> cp_capacity cp" using le by (simp add: word_le_nat_alt unat_sub)
  then have m: "cp_capacity cp - pool_sizes ! idx \<le> mx" using k(7) by simp
  have r: "regs (concat ((cp_free_list cp)[idx := ps])) + mset (pool_regions p) = regs (concat (cp_free_list cp))"
    using regs_update_free [of idx "cp_free_list cp" ps] k(1) assms(2,3) by (simp add: ac_simps)
  have free: "cached i q" if "i < 16" "q \<in> set ((cp_free_list cp)[idx := ps] ! i)" for i q
    using that k(4) [of i q] k(1) assms(3) by (cases "i = idx") auto
  have "snd (last (pool_regions p)) = pl_capacity p"
    using c by (auto simp: cached_def pool_ok_def pool_regions_def length_Suc_conv)
  then have "sized (pj_pool_init_int inc a p\<lparr>pl_factory_data := idx\<rparr>)" using c by (simp add: sized_def init_int_same cached_def)
  moreover have "pool_ok (pj_pool_init_int inc a p)" using c init_int_same(4) [OF assms(4)] by (simp add: cached_def)
  ultimately show "cp_ok mx (put_in_use idx (pj_pool_init_int inc a p) cp1, mem)"
    using k s m r free by (intro cp_okI) (auto simp: put_in_use_def cp1_def init_int_same ac_simps)
qed

lemma create_pool_cases:
  assumes "cp_ok mx (cp, mem)" "good_alloc alloc" "a = 0 \<or> PJ_IS_POWER_OF_TWO a" "cpool_create_pool alloc isz inc a (cp, mem) = ((cp', mem'), r)"
  obtains "cp' = cp" "mem' = mem" "r = None"
  | pool isz' where "isz \<le> isz'" "pj_pool_create_int alloc isz' inc a mem = (mem', Some pool)" "r = Some (pl_addr pool)"
      "cp' = put_in_use (size_index isz) pool cp" "size_index isz < 16 \<longrightarrow> isz' = pool_sizes ! size_index isz"
  | p ps where "size_index isz < 16" "cp_free_list cp ! size_index isz = p # ps" "r = Some (pl_addr p)" "mem' = mem"
      "cp' = put_in_use (size_index isz) (pj_pool_init_int inc a p)
        (cp\<lparr>cp_free_list := (cp_free_list cp)[size_index isz := ps], cp_capacity := cp_capacity cp - pool_sizes ! size_index isz\<rparr>)"
proof (cases "size_index isz = PJ_CACHING_POOL_ARRAY_SIZE \<or> cp_free_list cp ! size_index isz = []")
  case True
  define isz' where "isz' = (if size_index isz < PJ_CACHING_POOL_ARRAY_SIZE then pool_sizes ! size_index isz else isz)"
  have le: "isz \<le> isz'" "size_index isz < 16 \<longrightarrow> isz' = pool_sizes ! size_index isz"
    using size_index_spec(2) [of isz] by (auto simp: isz'_def PJ_CACHING_POOL_ARRAY_SIZE_def)
  obtain m1 o1 where c: "pj_pool_create_int alloc isz' inc a mem = (m1, o1)" by fastforce
  show ?thesis
  proof (cases o1)
    case None
    then have "m1 = mem" using c by (auto simp: pj_pool_create_int_def Let_def split: if_splits option.splits)
    then show ?thesis using that(1) assms(4) True c None by (auto simp: cpool_create_pool_def Let_def isz'_def)
  next
    case (Some pool)
    then show ?thesis using that(2) [OF le(1), of pool] le(2) assms(4) True c by (auto simp: cpool_create_pool_def Let_def isz'_def)
  qed
next
  case False
  then have i: "size_index isz < 16" using size_index_spec(1) [of isz] by (simp add: PJ_CACHING_POOL_ARRAY_SIZE_def)
  from False obtain p ps where f: "cp_free_list cp ! size_index isz = p # ps" by (cases "cp_free_list cp ! size_index isz") auto
  have c: "pl_capacity p = pool_sizes ! size_index isz" using cp_okD(4) [OF assms(1) i, of p] f by (simp add: cached_def)
  have le: "pool_sizes ! size_index isz \<le> cp_capacity cp" by (rule reuse_ok(2) [OF assms(1) i f assms(3)])
  have "(if cp_capacity cp > pool_sizes ! size_index isz then cp_capacity cp - pool_sizes ! size_index isz else 0) = cp_capacity cp - pool_sizes ! size_index isz"
    using le by auto
  moreover have "pj_pool_get_capacity (pj_pool_init_int inc a p) = pool_sizes ! size_index isz" "pl_addr (pj_pool_init_int inc a p) = pl_addr p"
    using c by (simp_all add: pj_pool_get_capacity_def pj_pool_init_int_def)
  ultimately have "cpool_create_pool alloc isz inc a (cp, mem) = ((put_in_use (size_index isz) (pj_pool_init_int inc a p)
      (cp\<lparr>cp_free_list := (cp_free_list cp)[size_index isz := ps], cp_capacity := cp_capacity cp - pool_sizes ! size_index isz\<rparr>), mem), Some (pl_addr p))"
    using False f by (simp add: cpool_create_pool_def Let_def split: if_splits)
  then show ?thesis using that(3) [OF i f] assms(4) by simp
qed

lemma create_cp_ok:
  assumes "cp_ok mx (cp, mem)" "good_alloc alloc" "a = 0 \<or> PJ_IS_POWER_OF_TWO a" "cpool_create_pool alloc isz inc a (cp, mem) = ((cp', mem'), r)"
  shows "cp_ok mx (cp', mem')"
  using assms
proof (cases rule: create_pool_cases)
  case (2 pool isz')
  then show ?thesis using create_new_ok [OF assms(1,2)] by simp
next
  case (3 p ps)
  then show ?thesis using reuse_ok(1) [OF assms(1) _ _ assms(3)] by simp
qed (use assms(1) in simp)

text \<open>Work on one of the used pools.\<close>

lemma on_used_ok:
  assumes "cp_ok mx (cp, mem)" "i < length (cp_used_list cp)" "f (cp_used_list cp ! i, mem) = (p', mem')"
    "pool_ok p'" "mem_ok mem'" "mset mem' + mset (pool_regions (cp_used_list cp ! i)) = mset mem + mset (pool_regions p')" "sized p'"
  shows "cp_ok mx (on_used i f (cp, mem))"
proof -
  note k = cp_okD [OF assms(1)]
  let ?u = "cp_used_list cp"
  have "mset mem' + mset (pool_regions (?u ! i)) = regs (concat (cp_free_list cp)) + regs (?u[i := p']) + mset (pool_regions (?u ! i))"
    using assms(6) k(3) regs_update_used [OF assms(2), of p'] by (simp add: ac_simps)
  then have m: "mset mem' = regs (concat (cp_free_list cp)) + regs (?u[i := p'])" by simp
  have "q \<in> set (?u[i := p']) \<Longrightarrow> pool_ok q \<and> sized q" for q using k(5) assms(4,7) set_update_subset_insert [of ?u i p'] by blast
  then show ?thesis using k m assms(3,5) by (auto simp: on_used_def intro!: cp_okI)
qed

lemma used_pool_in: "cp_ok mx (cp, mem) \<Longrightarrow> p \<in> set (cp_used_list cp) \<Longrightarrow> pool_in mem p"
  using cp_okD(2,3,5) [of mx cp mem] by (intro pool_in_regs [of mem "concat (cp_free_list cp) @ cp_used_list cp"]) auto

lemma alloc_cp_ok:
  assumes "cp_ok mx (cp, mem)" "good_alloc alloc" "i < length (cp_used_list cp)"
    "request_fits (pl_increment_size (cp_used_list cp ! i)) (effective_alignment (cp_used_list cp ! i) a) sz"
  shows "cp_ok mx (on_used i (\<lambda>pm. fst (pj_pool_aligned_alloc alloc a sz pm)) (cp, mem))"
proof -
  let ?p = "cp_used_list cp ! i"
  have p: "?p \<in> set (cp_used_list cp)" using assms(3) by simp
  obtain p' mem' r where s: "pj_pool_aligned_alloc alloc a sz (?p, mem) = ((p', mem'), r)" by (metis prod.exhaust)
  have al: "allocated (if a = 0 then pl_alignment ?p else a) sz (?p, mem) (p', mem') r"
    using aligned_alloc_allocated [OF used_pool_in [OF assms(1) p] assms(2) s] assms(4) by (simp add: effective_alignment_def)
  have "sized ?p" using cp_okD(5) [OF assms(1) p] by simp
  then show ?thesis using al s by (intro on_used_ok [OF assms(1,3), of _ p' mem']) (auto simp: allocated_def pool_in_def sized_def)
qed

lemma reset_cp_ok:
  assumes "cp_ok mx (cp, mem)" "i < length (cp_used_list cp)"
  shows "cp_ok mx (on_used i pj_pool_reset (cp, mem))"
proof -
  let ?p = "cp_used_list cp ! i"
  have p: "?p \<in> set (cp_used_list cp)" using assms(2) by simp
  obtain p' mem' where s: "reset_pool (?p, mem) = (p', mem')" by fastforce
  note r = reset_pool_spec [OF used_pool_in [OF assms(1) p] s]
  have "sized ?p" using cp_okD(5) [OF assms(1) p] by simp
  then have "sized p'" using r(3,6) by (simp add: sized_def)
  then show ?thesis using r s by (intro on_used_ok [OF assms, of _ p' mem']) (auto simp: pj_pool_reset_def pool_in_def)
qed

text \<open>A released pool.\<close>

lemma length_remove1_Suc: "x \<in> set xs \<Longrightarrow> length xs = Suc (length (remove1 x xs))"
  by (induction xs) auto

lemma dropped_ok:
  assumes "cp_ok mx (cp, mem)" "p \<in> set (cp_used_list cp)" "mset mem' + mset (pool_regions p) = mset mem" "mem_ok mem'"
  shows "cp_ok mx (cp\<lparr>cp_used_list := remove1 p (cp_used_list cp), cp_used_count := cp_used_count cp - 1\<rparr>, mem')"
proof -
  note k = cp_okD [OF assms(1)]
  have "mset mem' + mset (pool_regions p) = regs (concat (cp_free_list cp)) + regs (remove1 p (cp_used_list cp)) + mset (pool_regions p)"
    using assms(3) k(3) regs_remove [OF assms(2)] by (simp add: ac_simps)
  then have m: "mset mem' = regs (concat (cp_free_list cp)) + regs (remove1 p (cp_used_list cp))" by simp
  have "length (cp_used_list cp) = Suc (length (remove1 p (cp_used_list cp)))" using length_remove1_Suc [OF assms(2)] .
  then have "cp_used_count cp - 1 = of_nat (length (remove1 p (cp_used_list cp)))" using k(9) by simp
  moreover have "q \<in> set (remove1 p (cp_used_list cp)) \<Longrightarrow> pool_ok q \<and> sized q" for q using k(5) set_remove1_subset by fast
  ultimately show ?thesis using k m assms(4) by (intro cp_okI) auto
qed

lemma first_region_le:
  assumes "pool_in mem p"
  shows "unat (snd (last (pool_regions p))) \<le> unat (pl_capacity p)"
proof -
  have ok: "pool_ok p" "mem_ok (pool_regions p)" using assms mem_ok_sub by (auto simp: pool_in_def)
  have ne: "pool_regions p \<noteq> []" using ok(1) by (simp add: pool_ok_def pool_regions_def)
  have "unat (snd (last (pool_regions p))) \<le> (\<Sum>r \<leftarrow> pool_regions p. unat (snd r))" using ne by (intro member_le_sum_list) auto
  also have "\<dots> = unat (pl_capacity p)" using regions_total(2) [OF ok(2)] ok(1) by (simp add: pool_ok_def)
  finally show ?thesis .
qed

lemma reset_cached:
  assumes "pool_in mem p" "reset_pool (p, mem) = (p', mem')" "sized p" "pl_factory_data p < 16"
  shows "cached (pl_factory_data p) p'"
proof -
  note r = reset_pool_spec [OF assms(1,2)]
  have ok: "pool_ok p'" using r(1) by (simp add: pool_in_def)
  have "length (pool_regions p') = 1" using r(3) by simp
  then have l: "length (pl_block_list p') = 1" by (simp add: pool_regions_def)
  have "pl_capacity p' = pool_sizes ! pl_factory_data p" using r(7) assms(3,4) by (simp add: sized_def)
  moreover have "in_use p' = headers p'"
    using assms(2) by (auto simp: reset_pool_def Let_def in_use_def headers_def starts_def lessThan_Suc split: list.splits)
  ultimately show ?thesis using ok l r(6) by (simp add: cached_def)
qed

lemma kept_ok:
  assumes "cp_ok mx (cp, mem)" "p \<in> set (cp_used_list cp)" "reset_pool (p, mem) = (p', mem')" "pl_factory_data p < 16"
    "unat (cp_capacity cp) + unat (pl_capacity p) \<le> unat mx"
  defines "cp0 \<equiv> cp\<lparr>cp_used_list := remove1 p (cp_used_list cp), cp_used_count := cp_used_count cp - 1\<rparr>"
  defines "i \<equiv> pl_factory_data p"
  shows "cp_ok mx (cp0\<lparr>cp_free_list := (cp_free_list cp)[i := p' # cp_free_list cp ! i], cp_capacity := cp_capacity cp + pl_capacity p'\<rparr>, mem')"
proof -
  let ?fl = "(cp_free_list cp)[i := p' # cp_free_list cp ! i]"
  note k = cp_okD [OF assms(1)] and pin = used_pool_in [OF assms(1,2)]
  note r = reset_pool_spec [OF pin assms(3)]
  have sz: "sized p" using k(5) [OF assms(2)] by simp
  have c: "cached i p'" using reset_cached [OF pin assms(3) sz assms(4)] by (simp add: i_def)
  have i: "i < length (cp_free_list cp)" "i < 16" using k(1) assms(4) by (simp_all add: i_def)
  have cap: "pl_capacity p' = pool_sizes ! i" using c by (simp add: cached_def)
  have "unat (pl_capacity p') \<le> unat (pl_capacity p)" using first_region_le [OF pin] r(7) by simp
  then have le: "unat (cp_capacity cp) + unat (pl_capacity p') \<le> unat mx" using assms(5) by simp
  then have u: "unat (cp_capacity cp + pl_capacity p') = unat (cp_capacity cp) + unat (pl_capacity p')"
    using unsigned_less [of mx, where ?'a = nat] by (intro add_fits) simp
  have s: "unat (cp_capacity cp + pl_capacity p') = (\<Sum>j < 16. length (?fl ! j) * unat (pool_sizes ! j))"
    using sum_update [OF i(1), of "\<lambda>j ps. length ps * unat (pool_sizes ! j)" "p' # cp_free_list cp ! i"] k(1,6) u cap by simp
  have used: "length (cp_used_list cp) = Suc (length (remove1 p (cp_used_list cp)))" using length_remove1_Suc [OF assms(2)] .
  have f: "regs (concat ?fl) = regs (concat (cp_free_list cp)) + mset (pool_regions p')"
    using regs_update_free [OF i(1), of "p' # cp_free_list cp ! i"] by (simp add: ac_simps)
  have "mset mem' + mset (pool_regions p) = regs (concat ?fl) + regs (remove1 p (cp_used_list cp)) + mset (pool_regions p)"
    using r(2) k(3) f regs_remove [OF assms(2)] by (simp add: ac_simps)
  then have m: "mset mem' = regs (concat ?fl) + regs (remove1 p (cp_used_list cp))" by simp
  have free: "cached j q" if "j < 16" "q \<in> set (?fl ! j)" for j q using that k(1) k(4) [of j q] k(4) [of i q] c i by (cases "j = i") auto
  have mk: "mem_ok mem'" using r(1) by (simp add: pool_in_def)
  have "q \<in> set (remove1 p (cp_used_list cp)) \<Longrightarrow> pool_ok q \<and> sized q" for q using k(5) set_remove1_subset by fast
  then show ?thesis using k(1,8,9) m s le u free mk used by (intro cp_okI) (simp_all add: cp0_def word_le_nat_alt)
qed

lemma release_cp_ok:
  assumes "cp_ok mx (cp, mem)" "p \<in> set (cp_used_list cp)" "unat mx + 65536 < 2 ^ 64"
  shows "cp_ok mx (cpool_release_pool p (cp, mem))"
proof -
  note k = cp_okD [OF assms(1)] and pin = used_pool_in [OF assms(1,2)]
  let ?cp = "cp\<lparr>cp_used_list := remove1 p (cp_used_list cp), cp_used_count := cp_used_count cp - 1\<rparr>"
  have last: "pool_sizes ! (PJ_CACHING_POOL_ARRAY_SIZE - 1) = 65536" by (simp add: pool_sizes_def PJ_CACHING_POOL_ARRAY_SIZE_def)
  obtain p' mem' where r: "reset_pool (p, mem) = (p', mem')" by fastforce
  note rs = reset_pool_spec [OF pin r]
  show ?thesis
  proof (cases "pl_capacity p > 65536 \<or> cp_capacity cp + pl_capacity p > mx")
    case True
    have "cp_ok mx (?cp, pj_pool_destroy_int (p, mem))" by (rule dropped_ok [OF assms(1,2) destroy_spec [OF pin]])
    then show ?thesis using True last k(8) by (simp add: cpool_release_pool_def Let_def pj_pool_get_capacity_def)
  next
    case False
    then have c: "unat (pl_capacity p) \<le> 65536" "cp_capacity cp + pl_capacity p \<le> mx" by (simp_all add: word_le_nat_alt not_less word_less_nat_alt)
    have "unat (cp_capacity cp + pl_capacity p) = unat (cp_capacity cp) + unat (pl_capacity p)"
      using c(1) k(7) assms(3) by (intro add_fits) (simp add: word_le_nat_alt)
    then have f: "unat (cp_capacity cp) + unat (pl_capacity p) \<le> unat mx" using c(2) by (simp add: word_le_nat_alt)
    show ?thesis
    proof (cases "pl_factory_data p < 16")
      case True
      have "cpool_release_pool p (cp, mem) = (?cp\<lparr>cp_free_list := (cp_free_list cp)[pl_factory_data p := p' # cp_free_list cp ! pl_factory_data p],
          cp_capacity := cp_capacity cp + pl_capacity p'\<rparr>, mem')"
        using False True last k(8) r rs(6) by (simp add: cpool_release_pool_def Let_def pj_pool_get_capacity_def pj_pool_reset_def PJ_CACHING_POOL_ARRAY_SIZE_def)
      then show ?thesis using kept_ok [OF assms(1,2) r True f] by simp
    next
      case big: False
      have d: "mset (pj_pool_destroy_int (p', mem')) + mset (pool_regions p) = mset mem"
        using destroy_spec(1) [OF rs(1)] rs(2) by (rule mset_shift)
      have "cp_ok mx (?cp, pj_pool_destroy_int (p', mem'))" by (rule dropped_ok [OF assms(1,2) d destroy_spec(2) [OF rs(1)]])
      then show ?thesis
        using False big last k(8) r rs(6) by (simp add: cpool_release_pool_def Let_def pj_pool_get_capacity_def pj_pool_reset_def PJ_CACHING_POOL_ARRAY_SIZE_def)
    qed
  qed
qed

lemma reach_cp_ok:
  assumes "cp_reach alloc mx s" "good_alloc alloc" "unat mx + 65536 < 2 ^ 64"
  shows "cp_ok mx s"
  using assms(1)
proof (induction rule: cp_reach.induct)
  case (create s a isz inc)
  then show ?case using create_cp_ok [OF _ assms(2), of mx "fst s" "snd s" a isz inc] by (metis prod.collapse)
next
  case (alloc s i a sz)
  then show ?case using alloc_cp_ok [OF _ assms(2), of mx "fst s" "snd s" i a sz] by simp
next
  case (reset s i)
  then show ?case using reset_cp_ok [of mx "fst s" "snd s" i] by simp
next
  case (release s pool)
  then show ?case using release_cp_ok [OF _ _ assms(3), of "fst s" "snd s" pool] by simp
qed (rule init_cp_ok)

section \<open>Properties\<close>

lemma destroy_all:
  assumes "mem_ok mem" "mset mem = regs ps" "list_all pool_ok ps"
  shows "foldl (\<lambda>mem pool. pj_pool_destroy_int (pool, mem)) mem ps = []"
  using assms
proof (induction ps arbitrary: mem)
  case (Cons p ps)
  have pin: "pool_in mem p" by (rule pool_in_regs [OF Cons.prems(1,2)]) (use Cons.prems(3) in simp_all)
  note d = destroy_spec [OF pin]
  have "mset (pj_pool_destroy_int (p, mem)) + mset (pool_regions p) = regs ps + mset (pool_regions p)" using d(1) Cons.prems(2) by (simp add: ac_simps)
  then have "mset (pj_pool_destroy_int (p, mem)) = regs ps" by simp
  then show ?case using Cons.IH [OF d(2)] Cons.prems(3) by simp
qed simp

lemma sum_concat: "(\<Sum>p \<leftarrow> concat pss. (f p :: nat)) = (\<Sum>i < length pss. \<Sum>p \<leftarrow> pss ! i. f p)"
proof (induction pss rule: rev_induct)
  case (snoc ps pss)
  have "(\<Sum>i < length pss. \<Sum>p \<leftarrow> (pss @ [ps]) ! i. f p) = (\<Sum>i < length pss. \<Sum>p \<leftarrow> pss ! i. f p)" by (rule sum.cong) (simp_all add: nth_append)
  then show ?case using snoc by (simp add: lessThan_Suc)
qed simp

lemma cached_total:
  assumes "cp_ok mx (cp, mem)"
  shows "(\<Sum>p \<leftarrow> concat (cp_free_list cp). unat (pl_capacity p)) = unat (cp_capacity cp)"
proof -
  note k = cp_okD [OF assms]
  have "(\<Sum>p \<leftarrow> ps. unat (pl_capacity p)) = length ps * unat (pool_sizes ! i)" if "\<forall>p \<in> set ps. cached i p" for ps i
    using that by (induction ps) (simp_all add: cached_def)
  then have "(\<Sum>i < 16. \<Sum>p \<leftarrow> cp_free_list cp ! i. unat (pl_capacity p)) = (\<Sum>i < 16. length (cp_free_list cp ! i) * unat (pool_sizes ! i))"
    using k(4) by (intro sum.cong) auto
  then show ?thesis using k(1,6) by (simp add: sum_concat)
qed

lemma all_ok: "cp_ok mx (cp, mem) \<Longrightarrow> list_all pool_ok (concat (cp_free_list cp) @ cp_used_list cp)"
proof -
  assume ok: "cp_ok mx (cp, mem)"
  note k = cp_okD [OF ok]
  have "pool_ok p" if p: "p \<in> set ps" "ps \<in> set (cp_free_list cp)" for p ps
  proof -
    obtain i where "i < length (cp_free_list cp)" "ps = cp_free_list cp ! i" using p(2) by (metis in_set_conv_nth)
    then show ?thesis using k(1) k(4) [of i p] p(1) by (simp add: cached_def)
  qed
  then show ?thesis using k(5) by (auto simp: list_all_iff)
qed

text \<open>C6: Whatever an application does with the pools of a caching factory, the cache holds exactly the capacity that the factory has
  noted and never more than its maximum, every region of memory belongs to exactly one pool, and the end of the factory gives
  all memory back, whether the application has released its pools or not.\<close>

theorem cpool_no_leak:
  assumes "good_alloc alloc" "unat max_capacity + 65536 < 2 ^ 64" "cp_reach alloc max_capacity (cp, mem)"
  shows "cp_capacity cp \<le> max_capacity \<and> unat (cp_capacity cp) = (\<Sum>p \<leftarrow> concat (cp_free_list cp). unat (pl_capacity p)) \<and>
    mem_ok mem \<and> mset mem = mset (concat (map pool_regions (all_pools cp))) \<and> snd (pj_caching_pool_destroy (cp, mem)) = []"
proof -
  have ok: "cp_ok max_capacity (cp, mem)" by (rule reach_cp_ok [OF assms(3,1,2)])
  note k = cp_okD [OF ok]
  have "foldl (\<lambda>mem pool. pj_pool_destroy_int (pool, mem)) mem (concat (cp_free_list cp) @ cp_used_list cp) = []"
    by (rule destroy_all [OF k(2) _ all_ok [OF ok]]) (use k(3) in simp)
  then have "snd (pj_caching_pool_destroy (cp, mem)) = []" by (simp add: pj_caching_pool_destroy_def)
  then show ?thesis using k(2,3,7) cached_total [OF ok] by (simp add: all_pools_def regs_def)
qed

lemma apart:
  assumes "mem_ok mem" "mset mem = M + mset rs + mset ss" "r \<in> set rs" "s \<in> set ss"
  shows "mem_region r \<inter> mem_region s = {}"
proof -
  have m: "mem_ok (rs @ ss)" by (rule mem_ok_sub [OF _ assms(1)]) (simp add: assms(2) add.assoc)
  obtain i j where "i < length rs" "r = rs ! i" "j < length ss" "s = ss ! j" using assms(3,4) by (metis in_set_conv_nth)
  then show ?thesis using mem_ok_disjoint [OF m, of i "length rs + j"] by (simp add: nth_append)
qed

text \<open>A pool that the factory hands out, new or from the cache, is at least as large as requested, has nothing allocated in it, and
  shares no memory with any other pool in use.\<close>

theorem cpool_create_fresh:
  assumes "good_alloc alloc" "unat max_capacity + 65536 < 2 ^ 64" "cp_reach alloc max_capacity (cp, mem)" "a = 0 \<or> PJ_IS_POWER_OF_TWO a"
    "cpool_create_pool alloc isz inc a (cp, mem) = ((cp', mem'), Some addr)"
  shows "\<exists>pool. cp_used_list cp' = cp_used_list cp @ [pool] \<and> pl_addr pool = addr \<and> isz \<le> pj_pool_get_capacity pool \<and> in_use pool = headers pool \<and>
    (\<forall>q \<in> set (cp_used_list cp). \<forall>r \<in> set (pool_regions q). \<forall>s \<in> set (pool_regions pool). mem_region r \<inter> mem_region s = {})"
proof -
  have ok: "cp_ok max_capacity (cp, mem)" by (rule reach_cp_ok [OF assms(3,1,2)])
  note k' = cp_okD [OF create_cp_ok [OF ok assms(1,4,5)]]
  have "\<exists>pool. cp_used_list cp' = cp_used_list cp @ [pool] \<and> pl_addr pool = addr \<and> isz \<le> pj_pool_get_capacity pool \<and> in_use pool = headers pool"
    using ok assms(1,4,5)
  proof (cases rule: create_pool_cases)
    case (2 pool isz')
    note c = create_spec [OF cp_okD(2) [OF ok] assms(1) 2(2)]
    have "in_use pool = headers pool"
      using 2(2) by (auto simp: pj_pool_create_int_def pj_pool_init_int_def Let_def in_use_def headers_def starts_def lessThan_Suc split: if_splits option.splits)
    then show ?thesis using 2 c(2) by (simp add: put_in_use_def pj_pool_get_capacity_def)
  next
    case (3 p ps)
    have "cached (size_index isz) p" using cp_okD(4) [OF ok 3(1)] 3(2) by simp
    then have "pl_capacity p = pool_sizes ! size_index isz" "in_use p = headers p" by (simp_all add: cached_def)
    moreover have "pl_capacity (pj_pool_init_int inc a p) = pl_capacity p" "pl_addr (pj_pool_init_int inc a p) = pl_addr p" by (simp_all add: pj_pool_init_int_def)
    ultimately show ?thesis using 3 size_index_spec(2) [OF 3(1)] by (simp add: put_in_use_def pj_pool_get_capacity_def init_int_same)
  qed simp
  then obtain pool where p: "cp_used_list cp' = cp_used_list cp @ [pool]" "pl_addr pool = addr" "isz \<le> pj_pool_get_capacity pool" "in_use pool = headers pool"
    by blast
  have "mem_region r \<inter> mem_region s = {}" if "q \<in> set (cp_used_list cp)" "r \<in> set (pool_regions q)" "s \<in> set (pool_regions pool)" for q r s
  proof (rule apart [OF k'(2) _ that(2,3)])
    show "mset mem' = regs (concat (cp_free_list cp')) + regs (remove1 q (cp_used_list cp)) + mset (pool_regions q) + mset (pool_regions pool)"
      using k'(3) p(1) regs_remove [OF that(1)] by (simp add: ac_simps)
  qed
  then show ?thesis using p by blast
qed

section \<open>Witnesses\<close>

definition demo_factory :: "pj_caching_pool \<times> regions" where
  "demo_factory = fst (cpool_create_pool bump_alloc 300 1000 0 (pj_caching_pool_init 100000, []))"

lemma demo_factory_reach: "cp_reach bump_alloc 100000 demo_factory"
  unfolding demo_factory_def by (rule cp_reach.create [OF cp_reach.init]) simp

theorem cpool_no_leak_witness: "snd (pj_caching_pool_destroy demo_factory) = []"
  using cpool_no_leak [OF bump_good, of 100000 "fst demo_factory" "snd demo_factory"] demo_factory_reach by simp

theorem cpool_create_fresh_witness:
  "\<exists>pool. cp_used_list (fst demo_factory) = [pool] \<and> pl_addr pool = 4096 \<and> 300 \<le> pj_pool_get_capacity pool"
proof -
  have "size_index 300 = 1" by code_simp
  then have "snd (cpool_create_pool bump_alloc 300 1000 0 (pj_caching_pool_init 100000, [])) = Some 4096"
    by (simp add: cpool_create_pool_def pj_caching_pool_init_def PJ_CACHING_POOL_ARRAY_SIZE_def pool_sizes_def pj_pool_create_int_def
        sizeof_pool_def sizeof_pool_block_def bump_alloc_def bump_top_def pj_pool_init_int_def Let_def)
  then obtain cp' mem' where c: "cpool_create_pool bump_alloc 300 1000 0 (pj_caching_pool_init 100000, []) = ((cp', mem'), Some 4096)"
    by (metis prod.collapse)
  from cpool_create_fresh [OF bump_good _ cp_reach.init _ c] show ?thesis by (simp add: demo_factory_def c) (auto simp: pj_caching_pool_init_def)
qed

end
